(* ===== verification/Prelude.thy ===== *)
theory Prelude
  imports Complex_Main "HOL-Library.AList" "HOL-Library.Sublist"
begin

text \<open>
  Shared vocabulary of the development: Python dictionaries as insertion-ordered
  association lists, Python sets that are iterated as duplicate-free lists, the few string
  methods the sources use, sums over the values of a dictionary, and two small locales,
  one for invariants of step functions and one for reference-counted resources.
\<close>

section \<open>Names of the model's basic types\<close>

type_synonym req_id = string
type_synonym job_id = int
type_synonym shard = string
type_synonym path = string

text \<open>Seconds read from a Python clock (a float in the code, an exact real here).\<close>

type_synonym seconds = real

named_theorems dict_simps "rewrite rules for dictionaries"
named_theorems sum_simps "effect of one dictionary update on a sum over its values"

section \<open>Dictionaries\<close>

text \<open>
  A Python dict keeps the position of a key that is assigned again and appends a new key,
  which is what \<^term>\<open>AList.update\<close> does; \<open>pop\<close> and \<open>del\<close> are \<^term>\<open>AList.delete\<close>.
\<close>

type_synonym ('k, 'v) dict = "('k \<times> 'v) list"

abbreviation dict_ok :: "('k, 'v) dict \<Rightarrow> bool" where
  "dict_ok d \<equiv> distinct (map fst d)"

abbreviation dput :: "'k \<Rightarrow> 'v \<Rightarrow> ('k, 'v) dict \<Rightarrow> ('k, 'v) dict" where
  "dput \<equiv> AList.update"

abbreviation dpop :: "'k \<Rightarrow> ('k, 'v) dict \<Rightarrow> ('k, 'v) dict" where
  "dpop \<equiv> AList.delete"

definition dget :: "('k, 'v) dict \<Rightarrow> 'k \<Rightarrow> 'v \<Rightarrow> 'v" where
  "dget d k dflt = (case map_of d k of None \<Rightarrow> dflt | Some v \<Rightarrow> v)"

lemma map_of_dput [simp, dict_simps]: "map_of (dput k v d) j = (if j = k then Some v else map_of d j)"
  by (simp add: update_conv')

lemma map_of_dpop [simp, dict_simps]: "map_of (dpop k d) j = (if j = k then None else map_of d j)"
  by (auto simp: delete_conv' restrict_map_def)

lemma dget_dput [simp, dict_simps]: "dget (dput k v d) j x = (if j = k then v else dget d j x)"
  by (simp add: dget_def)

lemma dget_dpop [simp, dict_simps]: "dget (dpop k d) j x = (if j = k then x else dget d j x)"
  by (simp add: dget_def)

lemma dget_Nil [simp]: "dget [] k x = x"
  by (simp add: dget_def)

lemma dict_ok_dput [simp, intro]: "dict_ok d \<Longrightarrow> dict_ok (dput k v d)"
  by (rule distinct_update)

lemma dict_ok_dpop [simp, intro]: "dict_ok d \<Longrightarrow> dict_ok (dpop k d)"
  by (rule distinct_delete)

lemma length_dpop_le: "length (dpop k d) \<le> length d"
  by (rule length_delete_le)

lemma dput_absent: "k \<notin> fst ` set d \<Longrightarrow> dput k v d = d @ [(k, v)]"
  by (induction d) auto

lemma length_dput: "length (dput k v d) = (if k \<in> fst ` set d then length d else Suc (length d))"
  by (induction d) auto

lemma dpop_absent: "map_of d k = None \<Longrightarrow> dpop k d = d"
  by (induction d) (auto split: if_splits)

lemma length_dpop_present:
  "dict_ok d \<Longrightarrow> map_of d k = Some v \<Longrightarrow> length d = Suc (length (dpop k d))"
proof (induction d)
  case (Cons p d)
  show ?case
  proof (cases "fst p = k")
    case True
    with Cons.prems have "map_of d k = None"
      by (cases p) (auto simp: map_of_eq_None_iff)
    with True show ?thesis by (cases p) (simp add: dpop_absent)
  next
    case False
    with Cons show ?thesis by (cases p) auto
  qed
qed simp

section \<open>Sums over the values of a dictionary\<close>

definition dict_sum :: "('v \<Rightarrow> nat) \<Rightarrow> ('k, 'v) dict \<Rightarrow> nat" where
  "dict_sum f d = sum_list (map (\<lambda>(k, v). f v) d)"

lemma dict_sum_Nil [simp]: "dict_sum f [] = 0"
  by (simp add: dict_sum_def)

lemma dict_sum_Cons [simp]: "dict_sum f ((k, v) # d) = f v + dict_sum f d"
  by (simp add: dict_sum_def)

text \<open>What the dictionary holds at one key, through \<open>f\<close>.\<close>

definition at_key :: "('v \<Rightarrow> nat) \<Rightarrow> ('k, 'v) dict \<Rightarrow> 'k \<Rightarrow> nat" where
  "at_key f d k = (case map_of d k of None \<Rightarrow> 0 | Some v \<Rightarrow> f v)"

lemma at_key_dput [simp]: "at_key f (dput k v d) j = (if j = k then f v else at_key f d j)"
  by (simp add: at_key_def)

lemma at_key_dpop [simp]: "at_key f (dpop k d) j = (if j = k then 0 else at_key f d j)"
  by (simp add: at_key_def)

lemma at_key_None [simp]: "map_of d k = None \<Longrightarrow> at_key f d k = 0"
  by (simp add: at_key_def)

lemma at_key_Some [simp]: "map_of d k = Some v \<Longrightarrow> at_key f d k = f v"
  by (simp add: at_key_def)

lemma dict_sum_dpop [sum_simps]: "dict_ok d \<Longrightarrow> dict_sum f (dpop k d) + at_key f d k = dict_sum f d"
proof (induction d)
  case (Cons p d)
  show ?case
  proof (cases "fst p = k")
    case True
    with Cons.prems have "map_of d k = None"
      by (cases p) (auto simp: map_of_eq_None_iff)
    with True show ?thesis by (cases p) (simp add: dpop_absent)
  next
    case False
    with Cons show ?thesis by (cases p) (auto simp: at_key_def)
  qed
qed simp

lemma dict_sum_dput [sum_simps]:
  "dict_sum f (dput k v d) + at_key f d k = dict_sum f d + f v"
  by (induction d) (auto simp: at_key_def)

lemma at_key_le_dict_sum: "at_key f d k \<le> dict_sum f d"
  by (induction d) (auto simp: at_key_def)

section \<open>Sets that the code iterates\<close>

definition set_add :: "'a \<Rightarrow> 'a list \<Rightarrow> 'a list" where
  "set_add x xs = (if x \<in> set xs then xs else xs @ [x])"

definition set_discard :: "'a \<Rightarrow> 'a list \<Rightarrow> 'a list" where
  "set_discard x xs = filter (\<lambda>y. y \<noteq> x) xs"

lemma set_set_add [simp]: "set (set_add x xs) = insert x (set xs)"
  by (auto simp: set_add_def)

lemma set_set_discard [simp]: "set (set_discard x xs) = set xs - {x}"
  by (auto simp: set_discard_def)

lemma distinct_set_add [simp]: "distinct xs \<Longrightarrow> distinct (set_add x xs)"
  by (simp add: set_add_def)

lemma distinct_set_discard [simp]: "distinct xs \<Longrightarrow> distinct (set_discard x xs)"
  by (simp add: set_discard_def)

lemma count_list_distinct: "distinct xs \<Longrightarrow> count_list xs x = (if x \<in> set xs then 1 else 0)"
  by (induction xs) auto

section \<open>Strings\<close>

abbreviation startswith :: "string \<Rightarrow> string \<Rightarrow> bool" where
  "startswith s p \<equiv> prefix p s"

definition endswith :: "string \<Rightarrow> string \<Rightarrow> bool" where
  "endswith s p = suffix p s"

text \<open>The ASCII characters that \<open>str.isspace\<close> accepts and \<open>str.strip\<close> removes.\<close>

definition is_space :: "char \<Rightarrow> bool" where
  "is_space c = (c \<in> {CHR '' '', CHR 0x09, CHR 0x0A, CHR 0x0B, CHR 0x0C, CHR 0x0D,
                      CHR 0x1C, CHR 0x1D, CHR 0x1E, CHR 0x1F})"

definition lstrip :: "string \<Rightarrow> string" where
  "lstrip s = dropWhile is_space s"

definition rstrip :: "string \<Rightarrow> string" where
  "rstrip s = rev (dropWhile is_space (rev s))"

definition strip :: "string \<Rightarrow> string" where
  "strip s = rstrip (lstrip s)"

lemma prefix_rstrip: "prefix (rstrip s) s"
  by (metis rstrip_def suffix_dropWhile suffix_to_prefix rev_rev_ident)

lemma rstrip_split: "rstrip s @ drop (length (rstrip s)) s = s"
  by (metis append_eq_conv_conj prefixE prefix_rstrip)

lemma lstrip_eq_Nil_iff: "lstrip s = [] \<longleftrightarrow> (\<forall>c \<in> set s. is_space c)"
  by (simp add: lstrip_def)

lemma rstrip_eq_Nil_iff: "rstrip s = [] \<longleftrightarrow> (\<forall>c \<in> set s. is_space c)"
  by (simp add: rstrip_def)

lemma strip_eq_Nil_iff: "strip s = [] \<longleftrightarrow> (\<forall>c \<in> set s. is_space c)"
proof -
  have "(\<forall>c \<in> set (lstrip s). is_space c) \<longleftrightarrow> (\<forall>c \<in> set s. is_space c)"
  proof
    assume *: "\<forall>c \<in> set (lstrip s). is_space c"
    then have "lstrip s = []"
      by (metis hd_dropWhile list.set_sel(1) lstrip_def)
    then show "\<forall>c \<in> set s. is_space c" by (simp add: lstrip_eq_Nil_iff)
  qed (auto simp: lstrip_def dest: set_dropWhileD)
  then show ?thesis by (simp add: strip_def rstrip_eq_Nil_iff)
qed

section \<open>Invariants of step functions\<close>

text \<open>
  Several components are step functions driven by a list of events. The locale is the
  contract of such a component: what its start state and every step keep, every run keeps.
\<close>

definition run :: "('e \<Rightarrow> 's \<Rightarrow> 's) \<Rightarrow> 'e list \<Rightarrow> 's \<Rightarrow> 's" where
  "run step es s = fold step es s"

lemma run_Nil [simp]: "run step [] s = s"
  by (simp add: run_def)

lemma run_Cons [simp]: "run step (e # es) s = run step es (step e s)"
  by (simp add: run_def)

lemma run_append [simp]: "run step (es @ fs) s = run step fs (run step es s)"
  by (simp add: run_def)

text \<open>Runs in which every event is one the environment may really produce.\<close>

fun admissible :: "('e \<Rightarrow> 's \<Rightarrow> bool) \<Rightarrow> ('e \<Rightarrow> 's \<Rightarrow> 's) \<Rightarrow> 'e list \<Rightarrow> 's \<Rightarrow> bool" where
  "admissible guard step [] s \<longleftrightarrow> True"
| "admissible guard step (e # es) s \<longleftrightarrow> guard e s \<and> admissible guard step es (step e s)"

locale guarded_invariant =
  fixes step :: "'e \<Rightarrow> 's \<Rightarrow> 's"
    and inv :: "'s \<Rightarrow> bool"
    and guard :: "'e \<Rightarrow> 's \<Rightarrow> bool"
  assumes inv_guarded: "inv s \<Longrightarrow> guard e s \<Longrightarrow> inv (step e s)"
begin

lemma inv_admissible: "inv s \<Longrightarrow> admissible guard step es s \<Longrightarrow> inv (run step es s)"
  by (induction es arbitrary: s) (auto intro: inv_guarded)

end

locale step_invariant =
  fixes step :: "'e \<Rightarrow> 's \<Rightarrow> 's"
    and inv :: "'s \<Rightarrow> bool"
  assumes inv_step: "inv s \<Longrightarrow> inv (step e s)"
begin

lemma inv_run: "inv s \<Longrightarrow> inv (run step es s)"
  by (induction es arbitrary: s) (auto intro: inv_step)

end

sublocale step_invariant \<subseteq> guarded_invariant step inv "\<lambda>e s. True"
  by unfold_locales (rule inv_step)

section \<open>Reference-counted resources\<close>

text \<open>
  The contract of a counted resource: what taking and giving back one reference does to the
  counts and to the rest of the state. The lemmas are about the loops a client runs.
\<close>

locale refcounted =
  fixes acquire :: "'k \<Rightarrow> 's \<Rightarrow> bool \<times> 's"
    and release :: "'k \<Rightarrow> 's \<Rightarrow> 's"
    and refs :: "'s \<Rightarrow> 'k \<Rightarrow> nat"
    and frame :: "'s \<Rightarrow> 'r"
    and ok :: "'s \<Rightarrow> bool"
  assumes refs_acquire: "refs (snd (acquire k s)) j =
      (if j = k \<and> fst (acquire k s) then Suc (refs s j) else refs s j)"
    and refs_release: "refs (release k s) j = (if j = k then refs s j - 1 else refs s j)"
    and frame_acquire: "frame (snd (acquire k s)) = frame s"
    and frame_release: "frame (release k s) = frame s"
    and ok_acquire: "ok s \<Longrightarrow> ok (snd (acquire k s))"
    and ok_release: "ok s \<Longrightarrow> ok (release k s)"
begin

lemma refs_release_all: "refs (fold release ks s) j = refs s j - count_list ks j"
  by (induction ks arbitrary: s) (auto simp: refs_release)

lemma frame_release_all: "frame (fold release ks s) = frame s"
  by (induction ks arbitrary: s) (auto simp: frame_release)

lemma ok_release_all: "ok s \<Longrightarrow> ok (fold release ks s)"
  by (induction ks arbitrary: s) (auto intro: ok_release)

lemma refs_pow: "refs ((release k ^^ n) s) j = (if j = k then refs s j - n else refs s j)"
  by (induction n) (auto simp: refs_release)

lemma release_pow_fold: "(release k ^^ n) s = fold release (replicate n k) s"
  by (induction n arbitrary: s) (simp_all add: funpow_swap1)

end

end
