(* ===== verification/FailOpen.thy ===== *)
theory FailOpen
  imports Prelude
begin

text \<open>
  \<open>src/patches/kv_lookup_fail_open.py\<close>: the deadline and circuit-breaker policy that turns
  an optional external lookup into a cache miss. \<open>_deferred\<close> is a dict from request to the
  time its lookup was first deferred; the two delta counters are the ones \<open>snapshot\<close> reads
  and resets. Times are passed in by the caller, as in the code. Lemmas: the effect of each
  operation on the deferred table, the admission contract, and the run of a scheduler that
  uses the policy as \<open>get_num_new_matched_tokens\<close> does.
\<close>

section \<open>State\<close>

record policy =
  timeout_seconds :: seconds
  circuit_breaker_seconds :: seconds
  timeout_threshold :: int
  max_concurrent_lookups :: int
  deferred :: "(req_id, seconds) dict"
  consecutive_timeouts :: int
  circuit_open_until :: seconds
  timeout_delta :: int
  circuit_bypass_delta :: int

datatype policy_error = Timeout_not_positive | Breaker_not_positive
  | Threshold_not_positive | Concurrency_not_positive

datatype bypass = Circuit_open | Lookup_in_flight | Deadline

record snapshot =
  deferred_requests :: nat
  oldest_deferred_seconds :: seconds
  circuit_is_open :: bool
  timeout_total :: int
  circuit_bypass_total :: int

section \<open>Operations\<close>

definition init_policy :: "seconds \<Rightarrow> seconds \<Rightarrow> int \<Rightarrow> int \<Rightarrow> policy_error + policy" where
  "init_policy timeout breaker threshold conc =
     (if timeout \<le> 0 then Inl Timeout_not_positive
      else if breaker \<le> 0 then Inl Breaker_not_positive
      else if threshold \<le> 0 then Inl Threshold_not_positive
      else if conc \<le> 0 then Inl Concurrency_not_positive
      else Inr \<lparr>timeout_seconds = timeout, circuit_breaker_seconds = breaker,
        timeout_threshold = threshold, max_concurrent_lookups = conc, deferred = [],
        consecutive_timeouts = 0, circuit_open_until = 0, timeout_delta = 0,
        circuit_bypass_delta = 0\<rparr>)"

definition circuit_bypass_reason :: "req_id \<Rightarrow> seconds \<Rightarrow> policy \<Rightarrow> bypass option \<times> policy" where
  "circuit_bypass_reason r now p =
     (if now < circuit_open_until p then
        (Some Circuit_open,
         p\<lparr>deferred := dpop r (deferred p),
           circuit_bypass_delta := circuit_bypass_delta p + 1\<rparr>)
      else if map_of (deferred p) r = None
        \<and> int (length (deferred p)) \<ge> max_concurrent_lookups p then
        (Some Lookup_in_flight, p\<lparr>circuit_bypass_delta := circuit_bypass_delta p + 1\<rparr>)
      else (None, p))"

definition expire :: "req_id \<Rightarrow> seconds \<Rightarrow> policy \<Rightarrow> policy" where
  "expire r now p =
     (let p1 = p\<lparr>deferred := dpop r (deferred p),
                 consecutive_timeouts := consecutive_timeouts p + 1,
                 timeout_delta := timeout_delta p + 1\<rparr>
      in if consecutive_timeouts p1 \<ge> timeout_threshold p1
         then p1\<lparr>circuit_open_until := now + circuit_breaker_seconds p1\<rparr> else p1)"

definition bypass_reason :: "req_id \<Rightarrow> seconds \<Rightarrow> policy \<Rightarrow> bypass option \<times> policy" where
  "bypass_reason r now p =
     (case circuit_bypass_reason r now p of
        (Some why, p1) \<Rightarrow> (Some why, p1)
      | (None, p1) \<Rightarrow>
          (case map_of (deferred p1) r of
             None \<Rightarrow> (None, p1)
           | Some started \<Rightarrow>
               if now < started + timeout_seconds p1 then (None, p1)
               else (Some Deadline, expire r now p1)))"

definition defer_lookup :: "req_id \<Rightarrow> seconds \<Rightarrow> policy \<Rightarrow> policy" where
  "defer_lookup r started p =
     (if map_of (deferred p) r = None
      then p\<lparr>deferred := dput r started (deferred p)\<rparr> else p)"

definition resolve :: "req_id \<Rightarrow> policy \<Rightarrow> policy" where
  "resolve r p =
     (let was_deferred = map_of (deferred p) r \<noteq> None;
          p1 = p\<lparr>deferred := dpop r (deferred p)\<rparr>
      in if was_deferred \<or> circuit_open_until p1 \<noteq> 0
         then p1\<lparr>consecutive_timeouts := 0, circuit_open_until := 0\<rparr> else p1)"

definition finish_request :: "req_id \<Rightarrow> policy \<Rightarrow> policy" where
  "finish_request r p = p\<lparr>deferred := dpop r (deferred p)\<rparr>"

definition take_snapshot :: "seconds \<Rightarrow> bool \<Rightarrow> policy \<Rightarrow> snapshot \<times> policy" where
  "take_snapshot now reset p =
     (let ages = map (\<lambda>(r, start). now - start) (deferred p);
          oldest = (case ages of [] \<Rightarrow> 0 | a # as \<Rightarrow> foldl max a as);
          snap = \<lparr>deferred_requests = length (deferred p),
                  oldest_deferred_seconds = max 0 oldest,
                  circuit_is_open = now < circuit_open_until p,
                  timeout_total = timeout_delta p,
                  circuit_bypass_total = circuit_bypass_delta p\<rparr>
      in (snap, if reset then p\<lparr>timeout_delta := 0, circuit_bypass_delta := 0\<rparr> else p))"

section \<open>Well-formed policies\<close>

definition policy_ok :: "policy \<Rightarrow> bool" where
  "policy_ok p \<longleftrightarrow> 0 < timeout_seconds p \<and> 0 < circuit_breaker_seconds p
     \<and> 0 < timeout_threshold p \<and> 0 < max_concurrent_lookups p
     \<and> dict_ok (deferred p) \<and> 0 \<le> consecutive_timeouts p
     \<and> int (length (deferred p)) \<le> max_concurrent_lookups p"

lemmas policy_defs = circuit_bypass_reason_def bypass_reason_def expire_def defer_lookup_def
  resolve_def finish_request_def

lemma length_dpop_bound:
  "int (length d) \<le> n \<Longrightarrow> int (length (dpop k d)) \<le> n"
  using length_dpop_le [of k d] by linarith

lemma init_policy_ok: "init_policy t b th c = Inr p \<Longrightarrow> policy_ok p"
  by (auto simp: init_policy_def policy_ok_def split: if_splits)

lemma circuit_bypass_reason_ok:
  "policy_ok p \<Longrightarrow> policy_ok (snd (circuit_bypass_reason r now p))"
  by (auto simp: circuit_bypass_reason_def policy_ok_def length_dpop_bound)

lemma expire_ok: "policy_ok p \<Longrightarrow> policy_ok (expire r now p)"
  by (auto simp: expire_def Let_def policy_ok_def length_dpop_bound)

lemma bypass_reason_ok: "policy_ok p \<Longrightarrow> policy_ok (snd (bypass_reason r now p))"
  using circuit_bypass_reason_ok [of p r now]
  by (auto simp: bypass_reason_def expire_ok split: prod.splits option.splits)

lemma resolve_ok: "policy_ok p \<Longrightarrow> policy_ok (resolve r p)"
  by (auto simp: resolve_def Let_def policy_ok_def length_dpop_bound)

lemma finish_request_ok: "policy_ok p \<Longrightarrow> policy_ok (finish_request r p)"
  by (auto simp: finish_request_def policy_ok_def length_dpop_bound)

text \<open>
  \<open>defer\<close> alone does not respect the concurrency bound: the caller must have been admitted
  by \<open>circuit_bypass_reason\<close> first.
\<close>

definition admitted :: "req_id \<Rightarrow> policy \<Rightarrow> bool" where
  "admitted r p \<longleftrightarrow> map_of (deferred p) r \<noteq> None
     \<or> int (length (deferred p)) < max_concurrent_lookups p"

lemma circuit_bypass_None:
  "circuit_bypass_reason r now p = (None, p') \<Longrightarrow>
     p' = p \<and> admitted r p \<and> circuit_open_until p \<le> now"
  by (auto simp: circuit_bypass_reason_def admitted_def split: if_splits)

lemma defer_lookup_ok: "policy_ok p \<Longrightarrow> admitted r p \<Longrightarrow> policy_ok (defer_lookup r t p)"
  by (auto simp: defer_lookup_def policy_ok_def admitted_def length_dput)

lemma deferred_defer: "map_of (deferred (defer_lookup r t p)) r \<noteq> None"
  by (auto simp: defer_lookup_def)

lemma defer_keeps_start:
  "map_of (deferred p) r = Some t0 \<Longrightarrow> map_of (deferred (defer_lookup r t p)) r = Some t0"
  by (simp add: defer_lookup_def)

lemma defer_frame: "q \<noteq> r \<Longrightarrow> map_of (deferred (defer_lookup r t p)) q = map_of (deferred p) q"
  by (simp add: defer_lookup_def)

section \<open>The scheduler's use of the policy\<close>

text \<open>
  One scheduler opportunity of a request, as \<open>get_num_new_matched_tokens\<close> uses the policy:
  ask for admission, look up, then either record a healthy lookup or start (or keep) the
  deadline and ask whether it has passed. The lookup's own outcome is the event's last
  component; \<open>lookup_start\<close> is the time of the first call, \<open>now\<close> that of the last.
  A request that has been bypassed once is not looked up again (its status record says so).
\<close>

datatype attempt = Bypassed bypass | Resolved | Waiting

definition attempt_lookup ::
  "req_id \<Rightarrow> seconds \<Rightarrow> seconds \<Rightarrow> bool \<Rightarrow> policy \<Rightarrow> attempt \<times> policy" where
  "attempt_lookup r t0 t1 lookup_done p =
     (case circuit_bypass_reason r t0 p of
        (Some why, p1) \<Rightarrow> (Bypassed why, p1)
      | (None, p1) \<Rightarrow>
          if lookup_done then (Resolved, resolve r p1)
          else (case bypass_reason r t1 (defer_lookup r t0 p1) of
                  (Some why, p2) \<Rightarrow> (Bypassed why, p2)
                | (None, p2) \<Rightarrow> (Waiting, p2)))"

lemma attempt_lookup_ok:
  assumes "policy_ok p"
  shows "policy_ok (snd (attempt_lookup r t0 t1 ld p))"
proof (cases "circuit_bypass_reason r t0 p")
  case (Pair why p1)
  show ?thesis
  proof (cases why)
    case None
    with Pair have p1: "p1 = p" and adm: "admitted r p"
      using circuit_bypass_None by auto
    from assms adm have "policy_ok (snd (bypass_reason r t1 (defer_lookup r t0 p)))"
      by (intro bypass_reason_ok defer_lookup_ok)
    with Pair None p1 show ?thesis
      by (auto simp: attempt_lookup_def resolve_ok assms split: prod.splits option.splits)
  next
    case (Some w)
    with Pair circuit_bypass_reason_ok [OF assms, of r t0] show ?thesis
      by (simp add: attempt_lookup_def)
  qed
qed

datatype policy_event = Attempt req_id seconds seconds bool | Finished req_id
  | Snapshot seconds bool

fun policy_step :: "policy_event \<Rightarrow> policy \<Rightarrow> policy" where
  "policy_step (Attempt r t0 t1 ld) p = snd (attempt_lookup r t0 t1 ld p)"
| "policy_step (Finished r) p = finish_request r p"
| "policy_step (Snapshot now reset) p = snd (take_snapshot now reset p)"

lemma take_snapshot_ok: "policy_ok p \<Longrightarrow> policy_ok (snd (take_snapshot now reset p))"
  by (simp add: take_snapshot_def Let_def policy_ok_def)

interpretation fail_open: step_invariant policy_step policy_ok
proof
  fix p e
  assume "policy_ok p"
  then show "policy_ok (policy_step e p)"
    by (cases e) (auto simp: attempt_lookup_ok finish_request_ok take_snapshot_ok)
qed

section \<open>Properties\<close>

lemma attempt_bypassed_drops:
  "fst (attempt_lookup r t0 t1 ld p) = Bypassed why \<Longrightarrow> why \<noteq> Lookup_in_flight \<Longrightarrow>
     map_of (deferred (snd (attempt_lookup r t0 t1 ld p))) r = None"
  by (auto simp: attempt_lookup_def bypass_reason_def circuit_bypass_reason_def expire_def
      defer_lookup_def Let_def split: prod.splits option.splits if_splits)

lemma attempt_waiting_start:
  assumes "fst (attempt_lookup r t0 t1 ld p) = Waiting"
  shows "\<exists>s. map_of (deferred (snd (attempt_lookup r t0 t1 ld p))) r = Some s
    \<and> t1 < s + timeout_seconds p
    \<and> s = (case map_of (deferred p) r of None \<Rightarrow> t0 | Some s0 \<Rightarrow> s0)"
  using assms
  by (auto simp: attempt_lookup_def bypass_reason_def circuit_bypass_reason_def
      defer_lookup_def split: prod.splits option.splits if_splits)

lemma attempt_frame:
  "q \<noteq> r \<Longrightarrow> map_of (deferred (snd (attempt_lookup r t0 t1 ld p))) q = map_of (deferred p) q"
  by (auto simp: attempt_lookup_def bypass_reason_def circuit_bypass_reason_def expire_def
      defer_lookup_def resolve_def Let_def split: prod.splits option.splits if_splits)

lemma policy_step_params [simp]:
  "timeout_seconds (policy_step e p) = timeout_seconds p"
  "timeout_threshold (policy_step e p) = timeout_threshold p"
  "circuit_breaker_seconds (policy_step e p) = circuit_breaker_seconds p"
  "max_concurrent_lookups (policy_step e p) = max_concurrent_lookups p"
  by (cases e; auto simp: attempt_lookup_def bypass_reason_def circuit_bypass_reason_def
      expire_def defer_lookup_def resolve_def finish_request_def take_snapshot_def Let_def
      split: prod.splits option.splits if_splits)+

text \<open>
  The events that can touch a request's deadline: only its own attempts and its end.
\<close>

fun keeps_waiting :: "req_id \<Rightarrow> policy_event \<Rightarrow> policy \<Rightarrow> bool" where
  "keeps_waiting r (Attempt q t0 t1 ld) p
     \<longleftrightarrow> q = r \<longrightarrow> fst (attempt_lookup q t0 t1 ld p) = Waiting"
| "keeps_waiting r (Finished q) p \<longleftrightarrow> q \<noteq> r"
| "keeps_waiting r (Snapshot now reset) p \<longleftrightarrow> True"

fun waits_through :: "req_id \<Rightarrow> policy_event list \<Rightarrow> policy \<Rightarrow> bool" where
  "waits_through r [] p \<longleftrightarrow> True"
| "waits_through r (e # es) p \<longleftrightarrow> keeps_waiting r e p \<and> waits_through r es (policy_step e p)"

lemma keeps_waiting_start:
  assumes "map_of (deferred p) r = Some s" and "keeps_waiting r e p"
  shows "map_of (deferred (policy_step e p)) r = Some s"
proof (cases e)
  case (Attempt q t0 t1 ld)
  show ?thesis
  proof (cases "q = r")
    case True
    with Attempt assms(2) have "fst (attempt_lookup r t0 t1 ld p) = Waiting" by simp
    from attempt_waiting_start [OF this] assms(1) Attempt True show ?thesis by auto
  next
    case False
    with Attempt assms(1) show ?thesis by (simp add: attempt_frame)
  qed
qed (use assms in \<open>auto simp: finish_request_def take_snapshot_def Let_def\<close>)

lemma waits_through_start:
  "map_of (deferred p) r = Some s \<Longrightarrow> waits_through r es p \<Longrightarrow>
     map_of (deferred (run policy_step es p)) r = Some s
     \<and> timeout_seconds (run policy_step es p) = timeout_seconds p"
  by (induction es arbitrary: p) (auto simp: keeps_waiting_start)

text \<open>C8: A lookup deferred at time s is never waited for beyond its deadline, whatever other
  requests do in between: if the request is still unresolved at an opportunity whose closing
  clock read is s + timeout or later, it is turned into a miss there. The deadline does not
  move when the request is deferred again.\<close>

theorem lookup_never_stalls:
  assumes "map_of (deferred p) r = Some s" and "waits_through r es p"
    and "s + timeout_seconds p \<le> t1"
  shows "fst (attempt_lookup r t0 t1 ld (run policy_step es p)) \<noteq> Waiting"
proof
  let ?q = "run policy_step es p"
  assume "fst (attempt_lookup r t0 t1 ld ?q) = Waiting"
  then have "t1 < (case map_of (deferred ?q) r of None \<Rightarrow> t0 | Some s0 \<Rightarrow> s0) + timeout_seconds ?q"
    using attempt_waiting_start by blast
  with waits_through_start [OF assms(1,2)] assms(3) show False by simp
qed

theorem lookup_never_stalls_witness:
  "\<exists>p. map_of (deferred p) ''a'' = Some 1 \<and>
     fst (attempt_lookup ''a'' 3 4 False
       (run policy_step [Attempt ''a'' (6/5) (5/4) False, Attempt ''b'' 2 2 False] p)) \<noteq> Waiting"
proof -
  let ?p = "\<lparr>timeout_seconds = 1, circuit_breaker_seconds = 30, timeout_threshold = 3,
    max_concurrent_lookups = 1, deferred = [(''a'', 1)], consecutive_timeouts = 0,
    circuit_open_until = 0, timeout_delta = 0, circuit_bypass_delta = 0\<rparr> :: policy"
  have "waits_through ''a'' [Attempt ''a'' (6/5) (5/4) False, Attempt ''b'' 2 2 False] ?p"
    by (simp add: attempt_lookup_def circuit_bypass_reason_def bypass_reason_def defer_lookup_def)
  then have "fst (attempt_lookup ''a'' 3 4 False
       (run policy_step [Attempt ''a'' (6/5) (5/4) False, Attempt ''b'' 2 2 False] ?p)) \<noteq> Waiting"
    by (intro lookup_never_stalls [where s = 1]) auto
  then show ?thesis by (intro exI [of _ ?p]) auto
qed

text \<open>Remark: From construction on, and through every interleaving of lookups, request ends and
  metric reads, at most \<open>max_concurrent_lookups\<close> requests have a lookup in flight.\<close>

theorem concurrent_lookups_bounded:
  assumes "init_policy t b th c = Inr p"
  shows "int (length (deferred (run policy_step es p))) \<le> c"
proof -
  have "policy_ok (run policy_step es p)"
    by (rule fail_open.inv_run [OF init_policy_ok [OF assms]])
  moreover have "max_concurrent_lookups (run policy_step es p) = max_concurrent_lookups p"
    by (induction es arbitrary: p) auto
  moreover have "max_concurrent_lookups p = c"
    using assms by (auto simp: init_policy_def split: if_splits)
  ultimately show ?thesis by (simp add: policy_ok_def)
qed

theorem concurrent_lookups_bounded_witness:
  "\<exists>p. init_policy 1 30 3 1 = Inr p \<and> int (length (deferred
     (run policy_step [Attempt ''a'' 1 1 False, Attempt ''b'' 1 1 False] p))) \<le> 1"
proof -
  obtain p where p: "init_policy 1 30 3 1 = Inr p" by (simp add: init_policy_def)
  from p concurrent_lookups_bounded [OF p] show ?thesis by blast
qed

section \<open>The circuit breaker\<close>

definition all_expire :: "(req_id \<times> seconds \<times> seconds) list \<Rightarrow> policy \<Rightarrow> bool" where
  "all_expire xs p = (\<forall>i < length xs. \<forall>r t0 t1. xs ! i = (r, t0, t1) \<longrightarrow>
     fst (attempt_lookup r t0 t1 False
       (run policy_step (map (\<lambda>(r, t0, t1). Attempt r t0 t1 False) (take i xs)) p))
     = Bypassed Deadline)"

lemma attempt_expires:
  "fst (attempt_lookup r t0 t1 False p) = Bypassed Deadline \<Longrightarrow>
     snd (attempt_lookup r t0 t1 False p) = expire r t1 (defer_lookup r t0 p)"
  by (auto simp: attempt_lookup_def bypass_reason_def circuit_bypass_reason_def
      split: prod.splits option.splits if_splits)

lemma expire_counts [simp]:
  "consecutive_timeouts (expire r t p) = consecutive_timeouts p + 1"
  "consecutive_timeouts (defer_lookup r t p) = consecutive_timeouts p"
  "timeout_threshold (defer_lookup r t p) = timeout_threshold p"
  "circuit_breaker_seconds (defer_lookup r t p) = circuit_breaker_seconds p"
  by (auto simp: expire_def defer_lookup_def Let_def)

lemma all_expire_Cons:
  "all_expire ((r, t0, t1) # xs) p \<longleftrightarrow>
     fst (attempt_lookup r t0 t1 False p) = Bypassed Deadline
     \<and> all_expire xs (policy_step (Attempt r t0 t1 False) p)"
  unfolding all_expire_def by (auto simp: less_Suc_eq_0_disj nth_Cons')

lemma all_expire_counts:
  "all_expire xs p \<Longrightarrow>
     consecutive_timeouts (run policy_step (map (\<lambda>(r, t0, t1). Attempt r t0 t1 False) xs) p)
     = consecutive_timeouts p + int (length xs)"
  by (induction xs arbitrary: p) (auto simp: all_expire_Cons attempt_expires)

lemma run_params:
  "timeout_threshold (run policy_step es p) = timeout_threshold p"
  "circuit_breaker_seconds (run policy_step es p) = circuit_breaker_seconds p"
  by (induction es arbitrary: p) auto

text \<open>Remark: Repeated timeouts cannot keep slowing requests down: once \<open>timeout_threshold\<close> lookups
  in a row (of any requests) have missed their deadline, the circuit is open, and until
  \<open>circuit_breaker_seconds\<close> after the last of them every lookup is bypassed at once,
  without being deferred.\<close>

theorem circuit_opens:
  assumes "policy_ok p" and "all_expire (xs @ [(q, s0, s1)]) p"
    and "timeout_threshold p \<le> int (length xs) + 1"
    and "t0 < s1 + circuit_breaker_seconds p"
  shows "fst (attempt_lookup r t0 t1 ld
      (run policy_step (map (\<lambda>(r, t0, t1). Attempt r t0 t1 False) (xs @ [(q, s0, s1)])) p))
    = Bypassed Circuit_open"
proof -
  let ?ev = "map (\<lambda>(r, t0, t1). Attempt r t0 t1 False)"
  let ?m = "run policy_step (?ev xs) p"
  have len: "length xs < length (xs @ [(q, s0, s1)])" by simp
  have mid: "all_expire xs p"
    using assms(2) by (auto simp: all_expire_def nth_append)
  have last: "fst (attempt_lookup q s0 s1 False ?m) = Bypassed Deadline"
    using assms(2) len by (auto simp: all_expire_def nth_append)
  have count: "consecutive_timeouts ?m + 1 \<ge> timeout_threshold p"
    using all_expire_counts [OF mid] assms(1,3) by (simp add: policy_ok_def)
  have "circuit_open_until (snd (attempt_lookup q s0 s1 False ?m)) = s1 + circuit_breaker_seconds p"
    using count by (simp add: attempt_expires [OF last] run_params expire_def Let_def)
  with assms(4) show ?thesis by (simp add: attempt_lookup_def circuit_bypass_reason_def)
qed

theorem circuit_opens_witness:
  "\<exists>p. policy_ok p \<and> fst (attempt_lookup ''c'' 5 5 True
      (run policy_step (map (\<lambda>(r, t0, t1). Attempt r t0 t1 False) ([(''a'', 1, 3)] @ [(''b'', 3, 4)])) p))
    = Bypassed Circuit_open"
proof -
  let ?p = "\<lparr>timeout_seconds = 1, circuit_breaker_seconds = 30, timeout_threshold = 2,
    max_concurrent_lookups = 1, deferred = [], consecutive_timeouts = 0,
    circuit_open_until = 0, timeout_delta = 0, circuit_bypass_delta = 0\<rparr> :: policy"
  have ok: "policy_ok ?p" by (simp add: policy_ok_def)
  have "all_expire ([(''a'', 1, 3)] @ [(''b'', 3, 4)]) ?p"
    by (simp add: all_expire_Cons)
      (simp add: all_expire_def attempt_lookup_def circuit_bypass_reason_def bypass_reason_def
        defer_lookup_def expire_def)
  from circuit_opens [OF ok this, of 5] ok show ?thesis by fastforce
qed

end
