(* ===== verification/Flock.thy ===== *)
theory Flock
  imports Prelude
begin

text \<open>
  The kernel side of \<open>fcntl.flock\<close> with \<open>LOCK_NB\<close>, which both the eviction gate and the
  shard leases rest on: a table of advisory locks, keyed by the locked file and by the open
  file description that holds the lock. An exclusive lock needs the file to itself, a shared
  one tolerates other shared ones; a description that already holds a lock first loses it
  (conversion is not atomic); a process that exits loses all its locks.
\<close>

section \<open>The lock table\<close>

datatype lock_mode = LOCK_SH | LOCK_EX

text \<open>A shared lock is weaker than an exclusive one.\<close>

instantiation lock_mode :: linorder
begin

fun less_eq_lock_mode :: "lock_mode \<Rightarrow> lock_mode \<Rightarrow> bool" where
  "less_eq_lock_mode LOCK_SH m \<longleftrightarrow> True"
| "less_eq_lock_mode LOCK_EX m \<longleftrightarrow> m = LOCK_EX"

definition less_lock_mode :: "lock_mode \<Rightarrow> lock_mode \<Rightarrow> bool" where
  "less_lock_mode m n \<longleftrightarrow> m \<le> n \<and> \<not> n \<le> (m :: lock_mode)"

instance
proof
  fix x y z :: lock_mode
  show "x < y \<longleftrightarrow> x \<le> y \<and> \<not> y \<le> x" by (rule less_lock_mode_def)
  show "x \<le> x" by (cases x) auto
  show "x \<le> y \<Longrightarrow> y \<le> z \<Longrightarrow> x \<le> z" by (cases x; cases y) auto
  show "x \<le> y \<Longrightarrow> y \<le> x \<Longrightarrow> x = y" by (cases x; cases y) auto
  show "x \<le> y \<or> y \<le> x" by (cases x; cases y) auto
qed

end

type_synonym ('f, 'o) lock_table = "(('f \<times> 'o) \<times> lock_mode) list"

abbreviation holds :: "('f, 'o) lock_table \<Rightarrow> 'f \<Rightarrow> 'o \<Rightarrow> lock_mode option" where
  "holds T f d \<equiv> map_of T (f, d)"

definition conflicts :: "'f \<Rightarrow> 'o \<Rightarrow> lock_mode \<Rightarrow> ('f, 'o) lock_table \<Rightarrow> bool" where
  "conflicts f d m T \<longleftrightarrow>
     list_ex (\<lambda>((f', d'), m'). f' = f \<and> d' \<noteq> d \<and> max m m' = LOCK_EX) T"

definition try_flock :: "'f \<Rightarrow> 'o \<Rightarrow> lock_mode \<Rightarrow> ('f, 'o) lock_table \<Rightarrow> bool \<times> ('f, 'o) lock_table" where
  "try_flock f d m T =
     (let T' = dpop (f, d) T
      in if conflicts f d m T' then (False, T') else (True, dput (f, d) m T'))"

definition unlock :: "'f \<Rightarrow> 'o \<Rightarrow> ('f, 'o) lock_table \<Rightarrow> ('f, 'o) lock_table" where
  "unlock f d T = dpop (f, d) T"

text \<open>What the kernel does when a process exits: every description it owns is closed.\<close>

definition drop_owner :: "('o \<Rightarrow> bool) \<Rightarrow> ('f, 'o) lock_table \<Rightarrow> ('f, 'o) lock_table" where
  "drop_owner owned T = filter (\<lambda>((f, d), m). \<not> owned d) T"

section \<open>Laws\<close>

definition table_ok :: "('f, 'o) lock_table \<Rightarrow> bool" where
  "table_ok T \<longleftrightarrow> dict_ok T \<and>
     (\<forall>f d d' m. holds T f d = Some LOCK_EX \<longrightarrow> holds T f d' = Some m \<longrightarrow> d' = d)"

lemma max_lock_mode [simp]:
  "max LOCK_SH m = (m :: lock_mode)" "max m LOCK_SH = (m :: lock_mode)"
  "max LOCK_EX m = LOCK_EX" "max m LOCK_EX = LOCK_EX"
  by (cases m; simp add: max_def)+

lemma conflicts_iff:
  "dict_ok T \<Longrightarrow> conflicts f d m T \<longleftrightarrow>
     (\<exists>d' m'. d' \<noteq> d \<and> holds T f d' = Some m' \<and> (m = LOCK_EX \<or> m' = LOCK_EX))"
  unfolding conflicts_def list_ex_iff
  by (cases m) (fastforce simp: map_of_eq_Some_iff)+

lemma table_ok_Nil [simp]: "table_ok []"
  by (simp add: table_ok_def)

lemma table_ok_dict: "table_ok T \<Longrightarrow> dict_ok T"
  by (simp add: table_ok_def)

lemma table_ok_excl: "table_ok T \<Longrightarrow> holds T f d = Some LOCK_EX \<Longrightarrow> holds T f d' = Some m \<Longrightarrow> d' = d"
  by (simp add: table_ok_def)

lemma table_ok_unlock: "table_ok T \<Longrightarrow> table_ok (unlock f d T)"
  by (auto simp: table_ok_def unlock_def)

lemma holds_unlock: "holds (unlock f d T) g e = (if g = f \<and> e = d then None else holds T g e)"
  by (simp add: unlock_def)

lemma not_conflicts:
  assumes "dict_ok T" and "\<not> conflicts f d m T" and "d' \<noteq> d" and "holds T f d' = Some m'"
  shows "m = LOCK_SH \<and> m' = LOCK_SH"
  using assms by (cases m; cases m') (auto simp: conflicts_iff)

lemma table_ok_try:
  assumes "table_ok T" shows "table_ok (snd (try_flock f d m T))"
proof -
  let ?T = "dpop (f, d) T"
  have ok: "table_ok ?T" using table_ok_unlock [OF assms] by (simp add: unlock_def)
  show ?thesis
  proof (cases "conflicts f d m ?T")
    case False
    have free: "m = LOCK_SH \<and> m' = LOCK_SH" if "d' \<noteq> d" "holds T f d' = Some m'" for d' m'
      using not_conflicts [OF table_ok_dict [OF ok] False \<open>d' \<noteq> d\<close>] that by simp
    have "e' = e" if "holds (dput (f, d) m ?T) g e = Some LOCK_EX"
      "holds (dput (f, d) m ?T) g e' = Some m'" for g e e' m'
      using that free table_ok_excl [OF assms, of g e e'] by (fastforce split: if_splits)
    with ok show ?thesis
      unfolding table_ok_def try_flock_def Let_def by (simp add: False dict_ok_dput)
  qed (use ok in \<open>simp add: try_flock_def\<close>)
qed

lemma try_success_iff:
  "table_ok T \<Longrightarrow> fst (try_flock f d m T) \<longleftrightarrow>
     (\<forall>d' m'. d' \<noteq> d \<longrightarrow> holds T f d' = Some m' \<longrightarrow> m = LOCK_SH \<and> m' = LOCK_SH)"
  by (cases m)
    (auto simp: try_flock_def Let_def conflicts_iff table_ok_dict dict_ok_dpop intro: lock_mode.exhaust)

lemma holds_try:
  "holds (snd (try_flock f d m T)) g e =
     (if g = f \<and> e = d then (if fst (try_flock f d m T) then Some m else None) else holds T g e)"
  by (auto simp: try_flock_def Let_def)

lemma dict_ok_filter: "dict_ok d \<Longrightarrow> dict_ok (filter P d)"
  by (simp add: distinct_map_filter)

lemma holds_drop_owner:
  "dict_ok T \<Longrightarrow> holds (drop_owner owned T) f d = (if owned d then None else holds T f d)"
proof (induction T)
  case (Cons p T)
  obtain g e m where p: "p = ((g, e), m)" by (metis surj_pair)
  have "map_of (drop_owner owned T) (f, d) = (if owned d then None else holds T f d)"
    using Cons by simp
  then show ?case by (auto simp: p drop_owner_def)
qed (simp add: drop_owner_def)

lemma table_ok_drop_owner:
  assumes "table_ok T" shows "table_ok (drop_owner owned T)"
proof -
  have d: "dict_ok (drop_owner owned T)"
    using assms by (auto simp: drop_owner_def table_ok_def intro: dict_ok_filter)
  from assms have T: "dict_ok T" by (rule table_ok_dict)
  show ?thesis unfolding table_ok_def
    using d table_ok_excl [OF assms] by (auto simp: holds_drop_owner [OF T] split: if_splits)
qed

section \<open>The interface of an advisory lock service\<close>

text \<open>
  What the clients rely on. \<open>reader\<close> and \<open>writer\<close> protocols only use these laws.
\<close>

locale lock_service =
  fixes try_lock :: "'f \<Rightarrow> 'o \<Rightarrow> lock_mode \<Rightarrow> 't \<Rightarrow> bool \<times> 't"
    and release :: "'f \<Rightarrow> 'o \<Rightarrow> 't \<Rightarrow> 't"
    and held :: "'t \<Rightarrow> 'f \<Rightarrow> 'o \<Rightarrow> lock_mode option"
    and valid :: "'t \<Rightarrow> bool"
  assumes valid_try: "valid t \<Longrightarrow> valid (snd (try_lock f d m t))"
    and valid_release: "valid t \<Longrightarrow> valid (release f d t)"
    and try_grants: "valid t \<Longrightarrow> fst (try_lock f d m t) \<longleftrightarrow>
      (\<forall>d' m'. d' \<noteq> d \<longrightarrow> held t f d' = Some m' \<longrightarrow> m = LOCK_SH \<and> m' = LOCK_SH)"
    and held_try: "valid t \<Longrightarrow> held (snd (try_lock f d m t)) g e =
      (if g = f \<and> e = d then (if fst (try_lock f d m t) then Some m else None) else held t g e)"
    and held_release: "valid t \<Longrightarrow> held (release f d t) g e =
      (if g = f \<and> e = d then None else held t g e)"
begin

text \<open>While one description holds the exclusive lock, nobody else gets any lock.\<close>

lemma writer_excludes:
  "valid t \<Longrightarrow> held t f d = Some LOCK_EX \<Longrightarrow> d' \<noteq> d \<Longrightarrow> \<not> fst (try_lock f d' m t)"
  by (auto simp: try_grants)

text \<open>While some description holds a shared lock, no other gets the exclusive one.\<close>

lemma reader_blocks_writer:
  "valid t \<Longrightarrow> held t f d = Some m \<Longrightarrow> d' \<noteq> d \<Longrightarrow> \<not> fst (try_lock f d' LOCK_EX t)"
  by (auto simp: try_grants)

lemma free_grants:
  "valid t \<Longrightarrow> (\<And>d'. d' \<noteq> d \<Longrightarrow> held t f d' = None) \<Longrightarrow> fst (try_lock f d m t)"
  by (simp add: try_grants)

lemma readers_grant_reader:
  "valid t \<Longrightarrow> (\<And>d'. d' \<noteq> d \<Longrightarrow> held t f d' \<noteq> Some LOCK_EX) \<Longrightarrow> fst (try_lock f d LOCK_SH t)"
  unfolding try_grants by (metis lock_mode.exhaust)

text \<open>A failed attempt leaves every other description's lock alone.\<close>

lemma probe_harmless:
  "valid t \<Longrightarrow> held t f d = None \<Longrightarrow>
     held (release f d (snd (try_lock f d m t))) g e = held t g e"
  by (simp add: held_release valid_try held_try)

end

interpretation flock: lock_service try_flock unlock holds table_ok
  by unfold_locales
    (simp_all add: table_ok_try table_ok_unlock try_success_iff holds_try holds_unlock)

end
