(* ===== verification/EvictionGate.thy ===== *)
theory EvictionGate
  imports Flock
begin

text \<open>
  \<open>SharedEvictionGate\<close> of \<open>src/patches/tiering-fs-bounded-lru.py\<close>. A process is a number;
  each has its own gate object and four descriptors on two lock files, and all processes
  share one kernel lock table. The first group of definitions are the methods, as functions
  of the calling process, its gate and the table (\<open>None\<close> is the \<open>OSError\<close> of a \<open>flock\<close> on a
  closed descriptor). The second group splits the methods at their system calls, so that
  other processes can run in between; the gate's \<open>RLock\<close> keeps one process from
  interleaving with itself. Lemmas: the invariant between the flags and the kernel's table,
  mutual exclusion of deletion and writes, and that each method is such a run of system calls.
\<close>

section \<open>State\<close>

datatype gate_file = Intent_lock | Writes_lock

datatype gate_fd = Intent_fd | Intent_probe_fd | Write_fd | Eviction_write_fd

fun fd_file :: "gate_fd \<Rightarrow> gate_file" where
  "fd_file Intent_fd = Intent_lock"
| "fd_file Intent_probe_fd = Intent_lock"
| "fd_file Write_fd = Writes_lock"
| "fd_file Eviction_write_fd = Writes_lock"

type_synonym pid = nat
type_synonym gate_table = "(gate_file, pid \<times> gate_fd) lock_table"

record gate =
  owns_eviction :: bool
  writes_fenced :: bool
  store_jobs :: "job_id list"
  store_lease_held :: bool
  gate_closed :: bool

definition new_gate :: gate where
  "new_gate = \<lparr>owns_eviction = False, writes_fenced = False, store_jobs = [],
     store_lease_held = False, gate_closed = False\<rparr>"

section \<open>Methods\<close>

definition gate_try_lock :: "pid \<Rightarrow> gate_fd \<Rightarrow> lock_mode \<Rightarrow> gate \<Rightarrow> gate_table \<Rightarrow> bool option \<times> gate_table" where
  "gate_try_lock p fd m g T =
     (if gate_closed g then (None, T)
      else (let (ok, T') = try_flock (fd_file fd) (p, fd) m T in (Some ok, T')))"

definition gate_unlock :: "pid \<Rightarrow> gate_fd \<Rightarrow> gate_table \<Rightarrow> gate_table" where
  "gate_unlock p fd T = unlock (fd_file fd) (p, fd) T"

definition try_begin_eviction :: "pid \<Rightarrow> gate \<times> gate_table \<Rightarrow> bool option \<times> gate \<times> gate_table" where
  "try_begin_eviction p = (\<lambda>(g, T).
     if owns_eviction g then (Some True, g, T)
     else (case gate_try_lock p Intent_fd LOCK_EX g T of
        (Some True, T') \<Rightarrow> (Some True, g\<lparr>owns_eviction := True\<rparr>, T')
      | (r, T') \<Rightarrow> (r, g, T')))"

definition try_fence_writes :: "pid \<Rightarrow> gate \<times> gate_table \<Rightarrow> bool option \<times> gate \<times> gate_table" where
  "try_fence_writes p = (\<lambda>(g, T).
     if \<not> owns_eviction g then (Some False, g, T)
     else if writes_fenced g then (Some True, g, T)
     else (case gate_try_lock p Eviction_write_fd LOCK_EX g T of
        (Some True, T') \<Rightarrow> (Some True, g\<lparr>writes_fenced := True\<rparr>, T')
      | (r, T') \<Rightarrow> (r, g, T')))"

definition lease_store :: "pid \<Rightarrow> job_id \<Rightarrow> gate \<times> gate_table \<Rightarrow> bool \<times> gate \<times> gate_table" where
  "lease_store p job = (\<lambda>(g, T).
     if store_lease_held g then (True, g\<lparr>store_jobs := set_add job (store_jobs g)\<rparr>, T)
     else (let (ok, T') = try_flock Writes_lock (p, Write_fd) LOCK_SH T
           in if ok then (True, g\<lparr>store_lease_held := True,
                                  store_jobs := set_add job (store_jobs g)\<rparr>, T')
              else (False, g, T')))"

definition try_pin_store :: "pid \<Rightarrow> job_id \<Rightarrow> gate \<times> gate_table \<Rightarrow> bool \<times> gate \<times> gate_table" where
  "try_pin_store p job = (\<lambda>(g, T).
     if gate_closed g \<or> owns_eviction g then (False, g, T)
     else (let (probed, T1) = try_flock Intent_lock (p, Intent_probe_fd) LOCK_SH T
           in if \<not> probed then (False, g, T1)
              else (let (ok, g2, T2) = lease_store p job (g, T1)
                    in (ok, g2, gate_unlock p Intent_probe_fd T2))))"

definition release_store :: "pid \<Rightarrow> job_id \<Rightarrow> gate \<times> gate_table \<Rightarrow> gate \<times> gate_table" where
  "release_store p job = (\<lambda>(g, T).
     let g1 = g\<lparr>store_jobs := set_discard job (store_jobs g)\<rparr>
     in if store_lease_held g1 \<and> store_jobs g1 = []
        then (g1\<lparr>store_lease_held := False\<rparr>, gate_unlock p Write_fd T) else (g1, T))"

definition eviction_active :: "pid \<Rightarrow> gate \<times> gate_table \<Rightarrow> bool option \<times> gate_table" where
  "eviction_active p = (\<lambda>(g, T).
     if owns_eviction g then (Some True, T)
     else (case gate_try_lock p Intent_probe_fd LOCK_SH g T of
        (Some True, T') \<Rightarrow> (Some False, gate_unlock p Intent_probe_fd T')
      | (Some False, T') \<Rightarrow> (Some True, T')
      | (None, T') \<Rightarrow> (None, T')))"

definition unfence :: "pid \<Rightarrow> gate \<times> gate_table \<Rightarrow> gate \<times> gate_table" where
  "unfence p = (\<lambda>(g, T). if writes_fenced g
     then (g\<lparr>writes_fenced := False\<rparr>, gate_unlock p Eviction_write_fd T) else (g, T))"

definition disown :: "pid \<Rightarrow> gate \<times> gate_table \<Rightarrow> gate \<times> gate_table" where
  "disown p = (\<lambda>(g, T). if owns_eviction g
     then (g\<lparr>owns_eviction := False\<rparr>, gate_unlock p Intent_fd T) else (g, T))"

definition finish_gate_eviction :: "pid \<Rightarrow> gate \<times> gate_table \<Rightarrow> gate \<times> gate_table" where
  "finish_gate_eviction p gT = disown p (unfence p gT)"

definition close_descriptors :: "pid \<Rightarrow> gate \<times> gate_table \<Rightarrow> gate \<times> gate_table" where
  "close_descriptors p = (\<lambda>(g, T).
     (g\<lparr>store_lease_held := False, store_jobs := [], gate_closed := True\<rparr>,
      drop_owner (\<lambda>(q, fd). q = p) T))"

definition close_gate :: "pid \<Rightarrow> gate \<times> gate_table \<Rightarrow> gate \<times> gate_table" where
  "close_gate p gT =
     (if gate_closed (fst gT) then gT else close_descriptors p (finish_gate_eviction p gT))"

section \<open>Processes interleaving at system calls\<close>

datatype gate_pc = Ready | Pin_probed job_id | Probe_held | Unfenced

record gate_sys =
  gates :: "pid \<Rightarrow> gate"
  pcs :: "pid \<Rightarrow> gate_pc"
  gate_locks :: gate_table

definition gate_init :: gate_sys where
  "gate_init = \<lparr>gates = (\<lambda>_. new_gate), pcs = (\<lambda>_. Ready), gate_locks = []\<rparr>"

abbreviation put_gate :: "pid \<Rightarrow> gate_pc \<Rightarrow> gate \<times> gate_table \<Rightarrow> gate_sys \<Rightarrow> gate_sys" where
  "put_gate p pc gT s \<equiv> s\<lparr>gates := (gates s)(p := fst gT), pcs := (pcs s)(p := pc),
     gate_locks := snd gT\<rparr>"

abbreviation my_gate :: "pid \<Rightarrow> gate_sys \<Rightarrow> gate \<times> gate_table" where
  "my_gate p s \<equiv> (gates s p, gate_locks s)"

text \<open>
  One rule per system call of a method; the guards are the tests the code makes before the
  call. \<open>crash\<close> is the exit of a process at any point: its descriptors are closed.
\<close>

inductive gate_step :: "gate_sys \<Rightarrow> gate_sys \<Rightarrow> bool" where
  begin_call: "pcs s p = Ready \<Longrightarrow> \<not> gate_closed (gates s p) \<Longrightarrow>
    gate_step s (put_gate p Ready (snd (try_begin_eviction p (my_gate p s))) s)"
| fence_call: "pcs s p = Ready \<Longrightarrow> \<not> gate_closed (gates s p) \<Longrightarrow>
    gate_step s (put_gate p Ready (snd (try_fence_writes p (my_gate p s))) s)"
| pin_probe: "pcs s p = Ready \<Longrightarrow> \<not> gate_closed (gates s p) \<Longrightarrow> \<not> owns_eviction (gates s p) \<Longrightarrow>
    try_flock Intent_lock (p, Intent_probe_fd) LOCK_SH (gate_locks s) = (True, T') \<Longrightarrow>
    gate_step s (put_gate p (Pin_probed job) (gates s p, T') s)"
| pin_lease: "pcs s p = Pin_probed job \<Longrightarrow>
    gate_step s (put_gate p Probe_held (snd (lease_store p job (my_gate p s))) s)"
| active_probe: "pcs s p = Ready \<Longrightarrow> \<not> gate_closed (gates s p) \<Longrightarrow> \<not> owns_eviction (gates s p) \<Longrightarrow>
    try_flock Intent_lock (p, Intent_probe_fd) LOCK_SH (gate_locks s) = (True, T') \<Longrightarrow>
    gate_step s (put_gate p Probe_held (gates s p, T') s)"
| probe_refused: "pcs s p = Ready \<Longrightarrow> \<not> gate_closed (gates s p) \<Longrightarrow> \<not> owns_eviction (gates s p) \<Longrightarrow>
    try_flock Intent_lock (p, Intent_probe_fd) LOCK_SH (gate_locks s) = (False, T') \<Longrightarrow>
    gate_step s (put_gate p Ready (gates s p, T') s)"
| unprobe: "pcs s p = Probe_held \<Longrightarrow>
    gate_step s (put_gate p Ready (gates s p, gate_unlock p Intent_probe_fd (gate_locks s)) s)"
| release_call: "pcs s p = Ready \<Longrightarrow>
    gate_step s (put_gate p Ready (release_store p job (my_gate p s)) s)"
| unfence_call: "pcs s p = Ready \<Longrightarrow>
    gate_step s (put_gate p Unfenced (unfence p (my_gate p s)) s)"
| disown_call: "pcs s p = Unfenced \<Longrightarrow>
    gate_step s (put_gate p Ready (disown p (my_gate p s)) s)"
| close_call: "pcs s p = Ready \<Longrightarrow> \<not> owns_eviction (gates s p) \<Longrightarrow>
    gate_step s (put_gate p Ready (close_descriptors p (my_gate p s)) s)"
| crash: "gate_step s (put_gate p Ready
    (new_gate\<lparr>gate_closed := True\<rparr>, drop_owner (\<lambda>(q, fd). q = p) (gate_locks s)) s)"

inductive gate_reachable :: "gate_sys \<Rightarrow> bool" where
  gate_start: "gate_reachable gate_init"
| gate_next: "gate_reachable s \<Longrightarrow> gate_step s t \<Longrightarrow> gate_reachable t"

section \<open>The invariant\<close>

text \<open>
  The kernel's table says exactly what the flags of each gate say, and a process inside
  \<open>try_pin_store\<close> or \<open>eviction_active\<close> holds the intent lock shared.
\<close>

definition probing :: "gate_pc \<Rightarrow> bool" where
  "probing pc \<longleftrightarrow> (case pc of Pin_probed _ \<Rightarrow> True | Probe_held \<Rightarrow> True | _ \<Rightarrow> False)"

lemma probing_simps [simp]:
  "probing (Pin_probed j)" "probing Probe_held" "\<not> probing Ready" "\<not> probing Unfenced"
  by (simp_all add: probing_def)

definition expected_lock :: "gate \<Rightarrow> gate_pc \<Rightarrow> gate_fd \<Rightarrow> lock_mode option" where
  "expected_lock g pc fd = (case fd of
     Intent_fd \<Rightarrow> if owns_eviction g then Some LOCK_EX else None
   | Intent_probe_fd \<Rightarrow> if probing pc then Some LOCK_SH else None
   | Write_fd \<Rightarrow> if store_lease_held g then Some LOCK_SH else None
   | Eviction_write_fd \<Rightarrow> if writes_fenced g then Some LOCK_EX else None)"

definition gate_flags_ok :: "gate \<Rightarrow> gate_pc \<Rightarrow> bool" where
  "gate_flags_ok g pc \<longleftrightarrow>
     (writes_fenced g \<longrightarrow> owns_eviction g) \<and> (store_jobs g \<noteq> [] \<longrightarrow> store_lease_held g)
     \<and> (pc = Unfenced \<longrightarrow> \<not> writes_fenced g)"

definition gate_table_agrees :: "gate_sys \<Rightarrow> bool" where
  "gate_table_agrees s \<longleftrightarrow> (\<forall>f p fd. holds (gate_locks s) f (p, fd) =
     (if f = fd_file fd then expected_lock (gates s p) (pcs s p) fd else None))"

definition gate_inv :: "gate_sys \<Rightarrow> bool" where
  "gate_inv s \<longleftrightarrow> table_ok (gate_locks s) \<and> gate_table_agrees s
     \<and> (\<forall>p. gate_flags_ok (gates s p) (pcs s p))"

lemma gate_inv_init: "gate_inv gate_init"
  by (auto simp: gate_inv_def gate_init_def new_gate_def gate_table_agrees_def
      expected_lock_def gate_flags_ok_def split: gate_fd.splits)

definition op_ok :: "pid \<Rightarrow> gate_pc \<Rightarrow> gate \<times> gate_table \<Rightarrow> gate_table \<Rightarrow> bool" where
  "op_ok p pc gT T \<longleftrightarrow> table_ok (snd gT) \<and> gate_flags_ok (fst gT) pc
     \<and> (\<forall>f q fd. q \<noteq> p \<longrightarrow> holds (snd gT) f (q, fd) = holds T f (q, fd))
     \<and> (\<forall>f fd. holds (snd gT) f (p, fd) =
          (if f = fd_file fd then expected_lock (fst gT) pc fd else None))"

lemma gate_inv_put: "gate_inv s \<Longrightarrow> op_ok p pc gT (gate_locks s) \<Longrightarrow> gate_inv (put_gate p pc gT s)"
  unfolding gate_inv_def op_ok_def gate_table_agrees_def by simp

lemma gate_inv_self: "gate_inv s \<Longrightarrow> op_ok p (pcs s p) (my_gate p s) (gate_locks s)"
  unfolding gate_inv_def op_ok_def gate_table_agrees_def by simp

lemmas op_ok_simps = op_ok_def gate_flags_ok_def expected_lock_def holds_try holds_unlock
  table_ok_try table_ok_unlock gate_unlock_def

lemma try_flock_pair:
  "try_flock f d m T = (b, T') \<longleftrightarrow> fst (try_flock f d m T) = b \<and> snd (try_flock f d m T) = T'"
  by (auto simp: prod_eq_iff)

lemma op_try_begin:
  "op_ok p Ready (g, T) T \<Longrightarrow> \<not> gate_closed g \<Longrightarrow> op_ok p Ready (snd (try_begin_eviction p (g, T))) T"
  by (cases "fst (try_flock Intent_lock (p, Intent_fd) LOCK_EX T)")
    (auto simp: try_begin_eviction_def gate_try_lock_def op_ok_simps case_prod_unfold Let_def
      split: gate_fd.splits)

lemma op_try_fence:
  "op_ok p Ready (g, T) T \<Longrightarrow> \<not> gate_closed g \<Longrightarrow> op_ok p Ready (snd (try_fence_writes p (g, T))) T"
  by (cases "fst (try_flock Writes_lock (p, Eviction_write_fd) LOCK_EX T)")
    (auto simp: try_fence_writes_def gate_try_lock_def op_ok_simps case_prod_unfold Let_def
      split: gate_fd.splits)

lemma op_probe_ok:
  "op_ok p Ready (g, T) T \<Longrightarrow> probing pc \<Longrightarrow>
     try_flock Intent_lock (p, Intent_probe_fd) LOCK_SH T = (True, T') \<Longrightarrow> op_ok p pc (g, T') T"
  by (cases pc) (auto simp: try_flock_pair op_ok_simps split: gate_fd.splits)

lemma op_probe_refused:
  "op_ok p Ready (g, T) T \<Longrightarrow>
     try_flock Intent_lock (p, Intent_probe_fd) LOCK_SH T = (False, T') \<Longrightarrow> op_ok p Ready (g, T') T"
  by (auto simp: try_flock_pair op_ok_simps split: gate_fd.splits)

lemma set_add_nonempty [simp]: "set_add x xs \<noteq> []"
  by (metis empty_iff insertI1 list.set(1) set_set_add)

lemma op_lease:
  "op_ok p (Pin_probed j) (g, T) T \<Longrightarrow> op_ok p Probe_held (snd (lease_store p job (g, T))) T"
  by (cases "fst (try_flock Writes_lock (p, Write_fd) LOCK_SH T)")
    (auto simp: lease_store_def op_ok_simps case_prod_unfold Let_def split: gate_fd.splits)

lemma op_unprobe:
  "op_ok p Probe_held (g, T) T \<Longrightarrow> op_ok p Ready (g, gate_unlock p Intent_probe_fd T) T"
  by (auto simp: op_ok_simps split: gate_fd.splits)

lemma op_release: "op_ok p Ready (g, T) T \<Longrightarrow> op_ok p Ready (release_store p job (g, T)) T"
  by (auto simp: release_store_def op_ok_simps Let_def set_discard_def split: gate_fd.splits)

lemma op_unfence: "op_ok p Ready (g, T) T \<Longrightarrow> op_ok p Unfenced (unfence p (g, T)) T"
  by (auto simp: unfence_def op_ok_simps split: gate_fd.splits)

lemma op_disown: "op_ok p Unfenced (g, T) T \<Longrightarrow> op_ok p Ready (disown p (g, T)) T"
  by (auto simp: disown_def op_ok_simps split: gate_fd.splits)

lemma op_close:
  "op_ok p Ready (g, T) T \<Longrightarrow> \<not> owns_eviction g \<Longrightarrow> op_ok p Ready (close_descriptors p (g, T)) T"
  by (auto simp: close_descriptors_def op_ok_simps table_ok_drop_owner
      holds_drop_owner [OF table_ok_dict] split: gate_fd.splits)

lemma op_crash:
  "table_ok T \<Longrightarrow> op_ok p Ready (new_gate\<lparr>gate_closed := True\<rparr>, drop_owner (\<lambda>(q, fd). q = p) T) T"
  by (auto simp: new_gate_def op_ok_simps table_ok_drop_owner
      holds_drop_owner [OF table_ok_dict] split: gate_fd.splits)

lemma gate_step_inv:
  assumes "gate_step s t" and "gate_inv s" shows "gate_inv t"
  using assms
proof (induction rule: gate_step.induct)
  case (begin_call s p)
  with gate_inv_self [of s p] show ?case by (intro gate_inv_put op_try_begin) simp_all
next
  case (fence_call s p)
  with gate_inv_self [of s p] show ?case by (intro gate_inv_put op_try_fence) simp_all
next
  case (pin_probe s p T' job)
  with gate_inv_self [of s p] show ?case by (intro gate_inv_put) (auto intro: op_probe_ok)
next
  case (pin_lease s p job)
  with gate_inv_self [of s p] show ?case by (intro gate_inv_put op_lease) simp_all
next
  case (active_probe s p T')
  with gate_inv_self [of s p] show ?case by (intro gate_inv_put) (auto intro: op_probe_ok)
next
  case (probe_refused s p T')
  with gate_inv_self [of s p] show ?case by (intro gate_inv_put) (auto intro: op_probe_refused)
next
  case (unprobe s p)
  with gate_inv_self [of s p] show ?case by (intro gate_inv_put op_unprobe) simp_all
next
  case (release_call s p job)
  with gate_inv_self [of s p] show ?case by (intro gate_inv_put op_release) simp_all
next
  case (unfence_call s p)
  with gate_inv_self [of s p] show ?case by (intro gate_inv_put op_unfence) simp_all
next
  case (disown_call s p)
  with gate_inv_self [of s p] show ?case by (intro gate_inv_put op_disown) simp_all
next
  case (close_call s p)
  with gate_inv_self [of s p] show ?case by (intro gate_inv_put op_close) simp_all
next
  case (crash s p)
  then show ?case by (intro gate_inv_put op_crash) (auto simp: gate_inv_def)
qed

lemma gate_reachable_inv: "gate_reachable s \<Longrightarrow> gate_inv s"
  by (induction rule: gate_reachable.induct) (auto simp: gate_inv_init intro: gate_step_inv)

lemma gate_holds:
  "gate_inv s \<Longrightarrow> holds (gate_locks s) (fd_file fd) (p, fd) = expected_lock (gates s p) (pcs s p) fd"
  by (simp add: gate_inv_def gate_table_agrees_def)

lemma gate_excl:
  "gate_inv s \<Longrightarrow> expected_lock (gates s p) (pcs s p) fd = Some LOCK_EX \<Longrightarrow>
   expected_lock (gates s q) (pcs s q) fd' = Some m \<Longrightarrow> fd_file fd' = fd_file fd \<Longrightarrow>
   (q, fd') = (p, fd)"
  using table_ok_excl [of "gate_locks s" "fd_file fd" "(p, fd)" "(q, fd')"]
  by (metis gate_holds gate_inv_def)

lemma gate_mutex:
  assumes inv: "gate_inv s"
  shows "owns_eviction (gates s p) \<Longrightarrow> owns_eviction (gates s q) \<Longrightarrow> p = q"
    and "writes_fenced (gates s p) \<Longrightarrow> \<not> store_lease_held (gates s q)"
    and "writes_fenced (gates s p) \<Longrightarrow> owns_eviction (gates s p)"
    and "store_jobs (gates s q) \<noteq> [] \<Longrightarrow> store_lease_held (gates s q)"
    and "owns_eviction (gates s p) \<Longrightarrow> \<not> probing (pcs s q)"
proof -
  show "p = q" if "owns_eviction (gates s p)" "owns_eviction (gates s q)"
    using gate_excl [OF inv, of p Intent_fd q Intent_fd LOCK_EX] that
    by (simp add: expected_lock_def)
  show "\<not> store_lease_held (gates s q)" if "writes_fenced (gates s p)"
    using gate_excl [OF inv, of p Eviction_write_fd q Write_fd LOCK_SH] that
    by (auto simp: expected_lock_def)
  show "\<not> probing (pcs s q)" if "owns_eviction (gates s p)"
    using gate_excl [OF inv, of p Intent_fd q Intent_probe_fd LOCK_SH] that
    by (auto simp: expected_lock_def)
qed (use inv in \<open>auto simp: gate_inv_def gate_flags_ok_def\<close>)

section \<open>The methods are runs of system calls\<close>

lemma gate_steps_trans:
  "gate_step\<^sup>*\<^sup>* s t \<Longrightarrow> gate_step t u \<Longrightarrow> gate_step\<^sup>*\<^sup>* s u"
  by (rule rtranclp.rtrancl_into_rtrancl)

lemma gate_reachable_steps: "gate_step\<^sup>*\<^sup>* s t \<Longrightarrow> gate_reachable s \<Longrightarrow> gate_reachable t"
  by (induction rule: rtranclp_induct) (auto intro: gate_next)

text \<open>Run without interruption, the three system calls of a pin are the method.\<close>

lemma try_pin_store_steps:
  assumes ready: "pcs s p = Ready"
  shows "gate_step\<^sup>*\<^sup>* s (put_gate p Ready (snd (try_pin_store p job (my_gate p s))) s)"
proof (cases "gate_closed (gates s p) \<or> owns_eviction (gates s p)")
  case True
  have "s\<lparr>pcs := (pcs s)(p := Ready)\<rparr> = s" using ready by (simp add: fun_upd_idem)
  with True show ?thesis by (simp add: try_pin_store_def)
next
  case False
  obtain ok T1 where probe: "try_flock Intent_lock (p, Intent_probe_fd) LOCK_SH (gate_locks s) = (ok, T1)"
    by (cases "try_flock Intent_lock (p, Intent_probe_fd) LOCK_SH (gate_locks s)")
  show ?thesis
  proof (cases ok)
    case True
    let ?s1 = "put_gate p (Pin_probed job) (gates s p, T1) s"
    let ?s2 = "put_gate p Probe_held (snd (lease_store p job (my_gate p ?s1))) ?s1"
    have "gate_step s ?s1" using gate_step.pin_probe [of s p T1 job] ready False probe True by simp
    moreover have "gate_step ?s1 ?s2" by (rule gate_step.pin_lease) simp
    moreover have "gate_step ?s2 (put_gate p Ready
        (gates ?s2 p, gate_unlock p Intent_probe_fd (gate_locks ?s2)) ?s2)"
      by (rule gate_step.unprobe) simp
    ultimately have "gate_step\<^sup>*\<^sup>* s (put_gate p Ready
        (gates ?s2 p, gate_unlock p Intent_probe_fd (gate_locks ?s2)) ?s2)"
      by (meson r_into_rtranclp gate_steps_trans)
    with False probe True show ?thesis
      by (simp add: try_pin_store_def case_prod_unfold Let_def)
  next
    case refused: False
    have "gate_step s (put_gate p Ready (gates s p, T1) s)"
      using gate_step.probe_refused [of s p T1] ready False probe refused by simp
    with False probe refused show ?thesis by (auto simp: try_pin_store_def)
  qed
qed

lemma finish_gate_eviction_steps:
  assumes "pcs s p = Ready"
  shows "gate_step\<^sup>*\<^sup>* s (put_gate p Ready (finish_gate_eviction p (my_gate p s)) s)"
proof -
  let ?s1 = "put_gate p Unfenced (unfence p (my_gate p s)) s"
  have "gate_step s ?s1" using assms by (rule gate_step.unfence_call)
  moreover have "gate_step ?s1 (put_gate p Ready (disown p (my_gate p ?s1)) ?s1)"
    by (rule gate_step.disown_call) simp
  ultimately show ?thesis by (auto simp: finish_gate_eviction_def intro: gate_steps_trans)
qed

definition fenced_sys :: gate_sys where
  "fenced_sys = put_gate 0 Ready (new_gate\<lparr>owns_eviction := True, writes_fenced := True\<rparr>,
     [((Intent_lock, (0, Intent_fd)), LOCK_EX), ((Writes_lock, (0, Eviction_write_fd)), LOCK_EX)])
     gate_init"

lemma fenced_sys_reachable: "gate_reachable fenced_sys"
proof -
  let ?s1 = "put_gate 0 Ready (snd (try_begin_eviction 0 (my_gate 0 gate_init))) gate_init"
  have "gate_reachable (put_gate 0 Ready (snd (try_fence_writes 0 (my_gate 0 ?s1))) ?s1)"
    by (rule gate_next [OF gate_next [OF gate_start begin_call] fence_call])
      (simp_all add: gate_init_def new_gate_def try_begin_eviction_def gate_try_lock_def
        try_flock_def conflicts_def)
  then show ?thesis
    by (simp add: fenced_sys_def gate_init_def new_gate_def try_begin_eviction_def
        try_fence_writes_def gate_try_lock_def try_flock_def conflicts_def)
qed

lemma fenced_sys_simps [simp]:
  "gates fenced_sys 0 = new_gate\<lparr>owns_eviction := True, writes_fenced := True\<rparr>"
  "p \<noteq> 0 \<Longrightarrow> gates fenced_sys p = new_gate" "pcs fenced_sys p = Ready"
  by (simp_all add: fenced_sys_def gate_init_def)

section \<open>Properties\<close>

text \<open>C3: Deletion and writing never overlap, in any interleaving of the system calls of any
  number of processes sharing the cache directory, crashes included: at most one process owns
  eviction, and while a process has fenced writes no process (itself included) holds a store
  lease or has an admitted store job.\<close>

theorem eviction_excludes_stores:
  assumes "gate_reachable s"
  shows "(owns_eviction (gates s p) \<and> owns_eviction (gates s q) \<longrightarrow> p = q)
    \<and> (writes_fenced (gates s p) \<longrightarrow> \<not> store_lease_held (gates s q) \<and> store_jobs (gates s q) = [])"
  using gate_mutex [OF gate_reachable_inv [OF assms]] by blast

theorem eviction_excludes_stores_witness:
  "writes_fenced (gates fenced_sys 0) \<and> \<not> store_lease_held (gates fenced_sys 1)
    \<and> store_jobs (gates fenced_sys 1) = []"
  using eviction_excludes_stores [OF fenced_sys_reachable, of 0 1] by simp

text \<open>Remark: While any process owns eviction, no store is admitted by any process: the pin of a
  store fails and leaves its gate unchanged. An evictor cannot become owner between the two
  checks of a pin that is under way, because that pin holds the intent lock.\<close>

theorem no_store_admitted_during_eviction:
  assumes "gate_reachable s" and "owns_eviction (gates s p)" and "pcs s q = Ready"
  shows "fst (try_pin_store q job (my_gate q s)) = False
    \<and> fst (snd (try_pin_store q job (my_gate q s))) = gates s q
    \<and> (\<forall>r. \<not> probing (pcs s r))"
proof -
  from assms(1) have inv: "gate_inv s" by (rule gate_reachable_inv)
  have ex: "holds (gate_locks s) Intent_lock (p, Intent_fd) = Some LOCK_EX"
    using gate_holds [OF inv, of Intent_fd p] assms(2) by (simp add: expected_lock_def)
  have "table_ok (gate_locks s)" using inv by (simp add: gate_inv_def)
  from flock.writer_excludes [OF this ex]
  have "\<not> fst (try_flock Intent_lock (q, Intent_probe_fd) LOCK_SH (gate_locks s))" by simp
  moreover have "\<not> probing (pcs s r)" for r
    using assms(2) by (rule gate_mutex(5) [OF inv])
  ultimately show ?thesis by (auto simp: try_pin_store_def case_prod_unfold Let_def)
qed

theorem no_store_admitted_during_eviction_witness:
  "owns_eviction (gates fenced_sys 0) \<and> fst (try_pin_store 1 7 (my_gate 1 fenced_sys)) = False"
  using no_store_admitted_during_eviction [OF fenced_sys_reachable, of 0 1 7] by simp

text \<open>Remark: Eviction makes progress: the owner's next attempt to fence writes succeeds as soon
  as no process has an admitted store left; and whenever no process owns eviction (as after the
  exit of an owner, which drops its locks) and no pin is between its two checks, a running
  process becomes owner at its next attempt.\<close>

theorem eviction_progress:
  assumes "gate_reachable s"
  shows "(owns_eviction (gates s p) \<and> \<not> gate_closed (gates s p)
      \<and> (\<forall>q. \<not> store_lease_held (gates s q))
      \<longrightarrow> fst (try_fence_writes p (my_gate p s)) = Some True)
    \<and> (\<not> gate_closed (gates s p) \<and> (\<forall>q. \<not> owns_eviction (gates s q) \<and> \<not> probing (pcs s q))
      \<longrightarrow> fst (try_begin_eviction p (my_gate p s)) = Some True)"
proof -
  from assms have inv: "gate_inv s" by (rule gate_reachable_inv)
  then have ok: "table_ok (gate_locks s)"
    and agree: "\<And>f q fd. holds (gate_locks s) f (q, fd) =
      (if f = fd_file fd then expected_lock (gates s q) (pcs s q) fd else None)"
    by (auto simp: gate_inv_def gate_table_agrees_def)
  have "fst (try_fence_writes p (my_gate p s)) = Some True"
    if own: "owns_eviction (gates s p)" and op: "\<not> gate_closed (gates s p)"
      and free: "\<forall>q. \<not> store_lease_held (gates s q)"
  proof -
    have one: "writes_fenced (gates s q) \<Longrightarrow> q = p" for q
      using gate_mutex(1,3) [OF inv] own by blast
    have "fst (try_flock Writes_lock (p, Eviction_write_fd) LOCK_EX (gate_locks s))"
    proof (rule flock.free_grants [OF ok])
      fix d :: "nat \<times> gate_fd"
      assume "d \<noteq> (p, Eviction_write_fd)"
      with one free show "holds (gate_locks s) Writes_lock d = None"
        by (cases d; cases "snd d") (auto simp: agree expected_lock_def)
    qed
    with own op show ?thesis
      by (simp add: try_fence_writes_def gate_try_lock_def case_prod_unfold Let_def)
  qed
  moreover have "fst (try_begin_eviction p (my_gate p s)) = Some True"
    if op: "\<not> gate_closed (gates s p)"
      and free: "\<forall>q. \<not> owns_eviction (gates s q) \<and> \<not> probing (pcs s q)"
  proof -
    have "fst (try_flock Intent_lock (p, Intent_fd) LOCK_EX (gate_locks s))"
    proof (rule flock.free_grants [OF ok])
      fix d :: "nat \<times> gate_fd"
      from free show "holds (gate_locks s) Intent_lock d = None"
        by (cases d; cases "snd d") (auto simp: agree expected_lock_def)
    qed
    with op show ?thesis
      by (simp add: try_begin_eviction_def gate_try_lock_def case_prod_unfold Let_def)
  qed
  ultimately show ?thesis by blast
qed

theorem eviction_progress_witness:
  "fst (try_fence_writes 0 (my_gate 0 fenced_sys)) = Some True"
proof -
  have "\<not> store_lease_held (gates fenced_sys q)" for q
    by (cases "q = 0") (simp_all add: new_gate_def)
  with eviction_progress [OF fenced_sys_reachable, of 0] show ?thesis
    by (simp add: new_gate_def)
qed

end
