(* ===== verification/ShardPaths.thy ===== *)
theory ShardPaths
  imports Prelude
begin

text \<open>
  Paths of the filesystem tier: the parts of \<open>posixpath\<close> that
  \<open>ShardLeaseIndex\<close> (\<open>src/patches/tiering-fs-bounded-lru.py\<close>) uses, and its own
  normalisation of block paths and derivation of the hash shard of a path.
\<close>

section \<open>posixpath\<close>

fun split_on :: "char \<Rightarrow> string \<Rightarrow> string list" where
  "split_on c [] = [[]]"
| "split_on c (x # xs) =
     (if x = c then [] # split_on c xs
      else (case split_on c xs of [] \<Rightarrow> [[x]] | y # ys \<Rightarrow> (x # y) # ys))"

fun join_with :: "string \<Rightarrow> string list \<Rightarrow> string" where
  "join_with sep [] = []"
| "join_with sep [x] = x"
| "join_with sep (x # xs) = x @ sep @ join_with sep xs"

definition path_join :: "path \<Rightarrow> path \<Rightarrow> path" where
  "path_join a b =
     (if startswith b ''/'' then b
      else if a = [] \<or> endswith a ''/'' then a @ b else a @ ''/'' @ b)"

definition path_basename :: "path \<Rightarrow> path" where
  "path_basename p = rev (takeWhile (\<lambda>c. c \<noteq> CHR ''/'') (rev p))"

definition norm_step :: "bool \<Rightarrow> string list \<Rightarrow> string \<Rightarrow> string list" where
  "norm_step absolute acc part =
     (if part = [] \<or> part = ''.'' then acc
      else if part \<noteq> ''..'' \<or> (\<not> absolute \<and> acc = []) \<or> (acc \<noteq> [] \<and> last acc = ''..'')
        then acc @ [part]
      else if acc \<noteq> [] then butlast acc else acc)"

definition normpath :: "path \<Rightarrow> path" where
  "normpath p =
     (if p = [] then ''.''
      else (let slashes = (if startswith p ''//'' \<and> \<not> startswith p ''///'' then ''//''
                           else if startswith p ''/'' then ''/'' else []);
                comps = foldl (norm_step (slashes \<noteq> [])) [] (split_on CHR ''/'' p);
                res = slashes @ join_with ''/'' comps
            in if res = [] then ''.'' else res))"

definition abspath :: "path \<Rightarrow> path \<Rightarrow> path" where
  "abspath cwd p = normpath (if startswith p ''/'' then p else path_join cwd p)"

definition rstrip_sep :: "path \<Rightarrow> path" where
  "rstrip_sep p = rev (dropWhile (\<lambda>c. c = CHR ''/'') (rev p))"

section \<open>Roots and shards\<close>

text \<open>
  The roots of an index: \<open>run_root\<close> is the resolved cache directory, \<open>input_run_root\<close> the
  same directory as the caller spelled it (made absolute); \<open>cwd\<close> is the process's working
  directory, which \<open>os.path.abspath\<close> reads.
\<close>

record roots =
  cwd :: path
  run_root :: path
  input_run_root :: path

definition root_prefix :: "roots \<Rightarrow> path" where
  "root_prefix R = rstrip_sep (run_root R) @ ''/''"

definition input_root_prefix :: "roots \<Rightarrow> path" where
  "input_root_prefix R = rstrip_sep (input_run_root R) @ ''/''"

datatype lease_error = Outside_root path | Outside_shard path | Exists_failed | Stop_iteration

definition shard_name :: "string \<Rightarrow> bool" where
  "shard_name s \<longleftrightarrow> length s = 3 \<and> list_all (\<lambda>c. c \<in> set ''0123456789abcdef'') s"

definition normalize_path :: "roots \<Rightarrow> path \<Rightarrow> lease_error + path" where
  "normalize_path R p =
     (if startswith p (root_prefix R) then Inr p
      else if startswith p (input_root_prefix R)
        then Inr (root_prefix R @ drop (length (input_root_prefix R)) p)
      else (let n = abspath (cwd R) p
            in if startswith n (root_prefix R) then Inr n
               else if startswith n (input_root_prefix R)
                 then Inr (root_prefix R @ drop (length (input_root_prefix R)) n)
               else Inl (Outside_root p)))"

definition shard_for_normalized_path :: "roots \<Rightarrow> path \<Rightarrow> lease_error + shard" where
  "shard_for_normalized_path R p =
     (if \<not> startswith p (root_prefix R) then Inl (Outside_root p)
      else (let relative = drop (length (root_prefix R)) p;
                name = takeWhile (\<lambda>c. c \<noteq> CHR ''/'') relative
            in if \<not> shard_name name then Inl (Outside_shard p)
               else Inr (path_join (run_root R) name)))"

definition shard_for_path :: "roots \<Rightarrow> path \<Rightarrow> lease_error + shard" where
  "shard_for_path R p =
     (case normalize_path R p of Inl e \<Rightarrow> Inl e | Inr n \<Rightarrow> shard_for_normalized_path R n)"

text \<open>The shards of a list of paths; the first bad path raises.\<close>

fun shards_for_paths :: "roots \<Rightarrow> path list \<Rightarrow> lease_error + shard list" where
  "shards_for_paths R [] = Inr []"
| "shards_for_paths R (p # ps) =
     (case shard_for_path R p of
        Inl e \<Rightarrow> Inl e
      | Inr s \<Rightarrow> (case shards_for_paths R ps of Inl e \<Rightarrow> Inl e | Inr ss \<Rightarrow> Inr (s # ss)))"

lemma shards_for_paths_length: "shards_for_paths R ps = Inr ss \<Longrightarrow> length ss = length ps"
  by (induction ps arbitrary: ss) (auto split: sum.splits)

lemma normalize_path_in_root: "normalize_path R p = Inr n \<Longrightarrow> startswith n (root_prefix R)"
  by (auto simp: normalize_path_def Let_def split: if_splits)

lemma normalize_path_fixed: "normalize_path R p = Inr n \<Longrightarrow> normalize_path R n = Inr n"
  using normalize_path_in_root [of R p n] by (simp add: normalize_path_def)

lemma shard_name_no_slash: "shard_name s \<Longrightarrow> CHR ''/'' \<notin> set s"
  by (auto simp: shard_name_def list_all_iff)

lemma shard_for_path_form:
  "shard_for_path R p = Inr s \<Longrightarrow> \<exists>name. shard_name name \<and> s = path_join (run_root R) name"
  by (auto simp: shard_for_path_def shard_for_normalized_path_def Let_def split: sum.splits if_splits)

lemma path_basename_join: "CHR ''/'' \<notin> set name \<Longrightarrow> path_basename (path_join d name) = name"
proof -
  assume n: "CHR ''/'' \<notin> set name"
  then have t: "takeWhile (\<lambda>c. c \<noteq> CHR ''/'') (rev name) = rev name"
    by (auto simp: takeWhile_eq_all_conv)
  have t': "takeWhile (\<lambda>c. c \<noteq> CHR ''/'') (rev name @ CHR ''/'' # xs) = rev name" for xs
    using n by (subst takeWhile_append2) auto
  have nb: "\<not> startswith name ''/''" using n by (cases name) auto
  show ?thesis
  proof (cases "d = []")
    case True
    then show ?thesis using nb by (simp add: path_join_def path_basename_def t)
  next
    case ne: False
    show ?thesis
    proof (cases "endswith d ''/''")
      case True
      then obtain e where "d = e @ ''/''" by (auto simp: endswith_def suffix_def)
      then show ?thesis using nb by (simp add: path_join_def path_basename_def endswith_def t')
    next
      case False
      then show ?thesis using nb ne by (simp add: path_join_def path_basename_def t')
    qed
  qed
qed

text \<open>Two names give two shards, so the lock file of a shard determines the shard.\<close>

lemma shard_basename_inj:
  "shard_for_path R p = Inr s \<Longrightarrow> shard_for_path R q = Inr t \<Longrightarrow>
   path_basename s = path_basename t \<Longrightarrow> s = t"
  by (auto dest!: shard_for_path_form simp: path_basename_join shard_name_no_slash)

end
