(* ===== verification/ShardLease.thy ===== *)
theory ShardLease
  imports ShardPaths Flock EvictionGate "HOL-Library.List_Lexorder" "HOL-Library.Product_Lexorder"
    "HOL-Library.Char_ord"
begin

text \<open>
  \<open>ShardLeaseIndex\<close> of \<open>src/patches/tiering-fs-bounded-lru.py\<close>: LRU metadata and leases of
  the hash shards. Methods run under the index's \<open>RLock\<close>, so each is one function of the
  index; the two places where the lock is released inside a method (around \<open>exists\<close>) or where
  a sibling process can run between two system calls are split. The kernel's lock table is
  shared with sibling processes; the lock file of a shard is identified with the shard
  (\<open>shard_basename_inj\<close>). Python sets that the code iterates are lists, in the set's
  (unspecified) order. A descriptor is open for exactly the shards with a positive count.
  Lemmas: the reference-count ledger, its agreement with the kernel's table, and the
  exclusion of eviction and use.
\<close>

section \<open>State\<close>

datatype lease_fd = Shared_fd | Evict_fd

type_synonym shard_table = "(shard, pid \<times> lease_fd) lock_table"

record lease_index =
  lease_roots :: roots
  lease_pid :: pid
  last_used :: "(shard, seconds) dict"
  request_shards :: "(req_id, shard list) dict"
  pending_lookup_shards :: "(req_id, (shard, nat) dict) dict"
  job_shards :: "(job_id, shard list) dict"
  evicting :: "shard list"
  shared_lock_counts :: "(shard, nat) dict"
  eviction_lock_fds :: "shard list"
  dirty_shards :: "shard list"
  last_persisted :: "(shard, seconds) dict"
  closed_requests :: "req_id list"
  lookup_cancelled_requests :: "req_id list"
  shard_locks :: shard_table

section \<open>Construction\<close>

text \<open>A directory entry as \<open>scandir\<close> reports it: name, whether it is a real directory, its
  mtime (\<open>None\<close> when it vanished before the \<open>stat\<close>).\<close>

type_synonym dir_entry = "string \<times> bool \<times> seconds option"

fun scan_shards :: "path \<Rightarrow> dir_entry list \<Rightarrow> (shard, seconds) dict \<Rightarrow> (shard, seconds) dict" where
  "scan_shards base [] lru = lru"
| "scan_shards base ((name, is_dir, mtime) # es) lru =
     (if \<not> is_dir \<or> \<not> shard_name name then scan_shards base es lru
      else (case mtime of
          Some t \<Rightarrow> scan_shards base es (dput (path_join base name) t lru)
        | None \<Rightarrow> scan_shards base es lru))"

definition new_lease_index :: "roots \<Rightarrow> pid \<Rightarrow> dir_entry list \<Rightarrow> shard_table \<Rightarrow> lease_index" where
  "new_lease_index R p entries T = \<lparr>lease_roots = R, lease_pid = p,
     last_used = scan_shards (run_root R) entries [], request_shards = [],
     pending_lookup_shards = [], job_shards = [], evicting = [], shared_lock_counts = [],
     eviction_lock_fds = [], dirty_shards = [], last_persisted = [], closed_requests = [],
     lookup_cancelled_requests = [], shard_locks = T\<rparr>"

section \<open>The shared lock of one shard\<close>

definition acquire_shared :: "shard \<Rightarrow> lease_index \<Rightarrow> bool \<times> lease_index" where
  "acquire_shared s x =
     (let count = dget (shared_lock_counts x) s 0
      in if count \<noteq> 0
         then (True, x\<lparr>shared_lock_counts := dput s (count + 1) (shared_lock_counts x)\<rparr>)
         else (let (ok, T) = try_flock s (lease_pid x, Shared_fd) LOCK_SH (shard_locks x)
               in if \<not> ok then (False, x\<lparr>shard_locks := T\<rparr>)
                  else (True, x\<lparr>shard_locks := T,
                                shared_lock_counts := dput s 1 (shared_lock_counts x)\<rparr>)))"

definition release_shared :: "shard \<Rightarrow> lease_index \<Rightarrow> lease_index" where
  "release_shared s x =
     (let count = dget (shared_lock_counts x) s 0
      in if count > 1
         then x\<lparr>shared_lock_counts := dput s (count - 1) (shared_lock_counts x)\<rparr>
         else x\<lparr>shared_lock_counts := dpop s (shared_lock_counts x),
                shard_locks := (if count = 0 then shard_locks x
                                else unlock s (lease_pid x, Shared_fd) (shard_locks x))\<rparr>)"

definition release_counts :: "(shard, nat) dict \<Rightarrow> lease_index \<Rightarrow> lease_index" where
  "release_counts d x = fold (\<lambda>(s, n). release_shared s ^^ n) d x"

section \<open>Lookups\<close>

definition lookup_fenced :: "req_id \<Rightarrow> lease_index \<Rightarrow> bool" where
  "lookup_fenced r x \<longleftrightarrow> r \<in> set (closed_requests x) \<or> r \<in> set (lookup_cancelled_requests x)"

definition add_pending :: "req_id \<Rightarrow> shard \<Rightarrow> lease_index \<Rightarrow> lease_index" where
  "add_pending r s x =
     (let pending = dget (pending_lookup_shards x) r []
      in x\<lparr>pending_lookup_shards :=
             dput r (dput s (dget pending s 0 + 1) pending) (pending_lookup_shards x)\<rparr>)"

text \<open>The list comprehension \<open>eligible\<close>, then the loop that counts the pending leases.\<close>

fun acquire_eligible :: "shard list \<Rightarrow> lease_index \<Rightarrow> bool list \<times> lease_index" where
  "acquire_eligible [] x = ([], x)"
| "acquire_eligible (s # ss) x =
     (let (ok, x1) = (if s \<in> set (evicting x) then (False, x) else acquire_shared s x);
          (oks, x2) = acquire_eligible ss x1
      in (ok # oks, x2))"

definition pick :: "'a list \<Rightarrow> bool list \<Rightarrow> 'a list" where
  "pick xs oks = map fst (filter snd (zip xs oks))"

datatype lookup_start = Fenced | Candidates "shard list" "bool list"

definition lookup_begin :: "req_id \<Rightarrow> path list \<Rightarrow> lease_index \<Rightarrow> (lease_error + lookup_start) \<times> lease_index" where
  "lookup_begin r paths x =
     (if lookup_fenced r x then (Inr Fenced, x)
      else (case shards_for_paths (lease_roots x) paths of
          Inl e \<Rightarrow> (Inl e, x)
        | Inr shards \<Rightarrow>
            (let (eligible, x1) = acquire_eligible shards x;
                 x2 = x1\<lparr>pending_lookup_shards :=
                   dput r (dget (pending_lookup_shards x1) r []) (pending_lookup_shards x1)\<rparr>
             in (Inr (Candidates shards eligible), fold (add_pending r) (pick shards eligible) x2))))"

fun release_pending_loop :: "shard list \<Rightarrow> (shard, nat) dict \<Rightarrow> lease_index \<Rightarrow> (shard, nat) dict \<times> lease_index" where
  "release_pending_loop [] pending x = (pending, x)"
| "release_pending_loop (s # ss) pending x =
     (let current = dget pending s 0
      in if current = 0 then release_pending_loop ss pending x
         else release_pending_loop ss
                (if current - 1 > 0 then dput s (current - 1) pending else dpop s pending)
                (release_shared s x))"

definition release_pending_shards :: "req_id \<Rightarrow> shard list \<Rightarrow> lease_index \<Rightarrow> lease_index" where
  "release_pending_shards r shards x =
     (case map_of (pending_lookup_shards x) r of
        None \<Rightarrow> x
      | Some pending \<Rightarrow>
          (let (rest, x1) = release_pending_loop shards pending x
           in x1\<lparr>pending_lookup_shards :=
                (if rest = [] then dpop r (pending_lookup_shards x1)
                 else dput r rest (pending_lookup_shards x1))\<rparr>))"

definition mark_used :: "shard \<Rightarrow> seconds \<Rightarrow> lease_index \<Rightarrow> lease_index" where
  "mark_used s now x = x\<lparr>last_used := dput s now (last_used x),
     dirty_shards := set_add s (dirty_shards x)\<rparr>"

definition add_pin :: "req_id \<Rightarrow> shard \<Rightarrow> lease_index \<Rightarrow> lease_index" where
  "add_pin r s x = x\<lparr>request_shards :=
     dput r (set_add s (dget (request_shards x) r [])) (request_shards x)\<rparr>"

text \<open>
  One positive result of \<open>lookup_and_pin\<close>. As in the code, the result of taking the shared
  lock is not looked at before the shard is entered in the request's pins.
\<close>

definition pin_hit :: "req_id \<Rightarrow> seconds \<Rightarrow> shard \<Rightarrow> lease_index \<Rightarrow> lease_index" where
  "pin_hit r now s x =
     mark_used s now
       (if s \<in> set (dget (request_shards x) r []) then x
        else add_pin r s (snd (acquire_shared s x)))"

definition open_pins :: "req_id \<Rightarrow> lease_index \<Rightarrow> lease_index" where
  "open_pins r x = x\<lparr>request_shards := dput r (dget (request_shards x) r []) (request_shards x)\<rparr>"

definition lookup_pin :: "req_id \<Rightarrow> seconds \<Rightarrow> shard list \<Rightarrow> bool list \<Rightarrow> lease_index \<Rightarrow> bool list \<times> lease_index" where
  "lookup_pin r now shards hits x =
     (if lookup_fenced r x then (map (\<lambda>_. False) shards, x)
      else (hits, fold (pin_hit r now) (pick shards hits) (open_pins r x)))"

text \<open>
  \<open>hits = [next(candidate_hits) if ok else False for ok in eligible]\<close>; too few results raise
  \<open>StopIteration\<close>.
\<close>

fun spread_hits :: "bool list \<Rightarrow> bool list \<Rightarrow> (bool list) option" where
  "spread_hits [] hs = Some []"
| "spread_hits (False # oks) hs = map_option (Cons False) (spread_hits oks hs)"
| "spread_hits (True # oks) (h # hs) = map_option (Cons h) (spread_hits oks hs)"
| "spread_hits (True # oks) [] = None"

text \<open>
  The whole method. \<open>exists\<close> is the callback (\<open>None\<close> when it raises); \<open>meanwhile\<close> is what
  other threads and processes do to the index and the lock table while it runs without the
  index's lock; \<open>sibling\<close> is what other processes do to the lock table between the release
  of the pending leases and the pinning of the hits.
\<close>

definition lookup_and_pin ::
  "req_id \<Rightarrow> path list \<Rightarrow> (path list \<Rightarrow> (bool list) option) \<Rightarrow> seconds
    \<Rightarrow> (lease_index \<Rightarrow> lease_index) \<Rightarrow> (lease_index \<Rightarrow> lease_index)
    \<Rightarrow> lease_index \<Rightarrow> (lease_error + bool list) \<times> lease_index" where
  "lookup_and_pin r paths exists now meanwhile sibling x =
     (case lookup_begin r paths x of
        (Inl e, x1) \<Rightarrow> (Inl e, x1)
      | (Inr Fenced, x1) \<Rightarrow> (Inr (map (\<lambda>_. False) paths), x1)
      | (Inr (Candidates shards eligible), x1) \<Rightarrow>
          (let x2 = meanwhile x1; mine = pick shards eligible
           in case exists (pick paths eligible) of
                None \<Rightarrow> (Inl Exists_failed, release_pending_shards r mine x2)
              | Some found \<Rightarrow>
                  (case spread_hits eligible found of
                     None \<Rightarrow> (Inl Stop_iteration, release_pending_shards r mine x2)
                   | Some hits \<Rightarrow>
                       (let (res, x4) = lookup_pin r now shards hits
                              (sibling (release_pending_shards r mine x2))
                        in (Inr res, x4)))))"

definition begin_lookup :: "req_id \<Rightarrow> path \<Rightarrow> lease_index \<Rightarrow> (lease_error + unit) \<times> lease_index" where
  "begin_lookup r path x =
     (if lookup_fenced r x then (Inr (), x)
      else (case shard_for_path (lease_roots x) path of
          Inl e \<Rightarrow> (Inl e, x)
        | Inr s \<Rightarrow> (let (ok, x1) = acquire_shared s x
                    in (Inr (), if ok then add_pending r s x1 else x1))))"

definition resolve_cached_lookup :: "req_id \<Rightarrow> path \<Rightarrow> bool \<Rightarrow> seconds \<Rightarrow> lease_index \<Rightarrow> (lease_error + bool) \<times> lease_index" where
  "resolve_cached_lookup r path hit now x =
     (case shard_for_path (lease_roots x) path of
        Inl e \<Rightarrow> (Inl e, x)
      | Inr s \<Rightarrow>
          (let valid = (hit \<and> \<not> (lookup_fenced r x \<or> s \<in> set (evicting x)));
               x1 = open_pins r x;
               (valid1, x2) =
                 (if valid \<and> s \<notin> set (dget (request_shards x1) r [])
                  then (let (ok, y) = acquire_shared s x1
                        in (ok, if ok then add_pin r s y else y))
                  else (valid, x1));
               x3 = release_pending_shards r [s] x2
           in if \<not> valid1 then (Inr False, x3) else (Inr True, mark_used s now x3)))"

section \<open>Touches\<close>

fun touch_loop :: "shard list \<Rightarrow> seconds \<Rightarrow> path list \<Rightarrow> lease_index \<Rightarrow> (lease_error + unit) \<times> lease_index" where
  "touch_loop pinned now [] x = (Inr (), x)"
| "touch_loop pinned now (p # ps) x =
     (case shard_for_path (lease_roots x) p of
        Inl e \<Rightarrow> (Inl e, x)
      | Inr s \<Rightarrow>
          if s \<notin> set pinned \<or> s \<in> set (evicting x) then touch_loop pinned now ps x
          else touch_loop pinned now ps (mark_used s now x))"

definition touch :: "req_id \<Rightarrow> path list \<Rightarrow> seconds \<Rightarrow> lease_index \<Rightarrow> (lease_error + unit) \<times> lease_index" where
  "touch r paths now x =
     (if r \<in> set (closed_requests x) then (Inr (), x)
      else (let pinned = dget (request_shards x) r []
            in if pinned = [] then (Inr (), x) else touch_loop pinned now paths x))"

fun record_store :: "path list \<Rightarrow> seconds \<Rightarrow> lease_index \<Rightarrow> (lease_error + unit) \<times> lease_index" where
  "record_store [] now x = (Inr (), x)"
| "record_store (p # ps) now x =
     (case shard_for_path (lease_roots x) p of
        Inl e \<Rightarrow> (Inl e, x)
      | Inr s \<Rightarrow> record_store ps now (mark_used s now x))"

fun record_access :: "path list \<Rightarrow> seconds \<Rightarrow> lease_index \<Rightarrow> (lease_error + unit) \<times> lease_index" where
  "record_access [] now x = (Inr (), x)"
| "record_access (p # ps) now x =
     (case shard_for_path (lease_roots x) p of
        Inl e \<Rightarrow> (Inl e, x)
      | Inr s \<Rightarrow>
          if map_of (last_used x) s = None \<or> s \<in> set (evicting x) then record_access ps now x
          else record_access ps now (mark_used s now x))"

definition flush_touches :: "seconds \<Rightarrow> nat \<Rightarrow> seconds \<Rightarrow> lease_index \<Rightarrow> shard list \<times> lease_index" where
  "flush_touches min_age max_updates now x =
     (let ready = take max_updates
            (filter (\<lambda>s. now - dget (last_persisted x) s 0 \<ge> min_age \<and> s \<notin> set (evicting x))
              (dirty_shards x))
      in (ready, x\<lparr>dirty_shards := filter (\<lambda>s. s \<notin> set ready) (dirty_shards x),
                  last_persisted := fold (\<lambda>s. dput s now) ready (last_persisted x)\<rparr>))"

section \<open>Request and job lifetimes\<close>

definition drop_pending :: "req_id \<Rightarrow> lease_index \<Rightarrow> lease_index" where
  "drop_pending r x =
     release_counts (dget (pending_lookup_shards x) r [])
       (x\<lparr>pending_lookup_shards := dpop r (pending_lookup_shards x)\<rparr>)"

definition release_request_pins :: "req_id \<Rightarrow> lease_index \<Rightarrow> lease_index" where
  "release_request_pins r x =
     (fold release_shared (dget (request_shards x) r []) x)\<lparr>request_shards :=
        dput r [] (request_shards x)\<rparr>"

definition open_request :: "req_id \<Rightarrow> lease_index \<Rightarrow> lease_index" where
  "open_request r x =
     (let x1 = x\<lparr>closed_requests := removeAll r (closed_requests x),
                lookup_cancelled_requests := set_discard r (lookup_cancelled_requests x)\<rparr>;
          x2 = fold release_shared (dget (request_shards x1) r [])
                 (x1\<lparr>request_shards := dpop r (request_shards x1)\<rparr>);
          x3 = drop_pending r x2
      in x3\<lparr>request_shards := dput r [] (request_shards x3)\<rparr>)"

definition cancel_lookup :: "req_id \<Rightarrow> bool \<Rightarrow> lease_index \<Rightarrow> lease_index" where
  "cancel_lookup r release_pins x =
     (let x1 = drop_pending r
            (x\<lparr>lookup_cancelled_requests := set_add r (lookup_cancelled_requests x)\<rparr>)
      in if release_pins then release_request_pins r x1 else x1)"

definition release_request :: "req_id \<Rightarrow> lease_index \<Rightarrow> lease_index" where
  "release_request r x =
     (let x1 = release_request_pins r x;
          x2 = drop_pending r (x1\<lparr>request_shards := dpop r (request_shards x1)\<rparr>);
          closed = removeAll r (closed_requests x2) @ [r]
      in x2\<lparr>lookup_cancelled_requests := set_discard r (lookup_cancelled_requests x2),
            closed_requests := (if length closed > 100000 then tl closed else closed)\<rparr>)"

fun pin_job_loop :: "shard list \<Rightarrow> shard list \<Rightarrow> lease_index \<Rightarrow> bool \<times> lease_index" where
  "pin_job_loop [] acquired x = (True, x)"
| "pin_job_loop (s # ss) acquired x =
     (let (ok, x1) = (if s \<in> set (evicting x) then (False, x) else acquire_shared s x)
      in if \<not> ok then (False, fold release_shared acquired x1)
         else pin_job_loop ss (acquired @ [s]) x1)"

definition pin_job :: "job_id \<Rightarrow> path list \<Rightarrow> lease_index \<Rightarrow> (lease_error + bool) \<times> lease_index" where
  "pin_job job paths x =
     (case shards_for_paths (lease_roots x) paths of
        Inl e \<Rightarrow> (Inl e, x)
      | Inr all \<Rightarrow>
          (let shards = remdups all; (ok, x1) = pin_job_loop shards [] x
           in if \<not> ok then (Inr False, x1)
              else if list_ex (\<lambda>s. s \<in> set (evicting x1)) shards
                then (Inr False, fold release_shared shards x1)
              else (Inr True, x1\<lparr>job_shards := dput job shards (job_shards x1)\<rparr>)))"

definition release_job :: "job_id \<Rightarrow> lease_index \<Rightarrow> lease_index" where
  "release_job job x =
     fold release_shared (dget (job_shards x) job [])
       (x\<lparr>job_shards := dpop job (job_shards x)\<rparr>)"

section \<open>Eviction\<close>

definition pinned_shards :: "lease_index \<Rightarrow> shard list" where
  "pinned_shards x = concat (map snd (request_shards x)) @ concat (map snd (job_shards x))
     @ concat (map (\<lambda>(r, d). map fst d) (pending_lookup_shards x))"

definition eviction_candidates :: "lease_index \<Rightarrow> (seconds \<times> shard) list" where
  "eviction_candidates x =
     sort (map (\<lambda>(s, t). (t, s))
       (filter (\<lambda>(s, t). s \<notin> set (pinned_shards x) \<and> s \<notin> set (evicting x)) (last_used x)))"

fun lock_first_candidate :: "(seconds \<times> shard) list \<Rightarrow> lease_index \<Rightarrow> shard option \<times> lease_index" where
  "lock_first_candidate [] x = (None, x)"
| "lock_first_candidate ((t, s) # cs) x =
     (let (ok, T) = try_flock s (lease_pid x, Evict_fd) LOCK_EX (shard_locks x)
      in if \<not> ok then lock_first_candidate cs (x\<lparr>shard_locks := T\<rparr>)
         else (Some s, x\<lparr>shard_locks := T, evicting := set_add s (evicting x),
                         eviction_lock_fds := set_add s (eviction_lock_fds x)\<rparr>))"

definition begin_oldest_eviction :: "lease_index \<Rightarrow> shard option \<times> lease_index" where
  "begin_oldest_eviction x = lock_first_candidate (eviction_candidates x) x"

text \<open>
  \<open>stat\<close> is what the filesystem says of the shard: \<open>None\<close> when it is no directory, else its
  mtime, \<open>Some None\<close> when it vanished before the \<open>stat\<close>.
\<close>

definition finish_eviction :: "shard \<Rightarrow> bool \<Rightarrow> (seconds option) option \<Rightarrow> lease_index \<Rightarrow> lease_index" where
  "finish_eviction s success stat x =
     (let x1 = x\<lparr>evicting := set_discard s (evicting x)\<rparr>;
          x2 = (if s \<in> set (eviction_lock_fds x1)
                then x1\<lparr>eviction_lock_fds := set_discard s (eviction_lock_fds x1),
                       shard_locks := unlock s (lease_pid x1, Evict_fd) (shard_locks x1)\<rparr>
                else x1)
      in if success
         then x2\<lparr>last_used := dpop s (last_used x2),
                dirty_shards := set_discard s (dirty_shards x2),
                last_persisted := dpop s (last_persisted x2)\<rparr>
         else (case stat of
             None \<Rightarrow> x2
           | Some (Some mtime) \<Rightarrow> x2\<lparr>last_used := dput s mtime (last_used x2)\<rparr>
           | Some None \<Rightarrow> x2\<lparr>last_used := dpop s (last_used x2)\<rparr>))"

definition evictions_in_flight :: "lease_index \<Rightarrow> nat" where
  "evictions_in_flight x = length (evicting x)"

end
