(* ===== verification/ShardLeaseInv.thy ===== *)
theory ShardLeaseInv
  imports ShardLease
begin

text \<open>
  The invariant of the shard lease index: the reference count of every shard is the number of
  leases recorded for requests, pending lookups and jobs, the kernel's lock table agrees with
  the counts and the eviction set, and so no shard is evicted while it is in use. One lemma
  per method shows that it keeps the invariant; the events of an index are then a guarded
  step function, and the properties follow for every run.
\<close>

section \<open>The invariant\<close>

definition lease_count :: "lease_index \<Rightarrow> shard \<Rightarrow> nat" where
  "lease_count x s = dget (shared_lock_counts x) s 0"

definition pin_leases :: "lease_index \<Rightarrow> shard \<Rightarrow> nat" where
  "pin_leases x s = dict_sum (\<lambda>S. count_list S s) (request_shards x)"

definition pending_leases :: "lease_index \<Rightarrow> shard \<Rightarrow> nat" where
  "pending_leases x s = dict_sum (\<lambda>d. dget d s 0) (pending_lookup_shards x)"

definition job_leases :: "lease_index \<Rightarrow> shard \<Rightarrow> nat" where
  "job_leases x s = dict_sum (\<lambda>S. count_list S s) (job_shards x)"

definition leases :: "lease_index \<Rightarrow> shard \<Rightarrow> nat" where
  "leases x s = pin_leases x s + pending_leases x s + job_leases x s"

definition kernel_agrees :: "lease_index \<Rightarrow> bool" where
  "kernel_agrees x \<longleftrightarrow> table_ok (shard_locks x)
     \<and> set (evicting x) = set (eviction_lock_fds x)
     \<and> (\<forall>s. holds (shard_locks x) s (lease_pid x, Shared_fd) =
              (if 0 < lease_count x s then Some LOCK_SH else None)
          \<and> holds (shard_locks x) s (lease_pid x, Evict_fd) =
              (if s \<in> set (evicting x) then Some LOCK_EX else None))"

definition lease_dicts_ok :: "lease_index \<Rightarrow> bool" where
  "lease_dicts_ok x \<longleftrightarrow> dict_ok (request_shards x) \<and> dict_ok (pending_lookup_shards x)
     \<and> dict_ok (job_shards x) \<and> dict_ok (last_used x)
     \<and> (\<forall>r d. map_of (pending_lookup_shards x) r = Some d \<longrightarrow> dict_ok d)"

definition lease_inv :: "lease_index \<Rightarrow> bool" where
  "lease_inv x \<longleftrightarrow> kernel_agrees x \<and> lease_dicts_ok x \<and> (\<forall>s. lease_count x s = leases x s)"

text \<open>Everything but the counts and the lock table.\<close>

definition lease_frame where
  "lease_frame x = (lease_roots x, lease_pid x, last_used x, request_shards x,
     pending_lookup_shards x, job_shards x, evicting x, eviction_lock_fds x, dirty_shards x,
     last_persisted x, closed_requests x, lookup_cancelled_requests x)"

lemma lease_frame_leases:
  "lease_frame y = lease_frame x \<Longrightarrow> leases y s = leases x s"
  "lease_frame y = lease_frame x \<Longrightarrow> lease_dicts_ok y = lease_dicts_ok x"
  by (simp_all add: lease_frame_def leases_def pin_leases_def pending_leases_def job_leases_def
      lease_dicts_ok_def)

lemmas lease_count_defs = lease_count_def acquire_shared_def release_shared_def

lemma lease_count_acquire:
  "lease_count (snd (acquire_shared k x)) j =
     (if j = k \<and> fst (acquire_shared k x) then Suc (lease_count x j) else lease_count x j)"
  by (auto simp: lease_count_defs Let_def case_prod_unfold)

lemma lease_count_release:
  "lease_count (release_shared k x) j = (if j = k then lease_count x j - 1 else lease_count x j)"
  by (auto simp: lease_count_defs Let_def)

lemma lease_frame_acquire: "lease_frame (snd (acquire_shared k x)) = lease_frame x"
  by (auto simp: lease_frame_def acquire_shared_def Let_def case_prod_unfold)

lemma lease_frame_release: "lease_frame (release_shared k x) = lease_frame x"
  by (auto simp: lease_frame_def release_shared_def Let_def)

lemma kernel_agrees_acquire: "kernel_agrees x \<Longrightarrow> kernel_agrees (snd (acquire_shared k x))"
  by (auto simp: kernel_agrees_def acquire_shared_def lease_count_def Let_def case_prod_unfold
      table_ok_try holds_try)

lemma kernel_agrees_release: "kernel_agrees x \<Longrightarrow> kernel_agrees (release_shared k x)"
  by (auto simp: kernel_agrees_def release_shared_def lease_count_def Let_def
      table_ok_unlock holds_unlock)

interpretation shard_lease: refcounted acquire_shared release_shared lease_count lease_frame kernel_agrees
  by unfold_locales
    (auto simp: lease_count_acquire lease_count_release lease_frame_acquire lease_frame_release
      kernel_agrees_acquire kernel_agrees_release)

text \<open>Changes to the bookkeeping fields do not touch the locks.\<close>

lemma kernel_agrees_frame:
  "kernel_agrees x \<Longrightarrow> shard_locks y = shard_locks x \<Longrightarrow> shared_lock_counts y = shared_lock_counts x
   \<Longrightarrow> lease_pid y = lease_pid x \<Longrightarrow> evicting y = evicting x
   \<Longrightarrow> eviction_lock_fds y = eviction_lock_fds x \<Longrightarrow> kernel_agrees y"
  by (simp add: kernel_agrees_def lease_count_def)

lemma lease_inv_frame:
  "lease_inv x \<Longrightarrow> shard_locks y = shard_locks x \<Longrightarrow> shared_lock_counts y = shared_lock_counts x
   \<Longrightarrow> lease_pid y = lease_pid x \<Longrightarrow> evicting y = evicting x
   \<Longrightarrow> eviction_lock_fds y = eviction_lock_fds x \<Longrightarrow> request_shards y = request_shards x
   \<Longrightarrow> pending_lookup_shards y = pending_lookup_shards x \<Longrightarrow> job_shards y = job_shards x
   \<Longrightarrow> dict_ok (last_used y) \<Longrightarrow> lease_inv y"
  by (simp add: lease_inv_def kernel_agrees_def lease_count_def lease_dicts_ok_def leases_def
      pin_leases_def pending_leases_def job_leases_def)

section \<open>Ledger arithmetic\<close>

lemma at_key_dget:
  "at_key (\<lambda>S. count_list S s) D r = count_list (dget D r []) s"
  "at_key (\<lambda>d. dget d s 0) E r = dget (dget E r []) s (0::nat)"
  by (simp_all add: at_key_def dget_def split: option.split)

lemma pin_leases_dput:
  "dict_sum (\<lambda>S. count_list S s) (dput r S' D) + count_list (dget D r []) s
   = dict_sum (\<lambda>S. count_list S s) D + count_list S' s"
  using dict_sum_dput [of "\<lambda>S. count_list S s" r S' D] by (simp add: at_key_dget)

lemma pin_leases_dpop:
  "dict_ok D \<Longrightarrow> dict_sum (\<lambda>S. count_list S s) (dpop r D) + count_list (dget D r []) s
   = dict_sum (\<lambda>S. count_list S s) D"
  using dict_sum_dpop [of D "\<lambda>S. count_list S s" r] by (simp add: at_key_dget)

lemma pending_dput:
  "dict_sum (\<lambda>d. dget d s 0) (dput r d' D) + dget (dget D r []) s 0
   = dict_sum (\<lambda>d. dget d s 0) D + dget d' s (0::nat)"
  using dict_sum_dput [of "\<lambda>d. dget d s 0" r d' D] by (simp add: at_key_dget)

lemma pending_dpop:
  "dict_ok D \<Longrightarrow> dict_sum (\<lambda>d. dget d s (0::nat)) (dpop r D) + dget (dget D r []) s 0
   = dict_sum (\<lambda>d. dget d s 0) D"
  using dict_sum_dpop [of D "\<lambda>d. dget d s 0" r] by (simp add: at_key_dget)

lemmas ledger_simps = pin_leases_def pending_leases_def job_leases_def leases_def

lemma dget_pending_ok:
  "lease_dicts_ok x \<Longrightarrow> dict_ok (dget (pending_lookup_shards x) r [])"
  by (auto simp: lease_dicts_ok_def dget_def split: option.split)

text \<open>Giving back all leases that a dict of counts records.\<close>

lemma release_counts_Cons:
  "release_counts ((s, n) # d) x = release_counts d ((release_shared s ^^ n) x)"
  by (simp add: release_counts_def)

lemma lease_count_release_counts:
  "dict_ok d \<Longrightarrow> lease_count (release_counts d x) s = lease_count x s - dget d s 0"
proof (induction d arbitrary: x)
  case (Cons p d)
  obtain a n where p: "p = (a, n)" by (cases p)
  from Cons.prems p have "map_of d a = None" by (simp add: map_of_eq_None_iff)
  then have "dget d a 0 = 0" by (simp add: dget_def)
  moreover have "dget (p # d) s 0 = (if s = a then n else dget d s 0)"
    by (simp add: p dget_def)
  ultimately show ?case using Cons p
    by (simp add: release_counts_Cons shard_lease.refs_pow)
qed (simp add: release_counts_def)

lemma frame_pow: "lease_frame ((release_shared s ^^ n) x) = lease_frame x"
  by (simp only: shard_lease.release_pow_fold shard_lease.frame_release_all)

lemma lease_frame_release_counts: "lease_frame (release_counts d x) = lease_frame x"
proof (induction d arbitrary: x)
  case (Cons p d)
  then show ?case by (cases p) (simp only: release_counts_Cons frame_pow)
qed (simp add: release_counts_def)

lemma kernel_agrees_release_counts: "kernel_agrees x \<Longrightarrow> kernel_agrees (release_counts d x)"
proof (induction d arbitrary: x)
  case (Cons p d)
  obtain s n where p: "p = (s, n)" by (cases p)
  have "kernel_agrees ((release_shared s ^^ n) x)"
    using Cons.prems by (simp only: shard_lease.release_pow_fold shard_lease.ok_release_all)
  then show ?case by (simp only: p release_counts_Cons Cons.IH)
qed (simp add: release_counts_def)

section \<open>Every method keeps the invariant\<close>

lemma lease_invI:
  assumes "kernel_agrees x" and "lease_dicts_ok x" and "\<And>s. lease_count x s = leases x s"
  shows "lease_inv x"
  using assms by (simp add: lease_inv_def)

lemma lease_inv_dest:
  assumes "lease_inv x"
  shows "kernel_agrees x" and "lease_dicts_ok x" and "lease_count x s = leases x s"
  using assms by (auto simp: lease_inv_def)

text \<open>Taking one lease and recording it.\<close>

lemma add_pending_fields [simp]:
  "shard_locks (add_pending r s x) = shard_locks x"
  "shared_lock_counts (add_pending r s x) = shared_lock_counts x"
  "lease_pid (add_pending r s x) = lease_pid x" "evicting (add_pending r s x) = evicting x"
  "eviction_lock_fds (add_pending r s x) = eviction_lock_fds x"
  "request_shards (add_pending r s x) = request_shards x"
  "job_shards (add_pending r s x) = job_shards x" "last_used (add_pending r s x) = last_used x"
  "closed_requests (add_pending r s x) = closed_requests x"
  "lookup_cancelled_requests (add_pending r s x) = lookup_cancelled_requests x"
  by (simp_all add: add_pending_def Let_def)

lemma pending_leases_add: "pending_leases (add_pending r k x) s = pending_leases x s + (if s = k then 1 else 0)"
  using pending_dput [of s r "dput k (dget (dget (pending_lookup_shards x) r []) k 0 + 1)
      (dget (pending_lookup_shards x) r [])" "pending_lookup_shards x"]
  by (auto simp: pending_leases_def add_pending_def Let_def split: if_splits)

lemma lease_dicts_add_pending: "lease_dicts_ok x \<Longrightarrow> lease_dicts_ok (add_pending r s x)"
  by (auto simp: lease_dicts_ok_def add_pending_def Let_def dget_def split: option.split)

lemma kernel_agrees_add_pending: "kernel_agrees x \<Longrightarrow> kernel_agrees (add_pending r s x)"
  by (erule kernel_agrees_frame) simp_all

lemma lease_count_add_pending [simp]: "lease_count (add_pending r s x) = lease_count x"
  by (simp add: lease_count_def fun_eq_iff)

lemma frame_fields:
  assumes "lease_frame y = lease_frame x"
  shows "lease_roots y = lease_roots x" "lease_pid y = lease_pid x" "last_used y = last_used x"
    "request_shards y = request_shards x" "pending_lookup_shards y = pending_lookup_shards x"
    "job_shards y = job_shards x" "evicting y = evicting x"
    "eviction_lock_fds y = eviction_lock_fds x" "closed_requests y = closed_requests x"
    "lookup_cancelled_requests y = lookup_cancelled_requests x"
    "dirty_shards y = dirty_shards x" "last_persisted y = last_persisted x"
  using assms by (auto simp: lease_frame_def)

lemmas acquire_fields [simp] = frame_fields [OF lease_frame_acquire]
lemmas release_fields [simp] = frame_fields [OF lease_frame_release]
lemmas release_all_fields [simp] = frame_fields [OF shard_lease.frame_release_all]
lemmas release_counts_fields [simp] = frame_fields [OF lease_frame_release_counts]

lemma leases_add_pending: "leases (add_pending r k x) s = leases x s + (if s = k then 1 else 0)"
  by (simp add: leases_def pending_leases_add) (simp add: pin_leases_def job_leases_def)

lemma acquire_pending_inv:
  "lease_inv x \<Longrightarrow> fst (acquire_shared s x) \<Longrightarrow> lease_inv (add_pending r s (snd (acquire_shared s x)))"
  by (intro lease_invI kernel_agrees_add_pending lease_dicts_add_pending)
    (simp_all add: lease_inv_def kernel_agrees_acquire lease_count_acquire leases_add_pending
      lease_frame_leases [OF lease_frame_acquire])

lemma acquire_refused_inv:
  "lease_inv x \<Longrightarrow> \<not> fst (acquire_shared s x) \<Longrightarrow> lease_inv (snd (acquire_shared s x))"
  by (simp add: lease_inv_def kernel_agrees_acquire lease_count_acquire
      lease_frame_leases [OF lease_frame_acquire])

subsection \<open>Starting a lookup\<close>

lemma pick_Nil [simp]: "pick [] oks = []" "pick xs [] = []"
  by (simp_all add: pick_def)

lemma pick_Cons [simp]: "pick (x # xs) (b # bs) = (if b then x # pick xs bs else pick xs bs)"
  by (simp add: pick_def)

lemma set_pick: "set (pick xs bs) \<subseteq> set xs"
  by (auto simp: pick_def dest: set_zip_leftD)

lemma acquire_eligible_effect:
  "acquire_eligible ss x = (oks, y) \<Longrightarrow>
     lease_frame y = lease_frame x \<and> (kernel_agrees x \<longrightarrow> kernel_agrees y) \<and> length oks = length ss
     \<and> (\<forall>s. lease_count y s = lease_count x s + count_list (pick ss oks) s)"
proof (induction ss arbitrary: x oks y)
  case (Cons s ss)
  let ?first = "if s \<in> set (evicting x) then (False, x) else acquire_shared s x"
  obtain oks' where oks: "oks = fst ?first # oks'"
    and rest: "acquire_eligible ss (snd ?first) = (oks', y)"
    using Cons.prems by (auto simp: case_prod_unfold Let_def split: if_splits)
  from Cons.IH [OF rest] oks show ?case
    by (auto simp: lease_count_acquire lease_frame_acquire kernel_agrees_acquire)
qed simp

lemma fold_add_pending_effect:
  "(lease_dicts_ok x \<longrightarrow> lease_dicts_ok (fold (add_pending r) ks x))
   \<and> (kernel_agrees x \<longrightarrow> kernel_agrees (fold (add_pending r) ks x))
   \<and> lease_count (fold (add_pending r) ks x) s = lease_count x s
   \<and> leases (fold (add_pending r) ks x) s = leases x s + count_list ks s"
  by (induction ks arbitrary: x)
    (auto simp: lease_dicts_add_pending kernel_agrees_add_pending leases_add_pending)

lemma setdefault_pending_effect:
  fixes x y :: lease_index
  assumes "y = x\<lparr>pending_lookup_shards :=
      dput r (dget (pending_lookup_shards x) r []) (pending_lookup_shards x)\<rparr>"
  shows "lease_count y = lease_count x" and "leases y s = leases x s"
    and "lease_dicts_ok x \<Longrightarrow> lease_dicts_ok y" and "kernel_agrees x \<Longrightarrow> kernel_agrees y"
proof -
  show "lease_count y = lease_count x" by (simp add: assms lease_count_def fun_eq_iff)
  show "leases y s = leases x s"
    using pending_dput [of s r "dget (pending_lookup_shards x) r []" "pending_lookup_shards x"]
    by (simp add: assms ledger_simps)
  show "lease_dicts_ok y" if "lease_dicts_ok x"
    using that by (auto simp: assms lease_dicts_ok_def dget_def split: option.split)
  show "kernel_agrees y" if "kernel_agrees x"
    using that by (rule kernel_agrees_frame) (simp_all add: assms)
qed

lemma lookup_begin_inv:
  assumes "lease_inv x" shows "lease_inv (snd (lookup_begin r paths x))"
proof (cases "lookup_fenced r x \<or> (\<exists>e. shards_for_paths (lease_roots x) paths = Inl e)")
  case True
  with assms show ?thesis by (auto simp: lookup_begin_def)
next
  case False
  then obtain shards where sh: "shards_for_paths (lease_roots x) paths = Inr shards"
    by (cases "shards_for_paths (lease_roots x) paths") auto
  obtain oks y where acq: "acquire_eligible shards x = (oks, y)"
    by (cases "acquire_eligible shards x")
  let ?y = "y\<lparr>pending_lookup_shards :=
      dput r (dget (pending_lookup_shards y) r []) (pending_lookup_shards y)\<rparr>"
  note eff = acquire_eligible_effect [OF acq]
  note fr = lease_frame_leases [of y x]
  have "lease_inv (fold (add_pending r) (pick shards oks) ?y)"
  proof (rule lease_invI)
    fix s
    show "lease_count (fold (add_pending r) (pick shards oks) ?y) s
        = leases (fold (add_pending r) (pick shards oks) ?y) s"
      using fold_add_pending_effect [of ?y r "pick shards oks" s] eff fr
        setdefault_pending_effect(1,2) [OF refl, of r y] lease_inv_dest(3) [OF assms]
      by simp
  qed (use fold_add_pending_effect [of ?y r "pick shards oks"] eff fr
        setdefault_pending_effect(3,4) [OF refl, of y r] lease_inv_dest(1,2) [OF assms] in auto)
  with False sh acq show ?thesis by (simp add: lookup_begin_def Let_def)
qed

subsection \<open>Ending a lookup\<close>

lemma release_pending_loop_effect:
  "release_pending_loop ss d x = (d', y) \<Longrightarrow> dict_ok d \<Longrightarrow> (\<And>s. dget d s 0 \<le> lease_count x s) \<Longrightarrow>
     lease_frame y = lease_frame x \<and> (kernel_agrees x \<longrightarrow> kernel_agrees y) \<and> dict_ok d'
     \<and> (\<forall>s. lease_count y s + dget d s 0 = lease_count x s + dget d' s 0)"
proof (induction ss arbitrary: d x d' y)
  case (Cons k ss)
  show ?case
  proof (cases "dget d k 0 = 0")
    case True
    with Cons.prems(1) have "release_pending_loop ss d x = (d', y)" by simp
    from Cons.IH [OF this Cons.prems(2,3)] show ?thesis .
  next
    case False
    let ?n = "dget d k 0"
    let ?d = "if ?n - 1 > 0 then dput k (?n - 1) d else dpop k d"
    have step: "release_pending_loop ss ?d (release_shared k x) = (d', y)"
      using Cons.prems(1) False by (simp add: Let_def)
    have at: "dget ?d s 0 = (if s = k then ?n - 1 else dget d s 0)" for s by simp
    have le: "dget ?d s 0 \<le> lease_count (release_shared k x) s" for s
      using Cons.prems(3) [of s] Cons.prems(3) [of k] unfolding at lease_count_release
      by (auto intro: diff_le_mono)
    have "dict_ok ?d" using Cons.prems(2) by simp
    note ih = Cons.IH [OF step this le]
    have "lease_count y s + dget d s 0 = lease_count x s + dget d' s 0" for s
    proof -
      have "lease_count y s + dget ?d s 0 = lease_count (release_shared k x) s + dget d' s 0"
        using ih by blast
      then show ?thesis using False Cons.prems(3) [of k]
        unfolding at lease_count_release by (cases "s = k") simp_all
    qed
    with ih show ?thesis by (simp add: lease_frame_release kernel_agrees_release)
  qed
qed simp

lemma pending_le_count:
  assumes "lease_inv x" and "map_of (pending_lookup_shards x) r = Some d"
  shows "dget d s 0 \<le> lease_count x s"
proof -
  have "at_key (\<lambda>d. dget d s 0) (pending_lookup_shards x) r \<le> pending_leases x s"
    unfolding pending_leases_def by (rule at_key_le_dict_sum)
  with assms(2) lease_inv_dest(3) [OF assms(1), of s] show ?thesis by (simp add: leases_def)
qed

lemma put_pending_leases:
  assumes "map_of (pending_lookup_shards x) r = Some d" and "dict_ok (pending_lookup_shards x)"
    and "y = x\<lparr>pending_lookup_shards := (if d' = [] then dpop r (pending_lookup_shards x)
      else dput r d' (pending_lookup_shards x))\<rparr>"
  shows "leases y s + dget d s 0 = leases x s + dget d' s 0"
proof -
  from assms(1) have d: "dget (pending_lookup_shards x) r [] = d" by (simp add: dget_def)
  show ?thesis
    using pending_dput [of s r d' "pending_lookup_shards x"]
      pending_dpop [OF assms(2), of s r] assms(3) d by (auto simp: ledger_simps)
qed

lemma put_pending_dicts:
  "lease_dicts_ok x \<Longrightarrow> dict_ok d' \<Longrightarrow>
   lease_dicts_ok (x\<lparr>pending_lookup_shards := (if d' = [] then dpop r (pending_lookup_shards x)
      else dput r d' (pending_lookup_shards x))\<rparr>)"
  by (cases "d' = []") (auto simp: lease_dicts_ok_def simp del: map_of_eq_Some_iff split: if_splits)

lemma release_pending_shards_inv:
  assumes inv: "lease_inv x" shows "lease_inv (release_pending_shards r ss x)"
proof (cases "map_of (pending_lookup_shards x) r")
  case None
  with inv show ?thesis by (simp add: release_pending_shards_def)
next
  case (Some d)
  obtain d' y where loop: "release_pending_loop ss d x = (d', y)"
    by (cases "release_pending_loop ss d x")
  note dicts = lease_inv_dest(2) [OF inv]
  from dicts Some have "dict_ok d" by (simp add: lease_dicts_ok_def)
  note eff = release_pending_loop_effect [OF loop this pending_le_count [OF inv Some]]
  let ?y = "y\<lparr>pending_lookup_shards := (if d' = [] then dpop r (pending_lookup_shards y)
      else dput r d' (pending_lookup_shards y))\<rparr>"
  from eff have pend: "pending_lookup_shards y = pending_lookup_shards x"
    by (auto dest: frame_fields)
  have "lease_inv ?y"
  proof (rule lease_invI)
    have "kernel_agrees y" using eff lease_inv_dest(1) [OF inv] by blast
    then show "kernel_agrees ?y" by (rule kernel_agrees_frame) simp_all
    have "lease_dicts_ok y" using dicts eff lease_frame_leases(2) by blast
    moreover have "dict_ok d'" using eff by blast
    ultimately show "lease_dicts_ok ?y" by (rule put_pending_dicts)
    fix s
    have "leases ?y s + dget d s 0 = leases y s + dget d' s 0"
      using Some dicts by (intro put_pending_leases) (auto simp: pend lease_dicts_ok_def)
    moreover have "lease_count y s + dget d s 0 = lease_count x s + dget d' s 0"
      using eff by blast
    moreover have "leases y s = leases x s" using eff by (auto intro: lease_frame_leases)
    ultimately show "lease_count ?y s = leases ?y s"
      using lease_inv_dest(3) [OF inv, of s] by (simp add: lease_count_def)
  qed
  with Some loop show ?thesis by (simp add: release_pending_shards_def)
qed

lemma mark_used_inv: "lease_inv x \<Longrightarrow> lease_inv (mark_used s now x)"
  by (rule lease_inv_frame [of x]) (simp_all add: mark_used_def lease_inv_def lease_dicts_ok_def)

lemma pin_leases_add_pin:
  assumes "k \<notin> set (dget (request_shards x) r [])"
  shows "leases (add_pin r k x) s = leases x s + (if s = k then 1 else 0)"
  using pin_leases_dput [of s r "set_add k (dget (request_shards x) r [])" "request_shards x"] assms
  by (auto simp: ledger_simps add_pin_def set_add_def split: if_splits)

lemma add_pin_other:
  "lease_count (add_pin r k x) = lease_count x" "kernel_agrees x \<Longrightarrow> kernel_agrees (add_pin r k x)"
  "lease_dicts_ok x \<Longrightarrow> lease_dicts_ok (add_pin r k x)"
  by (auto simp: add_pin_def lease_count_def kernel_agrees_def lease_dicts_ok_def fun_eq_iff)

lemma acquire_pin_inv:
  assumes "lease_inv x" and "fst (acquire_shared s x)"
    and "s \<notin> set (dget (request_shards x) r [])"
  shows "lease_inv (add_pin r s (snd (acquire_shared s x)))"
  using assms by (intro lease_invI)
    (simp_all add: lease_inv_def add_pin_other kernel_agrees_acquire lease_count_acquire
      pin_leases_add_pin lease_frame_leases [OF lease_frame_acquire])

lemma setdefault_pins_inv: "lease_inv x \<Longrightarrow> lease_inv (open_pins r x)"
  using pin_leases_dput [of _ r "dget (request_shards x) r []" "request_shards x"]
  by (auto simp: lease_inv_def open_pins_def kernel_agrees_def lease_dicts_ok_def lease_count_def
      ledger_simps)

text \<open>No exclusive lock on the shard, by this process or a sibling.\<close>

definition not_locked_out :: "shard \<Rightarrow> lease_index \<Rightarrow> bool" where
  "not_locked_out s x \<longleftrightarrow> (\<forall>d. holds (shard_locks x) s d \<noteq> Some LOCK_EX)"

lemma not_locked_out_acquire:
  "kernel_agrees x \<Longrightarrow> not_locked_out s x \<Longrightarrow> fst (acquire_shared s x)"
  by (auto simp: acquire_shared_def Let_def case_prod_unfold kernel_agrees_def not_locked_out_def
      intro: flock.readers_grant_reader)

lemma not_locked_out_after_acquire:
  "kernel_agrees x \<Longrightarrow> not_locked_out t x \<Longrightarrow> not_locked_out t (snd (acquire_shared s x))"
  by (auto simp: acquire_shared_def Let_def case_prod_unfold not_locked_out_def holds_try
      kernel_agrees_def)

lemma pin_hit_inv:
  assumes "lease_inv x" and "not_locked_out s x"
  shows "lease_inv (pin_hit r now s x)"
  using assms not_locked_out_acquire [OF lease_inv_dest(1)]
  by (auto simp: pin_hit_def intro!: mark_used_inv acquire_pin_inv)

lemma pin_hit_not_locked_out:
  "lease_inv x \<Longrightarrow> not_locked_out t x \<Longrightarrow> not_locked_out t (pin_hit r now s x)"
  using not_locked_out_after_acquire [OF lease_inv_dest(1), of x t s]
  by (auto simp: pin_hit_def mark_used_def add_pin_def not_locked_out_def)

lemma fold_pin_hit_inv:
  "lease_inv x \<Longrightarrow> (\<And>s. s \<in> set ss \<Longrightarrow> not_locked_out s x) \<Longrightarrow> lease_inv (fold (pin_hit r now) ss x)"
proof (induction ss arbitrary: x)
  case (Cons s ss)
  then show ?case by (auto intro!: Cons.IH pin_hit_inv pin_hit_not_locked_out)
qed simp

lemma lookup_pin_inv:
  "lease_inv x \<Longrightarrow> (\<And>s. s \<in> set (pick shards hits) \<Longrightarrow> not_locked_out s x)
   \<Longrightarrow> lease_inv (snd (lookup_pin r now shards hits x))"
  using fold_pin_hit_inv [OF setdefault_pins_inv, of x "pick shards hits" r r now]
  by (simp add: lookup_pin_def) (simp add: not_locked_out_def open_pins_def)

end
