(* ===== verification/ShardLeaseRun.thy ===== *)
theory ShardLeaseRun
  imports ShardLeaseInv
begin

text \<open>
  The remaining methods of \<open>ShardLeaseIndex\<close> keep the invariant; the events of one index (its
  own methods, the two halves of \<open>lookup_and_pin\<close>, and what sibling processes do to the lock
  table) as a step function; the properties of all runs, of eviction and of job pins, and the
  window of \<open>lookup_and_pin\<close> in which a sibling can take the shard away.
\<close>

section \<open>Giving leases back\<close>

lemma release_all_surplus:
  assumes "kernel_agrees x" and "lease_dicts_ok x"
    and "\<And>s. lease_count x s = leases x s + count_list ks s"
  shows "lease_inv (fold release_shared ks x)"
  using assms by (intro lease_invI)
    (simp_all add: shard_lease.ok_release_all shard_lease.refs_release_all
      lease_frame_leases [OF shard_lease.frame_release_all])

lemma release_counts_surplus:
  assumes "kernel_agrees x" and "lease_dicts_ok x" and "dict_ok d"
    and "\<And>s. lease_count x s = leases x s + dget d s 0"
  shows "lease_inv (release_counts d x)"
  using assms by (intro lease_invI)
    (simp_all add: kernel_agrees_release_counts lease_count_release_counts
      lease_frame_leases [OF lease_frame_release_counts])

lemma bookkeeping_counts:
  "shared_lock_counts y = shared_lock_counts x \<Longrightarrow> lease_count y s = lease_count x s"
  by (simp add: lease_count_def)

lemma drop_pending_inv:
  assumes "lease_inv x" shows "lease_inv (drop_pending r x)"
  unfolding drop_pending_def
proof (rule release_counts_surplus)
  note inv = lease_inv_dest [OF assms]
  let ?y = "x\<lparr>pending_lookup_shards := dpop r (pending_lookup_shards x)\<rparr>"
  show "kernel_agrees ?y" using inv(1) by (rule kernel_agrees_frame) simp_all
  show "lease_dicts_ok ?y"
    using inv(2) by (simp add: lease_dicts_ok_def del: map_of_eq_Some_iff)
  show "dict_ok (dget (pending_lookup_shards x) r [])" using inv(2) by (rule dget_pending_ok)
  fix s
  have "dict_ok (pending_lookup_shards x)" using inv(2) by (simp add: lease_dicts_ok_def)
  from pending_dpop [OF this, of s r] inv(3) [of s]
  show "lease_count ?y s = leases ?y s + dget (dget (pending_lookup_shards x) r []) s 0"
    by (simp add: lease_count_def ledger_simps)
qed

text \<open>Replacing the pins of a request changes the ledger by the difference.\<close>

lemma put_pins_leases:
  "leases (x\<lparr>request_shards := dput r S (request_shards x)\<rparr>) s
     + count_list (dget (request_shards x) r []) s = leases x s + count_list S s"
  using pin_leases_dput [of s r S "request_shards x"] by (simp add: ledger_simps)

lemma pop_pins_leases:
  "dict_ok (request_shards x) \<Longrightarrow>
   leases (x\<lparr>request_shards := dpop r (request_shards x)\<rparr>) s
     + count_list (dget (request_shards x) r []) s = leases x s"
  using pin_leases_dpop [of "request_shards x" s r] by (simp add: ledger_simps)

lemma put_pins_dicts:
  "lease_dicts_ok x \<Longrightarrow> lease_dicts_ok (x\<lparr>request_shards := dput r S (request_shards x)\<rparr>)"
  "lease_dicts_ok x \<Longrightarrow> lease_dicts_ok (x\<lparr>request_shards := dpop r (request_shards x)\<rparr>)"
  by (simp_all add: lease_dicts_ok_def)

lemma release_request_pins_inv:
  assumes "lease_inv x" shows "lease_inv (release_request_pins r x)"
  unfolding release_request_pins_def
proof (rule lease_invI)
  note inv = lease_inv_dest [OF assms]
  let ?P = "dget (request_shards x) r []"
  let ?z = "fold release_shared ?P x"
  let ?y = "?z\<lparr>request_shards := dput r [] (request_shards x)\<rparr>"
  have "kernel_agrees ?z" using inv(1) by (rule shard_lease.ok_release_all)
  then show "kernel_agrees ?y" by (rule kernel_agrees_frame) simp_all
  have "lease_dicts_ok ?z"
    using inv(2) by (simp add: lease_frame_leases [OF shard_lease.frame_release_all])
  from put_pins_dicts(1) [OF this, of r "[]"] show "lease_dicts_ok ?y" by simp
  fix s
  have "leases ?y s + count_list ?P s = leases x s"
    using put_pins_leases [of r "[]" ?z s]
    by (simp add: lease_frame_leases [OF shard_lease.frame_release_all])
  moreover have "lease_count ?y s = lease_count x s - count_list ?P s"
    using shard_lease.refs_release_all [of ?P x s] by (simp add: lease_count_def)
  ultimately show "lease_count ?y s = leases ?y s" using inv(3) [of s] by simp
qed

lemma pop_released_pins_inv:
  assumes "lease_inv x" and "dget (request_shards x) r [] = []"
  shows "lease_inv (x\<lparr>request_shards := dpop r (request_shards x)\<rparr>)"
proof (rule lease_invI)
  note inv = lease_inv_dest [OF assms(1)]
  show "kernel_agrees (x\<lparr>request_shards := dpop r (request_shards x)\<rparr>)"
    using inv(1) by (rule kernel_agrees_frame) simp_all
  show "lease_dicts_ok (x\<lparr>request_shards := dpop r (request_shards x)\<rparr>)"
    using inv(2) by (rule put_pins_dicts)
  show "lease_count (x\<lparr>request_shards := dpop r (request_shards x)\<rparr>) s
      = leases (x\<lparr>request_shards := dpop r (request_shards x)\<rparr>) s" for s
    using pop_pins_leases [where x = x and r = r and s = s] inv(2) inv(3) [of s] assms(2)
    by (simp add: lease_dicts_ok_def lease_count_def)
qed

lemma put_empty_pins_inv:
  assumes "lease_inv x" and "dget (request_shards x) r [] = []"
  shows "lease_inv (x\<lparr>request_shards := dput r [] (request_shards x)\<rparr>)"
proof (rule lease_invI)
  note inv = lease_inv_dest [OF assms(1)]
  show "kernel_agrees (x\<lparr>request_shards := dput r [] (request_shards x)\<rparr>)"
    using inv(1) by (rule kernel_agrees_frame) simp_all
  show "lease_dicts_ok (x\<lparr>request_shards := dput r [] (request_shards x)\<rparr>)"
    using inv(2) by (rule put_pins_dicts)
  show "lease_count (x\<lparr>request_shards := dput r [] (request_shards x)\<rparr>) s
      = leases (x\<lparr>request_shards := dput r [] (request_shards x)\<rparr>) s" for s
    using put_pins_leases [of r "[]" x s] inv(3) [of s] assms(2)
    by (simp add: lease_count_def)
qed

lemma pop_pins_release_inv:
  assumes "lease_inv x"
  shows "lease_inv (fold release_shared (dget (request_shards x) r [])
    (x\<lparr>request_shards := dpop r (request_shards x)\<rparr>))"
proof (rule release_all_surplus)
  note inv = lease_inv_dest [OF assms]
  show "kernel_agrees (x\<lparr>request_shards := dpop r (request_shards x)\<rparr>)"
    using inv(1) by (rule kernel_agrees_frame) simp_all
  show "lease_dicts_ok (x\<lparr>request_shards := dpop r (request_shards x)\<rparr>)"
    using inv(2) by (rule put_pins_dicts)
  show "lease_count (x\<lparr>request_shards := dpop r (request_shards x)\<rparr>) s
      = leases (x\<lparr>request_shards := dpop r (request_shards x)\<rparr>) s
        + count_list (dget (request_shards x) r []) s" for s
    using pop_pins_leases [where x = x and r = r and s = s] inv(2) inv(3) [of s]
    by (simp add: lease_dicts_ok_def lease_count_def)
qed

lemma fence_inv:
  "lease_inv x \<Longrightarrow> lease_inv (x\<lparr>closed_requests := c, lookup_cancelled_requests := l\<rparr>)"
  "lease_inv x \<Longrightarrow> lease_inv (x\<lparr>lookup_cancelled_requests := l\<rparr>)"
  "lease_inv x \<Longrightarrow> lease_inv (x\<lparr>lookup_cancelled_requests := l, closed_requests := c\<rparr>)"
  by (rule lease_inv_frame [of x]; simp add: lease_inv_def lease_dicts_ok_def)+

lemma drop_pending_pins [simp]: "request_shards (drop_pending r x) = request_shards x"
  by (simp add: drop_pending_def)

lemma open_request_inv:
  assumes "lease_inv x" shows "lease_inv (open_request r x)"
proof -
  let ?x1 = "x\<lparr>closed_requests := removeAll r (closed_requests x),
    lookup_cancelled_requests := set_discard r (lookup_cancelled_requests x)\<rparr>"
  let ?x3 = "drop_pending r (fold release_shared (dget (request_shards ?x1) r [])
    (?x1\<lparr>request_shards := dpop r (request_shards ?x1)\<rparr>))"
  have "lease_inv ?x3"
    by (intro drop_pending_inv pop_pins_release_inv fence_inv(1) assms)
  moreover have "dget (request_shards ?x3) r [] = []" by simp
  ultimately have "lease_inv (?x3\<lparr>request_shards := dput r [] (request_shards ?x3)\<rparr>)"
    by (rule put_empty_pins_inv)
  then show ?thesis by (simp only: open_request_def Let_def)
qed

lemma cancel_lookup_inv: "lease_inv x \<Longrightarrow> lease_inv (cancel_lookup r b x)"
  by (simp add: cancel_lookup_def Let_def release_request_pins_inv drop_pending_inv fence_inv)

lemma released_pins [simp]: "dget (request_shards (release_request_pins r x)) r [] = []"
  by (simp add: release_request_pins_def)

lemma release_request_inv: "lease_inv x \<Longrightarrow> lease_inv (release_request r x)"
  by (simp add: release_request_def Let_def release_request_pins_inv drop_pending_inv fence_inv
      pop_released_pins_inv)

section \<open>Single lookups and touches\<close>

lemma begin_lookup_inv: "lease_inv x \<Longrightarrow> lease_inv (snd (begin_lookup r p x))"
  by (auto simp: begin_lookup_def Let_def case_prod_unfold acquire_pending_inv
      acquire_refused_inv split: sum.split)

lemma resolve_cached_lookup_inv:
  assumes "lease_inv x" shows "lease_inv (snd (resolve_cached_lookup r p hit now x))"
proof (cases "shard_for_path (lease_roots x) p")
  case (Inl e)
  with assms show ?thesis by (simp add: resolve_cached_lookup_def)
next
  case (Inr s)
  let ?x1 = "open_pins r x"
  have x1: "lease_inv ?x1" using assms by (rule setdefault_pins_inv)
  show ?thesis
    using x1 acquire_pin_inv [OF x1, of s r] acquire_refused_inv [OF x1, of s]
    by (auto simp: resolve_cached_lookup_def Inr Let_def case_prod_unfold
        intro!: mark_used_inv release_pending_shards_inv)
qed

lemma mark_used_roots [simp]:
  "lease_roots (mark_used s now x) = lease_roots x" "evicting (mark_used s now x) = evicting x"
  by (simp_all add: mark_used_def)

lemma touch_loop_inv: "lease_inv x \<Longrightarrow> lease_inv (snd (touch_loop P now ps x))"
  by (induction P now ps x rule: touch_loop.induct) (auto simp: mark_used_inv split: sum.split)

lemma record_store_inv: "lease_inv x \<Longrightarrow> lease_inv (snd (record_store ps now x))"
  by (induction ps now x rule: record_store.induct) (auto simp: mark_used_inv split: sum.split)

lemma record_access_inv: "lease_inv x \<Longrightarrow> lease_inv (snd (record_access ps now x))"
  by (induction ps now x rule: record_access.induct) (auto simp: mark_used_inv split: sum.split)

lemma flush_touches_inv: "lease_inv x \<Longrightarrow> lease_inv (snd (flush_touches a m now x))"
  by (rule lease_inv_frame [of x])
    (simp_all add: flush_touches_def Let_def lease_inv_def lease_dicts_ok_def)

section \<open>Job pins\<close>

lemma pin_job_loop_effect:
  "pin_job_loop ss acq x = (ok, y) \<Longrightarrow> (\<And>s. count_list acq s \<le> lease_count x s) \<Longrightarrow>
     lease_frame y = lease_frame x \<and> (kernel_agrees x \<longrightarrow> kernel_agrees y)
     \<and> (\<forall>s. lease_count y s = (if ok then lease_count x s + count_list ss s
                             else lease_count x s - count_list acq s))
     \<and> (ok \<longrightarrow> (\<forall>s \<in> set ss. s \<notin> set (evicting x)))"
proof (induction ss arbitrary: acq x)
  case (Cons k ss)
  let ?r = "if k \<in> set (evicting x) then (False, x) else acquire_shared k x"
  show ?case
  proof (cases "fst ?r")
    case False
    with Cons.prems show ?thesis
      by (auto simp: Let_def case_prod_unfold shard_lease.ok_release_all
          shard_lease.refs_release_all shard_lease.frame_release_all lease_frame_acquire
          kernel_agrees_acquire lease_count_acquire split: if_splits)
  next
    case True
    then have ev: "k \<notin> set (evicting x)" and got: "fst (acquire_shared k x)"
      by (auto split: if_splits)
    have rest: "pin_job_loop ss (acq @ [k]) (snd (acquire_shared k x)) = (ok, y)"
      using Cons.prems(1) ev got by (simp add: Let_def case_prod_unfold)
    have "count_list (acq @ [k]) s \<le> lease_count (snd (acquire_shared k x)) s" for s
      using Cons.prems(2) [of s] Cons.prems(2) [of k] got by (simp add: lease_count_acquire)
    from Cons.IH [OF rest this] got ev show ?thesis
      by (auto simp: lease_count_acquire lease_frame_acquire kernel_agrees_acquire)
  qed
qed simp

lemma lease_inv_same:
  assumes "lease_inv x" and "kernel_agrees y" and "lease_frame y = lease_frame x"
    and "\<And>s. lease_count y s = lease_count x s"
  shows "lease_inv y"
  using assms(1,2,4) by (simp add: lease_inv_def lease_frame_leases [OF assms(3)])

lemma put_job_leases:
  assumes "map_of (job_shards x) j = None"
  shows "leases (x\<lparr>job_shards := dput j S (job_shards x)\<rparr>) s = leases x s + count_list S s"
  using pin_leases_dput [of s j S "job_shards x"] assms by (simp add: ledger_simps dget_def)

text \<open>The three outcomes of \<open>pin_job\<close>, from the loop.\<close>

lemma pin_job_cases:
  assumes "pin_job j ps x = (res, y)"
  obtains (bad_path) e where "shards_for_paths (lease_roots x) ps = Inl e" "res = Inl e" "y = x"
  | (refused) all where "shards_for_paths (lease_roots x) ps = Inr all" "res = Inr False"
      "lease_frame y = lease_frame x" "kernel_agrees x \<Longrightarrow> kernel_agrees y"
      "\<And>s. lease_count y s = lease_count x s"
  | (pinned) all z where "shards_for_paths (lease_roots x) ps = Inr all" "res = Inr True"
      "y = z\<lparr>job_shards := dput j (remdups all) (job_shards x)\<rparr>"
      "lease_frame z = lease_frame x" "kernel_agrees x \<Longrightarrow> kernel_agrees z"
      "\<And>s. lease_count z s = lease_count x s + (if s \<in> set all then 1 else 0)"
      "\<And>s. s \<in> set all \<Longrightarrow> s \<notin> set (evicting x)"
proof (cases "shards_for_paths (lease_roots x) ps")
  case (Inl e)
  with assms have "res = Inl e" "y = x" by (simp_all add: pin_job_def)
  with Inl show thesis by (rule bad_path)
next
  case (Inr all)
  obtain ok z where loop: "pin_job_loop (remdups all) [] x = (ok, z)"
    by (cases "pin_job_loop (remdups all) [] x")
  note loop_eff = pin_job_loop_effect [OF loop, simplified]
  then have eff: "lease_frame z = lease_frame x" "kernel_agrees x \<Longrightarrow> kernel_agrees z"
    "ok \<Longrightarrow> \<forall>s \<in> set all. s \<notin> set (evicting x)" by auto
  have cnt: "lease_count z s = (if ok then lease_count x s + count_list (remdups all) s
                        else lease_count x s)" for s
    using loop_eff by auto
  have no_ev: "ok \<Longrightarrow> \<not> list_ex (\<lambda>s. s \<in> set (evicting z)) (remdups all)"
    using eff(3) frame_fields(7) [OF eff(1)] by (auto simp: list_ex_iff)
  have one: "count_list (remdups all) s = (if s \<in> set all then 1 else 0)" for s
    by (simp add: count_list_distinct)
  show thesis
  proof (cases ok)
    case False
    with assms Inr loop have "res = Inr False" "y = z" by (simp_all add: pin_job_def Let_def)
    with False eff cnt show ?thesis by (intro refused [OF Inr]) auto
  next
    case True
    then have "res = Inr True" "y = z\<lparr>job_shards := dput j (remdups all) (job_shards x)\<rparr>"
      using assms no_ev loop frame_fields(6) [OF eff(1)] by (simp_all add: pin_job_def Inr Let_def)
    with True eff cnt one show ?thesis by (intro pinned [OF Inr]) auto
  qed
qed

lemma pin_job_inv:
  assumes "lease_inv x" and "map_of (job_shards x) j = None"
  shows "lease_inv (snd (pin_job j ps x))"
proof -
  obtain res y where pj: "pin_job j ps x = (res, y)" by (cases "pin_job j ps x")
  note inv = lease_inv_dest [OF assms(1)]
  from pj have "lease_inv y"
  proof (cases rule: pin_job_cases)
    case (refused all)
    with assms(1) inv(1) show ?thesis by (blast intro: lease_inv_same)
  next
    case (pinned all z)
    note fr = frame_fields [OF pinned(4)]
    show ?thesis
    proof (rule lease_invI)
      show "kernel_agrees y"
        using pinned(5) [OF inv(1)] by (rule kernel_agrees_frame) (simp_all add: pinned(3))
      show "lease_dicts_ok y"
        using inv(2) lease_frame_leases(2) [OF pinned(4)] fr
        by (simp add: pinned(3) lease_dicts_ok_def del: map_of_eq_Some_iff)
      have one: "count_list (remdups all) s = (if s \<in> set all then 1 else 0)" for s
          by (simp add: count_list_distinct)
      have "leases y s = leases z s + count_list (remdups all) s" for s
        using put_job_leases [of z j "remdups all" s] assms(2) fr by (simp add: pinned(3))
      then show "lease_count y s = leases y s" for s
        using pinned(6) [of s] inv(3) [of s] lease_frame_leases(1) [OF pinned(4), of s]
        by (simp add: one) (simp add: pinned(3) lease_count_def)
    qed
  qed (use assms(1) in simp)
  with pj show ?thesis by simp
qed

lemma release_job_inv:
  assumes "lease_inv x" shows "lease_inv (release_job j x)"
  unfolding release_job_def
proof (rule release_all_surplus)
  note inv = lease_inv_dest [OF assms]
  let ?y = "x\<lparr>job_shards := dpop j (job_shards x)\<rparr>"
  show "kernel_agrees ?y" using inv(1) by (rule kernel_agrees_frame) simp_all
  show "lease_dicts_ok ?y" using inv(2) by (simp add: lease_dicts_ok_def)
  have "dict_ok (job_shards x)" using inv(2) by (simp add: lease_dicts_ok_def)
  then show "lease_count ?y s = leases ?y s + count_list (dget (job_shards x) j []) s" for s
    using pin_leases_dpop [of "job_shards x" s j] inv(3) [of s]
    by (simp add: ledger_simps lease_count_def)
qed

section \<open>Eviction\<close>

definition shard_locked :: "shard \<Rightarrow> lease_index \<Rightarrow> bool" where
  "shard_locked s x \<longleftrightarrow> (\<exists>d m. holds (shard_locks x) s d = Some m)"

lemma refused_try:
  assumes "kernel_agrees x" and "s \<notin> set (evicting x)"
    and "try_flock s (lease_pid x, Evict_fd) LOCK_EX (shard_locks x) = (False, T)"
  shows "holds T g e = holds (shard_locks x) g e" and "table_ok T" and "shard_locked s x"
proof -
  have none: "holds (shard_locks x) s (lease_pid x, Evict_fd) = None"
    using assms(1,2) by (simp add: kernel_agrees_def)
  have ok: "table_ok (shard_locks x)" using assms(1) by (simp add: kernel_agrees_def)
  show "holds T g e = holds (shard_locks x) g e"
    using holds_try [of s "(lease_pid x, Evict_fd)" LOCK_EX "shard_locks x" g e] none
    by (simp add: assms(3) split: if_splits)
  show "table_ok T" using table_ok_try [OF ok] assms(3) by (metis snd_conv)
  show "shard_locked s x"
    using try_success_iff [OF ok, of s "(lease_pid x, Evict_fd)" LOCK_EX] assms(3)
    by (auto simp: shard_locked_def)
qed

lemma granted_try:
  assumes "kernel_agrees x" and "s \<notin> set (evicting x)"
    and "try_flock s (lease_pid x, Evict_fd) LOCK_EX (shard_locks x) = (True, T)"
  shows "holds T g e = (if g = s \<and> e = (lease_pid x, Evict_fd) then Some LOCK_EX
      else holds (shard_locks x) g e)" and "table_ok T" and "\<not> shard_locked s x"
proof -
  have none: "holds (shard_locks x) s (lease_pid x, Evict_fd) = None"
    using assms(1,2) by (simp add: kernel_agrees_def)
  have ok: "table_ok (shard_locks x)" using assms(1) by (simp add: kernel_agrees_def)
  show "holds T g e = (if g = s \<and> e = (lease_pid x, Evict_fd) then Some LOCK_EX
      else holds (shard_locks x) g e)"
    using holds_try [of s "(lease_pid x, Evict_fd)" LOCK_EX "shard_locks x" g e]
    by (simp add: assms(3))
  show "table_ok T" using table_ok_try [OF ok] assms(3) by (metis snd_conv)
  show "\<not> shard_locked s x"
    using try_success_iff [OF ok, of s "(lease_pid x, Evict_fd)" LOCK_EX] assms(3) none
    unfolding shard_locked_def by (metis fst_conv lock_mode.distinct(1) option.distinct(1))
qed

text \<open>The fields that choosing a victim leaves alone.\<close>

definition victim_frame where
  "victim_frame x = (lease_roots x, lease_pid x, last_used x, request_shards x,
     pending_lookup_shards x, job_shards x, shared_lock_counts x, dirty_shards x,
     last_persisted x, closed_requests x, lookup_cancelled_requests x)"

lemma lock_first_candidate_effect:
  "lock_first_candidate cs x = (r, y) \<Longrightarrow> kernel_agrees x \<Longrightarrow> \<forall>(t, s) \<in> set cs. s \<notin> set (evicting x)
   \<Longrightarrow> kernel_agrees y \<and> victim_frame y = victim_frame x
     \<and> (case r of
          None \<Rightarrow> evicting y = evicting x \<and> (\<forall>(t, s) \<in> set cs. shard_locked s x)
        | Some v \<Rightarrow> evicting y = evicting x @ [v] \<and> \<not> shard_locked v x
            \<and> (\<exists>pre t post. cs = pre @ (t, v) # post \<and> (\<forall>(t', s) \<in> set pre. shard_locked s x)))"
proof (induction cs x rule: lock_first_candidate.induct)
  case (2 t s cs x)
  obtain ok T where att: "try_flock s (lease_pid x, Evict_fd) LOCK_EX (shard_locks x) = (ok, T)"
    by (cases "try_flock s (lease_pid x, Evict_fd) LOCK_EX (shard_locks x)")
  have ev: "s \<notin> set (evicting x)" using "2.prems"(3) by simp
  show ?case
  proof (cases ok)
    case True
    then have att': "try_flock s (lease_pid x, Evict_fd) LOCK_EX (shard_locks x) = (True, T)"
      using att by simp
    note g = granted_try [OF "2.prems"(2) ev att']
    have y: "r = Some s" "y = x\<lparr>shard_locks := T, evicting := evicting x @ [s],
        eviction_lock_fds := set_add s (eviction_lock_fds x)\<rparr>"
      using "2.prems"(1) att' ev by (auto simp: set_add_def)
    have "kernel_agrees y"
      using "2.prems"(2) g(1,2) by (auto simp: y kernel_agrees_def lease_count_def)
    with g(3) show ?thesis by (fastforce simp: y victim_frame_def)
  next
    case False
    then have att': "try_flock s (lease_pid x, Evict_fd) LOCK_EX (shard_locks x) = (False, T)"
      using att by simp
    note g = refused_try [OF "2.prems"(2) ev att']
    let ?x = "x\<lparr>shard_locks := T\<rparr>"
    have rest: "lock_first_candidate cs ?x = (r, y)" using "2.prems"(1) att' by simp
    have agree: "kernel_agrees ?x"
      using "2.prems"(2) g(1,2) by (simp add: kernel_agrees_def lease_count_def)
    have same: "shard_locked t ?x = shard_locked t x" for t
      using g(1) by (simp add: shard_locked_def)
    have "victim_frame ?x = victim_frame x" by (simp add: victim_frame_def)
    have rest_ev: "\<forall>(t, s) \<in> set cs. s \<notin> set (evicting ?x)" using "2.prems"(3) by simp
    note ih = "2.IH" [OF att [symmetric] refl False rest agree rest_ev]
    show ?thesis
    proof (cases r)
      case None
      with ih g(3) show ?thesis
        by (simp add: same victim_frame_def)
    next
      case (Some v)
      with ih obtain pre t' post where
        ih': "kernel_agrees y" "victim_frame y = victim_frame x" "evicting y = evicting x @ [v]"
          "\<not> shard_locked v x" "cs = pre @ (t', v) # post"
          "\<forall>(t', s) \<in> set pre. shard_locked s x"
        by (auto simp: same victim_frame_def)
      then have "(t, s) # cs = ((t, s) # pre) @ (t', v) # post"
        and "\<forall>(t', s) \<in> set ((t, s) # pre). shard_locked s x" using g(3) by simp_all
      with ih' Some show ?thesis by (simp only: option.case) blast
    qed
  qed
qed (simp add: kernel_agrees_def)

lemma set_eviction_candidates:
  "(t, s) \<in> set (eviction_candidates x) \<longleftrightarrow>
     (s, t) \<in> set (last_used x) \<and> s \<notin> set (pinned_shards x) \<and> s \<notin> set (evicting x)"
  by (force simp: eviction_candidates_def)

lemma victim_leases:
  assumes "victim_frame y = victim_frame x"
  shows "leases y s = leases x s" and "lease_dicts_ok y = lease_dicts_ok x"
    and "lease_count y s = lease_count x s"
  using assms by (simp_all add: victim_frame_def ledger_simps lease_dicts_ok_def lease_count_def)

lemma begin_oldest_eviction_effect:
  assumes "kernel_agrees x" and "begin_oldest_eviction x = (r, y)"
  shows "kernel_agrees y" and "victim_frame y = victim_frame x"
    and "r = None \<Longrightarrow> (t, s) \<in> set (eviction_candidates x) \<Longrightarrow> shard_locked s x"
    and "r = Some v \<Longrightarrow> \<not> shard_locked v x \<and> (\<exists>pre t post. eviction_candidates x = pre @ (t, v) # post
           \<and> (\<forall>(t', s) \<in> set pre. shard_locked s x))"
proof -
  have "\<forall>(t, s) \<in> set (eviction_candidates x). s \<notin> set (evicting x)"
    by (auto simp: eviction_candidates_def)
  note eff = lock_first_candidate_effect [OF assms(2) [unfolded begin_oldest_eviction_def] assms(1) this]
  show "kernel_agrees y" "victim_frame y = victim_frame x" using eff by simp_all
  show "shard_locked s x" if "r = None" "(t, s) \<in> set (eviction_candidates x)" using eff that by auto
  show "\<not> shard_locked v x \<and> (\<exists>pre t post. eviction_candidates x = pre @ (t, v) # post
      \<and> (\<forall>(t', s) \<in> set pre. shard_locked s x))" if "r = Some v"
    using eff that by (simp only: option.case simp_thms)
qed

lemma begin_oldest_eviction_inv:
  assumes "lease_inv x" shows "lease_inv (snd (begin_oldest_eviction x))"
proof -
  obtain r y where b: "begin_oldest_eviction x = (r, y)" by (cases "begin_oldest_eviction x")
  note inv = lease_inv_dest [OF assms] and eff = begin_oldest_eviction_effect [OF inv(1) b]
  have "lease_inv y"
    by (rule lease_invI) (simp_all add: eff(1) victim_leases [OF eff(2)] inv(2,3))
  with b show ?thesis by simp
qed

lemma kernel_agrees_finish_eviction:
  assumes "kernel_agrees x" shows "kernel_agrees (finish_eviction s ok st x)"
proof -
  let ?x1 = "x\<lparr>evicting := set_discard s (evicting x)\<rparr>"
  let ?x2 = "if s \<in> set (eviction_lock_fds ?x1)
    then ?x1\<lparr>eviction_lock_fds := set_discard s (eviction_lock_fds ?x1),
             shard_locks := unlock s (lease_pid ?x1, Evict_fd) (shard_locks ?x1)\<rparr> else ?x1"
  have "kernel_agrees ?x2"
    using assms by (auto simp: kernel_agrees_def lease_count_def holds_unlock table_ok_unlock)
  then show ?thesis
    by (rule kernel_agrees_frame)
      (auto simp: finish_eviction_def Let_def split: option.split)
qed

lemma finish_eviction_inv:
  assumes "lease_inv x" shows "lease_inv (finish_eviction s ok st x)"
proof (rule lease_invI)
  note inv = lease_inv_dest [OF assms]
  show "kernel_agrees (finish_eviction s ok st x)"
    using inv(1) by (rule kernel_agrees_finish_eviction)
  show "lease_dicts_ok (finish_eviction s ok st x)"
    using inv(2) by (simp add: finish_eviction_def Let_def lease_dicts_ok_def
        del: map_of_eq_Some_iff split: option.split)
  show "lease_count (finish_eviction s ok st x) t = leases (finish_eviction s ok st x) t" for t
    using inv(3) [of t] by (simp add: finish_eviction_def Let_def ledger_simps lease_count_def
        split: option.split)
qed

section \<open>Runs of one index among siblings\<close>

text \<open>
  \<open>Lookup_end\<close> is the second half of \<open>lookup_and_pin\<close>: the release of the pending leases, then
  the pinning of the hits. The last three events are system calls of sibling processes.
\<close>

datatype lease_event = Open_request req_id | Lookup_begin req_id "path list"
  | Lookup_end req_id "shard list" "shard list" "bool list" seconds
  | Begin_lookup req_id path | Resolve_lookup req_id path bool seconds
  | Touch req_id "path list" seconds | Record_store "path list" seconds
  | Record_access "path list" seconds | Flush_touches seconds nat seconds
  | Cancel_lookup req_id bool | Release_request req_id
  | Pin_job job_id "path list" | Release_job job_id
  | Begin_eviction | Finish_eviction shard bool "(seconds option) option"
  | Sibling_flock shard pid lease_fd lock_mode | Sibling_unlock shard pid lease_fd
  | Sibling_exit pid

fun lease_step :: "lease_event \<Rightarrow> lease_index \<Rightarrow> lease_index" where
  "lease_step (Open_request r) x = open_request r x"
| "lease_step (Lookup_begin r ps) x = snd (lookup_begin r ps x)"
| "lease_step (Lookup_end r mine shards hits now) x =
     snd (lookup_pin r now shards hits (release_pending_shards r mine x))"
| "lease_step (Begin_lookup r p) x = snd (begin_lookup r p x)"
| "lease_step (Resolve_lookup r p hit now) x = snd (resolve_cached_lookup r p hit now x)"
| "lease_step (Touch r ps now) x = snd (touch r ps now x)"
| "lease_step (Record_store ps now) x = snd (record_store ps now x)"
| "lease_step (Record_access ps now) x = snd (record_access ps now x)"
| "lease_step (Flush_touches age m now) x = snd (flush_touches age m now x)"
| "lease_step (Cancel_lookup r b) x = cancel_lookup r b x"
| "lease_step (Release_request r) x = release_request r x"
| "lease_step (Pin_job j ps) x = snd (pin_job j ps x)"
| "lease_step (Release_job j) x = release_job j x"
| "lease_step Begin_eviction x = snd (begin_oldest_eviction x)"
| "lease_step (Finish_eviction s ok st) x = finish_eviction s ok st x"
| "lease_step (Sibling_flock s q d m) x = x\<lparr>shard_locks := snd (try_flock s (q, d) m (shard_locks x))\<rparr>"
| "lease_step (Sibling_unlock s q d) x = x\<lparr>shard_locks := unlock s (q, d) (shard_locks x)\<rparr>"
| "lease_step (Sibling_exit q) x = x\<lparr>shard_locks := drop_owner (\<lambda>(p, d). p = q) (shard_locks x)\<rparr>"

text \<open>
  What the environment of an index keeps to: siblings are other processes; a job id is not
  used again while it is pinned; and no exclusive lock slips in between the two halves of
  the second part of \<open>lookup_and_pin\<close> (see \<open>lookup_and_pin_race\<close>).
\<close>

fun lease_guard :: "lease_event \<Rightarrow> lease_index \<Rightarrow> bool" where
  "lease_guard (Lookup_end r mine shards hits now) x \<longleftrightarrow>
     (\<forall>s \<in> set (pick shards hits). not_locked_out s (release_pending_shards r mine x))"
| "lease_guard (Pin_job j ps) x \<longleftrightarrow> map_of (job_shards x) j = None"
| "lease_guard (Sibling_flock s q d m) x \<longleftrightarrow> q \<noteq> lease_pid x"
| "lease_guard (Sibling_unlock s q d) x \<longleftrightarrow> q \<noteq> lease_pid x"
| "lease_guard (Sibling_exit q) x \<longleftrightarrow> q \<noteq> lease_pid x"
| "lease_guard _ x \<longleftrightarrow> True"

lemma sibling_inv:
  assumes "lease_inv x" and "table_ok T"
    and "\<And>s d. holds T s (lease_pid x, d) = holds (shard_locks x) s (lease_pid x, d)"
  shows "lease_inv (x\<lparr>shard_locks := T\<rparr>)"
  using assms by (simp add: lease_inv_def kernel_agrees_def lease_count_def lease_dicts_ok_def
      ledger_simps)

lemma lease_inv_table: "lease_inv x \<Longrightarrow> table_ok (shard_locks x)"
  by (simp add: lease_inv_def kernel_agrees_def)

lemma touch_inv: "lease_inv x \<Longrightarrow> lease_inv (snd (touch r ps now x))"
  by (simp add: touch_def Let_def touch_loop_inv)

lemmas lease_method_inv = open_request_inv lookup_begin_inv release_pending_shards_inv
  begin_lookup_inv resolve_cached_lookup_inv touch_inv record_store_inv record_access_inv
  flush_touches_inv cancel_lookup_inv release_request_inv pin_job_inv release_job_inv
  begin_oldest_eviction_inv finish_eviction_inv

lemma lease_step_inv: "lease_inv x \<Longrightarrow> lease_guard e x \<Longrightarrow> lease_inv (lease_step e x)"
proof (cases e)
  case (Lookup_end r mine shards hits now)
  assume "lease_inv x" "lease_guard e x"
  with Lookup_end show ?thesis by (auto intro!: lookup_pin_inv release_pending_shards_inv)
next
  case (Sibling_flock s q d m)
  assume "lease_inv x" "lease_guard e x"
  with Sibling_flock show ?thesis
    by (auto intro!: sibling_inv table_ok_try lease_inv_table simp: holds_try)
next
  case (Sibling_unlock s q d)
  assume "lease_inv x" "lease_guard e x"
  with Sibling_unlock show ?thesis
    by (auto intro!: sibling_inv table_ok_unlock lease_inv_table simp: holds_unlock)
next
  case (Sibling_exit q)
  assume "lease_inv x" "lease_guard e x"
  with Sibling_exit show ?thesis
    by (auto intro!: sibling_inv table_ok_drop_owner lease_inv_table
        simp: holds_drop_owner [OF table_ok_dict [OF lease_inv_table]])
qed (simp_all add: lease_method_inv)

interpretation lease_ledger: guarded_invariant lease_step lease_inv lease_guard
  by unfold_locales (rule lease_step_inv)

text \<open>
  The agreement with the kernel does not need the environment's care: it holds through the
  window of \<open>lookup_and_pin\<close> and for any job ids.
\<close>

fun lease_foreign :: "lease_event \<Rightarrow> lease_index \<Rightarrow> bool" where
  "lease_foreign (Sibling_flock s q d m) x \<longleftrightarrow> q \<noteq> lease_pid x"
| "lease_foreign (Sibling_unlock s q d) x \<longleftrightarrow> q \<noteq> lease_pid x"
| "lease_foreign (Sibling_exit q) x \<longleftrightarrow> q \<noteq> lease_pid x"
| "lease_foreign _ x \<longleftrightarrow> True"

lemma kernel_agrees_bookkeeping [simp]:
  "kernel_agrees (x\<lparr>last_used := v1\<rparr>) = kernel_agrees x"
  "kernel_agrees (x\<lparr>request_shards := v2\<rparr>) = kernel_agrees x"
  "kernel_agrees (x\<lparr>pending_lookup_shards := v3\<rparr>) = kernel_agrees x"
  "kernel_agrees (x\<lparr>job_shards := v4\<rparr>) = kernel_agrees x"
  "kernel_agrees (x\<lparr>dirty_shards := v5\<rparr>) = kernel_agrees x"
  "kernel_agrees (x\<lparr>last_persisted := v6\<rparr>) = kernel_agrees x"
  "kernel_agrees (x\<lparr>closed_requests := v7\<rparr>) = kernel_agrees x"
  "kernel_agrees (x\<lparr>lookup_cancelled_requests := v8\<rparr>) = kernel_agrees x"
  by (simp_all add: kernel_agrees_def lease_count_def)

lemmas kernel_agrees_simps = kernel_agrees_acquire kernel_agrees_release
  shard_lease.ok_release_all kernel_agrees_release_counts

lemma kernel_agrees_lookups:
  "kernel_agrees x \<Longrightarrow> kernel_agrees (snd (lookup_begin r ps x))"
  "kernel_agrees x \<Longrightarrow> kernel_agrees (snd (begin_lookup r p x))"
proof -
  assume x: "kernel_agrees x"
  have "kernel_agrees (snd (acquire_eligible ss x))" for ss
    using acquire_eligible_effect [of ss x] x by (metis prod.collapse)
  then have "kernel_agrees (fold (add_pending r) ks
      (snd (acquire_eligible ss x)\<lparr>pending_lookup_shards := v\<rparr>))" for ss ks v
    by (simp add: fold_add_pending_effect)
  with x show "kernel_agrees (snd (lookup_begin r ps x))"
    by (auto simp: lookup_begin_def Let_def case_prod_unfold split: sum.split)
  from x show "kernel_agrees (snd (begin_lookup r p x))"
    by (auto simp: begin_lookup_def Let_def case_prod_unfold kernel_agrees_acquire
        kernel_agrees_add_pending split: sum.split)
qed

lemma kernel_agrees_pending_loop:
  "kernel_agrees x \<Longrightarrow> kernel_agrees (snd (release_pending_loop ss d x))"
  by (induction ss d x rule: release_pending_loop.induct) (auto simp: Let_def kernel_agrees_release)

lemma kernel_agrees_release_pending:
  "kernel_agrees x \<Longrightarrow> kernel_agrees (release_pending_shards r ss x)"
  using kernel_agrees_pending_loop
  by (auto simp: release_pending_shards_def Let_def case_prod_unfold split: option.split)

lemma kernel_agrees_mark [simp]: "kernel_agrees (mark_used s now x) = kernel_agrees x"
  by (simp add: mark_used_def)

lemma kernel_agrees_fold_pin: "kernel_agrees x \<Longrightarrow> kernel_agrees (fold (pin_hit r now) ss x)"
  by (induction ss arbitrary: x) (auto simp: pin_hit_def kernel_agrees_acquire add_pin_other)

lemma kernel_agrees_resolve:
  "kernel_agrees x \<Longrightarrow> kernel_agrees (snd (resolve_cached_lookup r p hit now x))"
  by (auto simp: resolve_cached_lookup_def Let_def case_prod_unfold open_pins_def
      kernel_agrees_release_pending kernel_agrees_acquire add_pin_other split: sum.split)

lemma kernel_agrees_touches:
  "kernel_agrees x \<Longrightarrow> kernel_agrees (snd (touch_loop P now ps x))"
  "kernel_agrees x \<Longrightarrow> kernel_agrees (snd (record_store ps now x))"
  "kernel_agrees x \<Longrightarrow> kernel_agrees (snd (record_access ps now x))"
  by (induction ps arbitrary: x) (auto split: sum.split)

lemma kernel_agrees_lifetimes:
  "kernel_agrees x \<Longrightarrow> kernel_agrees (open_request r x)"
  "kernel_agrees x \<Longrightarrow> kernel_agrees (cancel_lookup r b x)"
  "kernel_agrees x \<Longrightarrow> kernel_agrees (release_request r x)"
  "kernel_agrees x \<Longrightarrow> kernel_agrees (release_job j x)"
  by (simp_all add: open_request_def cancel_lookup_def release_request_def release_job_def
      release_request_pins_def drop_pending_def Let_def kernel_agrees_simps)

lemma kernel_agrees_pin_job:
  assumes "kernel_agrees x" shows "kernel_agrees (snd (pin_job j ps x))"
proof -
  obtain res y where pj: "pin_job j ps x = (res, y)" by (cases "pin_job j ps x")
  then have "kernel_agrees y" by (cases rule: pin_job_cases) (use assms in simp_all)
  with pj show ?thesis by simp
qed

lemma kernel_agrees_sibling:
  assumes "kernel_agrees x" and "table_ok T"
    and "\<And>s d. holds T s (lease_pid x, d) = holds (shard_locks x) s (lease_pid x, d)"
  shows "kernel_agrees (x\<lparr>shard_locks := T\<rparr>)"
  using assms by (simp add: kernel_agrees_def lease_count_def)

lemma kernel_agrees_table: "kernel_agrees x \<Longrightarrow> table_ok (shard_locks x)"
  by (simp add: kernel_agrees_def)

lemma kernel_agrees_step:
  "kernel_agrees x \<Longrightarrow> lease_foreign e x \<Longrightarrow> kernel_agrees (lease_step e x)"
proof (cases e)
  case (Lookup_end r mine shards hits now)
  assume "kernel_agrees x" "lease_foreign e x"
  with Lookup_end show ?thesis
    by (simp add: lookup_pin_def open_pins_def kernel_agrees_release_pending kernel_agrees_fold_pin)
next
  case Begin_eviction
  assume "kernel_agrees x" "lease_foreign e x"
  with Begin_eviction begin_oldest_eviction_effect(1) [of x] show ?thesis
    by (metis lease_step.simps(14) prod.collapse)
next
  case (Sibling_flock s q d m)
  assume "kernel_agrees x" "lease_foreign e x"
  with Sibling_flock show ?thesis
    by (auto intro!: kernel_agrees_sibling table_ok_try kernel_agrees_table simp: holds_try)
next
  case (Sibling_unlock s q d)
  assume "kernel_agrees x" "lease_foreign e x"
  with Sibling_unlock show ?thesis
    by (auto intro!: kernel_agrees_sibling table_ok_unlock kernel_agrees_table simp: holds_unlock)
next
  case (Sibling_exit q)
  assume "kernel_agrees x" "lease_foreign e x"
  with Sibling_exit show ?thesis
    by (auto intro!: kernel_agrees_sibling table_ok_drop_owner kernel_agrees_table
        simp: holds_drop_owner [OF table_ok_dict [OF kernel_agrees_table]])
qed (simp_all add: kernel_agrees_lifetimes kernel_agrees_touches kernel_agrees_lookups
      kernel_agrees_resolve kernel_agrees_pin_job kernel_agrees_finish_eviction touch_def
      flush_touches_def Let_def)

interpretation lease_kernel: guarded_invariant lease_step kernel_agrees lease_foreign
  by unfold_locales (rule kernel_agrees_step)

end
