(* ===== verification/ShardLeaseProps.thy ===== *)
theory ShardLeaseProps
  imports ShardLeaseRun
begin

text \<open>
  The properties of the shard lease index: the ledger of every run, exclusion of use and
  eviction, the choice of the victim, all-or-nothing job pins, the soundness of a cached
  hit, the identification of shards with their lock files, and the two places where
  \<open>src/patches/tiering-fs-bounded-lru.py\<close> does less than its comments say.
\<close>

section \<open>The initial index\<close>

definition no_locks_of :: "pid \<Rightarrow> shard_table \<Rightarrow> bool" where
  "no_locks_of p T \<longleftrightarrow> (\<forall>s d. holds T s (p, d) = None)"

lemma dict_ok_scan: "dict_ok lru \<Longrightarrow> dict_ok (scan_shards base es lru)"
  by (induction base es lru rule: scan_shards.induct) (auto split: option.split)

lemma new_lease_index_inv:
  assumes "table_ok T" and "no_locks_of p T"
  shows "lease_inv (new_lease_index R p es T)"
  using assms by (simp add: lease_inv_def kernel_agrees_def lease_dicts_ok_def lease_count_def
      ledger_simps new_lease_index_def no_locks_of_def dict_ok_scan)

lemma release_pending_pid [simp]: "lease_pid (release_pending_shards r ss x) = lease_pid x"
proof -
  have "lease_pid (snd (release_pending_loop ss d x)) = lease_pid x" for d
    by (induction ss d x rule: release_pending_loop.induct) (auto simp: Let_def)
  then show ?thesis
    by (auto simp: release_pending_shards_def Let_def case_prod_unfold split: option.split)
qed

lemma lease_pid_step: "lease_pid (lease_step e x) = lease_pid x" if "kernel_agrees x"
proof (cases e)
  case (Lookup_begin r ps)
  have "lease_pid (snd (acquire_eligible ss x)) = lease_pid x" for ss
    using acquire_eligible_effect [of ss x] frame_fields(2) by (metis prod.collapse)
  moreover have "lease_pid (fold (add_pending r) ks y) = lease_pid y" for ks y
    by (induction ks arbitrary: y) auto
  ultimately show ?thesis using Lookup_begin
    by (auto simp: lookup_begin_def Let_def case_prod_unfold split: sum.split)
next
  case (Lookup_end r mine shards hits now)
  have pin: "lease_pid (fold (pin_hit r now) ss y) = lease_pid y" for ss y
    by (induction ss arbitrary: y) (auto simp: pin_hit_def mark_used_def add_pin_def)
  show ?thesis using Lookup_end pin by (auto simp: lookup_pin_def open_pins_def)
next
  case (Begin_lookup r p)
  then show ?thesis by (auto simp: begin_lookup_def Let_def case_prod_unfold split: sum.split)
next
  case (Resolve_lookup r p hit now)
  then show ?thesis
    by (auto simp: resolve_cached_lookup_def open_pins_def Let_def case_prod_unfold mark_used_def
        add_pin_def split: sum.split)
next
  case (Touch r ps now)
  have "lease_pid (snd (touch_loop P now qs x)) = lease_pid x" for P qs x
    by (induction P now qs x rule: touch_loop.induct) (auto simp: mark_used_def split: sum.split)
  with Touch show ?thesis by (simp add: touch_def Let_def)
next
  case (Record_store ps now)
  have "lease_pid (snd (record_store qs now x)) = lease_pid x" for qs x
    by (induction qs now x rule: record_store.induct) (auto simp: mark_used_def split: sum.split)
  with Record_store show ?thesis by simp
next
  case (Record_access ps now)
  have "lease_pid (snd (record_access qs now x)) = lease_pid x" for qs x
    by (induction qs now x rule: record_access.induct) (auto simp: mark_used_def split: sum.split)
  with Record_access show ?thesis by simp
next
  case (Pin_job j ps)
  obtain res y where pj: "pin_job j ps x = (res, y)" by (cases "pin_job j ps x")
  then have "lease_pid y = lease_pid x"
    by (cases rule: pin_job_cases) (auto dest: frame_fields)
  with Pin_job pj show ?thesis by simp
next
  case Begin_eviction
  obtain r y where b: "begin_oldest_eviction x = (r, y)" by (cases "begin_oldest_eviction x")
  from begin_oldest_eviction_effect(2) [OF that b] Begin_eviction b show ?thesis
    by (simp add: victim_frame_def)
qed (auto simp: open_request_def cancel_lookup_def release_request_def release_request_pins_def
      release_job_def drop_pending_def flush_touches_def finish_eviction_def Let_def
      split: option.split)

lemma lease_guard_foreign: "lease_guard e x \<Longrightarrow> lease_foreign e x"
  by (cases e) auto

lemma admissible_foreign:
  "admissible lease_guard lease_step es x \<Longrightarrow> admissible lease_foreign lease_step es x"
  by (induction es arbitrary: x) (auto intro: lease_guard_foreign)

lemma lease_pid_run:
  "kernel_agrees x \<Longrightarrow> admissible lease_foreign lease_step es x \<Longrightarrow>
   lease_pid (run lease_step es x) = lease_pid x"
  by (induction es arbitrary: x) (auto simp: lease_pid_step kernel_agrees_step)

lemma new_lease_index_pid [simp]: "lease_pid (new_lease_index R p es T) = p"
  by (simp add: new_lease_index_def)

lemma lease_inv_kernel: "lease_inv x \<Longrightarrow> kernel_agrees x"
  by (simp add: lease_inv_def)

section \<open>The ledger\<close>

definition demo_roots :: roots where
  "demo_roots = \<lparr>cwd = ''/'', run_root = ''/k'', input_run_root = ''/c''\<rparr>"

lemma demo_paths [simp]:
  "shard_for_path demo_roots ''/k/abc/f'' = Inr ''/k/abc''"
  "shard_for_path demo_roots ''/c/abc/g'' = Inr ''/k/abc''"
  "shard_for_path demo_roots ''/k/def/f'' = Inr ''/k/def''"
  by (simp_all add: demo_roots_def shard_for_path_def normalize_path_def root_prefix_def
      input_root_prefix_def rstrip_sep_def shard_for_normalized_path_def shard_name_def
      path_join_def endswith_def suffix_def)

lemma demo_root_eqs [simp]: "lease_roots (new_lease_index R p es T) = R"
  "scan_shards base [] lru = lru"
  by (simp_all add: new_lease_index_def)


definition demo_run :: "lease_event list" where
  "demo_run = [Open_request ''r'', Begin_lookup ''r'' ''/k/abc/f'',
     Sibling_flock ''/k/abc'' 2 Shared_fd LOCK_SH, Resolve_lookup ''r'' ''/k/abc/f'' True 1,
     Pin_job 5 [''/c/abc/g''], Begin_eviction]"

lemmas demo_eval = demo_run_def new_lease_index_def open_request_def drop_pending_def
  release_counts_def begin_lookup_def lookup_fenced_def acquire_shared_def try_flock_def
  conflicts_def add_pending_def resolve_cached_lookup_def open_pins_def add_pin_def set_add_def
  set_discard_def release_pending_shards_def release_shared_def mark_used_def pin_job_def
  begin_oldest_eviction_def eviction_candidates_def pinned_shards_def dget_def Let_def


section \<open>Exclusion of use and eviction\<close>

text \<open>C4: While a process is evicting a shard, nobody uses it: the process itself holds no
  lease on it (no request pin, pending lookup or job counts), and no descriptor of this or of
  any sibling process has a lock on it but the evicting one. This holds for every
  interleaving with siblings, also through the unlocked window of \<open>lookup_and_pin\<close>.\<close>

theorem evicting_shard_unused:
  assumes "table_ok T" and "no_locks_of p T"
    and "admissible lease_foreign lease_step es (new_lease_index R p entries T)"
    and "y = run lease_step es (new_lease_index R p entries T)"
    and "s \<in> set (evicting y)"
  shows "lease_count y s = 0 \<and> holds (shard_locks y) s (p, Evict_fd) = Some LOCK_EX
    \<and> (\<forall>d. d \<noteq> (p, Evict_fd) \<longrightarrow> holds (shard_locks y) s d = None)"
proof -
  note start = lease_inv_kernel [OF new_lease_index_inv [OF assms(1,2)]]
  have ok: "kernel_agrees y"
    unfolding assms(4) by (rule lease_kernel.inv_admissible [OF start assms(3)])
  have pid: "lease_pid y = p" using lease_pid_run [OF start assms(3)] by (simp add: assms(4))
  have ex: "holds (shard_locks y) s (p, Evict_fd) = Some LOCK_EX"
    using ok pid assms(5) by (auto simp: kernel_agrees_def)
  have only: "holds (shard_locks y) s d = None" if "d \<noteq> (p, Evict_fd)" for d
    using table_ok_excl [OF kernel_agrees_table [OF ok] ex] that
    by (cases "holds (shard_locks y) s d") auto
  have "holds (shard_locks y) s (p, Shared_fd) = None" by (rule only) simp
  then have "lease_count y s = 0" using ok pid by (auto simp: kernel_agrees_def split: if_splits)
  with ex only show ?thesis by blast
qed

theorem evicting_shard_unused_witness:
  "\<exists>y. y = run lease_step [Record_store [''/k/abc/f''] 5, Begin_eviction,
        Sibling_flock ''/k/abc'' 2 Shared_fd LOCK_SH] (new_lease_index demo_roots 1 [] [])
     \<and> evicting y = [''/k/abc''] \<and> lease_count y ''/k/abc'' = 0
     \<and> holds (shard_locks y) ''/k/abc'' (2, Shared_fd) = None"
proof -
  let ?es = "[Record_store [''/k/abc/f''] 5, Begin_eviction,
        Sibling_flock ''/k/abc'' 2 Shared_fd LOCK_SH]"
  let ?x = "new_lease_index demo_roots 1 [] []"
  have T: "table_ok []" "no_locks_of 1 []" by (simp_all add: no_locks_of_def)
  have adm: "admissible lease_foreign lease_step ?es ?x" by (simp add: demo_eval)
  have ev: "evicting (run lease_step ?es ?x) = [''/k/abc'']" by (simp add: demo_eval)
  then have "''/k/abc'' \<in> set (evicting (run lease_step ?es ?x))" by simp
  from evicting_shard_unused [OF T adm refl this] ev show ?thesis by auto
qed

section \<open>The victim\<close>

lemma sorted_split_less:
  "sorted (pre @ x # post) \<Longrightarrow> y \<in> set (pre @ x # post) \<Longrightarrow> y < x \<Longrightarrow> y \<in> set pre"
  by (auto simp: sorted_append)

definition idle_shard :: "lease_index \<Rightarrow> shard \<Rightarrow> seconds \<Rightarrow> bool" where
  "idle_shard x s t \<longleftrightarrow> (s, t) \<in> set (last_used x) \<and> s \<notin> set (pinned_shards x) \<and> s \<notin> set (evicting x)"

text \<open>C11: \<open>begin_oldest_eviction\<close> picks the least recently used shard that can be evicted: the
  victim is idle in this process and locked by nobody, and every idle shard that was used
  longer ago is locked by a sibling. It returns \<open>None\<close> only if every idle shard is locked
  by a sibling.\<close>

theorem eviction_picks_lru:
  assumes "kernel_agrees x" and "begin_oldest_eviction x = (r, y)"
  shows "case r of
      None \<Rightarrow> (\<forall>s t. idle_shard x s t \<longrightarrow> shard_locked s x)
    | Some v \<Rightarrow> \<exists>t. idle_shard x v t \<and> \<not> shard_locked v x
        \<and> (\<forall>s t'. idle_shard x s t' \<longrightarrow> t' < t \<longrightarrow> shard_locked s x)"
proof -
  note eff = begin_oldest_eviction_effect [OF assms]
  have idle: "idle_shard x s t \<longleftrightarrow> (t, s) \<in> set (eviction_candidates x)" for s t
    by (simp add: idle_shard_def set_eviction_candidates)
  show ?thesis
  proof (cases r)
    case None
    with eff(3) show ?thesis by (simp add: idle)
  next
    case (Some v)
    from eff(4) [OF Some] obtain pre t post where
      c: "eviction_candidates x = pre @ (t, v) # post" "\<forall>(t', s) \<in> set pre. shard_locked s x"
        "\<not> shard_locked v x" by auto
    have sorted: "sorted (eviction_candidates x)" by (simp add: eviction_candidates_def)
    have "shard_locked s x" if "idle_shard x s t'" "t' < t" for s t'
      using sorted_split_less [OF sorted [unfolded c(1)], of "(t', s)"] that c(2)
      by (auto simp: idle c(1) less_prod_def)
    moreover have "idle_shard x v t" by (simp add: idle c(1))
    ultimately show ?thesis using Some c(3) by auto
  qed
qed

theorem eviction_picks_lru_witness:
  "\<exists>x y v. kernel_agrees x \<and> begin_oldest_eviction x = (Some v, y) \<and> v = ''/k/def''
     \<and> shard_locked ''/k/abc'' x \<and> \<not> shard_locked v x"
proof -
  let ?x = "run lease_step [Record_store [''/k/abc/f''] 1, Record_store [''/k/def/f''] 2,
    Sibling_flock ''/k/abc'' 2 Shared_fd LOCK_SH] (new_lease_index demo_roots 1 [] [])"
  have "lease_inv (new_lease_index demo_roots 1 [] [])"
    by (rule new_lease_index_inv) (simp_all add: no_locks_of_def)
  then have ok: "kernel_agrees ?x"
    by (rule lease_inv_kernel [OF lease_ledger.inv_admissible]) (simp add: demo_eval)
  obtain y where y: "begin_oldest_eviction ?x = (Some ''/k/def'', y)"
    by (simp add: demo_eval)
  have "shard_locked ''/k/abc'' ?x"
    unfolding shard_locked_def by (rule exI [of _ "(2, Shared_fd)"]) (simp add: demo_eval)
  with eviction_picks_lru [OF ok y] ok y show ?thesis by auto
qed

section \<open>Job pins\<close>

lemma acquire_ok_iff:
  assumes "kernel_agrees x" shows "fst (acquire_shared s x) \<longleftrightarrow> not_locked_out s x"
proof
  assume got: "fst (acquire_shared s x)"
  have ok: "table_ok (shard_locks x)" using assms by (rule kernel_agrees_table)
  show "not_locked_out s x"
  proof (cases "lease_count x s = 0")
    case True
    then have own: "holds (shard_locks x) s (lease_pid x, Shared_fd) = None"
      using assms by (simp add: kernel_agrees_def)
    from True got have "fst (try_flock s (lease_pid x, Shared_fd) LOCK_SH (shard_locks x))"
      by (auto simp: acquire_shared_def lease_count_def Let_def case_prod_unfold split: if_splits)
    with own show ?thesis unfolding try_success_iff [OF ok] not_locked_out_def
      by (metis lock_mode.distinct(1) option.distinct(1))
  next
    case False
    then have own: "holds (shard_locks x) s (lease_pid x, Shared_fd) = Some LOCK_SH"
      using assms by (simp add: kernel_agrees_def)
    then show ?thesis unfolding not_locked_out_def
      using table_ok_excl [OF ok _ own] by (metis lock_mode.distinct(1) option.inject)
  qed
qed (rule not_locked_out_acquire [OF assms])

lemma not_locked_out_evicting: "kernel_agrees x \<Longrightarrow> not_locked_out s x \<Longrightarrow> s \<notin> set (evicting x)"
  by (metis kernel_agrees_def not_locked_out_def)

lemma not_locked_out_acquire_iff:
  "kernel_agrees x \<Longrightarrow> fst (acquire_shared s x) \<Longrightarrow>
   not_locked_out t (snd (acquire_shared s x)) = not_locked_out t x"
proof
  assume x: "kernel_agrees x" and y: "not_locked_out t (snd (acquire_shared s x))"
  have "holds (shard_locks x) s (lease_pid x, Shared_fd) \<noteq> Some LOCK_EX"
    using x by (auto simp: kernel_agrees_def)
  moreover have "holds (shard_locks (snd (acquire_shared s x))) t d = holds (shard_locks x) t d"
    if "\<not> (t = s \<and> d = (lease_pid x, Shared_fd))" for d
    using that by (auto simp: acquire_shared_def Let_def case_prod_unfold holds_try)
  ultimately show "not_locked_out t x" using y unfolding not_locked_out_def by metis
qed (rule not_locked_out_after_acquire)

lemma pin_job_result:
  assumes "shards_for_paths (lease_roots x) ps = Inr all"
  shows "fst (pin_job j ps x) = Inr (fst (pin_job_loop (remdups all) [] x))"
proof -
  obtain ok z where loop: "pin_job_loop (remdups all) [] x = (ok, z)"
    by (cases "pin_job_loop (remdups all) [] x")
  note eff = pin_job_loop_effect [OF loop, simplified]
  then have "evicting z = evicting x" by (auto dest: frame_fields(7))
  with eff have "ok \<Longrightarrow> \<not> list_ex (\<lambda>s. s \<in> set (evicting z)) (remdups all)"
    by (auto simp: list_ex_iff)
  with loop assms show ?thesis by (simp add: pin_job_def Let_def)
qed

lemma pin_job_loop_ok_iff:
  "kernel_agrees x \<Longrightarrow> fst (pin_job_loop ss acq x) \<longleftrightarrow> (\<forall>s \<in> set ss. not_locked_out s x)"
proof (induction ss arbitrary: acq x)
  case (Cons k ss)
  show ?case
  proof (cases "not_locked_out k x")
    case True
    with Cons.prems have got: "fst (acquire_shared k x)" "k \<notin> set (evicting x)"
      by (auto simp: acquire_ok_iff not_locked_out_evicting)
    with Cons True show ?thesis
      by (simp add: Let_def case_prod_unfold kernel_agrees_acquire not_locked_out_acquire_iff)
  next
    case False
    with Cons.prems show ?thesis
      by (simp add: Let_def case_prod_unfold acquire_ok_iff)
  qed
qed simp

text \<open>C10: Pinning a transfer job is all or nothing. It succeeds exactly if no shard of the job
  has an exclusive lock on it, and then every shard gains exactly one lease (however many of
  the job's blocks lie in it) and its shared kernel lock; otherwise every count, every lock
  of this process and the job table are as before: the leases taken on the way are returned.\<close>

theorem pin_job_atomic:
  assumes "kernel_agrees x" and "shards_for_paths (lease_roots x) ps = Inr all"
    and "pin_job j ps x = (res, y)"
  shows "res = Inr (list_all (\<lambda>s. not_locked_out s x) all)
    \<and> (if list_all (\<lambda>s. not_locked_out s x) all
       then job_shards y = dput j (remdups all) (job_shards x)
         \<and> (\<forall>s. lease_count y s = lease_count x s + (if s \<in> set all then 1 else 0))
         \<and> (\<forall>s \<in> set all. holds (shard_locks y) s (lease_pid x, Shared_fd) = Some LOCK_SH)
       else job_shards y = job_shards x
         \<and> (\<forall>s. lease_count y s = lease_count x s)
         \<and> (\<forall>s d. holds (shard_locks y) s (lease_pid x, d) = holds (shard_locks x) s (lease_pid x, d)))"
proof -
  have ok_iff: "res = Inr True \<longleftrightarrow> list_all (\<lambda>s. not_locked_out s x) all"
    using pin_job_loop_ok_iff [OF assms(1)] pin_job_result [OF assms(2), of j] assms(3)
    by (simp add: list_all_iff)
  from assms(3) show ?thesis
  proof (cases rule: pin_job_cases)
    case (pinned all' z)
    then have [simp]: "all' = all" using assms(2) by simp
    have "lease_count z s = lease_count y s" for s by (simp add: pinned(3) lease_count_def)
    moreover have "holds (shard_locks y) s (lease_pid x, Shared_fd) = Some LOCK_SH" if "s \<in> set all" for s
      using pinned(5) [OF assms(1)] pinned(6) [of s] that frame_fields(2) [OF pinned(4)]
      by (auto simp: pinned(3) kernel_agrees_def)
    ultimately show ?thesis using ok_iff pinned by auto
  next
    case (refused all')
    have "holds (shard_locks y) s (lease_pid x, d) = holds (shard_locks x) s (lease_pid x, d)" for s d
      using refused(4) [OF assms(1)] assms(1) refused(5) frame_fields(2,7) [OF refused(3)]
      by (cases d) (auto simp: kernel_agrees_def)
    then show ?thesis using ok_iff refused(2,5) frame_fields(6) [OF refused(3)] by auto
  qed (use assms(2) in simp)
qed

theorem pin_job_atomic_witness:
  "\<exists>x y. kernel_agrees x \<and> pin_job 7 [''/k/abc/f'', ''/k/def/f''] x = (Inr False, y)
     \<and> \<not> not_locked_out ''/k/def'' x \<and> (\<forall>s. lease_count y s = lease_count x s)"
proof -
  let ?x = "run lease_step [Sibling_flock ''/k/def'' 2 Evict_fd LOCK_EX]
    (new_lease_index demo_roots 1 [] [])"
  have "lease_inv (new_lease_index demo_roots 1 [] [])"
    by (rule new_lease_index_inv) (simp_all add: no_locks_of_def)
  then have ok: "kernel_agrees ?x"
    by (rule lease_inv_kernel [OF lease_ledger.inv_admissible]) (simp add: demo_eval)
  have sh: "shards_for_paths (lease_roots ?x) [''/k/abc/f'', ''/k/def/f''] = Inr [''/k/abc'', ''/k/def'']"
    by simp
  have locked: "\<not> not_locked_out ''/k/def'' ?x"
    unfolding not_locked_out_def by (simp add: demo_eval)
  obtain res y where pj: "pin_job 7 [''/k/abc/f'', ''/k/def/f''] ?x = (res, y)"
    by (cases "pin_job 7 [''/k/abc/f'', ''/k/def/f''] ?x")
  from pin_job_atomic [OF ok sh pj] locked
  have "res = Inr False \<and> (\<forall>s. lease_count y s = lease_count ?x s)" by auto
  with ok pj locked show ?thesis by blast
qed

section \<open>Hits\<close>

lemma pinned_holds_lock:
  assumes "lease_inv x" and "s \<in> set (dget (request_shards x) r [])"
  shows "holds (shard_locks x) s (lease_pid x, Shared_fd) = Some LOCK_SH"
proof -
  have "0 < count_list (dget (request_shards x) r []) s"
    using assms(2) by (metis count_list_0_iff gr0I)
  also have "\<dots> \<le> pin_leases x s"
    unfolding pin_leases_def using at_key_le_dict_sum [of "\<lambda>S. count_list S s" "request_shards x" r]
    by (simp add: at_key_dget)
  finally have "0 < lease_count x s"
    using lease_inv_dest(3) [OF assms(1), of s] by (simp add: leases_def)
  then show ?thesis using lease_inv_kernel [OF assms(1)] by (simp add: kernel_agrees_def)
qed

lemma holds_shared_not_evicting:
  assumes "kernel_agrees x" and "holds (shard_locks x) s (lease_pid x, Shared_fd) = Some LOCK_SH"
  shows "s \<notin> set (evicting x)"
proof
  assume "s \<in> set (evicting x)"
  then have "holds (shard_locks x) s (lease_pid x, Evict_fd) = Some LOCK_EX"
    using assms(1) by (simp add: kernel_agrees_def)
  from table_ok_excl [OF kernel_agrees_table [OF assms(1)] this assms(2)] show False by simp
qed

lemma release_pending_fields [simp]:
  "request_shards (release_pending_shards r ss x) = request_shards x"
  "evicting (release_pending_shards r ss x) = evicting x"
proof -
  have "request_shards (snd (release_pending_loop ss d x)) = request_shards x
      \<and> evicting (snd (release_pending_loop ss d x)) = evicting x" for d
    by (induction ss d x rule: release_pending_loop.induct) (auto simp: Let_def)
  then show "request_shards (release_pending_shards r ss x) = request_shards x"
    "evicting (release_pending_shards r ss x) = evicting x"
    by (auto simp: release_pending_shards_def Let_def case_prod_unfold split: option.split)
qed

lemma mark_used_pins [simp]: "request_shards (mark_used s now x) = request_shards x"
  by (simp add: mark_used_def)

lemma add_pin_pins [simp]:
  "set (dget (request_shards (add_pin r s x)) r []) = insert s (set (dget (request_shards x) r []))"
  by (simp add: add_pin_def)

text \<open>Remark: When \<open>resolve_cached_lookup\<close> answers that a cached hit is usable, the file had been
  found, the shard is pinned for the request under the shared kernel lock, and it is not
  being evicted by anyone.\<close>

theorem cached_hit_holds_lease:
  assumes "lease_inv x" and "shard_for_path (lease_roots x) p = Inr s"
    and "resolve_cached_lookup r p hit now x = (Inr True, y)"
  shows "hit \<and> \<not> lookup_fenced r x \<and> s \<in> set (dget (request_shards y) r [])
    \<and> holds (shard_locks y) s (lease_pid y, Shared_fd) = Some LOCK_SH
    \<and> (\<forall>d. holds (shard_locks y) s d \<noteq> Some LOCK_EX)"
proof -
  have inv: "lease_inv y"
    using resolve_cached_lookup_inv [OF assms(1), of r p hit now] assms(3) by simp
  have pin: "hit \<and> \<not> lookup_fenced r x \<and> s \<in> set (dget (request_shards y) r [])"
    using assms(2,3) by (auto simp: resolve_cached_lookup_def Let_def case_prod_unfold
        split: if_splits)
  have own: "holds (shard_locks y) s (lease_pid y, Shared_fd) = Some LOCK_SH"
    using pinned_holds_lock [OF inv] pin by blast
  have "holds (shard_locks y) s d \<noteq> Some LOCK_EX" for d
    using table_ok_excl [OF lease_inv_table [OF inv] _ own] own by fastforce
  with pin own show ?thesis by blast
qed

theorem cached_hit_holds_lease_witness:
  "\<exists>x y. lease_inv x \<and> resolve_cached_lookup ''r'' ''/k/abc/f'' True 1 x = (Inr True, y)
     \<and> holds (shard_locks y) ''/k/abc'' (lease_pid y, Shared_fd) = Some LOCK_SH"
proof -
  let ?x = "run lease_step [Open_request ''r'', Begin_lookup ''r'' ''/k/abc/f'']
    (new_lease_index demo_roots 1 [] [])"
  have "lease_inv (new_lease_index demo_roots 1 [] [])"
    by (rule new_lease_index_inv) (simp_all add: no_locks_of_def)
  then have inv: "lease_inv ?x"
    by (rule lease_ledger.inv_admissible) (simp add: demo_eval)
  have sh: "shard_for_path (lease_roots ?x) ''/k/abc/f'' = Inr ''/k/abc''"
    by (simp add: demo_eval)
  obtain y where y: "resolve_cached_lookup ''r'' ''/k/abc/f'' True 1 ?x = (Inr True, y)"
    by (simp add: demo_eval)
  from cached_hit_holds_lease [OF inv sh y] inv y show ?thesis by blast
qed

lemma pin_hit_pins [simp]:
  "set (dget (request_shards (pin_hit r now s x)) r []) = insert s (set (dget (request_shards x) r []))"
  by (auto simp: pin_hit_def)

lemma fold_pin_hit_pins:
  "set (dget (request_shards (fold (pin_hit r now) ss x)) r [])
   = set ss \<union> set (dget (request_shards x) r [])"
  by (induction ss arbitrary: x) auto

lemma spread_hits_length: "spread_hits oks hs = Some res \<Longrightarrow> length res = length oks"
  by (induction oks hs arbitrary: res rule: spread_hits.induct) auto

lemma spread_hits_eligible: "spread_hits oks hs = Some res \<Longrightarrow> i < length res \<Longrightarrow> res ! i \<Longrightarrow> oks ! i"
  by (induction oks hs arbitrary: res i rule: spread_hits.induct) (auto simp: nth_Cons split: nat.splits)

lemma lookup_begin_length:
  "lookup_begin r ps x = (Inr (Candidates shards oks), y) \<Longrightarrow>
   length shards = length ps \<and> length oks = length ps"
  using acquire_eligible_effect [of "case shards_for_paths (lease_roots x) ps of Inr ss \<Rightarrow> ss" x]
  by (auto simp: lookup_begin_def Let_def case_prod_unfold shards_for_paths_length
      split: if_splits sum.splits) (metis prod.collapse)

lemma in_pick: "i < length hs \<Longrightarrow> length hs = length xs \<Longrightarrow> hs ! i \<Longrightarrow> xs ! i \<in> set (pick xs hs)"
  unfolding pick_def by (force simp: set_zip image_iff)

text \<open>Remark: Unless an exclusive lock slips in before the pins are taken, every hit that
  \<open>lookup_and_pin\<close> reports belongs to a shard whose shared lock was obtained before the
  existence probe, is pinned for the request, and is protected by the shared kernel lock
  when the call returns; one answer is returned per path.\<close>

theorem lookup_hits_leased:
  assumes "lookup_begin r paths x = (Inr (Candidates shards eligible), x1)"
    and "z = sibling (release_pending_shards r (pick shards eligible) (meanwhile x1))"
    and "lease_inv z" and "\<forall>s \<in> set shards. not_locked_out s z"
    and "lookup_and_pin r paths exists now meanwhile sibling x = (Inr res, y)"
  shows "length res = length paths \<and> lease_inv y
    \<and> (\<forall>i < length res. res ! i \<longrightarrow> eligible ! i \<and> shards ! i \<in> set (dget (request_shards y) r [])
        \<and> holds (shard_locks y) (shards ! i) (lease_pid y, Shared_fd) = Some LOCK_SH)"
proof -
  from assms(1,2,5) obtain found hits where
    hits: "spread_hits eligible found = Some hits"
    and pin: "lookup_pin r now shards hits z = (res, y)"
    by (auto simp: lookup_and_pin_def Let_def case_prod_unfold prod_eq_iff
        split: option.splits)
  note len = lookup_begin_length [OF assms(1)] spread_hits_length [OF hits]
  have lr: "length res = length paths" using pin len by (auto simp: lookup_pin_def split: if_splits)
  have inv: "lease_inv y"
    using lookup_pin_inv [OF assms(3), of shards hits r now] assms(4) pin set_pick [of shards hits]
    by (metis snd_conv subsetD)
  have hit: "eligible ! i \<and> shards ! i \<in> set (dget (request_shards y) r [])"
    if i: "i < length res" "res ! i" for i
  proof -
    have fenced: "\<not> lookup_fenced r z" using i pin by (auto simp: lookup_pin_def split: if_splits)
    then have y: "y = fold (pin_hit r now) (pick shards hits) (open_pins r z)" "res = hits"
      using pin by (auto simp: lookup_pin_def)
    have "shards ! i \<in> set (pick shards hits)"
      using i len lr y(2) by (intro in_pick) auto
    with spread_hits_eligible [OF hits] i show ?thesis
      by (auto simp: y fold_pin_hit_pins)
  qed
  with lr inv pinned_holds_lock [OF inv] show ?thesis by blast
qed

theorem lookup_hits_leased_witness:
  "\<exists>y. lookup_and_pin ''r'' [''/k/abc/f'', ''/k/def/f''] (\<lambda>ps. Some [True, False]) 1 id id
      (new_lease_index demo_roots 1 [] []) = (Inr [True, False], y)
    \<and> holds (shard_locks y) ''/k/abc'' (lease_pid y, Shared_fd) = Some LOCK_SH"
proof -
  let ?x = "new_lease_index demo_roots 1 [] []"
  let ?ps = "[''/k/abc/f'', ''/k/def/f'']" let ?ss = "[''/k/abc'', ''/k/def'']"
  obtain x1 where b: "lookup_begin ''r'' ?ps ?x = (Inr (Candidates ?ss [True, True]), x1)"
    by (simp add: lookup_begin_def demo_eval)
  have x1: "x1 = lease_step (Lookup_begin ''r'' ?ps) ?x"
    by (simp only: lease_step.simps b snd_conv)
  let ?z = "id (release_pending_shards ''r'' (pick ?ss [True, True]) (id x1))"
  have "lease_inv ?x" by (rule new_lease_index_inv) (simp_all add: no_locks_of_def)
  then have "lease_inv x1" unfolding x1 by (rule lease_step_inv) simp
  then have z: "lease_inv ?z" by (simp add: release_pending_shards_inv)
  have free: "\<forall>s \<in> set ?ss. not_locked_out s ?z"
    using b by (auto simp: lookup_begin_def demo_eval not_locked_out_def unlock_def)
  obtain y where y: "lookup_and_pin ''r'' ?ps (\<lambda>ps. Some [True, False]) 1 id id ?x = (Inr [True, False], y)"
    by (simp add: lookup_and_pin_def lookup_begin_def lookup_pin_def demo_eval)
  have "holds (shard_locks y) (?ss ! 0) (lease_pid y, Shared_fd) = Some LOCK_SH"
    using lookup_hits_leased [OF b refl z free y] by (auto simp: All_less_Suc2 numeral_2_eq_2)
  with y show ?thesis by simp
qed

text \<open>Remark: The pin of a hit is not atomic with its pending lease: \<open>lookup_and_pin\<close> gives the
  pending lease back before it takes the request's lease and does not look at the result. If
  a sibling takes the exclusive lock of the shard in between, the call still reports the hit
  and lists the shard as pinned, although this process has no lock on it and the sibling is
  evicting it.\<close>

theorem lookup_and_pin_race:
  "\<exists>x y. lease_inv x
     \<and> lookup_and_pin ''r'' [''/k/abc/f''] (\<lambda>ps. Some [True]) 1 id
         (\<lambda>z. z\<lparr>shard_locks := snd (try_flock ''/k/abc'' (2, Evict_fd) LOCK_EX (shard_locks z))\<rparr>) x
       = (Inr [True], y)
     \<and> ''/k/abc'' \<in> set (dget (request_shards y) ''r'' [])
     \<and> holds (shard_locks y) ''/k/abc'' (lease_pid y, Shared_fd) = None
     \<and> holds (shard_locks y) ''/k/abc'' (2, Evict_fd) = Some LOCK_EX"
proof -
  let ?x = "new_lease_index demo_roots 1 [] []"
  let ?y = "?x\<lparr>last_used := [(''/k/abc'', 1)], request_shards := [(''r'', [''/k/abc''])],
    dirty_shards := [''/k/abc''], shard_locks := [((''/k/abc'', (2, Evict_fd)), LOCK_EX)]\<rparr>"
  have inv: "lease_inv ?x" by (rule new_lease_index_inv) (simp_all add: no_locks_of_def)
  have y: "lookup_and_pin ''r'' [''/k/abc/f''] (\<lambda>ps. Some [True]) 1 id
      (\<lambda>z. z\<lparr>shard_locks := snd (try_flock ''/k/abc'' (2, Evict_fd) LOCK_EX (shard_locks z))\<rparr>) ?x
    = (Inr [True], ?y)"
    by (simp add: lookup_and_pin_def lookup_begin_def lookup_pin_def pin_hit_def demo_eval unlock_def)
  have "''/k/abc'' \<in> set (dget (request_shards ?y) ''r'' [])"
    and "holds (shard_locks ?y) ''/k/abc'' (lease_pid ?y, Shared_fd) = None"
    and "holds (shard_locks ?y) ''/k/abc'' (2, Evict_fd) = Some LOCK_EX"
    by (simp_all add: dget_def new_lease_index_def)
  with inv y show ?thesis by blast
qed

section \<open>Paths\<close>

text \<open>Remark: A block path is accepted only into one of the 4096 hash directories right under the
  cache root, and the name of the lock file (the base name of the shard) identifies the
  shard: two accepted paths share a lock file exactly if they share a shard.\<close>

theorem lock_file_identifies_shard:
  assumes "shard_for_path R p = Inr s" and "shard_for_path R q = Inr t"
  shows "shard_name (path_basename s) \<and> s = path_join (run_root R) (path_basename s)
    \<and> (path_basename s = path_basename t \<longleftrightarrow> s = t)"
proof -
  obtain n where n: "shard_name n" "s = path_join (run_root R) n"
    using shard_for_path_form [OF assms(1)] by blast
  then have "path_basename s = n" by (simp add: path_basename_join shard_name_no_slash)
  with n shard_basename_inj [OF assms] show ?thesis by auto
qed

theorem lock_file_identifies_shard_witness:
  "shard_name (path_basename ''/k/abc'') \<and> (path_basename ''/k/abc'' = path_basename ''/k/def'' \<longleftrightarrow> ''/k/abc'' = ''/k/def'')"
  using lock_file_identifies_shard [OF demo_paths(1) demo_paths(3)] by blast

text \<open>Remark: The fast path of \<open>_normalize_path\<close> does no containment check: a path that begins with
  the root prefix but leaves the root through \<open>..\<close> is accepted into a shard, while the same
  file named by its normal form is rejected.\<close>

theorem dotdot_accepted:
  "shard_for_path demo_roots ''/k/abc/../../e'' = Inr ''/k/abc''
   \<and> abspath (cwd demo_roots) ''/k/abc/../../e'' = ''/e''
   \<and> shard_for_path demo_roots ''/e'' = Inl (Outside_root ''/e'')"
  by (simp add: demo_roots_def shard_for_path_def normalize_path_def root_prefix_def
      input_root_prefix_def rstrip_sep_def shard_for_normalized_path_def shard_name_def
      path_join_def endswith_def suffix_def abspath_def normpath_def norm_step_def)

end
