(* ===== verification/AsyncLookupInv.thy ===== *)
theory AsyncLookupInv
  imports AsyncLookup
begin

text \<open>
  The invariant of the asynchronous lookup system and its properties: bounded queues, batches
  of one request, tokens that are set exactly while their key is wanted, and an outstanding
  carrier for every unresolved key, so that every key is answered when the workers run.
\<close>

section \<open>The invariant\<close>

definition carried :: "lookup_sys \<Rightarrow> item set" where
  "carried s = set (lookup_batch (mgr s)) \<union> set (concat (flushing s)) \<union> set (concat (taken s))
     \<union> set (concat (probing s)) \<union> (\<Union>b \<in> {b. Some b \<in> set (lookup_queue (mgr s))}. set b)"

definition reported :: "lookup_sys \<Rightarrow> okey set" where
  "reported s = fst ` set (concat (pending_results (mgr s)))"

text \<open>What is known of a key apart from its result: its token and who asked for it.\<close>

definition key_view :: "lookup_mgr \<Rightarrow> okey \<Rightarrow> (token \<times> req_id list) option" where
  "key_view m k = map_option (\<lambda>st. (key_token st, key_requests st)) (map_of (key_states m) k)"

definition unresolved :: "lookup_mgr \<Rightarrow> okey \<Rightarrow> bool" where
  "unresolved m k \<longleftrightarrow> (\<exists>st. map_of (key_states m) k = Some st \<and> key_result st = None)"

text \<open>The part about keys, requests and tokens.\<close>

text \<open>\<open>Q r\<close> are the keys that request \<open>r\<close> is known to want.\<close>

definition keys_okQ :: "(req_id \<Rightarrow> okey set) \<Rightarrow> lookup_mgr \<Rightarrow> bool" where
  "keys_okQ Q m \<longleftrightarrow> dict_ok (key_states m) \<and> distinct (active_tokens m)
     \<and> (\<forall>k t rs. key_view m k = Some (t, rs) \<longrightarrow> t \<in> set (active_tokens m) \<and> rs \<noteq> []
          \<and> (\<forall>r \<in> set rs. k \<in> Q r))
     \<and> (\<forall>r k. k \<in> Q r \<longrightarrow> (\<exists>t rs. key_view m k = Some (t, rs) \<and> r \<in> set rs))
     \<and> (\<forall>t \<in> set (active_tokens m). t < next_token m)
     \<and> (\<forall>k k' t rs rs'. key_view m k = Some (t, rs) \<longrightarrow> key_view m k' = Some (t, rs') \<longrightarrow> k = k')"

definition wanted :: "lookup_mgr \<Rightarrow> req_id \<Rightarrow> okey set" where
  "wanted m r = set (dget (req_keys m) r [])"

definition item_ok :: "lookup_mgr \<Rightarrow> item \<Rightarrow> bool" where
  "item_ok m i \<longleftrightarrow> item_token i < next_token m \<and>
     (item_token i \<in> set (active_tokens m) \<longrightarrow>
       (\<exists>rs. key_view m (fst i) = Some (item_token i, rs)))"

definition no_lost_key :: "lookup_sys \<Rightarrow> bool" where
  "no_lost_key s \<longleftrightarrow> (\<forall>k. unresolved (mgr s) k \<longrightarrow>
     k \<in> reported s \<or> (\<exists>r t rs. key_view (mgr s) k = Some (t, rs) \<and> (k, r, t) \<in> carried s))"

definition lookup_invQ :: "(req_id \<Rightarrow> okey set) \<Rightarrow> lookup_sys \<Rightarrow> bool" where
  "lookup_invQ Q s \<longleftrightarrow> keys_okQ Q (mgr s) \<and> (\<forall>i \<in> carried s. item_ok (mgr s) i) \<and> no_lost_key s"

definition lookup_inv :: "lookup_sys \<Rightarrow> bool" where
  "lookup_inv s \<longleftrightarrow> lookup_invQ (wanted (mgr s)) s"

text \<open>What the environment of a probe keeps to: one answer per key, as \<open>batch_lookup\<close> promises.\<close>

fun lookup_guard :: "lookup_event \<Rightarrow> lookup_sys \<Rightarrow> bool" where
  "lookup_guard (Worker_publish n (Some hits)) s \<longleftrightarrow>
     (n < length (probing s) \<longrightarrow> length hits = length (probing s ! n))"
| "lookup_guard _ s \<longleftrightarrow> True"

section \<open>Setting results\<close>

lemma key_view_set_result [simp]: "key_view (set_result k b m) = key_view m"
  by (auto simp: set_result_def key_view_def fun_eq_iff split: option.split)

lemma unresolved_set_result: "unresolved (set_result k b m) j \<longleftrightarrow> j \<noteq> k \<and> unresolved m j"
  by (auto simp: set_result_def unresolved_def split: option.split)

lemma dict_ok_set_result: "dict_ok (key_states m) \<Longrightarrow> dict_ok (key_states (set_result k b m))"
  by (auto simp: set_result_def split: option.split)

text \<open>Two managers that differ only in results and queues; the second has not fewer results.\<close>

definition same_keys :: "lookup_mgr \<Rightarrow> lookup_mgr \<Rightarrow> bool" where
  "same_keys m m' \<longleftrightarrow> req_keys m' = req_keys m \<and> active_tokens m' = active_tokens m
     \<and> next_token m' = next_token m \<and> (dict_ok (key_states m) \<longrightarrow> dict_ok (key_states m'))
     \<and> key_view m' = key_view m \<and> (\<forall>k. unresolved m' k \<longrightarrow> unresolved m k)"

lemma same_keys_refl: "same_keys m m"
  by (simp add: same_keys_def)

lemma same_keys_trans: "same_keys a b \<Longrightarrow> same_keys b c \<Longrightarrow> same_keys a c"
  by (simp add: same_keys_def)

lemma same_keys_set_result: "same_keys m (set_result k b m)"
  by (simp add: same_keys_def dict_ok_set_result unresolved_set_result)

lemma same_keys_fold:
  "(\<And>x m. same_keys m (f x m)) \<Longrightarrow> same_keys m (fold f xs m)"
  by (induction xs arbitrary: m) (auto intro: same_keys_refl same_keys_trans)

lemma same_keys_drop: "same_keys m (fold drop_item is m)"
  by (rule same_keys_fold) (simp add: drop_item_alt same_keys_refl same_keys_set_result)

lemma keys_ok_same: "keys_okQ Q m \<Longrightarrow> same_keys m m' \<Longrightarrow> keys_okQ Q m'"
  by (simp add: keys_okQ_def same_keys_def)

lemma item_ok_same: "item_ok m i \<Longrightarrow> same_keys m m' \<Longrightarrow> item_ok m' i"
  by (simp add: item_ok_def same_keys_def)

text \<open>Changing the queues keeps the keys.\<close>

lemma key_view_update [simp]:
  "key_view (m\<lparr>lookup_queue := q\<rparr>) = key_view m"
  "key_view (m\<lparr>pending_results := p\<rparr>) = key_view m"
  "key_view (m\<lparr>lookup_batch := b\<rparr>) = key_view m"
  "key_view (m\<lparr>need_to_drain := d\<rparr>) = key_view m"
  "key_view (m\<lparr>dropped_keys := n\<rparr>) = key_view m"
  "key_view (m\<lparr>cancelled_keys := n\<rparr>) = key_view m"
  "key_view (m\<lparr>req_keys := w\<rparr>) = key_view m"
  "key_view (m\<lparr>active_tokens := ts\<rparr>) = key_view m"
  "key_view (m\<lparr>next_token := n\<rparr>) = key_view m"
  "key_view (m\<lparr>in_flight_batches := j\<rparr>) = key_view m"
  by (simp_all add: key_view_def fun_eq_iff)

lemma same_keys_update [simp]:
  "same_keys m (m'\<lparr>lookup_queue := q\<rparr>) = same_keys m m'"
  "same_keys m (m'\<lparr>pending_results := p\<rparr>) = same_keys m m'"
  "same_keys m (m'\<lparr>lookup_batch := b\<rparr>) = same_keys m m'"
  "same_keys m (m'\<lparr>need_to_drain := d\<rparr>) = same_keys m m'"
  "same_keys m (m'\<lparr>dropped_keys := n\<rparr>) = same_keys m m'"
  "same_keys m (m'\<lparr>in_flight_batches := j\<rparr>) = same_keys m m'"
  by (simp_all add: same_keys_def unresolved_def)

text \<open>A step that only moves items and adds results keeps the invariant.\<close>

lemma lookup_inv_move:
  assumes "lookup_inv s" and "same_keys (mgr s) (mgr s')" and "carried s' \<subseteq> carried s"
    and rep: "\<And>k. k \<in> reported s \<Longrightarrow> unresolved (mgr s') k \<Longrightarrow> k \<in> reported s'"
    and lost: "\<And>i rs. i \<in> carried s \<Longrightarrow> i \<notin> carried s' \<Longrightarrow> unresolved (mgr s') (fst i) \<Longrightarrow>
           key_view (mgr s) (fst i) = Some (item_token i, rs) \<Longrightarrow> fst i \<in> reported s'"
  shows "lookup_inv s'"
proof -
  have view: "key_view (mgr s') = key_view (mgr s)" using assms(2) by (simp add: same_keys_def)
  have wanted: "wanted (mgr s') = wanted (mgr s)"
    using assms(2) by (simp add: same_keys_def wanted_def fun_eq_iff)
  have "no_lost_key s'" unfolding no_lost_key_def
  proof (intro allI impI)
    fix k assume un: "unresolved (mgr s') k"
    then have "unresolved (mgr s) k" using assms(2) by (simp add: same_keys_def)
    then consider "k \<in> reported s" | r t rs where "key_view (mgr s) k = Some (t, rs)" "(k, r, t) \<in> carried s"
      using assms(1) unfolding lookup_inv_def lookup_invQ_def no_lost_key_def by blast
    then show "k \<in> reported s' \<or> (\<exists>r t rs. key_view (mgr s') k = Some (t, rs) \<and> (k, r, t) \<in> carried s')"
    proof cases
      case 1
      with rep un show ?thesis by blast
    next
      case (2 r t rs)
      with lost [of "(k, r, t)" rs] un view show ?thesis by auto
    qed
  qed
  moreover have "keys_okQ (wanted (mgr s)) (mgr s')"
    using assms(1,2) keys_ok_same unfolding lookup_inv_def lookup_invQ_def by blast
  moreover have "\<forall>i \<in> carried s'. item_ok (mgr s') i"
    using assms(1-3) item_ok_same unfolding lookup_inv_def lookup_invQ_def by blast
  ultimately show ?thesis by (simp add: lookup_inv_def lookup_invQ_def wanted)
qed

section \<open>Draining and looking up\<close>

lemma fold_set_result:
  "same_keys m (fold (\<lambda>(k, b). set_result k b) ps m)"
  "unresolved (fold (\<lambda>(k, b). set_result k b) ps m) j \<longleftrightarrow> j \<notin> fst ` set ps \<and> unresolved m j"
proof -
  show "same_keys m (fold (\<lambda>(k, b). set_result k b) ps m)"
    by (rule same_keys_fold) (auto simp: same_keys_set_result)
  show "unresolved (fold (\<lambda>(k, b). set_result k b) ps m) j \<longleftrightarrow> j \<notin> fst ` set ps \<and> unresolved m j"
    by (induction ps arbitrary: m) (auto simp: unresolved_set_result)
qed

lemma fold_set_result_fields [simp]:
  "lookup_queue (fold (\<lambda>(k, b). set_result k b) ps m) = lookup_queue m"
  "lookup_batch (fold (\<lambda>(k, b). set_result k b) ps m) = lookup_batch m"
  "pending_results (fold (\<lambda>(k, b). set_result k b) ps m) = pending_results m"
  "max_keys_per_batch (fold (\<lambda>(k, b). set_result k b) ps m) = max_keys_per_batch m"
  "max_keys_per_step (fold (\<lambda>(k, b). set_result k b) ps m) = max_keys_per_step m"
  "max_pending_batches (fold (\<lambda>(k, b). set_result k b) ps m) = max_pending_batches m"
  by (induction ps arbitrary: m) auto

definition lookup_prepare :: "lookup_mgr \<Rightarrow> lookup_mgr" where
  "lookup_prepare m = (if need_to_drain m then (drain_results m)\<lparr>need_to_drain := False\<rparr> else m)"

lemma unresolved_update [simp]:
  "unresolved (m\<lparr>pending_results := p\<rparr>) k = unresolved m k"
  "unresolved (m\<lparr>need_to_drain := d\<rparr>) k = unresolved m k"
  "unresolved (m\<lparr>dropped_keys := n\<rparr>) k = unresolved m k"
  "unresolved (m\<lparr>lookup_queue := q\<rparr>) k = unresolved m k"
  "unresolved (m\<lparr>in_flight_batches := n\<rparr>) k = unresolved m k"
  "unresolved (m\<lparr>req_keys := w\<rparr>) k = unresolved m k"
  by (simp_all add: unresolved_def)

lemma lookup_prepare_inv:
  assumes "lookup_inv s" shows "lookup_inv (s\<lparr>mgr := lookup_prepare (mgr s)\<rparr>)"
proof (cases "need_to_drain (mgr s)")
  case True
  let ?m = "mgr s" and ?ps = "concat (pending_results (mgr s))"
  let ?d = "(drain_results ?m)\<lparr>need_to_drain := False\<rparr>"
  have "same_keys (?m\<lparr>pending_results := []\<rparr>) ?d"
    unfolding drain_results_def by (simp add: fold_set_result(1))
  then have same: "same_keys ?m ?d"
    by (rule same_keys_trans [rotated]) (simp add: same_keys_refl)
  have un: "unresolved ?d k \<longleftrightarrow> k \<notin> reported s \<and> unresolved ?m k" for k
    by (simp add: drain_results_def fold_set_result(2) reported_def)
  have car: "carried (s\<lparr>mgr := ?d\<rparr>) = carried s"
    by (simp add: carried_def drain_results_def)
  from assms have "lookup_inv (s\<lparr>mgr := ?d\<rparr>)"
    by (rule lookup_inv_move) (use same un in \<open>simp_all add: car\<close>)
  with True show ?thesis by (simp add: lookup_prepare_def)
qed (use assms in \<open>simp add: lookup_prepare_def\<close>)

text \<open>A new key, or one more request for a key that is known.\<close>

lemma create_join_new:
  assumes "map_of (key_states m) k = None"
  obtains res b m' where "snd (join_key k r (create_key k r m)) = m'"
    "key_states m' = dput k \<lparr>key_result = res, key_requests = [r], key_token = next_token m\<rparr> (key_states m)"
    "req_keys m' = dput r (set_add k (dget (req_keys m) r [])) (req_keys m)"
    "next_token m' = next_token m + 1" "active_tokens m' = next_token m # active_tokens m"
    "lookup_batch m' = lookup_batch m @ b" "b = (if res = None then [(k, r, next_token m)] else [])"
    "lookup_queue m' = lookup_queue m" "pending_results m' = pending_results m"
proof (cases "length (lookup_batch m) < max_keys_per_step m")
  case True
  show thesis by (rule that [of "snd (join_key k r (create_key k r m))" None "[(k, r, next_token m)]"])
      (simp_all add: create_key_def join_key_def Let_def True set_add_def update_Some_unfold)
next
  case False
  show thesis by (rule that [of "snd (join_key k r (create_key k r m))" "Some False" "[]"])
      (simp_all add: create_key_def join_key_def Let_def False set_add_def)
qed

lemma lookup_invE:
  assumes "lookup_inv s"
  shows "keys_okQ (wanted (mgr s)) (mgr s)" "i \<in> carried s \<Longrightarrow> item_ok (mgr s) i" "no_lost_key s"
  using assms by (simp_all add: lookup_inv_def lookup_invQ_def)

lemma key_view_dput:
  "key_states m' = dput k st (key_states m) \<Longrightarrow>
   key_view m' = (key_view m)(k := Some (key_token st, key_requests st))"
  by (auto simp: key_view_def fun_eq_iff)

lemma unresolved_dput:
  "key_states m' = dput k st (key_states m) \<Longrightarrow>
   unresolved m' j \<longleftrightarrow> (if j = k then key_result st = None else unresolved m j)"
  by (simp add: unresolved_def)

lemma wanted_dput:
  "req_keys m' = dput r (set_add k (dget (req_keys m) r [])) (req_keys m) \<Longrightarrow>
   wanted m' = (wanted m)(r := insert k (wanted m r))"
  by (auto simp: wanted_def fun_eq_iff)

lemma create_inv:
  assumes "lookup_inv s" and new: "map_of (key_states (mgr s)) k = None"
  shows "lookup_inv (s\<lparr>mgr := snd (join_key k r (create_key k r (mgr s)))\<rparr>)"
proof -
  let ?m = "mgr s" and ?t = "next_token (mgr s)"
  obtain res b m' where m': "snd (join_key k r (create_key k r ?m)) = m'"
    and states: "key_states m' = dput k \<lparr>key_result = res, key_requests = [r], key_token = ?t\<rparr> (key_states ?m)"
    and rk: "req_keys m' = dput r (set_add k (dget (req_keys ?m) r [])) (req_keys ?m)"
    and tok: "next_token m' = ?t + 1" "active_tokens m' = ?t # active_tokens ?m"
    and batch: "lookup_batch m' = lookup_batch ?m @ b" "b = (if res = None then [(k, r, ?t)] else [])"
    and q: "lookup_queue m' = lookup_queue ?m" "pending_results m' = pending_results ?m"
    using create_join_new [OF new] by metis
  note inv = lookup_invE [OF assms(1)]
  let ?s = "s\<lparr>mgr := m'\<rparr>"
  have view: "key_view m' = (key_view ?m)(k := Some (?t, [r]))"
    using key_view_dput [OF states] by simp
  have vk: "key_view ?m k = None" using new by (simp add: key_view_def)
  have lt: "t < ?t" if "t \<in> set (active_tokens ?m)" for t
    using inv(1) that by (simp add: keys_okQ_def)
  have known: "t \<in> set (active_tokens ?m)" if "key_view ?m j = Some (t, rs)" for j t rs
    using inv(1) that unfolding keys_okQ_def by blast
  have car: "carried ?s = carried s \<union> set b" by (auto simp: carried_def batch q)
  have "keys_okQ (wanted m') m'"
  proof -
    have "key_view m' j = Some (t, rs) \<Longrightarrow> t \<in> set (active_tokens m') \<and> rs \<noteq> []
        \<and> (\<forall>q \<in> set rs. j \<in> wanted m' q)" for j t rs
      using inv(1) unfolding keys_okQ_def view wanted_dput [OF rk] tok
      by (auto split: if_splits)
    moreover have "j \<in> wanted m' q \<Longrightarrow> \<exists>t rs. key_view m' j = Some (t, rs) \<and> q \<in> set rs" for q j
      using inv(1) vk unfolding keys_okQ_def view wanted_dput [OF rk]
      by (auto split: if_splits) (metis option.distinct(1))+
    moreover have "key_view m' j = Some (t, rs) \<Longrightarrow> key_view m' j' = Some (t, rs') \<Longrightarrow> j = j'" for j j' t rs rs'
      using inv(1) known lt unfolding view keys_okQ_def
      by (auto split: if_splits)
    moreover have "dict_ok (key_states m')" "distinct (active_tokens m')" "\<forall>t \<in> set (active_tokens m'). t < next_token m'"
      using inv(1) lt by (auto intro: less_SucI simp: keys_okQ_def states tok simp del: map_of_eq_Some_iff)
    ultimately show ?thesis unfolding keys_okQ_def by blast
  qed
  moreover have "item_ok m' i" if "i \<in> carried ?s" for i
  proof (cases "i \<in> carried s")
    case True
    from inv(2) [OF this] vk show ?thesis
      unfolding item_ok_def view tok by auto
  next
    case False
    with that show ?thesis by (auto simp: car batch item_ok_def view tok split: if_splits)
  qed
  moreover have "no_lost_key ?s" unfolding no_lost_key_def
  proof (intro allI impI)
    fix j assume un: "unresolved (mgr ?s) j"
    show "j \<in> reported ?s \<or> (\<exists>r t rs. key_view (mgr ?s) j = Some (t, rs) \<and> (j, r, t) \<in> carried ?s)"
    proof (cases "j = k")
      case True
      with un unresolved_dput [OF states, of j] have "res = None" by simp
      with True show ?thesis by (auto simp: view car batch)
    next
      case False
      with un unresolved_dput [OF states, of j] have "unresolved ?m j" by simp
      with inv(3) False show ?thesis
        unfolding no_lost_key_def by (auto simp: view car reported_def q)
    qed
  qed
  ultimately show ?thesis by (simp add: lookup_inv_def lookup_invQ_def m')
qed

lemma join_inv:
  assumes "lookup_inv s" and st: "map_of (key_states (mgr s)) k = Some st"
  shows "lookup_inv (s\<lparr>mgr := snd (join_key k r (mgr s))\<rparr>)"
proof -
  let ?m = "mgr s" and ?rs = "set_add r (key_requests st)"
  define m' where "m' = snd (join_key k r ?m)"
  have states: "key_states m' = dput k (st\<lparr>key_requests := ?rs\<rparr>) (key_states ?m)"
    and rk: "req_keys m' = dput r (set_add k (dget (req_keys ?m) r [])) (req_keys ?m)"
    and q: "next_token m' = next_token ?m" "active_tokens m' = active_tokens ?m"
      "lookup_batch m' = lookup_batch ?m" "lookup_queue m' = lookup_queue ?m"
      "pending_results m' = pending_results ?m"
    by (simp_all add: m'_def join_key_def st)
  note inv = lookup_invE [OF assms(1)]
  let ?s = "s\<lparr>mgr := m'\<rparr>"
  have view: "key_view m' = (key_view ?m)(k := Some (key_token st, ?rs))"
    using key_view_dput [OF states] by simp
  have vk: "key_view ?m k = Some (key_token st, key_requests st)" using st by (simp add: key_view_def)
  have car: "carried ?s = carried s" by (simp add: carried_def q)
  have "keys_okQ (wanted m') m'"
  proof -
    have "key_view m' j = Some (t, rs) \<Longrightarrow> t \<in> set (active_tokens m') \<and> rs \<noteq> []
        \<and> (\<forall>q \<in> set rs. j \<in> wanted m' q)" for j t rs
      using inv(1) vk unfolding keys_okQ_def view wanted_dput [OF rk] q
      by (auto simp: set_add_def split: if_splits)
    moreover have "j \<in> wanted m' q \<Longrightarrow> \<exists>t rs. key_view m' j = Some (t, rs) \<and> q \<in> set rs" for q j
      using inv(1) vk unfolding keys_okQ_def view wanted_dput [OF rk]
      by (auto split: if_splits) (metis option.inject prod.inject)+
    moreover have "key_view m' j = Some (t, rs) \<Longrightarrow> key_view m' j' = Some (t, rs') \<Longrightarrow> j = j'" for j j' t rs rs'
      using inv(1) vk unfolding view keys_okQ_def by (auto split: if_splits)
    moreover have "dict_ok (key_states m')" "distinct (active_tokens m')" "\<forall>t \<in> set (active_tokens m'). t < next_token m'"
      using inv(1) by (auto simp: keys_okQ_def states q simp del: map_of_eq_Some_iff)
    ultimately show ?thesis unfolding keys_okQ_def by blast
  qed
  moreover have "item_ok m' i" if "i \<in> carried ?s" for i
    using inv(2) [of i] that vk unfolding item_ok_def view q car by auto
  moreover have "no_lost_key ?s"
    using inv(3) unresolved_dput [OF states] vk st unfolding no_lost_key_def
    by (auto simp: view car reported_def q unresolved_def split: if_splits)
  ultimately show ?thesis by (simp add: lookup_inv_def lookup_invQ_def m'_def)
qed

lemma async_lookup_alt:
  "async_lookup k r m = (let m1 = lookup_prepare m;
      m2 = (if map_of (key_states m1) k = None then create_key k r m1 else m1) in join_key k r m2)"
  by (simp add: async_lookup_def lookup_prepare_def)

lemma async_lookup_inv:
  assumes "lookup_inv s" shows "lookup_inv (s\<lparr>mgr := snd (async_lookup k r (mgr s))\<rparr>)"
proof -
  let ?s = "s\<lparr>mgr := lookup_prepare (mgr s)\<rparr>"
  have "lookup_inv ?s" using assms by (rule lookup_prepare_inv)
  from create_inv [OF this, of k r] join_inv [OF this, of k _ r] show ?thesis
    by (auto simp: async_lookup_alt Let_def)
qed

section \<open>Flushing\<close>

lemma group_items_snoc:
  "group_items (p @ [i]) =
     dput (item_req i) (dget (group_items p) (item_req i) [] @ [i]) (group_items p)"
  by (simp add: group_items_def)

lemma group_items_Nil [simp]: "group_items [] = []"
  by (simp add: group_items_def)

lemma dget_group_items: "dget (group_items p) r [] = filter (\<lambda>i. item_req i = r) p"
  by (induction p rule: rev_induct) (auto simp: group_items_snoc)

lemma dict_ok_group_items: "dict_ok (group_items p)"
  by (induction p rule: rev_induct) (simp_all add: group_items_snoc)

lemma in_group_items:
  "(r, g) \<in> set (group_items p) \<Longrightarrow> g = filter (\<lambda>i. item_req i = r) p"
  using dget_group_items [of p r] dict_ok_group_items [of p] by (simp add: dget_def)

lemma keys_group_items: "fst ` set (group_items p) = item_req ` set p"
proof (induction p rule: rev_induct)
  case (snoc i p)
  then show ?case by (simp add: group_items_snoc dom_map_of_conv_image_fst [symmetric])
      (auto simp: dom_def split: if_splits)
qed (simp add: group_items_def)

lemma set_group_items: "set (concat (map snd (group_items p))) = set p"
proof (rule set_eqI, rule iffI)
  fix i assume "i \<in> set (concat (map snd (group_items p)))"
  then show "i \<in> set p" by (auto dest: in_group_items)
next
  fix i assume i: "i \<in> set p"
  then have "item_req i \<in> fst ` set (group_items p)" by (simp add: keys_group_items)
  then obtain g where g: "(item_req i, g) \<in> set (group_items p)" by auto
  with i in_group_items [OF g] show "i \<in> set (concat (map snd (group_items p)))" by force
qed

lemma flush_begin_inv:
  assumes "lookup_inv s" shows "lookup_inv (lookup_step Flush_begin s)"
proof -
  have "carried (lookup_step Flush_begin s) = carried s"
    using set_group_items [of "lookup_batch (mgr s)"] by (auto simp: carried_def flush_begin_def)
  moreover have "reported (lookup_step Flush_begin s) = reported s"
    by (simp add: reported_def flush_begin_def)
  ultimately show ?thesis using assms
    by (intro lookup_inv_move [OF assms]) (simp_all add: flush_begin_def same_keys_refl)
qed

lemma unresolved_fold_drop:
  "unresolved (fold drop_item is m) j \<longleftrightarrow>
     unresolved m j \<and> \<not> (\<exists>i \<in> set is. fst i = j \<and> item_token i \<in> set (active_tokens m))"
  by (induction "is" arbitrary: m) (auto simp: drop_item_alt unresolved_set_result)

lemma view_active:
  "lookup_inv s \<Longrightarrow> key_view (mgr s) k = Some (t, rs) \<Longrightarrow> t \<in> set (active_tokens (mgr s))"
  using lookup_invE(1) unfolding keys_okQ_def by blast

lemma same_keys_put: "same_keys m (put_batch b m)"
  by (simp add: put_batch_def same_keys_drop same_keys_refl)

lemma flush_turn_inv:
  assumes "lookup_inv s" and "0 < max_keys_per_batch (mgr s)"
  shows "lookup_inv (lookup_step Flush_turn s)"
proof (cases "flushing s")
  case Nil
  then show ?thesis
    by (intro lookup_inv_move [OF assms(1)]) (simp_all add: same_keys_refl carried_def reported_def)
next
  case (Cons it its)
  let ?n = "max_keys_per_batch (mgr s)" and ?s = "lookup_step Flush_turn s"
  have it: "set it = set (take ?n it) \<union> set (drop ?n it)"
    by (metis append_take_drop_id set_append)
  show ?thesis
  proof (cases "it = [] \<or> length (lookup_queue (mgr s)) < max_pending_batches (mgr s)")
    case True
    then have "carried ?s = carried s"
      using it assms(2) by (auto simp: carried_def Cons Let_def put_batch_def)
    moreover have "reported ?s = reported s"
      by (simp add: reported_def Cons Let_def put_batch_def)
    moreover have "same_keys (mgr s) (mgr ?s)"
      by (simp add: Cons Let_def same_keys_put same_keys_refl)
    ultimately show ?thesis by (intro lookup_inv_move [OF assms(1)]) simp_all
  next
    case False
    have s': "mgr ?s = put_batch (take ?n it) (mgr s)" "flushing ?s = its @ [drop ?n it]"
      "taken ?s = taken s" "probing ?s = probing s"
      using False assms(2) by (simp_all add: Cons Let_def)
    have un: "unresolved (mgr ?s) j \<longleftrightarrow> unresolved (mgr s) j \<and>
        \<not> (\<exists>i \<in> set (take ?n it). fst i = j \<and> item_token i \<in> set (active_tokens (mgr s)))" for j
      using False unresolved_fold_drop [of "take ?n it" "mgr s" j]
      unfolding s'(1) put_batch_def by simp
    have full: "lookup_queue (put_batch (take ?n it) (mgr s)) = lookup_queue (mgr s)"
      using False by (simp add: put_batch_def)
    have "carried ?s = set (lookup_batch (mgr s)) \<union> (set (concat its) \<union> set (drop ?n it))
        \<union> set (concat (taken s)) \<union> set (concat (probing s))
        \<union> (\<Union>b \<in> {b. Some b \<in> set (lookup_queue (mgr s))}. set b)"
      unfolding carried_def s' full put_batch_fields by simp
    moreover have "carried s = set (lookup_batch (mgr s)) \<union> (set it \<union> set (concat its))
        \<union> set (concat (taken s)) \<union> set (concat (probing s))
        \<union> (\<Union>b \<in> {b. Some b \<in> set (lookup_queue (mgr s))}. set b)"
      unfolding carried_def Cons by simp
    ultimately have car: "carried s = carried ?s \<union> set (take ?n it)"
      unfolding it by blast
    show ?thesis
    proof (rule lookup_inv_move [OF assms(1)])
      show "same_keys (mgr s) (mgr ?s)" unfolding s'(1) by (rule same_keys_put)
      show "carried ?s \<subseteq> carried s" using car by blast
      show "k \<in> reported ?s" if "k \<in> reported s" for k
        using that unfolding reported_def s'(1) by simp
      fix i rs
      assume "i \<in> carried s" "i \<notin> carried ?s" "unresolved (mgr ?s) (fst i)"
        "key_view (mgr s) (fst i) = Some (item_token i, rs)"
      then show "fst i \<in> reported ?s" using car un view_active [OF assms(1)] by blast
    qed
  qed
qed

section \<open>Releasing keys\<close>

lemma release_key_effect:
  assumes inv: "lookup_invQ Q s" and k: "k \<in> Q r"
  shows "lookup_invQ (Q(r := Q r - {k})) (s\<lparr>mgr := release_key r k (mgr s)\<rparr>)"
proof -
  let ?m = "mgr s" and ?m' = "release_key r k (mgr s)" and ?Q = "Q(r := Q r - {k})"
  let ?s = "s\<lparr>mgr := ?m'\<rparr>"
  have ok: "keys_okQ Q ?m" and items: "\<And>i. i \<in> carried s \<Longrightarrow> item_ok ?m i" and lost: "no_lost_key s"
    using inv by (simp_all add: lookup_invQ_def)
  obtain st where st: "map_of (key_states ?m) k = Some st"
    using ok k unfolding keys_okQ_def key_view_def by (metis (no_types, lifting) map_option_eq_Some)
  let ?ids = "set_discard r (key_requests st)"
  have vk: "key_view ?m k = Some (key_token st, key_requests st)" using st by (simp add: key_view_def)
  have view: "key_view ?m' = (key_view ?m)(k := if ?ids = [] then None else Some (key_token st, ?ids))"
    by (auto simp: release_key_def st Let_def key_view_def fun_eq_iff)
  have act: "active_tokens ?m' = (if ?ids = [] then removeAll (key_token st) (active_tokens ?m)
      else active_tokens ?m)" and nxt: "next_token ?m' = next_token ?m"
    by (simp_all add: release_key_def st Let_def)
  have un: "unresolved ?m' j \<Longrightarrow> unresolved ?m j \<and> (j = k \<longrightarrow> ?ids \<noteq> [])" for j
    using st by (auto simp: release_key_def Let_def unresolved_def split: if_splits)
  have car: "carried ?s = carried s" "reported ?s = reported s"
    by (auto simp: carried_def reported_def release_key_def st Let_def)
  have inj: "key_view ?m j = Some (key_token st, rs) \<Longrightarrow> j = k" for j rs
    using ok vk unfolding keys_okQ_def by blast
  have "keys_okQ ?Q ?m'"
  proof -
    have "t \<in> set (active_tokens ?m') \<and> rs \<noteq> [] \<and> (\<forall>q \<in> set rs. j \<in> ?Q q)"
      if v: "key_view ?m' j = Some (t, rs)" for j t rs
    proof -
      have old: "t \<in> set (active_tokens ?m) \<and> (\<forall>q \<in> set rs'. j \<in> Q q)" "rs' \<noteq> []"
        if "key_view ?m j = Some (t, rs')" for rs'
        using ok that unfolding keys_okQ_def by blast+
      show ?thesis
      proof (cases "j = k")
        case True
        with v have "?ids \<noteq> []" "t = key_token st" "rs = ?ids"
          by (auto simp: view split: if_splits)
        with old [of "key_requests st"] vk True show ?thesis by (auto simp: act)
      next
        case False
        with v have "key_view ?m j = Some (t, rs)" by (simp add: view)
        with old [of rs] inj False show ?thesis by (auto simp: act)
      qed
    qed
    moreover have "\<exists>t rs. key_view ?m' j = Some (t, rs) \<and> q \<in> set rs" if "j \<in> ?Q q" for q j
    proof -
      from that ok obtain t rs where "key_view ?m j = Some (t, rs)" "q \<in> set rs"
        unfolding keys_okQ_def by (metis Diff_iff fun_upd_apply)
      with that vk show ?thesis unfolding view by (auto simp: filter_empty_conv set_discard_def split: if_splits)
    qed
    moreover have "j = j'" if "key_view ?m' j = Some (t, rs)" "key_view ?m' j' = Some (t, rs')" for j j' t rs rs'
      using ok that vk unfolding keys_okQ_def view by (auto split: if_splits)
    moreover have "dict_ok (key_states ?m')" "distinct (active_tokens ?m')"
      "\<forall>t \<in> set (active_tokens ?m'). t < next_token ?m'"
      using ok unfolding keys_okQ_def act nxt
      by (auto simp: release_key_def st Let_def distinct_removeAll simp del: map_of_eq_Some_iff)
    ultimately show ?thesis unfolding keys_okQ_def by blast
  qed
  moreover have "item_ok ?m' i" if "i \<in> carried ?s" for i
    using items [of i] that vk unfolding item_ok_def car view act nxt by auto
  moreover have "no_lost_key ?s" unfolding no_lost_key_def
  proof (intro allI impI)
    fix j assume "unresolved (mgr ?s) j"
    with un [of j] have u: "unresolved ?m j" "j = k \<longrightarrow> ?ids \<noteq> []" by simp_all
    from lost u(1) consider "j \<in> reported s" | q t rs where "key_view ?m j = Some (t, rs)" "(j, q, t) \<in> carried s"
      unfolding no_lost_key_def by blast
    then show "j \<in> reported ?s \<or> (\<exists>r t rs. key_view (mgr ?s) j = Some (t, rs) \<and> (j, r, t) \<in> carried ?s)"
      using u(2) vk by cases (auto simp: car view)
  qed
  ultimately show ?thesis by (simp add: lookup_invQ_def)
qed

lemma release_keys_effect:
  assumes "lookup_invQ Q s" and "set ks \<subseteq> Q r" and "distinct ks"
  shows "lookup_invQ (Q(r := Q r - set ks)) (s\<lparr>mgr := fold (release_key r) ks (mgr s)\<rparr>)"
  using assms
proof (induction ks arbitrary: Q s)
  case (Cons k ks)
  from release_key_effect [of Q s k r] Cons.prems
  have "lookup_invQ (Q(r := Q r - {k})) (s\<lparr>mgr := release_key r k (mgr s)\<rparr>)" by simp
  note step = this
  have sub: "set ks \<subseteq> (Q(r := Q r - {k})) r" "distinct ks" using Cons.prems by auto
  have eq: "(Q(r := Q r - {k}))(r := (Q(r := Q r - {k})) r - set ks) = Q(r := Q r - set (k # ks))"
    by (simp add: Diff_insert2 [of "Q r" k "set ks"])
  have "lookup_invQ ((Q(r := Q r - {k}))(r := (Q(r := Q r - {k})) r - set ks))
      (s\<lparr>mgr := release_key r k (mgr s), mgr := fold (release_key r) ks (mgr (s\<lparr>mgr := release_key r k (mgr s)\<rparr>))\<rparr>)"
    by (rule Cons.IH [OF step sub])
  then show ?case unfolding eq by (simp add: fun_upd_def)
qed simp

lemma cleanup_inv:
  assumes "lookup_inv s" and "distinct (dget (req_keys (mgr s)) r [])"
  shows "lookup_inv (s\<lparr>mgr := async_cleanup r (mgr s)\<rparr>)"
proof -
  let ?m = "mgr s" and ?ks = "dget (req_keys (mgr s)) r []"
  let ?m1 = "?m\<lparr>req_keys := dpop r (req_keys ?m)\<rparr>"
  let ?s1 = "s\<lparr>mgr := ?m1\<rparr>"
  have "lookup_invQ (wanted ?m) ?s1"
    using assms(1) unfolding lookup_inv_def lookup_invQ_def keys_okQ_def item_ok_def no_lost_key_def
    by (simp add: carried_def reported_def)
  from release_keys_effect [OF this _ assms(2), of r]
  have "lookup_invQ ((wanted ?m)(r := {})) (s\<lparr>mgr := async_cleanup r ?m\<rparr>)"
    by (simp add: async_cleanup_def) (simp add: wanted_def)
  moreover have "req_keys (fold (release_key r) ks m) = req_keys m" for ks m
    by (induction ks arbitrary: m) (auto simp: release_key_def Let_def split: option.split)
  then have "wanted (async_cleanup r ?m) = (wanted ?m)(r := {})"
    by (auto simp: wanted_def async_cleanup_def fun_eq_iff)
  ultimately show ?thesis by (simp add: lookup_inv_def)
qed

lemma invalidate_inv:
  assumes "lookup_inv s" shows "lookup_inv (s\<lparr>mgr := async_invalidate ks (mgr s)\<rparr>)"
proof (rule lookup_inv_move [OF assms])
  show "same_keys (mgr s) (mgr (s\<lparr>mgr := async_invalidate ks (mgr s)\<rparr>))"
    by (simp add: async_invalidate_def) (rule same_keys_fold, rule same_keys_set_result)
  have f: "lookup_queue (fold (\<lambda>k. set_result k False) ks m) = lookup_queue m
      \<and> lookup_batch (fold (\<lambda>k. set_result k False) ks m) = lookup_batch m
      \<and> pending_results (fold (\<lambda>k. set_result k False) ks m) = pending_results m" for m
    by (induction ks arbitrary: m) auto
  then show "carried (s\<lparr>mgr := async_invalidate ks (mgr s)\<rparr>) \<subseteq> carried s"
    by (simp add: carried_def async_invalidate_def)
  show "k \<in> reported (s\<lparr>mgr := async_invalidate ks (mgr s)\<rparr>)" if "k \<in> reported s" for k
    using that f by (simp add: reported_def async_invalidate_def)
  show "fst i \<in> reported (s\<lparr>mgr := async_invalidate ks (mgr s)\<rparr>)"
    if "i \<in> carried s" "i \<notin> carried (s\<lparr>mgr := async_invalidate ks (mgr s)\<rparr>)" for i
    using that f by (simp add: carried_def async_invalidate_def)
qed

section \<open>Workers\<close>

lemma set_concat_remove_nth:
  "n < length xs \<Longrightarrow> set (concat xs) = set (xs ! n) \<union> set (concat (remove_nth n xs))"
proof -
  assume "n < length xs"
  then have "xs = take n xs @ xs ! n # drop (Suc n) xs" by (rule id_take_nth_drop)
  then have "set (concat xs) = set (concat (take n xs @ xs ! n # drop (Suc n) xs))" by simp
  then show ?thesis by (auto simp: remove_nth_def)
qed

lemma worker_get_inv:
  assumes "lookup_inv s" shows "lookup_inv (lookup_step Worker_get s)"
proof -
  have car: "carried (lookup_step Worker_get s) = carried s"
    by (auto simp: carried_def split: list.split option.split)
  have rep: "reported (lookup_step Worker_get s) = reported s"
    by (auto simp: reported_def split: list.split option.split)
  have "same_keys (mgr s) (mgr (lookup_step Worker_get s))"
    by (auto simp: same_keys_refl split: list.split option.split)
  then show ?thesis by (intro lookup_inv_move [OF assms]) (simp_all add: car rep del: lookup_step.simps)
qed

lemma set_live_items: "set (live_items m is) = {i \<in> set is. item_token i \<in> set (active_tokens m)}"
  by (auto simp: live_items_def)

lemma worker_filter_inv:
  assumes "lookup_inv s" shows "lookup_inv (lookup_step (Worker_filter n) s)"
proof (cases "n < length (taken s)")
  case True
  let ?s = "lookup_step (Worker_filter n) s"
  let ?b = "taken s ! n" and ?live = "live_items (mgr s) (taken s ! n)"
  note sc = set_concat_remove_nth [OF True]
  have car: "carried ?s \<subseteq> carried s" "\<And>i. i \<in> carried s \<Longrightarrow> i \<notin> carried ?s \<Longrightarrow>
      i \<in> set ?b \<and> i \<notin> set ?live"
  proof -
    show "carried ?s \<subseteq> carried s"
      using True sc by (auto simp: carried_def Let_def set_live_items)
    show "i \<in> set ?b \<and> i \<notin> set ?live" if "i \<in> carried s" "i \<notin> carried ?s" for i
      using that True sc unfolding carried_def by (cases "?live = []") (simp_all add: Let_def, blast+)
  qed
  have "same_keys (mgr s) (mgr ?s)" "reported ?s = reported s"
    using True by (simp_all add: Let_def same_keys_refl reported_def)
  note same = this
  show ?thesis
  proof (rule lookup_inv_move [OF assms same(1) car(1)])
    show "k \<in> reported ?s" if "k \<in> reported s" for k using that same(2) by simp
    show "fst i \<in> reported ?s"
      if "i \<in> carried s" "i \<notin> carried ?s" "key_view (mgr s) (fst i) = Some (item_token i, rs)" for i rs
      using car(2) [OF that(1,2)] view_active [OF assms that(3)] by (simp add: set_live_items)
  qed
qed (use assms in simp)

lemma answered_keys:
  assumes "case hits of None \<Rightarrow> True | Some bs \<Rightarrow> length bs = length is"
    and "i \<in> set is" and "item_token i \<in> set (active_tokens m)"
  shows "fst i \<in> fst ` set (answers m is hits)"
proof -
  let ?bs = "case hits of None \<Rightarrow> map (\<lambda>_. False) is | Some bs \<Rightarrow> bs"
  have "length ?bs = length is" using assms(1) by (auto split: option.splits)
  then obtain b where "(i, b) \<in> set (zip is ?bs)"
    using assms(2) by (metis in_set_impl_in_set_zip1)
  with assms(3) show ?thesis by (force simp: answers_def)
qed

lemma worker_publish_inv:
  assumes "lookup_inv s" and "lookup_guard (Worker_publish n hits) s"
  shows "lookup_inv (lookup_step (Worker_publish n hits) s)"
proof (cases "n < length (probing s)")
  case True
  let ?s = "lookup_step (Worker_publish n hits) s" and ?b = "probing s ! n"
  note sc = set_concat_remove_nth [OF True]
  have rep: "reported ?s = reported s \<union> fst ` set (answers (mgr s) ?b hits)"
    using True by (auto simp: reported_def Let_def)
  have car: "carried ?s \<subseteq> carried s" "\<And>i. i \<in> carried s \<Longrightarrow> i \<notin> carried ?s \<Longrightarrow> i \<in> set ?b"
    using True sc by (auto simp: carried_def Let_def)
  have same: "same_keys (mgr s) (mgr ?s)" using True by (simp add: Let_def same_keys_refl)
  have ans: "case hits of None \<Rightarrow> True | Some bs \<Rightarrow> length bs = length ?b"
    using assms(2) True by (auto split: option.splits)
  show ?thesis
  proof (rule lookup_inv_move [OF assms(1) same car(1)])
    show "k \<in> reported ?s" if "k \<in> reported s" for k using that rep by blast
    show "fst i \<in> reported ?s"
      if "i \<in> carried s" "i \<notin> carried ?s" "key_view (mgr s) (fst i) = Some (item_token i, rs)" for i rs
      using answered_keys [OF ans car(2) [OF that(1,2)] view_active [OF assms(1) that(3)]] rep by blast
  qed
qed (use assms in simp)

section \<open>Bounds\<close>

definition one_request :: "item list \<Rightarrow> bool" where
  "one_request is \<longleftrightarrow> (\<exists>r. \<forall>i \<in> set is. item_req i = r)"

definition batch_ok :: "nat \<Rightarrow> item list \<Rightarrow> bool" where
  "batch_ok n b \<longleftrightarrow> b \<noteq> [] \<and> length b \<le> n \<and> one_request b"

definition lookup_bounds :: "lookup_sys \<Rightarrow> bool" where
  "lookup_bounds s \<longleftrightarrow>
     (let m = mgr s in
       0 < max_keys_per_batch m
     \<and> length (lookup_batch m) \<le> max_keys_per_step m
     \<and> length (lookup_queue m) \<le> max_pending_batches m
     \<and> (\<forall>b. Some b \<in> set (lookup_queue m) \<longrightarrow> batch_ok (max_keys_per_batch m) b)
     \<and> (\<forall>it \<in> set (flushing s). one_request it)
     \<and> (\<forall>b \<in> set (taken s) \<union> set (probing s). batch_ok (max_keys_per_batch m) b)
     \<and> in_flight_batches m = length (taken s) + length (probing s)
     \<and> (\<forall>r. distinct (dget (req_keys m) r [])))"

lemma one_request_take: "one_request is \<Longrightarrow> one_request (take n is)"
  "one_request is \<Longrightarrow> one_request (drop n is)" "one_request is \<Longrightarrow> one_request (filter P is)"
  unfolding one_request_def by (meson in_set_takeD in_set_dropD filter_is_subset subsetD)+

lemma in_remove_nth: "x \<in> set (remove_nth n xs) \<Longrightarrow> x \<in> set xs"
  by (auto simp: remove_nth_def dest: in_set_takeD in_set_dropD)

lemma length_remove_nth: "n < length xs \<Longrightarrow> length (remove_nth n xs) = length xs - 1"
  by (simp add: remove_nth_def)

text \<open>The fields that only the lookup itself and the cleanup change.\<close>

definition quiet_fields where
  "quiet_fields m = (max_keys_per_batch m, max_keys_per_step m, max_pending_batches m,
     lookup_queue m, in_flight_batches m)"

lemma quiet_set_result [simp]: "quiet_fields (set_result k b m) = quiet_fields m"
  by (auto simp: quiet_fields_def set_result_def split: option.split)

lemma quiet_fold: "(\<And>x m. quiet_fields (f x m) = quiet_fields m) \<Longrightarrow> quiet_fields (fold f xs m) = quiet_fields m"
  by (induction xs arbitrary: m) auto

lemma quiet_lookup: "quiet_fields (snd (async_lookup k r m)) = quiet_fields m"
proof -
  have "quiet_fields (drain_results m) = quiet_fields m"
    unfolding drain_results_def
    by (subst quiet_fold) (simp_all add: case_prod_unfold, simp add: quiet_fields_def)
  then have "quiet_fields (lookup_prepare m) = quiet_fields m"
    by (simp add: lookup_prepare_def quiet_fields_def)
  moreover have "quiet_fields (create_key k r m') = quiet_fields m'" for m'
    by (simp add: create_key_def quiet_fields_def Let_def)
  moreover have "quiet_fields (snd (join_key k r m')) = quiet_fields m'" for m'
    by (simp add: join_key_def quiet_fields_def split: option.split)
  ultimately show ?thesis by (simp add: async_lookup_alt Let_def)
qed

lemma quiet_cleanup: "quiet_fields (async_cleanup r m) = quiet_fields m"
  unfolding async_cleanup_def
  by (subst quiet_fold) (auto simp: quiet_fields_def release_key_def Let_def split: option.split)

lemma quiet_invalidate: "quiet_fields (async_invalidate ks m) = quiet_fields m"
  unfolding async_invalidate_def by (rule quiet_fold) simp

lemma quiet_drop: "quiet_fields (fold drop_item is m) = quiet_fields m"
  by (rule quiet_fold) (simp add: drop_item_alt)

lemma batch_lookup_length:
  "length (lookup_batch m) \<le> max_keys_per_step m \<Longrightarrow>
   length (lookup_batch (snd (async_lookup k r m))) \<le> max_keys_per_step m"
proof -
  have "lookup_batch (lookup_prepare m) = lookup_batch m"
    "max_keys_per_step (lookup_prepare m) = max_keys_per_step m"
    by (simp_all add: lookup_prepare_def drain_results_def)
  then show "length (lookup_batch m) \<le> max_keys_per_step m \<Longrightarrow> ?thesis"
    by (auto simp: async_lookup_alt Let_def create_key_def join_key_def split: option.split)
qed

lemma req_keys_lookup:
  "req_keys (snd (async_lookup k r m)) = dput r (set_add k (dget (req_keys m) r [])) (req_keys m)"
proof -
  have "req_keys (fold (\<lambda>(k, b). set_result k b) ps m') = req_keys m'" for ps m'
    by (induction ps arbitrary: m') auto
  then have "req_keys (lookup_prepare m) = req_keys m"
    by (simp add: lookup_prepare_def drain_results_def)
  then show ?thesis by (auto simp: async_lookup_alt Let_def create_key_def join_key_def split: option.split)
qed

lemma other_fields_cleanup:
  "lookup_batch (async_cleanup r m) = lookup_batch m"
  "req_keys (async_cleanup r m) = dpop r (req_keys m)"
  "lookup_batch (async_invalidate ks m) = lookup_batch m"
  "req_keys (async_invalidate ks m) = req_keys m"
proof -
  have "lookup_batch (fold (release_key r) ks m) = lookup_batch m \<and>
      req_keys (fold (release_key r) ks m) = req_keys m" for ks m
    by (induction ks arbitrary: m) (auto simp: release_key_def Let_def split: option.split)
  then show "lookup_batch (async_cleanup r m) = lookup_batch m"
    "req_keys (async_cleanup r m) = dpop r (req_keys m)" by (simp_all add: async_cleanup_def)
  have "lookup_batch (fold (\<lambda>k. set_result k False) ks m) = lookup_batch m \<and>
      req_keys (fold (\<lambda>k. set_result k False) ks m) = req_keys m" for ks m
    by (induction ks arbitrary: m) auto
  then show "lookup_batch (async_invalidate ks m) = lookup_batch m"
    "req_keys (async_invalidate ks m) = req_keys m" by (simp_all add: async_invalidate_def)
qed

lemma lookup_bounds_quiet:
  assumes "lookup_bounds s" and "quiet_fields m = quiet_fields (mgr s)"
    and "length (lookup_batch m) \<le> max_keys_per_step (mgr s)"
    and "\<And>r. distinct (dget (req_keys m) r [])"
  shows "lookup_bounds (s\<lparr>mgr := m\<rparr>)"
  using assms unfolding lookup_bounds_def quiet_fields_def Let_def by simp

lemma lookup_bounds_step: "lookup_bounds s \<Longrightarrow> lookup_bounds (lookup_step e s)"
proof (cases e)
  case (Lookup k r)
  assume s: "lookup_bounds s"
  show ?thesis unfolding Lookup lookup_step.simps
    by (rule lookup_bounds_quiet [OF s])
      (use s in \<open>simp_all add: quiet_lookup batch_lookup_length req_keys_lookup lookup_bounds_def Let_def\<close>)
next
  case (Cleanup r)
  assume s: "lookup_bounds s"
  show ?thesis unfolding Cleanup lookup_step.simps
    by (rule lookup_bounds_quiet [OF s])
      (use s in \<open>simp_all add: quiet_cleanup other_fields_cleanup lookup_bounds_def Let_def\<close>)
next
  case (Invalidate ks)
  assume s: "lookup_bounds s"
  show ?thesis unfolding Invalidate lookup_step.simps
    by (rule lookup_bounds_quiet [OF s])
      (use s in \<open>simp_all add: quiet_invalidate other_fields_cleanup lookup_bounds_def Let_def\<close>)
next
  case Flush_begin
  assume s: "lookup_bounds s"
  have "one_request g" if "g \<in> snd ` set (group_items p)" for g p
    using that in_group_items by (force simp: one_request_def)
  with s Flush_begin show ?thesis by (auto simp: lookup_bounds_def flush_begin_def Let_def)
next
  case Flush_turn
  assume s: "lookup_bounds s"
  show ?thesis
  proof (cases "flushing s")
    case Nil
    with s Flush_turn show ?thesis by (simp add: lookup_bounds_def)
  next
    case (Cons it its)
    let ?n = "max_keys_per_batch (mgr s)"
    have infl: "in_flight_batches (fold drop_item is m) = in_flight_batches m" for "is" m
      using quiet_drop [of "is" m] by (simp add: quiet_fields_def)
    show ?thesis using s one_request_take(1,2) [of it ?n]
      unfolding Flush_turn lookup_bounds_def
      by (auto simp: Let_def Cons put_batch_def batch_ok_def infl)
  qed
next
  case Worker_get
  assume "lookup_bounds s"
  with Worker_get show ?thesis
    by (auto simp: lookup_bounds_def Let_def batch_ok_def split: list.split option.split)
next
  case (Worker_filter n)
  assume s: "lookup_bounds s"
  show ?thesis
  proof (cases "n < length (taken s)")
    case True
    let ?live = "live_items (mgr s) (taken s ! n)"
    from s True have "batch_ok (max_keys_per_batch (mgr s)) (taken s ! n)"
      by (auto simp: lookup_bounds_def Let_def)
    then have "?live \<noteq> [] \<Longrightarrow> batch_ok (max_keys_per_batch (mgr s)) ?live"
      by (auto simp: batch_ok_def live_items_def one_request_take(3) intro: order_trans [OF length_filter_le])
    with s True Worker_filter show ?thesis
      by (auto simp: lookup_bounds_def Let_def length_remove_nth dest: in_remove_nth)
  qed (use s Worker_filter in simp)
next
  case (Worker_publish n hits)
  assume s: "lookup_bounds s"
  show ?thesis
  proof (cases "n < length (probing s)")
    case True
    with s Worker_publish show ?thesis
      by (auto simp: lookup_bounds_def Let_def length_remove_nth dest: in_remove_nth)
  qed (use s Worker_publish in simp)
next
  case Put_sentinel
  assume "lookup_bounds s"
  with Put_sentinel show ?thesis by (auto simp: lookup_bounds_def Let_def)
qed

section \<open>Every run\<close>

definition lookup_ok :: "lookup_sys \<Rightarrow> bool" where
  "lookup_ok s \<longleftrightarrow> lookup_inv s \<and> lookup_bounds s"

lemma lookup_inv_step:
  assumes "lookup_inv s" and "lookup_bounds s" and "lookup_guard e s"
  shows "lookup_inv (lookup_step e s)"
proof (cases e)
  case Put_sentinel
  have "carried (lookup_step e s) = carried s" "reported (lookup_step e s) = reported s"
    "same_keys (mgr s) (mgr (lookup_step e s))"
    by (auto simp: Put_sentinel carried_def reported_def same_keys_refl)
  then show ?thesis by (intro lookup_inv_move [OF assms(1)]) simp_all
next
  case (Cleanup r)
  with assms show ?thesis by (simp add: cleanup_inv lookup_bounds_def Let_def)
next
  case (Worker_publish n hits)
  with assms show ?thesis by (simp only: worker_publish_inv)
next
  case Flush_turn
  have "0 < max_keys_per_batch (mgr s)" using assms(2) by (simp add: lookup_bounds_def Let_def)
  with assms(1) Flush_turn show ?thesis by (simp only: flush_turn_inv)
next
  case Flush_begin
  with assms(1) show ?thesis by (simp only: flush_begin_inv)
next
  case Worker_get
  with assms(1) show ?thesis by (simp only: worker_get_inv)
next
  case (Worker_filter n)
  with assms(1) show ?thesis by (simp only: worker_filter_inv)
qed (use assms(1) in \<open>simp_all add: async_lookup_inv invalidate_inv\<close>)

interpretation lookup_runs: guarded_invariant lookup_step lookup_ok lookup_guard
  by unfold_locales (simp add: lookup_ok_def lookup_inv_step lookup_bounds_step)

definition lookup_start :: "lookup_mgr \<Rightarrow> lookup_sys" where
  "lookup_start m = \<lparr>mgr = m, flushing = [], taken = [], probing = []\<rparr>"

lemma lookup_start_ok: "new_lookup_mgr b st n w = Inr m \<Longrightarrow> lookup_ok (lookup_start m)"
  by (auto simp: lookup_ok_def lookup_start_def new_lookup_mgr_def lookup_inv_def lookup_invQ_def
      keys_okQ_def no_lost_key_def lookup_bounds_def carried_def key_view_def wanted_def
      unresolved_def Let_def split: if_splits)

end
