(* ===== verification/AsyncLookupProps.thy ===== *)
theory AsyncLookupProps
  imports AsyncLookupInv "HOL-Library.Multiset"
begin

text \<open>
  The properties of the asynchronous lookup manager
  (\<open>src/patches/async_lookup.bounded.py\<close>): no unresolved key is lost, the queues are bounded
  and their batches belong to one request, \<open>flush\<close> is a round robin over the requests with
  exact accounting of what did not fit, a cleanup silences the workers for the keys it
  cancels, and one stale answer that it does not silence.
\<close>

section \<open>No key is lost\<close>

definition demo_mgr :: lookup_mgr where
  "demo_mgr = \<lparr>max_keys_per_step = 8, max_keys_per_batch = 1, max_pending_batches = 2,
     dropped_keys = 0, cancelled_keys = 0, key_states = [], req_keys = [], lookup_batch = [],
     lookup_queue = [], pending_results = [], need_to_drain = False, in_flight_batches = 0,
     active_tokens = [], next_token = 0\<rparr>"

lemma demo_mgr_new: "new_lookup_mgr 2 8 1 4 = Inr demo_mgr"
  by (simp add: new_lookup_mgr_def demo_mgr_def)

lemmas lookup_eval = demo_mgr_def lookup_start_def async_lookup_def create_key_def join_key_def
  flush_begin_def group_items_def put_batch_def dget_def set_add_def Let_def live_items_def
  answers_def remove_nth_def drain_results_def set_result_def async_cleanup_def release_key_def
  set_discard_def

text \<open>C6: No lookup is forgotten. Whatever the scheduler and the workers do in whatever order, a
  key that still has no result is waiting in the step's batch, in a running flush, in the
  queue or in a worker's hands under its own cancellation token, or its answer is already in
  the result queue; so a \<open>None\<close> answer (retry) is never final while the workers run.\<close>

theorem no_lookup_lost:
  assumes "new_lookup_mgr b n c w = Inr m"
    and "admissible lookup_guard lookup_step es (lookup_start m)"
    and "s = run lookup_step es (lookup_start m)"
    and "map_of (key_states (mgr s)) k = Some st" and "key_result st = None"
  shows "k \<in> fst ` set (concat (pending_results (mgr s)))
    \<or> (\<exists>r. (k, r, key_token st) \<in> set (lookup_batch (mgr s)) \<union> set (concat (flushing s))
        \<union> set (concat (taken s)) \<union> set (concat (probing s))
        \<union> \<Union> (set ` {b. Some b \<in> set (lookup_queue (mgr s))}))"
proof -
  have "lookup_ok s"
    unfolding assms(3) by (rule lookup_runs.inv_admissible [OF lookup_start_ok [OF assms(1)] assms(2)])
  then have "no_lost_key s" by (simp add: lookup_ok_def lookup_inv_def lookup_invQ_def)
  moreover have "unresolved (mgr s) k" using assms(4,5) by (simp add: unresolved_def)
  moreover have "key_view (mgr s) k = Some (key_token st, key_requests st)"
    using assms(4) by (simp add: key_view_def)
  ultimately have "k \<in> reported s \<or> (\<exists>r. (k, r, key_token st) \<in> carried s)"
    unfolding no_lost_key_def by force
  then show ?thesis unfolding reported_def carried_def .
qed

theorem no_lookup_lost_witness:
  "\<exists>s st. s = run lookup_step [Lookup ''k'' ''r'', Flush_begin, Flush_turn, Worker_get] (lookup_start demo_mgr)
     \<and> map_of (key_states (mgr s)) ''k'' = Some st \<and> key_result st = None
     \<and> (\<exists>r. (''k'', r, key_token st) \<in> set (concat (taken s)))"
proof -
  let ?es = "[Lookup ''k'' ''r'', Flush_begin, Flush_turn, Worker_get]"
  let ?s = "run lookup_step ?es (lookup_start demo_mgr)"
  let ?st = "\<lparr>key_result = None, key_requests = [''r''], key_token = 0\<rparr>"
  have adm: "admissible lookup_guard lookup_step ?es (lookup_start demo_mgr)" by simp
  have st: "map_of (key_states (mgr ?s)) ''k'' = Some ?st" "key_result ?st = None"
    by (simp_all add: lookup_eval)
  have "pending_results (mgr ?s) = []" "lookup_batch (mgr ?s) = []" "concat (flushing ?s) = []"
    "probing ?s = []" "lookup_queue (mgr ?s) = []"
    by (simp_all add: lookup_eval)
  with no_lookup_lost [OF demo_mgr_new adm refl st] st show ?thesis by fastforce
qed

section \<open>Bounds\<close>

lemma limits_step:
  "max_pending_batches (mgr (lookup_step e s)) = max_pending_batches (mgr s)
   \<and> max_keys_per_step (mgr (lookup_step e s)) = max_keys_per_step (mgr s)
   \<and> max_keys_per_batch (mgr (lookup_step e s)) = max_keys_per_batch (mgr s)"
proof (cases e)
  case (Lookup k r)
  then show ?thesis using quiet_lookup [of k r "mgr s"] by (simp add: quiet_fields_def)
next
  case (Cleanup r)
  then show ?thesis using quiet_cleanup [of r "mgr s"] by (simp add: quiet_fields_def)
next
  case (Invalidate ks)
  then show ?thesis using quiet_invalidate [of ks "mgr s"] by (simp add: quiet_fields_def)
next
  case Flush_turn
  then show ?thesis by (cases "flushing s") (simp_all add: Let_def)
qed (auto simp: flush_begin_def Let_def split: list.split option.split)

lemma limits_run:
  "max_pending_batches (mgr (run lookup_step es s)) = max_pending_batches (mgr s)
   \<and> max_keys_per_step (mgr (run lookup_step es s)) = max_keys_per_step (mgr s)
   \<and> max_keys_per_batch (mgr (run lookup_step es s)) = max_keys_per_batch (mgr s)"
  by (induction es arbitrary: s) (simp_all add: limits_step)

text \<open>Remark: Metadata work is bounded in every run: at most \<open>max_pending_batches\<close> items queue, at
  most \<open>max_keys_per_step\<close> keys wait for the next flush, every queued or running batch has
  between one and \<open>max_keys_per_batch\<close> keys of a single request (the worker looks up the
  whole batch on behalf of its first item's request), and the in-flight count is exact.\<close>

theorem lookup_queues_bounded:
  assumes "new_lookup_mgr b n c w = Inr m"
    and "admissible lookup_guard lookup_step es (lookup_start m)"
    and "s = run lookup_step es (lookup_start m)"
  shows "length (lookup_queue (mgr s)) \<le> nat b \<and> pending_keys (mgr s) \<le> nat n
    \<and> in_flight_batches (mgr s) = length (taken s) + length (probing s)
    \<and> (\<forall>batch. Some batch \<in> set (lookup_queue (mgr s)) \<or> batch \<in> set (taken s) \<union> set (probing s) \<longrightarrow>
         0 < length batch \<and> length batch \<le> nat c \<and> (\<exists>r. \<forall>i \<in> set batch. item_req i = r))"
proof -
  have "lookup_ok s"
    unfolding assms(3) by (rule lookup_runs.inv_admissible [OF lookup_start_ok [OF assms(1)] assms(2)])
  then have "lookup_bounds s" by (simp add: lookup_ok_def)
  moreover have "max_pending_batches (mgr s) = nat b \<and> max_keys_per_step (mgr s) = nat n
      \<and> max_keys_per_batch (mgr s) = nat c"
    using assms(1) limits_run [of es "lookup_start m"]
    by (auto simp: assms(3) new_lookup_mgr_def lookup_start_def split: if_splits)
  ultimately show ?thesis
    unfolding lookup_bounds_def batch_ok_def one_request_def pending_keys_def Let_def by auto
qed

theorem lookup_queues_bounded_witness:
  "\<exists>s. s = run lookup_step [Lookup ''k'' ''r'', Lookup ''j'' ''r'', Flush_begin, Flush_turn, Flush_turn]
        (lookup_start demo_mgr)
     \<and> length (lookup_queue (mgr s)) = 2 \<and> length (lookup_queue (mgr s)) \<le> nat 2"
proof -
  let ?es = "[Lookup ''k'' ''r'', Lookup ''j'' ''r'', Flush_begin, Flush_turn, Flush_turn]"
  have adm: "admissible lookup_guard lookup_step ?es (lookup_start demo_mgr)" by simp
  have "length (lookup_queue (mgr (run lookup_step ?es (lookup_start demo_mgr)))) = 2"
    by (simp add: lookup_eval)
  with lookup_queues_bounded [OF demo_mgr_new adm refl] show ?thesis by blast
qed

section \<open>The flush loop\<close>

lemma live_shrinks:
  "0 < n \<Longrightarrow> filter (\<lambda>it. it \<noteq> []) its \<noteq> [] \<Longrightarrow>
   sum_list (map length (map (drop n) (filter (\<lambda>it. it \<noteq> []) its))) < sum_list (map length its)"
proof (induction its)
  case (Cons it its)
  have le: "sum_list (map length (map (drop n) (filter (\<lambda>it. it \<noteq> []) its))) \<le> sum_list (map length its)"
    by (induction its) auto
  show ?case
  proof (cases it)
    case Nil
    with Cons show ?thesis by simp
  next
    case (Cons a as)
    with le \<open>0 < n\<close> show ?thesis by simp
  qed
qed simp

text \<open>The reference: rounds in which every request that has keys left gives one chunk.\<close>

function rounds :: "nat \<Rightarrow> 'a list list \<Rightarrow> 'a list list" where
  "rounds n its =
     (let live = filter (\<lambda>it. it \<noteq> []) its
      in if n = 0 \<or> live = [] then [] else map (take n) live @ rounds n (map (drop n) live))"
  by pat_completeness auto
termination
  by (relation "measure (\<lambda>(n, its). sum_list (map length its))") (use live_shrinks in auto)

declare rounds.simps [simp del]

lemma flush_loop_Nil [simp]: "flush_loop [] m = m"
  by (simp add: flush_loop.simps)

lemma flush_loop_Cons:
  "0 < max_keys_per_batch m \<Longrightarrow> flush_loop (it # its) m =
     (if it = [] then flush_loop its m
      else flush_loop (its @ [drop (max_keys_per_batch m) it])
             (put_batch (take (max_keys_per_batch m) it) m))"
  by (subst flush_loop.simps) (auto simp: Let_def)

text \<open>One round of the loop.\<close>

lemma flush_loop_round:
  assumes "0 < max_keys_per_batch m"
  shows "flush_loop (xs @ ys) m =
    flush_loop (ys @ map (drop (max_keys_per_batch m)) (filter (\<lambda>it. it \<noteq> []) xs))
      (fold put_batch (map (take (max_keys_per_batch m)) (filter (\<lambda>it. it \<noteq> []) xs)) m)"
  using assms
proof (induction xs arbitrary: ys m)
  case (Cons it xs)
  show ?case using Cons.prems Cons.IH [of m ys]
      Cons.IH [of "put_batch (take (max_keys_per_batch m) it) m" "ys @ [drop (max_keys_per_batch m) it]"]
    by (simp add: flush_loop_Cons)
qed simp

lemma flush_loop_rounds:
  "0 < max_keys_per_batch m \<Longrightarrow> flush_loop its m = fold put_batch (rounds (max_keys_per_batch m) its) m"
proof (induction "max_keys_per_batch m" its arbitrary: m rule: rounds.induct)
  case (1 its)
  let ?n = "max_keys_per_batch m" and ?live = "filter (\<lambda>it. it \<noteq> []) its"
  have n: "max_keys_per_batch (fold put_batch bs m) = max_keys_per_batch m" for bs m
    by (induction bs arbitrary: m) simp_all
  from flush_loop_round [OF "1.prems", of its "[]"]
  have round: "flush_loop its m = flush_loop (map (drop ?n) ?live) (fold put_batch (map (take ?n) ?live) m)"
    by simp
  show ?case
  proof (cases "?live = []")
    case True
    with round show ?thesis by (simp add: rounds.simps [of ?n its])
  next
    case False
    have "flush_loop (map (drop ?n) ?live) (fold put_batch (map (take ?n) ?live) m)
        = fold put_batch (rounds ?n (map (drop ?n) ?live)) (fold put_batch (map (take ?n) ?live) m)"
      using "1.hyps" [of ?live "fold put_batch (map (take ?n) ?live) m"] "1.prems" False by (simp add: n)
    with round False "1.prems" show ?thesis by (simp add: rounds.simps [of ?n its] Let_def)
  qed
qed

lemma put_batches:
  "length (lookup_queue m) \<le> max_pending_batches m \<Longrightarrow>
   lookup_queue (fold put_batch bs m) =
     lookup_queue m @ map Some (take (max_pending_batches m - length (lookup_queue m)) bs)
   \<and> dropped_keys (fold put_batch bs m) = dropped_keys m
     + length (concat (drop (max_pending_batches m - length (lookup_queue m)) bs))"
proof (induction bs arbitrary: m)
  case (Cons b bs)
  show ?case
  proof (cases "length (lookup_queue m) < max_pending_batches m")
    case True
    then obtain c where c: "max_pending_batches m - length (lookup_queue m) = Suc c"
      by (metis Suc_diff_Suc)
    with True Cons.IH [of "put_batch b m"] show ?thesis
      by (simp add: put_batch_def Suc_diff_Suc [symmetric])
  next
    case False
    with Cons.prems Cons.IH [of "put_batch b m"] show ?thesis by (simp add: put_batch_def)
  qed
qed simp

lemma mset_rounds: "0 < n \<Longrightarrow> mset (concat (rounds n its)) = mset (concat its)"
proof (induction n its rule: rounds.induct)
  case (1 n its)
  let ?live = "filter (\<lambda>it. it \<noteq> []) its"
  have live: "mset (concat ?live) = mset (concat its)" by (induction its) auto
  have split: "mset (concat (map (take n) xs)) + mset (concat (map (drop n) xs)) = mset (concat xs)" for xs
  proof (induction xs)
    case (Cons x xs)
    have "mset x = mset (take n x) + mset (drop n x)"
      by (metis append_take_drop_id mset_append)
    with Cons show ?case by (simp add: ac_simps)
  qed simp
  show ?case
  proof (cases "?live = []")
    case True
    with live show ?thesis by (simp add: rounds.simps [of n its])
  next
    case False
    with 1 split [of ?live] live show ?thesis by (simp add: rounds.simps [of n its] Let_def)
  qed
qed

lemma mset_group_items: "mset (concat (map snd (group_items p))) = mset p"
proof (induction p rule: rev_induct)
  case (snoc i p)
  have put: "dict_ok d \<Longrightarrow> mset (concat (map snd (dput r (dget d r [] @ [i]) d)))
      = mset (concat (map snd d)) + {#i#}" for r and d :: "(req_id, item list) dict"
  proof (induction d)
    case (Cons x d)
    obtain q g where x: "x = (q, g)" by (cases x)
    show ?case
    proof (cases "q = r")
      case False
      with Cons x show ?thesis by (simp add: dget_def)
    qed (simp add: x dget_def)
  qed simp
  from snoc put [OF dict_ok_group_items] show ?case by (simp add: group_items_snoc)
qed simp

text \<open>C7: \<open>flush\<close> always ends and is a fair round robin: it offers the step's keys in rounds of
  one chunk of at most \<open>max_keys_per_batch\<close> keys per request, requests in order of first
  appearance; the chunks that fit go to the queue in that order, the others are dropped, and
  the drop counter grows by exactly the number of keys dropped. Every key of the step is in
  exactly one chunk.\<close>

theorem flush_round_robin:
  assumes "0 < max_keys_per_batch m" and "length (lookup_queue m) \<le> max_pending_batches m"
    and "its = map snd (group_items (lookup_batch m))" and "chunks = rounds (max_keys_per_batch m) its"
    and "room = max_pending_batches m - length (lookup_queue m)"
  shows "lookup_queue (async_flush m) = lookup_queue m @ map Some (take room chunks)
    \<and> dropped_keys (async_flush m) = dropped_keys m + length (concat (drop room chunks))
    \<and> mset (concat chunks) = mset (lookup_batch m)
    \<and> lookup_batch (async_flush m) = []"
proof -
  let ?m = "m\<lparr>need_to_drain := True, lookup_batch := []\<rparr>"
  have batch: "lookup_batch (fold put_batch bs x) = lookup_batch x" for bs x
    by (induction bs arbitrary: x) simp_all
  have nil: "its = []" "chunks = []" if "lookup_batch m = []"
    using that by (simp_all add: assms(3,4) rounds.simps [of _ "[]"])
  have "async_flush m = fold put_batch chunks ?m"
  proof (cases "lookup_batch m = []")
    case True
    then have "m\<lparr>need_to_drain := True\<rparr> = ?m" by simp
    with True nil show ?thesis by (simp add: async_flush_def)
  next
    case False
    with flush_loop_rounds [of ?m its] assms(1) show ?thesis
      by (simp add: async_flush_def flush_begin_def assms(3,4))
  qed
  moreover have "mset (concat chunks) = mset (lookup_batch m)"
    using mset_rounds [OF assms(1), of its] mset_group_items [of "lookup_batch m"]
    by (simp add: assms(3,4))
  ultimately show ?thesis using put_batches [of ?m chunks] assms(2,5) by (simp add: batch)
qed

theorem flush_round_robin_witness:
  "\<exists>m. lookup_batch m = [(''a'', ''r'', 0), (''b'', ''r'', 1), (''c'', ''q'', 2)]
     \<and> lookup_queue (async_flush m) = [Some [(''a'', ''r'', 0)], Some [(''c'', ''q'', 2)]]
     \<and> dropped_keys (async_flush m) = 1"
proof -
  let ?m = "demo_mgr\<lparr>lookup_batch := [(''a'', ''r'', 0), (''b'', ''r'', 1), (''c'', ''q'', 2)]\<rparr>"
  have pos: "0 < max_keys_per_batch ?m" "length (lookup_queue ?m) \<le> max_pending_batches ?m"
    by (simp_all add: demo_mgr_def)
  have "rounds (max_keys_per_batch ?m) (map snd (group_items (lookup_batch ?m)))
      = [[(''a'', ''r'', 0)], [(''c'', ''q'', 2)], [(''b'', ''r'', 1)]]"
    by (simp add: lookup_eval rounds.simps)
  with flush_round_robin [OF pos refl refl refl] show ?thesis
    by (intro exI [of _ ?m]) (simp add: demo_mgr_def numeral_2_eq_2)
qed

section \<open>Cancellation\<close>

lemma key_states_cleanup_other:
  "map_of (key_states (fold (release_key r) ks m)) k =
     (if k \<in> set ks then map_of (key_states (fold (release_key r) ks m)) k
      else map_of (key_states m) k)"
proof -
  have "k \<notin> set ks \<Longrightarrow> map_of (key_states (fold (release_key r) ks m)) k = map_of (key_states m) k"
    by (induction ks arbitrary: m) (auto simp: release_key_def Let_def split: option.split)
  then show ?thesis by simp
qed

text \<open>Remark: A cleanup cancels exactly what only its request wanted: such a key is forgotten, and no
  batch that is queued, taken or being probed can publish an answer for it any more
  (unless the key is looked up again); keys that another request wants keep their token and
  their result.\<close>

theorem cleanup_cancels:
  assumes "lookup_ok s" and "s' = lookup_step (Cleanup r) s"
    and "map_of (key_states (mgr s)) k = Some st"
  shows "if set (key_requests st) \<subseteq> {r}
    then map_of (key_states (mgr s')) k = None
      \<and> (\<forall>batch hits. set batch \<subseteq> carried s' \<longrightarrow> k \<notin> fst ` set (answers (mgr s') batch hits))
    else \<exists>st'. map_of (key_states (mgr s')) k = Some st' \<and> key_token st' = key_token st
      \<and> set (key_requests st') = set (key_requests st) - {r}"
proof -
  have inv: "lookup_inv s" and dist: "distinct (dget (req_keys (mgr s)) r [])"
    using assms(1) by (simp_all add: lookup_ok_def lookup_bounds_def Let_def)
  have inv': "lookup_inv s'" using cleanup_inv [OF inv dist] by (simp add: assms(2))
  note ok = lookup_invE(1) [OF inv] and ok' = lookup_invE(1) [OF inv']
  have vk: "key_view (mgr s) k = Some (key_token st, key_requests st)"
    using assms(3) by (simp add: key_view_def)
  have rk': "wanted (mgr s') = (wanted (mgr s))(r := {})"
    by (auto simp: assms(2) wanted_def other_fields_cleanup fun_eq_iff)
  have iff: "q \<in> set (key_requests st) \<longleftrightarrow> k \<in> wanted (mgr s) q" for q
  proof -
    have "\<exists>t rs. key_view (mgr s) k = Some (t, rs) \<and> q \<in> set rs" if "k \<in> wanted (mgr s) q"
      using ok that unfolding keys_okQ_def by blast
    moreover have "k \<in> wanted (mgr s) q" if "q \<in> set (key_requests st)"
      using ok vk that unfolding keys_okQ_def by blast
    ultimately show ?thesis using vk by auto
  qed
  show ?thesis
  proof (cases "set (key_requests st) \<subseteq> {r}")
    case True
    have gone: "key_view (mgr s') k = None"
    proof (rule ccontr)
      assume "key_view (mgr s') k \<noteq> None"
      then obtain t rs where v: "key_view (mgr s') k = Some (t, rs)" by auto
      then have "rs \<noteq> []" "\<forall>q \<in> set rs. k \<in> wanted (mgr s') q"
        using ok' unfolding keys_okQ_def by blast+
      then show False using True iff by (cases rs) (auto simp: rk' split: if_splits)
    qed
    have "k \<notin> fst ` set (answers (mgr s') batch hits)" if "set batch \<subseteq> carried s'" for batch hits
    proof
      assume "k \<in> fst ` set (answers (mgr s') batch hits)"
      then obtain i where "i \<in> set batch" "fst i = k" "item_token i \<in> set (active_tokens (mgr s'))"
        by (auto simp: answers_def dest!: set_zip_leftD)
      with lookup_invE(2) [OF inv', of i] that gone show False by (auto simp: item_ok_def)
    qed
    with True gone show ?thesis by (auto simp: key_view_def)
  next
    case False
    then obtain q where q: "q \<in> set (key_requests st)" "q \<noteq> r" by auto
    with iff have "k \<in> wanted (mgr s') q" by (simp add: rk')
    then obtain t rs where v: "key_view (mgr s') k = Some (t, rs)"
      using ok' unfolding keys_okQ_def by blast
    have one: "key_view (release_key r a m) k = Some (t, rs) \<Longrightarrow> \<exists>rs'. key_view m k = Some (t, rs')" for a m rs
      by (auto simp: release_key_def Let_def key_view_def split: option.splits if_splits)
    have token: "key_view (fold (release_key r) ks m) k = Some (t, rs) \<Longrightarrow>
        \<exists>rs'. key_view m k = Some (t, rs')" for ks m
    proof (induction ks arbitrary: m)
      case (Cons a ks)
      then obtain rs' where "key_view (release_key r a m) k = Some (t, rs')" by auto
      then show ?case by (rule one)
    qed simp
    have "t = key_token st"
      using v vk token [of "dget (req_keys (mgr s)) r []" "(mgr s)\<lparr>req_keys := dpop r (req_keys (mgr s))\<rparr>"]
      by (auto simp: assms(2) async_cleanup_def)
    moreover have "p \<in> set rs \<longleftrightarrow> k \<in> wanted (mgr s') p" for p
    proof -
      have "\<exists>t rs. key_view (mgr s') k = Some (t, rs) \<and> p \<in> set rs" if "k \<in> wanted (mgr s') p"
        using ok' that unfolding keys_okQ_def by blast
      moreover have "k \<in> wanted (mgr s') p" if "p \<in> set rs"
        using ok' v that unfolding keys_okQ_def by blast
      ultimately show ?thesis using v by auto
    qed
    then have "set rs = set (key_requests st) - {r}" using iff by (auto simp: rk' split: if_splits)
    ultimately show ?thesis using False v by (auto simp: key_view_def)
  qed
qed

theorem cleanup_cancels_witness:
  "\<exists>s s' st. lookup_ok s \<and> s' = lookup_step (Cleanup ''r'') s
     \<and> map_of (key_states (mgr s)) ''k'' = Some st \<and> key_requests st = [''r'']
     \<and> taken s' = [[(''k'', ''r'', 0)]]
     \<and> map_of (key_states (mgr s')) ''k'' = None
     \<and> ''k'' \<notin> fst ` set (answers (mgr s') [(''k'', ''r'', 0)] (Some [True]))"
proof -
  let ?es = "[Lookup ''k'' ''r'', Flush_begin, Flush_turn, Worker_get]"
  let ?s = "run lookup_step ?es (lookup_start demo_mgr)"
  let ?s' = "lookup_step (Cleanup ''r'') ?s"
  let ?st = "\<lparr>key_result = None, key_requests = [''r''], key_token = 0\<rparr>"
  have ok: "lookup_ok ?s"
    by (rule lookup_runs.inv_admissible [OF lookup_start_ok [OF demo_mgr_new]]) simp
  have st: "map_of (key_states (mgr ?s)) ''k'' = Some ?st"
    by (simp add: lookup_eval)
  have taken: "taken ?s' = [[(''k'', ''r'', 0)]]" by (simp add: lookup_eval)
  then have car: "set [(''k'', ''r'', 0)] \<subseteq> carried ?s'" unfolding carried_def by simp
  from cleanup_cancels [OF ok refl st] car
  have "map_of (key_states (mgr ?s')) ''k'' = None"
    "''k'' \<notin> fst ` set (answers (mgr ?s') [(''k'', ''r'', 0)] (Some [True]))"
    by (simp_all del: lookup_step.simps run_Cons)
  with ok st taken show ?thesis
    by (intro exI [of _ ?s] exI [of _ ?s'] exI [of _ ?st]) (simp only: key_state.select_convs simp_thms)
qed

text \<open>Remark: An answer that a worker published just before the cleanup is not cancelled. If another
  request looks the key up again, the old answer, which is still in the result queue, is
  applied to the new lookup: it reads \<open>True\<close> although its own probe has not run yet (its
  item, with the new token, is still waiting in the queue).\<close>

theorem stale_answer_applied:
  "\<exists>s. s = run lookup_step [Lookup ''k'' ''r'', Flush_begin, Flush_turn, Flush_turn, Lookup ''j'' ''p'',
        Worker_get, Worker_filter 0, Worker_publish 0 (Some [True]), Cleanup ''r'',
        Lookup ''k'' ''q'', Cleanup ''p'', Flush_begin, Flush_turn, Flush_turn] (lookup_start demo_mgr)
     \<and> map_option key_result (map_of (key_states (mgr s)) ''k'') = Some None
     \<and> map_option key_token (map_of (key_states (mgr s)) ''k'') = Some 2
     \<and> Some [(''k'', ''q'', 2)] \<in> set (lookup_queue (mgr s)) \<and> taken s = [] \<and> probing s = []
     \<and> fst (async_lookup ''k'' ''q'' (mgr s)) = Some True"
  by (simp add: lookup_eval)

end
