(* ===== verification/EvictionWorker.thy ===== *)
theory EvictionWorker
  imports ShardPaths
begin

text \<open>
  \<open>evict_shard_atomically\<close> and \<open>ShardEvictionWorker\<close> of
  \<open>src/patches/tiering-fs-bounded-lru.py\<close>. The file system is the list of the directories
  that exist; what the operating system answers to the rename and to the recursive deletion
  is an argument. The worker thread is split at its blocking \<open>get\<close> and at the publication of
  a result. Lemmas: a failed eviction leaves no half-deleted shard behind, and every shard
  submitted is reported exactly once and in order, with an exact count of the outstanding ones.
\<close>

section \<open>Retiring one shard\<close>

definition tombstone_prefix :: string where
  "tombstone_prefix = ''.evicting-''"

definition path_dirname :: "path \<Rightarrow> path" where
  "path_dirname p =
     (let head = take (length p - length (path_basename p)) p
      in if head \<noteq> [] \<and> \<not> list_all (\<lambda>c. c = CHR ''/'') head then rstrip_sep head else head)"

text \<open>What the operating system answers: an \<open>OSError\<close> other than a missing file, or success.\<close>

record os_answers =
  replace_error :: "string option"
  rmtree_error :: "string option"
  uuid_hex :: string

type_synonym dirs = "path list"

text \<open>\<open>shutil.rmtree\<close>: a missing directory raises \<open>FileNotFoundError\<close> (\<open>Inl None\<close>).\<close>

definition rmtree :: "os_answers \<Rightarrow> path \<Rightarrow> dirs \<Rightarrow> (string option + unit) \<times> dirs" where
  "rmtree os p fs =
     (if p \<notin> set fs then (Inl None, fs)
      else (case rmtree_error os of
          Some e \<Rightarrow> (Inl (Some e), fs)
        | None \<Rightarrow> (Inr (), removeAll p fs)))"

definition evict_shard_atomically :: "os_answers \<Rightarrow> shard \<Rightarrow> dirs \<Rightarrow> (string + unit) \<times> dirs" where
  "evict_shard_atomically os s fs =
     (let parent = path_dirname s; name = path_basename s
      in if \<not> shard_name name then (Inl ''Refusing to evict unexpected shard path'', fs)
         else (let tombstone = path_join parent (tombstone_prefix @ name @ ''-'' @ uuid_hex os)
               in case replace_error os of
                    Some e \<Rightarrow> (Inl e, fs)
                  | None \<Rightarrow>
                      if s \<notin> set fs then (Inr (), fs)
                      else (case rmtree os tombstone (tombstone # removeAll s fs) of
                          (Inr u, fs') \<Rightarrow> (Inr u, fs')
                        | (Inl None, fs') \<Rightarrow> (Inl ''FileNotFoundError'', fs')
                        | (Inl (Some e), fs') \<Rightarrow> (Inl e, fs'))))"

text \<open>What the worker does with one item.\<close>

definition retire :: "os_answers \<Rightarrow> shard \<Rightarrow> dirs \<Rightarrow> (string + unit) \<times> dirs" where
  "retire os s fs =
     (if startswith (path_basename s) tombstone_prefix
      then (case rmtree os s fs of
          (Inr u, fs') \<Rightarrow> (Inr u, fs')
        | (Inl None, fs') \<Rightarrow> (Inr (), fs')
        | (Inl (Some e), fs') \<Rightarrow> (Inl e, fs'))
      else evict_shard_atomically os s fs)"

section \<open>The worker\<close>

type_synonym evict_result = "shard \<times> bool \<times> string option"

record eviction_worker =
  pending_evictions :: "shard option list"
  finished_evictions :: "evict_result list"
  outstanding_evictions :: nat
  running_eviction :: "shard option"
  worker_stopped :: bool

definition new_eviction_worker :: eviction_worker where
  "new_eviction_worker = \<lparr>pending_evictions = [], finished_evictions = [],
     outstanding_evictions = 0, running_eviction = None, worker_stopped = False\<rparr>"

definition submit_eviction :: "shard \<Rightarrow> eviction_worker \<Rightarrow> eviction_worker" where
  "submit_eviction s w = w\<lparr>outstanding_evictions := outstanding_evictions w + 1,
     pending_evictions := pending_evictions w @ [Some s]\<rparr>"

definition get_finished_evictions :: "eviction_worker \<Rightarrow> evict_result list \<times> eviction_worker" where
  "get_finished_evictions w =
     (let results = finished_evictions w; w1 = w\<lparr>finished_evictions := []\<rparr>
      in (results, if results \<noteq> []
                   then w1\<lparr>outstanding_evictions := outstanding_evictions w1 - length results\<rparr> else w1))"

definition shutdown_worker :: "eviction_worker \<Rightarrow> eviction_worker" where
  "shutdown_worker w = w\<lparr>pending_evictions := pending_evictions w @ [None]\<rparr>"

text \<open>\<open>_run\<close>: take the next item, then work on it and publish the outcome.\<close>

definition worker_take :: "eviction_worker \<Rightarrow> eviction_worker" where
  "worker_take w =
     (if worker_stopped w \<or> running_eviction w \<noteq> None then w
      else (case pending_evictions w of
          [] \<Rightarrow> w
        | None # q \<Rightarrow> w\<lparr>pending_evictions := q, worker_stopped := True\<rparr>
        | Some s # q \<Rightarrow> w\<lparr>pending_evictions := q, running_eviction := Some s\<rparr>))"

definition worker_finish :: "os_answers \<Rightarrow> eviction_worker \<times> dirs \<Rightarrow> eviction_worker \<times> dirs" where
  "worker_finish os = (\<lambda>(w, fs). case running_eviction w of
       None \<Rightarrow> (w, fs)
     | Some s \<Rightarrow>
         (case retire os s fs of
            (Inl e, fs') \<Rightarrow> (w\<lparr>running_eviction := None,
               finished_evictions := finished_evictions w @ [(s, False, Some e)]\<rparr>, fs')
          | (Inr u, fs') \<Rightarrow> (w\<lparr>running_eviction := None,
               finished_evictions := finished_evictions w @ [(s, True, None)]\<rparr>, fs')))"

section \<open>Runs of the worker\<close>

datatype worker_event = Submit shard | Take | Finish os_answers | Collect | Stop

text \<open>The worker with its directories and the log of what was submitted and what was reported.\<close>

record worker_sys =
  worker :: eviction_worker
  directories :: dirs
  submitted :: "shard list"
  collected :: "evict_result list"

fun worker_step :: "worker_event \<Rightarrow> worker_sys \<Rightarrow> worker_sys" where
  "worker_step (Submit s) x = x\<lparr>worker := submit_eviction s (worker x), submitted := submitted x @ [s]\<rparr>"
| "worker_step Take x = x\<lparr>worker := worker_take (worker x)\<rparr>"
| "worker_step (Finish os) x =
     (let (w, fs) = worker_finish os (worker x, directories x) in x\<lparr>worker := w, directories := fs\<rparr>)"
| "worker_step Collect x =
     (let (res, w) = get_finished_evictions (worker x)
      in x\<lparr>worker := w, collected := collected x @ res\<rparr>)"
| "worker_step Stop x = x\<lparr>worker := shutdown_worker (worker x)\<rparr>"

definition worker_start :: "dirs \<Rightarrow> worker_sys" where
  "worker_start fs = \<lparr>worker = new_eviction_worker, directories = fs, submitted = [], collected = []\<rparr>"

text \<open>The shards that were submitted and not yet reported, oldest first.\<close>

definition in_hand :: "eviction_worker \<Rightarrow> shard list" where
  "in_hand w = map fst (finished_evictions w) @ (case running_eviction w of None \<Rightarrow> [] | Some s \<Rightarrow> [s])
     @ map the (filter (\<lambda>s. s \<noteq> None) (pending_evictions w))"

definition worker_inv :: "worker_sys \<Rightarrow> bool" where
  "worker_inv x \<longleftrightarrow> submitted x = map fst (collected x) @ in_hand (worker x)
     \<and> outstanding_evictions (worker x) = length (in_hand (worker x))"

lemma worker_step_inv: "worker_inv x \<Longrightarrow> worker_inv (worker_step e x)"
proof (cases e)
  case Take
  assume "worker_inv x"
  with Take show ?thesis
    by (auto simp: worker_inv_def in_hand_def worker_take_def split: list.split option.split)
next
  case (Finish os)
  assume "worker_inv x"
  with Finish show ?thesis
    by (auto simp: worker_inv_def in_hand_def worker_finish_def Let_def
        split: option.split prod.split sum.split)
qed (auto simp: worker_inv_def in_hand_def submit_eviction_def get_finished_evictions_def
    shutdown_worker_def Let_def)

interpretation eviction_runs: step_invariant worker_step worker_inv
  by unfold_locales (rule worker_step_inv)

lemma worker_start_inv: "worker_inv (worker_start fs)"
  by (simp add: worker_inv_def worker_start_def in_hand_def new_eviction_worker_def)



text \<open>Remark: A shard leaves the lookup namespace in one step or not at all. Whatever the operating
  system answers: if the rename happens, the shard's directory is gone, even when deleting
  the renamed directory then fails; if it does not, nothing has changed; and no directory
  other than the shard and its tombstone is touched.\<close>

theorem eviction_atomic:
  "let (res, fs') = evict_shard_atomically os s fs;
       tombstone = path_join (path_dirname s) (tombstone_prefix @ path_basename s @ ''-'' @ uuid_hex os)
   in (fs' = fs \<or> s \<notin> set fs' \<or> s = tombstone)
    \<and> (\<forall>d. d \<noteq> s \<and> d \<noteq> tombstone \<longrightarrow> d \<in> set fs' \<longleftrightarrow> d \<in> set fs)
    \<and> (res = Inr () \<longrightarrow> s \<notin> set fs' \<and> (tombstone \<notin> set fs \<longrightarrow> tombstone \<notin> set fs'))
    \<and> (\<not> shard_name (path_basename s) \<longrightarrow> fs' = fs \<and> res \<noteq> Inr ())"
  by (auto simp: evict_shard_atomically_def rmtree_def Let_def split: option.splits sum.splits)

theorem eviction_atomic_witness:
  "evict_shard_atomically \<lparr>replace_error = None, rmtree_error = Some ''EBUSY'', uuid_hex = ''0''\<rparr> ''/k/abc'' [''/k/abc'']
     = (Inl ''EBUSY'', [''/k/.evicting-abc-0'']) \<and> ''/k/abc'' \<notin> set [''/k/.evicting-abc-0'']"
proof -
  have r: "evict_shard_atomically \<lparr>replace_error = None, rmtree_error = Some ''EBUSY'', uuid_hex = ''0''\<rparr> ''/k/abc'' [''/k/abc'']
     = (Inl ''EBUSY'', [''/k/.evicting-abc-0''])"
    by (simp add: evict_shard_atomically_def tombstone_prefix_def path_basename_def shard_name_def
        rmtree_def path_dirname_def path_join_def endswith_def suffix_def rstrip_sep_def)
  with eviction_atomic [of "\<lparr>replace_error = None, rmtree_error = Some ''EBUSY'', uuid_hex = ''0''\<rparr>" "''/k/abc''" "[''/k/abc'']"]
  show ?thesis by (simp add: Let_def)
qed

end
