(* ===== verification/FsManager.thy ===== *)
theory FsManager
  imports ShardLeaseProps EvictionWorker AsyncLookup
begin

text \<open>
  \<open>FileSystemTierManager\<close> of \<open>src/patches/tiering-fs-manager.disk-reserve.py\<close>: the state of
  the tier and its operations, composed from the gate, the shard leases, the eviction worker
  and the lookup manager as the code composes them. The file mapper, the thread pool and the
  operating system are arguments: \<open>file_name\<close> maps a key to its path, \<open>enqueue_ok\<close> says
  whether the pool took the task, and a \<^emph>\<open>tier_env\<close> holds the clock, the free space and what
  the file system says of paths and shards during one call.
\<close>

section \<open>State\<close>

record fs_tier =
  min_free_bytes :: int
  eviction_trigger_bytes :: int
  eviction_target_bytes :: int
  shard_touch_interval :: seconds
  space_check_interval :: seconds
  block_size :: int
  last_space_check :: seconds
  available_bytes :: int
  space_available :: bool
  failed_jobs :: "job_id list"
  reserved_store_bytes :: int
  store_job_reserved_bytes :: "(job_id, int) dict"
  tier_eviction_active :: bool
  last_no_evictable_log :: seconds
  load_failure_delta :: nat
  store_eviction_bypass_delta :: nat
  tier_events :: "okey list list option"
  store_job_keys :: "(job_id, okey list) dict"
  store_job_paths :: "(job_id, path list) dict"
  load_job_paths :: "(job_id, path list) dict"
  load_job_keys :: "(job_id, okey list) dict"
  tier_worker :: "eviction_worker option"
  orphan_tombstones :: "path list"
  tier_leases :: lease_index
  tier_gate :: gate
  tier_gate_locks :: gate_table
  tier_lookups :: lookup_mgr

record tier_env =
  env_now :: seconds
  env_free_bytes :: int
  env_exists :: "path \<Rightarrow> bool"
  env_shard_stat :: "shard \<Rightarrow> (seconds option) option"

datatype tier_error = Gate_os_error | Lease_failure lease_error | Enqueue_failed

datatype lookup_result = RETRY | HIT | MISS

abbreviation tier_pid :: "fs_tier \<Rightarrow> pid" where
  "tier_pid x \<equiv> lease_pid (tier_leases x)"

abbreviation gate_of :: "fs_tier \<Rightarrow> gate \<times> gate_table" where
  "gate_of x \<equiv> (tier_gate x, tier_gate_locks x)"

abbreviation put_tier_gate :: "gate \<times> gate_table \<Rightarrow> fs_tier \<Rightarrow> fs_tier" where
  "put_tier_gate gT x \<equiv> x\<lparr>tier_gate := fst gT, tier_gate_locks := snd gT\<rparr>"

section \<open>Construction\<close>

text \<open>The numbers of the configuration, and the checks of \<open>__init__\<close> in their order.\<close>

record tier_config =
  cfg_min_free_gb :: real
  cfg_space_check_interval :: seconds
  cfg_trigger_gb :: real
  cfg_target_gb :: real
  cfg_touch_interval :: seconds
  cfg_limits :: "int \<times> int \<times> int \<times> int"

datatype config_error = Min_free_negative | Space_interval_negative | Thresholds_negative
  | Target_below_trigger | Min_free_above_trigger | Touch_interval_negative | Limits_not_positive

definition check_tier_config :: "tier_config \<Rightarrow> config_error + unit" where
  "check_tier_config c =
     (if cfg_min_free_gb c < 0 then Inl Min_free_negative
      else if cfg_space_check_interval c < 0 then Inl Space_interval_negative
      else if cfg_trigger_gb c < 0 \<or> cfg_target_gb c < 0 then Inl Thresholds_negative
      else if cfg_trigger_gb c \<noteq> 0 \<and> cfg_target_gb c < cfg_trigger_gb c then Inl Target_below_trigger
      else if cfg_min_free_gb c > cfg_trigger_gb c \<and> cfg_trigger_gb c > 0 then Inl Min_free_above_trigger
      else if cfg_touch_interval c < 0 then Inl Touch_interval_negative
      else (let (batches, step, batch, workers) = cfg_limits c
            in if batches \<le> 0 \<or> step \<le> 0 \<or> batch \<le> 0 \<or> workers \<le> 0 then Inl Limits_not_positive
               else Inr ()))"

definition gib :: "real \<Rightarrow> int" where
  "gib x = \<lfloor>x * 1024 ^ 3\<rfloor>"

definition new_fs_tier ::
  "tier_config \<Rightarrow> int \<Rightarrow> bool \<Rightarrow> roots \<Rightarrow> pid \<Rightarrow> dir_entry list \<Rightarrow> shard_table \<Rightarrow> gate_table \<Rightarrow> lookup_mgr \<Rightarrow> fs_tier" where
  "new_fs_tier c bsize events R p entries T GT lm =
     (let trigger = gib (cfg_trigger_gb c)
      in \<lparr>min_free_bytes = gib (cfg_min_free_gb c), eviction_trigger_bytes = trigger,
        eviction_target_bytes = gib (cfg_target_gb c), shard_touch_interval = cfg_touch_interval c,
        space_check_interval = cfg_space_check_interval c, block_size = bsize,
        last_space_check = 0, available_bytes = 0, space_available = True, failed_jobs = [],
        reserved_store_bytes = 0, store_job_reserved_bytes = [], tier_eviction_active = False,
        last_no_evictable_log = 0, load_failure_delta = 0, store_eviction_bypass_delta = 0,
        tier_events = (if events then Some [] else None), store_job_keys = [], store_job_paths = [],
        load_job_paths = [], load_job_keys = [],
        tier_worker = (if trigger \<noteq> 0 then Some new_eviction_worker else None),
        orphan_tombstones = (if trigger \<noteq> 0
          then map (\<lambda>(name, d, m). path_join (run_root R) name)
                 (filter (\<lambda>(name, d, m). d \<and> startswith name tombstone_prefix) entries)
          else []),
        tier_leases = new_lease_index R p entries T, tier_gate = new_gate, tier_gate_locks = GT,
        tier_lookups = lm\<rparr>)"

section \<open>Requests and lookups\<close>

definition on_new_request :: "req_id \<Rightarrow> fs_tier \<Rightarrow> fs_tier" where
  "on_new_request r x = x\<lparr>tier_leases := open_request r (tier_leases x)\<rparr>"

definition tier_lookup :: "(okey \<Rightarrow> path) \<Rightarrow> tier_env \<Rightarrow> okey \<Rightarrow> req_id \<Rightarrow> fs_tier \<Rightarrow> (lease_error + lookup_result) \<times> fs_tier" where
  "tier_lookup file_name env k r x =
     (let (res, lm) = async_lookup k r (tier_lookups x); x1 = x\<lparr>tier_lookups := lm\<rparr>
      in case res of
           None \<Rightarrow> (Inr RETRY, x1)
         | Some found \<Rightarrow>
             (case resolve_cached_lookup r (file_name k) found (env_now env) (tier_leases x1) of
                (Inl e, l) \<Rightarrow> (Inl e, x1\<lparr>tier_leases := l\<rparr>)
              | (Inr hit, l) \<Rightarrow> (Inr (if hit then HIT else MISS), x1\<lparr>tier_leases := l\<rparr>)))"

definition tier_cancel_lookup :: "req_id \<Rightarrow> bool \<Rightarrow> fs_tier \<Rightarrow> fs_tier" where
  "tier_cancel_lookup r pins x = x\<lparr>tier_lookups := async_cleanup r (tier_lookups x),
     tier_leases := cancel_lookup r pins (tier_leases x)\<rparr>"

definition on_request_finished :: "req_id \<Rightarrow> fs_tier \<Rightarrow> fs_tier" where
  "on_request_finished r x = x\<lparr>tier_lookups := async_cleanup r (tier_lookups x),
     tier_leases := release_request r (tier_leases x)\<rparr>"

section \<open>Free space\<close>

definition get_available_bytes :: "tier_env \<Rightarrow> bool \<Rightarrow> fs_tier \<Rightarrow> int \<times> fs_tier" where
  "get_available_bytes env force x =
     (if \<not> force \<and> last_space_check x \<noteq> 0
         \<and> env_now env - last_space_check x < space_check_interval x
      then (available_bytes x, x)
      else (env_free_bytes env, x\<lparr>available_bytes := env_free_bytes env,
                                 last_space_check := env_now env\<rparr>))"

definition has_store_space :: "tier_env \<Rightarrow> int \<Rightarrow> fs_tier \<Rightarrow> bool \<times> fs_tier" where
  "has_store_space env required x =
     (if min_free_bytes x = 0 then (True, x)
      else (let (available, x1) = get_available_bytes env False x;
                ok = (available - reserved_store_bytes x1 - required \<ge> min_free_bytes x1)
            in (ok, x1\<lparr>space_available := ok\<rparr>)))"

section \<open>Eviction\<close>

definition drain_one :: "tier_env \<Rightarrow> evict_result \<Rightarrow> fs_tier \<Rightarrow> fs_tier" where
  "drain_one env = (\<lambda>(s, success, err) x.
     x\<lparr>tier_leases := finish_eviction s success (env_shard_stat env s) (tier_leases x),
       last_space_check := 0\<rparr>)"

definition drain_evictions :: "tier_env \<Rightarrow> fs_tier \<Rightarrow> fs_tier" where
  "drain_evictions env x =
     (case tier_worker x of
        None \<Rightarrow> x
      | Some w \<Rightarrow> (let (results, w1) = get_finished_evictions w
                   in fold (drain_one env) results (x\<lparr>tier_worker := Some w1\<rparr>)))"

definition submit_to_worker :: "shard \<Rightarrow> fs_tier \<Rightarrow> fs_tier" where
  "submit_to_worker s x = x\<lparr>tier_worker := map_option (submit_eviction s) (tier_worker x)\<rparr>"

text \<open>Taking ownership of the shared eviction, when space is short or tombstones remain.\<close>

definition claim_eviction :: "int \<Rightarrow> fs_tier \<Rightarrow> (tier_error + unit) \<times> fs_tier" where
  "claim_eviction available x =
     (let needs_owner = (orphan_tombstones x \<noteq> [] \<or> available < eviction_trigger_bytes x)
      in if \<not> tier_eviction_active x \<and> needs_owner
         then (case try_begin_eviction (tier_pid x) (gate_of x) of
                 (None, gT) \<Rightarrow> (Inl Gate_os_error, put_tier_gate gT x)
               | (Some True, gT) \<Rightarrow> (Inr (), put_tier_gate gT x\<lparr>tier_eviction_active := True\<rparr>)
               | (Some False, gT) \<Rightarrow> (Inr (), put_tier_gate gT x))
         else (Inr (), x))"

text \<open>One unit of work of the owner: a leftover tombstone, the end of eviction, or a victim.\<close>

definition advance_eviction :: "tier_env \<Rightarrow> int \<Rightarrow> eviction_worker \<Rightarrow> fs_tier \<Rightarrow> (tier_error + unit) \<times> fs_tier" where
  "advance_eviction env available w x =
     (if outstanding_evictions w \<noteq> 0 \<or> evictions_in_flight (tier_leases x) \<noteq> 0 then (Inr (), x)
      else (let x1 = x\<lparr>orphan_tombstones := dropWhile (\<lambda>t. \<not> env_exists env t) (orphan_tombstones x)\<rparr>
            in if orphan_tombstones x1 \<noteq> []
               then (case try_fence_writes (tier_pid x1) (gate_of x1) of
                       (None, gT) \<Rightarrow> (Inl Gate_os_error, put_tier_gate gT x1)
                     | (Some False, gT) \<Rightarrow> (Inr (), put_tier_gate gT x1)
                     | (Some True, gT) \<Rightarrow>
                         (Inr (), submit_to_worker (hd (orphan_tombstones x1))
                            (put_tier_gate gT x1\<lparr>orphan_tombstones := tl (orphan_tombstones x1)\<rparr>)))
               else if available \<ge> eviction_target_bytes x1
               then (Inr (), put_tier_gate (finish_gate_eviction (tier_pid x1) (gate_of x1))
                               (x1\<lparr>tier_eviction_active := False\<rparr>))
               else (case try_fence_writes (tier_pid x1) (gate_of x1) of
                       (None, gT) \<Rightarrow> (Inl Gate_os_error, put_tier_gate gT x1)
                     | (Some False, gT) \<Rightarrow> (Inr (), put_tier_gate gT x1)
                     | (Some True, gT) \<Rightarrow>
                         (let x2 = put_tier_gate gT x1
                          in case begin_oldest_eviction (tier_leases x2) of
                               (None, l) \<Rightarrow>
                                 (Inr (), x2\<lparr>tier_leases := l, last_no_evictable_log :=
                                    (if env_now env - last_no_evictable_log x2 \<ge> 30 then env_now env
                                     else last_no_evictable_log x2)\<rparr>)
                             | (Some s, l) \<Rightarrow>
                                 (Inr (), submit_to_worker s (x2\<lparr>tier_leases := l\<rparr>))))))"

definition maybe_schedule_eviction :: "tier_env \<Rightarrow> fs_tier \<Rightarrow> (tier_error + unit) \<times> fs_tier" where
  "maybe_schedule_eviction env x =
     (case tier_worker x of
        None \<Rightarrow> (Inr (), x)
      | Some w \<Rightarrow>
          (let (available, x1) = get_available_bytes env False x
           in case claim_eviction available x1 of
                (Inl e, x2) \<Rightarrow> (Inl e, x2)
              | (Inr u, x2) \<Rightarrow>
                  if \<not> tier_eviction_active x2 then (Inr (), x2)
                  else advance_eviction env available w x2))"

section \<open>Transfers\<close>

text \<open>The part of \<open>submit_store\<close> up to the pinned job; \<open>False\<close> when the store was refused.\<close>

definition admit_store :: "(okey \<Rightarrow> path) \<Rightarrow> tier_env \<Rightarrow> job_id \<Rightarrow> okey list \<Rightarrow> fs_tier \<Rightarrow> (tier_error + bool) \<times> fs_tier" where
  "admit_store file_name env job keys x =
     (case try_pin_store (tier_pid x) job (gate_of x) of
        (False, gT) \<Rightarrow> (Inr False, put_tier_gate gT x
            \<lparr>store_eviction_bypass_delta := store_eviction_bypass_delta x + 1,
             failed_jobs := failed_jobs x @ [job]\<rparr>)
      | (True, gT) \<Rightarrow>
          (let x1 = put_tier_gate gT x; paths = map file_name keys;
               required = int (length paths) * block_size x1;
               (room, x2) = has_store_space env required x1;
               refuse = (\<lambda>y. put_tier_gate (release_store (tier_pid y) job (gate_of y))
                               (y\<lparr>failed_jobs := failed_jobs y @ [job]\<rparr>))
           in if \<not> room then (Inr False, refuse x2)
              else (case pin_job job paths (tier_leases x2) of
                  (Inl e, l) \<Rightarrow> (Inl (Lease_failure e), x2\<lparr>tier_leases := l\<rparr>)
                | (Inr False, l) \<Rightarrow> (Inr False, refuse (x2\<lparr>tier_leases := l\<rparr>))
                | (Inr True, l) \<Rightarrow>
                    (Inr True, x2\<lparr>tier_leases := l,
                       store_job_paths := dput job paths (store_job_paths x2),
                       store_job_reserved_bytes := dput job required (store_job_reserved_bytes x2),
                       reserved_store_bytes := reserved_store_bytes x2 + required,
                       store_job_keys := (if tier_events x2 \<noteq> None then dput job keys (store_job_keys x2)
                                          else store_job_keys x2)\<rparr>))))"

text \<open>The exception branch of \<open>submit_store\<close>: the pool did not take the task.\<close>

definition undo_store :: "job_id \<Rightarrow> int \<Rightarrow> fs_tier \<Rightarrow> fs_tier" where
  "undo_store job required x =
     (let x1 = x\<lparr>store_job_paths := dpop job (store_job_paths x),
            store_job_reserved_bytes := dpop job (store_job_reserved_bytes x),
            reserved_store_bytes := reserved_store_bytes x - required,
            tier_leases := release_job job (tier_leases x)\<rparr>
      in put_tier_gate (release_store (tier_pid x1) job (gate_of x1)) x1)"

definition submit_store ::
  "(okey \<Rightarrow> path) \<Rightarrow> tier_env \<Rightarrow> bool \<Rightarrow> job_id \<Rightarrow> okey list \<Rightarrow> fs_tier \<Rightarrow> (tier_error + unit) \<times> fs_tier" where
  "submit_store file_name env enqueue_ok job keys x =
     (case maybe_schedule_eviction env (drain_evictions env x) of
        (Inl e, x1) \<Rightarrow> (Inl e, x1)
      | (Inr u, x1) \<Rightarrow>
          (case admit_store file_name env job keys x1 of
             (Inl e, x2) \<Rightarrow> (Inl e, x2)
           | (Inr False, x2) \<Rightarrow> (Inr (), x2)
           | (Inr True, x2) \<Rightarrow>
               if enqueue_ok then (Inr (), x2)
               else (Inl Enqueue_failed, undo_store job (int (length keys) * block_size x2) x2)))"

definition submit_load ::
  "(okey \<Rightarrow> path) \<Rightarrow> bool \<Rightarrow> job_id \<Rightarrow> okey list \<Rightarrow> req_id \<Rightarrow> fs_tier \<Rightarrow> (tier_error + unit) \<times> fs_tier" where
  "submit_load file_name enqueue_ok job keys r x =
     (let paths = map file_name keys
      in case pin_job job paths (tier_leases x) of
           (Inl e, l) \<Rightarrow> (Inl (Lease_failure e), x\<lparr>tier_leases := l\<rparr>)
         | (Inr False, l) \<Rightarrow>
             (Inr (), x\<lparr>tier_leases := release_request_pins r l,
                       tier_lookups := async_invalidate keys (tier_lookups x),
                       load_failure_delta := load_failure_delta x + 1,
                       failed_jobs := failed_jobs x @ [job]\<rparr>)
         | (Inr True, l) \<Rightarrow>
             (let x1 = x\<lparr>tier_leases := release_request_pins r l,
                        load_job_paths := dput job paths (load_job_paths x),
                        load_job_keys := dput job keys (load_job_keys x)\<rparr>
              in if enqueue_ok then (Inr (), x1)
                 else (Inl Enqueue_failed,
                       x1\<lparr>load_job_paths := dpop job (load_job_paths x1),
                          load_job_keys := dpop job (load_job_keys x1),
                          tier_leases := release_job job (tier_leases x1)\<rparr>)))"

text \<open>Taking a finished job off the books.\<close>

definition end_job :: "job_id \<Rightarrow> fs_tier \<Rightarrow> fs_tier" where
  "end_job job x =
     (let x1 = x\<lparr>store_job_paths := dpop job (store_job_paths x),
                load_job_paths := dpop job (load_job_paths x),
                load_job_keys := dpop job (load_job_keys x),
                reserved_store_bytes := reserved_store_bytes x - dget (store_job_reserved_bytes x) job 0,
                store_job_reserved_bytes := dpop job (store_job_reserved_bytes x),
                tier_leases := release_job job (tier_leases x)\<rparr>
      in put_tier_gate (release_store (tier_pid x1) job (gate_of x1)) x1)"

text \<open>One job that the pool reports as finished; \<open>if success and store_paths\<close> also tests that
  the list is not empty.\<close>

definition finish_job :: "tier_env \<Rightarrow> job_id \<times> bool \<Rightarrow> fs_tier \<Rightarrow> (lease_error + unit) \<times> fs_tier" where
  "finish_job env = (\<lambda>(job, success) x.
     let store_paths = dget (store_job_paths x) job [];
         load_paths = dget (load_job_paths x) job [];
         load_keys = dget (load_job_keys x) job [];
         x2 = end_job job x;
         (r1, l1) = (if success \<and> store_paths \<noteq> [] then record_store store_paths (env_now env) (tier_leases x2)
                     else (Inr (), tier_leases x2))
     in case r1 of
          Inl e \<Rightarrow> (Inl e, x2\<lparr>tier_leases := l1\<rparr>)
        | Inr u \<Rightarrow>
            (let (r2, l2) = (if success \<and> load_paths \<noteq> [] then record_access load_paths (env_now env) l1
                             else (Inr (), l1));
                 x3 = x2\<lparr>tier_leases := l2\<rparr>
             in case r2 of
                  Inl e \<Rightarrow> (Inl e, x3)
                | Inr u \<Rightarrow>
                    (let x4 = (if \<not> success \<and> load_keys \<noteq> []
                               then x3\<lparr>tier_lookups := async_invalidate load_keys (tier_lookups x3),
                                      load_failure_delta := load_failure_delta x3 + 1\<rparr>
                               else x3)
                     in (Inr (), case tier_events x4 of
                           None \<Rightarrow> x4
                         | Some evs \<Rightarrow>
                             (let keys = dget (store_job_keys x4) job []
                              in x4\<lparr>store_job_keys := dpop job (store_job_keys x4),
                                    tier_events := Some (if success \<and> keys \<noteq> [] then evs @ [keys] else evs)\<rparr>)))))"

fun finish_jobs :: "tier_env \<Rightarrow> (job_id \<times> bool) list \<Rightarrow> fs_tier \<Rightarrow> (lease_error + (job_id \<times> bool) list) \<times> fs_tier" where
  "finish_jobs env [] x = (Inr [], x)"
| "finish_jobs env (j # js) x =
     (case finish_job env j x of
        (Inl e, x1) \<Rightarrow> (Inl e, x1)
      | (Inr u, x1) \<Rightarrow>
          (case finish_jobs env js x1 of
             (Inl e, x2) \<Rightarrow> (Inl e, x2)
           | (Inr rs, x2) \<Rightarrow> (Inr (j # rs), x2)))"

definition get_finished_jobs :: "tier_env \<Rightarrow> (job_id \<times> bool) list \<Rightarrow> fs_tier \<Rightarrow> (tier_error + (job_id \<times> bool) list) \<times> fs_tier" where
  "get_finished_jobs env pool x =
     (case maybe_schedule_eviction env (drain_evictions env x) of
        (Inl e, x1) \<Rightarrow> (Inl e, x1)
      | (Inr u, x1) \<Rightarrow>
          (let failed = map (\<lambda>j. (j, False)) (failed_jobs x1)
           in case finish_jobs env pool (x1\<lparr>failed_jobs := []\<rparr>) of
                (Inl e, x2) \<Rightarrow> (Inl (Lease_failure e), x2)
              | (Inr rs, x2) \<Rightarrow> (Inr (failed @ rs), x2)))"

section \<open>The rest of the interface\<close>

definition on_schedule_end :: "tier_env \<Rightarrow> fs_tier \<Rightarrow> (tier_error + unit) \<times> fs_tier" where
  "on_schedule_end env x =
     (let x1 = x\<lparr>tier_lookups := async_flush (tier_lookups x),
                tier_leases := snd (flush_touches (shard_touch_interval x) 64 (env_now env) (tier_leases x))\<rparr>
      in maybe_schedule_eviction env (drain_evictions env x1))"

definition take_events :: "fs_tier \<Rightarrow> okey list list \<times> fs_tier" where
  "take_events x = (case tier_events x of None \<Rightarrow> ([], x) | Some evs \<Rightarrow> (evs, x\<lparr>tier_events := Some []\<rparr>))"

definition has_pending_work :: "fs_tier \<Rightarrow> bool" where
  "has_pending_work x = (case tier_worker x of None \<Rightarrow> False | Some w \<Rightarrow> outstanding_evictions w \<noteq> 0)"

text \<open>The counters that one \<open>get_stats\<close> publishes and resets.\<close>

record tier_stats =
  stat_dropped :: nat
  stat_cancelled :: nat
  stat_load_failures :: nat
  stat_bypasses :: nat
  stat_pending_batches :: nat
  stat_pending_keys :: nat
  stat_eviction_active :: bool
  stat_evictions :: nat
  stat_free_bytes :: int

definition tier_get_stats :: "tier_env \<Rightarrow> fs_tier \<Rightarrow> (tier_error + tier_stats) \<times> fs_tier" where
  "tier_get_stats env x =
     (let (dropped, lm1) = take_dropped_keys (tier_lookups x);
          (cancelled, lm2) = take_cancelled_keys lm1;
          x1 = x\<lparr>tier_lookups := lm2, load_failure_delta := 0, store_eviction_bypass_delta := 0\<rparr>
      in case eviction_active (tier_pid x1) (gate_of x1) of
           (None, T) \<Rightarrow> (Inl Gate_os_error, x1\<lparr>tier_gate_locks := T\<rparr>)
         | (Some active, T) \<Rightarrow>
             (let (free, x2) = get_available_bytes env False (x1\<lparr>tier_gate_locks := T\<rparr>)
              in (Inr \<lparr>stat_dropped = dropped, stat_cancelled = cancelled,
                       stat_load_failures = load_failure_delta x,
                       stat_bypasses = store_eviction_bypass_delta x,
                       stat_pending_batches = pending_batches lm2, stat_pending_keys = pending_keys lm2,
                       stat_eviction_active = active,
                       stat_evictions = evictions_in_flight (tier_leases x2),
                       stat_free_bytes = free\<rparr>, x2)))"

end
