(* ===== verification/FsManagerInv.thy ===== *)
theory FsManagerInv
  imports FsManager
begin

text \<open>
  The filesystem tier as a step function of its calls and of what its threads and its siblings
  do, and its invariant: the byte reservation is the sum over the stores in flight, each of
  which holds its gate lease and its shard pins; and the tier owns the shared eviction and has
  the writes of all processes fenced whenever a deletion is queued, running or unreported, of
  which there is at most one.
\<close>

section \<open>What the parts do to the fields the invariant reads\<close>

lemma try_begin_eviction_effect:
  "try_begin_eviction p (g, T) = (r, g', T') \<Longrightarrow>
     (r = Some True \<longrightarrow> owns_eviction g') \<and> (r \<noteq> Some True \<longrightarrow> owns_eviction g' = owns_eviction g)
     \<and> writes_fenced g' = writes_fenced g \<and> store_jobs g' = store_jobs g"
  by (auto simp: try_begin_eviction_def split: if_splits prod.splits option.splits bool.splits)

lemma try_fence_writes_effect:
  "try_fence_writes p (g, T) = (r, g', T') \<Longrightarrow>
     owns_eviction g' = owns_eviction g \<and> (r = Some True \<longrightarrow> owns_eviction g \<and> writes_fenced g')
     \<and> (writes_fenced g' \<longrightarrow> writes_fenced g \<or> owns_eviction g)
     \<and> (writes_fenced g \<longrightarrow> writes_fenced g') \<and> store_jobs g' = store_jobs g"
  by (auto simp: try_fence_writes_def split: if_splits prod.splits option.splits bool.splits)

lemma finish_gate_eviction_effect:
  "\<not> owns_eviction (fst (finish_gate_eviction p (g, T)))"
  "\<not> writes_fenced (fst (finish_gate_eviction p (g, T)))"
  "store_jobs (fst (finish_gate_eviction p (g, T))) = store_jobs g"
  by (simp_all add: finish_gate_eviction_def disown_def unfence_def)

lemma try_pin_store_effect:
  "try_pin_store p j (g, T) = (ok, g', T') \<Longrightarrow>
     owns_eviction g' = owns_eviction g \<and> writes_fenced g' = writes_fenced g
     \<and> set (store_jobs g') = (if ok then insert j (set (store_jobs g)) else set (store_jobs g))
     \<and> (ok \<longrightarrow> \<not> owns_eviction g)"
  by (auto simp: try_pin_store_def lease_store_def Let_def split: if_splits prod.splits)

lemma release_store_effect:
  "owns_eviction (fst (release_store p j (g, T))) = owns_eviction g"
  "writes_fenced (fst (release_store p j (g, T))) = writes_fenced g"
  "set (store_jobs (fst (release_store p j (g, T)))) = set (store_jobs g) - {j}"
proof -
  show "owns_eviction (fst (release_store p j (g, T))) = owns_eviction g"
    "writes_fenced (fst (release_store p j (g, T))) = writes_fenced g"
    by (simp_all add: release_store_def Let_def)
  have "store_jobs (fst (release_store p j (g, T))) = set_discard j (store_jobs g)"
    by (simp add: release_store_def Let_def)
  then show "set (store_jobs (fst (release_store p j (g, T)))) = set (store_jobs g) - {j}" by simp
qed

text \<open>Which lease operations leave the eviction set and the job pins alone.\<close>

definition lease_jobs_view where
  "lease_jobs_view l = (evicting l, job_shards l)"

lemma view_frame: "lease_frame y = lease_frame x \<Longrightarrow> lease_jobs_view y = lease_jobs_view x"
  by (simp add: lease_frame_def lease_jobs_view_def)

lemma lease_view_simps [simp]:
  "lease_jobs_view (snd (acquire_shared s l)) = lease_jobs_view l"
  "lease_jobs_view (release_shared s l) = lease_jobs_view l"
  "lease_jobs_view (fold release_shared ss l) = lease_jobs_view l"
  "lease_jobs_view (release_counts d l) = lease_jobs_view l"
  by (rule view_frame [OF lease_frame_acquire] view_frame [OF lease_frame_release]
      view_frame [OF shard_lease.frame_release_all] view_frame [OF lease_frame_release_counts])+

lemma lease_view_updates [simp]:
  "lease_jobs_view (l\<lparr>last_used := v1\<rparr>) = lease_jobs_view l"
  "lease_jobs_view (l\<lparr>request_shards := v2\<rparr>) = lease_jobs_view l"
  "lease_jobs_view (l\<lparr>pending_lookup_shards := v3\<rparr>) = lease_jobs_view l"
  "lease_jobs_view (l\<lparr>dirty_shards := v5\<rparr>) = lease_jobs_view l"
  "lease_jobs_view (l\<lparr>last_persisted := v6\<rparr>) = lease_jobs_view l"
  "lease_jobs_view (l\<lparr>closed_requests := v7\<rparr>) = lease_jobs_view l"
  "lease_jobs_view (l\<lparr>lookup_cancelled_requests := v8\<rparr>) = lease_jobs_view l"
  "lease_jobs_view (l\<lparr>shard_locks := v9\<rparr>) = lease_jobs_view l"
  by (simp_all add: lease_jobs_view_def)

lemma lease_view_helpers [simp]:
  "lease_jobs_view (add_pending r s l) = lease_jobs_view l"
  "lease_jobs_view (mark_used s now l) = lease_jobs_view l"
  "lease_jobs_view (add_pin r s l) = lease_jobs_view l"
  "lease_jobs_view (open_pins r l) = lease_jobs_view l"
  "lease_jobs_view (drop_pending r l) = lease_jobs_view l"
  "lease_jobs_view (release_request_pins r l) = lease_jobs_view l"
  by (simp_all add: add_pending_def mark_used_def add_pin_def open_pins_def drop_pending_def
      release_request_pins_def Let_def)

lemma lease_view_release_pending [simp]:
  "lease_jobs_view (release_pending_shards r ss l) = lease_jobs_view l"
proof -
  have "lease_jobs_view (snd (release_pending_loop ss d l)) = lease_jobs_view l" for d
    by (induction ss d l rule: release_pending_loop.induct) (auto simp: Let_def)
  then show ?thesis
    by (auto simp: release_pending_shards_def Let_def case_prod_unfold split: option.split)
qed

lemma lease_view_requests [simp]:
  "lease_jobs_view (open_request r l) = lease_jobs_view l"
  "lease_jobs_view (cancel_lookup r b l) = lease_jobs_view l"
  "lease_jobs_view (release_request r l) = lease_jobs_view l"
  "lease_jobs_view (snd (resolve_cached_lookup r p hit now l)) = lease_jobs_view l"
  "lease_jobs_view (snd (flush_touches a n now l)) = lease_jobs_view l"
  by (auto simp: open_request_def cancel_lookup_def release_request_def resolve_cached_lookup_def
      flush_touches_def Let_def case_prod_unfold split: sum.split)

lemma lease_view_records [simp]:
  "lease_jobs_view (snd (record_store ps now l)) = lease_jobs_view l"
  "lease_jobs_view (snd (record_access ps now l)) = lease_jobs_view l"
  by (induction ps arbitrary: l) (auto split: sum.split)

lemma lease_view_lookup_begin [simp]:
  "lease_jobs_view (snd (lookup_begin r ps l)) = lease_jobs_view l"
proof -
  have "lease_jobs_view (fold (add_pending r) ks m) = lease_jobs_view m" for ks m
    by (induction ks arbitrary: m) auto
  moreover have "lease_jobs_view (snd (acquire_eligible ss l)) = lease_jobs_view l" for ss
    using acquire_eligible_effect [of ss l] view_frame by (metis prod.collapse)
  ultimately show ?thesis
    by (auto simp: lookup_begin_def Let_def case_prod_unfold split: sum.split)
qed

lemma lease_view_lookup_pin [simp]:
  "lease_jobs_view (snd (lookup_pin r now ss hs l)) = lease_jobs_view l"
proof -
  have "lease_jobs_view (fold (pin_hit r now) ks m) = lease_jobs_view m" for ks m
    by (induction ks arbitrary: m) (auto simp: pin_hit_def)
  then show ?thesis by (simp add: lookup_pin_def)
qed

lemma release_job_view: "lease_jobs_view (release_job j l) = (evicting l, dpop j (job_shards l))"
  by (simp add: release_job_def) (simp add: lease_jobs_view_def)

lemma pin_job_view:
  assumes "pin_job j ps l = (res, l')"
  shows "lease_jobs_view l' = (if res = Inr True
      then (evicting l, job_shards l') else lease_jobs_view l)"
    and "res = Inr True \<Longrightarrow> \<exists>ss. job_shards l' = dput j ss (job_shards l)"
proof -
  show "lease_jobs_view l' = (if res = Inr True
      then (evicting l, job_shards l') else lease_jobs_view l)"
    using assms by (cases rule: pin_job_cases)
      (auto simp: lease_jobs_view_def dest: frame_fields(6,7))
  show "\<exists>ss. job_shards l' = dput j ss (job_shards l)" if "res = Inr True"
    using assms by (cases rule: pin_job_cases) (use that in auto)
qed

section \<open>The invariant\<close>

definition deletions :: "fs_tier \<Rightarrow> shard list" where
  "deletions x = (case tier_worker x of None \<Rightarrow> [] | Some w \<Rightarrow> in_hand w)"

definition evict_ok :: "fs_tier \<Rightarrow> bool" where
  "evict_ok x \<longleftrightarrow> (tier_eviction_active x \<longleftrightarrow> owns_eviction (tier_gate x))
     \<and> (writes_fenced (tier_gate x) \<longrightarrow> owns_eviction (tier_gate x))
     \<and> (deletions x \<noteq> [] \<longrightarrow> writes_fenced (tier_gate x))
     \<and> length (deletions x) \<le> 1 \<and> set (evicting (tier_leases x)) \<subseteq> set (deletions x)
     \<and> (\<forall>w. tier_worker x = Some w \<longrightarrow> outstanding_evictions w = length (in_hand w))"

definition stores_ok :: "fs_tier \<Rightarrow> bool" where
  "stores_ok x \<longleftrightarrow> dict_ok (store_job_reserved_bytes x)
     \<and> reserved_store_bytes x = sum_list (map snd (store_job_reserved_bytes x))
     \<and> dom (map_of (store_job_paths x)) = dom (map_of (store_job_reserved_bytes x))
     \<and> dom (map_of (store_job_paths x)) \<subseteq> set (store_jobs (tier_gate x))
     \<and> dom (map_of (store_job_paths x)) \<union> dom (map_of (load_job_paths x))
         \<subseteq> dom (map_of (job_shards (tier_leases x)))"

lemma dom_dput [simp]: "dom (map_of (dput k v d)) = insert k (dom (map_of d))"
  by auto

lemma dom_dpop [simp]: "dom (map_of (dpop k d)) = dom (map_of d) - {k}"
  by (auto split: if_splits)

definition tier_inv :: "fs_tier \<Rightarrow> bool" where
  "tier_inv x \<longleftrightarrow> evict_ok x \<and> stores_ok x"

lemma sum_dput: "sum_list (map snd (dput k v d)) = sum_list (map snd d) - dget d k 0 + (v :: int)"
  by (induction d) (auto simp: dget_def)

lemma sum_dpop:
  "dict_ok d \<Longrightarrow> sum_list (map snd (dpop k d)) = sum_list (map snd d) - (dget d k 0 :: int)"
proof (induction d)
  case (Cons p d)
  show ?case
  proof (cases "fst p = k")
    case True
    with Cons.prems have "map_of d k = None" by (cases p) (auto simp: map_of_eq_None_iff)
    with True show ?thesis by (cases p) (simp add: dpop_absent dget_def)
  next
    case False
    with Cons show ?thesis by (cases p) (auto simp: dget_def)
  qed
qed (simp add: dget_def)

text \<open>Steps that the two halves do not see.\<close>

lemma evict_ok_same:
  assumes "evict_ok x" and "tier_eviction_active y = tier_eviction_active x"
    and "owns_eviction (tier_gate y) = owns_eviction (tier_gate x)"
    and "writes_fenced (tier_gate y) = writes_fenced (tier_gate x)"
    and "tier_worker y = tier_worker x" and "evicting (tier_leases y) = evicting (tier_leases x)"
  shows "evict_ok y"
  using assms by (simp add: evict_ok_def deletions_def)

lemma stores_ok_same:
  assumes "stores_ok x" and "store_job_reserved_bytes y = store_job_reserved_bytes x"
    and "reserved_store_bytes y = reserved_store_bytes x" and "store_job_paths y = store_job_paths x"
    and "load_job_paths y = load_job_paths x"
    and "set (store_jobs (tier_gate x)) \<subseteq> set (store_jobs (tier_gate y))"
    and "job_shards (tier_leases y) = job_shards (tier_leases x)"
  shows "stores_ok y"
  using assms(1) subset_trans [OF _ assms(6)] unfolding stores_ok_def assms(2-5,7) by blast

lemma tier_inv_same:
  assumes "tier_inv x" and "tier_eviction_active y = tier_eviction_active x"
    and "tier_gate y = tier_gate x" and "tier_worker y = tier_worker x"
    and "lease_jobs_view (tier_leases y) = lease_jobs_view (tier_leases x)"
    and "store_job_reserved_bytes y = store_job_reserved_bytes x"
    and "reserved_store_bytes y = reserved_store_bytes x" and "store_job_paths y = store_job_paths x"
    and "load_job_paths y = load_job_paths x"
  shows "tier_inv y"
  using assms evict_ok_same [of x y] stores_ok_same [of x y]
  by (simp add: tier_inv_def lease_jobs_view_def)

section \<open>Eviction steps\<close>

lemma finish_eviction_fields [simp]:
  "evicting (finish_eviction s ok st l) = set_discard s (evicting l)"
  "job_shards (finish_eviction s ok st l) = job_shards l"
  by (auto simp: finish_eviction_def Let_def split: option.split)

lemma fold_drain_fields:
  "tier_eviction_active (fold (drain_one env) rs x) = tier_eviction_active x
   \<and> tier_gate (fold (drain_one env) rs x) = tier_gate x
   \<and> tier_worker (fold (drain_one env) rs x) = tier_worker x
   \<and> store_job_reserved_bytes (fold (drain_one env) rs x) = store_job_reserved_bytes x
   \<and> reserved_store_bytes (fold (drain_one env) rs x) = reserved_store_bytes x
   \<and> store_job_paths (fold (drain_one env) rs x) = store_job_paths x
   \<and> load_job_paths (fold (drain_one env) rs x) = load_job_paths x
   \<and> job_shards (tier_leases (fold (drain_one env) rs x)) = job_shards (tier_leases x)
   \<and> set (evicting (tier_leases (fold (drain_one env) rs x))) = set (evicting (tier_leases x)) - fst ` set rs"
  by (induction rs arbitrary: x) (auto simp: drain_one_def case_prod_unfold)

lemma drain_evictions_inv:
  assumes "tier_inv x" shows "tier_inv (drain_evictions env x)"
proof (cases "tier_worker x")
  case None
  with assms show ?thesis by (simp add: drain_evictions_def)
next
  case (Some w)
  let ?rs = "finished_evictions w"
  obtain w1 where gf: "get_finished_evictions w = (?rs, w1)"
    by (simp add: get_finished_evictions_def Let_def)
  define y where "y = fold (drain_one env) ?rs (x\<lparr>tier_worker := Some w1\<rparr>)"
  have y: "drain_evictions env x = y" by (simp add: drain_evictions_def Some gf y_def)
  note f = fold_drain_fields [of env ?rs "x\<lparr>tier_worker := Some w1\<rparr>", folded y_def, simplified]
  have ok: "set (evicting (tier_leases x)) \<subseteq> set (in_hand w)"
    "in_hand w \<noteq> [] \<longrightarrow> writes_fenced (tier_gate x)" "length (in_hand w) \<le> 1"
    "tier_eviction_active x = owns_eviction (tier_gate x)"
    "writes_fenced (tier_gate x) \<longrightarrow> owns_eviction (tier_gate x)"
    "outstanding_evictions w = length (in_hand w)"
    using assms by (simp_all add: tier_inv_def evict_ok_def deletions_def Some)
  have hand: "in_hand w = map fst ?rs @ in_hand w1" "outstanding_evictions w1 = length (in_hand w1)"
    using gf ok(6) by (auto simp: get_finished_evictions_def Let_def in_hand_def split: if_splits)
  have "set (evicting (tier_leases y)) \<subseteq> set (in_hand w1)" using ok(1) f hand(1) by auto
  moreover have "deletions y = in_hand w1" using f by (simp add: deletions_def)
  ultimately have "evict_ok y" using ok f hand unfolding evict_ok_def by simp
  moreover have "stores_ok y"
    by (rule stores_ok_same [of x]) (use f assms in \<open>simp_all add: tier_inv_def\<close>)
  ultimately show ?thesis by (simp add: y tier_inv_def)
qed

lemma get_available_fields:
  assumes "get_available_bytes env b x = (a, y)"
  shows "tier_inv x \<Longrightarrow> tier_inv y" and "tier_worker y = tier_worker x"
    and "tier_eviction_active y = tier_eviction_active x" and "tier_gate y = tier_gate x"
    and "tier_gate_locks y = tier_gate_locks x" and "tier_leases y = tier_leases x"
    and "store_job_paths y = store_job_paths x" and "reserved_store_bytes y = reserved_store_bytes x"
    and "min_free_bytes y = min_free_bytes x" and "failed_jobs y = failed_jobs x"
    and "store_job_reserved_bytes y = store_job_reserved_bytes x" and "available_bytes y = a"
    and "block_size y = block_size x" and "tier_events y = tier_events x"
proof -
  show "tier_inv x \<Longrightarrow> tier_inv y"
    using assms by (auto simp: get_available_bytes_def split: if_splits intro: tier_inv_same)
qed (use assms in \<open>auto simp: get_available_bytes_def split: if_splits\<close>)

lemma claim_eviction_inv:
  assumes "tier_inv x" and "claim_eviction a x = (r, y)"
  shows "tier_inv y" and "tier_worker y = tier_worker x"
proof -
  let ?needs = "\<not> tier_eviction_active x \<and> (orphan_tombstones x \<noteq> [] \<or> a < eviction_trigger_bytes x)"
  obtain q g' T' where t: "try_begin_eviction (tier_pid x) (gate_of x) = (q, g', T')"
    by (metis surj_pair)
  note eff = try_begin_eviction_effect [OF t]
  have y: "y = (if \<not> ?needs then x
      else if q = Some True then x\<lparr>tier_gate := g', tier_gate_locks := T', tier_eviction_active := True\<rparr>
      else x\<lparr>tier_gate := g', tier_gate_locks := T'\<rparr>)"
    using assms(2) t by (auto simp: claim_eviction_def Let_def split: if_splits option.splits bool.splits)
  show "tier_worker y = tier_worker x" by (simp add: y)
  show "tier_inv y" using assms(1) eff stores_ok_same [of x y]
    by (auto simp: y tier_inv_def evict_ok_def deletions_def split: if_splits)
qed

lemma submit_eviction_hand [simp]:
  "in_hand (submit_eviction s w) = in_hand w @ [s]"
  "outstanding_evictions (submit_eviction s w) = outstanding_evictions w + 1"
  by (simp_all add: in_hand_def submit_eviction_def)

lemma begin_oldest_evicting:
  assumes "begin_oldest_eviction l = (r, l')"
  shows "set (evicting l') = (case r of None \<Rightarrow> set (evicting l) | Some s \<Rightarrow> insert s (set (evicting l)))"
    and "job_shards l' = job_shards l"
proof -
  have "lock_first_candidate cs l = (r, l') \<Longrightarrow>
      set (evicting l') = (case r of None \<Rightarrow> set (evicting l) | Some s \<Rightarrow> insert s (set (evicting l)))
      \<and> job_shards l' = job_shards l" for cs
    by (induction cs l rule: lock_first_candidate.induct) (auto split: prod.splits if_splits option.splits)
  with assms show "set (evicting l') = (case r of None \<Rightarrow> set (evicting l) | Some s \<Rightarrow> insert s (set (evicting l)))"
    "job_shards l' = job_shards l" by (auto simp: begin_oldest_eviction_def)
qed

text \<open>Handing a shard to the worker under the fence.\<close>

lemma submit_fenced_inv:
  assumes "tier_inv x" and "tier_worker x = Some w" and "in_hand w = []"
    and "writes_fenced (tier_gate x)"
    and "tier_worker y = Some (submit_eviction s w)" and "tier_gate y = tier_gate x"
    and "tier_eviction_active y = tier_eviction_active x"
    and "job_shards (tier_leases y) = job_shards (tier_leases x)"
    and "set (evicting (tier_leases y)) \<subseteq> insert s (set (evicting (tier_leases x)))"
    and "store_job_reserved_bytes y = store_job_reserved_bytes x"
    and "reserved_store_bytes y = reserved_store_bytes x" and "store_job_paths y = store_job_paths x"
    and "load_job_paths y = load_job_paths x"
  shows "tier_inv y"
  using assms stores_ok_same [of x y] by (auto simp: tier_inv_def evict_ok_def deletions_def)

lemma tier_inv_fence:
  assumes "tier_inv x" and "try_fence_writes p (gate_of x) = (r, g', T')"
  shows "tier_inv (x\<lparr>orphan_tombstones := ts, tier_gate := g', tier_gate_locks := T'\<rparr>)"
  using assms(1) try_fence_writes_effect [OF assms(2)]
    stores_ok_same [of x "x\<lparr>orphan_tombstones := ts, tier_gate := g', tier_gate_locks := T'\<rparr>"]
  by (auto simp: tier_inv_def evict_ok_def deletions_def)

lemma advance_eviction_inv:
  assumes "tier_inv x" and "tier_worker x = Some w" and "tier_eviction_active x"
    and "advance_eviction env a w x = (r, y)"
  shows "tier_inv y"
proof (cases "outstanding_evictions w \<noteq> 0 \<or> evictions_in_flight (tier_leases x) \<noteq> 0")
  case True
  with assms show ?thesis by (simp add: advance_eviction_def)
next
  case False
  let ?ts = "dropWhile (\<lambda>t. \<not> env_exists env t) (orphan_tombstones x)"
  let ?x1 = "x\<lparr>orphan_tombstones := ?ts\<rparr>"
  have hand: "in_hand w = []" using assms(1,2) False by (simp add: tier_inv_def evict_ok_def)
  have x1: "tier_inv ?x1" using assms(1) by (rule tier_inv_same) simp_all
  obtain q g' T' where t: "try_fence_writes (tier_pid ?x1) (gate_of ?x1) = (q, g', T')"
    by (metis surj_pair)
  have fenced: "tier_inv (?x1\<lparr>tier_gate := g', tier_gate_locks := T'\<rparr>)"
    by (rule tier_inv_fence [OF assms(1)]) (use t in simp)
  have wf: "q = Some True \<Longrightarrow> writes_fenced g'" using try_fence_writes_effect [OF t] by simp
  consider (orphan) "?ts \<noteq> []" | (restored) "?ts = []" "a \<ge> eviction_target_bytes ?x1"
    | (evict) "?ts = []" "\<not> a \<ge> eviction_target_bytes ?x1" by blast
  then show ?thesis
  proof cases
    case orphan
    show ?thesis
    proof (cases "q = Some True")
      case True
      have y: "y = submit_to_worker (hd ?ts) (?x1\<lparr>tier_gate := g', tier_gate_locks := T',
          orphan_tombstones := tl ?ts\<rparr>)"
        using assms(4) False orphan t True by (simp add: advance_eviction_def Let_def)
      show ?thesis
        by (rule submit_fenced_inv [OF fenced, of w _ "hd ?ts"])
          (use assms(2) hand wf True in \<open>auto simp: y submit_to_worker_def\<close>)
    next
      case no: False
      have "y = ?x1\<lparr>tier_gate := g', tier_gate_locks := T'\<rparr>"
        using assms(4) False orphan t no
        by (auto simp: advance_eviction_def Let_def split: option.splits bool.splits)
      with fenced show ?thesis by simp
    qed
  next
    case restored
    have y: "y = put_tier_gate (finish_gate_eviction (tier_pid ?x1) (gate_of ?x1)) (?x1\<lparr>tier_eviction_active := False\<rparr>)"
      using assms(4) False restored by (simp add: advance_eviction_def Let_def)
    show ?thesis using x1 hand assms(2) stores_ok_same [of ?x1 y]
      by (simp add: y tier_inv_def evict_ok_def deletions_def finish_gate_eviction_effect)
  next
    case evict
    show ?thesis
    proof (cases "q = Some True")
      case True
      obtain v l where b: "begin_oldest_eviction (tier_leases x) = (v, l)"
        by (cases "begin_oldest_eviction (tier_leases x)")
      note bl = begin_oldest_evicting [OF b]
      let ?x2 = "?x1\<lparr>tier_gate := g', tier_gate_locks := T'\<rparr>"
      have x2: "tier_inv ?x2" using fenced by simp
      show ?thesis
      proof (cases v)
        case None
        have "\<exists>n. y = ?x2\<lparr>tier_leases := l, last_no_evictable_log := n\<rparr>"
          using assms(4) False evict t True b None unfolding advance_eviction_def Let_def by auto
        then obtain n where "y = ?x2\<lparr>tier_leases := l, last_no_evictable_log := n\<rparr>" ..
        with x2 bl None stores_ok_same [of ?x2 y] show ?thesis
          by (simp add: tier_inv_def evict_ok_def deletions_def)
      next
        case (Some s)
        have "y = submit_to_worker s (?x2\<lparr>tier_leases := l\<rparr>)"
          using assms(4) False evict t True b Some by (simp add: advance_eviction_def Let_def)
        then show ?thesis
          by (intro submit_fenced_inv [OF x2, of w y s])
            (use assms(2) hand wf True bl Some in \<open>simp_all add: submit_to_worker_def\<close>)
      qed
    next
      case no: False
      have "y = ?x1\<lparr>tier_gate := g', tier_gate_locks := T'\<rparr>"
        using assms(4) False evict t no
        by (auto simp: advance_eviction_def Let_def split: option.splits bool.splits)
      with fenced show ?thesis by simp
    qed
  qed
qed

lemma maybe_schedule_eviction_inv:
  assumes "tier_inv x" shows "tier_inv (snd (maybe_schedule_eviction env x))"
proof (cases "tier_worker x")
  case None
  with assms show ?thesis by (simp add: maybe_schedule_eviction_def)
next
  case (Some w)
  obtain a x1 where ga: "get_available_bytes env False x = (a, x1)"
    by (cases "get_available_bytes env False x")
  obtain r x2 where ce: "claim_eviction a x1 = (r, x2)" by (cases "claim_eviction a x1")
  have x1: "tier_inv x1" "tier_worker x1 = Some w" using get_available_fields [OF ga] assms Some by simp_all
  note x2 = claim_eviction_inv [OF x1(1) ce]
  show ?thesis
  proof (cases "r = Inr () \<and> tier_eviction_active x2")
    case True
    obtain r' y where ad: "advance_eviction env a w x2 = (r', y)" by (cases "advance_eviction env a w x2")
    have "tier_inv y" using advance_eviction_inv [OF x2(1) _ _ ad] x1(2) x2(2) True by simp
    with True Some ga ce ad show ?thesis by (simp add: maybe_schedule_eviction_def)
  next
    case False
    with Some ga ce x2(1) show ?thesis
      by (auto simp: maybe_schedule_eviction_def split: sum.split)
  qed
qed

end
