(* ===== verification/FsManagerProps.thy ===== *)
theory FsManagerProps
  imports FsManagerInv
begin

text \<open>
  The transfers of the filesystem tier keep its invariant; runs of the tier; and the
  properties: the reservation ledger, the fence around deletions, the disk reserve, refused
  stores, failed loads and hits (\<open>src/patches/tiering-fs-manager.disk-reserve.py\<close>).
\<close>

section \<open>Stores\<close>

lemma has_store_space_fields:
  assumes "has_store_space env n x = (ok, y)"
  shows "tier_inv x \<Longrightarrow> tier_inv y" and "tier_gate y = tier_gate x"
    and "tier_gate_locks y = tier_gate_locks x" and "tier_leases y = tier_leases x"
    and "store_job_paths y = store_job_paths x" and "reserved_store_bytes y = reserved_store_bytes x"
    and "min_free_bytes y = min_free_bytes x" and "failed_jobs y = failed_jobs x"
    and "store_job_reserved_bytes y = store_job_reserved_bytes x"
    and "block_size y = block_size x" and "tier_events y = tier_events x"
    and "ok \<Longrightarrow> min_free_bytes x \<noteq> 0 \<Longrightarrow> available_bytes y - reserved_store_bytes y - n \<ge> min_free_bytes y"
proof -
  obtain a z where g: "get_available_bytes env False x = (a, z)"
    by (cases "get_available_bytes env False x")
  have y: "y = x \<and> ok \<and> min_free_bytes x = 0 \<or> min_free_bytes x \<noteq> 0 \<and> y = z\<lparr>space_available := ok\<rparr>
      \<and> ok = (a - reserved_store_bytes z - n \<ge> min_free_bytes z)"
    using assms g by (auto simp: has_store_space_def Let_def split: if_splits)
  note f = get_available_fields [OF g]
  have "tier_inv z \<Longrightarrow> tier_inv (z\<lparr>space_available := ok\<rparr>)" by (rule tier_inv_same) simp_all
  with y f show "tier_inv x \<Longrightarrow> tier_inv y" by auto
  show "tier_gate y = tier_gate x" "tier_gate_locks y = tier_gate_locks x" "tier_leases y = tier_leases x"
    "store_job_paths y = store_job_paths x" "reserved_store_bytes y = reserved_store_bytes x"
    "min_free_bytes y = min_free_bytes x" "failed_jobs y = failed_jobs x"
    "store_job_reserved_bytes y = store_job_reserved_bytes x"
    "block_size y = block_size x" "tier_events y = tier_events x"
    using y f by auto
  show "available_bytes y - reserved_store_bytes y - n \<ge> min_free_bytes y" if "ok" "min_free_bytes x \<noteq> 0"
    using y f that by auto
qed

text \<open>The ways in which a store is refused or admitted.\<close>

lemma admit_store_cases:
  assumes "admit_store f env job keys x = (res, y)"
  obtains (fenced) g T where "try_pin_store (tier_pid x) job (gate_of x) = (False, g, T)" "res = Inr False"
      "y = x\<lparr>tier_gate := g, tier_gate_locks := T,
             store_eviction_bypass_delta := store_eviction_bypass_delta x + 1,
             failed_jobs := failed_jobs x @ [job]\<rparr>"
  | (refused) g T z l where "try_pin_store (tier_pid x) job (gate_of x) = (True, g, T)" "res = Inr False"
      "\<exists>ok. has_store_space env (int (length keys) * block_size x) (x\<lparr>tier_gate := g, tier_gate_locks := T\<rparr>) = (ok, z)"
      "l = tier_leases x \<or> pin_job job (map f keys) (tier_leases x) = (Inr False, l)"
      "y = put_tier_gate (release_store (lease_pid l) job (g, T))
             (z\<lparr>tier_leases := l, failed_jobs := failed_jobs x @ [job]\<rparr>)"
  | (bad_path) g T z l e where "try_pin_store (tier_pid x) job (gate_of x) = (True, g, T)" "res = Inl (Lease_failure e)"
      "has_store_space env (int (length keys) * block_size x) (x\<lparr>tier_gate := g, tier_gate_locks := T\<rparr>) = (True, z)"
      "pin_job job (map f keys) (tier_leases x) = (Inl e, l)" "y = z\<lparr>tier_leases := l\<rparr>"
  | (admitted) g T z l where "try_pin_store (tier_pid x) job (gate_of x) = (True, g, T)" "res = Inr True"
      "has_store_space env (int (length keys) * block_size x) (x\<lparr>tier_gate := g, tier_gate_locks := T\<rparr>) = (True, z)"
      "pin_job job (map f keys) (tier_leases x) = (Inr True, l)"
      "y = z\<lparr>tier_leases := l, store_job_paths := dput job (map f keys) (store_job_paths z),
             store_job_reserved_bytes := dput job (int (length keys) * block_size x) (store_job_reserved_bytes z),
             reserved_store_bytes := reserved_store_bytes z + int (length keys) * block_size x,
             store_job_keys := (if tier_events z \<noteq> None then dput job keys (store_job_keys z)
                                else store_job_keys z)\<rparr>"
proof -
  obtain ok g T where pin: "try_pin_store (tier_pid x) job (gate_of x) = (ok, g, T)"
    by (metis surj_pair)
  let ?x1 = "x\<lparr>tier_gate := g, tier_gate_locks := T\<rparr>" and ?n = "int (length keys) * block_size x"
  obtain room z where room: "has_store_space env ?n ?x1 = (room, z)"
    by (cases "has_store_space env ?n ?x1")
  note zf = has_store_space_fields [OF room]
  obtain r l where pj: "pin_job job (map f keys) (tier_leases x) = (r, l)"
    by (cases "pin_job job (map f keys) (tier_leases x)")
  note unf = assms [unfolded admit_store_def pin Let_def, simplified]
  show thesis
  proof (cases ok)
    case False
    with pin unf show thesis by (intro fenced) auto
  next
    case ok: True
    show thesis
    proof (cases room)
      case False
      have "z\<lparr>tier_leases := tier_leases x, failed_jobs := failed_jobs x @ [job]\<rparr>
          = z\<lparr>failed_jobs := failed_jobs x @ [job]\<rparr>" using zf(4) by simp
      with ok pin unf room False zf show thesis
        by (intro refused [where g = g and T = T and z = z and l = "tier_leases x"]) auto
    next
      case True
      show thesis
      proof (cases r)
        case (Inl e)
        with ok pin unf room True zf pj show thesis
          by (intro bad_path [where g = g and T = T and z = z and l = l and e = e]) auto
      next
        case (Inr b)
        show thesis
        proof (cases b)
          case False
          with ok pin unf room True zf pj Inr show thesis
            by (intro refused [where g = g and T = T and z = z and l = l]) auto
        next
          case b: True
          with ok pin unf room True zf pj Inr show thesis
            by (intro admitted [where g = g and T = T and z = z and l = l]) auto
        qed
      qed
    qed
  qed
qed

lemma tier_invE:
  assumes "tier_inv x"
  shows "evict_ok x" and "stores_ok x"
  using assms by (simp_all add: tier_inv_def)

lemma stores_okD:
  assumes "stores_ok x"
  shows "dict_ok (store_job_reserved_bytes x)"
    and "reserved_store_bytes x = sum_list (map snd (store_job_reserved_bytes x))"
    and "dom (map_of (store_job_paths x)) = dom (map_of (store_job_reserved_bytes x))"
    and "dom (map_of (store_job_paths x)) \<subseteq> set (store_jobs (tier_gate x))"
    and "dom (map_of (store_job_paths x)) \<subseteq> dom (map_of (job_shards (tier_leases x)))"
    and "dom (map_of (load_job_paths x)) \<subseteq> dom (map_of (job_shards (tier_leases x)))"
  using assms unfolding stores_ok_def by blast+

lemma stores_okI:
  assumes "dict_ok (store_job_reserved_bytes x)"
    and "reserved_store_bytes x = sum_list (map snd (store_job_reserved_bytes x))"
    and "dom (map_of (store_job_paths x)) = dom (map_of (store_job_reserved_bytes x))"
    and "dom (map_of (store_job_paths x)) \<subseteq> set (store_jobs (tier_gate x))"
    and "dom (map_of (store_job_paths x)) \<subseteq> dom (map_of (job_shards (tier_leases x)))"
    and "dom (map_of (load_job_paths x)) \<subseteq> dom (map_of (job_shards (tier_leases x)))"
  shows "stores_ok x"
  using assms unfolding stores_ok_def by blast

text \<open>Taking and giving back the gate lease of a job that is not in flight.\<close>

lemma tier_inv_gate:
  assumes "tier_inv x" and "owns_eviction g = owns_eviction (tier_gate x)"
    and "writes_fenced g = writes_fenced (tier_gate x)"
    and "dom (map_of (store_job_paths x)) \<subseteq> set (store_jobs g)"
  shows "tier_inv (x\<lparr>tier_gate := g, tier_gate_locks := T\<rparr>)"
proof -
  have "evict_ok (x\<lparr>tier_gate := g, tier_gate_locks := T\<rparr>)"
    by (rule evict_ok_same [of x]) (use assms tier_invE(1) in simp_all)
  moreover have "stores_ok (x\<lparr>tier_gate := g, tier_gate_locks := T\<rparr>)"
    by (rule stores_okI) (use stores_okD [OF tier_invE(2) [OF assms(1)]] assms(4) in simp_all)
  ultimately show ?thesis by (simp add: tier_inv_def)
qed

lemma stores_dom: "tier_inv x \<Longrightarrow> dom (map_of (store_job_paths x)) \<subseteq> set (store_jobs (tier_gate x))"
  by (rule stores_okD(4) [OF tier_invE(2)])

lemma pin_job_refused_view:
  "pin_job j ps l = (r, l') \<Longrightarrow> r \<noteq> Inr True \<Longrightarrow> lease_jobs_view l' = lease_jobs_view l"
  using pin_job_view(1) [of j ps l r l'] by simp

lemma admit_store_inv:
  assumes "tier_inv x" and fresh: "map_of (store_job_paths x) job = None"
    and "admit_store f env job keys x = (res, y)"
  shows "tier_inv y"
  using assms(3)
proof (cases rule: admit_store_cases)
  case (fenced g T)
  have "tier_inv (x\<lparr>tier_gate := g, tier_gate_locks := T\<rparr>)"
    using try_pin_store_effect [OF fenced(1)] stores_dom [OF assms(1)]
    by (intro tier_inv_gate [OF assms(1)]) auto
  then show ?thesis unfolding fenced(3) by (rule tier_inv_same) simp_all
next
  case (refused g T z l)
  note pin = try_pin_store_effect [OF refused(1)]
  have x1: "tier_inv (x\<lparr>tier_gate := g, tier_gate_locks := T\<rparr>)"
    using pin stores_dom [OF assms(1)] by (intro tier_inv_gate [OF assms(1)]) auto
  from refused(3) obtain ok where sp: "has_store_space env (int (length keys) * block_size x)
      (x\<lparr>tier_gate := g, tier_gate_locks := T\<rparr>) = (ok, z)" by blast
  note zf = has_store_space_fields [OF sp]
  have "lease_jobs_view l = lease_jobs_view (tier_leases x)"
    using refused(4) pin_job_refused_view [of job "map f keys" "tier_leases x"] by auto
  then have "lease_jobs_view l = lease_jobs_view (tier_leases z)" using zf(4) by simp
  then have "tier_inv (z\<lparr>tier_leases := l, failed_jobs := failed_jobs x @ [job]\<rparr>)"
    by (intro tier_inv_same [OF zf(1) [OF x1]]) simp_all
  moreover have "dom (map_of (store_job_paths x)) \<subseteq> set (store_jobs g) - {job}"
    using pin stores_dom [OF assms(1)] fresh by auto
  ultimately show ?thesis unfolding refused(5) using zf pin
    by (intro tier_inv_gate) (simp_all add: release_store_effect)
next
  case (bad_path g T z l e)
  note pin = try_pin_store_effect [OF bad_path(1)]
  have x1: "tier_inv (x\<lparr>tier_gate := g, tier_gate_locks := T\<rparr>)"
    using pin stores_dom [OF assms(1)] by (intro tier_inv_gate [OF assms(1)]) auto
  note zf = has_store_space_fields [OF bad_path(3)]
  show ?thesis unfolding bad_path(5)
    using zf(4) pin_job_refused_view [OF bad_path(4)]
    by (intro tier_inv_same [OF zf(1) [OF x1]]) simp_all
next
  case (admitted g T z l)
  note pin = try_pin_store_effect [OF admitted(1)]
  have x1: "tier_inv (x\<lparr>tier_gate := g, tier_gate_locks := T\<rparr>)"
    using pin stores_dom [OF assms(1)] by (intro tier_inv_gate [OF assms(1)]) auto
  note zf = has_store_space_fields [OF admitted(3)]
  have z: "evict_ok z" "stores_ok z" using zf(1) [OF x1] by (simp_all add: tier_inv_def)
  note view = pin_job_view [OF admitted(4), simplified]
  from view(2) obtain ss where js: "job_shards l = dput job ss (job_shards (tier_leases x))" ..
  have "map_of (store_job_paths z) job = None" using fresh zf by simp
  then have "map_of (store_job_reserved_bytes z) job = None"
    using stores_okD(3) [OF z(2)] by (metis domIff)
  then have res: "dget (store_job_reserved_bytes z) job 0 = 0" by (simp add: dget_def)
  have "evict_ok y" unfolding admitted(5)
    by (rule evict_ok_same [OF z(1)]) (use view(1) zf(4) in \<open>simp_all add: lease_jobs_view_def\<close>)
  moreover have "stores_ok y"
    by (rule stores_okI)
      (use stores_okD [OF z(2)] pin zf res in \<open>auto simp: admitted(5) sum_dput js\<close>)
  ultimately show ?thesis by (simp add: tier_inv_def)
qed

text \<open>Ending a job: by the pool, or because it was never enqueued.\<close>

lemma end_job_inv:
  assumes "tier_inv x"
    and "store_job_paths y = dpop job (store_job_paths x)"
    and "load_job_paths y = dpop job (load_job_paths x)"
    and "store_job_reserved_bytes y = dpop job (store_job_reserved_bytes x)"
    and "reserved_store_bytes y = reserved_store_bytes x - dget (store_job_reserved_bytes x) job 0"
    and "lease_jobs_view (tier_leases y) = (evicting (tier_leases x), dpop job (job_shards (tier_leases x)))"
    and "tier_gate y = fst (release_store p job (tier_gate x, T))"
    and "tier_eviction_active y = tier_eviction_active x" and "tier_worker y = tier_worker x"
  shows "tier_inv y"
proof -
  have "evict_ok y"
    by (rule evict_ok_same [OF tier_invE(1) [OF assms(1)]])
      (use assms in \<open>simp_all add: release_store_effect lease_jobs_view_def\<close>)
  moreover have "stores_ok y"
    by (rule stores_okI)
      (use stores_okD [OF tier_invE(2) [OF assms(1)]] assms(2-7) in
        \<open>auto simp: sum_dpop release_store_effect lease_jobs_view_def\<close>)
  ultimately show ?thesis by (simp add: tier_inv_def)
qed

text \<open>Scheduling evictions does not touch the jobs.\<close>

definition jobs_view where
  "jobs_view x = (store_job_paths x, load_job_paths x, store_job_reserved_bytes x,
     reserved_store_bytes x, store_job_keys x, load_job_keys x, tier_events x, failed_jobs x,
     job_shards (tier_leases x), store_jobs (tier_gate x))"

lemma jobs_view_drain [simp]: "jobs_view (drain_evictions env x) = jobs_view x"
proof -
  have "jobs_view (fold (drain_one env) rs y) = jobs_view y" for rs y
    by (induction rs arbitrary: y) (auto simp: drain_one_def jobs_view_def case_prod_unfold)
  then show ?thesis
    by (auto simp: drain_evictions_def Let_def case_prod_unfold split: option.split)
      (simp add: jobs_view_def)
qed

lemma jobs_view_schedule [simp]: "jobs_view (snd (maybe_schedule_eviction env x)) = jobs_view x"
proof -
  have ga: "jobs_view (snd (get_available_bytes env b y)) = jobs_view y" for b y
    by (simp add: get_available_bytes_def jobs_view_def)
  have tb: "try_begin_eviction p (g, T) = (r, g', T') \<Longrightarrow> store_jobs g' = store_jobs g" for p g T r g' T'
    using try_begin_eviction_effect by blast
  have fw: "try_fence_writes p (g, T) = (r, g', T') \<Longrightarrow> store_jobs g' = store_jobs g" for p g T r g' T'
    using try_fence_writes_effect by blast
  have ce: "jobs_view (snd (claim_eviction a y)) = jobs_view y" for a y
    by (auto simp: claim_eviction_def Let_def jobs_view_def dest: tb split: option.split bool.split prod.split)
  have ad: "jobs_view (snd (advance_eviction env a w y)) = jobs_view y" for a w y
    by (auto simp: advance_eviction_def Let_def jobs_view_def submit_to_worker_def
        finish_gate_eviction_effect dest: fw begin_oldest_evicting(2)
        split: option.split bool.split prod.split)
  show ?thesis
    using ga [of False x] ce ad
    by (auto simp: maybe_schedule_eviction_def Let_def split: option.split sum.split prod.split)
      (metis snd_conv)+
qed

lemma jobs_view_fields:
  assumes "jobs_view y = jobs_view x"
  shows "store_job_paths y = store_job_paths x" "load_job_paths y = load_job_paths x"
    "store_job_reserved_bytes y = store_job_reserved_bytes x"
    "reserved_store_bytes y = reserved_store_bytes x" "failed_jobs y = failed_jobs x"
    "job_shards (tier_leases y) = job_shards (tier_leases x)"
    "store_jobs (tier_gate y) = store_jobs (tier_gate x)" "tier_events y = tier_events x"
    "store_job_keys y = store_job_keys x" "load_job_keys y = load_job_keys x"
  using assms by (simp_all add: jobs_view_def)

lemma schedule_inv: "tier_inv x \<Longrightarrow> tier_inv (snd (maybe_schedule_eviction env (drain_evictions env x)))"
  by (intro maybe_schedule_eviction_inv drain_evictions_inv)

lemma admitted_fields:
  assumes "admit_store f env job keys x = (Inr True, y)" and "map_of (store_job_reserved_bytes x) job = None"
  shows "store_job_reserved_bytes y = dput job (int (length keys) * block_size y) (store_job_reserved_bytes x)"
    and "store_job_paths y = dput job (map f keys) (store_job_paths x)"
    and "load_job_paths y = load_job_paths x"
    and "reserved_store_bytes y = reserved_store_bytes x + int (length keys) * block_size y"
proof -
  from assms(1) have "store_job_reserved_bytes y = dput job (int (length keys) * block_size y) (store_job_reserved_bytes x)
    \<and> store_job_paths y = dput job (map f keys) (store_job_paths x)
    \<and> reserved_store_bytes y = reserved_store_bytes x + int (length keys) * block_size y
    \<and> load_job_paths y = load_job_paths x"
  proof (cases rule: admit_store_cases)
    case (admitted g T z l)
    note zf = has_store_space_fields [OF admitted(3)]
    have "load_job_paths z = load_job_paths x"
      using admitted(3) by (auto simp: has_store_space_def get_available_bytes_def Let_def split: if_splits)
    then show ?thesis using zf by (simp add: admitted(5))
  qed simp_all
  then show "store_job_reserved_bytes y = dput job (int (length keys) * block_size y) (store_job_reserved_bytes x)"
    "store_job_paths y = dput job (map f keys) (store_job_paths x)"
    "load_job_paths y = load_job_paths x"
    "reserved_store_bytes y = reserved_store_bytes x + int (length keys) * block_size y" by blast+
qed

lemma submit_store_inv:
  assumes "tier_inv x" and "map_of (store_job_paths x) job = None"
    and "map_of (load_job_paths x) job = None"
  shows "tier_inv (snd (submit_store f env ok job keys x))"
proof -
  obtain r x1 where ms: "maybe_schedule_eviction env (drain_evictions env x) = (r, x1)"
    by (cases "maybe_schedule_eviction env (drain_evictions env x)")
  have x1: "tier_inv x1" using schedule_inv [OF assms(1), of env] ms by simp
  have "jobs_view x1 = jobs_view x"
    using jobs_view_schedule [of env "drain_evictions env x"] ms by simp
  note jobs = jobs_view_fields [OF this]
  obtain r2 x2 where ad: "admit_store f env job keys x1 = (r2, x2)"
    by (cases "admit_store f env job keys x1")
  have x2: "tier_inv x2" by (rule admit_store_inv [OF x1 _ ad]) (simp add: jobs assms(2))
  have undo: "tier_inv (undo_store job (int (length keys) * block_size x2) x2)" if "r2 = Inr True"
  proof -
    have none: "map_of (store_job_reserved_bytes x1) job = None"
      using stores_okD(3) [OF tier_invE(2) [OF x1]] assms(2) by (simp add: jobs) (metis domIff)
    note af = admitted_fields [OF ad [unfolded that] none]
    let ?y = "undo_store job (int (length keys) * block_size x2) x2"
    have "load_job_paths x2 = dpop job (load_job_paths x2)"
      using af(3) assms(3) by (simp add: jobs dpop_absent)
    then show ?thesis
      by (intro end_job_inv [OF x2, of ?y job "tier_pid x2" "tier_gate_locks x2"])
        (simp_all add: undo_store_def Let_def af release_job_view, simp_all add: release_job_def)
  qed
  from x1 x2 undo show ?thesis
    by (auto simp: submit_store_def ms ad split: sum.split bool.split)
qed

section \<open>Loads and finished jobs\<close>

lemma submit_load_inv:
  assumes "tier_inv x" and fresh: "map_of (load_job_paths x) job = None" "map_of (store_job_paths x) job = None"
  shows "tier_inv (snd (submit_load f ok job keys r x))"
proof -
  obtain res l where pj: "pin_job job (map f keys) (tier_leases x) = (res, l)"
    by (cases "pin_job job (map f keys) (tier_leases x)")
  note view = pin_job_view [OF pj]
  show ?thesis
  proof (cases "res = Inr True")
    case False
    then have "lease_jobs_view l = lease_jobs_view (tier_leases x)" using view(1) by simp
    moreover have "tier_inv y" if "lease_jobs_view (tier_leases y) = lease_jobs_view (tier_leases x)"
      "tier_eviction_active y = tier_eviction_active x" "tier_gate y = tier_gate x" "tier_worker y = tier_worker x"
      "store_job_reserved_bytes y = store_job_reserved_bytes x" "reserved_store_bytes y = reserved_store_bytes x"
      "store_job_paths y = store_job_paths x" "load_job_paths y = load_job_paths x" for y
      using that by (intro tier_inv_same [OF assms(1)])
    ultimately show ?thesis using False pj
      by (auto simp: submit_load_def Let_def split: sum.split bool.split)
  next
    case True
    from view(2) [OF True] obtain ss where js: "job_shards l = dput job ss (job_shards (tier_leases x))" ..
    let ?l = "release_request_pins r l"
    let ?x1 = "x\<lparr>tier_leases := ?l, load_job_paths := dput job (map f keys) (load_job_paths x),
      load_job_keys := dput job keys (load_job_keys x)\<rparr>"
    have lv: "evicting ?l = evicting (tier_leases x)" "job_shards ?l = dput job ss (job_shards (tier_leases x))"
      using lease_view_helpers(6) [of r l] view(1) True js by (simp_all add: lease_jobs_view_def)
    have x1: "tier_inv ?x1"
    proof -
      have "evict_ok ?x1"
        by (rule evict_ok_same [OF tier_invE(1) [OF assms(1)]]) (simp_all add: lv)
      moreover have "stores_ok ?x1"
        by (rule stores_okI)
          (use stores_okD [OF tier_invE(2) [OF assms(1)]] in \<open>auto simp: lv\<close>)
      ultimately show ?thesis by (simp add: tier_inv_def)
    qed
    show ?thesis
    proof (cases ok)
      case True
      with pj \<open>res = Inr True\<close> x1 show ?thesis by (simp add: submit_load_def)
    next
      case False
      let ?y = "?x1\<lparr>load_job_paths := dpop job (load_job_paths ?x1),
        load_job_keys := dpop job (load_job_keys ?x1), tier_leases := release_job job ?l\<rparr>"
      have "tier_inv ?y"
      proof -
        have js': "job_shards (release_job job ?l) = dpop job (job_shards ?l)"
          "evicting (release_job job ?l) = evicting ?l"
          using release_job_view [of job ?l] by (simp_all add: lease_jobs_view_def)
        have "evict_ok ?y"
          by (rule evict_ok_same [OF tier_invE(1) [OF x1]]) (simp_all add: js')
        moreover have "job \<notin> dom (map_of (store_job_paths x))" using fresh by (simp add: domIff)
        then have "stores_ok ?y"
          by (intro stores_okI)
            (use stores_okD [OF tier_invE(2) [OF assms(1)]] in \<open>simp_all add: js' lv, blast+\<close>)
        ultimately show ?thesis by (simp add: tier_inv_def)
      qed
      with pj \<open>res = Inr True\<close> False show ?thesis by (simp add: submit_load_def)
    qed
  qed
qed

lemma record_view:
  "record_store ps now l = (r, l') \<Longrightarrow> lease_jobs_view l' = lease_jobs_view l"
  "record_access ps now l = (r, l') \<Longrightarrow> lease_jobs_view l' = lease_jobs_view l"
  using lease_view_records(1) [of ps now l] lease_view_records(2) [of ps now l]
  by (simp_all del: lease_view_records)

text \<open>What \<open>finish_job\<close> does to the fields of the invariant, on every path.\<close>

lemma finish_job_fields:
  assumes "finish_job env (job, success) x = (r, y)"
  shows "store_job_paths y = dpop job (store_job_paths x)"
    and "load_job_paths y = dpop job (load_job_paths x)"
    and "store_job_reserved_bytes y = dpop job (store_job_reserved_bytes x)"
    and "reserved_store_bytes y = reserved_store_bytes x - dget (store_job_reserved_bytes x) job 0"
    and "lease_jobs_view (tier_leases y) = (evicting (tier_leases x), dpop job (job_shards (tier_leases x)))"
    and "\<exists>p. tier_gate y = fst (release_store p job (tier_gate x, tier_gate_locks x))"
    and "tier_eviction_active y = tier_eviction_active x" and "tier_worker y = tier_worker x"
    and "failed_jobs y = failed_jobs x"
proof -
  define x2 where "x2 = end_job job x"
  let ?l = "tier_leases x2"
  have l: "?l = release_job job (tier_leases x)" by (simp add: x2_def end_job_def Let_def)
  let ?sp = "dget (store_job_paths x) job []" and ?lp = "dget (load_job_paths x) job []"
  obtain r1 l1 where s1: "(if success \<and> ?sp \<noteq> [] then record_store ?sp (env_now env) ?l else (Inr (), ?l)) = (r1, l1)"
    by (metis surj_pair)
  obtain r2 l2 where s2: "(if success \<and> ?lp \<noteq> [] then record_access ?lp (env_now env) l1 else (Inr (), l1)) = (r2, l2)"
    by (metis surj_pair)
  have v1: "lease_jobs_view l1 = lease_jobs_view ?l"
    using s1 by (auto split: if_splits dest: record_view(1))
  have v2: "lease_jobs_view l2 = lease_jobs_view ?l"
    using s2 v1 by (auto split: if_splits dest: record_view(2))
  note unf = assms [unfolded finish_job_def Let_def prod.case x2_def [symmetric] s1 s2]
  have out: "\<exists>l lk n sk ev. y = x2\<lparr>tier_leases := l, tier_lookups := lk, load_failure_delta := n,
      store_job_keys := sk, tier_events := ev\<rparr> \<and> lease_jobs_view l = lease_jobs_view ?l"
  proof (cases r1)
    case (Inl e)
    then have "y = x2\<lparr>tier_leases := l1\<rparr>"
      using unf by simp
    then have "y = x2\<lparr>tier_leases := l1, tier_lookups := tier_lookups x2, load_failure_delta := load_failure_delta x2,
      store_job_keys := store_job_keys x2, tier_events := tier_events x2\<rparr>" by simp
    with v1 show ?thesis by blast
  next
    case (Inr u)
    show ?thesis
    proof (cases r2)
      case (Inl e)
      then have "y = x2\<lparr>tier_leases := l2\<rparr>"
        using unf Inr by simp
      then have "y = x2\<lparr>tier_leases := l2, tier_lookups := tier_lookups x2, load_failure_delta := load_failure_delta x2,
        store_job_keys := store_job_keys x2, tier_events := tier_events x2\<rparr>" by simp
      with v2 show ?thesis by blast
    next
      case Inr2: (Inr u2)
      let ?x3 = "x2\<lparr>tier_leases := l2\<rparr>" and ?lk = "dget (load_job_keys x) job []"
      let ?x4 = "if \<not> success \<and> ?lk \<noteq> []
          then ?x3\<lparr>tier_lookups := async_invalidate ?lk (tier_lookups ?x3),
                 load_failure_delta := load_failure_delta ?x3 + 1\<rparr> else ?x3"
      let ?keys = "dget (store_job_keys ?x4) job []"
      have y: "y = (case tier_events ?x4 of None \<Rightarrow> ?x4
          | Some evs \<Rightarrow> ?x4\<lparr>store_job_keys := dpop job (store_job_keys ?x4),
              tier_events := Some (if success \<and> ?keys \<noteq> [] then evs @ [?keys] else evs)\<rparr>)"
        by (rule unf [unfolded Inr Inr2 sum.case, THEN prod.inject [THEN iffD1], THEN conjunct2, symmetric])
      have "?x4 = x2\<lparr>tier_leases := l2, tier_lookups := tier_lookups ?x4, load_failure_delta := load_failure_delta ?x4\<rparr>"
        by simp
      then have "y = x2\<lparr>tier_leases := l2, tier_lookups := tier_lookups ?x4, load_failure_delta := load_failure_delta ?x4,
          store_job_keys := store_job_keys y, tier_events := tier_events y\<rparr>"
        unfolding y by (cases "tier_events x2") simp_all
      with v2 show ?thesis by blast
    qed
  qed
  then obtain l lk n sk ev where y: "y = x2\<lparr>tier_leases := l, tier_lookups := lk, load_failure_delta := n,
      store_job_keys := sk, tier_events := ev\<rparr>" and lv: "lease_jobs_view l = lease_jobs_view ?l" by blast
  show "store_job_paths y = dpop job (store_job_paths x)"
    "load_job_paths y = dpop job (load_job_paths x)"
    "store_job_reserved_bytes y = dpop job (store_job_reserved_bytes x)"
    "reserved_store_bytes y = reserved_store_bytes x - dget (store_job_reserved_bytes x) job 0"
    "\<exists>p. tier_gate y = fst (release_store p job (tier_gate x, tier_gate_locks x))"
    "tier_eviction_active y = tier_eviction_active x" "tier_worker y = tier_worker x"
    "failed_jobs y = failed_jobs x"
    by (auto simp: y x2_def end_job_def Let_def)
  show "lease_jobs_view (tier_leases y) = (evicting (tier_leases x), dpop job (job_shards (tier_leases x)))"
    using lv release_job_view [of job "tier_leases x"] by (simp add: y l)
qed

lemma finish_job_inv:
  assumes "tier_inv x" and "finish_job env (job, success) x = (r, y)"
  shows "tier_inv y"
proof -
  note f = finish_job_fields [OF assms(2)]
  from f(6) obtain p where "tier_gate y = fst (release_store p job (tier_gate x, tier_gate_locks x))" ..
  from end_job_inv [OF assms(1) f(1-5) this f(7,8)] show ?thesis .
qed

lemma finish_jobs_inv:
  "tier_inv x \<Longrightarrow> tier_inv (snd (finish_jobs env js x))"
proof (induction js arbitrary: x)
  case (Cons j js)
  obtain r y where fj: "finish_job env j x = (r, y)" by (cases "finish_job env j x")
  have "tier_inv y" using finish_job_inv [OF Cons.prems, of env "fst j" "snd j"] fj by simp
  with Cons.IH fj show ?case by (auto split: sum.split prod.split) (metis snd_conv)+
qed simp

section \<open>Runs of the tier\<close>

text \<open>
  The calls of the scheduler, the two halves of a lookup worker's \<open>lookup_and_pin\<close> and the
  system calls of siblings on the shard locks (\<open>Lease_thread\<close>), answers of the lookup workers,
  the eviction thread, and changes that siblings make to the gate's lock table.
\<close>

datatype tier_event = Tier_request req_id | Tier_lookup tier_env okey req_id
  | Tier_cancel req_id bool | Tier_request_end req_id
  | Tier_store tier_env bool job_id "okey list" | Tier_load bool job_id "okey list" req_id
  | Tier_jobs tier_env "(job_id \<times> bool) list" | Tier_schedule_end tier_env | Tier_events
  | Tier_stats tier_env | Lease_thread lease_event | Lookup_answers lookup_mgr
  | Evict_take | Evict_finish os_answers dirs | Sibling_gate gate_table

fun tier_step :: "(okey \<Rightarrow> path) \<Rightarrow> tier_event \<Rightarrow> fs_tier \<Rightarrow> fs_tier" where
  "tier_step f (Tier_request r) x = on_new_request r x"
| "tier_step f (Tier_lookup env k r) x = snd (tier_lookup f env k r x)"
| "tier_step f (Tier_cancel r b) x = tier_cancel_lookup r b x"
| "tier_step f (Tier_request_end r) x = on_request_finished r x"
| "tier_step f (Tier_store env ok j ks) x = snd (submit_store f env ok j ks x)"
| "tier_step f (Tier_load ok j ks r) x = snd (submit_load f ok j ks r x)"
| "tier_step f (Tier_jobs env pool) x = snd (get_finished_jobs env pool x)"
| "tier_step f (Tier_schedule_end env) x = snd (on_schedule_end env x)"
| "tier_step f Tier_events x = snd (take_events x)"
| "tier_step f (Tier_stats env) x = snd (tier_get_stats env x)"
| "tier_step f (Lease_thread e) x = x\<lparr>tier_leases := lease_step e (tier_leases x)\<rparr>"
| "tier_step f (Lookup_answers m) x = x\<lparr>tier_lookups := m\<rparr>"
| "tier_step f Evict_take x = x\<lparr>tier_worker := map_option worker_take (tier_worker x)\<rparr>"
| "tier_step f (Evict_finish os fs) x =
     x\<lparr>tier_worker := map_option (\<lambda>w. fst (worker_finish os (w, fs))) (tier_worker x)\<rparr>"
| "tier_step f (Sibling_gate T) x = x\<lparr>tier_gate_locks := T\<rparr>"

text \<open>Job ids are not reused while in flight; other threads only do what theirs is to do.\<close>

fun thread_event :: "lease_event \<Rightarrow> bool" where
  "thread_event (Lookup_begin r ps) = True"
| "thread_event (Lookup_end r mine ss hs now) = True"
| "thread_event (Sibling_flock s q d m) = True"
| "thread_event (Sibling_unlock s q d) = True"
| "thread_event (Sibling_exit q) = True"
| "thread_event _ = False"

fun tier_guard :: "tier_event \<Rightarrow> fs_tier \<Rightarrow> bool" where
  "tier_guard (Tier_store env ok j ks) x \<longleftrightarrow> map_of (store_job_paths x) j = None \<and> map_of (load_job_paths x) j = None"
| "tier_guard (Tier_load ok j ks r) x \<longleftrightarrow> map_of (store_job_paths x) j = None \<and> map_of (load_job_paths x) j = None"
| "tier_guard (Lease_thread e) x \<longleftrightarrow> thread_event e"
| "tier_guard _ x \<longleftrightarrow> True"

lemma lease_view_thread:
  "thread_event e \<Longrightarrow> lease_jobs_view (lease_step e l) = lease_jobs_view l"
  by (cases e) simp_all

lemma tier_inv_lease:
  "tier_inv x \<Longrightarrow> lease_jobs_view l = lease_jobs_view (tier_leases x) \<Longrightarrow> tier_inv (x\<lparr>tier_leases := l\<rparr>)"
  by (rule tier_inv_same [of x]) simp_all

lemma tier_inv_lookups: "tier_inv x \<Longrightarrow> tier_inv (x\<lparr>tier_lookups := m\<rparr>)"
  by (rule tier_inv_same [of x]) simp_all

lemma tier_inv_worker:
  assumes "tier_inv x" and "tier_worker x = Some w" and "in_hand w' = in_hand w"
    and "outstanding_evictions w' = outstanding_evictions w"
  shows "tier_inv (x\<lparr>tier_worker := Some w'\<rparr>)"
proof -
  have "evict_ok (x\<lparr>tier_worker := Some w'\<rparr>)"
    using tier_invE(1) [OF assms(1)] assms(2-4) by (simp add: evict_ok_def deletions_def)
  moreover have "stores_ok (x\<lparr>tier_worker := Some w'\<rparr>)"
    by (rule stores_ok_same [OF tier_invE(2) [OF assms(1)]]) simp_all
  ultimately show ?thesis by (simp add: tier_inv_def)
qed

lemma worker_take_hand:
  "in_hand (worker_take w) = in_hand w" "outstanding_evictions (worker_take w) = outstanding_evictions w"
  by (auto simp: worker_take_def in_hand_def split: list.split option.split)

lemma worker_finish_hand:
  "in_hand (fst (worker_finish os (w, fs))) = in_hand w"
  "outstanding_evictions (fst (worker_finish os (w, fs))) = outstanding_evictions w"
  by (auto simp: worker_finish_def in_hand_def split: option.split sum.split prod.split)

lemma tier_inv_lookup: "tier_inv x \<Longrightarrow> tier_inv (snd (tier_lookup f env k r x))"
proof -
  assume x: "tier_inv x"
  obtain res lm where l: "async_lookup k r (tier_lookups x) = (res, lm)"
    by (cases "async_lookup k r (tier_lookups x)")
  have "lease_jobs_view l = lease_jobs_view (tier_leases x)"
    if "resolve_cached_lookup r (f k) b (env_now env) (tier_leases x) = (q, l)" for b q l
    using lease_view_requests(4) [of r "f k" b "env_now env" "tier_leases x"] that
    by (simp del: lease_view_requests)
  then show ?thesis using x tier_inv_lookups [OF x, of lm]
    by (auto simp: tier_lookup_def l Let_def split: option.split prod.split sum.split
        intro!: tier_inv_lease [OF tier_inv_lookups [OF x, of lm]])
qed

lemma tier_step_inv: "tier_inv x \<Longrightarrow> tier_guard e x \<Longrightarrow> tier_inv (tier_step f e x)"
proof (cases e)
  case (Tier_request r)
  assume "tier_inv x"
  with Tier_request show ?thesis by (simp add: on_new_request_def tier_inv_lease)
next
  case (Tier_lookup env k r)
  assume "tier_inv x"
  with Tier_lookup show ?thesis by (simp add: tier_inv_lookup)
next
  case (Tier_cancel r b)
  assume x: "tier_inv x"
  from tier_inv_lease [OF tier_inv_lookups [OF x], of "cancel_lookup r b (tier_leases x)"]
  show ?thesis unfolding Tier_cancel by (simp add: tier_cancel_lookup_def)
next
  case (Tier_request_end r)
  assume x: "tier_inv x"
  from tier_inv_lease [OF tier_inv_lookups [OF x], of "release_request r (tier_leases x)"]
  show ?thesis unfolding Tier_request_end by (simp add: on_request_finished_def)
next
  case (Tier_store env ok j ks)
  assume "tier_inv x" "tier_guard e x"
  with Tier_store show ?thesis by (simp add: submit_store_inv)
next
  case (Tier_load ok j ks r)
  assume "tier_inv x" "tier_guard e x"
  with Tier_load show ?thesis by (simp add: submit_load_inv)
next
  case (Tier_jobs env pool)
  assume x: "tier_inv x"
  obtain r x1 where ms: "maybe_schedule_eviction env (drain_evictions env x) = (r, x1)"
    by (cases "maybe_schedule_eviction env (drain_evictions env x)")
  have x1: "tier_inv x1" using schedule_inv [OF x, of env] ms by simp
  have "tier_inv (x1\<lparr>failed_jobs := []\<rparr>)" by (rule tier_inv_same [OF x1]) simp_all
  from finish_jobs_inv [OF this, of env pool] show ?thesis using x1
    unfolding Tier_jobs by (auto simp: get_finished_jobs_def ms Let_def split: sum.split prod.split)
next
  case (Tier_schedule_end env)
  assume x: "tier_inv x"
  let ?x1 = "x\<lparr>tier_lookups := async_flush (tier_lookups x),
    tier_leases := snd (flush_touches (shard_touch_interval x) 64 (env_now env) (tier_leases x))\<rparr>"
  have "tier_inv ?x1" by (rule tier_inv_lease [OF tier_inv_lookups [OF x]]) simp
  from schedule_inv [OF this] show ?thesis by (simp add: Tier_schedule_end on_schedule_end_def)
next
  case Tier_events
  assume "tier_inv x"
  then show ?thesis unfolding Tier_events
    by (auto simp: take_events_def split: option.split intro: tier_inv_same)
next
  case (Tier_stats env)
  assume x: "tier_inv x"
  have y: "tier_inv (x\<lparr>tier_lookups := lm, load_failure_delta := 0, store_eviction_bypass_delta := 0, tier_gate_locks := T\<rparr>)"
    for lm T by (rule tier_inv_same [OF x]) simp_all
  show ?thesis unfolding Tier_stats using get_available_fields(1) [OF _ y] y
    by (auto simp: tier_get_stats_def Let_def case_prod_unfold split: prod.split option.split)
      (metis prod.collapse)+
next
  case (Lease_thread l)
  assume "tier_inv x" "tier_guard e x"
  with Lease_thread show ?thesis by (simp add: lease_view_thread tier_inv_lease)
next
  case Evict_take
  assume "tier_inv x"
  with Evict_take tier_inv_worker [of x _ "worker_take (the (tier_worker x))"] show ?thesis
    by (cases "tier_worker x") (auto simp: worker_take_hand intro: tier_inv_same)
next
  case (Evict_finish os fs)
  assume "tier_inv x"
  with Evict_finish tier_inv_worker [of x _ "fst (worker_finish os (the (tier_worker x), fs))"] show ?thesis
    by (cases "tier_worker x") (auto simp: worker_finish_hand intro: tier_inv_same)
qed (auto intro: tier_inv_lookups tier_inv_same)

interpretation fs_tier_runs: guarded_invariant "tier_step f" tier_inv tier_guard for f
  by unfold_locales (rule tier_step_inv)

lemma new_fs_tier_inv: "tier_inv (new_fs_tier c bsize ev R p es T GT lm)"
  by (simp add: tier_inv_def evict_ok_def stores_ok_def new_fs_tier_def Let_def deletions_def
      new_gate_def new_eviction_worker_def in_hand_def new_lease_index_def)

section \<open>Properties\<close>

definition demo_config :: tier_config where
  "demo_config = \<lparr>cfg_min_free_gb = 0, cfg_space_check_interval = 1, cfg_trigger_gb = 1,
     cfg_target_gb = 2, cfg_touch_interval = 30, cfg_limits = (8, 16384, 256, 4)\<rparr>"

definition demo_lookups :: lookup_mgr where
  "demo_lookups = \<lparr>max_keys_per_step = 16384, max_keys_per_batch = 256, max_pending_batches = 8,
     dropped_keys = 0, cancelled_keys = 0, key_states = [], req_keys = [], lookup_batch = [],
     lookup_queue = [], pending_results = [], need_to_drain = False, in_flight_batches = 0,
     active_tokens = [], next_token = 0\<rparr>"

definition demo_tier :: fs_tier where
  "demo_tier = new_fs_tier demo_config 10 True demo_roots 1 [] [] [] demo_lookups"

definition demo_env :: "seconds \<Rightarrow> int \<Rightarrow> tier_env" where
  "demo_env now free = \<lparr>env_now = now, env_free_bytes = free, env_exists = (\<lambda>p. False), env_shard_stat = (\<lambda>s. None)\<rparr>"

definition demo_file :: "okey \<Rightarrow> path" where
  "demo_file k = ''/k/abc/'' @ k"

lemma demo_file_shard [simp]: "shard_for_path demo_roots (demo_file ''f'') = Inr ''/k/abc''"
  by (simp add: demo_file_def)

lemmas tier_eval = demo_config_def demo_lookups_def demo_env_def new_fs_tier_def gib_def
  submit_store_def drain_evictions_def maybe_schedule_eviction_def get_available_bytes_def
  claim_eviction_def advance_eviction_def admit_store_def try_pin_store_def lease_store_def
  has_store_space_def gate_unlock_def unlock_def new_gate_def new_eviction_worker_def
  try_begin_eviction_def gate_try_lock_def try_fence_writes_def evictions_in_flight_def
  submit_to_worker_def submit_eviction_def in_hand_def get_finished_evictions_def

text \<open>C1: The byte reservation is exact and every store in flight is fully covered. After any
  run of the tier, the bytes set aside are the sum of the reservations of the stores that
  are queued in the pool, no more and no less, and each of those jobs still has its gate
  lease (so no process can fence writes under it) and its shard pins; loads in flight have
  their shard pins too.\<close>

theorem store_reservation_exact:
  assumes "admissible tier_guard (tier_step f) es (new_fs_tier c bsize ev R p entries T GT lm)"
    and "x = run (tier_step f) es (new_fs_tier c bsize ev R p entries T GT lm)"
  shows "reserved_store_bytes x = sum_list (map snd (store_job_reserved_bytes x))
    \<and> dom (map_of (store_job_reserved_bytes x)) = dom (map_of (store_job_paths x))
    \<and> dom (map_of (store_job_paths x)) \<subseteq> set (store_jobs (tier_gate x))
    \<and> dom (map_of (store_job_paths x)) \<union> dom (map_of (load_job_paths x))
        \<subseteq> dom (map_of (job_shards (tier_leases x)))"
proof -
  have "tier_inv x"
    unfolding assms(2) by (rule fs_tier_runs.inv_admissible [OF new_fs_tier_inv assms(1)])
  from stores_okD [OF tier_invE(2) [OF this]] show ?thesis by simp
qed

theorem store_reservation_exact_witness:
  "\<exists>x. x = run (tier_step demo_file) [Tier_store (demo_env 5 (3 * 1024 ^ 3)) True 7 [''f'']] demo_tier
     \<and> reserved_store_bytes x = 10 \<and> reserved_store_bytes x = sum_list (map snd (store_job_reserved_bytes x))
     \<and> 7 \<in> set (store_jobs (tier_gate x))"
proof -
  let ?es = "[Tier_store (demo_env 5 (3 * 1024 ^ 3)) True 7 [''f'']]"
  have adm: "admissible tier_guard (tier_step demo_file) ?es demo_tier"
    by (simp add: demo_tier_def new_fs_tier_def Let_def)
  let ?x = "run (tier_step demo_file) ?es demo_tier"
  have "reserved_store_bytes ?x = 10" "7 \<in> set (store_jobs (tier_gate ?x))"
    by (simp_all add: demo_tier_def tier_eval demo_eval)
  with store_reservation_exact [OF adm [unfolded demo_tier_def] refl] show ?thesis
    unfolding demo_tier_def by blast
qed

text \<open>C2: Deletion is always fenced. Whenever a shard deletion is queued, running or not yet
  reported, or a shard is marked as being evicted, this process owns the host-wide eviction
  and has the writes of all processes fenced; there is at most one deletion at a time; and
  so ownership is never given up while one is in flight.\<close>

theorem deletion_fenced:
  assumes "admissible tier_guard (tier_step f) es (new_fs_tier c bsize ev R p entries T GT lm)"
    and "x = run (tier_step f) es (new_fs_tier c bsize ev R p entries T GT lm)"
  shows "deletions x \<noteq> [] \<or> evicting (tier_leases x) \<noteq> [] \<longrightarrow>
      tier_eviction_active x \<and> owns_eviction (tier_gate x) \<and> writes_fenced (tier_gate x)
      \<and> length (deletions x) = 1 \<and> set (evicting (tier_leases x)) \<subseteq> set (deletions x)"
proof -
  have "tier_inv x"
    unfolding assms(2) by (rule fs_tier_runs.inv_admissible [OF new_fs_tier_inv assms(1)])
  then have "evict_ok x" by (rule tier_invE)
  then show ?thesis unfolding evict_ok_def
    by (cases "deletions x") auto
qed

lemmas tier_eval_jobs = get_finished_jobs_def finish_job_def end_job_def release_store_def
  release_job_def on_schedule_end_def async_flush_def flush_touches_def finish_gate_eviction_def

theorem deletion_fenced_witness:
  "\<exists>x. x = run (tier_step demo_file) [Tier_store (demo_env 5 (3 * 1024 ^ 3)) True 7 [''f''],
        Tier_jobs (demo_env 5 (3 * 1024 ^ 3)) [(7, True)], Tier_schedule_end (demo_env 9 0)] demo_tier
     \<and> deletions x = [''/k/abc''] \<and> writes_fenced (tier_gate x)"
proof -
  let ?es = "[Tier_store (demo_env 5 (3 * 1024 ^ 3)) True 7 [''f''],
    Tier_jobs (demo_env 5 (3 * 1024 ^ 3)) [(7, True)], Tier_schedule_end (demo_env 9 0)]"
  have adm: "admissible tier_guard (tier_step demo_file) ?es demo_tier"
    by (simp add: demo_tier_def new_fs_tier_def Let_def)
  let ?x = "run (tier_step demo_file) ?es demo_tier"
  have "deletions ?x = [''/k/abc'']"
    by (simp add: demo_tier_def tier_eval tier_eval_jobs demo_eval deletions_def)
  with deletion_fenced [OF adm [unfolded demo_tier_def] refl, folded demo_tier_def]
  have "writes_fenced (tier_gate ?x)" by (metis list.distinct(1))
  with \<open>deletions ?x = [''/k/abc'']\<close> show ?thesis by blast
qed

lemma submit_store_unfold:
  assumes "submit_store f env True job keys x = (Inr (), y)"
  obtains x1 b where "jobs_view x1 = jobs_view x" "min_free_bytes x1 = min_free_bytes x"
    "block_size x1 = block_size x" "admit_store f env job keys x1 = (Inr b, y)"
proof -
  obtain r x1 where ms: "maybe_schedule_eviction env (drain_evictions env x) = (r, x1)"
    by (cases "maybe_schedule_eviction env (drain_evictions env x)")
  obtain r2 x2 where ad: "admit_store f env job keys x1 = (r2, x2)"
    by (cases "admit_store f env job keys x1")
  have jv: "jobs_view x1 = jobs_view x"
    using jobs_view_schedule [of env "drain_evictions env x"] ms by simp
  have drain: "min_free_bytes (drain_evictions env x) = min_free_bytes x \<and> block_size (drain_evictions env x) = block_size x"
  proof -
    have "min_free_bytes (fold (drain_one env) rs z) = min_free_bytes z
        \<and> block_size (fold (drain_one env) rs z) = block_size z" for rs z
      by (induction rs arbitrary: z) (auto simp: drain_one_def case_prod_unfold)
    then show ?thesis by (simp add: drain_evictions_def Let_def case_prod_unfold split: option.split)
  qed
  have "min_free_bytes x1 = min_free_bytes x \<and> block_size x1 = block_size x"
  proof -
    have ga: "min_free_bytes (snd (get_available_bytes env b z)) = min_free_bytes z
        \<and> block_size (snd (get_available_bytes env b z)) = block_size z" for b z
      by (simp add: get_available_bytes_def)
    have ce: "min_free_bytes (snd (claim_eviction a z)) = min_free_bytes z
        \<and> block_size (snd (claim_eviction a z)) = block_size z" for a z
      by (auto simp: claim_eviction_def Let_def split: option.split bool.split prod.split)
    have ad: "min_free_bytes (snd (advance_eviction env a w z)) = min_free_bytes z
        \<and> block_size (snd (advance_eviction env a w z)) = block_size z" for a w z
      by (auto simp: advance_eviction_def Let_def submit_to_worker_def split: option.split bool.split prod.split)
    have "min_free_bytes (snd (maybe_schedule_eviction env z)) = min_free_bytes z
        \<and> block_size (snd (maybe_schedule_eviction env z)) = block_size z" for z
      using ga [of False z] ce ad
      by (auto simp: maybe_schedule_eviction_def Let_def split: option.split sum.split prod.split)
        (metis snd_conv)+
    then show ?thesis using drain ms by (metis snd_conv)
  qed
  moreover obtain b where "r2 = Inr b" "x2 = y"
    using assms ms ad by (auto simp: submit_store_def split: sum.splits bool.splits)
  ultimately show thesis using that jv ad by blast
qed



lemma invalidate_result:
  "k \<in> set ks \<Longrightarrow> map_of (key_states (async_invalidate ks m)) k = Some st \<Longrightarrow> key_result st = Some False"
proof -
  have keep: "map_of (key_states (fold (\<lambda>k. set_result k False) ks m)) k = Some st \<Longrightarrow>
      (\<And>st. map_of (key_states m) k = Some st \<Longrightarrow> key_result st = Some False) \<Longrightarrow> key_result st = Some False" for ks m
    by (induction ks arbitrary: m) (fastforce simp: set_result_def split: option.splits if_splits)+
  have "k \<in> set ks \<Longrightarrow> map_of (key_states (fold (\<lambda>k. set_result k False) ks m)) k = Some st \<Longrightarrow> key_result st = Some False" for m
  proof (induction ks arbitrary: m)
    case (Cons j ks)
    show ?case
    proof (cases "j = k")
      case True
      have "map_of (key_states (set_result k False m)) k = Some st' \<Longrightarrow> key_result st' = Some False" for st'
        by (auto simp: set_result_def split: option.splits)
      with Cons.prems True keep [of ks "set_result k False m"] show ?thesis by simp
    next
      case False
      with Cons show ?thesis by simp
    qed
  qed simp
  then show "k \<in> set ks \<Longrightarrow> map_of (key_states (async_invalidate ks m)) k = Some st \<Longrightarrow> key_result st = Some False"
    by (simp add: async_invalidate_def)
qed

text \<open>Remark: A failed load cannot be retried for ever: once the pool reports it, the job is off the
  books, every key of the job that is still known reads as a miss, the failure is counted,
  and the call does not raise.\<close>

theorem failed_load_invalidates:
  assumes "map_of (load_job_keys x) job = Some keys" and "keys \<noteq> []"
    and "finish_job env (job, False) x = (r, y)"
  shows "r = Inr () \<and> load_failure_delta y = load_failure_delta x + 1
    \<and> map_of (load_job_keys y) job = None \<and> map_of (load_job_paths y) job = None
    \<and> (\<forall>k st. k \<in> set keys \<longrightarrow> map_of (key_states (tier_lookups y)) k = Some st \<longrightarrow> key_result st = Some False)"
proof -
  have e: "tier_lookups (end_job job x) = tier_lookups x" "load_failure_delta (end_job job x) = load_failure_delta x"
    "load_job_keys (end_job job x) = dpop job (load_job_keys x)" "load_job_paths (end_job job x) = dpop job (load_job_paths x)"
    by (simp_all add: end_job_def Let_def)
  have "r = Inr () \<and> tier_lookups y = async_invalidate keys (tier_lookups x)
      \<and> load_failure_delta y = load_failure_delta x + 1 \<and> load_job_keys y = dpop job (load_job_keys x)
      \<and> load_job_paths y = dpop job (load_job_paths x)"
    using assms e by (auto simp: finish_job_def Let_def dget_def split: option.splits)
  then show ?thesis using invalidate_result by auto
qed

theorem failed_load_invalidates_witness:
  "\<exists>x r y. finish_job (demo_env 5 0) (7, False) x = (r, y) \<and> r = Inr () \<and> load_failure_delta y = 1
     \<and> (\<forall>st. map_of (key_states (tier_lookups y)) ''f'' = Some st \<longrightarrow> key_result st = Some False)"
proof -
  let ?x = "demo_tier\<lparr>load_job_keys := [(7, [''f''])]\<rparr>"
  obtain r y where fj: "finish_job (demo_env 5 0) (7, False) ?x = (r, y)" by (cases "finish_job (demo_env 5 0) (7, False) ?x")
  have "load_failure_delta ?x = 0" by (simp add: demo_tier_def new_fs_tier_def Let_def)
  with failed_load_invalidates [of ?x 7 "[''f'']", OF _ _ fj] fj show ?thesis by (intro exI [of _ ?x] exI [of _ r] exI [of _ y]) simp
qed

text \<open>Remark: When the pool refuses a store, \<open>submit_store\<close> gives back the reservation, the pins and
  the gate lease before it raises, but not the keys it noted for events: they stay for ever.\<close>

theorem failed_enqueue_leaks_keys:
  "\<exists>y. submit_store demo_file (demo_env 5 (3 * 1024 ^ 3)) False 7 [''f''] demo_tier = (Inl Enqueue_failed, y)
     \<and> store_job_paths y = [] \<and> reserved_store_bytes y = 0 \<and> store_jobs (tier_gate y) = []
     \<and> job_shards (tier_leases y) = [] \<and> lease_count (tier_leases y) ''/k/abc'' = 0
     \<and> map_of (store_job_keys y) 7 = Some [''f'']"
  by (simp add: demo_tier_def tier_eval tier_eval_jobs demo_eval undo_store_def lease_count_def)

end
