(* ===== verification/PyText.thy ===== *)
theory PyText
  imports Prelude
begin

text \<open>
  Python strings as sequences of code points, for the parsers: their texts hold characters
  outside ASCII (the bar of the DSML markers is U+FF5C), so characters are numbers here.
  The string methods the parsers call are defined on them.
\<close>

type_synonym pystr = "nat list"

text \<open>An ASCII literal.\<close>

definition lit :: "string \<Rightarrow> pystr" where
  "lit s = map of_char s"

lemma lit_Nil [simp]: "lit [] = []" and lit_append [simp]: "lit (s @ t) = lit s @ lit t"
  by (simp_all add: lit_def)

lemma lit_eq_Nil [simp]: "lit s = [] \<longleftrightarrow> s = []"
  by (simp add: lit_def)

text \<open>\<open>str.isspace\<close> of one code point.\<close>

definition uis_space :: "nat \<Rightarrow> bool" where
  "uis_space c \<longleftrightarrow> 9 \<le> c \<and> c \<le> 13 \<or> 28 \<le> c \<and> c \<le> 32 \<or> 8192 \<le> c \<and> c \<le> 8202
     \<or> c \<in> {133, 160, 5760, 8232, 8233, 8239, 8287, 12288}"

definition ulstrip :: "pystr \<Rightarrow> pystr" where
  "ulstrip s = dropWhile uis_space s"

definition urstrip :: "pystr \<Rightarrow> pystr" where
  "urstrip s = rev (dropWhile uis_space (rev s))"

definition ustrip :: "pystr \<Rightarrow> pystr" where
  "ustrip s = urstrip (ulstrip s)"

lemma urstrip_Nil_iff: "urstrip s = [] \<longleftrightarrow> list_all uis_space s"
  by (simp add: urstrip_def dropWhile_eq_Nil_conv list_all_iff)

lemma ustrip_Nil_iff: "ustrip s = [] \<longleftrightarrow> list_all uis_space s"
proof -
  have "list_all uis_space (dropWhile uis_space s) \<longleftrightarrow> list_all uis_space s"
    by (induction s) auto
  then show ?thesis by (simp add: ustrip_def ulstrip_def urstrip_Nil_iff)
qed

lemma ustrip_Nil [simp]: "ustrip [] = []" and urstrip_Nil [simp]: "urstrip [] = []"
  by (simp_all add: ustrip_def urstrip_def ulstrip_def)

text \<open>What \<open>urstrip\<close> removes is the whitespace at the end.\<close>

lemma urstrip_decompose: "s = urstrip s @ drop (length (urstrip s)) s"
  by (metis append_take_drop_id urstrip_def append_eq_conv_conj rev_append rev_rev_ident takeWhile_dropWhile_id)

lemma urstrip_prefix: "prefix (urstrip s) s"
  using urstrip_decompose [of s] by (metis prefixI)

lemma urstrip_tail_space: "list_all uis_space (drop (length (urstrip s)) s)"
proof -
  have s: "s = urstrip s @ rev (takeWhile uis_space (rev s))"
    by (metis urstrip_def rev_append rev_rev_ident takeWhile_dropWhile_id)
  then have "drop (length (urstrip s)) s = rev (takeWhile uis_space (rev s))"
    by (metis append_eq_conv_conj)
  then show ?thesis
    by (auto simp: list_all_iff dest: set_takeWhileD)
qed

text \<open>\<open>text or None\<close>.\<close>

definition or_none :: "pystr \<Rightarrow> pystr option" where
  "or_none s = (if s = [] then None else Some s)"

lemma or_none_simps [simp]: "or_none [] = None" "or_none (c # s) = Some (c # s)"
  by (simp_all add: or_none_def)

end
