(* ===== verification/ParserConfig.thy ===== *)
theory ParserConfig
  imports PyText
begin

text \<open>
  The declarative description of a model's output format (the file
  \<open>parser-engine-config.dsml-orphan.py\<close>) and the two DSML formats
  (\<open>parser-deepseek-v4\<close>, \<open>parser-deepseek-v32\<close>).  Event types are those the sources name;
  dictionaries keep the order of the source.
\<close>

datatype event_type =
    TEXT_CHUNK | REASONING_START | REASONING_CHUNK | REASONING_END
  | TOOL_CALL_START | TOOL_NAME | ARG_VALUE_CHUNK | TOOL_CALL_END

datatype parser_state =
    CONTENT | REASONING | MESSAGE_HEADER | TOOL_PREAMBLE | TOOL_NAME | TOOL_ARGS
  | TOOL_BETWEEN | FOREIGN_BLOCK

text \<open>Both enumerations have a \<open>TOOL_NAME\<close>; the short names below tell them apart.\<close>

abbreviation "NAME_EVENT \<equiv> event_type.TOOL_NAME"
abbreviation "NAME_STATE \<equiv> parser_state.TOOL_NAME"

type_synonym terminal = string

record transition =
  next_state :: parser_state
  trans_events :: "event_type list"
  skip_in_token_id_mode :: bool
  validate_tool_name :: bool

text \<open>A transition with the defaults of the data class.\<close>

definition trans :: "parser_state \<Rightarrow> event_type list \<Rightarrow> transition" where
  "trans s evs = \<lparr> next_state = s, trans_events = evs, skip_in_token_id_mode = False,
     validate_tool_name = False \<rparr>"

lemma trans_sel [simp]:
  "next_state (trans s evs) = s" "trans_events (trans s evs) = evs"
  "\<not> skip_in_token_id_mode (trans s evs)" "\<not> validate_tool_name (trans s evs)"
  by (simp_all add: trans_def)

text \<open>The argument converter may raise, which is \<^term>\<open>None\<close> inside the option.\<close>

record parser_config =
  config_name :: string
  terminals :: "(terminal, pystr) dict"
  token_id_terminals :: "(terminal, pystr) dict"
  transitions :: "(parser_state \<times> terminal, transition) dict"
  content_events :: "(parser_state, event_type) dict"
  initial_state :: parser_state
  arg_converter :: "(pystr \<Rightarrow> bool \<Rightarrow> pystr option) option"
  stream_arg_deltas :: bool
  tool_args_json :: bool
  arg_structural_chars :: "nat set option"
  preserve_tokens :: "pystr set"
  strip_trailing_reasoning_whitespace :: bool
  drop_whitespace_only_content_before_tools :: bool
  strip_content_whitespace_with_tools :: bool
  validate_tool_names :: bool

text \<open>The defaults of the data class.\<close>

definition default_config :: "string \<Rightarrow> parser_config" where
  "default_config n = \<lparr> config_name = n, terminals = [], token_id_terminals = [], transitions = [],
     content_events = [(CONTENT, TEXT_CHUNK), (REASONING, REASONING_CHUNK),
       (NAME_STATE, NAME_EVENT), (TOOL_ARGS, ARG_VALUE_CHUNK)],
     initial_state = CONTENT, arg_converter = None, stream_arg_deltas = True,
     tool_args_json = True, arg_structural_chars = None, preserve_tokens = {},
     strip_trailing_reasoning_whitespace = True, drop_whitespace_only_content_before_tools = True,
     strip_content_whitespace_with_tools = True, validate_tool_names = False \<rparr>"

section \<open>The DSML formats\<close>

text \<open>\<open>_DSML\<close>: the bar is U+FF5C.\<close>

definition dsml :: pystr where
  "dsml = [65372] @ lit ''DSML'' @ [65372]"

definition dsml_open :: "string \<Rightarrow> pystr" where
  "dsml_open tag = lit ''<'' @ dsml @ lit tag @ lit ''>''"

definition dsml_close :: "string \<Rightarrow> pystr" where
  "dsml_close tag = lit ''</'' @ dsml @ lit tag @ lit ''>''"

definition think_start :: pystr where
  "think_start = lit ''<think>''"

definition think_end :: pystr where
  "think_end = lit ''</think>''"

definition invoke_prefix :: pystr where
  "invoke_prefix = lit ''<'' @ dsml @ lit ''invoke name='' @ [34]"

definition invoke_name_end :: pystr where
  "invoke_name_end = [34] @ lit ''>''"

definition deepseek_v4_config :: "(pystr \<Rightarrow> bool \<Rightarrow> pystr option) \<Rightarrow> bool \<Rightarrow> parser_config" where
  "deepseek_v4_config converter thinking = (default_config ''deepseek_v4'')\<lparr>
     initial_state := (if thinking then REASONING else CONTENT),
     terminals :=
       [(''THINK_START'', think_start), (''THINK_END'', think_end),
        (''TOOL_START'', dsml_open ''tool_calls''), (''TOOL_END'', dsml_close ''tool_calls''),
        (''INVOKE_PREFIX'', invoke_prefix), (''INVOKE_NAME_END'', invoke_name_end),
        (''INVOKE_END'', dsml_close ''invoke''), (''PARAM_CLOSE'', dsml_close ''parameter''),
        (''FOREIGN_START'', dsml_open ''function_calls''),
        (''FOREIGN_END'', dsml_close ''function_calls'')],
     token_id_terminals :=
       [(''THINK_START'', think_start), (''THINK_END'', think_end),
        (''TOOL_START'', dsml_open ''tool_calls''), (''TOOL_END'', dsml_close ''tool_calls'')],
     transitions :=
       [((CONTENT, ''THINK_START''), trans REASONING [REASONING_START]),
        ((CONTENT, ''THINK_END''), trans CONTENT []),
        ((REASONING, ''THINK_START''), trans REASONING []),
        ((REASONING, ''THINK_END''), trans CONTENT [REASONING_END]),
        ((REASONING, ''TOOL_START''), trans TOOL_PREAMBLE [REASONING_END]),
        ((CONTENT, ''TOOL_START''), trans TOOL_PREAMBLE []),
        ((CONTENT, ''INVOKE_PREFIX''),
           (trans NAME_STATE [TOOL_CALL_START])\<lparr> validate_tool_name := True \<rparr>),
        ((CONTENT, ''FOREIGN_START''), trans FOREIGN_BLOCK [TEXT_CHUNK]),
        ((FOREIGN_BLOCK, ''FOREIGN_END''), trans CONTENT [TEXT_CHUNK]),
        ((FOREIGN_BLOCK, ''TOOL_START''), trans TOOL_PREAMBLE []),
        ((TOOL_PREAMBLE, ''INVOKE_PREFIX''), trans NAME_STATE [TOOL_CALL_START]),
        ((NAME_STATE, ''INVOKE_NAME_END''), trans TOOL_ARGS []),
        ((TOOL_ARGS, ''INVOKE_END''), trans TOOL_BETWEEN [TOOL_CALL_END]),
        ((TOOL_ARGS, ''TOOL_END''), trans CONTENT [TOOL_CALL_END]),
        ((TOOL_BETWEEN, ''INVOKE_PREFIX''), trans NAME_STATE [TOOL_CALL_START]),
        ((TOOL_BETWEEN, ''TOOL_END''), trans CONTENT [])],
     content_events :=
       [(CONTENT, TEXT_CHUNK), (REASONING, REASONING_CHUNK), (NAME_STATE, NAME_EVENT),
        (TOOL_ARGS, ARG_VALUE_CHUNK), (FOREIGN_BLOCK, TEXT_CHUNK)],
     arg_converter := Some converter,
     arg_structural_chars := Some (set (lit ''>'')),
     strip_content_whitespace_with_tools := False,
     tool_args_json := False \<rparr>"

definition deepseek_v32_config :: "(pystr \<Rightarrow> bool \<Rightarrow> pystr option) \<Rightarrow> parser_config" where
  "deepseek_v32_config converter = (default_config ''deepseek_v32'')\<lparr>
     initial_state := CONTENT,
     terminals :=
       [(''TOOL_START'', dsml_open ''function_calls''), (''TOOL_END'', dsml_close ''function_calls''),
        (''INVOKE_PREFIX'', invoke_prefix), (''INVOKE_NAME_END'', invoke_name_end),
        (''INVOKE_END'', dsml_close ''invoke''), (''PARAM_CLOSE'', dsml_close ''parameter''),
        (''FOREIGN_START'', dsml_open ''tool_calls''), (''FOREIGN_END'', dsml_close ''tool_calls'')],
     token_id_terminals :=
       [(''TOOL_START'', dsml_open ''function_calls''), (''TOOL_END'', dsml_close ''function_calls'')],
     transitions :=
       [((CONTENT, ''TOOL_START''), trans TOOL_PREAMBLE []),
        ((CONTENT, ''INVOKE_PREFIX''),
           (trans NAME_STATE [TOOL_CALL_START])\<lparr> validate_tool_name := True \<rparr>),
        ((CONTENT, ''FOREIGN_START''), trans FOREIGN_BLOCK [TEXT_CHUNK]),
        ((FOREIGN_BLOCK, ''FOREIGN_END''), trans CONTENT [TEXT_CHUNK]),
        ((FOREIGN_BLOCK, ''TOOL_START''), trans TOOL_PREAMBLE []),
        ((TOOL_PREAMBLE, ''INVOKE_PREFIX''), trans NAME_STATE [TOOL_CALL_START]),
        ((NAME_STATE, ''INVOKE_NAME_END''), trans TOOL_ARGS []),
        ((TOOL_ARGS, ''INVOKE_END''), trans TOOL_BETWEEN [TOOL_CALL_END]),
        ((TOOL_ARGS, ''TOOL_END''), trans CONTENT [TOOL_CALL_END]),
        ((TOOL_BETWEEN, ''INVOKE_PREFIX''), trans NAME_STATE [TOOL_CALL_START]),
        ((TOOL_BETWEEN, ''TOOL_END''), trans CONTENT [])],
     content_events :=
       [(CONTENT, TEXT_CHUNK), (NAME_STATE, NAME_EVENT), (TOOL_ARGS, ARG_VALUE_CHUNK),
        (FOREIGN_BLOCK, TEXT_CHUNK)],
     arg_converter := Some converter,
     arg_structural_chars := Some (set (lit ''>'')),
     strip_content_whitespace_with_tools := False,
     tool_args_json := False \<rparr>"

end
