(* ===== verification/StreamEngine.thy ===== *)
theory StreamEngine
  imports ParserConfig
begin

text \<open>
  \<open>StreamingParserEngine\<close> (the file \<open>streaming-parser-engine.dsml-orphan.py\<close>): terminals found
  by the scanner and the lexer drive a state machine that emits semantic events.  The
  scanner and the lexer are not part of the repository: they are the argument
  \<open>fe\<close> of the definitions below, a record of functions on their abstract states.  What the
  engine never assigns after its construction is in the record \<open>engine_setup\<close>; what it
  assigns is in the record \<open>engine\<close>.
\<close>

section \<open>Data\<close>

text \<open>A semantic event; its value is \<^term>\<open>None\<close> where the constructor call leaves it out.\<close>

datatype semantic_event =
  SemanticEvent (ev_type: event_type) (ev_value: "pystr option") (ev_index: int)

datatype lex_token = LexToken terminal pystr

datatype lexer_input = PreLexedTerminal terminal pystr | Text_chunk pystr

record ('lx, 'sc) frontend =
  lex_feed :: "'lx \<Rightarrow> pystr \<Rightarrow> lex_token list \<times> 'lx"
  lex_flush :: "'lx \<Rightarrow> lex_token list \<times> 'lx"
  lex_reset :: "'lx \<Rightarrow> 'lx"
  lex_buffer :: "'lx \<Rightarrow> pystr"
  literal_first_chars :: "'lx \<Rightarrow> nat set"
  scan :: "'sc \<Rightarrow> pystr \<Rightarrow> int list \<Rightarrow> lexer_input list \<times> 'sc"
  scan_flush_pending :: "'sc \<Rightarrow> lexer_input list \<times> 'sc"
  scan_reset :: "'sc \<Rightarrow> 'sc"
  deferred_terminals :: "'sc \<Rightarrow> lexer_input list"
  content_terminal :: terminal
  drop_terminal :: terminal

record engine_setup =
  config :: parser_config
  resolved_token_ids :: "(int, terminal) dict"
  has_drops :: bool
  token_id_terminal_names :: "terminal set"
  tool_terminals :: "terminal set"
  skip_tool_parsing :: bool
  allowed_tool_names :: "pystr set option"
  suppress_tool_calls :: bool

record ('lx, 'sc) engine =
  state :: parser_state
  tool_index :: int
  ever_had_token_ids :: bool
  scanner :: 'sc
  lexer :: 'lx
  message_header_buffer :: pystr
  args_buffer :: pystr
  args_safe_end :: nat
  args_brace_depth :: nat
  args_in_string :: bool
  args_escape_next :: bool
  recovered_tool_call :: bool
  pending_between_text :: pystr
  hold_active :: bool
  held_events :: "semantic_event list"
  held_raw :: "pystr list"
  held_name :: "pystr list"
  held_prior_state :: parser_state
  held_prior_tool_index :: int

definition tool_states :: "parser_state set" where
  "tool_states = {TOOL_PREAMBLE, NAME_STATE, TOOL_ARGS, TOOL_BETWEEN}"

section \<open>Construction\<close>

text \<open>
  The tokenizer as the engine sees it: the vocabulary, and the special tokens and ids, which
  are \<^term>\<open>None\<close> for a tokenizer without these attributes.
\<close>

record tokenizer =
  tok_vocab :: "(pystr, int) dict"
  all_special :: "(pystr list \<times> int list) option"

record drop_info =
  extra_token_ids :: "(int, terminal) dict"
  drop_texts :: "pystr set"

definition build_drop_info :: "terminal \<Rightarrow> parser_config \<Rightarrow> tokenizer \<Rightarrow> drop_info option" where
  "build_drop_info drop_t cfg tok =
     (case all_special tok of
        None \<Rightarrow> None
      | Some (special_tokens, special_ids) \<Rightarrow>
          if special_tokens = [] then None
          else (let configured_texts = snd ` set (token_id_terminals cfg) \<union> snd ` set (terminals cfg)
                      \<union> preserve_tokens cfg;
                    extra = filter (\<lambda>(text, tid). text \<notin> configured_texts) (zip special_tokens special_ids)
                in if extra = [] then None
                   else Some \<lparr> extra_token_ids = fold (\<lambda>(text, tid). dput tid drop_t) extra [],
                               drop_texts = fst ` set extra \<rparr>))"

definition resolve_token_ids :: "parser_config \<Rightarrow> tokenizer option \<Rightarrow> (int, terminal) dict" where
  "resolve_token_ids cfg tok =
     (case tok of
        None \<Rightarrow> []
      | Some t \<Rightarrow>
          fold (\<lambda>(terminal_name, token_text) d.
                  case map_of (tok_vocab t) token_text of
                    None \<Rightarrow> d
                  | Some tid \<Rightarrow> dput tid terminal_name d)
            (token_id_terminals cfg) [])"

definition tool_terminals_of :: "parser_config \<Rightarrow> terminal set" where
  "tool_terminals_of cfg =
     (\<lambda>((s, t), tr). t) ` Set.filter (\<lambda>((s, t), tr). next_state tr \<in> tool_states \<or> s \<in> tool_states)
       (set (transitions cfg))"

definition new_setup :: "terminal \<Rightarrow> parser_config \<Rightarrow> tokenizer option \<Rightarrow> engine_setup" where
  "new_setup drop_t cfg tok =
     (let resolved = resolve_token_ids cfg tok;
          info = (case tok of None \<Rightarrow> None | Some t \<Rightarrow> build_drop_info drop_t cfg t);
          all_ids = (case info of None \<Rightarrow> resolved
                     | Some i \<Rightarrow> fold (\<lambda>(tid, t). dput tid t) (extra_token_ids i) resolved)
      in \<lparr> config = cfg, resolved_token_ids = all_ids, has_drops = (info \<noteq> None),
           token_id_terminal_names = snd ` set all_ids, tool_terminals = tool_terminals_of cfg,
           skip_tool_parsing = False, allowed_tool_names = None, suppress_tool_calls = False \<rparr>)"

text \<open>\<open>reset\<close>; the state before it is arbitrary but for the scanner and the lexer.\<close>

definition reset_engine ::
  "('lx, 'sc) frontend \<Rightarrow> engine_setup \<Rightarrow> parser_state option \<Rightarrow> 'lx \<Rightarrow> 'sc \<Rightarrow> ('lx, 'sc) engine" where
  "reset_engine fe s init lx sc =
     (let st = (case init of None \<Rightarrow> initial_state (config s) | Some i \<Rightarrow> i)
      in \<lparr> state = st, tool_index = -1, ever_had_token_ids = False,
           scanner = scan_reset fe sc, lexer = lex_reset fe lx, message_header_buffer = [],
           args_buffer = [], args_safe_end = 0, args_brace_depth = 0, args_in_string = False,
           args_escape_next = False, recovered_tool_call = False, pending_between_text = [],
           hold_active = False, held_events = [], held_raw = [], held_name = [],
           held_prior_state = st, held_prior_tool_index = -1 \<rparr>)"

section \<open>JSON arguments\<close>

text \<open>\<open>_flush_safe_args\<close>: emit the buffer up to the watermark.\<close>

definition flush_safe_args :: "('lx, 'sc) engine \<Rightarrow> semantic_event list \<times> ('lx, 'sc) engine" where
  "flush_safe_args e =
     (if args_safe_end e = 0 then ([], e)
      else ([SemanticEvent ARG_VALUE_CHUNK (Some (take (args_safe_end e) (args_buffer e))) (tool_index e)],
            e\<lparr> args_buffer := drop (args_safe_end e) (args_buffer e), args_safe_end := 0 \<rparr>))"

definition feed_args_char :: "nat \<Rightarrow> ('lx, 'sc) engine \<Rightarrow> semantic_event list \<times> ('lx, 'sc) engine" where
  "feed_args_char c e0 =
     (let e = e0\<lparr> args_buffer := args_buffer e0 @ [c] \<rparr>;
          safe = length (args_buffer e)
      in if args_escape_next e then
           flush_safe_args (e\<lparr> args_escape_next := False, args_safe_end := safe \<rparr>)
         else if args_in_string e then
           flush_safe_args (e\<lparr> args_escape_next := (c = 92), args_in_string := (c \<noteq> 34),
             args_safe_end := safe \<rparr>)
         else if c = 34 then
           flush_safe_args (e\<lparr> args_in_string := True, args_safe_end := safe \<rparr>)
         else if c = 123 \<or> c = 91 then
           flush_safe_args (e\<lparr> args_brace_depth := Suc (args_brace_depth e), args_safe_end := safe \<rparr>)
         else if c = 125 \<or> c = 93 then
           (let d = args_brace_depth e - 1; e1 = e\<lparr> args_brace_depth := d \<rparr>
            in if d = 0 then ([], e1) else flush_safe_args (e1\<lparr> args_safe_end := safe \<rparr>))
         else flush_safe_args (e\<lparr> args_safe_end := safe \<rparr>))"

fun feed_args_text :: "pystr \<Rightarrow> ('lx, 'sc) engine \<Rightarrow> semantic_event list \<times> ('lx, 'sc) engine" where
  "feed_args_text [] e = ([], e)"
| "feed_args_text (c # cs) e =
     (let (evs, e1) = feed_args_char c e; (evs', e2) = feed_args_text cs e1 in (evs @ evs', e2))"

section \<open>Text outside terminals, and the hold\<close>

definition can_grow_into_declared_name :: "engine_setup \<Rightarrow> pystr \<Rightarrow> bool" where
  "can_grow_into_declared_name s candidate =
     (case allowed_tool_names s of None \<Rightarrow> False | Some names \<Rightarrow> \<exists>n \<in> names. prefix candidate n)"

definition clear_hold :: "('lx, 'sc) engine \<Rightarrow> ('lx, 'sc) engine" where
  "clear_hold e = e\<lparr> hold_active := False, held_events := [], held_raw := [], held_name := [] \<rparr>"

lemma clear_hold_inactive [simp]: "\<not> hold_active (clear_hold e)"
  by (simp add: clear_hold_def)

function emit_for_state ::
    "engine_setup \<Rightarrow> pystr \<Rightarrow> ('lx, 'sc) engine \<Rightarrow> semantic_event list \<times> ('lx, 'sc) engine"
  and abort_hold ::
    "engine_setup \<Rightarrow> pystr \<Rightarrow> ('lx, 'sc) engine \<Rightarrow> semantic_event list \<times> ('lx, 'sc) engine" where
  "emit_for_state s text e =
     (if hold_active e \<and> state e = NAME_STATE then
        (if \<not> can_grow_into_declared_name s (concat (held_name e) @ text) then
           abort_hold s (concat (held_raw e) @ text) e
         else ([], e\<lparr> held_raw := held_raw e @ [text], held_name := held_name e @ [text],
                      held_events := held_events e @ [SemanticEvent NAME_EVENT (Some text) (tool_index e)] \<rparr>))
      else if state e = MESSAGE_HEADER then
        ([], e\<lparr> message_header_buffer := message_header_buffer e @ text \<rparr>)
      else if state e = TOOL_ARGS then
        (if tool_args_json (config s) then feed_args_text text e
         else ([SemanticEvent ARG_VALUE_CHUNK (Some text) (tool_index e)], e))
      else (case map_of (content_events (config s)) (state e) of
              Some k \<Rightarrow> ([SemanticEvent k (Some text) (tool_index e)], e)
            | None \<Rightarrow>
                if recovered_tool_call e \<and> state e = TOOL_BETWEEN then
                  (let held = pending_between_text e @ text
                   in if ustrip held \<noteq> []
                      then ([SemanticEvent TEXT_CHUNK (Some held) (tool_index e)], e\<lparr> pending_between_text := [] \<rparr>)
                      else ([], e\<lparr> pending_between_text := held \<rparr>))
                else ([], e)))"
| "abort_hold s raw e =
     emit_for_state s raw
       (clear_hold (e\<lparr> state := held_prior_state e, tool_index := held_prior_tool_index e,
          recovered_tool_call := (held_prior_state e \<in> tool_states) \<rparr>))"
  by pat_completeness auto
termination
  by (relation "measure (\<lambda>x. case x of Inl (s, text, e) \<Rightarrow> if hold_active e then 2 else 0 | Inr y \<Rightarrow> 1)") auto

declare emit_for_state.simps [simp del] abort_hold.simps [simp del]

definition on_content ::
  "engine_setup \<Rightarrow> pystr \<Rightarrow> ('lx, 'sc) engine \<Rightarrow> semantic_event list \<times> ('lx, 'sc) engine" where
  "on_content s text e = (if text = [] then ([], e) else emit_for_state s text e)"

section \<open>Transitions\<close>

text \<open>The loop over \<open>transition.events\<close>.\<close>

fun transition_loop ::
  "bool \<Rightarrow> pystr \<Rightarrow> pystr \<Rightarrow> event_type list \<Rightarrow> int \<Rightarrow> semantic_event list \<times> int" where
  "transition_loop in_header header value [] i = ([], i)"
| "transition_loop in_header header value (k # ks) i =
     (let i' = (if k = TOOL_CALL_START then i + 1 else i);
          v = (if in_header \<and> k = TEXT_CHUNK then header else value);
          (evs, j) = transition_loop in_header header value ks i'
      in (if k = TEXT_CHUNK \<and> v = [] then evs else SemanticEvent k (Some v) i' # evs, j))"

definition run_transition ::
  "transition \<Rightarrow> pystr \<Rightarrow> ('lx, 'sc) engine \<Rightarrow> semantic_event list \<times> ('lx, 'sc) engine" where
  "run_transition tr value e =
     (let flushed = (if state e = TOOL_ARGS \<and> next_state tr \<noteq> TOOL_ARGS then args_buffer e else []);
          in_header = (state e = MESSAGE_HEADER);
          (evs, i) = transition_loop in_header (message_header_buffer e) value (trans_events tr) (tool_index e);
          e1 = e\<lparr> args_buffer := (if flushed \<noteq> [] then [] else args_buffer e),
                  pending_between_text := [],
                  message_header_buffer := (if in_header then [] else message_header_buffer e),
                  recovered_tool_call := (next_state tr \<in> tool_states \<and> recovered_tool_call e),
                  state := next_state tr, tool_index := i \<rparr>;
          e2 = (if next_state tr = TOOL_ARGS
                then e1\<lparr> args_brace_depth := 0, args_in_string := False, args_escape_next := False,
                         args_safe_end := 0 \<rparr>
                else e1)
      in ((if flushed \<noteq> [] then [SemanticEvent ARG_VALUE_CHUNK (Some flushed) (tool_index e)] else []) @ evs, e2))"

definition begin_hold ::
  "transition \<Rightarrow> pystr \<Rightarrow> ('lx, 'sc) engine \<Rightarrow> semantic_event list \<times> ('lx, 'sc) engine" where
  "begin_hold tr value e =
     (let (evs, e1) = run_transition tr value e
      in ([], e1\<lparr> held_events := evs, held_raw := [value], held_name := [],
                  held_prior_state := state e, held_prior_tool_index := tool_index e,
                  hold_active := True, recovered_tool_call := True \<rparr>))"

definition resolve_hold ::
  "engine_setup \<Rightarrow> transition \<Rightarrow> pystr \<Rightarrow> ('lx, 'sc) engine \<Rightarrow> semantic_event list \<times> ('lx, 'sc) engine" where
  "resolve_hold s tr value e =
     (if (case allowed_tool_names s of None \<Rightarrow> False | Some names \<Rightarrow> concat (held_name e) \<in> names) then
        (let (evs, e1) = run_transition tr value (clear_hold e) in (held_events e @ evs, e1))
      else abort_hold s (concat (held_raw e) @ value) e)"

definition apply_transition ::
  "engine_setup \<Rightarrow> transition \<Rightarrow> pystr \<Rightarrow> ('lx, 'sc) engine \<Rightarrow> semantic_event list \<times> ('lx, 'sc) engine" where
  "apply_transition s tr value e =
     (if hold_active e then resolve_hold s tr value e
      else if validate_tool_name tr then
        (if suppress_tool_calls s \<or> allowed_tool_names s = None then emit_for_state s value e
         else begin_hold tr value e)
      else run_transition tr value e)"

text \<open>\<open>_on_terminal\<close> calls itself once after a hold is aborted, which no hold survives.\<close>

definition args_frame :: "('lx, 'sc) engine \<Rightarrow> ('lx, 'sc) engine \<Rightarrow> bool" where
  "args_frame e e' \<longleftrightarrow> e' = e\<lparr> args_buffer := args_buffer e', args_safe_end := args_safe_end e',
     args_brace_depth := args_brace_depth e', args_in_string := args_in_string e',
     args_escape_next := args_escape_next e' \<rparr>"

lemma flush_safe_args_frame: "args_frame e e1 \<Longrightarrow> args_frame e (snd (flush_safe_args e1))"
  unfolding args_frame_def flush_safe_args_def by (cases e; cases e1) simp

lemma args_frame_updates [simp]:
  "args_frame e e"
  "args_frame e (e1\<lparr> args_buffer := b \<rparr>) = args_frame e e1"
  "args_frame e (e1\<lparr> args_safe_end := n \<rparr>) = args_frame e e1"
  "args_frame e (e1\<lparr> args_brace_depth := d \<rparr>) = args_frame e e1"
  "args_frame e (e1\<lparr> args_in_string := i \<rparr>) = args_frame e e1"
  "args_frame e (e1\<lparr> args_escape_next := x \<rparr>) = args_frame e e1"
  unfolding args_frame_def by (cases e; cases e1; simp)+

lemma feed_args_char_frame: "args_frame e (snd (feed_args_char c e))"
  by (simp add: feed_args_char_def Let_def flush_safe_args_frame)

lemma args_frame_trans: "args_frame e e1 \<Longrightarrow> args_frame e1 e2 \<Longrightarrow> args_frame e e2"
  unfolding args_frame_def by (cases e; cases e1; cases e2) simp

lemma feed_args_text_frame: "args_frame e (snd (feed_args_text cs e))"
proof (induction cs arbitrary: e)
  case (Cons c cs)
  have "snd (feed_args_text (c # cs) e) = snd (feed_args_text cs (snd (feed_args_char c e)))"
    by (simp add: Let_def split_beta)
  with Cons feed_args_char_frame [of e c] show ?case by (metis args_frame_trans)
qed (simp add: args_frame_def)

lemma args_frame_sel:
  assumes "args_frame e e'"
  shows "state e' = state e" "tool_index e' = tool_index e" "hold_active e' = hold_active e"
    "held_events e' = held_events e" "held_raw e' = held_raw e" "held_name e' = held_name e"
    "held_prior_state e' = held_prior_state e" "held_prior_tool_index e' = held_prior_tool_index e"
    "recovered_tool_call e' = recovered_tool_call e" "scanner e' = scanner e" "lexer e' = lexer e"
    "ever_had_token_ids e' = ever_had_token_ids e"
    "message_header_buffer e' = message_header_buffer e"
    "pending_between_text e' = pending_between_text e"
  by (subst assms [unfolded args_frame_def], simp)+

lemmas feed_args_text_sel [simp] = args_frame_sel [OF feed_args_text_frame]

lemma emit_for_state_inactive:
  "\<not> hold_active e \<Longrightarrow> \<not> hold_active (snd (emit_for_state s text e))"
  by (subst emit_for_state.simps) (auto simp: Let_def split: option.splits)

lemma abort_hold_inactive [simp]: "\<not> hold_active (snd (abort_hold s raw e))"
  by (simp add: abort_hold.simps emit_for_state_inactive)

lemma abort_hold_leaves_inactive: "(evs, e') = abort_hold s raw e \<Longrightarrow> \<not> hold_active e'"
  by (metis abort_hold_inactive snd_conv)

function on_terminal ::
  "('lx, 'sc) frontend \<Rightarrow> engine_setup \<Rightarrow> terminal \<Rightarrow> pystr \<Rightarrow> ('lx, 'sc) engine
     \<Rightarrow> semantic_event list \<times> ('lx, 'sc) engine" where
  "on_terminal fe s terminal value e =
     (case map_of (transitions (config s)) (state e, terminal) of
        None \<Rightarrow>
          if has_drops s \<and> terminal = drop_terminal fe then ([], e)
          else if hold_active e \<and> state e = NAME_STATE then
            (case abort_hold s (concat (held_raw e)) e of
               (evs, e1) \<Rightarrow> (case on_terminal fe s terminal value e1 of (evs', e2) \<Rightarrow> (evs @ evs', e2)))
          else emit_for_state s value e
      | Some tr \<Rightarrow>
          if skip_tool_parsing s \<and> terminal \<in> tool_terminals s then
            (if state e = MESSAGE_HEADER then
               ([SemanticEvent TEXT_CHUNK (Some value) (tool_index e)],
                e\<lparr> state := CONTENT, message_header_buffer := [] \<rparr>)
             else if REASONING_END \<in> set (trans_events tr) then
               ([SemanticEvent REASONING_END (Some value) (tool_index e),
                 SemanticEvent TEXT_CHUNK (Some value) (tool_index e)], e\<lparr> state := CONTENT \<rparr>)
             else (case map_of (content_events (config s)) (state e) of
                     Some k \<Rightarrow> ([SemanticEvent k (Some value) (tool_index e)], e)
                   | None \<Rightarrow> ([], e)))
          else if skip_in_token_id_mode tr \<and> ever_had_token_ids e then emit_for_state s value e
          else apply_transition s tr value e)"
  by pat_completeness auto
termination
  by (relation "measure (\<lambda>(fe, s, t, v, e). if hold_active e then 1 else 0)")
    (auto dest: abort_hold_leaves_inactive)

declare on_terminal.simps [simp del]

section \<open>Tokens, deltas and the end of the stream\<close>

text \<open>
  \<open>_process_lex_tokens\<close>: once token ids have been seen, a terminal that has a token id counts
  only when the scanner found it, and its text in the lexer's output is content.
\<close>

fun lex_token_loop ::
  "('lx, 'sc) frontend \<Rightarrow> engine_setup \<Rightarrow> bool \<Rightarrow> lex_token list \<Rightarrow> ('lx, 'sc) engine
     \<Rightarrow> semantic_event list \<times> ('lx, 'sc) engine" where
  "lex_token_loop fe s strict [] e = ([], e)"
| "lex_token_loop fe s strict (LexToken t v # toks) e =
     (let (evs, e1) =
            (if t = content_terminal fe \<or> strict \<and> t \<in> token_id_terminal_names s
             then on_content s v e else on_terminal fe s t v e);
          (evs', e2) = lex_token_loop fe s strict toks e1
      in (evs @ evs', e2))"

definition process_lex_tokens ::
  "('lx, 'sc) frontend \<Rightarrow> engine_setup \<Rightarrow> lex_token list \<Rightarrow> ('lx, 'sc) engine
     \<Rightarrow> semantic_event list \<times> ('lx, 'sc) engine" where
  "process_lex_tokens fe s toks e = lex_token_loop fe s (ever_had_token_ids e) toks e"

text \<open>The tokens of one call of the lexer, run through the state machine.\<close>

definition lex_and_process ::
  "('lx, 'sc) frontend \<Rightarrow> engine_setup \<Rightarrow> lex_token list \<times> 'lx \<Rightarrow> ('lx, 'sc) engine
     \<Rightarrow> semantic_event list \<times> ('lx, 'sc) engine" where
  "lex_and_process fe s r e = process_lex_tokens fe s (fst r) (e\<lparr> lexer := snd r \<rparr>)"

fun process_scanner_items ::
  "('lx, 'sc) frontend \<Rightarrow> engine_setup \<Rightarrow> lexer_input list \<Rightarrow> ('lx, 'sc) engine
     \<Rightarrow> semantic_event list \<times> ('lx, 'sc) engine" where
  "process_scanner_items fe s [] e = ([], e)"
| "process_scanner_items fe s (PreLexedTerminal t v # items) e =
     (let (evs1, e1) = lex_and_process fe s (lex_flush fe (lexer e)) e;
          (evs2, e2) = on_terminal fe s t v e1;
          (evs3, e3) = process_scanner_items fe s items e2
      in (evs1 @ evs2 @ evs3, e3))"
| "process_scanner_items fe s (Text_chunk v # items) e =
     (let (evs1, e1) = lex_and_process fe s (lex_feed fe (lexer e) v) e;
          (evs2, e2) = process_scanner_items fe s items e1
      in (evs1 @ evs2, e2))"

text \<open>\<open>feed\<close> with its two short cuts.\<close>

definition feed ::
  "('lx, 'sc) frontend \<Rightarrow> engine_setup \<Rightarrow> pystr \<Rightarrow> int list \<Rightarrow> ('lx, 'sc) engine
     \<Rightarrow> semantic_event list \<times> ('lx, 'sc) engine" where
  "feed fe s delta_text delta_token_ids e0 =
     (let e = e0\<lparr> ever_had_token_ids := (ever_had_token_ids e0 \<or> delta_token_ids \<noteq> []) \<rparr>
      in if delta_text \<noteq> [] \<and> lex_buffer fe (lexer e) = [] \<and> deferred_terminals fe (scanner e) = []
            \<and> (\<forall>c \<in> set delta_text. c \<notin> literal_first_chars fe (lexer e))
            \<and> (\<forall>tid \<in> set delta_token_ids. map_of (resolved_token_ids s) tid = None)
         then emit_for_state s delta_text e
         else (let (items, sc) = scan fe (scanner e) delta_text delta_token_ids;
                   e1 = e\<lparr> scanner := sc \<rparr>
               in case items of
                    [Text_chunk text] \<Rightarrow>
                      (let (toks, lx) = lex_feed fe (lexer e1) text; e2 = e1\<lparr> lexer := lx \<rparr>
                       in case toks of
                            [LexToken t v] \<Rightarrow>
                              if t = content_terminal fe then emit_for_state s v e2
                              else process_lex_tokens fe s toks e2
                          | _ \<Rightarrow> process_lex_tokens fe s toks e2)
                  | _ \<Rightarrow> process_scanner_items fe s items e1))"

text \<open>The end of \<open>finish\<close>: what the state the stream stopped in still owes.\<close>

definition close_state :: "('lx, 'sc) engine \<Rightarrow> semantic_event list \<times> ('lx, 'sc) engine" where
  "close_state e =
     (if state e \<in> {TOOL_PREAMBLE, TOOL_ARGS, NAME_STATE, TOOL_BETWEEN} then
        (if tool_index e \<ge> 0 then [SemanticEvent TOOL_CALL_END None (tool_index e)] else [],
         e\<lparr> state := CONTENT \<rparr>)
      else if state e = REASONING then
        ([SemanticEvent REASONING_END None (tool_index e)], e\<lparr> state := CONTENT \<rparr>)
      else if state e = MESSAGE_HEADER then
        (if message_header_buffer e \<noteq> []
         then ([SemanticEvent TEXT_CHUNK (Some (message_header_buffer e)) (tool_index e)],
               e\<lparr> message_header_buffer := [], state := CONTENT \<rparr>)
         else ([], e\<lparr> state := CONTENT \<rparr>))
      else ([], e))"

text \<open>The buffered arguments, given out at the end.\<close>

definition flush_args :: "('lx, 'sc) engine \<Rightarrow> semantic_event list \<times> ('lx, 'sc) engine" where
  "flush_args e =
     (if args_buffer e \<noteq> []
      then ([SemanticEvent ARG_VALUE_CHUNK (Some (args_buffer e)) (tool_index e)],
            e\<lparr> args_buffer := [], args_safe_end := 0 \<rparr>)
      else ([], e))"

text \<open>What \<open>finish\<close> does before it closes the state.\<close>

definition finish_pending ::
  "('lx, 'sc) frontend \<Rightarrow> engine_setup \<Rightarrow> ('lx, 'sc) engine \<Rightarrow> semantic_event list \<times> ('lx, 'sc) engine" where
  "finish_pending fe s e0 =
     (let (items, sc) = scan_flush_pending fe (scanner e0);
          (evs1, e1) = process_scanner_items fe s items (e0\<lparr> scanner := sc \<rparr>);
          (evs2, e2) = lex_and_process fe s (lex_flush fe (lexer e1)) e1;
          (evs3, e3) = (if hold_active e2 then abort_hold s (concat (held_raw e2)) e2 else ([], e2));
          (evs4, e4) = flush_args e3
      in (evs1 @ evs2 @ evs3 @ evs4, e4))"

definition finish ::
  "('lx, 'sc) frontend \<Rightarrow> engine_setup \<Rightarrow> ('lx, 'sc) engine \<Rightarrow> semantic_event list \<times> ('lx, 'sc) engine" where
  "finish fe s e =
     (let (evs, e1) = finish_pending fe s e; (evs', e2) = close_state e1 in (evs @ evs', e2))"

definition parse_complete ::
  "('lx, 'sc) frontend \<Rightarrow> engine_setup \<Rightarrow> pystr \<Rightarrow> ('lx, 'sc) engine
     \<Rightarrow> semantic_event list \<times> ('lx, 'sc) engine" where
  "parse_complete fe s text e =
     (let (evs, e1) = feed fe s text [] e; (evs', e2) = finish fe s e1 in (evs @ evs', e2))"

text \<open>A stream of deltas.\<close>

fun feed_all ::
  "('lx, 'sc) frontend \<Rightarrow> engine_setup \<Rightarrow> (pystr \<times> int list) list \<Rightarrow> ('lx, 'sc) engine
     \<Rightarrow> semantic_event list \<times> ('lx, 'sc) engine" where
  "feed_all fe s [] e = ([], e)"
| "feed_all fe s ((text, ids) # ds) e =
     (let (evs, e1) = feed fe s text ids e; (evs', e2) = feed_all fe s ds e1 in (evs @ evs', e2))"

end
