(* ===== verification/StreamMonitor.thy ===== *)
theory StreamMonitor
  imports StreamEngine
begin

text \<open>
  A contract for properties of the engine's event stream. A monitor reads the events; an
  invariant ties its state to the engine's. The client has to show that the state machine
  keeps the two together; the lemmas extend this to the token loop, to \<open>feed\<close> and to what
  \<open>finish\<close> does before it closes the last state, for every scanner and lexer.
\<close>

definition keeps ::
  "('ev list \<Rightarrow> 'm \<Rightarrow> 'm option) \<Rightarrow> ('m \<Rightarrow> 's \<Rightarrow> bool) \<Rightarrow> 'm \<Rightarrow> 'ev list \<times> 's \<Rightarrow> bool" where
  "keeps accept ok m r \<longleftrightarrow> (case accept (fst r) m of None \<Rightarrow> False | Some m' \<Rightarrow> ok m' (snd r))"

lemma keepsI: "accept evs m = Some m' \<Longrightarrow> ok m' e \<Longrightarrow> keeps accept ok m (evs, e)"
  by (simp add: keeps_def)

lemma keepsE:
  assumes "keeps accept ok m (evs, e)"
  obtains m' where "accept evs m = Some m'" "ok m' e"
  using assms by (auto simp: keeps_def split: option.splits)

locale engine_monitor =
  fixes fe :: "('lx, 'sc) frontend" and s :: engine_setup
    and accept :: "semantic_event list \<Rightarrow> 'm \<Rightarrow> 'm option"
    and inv :: "'m \<Rightarrow> ('lx, 'sc) engine \<Rightarrow> bool"
  assumes accept_Nil: "accept [] m = Some m"
    and accept_append: "accept (xs @ ys) m = (case accept xs m of None \<Rightarrow> None | Some m' \<Rightarrow> accept ys m')"
    and inv_scanner: "inv m e \<Longrightarrow> inv m (e\<lparr> scanner := sc \<rparr>)"
    and inv_lexer: "inv m e \<Longrightarrow> inv m (e\<lparr> lexer := lx \<rparr>)"
    and inv_seen_ids: "inv m e \<Longrightarrow> inv m (e\<lparr> ever_had_token_ids := b \<rparr>)"
    and emit_keeps: "inv m e \<Longrightarrow> keeps accept inv m (emit_for_state s t e)"
    and terminal_keeps: "inv m e \<Longrightarrow> keeps accept inv m (on_terminal fe s trm v e)"
    and abort_keeps: "inv m e \<Longrightarrow> hold_active e \<Longrightarrow> keeps accept inv m (abort_hold s (concat (held_raw e)) e)"
    and flush_keeps: "inv m e \<Longrightarrow> \<not> hold_active e \<Longrightarrow> keeps accept inv m (flush_args e)"
begin

lemma keeps_none: "inv m e \<Longrightarrow> keeps accept inv m ([], e)"
  by (simp add: keeps_def accept_Nil)

lemma keeps_seq:
  assumes "keeps accept inv m (evs, e)" and "\<And>m'. inv m' e \<Longrightarrow> keeps accept inv m' (evs', e')"
  shows "keeps accept inv m (evs @ evs', e')"
proof -
  from assms(1) obtain m' where "accept evs m = Some m'" "inv m' e" by (rule keepsE)
  with assms(2) [of m'] show ?thesis by (simp add: keeps_def accept_append split: option.splits)
qed

lemma content_keeps: "inv m e \<Longrightarrow> keeps accept inv m (on_content s t e)"
  by (simp add: on_content_def keeps_none emit_keeps)

lemma token_loop_keeps: "inv m e \<Longrightarrow> keeps accept inv m (lex_token_loop fe s strict toks e)"
proof (induction toks arbitrary: m e)
  case (Cons tok toks)
  obtain t v where tok: "tok = LexToken t v" by (cases tok)
  let ?r = "if t = content_terminal fe \<or> strict \<and> t \<in> token_id_terminal_names s
            then on_content s v e else on_terminal fe s t v e"
  have "keeps accept inv m ?r"
    using Cons.prems by (simp add: content_keeps terminal_keeps)
  then have "keeps accept inv m (fst ?r, snd ?r)" by simp
  from keeps_seq [OF this, of "fst (lex_token_loop fe s strict toks (snd ?r))"
      "snd (lex_token_loop fe s strict toks (snd ?r))"] Cons.IH
  show ?case unfolding tok by (simp add: Let_def split_beta)
qed (simp add: keeps_none)

lemma tokens_keep: "inv m e \<Longrightarrow> keeps accept inv m (process_lex_tokens fe s toks e)"
  unfolding process_lex_tokens_def by (rule token_loop_keeps)

lemma lex_keeps: "inv m e \<Longrightarrow> keeps accept inv m (lex_and_process fe s r e)"
  unfolding lex_and_process_def by (rule tokens_keep, rule inv_lexer)

lemma items_keep: "inv m e \<Longrightarrow> keeps accept inv m (process_scanner_items fe s items e)"
proof (induction items arbitrary: m e)
  case (Cons item items)
  show ?case
  proof (cases item)
    case (PreLexedTerminal t v)
    obtain evs1 e1 where 1: "lex_and_process fe s (lex_flush fe (lexer e)) e = (evs1, e1)" by fastforce
    obtain evs2 e2 where 2: "on_terminal fe s t v e1 = (evs2, e2)" by fastforce
    obtain evs3 e3 where 3: "process_scanner_items fe s items e2 = (evs3, e3)" by fastforce
    have "keeps accept inv m' (evs2 @ evs3, e3)" if "inv m' e1" for m'
      by (rule keeps_seq [of _ _ e2]) (metis that terminal_keeps 2, metis Cons.IH 3)
    then show ?thesis
      using keeps_seq [of m evs1 e1] lex_keeps [OF Cons.prems, of "lex_flush fe (lexer e)"] 1 2 3
      by (simp add: PreLexedTerminal)
  next
    case (Text_chunk v)
    obtain evs1 e1 where 1: "lex_and_process fe s (lex_feed fe (lexer e) v) e = (evs1, e1)" by fastforce
    obtain evs2 e2 where 2: "process_scanner_items fe s items e1 = (evs2, e2)" by fastforce
    have "keeps accept inv m' (evs2, e2)" if "inv m' e1" for m'
      using Cons.IH [OF that] 2 by simp
    then show ?thesis
      using keeps_seq [of m evs1 e1] lex_keeps [OF Cons.prems, of "lex_feed fe (lexer e) v"] 1 2
      by (simp add: Text_chunk)
  qed
qed (simp add: keeps_none)

lemma feed_keeps:
  assumes "inv m e"
  shows "keeps accept inv m (feed fe s text ids e)"
  using assms unfolding feed_def
  by (auto simp: Let_def split: prod.split list.split lexer_input.split lex_token.split if_split
      intro!: emit_keeps tokens_keep items_keep inv_lexer inv_scanner inv_seen_ids
      simp del: process_scanner_items.simps)

lemma feed_all_keeps: "inv m e \<Longrightarrow> keeps accept inv m (feed_all fe s ds e)"
proof (induction ds arbitrary: m e)
  case (Cons d ds)
  obtain tx ids where d: "d = (tx, ids)" by (cases d)
  obtain evs1 e1 where 1: "feed fe s tx ids e = (evs1, e1)" by fastforce
  obtain evs2 e2 where 2: "feed_all fe s ds e1 = (evs2, e2)" by fastforce
  have "keeps accept inv m' (evs2, e2)" if "inv m' e1" for m'
    using Cons.IH [OF that] 2 by simp
  then show ?case
    using keeps_seq [of m evs1 e1] feed_keeps [OF Cons.prems, of tx ids] 1 2 by (simp add: d)
qed (simp add: keeps_none)

lemma finish_pending_keeps:
  assumes "inv m e"
  shows "keeps accept inv m (finish_pending fe s e)"
proof -
  obtain items sc where 0: "scan_flush_pending fe (scanner e) = (items, sc)" by fastforce
  obtain evs1 e1 where 1: "process_scanner_items fe s items (e\<lparr> scanner := sc \<rparr>) = (evs1, e1)" by fastforce
  obtain evs2 e2 where 2: "lex_and_process fe s (lex_flush fe (lexer e1)) e1 = (evs2, e2)" by fastforce
  obtain evs3 e3 where 3: "(if hold_active e2 then abort_hold s (concat (held_raw e2)) e2 else ([], e2)) = (evs3, e3)"
    by fastforce
  obtain evs4 e4 where 4: "flush_args e3 = (evs4, e4)" by fastforce
  have inactive: "\<not> hold_active e3"
    using 3 by (metis abort_hold_inactive snd_conv)
  have "keeps accept inv m' (evs4, e4)" if "inv m' e3" for m'
    using flush_keeps [OF that inactive] 4 by simp
  moreover have "keeps accept inv m' (evs3, e3)" if "inv m' e2" for m'
    using 3 abort_keeps [OF that] keeps_none [OF that] by (metis (full_types))
  ultimately have "keeps accept inv m' (evs3 @ evs4, e4)" if "inv m' e2" for m'
    using keeps_seq that by blast
  moreover have "keeps accept inv m' (evs2, e2)" if "inv m' e1" for m'
    using lex_keeps [OF that] 2 by metis
  ultimately have "keeps accept inv m' (evs2 @ evs3 @ evs4, e4)" if "inv m' e1" for m'
    using keeps_seq that by blast
  moreover have "keeps accept inv m (evs1, e1)"
    using items_keep [OF inv_scanner [OF assms]] 1 by metis
  ultimately show ?thesis
    using keeps_seq 0 1 2 3 4 by (simp add: finish_pending_def)
qed

end

end
