(* ===== verification/StreamProtocol.thy ===== *)
theory StreamProtocol
  imports StreamMonitor
begin

text \<open>
  The event protocol of the streaming parser: every tool call is opened once, under the next
  index, its name comes before its arguments, it is closed once, and text and reasoning come
  only between calls.  The check \<open>config_ok\<close> of a transition table is executable; both DSML
  formats pass it, and the engine keeps the protocol for every table that does.
\<close>

section \<open>The protocol\<close>

datatype phase = Idle | Naming | Arguing

fun phase_step :: "event_type \<Rightarrow> phase \<Rightarrow> phase option" where
  "phase_step TOOL_CALL_START Idle = Some Naming"
| "phase_step event_type.TOOL_NAME Naming = Some Naming"
| "phase_step ARG_VALUE_CHUNK Naming = Some Arguing"
| "phase_step ARG_VALUE_CHUNK Arguing = Some Arguing"
| "phase_step TOOL_CALL_END Naming = Some Idle"
| "phase_step TOOL_CALL_END Arguing = Some Idle"
| "phase_step TEXT_CHUNK Idle = Some Idle"
| "phase_step REASONING_START Idle = Some Idle"
| "phase_step REASONING_CHUNK Idle = Some Idle"
| "phase_step REASONING_END Idle = Some Idle"
| "phase_step _ _ = None"

definition call_event :: "event_type \<Rightarrow> bool" where
  "call_event k \<longleftrightarrow> k \<in> {TOOL_CALL_START, NAME_EVENT, ARG_VALUE_CHUNK, TOOL_CALL_END}"

text \<open>The state of the monitor: the phase and the index of the last call that was opened.\<close>

fun proto_step :: "semantic_event \<Rightarrow> phase \<times> int \<Rightarrow> (phase \<times> int) option" where
  "proto_step (SemanticEvent k v i) (p, n) =
     (let n' = (if k = TOOL_CALL_START then n + 1 else n)
      in if call_event k \<and> i \<noteq> n' then None
         else case phase_step k p of None \<Rightarrow> None | Some q \<Rightarrow> Some (q, n'))"

fun proto_run :: "semantic_event list \<Rightarrow> phase \<times> int \<Rightarrow> (phase \<times> int) option" where
  "proto_run [] m = Some m"
| "proto_run (e # es) m = (case proto_step e m of None \<Rightarrow> None | Some m' \<Rightarrow> proto_run es m')"

lemma proto_run_append:
  "proto_run (xs @ ys) m = (case proto_run xs m of None \<Rightarrow> None | Some m' \<Rightarrow> proto_run ys m')"
  by (induction xs arbitrary: m) (auto split: option.split)

section \<open>The check of a transition table\<close>

fun phase_run :: "event_type list \<Rightarrow> phase \<Rightarrow> phase option" where
  "phase_run [] p = Some p"
| "phase_run (k # ks) p = (case phase_step k p of None \<Rightarrow> None | Some q \<Rightarrow> phase_run ks q)"

fun fits :: "phase \<Rightarrow> parser_state \<Rightarrow> bool" where
  "fits p parser_state.TOOL_NAME \<longleftrightarrow> p = Naming"
| "fits p TOOL_ARGS \<longleftrightarrow> p \<noteq> Idle"
| "fits p _ \<longleftrightarrow> p = Idle"

text \<open>From every phase that fits the source the events lead to one that fits the target.\<close>

definition leads :: "parser_state \<Rightarrow> event_type list \<Rightarrow> parser_state \<Rightarrow> bool" where
  "leads s ks t \<longleftrightarrow>
     list_all (\<lambda>p. fits p s \<longrightarrow> (case phase_run ks p of None \<Rightarrow> False | Some q \<Rightarrow> fits q t))
       [Idle, Naming, Arguing]"

lemma leadsD: "leads s ks t \<Longrightarrow> fits p s \<Longrightarrow> \<exists>q. phase_run ks p = Some q \<and> fits q t"
  by (cases p) (auto simp: leads_def split: option.splits)

definition transition_ok :: "(parser_state \<times> terminal) \<times> transition \<Rightarrow> bool" where
  "transition_ok x = (case x of ((s, t), tr) \<Rightarrow>
     leads s (trans_events tr) (next_state tr)
     \<and> (REASONING_END \<in> set (trans_events tr) \<longrightarrow> fits Idle s)
     \<and> (validate_tool_name tr \<longrightarrow> next_state tr = NAME_STATE \<and> fits Idle s))"

definition config_ok :: "parser_config \<Rightarrow> bool" where
  "config_ok cfg \<longleftrightarrow> list_all transition_ok (transitions cfg)
     \<and> list_all (\<lambda>(s, k). leads s [k] s) (content_events cfg)"

lemma deepseek_v4_config_ok: "config_ok (deepseek_v4_config conv thinking)"
  by (simp add: config_ok_def deepseek_v4_config_def transition_ok_def leads_def)

lemma deepseek_v32_config_ok: "config_ok (deepseek_v32_config conv)"
  by (simp add: config_ok_def deepseek_v32_config_def transition_ok_def leads_def)

lemma config_ok_transition:
  assumes "config_ok cfg" "map_of (transitions cfg) (s, t) = Some tr"
  shows "leads s (trans_events tr) (next_state tr)"
    "REASONING_END \<in> set (trans_events tr) \<Longrightarrow> fits Idle s"
    "validate_tool_name tr \<Longrightarrow> next_state tr = NAME_STATE"
    "validate_tool_name tr \<Longrightarrow> fits Idle s"
proof -
  have "((s, t), tr) \<in> set (transitions cfg)" using assms(2) by (rule map_of_SomeD)
  with assms(1) have "transition_ok ((s, t), tr)" by (simp add: config_ok_def list_all_iff)
  then show "leads s (trans_events tr) (next_state tr)"
    "REASONING_END \<in> set (trans_events tr) \<Longrightarrow> fits Idle s"
    "validate_tool_name tr \<Longrightarrow> next_state tr = NAME_STATE"
    "validate_tool_name tr \<Longrightarrow> fits Idle s"
    by (simp_all add: transition_ok_def)
qed

lemma config_ok_content: "config_ok cfg \<Longrightarrow> map_of (content_events cfg) s = Some k \<Longrightarrow> leads s [k] s"
  by (auto simp: config_ok_def list_all_iff dest!: map_of_SomeD)

section \<open>Events against the protocol\<close>

lemma proto_step_phase:
  "phase_step k p = Some q \<Longrightarrow> k \<noteq> TOOL_CALL_START \<Longrightarrow> proto_step (SemanticEvent k v n) (p, n) = Some (q, n)"
  by (simp add: Let_def)

lemma content_step:
  assumes "leads s [k] s" "fits p s" "k \<noteq> TOOL_CALL_START"
  shows "\<exists>q. proto_run [SemanticEvent k v n] (p, n) = Some (q, n) \<and> fits q s"
  using leadsD [OF assms(1,2)] assms(3) by (auto simp: Let_def split: option.splits)

text \<open>A table never lists the start of a call as the event of plain content.\<close>

lemma leads_not_start: "leads s [k] s \<Longrightarrow> k \<noteq> TOOL_CALL_START"
  by (cases s) (auto simp: leads_def)

text \<open>The loop over the events of a transition, whatever it leaves out.\<close>

lemma transition_loop_proto:
  assumes "transition_loop h hdr v ks n = (evs, j)" "phase_run ks p = Some q"
  shows "proto_run evs (p, n) = Some (q, j)"
  using assms
proof (induction ks arbitrary: n evs p)
  case (Cons k ks)
  let ?n = "if k = TOOL_CALL_START then n + 1 else n"
  obtain p' where p': "phase_step k p = Some p'" "phase_run ks p' = Some q"
    using Cons.prems(2) by (auto split: option.splits)
  obtain evs' j' where loop: "transition_loop h hdr v ks ?n = (evs', j')" by fastforce
  with Cons.prems(1) have j: "j' = j" by (auto simp: Let_def split: if_splits)
  have rest: "proto_run evs' (p', ?n) = Some (q, j)"
    using Cons.IH [OF loop [unfolded j] p'(2)] .
  have skip: "p' = p" if "k = TEXT_CHUNK"
    using p'(1) that by (cases p) auto
  show ?case
    using Cons.prems(1) loop j rest skip p'(1) by (auto simp: Let_def split: if_splits)
qed simp

lemma transition_loop_index:
  "transition_loop h hdr v ks n = (evs, j) \<Longrightarrow> n \<le> j"
  by (induction ks arbitrary: n evs) (fastforce simp: Let_def split: prod.splits if_splits)+

lemma feed_args_char_proto:
  "p \<noteq> Idle \<Longrightarrow> \<exists>q. proto_run (fst (feed_args_char c e)) (p, tool_index e) = Some (q, tool_index e) \<and> q \<noteq> Idle"
proof -
  assume "p \<noteq> Idle"
  then have arg: "proto_run [SemanticEvent ARG_VALUE_CHUNK v n] (p, n) = Some (Arguing, n)" for v n
    by (cases p) (simp_all add: Let_def)
  have "fst (feed_args_char c e) = [] \<or> (\<exists>v. fst (feed_args_char c e) = [SemanticEvent ARG_VALUE_CHUNK v (tool_index e)])"
    by (simp add: feed_args_char_def flush_safe_args_def Let_def)
  with arg \<open>p \<noteq> Idle\<close> show ?thesis by force
qed

lemma feed_args_text_proto:
  "p \<noteq> Idle \<Longrightarrow> \<exists>q. proto_run (fst (feed_args_text cs e)) (p, tool_index e) = Some (q, tool_index e) \<and> q \<noteq> Idle"
proof (induction cs arbitrary: p e)
  case (Cons c cs)
  let ?e = "snd (feed_args_char c e)"
  have ix: "tool_index ?e = tool_index e"
    by (rule args_frame_sel(2) [OF feed_args_char_frame])
  obtain q where q: "proto_run (fst (feed_args_char c e)) (p, tool_index e) = Some (q, tool_index e)" "q \<noteq> Idle"
    using feed_args_char_proto [OF Cons.prems] by blast
  from Cons.IH [OF q(2), of ?e] q(1) show ?case
    by (simp add: Let_def split_beta proto_run_append ix)
qed simp

section \<open>The invariant\<close>

definition setup_ok :: "engine_setup \<Rightarrow> bool" where
  "setup_ok s \<longleftrightarrow> config_ok (config s) \<and> tool_terminals s = tool_terminals_of (config s)"

text \<open>
  While a hold is active the emitted events stop before the held call; the held ones would
  lead the monitor to where the engine is.
\<close>

definition hold_ok :: "engine_setup \<Rightarrow> phase \<times> int \<Rightarrow> ('lx, 'sc) engine \<Rightarrow> bool" where
  "hold_ok s m e \<longleftrightarrow> state e = NAME_STATE \<and> \<not> skip_tool_parsing s \<and> fst m = Idle
     \<and> fits Idle (held_prior_state e) \<and> held_prior_tool_index e = snd m
     \<and> proto_run (held_events e) m = Some (Naming, tool_index e)"

definition tracks :: "engine_setup \<Rightarrow> phase \<times> int \<Rightarrow> ('lx, 'sc) engine \<Rightarrow> bool" where
  "tracks s m e \<longleftrightarrow> setup_ok s \<and> (args_buffer e \<noteq> [] \<longrightarrow> state e = TOOL_ARGS)
     \<and> (if hold_active e then hold_ok s m e else fits (fst m) (state e) \<and> snd m = tool_index e)"

lemma tracks_scanner [simp]: "tracks s m (e\<lparr> scanner := x \<rparr>) = tracks s m e"
  and tracks_lexer [simp]: "tracks s m (e\<lparr> lexer := y \<rparr>) = tracks s m e"
  and tracks_seen_ids [simp]: "tracks s m (e\<lparr> ever_had_token_ids := b \<rparr>) = tracks s m e"
  and tracks_header [simp]: "tracks s m (e\<lparr> message_header_buffer := h \<rparr>) = tracks s m e"
  and tracks_pending [simp]: "tracks s m (e\<lparr> pending_between_text := h \<rparr>) = tracks s m e"
  by (simp_all add: tracks_def hold_ok_def)

lemma fits_Idle_D: "fits Idle t \<Longrightarrow> t \<noteq> TOOL_ARGS \<and> t \<noteq> NAME_STATE"
  by (cases t) auto

lemma fits_unique: "fits Idle t \<Longrightarrow> fits p t \<Longrightarrow> p = Idle"
  by (cases t) auto

lemma fits_args: "fits p TOOL_ARGS \<Longrightarrow> p \<noteq> Idle"
  by simp

lemma emit_inactive_tracks:
  assumes "tracks s m e" "\<not> hold_active e"
  shows "keeps proto_run (tracks s) m (emit_for_state s t e)"
proof -
  obtain p n where m: "m = (p, n)" by (cases m)
  from assms have ok: "config_ok (config s)" "fits p (state e)" "n = tool_index e"
    by (simp_all add: tracks_def m setup_ok_def)
  show ?thesis
  proof (cases "state e = MESSAGE_HEADER \<or> state e = TOOL_ARGS")
    case True
    then show ?thesis
    proof
      assume "state e = MESSAGE_HEADER"
      with assms show ?thesis
        by (subst emit_for_state.simps) (simp add: keeps_def)
    next
      assume st: "state e = TOOL_ARGS"
      show ?thesis
      proof (cases "tool_args_json (config s)")
        case True
        from feed_args_text_proto [of p t e] ok st obtain q where
          "proto_run (fst (feed_args_text t e)) (p, n) = Some (q, n)" "q \<noteq> Idle" by auto
        with st True assms ok show ?thesis
          by (subst emit_for_state.simps) (simp add: keeps_def m tracks_def)
      next
        case False
        with st assms ok show ?thesis
          by (subst emit_for_state.simps; cases p) (auto simp: keeps_def m tracks_def Let_def)
      qed
    qed
  next
    case False
    show ?thesis
    proof (cases "map_of (content_events (config s)) (state e)")
      case (Some k)
      from config_ok_content [OF ok(1) Some] have l: "leads (state e) [k] (state e)" .
      from content_step [OF l ok(2) leads_not_start [OF l]] ok(3) obtain q where
        "proto_run [SemanticEvent k (Some t) (tool_index e)] (p, n) = Some (q, n)" "fits q (state e)"
        by auto
      with False Some assms m show ?thesis
        by (subst emit_for_state.simps) (auto simp: keeps_def tracks_def simp del: proto_step.simps)
    next
      case None
      then show ?thesis using False assms ok
        by (subst emit_for_state.simps) (auto simp: keeps_def m Let_def)
    qed
  qed
qed

lemma abort_tracks:
  assumes "tracks s m e" "hold_active e"
  shows "keeps proto_run (tracks s) m (abort_hold s raw e)"
  unfolding abort_hold.simps
  by (rule emit_inactive_tracks) (use assms in \<open>auto simp: tracks_def hold_ok_def clear_hold_def\<close>)

lemma emit_tracks:
  assumes "tracks s m e"
  shows "keeps proto_run (tracks s) m (emit_for_state s t e)"
proof (cases "hold_active e")
  case True
  then have ok: "hold_ok s m e" using assms by (simp add: tracks_def)
  show ?thesis
  proof (cases "can_grow_into_declared_name s (concat (held_name e) @ t)")
    case grow: True
    have "proto_run (held_events e @ [SemanticEvent NAME_EVENT (Some t) (tool_index e)]) m
        = Some (Naming, tool_index e)"
      using ok by (simp add: hold_ok_def proto_run_append Let_def)
    with True grow ok assms show ?thesis
      by (subst emit_for_state.simps) (simp add: keeps_def tracks_def hold_ok_def)
  next
    case False
    with True ok abort_tracks [OF assms True] show ?thesis
      by (subst emit_for_state.simps) (simp add: hold_ok_def)
  qed
qed (use assms emit_inactive_tracks in blast)

section \<open>Transitions keep the invariant\<close>

lemma run_transition_state [simp]:
  "state (snd (run_transition tr v e)) = next_state tr"
  "hold_active (snd (run_transition tr v e)) = hold_active e"
  by (simp_all add: run_transition_def Let_def split_beta)

lemma run_transition_buffer:
  "args_buffer e \<noteq> [] \<longrightarrow> state e = TOOL_ARGS \<Longrightarrow>
   args_buffer (snd (run_transition tr v e)) \<noteq> [] \<longrightarrow> next_state tr = TOOL_ARGS"
  by (auto simp: run_transition_def Let_def split_beta)

text \<open>The events of a transition that is taken, from a phase that fits.\<close>

lemma run_transition_proto:
  assumes "leads (state e) (trans_events tr) (next_state tr)" "fits p (state e)"
  shows "\<exists>q. proto_run (fst (run_transition tr v e)) (p, tool_index e)
      = Some (q, tool_index (snd (run_transition tr v e))) \<and> fits q (next_state tr)"
proof -
  let ?f = "if state e = TOOL_ARGS \<and> next_state tr \<noteq> TOOL_ARGS then args_buffer e else []"
  let ?pre = "if ?f \<noteq> [] then [SemanticEvent ARG_VALUE_CHUNK (Some ?f) (tool_index e)] else []"
  let ?p = "if ?f \<noteq> [] then Arguing else p"
  obtain evs j where loop: "transition_loop (state e = MESSAGE_HEADER) (message_header_buffer e) v
      (trans_events tr) (tool_index e) = (evs, j)" by fastforce
  have pre: "proto_run ?pre (p, tool_index e) = Some (?p, tool_index e)"
    using assms(2) by (cases p) (auto simp: Let_def)
  have "fits ?p (state e)" using assms(2) by auto
  from leadsD [OF assms(1) this] obtain q where
    q: "phase_run (trans_events tr) ?p = Some q" "fits q (next_state tr)" by blast
  from transition_loop_proto [OF loop q(1)] pre q(2) loop show ?thesis
    by (auto simp: run_transition_def Let_def proto_run_append)
qed

lemma run_transition_tracks:
  assumes "tracks s m e" "\<not> hold_active e" "leads (state e) (trans_events tr) (next_state tr)"
  shows "keeps proto_run (tracks s) m (run_transition tr v e)"
proof -
  obtain p n where m: "m = (p, n)" by (cases m)
  from assms(1,2) have "fits p (state e)" "n = tool_index e"
    by (simp_all add: tracks_def m)
  from run_transition_proto [OF assms(3) this(1), of v] this(2) obtain q where
    "proto_run (fst (run_transition tr v e)) m = Some (q, tool_index (snd (run_transition tr v e)))"
    "fits q (next_state tr)" by (auto simp: m)
  moreover have "args_buffer (snd (run_transition tr v e)) \<noteq> [] \<longrightarrow> next_state tr = TOOL_ARGS"
    by (rule run_transition_buffer) (use assms(1) in \<open>simp add: tracks_def\<close>)
  ultimately show ?thesis using assms(1,2) by (simp add: keeps_def tracks_def)
qed

lemma begin_hold_tracks:
  assumes t: "tracks s m e" "\<not> hold_active e" and skip: "\<not> skip_tool_parsing s"
    and tr: "leads (state e) (trans_events tr) (next_state tr)" "next_state tr = NAME_STATE"
      "fits Idle (state e)"
  shows "keeps proto_run (tracks s) m (begin_hold tr v e)"
proof -
  obtain p n where m: "m = (p, n)" by (cases m)
  from t have p: "p = Idle" "n = tool_index e" "args_buffer e = []"
    using fits_unique [OF tr(3)] fits_Idle_D [OF tr(3)] by (auto simp: tracks_def m)
  from run_transition_proto [OF tr(1), of Idle v] tr(2,3) p have
    "proto_run (fst (run_transition tr v e)) m = Some (Naming, tool_index (snd (run_transition tr v e)))"
    by (auto simp: m)
  moreover have "args_buffer (snd (run_transition tr v e)) = []"
    using run_transition_buffer [of e tr v] p(3) tr(2) by auto
  ultimately show ?thesis using t(1) skip tr(2,3) p
    by (simp add: keeps_def begin_hold_def split_beta tracks_def hold_ok_def m)
qed

lemma resolve_hold_tracks:
  assumes t: "tracks s m e" "hold_active e"
    and tr: "leads (state e) (trans_events tr) (next_state tr)"
  shows "keeps proto_run (tracks s) m (resolve_hold s tr v e)"
proof (cases "case allowed_tool_names s of None \<Rightarrow> False | Some names \<Rightarrow> concat (held_name e) \<in> names")
  case True
  let ?m = "(Naming, tool_index e)"
  from t have held: "proto_run (held_events e) m = Some ?m" and c: "tracks s ?m (clear_hold e)"
    by (auto simp: tracks_def hold_ok_def clear_hold_def)
  have "keeps proto_run (tracks s) ?m (run_transition tr v (clear_hold e))"
    by (rule run_transition_tracks [OF c]) (use tr in \<open>simp_all add: clear_hold_def\<close>)
  with held True show ?thesis
    by (auto simp: resolve_hold_def keeps_def proto_run_append split_beta split: option.splits)
next
  case False
  with abort_tracks [OF t] show ?thesis by (simp add: resolve_hold_def)
qed

lemma tool_terminals_ofI:
  "((st, trm), tr) \<in> set (transitions cfg) \<Longrightarrow> next_state tr \<in> tool_states \<Longrightarrow> trm \<in> tool_terminals_of cfg"
  unfolding tool_terminals_of_def by (rule image_eqI [where x = "((st, trm), tr)"]) auto

lemma apply_transition_tracks:
  assumes t: "tracks s m e"
    and tr: "map_of (transitions (config s)) (state e, trm) = Some tr"
    and skip: "\<not> (skip_tool_parsing s \<and> trm \<in> tool_terminals s)"
  shows "keeps proto_run (tracks s) m (apply_transition s tr v e)"
proof -
  from t have ok: "config_ok (config s)" by (simp add: tracks_def setup_ok_def)
  note cfg = config_ok_transition [OF ok tr]
  have skip': "\<not> skip_tool_parsing s" if "validate_tool_name tr"
  proof -
    have "((state e, trm), tr) \<in> set (transitions (config s))" using tr by (rule map_of_SomeD)
    moreover have "next_state tr \<in> tool_states" using cfg(3) [OF that] by (simp add: tool_states_def)
    ultimately have "trm \<in> tool_terminals_of (config s)" by (rule tool_terminals_ofI)
    moreover have "tool_terminals s = tool_terminals_of (config s)"
      using t by (simp add: tracks_def setup_ok_def)
    ultimately have "trm \<in> tool_terminals s" by simp
    with skip show ?thesis by simp
  qed
  show ?thesis
  proof (cases "hold_active e")
    case True
    with resolve_hold_tracks [OF t True cfg(1)] show ?thesis by (simp add: apply_transition_def)
  next
    case False
    have run: "keeps proto_run (tracks s) m (run_transition tr v e)"
      by (rule run_transition_tracks [OF t False cfg(1)])
    have hold: "validate_tool_name tr \<Longrightarrow> keeps proto_run (tracks s) m (begin_hold tr v e)"
      by (rule begin_hold_tracks [OF t False skip' cfg(1) cfg(3) cfg(4)])
    from False run hold emit_tracks [OF t, of v] show ?thesis
      unfolding apply_transition_def by (simp split: if_split)
  qed
qed

lemma skipped_terminal_tracks:
  assumes t: "tracks s m e" and skip: "skip_tool_parsing s"
    and tr: "map_of (transitions (config s)) (state e, trm) = Some tr"
    and sk: "trm \<in> tool_terminals s"
  shows "keeps proto_run (tracks s) m (on_terminal fe s trm v e)"
proof -
  obtain p n where m: "m = (p, n)" by (cases m)
  have act: "\<not> hold_active e"
    using t skip by (cases "hold_active e") (simp_all add: tracks_def hold_ok_def)
  with t have ok: "config_ok (config s)" "\<not> hold_active e" "fits p (state e)" "n = tool_index e"
    "args_buffer e \<noteq> [] \<longrightarrow> state e = TOOL_ARGS"
    by (simp_all add: tracks_def m setup_ok_def)
  consider (header) "state e = MESSAGE_HEADER"
    | (reasoning) "state e \<noteq> MESSAGE_HEADER" "REASONING_END \<in> set (trans_events tr)"
    | (content) k where "state e \<noteq> MESSAGE_HEADER" "REASONING_END \<notin> set (trans_events tr)"
        "map_of (content_events (config s)) (state e) = Some k"
    | (nothing) "state e \<noteq> MESSAGE_HEADER" "REASONING_END \<notin> set (trans_events tr)"
        "map_of (content_events (config s)) (state e) = None"
    by (cases "map_of (content_events (config s)) (state e)") blast+
  then show ?thesis
  proof cases
    case header
    with t ok skip sk tr show ?thesis
      by (subst on_terminal.simps) (auto simp: keeps_def m Let_def call_event_def tracks_def)
  next
    case reasoning
    from config_ok_transition(2) [OF ok(1) tr reasoning(2)] have f: "fits Idle (state e)" .
    with ok have "p = Idle" "args_buffer e = []" using fits_unique [OF f] fits_Idle_D [OF f] by auto
    with t ok skip sk tr reasoning show ?thesis
      by (subst on_terminal.simps) (auto simp: keeps_def m Let_def call_event_def tracks_def)
  next
    case (content k)
    from config_ok_content [OF ok(1) content(3)] have l: "leads (state e) [k] (state e)" .
    from content_step [OF l ok(3) leads_not_start [OF l]] ok(4) obtain q where
      "proto_run [SemanticEvent k (Some v) (tool_index e)] (p, n) = Some (q, n)" "fits q (state e)"
      by auto
    with t ok skip sk tr content show ?thesis
      by (subst on_terminal.simps) (auto simp: keeps_def m tracks_def simp del: proto_step.simps)
  next
    case nothing
    with t ok skip sk tr show ?thesis
      by (subst on_terminal.simps) (auto simp: keeps_def m)
  qed
qed

lemma terminal_inactive_tracks:
  assumes t: "tracks s m e" and act: "\<not> hold_active e"
  shows "keeps proto_run (tracks s) m (on_terminal fe s trm v e)"
proof (cases "map_of (transitions (config s)) (state e, trm)")
  case None
  with act emit_tracks [OF t, of v] t show ?thesis
    by (subst on_terminal.simps) (auto simp: keeps_def)
next
  case (Some tr)
  show ?thesis
  proof (cases "skip_tool_parsing s \<and> trm \<in> tool_terminals s")
    case True
    with skipped_terminal_tracks [OF t _ Some] show ?thesis by blast
  next
    case False
    with Some apply_transition_tracks [OF t Some False, of v] emit_tracks [OF t, of v] show ?thesis
      by (subst on_terminal.simps) auto
  qed
qed

lemma terminal_tracks:
  assumes t: "tracks s m e"
  shows "keeps proto_run (tracks s) m (on_terminal fe s trm v e)"
proof (cases "hold_active e")
  case True
  then have st: "state e = NAME_STATE" "\<not> skip_tool_parsing s"
    using t by (simp_all add: tracks_def hold_ok_def)
  show ?thesis
  proof (cases "map_of (transitions (config s)) (state e, trm)")
    case (Some tr)
    with st apply_transition_tracks [OF t Some, of v] emit_tracks [OF t, of v] show ?thesis
      by (subst on_terminal.simps) auto
  next
    case None
    obtain evs1 e1 where 1: "abort_hold s (concat (held_raw e)) e = (evs1, e1)" by fastforce
    obtain evs2 e2 where 2: "on_terminal fe s trm v e1 = (evs2, e2)" by fastforce
    from abort_tracks [OF t True, of "concat (held_raw e)"] 1 obtain m1 where
      m1: "proto_run evs1 m = Some m1" "tracks s m1 e1" by (auto elim: keepsE)
    moreover have "\<not> hold_active e1" using 1 abort_hold_leaves_inactive by metis
    ultimately have "keeps proto_run (tracks s) m1 (evs2, e2)"
      using terminal_inactive_tracks [of s m1 e1 fe trm v] 2 by simp
    then have both: "keeps proto_run (tracks s) m (evs1 @ evs2, e2)"
      by (rule keepsE) (rule keepsI, use m1(1) in \<open>auto simp: proto_run_append\<close>)
    moreover have "keeps proto_run (tracks s) m ([], e)" using t by (simp add: keeps_def)
    ultimately show ?thesis using 1 2 None True st by (subst on_terminal.simps) simp
  qed
qed (use terminal_inactive_tracks [OF t] in blast)

lemma flush_args_tracks:
  assumes "tracks s m e" "\<not> hold_active e"
  shows "keeps proto_run (tracks s) m (flush_args e)"
  using assms by (cases m; cases "fst m")
    (auto simp: keeps_def flush_args_def tracks_def Let_def)

interpretation protocol: engine_monitor fe s proto_run "tracks s" for fe s
  by unfold_locales (auto simp: proto_run_append intro: emit_tracks terminal_tracks abort_tracks flush_args_tracks)

end
