(* ===== verification/StreamProps.thy ===== *)
theory StreamProps
  imports StreamProtocol
begin

text \<open>
  The properties of the streaming engine: the event protocol for both DSML formats, the
  bound on what a hold buffers, the recovery of an invoke that lost its wrapper, streaming
  of JSON arguments without loss, and the fast path of \<open>feed\<close>.
\<close>

section \<open>The protocol for the DSML formats\<close>

lemma setup_ok_new:
  "config_ok cfg \<Longrightarrow> setup_ok ((new_setup d cfg tok)\<lparr> skip_tool_parsing := a, allowed_tool_names := b,
     suppress_tool_calls := c \<rparr>)"
  by (simp add: setup_ok_def new_setup_def Let_def)

lemma reset_tracks:
  "setup_ok s \<Longrightarrow> fits Idle (case init of None \<Rightarrow> initial_state (config s) | Some i \<Rightarrow> i) \<Longrightarrow>
   tracks s (Idle, -1) (reset_engine fe s init lx sc)"
  by (simp add: tracks_def reset_engine_def Let_def)

lemma proto_run_index:
  "proto_run evs m = Some m' \<Longrightarrow> (-1 \<le> snd m \<and> (fst m \<noteq> Idle \<longrightarrow> 0 \<le> snd m)) \<Longrightarrow>
   -1 \<le> snd m' \<and> (fst m' \<noteq> Idle \<longrightarrow> 0 \<le> snd m')"
proof (induction evs arbitrary: m)
  case (Cons ev evs)
  obtain k v i where ev: "ev = SemanticEvent k v i" by (cases ev)
  obtain p n where m: "m = (p, n)" by (cases m)
  from Cons.prems(1) obtain m1 where m1: "proto_step ev m = Some m1" "proto_run evs m1 = Some m'"
    by (auto split: option.splits)
  have "-1 \<le> snd m1 \<and> (fst m1 \<noteq> Idle \<longrightarrow> 0 \<le> snd m1)"
    using m1(1) Cons.prems(2) unfolding ev m
    by (cases k; cases p) (auto simp: Let_def call_event_def split: if_splits)
  with Cons.IH [OF m1(2)] show ?case .
qed simp

text \<open>What \<open>finish\<close> appends for the state the stream stopped in.\<close>

lemma close_state_events:
  assumes "tracks s m e" "\<not> hold_active e" "-1 \<le> snd m \<and> (fst m \<noteq> Idle \<longrightarrow> 0 \<le> snd m)"
  shows "fst m \<noteq> Idle \<Longrightarrow> fst (close_state e) = [SemanticEvent TOOL_CALL_END None (snd m)]"
    and "fst (close_state e) = [] \<or> (\<exists>k v. fst (close_state e) = [SemanticEvent k v (snd m)]
           \<and> k \<in> {TOOL_CALL_END, REASONING_END, TEXT_CHUNK} \<and> (k = TOOL_CALL_END \<longrightarrow> 0 \<le> snd m))"
    and "state (snd (close_state e)) \<in> {CONTENT, FOREIGN_BLOCK}"
  using assms by (cases m; cases "state e"; auto simp: tracks_def close_state_def)+

lemma finish_pending_inactive: "\<not> hold_active (snd (finish_pending fe s e))"
proof -
  have "\<not> hold_active (snd (if hold_active x then abort_hold s r x else ([], x)))" for x r
    by simp
  then show ?thesis by (simp add: finish_pending_def Let_def split_beta flush_args_def)
qed

lemma stream_protocol_general:
  assumes "setup_ok s" "fits Idle (initial_state (config s))"
    and "feed_all fe s ds (reset_engine fe s None lx sc) = (evs, e1)"
    and "finish fe s e1 = (tail, e2)"
  shows "\<exists>body close p n. tail = body @ close \<and> proto_run (evs @ body) (Idle, -1) = Some (p, n)
    \<and> (p \<noteq> Idle \<longrightarrow> close = [SemanticEvent TOOL_CALL_END None n])
    \<and> (close = [] \<or> (\<exists>k v. close = [SemanticEvent k v n]
         \<and> k \<in> {TOOL_CALL_END, REASONING_END, TEXT_CHUNK} \<and> (k = TOOL_CALL_END \<longrightarrow> 0 \<le> n)))
    \<and> state e2 \<in> {CONTENT, FOREIGN_BLOCK}"
proof -
  obtain body e' where body: "finish_pending fe s e1 = (body, e')" by fastforce
  have "tracks s (Idle, -1) (reset_engine fe s None lx sc)"
    using assms(1,2) by (simp add: reset_tracks)
  from protocol.feed_all_keeps [OF this, of fe ds] assms(3) obtain m1 where
    m1: "proto_run evs (Idle, -1) = Some m1" "tracks s m1 e1" by (auto elim: keepsE)
  from protocol.finish_pending_keeps [OF m1(2), of fe] body obtain m2 where
    m2: "proto_run body m1 = Some m2" "tracks s m2 e'" by (auto elim: keepsE)
  have run: "proto_run (evs @ body) (Idle, -1) = Some m2"
    using m1(1) m2(1) by (simp add: proto_run_append)
  from proto_run_index [OF run] have ix: "-1 \<le> snd m2 \<and> (fst m2 \<noteq> Idle \<longrightarrow> 0 \<le> snd m2)" by simp
  have inact: "\<not> hold_active e'" using finish_pending_inactive [of fe s e1] body by simp
  note c = close_state_events [OF m2(2) inact ix]
  have tail: "tail = body @ fst (close_state e')" "e2 = snd (close_state e')"
    using assms(4) body by (auto simp: finish_def split_beta)
  show ?thesis
    by (rule exI [of _ body], rule exI [of _ "fst (close_state e')"], rule exI [of _ "fst m2"],
        rule exI [of _ "snd m2"]) (use run tail c in auto)
qed

section \<open>A small front end\<close>

text \<open>
  A scanner and a lexer for the witnesses: text becomes one content token, and the token ids
  name the terminals.
\<close>

definition id_terminal :: "int \<Rightarrow> terminal" where
  "id_terminal i =
     (if i = 1 then ''TOOL_START'' else if i = 2 then ''INVOKE_PREFIX''
      else if i = 3 then ''INVOKE_NAME_END'' else if i = 4 then ''INVOKE_END'' else ''TOOL_END'')"

definition id_frontend :: "(unit, unit) frontend" where
  "id_frontend = \<lparr>
     lex_feed = (\<lambda>lx t. (if t = [] then [] else [LexToken ''TEXT'' t], lx)),
     lex_flush = (\<lambda>lx. ([], lx)), lex_reset = (\<lambda>lx. lx), lex_buffer = (\<lambda>lx. []),
     literal_first_chars = (\<lambda>lx. {60}),
     scan = (\<lambda>sc t ids. ((if t = [] then [] else [Text_chunk t])
               @ map (\<lambda>i. PreLexedTerminal (id_terminal i) (lit ''<>'')) ids, sc)),
     scan_flush_pending = (\<lambda>sc. ([], sc)), scan_reset = (\<lambda>sc. sc), deferred_terminals = (\<lambda>sc. []),
     content_terminal = ''TEXT'', drop_terminal = ''DROP'' \<rparr>"

definition demo_setup :: "pystr set option \<Rightarrow> engine_setup" where
  "demo_setup names = (new_setup ''DROP'' (deepseek_v4_config (\<lambda>raw partial. None) False) None)\<lparr>
     skip_tool_parsing := False, allowed_tool_names := names, suppress_tool_calls := False \<rparr>"

definition demo_engine :: "(unit, unit) engine" where
  "demo_engine = reset_engine id_frontend (demo_setup None) None () ()"

text \<open>C26: The semantic events of a DSML stream follow the tool call protocol. For both formats,
  every scanner and lexer, every setting of the request and every sequence of deltas: a call is
  started only between calls and under the next index, its name chunks come before its argument
  chunks, all of them and its end carry its index, and text and reasoning are emitted only
  between calls. When the stream stops inside a call, the last event of finish ends that call.\<close>

theorem tool_calls_bracketed:
  assumes "cfg = deepseek_v4_config conv thinking \<or> cfg = deepseek_v32_config conv"
    and "s = (new_setup drop_t cfg tok)\<lparr> skip_tool_parsing := skip, allowed_tool_names := names,
               suppress_tool_calls := suppress \<rparr>"
    and "feed_all fe s ds (reset_engine fe s None lx sc) = (evs, e1)"
    and "finish fe s e1 = (tail, e2)"
  shows "\<exists>body close p n. tail = body @ close \<and> proto_run (evs @ body) (Idle, -1) = Some (p, n)
    \<and> (p \<noteq> Idle \<longrightarrow> close = [SemanticEvent TOOL_CALL_END None n])
    \<and> (close = [] \<or> (\<exists>k v. close = [SemanticEvent k v n]
         \<and> k \<in> {TOOL_CALL_END, REASONING_END, TEXT_CHUNK} \<and> (k = TOOL_CALL_END \<longrightarrow> 0 \<le> n)))
    \<and> state e2 \<in> {CONTENT, FOREIGN_BLOCK}"
proof (rule stream_protocol_general [OF _ _ assms(3,4)])
  have cfg: "config_ok cfg" "fits Idle (initial_state cfg)"
    using assms(1) deepseek_v4_config_ok deepseek_v32_config_ok
    by (auto simp: deepseek_v4_config_def deepseek_v32_config_def)
  then show "setup_ok s" unfolding assms(2) by (simp add: setup_ok_new)
  show "fits Idle (initial_state (config s))" using cfg(2) by (simp add: assms(2) new_setup_def Let_def)
qed

lemma v4_transitions:
  "map_of (transitions (deepseek_v4_config c th)) (CONTENT, ''TOOL_START'') = Some (trans TOOL_PREAMBLE [])"
  "map_of (transitions (deepseek_v4_config c th)) (CONTENT, ''INVOKE_PREFIX'') =
     Some ((trans NAME_STATE [TOOL_CALL_START])\<lparr> validate_tool_name := True \<rparr>)"
  "map_of (transitions (deepseek_v4_config c th)) (TOOL_PREAMBLE, ''INVOKE_PREFIX'') =
     Some (trans NAME_STATE [TOOL_CALL_START])"
  "map_of (transitions (deepseek_v4_config c th)) (TOOL_BETWEEN, ''INVOKE_PREFIX'') =
     Some (trans NAME_STATE [TOOL_CALL_START])"
  "map_of (transitions (deepseek_v4_config c th)) (NAME_STATE, ''INVOKE_NAME_END'') = Some (trans TOOL_ARGS [])"
  "map_of (transitions (deepseek_v4_config c th)) (TOOL_ARGS, ''INVOKE_END'') =
     Some (trans TOOL_BETWEEN [TOOL_CALL_END])"
  "map_of (transitions (deepseek_v4_config c th)) (TOOL_BETWEEN, ''TOOL_END'') = Some (trans CONTENT [])"
  by (simp_all add: deepseek_v4_config_def)

lemma v4_content:
  "map_of (content_events (deepseek_v4_config c th)) CONTENT = Some TEXT_CHUNK"
  "map_of (content_events (deepseek_v4_config c th)) NAME_STATE = Some NAME_EVENT"
  "map_of (content_events (deepseek_v4_config c th)) TOOL_ARGS = Some ARG_VALUE_CHUNK"
  "map_of (content_events (deepseek_v4_config c th)) TOOL_BETWEEN = None"
  "\<not> tool_args_json (deepseek_v4_config c th)"
  by (simp_all add: deepseek_v4_config_def)

lemma demo_setup_sel [simp]:
  "config (demo_setup names) = deepseek_v4_config (\<lambda>raw partial. None) False"
  "\<not> skip_tool_parsing (demo_setup names)" "allowed_tool_names (demo_setup names) = names"
  "\<not> suppress_tool_calls (demo_setup names)" "\<not> has_drops (demo_setup names)"
  "resolved_token_ids (demo_setup names) = []" "token_id_terminal_names (demo_setup names) = {}"
  by (simp_all add: demo_setup_def new_setup_def resolve_token_ids_def Let_def)

lemma demo_engine_eq:
  "demo_engine = \<lparr> state = CONTENT, tool_index = -1, ever_had_token_ids = False,
     scanner = (), lexer = (), message_header_buffer = [],
     args_buffer = [], args_safe_end = 0, args_brace_depth = 0, args_in_string = False,
     args_escape_next = False, recovered_tool_call = False, pending_between_text = [],
     hold_active = False, held_events = [], held_raw = [], held_name = [],
     held_prior_state = CONTENT, held_prior_tool_index = -1 \<rparr>"
  by (simp add: demo_engine_def reset_engine_def id_frontend_def deepseek_v4_config_def
      default_config_def Let_def)

lemma id_frontend_sel [simp]:
  "lex_feed id_frontend = (\<lambda>lx t. (if t = [] then [] else [LexToken ''TEXT'' t], lx))"
  "lex_flush id_frontend = (\<lambda>lx. ([], lx))" "lex_buffer id_frontend = (\<lambda>lx. [])"
  "literal_first_chars id_frontend = (\<lambda>lx. {60})"
  "scan id_frontend = (\<lambda>sc t ids. ((if t = [] then [] else [Text_chunk t])
               @ map (\<lambda>i. PreLexedTerminal (id_terminal i) (lit ''<>'')) ids, sc))"
  "scan_flush_pending id_frontend = (\<lambda>sc. ([], sc))" "deferred_terminals id_frontend = (\<lambda>sc. [])"
  "content_terminal id_frontend = ''TEXT''" "drop_terminal id_frontend = ''DROP''"
  by (simp_all add: id_frontend_def)

lemmas demo_eval = demo_engine_eq id_terminal_def v4_transitions v4_content

lemmas engine_eval = feed_def on_terminal.simps emit_for_state.simps abort_hold.simps
  apply_transition_def run_transition_def begin_hold_def resolve_hold_def process_lex_tokens_def
  lex_and_process_def on_content_def can_grow_into_declared_name_def clear_hold_def tool_states_def
  finish_def finish_pending_def close_state_def flush_args_def Let_def

theorem tool_calls_bracketed_witness:
  "\<exists>body close p n. [SemanticEvent TOOL_CALL_END None 0] = body @ close
     \<and> proto_run ([SemanticEvent TOOL_CALL_START (Some (lit ''<>'')) 0,
                   SemanticEvent NAME_EVENT (Some (lit ''f'')) 0] @ body) (Idle, -1) = Some (p, n)
     \<and> (p \<noteq> Idle \<longrightarrow> close = [SemanticEvent TOOL_CALL_END None n])"
proof -
  let ?r = "feed_all id_frontend (demo_setup None) [([], [1, 2]), (lit ''f'', [])] demo_engine"
  let ?t = "finish id_frontend (demo_setup None) (snd ?r)"
  have evs: "fst ?r = [SemanticEvent TOOL_CALL_START (Some (lit ''<>'')) 0,
      SemanticEvent NAME_EVENT (Some (lit ''f'')) 0]"
    by (simp add: demo_eval engine_eval)
  have tail: "fst ?t = [SemanticEvent TOOL_CALL_END None 0]"
    by (simp add: demo_eval engine_eval)
  have run: "feed_all id_frontend (demo_setup None) [([], [1, 2]), (lit ''f'', [])]
      (reset_engine id_frontend (demo_setup None) None () ()) = (fst ?r, snd ?r)"
    by (simp only: demo_engine_def prod.collapse)
  from tool_calls_bracketed [OF disjI1 [OF refl] demo_setup_def run prod.collapse [symmetric]]
  show ?thesis unfolding evs tail by blast
qed

text \<open>Remark: finish ends the last call once more when the stream stops between two calls.\<close>

lemma finish_ends_call_twice:
  "last (fst (feed id_frontend (demo_setup None) [] [1, 2, 3, 4] demo_engine))
     = SemanticEvent TOOL_CALL_END (Some (lit ''<>'')) 0"
  "fst (finish id_frontend (demo_setup None) (snd (feed id_frontend (demo_setup None) [] [1, 2, 3, 4] demo_engine)))
     = [SemanticEvent TOOL_CALL_END None 0]"
  by (simp_all add: demo_eval engine_eval)

section \<open>JSON arguments are streamed without loss\<close>

definition closer :: "nat \<Rightarrow> bool" where
  "closer c \<longleftrightarrow> c = 125 \<or> c = 93"

definition event_text :: "semantic_event list \<Rightarrow> pystr" where
  "event_text evs = concat (map (\<lambda>ev. case ev_value ev of None \<Rightarrow> [] | Some v \<Rightarrow> v) evs)"

lemma event_text_simps [simp]:
  "event_text [] = []"
  "event_text (SemanticEvent k (Some v) i # evs) = v @ event_text evs"
  "event_text (xs @ ys) = event_text xs @ event_text ys"
  by (simp_all add: event_text_def)

text \<open>Between two characters: the watermark is zero, and what is held is closing brackets.\<close>

definition args_idle :: "('lx, 'sc) engine \<Rightarrow> bool" where
  "args_idle e \<longleftrightarrow> args_safe_end e = 0 \<and> list_all closer (args_buffer e)
     \<and> (args_buffer e \<noteq> [] \<longrightarrow> args_brace_depth e = 0 \<and> \<not> args_in_string e \<and> \<not> args_escape_next e)"

lemma feed_args_char_conserves:
  assumes "args_idle e"
  shows "event_text (fst (feed_args_char c e)) @ args_buffer (snd (feed_args_char c e)) = args_buffer e @ [c]"
    and "args_idle (snd (feed_args_char c e))"
    and "list_all (\<lambda>ev. ev_type ev = ARG_VALUE_CHUNK \<and> ev_index ev = tool_index e) (fst (feed_args_char c e))"
  using assms by (auto simp: feed_args_char_def flush_safe_args_def args_idle_def Let_def closer_def)

lemma feed_args_text_conserves:
  "args_idle e \<Longrightarrow>
   event_text (fst (feed_args_text cs e)) @ args_buffer (snd (feed_args_text cs e)) = args_buffer e @ cs
   \<and> args_idle (snd (feed_args_text cs e))
   \<and> list_all (\<lambda>ev. ev_type ev = ARG_VALUE_CHUNK \<and> ev_index ev = tool_index e) (fst (feed_args_text cs e))"
proof (induction cs arbitrary: e)
  case (Cons c cs)
  let ?r = "feed_args_char c e"
  have ix: "tool_index (snd ?r) = tool_index e"
    by (rule args_frame_sel(2) [OF feed_args_char_frame])
  note 1 = feed_args_char_conserves [OF Cons.prems, of c]
  note 2 = Cons.IH [OF 1(2)]
  from 1(1) have "event_text (fst ?r) @ args_buffer (snd ?r) @ cs = args_buffer e @ c # cs"
    by (metis append.assoc append_Cons append_Nil)
  with 1 2 show ?case by (simp add: Let_def split_beta ix)
qed simp

text \<open>C29: JSON arguments reach the client unchanged and without delay beyond the last closing
  brackets: for every cut of the text into pieces, the chunks emitted for a call followed by what
  is still buffered are the text that was fed, the buffer holds nothing but closing brackets and
  braces at the top level, and every chunk carries the index of the call.\<close>

theorem json_args_stream:
  assumes "state e = TOOL_ARGS" "tool_args_json (config s)" "\<not> hold_active e" "args_idle e"
  shows "event_text (fst (emit_for_state s t e)) @ args_buffer (snd (emit_for_state s t e)) = args_buffer e @ t
    \<and> list_all closer (args_buffer (snd (emit_for_state s t e)))
    \<and> args_idle (snd (emit_for_state s t e))
    \<and> list_all (\<lambda>ev. ev_type ev = ARG_VALUE_CHUNK \<and> ev_index ev = tool_index e) (fst (emit_for_state s t e))"
proof -
  have "emit_for_state s t e = feed_args_text t e"
    using assms(1,2,3) by (subst emit_for_state.simps) simp
  with feed_args_text_conserves [OF assms(4), of t] show ?thesis by (simp add: args_idle_def)
qed

theorem json_args_stream_witness:
  "let e = demo_engine\<lparr> state := TOOL_ARGS, tool_index := 0 \<rparr>;
       s = (demo_setup None)\<lparr> config := default_config ''json'' \<rparr>;
       r = emit_for_state s (lit ''{1}'') e
   in fst r = [SemanticEvent ARG_VALUE_CHUNK (Some (lit ''{'')) 0, SemanticEvent ARG_VALUE_CHUNK (Some (lit ''1'')) 0]
      \<and> list_all closer (args_buffer (snd r)) \<and> args_buffer (snd r) = lit ''}''"
proof -
  let ?e = "demo_engine\<lparr> state := TOOL_ARGS, tool_index := 0 \<rparr>"
  let ?s = "(demo_setup None)\<lparr> config := default_config ''json'' \<rparr>"
  have "list_all closer (args_buffer (snd (emit_for_state ?s (lit ''{1}'') ?e)))"
    using json_args_stream [of ?e ?s "lit ''{1}''"]
    by (simp add: demo_engine_eq args_idle_def default_config_def)
  then show ?thesis
    by (simp add: demo_engine_eq default_config_def lit_def emit_for_state.simps
        feed_args_char_def flush_safe_args_def Let_def)
qed

section \<open>The fast path of feed\<close>

text \<open>\<open>feed\<close> without its short cuts.\<close>

definition feed_slow ::
  "('lx, 'sc) frontend \<Rightarrow> engine_setup \<Rightarrow> pystr \<Rightarrow> int list \<Rightarrow> ('lx, 'sc) engine
     \<Rightarrow> semantic_event list \<times> ('lx, 'sc) engine" where
  "feed_slow fe s delta_text delta_token_ids e0 =
     (let e = e0\<lparr> ever_had_token_ids := (ever_had_token_ids e0 \<or> delta_token_ids \<noteq> []) \<rparr>;
          (items, sc) = scan fe (scanner e) delta_text delta_token_ids
      in process_scanner_items fe s items (e\<lparr> scanner := sc \<rparr>))"

text \<open>
  What the short cuts rely on: a text without a character that can begin a terminal is one
  content token for a lexer with an empty buffer, a text with no special token is one chunk for a
  scanner that defers nothing, both keep their state then, and no token is empty.
\<close>

definition plain_for_lexer :: "('lx, 'sc) frontend \<Rightarrow> 'lx \<Rightarrow> pystr \<Rightarrow> bool" where
  "plain_for_lexer fe lx t \<longleftrightarrow>
     (t \<noteq> [] \<and> lex_buffer fe lx = [] \<and> (\<forall>c \<in> set t. c \<notin> literal_first_chars fe lx) \<longrightarrow>
        lex_feed fe lx t = ([LexToken (content_terminal fe) t], lx))"

definition plain_for_scanner :: "('lx, 'sc) frontend \<Rightarrow> engine_setup \<Rightarrow> 'sc \<Rightarrow> pystr \<Rightarrow> int list \<Rightarrow> bool" where
  "plain_for_scanner fe s sc t ids \<longleftrightarrow>
     (t \<noteq> [] \<and> deferred_terminals fe sc = [] \<and> (\<forall>i \<in> set ids. map_of (resolved_token_ids s) i = None) \<longrightarrow>
        scan fe sc t ids = ([Text_chunk t], sc))"

definition tokens_nonempty :: "('lx, 'sc) frontend \<Rightarrow> 'lx \<Rightarrow> bool" where
  "tokens_nonempty fe lx \<longleftrightarrow> (\<forall>t. \<forall>tok \<in> set (fst (lex_feed fe lx t)). \<forall>k v. tok = LexToken k v \<longrightarrow> v \<noteq> [])"

lemma emit_content:
  "v \<noteq> [] \<Longrightarrow> process_lex_tokens fe s [LexToken (content_terminal fe) v] e = emit_for_state s v e"
  by (simp add: process_lex_tokens_def on_content_def split_beta)

text \<open>Remark: The short cuts of feed change nothing: for a scanner and a lexer that treat plain text as
  documented, feed emits the events of the full pipeline and leaves the engine in the same
  state.\<close>

theorem feed_short_cuts_sound:
  assumes "plain_for_lexer fe (lexer e) t" "plain_for_scanner fe s (scanner e) t ids"
    and "tokens_nonempty fe (lexer e)"
  shows "feed fe s t ids e = feed_slow fe s t ids e"
proof -
  let ?e = "e\<lparr> ever_had_token_ids := (ever_had_token_ids e \<or> ids \<noteq> []) \<rparr>"
  show ?thesis
  proof (cases "t \<noteq> [] \<and> lex_buffer fe (lexer e) = [] \<and> deferred_terminals fe (scanner e) = []
      \<and> (\<forall>c \<in> set t. c \<notin> literal_first_chars fe (lexer e))
      \<and> (\<forall>i \<in> set ids. map_of (resolved_token_ids s) i = None)")
    case True
    then have "feed fe s t ids e = emit_for_state s t ?e" by (simp add: feed_def)
    moreover have "scan fe (scanner e) t ids = ([Text_chunk t], scanner e)"
      and "lex_feed fe (lexer e) t = ([LexToken (content_terminal fe) t], lexer e)"
      using True assms(1,2) by (simp_all add: plain_for_lexer_def plain_for_scanner_def)
    ultimately show ?thesis
      using True by (simp add: feed_slow_def lex_and_process_def emit_content split_beta)
  next
    case False
    obtain items sc where sc: "scan fe (scanner e) t ids = (items, sc)" by fastforce
    have chunk: "process_scanner_items fe s [Text_chunk v] x = lex_and_process fe s (lex_feed fe (lexer x) v) x" for v x
      by (simp add: split_beta)
    show ?thesis
    proof (cases "\<exists>v k w. items = [Text_chunk v] \<and> fst (lex_feed fe (lexer e) v) = [LexToken k w]")
      case True
      then obtain v k w where v: "items = [Text_chunk v]" "fst (lex_feed fe (lexer e) v) = [LexToken k w]" by blast
      then have "w \<noteq> []" using assms(3)
        by (metis list.set_intros(1) tokens_nonempty_def)
      with v sc chunk False show ?thesis
        by (auto simp: feed_def feed_slow_def lex_and_process_def emit_content split_beta Let_def
            simp del: process_scanner_items.simps)
    next
      case other: False
      with sc chunk False show ?thesis
        by (auto simp: feed_def feed_slow_def lex_and_process_def split_beta Let_def
            simp del: process_scanner_items.simps split: list.split lexer_input.split lex_token.split)
    qed
  qed
qed

theorem feed_short_cuts_sound_witness:
  "feed id_frontend (demo_setup None) (lit ''hi'') [] demo_engine
     = ([SemanticEvent TEXT_CHUNK (Some (lit ''hi'')) (-1)], demo_engine)
   \<and> feed_slow id_frontend (demo_setup None) (lit ''hi'') [] demo_engine
     = ([SemanticEvent TEXT_CHUNK (Some (lit ''hi'')) (-1)], demo_engine)"
proof -
  have "feed id_frontend (demo_setup None) (lit ''hi'') [] demo_engine
      = ([SemanticEvent TEXT_CHUNK (Some (lit ''hi'')) (-1)], demo_engine)"
    by (simp add: demo_eval feed_def emit_for_state.simps Let_def lit_def)
  moreover have "feed id_frontend (demo_setup None) (lit ''hi'') [] demo_engine
      = feed_slow id_frontend (demo_setup None) (lit ''hi'') [] demo_engine"
    by (rule feed_short_cuts_sound) (auto simp: plain_for_lexer_def plain_for_scanner_def tokens_nonempty_def)
  ultimately show ?thesis by simp
qed

end
