(* ===== verification/OrphanInvoke.thy ===== *)
theory OrphanInvoke
  imports StreamProps
begin

text \<open>
  What the orphan recovery promises: an invoke block that lost its wrapper yields the events
  of the same block inside the wrapper when the request declares the name, and its own text
  when it does not.
\<close>

section \<open>Token lists\<close>

definition content_tokens :: "('lx, 'sc) frontend \<Rightarrow> pystr list \<Rightarrow> lex_token list" where
  "content_tokens fe ts = map (LexToken (content_terminal fe)) ts"

text \<open>One invoke block, given by the pieces of its name and of its arguments.\<close>

definition invoke_tokens :: "('lx, 'sc) frontend \<Rightarrow> pystr list \<times> pystr list \<Rightarrow> lex_token list" where
  "invoke_tokens fe call =
     LexToken ''INVOKE_PREFIX'' invoke_prefix # content_tokens fe (fst call)
       @ LexToken ''INVOKE_NAME_END'' invoke_name_end # content_tokens fe (snd call)
       @ [LexToken ''INVOKE_END'' (dsml_close ''invoke'')]"

definition chunk_events :: "event_type \<Rightarrow> int \<Rightarrow> pystr list \<Rightarrow> semantic_event list" where
  "chunk_events k i ts = map (\<lambda>t. SemanticEvent k (Some t) i) (filter (\<lambda>t. t \<noteq> []) ts)"

definition invoke_events :: "int \<Rightarrow> pystr list \<times> pystr list \<Rightarrow> semantic_event list" where
  "invoke_events i call =
     SemanticEvent TOOL_CALL_START (Some invoke_prefix) i # chunk_events NAME_EVENT i (fst call)
       @ chunk_events ARG_VALUE_CHUNK i (snd call)
       @ [SemanticEvent TOOL_CALL_END (Some (dsml_close ''invoke'')) i]"

fun calls_events :: "int \<Rightarrow> (pystr list \<times> pystr list) list \<Rightarrow> semantic_event list" where
  "calls_events i [] = []"
| "calls_events i (call # calls) = invoke_events (i + 1) call @ calls_events (i + 1) calls"

lemma chunk_events_simps [simp]:
  "chunk_events k i [] = []"
  "chunk_events k i (t # ts) = (if t = [] then [] else [SemanticEvent k (Some t) i]) @ chunk_events k i ts"
  by (simp_all add: chunk_events_def)

lemma token_loop_append:
  "lex_token_loop fe s strict (xs @ ys) e =
     (let (evs, e1) = lex_token_loop fe s strict xs e; (evs', e2) = lex_token_loop fe s strict ys e1
      in (evs @ evs', e2))"
proof (induction xs arbitrary: e)
  case (Cons x xs)
  then show ?case by (cases x) (simp add: split_beta Let_def)
qed simp

section \<open>A V4 request\<close>

text \<open>Where the machine is between two tokens.\<close>

definition posed :: "parser_state \<Rightarrow> int \<Rightarrow> bool \<Rightarrow> ('lx, 'sc) engine \<Rightarrow> bool" where
  "posed st i r e \<longleftrightarrow> state e = st \<and> tool_index e = i \<and> recovered_tool_call e = r \<and> \<not> hold_active e
     \<and> args_buffer e = [] \<and> pending_between_text e = []"

definition v4_request :: "('lx, 'sc) frontend \<Rightarrow> engine_setup \<Rightarrow> pystr set \<Rightarrow> bool" where
  "v4_request fe s names \<longleftrightarrow> (\<exists>conv thinking. config s = deepseek_v4_config conv thinking)
     \<and> \<not> skip_tool_parsing s \<and> \<not> suppress_tool_calls s \<and> allowed_tool_names s = Some names
     \<and> content_terminal fe \<notin> {''TOOL_START'', ''TOOL_END'', ''INVOKE_PREFIX'', ''INVOKE_NAME_END'', ''INVOKE_END''}"

abbreviation "loop fe s \<equiv> lex_token_loop fe s False"

text \<open>One token moves the machine.\<close>

definition moves :: "('lx, 'sc) frontend \<Rightarrow> engine_setup \<Rightarrow> lex_token list \<Rightarrow> ('lx, 'sc) engine \<Rightarrow>
    semantic_event list \<Rightarrow> (('lx, 'sc) engine \<Rightarrow> bool) \<Rightarrow> bool" where
  "moves fe s toks e evs P \<longleftrightarrow> fst (loop fe s toks e) = evs \<and> P (snd (loop fe s toks e))"

lemma moves_seq:
  assumes "moves fe s xs e evs P" "\<And>e'. P e' \<Longrightarrow> moves fe s ys e' evs' Q"
  shows "moves fe s (xs @ ys) e (evs @ evs') Q"
  using assms by (simp add: moves_def token_loop_append split_beta Let_def)

lemma moves_Cons:
  assumes "moves fe s [x] e evs P" "\<And>e'. P e' \<Longrightarrow> moves fe s ys e' evs' Q"
  shows "moves fe s (x # ys) e (evs @ evs') Q"
  using moves_seq [OF assms] by simp

lemma moves_weaken:
  "moves fe s toks e evs P \<Longrightarrow> evs = evs' \<Longrightarrow> (\<And>e'. P e' \<Longrightarrow> Q e') \<Longrightarrow> moves fe s toks e evs' Q"
  by (simp add: moves_def)

lemma terminal_moves:
  assumes v4: "v4_request fe s names" and "t \<in> {''TOOL_START'', ''TOOL_END'', ''INVOKE_PREFIX'', ''INVOKE_NAME_END'', ''INVOKE_END''}"
    "\<not> hold_active e" "map_of (transitions (config s)) (state e, t) = Some tr"
    "\<not> validate_tool_name tr" "\<not> skip_in_token_id_mode tr"
  shows "moves fe s [LexToken t v] e (fst (run_transition tr v e)) (\<lambda>e'. e' = snd (run_transition tr v e))"
  using v4 assms
  by (auto simp: moves_def v4_request_def split_beta on_terminal.simps apply_transition_def)

lemma tool_start:
  assumes v4: "v4_request fe s names" and p: "posed CONTENT i r e"
  shows "moves fe s [LexToken ''TOOL_START'' v] e [] (posed TOOL_PREAMBLE i r)"
proof -
  obtain c th where c: "config s = deepseek_v4_config c th" using v4 by (auto simp: v4_request_def)
  from p have tr: "map_of (transitions (config s)) (state e, ''TOOL_START'') = Some (trans TOOL_PREAMBLE [])" "\<not> hold_active e"
    by (auto simp: c posed_def v4_transitions)
  show ?thesis
    by (rule moves_weaken [OF terminal_moves [OF v4 _ tr(2,1)]])
      (use p in \<open>auto simp: posed_def run_transition_def tool_states_def Let_def\<close>)
qed

lemma tool_end:
  assumes v4: "v4_request fe s names" and p: "posed TOOL_BETWEEN i r e"
  shows "moves fe s [LexToken ''TOOL_END'' v] e [] (posed CONTENT i False)"
proof -
  obtain c th where c: "config s = deepseek_v4_config c th" using v4 by (auto simp: v4_request_def)
  from p have tr: "map_of (transitions (config s)) (state e, ''TOOL_END'') = Some (trans CONTENT [])" "\<not> hold_active e"
    by (auto simp: c posed_def v4_transitions)
  show ?thesis
    by (rule moves_weaken [OF terminal_moves [OF v4 _ tr(2,1)]])
      (use p in \<open>auto simp: posed_def run_transition_def tool_states_def Let_def\<close>)
qed

lemma invoke_start:
  assumes v4: "v4_request fe s names" and p: "posed st i r e" and st: "st \<in> {TOOL_PREAMBLE, TOOL_BETWEEN}"
  shows "moves fe s [LexToken ''INVOKE_PREFIX'' v] e [SemanticEvent TOOL_CALL_START (Some v) (i + 1)]
    (posed NAME_STATE (i + 1) r)"
proof -
  obtain c th where c: "config s = deepseek_v4_config c th" using v4 by (auto simp: v4_request_def)
  from p st have tr: "map_of (transitions (config s)) (state e, ''INVOKE_PREFIX'') = Some (trans NAME_STATE [TOOL_CALL_START])" "\<not> hold_active e"
    by (auto simp: c posed_def v4_transitions)
  show ?thesis
    by (rule moves_weaken [OF terminal_moves [OF v4 _ tr(2,1)]])
      (use p st in \<open>auto simp: posed_def run_transition_def tool_states_def Let_def\<close>)
qed

lemma name_end:
  assumes v4: "v4_request fe s names" and p: "posed NAME_STATE i r e"
  shows "moves fe s [LexToken ''INVOKE_NAME_END'' v] e [] (posed TOOL_ARGS i r)"
proof -
  obtain c th where c: "config s = deepseek_v4_config c th" using v4 by (auto simp: v4_request_def)
  from p have tr: "map_of (transitions (config s)) (state e, ''INVOKE_NAME_END'') = Some (trans TOOL_ARGS [])" "\<not> hold_active e"
    by (auto simp: c posed_def v4_transitions)
  show ?thesis
    by (rule moves_weaken [OF terminal_moves [OF v4 _ tr(2,1)]])
      (use p in \<open>auto simp: posed_def run_transition_def tool_states_def Let_def\<close>)
qed

lemma invoke_end:
  assumes v4: "v4_request fe s names" and p: "posed TOOL_ARGS i r e"
  shows "moves fe s [LexToken ''INVOKE_END'' v] e [SemanticEvent TOOL_CALL_END (Some v) i] (posed TOOL_BETWEEN i r)"
proof -
  obtain c th where c: "config s = deepseek_v4_config c th" using v4 by (auto simp: v4_request_def)
  from p have tr: "map_of (transitions (config s)) (state e, ''INVOKE_END'') = Some (trans TOOL_BETWEEN [TOOL_CALL_END])" "\<not> hold_active e"
    by (auto simp: c posed_def v4_transitions)
  show ?thesis
    by (rule moves_weaken [OF terminal_moves [OF v4 _ tr(2,1)]])
      (use p in \<open>auto simp: posed_def run_transition_def tool_states_def Let_def\<close>)
qed

text \<open>Content in the name and in the arguments, outside a hold.\<close>

lemma content_moves:
  assumes v4: "v4_request fe s names" and a: "posed st i r e" "(st, k) \<in> {(NAME_STATE, NAME_EVENT), (TOOL_ARGS, ARG_VALUE_CHUNK), (CONTENT, TEXT_CHUNK)}"
  shows "moves fe s (content_tokens fe ts) e (chunk_events k i ts) (posed st i r)"
proof -
  obtain c th where c: "config s = deepseek_v4_config c th" using v4 by (auto simp: v4_request_def)
  have "loop fe s (content_tokens fe ts) e = (chunk_events k i ts, e)"
    using assms c
    by (induction ts) (auto simp: content_tokens_def on_content_def emit_for_state.simps posed_def v4_content)
  with assms show ?thesis by (simp add: moves_def)
qed

text \<open>An invoke block inside a wrapper, or after a first block.\<close>

lemma args_moves:
  assumes v4: "v4_request fe s names" and a: "posed NAME_STATE i r e"
  shows "moves fe s (LexToken ''INVOKE_NAME_END'' invoke_name_end # content_tokens fe as
       @ [LexToken ''INVOKE_END'' (dsml_close ''invoke'')]) e
     (chunk_events ARG_VALUE_CHUNK i as @ [SemanticEvent TOOL_CALL_END (Some (dsml_close ''invoke'')) i])
     (posed TOOL_BETWEEN i r)"
proof -
  have "moves fe s (content_tokens fe as @ [LexToken ''INVOKE_END'' (dsml_close ''invoke'')]) e'
     (chunk_events ARG_VALUE_CHUNK i as @ [SemanticEvent TOOL_CALL_END (Some (dsml_close ''invoke'')) i])
     (posed TOOL_BETWEEN i r)" if "posed TOOL_ARGS i r e'" for e'
    by (rule moves_seq [OF content_moves [OF v4 that] invoke_end [OF v4]]) simp_all
  from moves_Cons [OF name_end [OF v4 a] this] show ?thesis by simp
qed

lemma invoke_moves:
  assumes v4: "v4_request fe s names" and a: "posed st i r e" "st \<in> {TOOL_PREAMBLE, TOOL_BETWEEN}"
  shows "moves fe s (invoke_tokens fe call) e (invoke_events (i + 1) call) (posed TOOL_BETWEEN (i + 1) r)"
proof -
  let ?rest = "LexToken ''INVOKE_NAME_END'' invoke_name_end # content_tokens fe (snd call)
      @ [LexToken ''INVOKE_END'' (dsml_close ''invoke'')]"
  have "moves fe s (content_tokens fe (fst call) @ ?rest) e'
     (chunk_events NAME_EVENT (i + 1) (fst call) @ chunk_events ARG_VALUE_CHUNK (i + 1) (snd call)
       @ [SemanticEvent TOOL_CALL_END (Some (dsml_close ''invoke'')) (i + 1)])
     (posed TOOL_BETWEEN (i + 1) r)" if "posed NAME_STATE (i + 1) r e'" for e'
    by (rule moves_seq [OF content_moves [OF v4 that] args_moves [OF v4]]) simp_all
  from moves_Cons [OF invoke_start [OF assms] this] show ?thesis
    by (simp add: invoke_tokens_def invoke_events_def)
qed

lemma invokes_move:
  "v4_request fe s names \<Longrightarrow> posed TOOL_BETWEEN i r e \<Longrightarrow>
   moves fe s (concat (map (invoke_tokens fe) calls)) e (calls_events i calls)
     (posed TOOL_BETWEEN (i + int (length calls)) r)"
proof (induction calls arbitrary: i e)
  case (Cons call calls)
  have "moves fe s (concat (map (invoke_tokens fe) calls)) e' (calls_events (i + 1) calls)
     (posed TOOL_BETWEEN (i + 1 + int (length calls)) r)"
    if "posed TOOL_BETWEEN (i + 1) r e'" for e'
    using Cons.IH [OF Cons.prems(1) that] .
  from moves_seq [OF invoke_moves [OF Cons.prems] this] show ?case by (simp add: add.assoc)
qed (simp add: moves_def)

section \<open>The hold\<close>

text \<open>The machine has read the marker and the pieces \<open>ns\<close> of a name, and emitted nothing.\<close>

definition holding :: "int \<Rightarrow> pystr list \<Rightarrow> ('lx, 'sc) engine \<Rightarrow> bool" where
  "holding i ns e \<longleftrightarrow> hold_active e \<and> state e = NAME_STATE \<and> tool_index e = i + 1
     \<and> held_events e = SemanticEvent TOOL_CALL_START (Some invoke_prefix) (i + 1) # chunk_events NAME_EVENT (i + 1) ns
     \<and> concat (held_name e) = concat ns \<and> concat (held_raw e) = invoke_prefix @ concat ns
     \<and> held_prior_state e = CONTENT \<and> held_prior_tool_index e = i
     \<and> args_buffer e = [] \<and> pending_between_text e = [] \<and> recovered_tool_call e"

lemma chunk_events_append: "chunk_events k i (xs @ ys) = chunk_events k i xs @ chunk_events k i ys"
  by (simp add: chunk_events_def)

lemma orphan_start:
  assumes v4: "v4_request fe s names" and p: "posed CONTENT i r e"
  shows "moves fe s [LexToken ''INVOKE_PREFIX'' invoke_prefix] e [] (holding i [])"
proof -
  obtain c th where c: "config s = deepseek_v4_config c th" using v4 by (auto simp: v4_request_def)
  with v4 p show ?thesis
    by (auto simp: moves_def v4_request_def posed_def holding_def on_terminal.simps v4_transitions
        apply_transition_def begin_hold_def run_transition_def tool_states_def split_beta Let_def)
qed

lemma held_piece:
  assumes v4: "v4_request fe s names" and h: "holding i ns e"
    and grow: "\<exists>n \<in> names. prefix (concat (ns @ [t])) n"
  shows "moves fe s (content_tokens fe [t]) e [] (holding i (ns @ [t]))"
proof (cases "t = []")
  case True
  with h show ?thesis
    by (simp add: moves_def content_tokens_def on_content_def holding_def chunk_events_append)
next
  case False
  have "can_grow_into_declared_name s (concat (held_name e) @ t)"
    using v4 h grow by (simp add: v4_request_def can_grow_into_declared_name_def holding_def)
  with False h show ?thesis
    by (simp add: moves_def content_tokens_def on_content_def holding_def emit_for_state.simps chunk_events_append)
qed

lemma content_tokens_Cons: "content_tokens fe (t # ts) = content_tokens fe [t] @ content_tokens fe ts"
  by (simp add: content_tokens_def)

lemma held_name_moves:
  assumes v4: "v4_request fe s names" and "n \<in> names"
  shows "holding i ns e \<Longrightarrow> prefix (concat (ns @ ts)) n \<Longrightarrow>
    moves fe s (content_tokens fe ts) e [] (holding i (ns @ ts))"
proof (induction ts arbitrary: ns e)
  case (Cons t ts)
  have "prefix (concat (ns @ [t])) n"
    using Cons.prems(2) by (auto elim: prefix_order.trans [rotated])
  then have 1: "moves fe s (content_tokens fe [t]) e [] (holding i (ns @ [t]))"
    by (intro held_piece [OF v4 Cons.prems(1)] bexI [OF _ \<open>n \<in> names\<close>])
  have 2: "moves fe s (content_tokens fe ts) e' [] (holding i ((ns @ [t]) @ ts))"
    if "holding i (ns @ [t]) e'" for e'
    using Cons.IH [OF that] Cons.prems(2) by simp
  from moves_seq [OF 1 2] show ?case by (subst content_tokens_Cons) simp
qed (simp add: moves_def content_tokens_def)

lemma hold_commits:
  assumes v4: "v4_request fe s names" and h: "holding i ns e" and n: "concat ns \<in> names"
  shows "moves fe s [LexToken ''INVOKE_NAME_END'' invoke_name_end] e
    (SemanticEvent TOOL_CALL_START (Some invoke_prefix) (i + 1) # chunk_events NAME_EVENT (i + 1) ns)
    (posed TOOL_ARGS (i + 1) True)"
proof -
  obtain c th where c: "config s = deepseek_v4_config c th" using v4 by (auto simp: v4_request_def)
  with v4 h n show ?thesis
    by (auto simp: moves_def v4_request_def posed_def holding_def on_terminal.simps v4_transitions
        apply_transition_def resolve_hold_def run_transition_def tool_states_def clear_hold_def
        split_beta Let_def)
qed

text \<open>A whole orphan invoke with a declared name.\<close>

lemma orphan_moves:
  assumes v4: "v4_request fe s names" and p: "posed CONTENT i r e" and n: "concat (fst call) \<in> names"
  shows "moves fe s (invoke_tokens fe call) e (invoke_events (i + 1) call) (posed TOOL_BETWEEN (i + 1) True)"
proof -
  let ?start = "SemanticEvent TOOL_CALL_START (Some invoke_prefix) (i + 1) # chunk_events NAME_EVENT (i + 1) (fst call)"
  let ?tail = "chunk_events ARG_VALUE_CHUNK (i + 1) (snd call)
      @ [SemanticEvent TOOL_CALL_END (Some (dsml_close ''invoke'')) (i + 1)]"
  have args: "moves fe s (content_tokens fe (snd call) @ [LexToken ''INVOKE_END'' (dsml_close ''invoke'')]) e' ?tail
      (posed TOOL_BETWEEN (i + 1) True)" if "posed TOOL_ARGS (i + 1) True e'" for e'
    by (rule moves_seq [OF content_moves [OF v4 that] invoke_end [OF v4]]) simp_all
  have rest: "moves fe s (LexToken ''INVOKE_NAME_END'' invoke_name_end # content_tokens fe (snd call)
      @ [LexToken ''INVOKE_END'' (dsml_close ''invoke'')]) e' (?start @ ?tail) (posed TOOL_BETWEEN (i + 1) True)"
    if "holding i (fst call) e'" for e'
    by (rule moves_Cons [OF hold_commits [OF v4 that n] args])
  have name: "moves fe s (content_tokens fe (fst call)) e' [] (holding i (fst call))" if "holding i [] e'" for e'
    using held_name_moves [OF v4 n that, of "fst call"] by simp
  have "moves fe s (content_tokens fe (fst call) @ LexToken ''INVOKE_NAME_END'' invoke_name_end
      # content_tokens fe (snd call) @ [LexToken ''INVOKE_END'' (dsml_close ''invoke'')]) e'
      (?start @ ?tail) (posed TOOL_BETWEEN (i + 1) True)" if "holding i [] e'" for e'
    using moves_seq [OF name [OF that] rest] by simp
  from moves_Cons [OF orphan_start [OF v4 p] this] show ?thesis
    by (simp add: invoke_tokens_def invoke_events_def)
qed

text \<open>Text after the blocks: with the closing wrapper, and without it.\<close>

lemma text_after_orphan:
  assumes "v4_request fe s names" "posed TOOL_BETWEEN i True e" "ustrip t \<noteq> []"
  shows "moves fe s (content_tokens fe [t]) e [SemanticEvent TEXT_CHUNK (Some t) i] (posed TOOL_BETWEEN i True)"
proof -
  obtain c th where c: "config s = deepseek_v4_config c th" using assms(1) by (auto simp: v4_request_def)
  have "t \<noteq> []" using assms(3) by auto
  with assms c show ?thesis
    by (simp add: moves_def content_tokens_def on_content_def emit_for_state.simps posed_def v4_content Let_def)
qed

text \<open>C27: An invoke block whose wrapper is missing is parsed as if the wrapper were there: when the
  request declares the name of its first call, the calls and the text after them give the same
  events with the opening and closing wrapper and without them, for every cut of names and
  arguments into pieces.\<close>

theorem orphan_parses_like_wrapped:
  assumes "v4_request fe s names" "posed CONTENT i r e" "concat (fst call) \<in> names" "ustrip t \<noteq> []"
  shows "fst (lex_token_loop fe s False
       (concat (map (invoke_tokens fe) (call # calls)) @ content_tokens fe [t]) e)
     = calls_events i (call # calls) @ [SemanticEvent TEXT_CHUNK (Some t) (i + int (length (call # calls)))]
   \<and> fst (lex_token_loop fe s False
       (LexToken ''TOOL_START'' v # concat (map (invoke_tokens fe) (call # calls))
         @ LexToken ''TOOL_END'' w # content_tokens fe [t]) e)
     = calls_events i (call # calls) @ [SemanticEvent TEXT_CHUNK (Some t) (i + int (length (call # calls)))]"
proof
  let ?n = "i + int (length (call # calls))"
  let ?text = "[SemanticEvent TEXT_CHUNK (Some t) ?n]"
  have more: "moves fe s (concat (map (invoke_tokens fe) calls)) e' (calls_events (i + 1) calls) (posed TOOL_BETWEEN ?n b)"
    if "posed TOOL_BETWEEN (i + 1) b e'" for b e'
    using invokes_move [OF assms(1) that, of calls] by (simp add: add.assoc)
  have "moves fe s (concat (map (invoke_tokens fe) (call # calls))) e (calls_events i (call # calls))
      (posed TOOL_BETWEEN ?n True)"
    using moves_seq [OF orphan_moves [OF assms(1,2,3)] more] by simp
  from moves_seq [OF this text_after_orphan [OF assms(1) _ assms(4)]]
  show "fst (loop fe s (concat (map (invoke_tokens fe) (call # calls)) @ content_tokens fe [t]) e)
     = calls_events i (call # calls) @ ?text"
    by (simp add: moves_def)
  have t: "chunk_events TEXT_CHUNK ?n [t] = ?text" using assms(4) by auto
  have last: "moves fe s (content_tokens fe [t]) e' ?text (posed CONTENT ?n False)" if "posed CONTENT ?n False e'" for e'
    using content_moves [OF assms(1) that, where k = TEXT_CHUNK and ts = "[t]"] t by simp
  have close: "moves fe s (LexToken ''TOOL_END'' w # content_tokens fe [t]) e' ?text (posed CONTENT ?n False)"
    if "posed TOOL_BETWEEN ?n r e'" for e'
    using moves_Cons [OF tool_end [OF assms(1) that] last] by simp
  have wrapped: "moves fe s (concat (map (invoke_tokens fe) (call # calls))) e' (calls_events i (call # calls))
      (posed TOOL_BETWEEN ?n r)" if "posed TOOL_PREAMBLE i r e'" for e'
    using moves_seq [OF invoke_moves [OF assms(1) that] more] by simp
  have "moves fe s (concat (map (invoke_tokens fe) (call # calls)) @ LexToken ''TOOL_END'' w # content_tokens fe [t]) e'
      (calls_events i (call # calls) @ ?text) (posed CONTENT ?n False)" if "posed TOOL_PREAMBLE i r e'" for e'
    by (rule moves_seq [OF wrapped [OF that] close])
  from moves_Cons [OF tool_start [OF assms(1,2)] this]
  show "fst (loop fe s (LexToken ''TOOL_START'' v # concat (map (invoke_tokens fe) (call # calls))
         @ LexToken ''TOOL_END'' w # content_tokens fe [t]) e) = calls_events i (call # calls) @ ?text"
    by (simp add: moves_def)
qed

lemma demo_request: "v4_request id_frontend (demo_setup (Some names)) names"
  by (simp add: v4_request_def) blast

lemma demo_posed: "posed CONTENT (-1) False demo_engine"
  by (simp add: posed_def demo_engine_eq)

theorem orphan_parses_like_wrapped_witness:
  "fst (lex_token_loop id_frontend (demo_setup (Some {lit ''f''})) False
       (invoke_tokens id_frontend ([lit ''f''], [lit ''1'']) @ content_tokens id_frontend [lit ''ok'']) demo_engine)
   = [SemanticEvent TOOL_CALL_START (Some invoke_prefix) 0, SemanticEvent NAME_EVENT (Some (lit ''f'')) 0,
      SemanticEvent ARG_VALUE_CHUNK (Some (lit ''1'')) 0, SemanticEvent TOOL_CALL_END (Some (dsml_close ''invoke'')) 0,
      SemanticEvent TEXT_CHUNK (Some (lit ''ok'')) 0]"
proof -
  have t: "ustrip (lit ''ok'') \<noteq> []" by (simp add: ustrip_Nil_iff lit_def uis_space_def)
  from orphan_parses_like_wrapped [OF demo_request demo_posed _ t,
      where names = "{lit ''f''}" and call = "([lit ''f''], [lit ''1''])" and calls = "[]"]
  show ?thesis by (simp add: invoke_events_def lit_def)
qed

section \<open>An invoke nobody declared\<close>

definition all_text :: "pystr \<Rightarrow> semantic_event list \<Rightarrow> bool" where
  "all_text raw evs \<longleftrightarrow> event_text evs = raw \<and> list_all (\<lambda>ev. ev_type ev = TEXT_CHUNK) evs"

text \<open>Either the hold still stands, or all that was read came out as text.\<close>

definition undecided :: "int \<Rightarrow> pystr list \<Rightarrow> semantic_event list \<times> ('lx, 'sc) engine \<Rightarrow> bool" where
  "undecided i ns x \<longleftrightarrow> holding i ns (snd x) \<and> fst x = []
     \<or> posed CONTENT i False (snd x) \<and> all_text (invoke_prefix @ concat ns) (fst x)"

lemma content_is_text:
  assumes "v4_request fe s names" "posed CONTENT i r e"
  shows "moves fe s (content_tokens fe ts) e (chunk_events TEXT_CHUNK i ts) (posed CONTENT i r)"
  using content_moves [OF assms, where k = TEXT_CHUNK] by simp

lemma all_text_chunks: "all_text (concat ts) (chunk_events TEXT_CHUNK i ts)"
  by (induction ts) (simp_all add: all_text_def)

lemma all_text_append: "all_text x xs \<Longrightarrow> all_text y ys \<Longrightarrow> all_text (x @ y) (xs @ ys)"
  by (simp add: all_text_def)

lemma abort_hold_text:
  assumes v4: "v4_request fe s names" and h: "holding i ns e"
  shows "fst (abort_hold s raw e) = [SemanticEvent TEXT_CHUNK (Some raw) i]"
    "posed CONTENT i False (snd (abort_hold s raw e))"
proof -
  obtain c th where "config s = deepseek_v4_config c th" using v4 by (auto simp: v4_request_def)
  with h show "fst (abort_hold s raw e) = [SemanticEvent TEXT_CHUNK (Some raw) i]"
    "posed CONTENT i False (snd (abort_hold s raw e))"
    by (simp_all add: abort_hold.simps emit_for_state.simps holding_def clear_hold_def posed_def
        v4_content tool_states_def)
qed

lemma held_name_undecided:
  assumes v4: "v4_request fe s names"
  shows "holding i ns e \<Longrightarrow> undecided i (ns @ ts) (loop fe s (content_tokens fe ts) e)"
proof (induction ts arbitrary: ns e)
  case (Cons t ts)
  show ?case
  proof (cases "t = [] \<or> (\<exists>n \<in> names. prefix (concat (ns @ [t])) n)")
    case True
    have "moves fe s (content_tokens fe [t]) e [] (holding i (ns @ [t]))"
    proof (cases "t = []")
      case True
      with Cons.prems show ?thesis
        by (simp add: moves_def content_tokens_def on_content_def holding_def chunk_events_append)
    next
      case False
      with True held_piece [OF v4 Cons.prems] show ?thesis by blast
    qed
    then have one: "loop fe s (content_tokens fe [t]) e = ([], snd (loop fe s (content_tokens fe [t]) e))"
      and h: "holding i (ns @ [t]) (snd (loop fe s (content_tokens fe [t]) e))"
      by (simp_all add: moves_def prod_eq_iff)
    have "loop fe s (content_tokens fe (t # ts)) e
        = loop fe s (content_tokens fe ts) (snd (loop fe s (content_tokens fe [t]) e))"
      by (subst content_tokens_Cons, subst token_loop_append, subst one) (simp add: split_beta)
    with Cons.IH [OF h] show ?thesis by simp
  next
    case False
    let ?raw = "concat (held_raw e) @ t"
    let ?e = "snd (abort_hold s ?raw e)"
    have "\<not> can_grow_into_declared_name s (concat (held_name e) @ t)"
      using False v4 Cons.prems by (simp add: v4_request_def can_grow_into_declared_name_def holding_def)
    then have one: "loop fe s (content_tokens fe [t]) e = abort_hold s ?raw e"
      using False Cons.prems
      by (simp add: content_tokens_def on_content_def holding_def emit_for_state.simps split_beta)
    note a = abort_hold_text [OF v4 Cons.prems, of ?raw]
    have rest: "moves fe s (content_tokens fe ts) ?e (chunk_events TEXT_CHUNK i ts) (posed CONTENT i False)"
      by (rule content_is_text [OF v4 a(2)])
    have "loop fe s (content_tokens fe (t # ts)) e
        = (SemanticEvent TEXT_CHUNK (Some ?raw) i # chunk_events TEXT_CHUNK i ts,
           snd (loop fe s (content_tokens fe ts) ?e))"
      using rest a(1)
      by (subst content_tokens_Cons, subst token_loop_append, subst one) (simp add: split_beta moves_def)
    moreover have "?raw = invoke_prefix @ concat (ns @ [t])" using Cons.prems by (simp add: holding_def)
    ultimately show ?thesis
      using rest all_text_chunks [of ts i] by (simp add: undecided_def moves_def all_text_def)
  qed
qed (simp add: undecided_def content_tokens_def)

lemma name_end_is_text:
  assumes v4: "v4_request fe s names" and u: "undecided i ns x" and n: "concat ns \<notin> names"
    and d: "drop_terminal fe \<noteq> ''INVOKE_NAME_END''"
  shows "all_text (invoke_prefix @ concat ns @ invoke_name_end)
       (fst x @ fst (on_terminal fe s ''INVOKE_NAME_END'' invoke_name_end (snd x)))
     \<and> posed CONTENT i False (snd (on_terminal fe s ''INVOKE_NAME_END'' invoke_name_end (snd x)))"
proof -
  obtain c th where c: "config s = deepseek_v4_config c th" using v4 by (auto simp: v4_request_def)
  from u consider (held) "holding i ns (snd x)" "fst x = []"
    | (released) "posed CONTENT i False (snd x)" "all_text (invoke_prefix @ concat ns) (fst x)"
    by (auto simp: undecided_def)
  then show ?thesis
  proof cases
    case held
    have "on_terminal fe s ''INVOKE_NAME_END'' invoke_name_end (snd x)
        = abort_hold s (concat (held_raw (snd x)) @ invoke_name_end) (snd x)"
      using held(1) v4 n c
      by (simp add: on_terminal.simps holding_def v4_transitions v4_request_def apply_transition_def resolve_hold_def)
    with abort_hold_text [OF v4 held(1), of "concat (held_raw (snd x)) @ invoke_name_end"] held show ?thesis
      by (simp add: all_text_def holding_def)
  next
    case released
    have "map_of (transitions (config s)) (CONTENT, ''INVOKE_NAME_END'') = None"
      by (simp add: c deepseek_v4_config_def)
    with released d c have "on_terminal fe s ''INVOKE_NAME_END'' invoke_name_end (snd x)
        = ([SemanticEvent TEXT_CHUNK (Some invoke_name_end) i], snd x)"
      by (simp add: on_terminal.simps posed_def emit_for_state.simps v4_content)
    with released show ?thesis by (simp add: all_text_def)
  qed
qed

text \<open>C28: A false positive of the recovery is undone completely: when text quotes an invoke marker and
  the name after it was not declared by the request, no tool call event is emitted, the emitted
  text is the marker, the name and its end without a character lost or changed, wherever the name
  is cut into pieces, and the engine is back in the content state under the old call index.\<close>

theorem undeclared_orphan_is_text:
  assumes "v4_request fe s names" "posed CONTENT i r e" "concat ns \<notin> names"
    and "drop_terminal fe \<noteq> ''INVOKE_NAME_END''"
    and "lex_token_loop fe s False (LexToken ''INVOKE_PREFIX'' invoke_prefix # content_tokens fe ns
           @ [LexToken ''INVOKE_NAME_END'' invoke_name_end]) e = (evs, e')"
  shows "event_text evs = invoke_prefix @ concat ns @ invoke_name_end
    \<and> list_all (\<lambda>ev. ev_type ev = TEXT_CHUNK) evs
    \<and> state e' = CONTENT \<and> tool_index e' = i \<and> \<not> hold_active e'"
proof -
  let ?e = "snd (loop fe s [LexToken ''INVOKE_PREFIX'' invoke_prefix] e)"
  let ?x = "loop fe s (content_tokens fe ns) ?e"
  let ?y = "on_terminal fe s ''INVOKE_NAME_END'' invoke_name_end (snd ?x)"
  have start: "fst (loop fe s [LexToken ''INVOKE_PREFIX'' invoke_prefix] e) = []" "holding i [] ?e"
    using orphan_start [OF assms(1,2)] by (simp_all add: moves_def)
  have u: "undecided i ns ?x" using held_name_undecided [OF assms(1) start(2), of ns] by simp
  have t: "content_terminal fe \<noteq> ''INVOKE_NAME_END''" using assms(1) by (auto simp: v4_request_def)
  have "loop fe s ([LexToken ''INVOKE_PREFIX'' invoke_prefix] @ content_tokens fe ns
      @ [LexToken ''INVOKE_NAME_END'' invoke_name_end]) e = (fst ?x @ fst ?y, snd ?y)"
    using start(1) t
    by (simp only: token_loop_append) (simp add: split_beta)
  with assms(5) have "evs = fst ?x @ fst ?y" "e' = snd ?y" by simp_all
  with name_end_is_text [OF assms(1) u assms(3,4)] show ?thesis
    by (simp add: all_text_def posed_def)
qed

theorem undeclared_orphan_is_text_witness:
  "\<exists>evs e'. lex_token_loop id_frontend (demo_setup (Some {lit ''f''})) False
       (LexToken ''INVOKE_PREFIX'' invoke_prefix # content_tokens id_frontend [lit ''g'']
         @ [LexToken ''INVOKE_NAME_END'' invoke_name_end]) demo_engine = (evs, e')
     \<and> event_text evs = invoke_prefix @ lit ''g'' @ invoke_name_end"
proof -
  let ?r = "lex_token_loop id_frontend (demo_setup (Some {lit ''f''})) False
       (LexToken ''INVOKE_PREFIX'' invoke_prefix # content_tokens id_frontend [lit ''g'']
         @ [LexToken ''INVOKE_NAME_END'' invoke_name_end]) demo_engine"
  have "concat [lit ''g''] \<notin> {lit ''f''}" by (simp add: lit_def)
  from undeclared_orphan_is_text [OF demo_request demo_posed this _ prod.collapse [symmetric]]
  have "event_text (fst ?r) = invoke_prefix @ lit ''g'' @ invoke_name_end" by simp
  then show ?thesis by (metis prod.collapse)
qed

end
