(* ===== verification/OffloadConfig.thy ===== *)
theory OffloadConfig
  imports Prelude
begin

text \<open>
  The static part of the offloading scheduler (the file
  \<open>offloading-scheduler.dspark-prefix.py\<close>): the configuration of the KV cache groups, which
  sliding-window chunks are worth storing, and the per-request bookkeeping of keys and blocks.
  An assertion that fails is \<^term>\<open>None\<close>.  The cache specs, the block hashes and the
  constructor of offload keys come from outside the repository.
\<close>

definition cdiv :: "nat \<Rightarrow> nat \<Rightarrow> nat" where
  "cdiv n d = (n + d - 1) div d"

definition round_down :: "int \<Rightarrow> nat \<Rightarrow> int" where
  "round_down n d = n div int d * int d"

lemma cdiv_le_iff: "0 < d \<Longrightarrow> cdiv n d \<le> k \<longleftrightarrow> n \<le> k * d"
  unfolding cdiv_def using div_less_iff_less_mult [of d "n + d - 1" "Suc k"]
  by (simp add: less_Suc_eq_le [symmetric]) linarith

lemma cdiv_mult [simp]: "0 < d \<Longrightarrow> cdiv (d * k) d = k"
  by (rule antisym) (simp_all add: cdiv_le_iff mult.commute, metis cdiv_le_iff mult.commute mult_le_cancel1 order_refl)

lemma cdiv_upper: "0 < d \<Longrightarrow> n \<le> cdiv n d * d"
  using cdiv_le_iff [of d n "cdiv n d"] by simp

lemma cdiv_mono: "0 < d \<Longrightarrow> m \<le> n \<Longrightarrow> cdiv m d \<le> cdiv n d"
  by (meson cdiv_le_iff cdiv_upper order_trans)

lemma cdiv_pos [simp]: "0 < d \<Longrightarrow> 0 < cdiv n d \<longleftrightarrow> 0 < n"
  using cdiv_le_iff [of d n 0] by (metis le_zero_eq mult_zero_left neq0_conv)

section \<open>Groups\<close>

text \<open>The cache specs the code tells apart; \<open>MambaSpec\<close> carries whether its mode is \<open>align\<close>.\<close>

datatype kv_spec = SlidingWindowSpec nat | MambaSpec bool | FullAttentionSpec | OtherSpec

record kv_group =
  kv_cache_spec :: kv_spec
  group_is_eagle :: bool

record offload_spec =
  spec_tokens_per_block :: "nat list"
  spec_blocks_per_chunk :: nat
  spec_tokens_per_hash :: nat
  spec_offload_prompt_only :: bool

text \<open>The speculative configuration, if any: what \<open>use_eagle()\<close> and \<open>use_dspark()\<close> answer.\<close>

record vllm_config =
  speculative :: "(bool \<times> bool) option"
  world_size :: nat

record group_config =
  group_idx :: nat
  tokens_per_block :: nat
  tokens_per_chunk :: nat
  hashes_per_chunk :: nat
  sliding_window_size_in_chunks :: "nat option"
  alignment_chunk_count :: "nat option"
  is_eagle_group :: bool
  eagle_group_is_veto_exempt :: bool
  skip_external_reuse :: bool

record sched_config =
  kv_group_configs :: "group_config list"
  blocks_per_chunk :: nat
  num_workers :: nat
  offload_prompt_only :: bool

text \<open>The outer option is the assertions, the inner one is full attention.\<close>

fun get_sliding_window_size_in_chunks :: "kv_spec \<Rightarrow> nat \<Rightarrow> nat option option" where
  "get_sliding_window_size_in_chunks (SlidingWindowSpec w) n = (if 0 < w then Some (Some (cdiv w n)) else None)"
| "get_sliding_window_size_in_chunks (MambaSpec align) n = Some (Some 1)"
| "get_sliding_window_size_in_chunks FullAttentionSpec n = Some None"
| "get_sliding_window_size_in_chunks OtherSpec n = None"

text \<open>The loop of \<open>resolve_mamba_align_size\<close>; the accumulator is the size found so far.\<close>

fun mamba_align_loop :: "nat \<Rightarrow> (nat \<times> kv_group) list \<Rightarrow> nat option \<Rightarrow> nat option option" where
  "mamba_align_loop bpc [] acc = Some acc"
| "mamba_align_loop bpc ((tpb, g) # gs) acc =
     (if kv_cache_spec g = MambaSpec True then
        (if acc = None \<or> acc = Some (tpb * bpc) then mamba_align_loop bpc gs (Some (tpb * bpc)) else None)
      else mamba_align_loop bpc gs acc)"

definition resolve_mamba_align_size :: "offload_spec \<Rightarrow> kv_group list \<Rightarrow> nat option option" where
  "resolve_mamba_align_size spec groups =
     mamba_align_loop (spec_blocks_per_chunk spec) (zip (spec_tokens_per_block spec) groups) None"

text \<open>\<open>alignment_tokens\<close>: the chunk size of the full-attention groups, when they agree.\<close>

definition alignment_tokens :: "(nat \<times> nat option) list \<Rightarrow> nat option" where
  "alignment_tokens sizes =
     (case remdups (map fst (filter (\<lambda>(tpc, sw). sw = None) sizes)) of [t] \<Rightarrow> Some t | _ \<Rightarrow> None)"

definition alignment_count :: "nat option \<Rightarrow> nat \<Rightarrow> nat option \<Rightarrow> nat option" where
  "alignment_count align tpc sw =
     (case (align, sw) of
        (Some a, Some w) \<Rightarrow> if a \<le> tpc then None else if a div tpc \<le> w then None else Some (a div tpc)
      | _ \<Rightarrow> None)"

definition eagle_groups :: "vllm_config \<Rightarrow> kv_group list \<Rightarrow> nat set" where
  "eagle_groups v groups =
     (let marked = Set.filter (\<lambda>i. group_is_eagle (groups ! i)) {..<length groups};
          use_eagle = (case speculative v of None \<Rightarrow> False | Some (e, d) \<Rightarrow> e)
      in if use_eagle \<and> marked = {} then {..<length groups} else marked)"

definition make_group :: "offload_spec \<Rightarrow> nat option \<Rightarrow> bool \<Rightarrow> nat set \<Rightarrow> nat \<times> nat \<times> nat option \<Rightarrow> group_config" where
  "make_group spec align dspark eagles x = (case x of (idx, tpb, sw) \<Rightarrow>
     \<lparr> group_idx = idx, tokens_per_block = tpb, tokens_per_chunk = tpb * spec_blocks_per_chunk spec,
       hashes_per_chunk = tpb * spec_blocks_per_chunk spec div spec_tokens_per_hash spec,
       sliding_window_size_in_chunks = sw,
       alignment_chunk_count = alignment_count align (tpb * spec_blocks_per_chunk spec) sw,
       is_eagle_group = (idx \<in> eagles),
       eagle_group_is_veto_exempt = (dspark \<and> idx \<in> eagles),
       skip_external_reuse = (dspark \<and> idx \<in> eagles) \<rparr>)"

text \<open>The window sizes of all groups, or the failed assertion of one.\<close>

fun window_sizes :: "nat \<Rightarrow> (nat \<times> kv_group) list \<Rightarrow> nat option list option" where
  "window_sizes bpc [] = Some []"
| "window_sizes bpc ((tpb, g) # gs) =
     (case get_sliding_window_size_in_chunks (kv_cache_spec g) (tpb * bpc) of
        None \<Rightarrow> None
      | Some sw \<Rightarrow> (case window_sizes bpc gs of None \<Rightarrow> None | Some sws \<Rightarrow> Some (sw # sws)))"

definition from_spec :: "offload_spec \<Rightarrow> vllm_config \<Rightarrow> kv_group list \<Rightarrow> sched_config option" where
  "from_spec spec v groups =
     (let tpbs = spec_tokens_per_block spec; bpc = spec_blocks_per_chunk spec
      in if length groups < length tpbs then None
         else case window_sizes bpc (zip tpbs groups) of
           None \<Rightarrow> None
         | Some sws \<Rightarrow>
             (let align = alignment_tokens (zip (map (\<lambda>tpb. tpb * bpc) tpbs) sws);
                  dspark = (case speculative v of None \<Rightarrow> False | Some (e, d) \<Rightarrow> d)
              in Some \<lparr> kv_group_configs =
                          map (make_group spec align dspark (eagle_groups v groups))
                            (zip [0..<length tpbs] (zip tpbs sws)),
                        blocks_per_chunk = bpc, num_workers = world_size v,
                        offload_prompt_only = spec_offload_prompt_only spec \<rparr>))"

section \<open>Which chunks are worth storing\<close>

text \<open>\<open>is_store_reachable_swa_chunk\<close>; the right-hand side of the comparison may be negative.\<close>

definition is_store_reachable_swa_chunk :: "nat \<Rightarrow> nat \<Rightarrow> nat option \<Rightarrow> nat option \<Rightarrow> bool \<Rightarrow> bool option" where
  "is_store_reachable_swa_chunk idx storable align window eagle =
     (case align of
        None \<Rightarrow> Some True
      | Some a \<Rightarrow>
          (case window of
             None \<Rightarrow> None
           | Some w \<Rightarrow>
               (let pos = idx mod a; start = idx - pos;
                    len = min (int a) (int storable - int start);
                    tail = int w + (if eagle then 1 else 0)
                in Some (int pos \<ge> len - tail))))"

section \<open>Requests\<close>

text \<open>\<open>max_offload_tokens\<close> of the transfer parameters: absent, an int, or something else.\<close>

datatype raw_param = RawInt int | RawOther

text \<open>The tier matchers of the transfer parameters, as they arrive: a string, or another value.\<close>

datatype raw_name = RawStr string | RawNoStr

datatype raw_entry = RawDict "raw_name option" "raw_name option" | RawNoDict

datatype raw_tiers = RawList "raw_entry list" | RawNoList

datatype request_status = UNFINISHED | FINISHED_ABORTED | FINISHED_OTHER

text \<open>What the scheduler reads of a request of the engine.\<close>

record 'h request =
  request_id :: req_id
  block_hashes :: "'h list"
  num_tokens :: nat
  num_prompt_tokens :: nat
  num_computed_tokens :: nat
  status :: request_status
  skip_reading_prefix_cache :: bool
  raw_max_offload :: "raw_param option"
  raw_load_tiers :: "raw_tiers option"

record 'k group_state =
  offload_keys :: "'k list"
  block_ids :: "nat list"
  next_stored_chunk_idx :: nat
  num_hit_chunks :: nat

definition new_group_state :: "'k group_state" where
  "new_group_state = \<lparr> offload_keys = [], block_ids = [], next_stored_chunk_idx = 0, num_hit_chunks = 0 \<rparr>"

text \<open>\<open>max_offload_tokens\<close> is taken when it is a non-negative int and ignored otherwise.\<close>

definition read_max_offload_tokens :: "raw_param option \<Rightarrow> nat option" where
  "read_max_offload_tokens raw =
     (case raw of Some (RawInt n) \<Rightarrow> if n \<ge> 0 then Some (nat n) else None | _ \<Rightarrow> None)"

text \<open>\<open>islice(xs, start, None, step)\<close>.\<close>

fun islice_from :: "nat \<Rightarrow> nat \<Rightarrow> 'a list \<Rightarrow> 'a list" where
  "islice_from start step [] = []"
| "islice_from 0 step (x # xs) = x # islice_from (step - 1) step xs"
| "islice_from (Suc n) step (x # xs) = islice_from n step xs"

definition update_group_keys :: "('h \<Rightarrow> nat \<Rightarrow> 'k) \<Rightarrow> 'h list \<Rightarrow> group_config \<Rightarrow> 'k group_state \<Rightarrow> 'k group_state" where
  "update_group_keys mk hashes g st =
     st\<lparr> offload_keys := offload_keys st @
          map (\<lambda>h. mk h (group_idx g))
            (islice_from (hashes_per_chunk g * length (offload_keys st) + hashes_per_chunk g - 1)
               (hashes_per_chunk g) hashes) \<rparr>"

definition update_offload_keys ::
  "('h \<Rightarrow> nat \<Rightarrow> 'k) \<Rightarrow> sched_config \<Rightarrow> 'h request \<Rightarrow> 'k group_state list \<Rightarrow> 'k group_state list" where
  "update_offload_keys mk cfg req sts =
     map2 (update_group_keys mk (block_hashes req)) (kv_group_configs cfg) sts"

definition update_block_id_groups :: "nat list list option \<Rightarrow> 'k group_state list \<Rightarrow> 'k group_state list option" where
  "update_block_id_groups new sts =
     (case new of
        None \<Rightarrow> Some sts
      | Some gs \<Rightarrow>
          if length gs \<noteq> length sts then None
          else Some (map2 (\<lambda>st bs. st\<lparr> block_ids := block_ids st @ bs \<rparr>) sts gs))"

definition storable_chunks :: "sched_config \<Rightarrow> 'h request \<Rightarrow> group_config \<Rightarrow> 'k group_state \<Rightarrow> nat \<Rightarrow> nat" where
  "storable_chunks cfg req g st offloadable =
     (let n = offloadable div tokens_per_chunk g;
          n' = (if is_eagle_group g \<and> offloadable > num_prompt_tokens req then n - 1 else n)
      in min n' (length (block_ids st) div blocks_per_chunk cfg))"

definition advance_stored_idx :: "sched_config \<Rightarrow> 'h request \<Rightarrow> nat \<Rightarrow> 'k group_state list \<Rightarrow> 'k group_state list" where
  "advance_stored_idx cfg req offloadable sts =
     map2 (\<lambda>g st. st\<lparr> next_stored_chunk_idx :=
             max (next_stored_chunk_idx st) (storable_chunks cfg req g st offloadable) \<rparr>)
       (kv_group_configs cfg) sts"

definition update_num_hit_chunks :: "sched_config \<Rightarrow> nat \<Rightarrow> 'k group_state list \<Rightarrow> 'k group_state list" where
  "update_num_hit_chunks cfg cached sts =
     map2 (\<lambda>g st. st\<lparr> num_hit_chunks := cached div tokens_per_chunk g \<rparr>) (kv_group_configs cfg) sts"

definition calc_num_offloadable_tokens :: "sched_config \<Rightarrow> 'h request \<Rightarrow> nat option \<Rightarrow> nat \<Rightarrow> nat" where
  "calc_num_offloadable_tokens cfg req limit computed =
     (let n = min computed (num_tokens req);
          n1 = (case limit of None \<Rightarrow> n | Some l \<Rightarrow> min n l)
      in if offload_prompt_only cfg then min n1 (num_prompt_tokens req) else n1)"

section \<open>Lemmas\<close>

lemma from_spec_groups:
  assumes "from_spec spec v groups = Some cfg" "i < length (kv_group_configs cfg)"
  shows "group_idx (kv_group_configs cfg ! i) = i"
    and "skip_external_reuse (kv_group_configs cfg ! i) = eagle_group_is_veto_exempt (kv_group_configs cfg ! i)"
    and "skip_external_reuse (kv_group_configs cfg ! i) \<Longrightarrow> is_eagle_group (kv_group_configs cfg ! i)"
  using assms by (auto simp: from_spec_def make_group_def Let_def split: if_splits option.splits)

lemma from_spec_alignment:
  assumes "from_spec spec v groups = Some cfg" "i < length (kv_group_configs cfg)"
    and "alignment_chunk_count (kv_group_configs cfg ! i) = Some a"
  shows "\<exists>w. sliding_window_size_in_chunks (kv_group_configs cfg ! i) = Some w \<and> w < a"
  using assms
  by (auto simp: from_spec_def make_group_def Let_def alignment_count_def split: if_splits option.splits)

text \<open>An islice is an indexed comprehension.\<close>

lemma islice_from_conv:
  "0 < d \<Longrightarrow> islice_from s d xs = map (\<lambda>i. xs ! (s + i * d)) [0..<cdiv (length xs - s) d]"
proof (induction s d xs rule: islice_from.induct)
  case (1 s d)
  then show ?case by (simp add: cdiv_def)
next
  case (2 d x xs)
  have "cdiv (length (x # xs) - 0) d = Suc (cdiv (length xs - (d - 1)) d)"
  proof -
    have "length xs + d = d + length xs" by simp
    then have "cdiv (length (x # xs) - 0) d = Suc (length xs div d)"
      using \<open>0 < d\<close> by (simp add: cdiv_def)
    moreover have "cdiv (length xs - (d - 1)) d = length xs div d"
    proof (cases "d - 1 \<le> length xs")
      case True
      with \<open>0 < d\<close> show ?thesis by (simp add: cdiv_def)
    next
      case False
      with \<open>0 < d\<close> show ?thesis by (simp add: cdiv_def)
    qed
    ultimately show ?thesis by simp
  qed
  with 2 show ?case
    by (simp add: upt_conv_Cons map_Suc_upt [symmetric] del: upt_Suc)
next
  case (3 n d x xs)
  then show ?case by simp
qed

text \<open>All keys of a group, computed at once.\<close>

definition all_keys :: "('h \<Rightarrow> nat \<Rightarrow> 'k) \<Rightarrow> group_config \<Rightarrow> 'h list \<Rightarrow> 'k list" where
  "all_keys mk g hashes =
     map (\<lambda>i. mk (hashes ! (i * hashes_per_chunk g + (hashes_per_chunk g - 1))) (group_idx g))
       [0..<length hashes div hashes_per_chunk g]"

lemma length_all_keys [simp]: "length (all_keys mk g hs) = length hs div hashes_per_chunk g"
  by (simp add: all_keys_def)

lemma cdiv_tail:
  assumes "0 < d" "n \<le> l div d"
  shows "cdiv (l - (d * n + d - 1)) d = l div d - n"
proof (cases "d * n + d - 1 \<le> l")
  case True
  then have "l - (d * n + d - 1) + d - 1 = l - d * n" using assms(1) by simp
  moreover have "l div d = n + (l - d * n) div d"
    using assms(1) True div_mult_self2 [of d "l - d * n" n] by simp
  ultimately show ?thesis by (simp add: cdiv_def)
next
  case False
  then have "l < d * Suc n" using assms(1) by simp
  then have "l div d < Suc n" by (simp add: less_mult_imp_div_less mult.commute)
  with assms False show ?thesis by (simp add: cdiv_def)
qed

lemma update_group_keys_all:
  assumes d: "0 < hashes_per_chunk g"
    and old: "offload_keys st = all_keys mk g old_hashes" and pre: "prefix old_hashes hashes"
  shows "offload_keys (update_group_keys mk hashes g st) = all_keys mk g hashes"
proof -
  let ?d = "hashes_per_chunk g" and ?n = "length (offload_keys st)"
  have n: "?n = length old_hashes div ?d" using old by simp
  have le: "?n \<le> length hashes div ?d"
    unfolding n by (rule div_le_mono) (use pre in \<open>auto simp: prefix_def\<close>)
  have "offload_keys st = map (\<lambda>i. mk (hashes ! (i * ?d + (?d - 1))) (group_idx g)) [0..<?n]"
  proof (rule nth_equalityI)
    fix i assume "i < length (offload_keys st)"
    then have i: "i < length old_hashes div ?d" using n by simp
    then have "i * ?d + (?d - 1) < length old_hashes"
      using d by (metis Suc_diff_1 add_Suc_right less_eq_div_iff_mult_less_eq mult_Suc not_less_eq_eq
          add.commute mult.commute less_eq_Suc_le)
    with pre i old show "offload_keys st ! i = map (\<lambda>i. mk (hashes ! (i * ?d + (?d - 1))) (group_idx g)) [0..<?n] ! i"
      by (auto simp: all_keys_def prefix_def nth_append)
  qed simp
  moreover have "map (\<lambda>h. mk h (group_idx g)) (islice_from (?d * ?n + ?d - 1) ?d hashes)
      = map (\<lambda>i. mk (hashes ! (i * ?d + (?d - 1))) (group_idx g)) [?n..<length hashes div ?d]"
    unfolding islice_from_conv [OF d] cdiv_tail [OF d le]
    using d by (intro nth_equalityI) (simp_all add: algebra_simps)
  ultimately have "offload_keys (update_group_keys mk hashes g st)
      = map (\<lambda>i. mk (hashes ! (i * ?d + (?d - 1))) (group_idx g)) ([0..<?n] @ [?n..<length hashes div ?d])"
    by (simp add: update_group_keys_def)
  also have "[0..<?n] @ [?n..<length hashes div ?d] = [0..<length hashes div ?d]"
    using le by (metis le0 le_Suc_ex upt_add_eq_append)
  finally show ?thesis by (simp add: all_keys_def)
qed

text \<open>The last chunks before a segment boundary, or before the end, are reachable.\<close>

lemma reachable_tail:
  assumes a: "0 < a" and b: "b \<le> n" "a dvd b \<or> b = n" and i: "i < b" "b \<le> i + w + (if eagle then 1 else 0)"
  shows "is_store_reachable_swa_chunk i n (Some a) (Some w) eagle = Some True"
proof -
  let ?start = "i - i mod a"
  have start: "?start = i div a * a" by (simp add: minus_mod_eq_div_mult)
  have "int (min a (n - ?start)) \<le> int b - int ?start"
  proof (cases "b = n")
    case False
    with b obtain k where k: "b = a * k" by (auto elim: dvdE)
    with i(1) have "i div a < k" using a by (simp add: less_mult_imp_div_less mult.commute)
    then have "i div a * a + a \<le> b" unfolding k by (metis Suc_leI add.commute mult.commute mult_Suc_right mult_le_mono2)
    then have "int (i div a * a) + int a \<le> int b" by (metis of_nat_add of_nat_le_iff)
    then show ?thesis unfolding start by linarith
  qed (use i in simp)
  with i show ?thesis
    by (simp add: is_store_reachable_swa_chunk_def Let_def split: if_splits)
qed

end
