(* ===== verification/OffloadLookup.thy ===== *)
theory OffloadLookup
  imports OffloadConfig
begin

text \<open>
  The external cache lookup of the offloading scheduler: the scan of a prefix, the scan for a
  sliding window, and the loop of \<open>_lookup\<close> that repeats both until all groups agree on one
  hit boundary.  The offloading manager is the argument \<open>look\<close>: one lookup, on the state
  of the manager.  What the events tracker is told is collected in a list.
\<close>

datatype lookup_result = HIT | HIT_PENDING | RETRY | MISS

type_synonym ('k, 'm) look = "'k \<Rightarrow> 'm \<Rightarrow> lookup_result \<times> 'm"

section \<open>One group\<close>

text \<open>
  \<open>_maximal_prefix_lookup\<close>: the number of hits before the first miss, whether a lookup was
  deferred, the indices reported to the events tracker, and the manager.
\<close>

fun prefix_scan :: "('k, 'm) look \<Rightarrow> nat \<Rightarrow> 'k list \<Rightarrow> 'm \<Rightarrow> nat \<times> bool \<times> (nat \<times> 'k) list \<times> 'm" where
  "prefix_scan look i [] m = (0, False, [], m)"
| "prefix_scan look i (k # ks) m =
     (let (r, m1) = look k m
      in case r of
           HIT \<Rightarrow> (let (n, d, recs, m2) = prefix_scan look (i + 1) ks m1 in (n + 1, d, (i, k) # recs, m2))
         | HIT_PENDING \<Rightarrow> (let (n, d, recs, m2) = prefix_scan look (i + 1) ks m1 in (n + 1, True, recs, m2))
         | RETRY \<Rightarrow> (let (n, d, recs, m2) = prefix_scan look (i + 1) ks m1 in (n, True, recs, m2))
         | MISS \<Rightarrow> (0, False, [], m1))"

definition maximal_prefix_lookup ::
  "('k, 'm) look \<Rightarrow> nat \<Rightarrow> 'k list \<Rightarrow> 'm \<Rightarrow> nat option \<times> (nat \<times> 'k) list \<times> 'm" where
  "maximal_prefix_lookup look start_chunk_idx keys m =
     (let (n, d, recs, m') = prefix_scan look start_chunk_idx keys m
      in (if d then None else Some n, recs, m'))"

text \<open>
  \<open>_sliding_window_lookup\<close> scans from the end.  The first argument of the loop is the number
  of keys still to scan, so the index of the next key is one less.
\<close>

fun window_scan :: "('k, 'm) look \<Rightarrow> nat \<Rightarrow> 'k list \<Rightarrow> nat \<Rightarrow> bool \<Rightarrow> nat \<Rightarrow> 'm \<Rightarrow> nat option \<times> 'm" where
  "window_scan look w keys 0 d streak m = (if d then None else Some streak, m)"
| "window_scan look w keys (Suc idx) d streak m =
     (let (r, m1) = look (keys ! idx) m;
          d' = (d \<or> r = HIT_PENDING \<or> r = RETRY);
          streak' = (if r = HIT \<or> r = HIT_PENDING then streak + 1 else 0)
      in if streak' = w then (if d' then None else Some (idx + w), m1)
         else window_scan look w keys idx d' streak' m1)"

definition sliding_window_lookup :: "('k, 'm) look \<Rightarrow> 'k list \<Rightarrow> nat \<Rightarrow> 'm \<Rightarrow> nat option \<times> 'm" where
  "sliding_window_lookup look keys w m = window_scan look w keys (length keys) False 0 m"

section \<open>The loop over the groups\<close>

text \<open>What \<open>__init__\<close> prepares: full-attention groups first, then windows from the largest.\<close>

definition sliding_groups :: "sched_config \<Rightarrow> nat list" where
  "sliding_groups cfg =
     (let gs = filter (\<lambda>g. sliding_window_size_in_chunks g \<noteq> None) (kv_group_configs cfg)
      in map group_idx (rev (sort_key (\<lambda>g. the (sliding_window_size_in_chunks g)) (rev gs))))"

definition lookup_groups_of :: "sched_config \<Rightarrow> nat list" where
  "lookup_groups_of cfg =
     map group_idx (filter (\<lambda>g. sliding_window_size_in_chunks g = None) (kv_group_configs cfg))
     @ sliding_groups cfg"

text \<open>The variables of the loop.\<close>

record ('k, 'm) lookup_state =
  max_hit_tokens :: int
  hit_tokens :: int
  deferred_flag :: bool
  excluded :: "nat set"
  eagle_verified :: "nat set"
  window_seen :: bool
  next_groups :: "nat list"
  records :: "(nat \<times> nat \<times> 'k) list"
  manager :: 'm

text \<open>A pass over the groups goes on, returns early with 0, or fails an assertion.\<close>

datatype 'a outcome = Go 'a | Return_zero 'a | Assertion

text \<open>The query of one group, at the boundary the earlier groups left.\<close>

definition group_query ::
  "('k, 'm) look \<Rightarrow> nat \<Rightarrow> group_config \<Rightarrow> 'k list \<Rightarrow> bool \<Rightarrow> nat \<Rightarrow> 'm \<Rightarrow> nat option \<times> (nat \<times> 'k) list \<times> 'm" where
  "group_query look computed g keys unverified max_hit m =
     (let tpc = tokens_per_chunk g;
          query_max = (if unverified \<and> sliding_window_size_in_chunks g \<noteq> None
                       then min (max_hit + tpc) (length keys * tpc) else max_hit);
          num_chunks = min (cdiv query_max tpc) (length keys);
          start = computed div tpc;
          ks = drop start (take num_chunks keys)
      in case sliding_window_size_in_chunks g of
           None \<Rightarrow> maximal_prefix_lookup look start ks m
         | Some w \<Rightarrow>
             (let (n, m') = sliding_window_lookup look ks (if unverified then w + 1 else w) m
              in (n, [], m')))"

text \<open>What the answer of one group does to the boundary.\<close>

definition confirm_hits ::
  "nat \<Rightarrow> group_config \<Rightarrow> nat \<Rightarrow> bool \<Rightarrow> nat option \<Rightarrow> ('k, 'm) lookup_state \<Rightarrow> ('k, 'm) lookup_state" where
  "confirm_hits computed g i unverified n s =
     (case n of
        None \<Rightarrow> s\<lparr> deferred_flag := True \<rparr>
      | Some h \<Rightarrow>
          (let h' = (if unverified then h - 1 else h)
           in s\<lparr> eagle_verified := (if unverified then insert i (eagle_verified s) else eagle_verified s),
                 max_hit_tokens := min (max_hit_tokens s)
                   (int (tokens_per_chunk g * (computed div tokens_per_chunk g + h'))) \<rparr>))"

text \<open>When the boundary moved, groups that were looked up before may have to be asked again.\<close>

definition schedule_pass :: "sched_config \<Rightarrow> group_config \<Rightarrow> ('k, 'm) lookup_state \<Rightarrow> ('k, 'm) lookup_state" where
  "schedule_pass cfg g s0 =
     (let s = (if is_eagle_group g then s0 else s0\<lparr> eagle_verified := {} \<rparr>)
      in if deferred_flag s then
           s\<lparr> deferred_flag := False, next_groups := filter (\<lambda>j. j \<notin> excluded s) (lookup_groups_of cfg) \<rparr>
         else if window_seen s \<and> next_groups s = [] then
           s\<lparr> next_groups := filter (\<lambda>j. j \<notin> excluded s) (sliding_groups cfg) \<rparr>
         else s)"

definition settle :: "sched_config \<Rightarrow> nat \<Rightarrow> group_config \<Rightarrow> ('k, 'm) lookup_state \<Rightarrow> ('k, 'm) lookup_state outcome" where
  "settle cfg computed g s =
     (let new_hit = max_hit_tokens s - int computed
      in if new_hit < int (tokens_per_chunk g) then Return_zero s
         else
           (let s' = (if new_hit < hit_tokens s then schedule_pass cfg g s else s)
            in Go (s'\<lparr> window_seen := (window_seen s' \<or> sliding_window_size_in_chunks g \<noteq> None),
                      hit_tokens := new_hit \<rparr>)))"

text \<open>The lookup of one group, with the records of the events tracker.\<close>

definition ask_group ::
  "('k, 'm) look \<Rightarrow> nat \<Rightarrow> group_config \<Rightarrow> nat \<Rightarrow> 'k list \<Rightarrow> bool \<Rightarrow> ('k, 'm) lookup_state
     \<Rightarrow> nat option \<times> ('k, 'm) lookup_state" where
  "ask_group look computed g i keys unverified s =
     (let (n, recs, m) = group_query look computed g keys unverified (nat (max_hit_tokens s)) (manager s)
      in (n, s\<lparr> manager := m, records := records s @ map (\<lambda>(j, k). (i, j, k)) recs \<rparr>))"

text \<open>One turn of the inner loop.\<close>

definition group_turn ::
  "('k, 'm) look \<Rightarrow> sched_config \<Rightarrow> nat \<Rightarrow> nat \<Rightarrow> 'k group_state list \<Rightarrow> nat
     \<Rightarrow> ('k, 'm) lookup_state \<Rightarrow> ('k, 'm) lookup_state outcome" where
  "group_turn look cfg ntok computed sts i s =
     (let g = kv_group_configs cfg ! i; keys = offload_keys (sts ! i); tpc = tokens_per_chunk g;
          unverified = (is_eagle_group g \<and> i \<notin> eagle_verified s);
          s0 = s\<lparr> max_hit_tokens := min (max_hit_tokens s) (int (length keys * tpc)) \<rparr>
      in if length keys < ntok div tpc then Assertion
         else if max_hit_tokens s0 - int computed < int tpc then Return_zero s0
         else
           (let (n, s1) = ask_group look computed g i keys unverified s0
            in if n = Some 0 then
                 (if eagle_group_is_veto_exempt g then Go (s1\<lparr> excluded := insert i (excluded s1) \<rparr>)
                  else Return_zero s1)
               else settle cfg computed g (confirm_hits computed g i unverified n s1)))"

fun group_pass ::
  "('k, 'm) look \<Rightarrow> sched_config \<Rightarrow> nat \<Rightarrow> nat \<Rightarrow> 'k group_state list \<Rightarrow> nat list
     \<Rightarrow> ('k, 'm) lookup_state \<Rightarrow> ('k, 'm) lookup_state outcome" where
  "group_pass look cfg ntok computed sts [] s = Go s"
| "group_pass look cfg ntok computed sts (i # is) s =
     (case group_turn look cfg ntok computed sts i s of
        Go s' \<Rightarrow> group_pass look cfg ntok computed sts is s'
      | Return_zero s' \<Rightarrow> Return_zero s'
      | Assertion \<Rightarrow> Assertion)"

section \<open>Repeating the passes\<close>

text \<open>
  What a turn that goes on does to the boundary.  A veto-exempt group is excluded; any other
  group fixes the number of hit tokens, and it schedules another pass only when that number
  went down.
\<close>

lemma ask_group_keeps [simp]:
  "max_hit_tokens (snd (ask_group look computed g i keys u s)) = max_hit_tokens s"
  "hit_tokens (snd (ask_group look computed g i keys u s)) = hit_tokens s"
  "next_groups (snd (ask_group look computed g i keys u s)) = next_groups s"
  "deferred_flag (snd (ask_group look computed g i keys u s)) = deferred_flag s"
  "excluded (snd (ask_group look computed g i keys u s)) = excluded s"
  "window_seen (snd (ask_group look computed g i keys u s)) = window_seen s"
  "eagle_verified (snd (ask_group look computed g i keys u s)) = eagle_verified s"
  by (simp_all add: ask_group_def split_beta)

lemma confirm_hits_keeps [simp]:
  "hit_tokens (confirm_hits computed g i u n s) = hit_tokens s"
  "next_groups (confirm_hits computed g i u n s) = next_groups s"
  "excluded (confirm_hits computed g i u n s) = excluded s"
  "window_seen (confirm_hits computed g i u n s) = window_seen s"
  "max_hit_tokens (confirm_hits computed g i u n s) \<le> max_hit_tokens s"
  by (auto simp: confirm_hits_def Let_def split: option.split)

lemma schedule_pass_keeps [simp]:
  "max_hit_tokens (schedule_pass cfg g s) = max_hit_tokens s"
  "hit_tokens (schedule_pass cfg g s) = hit_tokens s"
  "excluded (schedule_pass cfg g s) = excluded s"
  "window_seen (schedule_pass cfg g s) = window_seen s"
  by (auto simp: schedule_pass_def Let_def)

lemma settle_Go:
  assumes "settle cfg computed g s = Go s'"
  shows "max_hit_tokens s' = max_hit_tokens s" "hit_tokens s' = max_hit_tokens s - int computed"
    "0 \<le> hit_tokens s'" "next_groups s' = next_groups s \<or> hit_tokens s' < hit_tokens s"
    "excluded s' = excluded s"
  using assms by (auto simp: settle_def Let_def split: if_splits)

text \<open>How a turn that goes on came about.\<close>

lemma group_turn_GoE:
  assumes "group_turn look cfg ntok computed sts i s = Go s'"
  obtains u s0 n s1 where
    "u = (is_eagle_group (kv_group_configs cfg ! i) \<and> i \<notin> eagle_verified s)"
    "s0 = s\<lparr> max_hit_tokens := min (max_hit_tokens s)
        (int (length (offload_keys (sts ! i)) * tokens_per_chunk (kv_group_configs cfg ! i))) \<rparr>"
    "int (tokens_per_chunk (kv_group_configs cfg ! i)) \<le> max_hit_tokens s0 - int computed"
    "ask_group look computed (kv_group_configs cfg ! i) i (offload_keys (sts ! i)) u s0 = (n, s1)"
    "n = Some 0 \<and> eagle_group_is_veto_exempt (kv_group_configs cfg ! i)
        \<and> s' = s1\<lparr> excluded := insert i (excluded s1) \<rparr>
     \<or> n \<noteq> Some 0 \<and> settle cfg computed (kv_group_configs cfg ! i)
        (confirm_hits computed (kv_group_configs cfg ! i) i u n s1) = Go s'"
proof -
  define g where "g = kv_group_configs cfg ! i"
  define keys where "keys = offload_keys (sts ! i)"
  define u where "u = (is_eagle_group g \<and> i \<notin> eagle_verified s)"
  define s0 where "s0 = s\<lparr> max_hit_tokens := min (max_hit_tokens s) (int (length keys * tokens_per_chunk g)) \<rparr>"
  obtain n s1 where r: "ask_group look computed g i keys u s0 = (n, s1)" by fastforce
  have turn: "group_turn look cfg ntok computed sts i s =
     (if length keys < ntok div tokens_per_chunk g then Assertion
      else if max_hit_tokens s0 - int computed < int (tokens_per_chunk g) then Return_zero s0
      else if n = Some 0 then
        (if eagle_group_is_veto_exempt g then Go (s1\<lparr> excluded := insert i (excluded s1) \<rparr>) else Return_zero s1)
      else settle cfg computed g (confirm_hits computed g i u n s1))"
    unfolding group_turn_def Let_def g_def [symmetric] keys_def [symmetric] u_def [symmetric]
      s0_def [symmetric] r prod.case ..
  have "int (tokens_per_chunk g) \<le> max_hit_tokens s0 - int computed"
    and "n = Some 0 \<and> eagle_group_is_veto_exempt g \<and> s' = s1\<lparr> excluded := insert i (excluded s1) \<rparr>
     \<or> n \<noteq> Some 0 \<and> settle cfg computed g (confirm_hits computed g i u n s1) = Go s'"
    using assms unfolding turn by (simp_all split: if_split_asm)
  with r show thesis
    by (intro that [of u s0 n s1]) (simp_all only: u_def s0_def g_def keys_def)
qed

lemma group_turn_Go:
  assumes "group_turn look cfg ntok computed sts i s = Go s'"
  shows "max_hit_tokens s' \<le> max_hit_tokens s"
    and "hit_tokens s' = hit_tokens s \<and> next_groups s' = next_groups s
       \<or> hit_tokens s' = max_hit_tokens s' - int computed \<and> 0 \<le> hit_tokens s'
         \<and> (next_groups s' = next_groups s \<or> hit_tokens s' < hit_tokens s)"
proof -
  from assms obtain u s0 n s1 where t:
    "s0 = s\<lparr> max_hit_tokens := min (max_hit_tokens s)
        (int (length (offload_keys (sts ! i)) * tokens_per_chunk (kv_group_configs cfg ! i))) \<rparr>"
    "ask_group look computed (kv_group_configs cfg ! i) i (offload_keys (sts ! i)) u s0 = (n, s1)"
    "n = Some 0 \<and> eagle_group_is_veto_exempt (kv_group_configs cfg ! i)
        \<and> s' = s1\<lparr> excluded := insert i (excluded s1) \<rparr>
     \<or> n \<noteq> Some 0 \<and> settle cfg computed (kv_group_configs cfg ! i)
        (confirm_hits computed (kv_group_configs cfg ! i) i u n s1) = Go s'"
    by (rule group_turn_GoE)
  have s1: "max_hit_tokens s1 \<le> max_hit_tokens s" "hit_tokens s1 = hit_tokens s" "next_groups s1 = next_groups s"
    using ask_group_keeps(1-3) [of look computed "kv_group_configs cfg ! i" i "offload_keys (sts ! i)" u s0,
        unfolded t(2) snd_conv] by (simp_all add: t(1))
  from t(3) consider (exempt) "s' = s1\<lparr> excluded := insert i (excluded s1) \<rparr>"
    | (settled) "settle cfg computed (kv_group_configs cfg ! i)
        (confirm_hits computed (kv_group_configs cfg ! i) i u n s1) = Go s'"
    by blast
  then have "max_hit_tokens s' \<le> max_hit_tokens s \<and> (hit_tokens s' = hit_tokens s \<and> next_groups s' = next_groups s
       \<or> hit_tokens s' = max_hit_tokens s' - int computed \<and> 0 \<le> hit_tokens s'
         \<and> (next_groups s' = next_groups s \<or> hit_tokens s' < hit_tokens s))"
  proof cases
    case exempt
    with s1 show ?thesis by simp
  next
    case settled
    note order_trans [OF confirm_hits_keeps(5) s1(1), of computed "kv_group_configs cfg ! i" i u n]
    with settle_Go [OF settled] s1 show ?thesis by simp
  qed
  then show "max_hit_tokens s' \<le> max_hit_tokens s"
    and "hit_tokens s' = hit_tokens s \<and> next_groups s' = next_groups s
       \<or> hit_tokens s' = max_hit_tokens s' - int computed \<and> 0 \<le> hit_tokens s'
         \<and> (next_groups s' = next_groups s \<or> hit_tokens s' < hit_tokens s)" by blast+
qed

text \<open>The quantity that every repeated pass decreases.\<close>

definition pass_bound :: "nat \<Rightarrow> ('k, 'm) lookup_state \<Rightarrow> nat" where
  "pass_bound computed s = nat (max (hit_tokens s) (max_hit_tokens s - int computed))"

lemma group_turn_bound:
  assumes "group_turn look cfg ntok computed sts i s = Go s'"
  shows "pass_bound computed s' \<le> pass_bound computed s"
    and "next_groups s' \<noteq> next_groups s \<Longrightarrow> pass_bound computed s' < pass_bound computed s"
  using group_turn_Go [OF assms] by (auto simp: pass_bound_def)

lemma group_pass_bound:
  assumes "group_pass look cfg ntok computed sts is s = Go s'"
  shows "pass_bound computed s' \<le> pass_bound computed s
    \<and> (next_groups s' \<noteq> next_groups s \<longrightarrow> pass_bound computed s' < pass_bound computed s)"
  using assms
proof (induction "is" arbitrary: s)
  case (Cons i "is")
  then obtain s1 where s1: "group_turn look cfg ntok computed sts i s = Go s1"
    "group_pass look cfg ntok computed sts is s1 = Go s'"
    by (auto split: outcome.splits)
  note t = group_turn_bound [OF s1(1)]
  from Cons.IH [OF s1(2)] t show ?case
    by (metis dual_order.strict_trans1 dual_order.strict_trans2 order_trans)
qed simp

text \<open>The outer loop: \<open>while lookup_groups\<close>.\<close>

function lookup_loop ::
  "('k, 'm) look \<Rightarrow> sched_config \<Rightarrow> nat \<Rightarrow> nat \<Rightarrow> 'k group_state list \<Rightarrow> nat list
     \<Rightarrow> ('k, 'm) lookup_state \<Rightarrow> ('k, 'm) lookup_state outcome" where
  "lookup_loop look cfg ntok computed sts groups s =
     (if groups = [] then Go s
      else case group_pass look cfg ntok computed sts groups (s\<lparr> window_seen := False, next_groups := [] \<rparr>) of
        Go s' \<Rightarrow> lookup_loop look cfg ntok computed sts (next_groups s') s'
      | Return_zero s' \<Rightarrow> Return_zero s'
      | Assertion \<Rightarrow> Assertion)"
  by pat_completeness auto
termination
proof (relation "measure (\<lambda>(look, cfg, ntok, computed, sts, groups, s).
    if groups = [] then 0 else Suc (pass_bound computed s))", goal_cases)
  case (2 look cfg ntok computed sts groups s s')
  have "pass_bound computed (s\<lparr> window_seen := False, next_groups := [] \<rparr>) = pass_bound computed s"
    by (simp add: pass_bound_def)
  with group_pass_bound [OF 2(2)] 2(1) show ?case by auto
qed simp

declare lookup_loop.simps [simp del]

text \<open>The state at the start of \<open>_lookup\<close>.\<close>

definition start_lookup :: "sched_config \<Rightarrow> nat option \<Rightarrow> nat \<Rightarrow> 'm \<Rightarrow> ('k, 'm) lookup_state" where
  "start_lookup cfg mamba ntok m =
     (let cap = (if sliding_groups cfg = [] then int ntok
                 else (case mamba of None \<Rightarrow> int ntok - 1 | Some a \<Rightarrow> round_down (int ntok - 1) a))
      in \<lparr> max_hit_tokens = cap, hit_tokens = 0, deferred_flag = False,
           excluded = group_idx ` set (filter skip_external_reuse (kv_group_configs cfg)),
           eagle_verified = {}, window_seen = False, next_groups = [], records = [], manager = m \<rparr>)"

text \<open>The keys a hit of \<open>n\<close> tokens would load from one group.\<close>

definition hit_keys :: "nat \<Rightarrow> int \<Rightarrow> group_config \<Rightarrow> 'k list \<Rightarrow> 'k list" where
  "hit_keys computed n g keys =
     (let ks = drop (computed div tokens_per_chunk g) (take (cdiv (computed + nat n) (tokens_per_chunk g)) keys)
      in case sliding_window_size_in_chunks g of None \<Rightarrow> ks | Some w \<Rightarrow> drop (if w = 0 then 0 else length ks - w) ks)"

definition being_loaded ::
  "'k set \<Rightarrow> sched_config \<Rightarrow> nat \<Rightarrow> int \<Rightarrow> nat set \<Rightarrow> 'k group_state list \<Rightarrow> bool" where
  "being_loaded loading cfg computed n ex sts \<longleftrightarrow>
     list_ex (\<lambda>(g, st). group_idx g \<notin> ex \<and> list_ex (\<lambda>k. k \<in> loading) (hit_keys computed n g (offload_keys st)))
       (zip (kv_group_configs cfg) sts)"

text \<open>
  \<open>_lookup\<close>.  The answer is the number of hit tokens, or \<^term>\<open>None\<close> when the request has to
  wait; the failed assertion is the outer \<^term>\<open>None\<close>.  With it come the groups excluded
  from the load and the final state of the loop.
\<close>

definition lookup_request ::
  "('k, 'm) look \<Rightarrow> sched_config \<Rightarrow> nat option \<Rightarrow> 'k set option \<Rightarrow> nat \<Rightarrow> nat \<Rightarrow> 'k group_state list \<Rightarrow> 'm
     \<Rightarrow> (int option \<times> nat set \<times> ('k, 'm) lookup_state) option" where
  "lookup_request look cfg mamba loading ntok computed sts m =
     (let s0 = start_lookup cfg mamba ntok m
      in case lookup_loop look cfg ntok computed sts (filter (\<lambda>i. i \<notin> excluded s0) (lookup_groups_of cfg)) s0 of
           Assertion \<Rightarrow> None
         | Return_zero s \<Rightarrow> Some (Some 0, excluded s0, s)
         | Go s \<Rightarrow>
             if deferred_flag s then Some (None, excluded s, s)
             else if (case loading of None \<Rightarrow> False | Some l \<Rightarrow> being_loaded l cfg computed (hit_tokens s) (excluded s) sts)
                  then Some (None, excluded s, s)
             else Some (Some (hit_tokens s), excluded s, s))"

end
