(* ===== verification/OffloadSched.thy ===== *)
theory OffloadSched
  imports FailOpen OffloadLookup "HOL-Library.Monad_Syntax"
begin

text \<open>
  The state of the offloading scheduler and what it does for a waiting request: the request is
  registered, its external hit is looked up, and a load job is issued once the engine has
  allocated blocks.  An exception (a failed assertion or a missing dictionary key) is
  \<^term>\<open>None\<close>.  The offloading manager is outside the repository: its calls are a record of
  functions on an abstract state.
\<close>

section \<open>Request contexts\<close>

text \<open>A matcher names a medium and a locality, or leaves them open.\<close>

datatype tier_filter = FilterAll | Matchers "(string option \<times> string option) list"

record req_context =
  ctx_req_id :: req_id
  load_tier_filter :: tier_filter

text \<open>\<open>str.upper\<close> on ASCII text.\<close>

definition str_upper :: "string \<Rightarrow> string" where
  "str_upper s = map (\<lambda>c. let n = of_char c :: nat in if 97 \<le> n \<and> n \<le> 122 then char_of (n - 32) else c) s"

text \<open>
  \<open>Medium(raw.upper())\<close>, and the same for the locality; \<open>known\<close> are the values of the
  enumeration.  The outer option is the skipped entry.
\<close>

definition parse_name :: "(string \<Rightarrow> bool) \<Rightarrow> raw_name option \<Rightarrow> string option option" where
  "parse_name known raw =
     (case raw of
        None \<Rightarrow> Some None
      | Some (RawStr s) \<Rightarrow> if known (str_upper s) then Some (Some (str_upper s)) else None
      | Some RawNoStr \<Rightarrow> None)"

fun parse_entries ::
  "(string \<Rightarrow> bool) \<Rightarrow> (string \<Rightarrow> bool) \<Rightarrow> raw_entry list \<Rightarrow> (string option \<times> string option) list" where
  "parse_entries media localities [] = []"
| "parse_entries media localities (RawNoDict # es) = parse_entries media localities es"
| "parse_entries media localities (RawDict m l # es) =
     (case (parse_name media m, parse_name localities l) of
        (Some m', Some l') \<Rightarrow> (m', l') # parse_entries media localities es
      | _ \<Rightarrow> parse_entries media localities es)"

fun parse_tier_filter :: "(string \<Rightarrow> bool) \<Rightarrow> (string \<Rightarrow> bool) \<Rightarrow> raw_tiers \<Rightarrow> tier_filter" where
  "parse_tier_filter media localities RawNoList = FilterAll"
| "parse_tier_filter media localities (RawList es) =
     (let ms = parse_entries media localities es
      in if ms = [] then (if es = [] then Matchers [] else FilterAll) else Matchers ms)"

definition create_req_context :: "(string \<Rightarrow> bool) \<Rightarrow> (string \<Rightarrow> bool) \<Rightarrow> 'h request \<Rightarrow> req_context" where
  "create_req_context media localities req =
     \<lparr> ctx_req_id = request_id req,
       load_tier_filter = (case raw_load_tiers req of None \<Rightarrow> FilterAll
                           | Some raw \<Rightarrow> parse_tier_filter media localities raw) \<rparr>"

section \<open>State\<close>

text \<open>
  The offloading manager and the other code the scheduler calls: \<open>on_new_request\<close> tells
  whether the offload policy is block-level, \<open>prepare_store\<close> selects the keys to store or
  fails.
\<close>

record ('h, 'k, 's, 'm) externals =
  make_key :: "'h \<Rightarrow> nat \<Rightarrow> 'k"
  known_medium :: "string \<Rightarrow> bool"
  known_locality :: "string \<Rightarrow> bool"
  mgr_on_new_request :: "req_context \<Rightarrow> 'm \<Rightarrow> bool \<times> 'm"
  mgr_lookup :: "req_context \<Rightarrow> ('k, 'm) look"
  mgr_touch :: "'k list \<Rightarrow> req_context \<Rightarrow> 'm \<Rightarrow> 'm"
  mgr_cancel :: "req_context \<Rightarrow> bool \<Rightarrow> 'm \<Rightarrow> 'm"
  mgr_prepare_load :: "'k list \<Rightarrow> req_context \<Rightarrow> 'm \<Rightarrow> 's \<times> 'm"
  mgr_prepare_store :: "'k list \<Rightarrow> req_context \<Rightarrow> 'm \<Rightarrow> ('k list \<times> 's) option \<times> 'm"
  mgr_complete_load :: "'k set \<Rightarrow> req_context \<Rightarrow> 'm \<Rightarrow> 'm"
  mgr_complete_store :: "'k set \<Rightarrow> req_context \<Rightarrow> 'm \<Rightarrow> 'm"
  mgr_on_schedule_end :: "req_id list \<Rightarrow> req_id list \<Rightarrow> 'm \<Rightarrow> 'm"
  mgr_on_request_finished :: "req_context \<Rightarrow> 'm \<Rightarrow> 'm"
  mgr_reset_cache :: "'m \<Rightarrow> 'm"
  mgr_has_pending_work :: "'m \<Rightarrow> bool"

record ('h, 'k) req_state =
  req :: "'h request"
  rctx :: req_context
  block_level :: bool
  group_states :: "'k group_state list"
  max_offload_tokens :: "nat option"
  num_locally_computed_tokens :: nat
  transfer_jobs :: "nat set"
  deferred_start :: "seconds option"
  external_lookup_bypassed :: bool
  finished_signaled :: bool
  lookup_excluded_groups :: "nat set"

text \<open>\<open>TransferJobStatus\<close>; block lists that are \<open>None\<close> in the code are empty here.\<close>

record 'k job_status =
  job_req :: req_id
  pending_count :: int
  job_keys :: "'k set"
  is_store :: bool
  non_sliding_block_ids :: "nat list"
  sliding_block_ids :: "nat list"

record gpu_spec =
  gpu_block_ids :: "nat list"
  group_sizes :: "nat list"
  block_indices :: "nat list"

datatype 's spec = GpuSpec gpu_spec | ManagerSpec 's

record 's transfer_job =
  tr_req :: req_id
  src_spec :: "'s spec"
  dst_spec :: "'s spec"

record ('h, 'k, 's, 'm) sched =
  config :: sched_config
  mamba_align :: "nat option"
  stores_enabled :: bool
  lookup_policy :: policy
  req_status :: "(req_id, ('h, 'k) req_state) dict"
  batch_load_jobs :: "(nat, 's transfer_job) dict"
  jobs_to_flush :: "nat set"
  batch_allocated :: "nat set"
  chunks_being_loaded :: "'k set option"
  job_counter :: nat
  stale_job_threshold :: nat
  jobs :: "(nat, 'k job_status) dict"
  pending_jobs :: "(nat, nat set) dict"
  event_records :: "(req_id \<times> nat \<times> nat \<times> 'k) list"
  allocation_failures :: nat
  mgr :: 'm

definition is_finished :: "'h request \<Rightarrow> bool" where
  "is_finished r \<longleftrightarrow> status r \<noteq> UNFINISHED"

text \<open>The part of \<open>__init__\<close> that sets up the state.\<close>

definition new_sched ::
  "sched_config \<Rightarrow> nat option \<Rightarrow> bool \<Rightarrow> policy \<Rightarrow> bool \<Rightarrow> 'm \<Rightarrow> ('h, 'k, 's, 'm) sched" where
  "new_sched cfg mamba stores policy prefix_caching m =
     \<lparr> config = cfg, mamba_align = mamba, stores_enabled = stores, lookup_policy = policy,
       req_status = [], batch_load_jobs = [], jobs_to_flush = {}, batch_allocated = {},
       chunks_being_loaded = (if prefix_caching then Some {} else None),
       job_counter = 0, stale_job_threshold = 0, jobs = [], pending_jobs = [],
       event_records = [], allocation_failures = 0, mgr = m \<rparr>"

text \<open>An assertion, and an access by key that may raise.\<close>

definition require :: "bool \<Rightarrow> unit option" where
  "require b = (if b then Some () else None)"

lemma require_Some [simp]: "require b = Some u \<longleftrightarrow> b"
  by (simp add: require_def)

lemma require_True [simp]: "require True = Some ()"
  by (simp add: require_def)

lemma require_None [simp]: "require b = None \<longleftrightarrow> \<not> b"
  by (simp add: require_def)

definition put_req ::
  "req_id \<Rightarrow> ('h, 'k) req_state \<Rightarrow> ('h, 'k, 's, 'm) sched \<Rightarrow> ('h, 'k, 's, 'm) sched" where
  "put_req r rs s = s\<lparr> req_status := dput r rs (req_status s) \<rparr>"

section \<open>New requests\<close>

definition new_req_state ::
  "sched_config \<Rightarrow> 'h request \<Rightarrow> req_context \<Rightarrow> bool \<Rightarrow> ('h, 'k) req_state" where
  "new_req_state cfg r c blk =
     \<lparr> req = r, rctx = c, block_level = blk,
       group_states = map (\<lambda>g. new_group_state) (kv_group_configs cfg),
       max_offload_tokens = read_max_offload_tokens (raw_max_offload r),
       num_locally_computed_tokens = 0, transfer_jobs = {}, deferred_start = None,
       external_lookup_bypassed = False, finished_signaled = False, lookup_excluded_groups = {} \<rparr>"

definition sched_new_request ::
  "('h, 'k, 's, 'm) externals \<Rightarrow> 'h request \<Rightarrow> ('h, 'k, 's, 'm) sched \<Rightarrow> ('h, 'k, 's, 'm) sched" where
  "sched_new_request ext r s =
     (let c = create_req_context (known_medium ext) (known_locality ext) r;
          (blk, m) = mgr_on_new_request ext c (mgr s)
      in put_req (request_id r) (new_req_state (config s) r c blk) (s\<lparr> mgr := m \<rparr>))"

section \<open>Matching a waiting request\<close>

definition clear_block_ids :: "('h, 'k) req_state \<Rightarrow> ('h, 'k) req_state" where
  "clear_block_ids rs = rs\<lparr> group_states := map (\<lambda>st. st\<lparr> block_ids := [] \<rparr>) (group_states rs) \<rparr>"

definition refresh_keys ::
  "('h, 'k, 's, 'm) externals \<Rightarrow> sched_config \<Rightarrow> ('h, 'k) req_state \<Rightarrow> ('h, 'k) req_state" where
  "refresh_keys ext cfg rs =
     rs\<lparr> group_states := update_offload_keys (make_key ext) cfg (req rs) (group_states rs) \<rparr>"

text \<open>\<open>_touch\<close>: all chunks of a full-attention group, for a window what the hit needs and later chunks.\<close>

definition touched_keys :: "group_config \<Rightarrow> 'k group_state \<Rightarrow> 'k list" where
  "touched_keys g st =
     (case sliding_window_size_in_chunks g of
        None \<Rightarrow> offload_keys st
      | Some w \<Rightarrow> drop (num_hit_chunks st - w) (offload_keys st))"

definition sched_touch ::
  "('h, 'k, 's, 'm) externals \<Rightarrow> sched_config \<Rightarrow> ('h, 'k) req_state \<Rightarrow> 'm \<Rightarrow> 'm" where
  "sched_touch ext cfg rs m =
     fold (\<lambda>(g, st) m. if skip_external_reuse g then m else mgr_touch ext (touched_keys g st) (rctx rs) m)
       (zip (kv_group_configs cfg) (group_states rs)) m"

text \<open>
  The answer of the external cache for one request: the hit tokens, or \<^term>\<open>None\<close> to ask again
  later.  The clock is read before the circuit test (\<open>tc\<close>), when the lookup starts
  (\<open>ts\<close>) and after it (\<open>tb\<close>).
\<close>

definition bypass_lookup ::
  "('h, 'k, 's, 'm) externals \<Rightarrow> policy \<Rightarrow> ('h, 'k) req_state \<Rightarrow> ('h, 'k, 's, 'm) sched
     \<Rightarrow> int option \<times> ('h, 'k) req_state \<times> ('h, 'k, 's, 'm) sched" where
  "bypass_lookup ext p rs s =
     (Some 0, rs\<lparr> external_lookup_bypassed := True \<rparr>,
      s\<lparr> lookup_policy := p, mgr := mgr_cancel ext (rctx rs) True (mgr s) \<rparr>)"

definition lookup_answer ::
  "('h, 'k, 's, 'm) externals \<Rightarrow> req_id \<Rightarrow> seconds \<Rightarrow> seconds \<Rightarrow> int option
     \<Rightarrow> ('h, 'k) req_state \<Rightarrow> ('h, 'k, 's, 'm) sched
     \<Rightarrow> int option \<times> ('h, 'k) req_state \<times> ('h, 'k, 's, 'm) sched" where
  "lookup_answer ext r ts tb hits rs s =
     (case hits of
        None \<Rightarrow>
          (let start = (case deferred_start rs of None \<Rightarrow> ts | Some t \<Rightarrow> t);
               rs1 = rs\<lparr> deferred_start := Some start \<rparr>
           in case bypass_reason r tb (defer_lookup r start (lookup_policy s)) of
                (None, p) \<Rightarrow> (None, rs1, s\<lparr> lookup_policy := p \<rparr>)
              | (Some why, p) \<Rightarrow> bypass_lookup ext p (rs1\<lparr> deferred_start := None \<rparr>) s)
      | Some n \<Rightarrow>
          (Some n, rs\<lparr> deferred_start := None \<rparr>,
           s\<lparr> lookup_policy := resolve r (lookup_policy s), mgr := mgr_cancel ext (rctx rs) (n = 0) (mgr s) \<rparr>))"

definition external_lookup ::
  "('h, 'k, 's, 'm) externals \<Rightarrow> req_id \<Rightarrow> seconds \<Rightarrow> seconds \<Rightarrow> seconds
     \<Rightarrow> ('h, 'k) req_state \<Rightarrow> ('h, 'k, 's, 'm) sched
     \<Rightarrow> (int option \<times> ('h, 'k) req_state \<times> ('h, 'k, 's, 'm) sched) option" where
  "external_lookup ext r tc ts tb rs s =
     (if skip_reading_prefix_cache (req rs) \<or> external_lookup_bypassed rs then Some (Some 0, rs, s)
      else case circuit_bypass_reason r tc (lookup_policy s) of
        (Some why, p) \<Rightarrow> Some (bypass_lookup ext p rs s)
      | (None, p) \<Rightarrow>
          do {
            (hits, ex, ls) \<leftarrow> lookup_request (mgr_lookup ext (rctx rs)) (config s) (mamba_align s)
              (chunks_being_loaded s) (num_tokens (req rs)) (num_locally_computed_tokens rs)
              (group_states rs) (mgr s);
            Some (lookup_answer ext r ts tb hits (rs\<lparr> lookup_excluded_groups := ex \<rparr>)
              (s\<lparr> lookup_policy := p, mgr := manager ls,
                  event_records := event_records s @ map (\<lambda>(i, j, k). (r, i, j, k)) (records ls) \<rparr>))
          })"

text \<open>\<open>get_num_new_matched_tokens\<close>: the matched tokens and whether they load asynchronously.\<close>

definition get_num_new_matched_tokens ::
  "('h, 'k, 's, 'm) externals \<Rightarrow> req_id \<Rightarrow> nat \<Rightarrow> seconds \<Rightarrow> seconds \<Rightarrow> seconds
     \<Rightarrow> ('h, 'k, 's, 'm) sched \<Rightarrow> ((int option \<times> bool) \<times> ('h, 'k, 's, 'm) sched) option" where
  "get_num_new_matched_tokens ext r computed tc ts tb s =
     do {
       rs0 \<leftarrow> map_of (req_status s) r;
       let rs1 = clear_block_ids rs0;
       if transfer_jobs rs1 \<noteq> {} then Some ((None, False), put_req r rs1 s)
       else do {
         let rs2 = (refresh_keys ext (config s) rs1)\<lparr> num_locally_computed_tokens := computed \<rparr>;
         (hits, rs3, s1) \<leftarrow> external_lookup ext r tc ts tb rs2 s;
         let n = (case hits of None \<Rightarrow> 0 | Some h \<Rightarrow> nat h);
         let rs4 = rs3\<lparr> group_states := update_num_hit_chunks (config s) (computed + n) (group_states rs3) \<rparr>;
         Some ((hits, hits \<noteq> None \<and> hits \<noteq> Some 0),
           put_req r rs4 (s1\<lparr> mgr := sched_touch ext (config s) rs4 (mgr s1) \<rparr>))
       }
     }"

section \<open>Loads\<close>

text \<open>A GPU block as the engine hands it over.\<close>

record gpu_block =
  block_id :: nat
  is_null :: bool
  has_hash :: bool

text \<open>The blocks that are computed already: everything before the first real block without a hash.\<close>

definition locally_computed_blocks :: "nat \<Rightarrow> gpu_block list \<Rightarrow> nat" where
  "locally_computed_blocks n blocks = length (takeWhile (\<lambda>b. is_null b \<or> has_hash b) (take n blocks))"

record 'k group_load =
  load_keys :: "'k list"
  load_blocks :: "nat list"
  load_size :: nat
  load_index :: nat

text \<open>One group of \<open>update_state_after_alloc\<close>, with the new state of the group.\<close>

definition alloc_group ::
  "sched_config \<Rightarrow> bool \<Rightarrow> nat set \<Rightarrow> nat \<Rightarrow> nat \<Rightarrow> group_config \<Rightarrow> 'k group_state \<Rightarrow> gpu_block list
     \<Rightarrow> ('k group_load \<times> 'k group_state) option" where
  "alloc_group cfg blk ex computed cached g st blocks =
     (if group_idx g \<in> ex then
        Some (\<lparr> load_keys = [], load_blocks = [], load_size = 0, load_index = 0 \<rparr>, st)
      else do {
        let n = cdiv cached (tokens_per_block g);
        require (n \<le> length blocks);
        let local = locally_computed_blocks n blocks;
        require (computed \<le> local * tokens_per_block g);
        let pending = n - local;
        require (case sliding_window_size_in_chunks g of None \<Rightarrow> True
                 | Some w \<Rightarrow> pending \<le> w * blocks_per_chunk cfg + 1);
        let num_chunks = cdiv cached (tokens_per_chunk g);
        require (num_chunks \<le> length (offload_keys st));
        let keys = (if pending = 0 then []
                    else drop (local div blocks_per_chunk cfg) (take num_chunks (offload_keys st)));
        Some (\<lparr> load_keys = keys, load_blocks = map block_id (drop local (take n blocks)),
                load_size = pending, load_index = local \<rparr>,
              if blk then st\<lparr> next_stored_chunk_idx := num_chunks \<rparr> else st)
      })"

fun alloc_groups ::
  "sched_config \<Rightarrow> bool \<Rightarrow> nat set \<Rightarrow> nat \<Rightarrow> nat \<Rightarrow> (group_config \<times> 'k group_state \<times> gpu_block list) list
     \<Rightarrow> ('k group_load list \<times> 'k group_state list) option" where
  "alloc_groups cfg blk ex computed cached [] = Some ([], [])"
| "alloc_groups cfg blk ex computed cached ((g, st, blocks) # xs) =
     do {
       (l, st') \<leftarrow> alloc_group cfg blk ex computed cached g st blocks;
       (ls, sts) \<leftarrow> alloc_groups cfg blk ex computed cached xs;
       Some (l # ls, st' # sts)
     }"

definition allocated_ids :: "gpu_block list list \<Rightarrow> nat set" where
  "allocated_ids blocks = {b. b \<noteq> 0 \<and> b \<in> block_id ` set (concat blocks)}"

text \<open>
  \<open>update_state_after_alloc\<close>.  The job ids of a request are a set; the blocks are one list per
  group.
\<close>

definition update_state_after_alloc ::
  "('h, 'k, 's, 'm) externals \<Rightarrow> req_id \<Rightarrow> gpu_block list list \<Rightarrow> nat
     \<Rightarrow> ('h, 'k, 's, 'm) sched \<Rightarrow> ('h, 'k, 's, 'm) sched option" where
  "update_state_after_alloc ext r blocks external s =
     (if external = 0 then Some s
      else do {
        rs \<leftarrow> map_of (req_status s) r;
        let gs = zip (kv_group_configs (config s)) (zip (group_states rs) blocks);
        (ls, sts) \<leftarrow> alloc_groups (config s) (block_level rs) (lookup_excluded_groups rs)
          (num_locally_computed_tokens rs) (num_locally_computed_tokens rs + external) gs;
        let keys = concat (map load_keys ls);
        let (src, m) = mgr_prepare_load ext keys (rctx rs) (mgr s);
        let dst = \<lparr> gpu_block_ids = concat (map load_blocks ls), group_sizes = map load_size ls,
                    block_indices = map load_index ls \<rparr>;
        let j = job_counter s;
        require (transfer_jobs rs = {});
        let rs1 = rs\<lparr> group_states := sts @ drop (length sts) (group_states rs), transfer_jobs := {j} \<rparr>;
        Some ((put_req r rs1 s)\<lparr>
          mgr := m,
          batch_allocated := batch_allocated s \<union> allocated_ids (map (\<lambda>(g, st, bs). bs) gs),
          job_counter := j + 1,
          batch_load_jobs := dput j \<lparr> tr_req = r, src_spec = ManagerSpec src, dst_spec = GpuSpec dst \<rparr>
            (batch_load_jobs s),
          jobs := dput j \<lparr> job_req = r, pending_count = int (num_workers (config s)), job_keys = set keys,
            is_store = False, non_sliding_block_ids = [], sliding_block_ids = [] \<rparr> (jobs s),
          chunks_being_loaded := map_option (\<lambda>l. l \<union> set keys) (chunks_being_loaded s) \<rparr>)
      })"

end
