(* ===== verification/OffloadJobs.thy ===== *)
theory OffloadJobs
  imports OffloadSched
begin

text \<open>
  The schedule step of the offloading scheduler: block ids and keys are brought up to date, store
  jobs are built, jobs whose blocks are reused are flushed, and finished transfers are taken out
  of the ledger; finished requests and a reset of the cache.
\<close>

section \<open>The output of the engine's scheduler\<close>

text \<open>
  \<open>req_data\<close> is what \<open>yield_req_data\<close> yields: the request, its new blocks per group, and
  whether it was preempted.  The entries of \<open>num_scheduled_tokens\<close> are a dictionary.
\<close>

record scheduler_output =
  req_data :: "(req_id \<times> nat list list option \<times> bool) list"
  num_scheduled_tokens :: "(req_id, nat) dict"
  finished_req_ids :: "req_id list"
  preempted_req_ids :: "req_id list"
  new_req_ids :: "req_id list"

section \<open>Block ids and keys\<close>

definition nonzero :: "nat list \<Rightarrow> nat set" where
  "nonzero bs = {b \<in> set bs. b \<noteq> 0}"

text \<open>
  One entry of the first loop of \<open>_update_req_states\<close>.  The accumulator is the dictionary
  \<open>new_block_ids_end\<close>: where the block ids of the sliding groups ended before this step.
\<close>

definition update_req_state ::
  "('h, 'k, 's, 'm) externals \<Rightarrow> req_id \<times> nat list list option \<times> bool
     \<Rightarrow> ('h, 'k, 's, 'm) sched \<times> (req_id, nat list) dict
     \<Rightarrow> (('h, 'k, 's, 'm) sched \<times> (req_id, nat list) dict) option" where
  "update_req_state ext e acc = (case (e, acc) of ((r, new, preempted), (s, ends)) \<Rightarrow>
     do {
       rs0 \<leftarrow> map_of (req_status s) r;
       let rs1 = refresh_keys ext (config s) rs0;
       let rs2 = (if preempted then clear_block_ids rs1 else rs1);
       if new = None \<or> new = Some [] then Some (put_req r rs2 s, ends)
       else do {
         let ends' = (if sliding_groups (config s) = [] then ends
                      else dput r (map (\<lambda>i. length (block_ids (group_states rs2 ! i))) (sliding_groups (config s))) ends);
         sts \<leftarrow> update_block_id_groups new (group_states rs2);
         Some (put_req r (rs2\<lparr> group_states := sts \<rparr>)
                 (s\<lparr> batch_allocated := batch_allocated s \<union> nonzero (concat (the new)) \<rparr>), ends')
       }
     })"

fun update_req_loop ::
  "('h, 'k, 's, 'm) externals \<Rightarrow> (req_id \<times> nat list list option \<times> bool) list
     \<Rightarrow> ('h, 'k, 's, 'm) sched \<times> (req_id, nat list) dict
     \<Rightarrow> (('h, 'k, 's, 'm) sched \<times> (req_id, nat list) dict) option" where
  "update_req_loop ext [] acc = Some acc"
| "update_req_loop ext (e # es) acc = do { acc' \<leftarrow> update_req_state ext e acc; update_req_loop ext es acc' }"

text \<open>Positions from \<open>start\<close> up to \<open>stop\<close> whose block was allocated again become 0.\<close>

definition zero_range :: "nat set \<Rightarrow> nat \<Rightarrow> nat \<Rightarrow> nat list \<Rightarrow> nat list" where
  "zero_range alloc start stop bs =
     map (\<lambda>(j, b). if start \<le> j \<and> j < stop \<and> b \<in> alloc then 0 else b) (zip [0..<length bs] bs)"

definition zero_stale_group :: "nat set \<Rightarrow> nat \<Rightarrow> nat \<Rightarrow> 'k group_state \<Rightarrow> 'k group_state" where
  "zero_stale_group alloc bpc stop st =
     st\<lparr> block_ids := zero_range alloc (next_stored_chunk_idx st * bpc) stop (block_ids st) \<rparr>"

definition zero_stale ::
  "nat set \<Rightarrow> sched_config \<Rightarrow> nat list option \<Rightarrow> 'k group_state list \<Rightarrow> 'k group_state list" where
  "zero_stale alloc cfg ends sts =
     fold (\<lambda>(i, grp) sts.
         (let st = sts ! grp; stop = (case ends of None \<Rightarrow> length (block_ids st) | Some es \<Rightarrow> es ! i)
          in sts[grp := zero_stale_group alloc (blocks_per_chunk cfg) stop st]))
       (zip [0..<length (sliding_groups cfg)] (sliding_groups cfg)) sts"

definition update_req_states ::
  "('h, 'k, 's, 'm) externals \<Rightarrow> scheduler_output \<Rightarrow> ('h, 'k, 's, 'm) sched \<Rightarrow> ('h, 'k, 's, 'm) sched option" where
  "update_req_states ext out s =
     do {
       (s1, ends) \<leftarrow> update_req_loop ext (req_data out) (s, []);
       if sliding_groups (config s1) = [] \<or> batch_allocated s1 = {} then Some s1
       else Some (s1\<lparr> req_status :=
         map (\<lambda>(r, rs). (r, rs\<lparr> group_states :=
             zero_stale (batch_allocated s1) (config s1) (map_of ends r) (group_states rs) \<rparr>))
           (req_status s1) \<rparr>)
     }"

section \<open>Which chunks are offered for a store\<close>

text \<open>The loop over the chunks of one group; the index of the next chunk comes first.\<close>

fun offer_chunks :: "group_config \<Rightarrow> nat \<Rightarrow> nat \<Rightarrow> ('k \<times> nat) list \<Rightarrow> 'k list option" where
  "offer_chunks g n idx [] = Some []"
| "offer_chunks g n idx ((k, b) # xs) =
     (if b = 0 then offer_chunks g n (idx + 1) xs
      else do {
        reachable \<leftarrow> is_store_reachable_swa_chunk idx n (alignment_chunk_count g)
          (sliding_window_size_in_chunks g) (is_eagle_group g);
        ks \<leftarrow> offer_chunks g n (idx + 1) xs;
        Some (if reachable then k # ks else ks)
      })"

definition offer_group ::
  "sched_config \<Rightarrow> 'h request \<Rightarrow> nat \<Rightarrow> group_config \<Rightarrow> 'k group_state \<Rightarrow> 'k list option" where
  "offer_group cfg r offloadable g st =
     (let n = storable_chunks cfg r g st offloadable; start = next_stored_chunk_idx st;
          bpc = blocks_per_chunk cfg
      in if skip_external_reuse g \<or> n \<le> start then Some []
         else do {
           let keys = drop start (take n (offload_keys st));
           let ids = islice_from (start * bpc + bpc - 1) bpc (take (n * bpc) (block_ids st));
           require (length keys = length ids);
           offer_chunks g n start (zip keys ids)
         })"

fun offer_groups ::
  "sched_config \<Rightarrow> 'h request \<Rightarrow> nat \<Rightarrow> (group_config \<times> 'k group_state) list \<Rightarrow> 'k list option" where
  "offer_groups cfg r offloadable [] = Some []"
| "offer_groups cfg r offloadable ((g, st) # gs) =
     do {
       ks \<leftarrow> offer_group cfg r offloadable g st;
       ks' \<leftarrow> offer_groups cfg r offloadable gs;
       Some (ks @ ks')
     }"

section \<open>The blocks of a store job\<close>

text \<open>The non-zero blocks of one chunk, with their positions.\<close>

definition chunk_blocks :: "nat \<Rightarrow> nat list \<Rightarrow> nat \<Rightarrow> (nat \<times> nat) list" where
  "chunk_blocks bpc bs c =
     filter (\<lambda>(p, b). b \<noteq> 0) (map (\<lambda>i. (c * bpc + i, bs ! (c * bpc + i))) [0..<bpc])"

definition chosen_chunks :: "'k set \<Rightarrow> nat \<Rightarrow> 'k list \<Rightarrow> (nat \<times> 'k) list" where
  "chosen_chunks chosen start keys = filter (\<lambda>(c, k). k \<in> chosen) (zip [start..<start + length keys] keys)"

record 'k group_store =
  store_chunks :: "(nat \<times> 'k) list"
  store_positions :: "(nat \<times> nat) list"

definition store_group ::
  "sched_config \<Rightarrow> 'k set \<Rightarrow> 'h request \<Rightarrow> nat \<Rightarrow> group_config \<Rightarrow> 'k group_state \<Rightarrow> 'k group_store" where
  "store_group cfg chosen r offloadable g st =
     (let n = storable_chunks cfg r g st offloadable; start = next_stored_chunk_idx st;
          cs = chosen_chunks chosen start (drop start (take n (offload_keys st)))
      in \<lparr> store_chunks = cs,
           store_positions = concat (map (\<lambda>(c, k). chunk_blocks (blocks_per_chunk cfg) (block_ids st) c) cs) \<rparr>)"

definition store_blocks :: "'k group_store \<Rightarrow> nat list" where
  "store_blocks g = map snd (store_positions g)"

definition store_spec :: "'k group_store list \<Rightarrow> gpu_spec" where
  "store_spec gs =
     \<lparr> gpu_block_ids = concat (map store_blocks gs),
       group_sizes = map (\<lambda>g. length (store_positions g)) gs,
       block_indices = map (\<lambda>g. case store_positions g of [] \<Rightarrow> 0 | (p, b) # ps \<Rightarrow> p) gs \<rparr>"

text \<open>Source blocks of sliding groups, which are watched at once, and those of the others.\<close>

definition watched_blocks :: "bool \<Rightarrow> (group_config \<times> 'k group_store) list \<Rightarrow> nat list" where
  "watched_blocks sliding gs =
     concat (map (\<lambda>(g, x). store_blocks x)
       (filter (\<lambda>(g, x). (sliding_window_size_in_chunks g \<noteq> None) = sliding) gs))"

definition watch :: "nat \<Rightarrow> nat list \<Rightarrow> (nat, nat set) dict \<Rightarrow> (nat, nat set) dict" where
  "watch j bs pending = fold (\<lambda>b d. dput b (insert j (dget d b {})) d) bs pending"

text \<open>The tokens a request has after the batch.\<close>

definition tokens_after_batch :: "scheduler_output \<Rightarrow> req_id \<Rightarrow> 'h request \<Rightarrow> nat option" where
  "tokens_after_batch out r rq =
     (if status rq = FINISHED_ABORTED then Some (num_computed_tokens rq)
      else if is_finished rq then Some (num_tokens rq)
      else map_option (\<lambda>n. num_computed_tokens rq + n) (map_of (num_scheduled_tokens out) r))"

definition advance_req :: "sched_config \<Rightarrow> nat \<Rightarrow> ('h, 'k) req_state \<Rightarrow> ('h, 'k) req_state" where
  "advance_req cfg offloadable rs =
     rs\<lparr> group_states := advance_stored_idx cfg (req rs) offloadable (group_states rs) \<rparr>"

text \<open>
  The job for keys the manager accepted.  The assertion looks at some job of the request; here
  it is made for all of them, so it fails whenever some choice of the element would.
\<close>

definition add_store_job ::
  "('h, 'k, 's, 'm) externals \<Rightarrow> req_id \<Rightarrow> nat \<Rightarrow> 'k list \<Rightarrow> 's \<Rightarrow> ('h, 'k) req_state
     \<Rightarrow> ('h, 'k, 's, 'm) sched \<Rightarrow> (('h, 'k, 's, 'm) sched \<times> (nat \<times> 's transfer_job)) option" where
  "add_store_job ext r offloadable accepted spec rs s =
     do {
       let cfg = config s;
       let gs = map2 (store_group cfg (set accepted) (req rs) offloadable) (kv_group_configs cfg) (group_states rs);
       let sliding = watched_blocks True (zip (kv_group_configs cfg) gs);
       let others = watched_blocks False (zip (kv_group_configs cfg) gs);
       let j = job_counter s;
       require (\<forall>i \<in> transfer_jobs rs. case map_of (jobs s) i of None \<Rightarrow> False | Some js \<Rightarrow> is_store js);
       let rs1 = (advance_req cfg offloadable rs)\<lparr> transfer_jobs := insert j (transfer_jobs rs) \<rparr>;
       let finished = is_finished (req rs);
       Some ((put_req r rs1 s)\<lparr>
           mgr := sched_touch ext cfg rs (mgr s),
           event_records := event_records s
             @ concat (map (\<lambda>(g, x). map (\<lambda>(c, k). (r, group_idx g, c, k)) (store_chunks x)) (zip (kv_group_configs cfg) gs)),
           job_counter := j + 1,
           pending_jobs := (let p = watch j sliding (pending_jobs s) in if finished then watch j others p else p),
           jobs := dput j \<lparr> job_req = r, pending_count = int (num_workers cfg), job_keys = set accepted,
             is_store = True, non_sliding_block_ids = others, sliding_block_ids = sliding \<rparr> (jobs s),
           jobs_to_flush := (if finished \<and> list_ex (\<lambda>b. b \<in> batch_allocated s) others
                             then insert j (jobs_to_flush s) else jobs_to_flush s) \<rparr>,
         (j, \<lparr> tr_req = r, src_spec = GpuSpec (store_spec gs), dst_spec = ManagerSpec spec \<rparr>))
     }"

text \<open>One request of \<open>_build_store_jobs\<close>.\<close>

definition build_store_job ::
  "('h, 'k, 's, 'm) externals \<Rightarrow> scheduler_output \<Rightarrow> req_id \<Rightarrow> ('h, 'k, 's, 'm) sched
     \<Rightarrow> (('h, 'k, 's, 'm) sched \<times> (nat \<times> 's transfer_job) option) option" where
  "build_store_job ext out r s =
     (case map_of (req_status s) r of
        None \<Rightarrow> Some (s, None)
      | Some rs \<Rightarrow>
          do {
            let cfg = config s;
            n \<leftarrow> tokens_after_batch out r (req rs);
            let offloadable = calc_num_offloadable_tokens cfg (req rs) (max_offload_tokens rs) n;
            keys \<leftarrow> offer_groups cfg (req rs) offloadable (zip (kv_group_configs cfg) (group_states rs));
            if keys = [] then Some (put_req r (advance_req cfg offloadable rs) s, None)
            else case mgr_prepare_store ext keys (rctx rs) (mgr s) of
              (None, m) \<Rightarrow> Some (s\<lparr> mgr := m, allocation_failures := allocation_failures s + 1 \<rparr>, None)
            | (Some (accepted, spec), m) \<Rightarrow>
                if accepted = [] then Some (put_req r (advance_req cfg offloadable rs) (s\<lparr> mgr := m \<rparr>), None)
                else do {
                  (s', job) \<leftarrow> add_store_job ext r offloadable accepted spec rs (s\<lparr> mgr := m \<rparr>);
                  Some (s', Some job)
                }
          })"

fun build_store_loop ::
  "('h, 'k, 's, 'm) externals \<Rightarrow> scheduler_output \<Rightarrow> req_id list \<Rightarrow> ('h, 'k, 's, 'm) sched
     \<Rightarrow> (('h, 'k, 's, 'm) sched \<times> (nat \<times> 's transfer_job) list) option" where
  "build_store_loop ext out [] s = Some (s, [])"
| "build_store_loop ext out (r # rs) s =
     do {
       (s1, job) \<leftarrow> build_store_job ext out r s;
       (s2, js) \<leftarrow> build_store_loop ext out rs s1;
       Some (s2, (case job of None \<Rightarrow> js | Some j \<Rightarrow> j # js))
     }"

definition build_store_jobs ::
  "('h, 'k, 's, 'm) externals \<Rightarrow> scheduler_output \<Rightarrow> ('h, 'k, 's, 'm) sched
     \<Rightarrow> (('h, 'k, 's, 'm) sched \<times> (nat \<times> 's transfer_job) list) option" where
  "build_store_jobs ext out s =
     (if stores_enabled s
      then build_store_loop ext out (map fst (num_scheduled_tokens out) @ finished_req_ids out) s
      else Some (s, []))"

section \<open>The metadata of a step\<close>

text \<open>Jobs of preempted requests; the assertion is made for all jobs of the request.\<close>

fun flush_preempted :: "req_id list \<Rightarrow> ('h, 'k, 's, 'm) sched \<Rightarrow> ('h, 'k, 's, 'm) sched option" where
  "flush_preempted [] s = Some s"
| "flush_preempted (r # rs) s =
     (case map_of (req_status s) r of
        None \<Rightarrow> flush_preempted rs s
      | Some st \<Rightarrow>
          do {
            require (\<forall>i \<in> transfer_jobs st. case map_of (jobs s) i of None \<Rightarrow> False | Some js \<Rightarrow> is_store js);
            flush_preempted rs (s\<lparr> jobs_to_flush := jobs_to_flush s \<union> transfer_jobs st \<rparr>)
          })"

definition flush_reallocated :: "('h, 'k, 's, 'm) sched \<Rightarrow> ('h, 'k, 's, 'm) sched" where
  "flush_reallocated s =
     s\<lparr> jobs_to_flush := jobs_to_flush s \<union>
          \<Union> (snd ` set (filter (\<lambda>(b, js). b \<in> batch_allocated s) (pending_jobs s))) \<rparr>"

text \<open>A finished request is signaled, and forgotten when it has no job left.\<close>

definition signal_finished ::
  "('h, 'k, 's, 'm) externals \<Rightarrow> req_id \<Rightarrow> ('h, 'k, 's, 'm) sched \<Rightarrow> ('h, 'k, 's, 'm) sched" where
  "signal_finished ext r s =
     (case map_of (req_status s) r of
        None \<Rightarrow> s
      | Some rs \<Rightarrow>
          (let s1 = s\<lparr> mgr := mgr_on_request_finished ext (rctx rs) (mgr s) \<rparr>
           in if transfer_jobs rs = {} then s1\<lparr> req_status := dpop r (req_status s1) \<rparr>
              else put_req r (rs\<lparr> finished_signaled := True \<rparr>) s1))"

record 's connector_meta =
  meta_load_jobs :: "(nat, 's transfer_job) dict"
  meta_store_jobs :: "(nat, 's transfer_job) dict"
  meta_jobs_to_flush :: "nat set"

definition build_connector_meta ::
  "('h, 'k, 's, 'm) externals \<Rightarrow> scheduler_output \<Rightarrow> ('h, 'k, 's, 'm) sched
     \<Rightarrow> ('s connector_meta \<times> ('h, 'k, 's, 'm) sched) option" where
  "build_connector_meta ext out s =
     do {
       s1 \<leftarrow> update_req_states ext out s;
       let s2 = s1\<lparr> mgr := mgr_on_schedule_end ext (new_req_ids out) (preempted_req_ids out) (mgr s1) \<rparr>;
       s3 \<leftarrow> flush_preempted (preempted_req_ids out) s2;
       (s4, stores) \<leftarrow> build_store_jobs ext out (flush_reallocated s3);
       let meta = \<lparr> meta_load_jobs = batch_load_jobs s4, meta_store_jobs = stores,
                    meta_jobs_to_flush = jobs_to_flush s4 \<rparr>;
       let s5 = fold (signal_finished ext) (finished_req_ids out) s4;
       Some (meta, s5\<lparr> batch_load_jobs := [], jobs_to_flush := {}, batch_allocated := {} \<rparr>)
     }"

section \<open>Completed transfers\<close>

fun remove_pending :: "nat \<Rightarrow> nat list \<Rightarrow> (nat, nat set) dict \<Rightarrow> (nat, nat set) dict option" where
  "remove_pending j [] d = Some d"
| "remove_pending j (b # bs) d =
     do {
       p \<leftarrow> map_of d b;
       require (j \<in> p);
       remove_pending j bs (if p = {j} then dpop b d else dput b (p - {j}) d)
     }"

text \<open>The job ends: the manager is told, the blocks are no longer watched.\<close>

definition finish_transfer ::
  "('h, 'k, 's, 'm) externals \<Rightarrow> nat \<Rightarrow> 'k job_status \<Rightarrow> ('h, 'k, 's, 'm) sched
     \<Rightarrow> ('h, 'k, 's, 'm) sched option" where
  "finish_transfer ext j js s =
     do {
       rs \<leftarrow> map_of (req_status s) (job_req js);
       pending \<leftarrow>
         (if pending_jobs s = [] then Some []
          else do {
            p \<leftarrow> remove_pending j (sliding_block_ids js) (pending_jobs s);
            if is_finished (req rs) then remove_pending j (non_sliding_block_ids js) p else Some p
          });
       require (j \<in> transfer_jobs rs);
       let rs1 = rs\<lparr> transfer_jobs := transfer_jobs rs - {j} \<rparr>;
       Some (s\<lparr>
         mgr := (if is_store js then mgr_complete_store ext else mgr_complete_load ext) (job_keys js) (rctx rs) (mgr s),
         chunks_being_loaded := (if is_store js then chunks_being_loaded s
           else map_option (\<lambda>l. l - job_keys js) (chunks_being_loaded s)),
         pending_jobs := pending,
         jobs := dpop j (jobs s),
         req_status := (if finished_signaled rs \<and> transfer_jobs rs1 = {} then dpop (job_req js) (req_status s)
           else dput (job_req js) rs1 (req_status s)) \<rparr>)
     }"

definition complete_job ::
  "('h, 'k, 's, 'm) externals \<Rightarrow> nat \<times> int \<Rightarrow> ('h, 'k, 's, 'm) sched \<Rightarrow> ('h, 'k, 's, 'm) sched option" where
  "complete_job ext e s = (case e of (j, count) \<Rightarrow>
     do {
       require (0 < count);
       if j < stale_job_threshold s then Some s
       else do {
         js \<leftarrow> map_of (jobs s) j;
         let js1 = js\<lparr> pending_count := pending_count js - count \<rparr>;
         let s1 = s\<lparr> jobs := dput j js1 (jobs s) \<rparr>;
         if 0 < pending_count js1 then Some s1
         else do {
           require (pending_count js1 = 0);
           finish_transfer ext j js1 s1
         }
       }
     })"

text \<open>\<open>update_connector_output\<close> on the dictionary of completed jobs.\<close>

fun update_connector_output ::
  "('h, 'k, 's, 'm) externals \<Rightarrow> (nat \<times> int) list \<Rightarrow> ('h, 'k, 's, 'm) sched \<Rightarrow> ('h, 'k, 's, 'm) sched option" where
  "update_connector_output ext [] s = Some s"
| "update_connector_output ext (e # es) s = do { s1 \<leftarrow> complete_job ext e s; update_connector_output ext es s1 }"

definition has_pending_push_work :: "('h, 'k, 's, 'm) externals \<Rightarrow> ('h, 'k, 's, 'm) sched \<Rightarrow> bool" where
  "has_pending_push_work ext s \<longleftrightarrow> jobs s \<noteq> [] \<or> mgr_has_pending_work ext (mgr s)"

section \<open>Finished requests and reset\<close>

text \<open>The jobs of a request in the order they were created, the order of \<open>sorted\<close>.\<close>

fun watch_jobs :: "nat list \<Rightarrow> (nat, 'k job_status) dict \<Rightarrow> (nat, nat set) dict \<Rightarrow> (nat, nat set) dict option" where
  "watch_jobs [] js pending = Some pending"
| "watch_jobs (j # is) js pending =
     do {
       st \<leftarrow> map_of js j;
       watch_jobs is js (watch j (non_sliding_block_ids st) pending)
     }"

text \<open>\<open>request_finished\<close>, called with the request as the engine left it.\<close>

definition request_finished ::
  "('h, 'k, 's, 'm) externals \<Rightarrow> 'h request \<Rightarrow> ('h, 'k, 's, 'm) sched \<Rightarrow> ('h, 'k, 's, 'm) sched option" where
  "request_finished ext rq s =
     (let r = request_id rq; s0 = s\<lparr> lookup_policy := finish_request r (lookup_policy s) \<rparr>
      in case map_of (req_status s0) r of
           None \<Rightarrow>
             (let c = create_req_context (known_medium ext) (known_locality ext) rq;
                  m = snd (mgr_on_new_request ext c (mgr s0))
              in Some (s0\<lparr> mgr := mgr_on_request_finished ext c m \<rparr>))
         | Some rs \<Rightarrow>
             do {
               let rs1 = refresh_keys ext (config s) (rs\<lparr> req := rq, deferred_start := None \<rparr>);
               p \<leftarrow> watch_jobs (sorted_list_of_set (transfer_jobs rs)) (jobs s0) (pending_jobs s0);
               Some ((put_req r rs1 s0)\<lparr> pending_jobs := p \<rparr>)
             })"

definition reset_request :: "('h, 'k) req_state \<Rightarrow> ('h, 'k) req_state" where
  "reset_request rs =
     rs\<lparr> group_states := map (\<lambda>st. st\<lparr> next_stored_chunk_idx := 0 \<rparr>) (group_states rs), transfer_jobs := {} \<rparr>"

definition reset_cache ::
  "('h, 'k, 's, 'm) externals \<Rightarrow> ('h, 'k, 's, 'm) sched \<Rightarrow> ('h, 'k, 's, 'm) sched option" where
  "reset_cache ext s =
     do {
       require (batch_load_jobs s = []);
       require (jobs_to_flush s = {});
       require (batch_allocated s = {});
       let gone = filter (\<lambda>(r, rs). is_finished (req rs)) (req_status s);
       let m = fold (\<lambda>(r, rs) m. if finished_signaled rs then m else mgr_on_request_finished ext (rctx rs) m) gone (mgr s);
       Some (s\<lparr> jobs_to_flush := set (map fst (jobs s)),
         req_status := map (\<lambda>(r, rs). (r, reset_request rs)) (filter (\<lambda>(r, rs). \<not> is_finished (req rs)) (req_status s)),
         mgr := mgr_reset_cache ext m,
         stale_job_threshold := job_counter s,
         jobs := [], pending_jobs := [], event_records := [],
         chunks_being_loaded := map_option (\<lambda>l. {}) (chunks_being_loaded s) \<rparr>)
     }"

end
