(* ===== verification/OffloadLookupProps.thy ===== *)
theory OffloadLookupProps
  imports OffloadLookup
begin

text \<open>
  What an external hit promises.  The manager's answers are taken to be stable during one
  lookup: the answer for a key is \<open>ans\<close> of the key, whatever the manager's state.
\<close>

definition stable :: "('k, 'm) look \<Rightarrow> ('k \<Rightarrow> lookup_result) \<Rightarrow> bool" where
  "stable look ans \<longleftrightarrow> (\<forall>k m. fst (look k m) = ans k)"

section \<open>The two scans\<close>

lemma prefix_scan_hits:
  assumes "stable look ans" "prefix_scan look i ks m = (n, d, recs, m')"
  shows "n \<le> length ks \<and> (\<not> d \<longrightarrow> (\<forall>j < n. ans (ks ! j) = HIT))"
  using assms(2)
proof (induction ks arbitrary: i m n d recs m')
  case (Cons k ks)
  obtain r m1 where r: "look k m = (r, m1)" by fastforce
  then have a: "ans k = r" using assms(1) by (metis fst_conv stable_def)
  obtain n1 d1 recs1 m2 where rest: "prefix_scan look (i + 1) ks m1 = (n1, d1, recs1, m2)"
    by (metis surj_pair)
  from Cons.IH [OF rest] Cons.prems r a rest show ?case
    by (auto simp: nth_Cons' split: lookup_result.splits)
qed simp

lemma window_scan_hits:
  assumes st: "stable look ans"
  shows "window_scan look w keys idx d streak m = (Some h, m') \<Longrightarrow> 0 < w \<Longrightarrow>
    idx + streak \<le> length keys \<Longrightarrow> streak < w \<Longrightarrow>
    (\<not> d \<longrightarrow> (\<forall>j. idx \<le> j \<and> j < idx + streak \<longrightarrow> ans (keys ! j) = HIT)) \<Longrightarrow>
    h \<le> length keys \<and> (\<forall>j. h - w \<le> j \<and> j < h \<longrightarrow> ans (keys ! j) = HIT)"
proof (induction idx arbitrary: d streak m)
  case 0
  then show ?case by (auto split: if_splits)
next
  case (Suc idx)
  obtain r m1 where r: "look (keys ! idx) m = (r, m1)" by fastforce
  then have a: "ans (keys ! idx) = r" using st by (metis fst_conv stable_def)
  let ?d = "d \<or> r = HIT_PENDING \<or> r = RETRY"
  let ?s = "if r = HIT \<or> r = HIT_PENDING then streak + 1 else 0"
  have hits: "\<not> ?d \<longrightarrow> (\<forall>j. idx \<le> j \<and> j < idx + ?s \<longrightarrow> ans (keys ! j) = HIT)"
  proof (intro impI allI)
    fix j assume d: "\<not> ?d" and j: "idx \<le> j \<and> j < idx + ?s"
    then have "r = HIT" by (cases r) auto
    with d j Suc.prems(5) a show "ans (keys ! j) = HIT" by (cases "j = idx") auto
  qed
  have bound: "idx + ?s \<le> length keys" using Suc.prems(3) by auto
  show ?case
  proof (cases "?s = w")
    case True
    with Suc.prems(1) r have h: "\<not> ?d" "h = idx + w"
      by (auto simp: Let_def split: if_splits)
    with hits bound True show ?thesis by auto
  next
    case False
    then have "window_scan look w keys idx ?d ?s m1 = (Some h, m')"
      using Suc.prems(1) r by (simp add: Let_def)
    moreover have "?s < w" using False Suc.prems(2,4) by auto
    ultimately show ?thesis using Suc.IH [OF _ Suc.prems(2) bound _ hits] by blast
  qed
qed

section \<open>One group at the boundary\<close>

text \<open>All keys a load of the tokens up to \<open>m\<close> needs from the group are known to be present.\<close>

definition confirmed :: "('k \<Rightarrow> lookup_result) \<Rightarrow> nat \<Rightarrow> int \<Rightarrow> group_config \<Rightarrow> 'k list \<Rightarrow> bool" where
  "confirmed ans computed m g keys \<longleftrightarrow>
     (let t = tokens_per_chunk g; e = cdiv (nat m) t;
          from = (case sliding_window_size_in_chunks g of None \<Rightarrow> computed div t
                  | Some w \<Rightarrow> max (computed div t) (e - w))
      in e \<le> length keys \<and> (\<forall>j. from \<le> j \<and> j < e \<longrightarrow> ans (keys ! j) = HIT))"

lemma confirmed_mono_full:
  assumes "confirmed ans computed m g keys" "m' \<le> m" "0 < tokens_per_chunk g"
    "sliding_window_size_in_chunks g = None"
  shows "confirmed ans computed m' g keys"
proof -
  have "cdiv (nat m') (tokens_per_chunk g) \<le> cdiv (nat m) (tokens_per_chunk g)"
    by (rule cdiv_mono) (use assms in auto)
  with assms show ?thesis by (auto simp: confirmed_def Let_def)
qed

text \<open>The new end of the boundary: the chunks that were confirmed, or the old end.\<close>

lemma boundary_cdiv:
  assumes "0 < t" "s + h \<le> cdiv M t"
  shows "cdiv (min M (t * (s + h))) t = s + h"
proof (rule antisym)
  show "cdiv (min M (t * (s + h))) t \<le> s + h"
    by (simp add: cdiv_le_iff [OF assms(1)] mult.commute)
  show "s + h \<le> cdiv (min M (t * (s + h))) t"
  proof (cases "M \<le> t * (s + h)")
    case True
    then show ?thesis using assms(2) by (simp add: min_absorb1)
  next
    case False
    then show ?thesis using assms(1) by (simp add: min_absorb2)
  qed
qed

lemma nth_slice:
  "s \<le> j \<Longrightarrow> j - s < length (drop s (take n xs)) \<Longrightarrow> drop s (take n xs) ! (j - s) = xs ! j"
  by (subst nth_drop) auto

lemma window_lookup_hits:
  assumes "stable look ans" "fst (sliding_window_lookup look ks w m) = Some h" "0 < w"
  shows "h \<le> length ks \<and> (\<forall>j. h - w \<le> j \<and> j < h \<longrightarrow> ans (ks ! j) = HIT)"
proof -
  have "window_scan look w ks (length ks) False 0 m = (Some h, snd (sliding_window_lookup look ks w m))"
    using assms(2) by (simp add: sliding_window_lookup_def prod_eq_iff)
  then show ?thesis by (rule window_scan_hits [OF assms(1) _ assms(3) _ assms(3)]) auto
qed

lemma prefix_lookup_hits:
  assumes "stable look ans" "fst (maximal_prefix_lookup look i ks m) = Some h"
  shows "h \<le> length ks \<and> (\<forall>j < h. ans (ks ! j) = HIT)"
proof -
  obtain n d recs m' where r: "prefix_scan look i ks m = (n, d, recs, m')" by (metis surj_pair)
  with assms(2) have "\<not> d" "n = h"
    by (auto simp: maximal_prefix_lookup_def split: if_splits)
  with prefix_scan_hits [OF assms(1) r] show ?thesis by simp
qed

text \<open>The answer of a group confirms the boundary it sets.\<close>

lemma group_query_confirms:
  assumes st: "stable look ans" and t: "0 < tokens_per_chunk g"
    and w: "\<And>w. sliding_window_size_in_chunks g = Some w \<Longrightarrow> 0 < w"
    and M: "M \<le> length keys * tokens_per_chunk g"
    and q: "fst (group_query look computed g keys u M m) = Some h" "0 < h"
  shows "confirmed ans computed
    (min (int M) (int (tokens_per_chunk g * (computed div tokens_per_chunk g + (if u then h - 1 else h))))) g keys"
proof -
  define hh where "hh = (if u then h - 1 else h)"
  let ?t = "tokens_per_chunk g" and ?s = "computed div tokens_per_chunk g"
  have N: "nat (min (int M) (int (?t * (?s + hh)))) = min M (?t * (?s + hh))"
    by (metis nat_int of_nat_min)
  have lenM: "cdiv M ?t \<le> length keys" using M t by (simp add: cdiv_le_iff mult.commute)
  have "confirmed ans computed (min (int M) (int (?t * (?s + hh)))) g keys"
  proof (cases "sliding_window_size_in_chunks g")
    case None
    let ?ks = "drop ?s (take (min (cdiv M ?t) (length keys)) keys)"
    have "fst (maximal_prefix_lookup look ?s ?ks m) = Some h"
      using q(1) None by (simp add: group_query_def Let_def)
    from prefix_lookup_hits [OF st this] have
      le: "h \<le> cdiv M ?t - ?s" and hit: "\<And>j. j < h \<Longrightarrow> ans (?ks ! j) = HIT"
      using lenM by (simp_all add: min_absorb1)
    have e: "cdiv (min M (?t * (?s + hh))) ?t = ?s + hh"
      by (rule boundary_cdiv [OF t]) (use le q(2) in \<open>auto simp: hh_def\<close>)
    have "ans (keys ! j) = HIT" if "?s \<le> j" "j < ?s + hh" for j
      using hit [of "j - ?s"] that le q(2) lenM by (auto simp: hh_def split: if_splits)
    moreover have "?s + hh \<le> length keys" using le q(2) lenM by (auto simp: hh_def)
    ultimately show ?thesis using None e unfolding confirmed_def Let_def N by simp
  next
    case (Some w)
    then have "0 < w" by (rule w)
    let ?q = "if u then min (M + ?t) (length keys * ?t) else M"
    let ?w = "if u then w + 1 else w"
    let ?ks = "drop ?s (take (min (cdiv ?q ?t) (length keys)) keys)"
    have "fst (sliding_window_lookup look ?ks ?w m) = Some h"
      using q(1) Some by (simp add: group_query_def Let_def split_beta)
    from window_lookup_hits [OF st this] \<open>0 < w\<close> have
      le: "h \<le> length ?ks" and hit: "\<And>j. h - ?w \<le> j \<Longrightarrow> j < h \<Longrightarrow> ans (?ks ! j) = HIT" by simp_all
    have "cdiv (M + ?t) ?t \<le> cdiv M ?t + 1"
      using cdiv_upper [OF t, of M] t by (simp add: cdiv_le_iff)
    then have "cdiv ?q ?t \<le> (if u then cdiv M ?t + 1 else cdiv M ?t)"
      using cdiv_mono [OF t, of ?q "M + ?t"] by auto
    then have le': "?s + hh \<le> cdiv M ?t" using le q(2) by (auto simp: hh_def split: if_splits)
    have e: "cdiv (min M (?t * (?s + hh))) ?t = ?s + hh" by (rule boundary_cdiv [OF t le'])
    have "ans (keys ! j) = HIT" if j: "?s \<le> j" "?s + hh - w \<le> j" "j < ?s + hh" for j
    proof -
      have "h - ?w \<le> j - ?s" "j - ?s < h" using j q(2) by (auto simp: hh_def split: if_splits)
      then have "ans (?ks ! (j - ?s)) = HIT" "j - ?s < length ?ks" using hit le by auto
      with nth_slice [OF j(1), of "min (cdiv ?q ?t) (length keys)" keys] show ?thesis by simp
    qed
    then show ?thesis using Some e le' lenM unfolding confirmed_def Let_def N by simp
  qed
  then show ?thesis by (simp add: hh_def)
qed

section \<open>The loop\<close>

definition groups_wf :: "sched_config \<Rightarrow> 'k group_state list \<Rightarrow> bool" where
  "groups_wf cfg sts \<longleftrightarrow> length sts = length (kv_group_configs cfg)
     \<and> (\<forall>i < length (kv_group_configs cfg). let g = kv_group_configs cfg ! i
          in group_idx g = i \<and> 0 < tokens_per_chunk g \<and> sliding_window_size_in_chunks g \<noteq> Some 0
             \<and> (eagle_group_is_veto_exempt g \<longrightarrow> skip_external_reuse g))"

definition skipped :: "sched_config \<Rightarrow> nat set" where
  "skipped cfg = group_idx ` set (filter skip_external_reuse (kv_group_configs cfg))"

definition live :: "sched_config \<Rightarrow> nat list" where
  "live cfg = filter (\<lambda>i. i \<notin> skipped cfg) (lookup_groups_of cfg)"

definition live_windows :: "sched_config \<Rightarrow> nat list" where
  "live_windows cfg = filter (\<lambda>i. i \<notin> skipped cfg) (sliding_groups cfg)"

lemma groups_wfD:
  assumes "groups_wf cfg sts" "i < length (kv_group_configs cfg)"
  shows "group_idx (kv_group_configs cfg ! i) = i" "0 < tokens_per_chunk (kv_group_configs cfg ! i)"
    "sliding_window_size_in_chunks (kv_group_configs cfg ! i) \<noteq> Some 0"
    "eagle_group_is_veto_exempt (kv_group_configs cfg ! i) \<Longrightarrow> skip_external_reuse (kv_group_configs cfg ! i)"
  using assms by (auto simp: groups_wf_def Let_def)

lemma set_sliding_groups:
  assumes "groups_wf cfg sts"
  shows "set (sliding_groups cfg) =
    {i. i < length (kv_group_configs cfg) \<and> sliding_window_size_in_chunks (kv_group_configs cfg ! i) \<noteq> None}"
  using groups_wfD(1) [OF assms]
  by (force simp: sliding_groups_def Let_def in_set_conv_nth image_iff)

lemma set_lookup_groups:
  assumes "groups_wf cfg sts"
  shows "set (lookup_groups_of cfg) = {..<length (kv_group_configs cfg)}"
proof -
  have "set (map group_idx (filter (\<lambda>g. sliding_window_size_in_chunks g = None) (kv_group_configs cfg)))
      = {i. i < length (kv_group_configs cfg) \<and> sliding_window_size_in_chunks (kv_group_configs cfg ! i) = None}"
    using groups_wfD(1) [OF assms] by (force simp: in_set_conv_nth image_iff)
  with set_sliding_groups [OF assms] show ?thesis by (auto simp: lookup_groups_of_def)
qed

lemma liveD:
  assumes "groups_wf cfg sts" "i \<in> set (live cfg)"
  shows "i < length (kv_group_configs cfg)" "\<not> eagle_group_is_veto_exempt (kv_group_configs cfg ! i)"
proof -
  show i: "i < length (kv_group_configs cfg)"
    using assms by (simp add: live_def set_lookup_groups)
  show "\<not> eagle_group_is_veto_exempt (kv_group_configs cfg ! i)"
  proof
    assume "eagle_group_is_veto_exempt (kv_group_configs cfg ! i)"
    with groups_wfD(4) [OF assms(1) i] i
    have "kv_group_configs cfg ! i \<in> set (filter skip_external_reuse (kv_group_configs cfg))" by simp
    then have "group_idx (kv_group_configs cfg ! i) \<in> skipped cfg" unfolding skipped_def by (rule imageI)
    then have "i \<in> skipped cfg" using groups_wfD(1) [OF assms(1) i] by simp
    with assms(2) show False by (simp add: live_def)
  qed
qed

lemma live_windows_live: "groups_wf cfg sts \<Longrightarrow> set (live_windows cfg) \<subseteq> set (live cfg)"
  by (auto simp: live_def live_windows_def lookup_groups_of_def)

lemma live_full:
  "groups_wf cfg sts \<Longrightarrow> i \<in> set (live cfg) \<Longrightarrow> i \<notin> set (live_windows cfg) \<Longrightarrow>
   sliding_window_size_in_chunks (kv_group_configs cfg ! i) = None"
  by (auto simp: live_def live_windows_def set_lookup_groups set_sliding_groups)

abbreviation sure :: "('k \<Rightarrow> lookup_result) \<Rightarrow> sched_config \<Rightarrow> nat \<Rightarrow> 'k group_state list \<Rightarrow> int \<Rightarrow> nat \<Rightarrow> bool" where
  "sure ans cfg computed sts m i \<equiv> confirmed ans computed m (kv_group_configs cfg ! i) (offload_keys (sts ! i))"

text \<open>
  The invariant of a pass with \<open>rest\<close> still to ask: unless a lookup was deferred, every
  group that is neither in \<open>rest\<close> nor scheduled again is sure at the present boundary.
\<close>

definition pass_inv ::
  "('k \<Rightarrow> lookup_result) \<Rightarrow> sched_config \<Rightarrow> nat \<Rightarrow> 'k group_state list \<Rightarrow> nat list \<Rightarrow> ('k, 'm) lookup_state \<Rightarrow> bool" where
  "pass_inv ans cfg computed sts rest s \<longleftrightarrow>
     excluded s = skipped cfg
     \<and> (next_groups s = [] \<or> next_groups s = live cfg \<or> next_groups s = live_windows cfg)
     \<and> (\<not> window_seen s \<longrightarrow> set (live_windows cfg) \<subseteq> set rest)
     \<and> (hit_tokens s = max_hit_tokens s - int computed \<or> set (live cfg) \<subseteq> set rest)
     \<and> (\<not> deferred_flag s \<longrightarrow>
          (\<forall>i \<in> set (live cfg) - set rest - set (next_groups s). sure ans cfg computed sts (max_hit_tokens s) i))"

lemma sure_mono:
  assumes "groups_wf cfg sts" "i \<in> set (live cfg)" "i \<notin> set (live_windows cfg)"
    "sure ans cfg computed sts m i" "m' \<le> m"
  shows "sure ans cfg computed sts m' i"
  using confirmed_mono_full assms liveD(1) [OF assms(1,2)] groups_wfD(2) live_full by metis

text \<open>The answer of the group that is asked: deferred, or sure.\<close>

lemma confirm_hits_sure:
  assumes st: "stable look ans" and wf: "groups_wf cfg sts" and i: "i \<in> set (live cfg)"
    and s0: "0 \<le> max_hit_tokens s0"
      "max_hit_tokens s0 \<le> int (length (offload_keys (sts ! i)) * tokens_per_chunk (kv_group_configs cfg ! i))"
    and ask: "ask_group look computed (kv_group_configs cfg ! i) i (offload_keys (sts ! i)) u s0 = (n, s1)"
    and n: "n \<noteq> Some 0"
  shows "deferred_flag (confirm_hits computed (kv_group_configs cfg ! i) i u n s1)
    \<or> sure ans cfg computed sts (max_hit_tokens (confirm_hits computed (kv_group_configs cfg ! i) i u n s1)) i"
proof (cases n)
  case None
  then show ?thesis by (simp add: confirm_hits_def)
next
  case (Some h)
  let ?g = "kv_group_configs cfg ! i" and ?keys = "offload_keys (sts ! i)"
  have q: "fst (group_query look computed ?g ?keys u (nat (max_hit_tokens s0)) (manager s0)) = Some h"
    using ask Some by (auto simp: ask_group_def split: prod.splits)
  have s1: "max_hit_tokens s1 = max_hit_tokens s0"
    using ask_group_keeps(1) [of look computed ?g i ?keys u s0, unfolded ask snd_conv] .
  note w = groups_wfD [OF wf liveD(1) [OF wf i]]
  have "sure ans cfg computed sts (min (int (nat (max_hit_tokens s0)))
      (int (tokens_per_chunk ?g * (computed div tokens_per_chunk ?g + (if u then h - 1 else h))))) i"
    by (rule group_query_confirms [OF st w(2) _ _ q])
      (use w(3) s0(2) n Some in \<open>auto simp: nat_le_iff simp del: of_nat_mult\<close>)
  with s0(1) s1 Some show ?thesis by (simp add: confirm_hits_def Let_def)
qed

lemma settle_cases:
  assumes "settle cfg computed g s = Go s'"
  shows "max_hit_tokens s' = max_hit_tokens s" "hit_tokens s' = max_hit_tokens s - int computed"
    "excluded s' = excluded s" "window_seen s' = (window_seen s \<or> sliding_window_size_in_chunks g \<noteq> None)"
    "\<not> max_hit_tokens s - int computed < hit_tokens s \<and> next_groups s' = next_groups s \<and> deferred_flag s' = deferred_flag s
     \<or> next_groups s' = filter (\<lambda>j. j \<notin> excluded s) (lookup_groups_of cfg)
     \<or> \<not> deferred_flag s \<and> window_seen s \<and> next_groups s = []
         \<and> next_groups s' = filter (\<lambda>j. j \<notin> excluded s) (sliding_groups cfg)
     \<or> \<not> deferred_flag s \<and> (window_seen s \<longrightarrow> next_groups s \<noteq> []) \<and> next_groups s' = next_groups s"
  using assms by (auto simp: settle_def schedule_pass_def Let_def split: if_splits)

lemma pass_inv_turn:
  assumes st: "stable look ans" and wf: "groups_wf cfg sts" and i: "i \<in> set (live cfg)"
    and pre: "pass_inv ans cfg computed sts (i # rest) s"
    and go: "group_turn look cfg ntok computed sts i s = Go s'"
  shows "pass_inv ans cfg computed sts rest s' \<and> hit_tokens s' = max_hit_tokens s' - int computed"
proof -
  let ?g = "kv_group_configs cfg ! i" and ?keys = "offload_keys (sts ! i)"
  from go obtain u s0 n s1 where t:
    "s0 = s\<lparr> max_hit_tokens := min (max_hit_tokens s) (int (length ?keys * tokens_per_chunk ?g)) \<rparr>"
    "int (tokens_per_chunk ?g) \<le> max_hit_tokens s0 - int computed"
    "ask_group look computed ?g i ?keys u s0 = (n, s1)"
    "n = Some 0 \<and> eagle_group_is_veto_exempt ?g \<and> s' = s1\<lparr> excluded := insert i (excluded s1) \<rparr>
     \<or> n \<noteq> Some 0 \<and> settle cfg computed ?g (confirm_hits computed ?g i u n s1) = Go s'"
    by (rule group_turn_GoE)
  define c where "c = confirm_hits computed ?g i u n s1"
  from t(4) liveD(2) [OF wf i] have n: "n \<noteq> Some 0" and go': "settle cfg computed ?g c = Go s'"
    by (auto simp: c_def)
  note k = ask_group_keeps [of look computed ?g i ?keys u s0, unfolded t(3) snd_conv]
  have c: "excluded c = skipped cfg" "window_seen c = window_seen s" "next_groups c = next_groups s"
    "hit_tokens c = hit_tokens s"
    using pre k by (simp_all add: c_def t(1) pass_inv_def)
  have cd: "deferred_flag s \<Longrightarrow> deferred_flag c"
    using k(4) by (auto simp: c_def t(1) confirm_hits_def Let_def split: option.split)
  have cm: "max_hit_tokens c \<le> max_hit_tokens s"
    unfolding c_def by (rule order_trans [OF confirm_hits_keeps(5)]) (simp add: k(1), simp add: t(1))
  have me: "deferred_flag c \<or> sure ans cfg computed sts (max_hit_tokens c) i"
    unfolding c_def by (rule confirm_hits_sure [OF st wf i _ _ t(3) n]) (use t(1,2) in auto)
  note e = settle_cases [OF go']
  have old: "sure ans cfg computed sts (max_hit_tokens s) j"
    if "\<not> deferred_flag s" "j \<in> set (live cfg)" "j \<notin> set (i # rest)" "j \<notin> set (next_groups s)" for j
    using pre that by (auto simp: pass_inv_def)
  have "sure ans cfg computed sts (max_hit_tokens c) j"
    if "\<not> deferred_flag s'" and a: "j \<in> set (live cfg) - set rest - set (next_groups s')" for j
    using e(5)
  proof (elim disjE conjE)
    note a = that
    assume same: "\<not> max_hit_tokens c - int computed < hit_tokens c" "next_groups s' = next_groups c"
        "deferred_flag s' = deferred_flag c"
    show ?thesis
    proof (cases "j = i")
      case True
      with me a same show ?thesis by simp
    next
      case False
      with a have j: "\<not> set (live cfg) \<subseteq> set (i # rest)" by auto
      with pre have "hit_tokens s = max_hit_tokens s - int computed" by (simp add: pass_inv_def)
      with same(1) c(4) cm have "max_hit_tokens c = max_hit_tokens s" by simp
      with old [of j] a same c(3) cd False show ?thesis by auto
    qed
  next
    assume "next_groups s' = filter (\<lambda>j. j \<notin> excluded c) (lookup_groups_of cfg)"
    with a show ?thesis by (auto simp: live_def c(1))
  next
    assume b: "\<not> deferred_flag c" "next_groups c = []"
        "next_groups s' = filter (\<lambda>j. j \<notin> excluded c) (sliding_groups cfg)"
    with a have "j \<notin> set (live_windows cfg)" by (simp add: live_windows_def c(1))
    with sure_mono [OF wf _ this _ cm] old [of j] me a b cd c(3) show ?thesis
      by (cases "j = i") auto
  next
    assume b: "\<not> deferred_flag c" "window_seen c \<longrightarrow> next_groups c \<noteq> []" "next_groups s' = next_groups c"
    show ?thesis
    proof (cases "j = i")
      case False
      have "j \<notin> set (live_windows cfg)"
        using pre a b False c live_windows_live [OF wf] by (auto simp: pass_inv_def)
      with sure_mono [OF wf _ this _ cm] old [of j] a b cd c(3) False show ?thesis by auto
    qed (use me b in simp)
  qed
  moreover have "next_groups s' = [] \<or> next_groups s' = live cfg \<or> next_groups s' = live_windows cfg"
    using e(5) pre c by (auto simp: pass_inv_def live_def live_windows_def)
  moreover have "\<not> window_seen s' \<Longrightarrow> set (live_windows cfg) \<subseteq> set rest"
  proof -
    assume "\<not> window_seen s'"
    then have "\<not> window_seen s" "sliding_window_size_in_chunks ?g = None" using e(4) c(2) by auto
    with pre have "set (live_windows cfg) \<subseteq> set (i # rest)" "i \<notin> set (live_windows cfg)"
      by (auto simp: pass_inv_def live_windows_def set_sliding_groups [OF wf])
    then show ?thesis by auto
  qed
  ultimately show ?thesis using e(1-3) c(1) by (auto simp: pass_inv_def)
qed

lemma pass_inv_pass:
  assumes st: "stable look ans" and wf: "groups_wf cfg sts"
  shows "set is \<subseteq> set (live cfg) \<Longrightarrow> pass_inv ans cfg computed sts is s \<Longrightarrow>
    group_pass look cfg ntok computed sts is s = Go s' \<Longrightarrow>
    pass_inv ans cfg computed sts [] s' \<and> (is \<noteq> [] \<longrightarrow> hit_tokens s' = max_hit_tokens s' - int computed)"
proof (induction "is" arbitrary: s)
  case (Cons i "is")
  then obtain s1 where s1: "group_turn look cfg ntok computed sts i s = Go s1"
    "group_pass look cfg ntok computed sts is s1 = Go s'"
    by (auto split: outcome.splits)
  have turn: "pass_inv ans cfg computed sts is s1 \<and> hit_tokens s1 = max_hit_tokens s1 - int computed"
    by (rule pass_inv_turn [OF st wf _ Cons.prems(2) s1(1)]) (use Cons.prems(1) in simp)
  with Cons.IH [OF _ _ s1(2)] Cons.prems(1) s1(2) show ?case by (cases "is") auto
qed simp

text \<open>Between two passes.\<close>

definition loop_inv ::
  "('k \<Rightarrow> lookup_result) \<Rightarrow> sched_config \<Rightarrow> nat \<Rightarrow> 'k group_state list \<Rightarrow> nat list \<Rightarrow> ('k, 'm) lookup_state \<Rightarrow> bool" where
  "loop_inv ans cfg computed sts gs s \<longleftrightarrow>
     excluded s = skipped cfg \<and> (gs = [] \<or> gs = live cfg \<or> gs = live_windows cfg)
     \<and> (hit_tokens s = max_hit_tokens s - int computed \<or> set (live cfg) \<subseteq> set gs)
     \<and> (\<not> deferred_flag s \<longrightarrow> (\<forall>i \<in> set (live cfg) - set gs. sure ans cfg computed sts (max_hit_tokens s) i))"

lemma loop_inv_step:
  assumes st: "stable look ans" and wf: "groups_wf cfg sts" and ne: "gs \<noteq> []"
    and inv: "loop_inv ans cfg computed sts gs s"
    and go: "group_pass look cfg ntok computed sts gs (s\<lparr> window_seen := False, next_groups := [] \<rparr>) = Go s1"
  shows "loop_inv ans cfg computed sts (next_groups s1) s1"
proof -
  have sub: "set gs \<subseteq> set (live cfg)" "set (live_windows cfg) \<subseteq> set gs"
    using inv ne live_windows_live [OF wf] by (auto simp: loop_inv_def)
  have "pass_inv ans cfg computed sts gs (s\<lparr> window_seen := False, next_groups := [] \<rparr>)"
    using inv sub by (simp add: loop_inv_def pass_inv_def)
  from pass_inv_pass [OF st wf sub(1) this go] ne show ?thesis
    by (auto simp: pass_inv_def loop_inv_def)
qed

lemma loop_inv_loop:
  assumes st: "stable look ans" and wf: "groups_wf cfg sts"
  shows "loop_inv ans cfg computed sts gs s \<Longrightarrow> lookup_loop look cfg ntok computed sts gs s = Go s' \<Longrightarrow>
    loop_inv ans cfg computed sts [] s'"
  using st wf
proof (induction look cfg ntok computed sts gs s rule: lookup_loop.induct)
  case (1 look cfg ntok computed sts gs s)
  show ?case
  proof (cases "gs = []")
    case True
    with "1.prems" show ?thesis by (simp add: lookup_loop.simps)
  next
    case False
    with "1.prems"(2) obtain s1 where
      s1: "group_pass look cfg ntok computed sts gs (s\<lparr> window_seen := False, next_groups := [] \<rparr>) = Go s1"
      "lookup_loop look cfg ntok computed sts (next_groups s1) s1 = Go s'"
      by (subst (asm) lookup_loop.simps) (auto split: outcome.splits)
    have "loop_inv ans cfg computed sts (next_groups s1) s1"
      by (rule loop_inv_step [OF "1.prems"(3,4) False "1.prems"(1) s1(1)])
    from "1.IH" [OF False s1(1) this s1(2) "1.prems"(3,4)] show ?thesis .
  qed
qed

lemma group_pass_max: "group_pass look cfg ntok computed sts is s = Go s' \<Longrightarrow> max_hit_tokens s' \<le> max_hit_tokens s"
proof (induction "is" arbitrary: s)
  case (Cons i "is")
  then show ?case
    by (auto split: outcome.splits dest!: group_turn_Go(1) intro: order_trans)
qed simp

lemma lookup_loop_max:
  "lookup_loop look cfg ntok computed sts gs s = Go s' \<Longrightarrow> max_hit_tokens s' \<le> max_hit_tokens s"
proof (induction look cfg ntok computed sts gs s rule: lookup_loop.induct)
  case (1 look cfg ntok computed sts gs s)
  show ?case
  proof (cases "gs = []")
    case True
    with "1.prems" show ?thesis by (simp add: lookup_loop.simps)
  next
    case False
    with "1.prems" obtain s1 where
      s1: "group_pass look cfg ntok computed sts gs (s\<lparr> window_seen := False, next_groups := [] \<rparr>) = Go s1"
      "lookup_loop look cfg ntok computed sts (next_groups s1) s1 = Go s'"
      by (subst (asm) lookup_loop.simps) (auto split: outcome.splits)
    from group_pass_max [OF s1(1)] "1.IH" [OF False s1(1) s1(2)] show ?thesis by simp
  qed
qed

lemma window_sizes_pos:
  "window_sizes bpc xs = Some sws \<Longrightarrow> 0 < bpc \<Longrightarrow> \<forall>(tpb, g) \<in> set xs. 0 < tpb \<Longrightarrow> Some 0 \<notin> set sws"
proof (induction bpc xs arbitrary: sws rule: window_sizes.induct)
  case (2 bpc tpb g gs)
  then obtain sw sws' where sw: "get_sliding_window_size_in_chunks (kv_cache_spec g) (tpb * bpc) = Some sw"
    "window_sizes bpc gs = Some sws'" "sws = sw # sws'"
    by (auto split: option.splits)
  have "sw \<noteq> Some 0"
  proof
    assume "sw = Some 0"
    with sw(1) have "\<exists>w > 0. cdiv w (tpb * bpc) = 0"
      by (cases "kv_cache_spec g") (auto split: if_splits)
    moreover have "0 < tpb * bpc" using 2(3,4) by simp
    ultimately show False using cdiv_pos by (metis less_numeral_extra(3))
  qed
  with sw 2 show ?case by auto
qed simp

lemma window_sizes_length: "window_sizes bpc xs = Some sws \<Longrightarrow> length sws = length xs"
  by (induction bpc xs arbitrary: sws rule: window_sizes.induct) (auto split: option.splits)

text \<open>What \<open>from_spec\<close> builds is well formed.\<close>

lemma from_spec_wf:
  assumes spec: "from_spec spec v groups = Some cfg" and pos: "0 < spec_blocks_per_chunk spec"
    "\<forall>t \<in> set (spec_tokens_per_block spec). 0 < t" and len: "length sts = length (kv_group_configs cfg)"
  shows "groups_wf cfg sts"
proof -
  let ?tpbs = "spec_tokens_per_block spec" and ?bpc = "spec_blocks_per_chunk spec"
  from spec obtain sws where sws: "window_sizes ?bpc (zip ?tpbs groups) = Some sws"
    and ge: "length ?tpbs \<le> length groups"
    by (auto simp: from_spec_def Let_def split: if_splits option.splits)
  have l: "length sws = length ?tpbs" using window_sizes_length [OF sws] ge by simp
  have z: "Some 0 \<notin> set sws"
    by (rule window_sizes_pos [OF sws pos(1)]) (use pos(2) in \<open>auto dest: set_zip_leftD\<close>)
  define align where "align = alignment_tokens (zip (map (\<lambda>tpb. tpb * ?bpc) ?tpbs) sws)"
  define dspark where "dspark = (case speculative v of None \<Rightarrow> False | Some (e, d) \<Rightarrow> d)"
  define eagles where "eagles = eagle_groups v groups"
  from spec sws ge have
    gs: "kv_group_configs cfg = map (make_group spec align dspark eagles) (zip [0..<length ?tpbs] (zip ?tpbs sws))"
    by (auto simp: from_spec_def Let_def align_def dspark_def eagles_def)
  have "group_idx g = i \<and> 0 < tokens_per_chunk g \<and> sliding_window_size_in_chunks g \<noteq> Some 0
      \<and> (eagle_group_is_veto_exempt g \<longrightarrow> skip_external_reuse g)"
    if i: "i < length (kv_group_configs cfg)" and g: "g = kv_group_configs cfg ! i" for i g
  proof -
    have "i < length ?tpbs" using i l by (simp add: gs)
    then have "g = make_group spec align dspark eagles (i, ?tpbs ! i, sws ! i)" "sws ! i \<noteq> Some 0" "0 < ?tpbs ! i"
      using l z pos(2) by (auto simp: g gs) (metis nth_mem)
    with pos(1) show ?thesis by (simp add: make_group_def)
  qed
  with len show ?thesis by (simp add: groups_wf_def Let_def)
qed

lemma skipped_iff:
  assumes "groups_wf cfg sts" "i < length (kv_group_configs cfg)"
  shows "i \<in> skipped cfg \<longleftrightarrow> skip_external_reuse (kv_group_configs cfg ! i)"
proof
  assume "i \<in> skipped cfg"
  then obtain g where g: "g \<in> set (kv_group_configs cfg)" "skip_external_reuse g" "group_idx g = i"
    by (auto simp: skipped_def)
  then obtain j where "j < length (kv_group_configs cfg)" "g = kv_group_configs cfg ! j"
    by (auto simp: in_set_conv_nth)
  with g groups_wfD(1) [OF assms(1)] show "skip_external_reuse (kv_group_configs cfg ! i)" by auto
next
  assume s: "skip_external_reuse (kv_group_configs cfg ! i)"
  show "i \<in> skipped cfg"
    unfolding skipped_def
    by (rule image_eqI [where x = "kv_group_configs cfg ! i"])
      (use s assms groups_wfD(1) [OF assms] in auto)
qed

lemma confirmed_hit_keys:
  assumes "confirmed ans computed (int computed + n) g keys" "0 \<le> n" "sliding_window_size_in_chunks g \<noteq> Some 0"
  shows "cdiv (computed + nat n) (tokens_per_chunk g) \<le> length keys"
    "set (hit_keys computed n g keys) \<subseteq> {k. ans k = HIT}"
proof -
  let ?t = "tokens_per_chunk g"
  let ?e = "cdiv (computed + nat n) ?t" and ?s = "computed div tokens_per_chunk g"
  have N: "nat (int computed + n) = computed + nat n" using assms(2) by simp
  from assms(1) show e: "?e \<le> length keys" by (simp add: confirmed_def Let_def N)
  show "set (hit_keys computed n g keys) \<subseteq> {k. ans k = HIT}"
  proof (cases "sliding_window_size_in_chunks g")
    case None
    with assms(1) e show ?thesis
      by (auto simp: confirmed_def Let_def N hit_keys_def in_set_conv_nth)
  next
    case (Some w)
    with assms(3) have "w \<noteq> 0" by simp
    have "hit_keys computed n g keys = drop (max ?s (?e - w)) (take ?e keys)"
    proof -
      have "a + (b - a - c) = max a (b - c)" for a b c :: nat 
        by (simp add: diff_commute [of b a c] nat_minus_add_max add.commute [of a] max.commute)
      then have "?s + (?e - ?s - w) = max ?s (?e - w)" .
      with Some e \<open>w \<noteq> 0\<close> show ?thesis by (simp add: hit_keys_def Let_def min_absorb1 add.commute)
    qed
    moreover have tail: "set (drop m (take ?e keys)) \<subseteq> {k. ans k = HIT}"
      if "\<And>j. m \<le> j \<Longrightarrow> j < ?e \<Longrightarrow> ans (keys ! j) = HIT" for m
    proof
      fix k assume "k \<in> set (drop m (take ?e keys))"
      then obtain i where "i < ?e - m" "k = keys ! (m + i)" using e by (auto simp: in_set_conv_nth)
      with that [of "m + i"] show "k \<in> {k. ans k = HIT}" by simp
    qed
    moreover have "set (drop (max ?s (?e - w)) (take ?e keys)) \<subseteq> {k. ans k = HIT}"
      by (rule tail) (use Some assms(1) in \<open>simp add: confirmed_def Let_def N\<close>)
    ultimately show ?thesis by simp
  qed
qed

lemma start_lookup_max:
  assumes "mamba \<noteq> Some 0"
  shows "max_hit_tokens (start_lookup cfg mamba ntok m) \<le> int ntok"
proof -
  have "round_down (int ntok - 1) a \<le> int ntok - 1" if "a \<noteq> 0" for a
  proof -
    have "0 \<le> (int ntok - 1) mod int a" using that by simp
    then show ?thesis unfolding round_down_def minus_mod_eq_div_mult [symmetric] by linarith
  qed
  note this [THEN order_trans, of _ "int ntok"]
  with assms show ?thesis
    by (cases "sliding_groups cfg = []"; cases mamba) (simp_all add: start_lookup_def Let_def)
qed

lemma external_hit_sound:
  assumes "stable look ans" "from_spec spec v groups = Some cfg"
    and "0 < spec_blocks_per_chunk spec" "\<forall>t \<in> set (spec_tokens_per_block spec). 0 < t"
    and "length sts = length (kv_group_configs cfg)"
    and "lookup_request look cfg mamba loading ntok computed sts m = Some (Some n, ex, s)" "0 < n"
    and "mamba \<noteq> Some 0"
  shows "int computed + n \<le> int ntok \<and>
    (\<forall>i < length (kv_group_configs cfg). (i \<in> ex \<longleftrightarrow> skip_external_reuse (kv_group_configs cfg ! i)) \<and>
       (i \<notin> ex \<longrightarrow>
         cdiv (computed + nat n) (tokens_per_chunk (kv_group_configs cfg ! i)) \<le> length (offload_keys (sts ! i)) \<and>
         set (hit_keys computed n (kv_group_configs cfg ! i) (offload_keys (sts ! i))) \<subseteq> {k. ans k = HIT}))"
proof -
  have wf: "groups_wf cfg sts" by (rule from_spec_wf [OF assms(2-5)])
  let ?s0 = "start_lookup cfg mamba ntok m"
  have ex0: "excluded ?s0 = skipped cfg" by (simp add: start_lookup_def Let_def skipped_def)
  have l0: "filter (\<lambda>i. i \<notin> excluded ?s0) (lookup_groups_of cfg) = live cfg" by (simp add: live_def ex0)
  from assms(6,7) have loop: "lookup_loop look cfg ntok computed sts (live cfg) ?s0 = Go s"
    and res: "\<not> deferred_flag s" "n = hit_tokens s" "ex = excluded s"
    by (auto simp: lookup_request_def Let_def l0 [unfolded ex0] ex0 split: outcome.splits if_splits)
  have "loop_inv ans cfg computed sts (live cfg) ?s0" by (simp add: loop_inv_def ex0)
  from loop_inv_loop [OF assms(1) wf this loop] have inv: "loop_inv ans cfg computed sts [] s" .
  have ne: "live cfg \<noteq> []"
  proof
    assume "live cfg = []"
    with loop have "s = ?s0" by (simp add: lookup_loop.simps)
    with res(2) assms(7) show False by (simp add: start_lookup_def Let_def)
  qed
  with inv have hit: "n = max_hit_tokens s - int computed" by (simp add: loop_inv_def res(2))
  from lookup_loop_max [OF loop] start_lookup_max [OF assms(8)]
  have "max_hit_tokens s \<le> int ntok" by (rule order_trans)
  then have "int computed + n \<le> int ntok" by (simp add: hit)
  moreover have "(i \<in> ex \<longleftrightarrow> skip_external_reuse (kv_group_configs cfg ! i)) \<and>
       (i \<notin> ex \<longrightarrow>
         cdiv (computed + nat n) (tokens_per_chunk (kv_group_configs cfg ! i)) \<le> length (offload_keys (sts ! i)) \<and>
         set (hit_keys computed n (kv_group_configs cfg ! i) (offload_keys (sts ! i))) \<subseteq> {k. ans k = HIT})"
    if i: "i < length (kv_group_configs cfg)" for i
  proof (intro conjI impI)
    have ex: "ex = skipped cfg" using inv by (simp add: loop_inv_def res(3))
    then show "i \<in> ex \<longleftrightarrow> skip_external_reuse (kv_group_configs cfg ! i)" using skipped_iff [OF wf i] by simp
    assume "i \<notin> ex"
    then have "i \<in> set (live cfg)" using i ex by (simp add: live_def set_lookup_groups [OF wf])
    with inv res(1) have "sure ans cfg computed sts (int computed + n) i" by (simp add: loop_inv_def hit)
    with confirmed_hit_keys [OF this] assms(7) groups_wfD(3) [OF wf i] show
      "cdiv (computed + nat n) (tokens_per_chunk (kv_group_configs cfg ! i)) \<le> length (offload_keys (sts ! i))"
      "set (hit_keys computed n (kv_group_configs cfg ! i) (offload_keys (sts ! i))) \<subseteq> {k. ans k = HIT}" by simp_all
  qed
  ultimately show ?thesis by blast
qed


text \<open>A full-attention group and a window of one chunk; the last key of the second is missing.\<close>

definition demo_spec :: offload_spec where
  "demo_spec = \<lparr> spec_tokens_per_block = [2, 2], spec_blocks_per_chunk = 1, spec_tokens_per_hash = 2,
     spec_offload_prompt_only = False \<rparr>"

definition demo_groups :: "kv_group list" where
  "demo_groups = [\<lparr> kv_cache_spec = FullAttentionSpec, group_is_eagle = False \<rparr>,
     \<lparr> kv_cache_spec = SlidingWindowSpec 2, group_is_eagle = False \<rparr>]"

definition demo_cfg :: sched_config where
  "demo_cfg = the (from_spec demo_spec \<lparr> speculative = None, world_size = 1 \<rparr> demo_groups)"

definition demo_states :: "nat group_state list" where
  "demo_states = [new_group_state\<lparr> offload_keys := [10, 11, 12] \<rparr>, new_group_state\<lparr> offload_keys := [20, 21, 22] \<rparr>]"

definition demo_ans :: "nat \<Rightarrow> lookup_result" where
  "demo_ans k = (if k = 22 then MISS else HIT)"

definition demo_run :: "(int option \<times> nat set \<times> (nat, unit) lookup_state) option" where
  "demo_run = lookup_request (\<lambda>k m. (demo_ans k, m)) demo_cfg None None 7 0 demo_states ()"

lemma demo_cfg_eval:
  "from_spec demo_spec \<lparr> speculative = None, world_size = 1 \<rparr> demo_groups = Some demo_cfg"
  "kv_group_configs demo_cfg =
     [\<lparr> group_idx = 0, tokens_per_block = 2, tokens_per_chunk = 2, hashes_per_chunk = 1,
        sliding_window_size_in_chunks = None, alignment_chunk_count = None, is_eagle_group = False,
        eagle_group_is_veto_exempt = False, skip_external_reuse = False \<rparr>,
      \<lparr> group_idx = 1, tokens_per_block = 2, tokens_per_chunk = 2, hashes_per_chunk = 1,
        sliding_window_size_in_chunks = Some 1, alignment_chunk_count = None, is_eagle_group = False,
        eagle_group_is_veto_exempt = False, skip_external_reuse = False \<rparr>]"
  by (simp_all add: demo_cfg_def demo_spec_def demo_groups_def from_spec_def make_group_def Let_def
      alignment_tokens_def alignment_count_def eagle_groups_def cdiv_def Set.filter_eq upt_rec)

lemma demo_loading: "sliding_groups demo_cfg = [1]" "lookup_groups_of demo_cfg = [0, 1]"
  by (simp_all add: sliding_groups_def lookup_groups_of_def demo_cfg_eval)

lemma window_scan_numeral:
  "window_scan look w keys (numeral v) d streak m =
     (case look (keys ! pred_numeral v) m of (r, m1) \<Rightarrow>
        let d' = (d \<or> r = HIT_PENDING \<or> r = RETRY);
            streak' = (if r = HIT \<or> r = HIT_PENDING then streak + 1 else 0)
        in if streak' = w then (if d' then None else Some (pred_numeral v + w), m1)
           else window_scan look w keys (pred_numeral v) d' streak' m1)"
  by (simp add: numeral_eq_Suc Let_def)

lemma demo_run_eval: "\<exists>s. demo_run = Some (Some 4, {}, s)"
  by (simp add: demo_run_def lookup_request_def start_lookup_def demo_loading demo_cfg_eval demo_states_def
      lookup_loop.simps group_turn_def ask_group_def group_query_def maximal_prefix_lookup_def
      sliding_window_lookup_def confirm_hits_def settle_def schedule_pass_def Let_def demo_ans_def
      cdiv_def new_group_state_def window_scan_numeral)


end
