(* ===== verification/OffloadLedger.thy ===== *)
theory OffloadLedger
  imports OffloadJobs OffloadLookupProps
begin

text \<open>
  The ledger invariant of the offloading scheduler: jobs, requests and watched blocks refer to
  each other exactly, a load is alone in its request, and the keys of a request are those of its
  block hashes.
\<close>

section \<open>Well-formed configurations\<close>

definition group_ok :: "nat \<Rightarrow> nat \<Rightarrow> group_config \<Rightarrow> bool" where
  "group_ok bpc i g \<longleftrightarrow> group_idx g = i \<and> 0 < tokens_per_block g \<and> tokens_per_chunk g = tokens_per_block g * bpc
     \<and> 0 < hashes_per_chunk g \<and> sliding_window_size_in_chunks g \<noteq> Some 0
     \<and> (eagle_group_is_veto_exempt g \<longleftrightarrow> skip_external_reuse g) \<and> (skip_external_reuse g \<longrightarrow> is_eagle_group g)
     \<and> (case alignment_chunk_count g of None \<Rightarrow> True
        | Some a \<Rightarrow> (\<exists>w. sliding_window_size_in_chunks g = Some w \<and> w < a))"

definition config_ok :: "sched_config \<Rightarrow> bool" where
  "config_ok cfg \<longleftrightarrow> 0 < blocks_per_chunk cfg \<and> 0 < num_workers cfg
     \<and> (\<forall>i < length (kv_group_configs cfg). group_ok (blocks_per_chunk cfg) i (kv_group_configs cfg ! i))"

lemma config_okD:
  assumes "config_ok cfg" "i < length (kv_group_configs cfg)"
  shows "group_ok (blocks_per_chunk cfg) i (kv_group_configs cfg ! i)"
  using assms by (simp add: config_ok_def)

lemma config_ok_pos [simp]: "config_ok cfg \<Longrightarrow> 0 < blocks_per_chunk cfg" "config_ok cfg \<Longrightarrow> 0 < num_workers cfg"
  by (simp_all add: config_ok_def)

lemma config_ok_groups_wf:
  assumes "config_ok cfg" "length sts = length (kv_group_configs cfg)"
  shows "groups_wf cfg sts"
  unfolding groups_wf_def Let_def
  using assms config_okD [OF assms(1)] by (simp add: group_ok_def)

section \<open>The keys of a request\<close>

abbreviation keys_of :: "'k group_state list \<Rightarrow> 'k list list" where
  "keys_of sts \<equiv> map offload_keys sts"

definition keys_from ::
  "('h, 'k, 's, 'm) externals \<Rightarrow> sched_config \<Rightarrow> 'h list \<Rightarrow> 'k group_state list \<Rightarrow> bool" where
  "keys_from ext cfg hs sts \<longleftrightarrow> keys_of sts = map (\<lambda>g. all_keys (make_key ext) g hs) (kv_group_configs cfg)"

lemma keys_from_length: "keys_from ext cfg hs sts \<Longrightarrow> length sts = length (kv_group_configs cfg)"
  unfolding keys_from_def by (metis length_map)

lemma keys_from_nth:
  assumes "keys_from ext cfg hs sts" "i < length (kv_group_configs cfg)"
  shows "offload_keys (sts ! i) = all_keys (make_key ext) (kv_group_configs cfg ! i) hs"
  using assms keys_from_length [OF assms(1)] unfolding keys_from_def by (metis nth_map)

lemma update_offload_keys_from:
  assumes cfg: "config_ok cfg" and old: "keys_from ext cfg hs sts" and pre: "prefix hs (block_hashes r)"
  shows "keys_from ext cfg (block_hashes r) (update_offload_keys (make_key ext) cfg r sts)"
  unfolding keys_from_def
proof (rule nth_equalityI)
  note len = keys_from_length [OF old]
  then show "length (keys_of (update_offload_keys (make_key ext) cfg r sts))
      = length (map (\<lambda>g. all_keys (make_key ext) g (block_hashes r)) (kv_group_configs cfg))"
    by (simp add: update_offload_keys_def)
  fix i assume "i < length (keys_of (update_offload_keys (make_key ext) cfg r sts))"
  then have i: "i < length (kv_group_configs cfg)" using len by (simp add: update_offload_keys_def)
  have "0 < hashes_per_chunk (kv_group_configs cfg ! i)" using config_okD [OF cfg i] by (simp add: group_ok_def)
  from update_group_keys_all [OF this keys_from_nth [OF old i] pre] i len
  show "keys_of (update_offload_keys (make_key ext) cfg r sts) ! i
      = map (\<lambda>g. all_keys (make_key ext) g (block_hashes r)) (kv_group_configs cfg) ! i"
    by (simp add: update_offload_keys_def)
qed

text \<open>The engine hashes every full block of the tokens of a request.\<close>

definition request_fits :: "sched_config \<Rightarrow> 'h request \<Rightarrow> bool" where
  "request_fits cfg r \<longleftrightarrow> (\<forall>i < length (kv_group_configs cfg).
     num_tokens r div tokens_per_chunk (kv_group_configs cfg ! i)
       \<le> length (block_hashes r) div hashes_per_chunk (kv_group_configs cfg ! i))"

section \<open>The invariant\<close>

definition idle :: "('h, 'k) req_state \<Rightarrow> bool" where
  "idle rs \<longleftrightarrow> (\<forall>st \<in> set (group_states rs). block_ids st = [])"

definition stores_only :: "('h, 'k, 's, 'm) sched \<Rightarrow> ('h, 'k) req_state \<Rightarrow> bool" where
  "stores_only s rs \<longleftrightarrow> (\<forall>j \<in> transfer_jobs rs. \<exists>js. map_of (jobs s) j = Some js \<and> is_store js)"

definition req_wf ::
  "('h, 'k, 's, 'm) externals \<Rightarrow> sched_config \<Rightarrow> req_id \<Rightarrow> ('h, 'k) req_state \<Rightarrow> bool" where
  "req_wf ext cfg r rs \<longleftrightarrow> request_id (req rs) = r \<and> request_fits cfg (req rs) \<and> finite (transfer_jobs rs)
     \<and> (\<exists>hs. prefix hs (block_hashes (req rs)) \<and> keys_from ext cfg hs (group_states rs))
     \<and> (is_finished (req rs) \<longrightarrow> keys_from ext cfg (block_hashes (req rs)) (group_states rs))
     \<and> (finished_signaled rs \<longrightarrow> is_finished (req rs) \<and> transfer_jobs rs \<noteq> {})"

definition req_jobs :: "('h, 'k, 's, 'm) sched \<Rightarrow> req_id \<Rightarrow> ('h, 'k) req_state \<Rightarrow> bool" where
  "req_jobs s r rs \<longleftrightarrow> (\<forall>j \<in> transfer_jobs rs. \<exists>js. map_of (jobs s) j = Some js \<and> job_req js = r)
     \<and> (stores_only s rs \<or> (\<exists>j. transfer_jobs rs = {j}) \<and> idle rs)"

definition job_ok :: "('h, 'k, 's, 'm) sched \<Rightarrow> nat \<Rightarrow> 'k job_status \<Rightarrow> bool" where
  "job_ok s j js \<longleftrightarrow> stale_job_threshold s \<le> j \<and> j < job_counter s
     \<and> 0 < pending_count js \<and> pending_count js \<le> int (num_workers (config s))
     \<and> distinct (sliding_block_ids js @ non_sliding_block_ids js)
     \<and> (\<not> is_store js \<longrightarrow> sliding_block_ids js = [] \<and> non_sliding_block_ids js = [])
     \<and> (\<exists>rs. map_of (req_status s) (job_req js) = Some rs \<and> j \<in> transfer_jobs rs)"

text \<open>The jobs that watch a block: sliding blocks at once, the others once the request is finished.\<close>

definition watchers :: "('h, 'k, 's, 'm) sched \<Rightarrow> nat \<Rightarrow> nat set" where
  "watchers s b = {j. \<exists>js rs. map_of (jobs s) j = Some js \<and> map_of (req_status s) (job_req js) = Some rs
     \<and> (b \<in> set (sliding_block_ids js) \<or> b \<in> set (non_sliding_block_ids js) \<and> is_finished (req rs))}"

definition load_keys_of :: "('h, 'k, 's, 'm) sched \<Rightarrow> 'k set" where
  "load_keys_of s = \<Union> {job_keys js | j js. map_of (jobs s) j = Some js \<and> \<not> is_store js}"

definition watch_ok :: "(nat \<Rightarrow> nat set) \<Rightarrow> (nat, nat set) dict \<Rightarrow> bool" where
  "watch_ok w d \<longleftrightarrow> dict_ok d \<and> (\<forall>b. map_of d b = (if w b = {} then None else Some (w b)))"

definition ledger :: "('h, 'k, 's, 'm) externals \<Rightarrow> ('h, 'k, 's, 'm) sched \<Rightarrow> bool" where
  "ledger ext s \<longleftrightarrow> config_ok (config s) \<and> dict_ok (req_status s) \<and> dict_ok (jobs s)
     \<and> stale_job_threshold s \<le> job_counter s
     \<and> (\<forall>j js. map_of (jobs s) j = Some js \<longrightarrow> job_ok s j js)
     \<and> (\<forall>r rs. map_of (req_status s) r = Some rs \<longrightarrow> req_wf ext (config s) r rs \<and> req_jobs s r rs)
     \<and> watch_ok (watchers s) (pending_jobs s)
     \<and> (\<forall>l. chunks_being_loaded s = Some l \<longrightarrow> l \<subseteq> load_keys_of s)"

lemma ledgerD:
  assumes "ledger ext s"
  shows "config_ok (config s)" "dict_ok (req_status s)" "dict_ok (jobs s)" "stale_job_threshold s \<le> job_counter s"
    and "\<And>j js. map_of (jobs s) j = Some js \<Longrightarrow> job_ok s j js"
    and "\<And>r rs. map_of (req_status s) r = Some rs \<Longrightarrow> req_wf ext (config s) r rs"
    and "\<And>r rs. map_of (req_status s) r = Some rs \<Longrightarrow> req_jobs s r rs"
    and "watch_ok (watchers s) (pending_jobs s)"
    and "\<And>l. chunks_being_loaded s = Some l \<Longrightarrow> l \<subseteq> load_keys_of s"
  using assms by (simp_all add: ledger_def)

text \<open>Steps that change requests without touching their jobs.\<close>

definition req_step ::
  "('h, 'k, 's, 'm) externals \<Rightarrow> ('h, 'k, 's, 'm) sched \<Rightarrow> req_id \<Rightarrow> ('h, 'k) req_state \<Rightarrow> ('h, 'k) req_state \<Rightarrow> bool" where
  "req_step ext s r rs rs' \<longleftrightarrow> transfer_jobs rs' = transfer_jobs rs \<and> is_finished (req rs') = is_finished (req rs)
     \<and> req_wf ext (config s) r rs' \<and> (stores_only s rs \<or> (idle rs \<longrightarrow> idle rs'))"

lemma ledger_frame:
  assumes inv: "ledger ext s"
    and same: "config s' = config s" "jobs s' = jobs s" "pending_jobs s' = pending_jobs s"
      "job_counter s' = job_counter s" "stale_job_threshold s' = stale_job_threshold s"
      "chunks_being_loaded s' = chunks_being_loaded s"
    and dict: "dict_ok (req_status s')"
    and dom: "\<And>r. map_of (req_status s') r = None \<longleftrightarrow> map_of (req_status s) r = None"
    and steps: "\<And>r rs rs'. map_of (req_status s) r = Some rs \<Longrightarrow> map_of (req_status s') r = Some rs' \<Longrightarrow> req_step ext s r rs rs'"
  shows "ledger ext s'"
proof -
  have fwd: "\<exists>rs'. map_of (req_status s') r = Some rs' \<and> req_step ext s r rs rs'"
    if "map_of (req_status s) r = Some rs" for r rs
    using that dom [of r] steps [of r] by (cases "map_of (req_status s') r") auto
  have bwd: "\<exists>rs. map_of (req_status s) r = Some rs \<and> req_step ext s r rs rs'"
    if "map_of (req_status s') r = Some rs'" for r rs'
    using that dom [of r] steps [of r] by (cases "map_of (req_status s) r") auto
  have "job_ok s' j js" if "map_of (jobs s') j = Some js" for j js
    using ledgerD(5) [OF inv, of j js] that fwd
    by (fastforce simp: job_ok_def same req_step_def)
  moreover have "req_wf ext (config s') r rs' \<and> req_jobs s' r rs'" if r': "map_of (req_status s') r = Some rs'" for r rs'
  proof -
    from bwd [OF r'] obtain rs where rs: "map_of (req_status s) r = Some rs" "req_step ext s r rs rs'" by blast
    from ledgerD(7) [OF inv rs(1)] rs(2) show ?thesis
      by (auto simp: req_step_def req_jobs_def stores_only_def same)
  qed
  moreover have "watchers s' = watchers s"
  proof (intro ext set_eqI iffI)
    fix b j
    { assume "j \<in> watchers s' b"
      then show "j \<in> watchers s b" using bwd by (fastforce simp: watchers_def same req_step_def) }
    { assume "j \<in> watchers s b"
      then show "j \<in> watchers s' b" using fwd by (fastforce simp: watchers_def same req_step_def) }
  qed
  moreover have "load_keys_of s' = load_keys_of s" by (simp add: load_keys_of_def same)
  ultimately show ?thesis
    using inv dict by (simp add: ledger_def same)
qed

lemma ledger_put:
  assumes "ledger ext s" "map_of (req_status s) r = Some rs" "req_step ext s r rs rs'"
    and "config s' = config s" "jobs s' = jobs s" "pending_jobs s' = pending_jobs s"
      "job_counter s' = job_counter s" "stale_job_threshold s' = stale_job_threshold s"
      "chunks_being_loaded s' = chunks_being_loaded s" "req_status s' = dput r rs' (req_status s)"
  shows "ledger ext s'"
proof (rule ledger_frame [OF assms(1,4-9)])
  show "dict_ok (req_status s')" using ledgerD(2) [OF assms(1)] by (simp add: assms(10))
  show "map_of (req_status s') q = None \<longleftrightarrow> map_of (req_status s) q = None" for q
    using assms(2) by (simp add: assms(10))
  show "req_step ext s q a b" if "map_of (req_status s) q = Some a" "map_of (req_status s') q = Some b" for q a b
  proof (cases "q = r")
    case True
    with that assms(2,3) show ?thesis by (simp add: assms(10))
  next
    case False
    with that ledgerD(6) [OF assms(1) that(1)] show ?thesis by (simp add: assms(10) req_step_def)
  qed
qed

lemma ledger_same:
  assumes "ledger ext s"
    and "config s' = config s" "jobs s' = jobs s" "pending_jobs s' = pending_jobs s"
      "job_counter s' = job_counter s" "stale_job_threshold s' = stale_job_threshold s"
      "chunks_being_loaded s' = chunks_being_loaded s" "req_status s' = req_status s"
  shows "ledger ext s'"
  by (rule ledger_frame [OF assms(1-7)])
    (use assms(8) ledgerD(2,6) [OF assms(1)] in \<open>auto simp: req_step_def\<close>)

section \<open>Adding a request and a job\<close>

lemma job_known: "ledger ext s \<Longrightarrow> map_of (jobs s) j = Some js \<Longrightarrow> map_of (req_status s) (job_req js) \<noteq> None"
  using ledgerD(5) by (fastforce simp: job_ok_def)

lemma fresh_job: "ledger ext s \<Longrightarrow> map_of (jobs s) (job_counter s) = None"
  using ledgerD(5) by (cases "map_of (jobs s) (job_counter s)") (fastforce simp: job_ok_def)+

lemma ledger_add_request:
  assumes inv: "ledger ext s" and new: "map_of (req_status s) r = None"
    and wf: "req_wf ext (config s) r rs" "transfer_jobs rs = {}"
    and same: "config s' = config s" "jobs s' = jobs s" "pending_jobs s' = pending_jobs s"
      "job_counter s' = job_counter s" "stale_job_threshold s' = stale_job_threshold s"
      "chunks_being_loaded s' = chunks_being_loaded s" "req_status s' = dput r rs (req_status s)"
  shows "ledger ext s'"
proof -
  have known: "job_req js \<noteq> r" if "map_of (jobs s) j = Some js" for j js
    using job_known [OF inv that] new by auto
  have "job_ok s' j js" if "map_of (jobs s') j = Some js" for j js
    using ledgerD(5) [OF inv, of j js] that known [of j js] by (simp add: job_ok_def same)
  moreover have "req_wf ext (config s') q a \<and> req_jobs s' q a" if "map_of (req_status s') q = Some a" for q a
    using ledgerD(6,7) [OF inv, of q a] that wf
    by (auto simp: same req_jobs_def stores_only_def split: if_splits)
  moreover have "watchers s' = watchers s"
    using known by (fastforce simp: watchers_def same intro!: ext)
  moreover have "load_keys_of s' = load_keys_of s" by (simp add: load_keys_of_def same)
  ultimately show ?thesis
    using inv by (simp add: ledger_def same)
qed

definition watches :: "'k job_status \<Rightarrow> bool \<Rightarrow> nat \<Rightarrow> bool" where
  "watches js finished b \<longleftrightarrow> b \<in> set (sliding_block_ids js) \<or> finished \<and> b \<in> set (non_sliding_block_ids js)"

lemma ledger_add_job:
  assumes inv: "ledger ext s" and rs: "map_of (req_status s) r = Some rs"
    and wf: "req_wf ext (config s) r rs'" "transfer_jobs rs' = insert (job_counter s) (transfer_jobs rs)"
      "is_finished (req rs') = is_finished (req rs)"
    and js: "job_req js = r" "pending_count js = int (num_workers (config s))"
      "distinct (sliding_block_ids js @ non_sliding_block_ids js)"
    and kind: "if is_store js then stores_only s rs
      else transfer_jobs rs = {} \<and> idle rs' \<and> sliding_block_ids js = [] \<and> non_sliding_block_ids js = []"
    and same: "config s' = config s" "stale_job_threshold s' = stale_job_threshold s"
      "job_counter s' = job_counter s + 1" "jobs s' = dput (job_counter s) js (jobs s)"
      "req_status s' = dput r rs' (req_status s)"
    and watch: "watch_ok (\<lambda>b. watchers s b \<union> (if watches js (is_finished (req rs)) b then {job_counter s} else {})) (pending_jobs s')"
    and load: "\<And>l. chunks_being_loaded s' = Some l \<Longrightarrow> l \<subseteq> load_keys_of s \<union> (if is_store js then {} else job_keys js)"
  shows "ledger ext s'"
proof -
  let ?j = "job_counter s"
  note fresh = fresh_job [OF inv]
  have old: "i \<noteq> ?j" if "map_of (jobs s) i = Some a" for i a using that fresh by auto
  have "job_ok s' i a" if a: "map_of (jobs s') i = Some a" for i a
  proof (cases "i = ?j")
    case True
    with a have "a = js" by (simp add: same)
    with True kind js wf ledgerD(1,4) [OF inv] show ?thesis
      by (auto simp: job_ok_def same split: if_splits)
  next
    case False
    with a ledgerD(5) [OF inv, of i a] rs wf(2) show ?thesis by (auto simp: job_ok_def same)
  qed
  moreover have "req_wf ext (config s') q a \<and> req_jobs s' q a" if a: "map_of (req_status s') q = Some a" for q a
  proof (cases "q = r")
    case True
    with a have [simp]: "a = rs'" by (simp add: same)
    have "\<exists>b. map_of (jobs s) i = Some b \<and> job_req b = r" if "i \<in> transfer_jobs rs" for i
      using ledgerD(7) [OF inv rs] that by (simp add: req_jobs_def)
    with old have owned: "\<forall>i \<in> transfer_jobs rs'. \<exists>b. map_of (jobs s') i = Some b \<and> job_req b = r"
      using js(1) by (fastforce simp: wf(2) same)
    have "stores_only s' rs' \<or> (\<exists>i. transfer_jobs rs' = {i}) \<and> idle rs'"
    proof (cases "is_store js")
      case True
      with kind have "stores_only s rs" by simp
      with True old have "stores_only s' rs'" by (fastforce simp: stores_only_def wf(2) same)
      then show ?thesis ..
    next
      case False
      with kind wf(2) show ?thesis by auto
    qed
    with owned True wf(1) show ?thesis by (simp add: req_jobs_def same)
  next
    case False
    with a have a': "map_of (req_status s) q = Some a" by (simp add: same)
    have "stores_only s' a" if "stores_only s a" using that old by (fastforce simp: stores_only_def same)
    with ledgerD(7) [OF inv a'] old have "req_jobs s' q a" by (fastforce simp: req_jobs_def same)
    with ledgerD(6) [OF inv a'] show ?thesis by (simp add: same)
  qed
  moreover have "watchers s' = (\<lambda>b. watchers s b \<union> (if watches js (is_finished (req rs)) b then {?j} else {}))"
  proof (intro ext set_eqI)
    fix b i
    show "i \<in> watchers s' b \<longleftrightarrow> i \<in> watchers s b \<union> (if watches js (is_finished (req rs)) b then {?j} else {})"
    proof (cases "i = ?j")
      case True
      with fresh js wf(3) show ?thesis by (auto simp: watchers_def same watches_def)
    next
      case False
      then have "map_of (jobs s') i = map_of (jobs s) i" by (simp add: same)
      with False rs wf(3) show ?thesis by (auto simp: watchers_def same split: if_splits)
    qed
  qed
  moreover have "load_keys_of s' = load_keys_of s \<union> (if is_store js then {} else job_keys js)"
    using fresh by (auto simp: load_keys_of_def same split: if_splits) (metis option.distinct(1))+
  ultimately show ?thesis
    using inv watch load ledgerD(2,3,4) [OF inv] by (simp add: ledger_def same(1-3)) (simp add: same)
qed

section \<open>Removing a request and a job\<close>

lemma in_load_keys: "k \<in> load_keys_of s \<longleftrightarrow> (\<exists>j a. map_of (jobs s) j = Some a \<and> \<not> is_store a \<and> k \<in> job_keys a)"
  by (auto simp: load_keys_of_def)

lemma in_watchers:
  "j \<in> watchers s b \<longleftrightarrow> (\<exists>js f. map_of (jobs s) j = Some js
     \<and> map_option (\<lambda>rs. is_finished (req rs)) (map_of (req_status s) (job_req js)) = Some f
     \<and> (b \<in> set (sliding_block_ids js) \<or> b \<in> set (non_sliding_block_ids js) \<and> f))"
  by (auto simp: watchers_def)

lemma ledger_drop_request:
  assumes inv: "ledger ext s" and rs: "map_of (req_status s) r = Some rs" and none: "transfer_jobs rs = {}"
    and same: "config s' = config s" "jobs s' = jobs s" "pending_jobs s' = pending_jobs s"
      "job_counter s' = job_counter s" "stale_job_threshold s' = stale_job_threshold s"
      "chunks_being_loaded s' = chunks_being_loaded s" "req_status s' = dpop r (req_status s)"
  shows "ledger ext s'"
proof -
  have other: "job_req js \<noteq> r" if "map_of (jobs s) j = Some js" for j js
    using ledgerD(5) [OF inv that] rs none by (auto simp: job_ok_def)
  have "job_ok s' j js" if "map_of (jobs s') j = Some js" for j js
    using ledgerD(5) [OF inv, of j js] that other [of j js] by (simp add: job_ok_def same)
  moreover have "req_wf ext (config s') q a \<and> req_jobs s' q a" if "map_of (req_status s') q = Some a" for q a
    using ledgerD(6,7) [OF inv, of q a] that by (auto simp: same req_jobs_def stores_only_def split: if_splits)
  moreover have "watchers s' = watchers s"
    using other by (fastforce simp: watchers_def same intro!: ext)
  moreover have "load_keys_of s' = load_keys_of s" by (simp add: load_keys_of_def same)
  ultimately show ?thesis
    using inv by (simp add: ledger_def same)
qed

text \<open>Fewer workers are left for a job.\<close>

lemma ledger_count_down:
  assumes inv: "ledger ext s" and js: "map_of (jobs s) j = Some js" and n: "0 < n" "n \<le> pending_count js"
    and same: "config s' = config s" "pending_jobs s' = pending_jobs s"
      "job_counter s' = job_counter s" "stale_job_threshold s' = stale_job_threshold s"
      "chunks_being_loaded s' = chunks_being_loaded s" "req_status s' = req_status s"
      "jobs s' = dput j (js\<lparr> pending_count := n \<rparr>) (jobs s)"
  shows "ledger ext s'"
proof -
  have "job_ok s' i a" if "map_of (jobs s') i = Some a" for i a
    using ledgerD(5) [OF inv, of i] that js n by (auto simp: job_ok_def same split: if_splits)
  moreover have "req_wf ext (config s') q a \<and> req_jobs s' q a" if q: "map_of (req_status s') q = Some a" for q a
  proof -
    have "stores_only s' a" if "stores_only s a" using that js by (fastforce simp: stores_only_def same)
    moreover have "\<exists>b. map_of (jobs s') i = Some b \<and> job_req b = q" if "i \<in> transfer_jobs a" for i
      using ledgerD(7) [OF inv, of q a] q that js by (auto simp: same req_jobs_def)
    ultimately show ?thesis using ledgerD(6,7) [OF inv, of q a] q by (auto simp: same req_jobs_def)
  qed
  moreover have "watchers s' = watchers s"
  proof (intro ext set_eqI)
    fix b i
    show "i \<in> watchers s' b \<longleftrightarrow> i \<in> watchers s b"
      using js by (cases "i = j") (auto simp: watchers_def same)
  qed
  moreover have "load_keys_of s' = load_keys_of s"
  proof (rule set_eqI)
    fix k
    have "(\<exists>a. map_of (jobs s') i = Some a \<and> \<not> is_store a \<and> k \<in> job_keys a)
        \<longleftrightarrow> (\<exists>a. map_of (jobs s) i = Some a \<and> \<not> is_store a \<and> k \<in> job_keys a)" for i
      using js by (cases "i = j") (auto simp: same)
    then show "k \<in> load_keys_of s' \<longleftrightarrow> k \<in> load_keys_of s" by (simp add: in_load_keys)
  qed
  ultimately show ?thesis
    using inv by (simp add: ledger_def same)
qed

text \<open>The last job of a request that was signaled takes the request with it.\<close>

lemma ledger_drop_job:
  assumes inv: "ledger ext s" and js: "map_of (jobs s) j = Some js" and r: "job_req js = r"
    and rs: "map_of (req_status s) r = Some rs"
    and rs': "rs' = rs\<lparr> transfer_jobs := transfer_jobs rs - {j} \<rparr>"
    and same: "config s' = config s" "job_counter s' = job_counter s" "stale_job_threshold s' = stale_job_threshold s"
      "jobs s' = dpop j (jobs s)"
      "req_status s' = (if finished_signaled rs \<and> transfer_jobs rs' = {} then dpop r (req_status s) else dput r rs' (req_status s))"
    and watch: "watch_ok (\<lambda>b. watchers s b - {j}) (pending_jobs s')"
    and load: "\<And>l. chunks_being_loaded s' = Some l \<Longrightarrow> l \<subseteq> load_keys_of s \<and> (\<not> is_store js \<longrightarrow> l \<inter> job_keys js = {})"
  shows "ledger ext s'"
proof -
  have look: "map_of (req_status s') q = (if q = r then (if finished_signaled rs \<and> transfer_jobs rs' = {} then None else Some rs')
      else map_of (req_status s) q)" for q
    by (simp add: same)
  have job: "map_of (jobs s') i = (if i = j then None else map_of (jobs s) i)" for i by (simp add: same)
  have kept: "\<exists>rs1. map_of (req_status s') (job_req a) = Some rs1 \<and> i \<in> transfer_jobs rs1"
    if a: "map_of (jobs s) i = Some a" and i: "i \<noteq> j" for i a
    using ledgerD(5) [OF inv a] i rs by (auto simp: job_ok_def look rs')
  have "job_ok s' i a" if "map_of (jobs s') i = Some a" for i a
    using that kept [of i a] ledgerD(5) [OF inv, of i a] by (auto simp: job job_ok_def same(1-3) split: if_splits)
  moreover have "req_wf ext (config s') q a \<and> req_jobs s' q a" if q: "map_of (req_status s') q = Some a" for q a
  proof (cases "q = r")
    case False
    with q have a: "map_of (req_status s) q = Some a" by (simp add: look)
    from ledgerD(7) [OF inv a] have own: "\<exists>b. map_of (jobs s) i = Some b \<and> job_req b = q" if "i \<in> transfer_jobs a" for i
      using that by (simp add: req_jobs_def)
    with js r False have "j \<notin> transfer_jobs a" by fastforce
    then have "map_of (jobs s') i = map_of (jobs s) i" if "i \<in> transfer_jobs a" for i using that by (auto simp: job)
    with ledgerD(6,7) [OF inv a] show ?thesis by (auto simp: req_jobs_def stores_only_def same(1))
  next
    case True
    with q have a: "a = rs'" "\<not> (finished_signaled rs \<and> transfer_jobs rs' = {})" by (auto simp: look split: if_splits)
    have "req_wf ext (config s) r rs'" using ledgerD(6) [OF inv rs] a by (auto simp: req_wf_def rs')
    moreover have "req_jobs s' r rs'"
    proof -
      have "\<exists>b. map_of (jobs s') i = Some b \<and> job_req b = r" if "i \<in> transfer_jobs rs'" for i
        using ledgerD(7) [OF inv rs] that by (auto simp: req_jobs_def rs' job)
      moreover have "stores_only s' rs'"
        using ledgerD(7) [OF inv rs] ledgerD(5) [OF inv js] r rs
        by (auto simp: req_jobs_def rs' job stores_only_def job_ok_def)
      ultimately show ?thesis by (simp add: req_jobs_def)
    qed
    ultimately show ?thesis using True a by (simp add: same(1))
  qed
  moreover have "watchers s' = (\<lambda>b. watchers s b - {j})"
  proof (intro ext set_eqI)
    fix b i
    show "i \<in> watchers s' b \<longleftrightarrow> i \<in> watchers s b - {j}"
    proof (cases "i = j")
      case False
      have "map_option (\<lambda>rs. is_finished (req rs)) (map_of (req_status s') (job_req a))
          = map_option (\<lambda>rs. is_finished (req rs)) (map_of (req_status s) (job_req a))"
        if "map_of (jobs s) i = Some a" for a
        using kept [OF that False] rs by (auto simp: look rs' split: if_splits)
      then show ?thesis using False by (simp add: in_watchers job del: map_option_eq_Some cong: conj_cong)
    qed (simp add: watchers_def job)
  qed
  moreover have "l \<subseteq> load_keys_of s'" if l: "chunks_being_loaded s' = Some l" for l
  proof
    fix k assume "k \<in> l"
    with load [OF l] have "k \<in> load_keys_of s" by blast
    then obtain i a where a: "map_of (jobs s) i = Some a" "\<not> is_store a" "k \<in> job_keys a"
      unfolding in_load_keys by blast
    moreover have "i \<noteq> j" using load [OF l] \<open>k \<in> l\<close> a js by auto
    ultimately show "k \<in> load_keys_of s'" unfolding in_load_keys job by auto
  qed
  moreover have "dict_ok (req_status s')" using ledgerD(2) [OF inv] by (simp add: same(5))
  ultimately show ?thesis
    using inv watch by (simp add: ledger_def same(1-4))
qed

end
