(* ===== verification/OffloadMatch.thy ===== *)
theory OffloadMatch
  imports OffloadLedger
begin

text \<open>
  The ledger invariant for what the scheduler does with a waiting request: registering it, matching
  it against the external cache, and issuing a load.
\<close>

section \<open>The lookup fails no assertion\<close>

definition keys_enough :: "sched_config \<Rightarrow> nat \<Rightarrow> 'k group_state list \<Rightarrow> bool" where
  "keys_enough cfg ntok sts \<longleftrightarrow> (\<forall>i < length (kv_group_configs cfg).
     ntok div tokens_per_chunk (kv_group_configs cfg ! i) \<le> length (offload_keys (sts ! i)))"

lemma group_turn_not_Assertion:
  "keys_enough cfg ntok sts \<Longrightarrow> i < length (kv_group_configs cfg) \<Longrightarrow>
     group_turn look cfg ntok computed sts i s \<noteq> Assertion"
  by (auto simp: keys_enough_def group_turn_def settle_def Let_def not_less [symmetric] split: prod.split)

lemma group_pass_not_Assertion:
  assumes "keys_enough cfg ntok sts" "set is \<subseteq> {..<length (kv_group_configs cfg)}"
  shows "group_pass look cfg ntok computed sts is s \<noteq> Assertion"
  using assms(2)
proof (induction "is" arbitrary: s)
  case (Cons i "is")
  then show ?case
    using group_turn_not_Assertion [OF assms(1), of i look computed s]
    by (auto split: outcome.split)
qed simp

lemma settle_next:
  assumes "settle cfg computed g s = Go s'"
  shows "set (next_groups s') \<subseteq> set (next_groups s) \<union> set (lookup_groups_of cfg)"
  using assms by (auto simp: settle_def schedule_pass_def Let_def lookup_groups_of_def split: if_splits)

lemma group_turn_next:
  assumes "group_turn look cfg ntok computed sts i s = Go s'"
  shows "set (next_groups s') \<subseteq> set (next_groups s) \<union> set (lookup_groups_of cfg)"
proof -
  from assms obtain u s0 n s1 where t:
    "s0 = s\<lparr> max_hit_tokens := min (max_hit_tokens s)
        (int (length (offload_keys (sts ! i)) * tokens_per_chunk (kv_group_configs cfg ! i))) \<rparr>"
    "ask_group look computed (kv_group_configs cfg ! i) i (offload_keys (sts ! i)) u s0 = (n, s1)"
    "n = Some 0 \<and> eagle_group_is_veto_exempt (kv_group_configs cfg ! i)
        \<and> s' = s1\<lparr> excluded := insert i (excluded s1) \<rparr>
     \<or> n \<noteq> Some 0 \<and> settle cfg computed (kv_group_configs cfg ! i)
        (confirm_hits computed (kv_group_configs cfg ! i) i u n s1) = Go s'"
    by (rule group_turn_GoE)
  have "next_groups s1 = next_groups s"
    using ask_group_keeps(3) [of look computed "kv_group_configs cfg ! i" i "offload_keys (sts ! i)" u s0,
        unfolded t(2) snd_conv] by (simp add: t(1))
  with t(3) show ?thesis
    using settle_next [of cfg computed "kv_group_configs cfg ! i"
        "confirm_hits computed (kv_group_configs cfg ! i) i u n s1" s'] by auto
qed

lemma group_pass_next:
  "group_pass look cfg ntok computed sts is s = Go s' \<Longrightarrow>
     set (next_groups s') \<subseteq> set (next_groups s) \<union> set (lookup_groups_of cfg)"
proof (induction "is" arbitrary: s)
  case (Cons i "is")
  then obtain s1 where s1: "group_turn look cfg ntok computed sts i s = Go s1"
    "group_pass look cfg ntok computed sts is s1 = Go s'"
    by (auto split: outcome.splits)
  from group_turn_next [OF s1(1)] Cons.IH [OF s1(2)] show ?case by blast
qed simp

lemma lookup_loop_not_Assertion:
  assumes "keys_enough cfg ntok sts" "set (lookup_groups_of cfg) \<subseteq> {..<length (kv_group_configs cfg)}"
    and "set groups \<subseteq> {..<length (kv_group_configs cfg)}"
  shows "lookup_loop look cfg ntok computed sts groups s \<noteq> Assertion"
  using assms
proof (induction look cfg ntok computed sts groups s rule: lookup_loop.induct)
  case (1 look cfg ntok computed sts groups s)
  show ?case
  proof (cases "groups = []")
    case False
    let ?p = "group_pass look cfg ntok computed sts groups (s\<lparr> window_seen := False, next_groups := [] \<rparr>)"
    show ?thesis
    proof (cases ?p)
      case (Go s')
      from group_pass_next [OF Go] "1.prems"(2) have "set (next_groups s') \<subseteq> {..<length (kv_group_configs cfg)}"
        by auto
      from "1.IH" [OF False Go "1.prems"(1,2) this] False Go show ?thesis
        by (subst lookup_loop.simps) simp
    next
      case (Return_zero s')
      with False show ?thesis by (subst lookup_loop.simps) simp
    next
      case Assertion
      with group_pass_not_Assertion [OF "1.prems"(1,3)] show ?thesis by blast
    qed
  qed (simp add: lookup_loop.simps)
qed

lemma lookup_request_Some:
  assumes cfg: "config_ok cfg" and len: "length sts = length (kv_group_configs cfg)"
    and keys: "keys_enough cfg ntok sts"
  shows "lookup_request look cfg mamba loading ntok computed sts m \<noteq> None"
proof -
  have g: "set (lookup_groups_of cfg) = {..<length (kv_group_configs cfg)}"
    by (rule set_lookup_groups [OF config_ok_groups_wf [OF cfg len]])
  have "lookup_loop look cfg ntok computed sts
      (filter (\<lambda>i. i \<notin> excluded (start_lookup cfg mamba ntok m :: ('a, 'b) lookup_state)) (lookup_groups_of cfg))
      (start_lookup cfg mamba ntok m) \<noteq> Assertion"
    by (rule lookup_loop_not_Assertion [OF keys]) (auto simp: g)
  then show ?thesis
    by (auto simp: lookup_request_def Let_def split: outcome.split)
qed

section \<open>The lookup of a request\<close>

text \<open>What a lookup leaves alone.\<close>

definition quiet ::
  "('h, 'k, 's, 'm) sched \<Rightarrow> ('h, 'k, 's, 'm) sched \<Rightarrow> bool" where
  "quiet s s' \<longleftrightarrow> config s' = config s \<and> jobs s' = jobs s \<and> pending_jobs s' = pending_jobs s
     \<and> job_counter s' = job_counter s \<and> stale_job_threshold s' = stale_job_threshold s
     \<and> chunks_being_loaded s' = chunks_being_loaded s \<and> req_status s' = req_status s
     \<and> batch_load_jobs s' = batch_load_jobs s \<and> jobs_to_flush s' = jobs_to_flush s
     \<and> batch_allocated s' = batch_allocated s \<and> stores_enabled s' = stores_enabled s"

definition same_request :: "('h, 'k) req_state \<Rightarrow> ('h, 'k) req_state \<Rightarrow> bool" where
  "same_request rs rs' \<longleftrightarrow> req rs' = req rs \<and> group_states rs' = group_states rs \<and> rctx rs' = rctx rs
     \<and> transfer_jobs rs' = transfer_jobs rs \<and> finished_signaled rs' = finished_signaled rs
     \<and> num_locally_computed_tokens rs' = num_locally_computed_tokens rs \<and> block_level rs' = block_level rs"

lemma lookup_answer_quiet:
  assumes "lookup_answer ext r ts tb hits rs s = (h, rs', s')"
  shows "quiet s s' \<and> same_request rs rs'"
  using assms
  by (auto simp: lookup_answer_def bypass_lookup_def Let_def quiet_def same_request_def
      split: option.splits prod.splits)

lemma external_lookup_quiet:
  assumes "external_lookup ext r tc ts tb rs s = Some (h, rs', s')"
  shows "quiet s s' \<and> same_request rs rs'"
proof (cases "skip_reading_prefix_cache (req rs) \<or> external_lookup_bypassed rs")
  case True
  with assms show ?thesis by (simp add: external_lookup_def quiet_def same_request_def)
next
  case skip: False
  obtain why p where c: "circuit_bypass_reason r tc (lookup_policy s) = (why, p)" by fastforce
  show ?thesis
  proof (cases why)
    case (Some w)
    with skip c assms show ?thesis
      by (auto simp: external_lookup_def bypass_lookup_def quiet_def same_request_def)
  next
    case None
    with skip c assms show ?thesis
      by (auto simp: external_lookup_def bind_eq_Some_conv quiet_def same_request_def
          dest!: lookup_answer_quiet)
  qed
qed

lemma external_lookup_Some:
  assumes "config_ok (config s)" "length (group_states rs) = length (kv_group_configs (config s))"
    and "keys_enough (config s) (num_tokens (req rs)) (group_states rs)"
  obtains h rs' s' where "external_lookup ext r tc ts tb rs s = Some (h, rs', s')"
proof (cases "external_lookup ext r tc ts tb rs s")
  case None
  with lookup_request_Some [OF assms, of "mgr_lookup ext (rctx rs)" "mamba_align s"
      "chunks_being_loaded s" "num_locally_computed_tokens rs" "mgr s"]
  show ?thesis by (auto simp: external_lookup_def split: option.splits if_splits prod.splits)
next
  case (Some x)
  with that show ?thesis by (cases x) auto
qed

section \<open>Well-formed requests\<close>

lemma keys_of_maps [simp]:
  "keys_of (map (\<lambda>st. st\<lparr> block_ids := [] \<rparr>) sts) = keys_of sts"
  by (simp add: comp_def)

lemma map_map2:
  assumes "length gs = length sts" "\<And>g st. F (f g st) = F st"
  shows "map F (map2 f gs sts) = map F sts"
  using assms(1) by (induction gs sts rule: list_induct2) (simp_all add: assms(2))

lemma update_num_hit_keeps:
  assumes "length sts = length (kv_group_configs cfg)"
  shows "keys_of (update_num_hit_chunks cfg n sts) = keys_of sts"
    "map block_ids (update_num_hit_chunks cfg n sts) = map block_ids sts"
  unfolding update_num_hit_chunks_def by (rule map_map2; use assms in simp)+

lemma req_wf_groups:
  assumes "req_wf ext cfg r rs" "req rs' = req rs" "transfer_jobs rs' = transfer_jobs rs"
    and "finished_signaled rs' = finished_signaled rs" "keys_of (group_states rs') = keys_of (group_states rs)"
  shows "req_wf ext cfg r rs'"
  using assms by (simp add: req_wf_def keys_from_def)

lemma req_wf_keys:
  assumes "req_wf ext cfg r rs"
  obtains hs where "prefix hs (block_hashes (req rs))" "keys_from ext cfg hs (group_states rs)"
  using assms by (auto simp: req_wf_def)

lemma req_wf_length: "req_wf ext cfg r rs \<Longrightarrow> length (group_states rs) = length (kv_group_configs cfg)"
  using keys_from_length req_wf_keys by metis

lemma refresh_keys_sel [simp]:
  "req (refresh_keys ext cfg rs) = req rs" "transfer_jobs (refresh_keys ext cfg rs) = transfer_jobs rs"
  "finished_signaled (refresh_keys ext cfg rs) = finished_signaled rs" "rctx (refresh_keys ext cfg rs) = rctx rs"
  by (simp_all add: refresh_keys_def)

lemma refresh_keys_wf:
  assumes cfg: "config_ok cfg" and wf: "req_wf ext cfg r rs"
  shows "req_wf ext cfg r (refresh_keys ext cfg rs)"
    and "keys_from ext cfg (block_hashes (req rs)) (group_states (refresh_keys ext cfg rs))"
proof -
  from wf obtain hs where hs: "prefix hs (block_hashes (req rs))" "keys_from ext cfg hs (group_states rs)"
    by (rule req_wf_keys)
  from update_offload_keys_from [OF cfg hs(2,1)]
  show "keys_from ext cfg (block_hashes (req rs)) (group_states (refresh_keys ext cfg rs))"
    by (simp add: refresh_keys_def)
  with wf show "req_wf ext cfg r (refresh_keys ext cfg rs)" by (auto simp: req_wf_def)
qed

lemma keys_from_enough:
  assumes "keys_from ext cfg (block_hashes rq) sts" "request_fits cfg rq" "n \<le> num_tokens rq" "config_ok cfg"
  shows "keys_enough cfg n sts"
  unfolding keys_enough_def
proof (intro allI impI)
  fix i assume i: "i < length (kv_group_configs cfg)"
  have "n div tokens_per_chunk (kv_group_configs cfg ! i) \<le> num_tokens rq div tokens_per_chunk (kv_group_configs cfg ! i)"
    by (rule div_le_mono [OF assms(3)])
  with assms(2) i show "n div tokens_per_chunk (kv_group_configs cfg ! i) \<le> length (offload_keys (sts ! i))"
    by (auto simp: request_fits_def keys_from_nth [OF assms(1) i])
qed

lemma clear_block_ids_sel [simp]:
  "req (clear_block_ids rs) = req rs" "transfer_jobs (clear_block_ids rs) = transfer_jobs rs"
  "finished_signaled (clear_block_ids rs) = finished_signaled rs" "idle (clear_block_ids rs)"
  "keys_of (group_states (clear_block_ids rs)) = keys_of (group_states rs)"
  by (simp_all add: clear_block_ids_def idle_def comp_def)

lemma idle_refresh:
  "idle rs \<Longrightarrow> idle (refresh_keys ext cfg rs)"
  by (fastforce simp: idle_def refresh_keys_def update_offload_keys_def update_group_keys_def set_zip
      in_set_conv_nth)

lemma idle_blocks: "map block_ids (group_states rs') = map block_ids (group_states rs) \<Longrightarrow> idle rs' = idle rs"
  unfolding idle_def by (metis (no_types, lifting) image_iff list.set_map)

section \<open>Matching\<close>

text \<open>The request as the lookup sees it.\<close>

definition matched_request ::
  "('h, 'k, 's, 'm) externals \<Rightarrow> sched_config \<Rightarrow> nat \<Rightarrow> ('h, 'k) req_state \<Rightarrow> ('h, 'k) req_state" where
  "matched_request ext cfg computed rs =
     (refresh_keys ext cfg (clear_block_ids rs))\<lparr> num_locally_computed_tokens := computed \<rparr>"

lemma matched_request_wf:
  assumes cfg: "config_ok cfg" and wf: "req_wf ext cfg r rs"
  shows "req_wf ext cfg r (matched_request ext cfg computed rs)"
    "idle (matched_request ext cfg computed rs)" "req (matched_request ext cfg computed rs) = req rs"
    "keys_enough cfg (num_tokens (req rs)) (group_states (matched_request ext cfg computed rs))"
    "transfer_jobs (matched_request ext cfg computed rs) = transfer_jobs rs"
    "finished_signaled (matched_request ext cfg computed rs) = finished_signaled rs"
proof -
  have c: "req_wf ext cfg r (clear_block_ids rs)" by (rule req_wf_groups [OF wf]) simp_all
  note refresh_keys_wf(1) [OF cfg c]
  then show "req_wf ext cfg r (matched_request ext cfg computed rs)"
    by (rule req_wf_groups) (simp_all add: matched_request_def)
  show "idle (matched_request ext cfg computed rs)"
    using idle_refresh [OF clear_block_ids_sel(4), of ext cfg rs] by (simp add: matched_request_def idle_def)
  have "request_fits cfg (req rs)" using wf by (simp add: req_wf_def)
  from keys_from_enough [OF refresh_keys_wf(2) [OF cfg c, simplified] this order_refl cfg]
  show "keys_enough cfg (num_tokens (req rs)) (group_states (matched_request ext cfg computed rs))"
    by (simp add: matched_request_def)
qed (simp_all add: matched_request_def)

lemma get_num_new_matched_tokens_alt:
  "get_num_new_matched_tokens ext r computed tc ts tb s =
     (case map_of (req_status s) r of
        None \<Rightarrow> None
      | Some rs \<Rightarrow>
          if transfer_jobs rs \<noteq> {} then Some ((None, False), put_req r (clear_block_ids rs) s)
          else (case external_lookup ext r tc ts tb (matched_request ext (config s) computed rs) s of
            None \<Rightarrow> None
          | Some (hits, rs3, s1) \<Rightarrow>
              (let rs4 = rs3\<lparr> group_states := update_num_hit_chunks (config s)
                     (computed + (case hits of None \<Rightarrow> 0 | Some h \<Rightarrow> nat h)) (group_states rs3) \<rparr>
               in Some ((hits, hits \<noteq> None \<and> hits \<noteq> Some 0),
                    put_req r rs4 (s1\<lparr> mgr := sched_touch ext (config s) rs4 (mgr s1) \<rparr>)))))"
  by (auto simp: get_num_new_matched_tokens_def matched_request_def Let_def
      split: option.split prod.split)

text \<open>A match succeeds and keeps the ledger; when it reports a hit the request has no job and no block.\<close>

lemma match_ledger:
  assumes inv: "ledger ext s" and rs: "map_of (req_status s) r = Some rs"
  obtains h s' rs' where "get_num_new_matched_tokens ext r computed tc ts tb s = Some (h, s')"
    "ledger ext s'" "map_of (req_status s') r = Some rs'" "idle rs'" "req rs' = req rs"
    "transfer_jobs rs' = transfer_jobs rs" "fst h \<noteq> None \<Longrightarrow> transfer_jobs rs' = {}" "config s' = config s"
    "num_locally_computed_tokens rs' = computed \<or> transfer_jobs rs \<noteq> {}"
proof (cases "transfer_jobs rs = {}")
  case False
  have "req_wf ext (config s) r (clear_block_ids rs)"
    by (rule req_wf_groups [OF ledgerD(6) [OF inv rs]]) simp_all
  then have "req_step ext s r rs (clear_block_ids rs)" by (simp add: req_step_def)
  then have "ledger ext (put_req r (clear_block_ids rs) s)"
    by (rule ledger_put [OF inv rs]) (simp_all add: put_req_def)
  with False rs that [of "(None, False)" "put_req r (clear_block_ids rs) s" "clear_block_ids rs"] show thesis
    by (simp add: get_num_new_matched_tokens_alt put_req_def)
next
  case True
  let ?rs = "matched_request ext (config s) computed rs"
  note cfg = ledgerD(1) [OF inv] and wf = matched_request_wf [OF ledgerD(1) [OF inv] ledgerD(6) [OF inv rs], where computed = computed]
  have enough: "keys_enough (config s) (num_tokens (req ?rs)) (group_states ?rs)" using wf(3,4) by simp
  obtain h rs3 s1 where l: "external_lookup ext r tc ts tb ?rs s = Some (h, rs3, s1)"
    by (rule external_lookup_Some [OF cfg req_wf_length [OF wf(1)] enough])
  note q = external_lookup_quiet [OF l]
  define rs4 where "rs4 = rs3\<lparr> group_states := update_num_hit_chunks (config s)
    (computed + (case h of None \<Rightarrow> 0 | Some h \<Rightarrow> nat h)) (group_states rs3) \<rparr>"
  define s' where "s' = put_req r rs4 (s1\<lparr> mgr := sched_touch ext (config s) rs4 (mgr s1) \<rparr>)"
  have len: "length (group_states rs3) = length (kv_group_configs (config s))"
    using q req_wf_length [OF wf(1)] by (simp add: same_request_def)
  have "req_wf ext (config s) r rs4"
    by (rule req_wf_groups [OF wf(1)])
      (use q update_num_hit_keeps(1) [OF len] in \<open>simp_all add: rs4_def same_request_def\<close>)
  moreover have idle: "idle rs4"
  proof -
    have "map block_ids (group_states rs4) = map block_ids (group_states ?rs)"
      using q update_num_hit_keeps(2) [OF len] by (simp add: rs4_def same_request_def)
    from idle_blocks [OF this] wf(2) show ?thesis by simp
  qed
  moreover have same: "req rs4 = req rs" "transfer_jobs rs4 = transfer_jobs rs"
    using q wf(3,5) by (simp_all add: rs4_def same_request_def)
  ultimately have "req_step ext s r rs rs4" by (simp add: req_step_def)
  then have "ledger ext s'"
    by (rule ledger_put [OF inv rs]) (use q in \<open>simp_all add: s'_def put_req_def quiet_def\<close>)
  moreover have "get_num_new_matched_tokens ext r computed tc ts tb s = Some ((h, h \<noteq> None \<and> h \<noteq> Some 0), s')"
    using True rs l by (simp add: get_num_new_matched_tokens_alt Let_def rs4_def s'_def)
  moreover have "num_locally_computed_tokens rs4 = computed"
    using q by (simp add: rs4_def same_request_def matched_request_def)
  moreover have "map_of (req_status s') r = Some rs4" "config s' = config s"
    using q by (simp_all add: s'_def put_req_def quiet_def)
  ultimately show thesis
    using that [of "(h, h \<noteq> None \<and> h \<noteq> Some 0)" s' rs4] idle same True by simp
qed

section \<open>Registering a request\<close>

lemma keys_from_empty: "keys_from ext cfg [] (map (\<lambda>g. new_group_state) (kv_group_configs cfg))"
  by (simp add: keys_from_def new_group_state_def all_keys_def comp_def)

lemma new_request_ledger:
  assumes inv: "ledger ext s" and new: "map_of (req_status s) (request_id rq) = None"
    and rq: "status rq = UNFINISHED" "request_fits (config s) rq"
  shows "ledger ext (sched_new_request ext rq s)"
proof -
  obtain blk m where m: "mgr_on_new_request ext (create_req_context (known_medium ext) (known_locality ext) rq) (mgr s) = (blk, m)"
    by fastforce
  let ?rs = "new_req_state (config s) rq (create_req_context (known_medium ext) (known_locality ext) rq) blk"
  have "req_wf ext (config s) (request_id rq) ?rs"
    using rq keys_from_empty [of ext "config s"]
    by (auto simp: req_wf_def new_req_state_def is_finished_def intro!: exI [of _ "[]"])
  moreover have "transfer_jobs ?rs = {}" by (simp add: new_req_state_def)
  ultimately show ?thesis
    by (rule ledger_add_request [OF inv new]) (simp_all add: sched_new_request_def Let_def m put_req_def)
qed

section \<open>Issuing a load\<close>

lemma alloc_group_keeps:
  assumes "alloc_group cfg blk ex computed cached g st blocks = Some (l, st')"
  shows "offload_keys st' = offload_keys st" "block_ids st' = block_ids st"
  using assms by (auto simp: alloc_group_def Let_def bind_eq_Some_conv split: if_splits)

lemma alloc_groups_keeps:
  "alloc_groups cfg blk ex computed cached xs = Some (ls, sts) \<Longrightarrow>
     keys_of sts = map (\<lambda>(g, st, b). offload_keys st) xs \<and> map block_ids sts = map (\<lambda>(g, st, b). block_ids st) xs"
proof (induction xs arbitrary: ls sts)
  case (Cons x xs)
  obtain g st b where x: "x = (g, st, b)" by (cases x) auto
  with Cons.prems obtain l st' ls' sts' where
    "alloc_group cfg blk ex computed cached g st b = Some (l, st')"
    "alloc_groups cfg blk ex computed cached xs = Some (ls', sts')" "sts = st' # sts'"
    by (auto simp: bind_eq_Some_conv)
  with Cons.IH alloc_group_keeps x show ?case by fastforce
qed simp

lemma map_zip_zip:
  "length gs = length sts \<Longrightarrow>
     map (\<lambda>(g, st, b). F st) (zip gs (zip sts bs)) = map F (take (length bs) sts)"
proof (induction gs sts arbitrary: bs rule: list_induct2)
  case (Cons g gs st sts)
  then show ?case by (cases bs) simp_all
qed simp

lemma alloc_states:
  assumes "alloc_groups cfg blk ex computed cached (zip (kv_group_configs cfg) (zip sts0 blocks)) = Some (ls, sts)"
    and "length sts0 = length (kv_group_configs cfg)"
  shows "keys_of (sts @ drop (length sts) sts0) = keys_of sts0"
    "map block_ids (sts @ drop (length sts) sts0) = map block_ids sts0"
proof -
  let ?n = "length blocks"
  note k = alloc_groups_keeps [OF assms(1), unfolded map_zip_zip [OF assms(2) [symmetric]]]
  then have len: "length sts = min ?n (length sts0)" by (metis length_map length_take min.commute)
  have "map F sts @ map F (drop (length sts) sts0) = map F sts0" if "map F sts = map F (take ?n sts0)" for F :: "_ \<Rightarrow> 'z"
  proof -
    have "drop (length sts) sts0 = drop ?n sts0" using len by (simp add: min_def)
    with that show ?thesis by (metis append_take_drop_id map_append)
  qed
  from this [OF conjunct1 [OF k]] this [OF conjunct2 [OF k]]
  show "keys_of (sts @ drop (length sts) sts0) = keys_of sts0"
    "map block_ids (sts @ drop (length sts) sts0) = map block_ids sts0" by (simp_all only: map_append)
qed

text \<open>The engine allocated enough blocks: the assertions about blocks hold.\<close>

definition blocks_fit :: "('h, 'k, 's, 'm) sched \<Rightarrow> ('h, 'k) req_state \<Rightarrow> gpu_block list list \<Rightarrow> nat \<Rightarrow> bool" where
  "blocks_fit s rs blocks external \<longleftrightarrow>
     alloc_groups (config s) (block_level rs) (lookup_excluded_groups rs) (num_locally_computed_tokens rs)
       (num_locally_computed_tokens rs + external) (zip (kv_group_configs (config s)) (zip (group_states rs) blocks)) \<noteq> None"

lemma alloc_ledger:
  assumes inv: "ledger ext s" and rs: "map_of (req_status s) r = Some rs"
    and free: "transfer_jobs rs = {}" "idle rs" and fit: "blocks_fit s rs blocks external"
  obtains s' where "update_state_after_alloc ext r blocks external s = Some s'" "ledger ext s'" "config s' = config s"
proof (cases "external = 0")
  case True
  with that inv show thesis by (simp add: update_state_after_alloc_def)
next
  case False
  let ?gs = "zip (kv_group_configs (config s)) (zip (group_states rs) blocks)"
  from fit obtain ls sts where a:
    "alloc_groups (config s) (block_level rs) (lookup_excluded_groups rs) (num_locally_computed_tokens rs)
       (num_locally_computed_tokens rs + external) ?gs = Some (ls, sts)"
    by (auto simp: blocks_fit_def)
  note keep = alloc_states [OF a req_wf_length [OF ledgerD(6) [OF inv rs]]]
  define keys where "keys = concat (map load_keys ls)"
  obtain src m where m: "mgr_prepare_load ext keys (rctx rs) (mgr s) = (src, m)" by fastforce
  define rs1 where "rs1 = rs\<lparr> group_states := sts @ drop (length sts) (group_states rs), transfer_jobs := {job_counter s} \<rparr>"
  define js where "js = \<lparr> job_req = r, pending_count = int (num_workers (config s)), job_keys = set keys,
    is_store = False, non_sliding_block_ids = [], sliding_block_ids = [] \<rparr>"
  have key_set: "set keys = (\<Union>l \<in> set ls. set (load_keys l))" by (simp add: keys_def)
  define s' where "s' = the (update_state_after_alloc ext r blocks external s)"
  have s': "update_state_after_alloc ext r blocks external s = Some s'"
    and sel: "config s' = config s" "stale_job_threshold s' = stale_job_threshold s"
      "job_counter s' = job_counter s + 1" "jobs s' = dput (job_counter s) js (jobs s)"
      "req_status s' = dput r rs1 (req_status s)" "pending_jobs s' = pending_jobs s"
      "chunks_being_loaded s' = map_option (\<lambda>l. l \<union> set keys) (chunks_being_loaded s)"
    using False rs free a m
    by (simp_all add: s'_def update_state_after_alloc_def Let_def keys_def [symmetric] key_set js_def rs1_def put_req_def)
  have "req_wf ext (config s) r (rs\<lparr> group_states := sts @ drop (length sts) (group_states rs) \<rparr>)"
    by (rule req_wf_groups [OF ledgerD(6) [OF inv rs]]) (simp_all add: keep del: map_append)
  then have wf: "req_wf ext (config s) r rs1" by (auto simp: req_wf_def rs1_def)
  have "idle rs1"
    using idle_blocks [of rs1 rs] free(2) keep(2) by (simp add: rs1_def del: map_append)
  moreover have "watch_ok (\<lambda>b. watchers s b \<union> (if watches js (is_finished (req rs)) b then {job_counter s} else {})) (pending_jobs s')"
    using ledgerD(8) [OF inv] by (simp add: sel watches_def js_def)
  ultimately have "ledger ext s'"
    by (intro ledger_add_job [OF inv rs wf _ _ _ _ _ _ sel(1-5)])
      (use free ledgerD(9) [OF inv] in \<open>auto simp: rs1_def js_def sel\<close>)
  with that s' sel(1) show thesis by blast
qed

end
