(* ===== verification/OffloadStep.thy ===== *)
theory OffloadStep
  imports OffloadMatch
begin

text \<open>
  The ledger invariant for a schedule step: new blocks and keys, stale blocks, the store jobs and
  the flushes.
\<close>

section \<open>Requests that keep their jobs\<close>

definition fresh :: "('h, 'k, 's, 'm) externals \<Rightarrow> sched_config \<Rightarrow> ('h, 'k) req_state \<Rightarrow> bool" where
  "fresh ext cfg rs \<longleftrightarrow> keys_from ext cfg (block_hashes (req rs)) (group_states rs)"

definition evolves :: "('h, 'k, 's, 'm) externals \<Rightarrow> sched_config \<Rightarrow> ('h, 'k) req_state \<Rightarrow> ('h, 'k) req_state \<Rightarrow> bool" where
  "evolves ext cfg rs rs' \<longleftrightarrow> req rs' = req rs \<and> rctx rs' = rctx rs \<and> transfer_jobs rs' = transfer_jobs rs
     \<and> finished_signaled rs' = finished_signaled rs \<and> (fresh ext cfg rs \<longrightarrow> fresh ext cfg rs')"

lemma evolves_refl [simp]: "evolves ext cfg rs rs"
  by (simp add: evolves_def)

lemma evolves_trans: "evolves ext cfg a b \<Longrightarrow> evolves ext cfg b c \<Longrightarrow> evolves ext cfg a c"
  by (simp add: evolves_def)

text \<open>One state follows another with the same jobs and the same requests, each evolved.\<close>

definition follows :: "('h, 'k, 's, 'm) externals \<Rightarrow> ('h, 'k, 's, 'm) sched \<Rightarrow> ('h, 'k, 's, 'm) sched \<Rightarrow> bool" where
  "follows ext s s' \<longleftrightarrow> config s' = config s \<and> jobs s' = jobs s \<and> pending_jobs s' = pending_jobs s
     \<and> job_counter s' = job_counter s \<and> stale_job_threshold s' = stale_job_threshold s
     \<and> chunks_being_loaded s' = chunks_being_loaded s \<and> batch_load_jobs s' = batch_load_jobs s
     \<and> stores_enabled s' = stores_enabled s \<and> jobs_to_flush s' = jobs_to_flush s
     \<and> (\<forall>r. rel_option (evolves ext (config s)) (map_of (req_status s) r) (map_of (req_status s') r))"

lemma follows_refl [simp]: "follows ext s s"
  by (simp add: follows_def option.rel_refl)

lemma follows_trans:
  assumes "follows ext a b" "follows ext b c"
  shows "follows ext a c"
proof -
  have "rel_option (evolves ext (config a)) (map_of (req_status a) r) (map_of (req_status c) r)" for r
    using assms unfolding follows_def option_rel_Some1 [symmetric]
    by (metis evolves_trans option.rel_transp transpD transpI)
  with assms show ?thesis by (simp add: follows_def)
qed

lemma follows_Some:
  assumes "follows ext s s'" "map_of (req_status s) r = Some rs"
  obtains rs' where "map_of (req_status s') r = Some rs'" "evolves ext (config s) rs rs'"
proof -
  have "rel_option (evolves ext (config s)) (map_of (req_status s) r) (map_of (req_status s') r)"
    using assms(1) by (simp add: follows_def)
  with assms(2) that show thesis by (auto simp: option_rel_Some1)
qed

lemma follows_None:
  assumes "follows ext s s'"
  shows "map_of (req_status s') r = None \<longleftrightarrow> map_of (req_status s) r = None"
proof -
  have "rel_option (evolves ext (config s)) (map_of (req_status s) r) (map_of (req_status s') r)"
    using assms by (simp add: follows_def)
  then show ?thesis by (cases "map_of (req_status s) r"; cases "map_of (req_status s') r") simp_all
qed

lemma follows_stores_only:
  assumes "follows ext s s'" "evolves ext (config s) rs rs'"
  shows "stores_only s' rs' \<longleftrightarrow> stores_only s rs"
  using assms by (simp add: stores_only_def follows_def evolves_def)

lemma follows_put:
  assumes "map_of (req_status s) r = Some rs" "evolves ext (config s) rs rs'"
    and "config s' = config s" "jobs s' = jobs s" "pending_jobs s' = pending_jobs s"
      "job_counter s' = job_counter s" "stale_job_threshold s' = stale_job_threshold s"
      "chunks_being_loaded s' = chunks_being_loaded s" "batch_load_jobs s' = batch_load_jobs s"
      "stores_enabled s' = stores_enabled s" "jobs_to_flush s' = jobs_to_flush s"
      "req_status s' = dput r rs' (req_status s)"
  shows "follows ext s s'"
  using assms by (simp add: follows_def option.rel_refl)

section \<open>New blocks\<close>

lemma req_wf_fresh: "req_wf ext cfg r rs \<Longrightarrow> is_finished (req rs) \<Longrightarrow> fresh ext cfg rs"
  by (simp add: req_wf_def fresh_def)

lemma update_block_id_groups_Some:
  assumes "gs = None \<or> length (the gs) = length sts"
  obtains sts' where "update_block_id_groups gs sts = Some sts'" "keys_of sts' = keys_of sts"
proof (cases gs)
  case None
  with that show thesis by (simp add: update_block_id_groups_def)
next
  case (Some bs)
  have "keys_of (map2 (\<lambda>st b. st\<lparr> block_ids := block_ids st @ b \<rparr>) sts bs) = keys_of sts"
    if "length sts = length bs" using that by (induction sts bs rule: list_induct2) simp_all
  with Some assms that show thesis by (simp add: update_block_id_groups_def)
qed

text \<open>What the engine promises about an entry: the request is known and has no load in flight.\<close>

definition entry_ok :: "('h, 'k, 's, 'm) sched \<Rightarrow> req_id \<times> nat list list option \<times> bool \<Rightarrow> bool" where
  "entry_ok s e \<longleftrightarrow> (case e of (r, new, p) \<Rightarrow>
     (\<exists>rs. map_of (req_status s) r = Some rs \<and> stores_only s rs)
     \<and> (new = None \<or> new = Some [] \<or> length (the new) = length (kv_group_configs (config s))))"

lemma entry_ok_follows:
  assumes f: "follows ext s s'" and e: "entry_ok s e"
  shows "entry_ok s' e"
proof -
  obtain r new p where x: "e = (r, new, p)" by (cases e) auto
  with e obtain rs where rs: "map_of (req_status s) r = Some rs" "stores_only s rs" by (auto simp: entry_ok_def)
  from f rs(1) obtain rs' where rs': "map_of (req_status s') r = Some rs'" "evolves ext (config s) rs rs'"
    by (rule follows_Some)
  with rs(2) have "stores_only s' rs'" using follows_stores_only [OF f rs'(2)] by simp
  moreover have "config s' = config s" using f by (simp add: follows_def)
  ultimately show ?thesis using e rs'(1) by (simp add: entry_ok_def x)
qed

lemma update_req_state_ledger:
  assumes inv: "ledger ext s" and e: "entry_ok s (r, new, p)"
  obtains s' ends' where "update_req_state ext (r, new, p) (s, ends) = Some (s', ends')" "ledger ext s'"
    "follows ext s s'" "\<exists>rs'. map_of (req_status s') r = Some rs' \<and> fresh ext (config s) rs'"
proof -
  note goal = that
  note cfg = ledgerD(1) [OF inv]
  from e obtain rs where rs: "map_of (req_status s) r = Some rs" and so: "stores_only s rs"
    by (auto simp: entry_ok_def)
  note wf = ledgerD(6) [OF inv rs]
  define rs1 where "rs1 = refresh_keys ext (config s) rs"
  define rs2 where "rs2 = (if p then clear_block_ids rs1 else rs1)"
  have wf1: "req_wf ext (config s) r rs1" and f1: "fresh ext (config s) rs1"
    using refresh_keys_wf [OF cfg wf] by (simp_all add: rs1_def fresh_def)
  have sel2: "req rs2 = req rs" "transfer_jobs rs2 = transfer_jobs rs" "finished_signaled rs2 = finished_signaled rs"
    "rctx rs2 = rctx rs" "keys_of (group_states rs2) = keys_of (group_states rs1)"
    by (simp_all add: rs2_def rs1_def clear_block_ids_def comp_def)
  have wf2: "req_wf ext (config s) r rs2"
    by (rule req_wf_groups [OF wf1]) (simp_all add: sel2 rs1_def)
  have put: thesis
    if u: "update_req_state ext (r, new, p) (s, ends) = Some (put_req r rs3 s1, ends')"
      and k: "keys_of (group_states rs3) = keys_of (group_states rs2)" "req rs3 = req rs2" "rctx rs3 = rctx rs2"
        "transfer_jobs rs3 = transfer_jobs rs2" "finished_signaled rs3 = finished_signaled rs2"
      and s1: "s1 = s \<or> (\<exists>a. s1 = s\<lparr> batch_allocated := a \<rparr>)" for rs3 s1 ends'
  proof -
    have wf3: "req_wf ext (config s) r rs3" by (rule req_wf_groups [OF wf2]) (simp_all add: k)
    have f3: "fresh ext (config s) rs3"
      using f1 by (simp add: fresh_def keys_from_def k sel2) (simp add: rs1_def)
    have st: "req_step ext s r rs rs3" using wf3 so by (simp add: req_step_def k sel2)
    have l: "ledger ext (put_req r rs3 s1)"
      by (rule ledger_put [OF inv rs st]) (use s1 in \<open>auto simp: put_req_def\<close>)
    have f: "follows ext s (put_req r rs3 s1)"
      by (rule follows_put [OF rs, of ext rs3]) (use s1 f3 in \<open>auto simp: put_req_def evolves_def k sel2\<close>)
    have "map_of (req_status (put_req r rs3 s1)) r = Some rs3" by (simp add: put_req_def)
    with f3 show thesis by (intro goal [OF u l f] exI conjI)
  qed
  have alt: "update_req_state ext (r, new, p) (s, ends) =
      (if new = None \<or> new = Some [] then Some (put_req r rs2 s, ends)
       else case update_block_id_groups new (group_states rs2) of
         None \<Rightarrow> None
       | Some sts \<Rightarrow> Some (put_req r (rs2\<lparr> group_states := sts \<rparr>)
             (s\<lparr> batch_allocated := batch_allocated s \<union> nonzero (concat (the new)) \<rparr>),
           if sliding_groups (config s) = [] then ends
           else dput r (map (\<lambda>i. length (block_ids (group_states rs2 ! i))) (sliding_groups (config s))) ends))"
    unfolding update_req_state_def prod.case Let_def rs rs2_def rs1_def by (simp split: option.split)
  show thesis
  proof (cases "new = None \<or> new = Some []")
    case True
    show thesis by (rule put [of rs2 s ends]) (use True in \<open>simp_all add: alt\<close>)
  next
    case False
    with e have "length (the new) = length (group_states rs2)"
      using req_wf_length [OF wf2] by (auto simp: entry_ok_def)
    then obtain sts where sts: "update_block_id_groups new (group_states rs2) = Some sts"
      "keys_of sts = keys_of (group_states rs2)"
      using update_block_id_groups_Some [of new "group_states rs2"] by blast
    show thesis
      by (rule put [of "rs2\<lparr> group_states := sts \<rparr>" "s\<lparr> batch_allocated := batch_allocated s \<union> nonzero (concat (the new)) \<rparr>"
            "if sliding_groups (config s) = [] then ends
             else dput r (map (\<lambda>i. length (block_ids (group_states rs2 ! i))) (sliding_groups (config s))) ends"])
        (use False sts in \<open>auto simp: alt\<close>)
  qed
qed

lemma update_req_loop_ledger:
  assumes "ledger ext s" "\<forall>e \<in> set es. entry_ok s e"
  obtains s' ends' where "update_req_loop ext es (s, ends) = Some (s', ends')" "ledger ext s'" "follows ext s s'"
    "\<forall>r \<in> fst ` set es. \<exists>rs'. map_of (req_status s') r = Some rs' \<and> fresh ext (config s) rs'"
  using assms
proof (induction es arbitrary: s ends thesis)
  case Nil
  then show ?case by simp
next
  case (Cons e es)
  obtain r new p where e: "e = (r, new, p)" by (cases e) auto
  with Cons.prems have "entry_ok s (r, new, p)" by simp
  with Cons.prems(2) obtain s1 ends1 where s1: "update_req_state ext (r, new, p) (s, ends) = Some (s1, ends1)"
    "ledger ext s1" "follows ext s s1" "\<exists>rs'. map_of (req_status s1) r = Some rs' \<and> fresh ext (config s) rs'"
    by (rule update_req_state_ledger)
  have "\<forall>e \<in> set es. entry_ok s1 e" using Cons.prems(3) entry_ok_follows [OF s1(3)] by simp
  with s1(2) obtain s2 ends2 where s2: "update_req_loop ext es (s1, ends1) = Some (s2, ends2)" "ledger ext s2"
    "follows ext s1 s2" "\<forall>r \<in> fst ` set es. \<exists>rs'. map_of (req_status s2) r = Some rs' \<and> fresh ext (config s1) rs'"
    using Cons.IH by blast
  have cfg: "config s1 = config s" using s1(3) by (simp add: follows_def)
  from s1(4) obtain rs1 where rs1: "map_of (req_status s1) r = Some rs1" "fresh ext (config s1) rs1" by (auto simp: cfg)
  from s2(3) rs1(1) obtain rs2 where "map_of (req_status s2) r = Some rs2" "evolves ext (config s1) rs1 rs2"
    by (rule follows_Some)
  with rs1(2) have r2: "\<exists>rs'. map_of (req_status s2) r = Some rs' \<and> fresh ext (config s) rs'"
    by (auto simp: evolves_def cfg)
  show ?case
    by (rule Cons.prems(1) [OF _ s2(2) follows_trans [OF s1(3) s2(3)]])
      (use s1(1) s2(1,4) r2 in \<open>simp_all add: e cfg\<close>)
qed

section \<open>Stale blocks\<close>

lemma zero_range_length [simp]: "length (zero_range alloc a b bs) = length bs"
  by (simp add: zero_range_def)

lemma map_update_same: "F x = F (xs ! i) \<Longrightarrow> map F (xs[i := x]) = map F xs"
  by (metis list_update_beyond list_update_id map_update not_le)

lemma zero_stale_keeps:
  "keys_of (zero_stale alloc cfg ends sts) = keys_of sts"
  "map (\<lambda>st. length (block_ids st)) (zero_stale alloc cfg ends sts) = map (\<lambda>st. length (block_ids st)) sts"
proof -
  define ixs where "ixs = zip [0..<length (sliding_groups cfg)] (sliding_groups cfg)"
  have "map F (fold (\<lambda>(i, grp) sts. (let st = sts ! grp; stop = (case ends of None \<Rightarrow> length (block_ids st) | Some es \<Rightarrow> es ! i)
          in sts[grp := zero_stale_group alloc (blocks_per_chunk cfg) stop st])) ixs sts) = map F sts"
    if "\<And>b st. F (zero_stale_group alloc (blocks_per_chunk cfg) b st) = F st" for F :: "'a group_state \<Rightarrow> 'z"
  proof (induction ixs arbitrary: sts)
    case (Cons x xs)
    then show ?case using that by (cases x) (simp add: Let_def map_update_same)
  qed simp
  from this [of offload_keys] this [of "\<lambda>st. length (block_ids st)"]
  show "keys_of (zero_stale alloc cfg ends sts) = keys_of sts"
    "map (\<lambda>st. length (block_ids st)) (zero_stale alloc cfg ends sts) = map (\<lambda>st. length (block_ids st)) sts"
    by (simp_all add: zero_stale_def ixs_def [symmetric] zero_stale_group_def)
qed

lemma idle_lengths:
  assumes "map (\<lambda>st. length (block_ids st)) (group_states rs') = map (\<lambda>st. length (block_ids st)) (group_states rs)"
  shows "idle rs' = idle rs"
proof -
  have "idle x \<longleftrightarrow> (\<forall>n \<in> set (map (\<lambda>st. length (block_ids st)) (group_states x)). n = 0)" for x :: "('x, 'y) req_state"
    by (simp add: idle_def)
  with assms show ?thesis by metis
qed

lemma map_of_map_key: "map_of (map (\<lambda>(k, v). (k, f k v)) xs) k = map_option (f k) (map_of xs k)"
  by (induction xs) auto

lemma update_req_states_ledger:
  assumes inv: "ledger ext s" and es: "\<forall>e \<in> set (req_data out). entry_ok s e"
  obtains s' where "update_req_states ext out s = Some s'" "ledger ext s'" "follows ext s s'"
    "\<forall>r \<in> fst ` set (req_data out). \<exists>rs'. map_of (req_status s') r = Some rs' \<and> fresh ext (config s) rs'"
proof -
  note goal = that
  from inv es obtain s1 ends where s1: "update_req_loop ext (req_data out) (s, []) = Some (s1, ends)" "ledger ext s1"
    "follows ext s s1" "\<forall>r \<in> fst ` set (req_data out). \<exists>rs'. map_of (req_status s1) r = Some rs' \<and> fresh ext (config s) rs'"
    by (rule update_req_loop_ledger)
  show thesis
  proof (cases "sliding_groups (config s1) = [] \<or> batch_allocated s1 = {}")
    case True
    with s1 goal show thesis by (simp add: update_req_states_def)
  next
    case False
    define z where "z = (\<lambda>r rs. rs\<lparr> group_states :=
      zero_stale (batch_allocated s1) (config s1) (map_of ends r) (group_states (rs :: ('a, 'b) req_state)) \<rparr>)"
    define s2 where "s2 = s1\<lparr> req_status := map (\<lambda>(r, rs). (r, z r rs)) (req_status s1) \<rparr>"
    have u: "update_req_states ext out s = Some s2"
      using s1(1) False by (simp add: update_req_states_def s2_def z_def)
    have look: "map_of (req_status s2) r = map_option (z r) (map_of (req_status s1) r)" for r
      by (simp add: s2_def map_of_map_key)
    have keep: "keys_of (group_states (z r rs)) = keys_of (group_states rs)" "req (z r rs) = req rs" "rctx (z r rs) = rctx rs"
      "transfer_jobs (z r rs) = transfer_jobs rs" "finished_signaled (z r rs) = finished_signaled rs" for r rs by (simp_all add: z_def zero_stale_keeps)
    have idle: "idle (z r rs) = idle rs" for r rs
      by (rule idle_lengths) (simp add: z_def zero_stale_keeps)
    have ev: "evolves ext (config s1) rs (z r rs)" for r rs
      by (simp add: evolves_def keep fresh_def keys_from_def)
    have "ledger ext s2"
    proof (rule ledger_frame [OF s1(2)])
      show "dict_ok (req_status s2)"
        using ledgerD(2) [OF s1(2)] by (simp add: s2_def split_def comp_def)
      show "req_step ext s1 r a b" if "map_of (req_status s1) r = Some a" "map_of (req_status s2) r = Some b" for r a b
      proof -
        from that have "b = z r a" by (simp add: look)
        moreover have "req_wf ext (config s1) r (z r a)"
          by (rule req_wf_groups [OF ledgerD(6) [OF s1(2) that(1)]]) (simp_all add: keep)
        ultimately show ?thesis by (simp add: req_step_def keep idle)
      qed
      show "map_of (req_status s2) r = None \<longleftrightarrow> map_of (req_status s1) r = None" for r by (simp add: look)
    qed (simp_all add: s2_def)
    moreover have f: "follows ext s1 s2"
      unfolding follows_def look
      by (intro conjI allI) (simp_all add: s2_def, simp add: option.rel_map(2) rel_option_reflI ev)
    moreover have "\<exists>rs'. map_of (req_status s2) r = Some rs' \<and> fresh ext (config s) rs'"
      if "r \<in> fst ` set (req_data out)" for r
    proof -
      from s1(4) that obtain rs' where "map_of (req_status s1) r = Some rs'" "fresh ext (config s) rs'" by blast
      then show ?thesis by (simp add: look fresh_def keys_from_def keep)
    qed
    ultimately show thesis using follows_trans [OF s1(3)] by (intro goal [OF u]) blast+
  qed
qed

end
