(* ===== verification/OffloadStore.thy ===== *)
theory OffloadStore
  imports OffloadStep
begin

text \<open>
  The store jobs: which chunks are offered, that offering fails no assertion, and that the source
  blocks of a job are distinct blocks of the request.
\<close>

section \<open>Offering\<close>

lemma storable_le:
  assumes "offloadable \<le> n" "0 < tokens_per_chunk g"
  shows "storable_chunks cfg r g st offloadable \<le> n div tokens_per_chunk g"
proof -
  have "storable_chunks cfg r g st offloadable \<le> offloadable div tokens_per_chunk g"
    by (auto simp: storable_chunks_def Let_def min_le_iff_disj)
  with div_le_mono [OF assms(1)] show ?thesis by (rule order_trans [rotated])
qed

lemma storable_blocks:
  "storable_chunks cfg r g st offloadable * blocks_per_chunk cfg \<le> length (block_ids st)"
proof -
  have "storable_chunks cfg r g st offloadable \<le> length (block_ids st) div blocks_per_chunk cfg"
    by (simp add: storable_chunks_def Let_def)
  from mult_le_mono1 [OF this, of "blocks_per_chunk cfg"] show ?thesis
    by (rule order_trans) (rule div_times_less_eq_dividend)
qed

lemma storable_idle: "block_ids st = [] \<Longrightarrow> storable_chunks cfg r g st offloadable = 0"
  by (simp add: storable_chunks_def Let_def)

lemma offer_chunks_Some:
  assumes "group_ok bpc i g"
  obtains ks where "offer_chunks g n idx xs = Some ks" "set ks \<subseteq> fst ` set xs"
proof -
  have reach: "\<exists>b. is_store_reachable_swa_chunk j n (alignment_chunk_count g)
      (sliding_window_size_in_chunks g) (is_eagle_group g) = Some b" for j
    using assms by (auto simp: group_ok_def is_store_reachable_swa_chunk_def Let_def split: option.splits)
  have "\<exists>ks. offer_chunks g n idx xs = Some ks \<and> set ks \<subseteq> fst ` set xs"
  proof (induction xs arbitrary: idx)
    case (Cons x xs)
    obtain k b where x: "x = (k, b)" by (cases x) auto
    from Cons.IH [of "idx + 1"] obtain ks where "offer_chunks g n (idx + 1) xs = Some ks" "set ks \<subseteq> fst ` set xs" by blast
    with x reach [of idx] show ?case by auto
  qed simp
  with that show thesis by blast
qed

lemma block_slice_length:
  assumes "0 < bpc" "start \<le> n" "n * bpc \<le> length bs"
  shows "length (islice_from (start * bpc + bpc - 1) bpc (take (n * bpc) bs)) = n - start"
proof -
  have "start \<le> n * bpc div bpc" using assms by simp
  from cdiv_tail [OF assms(1) this] assms show ?thesis
    by (simp add: islice_from_conv mult.commute)
qed

lemma offer_group_Some:
  assumes "group_ok (blocks_per_chunk cfg) i g" "0 < blocks_per_chunk cfg"
    and "storable_chunks cfg r g st offloadable \<le> length (offload_keys st)"
  obtains ks where "offer_group cfg r offloadable g st = Some ks"
proof (cases "skip_external_reuse g \<or> storable_chunks cfg r g st offloadable \<le> next_stored_chunk_idx st")
  case True
  with that show thesis by (simp add: offer_group_def)
next
  case False
  let ?n = "storable_chunks cfg r g st offloadable" and ?start = "next_stored_chunk_idx st"
  let ?keys = "drop ?start (take ?n (offload_keys st))"
  let ?ids = "islice_from (?start * blocks_per_chunk cfg + blocks_per_chunk cfg - 1) (blocks_per_chunk cfg)
    (take (?n * blocks_per_chunk cfg) (block_ids st))"
  have "length ?keys = ?n - ?start" using assms(3) by simp
  moreover have "length ?ids = ?n - ?start"
    using block_slice_length [OF assms(2) _ storable_blocks, of ?start r g st offloadable] False by simp
  ultimately have eq: "length ?keys = length ?ids" by simp
  obtain ks where "offer_chunks g ?n ?start (zip ?keys ?ids) = Some ks"
    by (rule offer_chunks_Some [OF assms(1)])
  with eq have "offer_group cfg r offloadable g st = Some ks"
    using False unfolding offer_group_def Let_def by (simp only: if_False require_def if_True simp_thms bind.bind_lunit)
  with that show thesis .
qed

lemma offer_group_idle:
  "block_ids st = [] \<Longrightarrow> offer_group cfg r offloadable g st = Some []"
  by (simp add: offer_group_def storable_idle)

lemma offer_groups_Some:
  assumes "\<forall>(g, st) \<in> set gs. \<exists>ks. offer_group cfg r offloadable g st = Some ks"
  obtains ks where "offer_groups cfg r offloadable gs = Some ks"
proof -
  have "\<exists>ks. offer_groups cfg r offloadable gs = Some ks"
    using assms
  proof (induction gs)
    case (Cons x gs)
    obtain g st where x: "x = (g, st)" by (cases x) auto
    with Cons.prems obtain ks where "offer_group cfg r offloadable g st = Some ks" by auto
    moreover from Cons obtain ks' where "offer_groups cfg r offloadable gs = Some ks'" by auto
    ultimately show ?case by (simp add: x)
  qed simp
  with that show thesis by blast
qed

lemma offer_groups_idle:
  "\<forall>(g, st) \<in> set gs. block_ids st = [] \<Longrightarrow> offer_groups cfg r offloadable gs = Some []"
  by (induction gs) (auto simp: offer_group_idle)

lemma offer_request:
  assumes cfg: "config_ok cfg" and wf: "req_wf ext cfg r rs" and fresh: "fresh ext cfg rs"
    and "offloadable \<le> num_tokens (req rs)"
  obtains ks where "offer_groups cfg (req rs) offloadable (zip (kv_group_configs cfg) (group_states rs)) = Some ks"
proof -
  have enough: "keys_enough cfg (num_tokens (req rs)) (group_states rs)"
    by (rule keys_from_enough [OF fresh [unfolded fresh_def] _ order_refl cfg]) (use wf in \<open>simp add: req_wf_def\<close>)
  have "\<exists>ks. offer_group cfg (req rs) offloadable g st = Some ks"
    if gs: "(g, st) \<in> set (zip (kv_group_configs cfg) (group_states rs))" for g st
  proof -
    from gs obtain i where i: "i < length (kv_group_configs cfg)" "g = kv_group_configs cfg ! i" "st = group_states rs ! i"
      by (auto simp: set_zip)
    note ok = config_okD [OF cfg i(1)]
    with cfg have "0 < tokens_per_chunk g" by (simp add: group_ok_def i)
    from storable_le [OF assms(4) this, of cfg "req rs" st] enough i
    have "storable_chunks cfg (req rs) g st offloadable \<le> length (offload_keys st)"
      by (fastforce simp: keys_enough_def)
    with ok cfg i show ?thesis by (metis config_ok_pos(1) offer_group_Some)
  qed
  then have "\<forall>(g, st) \<in> set (zip (kv_group_configs cfg) (group_states rs)).
      \<exists>ks. offer_group cfg (req rs) offloadable g st = Some ks" by auto
  from offer_groups_Some [OF this] that show thesis by blast
qed

section \<open>Source blocks\<close>

abbreviation real_blocks :: "nat list \<Rightarrow> nat list" where
  "real_blocks \<equiv> filter (\<lambda>b. b \<noteq> 0)"

lemma subseq_concat_map: "subseq xs ys \<Longrightarrow> subseq (concat (map f xs)) (concat (map f ys))"
proof (induction rule: list_emb.induct)
  case (list_emb_Cons xs ys y)
  then show ?case by (simp add: list_emb_append2)
next
  case (list_emb_Cons2 x y xs ys)
  then show ?case by (simp add: list_emb_append_mono)
qed simp

lemma concat_slices:
  "start \<le> n \<Longrightarrow> concat (map (\<lambda>c. take k (drop (c * k) bs)) [start..<n]) = take ((n - start) * k) (drop (start * k) bs)"
proof (induction n)
  case (Suc n)
  show ?case
  proof (cases "start = Suc n")
    case False
    with Suc.prems have le: "start \<le> n" by simp
    have "drop ((n - start) * k) (drop (start * k) bs) = drop (n * k) bs"
      using le by (simp add: add_mult_distrib [symmetric])
    then have "take ((Suc n - start) * k) (drop (start * k) bs)
        = take ((n - start) * k) (drop (start * k) bs) @ take k (drop (n * k) bs)"
      using le by (simp add: Suc_diff_le take_add add.commute [of k])
    with Suc.IH le show ?thesis by simp
  qed simp
qed simp

lemma real_blocks_concat: "real_blocks (concat (map f xs)) = concat (map (\<lambda>x. real_blocks (f x)) xs)"
  by (induction xs) simp_all

lemma subseq_slice: "subseq (take a (drop b bs)) bs"
  by (rule subseq_order.order_trans [OF prefix_imp_subseq [OF take_is_prefix] suffix_imp_subseq [OF suffix_drop]])

lemma chunk_blocks_slice:
  assumes "(c + 1) * bpc \<le> length bs"
  shows "map snd (chunk_blocks bpc bs c) = real_blocks (take bpc (drop (c * bpc) bs))"
proof -
  have "take bpc (drop (c * bpc) bs) = map (\<lambda>i. bs ! (c * bpc + i)) [0..<bpc]"
    by (rule nth_equalityI) (use assms in auto)
  moreover have "map snd (chunk_blocks bpc bs c) = real_blocks (map (\<lambda>i. bs ! (c * bpc + i)) [0..<bpc])"
    by (simp add: chunk_blocks_def filter_map comp_def)
  ultimately show ?thesis by simp
qed

lemma store_blocks_subseq: "subseq (store_blocks (store_group cfg chosen r offloadable g st)) (real_blocks (block_ids st))"
proof -
  let ?n = "storable_chunks cfg r g st offloadable" and ?start = "next_stored_chunk_idx st" and ?k = "blocks_per_chunk cfg"
  let ?keys = "drop ?start (take ?n (offload_keys st))"
  let ?cs = "map fst (chosen_chunks chosen ?start ?keys)"
  have sub: "subseq ?cs [?start..<?start + length ?keys]"
  proof -
    have "subseq ?cs (map fst (zip [?start..<?start + length ?keys] ?keys))"
      unfolding chosen_chunks_def by (intro subseq_map subseq_filter_left)
    then show ?thesis by simp
  qed
  have "subseq (concat (map (\<lambda>c. map snd (chunk_blocks ?k (block_ids st) c)) ?cs)) (real_blocks (block_ids st))"
  proof (cases "?start < ?n")
    case True
    have "subseq [?start..<?start + length ?keys] [?start..<?n]"
    proof -
      have "?start + length ?keys \<le> ?n" using True by simp
      then have "[?start..<?n] = [?start..<?start + length ?keys] @ [?start + length ?keys..<?n]"
        by (metis le_add1 le_iff_add upt_add_eq_append)
      then show ?thesis by (metis list_emb_append2 subseq_rev_drop_many prefix_imp_subseq prefixI)
    qed
    with sub have "subseq ?cs [?start..<?n]" by (rule subseq_order.order_trans)
    note subseq_concat_map [OF this, of "\<lambda>c. map snd (chunk_blocks ?k (block_ids st) c)"]
    also have "concat (map (\<lambda>c. map snd (chunk_blocks ?k (block_ids st) c)) [?start..<?n])
        = concat (map (\<lambda>c. real_blocks (take ?k (drop (c * ?k) (block_ids st)))) [?start..<?n])"
    proof (intro arg_cong [where f = concat] map_cong refl chunk_blocks_slice)
      fix c assume "c \<in> set [?start..<?n]"
      then have "(c + 1) * ?k \<le> ?n * ?k" by (intro mult_le_mono1) simp
      with storable_blocks [of cfg r g st offloadable] show "(c + 1) * ?k \<le> length (block_ids st)" by linarith
    qed
    also have "\<dots> = real_blocks (take ((?n - ?start) * ?k) (drop (?start * ?k) (block_ids st)))"
      unfolding real_blocks_concat [symmetric] concat_slices [OF less_imp_le [OF True]] ..
    also have "subseq \<dots> (real_blocks (block_ids st))"
      by (rule subseq_filter [OF subseq_slice])
    finally show ?thesis .
  next
    case False
    then show ?thesis by (simp add: chosen_chunks_def)
  qed
  moreover have "store_blocks (store_group cfg chosen r offloadable g st)
      = concat (map (\<lambda>c. map snd (chunk_blocks ?k (block_ids st) c)) ?cs)"
    by (simp add: store_blocks_def store_group_def Let_def map_concat comp_def split_def)
  ultimately show ?thesis by simp
qed

section \<open>Watched blocks\<close>

text \<open>A real block is at one place of the request only.\<close>

definition blocks_distinct :: "('h, 'k) req_state \<Rightarrow> bool" where
  "blocks_distinct rs \<longleftrightarrow> distinct (real_blocks (concat (map block_ids (group_states rs))))"

lemma subseq_distinct: "subseq xs ys \<Longrightarrow> distinct ys \<Longrightarrow> distinct xs"
  by (metis distinct_nthsI subseq_conv_nths)

lemma subseq_set: "subseq xs ys \<Longrightarrow> set xs \<subseteq> set ys"
  by (metis set_nths_subset subseq_conv_nths)

lemma subseq_concat2:
  "list_all2 subseq xss yss \<Longrightarrow> subseq (concat xss) (concat yss)"
  by (induction rule: list_all2_induct) (simp_all add: list_emb_append_mono)

definition store_groups ::
  "sched_config \<Rightarrow> 'k set \<Rightarrow> nat \<Rightarrow> ('h, 'k) req_state \<Rightarrow> 'k group_store list" where
  "store_groups cfg chosen offloadable rs =
     map2 (store_group cfg chosen (req rs) offloadable) (kv_group_configs cfg) (group_states rs)"

lemma store_groups_subseq:
  assumes "length (group_states rs) = length (kv_group_configs cfg)"
  shows "subseq (concat (map store_blocks (store_groups cfg chosen offloadable rs)))
    (real_blocks (concat (map block_ids (group_states rs))))"
  unfolding real_blocks_concat [where f = block_ids]
proof (rule subseq_concat2)
  show "list_all2 subseq (map store_blocks (store_groups cfg chosen offloadable rs))
      (map (\<lambda>x. real_blocks (block_ids x)) (group_states rs))"
    using assms store_blocks_subseq by (fastforce simp: store_groups_def list_all2_conv_all_nth)
qed

lemma distinct_partition:
  assumes "distinct (concat (map f xs))"
  shows "distinct (concat (map f (filter P xs)) @ concat (map f (filter (\<lambda>x. \<not> P x) xs)))"
  using assms by (induction xs) auto

lemma watched_distinct:
  assumes "blocks_distinct rs" "length (group_states rs) = length (kv_group_configs cfg)"
  shows "distinct (watched_blocks True (zip (kv_group_configs cfg) (store_groups cfg chosen offloadable rs))
    @ watched_blocks False (zip (kv_group_configs cfg) (store_groups cfg chosen offloadable rs)))"
proof -
  let ?gs = "zip (kv_group_configs cfg) (store_groups cfg chosen offloadable rs)"
  have "map (\<lambda>(g, x). store_blocks x) ?gs = map store_blocks (store_groups cfg chosen offloadable rs)"
    using assms(2) by (intro nth_equalityI) (simp_all add: store_groups_def)
  with subseq_distinct [OF store_groups_subseq [OF assms(2)]] assms(1)
  have "distinct (concat (map (\<lambda>(g, x). store_blocks x) ?gs))" by (simp add: blocks_distinct_def)
  from distinct_partition [OF this, of "\<lambda>(g, x). (sliding_window_size_in_chunks g \<noteq> None) = True"]
  show ?thesis by (simp add: watched_blocks_def split_def)
qed

lemma dget_watch: "dget (watch j bs d) b {} = dget d b {} \<union> (if b \<in> set bs then {j} else {})"
  unfolding watch_def by (induction bs arbitrary: d) auto

lemma watch_ok_iff:
  "watch_ok w d \<longleftrightarrow> dict_ok d \<and> (\<forall>b. dget d b {} = w b \<and> map_of d b \<noteq> Some {})"
proof -
  have "map_of d b = (if w b = {} then None else Some (w b)) \<longleftrightarrow> dget d b {} = w b \<and> map_of d b \<noteq> Some {}" for b
    by (cases "map_of d b") (auto simp: dget_def)
  then show ?thesis unfolding watch_ok_def by (simp only:)
qed

lemma map_of_watch: "map_of d b \<noteq> Some {} \<Longrightarrow> map_of (watch j bs d) b \<noteq> Some {}"
  unfolding watch_def by (induction bs arbitrary: d) auto

lemma dict_ok_watch: "dict_ok d \<Longrightarrow> dict_ok (watch j bs d)"
  unfolding watch_def by (induction bs arbitrary: d) auto

lemma watch_ok_watch:
  assumes "watch_ok w d"
  shows "watch_ok (\<lambda>b. w b \<union> (if b \<in> set bs then {j} else {})) (watch j bs d)"
proof -
  from assms have d: "dict_ok d" "\<And>b. dget d b {} = w b" "\<And>b. map_of d b \<noteq> Some {}"
    unfolding watch_ok_iff by blast+
  show ?thesis
    unfolding watch_ok_iff dget_watch d(2) using dict_ok_watch [OF d(1)] map_of_watch [OF d(3)] by blast
qed

section \<open>The ledger\<close>

lemma advance_keeps:
  assumes "length (group_states rs) = length (kv_group_configs cfg)"
  shows "keys_of (group_states (advance_req cfg n rs)) = keys_of (group_states rs)"
    "map block_ids (group_states (advance_req cfg n rs)) = map block_ids (group_states rs)"
  using assms by (simp_all add: advance_req_def advance_stored_idx_def map_map2 del: map_map)

lemma advance_sel [simp]:
  "req (advance_req cfg n rs) = req rs" "rctx (advance_req cfg n rs) = rctx rs"
  "transfer_jobs (advance_req cfg n rs) = transfer_jobs rs"
  "finished_signaled (advance_req cfg n rs) = finished_signaled rs"
  by (simp_all add: advance_req_def)

lemma add_store_job_ledger:
  assumes inv: "ledger ext s" and rs: "map_of (req_status s) r = Some rs"
    and so: "stores_only s rs" and bd: "blocks_distinct rs"
  obtains s' job where "add_store_job ext r offloadable accepted spec rs s = Some (s', (job_counter s, job))"
    "ledger ext s'" "config s' = config s" "batch_load_jobs s' = batch_load_jobs s"
    "req_status s' = dput r ((advance_req (config s) offloadable rs)\<lparr> transfer_jobs := insert (job_counter s) (transfer_jobs rs) \<rparr>) (req_status s)"
proof -
  let ?cfg = "config s" and ?j = "job_counter s"
  note len = req_wf_length [OF ledgerD(6) [OF inv rs]]
  let ?gs = "store_groups ?cfg (set accepted) offloadable rs"
  define sliding where "sliding = watched_blocks True (zip (kv_group_configs ?cfg) ?gs)"
  define others where "others = watched_blocks False (zip (kv_group_configs ?cfg) ?gs)"
  define rs1 where "rs1 = (advance_req ?cfg offloadable rs)\<lparr> transfer_jobs := insert ?j (transfer_jobs rs) \<rparr>"
  define js where "js = \<lparr> job_req = r, pending_count = int (num_workers ?cfg), job_keys = set accepted,
    is_store = True, non_sliding_block_ids = others, sliding_block_ids = sliding \<rparr>"
  define x where "x = the (add_store_job ext r offloadable accepted spec rs s)"
  have "\<forall>i \<in> transfer_jobs rs. case map_of (jobs s) i of None \<Rightarrow> False | Some js \<Rightarrow> is_store js"
    using so by (auto simp: stores_only_def split: option.split)
  then have x: "add_store_job ext r offloadable accepted spec rs s = Some x"
    and sel: "fst (snd x) = ?j" "config (fst x) = ?cfg" "stale_job_threshold (fst x) = stale_job_threshold s"
      "job_counter (fst x) = ?j + 1" "jobs (fst x) = dput ?j js (jobs s)" "req_status (fst x) = dput r rs1 (req_status s)"
      "pending_jobs (fst x) = (let p = watch ?j sliding (pending_jobs s) in if is_finished (req rs) then watch ?j others p else p)"
      "chunks_being_loaded (fst x) = chunks_being_loaded s" "batch_load_jobs (fst x) = batch_load_jobs s"
    unfolding x_def add_store_job_def store_groups_def [symmetric] Let_def sliding_def [symmetric] others_def [symmetric]
    by (simp_all add: put_req_def js_def rs1_def)
  have "keys_of (group_states rs1) = keys_of (group_states rs)" using advance_keeps(1) [OF len] by (simp add: rs1_def)
  then have wf: "req_wf ext ?cfg r rs1"
    using ledgerD(6) [OF inv rs] by (simp add: req_wf_def rs1_def keys_from_def)
  have "watch_ok (\<lambda>b. watchers s b \<union> (if watches js (is_finished (req rs)) b then {?j} else {})) (pending_jobs (fst x))"
  proof -
    note w = watch_ok_watch [OF ledgerD(8) [OF inv], of sliding ?j]
    have "watchers s b \<union> (if b \<in> set sliding then {?j} else {}) \<union> (if b \<in> set others then {?j} else {})
        = watchers s b \<union> (if watches js True b then {?j} else {})" for b
      by (simp add: watches_def js_def)
    with w watch_ok_watch [OF w, of others ?j] show ?thesis
      by (cases "is_finished (req rs)") (simp_all add: sel watches_def js_def Let_def)
  qed
  then have "ledger ext (fst x)"
    by (intro ledger_add_job [OF inv rs wf _ _ _ _ _ _ sel(2-6)])
      (use so ledgerD(9) [OF inv] watched_distinct [OF bd len] in
        \<open>simp_all add: rs1_def js_def sel sliding_def others_def\<close>)
  with that [of "fst x" "snd (snd x)"] x sel show thesis by (simp add: rs1_def prod_eq_iff)
qed

text \<open>Building jobs leaves the keys and the blocks of every request alone.\<close>

definition same_blocks :: "('h, 'k) req_state \<Rightarrow> ('h, 'k) req_state \<Rightarrow> bool" where
  "same_blocks rs rs' \<longleftrightarrow> req rs' = req rs \<and> rctx rs' = rctx rs \<and> finished_signaled rs' = finished_signaled rs
     \<and> keys_of (group_states rs') = keys_of (group_states rs)
     \<and> map block_ids (group_states rs') = map block_ids (group_states rs)"

definition built :: "('h, 'k, 's, 'm) sched \<Rightarrow> ('h, 'k, 's, 'm) sched \<Rightarrow> bool" where
  "built s s' \<longleftrightarrow> config s' = config s \<and> batch_load_jobs s' = batch_load_jobs s
     \<and> (\<forall>r. rel_option same_blocks (map_of (req_status s) r) (map_of (req_status s') r))"

lemma same_blocks_refl [simp]: "same_blocks rs rs"
  by (simp add: same_blocks_def)

lemma built_same: "config s' = config s \<Longrightarrow> batch_load_jobs s' = batch_load_jobs s \<Longrightarrow> req_status s' = req_status s \<Longrightarrow> built s s'"
  by (simp add: built_def option.rel_refl)

lemma built_put:
  assumes "map_of (req_status s) r = Some rs" "same_blocks rs rs'"
    and "config s' = config s" "batch_load_jobs s' = batch_load_jobs s" "req_status s' = dput r rs' (req_status s)"
  shows "built s s'"
  using assms by (simp add: built_def option.rel_refl)

lemma rel_option_trans:
  "(\<And>x y z. R x y \<Longrightarrow> R y z \<Longrightarrow> R x z) \<Longrightarrow> rel_option R a b \<Longrightarrow> rel_option R b c \<Longrightarrow> rel_option R a c"
  by (cases a; cases b; cases c) auto

lemma same_blocks_trans: "same_blocks a b \<Longrightarrow> same_blocks b c \<Longrightarrow> same_blocks a c"
  by (simp add: same_blocks_def)

lemma built_trans: "built a b \<Longrightarrow> built b c \<Longrightarrow> built a c"
  unfolding built_def by (auto intro: rel_option_trans [of same_blocks, OF same_blocks_trans])

definition build_ready :: "('h, 'k, 's, 'm) externals \<Rightarrow> scheduler_output \<Rightarrow> ('h, 'k, 's, 'm) sched \<Rightarrow> req_id \<Rightarrow> bool" where
  "build_ready ext out s r \<longleftrightarrow> (case map_of (req_status s) r of None \<Rightarrow> True
     | Some rs \<Rightarrow> fresh ext (config s) rs \<and> blocks_distinct rs
         \<and> (is_finished (req rs) \<or> map_of (num_scheduled_tokens out) r \<noteq> None))"

lemma build_ready_built:
  assumes "built s s'" "build_ready ext out s r"
  shows "build_ready ext out s' r"
proof -
  have "rel_option same_blocks (map_of (req_status s) r) (map_of (req_status s') r)" "config s' = config s"
    using assms(1) by (simp_all add: built_def)
  with assms(2) show ?thesis
    by (cases "map_of (req_status s) r"; cases "map_of (req_status s') r")
      (simp_all add: build_ready_def same_blocks_def fresh_def keys_from_def blocks_distinct_def)
qed

lemma calc_offloadable_le: "calc_num_offloadable_tokens cfg r limit n \<le> num_tokens r"
  by (auto simp: calc_num_offloadable_tokens_def Let_def min_le_iff_disj split: option.split)

lemma put_advance_ledger:
  assumes inv: "ledger ext s" and rs: "map_of (req_status s) r = Some rs"
  shows "ledger ext (put_req r (advance_req (config s) n rs) (s\<lparr> mgr := m \<rparr>))"
    "built s (put_req r (advance_req (config s) n rs) (s\<lparr> mgr := m \<rparr>))"
proof -
  note wf = ledgerD(6) [OF inv rs]
  note keep = advance_keeps [OF req_wf_length [OF wf], of n]
  have "req_wf ext (config s) r (advance_req (config s) n rs)"
    by (rule req_wf_groups [OF wf]) (simp_all add: keep)
  moreover have "idle (advance_req (config s) n rs) = idle rs" by (rule idle_blocks) (rule keep(2))
  ultimately have "req_step ext s r rs (advance_req (config s) n rs)" by (simp add: req_step_def)
  then show "ledger ext (put_req r (advance_req (config s) n rs) (s\<lparr> mgr := m \<rparr>))"
    by (rule ledger_put [OF inv rs]) (simp_all add: put_req_def)
  have "same_blocks rs (advance_req (config s) n rs)" by (simp add: same_blocks_def keep)
  then show "built s (put_req r (advance_req (config s) n rs) (s\<lparr> mgr := m \<rparr>))"
    by (rule built_put [OF rs]) (simp_all add: put_req_def)
qed

lemma build_store_job_ledger:
  assumes inv: "ledger ext s" and ready: "build_ready ext out s r"
  obtains s' job where "build_store_job ext out r s = Some (s', job)" "ledger ext s'" "built s s'"
proof (cases "map_of (req_status s) r")
  case None
  with inv show thesis by (intro that [of s None]) (simp_all add: build_store_job_def built_same)
next
  case (Some rs)
  let ?cfg = "config s"
  note cfg = ledgerD(1) [OF inv] and wf = ledgerD(6) [OF inv Some]
  from ready Some have fr: "fresh ext ?cfg rs" and bd: "blocks_distinct rs" by (simp_all add: build_ready_def)
  have "tokens_after_batch out r (req rs) \<noteq> None"
    using ready Some by (auto simp: build_ready_def tokens_after_batch_def)
  then obtain n where n: "tokens_after_batch out r (req rs) = Some n" by blast
  define off where "off = calc_num_offloadable_tokens ?cfg (req rs) (max_offload_tokens rs) n"
  have "off \<le> num_tokens (req rs)" by (simp add: off_def calc_offloadable_le)
  from offer_request [OF cfg wf fr this] obtain keys where
    keys: "offer_groups ?cfg (req rs) off (zip (kv_group_configs ?cfg) (group_states rs)) = Some keys" .
  have alt: "build_store_job ext out r s =
      (if keys = [] then Some (put_req r (advance_req ?cfg off rs) s, None)
       else case mgr_prepare_store ext keys (rctx rs) (mgr s) of
         (None, m) \<Rightarrow> Some (s\<lparr> mgr := m, allocation_failures := allocation_failures s + 1 \<rparr>, None)
       | (Some (accepted, spec), m) \<Rightarrow>
           if accepted = [] then Some (put_req r (advance_req ?cfg off rs) (s\<lparr> mgr := m \<rparr>), None)
           else do { (s', job) \<leftarrow> add_store_job ext r off accepted spec rs (s\<lparr> mgr := m \<rparr>); Some (s', Some job) })"
    by (simp only: build_store_job_def Some option.case Let_def n keys [unfolded off_def] bind.bind_lunit off_def)
  obtain res m where res: "mgr_prepare_store ext keys (rctx rs) (mgr s) = (res, m)" by fastforce
  show thesis
  proof (cases "keys = []")
    case True
    with that alt put_advance_ledger [OF inv Some, of off "mgr s"] show thesis by simp
  next
    case keys': False
    show thesis
    proof (cases res)
      case None
      have "ledger ext (s\<lparr> mgr := m, allocation_failures := allocation_failures s + 1 \<rparr>)"
        by (rule ledger_same [OF inv]) simp_all
      with that alt keys' res None show thesis by (simp add: built_same)
    next
      case Res: (Some a)
      obtain accepted spec where a: "a = (accepted, spec)" by (cases a) auto
      show thesis
      proof (cases "accepted = []")
        case True
        with that alt keys' res Res a put_advance_ledger [OF inv Some, of off m] show thesis by simp
      next
        case False
        have "\<not> idle rs"
        proof
          assume "idle rs"
          then have "\<forall>(g, st) \<in> set (zip (kv_group_configs ?cfg) (group_states rs)). block_ids st = []"
            by (auto simp: idle_def dest: set_zip_rightD)
          from offer_groups_idle [OF this, of ?cfg "req rs" off] keys keys' show False by simp
        qed
        with ledgerD(7) [OF inv Some] have so: "stores_only s rs" by (simp add: req_jobs_def)
        have inv': "ledger ext (s\<lparr> mgr := m \<rparr>)" by (rule ledger_same [OF inv]) simp_all
        obtain s' job where job: "add_store_job ext r off accepted spec rs (s\<lparr> mgr := m \<rparr>) = Some (s', (job_counter s, job))"
          "ledger ext s'" "config s' = config s" "batch_load_jobs s' = batch_load_jobs s"
          "req_status s' = dput r ((advance_req ?cfg off rs)\<lparr> transfer_jobs := insert (job_counter s) (transfer_jobs rs) \<rparr>) (req_status s)"
          using add_store_job_ledger [OF inv', of r rs off accepted spec] Some so bd
          by (auto simp: stores_only_def)
        have "same_blocks rs ((advance_req ?cfg off rs)\<lparr> transfer_jobs := insert (job_counter s) (transfer_jobs rs) \<rparr>)"
          using advance_keeps [OF req_wf_length [OF wf], of off] by (simp add: same_blocks_def)
        from built_put [OF Some this job(3-5)] that alt keys' res Res a False job(1,2) show thesis by simp
      qed
    qed
  qed
qed

lemma build_store_loop_ledger:
  assumes "ledger ext s" "\<forall>r \<in> set rs. build_ready ext out s r"
  obtains s' js where "build_store_loop ext out rs s = Some (s', js)" "ledger ext s'" "built s s'"
  using assms
proof (induction rs arbitrary: s thesis)
  case Nil
  then show ?case by (simp add: built_same)
next
  case (Cons r rs)
  from Cons.prems(3) have "build_ready ext out s r" by simp
  with Cons.prems(2) obtain s1 job where s1: "build_store_job ext out r s = Some (s1, job)" "ledger ext s1" "built s s1"
    by (rule build_store_job_ledger)
  have "\<forall>q \<in> set rs. build_ready ext out s1 q" using Cons.prems(3) build_ready_built [OF s1(3)] by simp
  with s1(2) obtain s2 js where s2: "build_store_loop ext out rs s1 = Some (s2, js)" "ledger ext s2" "built s1 s2"
    using Cons.IH by blast
  show ?case
    by (rule Cons.prems(1) [OF _ s2(2) built_trans [OF s1(3) s2(3)]]) (simp add: s1(1) s2(1))
qed

end
