(* ===== verification/OffloadRun.thy ===== *)
theory OffloadRun
  imports OffloadStore
begin

text \<open>
  The rest of the schedule step, completed transfers, finished requests and resets keep the ledger;
  the step relation of the scheduler with its environment, and its reachable states.
\<close>

section \<open>Flushes and finished requests\<close>

lemma flush_preempted_ledger:
  assumes inv: "ledger ext s" and ok: "\<forall>r \<in> set rs. \<forall>st. map_of (req_status s) r = Some st \<longrightarrow> stores_only s st"
  obtains f where "flush_preempted rs s = Some (s\<lparr> jobs_to_flush := f \<rparr>)"
proof -
  have "\<exists>f. flush_preempted rs (s\<lparr> jobs_to_flush := g \<rparr>) = Some (s\<lparr> jobs_to_flush := f \<rparr>)" for g
    using ok
  proof (induction rs arbitrary: g)
    case (Cons r rs)
    show ?case
    proof (cases "map_of (req_status s) r")
      case None
      with Cons show ?thesis by simp
    next
      case (Some st)
      with Cons.prems have "stores_only s st" by simp
      then have "\<forall>i \<in> transfer_jobs st. case map_of (jobs s) i of None \<Rightarrow> False | Some js \<Rightarrow> is_store js"
        by (auto simp: stores_only_def split: option.split)
      with Some Cons.IH [of "g \<union> transfer_jobs st"] Cons.prems show ?thesis by simp
    qed
  qed auto
  from this [of "jobs_to_flush s"] that show thesis by auto
qed

lemma signal_finished_ledger:
  assumes inv: "ledger ext s" and fin: "\<And>rs. map_of (req_status s) r = Some rs \<Longrightarrow> is_finished (req rs)"
  shows "ledger ext (signal_finished ext r s)"
proof (cases "map_of (req_status s) r")
  case None
  with inv show ?thesis by (simp add: signal_finished_def)
next
  case (Some rs)
  show ?thesis
  proof (cases "transfer_jobs rs = {}")
    case True
    let ?s = "s\<lparr> mgr := mgr_on_request_finished ext (rctx rs) (mgr s), req_status := dpop r (req_status s) \<rparr>"
    have "ledger ext ?s"
      by (rule ledger_drop_request [OF inv Some True]) simp_all
    with Some True show ?thesis by (simp add: signal_finished_def Let_def)
  next
    case False
    let ?rs = "rs\<lparr> finished_signaled := True \<rparr>"
    have "req_wf ext (config s) r ?rs"
      using ledgerD(6) [OF inv Some] fin [OF Some] False by (simp add: req_wf_def)
    then have "req_step ext s r rs ?rs" by (simp add: req_step_def idle_def)
    from ledger_put [OF inv Some this] Some False show ?thesis
      by (simp add: signal_finished_def Let_def put_req_def)
  qed
qed

section \<open>The schedule step\<close>

lemma blocks_distinct_rel:
  assumes "ledger ext s" "map_of (req_status s) r = Some rs"
  shows "stores_only s rs \<or> idle rs"
  using ledgerD(7) [OF assms] by (auto simp: req_jobs_def)

text \<open>
  What the engine guarantees about a schedule step: the requests of the batch are known, have no
  load in flight and get blocks for all groups; every scheduled request is in the batch; finished
  requests are finished; a block is at one place of a request.
\<close>

definition output_ok :: "('h, 'k, 's, 'm) externals \<Rightarrow> scheduler_output \<Rightarrow> ('h, 'k, 's, 'm) sched \<Rightarrow> bool" where
  "output_ok ext out s \<longleftrightarrow>
     (\<forall>e \<in> set (req_data out). entry_ok s e)
     \<and> fst ` set (num_scheduled_tokens out) \<subseteq> fst ` set (req_data out)
     \<and> (\<forall>r \<in> set (finished_req_ids out). \<forall>rs. map_of (req_status s) r = Some rs \<longrightarrow> is_finished (req rs))
     \<and> (\<forall>r \<in> set (preempted_req_ids out). \<forall>rs. map_of (req_status s) r = Some rs \<longrightarrow> stores_only s rs)
     \<and> (\<forall>s1 r rs. update_req_states ext out s = Some s1 \<longrightarrow> map_of (req_status s1) r = Some rs \<longrightarrow> blocks_distinct rs)"

lemma signal_loop_ledger:
  assumes "ledger ext s" "\<forall>r \<in> set rs. \<forall>st. map_of (req_status s) r = Some st \<longrightarrow> is_finished (req st)"
  shows "ledger ext (fold (signal_finished ext) rs s)"
  using assms
proof (induction rs arbitrary: s)
  case (Cons r rs)
  have "ledger ext (signal_finished ext r s)"
    by (rule signal_finished_ledger [OF Cons.prems(1)]) (use Cons.prems(2) in simp)
  moreover have "is_finished (req st)"
    if "q \<in> set rs" "map_of (req_status (signal_finished ext r s)) q = Some st" for q st
    using that Cons.prems(2)
    by (auto simp: signal_finished_def Let_def put_req_def split: option.splits if_splits)
  ultimately show ?case using Cons.IH by simp
qed simp

lemma build_connector_meta_ledger:
  assumes inv: "ledger ext s" and ok: "output_ok ext out s"
  obtains meta s' where "build_connector_meta ext out s = Some (meta, s')" "ledger ext s'"
proof -
  from ok have entries: "\<forall>e \<in> set (req_data out). entry_ok s e" by (simp add: output_ok_def)
  obtain s1 where s1: "update_req_states ext out s = Some s1" "ledger ext s1" "follows ext s s1"
    "\<forall>r \<in> fst ` set (req_data out). \<exists>rs'. map_of (req_status s1) r = Some rs' \<and> fresh ext (config s) rs'"
    by (rule update_req_states_ledger [OF inv entries])
  have cfg1: "config s1 = config s" using s1(3) by (simp add: follows_def)
  have origin: "\<exists>rs. map_of (req_status s) r = Some rs \<and> evolves ext (config s) rs rs1"
    if "map_of (req_status s1) r = Some rs1" for r rs1
  proof -
    have "map_of (req_status s) r \<noteq> None" using follows_None [OF s1(3), of r] that by simp
    then obtain rs where rs: "map_of (req_status s) r = Some rs" by blast
    with follows_Some [OF s1(3) rs] that show ?thesis by auto
  qed
  define s2 where "s2 = s1\<lparr> mgr := mgr_on_schedule_end ext (new_req_ids out) (preempted_req_ids out) (mgr s1) \<rparr>"
  have inv2: "ledger ext s2" by (rule ledger_same [OF s1(2)]) (simp_all add: s2_def)
  have "stores_only s2 st" if "r \<in> set (preempted_req_ids out)" "map_of (req_status s2) r = Some st" for r st
  proof -
    from that(2) origin obtain rs where rs: "map_of (req_status s) r = Some rs" "evolves ext (config s) rs st"
      by (auto simp: s2_def)
    with ok that(1) have "stores_only s rs" by (auto simp: output_ok_def)
    with follows_stores_only [OF s1(3) rs(2)] have "stores_only s1 st" by simp
    then show ?thesis by (simp add: s2_def stores_only_def)
  qed
  then obtain f where s3: "flush_preempted (preempted_req_ids out) s2 = Some (s2\<lparr> jobs_to_flush := f \<rparr>)"
    using flush_preempted_ledger [OF inv2] by metis
  define s3 where "s3 = flush_reallocated (s2\<lparr> jobs_to_flush := f \<rparr>)"
  have inv3: "ledger ext s3" by (rule ledger_same [OF inv2]) (simp_all add: s3_def flush_reallocated_def)
  have st3: "req_status s3 = req_status s1" "config s3 = config s" by (simp_all add: s3_def s2_def flush_reallocated_def cfg1)
  have fin: "is_finished (req st)"
    if "r \<in> set (finished_req_ids out)" "map_of (req_status s1) r = Some st" for r st
    using origin [OF that(2)] ok that(1) by (auto simp: output_ok_def evolves_def)
  have ready: "build_ready ext out s3 r" if "r \<in> set (map fst (num_scheduled_tokens out) @ finished_req_ids out)" for r
  proof (cases "map_of (req_status s1) r")
    case None
    then show ?thesis by (simp add: build_ready_def st3)
  next
    case (Some rs)
    have bd: "blocks_distinct rs" using ok s1(1) Some by (auto simp: output_ok_def)
    show ?thesis
    proof (cases "r \<in> fst ` set (num_scheduled_tokens out)")
      case True
      with ok have "r \<in> fst ` set (req_data out)" by (auto simp: output_ok_def)
      with s1(4) Some have "fresh ext (config s) rs" by auto
      moreover have "map_of (num_scheduled_tokens out) r \<noteq> None" using True by (auto simp: map_of_eq_None_iff)
      ultimately show ?thesis using bd Some by (simp add: build_ready_def st3)
    next
      case False
      with that have f: "is_finished (req rs)" using fin Some by simp
      from req_wf_fresh [OF ledgerD(6) [OF s1(2) Some] f] bd f Some show ?thesis
        by (simp add: build_ready_def st3 cfg1)
    qed
  qed
  obtain s4 stores where s4: "build_store_jobs ext out s3 = Some (s4, stores)" "ledger ext s4" "built s3 s4"
  proof (cases "stores_enabled s3")
    case True
    with build_store_loop_ledger [OF inv3, of "map fst (num_scheduled_tokens out) @ finished_req_ids out"] ready that
    show thesis by (metis build_store_jobs_def)
  next
    case False
    with inv3 that show thesis by (simp add: build_store_jobs_def built_same)
  qed
  have fin4: "is_finished (req st)" if "r \<in> set (finished_req_ids out)" "map_of (req_status s4) r = Some st" for r st
  proof -
    have "rel_option same_blocks (map_of (req_status s1) r) (map_of (req_status s4) r)"
      using s4(3) by (simp add: built_def st3)
    with that(2) obtain rs where "map_of (req_status s1) r = Some rs" "same_blocks rs st"
      by (auto simp: option_rel_Some2)
    with fin that(1) show ?thesis by (auto simp: same_blocks_def)
  qed
  define s5 where "s5 = fold (signal_finished ext) (finished_req_ids out) s4"
  have inv5: "ledger ext s5" unfolding s5_def by (rule signal_loop_ledger [OF s4(2)]) (use fin4 in blast)
  have "ledger ext (s5\<lparr> batch_load_jobs := [], jobs_to_flush := {}, batch_allocated := {} \<rparr>)"
    by (rule ledger_same [OF inv5]) simp_all
  moreover have "build_connector_meta ext out s = Some (\<lparr> meta_load_jobs = batch_load_jobs s4, meta_store_jobs = stores,
      meta_jobs_to_flush = jobs_to_flush s4 \<rparr>, s5\<lparr> batch_load_jobs := [], jobs_to_flush := {}, batch_allocated := {} \<rparr>)"
    by (simp add: build_connector_meta_def s1(1) s2_def [symmetric] s3 s3_def [symmetric] s4(1) s5_def Let_def)
  ultimately show thesis by (rule that [rotated])
qed

section \<open>Completed transfers\<close>

lemma watch_okD: "watch_ok w d \<Longrightarrow> j \<in> w b \<Longrightarrow> map_of d b = Some (w b)"
  by (auto simp: watch_ok_def)

lemma remove_pending_ok:
  assumes "watch_ok w d" "distinct bs" "\<forall>b \<in> set bs. j \<in> w b"
  obtains d' where "remove_pending j bs d = Some d'" "watch_ok (\<lambda>b. if b \<in> set bs then w b - {j} else w b) d'"
  using assms
proof (induction bs arbitrary: d w thesis)
  case Nil
  then show ?case by simp
next
  case (Cons b bs)
  let ?d = "if w b = {j} then dpop b d else dput b (w b - {j}) d"
  have b: "map_of d b = Some (w b)" by (rule watch_okD [OF Cons.prems(2), of j]) (use Cons.prems(4) in simp)
  have "watch_ok (w(b := w b - {j})) ?d"
    using Cons.prems(2,4) by (auto simp: watch_ok_def)
  moreover have "distinct bs" "\<forall>c \<in> set bs. j \<in> (w(b := w b - {j})) c" using Cons.prems(3,4) by auto
  ultimately obtain d' where d': "remove_pending j bs ?d = Some d'"
    "watch_ok (\<lambda>c. if c \<in> set bs then (w(b := w b - {j})) c - {j} else (w(b := w b - {j})) c) d'"
    by (rule Cons.IH [rotated])
  have "(\<lambda>c. if c \<in> set bs then (w(b := w b - {j})) c - {j} else (w(b := w b - {j})) c)
      = (\<lambda>c. if c \<in> set (b # bs) then w c - {j} else w c)" by (rule ext) simp
  with d' b Cons.prems(4) show ?case by (intro Cons.prems(1) [of d']) simp_all
qed

definition count_ok :: "('h, 'k, 's, 'm) sched \<Rightarrow> nat \<times> int \<Rightarrow> bool" where
  "count_ok s e \<longleftrightarrow> 0 < snd e \<and> (fst e < stale_job_threshold s
     \<or> (\<exists>js. map_of (jobs s) (fst e) = Some js \<and> snd e \<le> pending_count js))"

lemma pending_removed:
  assumes inv: "ledger ext s" and js: "map_of (jobs s) j = Some js"
    and rs: "map_of (req_status s) (job_req js) = Some rs"
  obtains p where "(if pending_jobs s = [] then Some []
      else do {
        p \<leftarrow> remove_pending j (sliding_block_ids js) (pending_jobs s);
        if is_finished (req rs) then remove_pending j (non_sliding_block_ids js) p else Some p
      }) = Some p" "watch_ok (\<lambda>b. watchers s b - {j}) p"
proof -
  note w = ledgerD(8) [OF inv] and ok = ledgerD(5) [OF inv js]
  have mem: "j \<in> watchers s b \<longleftrightarrow> b \<in> set (sliding_block_ids js) \<or> b \<in> set (non_sliding_block_ids js) \<and> is_finished (req rs)" for b
    using js rs by (auto simp: watchers_def)
  show thesis
  proof (cases "pending_jobs s = []")
    case True
    with w have "watchers s b = {}" for b by (auto simp: watch_ok_def split: if_splits)
    with True that [of "[]"] show thesis by (simp add: watch_ok_def)
  next
    case False
    have d: "distinct (sliding_block_ids js)" "distinct (non_sliding_block_ids js)"
      "set (sliding_block_ids js) \<inter> set (non_sliding_block_ids js) = {}" using ok by (auto simp: job_ok_def)
    have "\<forall>b \<in> set (sliding_block_ids js). j \<in> watchers s b" by (simp add: mem)
    then obtain p where p: "remove_pending j (sliding_block_ids js) (pending_jobs s) = Some p"
      "watch_ok (\<lambda>b. if b \<in> set (sliding_block_ids js) then watchers s b - {j} else watchers s b) p" (is "watch_ok ?w p")
      by (rule remove_pending_ok [OF w d(1)])
    show thesis
    proof (cases "is_finished (req rs)")
      case fin: True
      then have "\<forall>b \<in> set (non_sliding_block_ids js). j \<in> ?w b" using d(3) by (auto simp: mem)
      then obtain q where q: "remove_pending j (non_sliding_block_ids js) p = Some q"
        "watch_ok (\<lambda>b. if b \<in> set (non_sliding_block_ids js) then ?w b - {j} else ?w b) q"
        by (rule remove_pending_ok [OF p(2) d(2)])
      have "(\<lambda>b. if b \<in> set (non_sliding_block_ids js) then ?w b - {j} else ?w b) = (\<lambda>b. watchers s b - {j})"
        using fin mem by (intro ext) (auto split: if_splits)
      with q p(1) False fin that [of q] show thesis by simp
    next
      case unfin: False
      have "?w = (\<lambda>b. watchers s b - {j})" using unfin mem by (intro ext) (auto split: if_splits)
      with p False unfin that [of p] show thesis by simp
    qed
  qed
qed

lemma complete_job_ledger:
  assumes inv: "ledger ext s" and ok: "count_ok s (j, count)"
  obtains s' where "complete_job ext (j, count) s = Some s'" "ledger ext s'"
    "stale_job_threshold s' = stale_job_threshold s" "\<And>i. i \<noteq> j \<Longrightarrow> map_of (jobs s') i = map_of (jobs s) i"
proof (cases "j < stale_job_threshold s")
  case True
  with ok inv that [of s] show thesis by (simp add: complete_job_def count_ok_def)
next
  case False
  with ok obtain js where js: "map_of (jobs s) j = Some js" and c: "0 < count" "count \<le> pending_count js"
    by (auto simp: count_ok_def)
  define js1 where "js1 = js\<lparr> pending_count := pending_count js - count \<rparr>"
  define s1 where "s1 = s\<lparr> jobs := dput j js1 (jobs s) \<rparr>"
  have start: "complete_job ext (j, count) s =
      (if 0 < pending_count js1 then Some s1 else if pending_count js1 = 0 then finish_transfer ext j js1 s1 else None)"
    using False js c by (simp add: complete_job_def js1_def s1_def require_def Let_def)
  show thesis
  proof (cases "0 < pending_count js1")
    case True
    have "ledger ext s1"
      by (rule ledger_count_down [OF inv js, of "pending_count js - count"])
        (use True c in \<open>simp_all add: js1_def s1_def\<close>)
    with start True that [of s1] show thesis by (simp add: s1_def)
  next
    case last: False
    with c have zero: "pending_count js1 = 0" by (simp add: js1_def)
    from ledgerD(5) [OF inv js] obtain rs where rs: "map_of (req_status s) (job_req js) = Some rs" "j \<in> transfer_jobs rs"
      by (auto simp: job_ok_def)
    obtain p where p: "(if pending_jobs s = [] then Some []
        else do {
          p \<leftarrow> remove_pending j (sliding_block_ids js) (pending_jobs s);
          if is_finished (req rs) then remove_pending j (non_sliding_block_ids js) p else Some p
        }) = Some p" "watch_ok (\<lambda>b. watchers s b - {j}) p"
      by (rule pending_removed [OF inv js rs(1)])
    define rs1 where "rs1 = rs\<lparr> transfer_jobs := transfer_jobs rs - {j} \<rparr>"
    define s' where "s' = s\<lparr>
         mgr := (if is_store js then mgr_complete_store ext else mgr_complete_load ext) (job_keys js) (rctx rs) (mgr s),
         chunks_being_loaded := (if is_store js then chunks_being_loaded s
           else map_option (\<lambda>l. l - job_keys js) (chunks_being_loaded s)),
         pending_jobs := p, jobs := dpop j (jobs s),
         req_status := (if finished_signaled rs \<and> transfer_jobs rs1 = {} then dpop (job_req js) (req_status s)
           else dput (job_req js) rs1 (req_status s)) \<rparr>"
    have sel: "req_status s1 = req_status s" "pending_jobs s1 = pending_jobs s" "job_req js1 = job_req js"
      "sliding_block_ids js1 = sliding_block_ids js" "non_sliding_block_ids js1 = non_sliding_block_ids js"
      "is_store js1 = is_store js" "job_keys js1 = job_keys js" "mgr s1 = mgr s"
      "chunks_being_loaded s1 = chunks_being_loaded s" "dpop j (jobs s1) = dpop j (jobs s)"
      by (simp_all add: s1_def js1_def delete_update_same)
    have "finish_transfer ext j js1 s1 = Some s'"
      unfolding finish_transfer_def sel rs(1) bind.bind_lunit p(1)
      using rs(2) by (simp add: s1_def s'_def rs1_def Let_def)
    moreover have "ledger ext s'"
    proof (rule ledger_drop_job [OF inv js refl rs(1), of rs1])
      show "l \<subseteq> load_keys_of s \<and> (\<not> is_store js \<longrightarrow> l \<inter> job_keys js = {})" if "chunks_being_loaded s' = Some l" for l
        using that ledgerD(9) [OF inv] by (cases "is_store js"; cases "chunks_being_loaded s") (auto simp: s'_def)
    qed (use p(2) in \<open>simp_all add: rs1_def s'_def\<close>)
    ultimately show thesis using start last zero that [of s'] by (simp add: s'_def)
  qed
qed

lemma update_connector_output_ledger:
  assumes "ledger ext s" "distinct (map fst es)" "\<forall>e \<in> set es. count_ok s e"
  obtains s' where "update_connector_output ext es s = Some s'" "ledger ext s'"
  using assms
proof (induction es arbitrary: s thesis)
  case Nil
  then show ?case by simp
next
  case (Cons e es)
  obtain j c where e: "e = (j, c)" by (cases e)
  with Cons.prems(4) have "count_ok s (j, c)" by simp
  with Cons.prems(2) obtain s1 where s1: "complete_job ext (j, c) s = Some s1" "ledger ext s1"
    "stale_job_threshold s1 = stale_job_threshold s" "\<And>i. i \<noteq> j \<Longrightarrow> map_of (jobs s1) i = map_of (jobs s) i"
    by (rule complete_job_ledger) blast
  have "count_ok s1 x" if "x \<in> set es" for x
  proof -
    have "fst x \<noteq> j" using Cons.prems(3) that by (auto simp: e)
    with Cons.prems(4) that show ?thesis by (auto simp: count_ok_def s1(3,4))
  qed
  with Cons.IH [OF _ s1(2)] Cons.prems(3) obtain s' where "update_connector_output ext es s1 = Some s'" "ledger ext s'"
    by (metis distinct.simps(2) list.simps(9))
  with s1(1) Cons.prems(1) show ?case by (simp add: e)
qed

section \<open>Finished requests\<close>

lemma watch_jobs_ok:
  assumes "watch_ok w d" "\<forall>j \<in> set is. map_of js j \<noteq> None"
  obtains p where "watch_jobs is js d = Some p"
    "watch_ok (\<lambda>b. w b \<union> {j \<in> set is. \<exists>st. map_of js j = Some st \<and> b \<in> set (non_sliding_block_ids st)}) p"
  using assms
proof (induction "is" arbitrary: d w thesis)
  case Nil
  then show ?case by simp
next
  case (Cons j js')
  from Cons.prems(3) obtain st where st: "map_of js j = Some st" by auto
  let ?w = "\<lambda>b. w b \<union> (if b \<in> set (non_sliding_block_ids st) then {j} else {})"
  have "watch_ok ?w (watch j (non_sliding_block_ids st) d)" by (rule watch_ok_watch [OF Cons.prems(2)])
  moreover have "\<forall>j \<in> set js'. map_of js j \<noteq> None" using Cons.prems(3) by simp
  ultimately obtain p where p: "watch_jobs js' js (watch j (non_sliding_block_ids st) d) = Some p"
    "watch_ok (\<lambda>b. ?w b \<union> {j \<in> set js'. \<exists>st. map_of js j = Some st \<and> b \<in> set (non_sliding_block_ids st)}) p"
    by (rule Cons.IH [rotated])
  have "(\<lambda>b. ?w b \<union> {j \<in> set js'. \<exists>st. map_of js j = Some st \<and> b \<in> set (non_sliding_block_ids st)})
      = (\<lambda>b. w b \<union> {i \<in> set (j # js'). \<exists>st. map_of js i = Some st \<and> b \<in> set (non_sliding_block_ids st)})"
    using st by (intro ext) auto
  with p st show ?case by (intro Cons.prems(1) [of p]) simp_all
qed

text \<open>The engine changes a request only by appending to it.\<close>

definition request_grows :: "('h, 'k, 's, 'm) sched \<Rightarrow> 'h request \<Rightarrow> ('h, 'k) req_state \<Rightarrow> bool" where
  "request_grows s rq rs \<longleftrightarrow> \<not> is_finished (req rs) \<and> prefix (block_hashes (req rs)) (block_hashes rq)
     \<and> request_fits (config s) rq"

lemma grown_wf:
  assumes inv: "ledger ext s" and rs: "map_of (req_status s) (request_id rq) = Some rs" and g: "request_grows s rq rs"
    and "req rs' = rq" "group_states rs' = group_states rs" "transfer_jobs rs' = transfer_jobs rs"
    and sig: "finished_signaled rs' = finished_signaled rs"
    and fin: "is_finished rq \<longrightarrow> keys_from ext (config s) (block_hashes rq) (group_states rs)"
  shows "req_wf ext (config s) (request_id rq) rs'"
proof -
  note wf = ledgerD(6) [OF inv rs]
  then obtain hs where "prefix hs (block_hashes (req rs))" "keys_from ext (config s) hs (group_states rs)"
    by (rule req_wf_keys)
  with g have "\<exists>hs. prefix hs (block_hashes rq) \<and> keys_from ext (config s) hs (group_states rs)"
    by (auto simp: request_grows_def intro: prefix_order.order_trans)
  with assms wf show ?thesis by (simp add: req_wf_def request_grows_def)
qed

lemma engine_update_ledger:
  assumes inv: "ledger ext s" and rs: "map_of (req_status s) (request_id rq) = Some rs"
    and g: "request_grows s rq rs" and u: "\<not> is_finished rq"
  shows "ledger ext (put_req (request_id rq) (rs\<lparr> req := rq \<rparr>) s)"
proof -
  have "req_wf ext (config s) (request_id rq) (rs\<lparr> req := rq \<rparr>)"
    by (rule grown_wf [OF inv rs g]) (use u in simp_all)
  then have "req_step ext s (request_id rq) rs (rs\<lparr> req := rq \<rparr>)"
    using g u by (simp add: req_step_def request_grows_def idle_def)
  from ledger_put [OF inv rs this] show ?thesis by (simp add: put_req_def)
qed

lemma request_finished_ledger:
  assumes inv: "ledger ext s" and fin: "is_finished rq"
    and g: "\<And>rs. map_of (req_status s) (request_id rq) = Some rs \<Longrightarrow> request_grows s rq rs"
  obtains s' where "request_finished ext rq s = Some s'" "ledger ext s'"
proof (cases "map_of (req_status s) (request_id rq)")
  case None
  define m where "m = mgr_on_request_finished ext (create_req_context (known_medium ext) (known_locality ext) rq)
    (snd (mgr_on_new_request ext (create_req_context (known_medium ext) (known_locality ext) rq) (mgr s)))"
  have "ledger ext (s\<lparr> lookup_policy := finish_request (request_id rq) (lookup_policy s), mgr := m \<rparr>)"
    by (rule ledger_same [OF inv]) simp_all
  with None show thesis by (intro that) (simp_all add: request_finished_def Let_def m_def)
next
  case (Some rs)
  let ?r = "request_id rq"
  define rs1 where "rs1 = refresh_keys ext (config s) (rs\<lparr> req := rq, deferred_start := None \<rparr>)"
  from ledgerD(6) [OF inv Some] have tj: "finite (transfer_jobs rs)" by (simp add: req_wf_def)
  have own: "\<exists>js. map_of (jobs s) j = Some js \<and> job_req js = ?r" if "j \<in> transfer_jobs rs" for j
    using ledgerD(7) [OF inv Some] that by (simp add: req_jobs_def)
  then have "\<forall>j \<in> set (sorted_list_of_set (transfer_jobs rs)). map_of (jobs s) j \<noteq> None" using tj by fastforce
  then obtain p where p: "watch_jobs (sorted_list_of_set (transfer_jobs rs)) (jobs s) (pending_jobs s) = Some p"
    "watch_ok (\<lambda>b. watchers s b \<union> {j \<in> set (sorted_list_of_set (transfer_jobs rs)).
        \<exists>st. map_of (jobs s) j = Some st \<and> b \<in> set (non_sliding_block_ids st)}) p"
    by (rule watch_jobs_ok [OF ledgerD(8) [OF inv]])
  note grows = g [OF Some]
  define s' where "s' = s\<lparr> lookup_policy := finish_request ?r (lookup_policy s),
    req_status := dput ?r rs1 (req_status s), pending_jobs := p \<rparr>"
  have s': "request_finished ext rq s = Some s'"
    by (simp add: request_finished_def Let_def Some rs1_def [symmetric] p(1) s'_def put_req_def)
  have "req_wf ext (config s) ?r rs1"
  proof -
    have "req_wf ext (config s) ?r (rs\<lparr> req := rq\<lparr> status := UNFINISHED \<rparr>, deferred_start := None \<rparr>)"
      using grown_wf [OF inv, of "rq\<lparr> status := UNFINISHED \<rparr>" rs] Some grows
      by (auto simp: request_grows_def request_fits_def is_finished_def)
    note refresh_keys_wf [OF ledgerD(1) [OF inv] this]
    then have "keys_from ext (config s) (block_hashes rq) (group_states rs1)"
      by (simp add: rs1_def refresh_keys_def update_offload_keys_def)
    moreover have "\<not> finished_signaled rs" using ledgerD(6) [OF inv Some] grows by (auto simp: req_wf_def request_grows_def)
    ultimately show ?thesis using grows tj by (auto simp: req_wf_def rs1_def request_grows_def)
  qed
  then have wf: "req_wf ext (config s) q a" if "map_of (req_status s') q = Some a" for q a
    using that ledgerD(6) [OF inv, of q a] by (auto simp: s'_def split: if_splits)
  have tj1: "transfer_jobs rs1 = transfer_jobs rs" by (simp add: rs1_def)
  have jobs: "job_ok s' j js" if "map_of (jobs s') j = Some js" for j js
    using ledgerD(5) [OF inv, of j js] that Some tj1 by (auto simp: job_ok_def s'_def)
  have reqs: "req_jobs s' q a" if q: "map_of (req_status s') q = Some a" for q a
  proof (cases "q = ?r")
    case True
    with q have a: "a = rs1" by (simp add: s'_def)
    have "idle rs \<Longrightarrow> idle rs1" using idle_refresh [of "rs\<lparr> req := rq, deferred_start := None \<rparr>" ext "config s"]
      by (simp add: rs1_def idle_def)
    with ledgerD(7) [OF inv Some] True show ?thesis
      by (auto simp: req_jobs_def a tj1 stores_only_def s'_def)
  next
    case False
    with q ledgerD(7) [OF inv, of q a] show ?thesis by (simp add: req_jobs_def stores_only_def s'_def)
  qed
  have "watchers s' = (\<lambda>b. watchers s b \<union> {j \<in> set (sorted_list_of_set (transfer_jobs rs)).
      \<exists>st. map_of (jobs s) j = Some st \<and> b \<in> set (non_sliding_block_ids st)})"
  proof (intro ext set_eqI)
    fix b j
    show "j \<in> watchers s' b \<longleftrightarrow> j \<in> watchers s b \<union> {j \<in> set (sorted_list_of_set (transfer_jobs rs)).
      \<exists>st. map_of (jobs s) j = Some st \<and> b \<in> set (non_sliding_block_ids st)}"
    proof (cases "map_of (jobs s) j")
      case None
      then show ?thesis by (simp add: watchers_def s'_def)
    next
      case js: (Some js)
      have "j \<in> transfer_jobs rs \<longleftrightarrow> job_req js = ?r"
        using own [of j] js ledgerD(5) [OF inv js] Some by (auto simp: job_ok_def)
      with js tj fin Some grows show ?thesis
        by (auto simp: watchers_def s'_def rs1_def request_grows_def)
    qed
  qed
  moreover have "load_keys_of s' = load_keys_of s" by (simp add: load_keys_of_def s'_def)
  moreover have "dict_ok (req_status s')" using ledgerD(2) [OF inv] by (simp add: s'_def)
  ultimately have "ledger ext s'"
    using inv p(2) jobs reqs wf by (simp add: ledger_def) (simp add: s'_def)
  with s' that show thesis by blast
qed

section \<open>Reset\<close>

lemma map_of_map_filter:
  "dict_ok d \<Longrightarrow> map_of (map (\<lambda>(k, v). (k, f v)) (filter (\<lambda>(k, v). P v) d)) k
     = (case map_of d k of None \<Rightarrow> None | Some v \<Rightarrow> if P v then Some (f v) else None)"
proof (induction d)
  case (Cons x d)
  obtain a b where x: "x = (a, b)" by (cases x)
  show ?case
  proof (cases "a = k")
    case True
    with Cons.prems x have "map_of d k = None" by (simp add: map_of_eq_None_iff)
    with Cons x True show ?thesis by simp
  next
    case False
    with Cons x show ?thesis by simp
  qed
qed simp

lemma reset_cache_ledger:
  assumes inv: "ledger ext s" and batch: "batch_load_jobs s = []" "jobs_to_flush s = {}" "batch_allocated s = {}"
  obtains s' where "reset_cache ext s = Some s'" "ledger ext s'"
proof -
  define s' where "s' = the (reset_cache ext s)"
  have s': "reset_cache ext s = Some s'"
    and sel: "req_status s' = map (\<lambda>(r, rs). (r, reset_request rs)) (filter (\<lambda>(r, rs). \<not> is_finished (req rs)) (req_status s))"
      "config s' = config s" "jobs s' = []" "pending_jobs s' = []" "job_counter s' = job_counter s"
      "stale_job_threshold s' = job_counter s" "chunks_being_loaded s' = map_option (\<lambda>l. {}) (chunks_being_loaded s)"
    using batch by (simp_all add: s'_def reset_cache_def Let_def)
  have look: "map_of (req_status s') r = (case map_of (req_status s) r of None \<Rightarrow> None
      | Some rs \<Rightarrow> if \<not> is_finished (req rs) then Some (reset_request rs) else None)" for r
    unfolding sel(1) by (rule map_of_map_filter [OF ledgerD(2) [OF inv]])
  have "req_wf ext (config s') r a \<and> req_jobs s' r a" if a: "map_of (req_status s') r = Some a" for r a
  proof -
    from a obtain rs where rs: "map_of (req_status s) r = Some rs" "\<not> is_finished (req rs)" "a = reset_request rs"
      by (auto simp: look split: option.splits if_splits)
    have "keys_of (group_states a) = keys_of (group_states rs)" by (simp add: rs(3) reset_request_def comp_def)
    moreover have "req a = req rs" "transfer_jobs a = {}" "finished_signaled a = finished_signaled rs"
      by (simp_all add: rs(3) reset_request_def)
    ultimately show ?thesis
      using ledgerD(6) [OF inv rs(1)] rs(2) by (simp add: req_wf_def req_jobs_def stores_only_def sel(2) keys_from_def)
  qed
  moreover have "dict_ok (req_status s')"
    unfolding sel(1) using distinct_map_filter [of fst "req_status s"] ledgerD(2) [OF inv]
    by (simp add: comp_def split_def)
  moreover have "watchers s' b = {}" for b by (simp add: watchers_def sel)
  ultimately have "ledger ext s'"
    using inv by (simp add: ledger_def sel(2-7) watch_ok_def)
  with s' that show thesis by blast
qed

end
