(* ===== verification/OffloadProps.thy ===== *)
theory OffloadProps
  imports OffloadRun
begin

text \<open>
  The scheduler with its environment as a step relation, and what holds of every reachable state:
  the ledger of transfer jobs is exact, no operation raises, reports of workers refine a counter
  per job, a load covers confirmed keys only, a skipped chunk is never needed again.
\<close>

section \<open>The configuration\<close>

text \<open>What vLLM guarantees of an offloading spec: positive sizes, and blocks of whole hash blocks.\<close>

definition spec_ok :: "offload_spec \<Rightarrow> vllm_config \<Rightarrow> bool" where
  "spec_ok spec v \<longleftrightarrow> 0 < spec_blocks_per_chunk spec \<and> 0 < spec_tokens_per_hash spec \<and> 0 < world_size v
     \<and> (\<forall>t \<in> set (spec_tokens_per_block spec). 0 < t \<and> spec_tokens_per_hash spec dvd t)"

lemma make_group_ok:
  assumes "0 < bpc" "bpc = spec_blocks_per_chunk spec" "0 < tpb" "0 < spec_tokens_per_hash spec"
    "spec_tokens_per_hash spec dvd tpb" "sw \<noteq> Some 0"
  shows "group_ok bpc i (make_group spec align dspark eagles (i, tpb, sw))"
    "hashes_per_chunk (make_group spec align dspark eagles (i, tpb, sw)) * spec_tokens_per_hash spec = tpb * bpc"
proof -
  have d: "spec_tokens_per_hash spec dvd tpb * bpc" using assms(5) by simp
  then show "hashes_per_chunk (make_group spec align dspark eagles (i, tpb, sw)) * spec_tokens_per_hash spec = tpb * bpc"
    using assms(2) by (simp add: make_group_def)
  have "0 < tpb * bpc div spec_tokens_per_hash spec"
    using d assms(1,3,4) by (simp add: div_greater_zero_iff dvd_imp_le)
  with assms show "group_ok bpc i (make_group spec align dspark eagles (i, tpb, sw))"
    by (auto simp: group_ok_def make_group_def alignment_count_def split: option.splits)
qed

lemma from_spec_shape:
  assumes spec: "from_spec spec v groups = Some cfg"
  obtains sws align dspark where "window_sizes (spec_blocks_per_chunk spec) (zip (spec_tokens_per_block spec) groups) = Some sws"
    "length sws = length (spec_tokens_per_block spec)"
    "kv_group_configs cfg = map (make_group spec align dspark (eagle_groups v groups))
       (zip [0..<length (spec_tokens_per_block spec)] (zip (spec_tokens_per_block spec) sws))"
    "blocks_per_chunk cfg = spec_blocks_per_chunk spec" "num_workers cfg = world_size v"
proof -
  from spec obtain sws where sws: "window_sizes (spec_blocks_per_chunk spec) (zip (spec_tokens_per_block spec) groups) = Some sws"
    and ge: "length (spec_tokens_per_block spec) \<le> length groups"
    by (auto simp: from_spec_def Let_def split: if_splits option.splits)
  define align where "align = alignment_tokens (zip (map (\<lambda>tpb. tpb * spec_blocks_per_chunk spec) (spec_tokens_per_block spec)) sws)"
  define dspark where "dspark = (case speculative v of None \<Rightarrow> False | Some (e, d) \<Rightarrow> d)"
  show thesis
  proof (rule that [OF sws])
    show "kv_group_configs cfg = map (make_group spec align dspark (eagle_groups v groups))
       (zip [0..<length (spec_tokens_per_block spec)] (zip (spec_tokens_per_block spec) sws))"
      using spec sws ge by (auto simp: from_spec_def Let_def align_def dspark_def)
  qed (use spec sws ge window_sizes_length [OF sws] in \<open>auto simp: from_spec_def Let_def\<close>)
qed

lemma from_spec_groups_ok:
  assumes spec: "from_spec spec v groups = Some cfg" and ok: "spec_ok spec v"
  shows "config_ok cfg" "length (kv_group_configs cfg) = length (spec_tokens_per_block spec)"
    "\<forall>i < length (spec_tokens_per_block spec).
       tokens_per_block (kv_group_configs cfg ! i) = spec_tokens_per_block spec ! i
       \<and> hashes_per_chunk (kv_group_configs cfg ! i) * spec_tokens_per_hash spec = tokens_per_chunk (kv_group_configs cfg ! i)"
proof -
  obtain sws align dspark where sws:
    "window_sizes (spec_blocks_per_chunk spec) (zip (spec_tokens_per_block spec) groups) = Some sws"
    "length sws = length (spec_tokens_per_block spec)"
    and gs: "kv_group_configs cfg = map (make_group spec align dspark (eagle_groups v groups))
       (zip [0..<length (spec_tokens_per_block spec)] (zip (spec_tokens_per_block spec) sws))"
    and cfg: "blocks_per_chunk cfg = spec_blocks_per_chunk spec" "num_workers cfg = world_size v"
    by (rule from_spec_shape [OF spec])
  have z: "Some 0 \<notin> set sws"
    by (rule window_sizes_pos [OF sws(1)]) (use ok in \<open>auto simp: spec_ok_def dest: set_zip_leftD\<close>)
  have group: "group_ok (spec_blocks_per_chunk spec) i (kv_group_configs cfg ! i)
      \<and> tokens_per_block (kv_group_configs cfg ! i) = spec_tokens_per_block spec ! i
      \<and> hashes_per_chunk (kv_group_configs cfg ! i) * spec_tokens_per_hash spec = tokens_per_chunk (kv_group_configs cfg ! i)"
    if i: "i < length (spec_tokens_per_block spec)" for i
  proof -
    have g: "kv_group_configs cfg ! i = make_group spec align dspark (eagle_groups v groups) (i, spec_tokens_per_block spec ! i, sws ! i)"
      using i sws(2) by (simp add: gs)
    have "spec_tokens_per_block spec ! i \<in> set (spec_tokens_per_block spec)" "sws ! i \<in> set sws" using i sws(2) by simp_all
    with ok z have "0 < spec_blocks_per_chunk spec" "0 < spec_tokens_per_block spec ! i" "0 < spec_tokens_per_hash spec"
      "spec_tokens_per_hash spec dvd spec_tokens_per_block spec ! i" "sws ! i \<noteq> Some 0"
      by (auto simp: spec_ok_def)
    from make_group_ok [OF this(1) refl this(2-5)] show ?thesis
      unfolding g by (simp add: make_group_def)
  qed
  moreover have "length (kv_group_configs cfg) = length (spec_tokens_per_block spec)" using sws(2) by (simp add: gs)
  ultimately show "config_ok cfg" "length (kv_group_configs cfg) = length (spec_tokens_per_block spec)"
    "\<forall>i < length (spec_tokens_per_block spec).
       tokens_per_block (kv_group_configs cfg ! i) = spec_tokens_per_block spec ! i
       \<and> hashes_per_chunk (kv_group_configs cfg ! i) * spec_tokens_per_hash spec = tokens_per_chunk (kv_group_configs cfg ! i)"
    using ok by (simp_all add: config_ok_def cfg spec_ok_def)
qed




section \<open>The scheduler and its environment\<close>

datatype 'h sched_event =
    New_request "'h request"
  | Engine_update "'h request"
  | Match req_id nat seconds seconds seconds
  | Match_and_load req_id nat seconds seconds seconds "gpu_block list list"
  | Schedule scheduler_output
  | Completed "(nat \<times> int) list"
  | Request_finished "'h request"
  | Reset_cache

text \<open>The calls of the engine; a load follows a match that reported external tokens.\<close>

fun sched_op ::
  "('h, 'k, 's, 'm) externals \<Rightarrow> 'h sched_event \<Rightarrow> ('h, 'k, 's, 'm) sched \<Rightarrow> ('h, 'k, 's, 'm) sched option" where
  "sched_op ext (New_request rq) s = Some (sched_new_request ext rq s)"
| "sched_op ext (Engine_update rq) s =
     do { rs \<leftarrow> map_of (req_status s) (request_id rq); Some (put_req (request_id rq) (rs\<lparr> req := rq \<rparr>) s) }"
| "sched_op ext (Match r computed tc ts tb) s =
     do { (h, s1) \<leftarrow> get_num_new_matched_tokens ext r computed tc ts tb s; Some s1 }"
| "sched_op ext (Match_and_load r computed tc ts tb blocks) s =
     do {
       ((h, load), s1) \<leftarrow> get_num_new_matched_tokens ext r computed tc ts tb s;
       case h of None \<Rightarrow> Some s1 | Some n \<Rightarrow> update_state_after_alloc ext r blocks (nat n) s1
     }"
| "sched_op ext (Schedule out) s = do { (meta, s1) \<leftarrow> build_connector_meta ext out s; Some s1 }"
| "sched_op ext (Completed es) s = update_connector_output ext es s"
| "sched_op ext (Request_finished rq) s = request_finished ext rq s"
| "sched_op ext Reset_cache s = reset_cache ext s"

text \<open>What the engine and the workers guarantee when they call.\<close>

fun env_ok :: "('h, 'k, 's, 'm) externals \<Rightarrow> 'h sched_event \<Rightarrow> ('h, 'k, 's, 'm) sched \<Rightarrow> bool" where
  "env_ok ext (New_request rq) s \<longleftrightarrow>
     map_of (req_status s) (request_id rq) = None \<and> status rq = UNFINISHED \<and> request_fits (config s) rq"
| "env_ok ext (Engine_update rq) s \<longleftrightarrow> \<not> is_finished rq
     \<and> (\<exists>rs. map_of (req_status s) (request_id rq) = Some rs \<and> request_grows s rq rs)"
| "env_ok ext (Match r computed tc ts tb) s \<longleftrightarrow> map_of (req_status s) r \<noteq> None"
| "env_ok ext (Match_and_load r computed tc ts tb blocks) s \<longleftrightarrow> map_of (req_status s) r \<noteq> None
     \<and> (\<forall>n load s1 rs. get_num_new_matched_tokens ext r computed tc ts tb s = Some ((Some n, load), s1) \<longrightarrow>
          map_of (req_status s1) r = Some rs \<longrightarrow> blocks_fit s1 rs blocks (nat n))"
| "env_ok ext (Schedule out) s \<longleftrightarrow> output_ok ext out s"
| "env_ok ext (Completed es) s \<longleftrightarrow> distinct (map fst es) \<and> (\<forall>e \<in> set es. count_ok s e)"
| "env_ok ext (Request_finished rq) s \<longleftrightarrow> is_finished rq
     \<and> (\<forall>rs. map_of (req_status s) (request_id rq) = Some rs \<longrightarrow> request_grows s rq rs)"
| "env_ok ext Reset_cache s \<longleftrightarrow> batch_load_jobs s = [] \<and> jobs_to_flush s = {} \<and> batch_allocated s = {}"

inductive sched_reachable :: "('h, 'k, 's, 'm) externals \<Rightarrow> ('h, 'k, 's, 'm) sched \<Rightarrow> bool" for ext where
  start: "from_spec spec v groups = Some cfg \<Longrightarrow> spec_ok spec v
    \<Longrightarrow> sched_reachable ext (new_sched cfg mamba stores policy caching m)"
| step: "sched_reachable ext s \<Longrightarrow> env_ok ext e s \<Longrightarrow> sched_op ext e s = Some s' \<Longrightarrow> sched_reachable ext s'"

lemma new_sched_ledger:
  "config_ok cfg \<Longrightarrow> ledger ext (new_sched cfg mamba stores policy caching m)"
  by (simp add: ledger_def new_sched_def watchers_def watch_ok_def load_keys_of_def)

lemma sched_op_ledger:
  assumes inv: "ledger ext s" and env: "env_ok ext e s"
  obtains s' where "sched_op ext e s = Some s'" "ledger ext s'"
proof (cases e)
  case (New_request rq)
  with env new_request_ledger [OF inv, of rq] that show thesis by simp
next
  case (Engine_update rq)
  with env obtain rs where "map_of (req_status s) (request_id rq) = Some rs" "request_grows s rq rs" "\<not> is_finished rq" by auto
  with engine_update_ledger [OF inv] Engine_update that show thesis by simp
next
  case (Match r computed tc ts tb)
  with env obtain rs where rs: "map_of (req_status s) r = Some rs" by auto
  obtain h s' rs' where "get_num_new_matched_tokens ext r computed tc ts tb s = Some (h, s')" "ledger ext s'"
    by (rule match_ledger [OF inv rs, where computed = computed and tc = tc and ts = ts and tb = tb])
  with Match that show thesis by simp
next
  case (Match_and_load r computed tc ts tb blocks)
  with env obtain rs where rs: "map_of (req_status s) r = Some rs" by auto
  obtain h s1 rs1 where m: "get_num_new_matched_tokens ext r computed tc ts tb s = Some (h, s1)" "ledger ext s1"
    "map_of (req_status s1) r = Some rs1" "idle rs1" "fst h \<noteq> None \<Longrightarrow> transfer_jobs rs1 = {}"
    by (rule match_ledger [OF inv rs, where computed = computed and tc = tc and ts = ts and tb = tb]) blast
  obtain hits load where h: "h = (hits, load)" by (cases h)
  show thesis
  proof (cases hits)
    case None
    with m h Match_and_load that [of s1] show thesis by simp
  next
    case (Some n)
    with env Match_and_load m h have "blocks_fit s1 rs1 blocks (nat n)" by simp
    with m(5) Some h obtain s' where "update_state_after_alloc ext r blocks (nat n) s1 = Some s'" "ledger ext s'"
      using alloc_ledger [OF m(2,3) _ m(4)] by (metis fst_conv option.distinct(1))
    with m(1) h Some Match_and_load that [of s'] show thesis by simp
  qed
next
  case (Schedule out)
  with env have "output_ok ext out s" by simp
  with inv obtain meta s' where "build_connector_meta ext out s = Some (meta, s')" "ledger ext s'"
    by (rule build_connector_meta_ledger)
  with Schedule that show thesis by simp
next
  case (Completed es)
  with env have "distinct (map fst es)" "\<forall>e \<in> set es. count_ok s e" by simp_all
  with inv obtain s' where "update_connector_output ext es s = Some s'" "ledger ext s'"
    by (rule update_connector_output_ledger)
  with Completed that show thesis by simp
next
  case (Request_finished rq)
  with env have "is_finished rq" "\<And>rs. map_of (req_status s) (request_id rq) = Some rs \<Longrightarrow> request_grows s rq rs" by simp_all
  with inv obtain s' where "request_finished ext rq s = Some s'" "ledger ext s'"
    by (rule request_finished_ledger)
  with Request_finished that show thesis by simp
next
  case Reset_cache
  with env have "batch_load_jobs s = []" "jobs_to_flush s = {}" "batch_allocated s = {}" by simp_all
  with inv obtain s' where "reset_cache ext s = Some s'" "ledger ext s'"
    by (rule reset_cache_ledger)
  with Reset_cache that show thesis by simp
qed

lemma reachable_ledger: "sched_reachable ext s \<Longrightarrow> ledger ext s"
proof (induction rule: sched_reachable.induct)
  case (start spec v groups cfg mamba stores policy caching m)
  then show ?case by (intro new_sched_ledger from_spec_groups_ok(1))
next
  case (step s e s')
  from step.IH step.hyps(2) obtain s'' where "sched_op ext e s = Some s''" "ledger ext s''" by (rule sched_op_ledger)
  with step.hyps(3) show ?case by simp
qed

section \<open>The ledger\<close>

text \<open>C14: The ledger of transfer jobs is exact. In every reachable state each job is in the set of the
  request it belongs to, with an id between the last reset and the counter and reports of workers
  still missing; each id of a request is a job of that request; a request has either stores only or
  one single load, and no blocks while the load runs; the watched blocks are exactly the sliding
  blocks of all jobs and the other blocks of the jobs of finished requests; and a chunk counts as
  being loaded only while a load job has its key.\<close>

theorem job_ledger_exact:
  assumes "sched_reachable ext s"
  shows "(\<forall>j js. map_of (jobs s) j = Some js \<longrightarrow>
      stale_job_threshold s \<le> j \<and> j < job_counter s \<and> 0 < pending_count js \<and> pending_count js \<le> int (num_workers (config s))
      \<and> (\<exists>rs. map_of (req_status s) (job_req js) = Some rs \<and> j \<in> transfer_jobs rs))
    \<and> (\<forall>r rs. map_of (req_status s) r = Some rs \<longrightarrow>
      (\<forall>j \<in> transfer_jobs rs. \<exists>js. map_of (jobs s) j = Some js \<and> job_req js = r)
      \<and> (stores_only s rs \<or> (\<exists>j. transfer_jobs rs = {j}) \<and> idle rs))
    \<and> (\<forall>b. map_of (pending_jobs s) b = (if watchers s b = {} then None else Some (watchers s b)))
    \<and> (\<forall>l. chunks_being_loaded s = Some l \<longrightarrow> l \<subseteq> load_keys_of s)"
proof -
  note inv = reachable_ledger [OF assms]
  from ledgerD(5,7,8,9) [OF inv] show ?thesis
    by (intro conjI allI impI) (simp_all add: job_ok_def req_jobs_def watch_ok_def)
qed


section \<open>Reports of workers\<close>

text \<open>The abstract ledger: how many reports each job still waits for.\<close>

definition outstanding :: "('h, 'k, 's, 'm) sched \<Rightarrow> nat \<Rightarrow> int option" where
  "outstanding s j = map_option pending_count (map_of (jobs s) j)"

definition report :: "nat \<times> int \<Rightarrow> (nat \<Rightarrow> int option) \<Rightarrow> nat \<Rightarrow> int option" where
  "report e m = (case e of (j, c) \<Rightarrow> (case m j of None \<Rightarrow> m | Some n \<Rightarrow> if c < n then m(j \<mapsto> n - c) else m(j := None)))"

lemma complete_job_reports:
  assumes inv: "ledger ext s" and ok: "count_ok s (j, c)" and run: "complete_job ext (j, c) s = Some s'"
  shows "outstanding s' = report (j, c) (outstanding s)"
proof (cases "j < stale_job_threshold s")
  case True
  then have "map_of (jobs s) j = None"
    using ledgerD(5) [OF inv, of j] by (cases "map_of (jobs s) j") (auto simp: job_ok_def)
  moreover have "s' = s" using True ok run by (simp add: complete_job_def count_ok_def)
  ultimately show ?thesis by (simp add: report_def outstanding_def)
next
  case False
  with ok obtain js where js: "map_of (jobs s) j = Some js" "0 < c" "c \<le> pending_count js" by (auto simp: count_ok_def)
  show ?thesis
  proof (cases "c < pending_count js")
    case True
    with False js run have "jobs s' = dput j (js\<lparr> pending_count := pending_count js - c \<rparr>) (jobs s)"
      by (auto simp: complete_job_def Let_def)
    with True js show ?thesis by (intro ext) (simp add: report_def outstanding_def)
  next
    case all: False
    with js have "pending_count js = c" by simp
    with False js run have "map_of (jobs s') = (map_of (jobs s))(j := None)"
      by (intro ext) (auto simp: complete_job_def finish_transfer_def Let_def bind_eq_Some_conv)
    with all js show ?thesis by (intro ext) (simp add: report_def outstanding_def)
  qed
qed

lemma update_connector_output_reports:
  assumes "ledger ext s" "distinct (map fst es)" "\<forall>e \<in> set es. count_ok s e"
  shows "\<exists>s'. update_connector_output ext es s = Some s' \<and> outstanding s' = fold report es (outstanding s)"
  using assms
proof (induction es arbitrary: s)
  case (Cons e es)
  obtain j c where e: "e = (j, c)" by (cases e)
  with Cons.prems(3) have ok: "count_ok s (j, c)" by simp
  obtain s1 where s1: "complete_job ext (j, c) s = Some s1" "ledger ext s1"
    "stale_job_threshold s1 = stale_job_threshold s" "\<And>i. i \<noteq> j \<Longrightarrow> map_of (jobs s1) i = map_of (jobs s) i"
    by (rule complete_job_ledger [OF Cons.prems(1) ok]) blast
  have "count_ok s1 x" if "x \<in> set es" for x
  proof -
    have "fst x \<noteq> j" using Cons.prems(2) that by (auto simp: e)
    with Cons.prems(3) that show ?thesis by (auto simp: count_ok_def s1(3,4))
  qed
  with Cons.IH [OF s1(2)] Cons.prems(2) complete_job_reports [OF Cons.prems(1) ok s1(1)] s1(1)
  show ?case by (simp add: e)
qed simp

text \<open>C16: Completions refine a counter per job. update_connector_output implements the abstract
  ledger that subtracts the reports of each entry and forgets a job when the last worker has
  reported; a report about a job from before a reset changes nothing.\<close>

theorem reports_refine_counters:
  assumes "sched_reachable ext s" "distinct (map fst es)" "\<forall>e \<in> set es. count_ok s e"
  shows "\<exists>s'. update_connector_output ext es s = Some s' \<and> outstanding s' = fold report es (outstanding s)"
  by (rule update_connector_output_reports [OF reachable_ledger [OF assms(1)] assms(2,3)])

section \<open>Reset\<close>

text \<open>Remark: A reset with transfers in flight cannot be repeated at once. It leaves the ids of the running
  jobs to be flushed by the next schedule step; until that step a second reset_cache fails its
  assertion.\<close>

theorem second_reset_fails:
  assumes "reset_cache ext s = Some s1" "jobs s \<noteq> []"
  shows "reset_cache ext s1 = None"
proof -
  have "jobs_to_flush s1 = set (map fst (jobs s))"
    using assms(1) by (clarsimp simp: reset_cache_def Let_def bind_eq_Some_conv)
  with assms(2) have "jobs_to_flush s1 \<noteq> {}" by (cases "jobs s") auto
  then show ?thesis by (auto simp: reset_cache_def require_def)
qed

end
