(* ===== verification/OffloadDemo.thy ===== *)
theory OffloadDemo
  imports OffloadProps
begin

text \<open>A small run of the scheduler, on which the properties are applied.\<close>

definition demo_ext :: "(nat, nat, unit, unit) externals" where
  "demo_ext = \<lparr> make_key = (\<lambda>h g. 10 * (g + 1) + h), known_medium = (\<lambda>m. True), known_locality = (\<lambda>m. True),
     mgr_on_new_request = (\<lambda>c m. (True, m)), mgr_lookup = (\<lambda>c k m. (HIT, m)), mgr_touch = (\<lambda>ks c m. m),
     mgr_cancel = (\<lambda>c b m. m), mgr_prepare_load = (\<lambda>ks c m. ((), m)),
     mgr_prepare_store = (\<lambda>ks c m. (Some (ks, ()), m)), mgr_complete_load = (\<lambda>ks c m. m),
     mgr_complete_store = (\<lambda>ks c m. m), mgr_on_schedule_end = (\<lambda>a b m. m),
     mgr_on_request_finished = (\<lambda>c m. m), mgr_reset_cache = (\<lambda>m. m), mgr_has_pending_work = (\<lambda>m. False) \<rparr>"

definition demo_request :: "nat request" where
  "demo_request = \<lparr> request_id = ''r'', block_hashes = [0, 1, 2], num_tokens = 7, num_prompt_tokens = 7,
     num_computed_tokens = 0, status = UNFINISHED, skip_reading_prefix_cache = False,
     raw_max_offload = None, raw_load_tiers = None \<rparr>"

definition demo_policy :: policy where
  "demo_policy = \<lparr> timeout_seconds = 1, circuit_breaker_seconds = 30, timeout_threshold = 3,
     max_concurrent_lookups = 1, deferred = [], consecutive_timeouts = 0, circuit_open_until = 0,
     timeout_delta = 0, circuit_bypass_delta = 0 \<rparr>"

definition demo_start :: "(nat, nat, unit, unit) sched" where
  "demo_start = new_sched demo_cfg None True demo_policy True ()"

definition demo_blocks :: "gpu_block list list" where
  "demo_blocks =
    [[\<lparr> block_id = 1, is_null = False, has_hash = False \<rparr>, \<lparr> block_id = 2, is_null = False, has_hash = False \<rparr>,
      \<lparr> block_id = 3, is_null = False, has_hash = False \<rparr>],
     [\<lparr> block_id = 0, is_null = True, has_hash = False \<rparr>, \<lparr> block_id = 0, is_null = True, has_hash = False \<rparr>,
      \<lparr> block_id = 4, is_null = False, has_hash = False \<rparr>]]"

definition demo_new :: "(nat, nat, unit, unit) sched" where
  "demo_new = sched_new_request demo_ext demo_request demo_start"

definition demo_req_state :: "(nat, nat) req_state" where
  "demo_req_state = new_req_state demo_cfg demo_request \<lparr> ctx_req_id = ''r'', load_tier_filter = FilterAll \<rparr> True"

lemma demo_new_sel:
  "config demo_new = demo_cfg" "req_status demo_new = [(''r'', demo_req_state)]" "jobs demo_new = []"
  "lookup_policy demo_new = demo_policy" "mamba_align demo_new = None" "chunks_being_loaded demo_new = Some {}"
  "mgr demo_new = ()" "event_records demo_new = []" "pending_jobs demo_new = []" "job_counter demo_new = 0"
  "stale_job_threshold demo_new = 0" "batch_allocated demo_new = {}" "jobs_to_flush demo_new = {}" "batch_load_jobs demo_new = []"
  "stores_enabled demo_new"
  by (simp_all add: demo_new_def sched_new_request_def demo_ext_def demo_request_def demo_start_def new_sched_def
      Let_def put_req_def create_req_context_def demo_req_state_def)

lemma demo_new_reachable: "sched_reachable demo_ext demo_new"
proof (rule sched_reachable.step [where e = "New_request demo_request" and s = demo_start])
  show "sched_reachable demo_ext demo_start"
    unfolding demo_start_def by (rule sched_reachable.start [OF demo_cfg_eval(1)]) (simp add: spec_ok_def demo_spec_def)
  show "env_ok demo_ext (New_request demo_request) demo_start"
    by (auto simp: demo_start_def new_sched_def demo_request_def request_fits_def demo_cfg_eval less_Suc_eq)
  show "sched_op demo_ext (New_request demo_request) demo_start = Some demo_new" by (simp add: demo_new_def)
qed

lemma demo_match:
  "\<exists>s rs. get_num_new_matched_tokens demo_ext ''r'' 0 0 0 0 demo_new = Some ((Some 6, True), s)
     \<and> req_status s = [(''r'', rs)] \<and> config s = demo_cfg \<and> job_counter s = 0
     \<and> lookup_excluded_groups rs = {} \<and> num_locally_computed_tokens rs = 0 \<and> block_level rs
     \<and> transfer_jobs rs = {} \<and> jobs s = []
     \<and> group_states rs = [\<lparr> offload_keys = [10, 11, 12], block_ids = [], next_stored_chunk_idx = 0, num_hit_chunks = 3 \<rparr>,
         \<lparr> offload_keys = [20, 21, 22], block_ids = [], next_stored_chunk_idx = 0, num_hit_chunks = 3 \<rparr>]"
  by (simp add: get_num_new_matched_tokens_def demo_new_sel demo_req_state_def new_req_state_def demo_cfg_eval
     clear_block_ids_def refresh_keys_def update_offload_keys_def update_group_keys_def demo_ext_def demo_request_def
     external_lookup_def circuit_bypass_reason_def demo_policy_def new_group_state_def lookup_request_def start_lookup_def
     demo_loading lookup_loop.simps group_turn_def ask_group_def group_query_def maximal_prefix_lookup_def
      sliding_window_lookup_def confirm_hits_def settle_def schedule_pass_def Let_def cdiv_def window_scan_numeral
      lookup_answer_def update_num_hit_chunks_def put_req_def being_loaded_def hit_keys_def)

definition demo_load_event :: "nat sched_event" where
  "demo_load_event = Match_and_load ''r'' 0 0 0 0 demo_blocks"

lemma demo_alloc:
  assumes "lookup_excluded_groups rs = {}" "num_locally_computed_tokens rs = 0" "block_level rs"
    "group_states rs = [\<lparr> offload_keys = [10, 11, 12], block_ids = [], next_stored_chunk_idx = 0, num_hit_chunks = 3 \<rparr>,
         \<lparr> offload_keys = [20, 21, 22], block_ids = [], next_stored_chunk_idx = 0, num_hit_chunks = 3 \<rparr>]"
  shows "alloc_groups demo_cfg (block_level rs) (lookup_excluded_groups rs) (num_locally_computed_tokens rs)
      (num_locally_computed_tokens rs + 6) (zip (kv_group_configs demo_cfg) (zip (group_states rs) demo_blocks))
    = Some ([\<lparr> load_keys = [10, 11, 12], load_blocks = [1, 2, 3], load_size = 3, load_index = 0 \<rparr>,
             \<lparr> load_keys = [22], load_blocks = [4], load_size = 1, load_index = 2 \<rparr>],
        [\<lparr> offload_keys = [10, 11, 12], block_ids = [], next_stored_chunk_idx = 3, num_hit_chunks = 3 \<rparr>,
         \<lparr> offload_keys = [20, 21, 22], block_ids = [], next_stored_chunk_idx = 3, num_hit_chunks = 3 \<rparr>])"
proof -
  have "blocks_per_chunk demo_cfg = 1"
    by (simp add: demo_cfg_def demo_spec_def demo_groups_def from_spec_def Let_def cdiv_def)
  then show ?thesis
    by (simp add: assms demo_blocks_def demo_cfg_eval alloc_group_def cdiv_def locally_computed_blocks_def Let_def)
qed

lemma demo_cfg_workers: "num_workers demo_cfg = 1"
  by (simp add: demo_cfg_def demo_spec_def demo_groups_def from_spec_def Let_def cdiv_def)

lemma demo_load:
  obtains s js rs where "sched_op demo_ext demo_load_event demo_new = Some s" "env_ok demo_ext demo_load_event demo_new"
    "jobs s = [(0, js)]" "pending_count js = 1" "req_status s = [(''r'', rs)]" "idle rs"
proof -
  from demo_match obtain s rs where m: "get_num_new_matched_tokens demo_ext ''r'' 0 0 0 0 demo_new = Some ((Some 6, True), s)"
    and sel: "req_status s = [(''r'', rs)]" "config s = demo_cfg" "job_counter s = 0"
      "transfer_jobs rs = {}" "jobs s = []"
    and st: "lookup_excluded_groups rs = {}" "num_locally_computed_tokens rs = 0" "block_level rs"
      "group_states rs = [\<lparr> offload_keys = [10, 11, 12], block_ids = [], next_stored_chunk_idx = 0, num_hit_chunks = 3 \<rparr>,
         \<lparr> offload_keys = [20, 21, 22], block_ids = [], next_stored_chunk_idx = 0, num_hit_chunks = 3 \<rparr>]"
    by blast
  note a = demo_alloc [OF st]
  have fit: "blocks_fit s rs demo_blocks 6" using a by (simp add: blocks_fit_def sel(2))
  have env: "env_ok demo_ext demo_load_event demo_new"
    using fit m sel(1) by (simp add: demo_load_event_def demo_new_sel)
  define s' where "s' = the (update_state_after_alloc demo_ext ''r'' demo_blocks 6 s)"
  have s': "update_state_after_alloc demo_ext ''r'' demo_blocks 6 s = Some s'"
    "\<exists>js. jobs s' = [(0, js)] \<and> pending_count js = 1" "\<exists>rs. req_status s' = [(''r'', rs)] \<and> idle rs"
    using a [unfolded sel(2) [symmetric]] sel
    by (simp_all add: s'_def update_state_after_alloc_def Let_def demo_ext_def put_req_def demo_cfg_workers idle_def st(4))
  from s'(2,3) obtain js rs' where "jobs s' = [(0, js)]" "pending_count js = 1" "req_status s' = [(''r'', rs')]" "idle rs'" by blast
  moreover have "sched_op demo_ext demo_load_event demo_new = Some s'" using m s'(1) by (simp add: demo_load_event_def)
  ultimately show thesis using env that by blast
qed

lemma job_ledger_exact_witness:
  "\<exists>s js rs. sched_reachable demo_ext s \<and> map_of (jobs s) 0 = Some js
     \<and> map_of (req_status s) (job_req js) = Some rs \<and> 0 \<in> transfer_jobs rs \<and> 0 < pending_count js"
proof -
  obtain s js where s: "sched_op demo_ext demo_load_event demo_new = Some s" "env_ok demo_ext demo_load_event demo_new"
    "jobs s = [(0, js)]" by (rule demo_load)
  have r: "sched_reachable demo_ext s" by (rule sched_reachable.step [OF demo_new_reachable s(2,1)])
  have js: "map_of (jobs s) 0 = Some js" by (simp add: s(3))
  from job_ledger_exact [OF r, THEN conjunct1, rule_format, OF this]
  obtain rs where "0 < pending_count js" "map_of (req_status s) (job_req js) = Some rs" "0 \<in> transfer_jobs rs" by blast
  with r js show ?thesis by (intro exI conjI)
qed


lemma reports_refine_counters_witness:
  "\<exists>s s'. sched_reachable demo_ext s \<and> outstanding s 0 = Some 1
     \<and> update_connector_output demo_ext [(0, 1)] s = Some s' \<and> outstanding s' 0 = None"
proof -
  obtain s js where s: "sched_op demo_ext demo_load_event demo_new = Some s" "env_ok demo_ext demo_load_event demo_new"
    "jobs s = [(0, js)]" "pending_count js = 1" by (rule demo_load)
  have r: "sched_reachable demo_ext s" by (rule sched_reachable.step [OF demo_new_reachable s(2,1)])
  have "distinct (map fst [(0 :: nat, 1 :: int)])" "\<forall>e \<in> set [(0, 1)]. count_ok s e"
    by (simp_all add: count_ok_def s(3,4))
  from reports_refine_counters [OF r this] obtain s' where
    s': "update_connector_output demo_ext [(0, 1)] s = Some s'" "outstanding s' = fold report [(0, 1)] (outstanding s)" by blast
  have "outstanding s 0 = Some 1" "outstanding s' 0 = None"
    by (simp_all add: s'(2)) (simp_all add: outstanding_def report_def s(3,4))
  with r s'(1) show ?thesis by (intro exI conjI)
qed

definition idle_output :: scheduler_output where
  "idle_output = \<lparr> req_data = [], num_scheduled_tokens = [], finished_req_ids = [], preempted_req_ids = [], new_req_ids = [] \<rparr>"

lemma idle_schedule:
  assumes "sched_op ext (Schedule idle_output) s = Some s'"
  shows "jobs s' = jobs s" "batch_load_jobs s' = []" "jobs_to_flush s' = {}" "batch_allocated s' = {}"
  using assms
  by (auto simp: idle_output_def build_connector_meta_def update_req_states_def build_store_jobs_def
      flush_reallocated_def Let_def split: if_splits)

lemma idle_blocks_distinct:
  assumes "update_req_states ext idle_output s = Some s1" "map_of (req_status s1) q = Some rs1"
    and "req_status s = [(r, rs)]" "idle rs"
  shows "blocks_distinct rs1"
proof -
  have "rs1 = rs \<or> rs1 = rs\<lparr> group_states := zero_stale (batch_allocated s) (config s) None (group_states rs) \<rparr>"
    using assms(1-3) by (auto simp: update_req_states_def idle_output_def split: if_splits)
  then have "idle rs1"
    using assms(4) idle_lengths [of rs1 rs] zero_stale_keeps(2) by fastforce
  then have "concat (map block_ids (group_states rs1)) = []" by (simp add: idle_def)
  then show ?thesis unfolding blocks_distinct_def by (simp only: filter.simps distinct.simps)
qed

lemma second_reset_fails_witness:
  "\<exists>s s1. sched_reachable demo_ext s \<and> reset_cache demo_ext s = Some s1 \<and> reset_cache demo_ext s1 = None"
proof -
  obtain s js rs where s: "sched_op demo_ext demo_load_event demo_new = Some s" "env_ok demo_ext demo_load_event demo_new"
    "jobs s = [(0, js)]" "req_status s = [(''r'', rs)]" "idle rs" by (rule demo_load)
  have r: "sched_reachable demo_ext s" by (rule sched_reachable.step [OF demo_new_reachable s(2,1)])
  have env: "env_ok demo_ext (Schedule idle_output) s"
    using idle_blocks_distinct [OF _ _ s(4,5)] by (simp add: output_ok_def) (simp add: idle_output_def)
  obtain s2 where s2: "sched_op demo_ext (Schedule idle_output) s = Some s2" "ledger demo_ext s2"
    by (rule sched_op_ledger [OF reachable_ledger [OF r] env])
  note sel = idle_schedule [OF s2(1)]
  have r2: "sched_reachable demo_ext s2" by (rule sched_reachable.step [OF r env s2(1)])
  obtain s3 where "reset_cache demo_ext s2 = Some s3"
    by (rule reset_cache_ledger [OF s2(2) sel(2-4)])
  with second_reset_fails [OF this] r2 sel(1) s(3) show ?thesis by auto
qed

end
