(* ===== verification/CopyLayout.thy ===== *)
theory CopyLayout
  imports CopyPlan
begin

text \<open>
  The reference layout of a transfer and the proof that \<^const>\<open>plan_transfer\<close> computes it: the
  k-th GPU block of a group with first block index \<open>idx\<close> belongs to place \<open>(idx + k) mod bpc\<close> of
  the chunk that is \<open>(idx mod bpc + k) div bpc\<close> chunks after the first of the group.
\<close>

section \<open>Lists\<close>

lemma concat_map_upt:
  "concat (map (\<lambda>b. map (f b) [0..<m]) ids) = map (\<lambda>k. f (ids ! (k div m)) (k mod m)) [0..<length ids * m]"
proof (cases "m = 0")
  case False
  then show ?thesis
  proof (induction ids rule: rev_induct)
    case (snoc b ids)
    have "[0..<length (ids @ [b]) * m] = [0..<length ids * m] @ map (\<lambda>i. i + length ids * m) [0..<m]"
      using upt_add_eq_append [of 0 "length ids * m" m] by (simp add: map_add_upt add.commute)
    moreover have "map (\<lambda>k. f ((ids @ [b]) ! (k div m)) (k mod m)) [0..<length ids * m]
        = map (\<lambda>k. f (ids ! (k div m)) (k mod m)) [0..<length ids * m]"
      using snoc.prems by (auto simp: nth_append less_mult_imp_div_less)
    ultimately show ?case
      using snoc by (simp add: nth_append comp_def)
  qed simp
qed simp

lemma drop_take_nth: "k < n \<Longrightarrow> s + n \<le> length xs \<Longrightarrow> drop s (take (s + n) xs) ! k = xs ! (s + k)"
  by simp

section \<open>Pointers\<close>

definition sub_ptr :: "nat \<Rightarrow> tensor \<Rightarrow> nat \<Rightarrow> nat \<Rightarrow> addr" where
  "sub_ptr bpc t b j = row_ptr t b + of_nat (j * (row_bytes t div bpc))"

lemma sub_ptr_0 [simp]: "sub_ptr bpc t b 0 = row_ptr t b"
  by (simp add: sub_ptr_def)

lemma slice_assign_same [simp]: "length xs = n \<Longrightarrow> slice_assign n xs = Some xs"
  by (simp add: slice_assign_def)

text \<open>Both paths of the routine compute the same formula.\<close>

lemma compute_sub_block_ptrs_layout:
  assumes "skip < bpc" "bpc dvd row_bytes t" "skip + n \<le> length ids * bpc"
  shows "compute_sub_block_ptrs ids bpc n t skip
    = Some (map (\<lambda>k. sub_ptr bpc t (ids ! ((skip + k) div bpc)) ((skip + k) mod bpc)) [0..<n])"
proof (cases "bpc = 1")
  case True
  with assms have "map (row_ptr t) (take n ids) = map (\<lambda>k. row_ptr t (ids ! k)) [0..<n]"
    by (auto intro!: nth_equalityI)
  with True assms show ?thesis by (simp add: compute_sub_block_ptrs_def)
next
  case False
  let ?f = "\<lambda>b j. sub_ptr bpc t b j"
  have "concat (map (\<lambda>b. map (\<lambda>off. row_ptr t b + off)
          (map (\<lambda>j. of_nat j * of_nat (row_bytes t div bpc)) [0..<bpc])) ids)
      = map (\<lambda>k. ?f (ids ! (k div bpc)) (k mod bpc)) [0..<length ids * bpc]"
    using concat_map_upt [of ?f bpc ids] by (simp add: comp_def sub_ptr_def)
  then have "take n (drop skip (concat (map (\<lambda>b. map (\<lambda>off. row_ptr t b + off)
          (map (\<lambda>j. of_nat j * of_nat (row_bytes t div bpc)) [0..<bpc])) ids)))
      = map (\<lambda>k. ?f (ids ! ((skip + k) div bpc)) ((skip + k) mod bpc)) [0..<n]"
    using assms(3) by (auto intro!: nth_equalityI)
  with False assms show ?thesis
    by (simp add: compute_sub_block_ptrs_def Let_def dvd_eq_mod_eq_0 del: map_map)
qed

section \<open>The layout\<close>

definition chunk_size :: "handler \<Rightarrow> nat" where
  "chunk_size h = (if gpu_to_cpu h then dst_blocks_per_chunk h else src_blocks_per_chunk h)"

definition gpu_side :: "handler \<Rightarrow> tensor list" where
  "gpu_side h = (if gpu_to_cpu h then src_tensors h else dst_tensors h)"

definition cpu_side :: "handler \<Rightarrow> tensor list" where
  "cpu_side h = (if gpu_to_cpu h then dst_tensors h else src_tensors h)"

definition page_desc :: "handler \<Rightarrow> data_ref \<Rightarrow> nat \<Rightarrow> nat \<Rightarrow> nat \<Rightarrow> copy_desc" where
  "page_desc h r g c j =
     (let gp = row_ptr (gpu_side h ! tensor_idx r) g; cp = sub_ptr (chunk_size h) (cpu_side h ! tensor_idx r) c j
      in if gpu_to_cpu h then \<lparr> copy_src = gp, copy_dst = cp, copy_size = page_size_bytes r \<rparr>
         else \<lparr> copy_src = cp, copy_dst = gp, copy_size = page_size_bytes r \<rparr>)"

text \<open>The number of chunks a group of \<open>n\<close> blocks from index \<open>idx\<close> touches.\<close>

definition spanned :: "nat \<Rightarrow> nat \<Rightarrow> nat \<Rightarrow> nat" where
  "spanned bpc n idx = (if n = 0 then 0 else cdiv (n + idx mod bpc) bpc)"

definition group_layout :: "handler \<Rightarrow> nat list \<Rightarrow> nat list \<Rightarrow> nat \<Rightarrow> nat \<Rightarrow> data_ref list \<Rightarrow> copy_desc list" where
  "group_layout h gpu cpu n idx refs =
     (let b = chunk_size h
      in concat (map (\<lambda>r. map (\<lambda>k. page_desc h r (gpu ! k) (cpu ! ((idx mod b + k) div b)) ((idx + k) mod b))
           [0..<n]) refs))"

fun layout :: "handler \<Rightarrow> nat list \<Rightarrow> nat list \<Rightarrow> (nat \<times> nat \<times> data_ref list) list \<Rightarrow> copy_desc list" where
  "layout h gpu cpu [] = []"
| "layout h gpu cpu ((n, idx, refs) # gs) =
     group_layout h gpu cpu n idx refs @ layout h (drop n gpu) (drop (spanned (chunk_size h) n idx) cpu) gs"

definition gpu_blocks_needed :: "(nat \<times> nat \<times> data_ref list) list \<Rightarrow> nat" where
  "gpu_blocks_needed gs = sum_list (map fst gs)"

definition chunks_needed :: "nat \<Rightarrow> (nat \<times> nat \<times> data_ref list) list \<Rightarrow> nat" where
  "chunks_needed bpc gs = sum_list (map (\<lambda>(n, idx, refs). spanned bpc n idx) gs)"

text \<open>What \<^const>\<open>new_handler\<close> establishes, and references into existing tensors.\<close>

definition handler_ok :: "handler \<Rightarrow> bool" where
  "handler_ok h \<longleftrightarrow>
     0 < chunk_size h \<and> (if gpu_to_cpu h then src_blocks_per_chunk h else dst_blocks_per_chunk h) = 1
     \<and> length (src_tensors h) = length (dst_tensors h)
     \<and> (\<forall>t \<in> set (cpu_side h). chunk_size h dvd row_bytes t)
     \<and> (\<forall>r \<in> set (concat (group_data_refs h)). tensor_idx r < length (src_tensors h))"

lemma new_handler_ok:
  assumes "new_handler gpu cpu bpc refs to_cpu stage = Some h" "0 < bpc"
    and "\<forall>r \<in> set (concat refs). tensor_idx r < length gpu"
  shows "handler_ok h"
proof -
  from assms(1) have "list_all2 (\<lambda>g c. row_bytes c = row_bytes g * bpc) gpu cpu" "length gpu = length cpu"
    by (auto simp: new_handler_def split: option.splits bind_splits)
  moreover from this have "\<forall>t \<in> set cpu. bpc dvd row_bytes t"
    by (auto simp: list_all2_conv_all_nth in_set_conv_nth)
  ultimately show ?thesis using assms
    by (auto simp: new_handler_def handler_ok_def chunk_size_def cpu_side_def split: bind_splits)
qed

lemma group_data_refs_new:
  "new_handler gpu cpu bpc refs to_cpu stage = Some h \<Longrightarrow> group_data_refs h = refs"
  by (auto simp: new_handler_def split: bind_splits)

section \<open>One group\<close>

lemma spanned_1 [simp]: "spanned (Suc 0) n idx = n"
  by (simp add: spanned_def cdiv_def)

lemma spanned_0 [simp]: "spanned bpc 0 idx = 0"
  by (simp add: spanned_def)

lemma spanned_bound: "0 < bpc \<Longrightarrow> n \<noteq> 0 \<Longrightarrow> idx mod bpc + n \<le> spanned bpc n idx * bpc"
  by (simp add: spanned_def add.commute cdiv_upper)

lemma all_descs_Some: "(\<And>r. r \<in> set rs \<Longrightarrow> f r = Some (g r)) \<Longrightarrow> all_descs f rs = Some (concat (map g rs))"
  by (induction rs) auto

lemma map2_upt: "map2 f (map g [0..<n]) (map k [0..<n]) = map (\<lambda>i. f (g i) (k i)) [0..<n]"
  by (auto intro!: nth_equalityI)

lemma ref_descs_layout:
  assumes ok: "handler_ok h" and r: "tensor_idx r < length (src_tensors h)" and n: "n \<noteq> 0"
    and gpu: "gpu = (if gpu_to_cpu h then src else dst)" and cpu: "cpu = (if gpu_to_cpu h then dst else src)"
    and len: "length gpu = n" "length cpu = spanned (chunk_size h) n idx"
  shows "ref_descs h n idx src dst r
    = Some (map (\<lambda>k. page_desc h r (gpu ! k) (cpu ! ((idx mod chunk_size h + k) div chunk_size h))
        ((idx + k) mod chunk_size h)) [0..<n])"
proof -
  let ?b = "chunk_size h" and ?i = "tensor_idx r"
  have b: "0 < ?b" and i: "?i < length (gpu_side h)" "?i < length (cpu_side h)"
    using ok r by (auto simp: handler_ok_def gpu_side_def cpu_side_def)
  have one: "compute_sub_block_ptrs gpu 1 n (gpu_side h ! ?i) 0 = Some (map (\<lambda>k. row_ptr (gpu_side h ! ?i) (gpu ! k)) [0..<n])"
    using compute_sub_block_ptrs_layout [of 0 1 "gpu_side h ! ?i" n gpu] len(1) by simp
  have dvd: "?b dvd row_bytes (cpu_side h ! ?i)"
    using ok nth_mem [OF i(2)] by (simp add: handler_ok_def)
  have many: "compute_sub_block_ptrs cpu ?b n (cpu_side h ! ?i) (idx mod ?b)
      = Some (map (\<lambda>k. sub_ptr ?b (cpu_side h ! ?i) (cpu ! ((idx mod ?b + k) div ?b)) ((idx + k) mod ?b)) [0..<n])"
    using compute_sub_block_ptrs_layout [OF _ dvd, of "idx mod ?b" n cpu] spanned_bound [OF b n] b len(2)
    by (simp add: mod_simps)
  show ?thesis
  proof (cases "gpu_to_cpu h")
    case True
    with ok have "src_blocks_per_chunk h = 1" "dst_blocks_per_chunk h = ?b"
      by (simp_all add: handler_ok_def chunk_size_def)
    with True one many i gpu cpu show ?thesis
      by (simp add: ref_descs_def nth_opt_def gpu_side_def cpu_side_def map2_upt page_desc_def)
  next
    case False
    with ok have "dst_blocks_per_chunk h = 1" "src_blocks_per_chunk h = ?b"
      by (simp_all add: handler_ok_def chunk_size_def)
    with False one many i gpu cpu show ?thesis
      by (simp add: ref_descs_def nth_opt_def gpu_side_def cpu_side_def map2_upt page_desc_def)
  qed
qed

section \<open>All groups\<close>

lemma group_layout_take:
  assumes "0 < chunk_size h" "n \<le> length gpu" "spanned (chunk_size h) n idx \<le> length cpu"
  shows "group_layout h (take n gpu) (take (spanned (chunk_size h) n idx) cpu) n idx refs = group_layout h gpu cpu n idx refs"
proof -
  have "(idx mod chunk_size h + k) div chunk_size h < spanned (chunk_size h) n idx" if "k < n" for k
    using spanned_bound [OF assms(1), of n idx] that by (intro less_mult_imp_div_less) simp
  then show ?thesis unfolding group_layout_def Let_def
    by (intro arg_cong [where f = concat] map_cong refl) simp
qed

lemma layout_no_blocks [simp]: "group_layout h gpu cpu 0 idx refs = []"
  by (simp add: group_layout_def)

lemma chunk_side:
  "handler_ok h \<Longrightarrow> spanned (src_blocks_per_chunk h) n idx = (if gpu_to_cpu h then n else spanned (chunk_size h) n idx)"
  "handler_ok h \<Longrightarrow> spanned (dst_blocks_per_chunk h) n idx = (if gpu_to_cpu h then spanned (chunk_size h) n idx else n)"
  "handler_ok h \<Longrightarrow> 0 < src_blocks_per_chunk h \<and> 0 < dst_blocks_per_chunk h"
  by (auto simp: handler_ok_def chunk_size_def split: if_splits)

text \<open>Bytes of a list of groups.\<close>

definition layout_bytes :: "(nat \<times> nat \<times> data_ref list) list \<Rightarrow> nat" where
  "layout_bytes gs = sum_list (map (\<lambda>(n, idx, refs). sum_list (map (\<lambda>r. n * page_size_bytes r) refs)) gs)"

text \<open>Groups without blocks are skipped; the two offsets move by what each side needs.\<close>

lemma plan_groups_layout:
  assumes ok: "handler_ok h"
  shows "so \<le> length src \<Longrightarrow> dof \<le> length dst \<Longrightarrow> \<forall>(n, idx, refs) \<in> set gs. \<forall>r \<in> set refs. tensor_idx r < length (src_tensors h) \<Longrightarrow>
    plan_groups h src dst so dof gs =
    (let s = sum_list (map (\<lambda>(n, idx, refs). spanned (src_blocks_per_chunk h) n idx) gs);
         d = sum_list (map (\<lambda>(n, idx, refs). spanned (dst_blocks_per_chunk h) n idx) gs)
     in if so + s \<le> length src \<and> dof + d \<le> length dst
        then Some (layout h (if gpu_to_cpu h then drop so src else drop dof dst)
                     (if gpu_to_cpu h then drop dof dst else drop so src) gs, layout_bytes gs, so + s, dof + d)
        else None)"
proof (induction gs arbitrary: so dof)
  case Nil
  then show ?case by (simp add: layout_bytes_def)
next
  case (Cons a gs)
  obtain n idx refs where a: "a = (n, idx, refs)" by (cases a)
  show ?case
  proof (cases "n = 0")
    case True
    have "\<forall>(n, idx, refs) \<in> set gs. \<forall>r \<in> set refs. tensor_idx r < length (src_tensors h)"
      using Cons.prems(3) by simp
    from Cons.IH [OF Cons.prems(1,2) this] show ?thesis
      using a True by (simp add: layout_bytes_def Let_def)
  next
    case False
    let ?s = "spanned (src_blocks_per_chunk h) n idx" and ?d = "spanned (dst_blocks_per_chunk h) n idx"
    show ?thesis
    proof (cases "so + ?s \<le> length src \<and> dof + ?d \<le> length dst")
      case False
      with a \<open>n \<noteq> 0\<close> show ?thesis
        by (auto simp: spanned_def Let_def require_def)
    next
      case True
      let ?src = "drop so (take (so + ?s) src)" and ?dst = "drop dof (take (dof + ?d) dst)"
      let ?gpu = "if gpu_to_cpu h then drop so src else drop dof dst"
      let ?cpu = "if gpu_to_cpu h then drop dof dst else drop so src"
      note side = chunk_side [OF ok]
      have refs: "\<forall>r \<in> set refs. tensor_idx r < length (src_tensors h)"
        using Cons.prems a by simp
      have gpu: "take n ?gpu = (if gpu_to_cpu h then ?src else ?dst)"
        and cpu: "take (spanned (chunk_size h) n idx) ?cpu = (if gpu_to_cpu h then ?dst else ?src)"
        by (simp_all add: side take_drop add.commute)
      have len: "n \<le> length ?gpu" "spanned (chunk_size h) n idx \<le> length ?cpu"
        using True by (auto simp: side split: if_splits)
      have "all_descs (ref_descs h n idx ?src ?dst) refs = Some (group_layout h (take n ?gpu) (take (spanned (chunk_size h) n idx) ?cpu) n idx refs)"
        unfolding group_layout_def Let_def
        by (rule all_descs_Some, rule ref_descs_layout [OF ok _ \<open>n \<noteq> 0\<close> gpu cpu])
          (use refs len in \<open>auto simp: min_def\<close>)
      also have "\<dots> = Some (group_layout h ?gpu ?cpu n idx refs)"
        using ok len by (subst group_layout_take) (auto simp: handler_ok_def)
      finally have ds: "all_descs (ref_descs h n idx ?src ?dst) refs = Some (group_layout h ?gpu ?cpu n idx refs)" .
      have ends: "so + cdiv (n + idx mod src_blocks_per_chunk h) (src_blocks_per_chunk h) = so + ?s"
        "dof + cdiv (n + idx mod dst_blocks_per_chunk h) (dst_blocks_per_chunk h) = dof + ?d"
        using \<open>n \<noteq> 0\<close> by (simp_all add: spanned_def)
      have rest: "drop n ?gpu = (if gpu_to_cpu h then drop (so + ?s) src else drop (dof + ?d) dst)"
        "drop (spanned (chunk_size h) n idx) ?cpu = (if gpu_to_cpu h then drop (dof + ?d) dst else drop (so + ?s) src)"
        by (simp_all add: side add.commute)
      have IH: "plan_groups h src dst (so + ?s) (dof + ?d) gs =
        (let s = sum_list (map (\<lambda>(n, idx, refs). spanned (src_blocks_per_chunk h) n idx) gs);
             d = sum_list (map (\<lambda>(n, idx, refs). spanned (dst_blocks_per_chunk h) n idx) gs)
         in if so + ?s + s \<le> length src \<and> dof + ?d + d \<le> length dst
            then Some (layout h (drop n ?gpu) (drop (spanned (chunk_size h) n idx) ?cpu) gs, layout_bytes gs,
                       so + ?s + s, dof + ?d + d)
            else None)"
        unfolding rest using Cons True by (intro Cons.IH) auto
      have "plan_groups h src dst so dof (a # gs) =
          do { (rest, bytes, so', dof') \<leftarrow> plan_groups h src dst (so + ?s) (dof + ?d) gs;
               Some (group_layout h ?gpu ?cpu n idx refs @ rest,
                     sum_list (map (\<lambda>r. n * page_size_bytes r) refs) + bytes, so', dof') }"
        using True \<open>n \<noteq> 0\<close> side(3) unfolding a
        by (simp only: plan_groups.simps if_False ends ds Let_def require_def if_True simp_thms bind.bind_lunit)
      also have "\<dots> = (let s = sum_list (map (\<lambda>(n, idx, refs). spanned (src_blocks_per_chunk h) n idx) (a # gs));
             d = sum_list (map (\<lambda>(n, idx, refs). spanned (dst_blocks_per_chunk h) n idx) (a # gs))
         in if so + s \<le> length src \<and> dof + d \<le> length dst
            then Some (layout h ?gpu ?cpu (a # gs), layout_bytes (a # gs), so + s, dof + d)
            else None)"
        unfolding IH a by (simp add: Let_def layout_bytes_def add.assoc)
      finally show ?thesis .
    qed
  qed
qed

section \<open>The whole transfer\<close>

definition groups_of :: "handler \<Rightarrow> gpu_spec \<Rightarrow> (nat \<times> nat \<times> data_ref list) list" where
  "groups_of h gs = zip (group_sizes gs) (zip (block_indices gs) (group_data_refs h))"

text \<open>The two specifications describe the same blocks.\<close>

definition sizes_match :: "handler \<Rightarrow> gpu_spec \<Rightarrow> nat list \<Rightarrow> bool" where
  "sizes_match h gs cpu \<longleftrightarrow>
     length (group_sizes gs) = length (group_data_refs h) \<and> length (block_indices gs) = length (group_data_refs h)
     \<and> length (gpu_block_ids gs) = gpu_blocks_needed (groups_of h gs)
     \<and> length cpu = chunks_needed (chunk_size h) (groups_of h gs)"

lemma length_group_layout [simp]: "length (group_layout h gpu cpu n idx refs) = n * length refs"
  by (simp add: group_layout_def Let_def length_concat comp_def sum_list_triv)

lemma length_layout: "length (layout h gpu cpu gs) = sum_list (map (\<lambda>(n, idx, refs). n * length refs) gs)"
  by (induction gs arbitrary: gpu cpu) auto

lemma layout_sizes: "sum_list (map copy_size (layout h gpu cpu gs)) = layout_bytes gs"
proof (induction gs arbitrary: gpu cpu)
  case (Cons a gs)
  obtain n idx refs where a: "a = (n, idx, refs)" by (cases a)
  have "copy_size (page_desc h r g c j) = page_size_bytes r" for r g c j
    by (simp add: page_desc_def Let_def)
  then have "sum_list (map copy_size (group_layout h gpu cpu n idx refs)) = sum_list (map (\<lambda>r. n * page_size_bytes r) refs)"
    unfolding group_layout_def Let_def by (induction refs) (simp_all add: comp_def sum_list_triv)
  with Cons show ?case by (simp add: a layout_bytes_def)
qed (simp add: layout_bytes_def)

lemma plan_transfer_layout:
  assumes ok: "handler_ok h"
  shows "plan_transfer h gs cpu =
    (if sizes_match h gs cpu then Some (layout h (gpu_block_ids gs) cpu (groups_of h gs), layout_bytes (groups_of h gs)) else None)"
proof (cases "length (group_sizes gs) = length (group_data_refs h) \<and> length (block_indices gs) = length (group_data_refs h)")
  case True
  let ?src = "if gpu_to_cpu h then gpu_block_ids gs else cpu" and ?dst = "if gpu_to_cpu h then cpu else gpu_block_ids gs"
  let ?gs = "groups_of h gs"
  have refs: "\<forall>(n, idx, refs) \<in> set ?gs. \<forall>r \<in> set refs. tensor_idx r < length (src_tensors h)"
    using ok by (auto simp: handler_ok_def groups_of_def dest!: set_zip_rightD)
  have needed: "sum_list (map (\<lambda>(n, idx, refs). spanned (src_blocks_per_chunk h) n idx) ?gs)
      = (if gpu_to_cpu h then gpu_blocks_needed ?gs else chunks_needed (chunk_size h) ?gs)"
    "sum_list (map (\<lambda>(n, idx, refs). spanned (dst_blocks_per_chunk h) n idx) ?gs)
      = (if gpu_to_cpu h then chunks_needed (chunk_size h) ?gs else gpu_blocks_needed ?gs)"
    by (simp_all add: chunk_side [OF ok] gpu_blocks_needed_def chunks_needed_def case_prod_beta' cong: if_cong)
  have ops: "sum_list (map2 (\<lambda>n refs. n * length refs) (group_sizes gs) (group_data_refs h))
      = sum_list (map (\<lambda>(n, idx, refs). n * length refs) ?gs)"
    using True by (intro arg_cong [where f = sum_list]) (auto simp: groups_of_def intro!: nth_equalityI)
  show ?thesis
    using plan_groups_layout [OF ok, of 0 ?src 0 ?dst ?gs] refs True
    unfolding plan_transfer_def Let_def needed ops
    by (auto simp: groups_of_def [symmetric] sizes_match_def length_layout require_def split: if_splits)
qed (auto simp: plan_transfer_def sizes_match_def require_def Let_def)

section \<open>The property\<close>

text \<open>C22: transfer_async plans exactly the reference layout.  For a handler built by the
  constructor it succeeds exactly when both sides name as many blocks as the groups need, and
  then there is one descriptor per GPU block and data reference: the k-th block of a group goes
  to (or comes from) place (idx + k) mod bpc of its chunk, with the page size of the reference,
  and the byte count is the sum of the sizes.\<close>

theorem plan_matches_layout:
  assumes "new_handler gpu cpu bpc refs to_cpu stage = Some h" "0 < bpc"
    and "\<forall>r \<in> set (concat refs). tensor_idx r < length gpu"
  shows "plan_transfer h gs ids =
    (if sizes_match h gs ids then Some (layout h (gpu_block_ids gs) ids (groups_of h gs), layout_bytes (groups_of h gs)) else None)"
  by (rule plan_transfer_layout [OF new_handler_ok [OF assms]])

definition layout_demo :: handler where
  "layout_demo = \<lparr> gpu_to_cpu = True, src_tensors = [\<lparr> data_ptr = 1000, row_stride = 4, row_bytes = 4 \<rparr>],
     dst_tensors = [\<lparr> data_ptr = 5000, row_stride = 16, row_bytes = 12 \<rparr>], src_blocks_per_chunk = 1,
     dst_blocks_per_chunk = 3, group_data_refs = [[\<lparr> tensor_idx = 0, page_size_bytes = 4 \<rparr>]], stage_transfers = False \<rparr>"

text \<open>Two blocks, the last of one chunk and the first of the next one.\<close>

theorem plan_matches_layout_witness:
  "plan_transfer layout_demo \<lparr> gpu_block_ids = [7, 9], group_sizes = [2], block_indices = [5] \<rparr> [20, 21]
     = Some ([\<lparr> copy_src = 1028, copy_dst = 5328, copy_size = 4 \<rparr>, \<lparr> copy_src = 1036, copy_dst = 5336, copy_size = 4 \<rparr>], 8)"
proof -
  have "new_handler [\<lparr> data_ptr = 1000, row_stride = 4, row_bytes = 4 \<rparr>] [\<lparr> data_ptr = 5000, row_stride = 16, row_bytes = 12 \<rparr>]
      3 [[\<lparr> tensor_idx = 0, page_size_bytes = 4 \<rparr>]] True False = Some layout_demo"
    by (simp add: new_handler_def layout_demo_def)
  from plan_matches_layout [OF this, of "\<lparr> gpu_block_ids = [7, 9], group_sizes = [2], block_indices = [5] \<rparr>" "[20, 21]"]
  show ?thesis
    by (simp add: layout_demo_def sizes_match_def groups_of_def gpu_blocks_needed_def chunks_needed_def chunk_size_def
        spanned_def cdiv_def group_layout_def layout_bytes_def page_desc_def gpu_side_def cpu_side_def sub_ptr_def
        row_ptr_def Let_def upt_rec [of 0 2] upt_rec [of "Suc 0" 2])
qed

end
