(* ===== verification/OffloadLayout.thy ===== *)
theory OffloadLayout
  imports OffloadJobs CopyLayout
begin

text \<open>
  The scheduler and the worker together: the specifications that
  \<open>offloading-scheduler.dspark-prefix.py\<close> puts into its jobs, planned by
  \<open>kv_offload_cpu_gpu_worker.load-war.py\<close>.  The offloading manager is outside the repository;
  it is assumed to answer with one CPU block per key, in the order of the keys (\<open>place\<close>).
\<close>

section \<open>Division\<close>

lemma cdiv_cdiv:
  assumes "0 < a" "0 < b"
  shows "cdiv n (a * b) = cdiv (cdiv n a) b"
proof -
  have "cdiv n (a * b) \<le> k \<longleftrightarrow> cdiv (cdiv n a) b \<le> k" for k
    using assms by (simp add: cdiv_le_iff ac_simps)
  then show ?thesis by (metis le_antisym order_refl)
qed

lemma cdiv_minus_mult:
  assumes "0 < b"
  shows "cdiv (n - b * q) b = cdiv n b - q"
proof -
  have "cdiv (n - b * q) b \<le> k \<longleftrightarrow> cdiv n b - q \<le> k" for k
    using assms by (simp add: cdiv_le_iff le_diff_conv algebra_simps)
  then show ?thesis by (metis le_antisym order_refl)
qed

lemma spanned_chunks:
  assumes "0 < b" "l < n"
  shows "spanned b (n - l) l = cdiv n b - l div b"
proof -
  have "n - l + l mod b = n - b * (l div b)"
    using assms(2) mult_div_mod_eq [of b l] by linarith
  then show ?thesis using assms by (simp add: spanned_def cdiv_minus_mult)
qed

lemma chunk_of_offset:
  fixes b :: nat
  assumes "0 < b"
  shows "l div b + (l mod b + k) div b = (l + k) div b"
proof -
  have "((l mod b + k) + b * (l div b)) div b = l div b + (l mod b + k) div b"
    using assms by (subst div_mult_self2) auto
  moreover have "(l mod b + k) + b * (l div b) = l + k"
    using mult_div_mod_eq [of b l] by linarith
  ultimately show ?thesis by simp
qed

section \<open>Loads\<close>

text \<open>The pages of one group of a load: the block at position \<open>p\<close> comes from its own chunk.\<close>

definition load_pages ::
  "handler \<Rightarrow> ('k \<Rightarrow> nat) \<Rightarrow> nat \<Rightarrow> 'k group_state \<Rightarrow> gpu_block list \<Rightarrow> 'k group_load \<Rightarrow> data_ref list \<Rightarrow> copy_desc list" where
  "load_pages h place bpc st blocks l refs =
     concat (map (\<lambda>r. map (\<lambda>p. page_desc h r (block_id (blocks ! p)) (place (offload_keys st ! (p div bpc))) (p mod bpc))
       [load_index l..<load_index l + load_size l]) refs)"

lemma locally_computed_le: "locally_computed_blocks n blocks \<le> n"
  using length_takeWhile_le [of "\<lambda>b. is_null b \<or> has_hash b" "take n blocks"]
  by (simp add: locally_computed_blocks_def)

lemma alloc_group_load:
  assumes alloc: "alloc_group cfg blk ex computed cached g st blocks = Some (l, st')"
    and bpc: "0 < blocks_per_chunk cfg" "0 < tokens_per_block g" "tokens_per_chunk g = tokens_per_block g * blocks_per_chunk cfg"
  shows "length (load_blocks l) = load_size l"
    and "length (load_keys l) = spanned (blocks_per_chunk cfg) (load_size l) (load_index l)"
    and "k < load_size l \<Longrightarrow> load_blocks l ! k = block_id (blocks ! (load_index l + k))"
    and "i < length (load_keys l) \<Longrightarrow> load_keys l ! i = offload_keys st ! (load_index l div blocks_per_chunk cfg + i)"
proof -
  let ?b = "blocks_per_chunk cfg"
  let ?n = "cdiv cached (tokens_per_block g)" and ?c = "cdiv cached (tokens_per_chunk g)"
  let ?l = "locally_computed_blocks ?n blocks"
  have chunks: "?c = cdiv ?n ?b" using bpc by (simp add: cdiv_cdiv)
  have "length (load_blocks l) = load_size l \<and> length (load_keys l) = spanned ?b (load_size l) (load_index l)
      \<and> (\<forall>k < load_size l. load_blocks l ! k = block_id (blocks ! (load_index l + k)))
      \<and> (\<forall>i < length (load_keys l). load_keys l ! i = offload_keys st ! (load_index l div ?b + i))"
  proof (cases "group_idx g \<in> ex")
    case True
    with alloc show ?thesis by (auto simp: alloc_group_def)
  next
    case False
    with alloc have l: "l = \<lparr> load_keys = (if ?n - ?l = 0 then [] else drop (?l div ?b) (take ?c (offload_keys st))),
        load_blocks = map block_id (drop ?l (take ?n blocks)), load_size = ?n - ?l, load_index = ?l \<rparr>"
      and len: "?n \<le> length blocks" "?c \<le> length (offload_keys st)"
      by (auto simp: alloc_group_def Let_def split: bind_splits if_splits)
    have "spanned ?b (?n - ?l) ?l = ?c - ?l div ?b" if "?l < ?n"
      using spanned_chunks [OF bpc(1) that] chunks by simp
    with len locally_computed_le [of ?n blocks] show ?thesis
      by (auto simp: l min_absorb1)
  qed
  then show "length (load_blocks l) = load_size l"
    and "length (load_keys l) = spanned (blocks_per_chunk cfg) (load_size l) (load_index l)"
    and "k < load_size l \<Longrightarrow> load_blocks l ! k = block_id (blocks ! (load_index l + k))"
    and "i < length (load_keys l) \<Longrightarrow> load_keys l ! i = offload_keys st ! (load_index l div blocks_per_chunk cfg + i)"
    by blast+
qed

lemma load_group_layout:
  assumes h: "0 < chunk_size h" "chunk_size h = bpc"
    and l: "length (load_blocks l) = load_size l" "length (load_keys l) = spanned bpc (load_size l) (load_index l)"
      "\<And>k. k < load_size l \<Longrightarrow> load_blocks l ! k = block_id (blocks ! (load_index l + k))"
      "\<And>i. i < length (load_keys l) \<Longrightarrow> load_keys l ! i = offload_keys st ! (load_index l div bpc + i)"
  shows "group_layout h (load_blocks l @ gpu) (map place (load_keys l) @ cpu) (load_size l) (load_index l) refs
    = load_pages h place bpc st blocks l refs"
proof -
  let ?i = "load_index l" and ?n = "load_size l"
  have "page_desc h r ((load_blocks l @ gpu) ! k) ((map place (load_keys l) @ cpu) ! ((?i mod bpc + k) div bpc)) ((?i + k) mod bpc)
      = page_desc h r (block_id (blocks ! (?i + k))) (place (offload_keys st ! ((?i + k) div bpc))) ((?i + k) mod bpc)"
    if "k < ?n" for r k
  proof -
    have "(?i mod bpc + k) div bpc < length (load_keys l)"
      using spanned_bound [of bpc ?n ?i] h that l(2) by (intro less_mult_imp_div_less) simp
    with that l h show ?thesis by (simp add: nth_append chunk_of_offset)
  qed
  then have "map (\<lambda>k. page_desc h r ((load_blocks l @ gpu) ! k) ((map place (load_keys l) @ cpu) ! ((?i mod bpc + k) div bpc)) ((?i + k) mod bpc)) [0..<?n]
      = map (\<lambda>p. page_desc h r (block_id (blocks ! p)) (place (offload_keys st ! (p div bpc))) (p mod bpc)) [?i..<?i + ?n]" for r
    by (auto intro!: nth_equalityI)
  then show ?thesis by (simp add: group_layout_def load_pages_def h(2) Let_def)
qed

definition group_shape :: "sched_config \<Rightarrow> group_config \<Rightarrow> bool" where
  "group_shape cfg g \<longleftrightarrow> 0 < tokens_per_block g \<and> tokens_per_chunk g = tokens_per_block g * blocks_per_chunk cfg"

lemma load_groups_layout:
  assumes h: "chunk_size h = blocks_per_chunk cfg" "0 < blocks_per_chunk cfg"
  shows "alloc_groups cfg blk ex computed cached gs = Some (ls, sts) \<Longrightarrow> \<forall>(g, st, bs) \<in> set gs. group_shape cfg g
    \<Longrightarrow> length refs = length gs \<Longrightarrow>
    layout h (concat (map load_blocks ls)) (map place (concat (map load_keys ls)))
        (zip (map load_size ls) (zip (map load_index ls) refs))
      = concat (map (\<lambda>((g, st, bs), l, rf). load_pages h place (blocks_per_chunk cfg) st bs l rf) (zip gs (zip ls refs)))
    \<and> length ls = length gs
    \<and> length (concat (map load_blocks ls)) = sum_list (map load_size ls)
    \<and> length (concat (map load_keys ls)) = sum_list (map (\<lambda>l. spanned (blocks_per_chunk cfg) (load_size l) (load_index l)) ls)"
proof (induction gs arbitrary: ls sts refs)
  case (Cons x gs)
  let ?b = "blocks_per_chunk cfg"
  obtain g st bs where x: "x = (g, st, bs)" by (cases x)
  obtain l st' ls' sts' where l: "alloc_group cfg blk ex computed cached g st bs = Some (l, st')"
    and ls': "alloc_groups cfg blk ex computed cached gs = Some (ls', sts')" and ls: "ls = l # ls'"
    using Cons.prems(1) by (auto simp: x split: bind_splits)
  obtain rf refs' where refs: "refs = rf # refs'" "length refs' = length gs"
    using Cons.prems(3) by (cases refs) auto
  have shape: "group_shape cfg g" using Cons.prems(2) x by auto
  note L = alloc_group_load [OF l h(2)]
  have L1: "length (load_blocks l) = load_size l"
    and L2: "length (load_keys l) = spanned ?b (load_size l) (load_index l)"
    using L(1,2) shape by (simp_all add: group_shape_def)
  have IH: "layout h (concat (map load_blocks ls')) (map place (concat (map load_keys ls')))
        (zip (map load_size ls') (zip (map load_index ls') refs'))
      = concat (map (\<lambda>((g, st, bs), l, rf). load_pages h place ?b st bs l rf) (zip gs (zip ls' refs')))"
    "length ls' = length gs" "length (concat (map load_blocks ls')) = sum_list (map load_size ls')"
    "length (concat (map load_keys ls')) = sum_list (map (\<lambda>l. spanned ?b (load_size l) (load_index l)) ls')"
    using Cons.IH [OF ls' _ refs(2)] Cons.prems(2) by auto
  have "group_layout h (load_blocks l @ concat (map load_blocks ls')) (map place (load_keys l) @ map place (concat (map load_keys ls')))
      (load_size l) (load_index l) rf = load_pages h place ?b st bs l rf"
    by (rule load_group_layout) (use h L1 L2 L(3,4) shape in \<open>simp_all add: group_shape_def\<close>)
  with IH L1 L2 show ?case by (simp add: x ls refs h(1))
qed simp

text \<open>The plan of a load job, for the handler of that direction.\<close>

lemma load_plan:
  assumes h: "handler_ok h" "chunk_size h = blocks_per_chunk cfg" "0 < blocks_per_chunk cfg"
    and alloc: "alloc_groups cfg blk ex computed cached gs = Some (ls, sts)"
    and shape: "\<forall>(g, st, bs) \<in> set gs. group_shape cfg g" and refs: "length (group_data_refs h) = length gs"
  shows "\<exists>bytes. plan_transfer h \<lparr> gpu_block_ids = concat (map load_blocks ls), group_sizes = map load_size ls,
        block_indices = map load_index ls \<rparr> (map place (concat (map load_keys ls)))
    = Some (concat (map (\<lambda>((g, st, bs), l, rf). load_pages h place (blocks_per_chunk cfg) st bs l rf)
        (zip gs (zip ls (group_data_refs h)))), bytes)"
proof -
  let ?gs = "\<lparr> gpu_block_ids = concat (map load_blocks ls), group_sizes = map load_size ls, block_indices = map load_index ls \<rparr>"
  note L = load_groups_layout [OF h(2,3) alloc shape refs, of place]
  have groups: "groups_of h ?gs = zip (map load_size ls) (zip (map load_index ls) (group_data_refs h))"
    by (simp add: groups_of_def)
  have len: "length (group_data_refs h) = length ls" using L refs by simp
  have "map fst (groups_of h ?gs) = map load_size ls"
    unfolding groups using len by (intro nth_equalityI) auto
  moreover have "map (\<lambda>(n, idx, refs). spanned (blocks_per_chunk cfg) n idx) (groups_of h ?gs)
      = map (\<lambda>l. spanned (blocks_per_chunk cfg) (load_size l) (load_index l)) ls"
    unfolding groups using len by (intro nth_equalityI) auto
  ultimately have "sizes_match h ?gs (map place (concat (map load_keys ls)))"
    using L len h(2) by (simp add: sizes_match_def gpu_blocks_needed_def chunks_needed_def)
  with plan_transfer_layout [OF h(1), of ?gs "map place (concat (map load_keys ls))"] L
  show ?thesis by (simp add: groups)
qed


section \<open>Stores\<close>

text \<open>
  The chunks of a group that are stored have no block missing, except that the first of them may
  begin with missing ones: the engine frees the blocks of a sliding window from the front.
\<close>

definition full_chunk :: "nat \<Rightarrow> nat list \<Rightarrow> nat \<Rightarrow> bool" where
  "full_chunk bpc bs c \<longleftrightarrow> (\<forall>i < bpc. bs ! (c * bpc + i) \<noteq> 0)"

definition tail_chunk :: "nat \<Rightarrow> nat list \<Rightarrow> nat \<Rightarrow> nat \<Rightarrow> bool" where
  "tail_chunk bpc bs c k \<longleftrightarrow> k < bpc \<and> (\<forall>i < bpc. bs ! (c * bpc + i) \<noteq> 0 \<longleftrightarrow> k \<le> i)"

fun gap_free :: "nat \<Rightarrow> nat list \<Rightarrow> nat list \<Rightarrow> bool" where
  "gap_free bpc bs [] \<longleftrightarrow> True"
| "gap_free bpc bs (c # cs) \<longleftrightarrow> (\<exists>k. tail_chunk bpc bs c k) \<and> (\<forall>c' \<in> set cs. full_chunk bpc bs c')"

lemma chunk_blocks_tail:
  assumes "tail_chunk bpc bs c k"
  shows "chunk_blocks bpc bs c = map (\<lambda>i. (c * bpc + i, bs ! (c * bpc + i))) [k..<bpc]"
proof -
  have "[0..<bpc] = [0..<k] @ [k..<bpc]"
    using assms upt_add_eq_append [of 0 k "bpc - k"] by (simp add: tail_chunk_def)
  moreover have "filter (\<lambda>i. bs ! (c * bpc + i) \<noteq> 0) [0..<k] = []" "filter (\<lambda>i. bs ! (c * bpc + i) \<noteq> 0) [k..<bpc] = [k..<bpc]"
    using assms by (auto simp: tail_chunk_def filter_empty_conv intro!: filter_True)
  ultimately show ?thesis by (simp add: chunk_blocks_def filter_map comp_def)
qed

lemma chunk_blocks_full:
  "0 < bpc \<Longrightarrow> full_chunk bpc bs c \<Longrightarrow> chunk_blocks bpc bs c = map (\<lambda>i. (c * bpc + i, bs ! (c * bpc + i))) [0..<bpc]"
  by (rule chunk_blocks_tail) (simp add: full_chunk_def tail_chunk_def)

text \<open>The positions of the blocks of a group, counted from the start of its first chunk.\<close>

lemma gap_free_positions:
  assumes b: "0 < bpc" and gf: "gap_free bpc bs (c # cs)"
  obtains k where "k < bpc"
    "concat (map (chunk_blocks bpc bs) (c # cs)) =
      map (\<lambda>i. let p = (c # cs) ! ((k + i) div bpc) * bpc + (k + i) mod bpc in (p, bs ! p))
        [0..<length (c # cs) * bpc - k]"
proof -
  from gf obtain k where k: "tail_chunk bpc bs c k" and full: "\<forall>c' \<in> set cs. full_chunk bpc bs c'" by auto
  have rest: "map (chunk_blocks bpc bs) cs = map (\<lambda>c. map (\<lambda>i. (c * bpc + i, bs ! (c * bpc + i))) [0..<bpc]) cs"
    using full b by (auto intro: chunk_blocks_full)
  moreover have "chunk_blocks bpc bs c = drop k (map (\<lambda>i. (c * bpc + i, bs ! (c * bpc + i))) [0..<bpc])"
    using chunk_blocks_tail [OF k] by (simp add: drop_map)
  ultimately have "concat (map (chunk_blocks bpc bs) (c # cs))
      = drop k (concat (map (\<lambda>c. map (\<lambda>i. (c * bpc + i, bs ! (c * bpc + i))) [0..<bpc]) (c # cs)))"
    using k unfolding list.map concat.simps rest by (simp add: tail_chunk_def)
  also have "\<dots> = drop k (map (\<lambda>i. ((c # cs) ! (i div bpc) * bpc + i mod bpc, bs ! ((c # cs) ! (i div bpc) * bpc + i mod bpc)))
      [0..<length (c # cs) * bpc])"
    by (subst concat_map_upt) simp
  also have "\<dots> = map (\<lambda>i. let p = (c # cs) ! ((k + i) div bpc) * bpc + (k + i) mod bpc in (p, bs ! p))
        [0..<length (c # cs) * bpc - k]"
    by (auto intro!: nth_equalityI simp: Let_def)
  finally show ?thesis using that k by (auto simp: tail_chunk_def)
qed

text \<open>The pages of one group of a store: a block goes to its own place in the chunk it belongs to.\<close>

definition store_pages ::
  "handler \<Rightarrow> ('k \<Rightarrow> nat) \<Rightarrow> nat \<Rightarrow> 'k group_store \<Rightarrow> data_ref list \<Rightarrow> copy_desc list" where
  "store_pages h place bpc x refs =
     concat (map (\<lambda>r. map (\<lambda>(p, b). page_desc h r b (place (the (map_of (store_chunks x) (p div bpc)))) (p mod bpc))
       (store_positions x)) refs)"

definition first_position :: "'k group_store \<Rightarrow> nat" where
  "first_position x = (case store_positions x of [] \<Rightarrow> 0 | (p, b) # ps \<Rightarrow> p)"

text \<open>What a group store is: the blocks of distinct chunks, in their order.\<close>

definition group_store_ok :: "nat \<Rightarrow> nat list \<Rightarrow> 'k group_store \<Rightarrow> bool" where
  "group_store_ok bpc bs x \<longleftrightarrow>
     distinct (map fst (store_chunks x)) \<and> gap_free bpc bs (map fst (store_chunks x))
     \<and> store_positions x = concat (map (chunk_blocks bpc bs) (map fst (store_chunks x)))"

lemma store_group_shape:
  "distinct (map fst (store_chunks (store_group cfg chosen r n g st)))"
  "store_positions (store_group cfg chosen r n g st)
    = concat (map (chunk_blocks (blocks_per_chunk cfg) (block_ids st)) (map fst (store_chunks (store_group cfg chosen r n g st))))"
proof -
  have "distinct (map fst (filter P (zip [a..<a + length xs] xs)))" for P a and xs :: "'a list"
    by (rule distinct_map_filter) simp
  then show "distinct (map fst (store_chunks (store_group cfg chosen r n g st)))"
    unfolding store_group_def chosen_chunks_def Let_def group_store.simps .
  show "store_positions (store_group cfg chosen r n g st)
    = concat (map (chunk_blocks (blocks_per_chunk cfg) (block_ids st)) (map fst (store_chunks (store_group cfg chosen r n g st))))"
    by (simp add: store_group_def Let_def comp_def case_prod_beta')
qed

lemma store_group_layout:
  assumes h: "0 < chunk_size h" "chunk_size h = bpc" and ok: "group_store_ok bpc bs x"
  shows "length (map snd (store_chunks x)) = spanned bpc (length (store_positions x)) (first_position x)"
    and "group_layout h (store_blocks x @ gpu) (map place (map snd (store_chunks x)) @ cpu)
        (length (store_positions x)) (first_position x) refs = store_pages h place bpc x refs"
proof -
  let ?cs = "map fst (store_chunks x)" and ?n = "length (store_positions x)" and ?i = "first_position x"
  have b: "0 < bpc" using h by simp
  have "length (map snd (store_chunks x)) = spanned bpc ?n ?i
    \<and> (\<forall>r. map (\<lambda>k. page_desc h r ((store_blocks x @ gpu) ! k) ((map place (map snd (store_chunks x)) @ cpu) ! ((?i mod bpc + k) div bpc)) ((?i + k) mod bpc)) [0..<?n]
      = map (\<lambda>(p, b). page_desc h r b (place (the (map_of (store_chunks x) (p div bpc)))) (p mod bpc)) (store_positions x))"
  proof (cases "store_chunks x")
    case Nil
    with ok show ?thesis by (simp add: group_store_ok_def)
  next
    case (Cons ck rest)
    obtain c key where ck: "ck = (c, key)" by (cases ck)
    have "gap_free bpc bs (c # map fst rest)" using ok Cons ck by (simp add: group_store_ok_def)
    then obtain k where k: "k < bpc" and pos: "concat (map (chunk_blocks bpc bs) (c # map fst rest)) =
      map (\<lambda>i. let p = (c # map fst rest) ! ((k + i) div bpc) * bpc + (k + i) mod bpc in (p, bs ! p))
        [0..<length (c # map fst rest) * bpc - k]"
      by (rule gap_free_positions [OF b])
    have cs: "?cs = c # map fst rest" by (simp add: Cons ck)
    let ?p = "\<lambda>i. ?cs ! ((k + i) div bpc) * bpc + (k + i) mod bpc"
    have P: "store_positions x = map (\<lambda>i. (?p i, bs ! ?p i)) [0..<length ?cs * bpc - k]"
      using ok pos unfolding group_store_ok_def cs by (simp add: Let_def)
    have len: "?n = length ?cs * bpc - k" by (simp add: P)
    have pos_n: "0 < ?n" using k by (simp add: len cs)
    have i: "?i = c * bpc + k"
      using pos_n k unfolding first_position_def P len by (simp add: upt_conv_Cons cs)
    have "?n + ?i mod bpc = bpc * length ?cs"
      using k by (simp add: i len cs algebra_simps)
    then have span: "spanned bpc ?n ?i = length ?cs"
      using pos_n b by (simp add: spanned_def)
    have "page_desc h r ((store_blocks x @ gpu) ! j) ((map place (map snd (store_chunks x)) @ cpu) ! ((?i mod bpc + j) div bpc)) ((?i + j) mod bpc)
        = (case store_positions x ! j of (p, b) \<Rightarrow> page_desc h r b (place (the (map_of (store_chunks x) (p div bpc)))) (p mod bpc))"
      if j: "j < ?n" for r j
    proof -
      have d: "(k + j) div bpc < length ?cs" using j by (intro less_mult_imp_div_less) (simp add: len)
      then have "map_of (store_chunks x) (?cs ! ((k + j) div bpc)) = Some (snd (store_chunks x ! ((k + j) div bpc)))"
        using ok by (intro map_of_is_SomeI) (auto simp: group_store_ok_def intro: nth_mem)
      moreover have "?p j div bpc = ?cs ! ((k + j) div bpc)" "?p j mod bpc = (k + j) mod bpc" using b by simp_all
      moreover have "?i mod bpc = k" "(?i + j) mod bpc = (k + j) mod bpc" using k by (simp_all add: i add.assoc)
      moreover have "store_positions x ! j = (?p j, bs ! ?p j)" using j by (simp add: P)
      moreover have "(store_blocks x @ gpu) ! j = bs ! ?p j"
        using j by (simp add: store_blocks_def nth_append P)
      ultimately show ?thesis using d by (simp add: nth_append)
    qed
    then show ?thesis
      using span by (auto intro!: nth_equalityI)
  qed
  then show "length (map snd (store_chunks x)) = spanned bpc ?n ?i"
    and "group_layout h (store_blocks x @ gpu) (map place (map snd (store_chunks x)) @ cpu)
        ?n ?i refs = store_pages h place bpc x refs"
    by (simp_all add: group_layout_def store_pages_def h(2) Let_def)
qed

definition chosen_keys :: "'k group_store list \<Rightarrow> 'k list" where
  "chosen_keys gs = concat (map (\<lambda>x. map snd (store_chunks x)) gs)"

lemma store_groups_layout:
  assumes h: "chunk_size h = bpc" "0 < bpc"
  shows "\<forall>x \<in> set gs. \<exists>bs. group_store_ok bpc bs x \<Longrightarrow> length refs = length gs \<Longrightarrow>
    layout h (concat (map store_blocks gs)) (map place (chosen_keys gs))
        (zip (map (\<lambda>x. length (store_positions x)) gs) (zip (map first_position gs) refs))
      = concat (map (\<lambda>(x, rf). store_pages h place bpc x rf) (zip gs refs))
    \<and> length (chosen_keys gs) = sum_list (map (\<lambda>x. spanned bpc (length (store_positions x)) (first_position x)) gs)"
proof (induction gs arbitrary: refs)
  case (Cons x gs)
  obtain rf refs' where refs: "refs = rf # refs'" "length refs' = length gs"
    using Cons.prems(2) by (cases refs) auto
  obtain bs where "group_store_ok bpc bs x" using Cons.prems(1) by auto
  note G = store_group_layout [OF _ h(1) this]
  have L: "length (map snd (store_chunks x)) = spanned bpc (length (store_positions x)) (first_position x)"
    using G(1) h by simp
  have "group_layout h (store_blocks x @ concat (map store_blocks gs)) (map place (map snd (store_chunks x)) @ map place (chosen_keys gs))
      (length (store_positions x)) (first_position x) rf = store_pages h place bpc x rf"
    using G(2) h by simp
  moreover have "length (store_blocks x) = length (store_positions x)" by (simp add: store_blocks_def)
  moreover note Cons.IH [OF _ refs(2)]
  ultimately show ?case using Cons.prems(1) L h(1) by (simp add: refs chosen_keys_def)
qed (simp add: chosen_keys_def)

lemma store_plan:
  assumes h: "handler_ok h" "chunk_size h = bpc" "0 < bpc"
    and gs: "\<forall>x \<in> set gs. \<exists>bs. group_store_ok bpc bs x" and refs: "length (group_data_refs h) = length gs"
  shows "\<exists>bytes. plan_transfer h (store_spec gs) (map place (chosen_keys gs))
    = Some (concat (map (\<lambda>(x, rf). store_pages h place bpc x rf) (zip gs (group_data_refs h))), bytes)"
proof -
  note L = store_groups_layout [OF h(2,3) gs refs, of place]
  have first: "block_indices (store_spec gs) = map first_position gs"
    by (simp add: store_spec_def first_position_def)
  have sizes: "group_sizes (store_spec gs) = map (\<lambda>x. length (store_positions x)) gs" by (simp add: store_spec_def)
  have blocks: "gpu_block_ids (store_spec gs) = concat (map store_blocks gs)" by (simp add: store_spec_def)
  have groups: "groups_of h (store_spec gs) = zip (map (\<lambda>x. length (store_positions x)) gs) (zip (map first_position gs) (group_data_refs h))"
    by (simp add: groups_of_def first sizes)
  have "map fst (groups_of h (store_spec gs)) = map (\<lambda>x. length (store_positions x)) gs"
    unfolding groups using refs by (intro nth_equalityI) auto
  moreover have "map (\<lambda>(n, idx, refs). spanned bpc n idx) (groups_of h (store_spec gs))
      = map (\<lambda>x. spanned bpc (length (store_positions x)) (first_position x)) gs"
    unfolding groups using refs by (intro nth_equalityI) auto
  moreover have "length (concat (map store_blocks gs)) = sum_list (map (\<lambda>x. length (store_positions x)) gs)"
    by (simp add: length_concat store_blocks_def comp_def)
  ultimately have "sizes_match h (store_spec gs) (map place (chosen_keys gs))"
    using L refs h(2) by (simp add: sizes_match_def gpu_blocks_needed_def chunks_needed_def sizes first blocks)
  with plan_transfer_layout [OF h(1), of "store_spec gs" "map place (chosen_keys gs)"] L
  show ?thesis by (simp add: groups blocks)
qed


end
