(* ===== verification/OffloadLayoutDemo.thy ===== *)
theory OffloadLayoutDemo
  imports OffloadDemo OffloadLayout
begin

text \<open>
  One group with two blocks per chunk, on which the layout of loads and stores is applied, and a
  group with three blocks per chunk where a block in the middle of a pending chunk was given
  away: there the layout does not hold.
\<close>

section \<open>A load and a store\<close>

definition layout_group :: group_config where
  "layout_group = \<lparr> group_idx = 0, tokens_per_block = 2, tokens_per_chunk = 4, hashes_per_chunk = 1,
     sliding_window_size_in_chunks = None, alignment_chunk_count = None, is_eagle_group = False,
     eagle_group_is_veto_exempt = False, skip_external_reuse = False \<rparr>"

definition layout_cfg :: sched_config where
  "layout_cfg = \<lparr> kv_group_configs = [layout_group], blocks_per_chunk = 2, num_workers = 1, offload_prompt_only = False \<rparr>"

definition layout_handler :: "bool \<Rightarrow> handler" where
  "layout_handler to_cpu =
     (let g = \<lparr> data_ptr = 1000, row_stride = 4, row_bytes = 4 \<rparr>; c = \<lparr> data_ptr = 5000, row_stride = 8, row_bytes = 8 \<rparr>
      in \<lparr> gpu_to_cpu = to_cpu, src_tensors = (if to_cpu then [g] else [c]), dst_tensors = (if to_cpu then [c] else [g]),
           src_blocks_per_chunk = (if to_cpu then 1 else 2), dst_blocks_per_chunk = (if to_cpu then 2 else 1),
           group_data_refs = [[\<lparr> tensor_idx = 0, page_size_bytes = 4 \<rparr>]], stage_transfers = False \<rparr>)"

lemma layout_handler_ok:
  "handler_ok (layout_handler b)" "chunk_size (layout_handler b) = 2" "length (group_data_refs (layout_handler b)) = 1"
  by (auto simp: handler_ok_def layout_handler_def chunk_size_def cpu_side_def Let_def)

definition layout_req_state :: "nat list \<Rightarrow> (nat, nat) req_state" where
  "layout_req_state bids = \<lparr> req = demo_request, rctx = \<lparr> ctx_req_id = ''r'', load_tier_filter = FilterAll \<rparr>, block_level = True,
     group_states = [\<lparr> offload_keys = [10, 11], block_ids = bids, next_stored_chunk_idx = 0, num_hit_chunks = 0 \<rparr>],
     max_offload_tokens = None, num_locally_computed_tokens = 2, transfer_jobs = {}, deferred_start = None,
     external_lookup_bypassed = False, finished_signaled = False, lookup_excluded_groups = {} \<rparr>"

definition layout_sched :: "nat list \<Rightarrow> (nat, nat, unit, unit) sched" where
  "layout_sched bids = (new_sched layout_cfg None True demo_policy True ())\<lparr>req_status := [(''r'', layout_req_state bids)]\<rparr>"

definition layout_blocks :: "gpu_block list list" where
  "layout_blocks = [[\<lparr> block_id = 5, is_null = False, has_hash = True \<rparr>, \<lparr> block_id = 6, is_null = False, has_hash = False \<rparr>,
     \<lparr> block_id = 7, is_null = False, has_hash = False \<rparr>]]"



section \<open>A gap in the middle of a chunk\<close>

definition gap_group :: group_config where
  "gap_group = \<lparr> group_idx = 0, tokens_per_block = 1, tokens_per_chunk = 3, hashes_per_chunk = 1,
     sliding_window_size_in_chunks = Some 1, alignment_chunk_count = None, is_eagle_group = False,
     eagle_group_is_veto_exempt = False, skip_external_reuse = False \<rparr>"

definition gap_cfg :: sched_config where
  "gap_cfg = \<lparr> kv_group_configs = [gap_group], blocks_per_chunk = 3, num_workers = 1, offload_prompt_only = False \<rparr>"

definition gap_state :: "nat list \<Rightarrow> nat group_state" where
  "gap_state bids = \<lparr> offload_keys = [10], block_ids = bids, next_stored_chunk_idx = 0, num_hit_chunks = 0 \<rparr>"

definition gap_handler :: handler where
  "gap_handler = \<lparr> gpu_to_cpu = True, src_tensors = [\<lparr> data_ptr = 1000, row_stride = 4, row_bytes = 4 \<rparr>],
     dst_tensors = [\<lparr> data_ptr = 5000, row_stride = 12, row_bytes = 12 \<rparr>], src_blocks_per_chunk = 1,
     dst_blocks_per_chunk = 3, group_data_refs = [[\<lparr> tensor_idx = 0, page_size_bytes = 4 \<rparr>]], stage_transfers = False \<rparr>"

text \<open>Remark: A block in the middle of a pending chunk of a sliding group that is given to
  another request is zeroed, the chunk is still offered because its last block is there, and
  the store job puts the last block, at position 2, to place 1 of the chunk.\<close>

theorem gap_shifts_pages:
  "zero_stale {5} gap_cfg None [gap_state [4, 5, 6]] = [gap_state [4, 0, 6]]
   \<and> offer_group gap_cfg demo_request 3 gap_group (gap_state [4, 0, 6]) = Some [10]
   \<and> store_positions (store_group gap_cfg {10} demo_request 3 gap_group (gap_state [4, 0, 6])) = [(0, 4), (2, 6)]
   \<and> plan_transfer gap_handler (store_spec [store_group gap_cfg {10} demo_request 3 gap_group (gap_state [4, 0, 6])]) [20]
     = Some ([page_desc gap_handler \<lparr> tensor_idx = 0, page_size_bytes = 4 \<rparr> 4 20 0,
              page_desc gap_handler \<lparr> tensor_idx = 0, page_size_bytes = 4 \<rparr> 6 20 1], 8)"
proof -
  have n: "storable_chunks gap_cfg demo_request gap_group (gap_state [4, 0, 6]) 3 = 1"
    by (simp add: storable_chunks_def gap_group_def gap_state_def gap_cfg_def)
  have chunks: "chosen_chunks {10} 0 [10 :: nat] = [(0, 10)]" by (simp add: chosen_chunks_def)
  have pos: "store_positions (store_group gap_cfg {10} demo_request 3 gap_group (gap_state [4, 0, 6])) = [(0, 4), (2, 6)]"
    by (simp add: store_group_def n Let_def) (simp add: gap_state_def gap_cfg_def chunks chunk_blocks_def upt_rec)
  then have spec: "store_spec [store_group gap_cfg {10} demo_request 3 gap_group (gap_state [4, 0, 6])]
      = \<lparr> gpu_block_ids = [4, 6], group_sizes = [2], block_indices = [0] \<rparr>"
    by (simp add: store_spec_def store_blocks_def)
  have "zero_stale {5} gap_cfg None [gap_state [4, 5, 6]] = [gap_state [4, 0, 6]]"
    by (simp add: zero_stale_def gap_state_def gap_cfg_def gap_group_def sliding_groups_def zero_stale_group_def zero_range_def upt_rec)
  moreover have "offer_group gap_cfg demo_request 3 gap_group (gap_state [4, 0, 6]) = Some [10]"
    by (simp add: offer_group_def n Let_def)
      (simp add: gap_state_def gap_cfg_def gap_group_def is_store_reachable_swa_chunk_def islice_from_conv cdiv_def)
  moreover have "plan_transfer gap_handler \<lparr> gpu_block_ids = [4, 6], group_sizes = [2], block_indices = [0] \<rparr> [20]
     = Some ([page_desc gap_handler \<lparr> tensor_idx = 0, page_size_bytes = 4 \<rparr> 4 20 0,
              page_desc gap_handler \<lparr> tensor_idx = 0, page_size_bytes = 4 \<rparr> 6 20 1], 8)"
  proof -
    have "handler_ok gap_handler"
      by (auto simp: handler_ok_def gap_handler_def chunk_size_def cpu_side_def)
    from plan_transfer_layout [OF this] show ?thesis
      by (simp add: gap_handler_def sizes_match_def groups_of_def gpu_blocks_needed_def chunks_needed_def chunk_size_def
        spanned_def cdiv_def group_layout_def layout_bytes_def Let_def upt_rec [of 0 2] upt_rec [of "Suc 0" 2])
  qed
  ultimately show ?thesis using pos spec by simp
qed

end
