(* ===== verification/CopyMemory.thy ===== *)
theory CopyMemory
  imports CopyLayout
begin

text \<open>
  The memory effect of copy descriptors and the staging of \<open>transfer_async\<close>,
  \<open>copy_host_pages\<close> and \<open>_complete_host_copy\<close>.  GPU and host share one address space of bytes.
  The main lemma: a transfer through the staging buffer leaves every byte outside the buffer
  as the direct copies would.
\<close>

type_synonym memory = "addr \<Rightarrow> 8 word"

text \<open>The bytes of a page, and the effect of \<open>memmove\<close> or of one copy of the device.\<close>

definition page :: "addr \<Rightarrow> nat \<Rightarrow> addr set" where
  "page p n = {a. unat (a - p) < n}"

lemma in_page [simp]: "a \<in> page p n \<longleftrightarrow> unat (a - p) < n"
  by (simp add: page_def)

definition move :: "addr \<Rightarrow> addr \<Rightarrow> nat \<Rightarrow> memory \<Rightarrow> memory" where
  "move dst src n M = (\<lambda>a. if unat (a - dst) < n then M (src + (a - dst)) else M a)"

definition run_copy :: "copy_desc \<Rightarrow> memory \<Rightarrow> memory" where
  "run_copy d = move (copy_dst d) (copy_src d) (copy_size d)"

definition copy_host_pages :: "addr list \<Rightarrow> addr list \<Rightarrow> nat list \<Rightarrow> memory \<Rightarrow> memory" where
  "copy_host_pages sources destinations sizes =
     fold (\<lambda>(s, d, n). move d s n) (zip sources (zip destinations sizes))"

section \<open>Staging\<close>

text \<open>Running offsets of the pages inside the staging buffer.\<close>

fun running_offsets :: "nat \<Rightarrow> nat list \<Rightarrow> nat list" where
  "running_offsets off [] = []"
| "running_offsets off (n # ns) = off # running_offsets (off + n) ns"

definition staging_ptrs :: "addr \<Rightarrow> nat list \<Rightarrow> addr list" where
  "staging_ptrs base sizes = map (\<lambda>off. base + of_nat off) (running_offsets 0 sizes)"

text \<open>
  The descriptors that are submitted, the host destinations kept for later and the memory after
  the host copy of a load.  \<open>base\<close> is the address of the fresh staging tensor.
\<close>

definition stage_plan ::
  "handler \<Rightarrow> addr \<Rightarrow> copy_desc list \<Rightarrow> memory \<Rightarrow> copy_desc list \<times> addr list option \<times> memory" where
  "stage_plan h base ds M =
     (if stage_transfers h \<and> ds \<noteq> [] then
        (let sizes = map copy_size ds; ptrs = staging_ptrs base sizes
         in if gpu_to_cpu h
            then (map2 (\<lambda>d p. d\<lparr>copy_dst := p\<rparr>) ds ptrs, Some (map copy_dst ds), M)
            else (map2 (\<lambda>d p. d\<lparr>copy_src := p\<rparr>) ds ptrs, None,
                  copy_host_pages (map copy_src ds) ptrs sizes M))
      else (ds, None, M))"

definition complete_host_copy :: "addr \<Rightarrow> nat list \<Rightarrow> addr list option \<Rightarrow> memory \<Rightarrow> memory" where
  "complete_host_copy base batch_sizes dests M =
     (case dests of None \<Rightarrow> M
      | Some ds \<Rightarrow>
          (let sizes = take (length ds) batch_sizes
           in copy_host_pages (staging_ptrs base sizes) ds sizes M))"

section \<open>Copies whose sources are not overwritten\<close>

definition put_bytes :: "addr \<Rightarrow> (addr \<Rightarrow> 8 word) \<Rightarrow> nat \<Rightarrow> memory \<Rightarrow> memory" where
  "put_bytes d f n M = (\<lambda>a. if unat (a - d) < n then f (a - d) else M a)"

text \<open>Triples of source, destination and size.\<close>

abbreviation run_moves :: "(addr \<times> addr \<times> nat) list \<Rightarrow> memory \<Rightarrow> memory" where
  "run_moves \<equiv> fold (\<lambda>(s, d, n). move d s n)"

definition apart :: "(addr \<times> addr \<times> nat) list \<Rightarrow> bool" where
  "apart ts \<longleftrightarrow> (\<forall>(s, d, n) \<in> set ts. \<forall>(s', d', n') \<in> set ts. page s n \<inter> page d' n' = {})"

lemma move_outside: "a \<notin> page d n \<Longrightarrow> move d s n M a = M a"
  by (simp add: move_def)

lemma moves_as_writes:
  "\<forall>(s, d, n) \<in> set ts. \<forall>(s', d', n') \<in> set ts'. page s' n' \<inter> page d n = {}
   \<Longrightarrow> set ts \<subseteq> set ts' \<Longrightarrow> \<forall>(s, d, n) \<in> set ts'. \<forall>a \<in> page s n. M' a = M a
   \<Longrightarrow> run_moves ts M' = fold (\<lambda>(s, d, n). put_bytes d (\<lambda>i. M (s + i)) n) ts M'"
proof (induction ts arbitrary: M')
  case (Cons t ts)
  obtain s d n where t: "t = (s, d, n)" by (cases t)
  have "(s, d, n) \<in> set ts'" using Cons.prems(2) t by simp
  then have src: "\<forall>a \<in> page s n. M' a = M a" using Cons.prems(3) by blast
  have "M' (s + (a - d)) = M (s + (a - d))" if "unat (a - d) < n" for a
    using src that by simp
  then have eq: "move d s n M' = put_bytes d (\<lambda>i. M (s + i)) n M'"
    by (auto simp: move_def put_bytes_def)
  have "\<forall>(s', d', n') \<in> set ts'. \<forall>a \<in> page s' n'. move d s n M' a = M a"
  proof clarify
    fix s' d' n' a assume "(s', d', n') \<in> set ts'" "a \<in> page s' n'"
    moreover from this have "page s' n' \<inter> page d n = {}" using Cons.prems(1) t by fastforce
    ultimately have "a \<notin> page d n" "M' a = M a" using Cons.prems(3) by blast+
    then show "move d s n M' a = M a" by (simp add: move_outside del: in_page)
  qed
  then have "run_moves ts (move d s n M') = fold (\<lambda>(s, d, n). put_bytes d (\<lambda>i. M (s + i)) n) ts (move d s n M')"
    using Cons.prems by (intro Cons.IH) auto
  then show ?case by (simp add: t eq)
qed simp

lemma moves_writes: "apart ts \<Longrightarrow> run_moves ts M = fold (\<lambda>(s, d, n). put_bytes d (\<lambda>i. M (s + i)) n) ts M"
  by (rule moves_as_writes [where ts' = ts]) (auto simp: apart_def simp del: in_page, blast)

lemma writes_outside:
  "\<forall>(s, d, n) \<in> set ts. a \<notin> page d n \<Longrightarrow> fold (\<lambda>(s, d, n). put_bytes d (f s) n) ts M a = M a"
  by (induction ts arbitrary: M) (auto simp: put_bytes_def)

text \<open>Two lists of writes with the same destinations and the same data.\<close>

lemma writes_agree:
  assumes "list_all2 (\<lambda>(s, d, n) (s', d', n'). d' = d \<and> n' = n \<and> (\<forall>i. unat i < n \<longrightarrow> f s i = g s' i)) ts us"
    and "\<forall>a. a \<notin> R \<longrightarrow> M a = N a"
  shows "\<forall>a. a \<notin> R \<longrightarrow> fold (\<lambda>(s, d, n). put_bytes d (f s) n) ts M a = fold (\<lambda>(s, d, n). put_bytes d (g s) n) us N a"
  using assms
proof (induction ts us arbitrary: M N rule: list_all2_induct)
  case (Cons t ts u us)
  obtain s d n where t: "t = (s, d, n)" by (cases t)
  with Cons.hyps(1) obtain s' where u: "u = (s', d, n)" and fg: "\<forall>i. unat i < n \<longrightarrow> f s i = g s' i"
    by (cases u) auto
  have "\<forall>a. a \<notin> R \<longrightarrow> put_bytes d (f s) n M a = put_bytes d (g s') n N a"
    using Cons.prems fg by (auto simp: put_bytes_def)
  from Cons.IH [OF this] show ?case by (simp add: t u)
qed simp

section \<open>The staging buffer\<close>

lemma unat_minus_less:
  fixes x :: addr
  assumes "off + n \<le> 2 ^ 64" "0 < n"
  shows "unat (x - of_nat off) < n \<longleftrightarrow> off \<le> unat x \<and> unat x < off + n"
proof -
  have "unat (of_nat off :: addr) = off"
    using assms by (simp add: unat_of_nat)
  moreover have "unat x < 2 ^ 64" using unsigned_less [where w = x] by simp
  ultimately show ?thesis
    using assms by (auto simp: unat_sub_if')
qed

lemma in_shifted_page:
  fixes a base :: addr
  assumes "off + n \<le> 2 ^ 64"
  shows "a \<in> page (base + of_nat off) n \<longleftrightarrow> off \<le> unat (a - base) \<and> unat (a - base) < off + n"
proof -
  have eq: "a - (base + of_nat off) = (a - base) - of_nat off" by simp
  show ?thesis
    unfolding in_page eq using unat_minus_less [OF assms, of "a - base"] by (cases "n = 0") simp_all
qed

lemma length_running_offsets [simp]: "length (running_offsets off ns) = length ns"
  by (induction ns arbitrary: off) auto

lemma length_staging_ptrs [simp]: "length (staging_ptrs base ns) = length ns"
  by (simp add: staging_ptrs_def)

lemma running_offsets_nth:
  "i < length ns \<Longrightarrow> running_offsets off ns ! i = off + sum_list (take i ns)"
  by (induction ns arbitrary: off i) (auto simp: nth_Cons' take_Cons')

lemma running_offset_bound:
  "i < length ns \<Longrightarrow> sum_list (take i ns) + ns ! i \<le> sum_list (ns :: nat list)"
  by (induction ns arbitrary: i) (auto simp: nth_Cons' take_Cons')

lemma staging_page:
  assumes "i < length ns" "sum_list ns \<le> 2 ^ 64"
  shows "a \<in> page (staging_ptrs base ns ! i) (ns ! i)
    \<longleftrightarrow> sum_list (take i ns) \<le> unat (a - base) \<and> unat (a - base) < sum_list (take i ns) + ns ! i"
  using assms running_offset_bound [OF assms(1)]
  by (simp add: staging_ptrs_def running_offsets_nth in_shifted_page del: in_page)

lemma staging_page_subset:
  "i < length ns \<Longrightarrow> sum_list ns \<le> 2 ^ 64 \<Longrightarrow> page (staging_ptrs base ns ! i) (ns ! i) \<subseteq> page base (sum_list ns)"
  using running_offset_bound [of i ns] staging_page [of i ns _ base] by (auto simp del: in_page simp: in_page [of _ base])

lemma staging_written:
  assumes "off + sum_list ns \<le> 2 ^ 64" "length ss = length ns"
  shows "(\<forall>a. unat (a - base) < off \<or> off + sum_list ns \<le> unat (a - base) \<longrightarrow>
      fold (\<lambda>(s, d, n). put_bytes d (f s) n) (zip ss (zip (map (\<lambda>o'. base + of_nat o') (running_offsets off ns)) ns)) M a = M a)
    \<and> (\<forall>i < length ns. \<forall>x. unat x < ns ! i \<longrightarrow>
      fold (\<lambda>(s, d, n). put_bytes d (f s) n) (zip ss (zip (map (\<lambda>o'. base + of_nat o') (running_offsets off ns)) ns)) M
        (base + of_nat (running_offsets off ns ! i) + x) = f (ss ! i) x)"
  using assms
proof (induction ns arbitrary: off ss M)
  case (Cons n ns)
  then obtain s ss' where ss: "ss = s # ss'" and len: "length ss' = length ns" by (cases ss) auto
  let ?p = "base + of_nat off"
  let ?M = "put_bytes ?p (f s) n M"
  let ?F = "fold (\<lambda>(s, d, n). put_bytes d (f s) n) (zip ss' (zip (map (\<lambda>o'. base + of_nat o') (running_offsets (off + n) ns)) ns)) ?M"
  have bound: "off + n + sum_list ns \<le> 2 ^ 64" using Cons.prems(1) by (simp add: add.assoc)
  note IH = Cons.IH [OF bound len, of ?M]
  have in_p: "unat (a - ?p) < n \<longleftrightarrow> off \<le> unat (a - base) \<and> unat (a - base) < off + n" for a
    using in_shifted_page [of off n a base] bound by simp
  have head: "?F (?p + x) = f s x" if "unat x < n" for x
  proof -
    have "unat (?p + x - ?p) < n" using that by simp
    with in_p have "unat (?p + x - base) < off + n" by blast
    with IH have "?F (?p + x) = ?M (?p + x)" by blast
    then show ?thesis using that by (simp add: put_bytes_def)
  qed
  have out: "?F a = M a" if "unat (a - base) < off \<or> off + (n + sum_list ns) \<le> unat (a - base)" for a
  proof -
    have "?F a = ?M a" using IH that by (auto simp: add.assoc)
    moreover have "\<not> unat (a - ?p) < n" using that by (auto simp: in_p)
    ultimately show ?thesis by (simp add: put_bytes_def)
  qed
  have tl: "?F (base + of_nat (running_offsets (off + n) ns ! i) + x) = f (ss' ! i) x" if "i < length ns" "unat x < ns ! i" for i x
    using IH that by blast
  show ?case
    unfolding ss using head out tl by (auto simp: nth_Cons' add.assoc [symmetric] less_Suc_eq_0_disj)
qed simp

text \<open>Through the staging buffer and on to the destination, or at once.\<close>

lemma staged_moves:
  assumes len: "length ss = length ns" "length ds = length ns" and fit: "sum_list ns \<le> 2 ^ 64"
    and direct: "apart (zip ss (zip ds ns))"
    and src: "\<forall>(s, n) \<in> set (zip ss ns). page s n \<inter> page base (sum_list ns) = {}"
    and dst: "\<forall>(d, n) \<in> set (zip ds ns). page d n \<inter> page base (sum_list ns) = {}"
    and a: "a \<notin> page base (sum_list ns)"
  shows "copy_host_pages (staging_ptrs base ns) ds ns (copy_host_pages ss (staging_ptrs base ns) ns M) a
    = copy_host_pages ss ds ns M a"
proof -
  let ?ps = "staging_ptrs base ns" and ?R = "page base (sum_list ns)"
  have "page (?ps ! i) (ns ! i) \<subseteq> ?R" if "i < length ns" for i
    using staging_page_subset that fit by blast
  then have sub: "page p n \<subseteq> ?R" if "(p, n) \<in> set (zip ?ps ns)" for p n
    using that by (auto simp: set_zip simp del: in_page)
  have "apart (zip ss (zip ?ps ns))"
    using src sub by (fastforce simp: apart_def set_zip simp del: in_page)
  then have M1: "copy_host_pages ss ?ps ns M = fold (\<lambda>(s, d, n). put_bytes d (\<lambda>i. M (s + i)) n) (zip ss (zip ?ps ns)) M" (is "?M1 = _")
    by (simp add: copy_host_pages_def moves_writes)
  have out: "\<forall>a. a \<notin> ?R \<longrightarrow> ?M1 a = M a"
    using staging_written [of 0 ns ss base "\<lambda>s i. M (s + i)" M] len fit
    unfolding M1 by (simp add: staging_ptrs_def)
  have val: "?M1 (?ps ! i + x) = M (ss ! i + x)" if "i < length ns" "unat x < ns ! i" for i x
    using staging_written [of 0 ns ss base "\<lambda>s i. M (s + i)" M] len fit that
    unfolding M1 by (simp add: staging_ptrs_def)
  have "apart (zip ?ps (zip ds ns))"
    using dst sub by (fastforce simp: apart_def set_zip simp del: in_page)
  then have "copy_host_pages ?ps ds ns ?M1 = fold (\<lambda>(s, d, n). put_bytes d (\<lambda>i. ?M1 (s + i)) n) (zip ?ps (zip ds ns)) ?M1"
    by (simp add: copy_host_pages_def moves_writes)
  moreover have "copy_host_pages ss ds ns M = fold (\<lambda>(s, d, n). put_bytes d (\<lambda>i. M (s + i)) n) (zip ss (zip ds ns)) M"
    using direct by (simp add: copy_host_pages_def moves_writes)
  moreover have "list_all2 (\<lambda>(s, d, n) (s', d', n'). d' = d \<and> n' = n \<and> (\<forall>i. unat i < n \<longrightarrow> ?M1 (s + i) = M (s' + i)))
      (zip ?ps (zip ds ns)) (zip ss (zip ds ns))"
    using len val by (auto simp: list_all2_conv_all_nth)
  note writes_agree [OF this out]
  ultimately show ?thesis using a by auto
qed

section \<open>A staged transfer\<close>

lemma run_copies_pages:
  "fold run_copy ds M = copy_host_pages (map copy_src ds) (map copy_dst ds) (map copy_size ds) M"
  by (induction ds arbitrary: M) (simp_all add: copy_host_pages_def run_copy_def)

definition descs_apart :: "copy_desc list \<Rightarrow> bool" where
  "descs_apart ds \<longleftrightarrow>
     (\<forall>d \<in> set ds. \<forall>d' \<in> set ds. page (copy_src d) (copy_size d) \<inter> page (copy_dst d') (copy_size d') = {})"

definition clear_of :: "addr set \<Rightarrow> copy_desc list \<Rightarrow> bool" where
  "clear_of R ds \<longleftrightarrow>
     (\<forall>d \<in> set ds. page (copy_src d) (copy_size d) \<inter> R = {} \<and> page (copy_dst d) (copy_size d) \<inter> R = {})"

lemma map_copy_dst_staged:
  "length ps = length ds \<Longrightarrow> map copy_dst (map2 (\<lambda>d p. d\<lparr>copy_dst := p\<rparr>) ds ps) = ps"
  "length ps = length ds \<Longrightarrow> map copy_src (map2 (\<lambda>d p. d\<lparr>copy_dst := p\<rparr>) ds ps) = map copy_src ds"
  "length ps = length ds \<Longrightarrow> map copy_size (map2 (\<lambda>d p. d\<lparr>copy_dst := p\<rparr>) ds ps) = map copy_size ds"
  "length ps = length ds \<Longrightarrow> map copy_src (map2 (\<lambda>d p. d\<lparr>copy_src := p\<rparr>) ds ps) = ps"
  "length ps = length ds \<Longrightarrow> map copy_dst (map2 (\<lambda>d p. d\<lparr>copy_src := p\<rparr>) ds ps) = map copy_dst ds"
  "length ps = length ds \<Longrightarrow> map copy_size (map2 (\<lambda>d p. d\<lparr>copy_src := p\<rparr>) ds ps) = map copy_size ds"
  by (auto intro!: nth_equalityI)

lemma staged_transfer:
  fixes base :: addr
  assumes fit: "sum_list (map copy_size ds) \<le> 2 ^ 64"
    and apart: "descs_apart ds" and clear: "clear_of (page base (sum_list (map copy_size ds))) ds"
    and a: "a \<notin> page base (sum_list (map copy_size ds))"
    and plan: "stage_plan h base ds M = (ds', dests, M1)"
  shows "complete_host_copy base (map copy_size ds @ rest) dests (fold run_copy ds' M1) a = fold run_copy ds M a"
proof (cases "stage_transfers h \<and> ds \<noteq> []")
  case False
  with plan show ?thesis by (auto simp: stage_plan_def complete_host_copy_def)
next
  case True
  let ?ns = "map copy_size ds"
  have "apart (zip (map copy_src ds) (zip (map copy_dst ds) ?ns))"
    using apart unfolding apart_def descs_apart_def
    by (auto simp: set_zip simp del: in_page) (use nth_mem in \<open>blast\<close>)
  moreover have "\<forall>(s, n) \<in> set (zip (map copy_src ds) ?ns). page s n \<inter> page base (sum_list ?ns) = {}"
    "\<forall>(d, n) \<in> set (zip (map copy_dst ds) ?ns). page d n \<inter> page base (sum_list ?ns) = {}"
    using clear unfolding clear_of_def
    by (auto simp: set_zip simp del: in_page) (use nth_mem in \<open>blast+\<close>)
  ultimately have "copy_host_pages (staging_ptrs base ?ns) (map copy_dst ds) ?ns
      (copy_host_pages (map copy_src ds) (staging_ptrs base ?ns) ?ns M) a
    = copy_host_pages (map copy_src ds) (map copy_dst ds) ?ns M a"
    by (intro staged_moves) (use fit a in simp_all)
  with True plan show ?thesis
    by (auto simp: stage_plan_def complete_host_copy_def run_copies_pages map_copy_dst_staged Let_def
        simp del: map_map split: if_splits)
qed

section \<open>The property\<close>

text \<open>C23: Staging is transparent.  Whatever the direction, running the submitted descriptors and
  then the host copy of a finished transfer leaves every byte outside the staging buffer as the
  planned descriptors would have left it, when the buffer overlaps no page of the plan and no
  source page overlaps a destination page; what the size buffer holds beyond the descriptors
  does not matter.\<close>

theorem staging_transparent:
  assumes "sum_list (map copy_size ds) \<le> 2 ^ 64" "descs_apart ds"
    and "clear_of (page base (sum_list (map copy_size ds))) ds"
    and "a \<notin> page base (sum_list (map copy_size ds))"
    and "stage_plan h base ds M = (ds', dests, M1)"
  shows "complete_host_copy base (map copy_size ds @ rest) dests (fold run_copy ds' M1) a = fold run_copy ds M a"
  by (rule staged_transfer [OF assms])

definition staging_demo :: "copy_desc list" where
  "staging_demo = [\<lparr> copy_src = 100, copy_dst = 200, copy_size = 1 \<rparr>, \<lparr> copy_src = 101, copy_dst = 300, copy_size = 1 \<rparr>]"

theorem staging_transparent_witness:
  "complete_host_copy 900 [1, 1, 7] (Some [200, 300])
     (fold run_copy [\<lparr> copy_src = 100, copy_dst = 900, copy_size = 1 \<rparr>, \<lparr> copy_src = 101, copy_dst = 901, copy_size = 1 \<rparr>]
       (\<lambda>a. ucast a)) 300 = 101"
proof -
  have sizes: "map copy_size staging_demo = [1, 1]" by (simp add: staging_demo_def)
  have "stage_plan (layout_demo\<lparr>stage_transfers := True\<rparr>) 900 staging_demo (\<lambda>a. ucast a)
      = ([\<lparr> copy_src = 100, copy_dst = 900, copy_size = 1 \<rparr>, \<lparr> copy_src = 101, copy_dst = 901, copy_size = 1 \<rparr>],
         Some [200, 300], \<lambda>a. ucast a)"
    by (simp add: stage_plan_def layout_demo_def staging_demo_def staging_ptrs_def)
  moreover have "descs_apart staging_demo"
    by (auto simp: descs_apart_def staging_demo_def unat_eq_0)
  moreover have "clear_of (page 900 (sum_list (map copy_size staging_demo))) staging_demo"
    by (auto simp: clear_of_def staging_demo_def unat_eq_0)
  ultimately show ?thesis
    using staging_transparent [of staging_demo 900 300 "layout_demo\<lparr>stage_transfers := True\<rparr>" "\<lambda>a. ucast a" _ _ _ "[7]"]
    by (simp add: sizes) (simp add: staging_demo_def run_copy_def move_def)
qed

end
