(* ===== verification/CopyQueue.thy ===== *)
theory CopyQueue
  imports CopyMemory
begin

text \<open>
  The transfers in flight of \<open>src/patches/kv_offload_cpu_gpu_worker.load-war.py\<close>:
  \<open>SingleDirectionOffloadingHandler\<close> with \<open>transfer_async\<close>, \<open>get_finished\<close>, \<open>wait\<close> and
  \<open>shutdown\<close>, and \<open>CPUOffloadingWorker\<close>.  Streams and events are those of the GPU runtime: a
  stream is a queue of commands that the device runs in order, an event counts how often it was
  recorded by the host (\<open>recorded\<close>) and how far the device has come (\<open>reached\<close>), so an event of
  the pool that is recorded again is not taken for its earlier self.  The kernels of the compute
  stream are counted only.
\<close>

section \<open>The machine\<close>

datatype command = WaitEvent nat nat | WaitCompute nat | RecordEvent nat nat | CopyCmd copy_desc

record machine =
  queue :: "nat \<Rightarrow> command list"
  recorded :: "nat \<Rightarrow> nat"
  reached :: "nat \<Rightarrow> nat"
  compute_issued :: nat
  compute_done :: nat
  mem :: memory
  batch_sizes :: "nat \<Rightarrow> nat list"
  next_stream :: nat
  next_event :: nat
  next_buffer :: nat

definition push :: "nat \<Rightarrow> command \<Rightarrow> machine \<Rightarrow> machine" where
  "push st x m = m\<lparr>queue := (queue m)(st := queue m st @ [x])\<rparr>"

definition wait_compute :: "nat \<Rightarrow> machine \<Rightarrow> machine" where
  "wait_compute st m = push st (WaitCompute (compute_issued m)) m"

definition wait_event :: "nat \<Rightarrow> nat \<Rightarrow> machine \<Rightarrow> machine" where
  "wait_event st e m = push st (WaitEvent e (recorded m e)) m"

definition record_event :: "nat \<Rightarrow> nat \<Rightarrow> machine \<Rightarrow> machine" where
  "record_event st e m =
     (let g = recorded m e + 1 in push st (RecordEvent e g) (m\<lparr>recorded := (recorded m)(e := g)\<rparr>))"

definition event_done :: "machine \<Rightarrow> nat \<Rightarrow> bool" where
  "event_done m e \<longleftrightarrow> recorded m e \<le> reached m e"

text \<open>One step of the device on a stream; \<^term>\<open>None\<close> when its next command has to wait.\<close>

definition run_head :: "nat \<Rightarrow> machine \<Rightarrow> machine option" where
  "run_head st m =
     (case queue m st of
        [] \<Rightarrow> None
      | x # xs \<Rightarrow>
          (let m1 = m\<lparr>queue := (queue m)(st := xs)\<rparr>
           in case x of
                WaitEvent e g \<Rightarrow> if g \<le> reached m e then Some m1 else None
              | WaitCompute n \<Rightarrow> if n \<le> compute_done m then Some m1 else None
              | RecordEvent e g \<Rightarrow> Some (m1\<lparr>reached := (reached m)(e := g)\<rparr>)
              | CopyCmd d \<Rightarrow> Some (m1\<lparr>mem := run_copy d (mem m)\<rparr>)))"

section \<open>One direction\<close>

record transfer =
  xfer_job :: nat
  xfer_stream :: nat
  start_event :: nat
  end_event :: nat
  num_bytes :: nat
  batch :: nat
  staging :: "addr option"
  host_destinations :: "addr list option"

record copier =
  plan_handler :: handler
  swap_blocks :: swap_fn
  transfer_events :: "(nat, nat) dict"
  transfers :: "transfer list"
  stream_pool :: "nat list"
  event_pool :: "nat list"
  buffer_pool :: "nat list"

definition new_copier ::
  "platform \<Rightarrow> tensor list \<Rightarrow> tensor list \<Rightarrow> nat \<Rightarrow> data_ref list list \<Rightarrow> bool \<Rightarrow> bool \<Rightarrow> copier option" where
  "new_copier pf gpu cpu bpc refs to_cpu stage =
     do {
       h \<leftarrow> new_handler gpu cpu bpc refs to_cpu stage;
       Some \<lparr> plan_handler = h, swap_blocks = select_swap_blocks_fn pf refs to_cpu,
         transfer_events = [], transfers = [], stream_pool = [], event_pool = [], buffer_pool = [] \<rparr>
     }"

text \<open>Taking from the end of a pool, or a fresh object of the runtime.\<close>

definition take_stream :: "machine \<times> copier \<Rightarrow> nat \<times> machine \<times> copier" where
  "take_stream = (\<lambda>(m, c).
     if stream_pool c \<noteq> [] then (last (stream_pool c), m, c\<lparr>stream_pool := butlast (stream_pool c)\<rparr>)
     else (next_stream m, m\<lparr>next_stream := next_stream m + 1\<rparr>, c))"

definition take_event :: "machine \<times> copier \<Rightarrow> nat \<times> machine \<times> copier" where
  "take_event = (\<lambda>(m, c).
     if event_pool c \<noteq> [] then (last (event_pool c), m, c\<lparr>event_pool := butlast (event_pool c)\<rparr>)
     else (next_event m, m\<lparr>next_event := next_event m + 1\<rparr>, c))"

text \<open>
  \<open>_new_descriptor_buffers\<close> and the reuse of a pooled set of buffers, which is dropped when it is
  too small.  Of the contents only the sizes are read again later.
\<close>

definition new_buffer :: "nat \<Rightarrow> machine \<times> copier \<Rightarrow> nat \<times> machine \<times> copier" where
  "new_buffer n = (\<lambda>(m, c).
     (next_buffer m,
      m\<lparr>next_buffer := next_buffer m + 1, batch_sizes := (batch_sizes m)(next_buffer m := replicate n 0)\<rparr>, c))"

definition take_buffer :: "nat \<Rightarrow> machine \<times> copier \<Rightarrow> nat \<times> machine \<times> copier" where
  "take_buffer n = (\<lambda>(m, c).
     if buffer_pool c = [] then new_buffer n (m, c)
     else (let b = last (buffer_pool c); c1 = c\<lparr>buffer_pool := butlast (buffer_pool c)\<rparr>
           in if length (batch_sizes m b) < n then new_buffer n (m, c1) else (b, m, c1)))"

section \<open>Submitting a transfer\<close>

text \<open>
  What the runtime answers: the address of the staging tensor, whether the copy of a descriptor
  is refused, and the copies that the other two routines issue (they are not in the repository).
\<close>

record copy_env =
  staging_base :: addr
  memcpy_fails :: "nat \<Rightarrow> bool"
  batch_copies :: "swap_fn \<Rightarrow> bool \<Rightarrow> copy_desc list \<Rightarrow> copy_desc list"

datatype submit_outcome = Submitted | Assertion_failed | Copy_failed nat

text \<open>\<open>_swap_blocks_rocm_stream_ordered\<close>: one copy per descriptor, raising at the first error.\<close>

fun swap_stream_ordered :: "copy_env \<Rightarrow> nat \<Rightarrow> nat \<Rightarrow> copy_desc list \<Rightarrow> machine \<Rightarrow> nat option \<times> machine" where
  "swap_stream_ordered env st i [] m = (None, m)"
| "swap_stream_ordered env st i (d # ds) m =
     (if memcpy_fails env i then (Some i, m)
      else swap_stream_ordered env st (i + 1) ds (push st (CopyCmd d) m))"

definition submit_copies ::
  "copy_env \<Rightarrow> swap_fn \<Rightarrow> bool \<Rightarrow> nat \<Rightarrow> copy_desc list \<Rightarrow> machine \<Rightarrow> nat option \<times> machine" where
  "submit_copies env f order_any st ds m =
     (if ds = [] then (None, m)
      else if f = StreamOrdered then swap_stream_ordered env st 0 ds m
      else (None, fold (\<lambda>d. push st (CopyCmd d)) (batch_copies env f order_any ds) m))"

text \<open>The stream commands of a transfer, up to its last event.\<close>

definition enqueue ::
  "copy_env \<Rightarrow> copier \<Rightarrow> nat \<Rightarrow> nat \<Rightarrow> nat \<Rightarrow> copy_desc list \<Rightarrow> machine \<Rightarrow> nat option \<times> machine" where
  "enqueue env c st e1 e2 ds m =
     (let m1 = wait_compute st m;
          m2 = (if transfers c = [] then m1 else wait_event st (end_event (last (transfers c))) m1);
          m3 = record_event st e1 m2
      in case submit_copies env (swap_blocks c) (\<not> gpu_to_cpu (plan_handler c)) st ds m3 of
           (Some i, m4) \<Rightarrow> (Some i, m4)
         | (None, m4) \<Rightarrow> (None, record_event st e2 m4))"

definition num_copy_ops :: "handler \<Rightarrow> gpu_spec \<Rightarrow> nat" where
  "num_copy_ops h gs = sum_list (map2 (\<lambda>n refs. n * length refs) (group_sizes gs) (group_data_refs h))"

definition store_sizes :: "nat \<Rightarrow> nat list \<Rightarrow> machine \<Rightarrow> machine" where
  "store_sizes b ns m =
     m\<lparr>batch_sizes := (batch_sizes m)(b := ns @ drop (length ns) (batch_sizes m b))\<rparr>"

text \<open>The part of \<open>transfer_async\<close> after the plan.\<close>

definition launch ::
  "copy_env \<Rightarrow> nat \<Rightarrow> nat \<Rightarrow> copy_desc list \<Rightarrow> nat \<Rightarrow> machine \<times> copier \<Rightarrow> submit_outcome \<times> machine \<times> copier" where
  "launch env job b ds bytes = (\<lambda>(m, c).
     (let h = plan_handler c;
          staged = (stage_transfers h \<and> ds \<noteq> []);
          (ds', dests, M) = stage_plan h (staging_base env) ds (mem m);
          (st, m2, c2) = take_stream (m\<lparr>mem := M\<rparr>, c);
          (e1, m3, c3) = take_event (m2, c2);
          (e2, m4, c4) = take_event (m3, c3)
      in case enqueue env c4 st e1 e2 ds' m4 of
           (Some i, m5) \<Rightarrow> (Copy_failed i, m5, c4)
         | (None, m5) \<Rightarrow>
             (Submitted, m5,
              c4\<lparr>transfer_events := dput job e2 (transfer_events c4),
                 transfers := transfers c4 @
                   [\<lparr> xfer_job = job, xfer_stream = st, start_event = e1, end_event = e2, num_bytes = bytes,
                      batch = b, staging = (if staged then Some (staging_base env) else None),
                      host_destinations = dests \<rparr>]\<rparr>)))"

definition transfer_async ::
  "copy_env \<Rightarrow> nat \<Rightarrow> gpu_spec \<Rightarrow> nat list \<Rightarrow> machine \<times> copier \<Rightarrow> submit_outcome \<times> machine \<times> copier" where
  "transfer_async env job gs cpu = (\<lambda>(m, c).
     (let h = plan_handler c
      in if length (group_sizes gs) \<noteq> length (group_data_refs h) \<or> length (block_indices gs) \<noteq> length (group_data_refs h)
         then (Assertion_failed, m, c)
         else (let (b, m1, c1) = take_buffer (num_copy_ops h gs) (m, c)
               in case plan_transfer h gs cpu of
                    None \<Rightarrow> (Assertion_failed, m1, c1)
                  | Some (ds, bytes) \<Rightarrow>
                      (let m2 = store_sizes b (map copy_size ds) m1
                       in if stage_transfers h \<and> ds \<noteq> [] \<and> sum_list (map copy_size ds) \<noteq> bytes
                          then (Assertion_failed, m2, c1)
                          else launch env job b ds bytes (m2, c1)))))"

section \<open>Finished transfers\<close>

text \<open>\<open>_complete_host_copy\<close>, with its assertion.\<close>

definition complete_transfer :: "transfer \<Rightarrow> machine \<Rightarrow> machine option" where
  "complete_transfer t m =
     (case host_destinations t of
        None \<Rightarrow> Some m
      | Some ds \<Rightarrow>
          do {
            base \<leftarrow> staging t;
            Some (m\<lparr>mem := complete_host_copy base (batch_sizes m (batch t)) (Some ds) (mem m)\<rparr>)
          })"

text \<open>The loop of \<open>get_finished\<close>: the results are job ids and sizes.\<close>

fun reap :: "transfer list \<Rightarrow> machine \<times> copier \<Rightarrow> ((nat \<times> nat) list \<times> machine \<times> copier) option" where
  "reap [] (m, c) = Some ([], m, c\<lparr>transfers := []\<rparr>)"
| "reap (t # ts) (m, c) =
     (if event_done m (end_event t) then
        do {
          m1 \<leftarrow> complete_transfer t m;
          require (xfer_job t \<in> fst ` set (transfer_events c));
          (rs, m2, c2) \<leftarrow> reap ts (m1,
            c\<lparr>stream_pool := stream_pool c @ [xfer_stream t],
              event_pool := event_pool c @ [end_event t, start_event t],
              buffer_pool := buffer_pool c @ [batch t],
              transfer_events := dpop (xfer_job t) (transfer_events c)\<rparr>);
          Some ((xfer_job t, num_bytes t) # rs, m2, c2)
        }
      else Some ([], m, c\<lparr>transfers := t # ts\<rparr>))"

definition get_finished :: "machine \<times> copier \<Rightarrow> ((nat \<times> nat) list \<times> machine \<times> copier) option" where
  "get_finished = (\<lambda>(m, c). reap (transfers c) (m, c))"

text \<open>\<open>wait\<close> returns once every event it finds is done.\<close>

definition wait_returns :: "nat list \<Rightarrow> machine \<times> copier \<Rightarrow> bool" where
  "wait_returns job_ids = (\<lambda>(m, c).
     list_all (\<lambda>j. case map_of (transfer_events c) j of None \<Rightarrow> True | Some e \<Rightarrow> event_done m e) job_ids)"

text \<open>One round of the loop of \<open>shutdown\<close>, possible once the event is done, and its end.\<close>

definition shutdown_next :: "machine \<times> copier \<Rightarrow> (machine \<times> copier) option" where
  "shutdown_next = (\<lambda>(m, c).
     (case transfers c of
        [] \<Rightarrow> None
      | t # ts \<Rightarrow>
          (if event_done m (end_event t)
           then map_option (\<lambda>m1. (m1, c\<lparr>transfers := ts\<rparr>)) (complete_transfer t m) else None)))"

definition shutdown_clear :: "copier \<Rightarrow> copier" where
  "shutdown_clear c =
     c\<lparr>transfer_events := [], stream_pool := [], event_pool := [], buffer_pool := [],
       plan_handler := (plan_handler c)\<lparr>src_tensors := [], dst_tensors := []\<rparr>\<rparr>"

section \<open>The worker\<close>

record worker =
  machine_of :: machine
  store_handler :: copier
  load_handler :: copier

text \<open>
  The constructor.  \<open>views\<close> gives the address and the row stride of the CPU tensor for each
  canonical tensor, whether it comes from the shared region or from an allocation.
\<close>

record canonical_tensor =
  kv_ptr :: addr
  kv_page_size :: nat

definition new_worker ::
  "platform \<Rightarrow> canonical_tensor list \<Rightarrow> data_ref list list \<Rightarrow> nat \<Rightarrow> bool \<Rightarrow> (nat \<Rightarrow> addr \<times> nat) \<Rightarrow> machine \<Rightarrow> worker option" where
  "new_worker pf tensors refs bpc region views m =
     do {
       let stage = (region \<and> rocm pf);
       let gpu = map (\<lambda>t. \<lparr> data_ptr = kv_ptr t, row_stride = kv_page_size t, row_bytes = kv_page_size t \<rparr>) tensors;
       let cpu = map2 (\<lambda>i t. \<lparr> data_ptr = fst (views i), row_stride = snd (views i), row_bytes = kv_page_size t * bpc \<rparr>)
         [0..<length tensors] tensors;
       s \<leftarrow> new_copier pf gpu cpu bpc refs True stage;
       l \<leftarrow> new_copier pf gpu cpu bpc refs False stage;
       Some \<lparr> machine_of = m, store_handler = s, load_handler = l \<rparr>
     }"

definition submit_store_transfer :: "copy_env \<Rightarrow> nat \<Rightarrow> gpu_spec \<Rightarrow> nat list \<Rightarrow> worker \<Rightarrow> submit_outcome \<times> worker" where
  "submit_store_transfer env job gs cpu w =
     (case transfer_async env job gs cpu (machine_of w, store_handler w) of
        (r, m, c) \<Rightarrow> (r, w\<lparr>machine_of := m, store_handler := c\<rparr>))"

definition submit_load_transfer :: "copy_env \<Rightarrow> nat \<Rightarrow> gpu_spec \<Rightarrow> nat list \<Rightarrow> worker \<Rightarrow> submit_outcome \<times> worker" where
  "submit_load_transfer env job gs cpu w =
     (case transfer_async env job gs cpu (machine_of w, load_handler w) of
        (r, m, c) \<Rightarrow> (r, w\<lparr>machine_of := m, load_handler := c\<rparr>))"

definition worker_get_finished :: "worker \<Rightarrow> ((nat \<times> nat) list \<times> worker) option" where
  "worker_get_finished w =
     do {
       (rs, m1, s) \<leftarrow> get_finished (machine_of w, store_handler w);
       (rl, m2, l) \<leftarrow> get_finished (m1, load_handler w);
       Some (rs @ rl, w\<lparr>machine_of := m2, store_handler := s, load_handler := l\<rparr>)
     }"

definition worker_wait_returns :: "nat list \<Rightarrow> worker \<Rightarrow> bool" where
  "worker_wait_returns job_ids w \<longleftrightarrow>
     wait_returns job_ids (machine_of w, store_handler w) \<and> wait_returns job_ids (machine_of w, load_handler w)"

end
