(* ===== verification/CopyQueueInv.thy ===== *)
theory CopyQueueInv
  imports CopyQueue
begin

text \<open>
  The invariant of the worker: streams, events and buffers of the two directions are never
  shared, an idle stream has nothing queued, and every transfer waits for the one before it.
\<close>

section \<open>The invariant\<close>

definition streams_of :: "copier \<Rightarrow> nat list" where
  "streams_of c = map xfer_stream (transfers c) @ stream_pool c"

definition xfer_events :: "transfer \<Rightarrow> nat list" where
  "xfer_events t = [start_event t, end_event t]"

definition events_of :: "copier \<Rightarrow> nat list" where
  "events_of c = concat (map xfer_events (transfers c)) @ event_pool c"

definition buffers_of :: "copier \<Rightarrow> nat list" where
  "buffers_of c = map batch (transfers c) @ buffer_pool c"

text \<open>What holds of the machine alone: a pending recording of an event is unique.\<close>

definition pending_record :: "machine \<Rightarrow> nat \<Rightarrow> nat \<Rightarrow> nat \<Rightarrow> bool" where
  "pending_record m st e g \<longleftrightarrow> RecordEvent e g \<in> set (queue m st)"

definition machine_ok :: "machine \<Rightarrow> bool" where
  "machine_ok m \<longleftrightarrow>
     (\<forall>st \<ge> next_stream m. queue m st = [])
     \<and> (\<forall>st e g. pending_record m st e g \<longrightarrow> e < next_event m \<and> reached m e \<le> g \<and> g \<le> recorded m e)
     \<and> (\<forall>st e g st' g'. pending_record m st e g \<longrightarrow> pending_record m st' e g' \<longrightarrow> st' = st \<and> g' = g)
     \<and> (\<forall>e. reached m e \<le> recorded m e)
     \<and> (\<forall>st n. WaitCompute n \<in> set (queue m st) \<longrightarrow> n \<le> compute_issued m)
     \<and> compute_done m \<le> compute_issued m"

lemma machine_okD:
  assumes "machine_ok m"
  shows "next_stream m \<le> st \<Longrightarrow> queue m st = []"
    "pending_record m st e g \<Longrightarrow> e < next_event m"
    "pending_record m st e g \<Longrightarrow> reached m e \<le> g"
    "pending_record m st e g \<Longrightarrow> g \<le> recorded m e"
    "pending_record m st e g \<Longrightarrow> pending_record m st' e g' \<Longrightarrow> st' = st"
    "pending_record m st e g \<Longrightarrow> pending_record m st' e g' \<Longrightarrow> g' = g"
    "reached m e \<le> recorded m e"
    "WaitCompute n \<in> set (queue m st) \<Longrightarrow> n \<le> compute_issued m"
    "compute_done m \<le> compute_issued m"
  using assms unfolding machine_ok_def by blast+

lemma machine_okI:
  assumes "\<And>st. next_stream m \<le> st \<Longrightarrow> queue m st = []"
    "\<And>st e g. pending_record m st e g \<Longrightarrow> e < next_event m \<and> reached m e \<le> g \<and> g \<le> recorded m e"
    "\<And>st e g st' g'. pending_record m st e g \<Longrightarrow> pending_record m st' e g' \<Longrightarrow> st' = st \<and> g' = g"
    "\<And>e. reached m e \<le> recorded m e"
    "\<And>st n. WaitCompute n \<in> set (queue m st) \<Longrightarrow> n \<le> compute_issued m"
    "compute_done m \<le> compute_issued m"
  shows "machine_ok m"
  using assms unfolding machine_ok_def by simp

text \<open>
  The queue of a transfer in flight.  \<open>prev\<close> is the last event of the transfer before it, which
  is the only thing it can still have to wait for.
\<close>

definition last_record :: "machine \<Rightarrow> transfer \<Rightarrow> bool" where
  "last_record m t \<longleftrightarrow>
     (let q = queue m (xfer_stream t); e = end_event t
      in if q = [] then reached m e = recorded m e
         else last q = RecordEvent e (recorded m e) \<and> reached m e < recorded m e
              \<and> (\<forall>g. RecordEvent e g \<notin> set (butlast q)))"

definition waits_ok :: "machine \<Rightarrow> nat option \<Rightarrow> transfer \<Rightarrow> bool" where
  "waits_ok m prev t \<longleftrightarrow>
     (\<forall>e g. WaitEvent e g \<in> set (queue m (xfer_stream t)) \<longrightarrow> g \<le> reached m e \<or> (prev = Some e \<and> g = recorded m e))"

fun starts_waiting :: "nat \<Rightarrow> nat \<Rightarrow> command list \<Rightarrow> bool" where
  "starts_waiting e g (WaitCompute n # q) \<longleftrightarrow> (case q of x # xs \<Rightarrow> x = WaitEvent e g | [] \<Rightarrow> False)"
| "starts_waiting e g (WaitEvent e' g' # q) \<longleftrightarrow> e' = e \<and> g' = g"
| "starts_waiting e g q \<longleftrightarrow> False"

definition in_turn :: "machine \<Rightarrow> nat option \<Rightarrow> transfer \<Rightarrow> bool" where
  "in_turn m prev t \<longleftrightarrow>
     (case prev of None \<Rightarrow> True
      | Some e \<Rightarrow> event_done m e \<or> starts_waiting e (recorded m e) (queue m (xfer_stream t)))"

definition transfer_ok :: "machine \<Rightarrow> nat option \<Rightarrow> transfer \<Rightarrow> bool" where
  "transfer_ok m prev t \<longleftrightarrow> last_record m t \<and> waits_ok m prev t \<and> in_turn m prev t"

fun chain_ok :: "machine \<Rightarrow> nat option \<Rightarrow> transfer list \<Rightarrow> bool" where
  "chain_ok m prev [] \<longleftrightarrow> True"
| "chain_ok m prev (t # ts) \<longleftrightarrow> transfer_ok m prev t \<and> chain_ok m (Some (end_event t)) ts"

text \<open>The host destinations of a staged store match its size buffer and its byte count.\<close>

definition host_copy_ok :: "machine \<Rightarrow> transfer \<Rightarrow> bool" where
  "host_copy_ok m t \<longleftrightarrow>
     (case host_destinations t of None \<Rightarrow> True
      | Some ds \<Rightarrow> staging t \<noteq> None \<and> length ds \<le> length (batch_sizes m (batch t))
          \<and> sum_list (take (length ds) (batch_sizes m (batch t))) = num_bytes t)"

definition copier_ok :: "machine \<Rightarrow> copier \<Rightarrow> bool" where
  "copier_ok m c \<longleftrightarrow>
     distinct (streams_of c) \<and> distinct (events_of c) \<and> distinct (buffers_of c)
     \<and> (\<forall>st \<in> set (streams_of c). st < next_stream m)
     \<and> (\<forall>e \<in> set (events_of c). e < next_event m)
     \<and> (\<forall>b \<in> set (buffers_of c). b < next_buffer m)
     \<and> (\<forall>st \<in> set (stream_pool c). queue m st = [])
     \<and> (\<forall>st e g. pending_record m st e g \<longrightarrow> e \<in> set (events_of c) \<longrightarrow>
          (\<exists>t \<in> set (transfers c). st = xfer_stream t \<and> e \<in> set (xfer_events t)))
     \<and> chain_ok m None (transfers c)
     \<and> transfer_events c = map (\<lambda>t. (xfer_job t, end_event t)) (transfers c)
     \<and> distinct (map xfer_job (transfers c))
     \<and> (\<forall>t \<in> set (transfers c). host_copy_ok m t)"

definition separate :: "copier \<Rightarrow> copier \<Rightarrow> bool" where
  "separate c c' \<longleftrightarrow>
     set (streams_of c) \<inter> set (streams_of c') = {} \<and> set (events_of c) \<inter> set (events_of c') = {}
     \<and> set (buffers_of c) \<inter> set (buffers_of c') = {}"

definition pair_ok :: "machine \<Rightarrow> copier \<Rightarrow> copier \<Rightarrow> bool" where
  "pair_ok m c c' \<longleftrightarrow> machine_ok m \<and> copier_ok m c \<and> copier_ok m c' \<and> separate c c'"

lemma pair_ok_commute: "pair_ok m c c' \<longleftrightarrow> pair_ok m c' c"
  by (auto simp: pair_ok_def separate_def)

section \<open>What a copier does not see\<close>

text \<open>The part of the machine that a copier with these resources depends on.\<close>

definition same_for :: "machine \<Rightarrow> machine \<Rightarrow> copier \<Rightarrow> bool" where
  "same_for m m' c \<longleftrightarrow>
     (\<forall>st \<in> set (streams_of c). queue m' st = queue m st)
     \<and> (\<forall>e \<in> set (events_of c). recorded m' e = recorded m e \<and> reached m' e = reached m e)
     \<and> (\<forall>e. reached m e \<le> reached m' e)
     \<and> (\<forall>b \<in> set (buffers_of c). batch_sizes m' b = batch_sizes m b)
     \<and> next_stream m \<le> next_stream m' \<and> next_event m \<le> next_event m' \<and> next_buffer m \<le> next_buffer m'
     \<and> (\<forall>st e g. pending_record m' st e g \<longrightarrow> e \<in> set (events_of c) \<longrightarrow> pending_record m st e g)"

lemma last_record_frame:
  "queue m' (xfer_stream t) = queue m (xfer_stream t) \<Longrightarrow> recorded m' (end_event t) = recorded m (end_event t)
   \<Longrightarrow> reached m' (end_event t) = reached m (end_event t) \<Longrightarrow> last_record m' t = last_record m t"
  by (simp only: last_record_def Let_def)

lemma waits_ok_frame:
  assumes "set (queue m' (xfer_stream t)) \<subseteq> set (queue m (xfer_stream t))" "\<forall>e. reached m e \<le> reached m' e"
    and "\<And>e. prev = Some e \<Longrightarrow> recorded m' e = recorded m e" "waits_ok m prev t"
  shows "waits_ok m' prev t"
  unfolding waits_ok_def
proof (intro allI impI)
  fix e g assume "WaitEvent e g \<in> set (queue m' (xfer_stream t))"
  with assms(1,4) have "g \<le> reached m e \<or> (prev = Some e \<and> g = recorded m e)"
    by (auto simp: waits_ok_def)
  with assms(2,3) show "g \<le> reached m' e \<or> (prev = Some e \<and> g = recorded m' e)"
    by (metis le_trans)
qed

lemma in_turn_frame:
  assumes "queue m' (xfer_stream t) = queue m (xfer_stream t)" "\<forall>e. reached m e \<le> reached m' e"
    and "\<And>e. prev = Some e \<Longrightarrow> recorded m' e = recorded m e" "in_turn m prev t"
  shows "in_turn m' prev t"
proof (cases prev)
  case (Some e)
  then have "recorded m' e = recorded m e" by (rule assms(3))
  moreover have "reached m e \<le> reached m' e" using assms(2) by simp
  ultimately show ?thesis using assms(1,4) Some by (auto simp: in_turn_def event_done_def)
qed (simp add: in_turn_def)

lemma transfer_ok_frame:
  assumes "queue m' (xfer_stream t) = queue m (xfer_stream t)"
    and "recorded m' (end_event t) = recorded m (end_event t)" "reached m' (end_event t) = reached m (end_event t)"
    and "\<forall>e. reached m e \<le> reached m' e"
    and "\<And>e. prev = Some e \<Longrightarrow> recorded m' e = recorded m e"
    and "transfer_ok m prev t"
  shows "transfer_ok m' prev t"
  using assms last_record_frame [of m' t m] waits_ok_frame [of m' t m prev] in_turn_frame [of m' t m prev]
  by (simp add: transfer_ok_def)

lemma chain_ok_frame:
  assumes "\<forall>t \<in> set ts. queue m' (xfer_stream t) = queue m (xfer_stream t)
      \<and> recorded m' (end_event t) = recorded m (end_event t) \<and> reached m' (end_event t) = reached m (end_event t)"
    and "\<forall>e. reached m e \<le> reached m' e"
    and "\<And>e. prev = Some e \<Longrightarrow> recorded m' e = recorded m e"
    and "chain_ok m prev ts"
  shows "chain_ok m' prev ts"
  using assms
proof (induction ts arbitrary: prev)
  case (Cons t ts)
  have "transfer_ok m' prev t"
    by (rule transfer_ok_frame [where m = m]) (use Cons.prems in auto)
  moreover have "chain_ok m' (Some (end_event t)) ts"
    by (rule Cons.IH) (use Cons.prems in auto)
  ultimately show ?case by simp
qed simp

lemma host_copy_ok_frame:
  "batch_sizes m' (batch t) = batch_sizes m (batch t) \<Longrightarrow> host_copy_ok m t \<Longrightarrow> host_copy_ok m' t"
  by (simp only: host_copy_ok_def)

lemma copier_ok_frame:
  assumes "copier_ok m c" "same_for m m' c"
  shows "copier_ok m' c"
proof -
  have sub: "xfer_stream t \<in> set (streams_of c)" "end_event t \<in> set (events_of c)" "batch t \<in> set (buffers_of c)"
    if "t \<in> set (transfers c)" for t
    using that by (auto simp: streams_of_def events_of_def xfer_events_def buffers_of_def)
  have "chain_ok m' None (transfers c)"
    by (rule chain_ok_frame [where m = m]) (use assms sub in \<open>auto simp: copier_ok_def same_for_def\<close>)
  moreover have "\<forall>t \<in> set (transfers c). host_copy_ok m' t"
    using assms sub by (auto simp: copier_ok_def same_for_def intro: host_copy_ok_frame [where m = m])
  moreover have "\<forall>st \<in> set (stream_pool c). queue m' st = []"
    using assms by (auto simp: copier_ok_def same_for_def streams_of_def)
  moreover have "\<forall>st e g. pending_record m' st e g \<longrightarrow> e \<in> set (events_of c) \<longrightarrow>
      (\<exists>t \<in> set (transfers c). st = xfer_stream t \<and> e \<in> set (xfer_events t))"
    using assms unfolding copier_ok_def same_for_def by blast
  ultimately show ?thesis
    using assms unfolding copier_ok_def same_for_def by (auto intro: less_le_trans)
qed

section \<open>The device\<close>

lemma run_headE:
  assumes "run_head st m = Some m'"
  obtains x xs where "queue m st = x # xs" "queue m' = (queue m)(st := xs)" "recorded m' = recorded m"
    "batch_sizes m' = batch_sizes m" "next_stream m' = next_stream m" "next_event m' = next_event m"
    "next_buffer m' = next_buffer m" "compute_issued m' = compute_issued m" "compute_done m' = compute_done m"
    "\<And>e g. x = RecordEvent e g \<Longrightarrow> reached m' = (reached m)(e := g)"
    "(\<And>e g. x \<noteq> RecordEvent e g) \<Longrightarrow> reached m' = reached m"
    "\<And>e g. x = WaitEvent e g \<Longrightarrow> g \<le> reached m e"
proof -
  obtain x xs where "queue m st = x # xs"
    using assms by (cases "queue m st") (auto simp: run_head_def)
  with assms show ?thesis
    by (intro that [of x xs]) (auto simp: run_head_def Let_def split: command.splits if_splits)
qed

lemma run_head_reached:
  assumes "machine_ok m" "run_head st m = Some m'"
  shows "reached m e \<le> reached m' e"
    and "reached m' e \<noteq> reached m e \<Longrightarrow> \<exists>g. pending_record m st e g \<and> hd (queue m st) = RecordEvent e g"
proof -
  from assms(2) obtain x xs where q: "queue m st = x # xs"
    and rec: "\<And>e g. x = RecordEvent e g \<Longrightarrow> reached m' = (reached m)(e := g)"
    and no: "(\<And>e g. x \<noteq> RecordEvent e g) \<Longrightarrow> reached m' = reached m"
    by (rule run_headE) blast
  have "reached m e \<le> reached m' e \<and> (reached m' e \<noteq> reached m e \<longrightarrow> (\<exists>g. pending_record m st e g \<and> hd (queue m st) = RecordEvent e g))"
  proof (cases "\<exists>e' g. x = RecordEvent e' g")
    case True
    then obtain e' g where x: "x = RecordEvent e' g" by blast
    then have "pending_record m st e' g" by (simp add: pending_record_def q)
    moreover from this have "reached m e' \<le> g" using assms(1) by (simp add: machine_ok_def)
    ultimately show ?thesis using rec [OF x] q x by auto
  next
    case False
    with no have "reached m' = reached m" by blast
    then show ?thesis by simp
  qed
  then show "reached m e \<le> reached m' e"
    and "reached m' e \<noteq> reached m e \<Longrightarrow> \<exists>g. pending_record m st e g \<and> hd (queue m st) = RecordEvent e g"
    by blast+
qed

lemma run_head_pending: "run_head st m = Some m' \<Longrightarrow> pending_record m' st' e g \<Longrightarrow> pending_record m st' e g"
  by (erule run_headE) (auto simp: pending_record_def split: if_splits)

lemma run_head_machine_ok:
  assumes ok: "machine_ok m" and step: "run_head st m = Some m'"
  shows "machine_ok m'"
proof -
  from step obtain x xs where q: "queue m st = x # xs" and q': "queue m' = (queue m)(st := xs)"
    and same: "recorded m' = recorded m" "next_stream m' = next_stream m" "next_event m' = next_event m"
      "compute_issued m' = compute_issued m" "compute_done m' = compute_done m"
    and rec: "\<And>e g. x = RecordEvent e g \<Longrightarrow> reached m' = (reached m)(e := g)"
    by (rule run_headE) blast
  have new: "\<exists>g. pending_record m st e g \<and> reached m' e = g" if "reached m' e \<noteq> reached m e" for e
    using run_head_reached(2) [OF ok step that] rec q by (auto simp: fun_upd_def split: if_splits)
  have bound: "reached m' e \<le> g" if p: "pending_record m' st' e g" for st' e g
  proof (cases "reached m' e = reached m e")
    case True
    with run_head_pending [OF step p] ok show ?thesis by (simp add: machine_ok_def)
  next
    case False
    with new obtain g' where "pending_record m st e g'" "reached m' e = g'" by blast
    with run_head_pending [OF step p] ok show ?thesis unfolding machine_ok_def by (metis order_refl)
  qed
  have le: "reached m' e \<le> recorded m' e" for e
    using new [of e] ok unfolding machine_ok_def same by (cases "reached m' e = reached m e") auto
  have sub: "set (queue m' st') \<subseteq> set (queue m st')" for st'
    by (auto simp: q q')
  note pend = run_head_pending [OF step] and okD = machine_okD [OF ok]
  show ?thesis
  proof (rule machine_okI)
    show "queue m' st' = []" if "next_stream m' \<le> st'" for st'
      using sub [of st'] okD(1) [of st'] that same by simp
    show "e < next_event m' \<and> reached m' e \<le> g \<and> g \<le> recorded m' e" if "pending_record m' st' e g" for st' e g
      using bound [OF that] okD(2,4) [OF pend [OF that]] same by simp
    show "st2 = st1 \<and> g' = g" if "pending_record m' st1 e g" "pending_record m' st2 e g'" for st1 st2 e g g'
      using okD(5,6) [OF pend [OF that(1)] pend [OF that(2)]] by simp
    show "n \<le> compute_issued m'" if "WaitCompute n \<in> set (queue m' st')" for st' n
      using okD(8) sub that same by (metis subsetD)
  qed (use le okD(9) same in simp_all)
qed

lemma copier_okD:
  assumes "copier_ok m c"
  shows "distinct (streams_of c)" "distinct (events_of c)" "distinct (buffers_of c)"
    "st \<in> set (streams_of c) \<Longrightarrow> st < next_stream m"
    "e \<in> set (events_of c) \<Longrightarrow> e < next_event m"
    "b \<in> set (buffers_of c) \<Longrightarrow> b < next_buffer m"
    "st \<in> set (stream_pool c) \<Longrightarrow> queue m st = []"
    "pending_record m st e g \<Longrightarrow> e \<in> set (events_of c) \<Longrightarrow>
      \<exists>t \<in> set (transfers c). st = xfer_stream t \<and> e \<in> set (xfer_events t)"
    "chain_ok m None (transfers c)"
    "transfer_events c = map (\<lambda>t. (xfer_job t, end_event t)) (transfers c)"
    "distinct (map xfer_job (transfers c))"
    "t \<in> set (transfers c) \<Longrightarrow> host_copy_ok m t"
  using assms unfolding copier_ok_def by blast+

lemma copier_okI:
  assumes "distinct (streams_of c)" "distinct (events_of c)" "distinct (buffers_of c)"
    "\<And>st. st \<in> set (streams_of c) \<Longrightarrow> st < next_stream m"
    "\<And>e. e \<in> set (events_of c) \<Longrightarrow> e < next_event m"
    "\<And>b. b \<in> set (buffers_of c) \<Longrightarrow> b < next_buffer m"
    "\<And>st. st \<in> set (stream_pool c) \<Longrightarrow> queue m st = []"
    "\<And>st e g. pending_record m st e g \<Longrightarrow> e \<in> set (events_of c) \<Longrightarrow>
      \<exists>t \<in> set (transfers c). st = xfer_stream t \<and> e \<in> set (xfer_events t)"
    "chain_ok m None (transfers c)"
    "transfer_events c = map (\<lambda>t. (xfer_job t, end_event t)) (transfers c)"
    "distinct (map xfer_job (transfers c))"
    "\<And>t. t \<in> set (transfers c) \<Longrightarrow> host_copy_ok m t"
  shows "copier_ok m c"
  using assms unfolding copier_ok_def by auto

lemma distinct_concat_map:
  "distinct (concat (map f ts)) \<Longrightarrow> t \<in> set ts \<Longrightarrow> t' \<in> set ts \<Longrightarrow> e \<in> set (f t) \<Longrightarrow> e \<in> set (f t') \<Longrightarrow> t = t'"
  by (induction ts) auto

text \<open>A pending recording of an event of a transfer is in the stream of that transfer.\<close>

lemma record_owner:
  assumes ok: "copier_ok m c" and t: "t \<in> set (transfers c)" and e: "e \<in> set (xfer_events t)" and p: "pending_record m st e g"
  shows "st = xfer_stream t"
proof -
  have "e \<in> set (events_of c)" using t e by (auto simp: events_of_def)
  from copier_okD(8) [OF ok p this] obtain t' where t': "t' \<in> set (transfers c)" "st = xfer_stream t'" "e \<in> set (xfer_events t')"
    by blast
  moreover have "t' = t"
    using copier_okD(2) [OF ok] distinct_concat_map [of xfer_events "transfers c"] t t' e
    by (auto simp: events_of_def)
  ultimately show ?thesis by simp
qed

lemma pool_event_idle:
  assumes "copier_ok m c" "e \<in> set (event_pool c)"
  shows "\<not> pending_record m st e g"
proof
  assume p: "pending_record m st e g"
  have "e \<in> set (events_of c)" using assms(2) by (simp add: events_of_def)
  from copier_okD(8) [OF assms(1) p this] obtain t where "t \<in> set (transfers c)" "e \<in> set (xfer_events t)" by blast
  with copier_okD(2) [OF assms(1)] assms(2) show False by (auto simp: events_of_def)
qed

text \<open>The stream of a transfer loses its first command.\<close>

lemma transfer_ok_pop:
  assumes ok: "machine_ok m" and step: "run_head (xfer_stream t) m = Some m'" and t: "transfer_ok m prev t"
  shows "transfer_ok m' prev t"
proof -
  let ?st = "xfer_stream t" and ?e = "end_event t"
  from step obtain x xs where q: "queue m ?st = x # xs" and q': "queue m' = (queue m)(?st := xs)"
    and same: "recorded m' = recorded m"
    and rec: "\<And>e g. x = RecordEvent e g \<Longrightarrow> reached m' = (reached m)(e := g)"
    and wait: "\<And>e g. x = WaitEvent e g \<Longrightarrow> g \<le> reached m e"
    by (rule run_headE) blast
  note mono = run_head_reached(1) [OF ok step]
  have "last_record m' t"
  proof (cases "xs = []")
    case True
    then have "x = RecordEvent ?e (recorded m ?e)" using t q by (simp add: transfer_ok_def last_record_def Let_def)
    with True rec show ?thesis by (simp add: last_record_def Let_def q' same)
  next
    case False
    then have l: "last xs = RecordEvent ?e (recorded m ?e)" "reached m ?e < recorded m ?e"
        "\<forall>g. RecordEvent ?e g \<notin> set (butlast xs)" "\<forall>g. x \<noteq> RecordEvent ?e g"
      using t q by (auto simp: transfer_ok_def last_record_def Let_def)
    have "reached m' ?e = reached m ?e"
      using run_head_reached(2) [OF ok step, of ?e] l(4) q by auto
    with False l show ?thesis by (simp add: last_record_def Let_def q' same)
  qed
  moreover have "waits_ok m' prev t"
    by (rule waits_ok_frame [where m = m]) (use q q' mono same t in \<open>auto simp: transfer_ok_def\<close>)
  moreover have "in_turn m' prev t"
  proof (cases prev)
    case (Some e)
    show ?thesis
    proof (cases "event_done m e")
      case True
      with mono [of e] same show ?thesis by (simp add: Some in_turn_def event_done_def)
    next
      case False
      with t Some q have sw: "starts_waiting e (recorded m e) (x # xs)"
        by (simp add: transfer_ok_def in_turn_def)
      show ?thesis
      proof (cases x)
        case (WaitEvent e' g)
        with sw wait False show ?thesis by (simp add: event_done_def)
      next
        case (WaitCompute n)
        with sw obtain xs' where "xs = WaitEvent e (recorded m e) # xs'" by (cases xs) auto
        then show ?thesis by (simp add: Some in_turn_def q' same)
      qed (use sw in auto)
    qed
  qed (simp add: in_turn_def)
  ultimately show ?thesis by (simp add: transfer_ok_def)
qed

lemma run_head_chain_ok:
  assumes ok: "machine_ok m" "copier_ok m c" and step: "run_head st m = Some m'"
  shows "set ts \<subseteq> set (transfers c) \<Longrightarrow> chain_ok m prev ts \<Longrightarrow> chain_ok m' prev ts"
proof (induction ts arbitrary: prev)
  case (Cons t ts)
  have t: "t \<in> set (transfers c)" using Cons.prems by simp
  have "transfer_ok m' prev t"
  proof (cases "xfer_stream t = st")
    case True
    with step have "run_head (xfer_stream t) m = Some m'" by simp
    from transfer_ok_pop [OF ok(1) this] Cons.prems show ?thesis by simp
  next
    case False
    from step obtain x xs where "queue m' = (queue m)(st := xs)" "recorded m' = recorded m"
      by (rule run_headE) blast
    moreover have "reached m' (end_event t) = reached m (end_event t)"
      using run_head_reached(2) [OF ok(1) step, of "end_event t"] record_owner [OF ok(2) t, of "end_event t" st] False
      by (auto simp: xfer_events_def)
    moreover have "transfer_ok m prev t" using Cons.prems by simp
    ultimately show ?thesis
      using False run_head_reached(1) [OF ok(1) step]
      by (intro transfer_ok_frame [where m = m and m' = m']) simp_all
  qed
  with Cons show ?case by simp
qed simp

lemma run_head_copier_ok:
  assumes ok: "machine_ok m" "copier_ok m c" and step: "run_head st m = Some m'"
  shows "copier_ok m' c"
proof -
  from step obtain x xs where q: "queue m st = x # xs" "queue m' = (queue m)(st := xs)"
    and same: "batch_sizes m' = batch_sizes m" "next_stream m' = next_stream m" "next_event m' = next_event m"
      "next_buffer m' = next_buffer m"
    by (rule run_headE) blast
  note okD = copier_okD [OF ok(2)] and pend = run_head_pending [OF step]
  show ?thesis
  proof (rule copier_okI)
    show "chain_ok m' None (transfers c)"
      by (rule run_head_chain_ok [OF ok step]) (use okD(9) in auto)
    show "queue m' s = []" if "s \<in> set (stream_pool c)" for s
      using okD(7) [OF that] q by auto
    show "host_copy_ok m' t" if "t \<in> set (transfers c)" for t
      using okD(12) [OF that] same by (auto intro: host_copy_ok_frame)
    show "\<exists>t \<in> set (transfers c). st' = xfer_stream t \<and> e \<in> set (xfer_events t)"
      if "pending_record m' st' e g" "e \<in> set (events_of c)" for st' e g
      using okD(8) [OF pend [OF that(1)] that(2)] .
  qed (use okD(1-6,10,11) in \<open>simp_all add: same\<close>)
qed

lemma run_head_pair_ok: "pair_ok m c c' \<Longrightarrow> run_head st m = Some m' \<Longrightarrow> pair_ok m' c c'"
  by (auto simp: pair_ok_def intro: run_head_machine_ok run_head_copier_ok)

section \<open>The compute stream and the memory\<close>

lemma pending_record_cong: "queue m' = queue m \<Longrightarrow> pending_record m' = pending_record m"
  by (simp add: pending_record_def fun_eq_iff)

lemma same_queues_pair_ok:
  assumes ok: "pair_ok m c c'"
    and same: "queue m' = queue m" "recorded m' = recorded m" "reached m' = reached m" "batch_sizes m' = batch_sizes m"
      "next_stream m' = next_stream m" "next_event m' = next_event m" "next_buffer m' = next_buffer m"
    and compute: "compute_issued m \<le> compute_issued m'" "compute_done m' \<le> compute_issued m'"
  shows "pair_ok m' c c'"
proof -
  have "machine_ok m" using ok by (simp add: pair_ok_def)
  note okD = machine_okD [OF this]
  have "machine_ok m'"
  proof (rule machine_okI)
    show "e < next_event m' \<and> reached m' e \<le> g \<and> g \<le> recorded m' e" if "pending_record m' st e g" for st e g
      using okD(2-4) that by (simp add: same pending_record_cong [OF same(1)])
    show "st' = st \<and> g' = g" if "pending_record m' st e g" "pending_record m' st' e g'" for st e g st' g'
      using okD(5,6) that by (simp add: pending_record_cong [OF same(1)])
    show "n \<le> compute_issued m'" if "WaitCompute n \<in> set (queue m' st)" for st n
      using okD(8) [of n st] that compute(1) by (simp add: same)
  qed (use okD(1,7) compute(2) in \<open>simp_all add: same\<close>)
  moreover have "same_for m m' d" for d
    by (simp add: same_for_def same pending_record_cong [OF same(1)])
  ultimately show ?thesis
    using ok copier_ok_frame by (auto simp: pair_ok_def)
qed

section \<open>Finished transfers\<close>

lemma done_queue_empty: "transfer_ok m prev t \<Longrightarrow> event_done m (end_event t) \<Longrightarrow> queue m (xfer_stream t) = []"
  by (auto simp: transfer_ok_def last_record_def event_done_def Let_def split: if_splits)

lemma chain_ok_None:
  assumes "chain_ok m (Some e) ts" "event_done m e"
  shows "chain_ok m None ts"
proof (cases ts)
  case (Cons t ts')
  with assms show ?thesis
    by (auto simp: transfer_ok_def waits_ok_def in_turn_def event_done_def)
qed simp

text \<open>The first transfer gives its resources back.\<close>

definition release_head :: "copier \<Rightarrow> transfer \<Rightarrow> transfer list \<Rightarrow> copier" where
  "release_head c t ts =
     c\<lparr>transfers := ts, stream_pool := stream_pool c @ [xfer_stream t],
       event_pool := event_pool c @ [end_event t, start_event t], buffer_pool := buffer_pool c @ [batch t],
       transfer_events := dpop (xfer_job t) (transfer_events c)\<rparr>"

lemma release_head_sets:
  "set (streams_of (release_head c t ts)) = set (streams_of (c\<lparr>transfers := t # ts\<rparr>))"
  "set (events_of (release_head c t ts)) = set (events_of (c\<lparr>transfers := t # ts\<rparr>))"
  "set (buffers_of (release_head c t ts)) = set (buffers_of (c\<lparr>transfers := t # ts\<rparr>))"
  by (auto simp: release_head_def streams_of_def events_of_def buffers_of_def xfer_events_def)

lemma dpop_first:
  "distinct (map f (t # ts)) \<Longrightarrow> dpop (f t) (map (\<lambda>t. (f t, g t)) (t # ts)) = map (\<lambda>t. (f t, g t)) ts"
  by (simp add: delete_notin_dom comp_def image_image)

lemma release_head_ok:
  assumes ok: "copier_ok m (c\<lparr>transfers := t # ts\<rparr>)" and fin: "event_done m (end_event t)"
  shows "copier_ok m (release_head c t ts)"
proof -
  note okD = copier_okD [OF ok]
  have t: "transfer_ok m None t" "chain_ok m (Some (end_event t)) ts" using okD(9) by simp_all
  have empty: "queue m (xfer_stream t) = []" by (rule done_queue_empty [OF t(1) fin])
  show ?thesis
  proof (rule copier_okI)
    show "distinct (streams_of (release_head c t ts))" "distinct (events_of (release_head c t ts))"
      "distinct (buffers_of (release_head c t ts))"
      using okD(1-3) by (auto simp: release_head_def streams_of_def events_of_def buffers_of_def xfer_events_def)
    show "queue m s = []" if "s \<in> set (stream_pool (release_head c t ts))" for s
      using that empty okD(7) [of s] by (auto simp: release_head_def)
    show "\<exists>t' \<in> set (transfers (release_head c t ts)). st = xfer_stream t' \<and> e \<in> set (xfer_events t')"
      if "pending_record m st e g" "e \<in> set (events_of (release_head c t ts))" for st e g
    proof -
      note p = that
      obtain t' where "t' \<in> set (t # ts)" "st = xfer_stream t'" "e \<in> set (xfer_events t')"
        using okD(8) [OF p(1)] p(2) by (auto simp: release_head_sets)
      moreover from this have "t' \<noteq> t" using p(1) empty by (auto simp: pending_record_def)
      ultimately show ?thesis by (auto simp: release_head_def)
    qed
    show "chain_ok m None (transfers (release_head c t ts))"
      using chain_ok_None [OF t(2) fin] by (simp add: release_head_def)
    show "transfer_events (release_head c t ts) = map (\<lambda>t. (xfer_job t, end_event t)) (transfers (release_head c t ts))"
      using okD(10,11) dpop_first [of xfer_job t ts end_event] by (simp add: release_head_def del: delete_simps)
    show "distinct (map xfer_job (transfers (release_head c t ts)))"
      using okD(11) by (simp add: release_head_def)
    show "host_copy_ok m t'" if "t' \<in> set (transfers (release_head c t ts))" for t'
      using that okD(12) [of t'] by (simp add: release_head_def)
  qed (use okD(4-6) in \<open>simp_all only: release_head_sets\<close>)
qed

lemma complete_transfer_mem:
  assumes "host_copy_ok m t"
  shows "\<exists>M. complete_transfer t m = Some (m\<lparr>mem := M\<rparr>)"
proof (cases "host_destinations t")
  case None
  then have "complete_transfer t m = Some (m\<lparr>mem := mem m\<rparr>)" by (simp add: complete_transfer_def)
  then show ?thesis by blast
next
  case (Some ds)
  with assms obtain base where "staging t = Some base" by (auto simp: host_copy_ok_def)
  with Some have "complete_transfer t m = Some (m\<lparr>mem := complete_host_copy base (batch_sizes m (batch t)) (Some ds) (mem m)\<rparr>)"
    by (simp add: complete_transfer_def)
  then show ?thesis by blast
qed

lemma mem_pair_ok: "pair_ok m c c' \<Longrightarrow> pair_ok (m\<lparr>mem := M\<rparr>) c c'"
  by (rule same_queues_pair_ok [where m = m]) (simp_all add: pair_ok_def machine_ok_def)

text \<open>
  The loop returns, reports the finished transfers from the front and keeps the rest; only the
  memory of the machine changes.
\<close>

lemma reap_ok:
  assumes "pair_ok m (c\<lparr>transfers := ts\<rparr>) c'"
  shows "\<exists>M c2. reap ts (m, c) =
      Some (map (\<lambda>t. (xfer_job t, num_bytes t)) (takeWhile (\<lambda>t. event_done m (end_event t)) ts), m\<lparr>mem := M\<rparr>, c2)
    \<and> pair_ok (m\<lparr>mem := M\<rparr>) c2 c' \<and> transfers c2 = dropWhile (\<lambda>t. event_done m (end_event t)) ts
    \<and> plan_handler c2 = plan_handler c \<and> swap_blocks c2 = swap_blocks c"
  using assms
proof (induction ts arbitrary: m c)
  case Nil
  have "m = m\<lparr>mem := mem m\<rparr>" by simp
  with Nil show ?case by (intro exI [of _ "mem m"] exI [of _ "c\<lparr>transfers := []\<rparr>"]) simp
next
  case (Cons t ts)
  show ?case
  proof (cases "event_done m (end_event t)")
    case False
    have "m = m\<lparr>mem := mem m\<rparr>" by simp
    with False Cons.prems show ?thesis
      by (intro exI [of _ "mem m"] exI [of _ "c\<lparr>transfers := t # ts\<rparr>"]) simp
  next
    case True
    have ok: "copier_ok m (c\<lparr>transfers := t # ts\<rparr>)" using Cons.prems by (simp add: pair_ok_def)
    obtain M where M: "complete_transfer t m = Some (m\<lparr>mem := M\<rparr>)"
      using complete_transfer_mem copier_okD(12) [OF ok, of t] by auto
    have job: "xfer_job t \<in> fst ` set (transfer_events c)"
      using copier_okD(10) [OF ok] by simp
    let ?c = "c\<lparr>stream_pool := stream_pool c @ [xfer_stream t], event_pool := event_pool c @ [end_event t, start_event t],
        buffer_pool := buffer_pool c @ [batch t], transfer_events := dpop (xfer_job t) (transfer_events c)\<rparr>"
    have c: "?c\<lparr>transfers := ts\<rparr> = release_head c t ts" by (simp add: release_head_def)
    have "pair_ok m (release_head c t ts) c'"
      using Cons.prems release_head_ok [OF ok True] by (simp add: pair_ok_def separate_def release_head_sets)
    then have "pair_ok (m\<lparr>mem := M\<rparr>) (?c\<lparr>transfers := ts\<rparr>) c'"
      unfolding c by (rule mem_pair_ok)
    from Cons.IH [OF this] True M job show ?thesis
      by (auto simp: event_done_def)
  qed
qed

lemma get_finished_ok:
  assumes "pair_ok m c c'"
  shows "\<exists>M c2. get_finished (m, c) =
      Some (map (\<lambda>t. (xfer_job t, num_bytes t)) (takeWhile (\<lambda>t. event_done m (end_event t)) (transfers c)), m\<lparr>mem := M\<rparr>, c2)
    \<and> pair_ok (m\<lparr>mem := M\<rparr>) c2 c' \<and> transfers c2 = dropWhile (\<lambda>t. event_done m (end_event t)) (transfers c)
    \<and> plan_handler c2 = plan_handler c \<and> swap_blocks c2 = swap_blocks c"
proof -
  have "c = c\<lparr>transfers := transfers c\<rparr>" by simp
  with assms reap_ok [where m = m and c = c and ts = "transfers c" and c' = c'] show ?thesis by (simp add: get_finished_def)
qed

end
