(* ===== verification/CopySubmit.thy ===== *)
theory CopySubmit
  imports CopyQueueInv
begin

text \<open>
  Submission keeps the invariant: what is taken from a pool or from the runtime is free, the
  commands of a transfer end with the recording of its last event and begin with its waits, and
  a transfer that fails on the way loses its resources but disturbs nobody.
\<close>

section \<open>Free resources\<close>

definition free_stream :: "machine \<Rightarrow> copier \<Rightarrow> copier \<Rightarrow> nat \<Rightarrow> bool" where
  "free_stream m c c' st \<longleftrightarrow>
     st < next_stream m \<and> st \<notin> set (streams_of c) \<and> st \<notin> set (streams_of c') \<and> queue m st = []"

definition free_event :: "machine \<Rightarrow> copier \<Rightarrow> copier \<Rightarrow> nat \<Rightarrow> bool" where
  "free_event m c c' e \<longleftrightarrow>
     e < next_event m \<and> e \<notin> set (events_of c) \<and> e \<notin> set (events_of c') \<and> (\<forall>st g. \<not> pending_record m st e g)"

definition free_buffer :: "machine \<Rightarrow> copier \<Rightarrow> copier \<Rightarrow> nat \<Rightarrow> bool" where
  "free_buffer m c c' b \<longleftrightarrow> b < next_buffer m \<and> b \<notin> set (buffers_of c) \<and> b \<notin> set (buffers_of c')"

lemma separateD:
  assumes "pair_ok m c c'"
  shows "st \<in> set (streams_of c) \<Longrightarrow> st \<notin> set (streams_of c')"
    "e \<in> set (events_of c) \<Longrightarrow> e \<notin> set (events_of c')"
    "b \<in> set (buffers_of c) \<Longrightarrow> b \<notin> set (buffers_of c')"
  using assms by (auto simp: pair_ok_def separate_def)

lemma pair_okD:
  assumes "pair_ok m c c'"
  shows "machine_ok m" "copier_ok m c" "copier_ok m c'" "separate c c'"
  using assms by (simp_all add: pair_ok_def)

text \<open>Giving away what a pool holds.\<close>

lemma shrink_copier_ok:
  assumes ok: "copier_ok m c"
    and sub: "transfers d = transfers c" "transfer_events d = transfer_events c"
    and pools: "distinct (stream_pool d)" "set (stream_pool d) \<subseteq> set (stream_pool c)"
      "distinct (event_pool d)" "set (event_pool d) \<subseteq> set (event_pool c)"
      "distinct (buffer_pool d)" "set (buffer_pool d) \<subseteq> set (buffer_pool c)"
  shows "copier_ok m d"
proof -
  note okD = copier_okD [OF ok]
  have sets: "set (streams_of d) \<subseteq> set (streams_of c)" "set (events_of d) \<subseteq> set (events_of c)"
    "set (buffers_of d) \<subseteq> set (buffers_of c)"
    using pools by (auto simp: streams_of_def events_of_def buffers_of_def sub)
  show ?thesis
  proof (rule copier_okI)
    show "distinct (streams_of d)" "distinct (events_of d)" "distinct (buffers_of d)"
      using okD(1-3) pools by (auto simp: streams_of_def events_of_def buffers_of_def sub)
    show "\<exists>t \<in> set (transfers d). st = xfer_stream t \<and> e \<in> set (xfer_events t)"
      if "pending_record m st e g" "e \<in> set (events_of d)" for st e g
      using okD(8) [OF that(1)] that(2) sets by (auto simp: sub)
  qed (use okD(4-7,9-12) sets pools in \<open>auto simp: sub\<close>)
qed

lemma pair_ok_shrink:
  assumes "pair_ok m c c'" "copier_ok m d" "set (streams_of d) \<subseteq> set (streams_of c)"
    "set (events_of d) \<subseteq> set (events_of c)" "set (buffers_of d) \<subseteq> set (buffers_of c)"
  shows "pair_ok m d c'"
  using assms by (auto simp: pair_ok_def separate_def)

text \<open>A machine that only has more fresh objects.\<close>

lemma grow_pair_ok:
  assumes ok: "pair_ok m c c'"
    and same: "queue m' = queue m" "recorded m' = recorded m" "reached m' = reached m"
      "compute_issued m' = compute_issued m" "compute_done m' = compute_done m"
    and next_ok: "next_stream m \<le> next_stream m'" "next_event m \<le> next_event m'" "next_buffer m \<le> next_buffer m'"
    and sizes: "\<forall>b. b \<in> set (buffers_of c) \<union> set (buffers_of c') \<longrightarrow> batch_sizes m' b = batch_sizes m b"
  shows "pair_ok m' c c'"
proof -
  note okD = machine_okD [OF pair_okD(1) [OF ok]]
  have "machine_ok m'"
  proof (rule machine_okI)
    show "e < next_event m' \<and> reached m' e \<le> g \<and> g \<le> recorded m' e" if "pending_record m' st e g" for st e g
      using okD(2-4) that next_ok by (auto simp: same pending_record_cong [OF same(1)] intro: less_le_trans)
    show "st' = st \<and> g' = g" if "pending_record m' st e g" "pending_record m' st' e g'" for st e g st' g'
      using okD(5,6) that by (simp add: pending_record_cong [OF same(1)])
    show "n \<le> compute_issued m'" if "WaitCompute n \<in> set (queue m' st)" for st n
      using okD(8) [of n st] that by (simp add: same)
  qed (use okD(1,7,9) next_ok in \<open>simp_all add: same\<close>)
  moreover have "same_for m m' d" if "\<forall>b \<in> set (buffers_of d). batch_sizes m' b = batch_sizes m b" for d
    using that next_ok by (simp add: same_for_def same pending_record_cong [OF same(1)])
  ultimately show ?thesis
    using ok sizes copier_ok_frame by (auto simp: pair_ok_def)
qed

section \<open>Taking from the pools\<close>

lemma last_butlast:
  "xs \<noteq> [] \<Longrightarrow> distinct xs \<Longrightarrow> last xs \<in> set xs \<and> last xs \<notin> set (butlast xs) \<and> distinct (butlast xs) \<and> set (butlast xs) \<subseteq> set xs"
  by (induction xs rule: rev_induct) auto

lemma take_stream_ok:
  assumes ok: "pair_ok m c c'" and take: "take_stream (m, c) = (st, m', d)"
  shows "pair_ok m' d c' \<and> free_stream m' d c' st \<and> transfers d = transfers c \<and> transfer_events d = transfer_events c
    \<and> event_pool d = event_pool c \<and> buffer_pool d = buffer_pool c \<and> (\<exists>n. m' = m\<lparr>next_stream := n\<rparr> \<and> next_stream m \<le> n)
    \<and> plan_handler d = plan_handler c \<and> swap_blocks d = swap_blocks c"
proof (cases "stream_pool c = []")
  case True
  with take have eq: "st = next_stream m" "m' = m\<lparr>next_stream := next_stream m + 1\<rparr>" "d = c"
    by (auto simp: take_stream_def)
  have "pair_ok m' d c'" unfolding eq by (rule grow_pair_ok [OF ok]) simp_all
  moreover have "free_stream m' d c' st"
    using copier_okD(4) [OF pair_okD(2) [OF ok], of st] copier_okD(4) [OF pair_okD(3) [OF ok], of st]
      machine_okD(1) [OF pair_okD(1) [OF ok], of st]
    by (auto simp: free_stream_def eq)
  ultimately show ?thesis by (simp add: eq) (metis le_SucI order_refl)
next
  case False
  with take have eq: "st = last (stream_pool c)" "m' = m" "d = c\<lparr>stream_pool := butlast (stream_pool c)\<rparr>"
    by (auto simp: take_stream_def)
  note okD = copier_okD [OF pair_okD(2) [OF ok]]
  have lb: "last (stream_pool c) \<in> set (stream_pool c) \<and> last (stream_pool c) \<notin> set (butlast (stream_pool c))
      \<and> distinct (butlast (stream_pool c)) \<and> set (butlast (stream_pool c)) \<subseteq> set (stream_pool c)"
    using last_butlast [OF False] okD(1) by (simp add: streams_of_def)
  have "copier_ok m d"
    by (rule shrink_copier_ok [OF pair_okD(2) [OF ok]])
      (use okD(1-3) lb in \<open>simp_all add: eq events_of_def buffers_of_def\<close>)
  then have "pair_ok m d c'"
    by (rule pair_ok_shrink [OF ok]) (use lb in \<open>auto simp: eq streams_of_def events_of_def buffers_of_def\<close>)
  moreover have "free_stream m d c' st"
    using okD(1,4) okD(7) [of st] lb separateD(1) [OF ok, of st] by (auto simp: free_stream_def eq streams_of_def)
  moreover have "\<exists>n. m = m\<lparr>next_stream := n\<rparr> \<and> next_stream m \<le> n"
    by (rule exI [of _ "next_stream m"]) simp
  ultimately show ?thesis by (simp add: eq)
qed

lemma take_event_ok:
  assumes ok: "pair_ok m c c'" and take: "take_event (m, c) = (e, m', d)"
  shows "pair_ok m' d c' \<and> free_event m' d c' e \<and> transfers d = transfers c \<and> transfer_events d = transfer_events c
    \<and> stream_pool d = stream_pool c \<and> buffer_pool d = buffer_pool c \<and> set (event_pool d) \<subseteq> set (event_pool c)
    \<and> (\<exists>n. m' = m\<lparr>next_event := n\<rparr> \<and> next_event m \<le> n)
    \<and> plan_handler d = plan_handler c \<and> swap_blocks d = swap_blocks c \<and> (e \<in> set (event_pool c) \<or> next_event m \<le> e)"
proof (cases "event_pool c = []")
  case True
  with take have eq: "e = next_event m" "m' = m\<lparr>next_event := next_event m + 1\<rparr>" "d = c"
    by (auto simp: take_event_def)
  have "pair_ok m' d c'" unfolding eq by (rule grow_pair_ok [OF ok]) simp_all
  moreover have "\<not> pending_record m' st e g" for st g
    using machine_okD(2) [OF pair_okD(1) [OF ok], of st e g] by (auto simp: eq pending_record_def)
  then have "free_event m' d c' e"
    using copier_okD(5) [OF pair_okD(2) [OF ok], of e] copier_okD(5) [OF pair_okD(3) [OF ok], of e]
    by (auto simp: free_event_def eq)
  ultimately show ?thesis by (simp add: eq) (metis le_SucI order_refl)
next
  case False
  with take have eq: "e = last (event_pool c)" "m' = m" "d = c\<lparr>event_pool := butlast (event_pool c)\<rparr>"
    by (auto simp: take_event_def)
  note okD = copier_okD [OF pair_okD(2) [OF ok]]
  have lb: "last (event_pool c) \<in> set (event_pool c) \<and> last (event_pool c) \<notin> set (butlast (event_pool c))
      \<and> distinct (butlast (event_pool c)) \<and> set (butlast (event_pool c)) \<subseteq> set (event_pool c)"
    using last_butlast [OF False] okD(2) by (simp add: events_of_def)
  have "copier_ok m d"
    by (rule shrink_copier_ok [OF pair_okD(2) [OF ok]])
      (use okD(1-3) lb in \<open>simp_all add: eq streams_of_def buffers_of_def\<close>)
  then have "pair_ok m d c'"
    by (rule pair_ok_shrink [OF ok]) (use lb in \<open>auto simp: eq streams_of_def events_of_def buffers_of_def\<close>)
  moreover have "free_event m d c' e"
    using okD(2,5) pool_event_idle [OF pair_okD(2) [OF ok], of e] lb separateD(2) [OF ok, of e]
    by (auto simp: free_event_def eq events_of_def)
  moreover have "\<exists>n. m = m\<lparr>next_event := n\<rparr> \<and> next_event m \<le> n"
    by (rule exI [of _ "next_event m"]) simp
  ultimately show ?thesis using lb by (simp add: eq)
qed

lemma new_buffer_ok:
  assumes ok: "pair_ok m c c'" and new: "new_buffer n (m, c) = (b, m', d)"
  shows "pair_ok m' d c' \<and> free_buffer m' d c' b \<and> d = c \<and> n \<le> length (batch_sizes m' b)"
proof -
  from new have eq: "b = next_buffer m" "d = c"
    "m' = m\<lparr>next_buffer := next_buffer m + 1, batch_sizes := (batch_sizes m)(next_buffer m := replicate n 0)\<rparr>"
    by (auto simp: new_buffer_def)
  have fresh: "next_buffer m \<notin> set (buffers_of c)" "next_buffer m \<notin> set (buffers_of c')"
    using copier_okD(6) [OF pair_okD(2) [OF ok], of "next_buffer m"] copier_okD(6) [OF pair_okD(3) [OF ok], of "next_buffer m"]
    by blast+
  have "pair_ok m' d c'"
    unfolding eq by (rule grow_pair_ok [OF ok]) (use fresh in auto)
  with fresh show ?thesis by (simp add: eq free_buffer_def)
qed

lemma take_buffer_ok:
  assumes ok: "pair_ok m c c'" and take: "take_buffer n (m, c) = (b, m', d)"
  shows "pair_ok m' d c' \<and> free_buffer m' d c' b \<and> transfers d = transfers c \<and> transfer_events d = transfer_events c
    \<and> plan_handler d = plan_handler c \<and> swap_blocks d = swap_blocks c \<and> n \<le> length (batch_sizes m' b)"
proof (cases "buffer_pool c = []")
  case True
  with take have "new_buffer n (m, c) = (b, m', d)" by (simp add: take_buffer_def)
  from new_buffer_ok [OF ok this] show ?thesis by auto
next
  case False
  let ?b = "last (buffer_pool c)" and ?d = "c\<lparr>buffer_pool := butlast (buffer_pool c)\<rparr>"
  note okD = copier_okD [OF pair_okD(2) [OF ok]]
  have lb: "?b \<in> set (buffer_pool c) \<and> ?b \<notin> set (butlast (buffer_pool c))
      \<and> distinct (butlast (buffer_pool c)) \<and> set (butlast (buffer_pool c)) \<subseteq> set (buffer_pool c)"
    using last_butlast [OF False] okD(3) by (simp add: buffers_of_def)
  have "copier_ok m ?d"
    by (rule shrink_copier_ok [OF pair_okD(2) [OF ok]])
      (use okD(1-3) lb in \<open>simp_all add: events_of_def streams_of_def\<close>)
  then have d: "pair_ok m ?d c'"
    by (rule pair_ok_shrink [OF ok]) (use lb in \<open>auto simp: streams_of_def events_of_def buffers_of_def\<close>)
  show ?thesis
  proof (cases "length (batch_sizes m ?b) < n")
    case True
    with False take have "new_buffer n (m, ?d) = (b, m', d)" by (simp add: take_buffer_def Let_def)
    from new_buffer_ok [OF d this] show ?thesis by auto
  next
    case False
    with \<open>buffer_pool c \<noteq> []\<close> take have eq: "b = ?b" "m' = m" "d = ?d"
      by (auto simp: take_buffer_def Let_def)
    have "free_buffer m ?d c' ?b"
      using okD(3,6) lb separateD(3) [OF ok, of ?b] by (auto simp: free_buffer_def buffers_of_def)
    with d False show ?thesis by (simp add: eq)
  qed
qed

lemma store_sizes_ok:
  assumes "pair_ok m c c'" "free_buffer m c c' b"
  shows "pair_ok (store_sizes b ns m) c c'" "free_buffer (store_sizes b ns m) c c' b"
  using assms by (auto simp: store_sizes_def free_buffer_def intro!: grow_pair_ok [where m = m])

section \<open>The commands of a transfer\<close>

text \<open>Appending to one stream.\<close>

definition enqueued :: "nat \<Rightarrow> command list \<Rightarrow> machine \<Rightarrow> machine" where
  "enqueued st xs m = m\<lparr>queue := (queue m)(st := queue m st @ xs)\<rparr>"

lemma enqueued_simps [simp]:
  "recorded (enqueued st xs m) = recorded m" "reached (enqueued st xs m) = reached m"
  "compute_issued (enqueued st xs m) = compute_issued m" "compute_done (enqueued st xs m) = compute_done m"
  "mem (enqueued st xs m) = mem m" "batch_sizes (enqueued st xs m) = batch_sizes m"
  "next_stream (enqueued st xs m) = next_stream m" "next_event (enqueued st xs m) = next_event m"
  "next_buffer (enqueued st xs m) = next_buffer m"
  "queue (enqueued st xs m) = (queue m)(st := queue m st @ xs)"
  by (simp_all add: enqueued_def)

lemma enqueued_enqueued [simp]: "enqueued st ys (enqueued st xs m) = enqueued st (xs @ ys) m"
  by (simp add: enqueued_def)

lemma enqueued_Nil [simp]: "enqueued st [] m = m"
  by (simp add: enqueued_def)

lemma push_enqueued: "push st x m = enqueued st [x] m"
  by (simp add: push_def enqueued_def)

lemma recorded_enqueued: "(enqueued st xs m)\<lparr>recorded := f\<rparr> = enqueued st xs (m\<lparr>recorded := f\<rparr>)"
  by (simp add: enqueued_def)

lemma fold_push: "fold (\<lambda>d. push st (CopyCmd d)) ds m = enqueued st (map CopyCmd ds) m"
  by (induction ds arbitrary: m) (simp_all add: push_enqueued)

lemma swap_stream_ordered_effect:
  "\<exists>cs. snd (swap_stream_ordered env st i ds m) = enqueued st (map CopyCmd cs) m
    \<and> (fst (swap_stream_ordered env st i ds m) = None \<longrightarrow> cs = ds)"
proof (induction ds arbitrary: i m)
  case Nil
  show ?case by (rule exI [of _ "[]"]) simp
next
  case (Cons d ds)
  show ?case
  proof (cases "memcpy_fails env i")
    case True
    then show ?thesis by (intro exI [of _ "[]"]) simp
  next
    case False
    obtain cs where "snd (swap_stream_ordered env st (i + 1) ds (push st (CopyCmd d) m))
        = enqueued st (map CopyCmd cs) (push st (CopyCmd d) m)"
      "fst (swap_stream_ordered env st (i + 1) ds (push st (CopyCmd d) m)) = None \<longrightarrow> cs = ds"
      using Cons.IH by blast
    with False show ?thesis by (intro exI [of _ "d # cs"]) (simp add: push_enqueued)
  qed
qed

lemma submit_copies_effect:
  "\<exists>cs. snd (submit_copies env f any st ds m) = enqueued st (map CopyCmd cs) m
    \<and> (f = StreamOrdered \<longrightarrow> fst (submit_copies env f any st ds m) = None \<longrightarrow> cs = ds)"
proof (cases "ds = [] \<or> f \<noteq> StreamOrdered")
  case True
  show ?thesis
  proof (cases "ds = []")
    case True
    then show ?thesis by (intro exI [of _ "[]"]) (simp add: submit_copies_def)
  next
    case False
    with True show ?thesis
      by (intro exI [of _ "batch_copies env f any ds"]) (simp add: submit_copies_def fold_push)
  qed
next
  case False
  then show ?thesis using swap_stream_ordered_effect by (simp add: submit_copies_def)
qed

text \<open>The waits a transfer begins with.\<close>

definition first_waits :: "machine \<Rightarrow> copier \<Rightarrow> command list" where
  "first_waits m c = WaitCompute (compute_issued m)
     # (if transfers c = [] then [] else
          (let e = end_event (last (transfers c)) in [WaitEvent e (recorded m e)]))"

definition record_twice :: "nat \<Rightarrow> nat \<Rightarrow> machine \<Rightarrow> machine" where
  "record_twice e1 e2 m = m\<lparr>recorded := (recorded m)(e1 := Suc (recorded m e1), e2 := Suc (recorded m e2))\<rparr>"

definition record_once :: "nat \<Rightarrow> machine \<Rightarrow> machine" where
  "record_once e1 m = m\<lparr>recorded := (recorded m)(e1 := Suc (recorded m e1))\<rparr>"

lemma record_twice_simps [simp]:
  "queue (record_twice e1 e2 m) = queue m" "reached (record_twice e1 e2 m) = reached m"
  "batch_sizes (record_twice e1 e2 m) = batch_sizes m" "next_stream (record_twice e1 e2 m) = next_stream m"
  "next_event (record_twice e1 e2 m) = next_event m" "next_buffer (record_twice e1 e2 m) = next_buffer m"
  by (simp_all add: record_twice_def)

lemma enqueue_effect:
  assumes "e1 \<noteq> e2"
  shows "\<exists>cs. enqueue env c st e1 e2 ds m =
      (case fst (submit_copies env (swap_blocks c) (\<not> gpu_to_cpu (plan_handler c)) st ds
               (enqueued st (first_waits m c @ [RecordEvent e1 (Suc (recorded m e1))]) (record_once e1 m))) of
         Some i \<Rightarrow> (Some i, enqueued st (first_waits m c @ [RecordEvent e1 (Suc (recorded m e1))] @ map CopyCmd cs) (record_once e1 m))
       | None \<Rightarrow> (None, enqueued st (first_waits m c @ [RecordEvent e1 (Suc (recorded m e1))] @ map CopyCmd cs
             @ [RecordEvent e2 (Suc (recorded m e2))]) (record_twice e1 e2 m)))"
proof -
  let ?m3 = "enqueued st (first_waits m c @ [RecordEvent e1 (Suc (recorded m e1))]) (record_once e1 m)"
  let ?sub = "submit_copies env (swap_blocks c) (\<not> gpu_to_cpu (plan_handler c)) st ds ?m3"
  have m3: "record_event st e1 (if transfers c = [] then wait_compute st m
      else wait_event st (end_event (last (transfers c))) (wait_compute st m)) = ?m3"
    by (simp add: record_event_def wait_compute_def wait_event_def push_enqueued first_waits_def record_once_def
        recorded_enqueued Let_def)
  obtain cs where cs: "snd ?sub = enqueued st (map CopyCmd cs) ?m3"
    using submit_copies_effect by blast
  obtain r m4 where sub: "?sub = (r, m4)" by (cases ?sub)
  have m4: "m4 = enqueued st (map CopyCmd cs) ?m3" using cs sub by simp
  have "record_event st e2 m4 = enqueued st (first_waits m c @ [RecordEvent e1 (Suc (recorded m e1))] @ map CopyCmd cs
        @ [RecordEvent e2 (Suc (recorded m e2))]) (record_twice e1 e2 m)"
    using assms by (simp add: m4 record_event_def push_enqueued record_once_def record_twice_def recorded_enqueued Let_def)
  then show ?thesis
    by (intro exI [of _ cs]) (simp add: enqueue_def Let_def m3 sub m4 split: option.splits)
qed

section \<open>New commands in a free stream\<close>

lemma pending_enqueued:
  "pending_record (enqueued st xs (m\<lparr>recorded := f\<rparr>)) st' e g
    \<longleftrightarrow> pending_record m st' e g \<or> (st' = st \<and> RecordEvent e g \<in> set xs)"
  by (auto simp: pending_record_def enqueued_def)

lemma machine_ok_extend:
  assumes ok: "machine_ok m" and st: "st < next_stream m"
    and f: "\<forall>e. recorded m e \<le> f e"
    and rec: "\<And>e g. RecordEvent e g \<in> set xs \<Longrightarrow> e < next_event m \<and> g = f e \<and> (\<forall>st g. \<not> pending_record m st e g)"
    and wait: "\<And>n. WaitCompute n \<in> set xs \<Longrightarrow> n \<le> compute_issued m"
  shows "machine_ok (enqueued st xs (m\<lparr>recorded := f\<rparr>))"
proof -
  note okD = machine_okD [OF ok]
  have le: "reached m e \<le> f e" for e using okD(7) [of e] f order_trans by blast
  show ?thesis
  proof (rule machine_okI, goal_cases)
    case (2 st' e g)
    then consider "pending_record m st' e g" | "RecordEvent e g \<in> set xs" by (auto simp: pending_enqueued)
    then show ?case
    proof cases
      case 1
      have "g \<le> f e" using okD(4) [OF 1] spec [OF f, of e] by linarith
      with okD(2,3) [OF 1] show ?thesis by simp
    next
      case 2
      from rec [OF this] le [of e] show ?thesis by simp
    qed
  next
    case (3 st1 e g st2 g')
    show ?case
    proof (cases "RecordEvent e g \<in> set xs \<or> RecordEvent e g' \<in> set xs")
      case True
      then have "\<not> pending_record m st' e g''" for st' g'' using rec by blast
      with 3 show ?thesis by (auto simp: pending_enqueued dest: rec)
    next
      case False
      with 3 have "pending_record m st1 e g" "pending_record m st2 e g'" by (simp_all add: pending_enqueued)
      with okD(5,6) show ?thesis by blast
    qed
  next
    case (5 st' n)
    then show ?case using okD(8) [of n st'] wait [of n] by (auto split: if_splits)
  qed (use st okD(1,9) le in auto)
qed

lemma same_for_extend:
  assumes "st \<notin> set (streams_of d)" "\<forall>e. recorded m e \<le> f e" "\<forall>e \<in> set (events_of d). f e = recorded m e"
    and "\<And>e g. RecordEvent e g \<in> set xs \<Longrightarrow> e \<notin> set (events_of d)"
  shows "same_for m (enqueued st xs (m\<lparr>recorded := f\<rparr>)) d"
  using assms by (auto simp: same_for_def pending_enqueued)

lemma chain_ok_append:
  "chain_ok m prev (ts @ [t]) \<longleftrightarrow>
     chain_ok m prev ts \<and> transfer_ok m (if ts = [] then prev else Some (end_event (last ts))) t"
  by (induction ts arbitrary: prev) auto

text \<open>The commands that a submission puts into its stream.\<close>

definition commands_of :: "machine \<Rightarrow> copier \<Rightarrow> nat \<Rightarrow> copy_desc list \<Rightarrow> command list" where
  "commands_of m c e1 cs = first_waits m c @ [RecordEvent e1 (Suc (recorded m e1))] @ map CopyCmd cs"

lemma enqueue_commands:
  assumes "e1 \<noteq> e2"
  shows "\<exists>cs. enqueue env c st e1 e2 ds m =
      (case fst (submit_copies env (swap_blocks c) (\<not> gpu_to_cpu (plan_handler c)) st ds
               (enqueued st (first_waits m c @ [RecordEvent e1 (Suc (recorded m e1))]) (record_once e1 m))) of
         Some i \<Rightarrow> (Some i, enqueued st (commands_of m c e1 cs) (record_once e1 m))
       | None \<Rightarrow> (None, enqueued st (commands_of m c e1 cs @ [RecordEvent e2 (Suc (recorded m e2))]) (record_twice e1 e2 m)))"
  unfolding commands_of_def append_assoc by (rule enqueue_effect [OF assms])

lemma commands_of_members:
  "RecordEvent e g \<in> set (commands_of m c e1 cs) \<longleftrightarrow> e = e1 \<and> g = Suc (recorded m e1)"
  "WaitCompute n \<in> set (commands_of m c e1 cs) \<longleftrightarrow> n = compute_issued m"
  "WaitEvent e g \<in> set (commands_of m c e1 cs) \<longleftrightarrow>
     transfers c \<noteq> [] \<and> e = end_event (last (transfers c)) \<and> g = recorded m e"
  by (auto simp: commands_of_def first_waits_def Let_def)

text \<open>A transfer that fails leaves its stream behind.\<close>

lemma failed_launch_ok:
  assumes ok: "pair_ok m c c'" and st: "free_stream m c c' st" and e1: "free_event m c c' e1"
  shows "pair_ok (enqueued st (commands_of m c e1 cs) (record_once e1 m)) c c'"
proof -
  let ?f = "(recorded m)(e1 := Suc (recorded m e1))"
  let ?m = "enqueued st (commands_of m c e1 cs) (m\<lparr>recorded := ?f\<rparr>)"
  have "machine_ok ?m"
    by (rule machine_ok_extend [OF pair_okD(1) [OF ok]])
      (use st e1 in \<open>auto simp: free_stream_def free_event_def commands_of_members\<close>)
  moreover have "same_for m ?m c" "same_for m ?m c'"
    by (rule same_for_extend; use st e1 in \<open>auto simp: free_stream_def free_event_def commands_of_members\<close>)+
  ultimately show ?thesis
    using pair_okD [OF ok] copier_ok_frame by (simp add: record_once_def pair_ok_def)
qed

lemma new_transfer_ok:
  assumes c: "copier_ok m c" and ok: "machine_ok m" and st: "queue m (xfer_stream t) = []"
    and e: "start_event t \<noteq> end_event t" "end_event t \<notin> set (events_of c)" "start_event t \<notin> set (events_of c)"
    and m': "m' = enqueued (xfer_stream t) (commands_of m c (start_event t) cs @ [RecordEvent (end_event t) (Suc (recorded m (end_event t)))])
      (record_twice (start_event t) (end_event t) m)"
  shows "transfer_ok m' (if transfers c = [] then None else Some (end_event (last (transfers c)))) t"
proof -
  let ?E = "end_event (last (transfers c))"
  have prev: "recorded m' ?E = recorded m ?E" if "transfers c \<noteq> []"
  proof -
    have "?E \<in> set (events_of c)"
      using that by (auto simp: events_of_def xfer_events_def intro!: bexI [of _ "last (transfers c)"])
    with e show ?thesis by (auto simp: m' record_twice_def)
  qed
  have "last_record m' t"
    using st e(1) machine_okD(7) [OF ok, of "end_event t"]
    by (auto simp: last_record_def Let_def m' record_twice_def commands_of_members)
  moreover have "waits_ok m' (if transfers c = [] then None else Some ?E) t"
    using st prev by (auto simp: waits_ok_def m' commands_of_members)
  moreover have "in_turn m' (if transfers c = [] then None else Some ?E) t"
    using st prev by (auto simp: in_turn_def m' commands_of_def first_waits_def Let_def)
  ultimately show ?thesis by (simp add: transfer_ok_def)
qed

lemma new_launch_ok:
  assumes ok: "pair_ok m c c'" and st: "free_stream m c c' (xfer_stream t)"
    and e1: "free_event m c c' (start_event t)" and e2: "free_event m c c' (end_event t)"
    and ne: "start_event t \<noteq> end_event t" and b: "free_buffer m c c' (batch t)"
    and job: "xfer_job t \<notin> fst ` set (transfer_events c)" and host: "host_copy_ok m t"
    and m': "m' = enqueued (xfer_stream t) (commands_of m c (start_event t) cs @ [RecordEvent (end_event t) (Suc (recorded m (end_event t)))])
      (record_twice (start_event t) (end_event t) m)"
  shows "pair_ok m' (c\<lparr>transfer_events := dput (xfer_job t) (end_event t) (transfer_events c), transfers := transfers c @ [t]\<rparr>) c'"
proof -
  let ?xs = "commands_of m c (start_event t) cs @ [RecordEvent (end_event t) (Suc (recorded m (end_event t)))]"
  let ?f = "(recorded m)(start_event t := Suc (recorded m (start_event t)), end_event t := Suc (recorded m (end_event t)))"
  let ?d = "c\<lparr>transfer_events := dput (xfer_job t) (end_event t) (transfer_events c), transfers := transfers c @ [t]\<rparr>"
  have m'f: "m' = enqueued (xfer_stream t) ?xs (m\<lparr>recorded := ?f\<rparr>)" by (simp add: m' record_twice_def)
  have mach: "machine_ok m'"
    unfolding m'f by (rule machine_ok_extend [OF pair_okD(1) [OF ok]])
      (use st e1 e2 ne in \<open>auto simp: free_stream_def free_event_def commands_of_members\<close>)
  have same: "same_for m m' c" "same_for m m' c'"
    unfolding m'f by (rule same_for_extend; use st e1 e2 in \<open>auto simp: free_stream_def free_event_def commands_of_members\<close>)+
  have c: "copier_ok m' c" and c': "copier_ok m' c'"
    using pair_okD [OF ok] same copier_ok_frame by blast+
  note okD = copier_okD [OF c]
  have "copier_ok m' ?d"
  proof (rule copier_okI, goal_cases)
    case (4 s)
    then show ?case using okD(4) [of s] st by (auto simp: streams_of_def free_stream_def m')
  next
    case (5 e)
    then show ?case using okD(5) [of e] e1 e2 by (auto simp: events_of_def xfer_events_def free_event_def m' record_twice_def)
  next
    case (6 b')
    then show ?case using okD(6) [of b'] b by (auto simp: buffers_of_def free_buffer_def m' record_twice_def)
  next
    case (7 s)
    then show ?case using okD(7) [of s] by simp
  next
    case (8 s e g)
    then consider "e \<in> set (events_of c)" | "e \<in> set (xfer_events t)" by (auto simp: events_of_def)
    then show ?case
    proof cases
      case 1
      from okD(8) [OF 8(1) this] show ?thesis by auto
    next
      case 2
      then have "\<not> pending_record m s e g" using e1 e2 by (auto simp: xfer_events_def free_event_def)
      with 8(1) have "s = xfer_stream t" unfolding m'f by (auto simp: pending_enqueued)
      with 2 show ?thesis by auto
    qed
  next
    case 9
    have "transfer_ok m' (if transfers c = [] then None else Some (end_event (last (transfers c)))) t"
      by (rule new_transfer_ok [OF pair_okD(2) [OF ok] pair_okD(1) [OF ok] _ ne _ _ m'])
        (use st e1 e2 in \<open>auto simp: free_stream_def free_event_def\<close>)
    with okD(9) show ?case by (simp add: chain_ok_append)
  next
    case 10
    have "dput (xfer_job t) (end_event t) (transfer_events c) = transfer_events c @ [(xfer_job t, end_event t)]"
      by (rule dput_absent [OF job])
    then show ?case using okD(10) by simp
  next
    case 11
    then show ?case using okD(10,11) job by (auto simp: image_image)
  next
    case (12 t')
    then show ?case using okD(12) [of t'] host by (auto simp: m' record_twice_def intro: host_copy_ok_frame [where m = m])
  qed (use okD(1-3) st e1 e2 ne b in \<open>auto simp: streams_of_def events_of_def buffers_of_def xfer_events_def
        free_stream_def free_event_def free_buffer_def\<close>)
  moreover have "separate ?d c'"
    using pair_okD(4) [OF ok] st e1 e2 b
    by (auto simp: separate_def streams_of_def events_of_def buffers_of_def xfer_events_def
        free_stream_def free_event_def free_buffer_def)
  ultimately show ?thesis using mach c' by (simp add: pair_ok_def)
qed

section \<open>The whole operation\<close>

lemma free_eventD:
  assumes "free_event m c c' e"
  shows "e < next_event m" "e \<notin> set (events_of c)" "e \<notin> set (events_of c')" "\<not> pending_record m st e g"
  using assms by (simp_all add: free_event_def)

lemma launch_ok:
  assumes ok: "pair_ok m c c'" and b: "free_buffer m c c' b"
    and job: "job \<notin> fst ` set (transfer_events c)"
    and host: "\<And>dests base. stage_transfers (plan_handler c) \<and> ds \<noteq> [] \<Longrightarrow> dests = map copy_dst ds \<Longrightarrow>
      length dests \<le> length (batch_sizes m b) \<and> sum_list (take (length dests) (batch_sizes m b)) = bytes"
    and run: "launch env job b ds bytes (m, c) = (r, m', d)"
  shows "pair_ok m' d c' \<and> plan_handler d = plan_handler c \<and> swap_blocks d = swap_blocks c
    \<and> (if r = Submitted then \<exists>t. transfers d = transfers c @ [t] \<and> xfer_job t = job \<and> num_bytes t = bytes
       else transfers d = transfers c)"
proof -
  obtain ds' dests M where stage: "stage_plan (plan_handler c) (staging_base env) ds (mem m) = (ds', dests, M)"
    by (cases "stage_plan (plan_handler c) (staging_base env) ds (mem m)")
  obtain st m2 c2 where s: "take_stream (m\<lparr>mem := M\<rparr>, c) = (st, m2, c2)" by (cases "take_stream (m\<lparr>mem := M\<rparr>, c)")
  obtain e1 m3 c3 where e1: "take_event (m2, c2) = (e1, m3, c3)" by (cases "take_event (m2, c2)")
  obtain e2 m4 c4 where e2: "take_event (m3, c3) = (e2, m4, c4)" by (cases "take_event (m3, c3)")
  note S = take_stream_ok [OF mem_pair_ok [OF ok] s]
  then have S1: "pair_ok m2 c2 c'" by blast
  note E1 = take_event_ok [OF S1 e1]
  then have E1ok: "pair_ok m3 c3 c'" by blast
  note E2 = take_event_ok [OF E1ok e2]
  have ok4: "pair_ok m4 c4 c'" and same: "transfers c4 = transfers c" "transfer_events c4 = transfer_events c"
    "plan_handler c4 = plan_handler c" "swap_blocks c4 = swap_blocks c"
    using S E1 E2 by simp_all
  obtain n1 n2 n3 where mach: "m2 = m\<lparr>mem := M, next_stream := n1\<rparr>" "next_stream m \<le> n1"
      "m3 = m2\<lparr>next_event := n2\<rparr>" "next_event m2 \<le> n2" "m4 = m3\<lparr>next_event := n3\<rparr>" "next_event m3 \<le> n3"
    using S E1 E2 by auto
  have st4: "free_stream m4 c4 c' st"
    using S E1 E2 by (auto simp: free_stream_def mach streams_of_def)
  have sub: "set (events_of c4) \<subseteq> set (events_of c3)" "set (event_pool c3) \<subseteq> set (events_of c3)"
    using E2 by (auto simp: events_of_def)
  have ev1: "free_event m3 c3 c' e1" and ev2: "free_event m4 c4 c' e2" using E1 E2 by simp_all
  have ev1': "free_event m4 c4 c' e1"
    using ev1 sub(1) mach(5,6) by (auto simp: free_event_def pending_record_def)
  have ne: "e1 \<noteq> e2"
    using E2 ev1 sub(2) by (auto simp: free_event_def)
  have b4: "free_buffer m4 c4 c' b"
    using b S E1 E2 by (auto simp: free_buffer_def mach buffers_of_def)
  let ?t = "\<lparr> xfer_job = job, xfer_stream = st, start_event = e1, end_event = e2, num_bytes = bytes,
      batch = b, staging = (if stage_transfers (plan_handler c) \<and> ds \<noteq> [] then Some (staging_base env) else None),
      host_destinations = dests \<rparr>"
  have host4: "host_copy_ok m4 ?t"
  proof (cases dests)
    case (Some dd)
    with stage have "stage_transfers (plan_handler c) \<and> ds \<noteq> []" "dd = map copy_dst ds"
      by (auto simp: stage_plan_def Let_def split: if_splits)
    with host [OF this] Some show ?thesis by (simp add: host_copy_ok_def mach)
  qed (simp add: host_copy_ok_def)
  obtain cs where enq: "enqueue env c4 st e1 e2 ds' m4 =
      (case fst (submit_copies env (swap_blocks c4) (\<not> gpu_to_cpu (plan_handler c4)) st ds'
               (enqueued st (first_waits m4 c4 @ [RecordEvent e1 (Suc (recorded m4 e1))]) (record_once e1 m4))) of
         Some i \<Rightarrow> (Some i, enqueued st (commands_of m4 c4 e1 cs) (record_once e1 m4))
       | None \<Rightarrow> (None, enqueued st (commands_of m4 c4 e1 cs @ [RecordEvent e2 (Suc (recorded m4 e2))]) (record_twice e1 e2 m4)))"
    using enqueue_commands [OF ne, of env c4 st ds' m4] by blast
  show ?thesis
  proof (cases "fst (submit_copies env (swap_blocks c4) (\<not> gpu_to_cpu (plan_handler c4)) st ds'
               (enqueued st (first_waits m4 c4 @ [RecordEvent e1 (Suc (recorded m4 e1))]) (record_once e1 m4)))")
    case (Some i)
    with enq have "enqueue env c4 st e1 e2 ds' m4 = (Some i, enqueued st (commands_of m4 c4 e1 cs) (record_once e1 m4))" by simp
    with run have "r = Copy_failed i" "m' = enqueued st (commands_of m4 c4 e1 cs) (record_once e1 m4)" "d = c4"
      by (auto simp: launch_def stage s e1 e2 Let_def)
    with failed_launch_ok [OF ok4 st4 ev1'] same show ?thesis by simp
  next
    case None
    let ?m = "enqueued st (commands_of m4 c4 e1 cs @ [RecordEvent e2 (Suc (recorded m4 e2))]) (record_twice e1 e2 m4)"
    from None enq have "enqueue env c4 st e1 e2 ds' m4 = (None, ?m)" by simp
    with run have eq: "r = Submitted" "m' = ?m"
      "d = c4\<lparr>transfer_events := dput job e2 (transfer_events c4), transfers := transfers c4 @ [?t]\<rparr>"
      by (auto simp: launch_def stage s e1 e2 Let_def)
    have "pair_ok m' (c4\<lparr>transfer_events := dput (xfer_job ?t) (end_event ?t) (transfer_events c4), transfers := transfers c4 @ [?t]\<rparr>) c'"
      by (rule new_launch_ok [OF ok4]) (use st4 ev1' ev2 ne b4 job host4 same in \<open>simp_all add: eq\<close>)
    with same show ?thesis by (simp add: eq)
  qed
qed

lemma transfer_async_ok:
  assumes ok: "pair_ok m c c'" and job: "job \<notin> fst ` set (transfer_events c)"
    and run: "transfer_async env job gs cpu (m, c) = (r, m', d)"
  shows "pair_ok m' d c' \<and> plan_handler d = plan_handler c \<and> swap_blocks d = swap_blocks c
    \<and> (if r = Submitted then \<exists>t. transfers d = transfers c @ [t] \<and> xfer_job t = job
         \<and> (\<exists>ds. plan_transfer (plan_handler c) gs cpu = Some (ds, num_bytes t))
       else transfers d = transfers c)"
proof (cases "length (group_sizes gs) \<noteq> length (group_data_refs (plan_handler c))
    \<or> length (block_indices gs) \<noteq> length (group_data_refs (plan_handler c))")
  case True
  with run ok show ?thesis by (auto simp: transfer_async_def)
next
  case False
  let ?ops = "num_copy_ops (plan_handler c) gs"
  obtain b m1 c1 where tb: "take_buffer ?ops (m, c) = (b, m1, c1)" by (cases "take_buffer ?ops (m, c)")
  note B = take_buffer_ok [OF ok tb]
  show ?thesis
  proof (cases "plan_transfer (plan_handler c) gs cpu")
    case None
    with False run tb B show ?thesis by (auto simp: transfer_async_def Let_def)
  next
    case (Some p)
    obtain ds bytes where p: "p = (ds, bytes)" by (cases p)
    let ?m = "store_sizes b (map copy_size ds) m1"
    have ok2: "pair_ok ?m c1 c'" "free_buffer ?m c1 c' b"
      using B store_sizes_ok by blast+
    show ?thesis
    proof (cases "stage_transfers (plan_handler c) \<and> ds \<noteq> [] \<and> sum_list (map copy_size ds) \<noteq> bytes")
      case True
      with False run tb Some p B ok2 show ?thesis by (auto simp: transfer_async_def Let_def)
    next
      case fine: False
      with False run tb Some p B have l: "launch env job b ds bytes (?m, c1) = (r, m', d)"
        by (auto simp: transfer_async_def Let_def)
      have "pair_ok m' d c' \<and> plan_handler d = plan_handler c1 \<and> swap_blocks d = swap_blocks c1
        \<and> (if r = Submitted then \<exists>t. transfers d = transfers c1 @ [t] \<and> xfer_job t = job \<and> num_bytes t = bytes
           else transfers d = transfers c1)"
        by (rule launch_ok [OF ok2 _ _ l]) (use B job fine in \<open>auto simp: store_sizes_def\<close>)
      with B Some p show ?thesis by (auto split: if_splits)
    qed
  qed
qed

end
