(* ===== verification/CopyProps.thy ===== *)
theory CopyProps
  imports CopySubmit
begin

text \<open>
  The runs of the worker and what holds in all of them: resources are exclusive, transfers of
  one direction run in the order of submission, finished transfers are reported exactly, and a
  wait ends.
\<close>

section \<open>Runs\<close>

definition fresh_machine :: "machine \<Rightarrow> bool" where
  "fresh_machine m \<longleftrightarrow> queue m = (\<lambda>st. []) \<and> reached m = recorded m \<and> compute_done m \<le> compute_issued m"

text \<open>
  A step is a command of a stream, a kernel that is issued or ends (and may write anything), a
  write of the host, a submission with a new job id, whatever its outcome, or a poll.
\<close>

inductive copy_step :: "worker \<Rightarrow> worker \<Rightarrow> bool" where
  device: "run_head st (machine_of w) = Some m \<Longrightarrow> copy_step w (w\<lparr>machine_of := m\<rparr>)"
| kernel_issued: "m = machine_of w \<Longrightarrow>
    copy_step w (w\<lparr>machine_of := m\<lparr>compute_issued := compute_issued m + 1\<rparr>\<rparr>)"
| kernel_done: "m = machine_of w \<Longrightarrow> compute_done m < compute_issued m \<Longrightarrow>
    copy_step w (w\<lparr>machine_of := m\<lparr>compute_done := compute_done m + 1, mem := M\<rparr>\<rparr>)"
| host_write: "m = machine_of w \<Longrightarrow> copy_step w (w\<lparr>machine_of := m\<lparr>mem := M\<rparr>\<rparr>)"
| store: "j \<notin> fst ` set (transfer_events (store_handler w)) \<Longrightarrow> submit_store_transfer env j gs cpu w = (r, w') \<Longrightarrow>
    copy_step w w'"
| load: "j \<notin> fst ` set (transfer_events (load_handler w)) \<Longrightarrow> submit_load_transfer env j gs cpu w = (r, w') \<Longrightarrow>
    copy_step w w'"
| poll: "worker_get_finished w = Some (rs, w') \<Longrightarrow> copy_step w w'"

inductive worker_reachable :: "worker \<Rightarrow> bool" where
  start: "fresh_machine m \<Longrightarrow> new_worker pf tensors refs bpc region views m = Some w \<Longrightarrow> worker_reachable w"
| step: "worker_reachable w \<Longrightarrow> copy_step w w' \<Longrightarrow> worker_reachable w'"

inductive_cases copy_stepE: "copy_step w w'"

definition worker_ok :: "worker \<Rightarrow> bool" where
  "worker_ok w \<longleftrightarrow> pair_ok (machine_of w) (store_handler w) (load_handler w)"

lemma new_worker_ok:
  assumes "fresh_machine m" "new_worker pf tensors refs bpc region views m = Some w"
  shows "worker_ok w"
proof -
  have empty: "copier_ok m c" if "new_copier pf gpu cpu bpc refs to_cpu stage = Some c" for gpu cpu refs to_cpu stage c
    using that assms(1)
    by (auto simp: new_copier_def copier_ok_def fresh_machine_def streams_of_def events_of_def buffers_of_def
        pending_record_def split: bind_splits)
  have pools: "streams_of c = []" "events_of c = []" "buffers_of c = []"
    if "new_copier pf gpu cpu bpc refs to_cpu stage = Some c" for gpu cpu refs to_cpu stage c
    using that by (auto simp: new_copier_def streams_of_def events_of_def buffers_of_def split: bind_splits)
  have "machine_ok m"
    using assms(1) by (auto simp: machine_ok_def fresh_machine_def pending_record_def)
  with assms(2) show ?thesis
    by (auto simp: new_worker_def worker_ok_def pair_ok_def separate_def pools Let_def split: bind_splits
        intro: empty)
qed

lemma worker_get_finished_ok:
  assumes "worker_ok w"
  shows "\<exists>w'. worker_get_finished w = Some
      (map (\<lambda>t. (xfer_job t, num_bytes t)) (takeWhile (\<lambda>t. event_done (machine_of w) (end_event t)) (transfers (store_handler w)))
       @ map (\<lambda>t. (xfer_job t, num_bytes t)) (takeWhile (\<lambda>t. event_done (machine_of w) (end_event t)) (transfers (load_handler w))), w')
    \<and> worker_ok w'
    \<and> transfers (store_handler w') = dropWhile (\<lambda>t. event_done (machine_of w) (end_event t)) (transfers (store_handler w))
    \<and> transfers (load_handler w') = dropWhile (\<lambda>t. event_done (machine_of w) (end_event t)) (transfers (load_handler w))"
proof -
  let ?m = "machine_of w"
  from assms have ok: "pair_ok ?m (store_handler w) (load_handler w)" by (simp add: worker_ok_def)
  obtain M s where s: "get_finished (?m, store_handler w) =
      Some (map (\<lambda>t. (xfer_job t, num_bytes t)) (takeWhile (\<lambda>t. event_done ?m (end_event t)) (transfers (store_handler w))), ?m\<lparr>mem := M\<rparr>, s)"
    "pair_ok (?m\<lparr>mem := M\<rparr>) s (load_handler w)"
    "transfers s = dropWhile (\<lambda>t. event_done ?m (end_event t)) (transfers (store_handler w))"
    using get_finished_ok [OF ok] by blast
  have "pair_ok (?m\<lparr>mem := M\<rparr>) (load_handler w) s" using s(2) by (simp add: pair_ok_commute)
  from get_finished_ok [OF this] obtain M' l where l: "get_finished (?m\<lparr>mem := M\<rparr>, load_handler w) =
      Some (map (\<lambda>t. (xfer_job t, num_bytes t)) (takeWhile (\<lambda>t. event_done ?m (end_event t)) (transfers (load_handler w))), ?m\<lparr>mem := M'\<rparr>, l)"
    "pair_ok (?m\<lparr>mem := M'\<rparr>) l s"
    "transfers l = dropWhile (\<lambda>t. event_done ?m (end_event t)) (transfers (load_handler w))"
    by (auto simp: event_done_def)
  have "pair_ok (?m\<lparr>mem := M'\<rparr>) s l" using l(2) by (simp add: pair_ok_commute)
  then show ?thesis
    by (intro exI [of _ "w\<lparr>machine_of := ?m\<lparr>mem := M'\<rparr>, store_handler := s, load_handler := l\<rparr>"])
      (simp add: worker_get_finished_def s l worker_ok_def)
qed

lemma copy_step_ok:
  assumes "copy_step w w'" "worker_ok w"
  shows "worker_ok w'"
  using assms
proof cases
  case (device st m)
  with assms(2) show ?thesis by (auto simp: worker_ok_def intro: run_head_pair_ok)
next
  case (kernel_issued m)
  let ?m = "(machine_of w)\<lparr>compute_issued := compute_issued (machine_of w) + 1\<rparr>"
  from assms(2) have ok: "pair_ok (machine_of w) (store_handler w) (load_handler w)" by (simp add: worker_ok_def)
  have "pair_ok ?m (store_handler w) (load_handler w)"
    by (rule same_queues_pair_ok [OF ok]) (use machine_okD(9) [OF pair_okD(1) [OF ok]] in simp_all)
  with kernel_issued show ?thesis by (simp add: worker_ok_def)
next
  case (kernel_done m M)
  let ?m = "(machine_of w)\<lparr>compute_done := compute_done (machine_of w) + 1, mem := M\<rparr>"
  from assms(2) have ok: "pair_ok (machine_of w) (store_handler w) (load_handler w)" by (simp add: worker_ok_def)
  have "pair_ok ?m (store_handler w) (load_handler w)"
    by (rule same_queues_pair_ok [OF ok]) (use kernel_done in simp_all)
  with kernel_done show ?thesis by (simp add: worker_ok_def)
next
  case (host_write m M)
  with assms(2) show ?thesis by (auto simp: worker_ok_def intro: mem_pair_ok)
next
  case (store j env gs cpu r)
  then obtain m c where t: "transfer_async env j gs cpu (machine_of w, store_handler w) = (r, m, c)"
    "w' = w\<lparr>machine_of := m, store_handler := c\<rparr>"
    by (auto simp: submit_store_transfer_def split: prod.splits)
  with transfer_async_ok [OF _ store(1) t(1), of "load_handler w"] assms(2) show ?thesis
    by (simp add: worker_ok_def)
next
  case (load j env gs cpu r)
  then obtain m c where t: "transfer_async env j gs cpu (machine_of w, load_handler w) = (r, m, c)"
    "w' = w\<lparr>machine_of := m, load_handler := c\<rparr>"
    by (auto simp: submit_load_transfer_def split: prod.splits)
  with transfer_async_ok [OF _ load(1) t(1), of "store_handler w"] assms(2) show ?thesis
    by (simp add: worker_ok_def pair_ok_commute)
next
  case (poll rs)
  with worker_get_finished_ok [OF assms(2)] show ?thesis by auto
qed

lemma worker_reachable_ok: "worker_reachable w \<Longrightarrow> worker_ok w"
  by (induction rule: worker_reachable.induct) (blast intro: new_worker_ok copy_step_ok)+

section \<open>Order\<close>

lemma chain_ok_nth:
  "chain_ok m prev ts \<Longrightarrow> i < length ts \<Longrightarrow>
     transfer_ok m (if i = 0 then prev else Some (end_event (ts ! (i - 1)))) (ts ! i)"
proof (induction ts arbitrary: prev i)
  case (Cons t ts)
  show ?case
  proof (cases i)
    case 0
    with Cons.prems show ?thesis by simp
  next
    case (Suc n)
    with Cons.prems Cons.IH [of "Some (end_event t)" n] show ?thesis by (cases n) simp_all
  qed
qed simp

text \<open>A transfer whose queue does not begin with its waits has its predecessor behind it.\<close>

lemma predecessor_done:
  assumes "chain_ok m None ts" "Suc i < length ts"
    and "queue m (xfer_stream (ts ! Suc i)) = [] \<or> (\<exists>d q. queue m (xfer_stream (ts ! Suc i)) = CopyCmd d # q)"
  shows "event_done m (end_event (ts ! i))"
  using chain_ok_nth [OF assms(1,2)] assms(3) by (auto simp: transfer_ok_def in_turn_def)

lemma earlier_done:
  assumes ok: "chain_ok m None ts" and j: "j < length ts"
    and q: "queue m (xfer_stream (ts ! j)) = [] \<or> (\<exists>d q. queue m (xfer_stream (ts ! j)) = CopyCmd d # q)"
    and i: "i < j"
  shows "event_done m (end_event (ts ! i)) \<and> queue m (xfer_stream (ts ! i)) = []"
  using j q i
proof (induction j)
  case (Suc j)
  have j: "j < length ts" using Suc.prems(1) by simp
  have "event_done m (end_event (ts ! j))"
    by (rule predecessor_done [OF ok Suc.prems(1,2)])
  moreover from this have empty: "queue m (xfer_stream (ts ! j)) = []"
    by (rule done_queue_empty [OF chain_ok_nth [OF ok j]])
  ultimately show ?case
    using Suc.IH [OF j] Suc.prems(3) by (cases "i = j") auto
qed simp

lemma empty_queue_done: "transfer_ok m prev t \<Longrightarrow> queue m (xfer_stream t) = [] \<Longrightarrow> event_done m (end_event t)"
  by (simp add: transfer_ok_def last_record_def event_done_def Let_def)

text \<open>The finished transfers are the first ones.\<close>

lemma takeWhile_done:
  assumes "chain_ok m None ts"
  shows "takeWhile (\<lambda>t. event_done m (end_event t)) ts = filter (\<lambda>t. event_done m (end_event t)) ts"
    and "dropWhile (\<lambda>t. event_done m (end_event t)) ts = filter (\<lambda>t. \<not> event_done m (end_event t)) ts"
proof -
  let ?P = "\<lambda>t. event_done m (end_event t)"
  have prefix: "?P (ts ! i)" if "i < j" "j < length ts" "?P (ts ! j)" for i j
    using earlier_done [OF assms that(2) _ that(1)] done_queue_empty [OF chain_ok_nth [OF assms that(2)] that(3)] by blast
  have "\<not> ?P t" if t: "t \<in> set (dropWhile ?P ts)" for t
  proof
    assume P: "?P t"
    let ?k = "length (takeWhile ?P ts)"
    obtain n where n: "n < length (dropWhile ?P ts)" "t = dropWhile ?P ts ! n" using t unfolding in_set_conv_nth by blast
    have drop_eq: "dropWhile ?P ts = drop ?k ts" by (rule dropWhile_eq_drop)
    from n have len: "?k + n < length ts" unfolding drop_eq by simp
    have "t = ts ! (?k + n)" using n(2) len unfolding drop_eq by simp
    with P have Pn: "?P (ts ! (?k + n))" by simp
    have "?P (ts ! ?k)"
      using Pn prefix [OF _ len Pn, of ?k] by (cases n) auto
    moreover have "?k < length ts" using len by simp
    ultimately show False using nth_length_takeWhile [of ?P ts] by blast
  qed
  then have tail: "\<forall>t \<in> set (dropWhile ?P ts). \<not> ?P t" by blast
  have front: "\<forall>t \<in> set (takeWhile ?P ts). ?P t" by (blast dest: set_takeWhileD)
  have none: "filter ?P (dropWhile ?P ts) = []" "filter (\<lambda>t. \<not> ?P t) (dropWhile ?P ts) = dropWhile ?P ts"
    by (rule filter_False [OF tail], rule filter_True [OF tail])
  have all: "filter ?P (takeWhile ?P ts) = takeWhile ?P ts" "filter (\<lambda>t. \<not> ?P t) (takeWhile ?P ts) = []"
    by (rule filter_True [OF front], rule filter_False) (use front in blast)
  have "filter ?P ts = filter ?P (takeWhile ?P ts @ dropWhile ?P ts)" by simp
  then show "takeWhile ?P ts = filter ?P ts" by (simp only: filter_append none all append_Nil2)
  have "filter (\<lambda>t. \<not> ?P t) ts = filter (\<lambda>t. \<not> ?P t) (takeWhile ?P ts @ dropWhile ?P ts)" by simp
  then show "dropWhile ?P ts = filter (\<lambda>t. \<not> ?P t) ts" by (simp only: filter_append none all append_Nil)
qed

section \<open>Progress\<close>

definition pending_commands :: "machine \<Rightarrow> nat" where
  "pending_commands m = sum_list (map (\<lambda>st. length (queue m st)) [0..<next_stream m])"

definition device_step :: "machine \<Rightarrow> machine \<Rightarrow> bool" where
  "device_step m m' \<longleftrightarrow> (\<exists>st. run_head st m = Some m')"

lemma sum_list_decrease:
  "x \<in> set xs \<Longrightarrow> (\<And>y. y \<in> set xs \<Longrightarrow> g y \<le> f y) \<Longrightarrow> g x < (f x :: nat) \<Longrightarrow> sum_list (map g xs) < sum_list (map f xs)"
proof (induction xs)
  case (Cons y ys)
  show ?case
  proof (cases "x \<in> set ys")
    case True
    with Cons have "sum_list (map g ys) < sum_list (map f ys)" by simp
    moreover have "g y \<le> f y" using Cons.prems(2) by simp
    ultimately show ?thesis by simp
  next
    case False
    with Cons.prems have "g y < f y" by simp
    moreover have "sum_list (map g ys) \<le> sum_list (map f ys)"
      using Cons.prems(2) by (intro sum_list_mono) simp
    ultimately show ?thesis by simp
  qed
qed simp

lemma run_head_decreases:
  assumes ok: "machine_ok m" and step: "run_head st m = Some m'"
  shows "pending_commands m' < pending_commands m"
proof -
  from step obtain x xs where q: "queue m st = x # xs" "queue m' = (queue m)(st := xs)" "next_stream m' = next_stream m"
    by (rule run_headE) blast
  have "st < next_stream m"
    using machine_okD(1) [OF ok, of st] q(1) by (cases "st < next_stream m") auto
  then show ?thesis
    unfolding pending_commands_def q(3) by (intro sum_list_decrease [of st]) (use q in auto)
qed

lemma device_steps_bound:
  assumes "machine_ok m" "(device_step ^^ k) m m'"
  shows "k + pending_commands m' \<le> pending_commands m \<and> machine_ok m'"
  using assms(2)
proof (induction k arbitrary: m')
  case (Suc k)
  then obtain m1 where "(device_step ^^ k) m m1" "device_step m1 m'" by auto
  with Suc.IH have IH: "k + pending_commands m1 \<le> pending_commands m" "machine_ok m1" by auto
  from \<open>device_step m1 m'\<close> obtain st where st: "run_head st m1 = Some m'" by (auto simp: device_step_def)
  have "pending_commands m' < pending_commands m1" by (rule run_head_decreases [OF IH(2) st])
  with IH run_head_machine_ok [OF IH(2) st] show ?case by simp
qed (use assms(1) in simp)

text \<open>When no stream can go on every transfer is done.\<close>

lemma stuck_done:
  assumes ok: "machine_ok m" "chain_ok m None ts" and stuck: "\<And>st. run_head st m = None"
    and compute: "compute_done m = compute_issued m"
  shows "i < length ts \<Longrightarrow> event_done m (end_event (ts ! i))"
proof (induction i)
  case i: 0
  let ?t = "ts ! 0"
  have t: "transfer_ok m None ?t" using chain_ok_nth [OF ok(2) i] by simp
  show ?case
  proof (cases "queue m (xfer_stream ?t)")
    case (Cons x q)
    have "x \<noteq> WaitCompute n" for n
      using stuck [of "xfer_stream ?t"] machine_okD(8) [OF ok(1), of n "xfer_stream ?t"] compute
      by (auto simp: run_head_def Cons Let_def split: if_splits)
    then show ?thesis
      using stuck [of "xfer_stream ?t"] t
      by (cases x) (auto simp: run_head_def Cons Let_def transfer_ok_def waits_ok_def split: if_splits)
  qed (rule empty_queue_done [OF t])
next
  case (Suc i)
  let ?t = "ts ! Suc i"
  have prev: "event_done m (end_event (ts ! i))" using Suc by simp
  have t: "transfer_ok m (Some (end_event (ts ! i))) ?t" using chain_ok_nth [OF ok(2) Suc.prems] by simp
  show ?case
  proof (cases "queue m (xfer_stream ?t)")
    case (Cons x q)
    have "x \<noteq> WaitCompute n" for n
      using stuck [of "xfer_stream ?t"] machine_okD(8) [OF ok(1), of n "xfer_stream ?t"] compute
      by (auto simp: run_head_def Cons Let_def split: if_splits)
    then show ?thesis
      using stuck [of "xfer_stream ?t"] t prev
      by (cases x) (auto simp: run_head_def Cons Let_def transfer_ok_def waits_ok_def event_done_def split: if_splits)
  qed (rule empty_queue_done [OF t])
qed

lemma device_steps_keep:
  assumes "device_step\<^sup>*\<^sup>* m m'" "pair_ok m c c'"
  shows "pair_ok m' c c' \<and> compute_done m' = compute_done m \<and> compute_issued m' = compute_issued m"
  using assms
proof (induction rule: rtranclp_induct)
  case (step m1 m2)
  then obtain st where st: "run_head st m1 = Some m2" by (auto simp: device_step_def)
  from st have "compute_done m2 = compute_done m1" "compute_issued m2 = compute_issued m1"
    by (rule run_headE; blast)+
  with step run_head_pair_ok [OF _ st] show ?case by auto
qed simp

lemma all_events_done:
  assumes "copier_ok m c" "\<forall>t \<in> set (transfers c). event_done m (end_event t)"
  shows "wait_returns js (m, c)"
proof -
  have "event_done m e" if "map_of (transfer_events c) j = Some e" for j e
    using that assms copier_okD(10) [OF assms(1)] by (auto dest!: map_of_SomeD)
  then show ?thesis by (auto simp: wait_returns_def list_all_iff split: option.splits)
qed

section \<open>A small worker\<close>

text \<open>
  One tensor with pages of four bytes, two GPU blocks per chunk, staged transfers.  Two stores
  are submitted and the device runs until the second one is about to copy.
\<close>

definition demo_platform :: platform where
  "demo_platform = \<lparr> rocm = True, xpu = False, has_triton = True, threshold = 28672, pow2 = id \<rparr>"

definition demo_machine :: machine where
  "demo_machine = \<lparr> queue = (\<lambda>st. []), recorded = (\<lambda>e. 0), reached = (\<lambda>e. 0), compute_issued = 0, compute_done = 0,
     mem = (\<lambda>a. 0), batch_sizes = (\<lambda>b. []), next_stream = 0, next_event = 0, next_buffer = 0 \<rparr>"

definition demo_handler :: "bool \<Rightarrow> handler" where
  "demo_handler to_cpu =
     (let g = \<lparr> data_ptr = 1000, row_stride = 4, row_bytes = 4 \<rparr>; c = \<lparr> data_ptr = 5000, row_stride = 8, row_bytes = 8 \<rparr>
      in \<lparr> gpu_to_cpu = to_cpu, src_tensors = (if to_cpu then [g] else [c]), dst_tensors = (if to_cpu then [c] else [g]),
           src_blocks_per_chunk = (if to_cpu then 1 else 2), dst_blocks_per_chunk = (if to_cpu then 2 else 1),
           group_data_refs = [[\<lparr> tensor_idx = 0, page_size_bytes = 4 \<rparr>]], stage_transfers = True \<rparr>)"

definition demo_copier :: "bool \<Rightarrow> copier" where
  "demo_copier to_cpu = \<lparr> plan_handler = demo_handler to_cpu, swap_blocks = StreamOrdered,
     transfer_events = [], transfers = [], stream_pool = [], event_pool = [], buffer_pool = [] \<rparr>"

definition demo_worker :: worker where
  "demo_worker = \<lparr> machine_of = demo_machine, store_handler = demo_copier True, load_handler = demo_copier False \<rparr>"

definition copy_demo_env :: "addr \<Rightarrow> copy_env" where
  "copy_demo_env base = \<lparr> staging_base = base, memcpy_fails = (\<lambda>i. False), batch_copies = (\<lambda>f a ds. ds) \<rparr>"

definition demo_gpu :: gpu_spec where
  "demo_gpu = \<lparr> gpu_block_ids = [3, 7], group_sizes = [2], block_indices = [0] \<rparr>"

fun device_schedule :: "nat list \<Rightarrow> worker \<Rightarrow> worker option" where
  "device_schedule [] w = Some w"
| "device_schedule (st # sts) w =
     (case run_head st (machine_of w) of None \<Rightarrow> None | Some m \<Rightarrow> device_schedule sts (w\<lparr>machine_of := m\<rparr>))"

lemma device_schedule_reachable:
  "worker_reachable w \<Longrightarrow> device_schedule sts w = Some w' \<Longrightarrow> worker_reachable w'"
  by (induction sts arbitrary: w) (auto split: option.splits intro: worker_reachable.step copy_step.device)

lemma demo_worker_eval:
  "new_worker demo_platform [\<lparr> kv_ptr = 1000, kv_page_size = 4 \<rparr>] [[\<lparr> tensor_idx = 0, page_size_bytes = 4 \<rparr>]] 2 True
     (\<lambda>i. (5000, 8)) demo_machine = Some demo_worker"
  by (simp add: demo_worker_def demo_copier_def demo_handler_def new_worker_def new_copier_def new_handler_def
      demo_platform_def select_swap_blocks_fn_def Let_def)

lemma demo_worker_reachable: "worker_reachable demo_worker"
  by (rule worker_reachable.start [OF _ demo_worker_eval]) (simp add: fresh_machine_def demo_machine_def)

lemma demo_plan:
  "plan_transfer (demo_handler True) demo_gpu [c] =
     Some ([\<lparr> copy_src = 1012, copy_dst = 5000 + of_nat c * 8, copy_size = 4 \<rparr>,
            \<lparr> copy_src = 1028, copy_dst = 5004 + of_nat c * 8, copy_size = 4 \<rparr>], 8)"
  by (simp add: plan_transfer_def demo_handler_def demo_gpu_def cdiv_def ref_descs_def nth_opt_def Let_def
      compute_sub_block_ptrs_def row_ptr_def slice_assign_def upt_rec [of 0 2] upt_rec [of "Suc 0" 2])

lemma demo_handler_simps [simp]:
  "stage_transfers (demo_handler b)" "gpu_to_cpu (demo_handler b) = b"
  "group_data_refs (demo_handler b) = [[\<lparr> tensor_idx = 0, page_size_bytes = 4 \<rparr>]]"
  by (simp_all add: demo_handler_def Let_def)

lemma demo_gpu_simps [simp]: "group_sizes demo_gpu = [2]" "block_indices demo_gpu = [0]"
  by (simp_all add: demo_gpu_def)

lemmas submit_simps = transfer_async_def take_buffer_def new_buffer_def num_copy_ops_def store_sizes_def
  launch_def stage_plan_def staging_ptrs_def take_stream_def take_event_def enqueue_def
  wait_compute_def wait_event_def push_def record_event_def submit_copies_def Let_def

definition demo_first :: worker where
  "demo_first = snd (submit_store_transfer (copy_demo_env 9000) 0 demo_gpu [4] demo_worker)"

definition demo_submitted :: worker where
  "demo_submitted = snd (submit_store_transfer (copy_demo_env 9100) 1 demo_gpu [5] demo_first)"

lemma demo_submitted_reachable: "worker_reachable demo_submitted"
proof -
  have first: "0 \<notin> fst ` set (transfer_events (store_handler demo_worker))"
    by (simp add: demo_worker_def demo_copier_def)
  have second: "1 \<notin> fst ` set (transfer_events (store_handler demo_first))"
    by (simp add: demo_first_def submit_store_transfer_def demo_worker_def demo_copier_def demo_machine_def copy_demo_env_def
        demo_plan submit_simps)
  have "worker_reachable demo_first"
    by (rule worker_reachable.step [OF demo_worker_reachable copy_step.store [OF first]])
      (simp add: demo_first_def prod_eq_iff)
  then show ?thesis
    by (rule worker_reachable.step, intro copy_step.store [OF second]) (simp add: demo_submitted_def prod_eq_iff)
qed

text \<open>The first transfer has run, the second one is about to copy.\<close>

definition demo_second :: worker where
  "demo_second = the (device_schedule [0, 0, 0, 0, 0, 1, 1, 1] demo_submitted)"

lemmas demo_simps = demo_second_def demo_submitted_def demo_first_def submit_store_transfer_def demo_worker_def
  demo_copier_def demo_machine_def copy_demo_env_def demo_plan submit_simps run_head_def

lemma demo_second_reachable: "worker_reachable demo_second"
  by (rule device_schedule_reachable [OF demo_submitted_reachable, of "[0, 0, 0, 0, 0, 1, 1, 1]"])
    (simp add: demo_simps)

lemma demo_second_state:
  "length (transfers (store_handler demo_second)) = 2"
  "queue (machine_of demo_second) (xfer_stream (transfers (store_handler demo_second) ! 1))
     = [CopyCmd \<lparr> copy_src = 1012, copy_dst = 9100, copy_size = 4 \<rparr>,
        CopyCmd \<lparr> copy_src = 1028, copy_dst = 9104, copy_size = 4 \<rparr>, RecordEvent 3 1]"
  "compute_done (machine_of demo_second) = compute_issued (machine_of demo_second)"
  by (simp_all add: demo_simps)

section \<open>Properties\<close>

text \<open>C21: No stream, event or buffer of the worker is used twice: not by two transfers, not by the
  two directions and not while it lies in a pool; the streams of the pools are idle, and the
  table of events lists exactly the transfers in flight, each job once.\<close>

theorem copy_resources_exclusive:
  assumes "worker_reachable w"
  shows "distinct (streams_of (store_handler w) @ streams_of (load_handler w))
    \<and> distinct (events_of (store_handler w) @ events_of (load_handler w))
    \<and> distinct (buffers_of (store_handler w) @ buffers_of (load_handler w))
    \<and> (\<forall>c \<in> {store_handler w, load_handler w}.
        (\<forall>st \<in> set (stream_pool c). queue (machine_of w) st = [])
        \<and> transfer_events c = map (\<lambda>t. (xfer_job t, end_event t)) (transfers c) \<and> distinct (map xfer_job (transfers c)))"
proof -
  have ok: "pair_ok (machine_of w) (store_handler w) (load_handler w)"
    using worker_reachable_ok [OF assms] by (simp add: worker_ok_def)
  show ?thesis
    using copier_okD(1-3,7,10,11) [OF pair_okD(2) [OF ok]] copier_okD(1-3,7,10,11) [OF pair_okD(3) [OF ok]]
      pair_okD(4) [OF ok]
    by (auto simp: separate_def)
qed

theorem copy_resources_exclusive_witness:
  "distinct (streams_of (store_handler demo_second) @ streams_of (load_handler demo_second))"
  using copy_resources_exclusive [OF demo_second_reachable] by blast

text \<open>C18: The transfers of one direction run in the order of their submission: when the device
  is about to copy for one of them, every earlier one has run all its commands and its last
  event is done.\<close>

theorem copies_in_order:
  assumes "worker_reachable w" "c \<in> {store_handler w, load_handler w}" "i < j" "j < length (transfers c)"
    and "queue (machine_of w) (xfer_stream (transfers c ! j)) = CopyCmd d # q"
  shows "event_done (machine_of w) (end_event (transfers c ! i)) \<and> queue (machine_of w) (xfer_stream (transfers c ! i)) = []"
proof -
  have "pair_ok (machine_of w) (store_handler w) (load_handler w)"
    using worker_reachable_ok [OF assms(1)] by (simp add: worker_ok_def)
  with assms(2) have "chain_ok (machine_of w) None (transfers c)"
    by (auto dest: pair_okD copier_okD(9))
  from earlier_done [OF this assms(4) _ assms(3)] assms(5) show ?thesis by blast
qed

theorem copies_in_order_witness:
  "event_done (machine_of demo_second) (end_event (transfers (store_handler demo_second) ! 0))"
  using copies_in_order [OF demo_second_reachable, of "store_handler demo_second" 0 1] demo_second_state by simp

text \<open>C19: A poll never fails: it reports exactly the transfers whose last event is done, in the
  order of submission and with their byte counts, stores before loads, and keeps exactly the
  others.\<close>

theorem finished_reported_exactly:
  assumes "worker_reachable w"
  shows "\<exists>w'. worker_get_finished w = Some
      (map (\<lambda>t. (xfer_job t, num_bytes t)) (filter (\<lambda>t. event_done (machine_of w) (end_event t)) (transfers (store_handler w)))
       @ map (\<lambda>t. (xfer_job t, num_bytes t)) (filter (\<lambda>t. event_done (machine_of w) (end_event t)) (transfers (load_handler w))), w')
    \<and> transfers (store_handler w') = filter (\<lambda>t. \<not> event_done (machine_of w) (end_event t)) (transfers (store_handler w))
    \<and> transfers (load_handler w') = filter (\<lambda>t. \<not> event_done (machine_of w) (end_event t)) (transfers (load_handler w))"
proof -
  have ok: "worker_ok w" by (rule worker_reachable_ok [OF assms])
  then have "chain_ok (machine_of w) None (transfers (store_handler w))" "chain_ok (machine_of w) None (transfers (load_handler w))"
    by (auto simp: worker_ok_def dest: pair_okD copier_okD(9))
  note front = takeWhile_done [OF this(1)] takeWhile_done [OF this(2)]
  show ?thesis using worker_get_finished_ok [OF ok] unfolding front by blast
qed

theorem finished_reported_exactly_witness:
  "\<exists>w'. worker_get_finished demo_second = Some ([(0, 8)], w')"
proof -
  have eval: "map (\<lambda>t. (xfer_job t, num_bytes t)) (filter (\<lambda>t. event_done (machine_of demo_second) (end_event t)) (transfers (store_handler demo_second)))
      = [(0, 8)]" "transfers (load_handler demo_second) = []"
    by (simp_all add: demo_simps event_done_def)
  show ?thesis
    using finished_reported_exactly [OF demo_second_reachable] unfolding eval by auto
qed

text \<open>C20: Waiting ends.  Once the kernels issued so far have run, the device can only take
  finitely many steps, and when it cannot go on every wait returns, for any set of jobs, and a
  poll reports every transfer.\<close>

theorem copies_terminate:
  assumes "worker_reachable w" "compute_done (machine_of w) = compute_issued (machine_of w)"
  shows "(\<forall>k m. (device_step ^^ k) (machine_of w) m \<longrightarrow> k \<le> pending_commands (machine_of w))
    \<and> (\<forall>m. device_step\<^sup>*\<^sup>* (machine_of w) m \<longrightarrow> (\<forall>st. run_head st m = None) \<longrightarrow>
        (\<forall>js. worker_wait_returns js (w\<lparr>machine_of := m\<rparr>))
        \<and> (\<exists>w'. worker_get_finished (w\<lparr>machine_of := m\<rparr>) = Some
             (map (\<lambda>t. (xfer_job t, num_bytes t)) (transfers (store_handler w) @ transfers (load_handler w)), w')))"
proof (intro conjI allI impI)
  have ok: "pair_ok (machine_of w) (store_handler w) (load_handler w)"
    using worker_reachable_ok [OF assms(1)] by (simp add: worker_ok_def)
  show "k \<le> pending_commands (machine_of w)" if "(device_step ^^ k) (machine_of w) m" for k m
    using device_steps_bound [OF pair_okD(1) [OF ok] that] by simp
  fix m assume steps: "device_step\<^sup>*\<^sup>* (machine_of w) m" and stuck: "\<forall>st. run_head st m = None"
  note kept = device_steps_keep [OF steps ok]
  have fin: "\<forall>t \<in> set (transfers c). event_done m (end_event t)" if "copier_ok m c" for c
    using stuck_done [OF _ copier_okD(9) [OF that], of] kept pair_okD(1) stuck assms(2)
    by (auto simp: in_set_conv_nth)
  have s: "copier_ok m (store_handler w)" and l: "copier_ok m (load_handler w)"
    using kept by (auto dest: pair_okD)
  show "worker_wait_returns js (w\<lparr>machine_of := m\<rparr>)" for js
    using all_events_done [OF s fin [OF s]] all_events_done [OF l fin [OF l]] by (simp add: worker_wait_returns_def)
  have "worker_ok (w\<lparr>machine_of := m\<rparr>)" using kept by (simp add: worker_ok_def)
  from worker_get_finished_ok [OF this] fin [OF s] fin [OF l]
  show "\<exists>w'. worker_get_finished (w\<lparr>machine_of := m\<rparr>) = Some
             (map (\<lambda>t. (xfer_job t, num_bytes t)) (transfers (store_handler w) @ transfers (load_handler w)), w')"
    by (auto simp: takeWhile_eq_all_conv [THEN iffD2])
qed

theorem copies_terminate_witness:
  "\<nexists>m. (device_step ^^ 4) (machine_of demo_second) m"
proof -
  have "pending_commands (machine_of demo_second) = 3"
    by (simp add: demo_simps pending_commands_def)
  with copies_terminate [OF demo_second_reachable demo_second_state(3), THEN conjunct1] show ?thesis
    by fastforce
qed

end
