(* ===== verification/ToolUtils.thy ===== *)
theory ToolUtils
  imports PyText
begin

text \<open>
  The helpers of the tool parsers, from \<open>src/patches/tool-parser-utils.dsml-orphan.py\<close>: string
  utilities, the declared tools and their JSON schemas, the types of a schema, the coercion of a
  raw value, and the closing of partial Python.  JSON values are a datatype; reading numbers and
  JSON texts, character classes and Python's own parser are functions of the record \<open>pystd\<close>.
\<close>

section \<open>JSON values and the standard library\<close>

datatype pyfloat = Finite real | NonFinite

datatype jval = JNull | JBool bool | JInt int | JFloat pyfloat | JStr pystr
  | JList "jval list" | JDict "(pystr \<times> jval) list"

record pystd =
  py_int :: "pystr \<Rightarrow> int option"
  py_float :: "pystr \<Rightarrow> pyfloat option"
  py_loads :: "pystr \<Rightarrow> jval option"
  py_dumps :: "jval \<Rightarrow> pystr"
  py_lower :: "pystr \<Rightarrow> pystr"
  py_alnum :: "nat \<Rightarrow> bool"
  py_re_space :: "nat \<Rightarrow> bool"
  py_ast_ok :: "pystr \<Rightarrow> bool"

definition jget :: "pystr \<Rightarrow> jval \<Rightarrow> jval option" where
  "jget k v = (case v of JDict d \<Rightarrow> map_of d k | _ \<Rightarrow> None)"

section \<open>Strings\<close>

fun overlap_from :: "pystr \<Rightarrow> pystr \<Rightarrow> nat \<Rightarrow> nat" where
  "overlap_from text tag 0 = 0"
| "overlap_from text tag (Suc k) = (if suffix (take (Suc k) tag) text then Suc k else overlap_from text tag k)"

definition partial_tag_overlap :: "pystr \<Rightarrow> pystr \<Rightarrow> nat" where
  "partial_tag_overlap text tag = overlap_from text tag (min (length tag - 1) (length text))"

fun find_common_prefix :: "pystr \<Rightarrow> pystr \<Rightarrow> pystr" where
  "find_common_prefix (a # s) (b # t) = (if a = b then a # find_common_prefix s t else [])"
| "find_common_prefix s t = []"

fun common_from_end :: "(nat \<Rightarrow> bool) \<Rightarrow> pystr \<Rightarrow> pystr \<Rightarrow> pystr \<Rightarrow> pystr" where
  "common_from_end alnum (a # s) (b # t) acc =
     (if a = b \<and> \<not> alnum a then common_from_end alnum s t (a # acc) else acc)"
| "common_from_end alnum s t acc = acc"

definition find_common_suffix :: "pystd \<Rightarrow> pystr \<Rightarrow> pystr \<Rightarrow> pystr" where
  "find_common_suffix std s t = common_from_end (py_alnum std) (rev s) (rev t) []"

text \<open>\<open>str.replace(pat, '', 1)\<close>.\<close>

fun remove_first :: "pystr \<Rightarrow> pystr \<Rightarrow> pystr" where
  "remove_first pat [] = []"
| "remove_first pat (c # s) =
     (if prefix pat (c # s) then drop (length pat) (c # s) else c # remove_first pat s)"

definition extract_intermediate_diff :: "pystd \<Rightarrow> pystr \<Rightarrow> pystr \<Rightarrow> pystr" where
  "extract_intermediate_diff std cur old =
     (let suf = find_common_suffix std cur old;
          old' = rev (remove_first (rev suf) (rev old));
          pre = find_common_prefix cur old';
          diff = (if suf \<noteq> [] then rev (remove_first (rev suf) (rev cur)) else cur)
      in if pre \<noteq> [] then remove_first pre diff else diff)"

fun consume_space :: "nat \<Rightarrow> pystr \<Rightarrow> nat" where
  "consume_space i s = i + length (takeWhile uis_space (drop i s))"

section \<open>Declared tools\<close>

text \<open>A tool of the responses interface, a namespace of such tools, or one of the chat interface.\<close>

record tool_info =
  info_name :: pystr
  info_params :: "(pystr \<times> jval) list option"

datatype tool = FunctionTool tool_info | ChatTool tool_info
  | NamespaceTool pystr "(bool \<times> tool_info) list" | OtherTool

definition flat_namespace_tool_name :: "pystr \<Rightarrow> pystr \<Rightarrow> pystr" where
  "flat_namespace_tool_name namespace n = namespace @ lit ''__'' @ n"

fun iter_response_function_tool_info :: "tool \<Rightarrow> (pystr \<times> (pystr \<times> jval) list option) list" where
  "iter_response_function_tool_info (FunctionTool t) = [(info_name t, info_params t)]"
| "iter_response_function_tool_info (NamespaceTool ns ts) =
     map (\<lambda>(f, t). (flat_namespace_tool_name ns (info_name t), info_params t)) (filter fst ts)"
| "iter_response_function_tool_info t = []"

text \<open>The names and parameters that the searches below look at, tool by tool.\<close>

fun tool_entries :: "tool \<Rightarrow> (pystr \<times> (pystr \<times> jval) list option) list" where
  "tool_entries (ChatTool t) = [(info_name t, info_params t)]"
| "tool_entries t = iter_response_function_tool_info t"

definition properties_of :: "(pystr \<times> jval) list option \<Rightarrow> jval" where
  "properties_of params =
     (case map_of (case params of None \<Rightarrow> [] | Some d \<Rightarrow> d) (lit ''properties'') of None \<Rightarrow> JDict [] | Some v \<Rightarrow> v)"

fun find_tool_properties :: "tool list \<Rightarrow> pystr \<Rightarrow> jval" where
  "find_tool_properties [] n = JDict []"
| "find_tool_properties (t # ts) n =
     (case map_of (tool_entries t) n of Some params \<Rightarrow> properties_of params | None \<Rightarrow> find_tool_properties ts n)"

fun collect_tool_names :: "tool list \<Rightarrow> pystr set" where
  "collect_tool_names [] = {}"
| "collect_tool_names (t # ts) = fst ` set (tool_entries t) \<union> collect_tool_names ts"

fun find_tool_name :: "tool list \<Rightarrow> pystr \<Rightarrow> bool" where
  "find_tool_name [] n = False"
| "find_tool_name (t # ts) n = (n \<in> fst ` set (tool_entries t) \<or> find_tool_name ts n)"

text \<open>The three searches agree.\<close>

lemma find_tool_name_collect: "find_tool_name ts n \<longleftrightarrow> n \<in> collect_tool_names ts"
  by (induction ts) auto

lemma find_tool_properties_absent: "\<not> find_tool_name ts n \<Longrightarrow> find_tool_properties ts n = JDict []"
  by (induction ts) (auto simp: map_of_eq_None_iff split: option.splits dest: map_of_SomeD intro: image_eqI [rotated])

record tool_call_name =
  tcn_name :: pystr
  tcn_namespace :: "pystr option"

fun build_responses_tool_call_name_map :: "tool list \<Rightarrow> (pystr, tool_call_name) dict \<Rightarrow> (pystr, tool_call_name) dict" where
  "build_responses_tool_call_name_map [] m = m"
| "build_responses_tool_call_name_map (NamespaceTool ns ts # tools) m =
     build_responses_tool_call_name_map tools
       (fold (\<lambda>(f, t) m. if f then dput (flat_namespace_tool_name ns (info_name t))
            \<lparr> tcn_name = info_name t, tcn_namespace = Some ns \<rparr> m else m) ts m)"
| "build_responses_tool_call_name_map (t # tools) m = build_responses_tool_call_name_map tools m"

definition resolve_responses_tool_call_name ::
  "pystr \<Rightarrow> tool list \<Rightarrow> (pystr, tool_call_name) dict option \<Rightarrow> tool_call_name" where
  "resolve_responses_tool_call_name n tools given =
     dget (case given of None \<Rightarrow> build_responses_tool_call_name_map tools [] | Some m \<Rightarrow> m) n
       \<lparr> tcn_name = n, tcn_namespace = None \<rparr>"

section \<open>Schemas for a tool choice\<close>

datatype 'a schema_result = Schema_error | Schema 'a

definition named_schema :: "pystr \<Rightarrow> (pystr \<times> jval) list \<Rightarrow> jval" where
  "named_schema n p =
     JDict [(lit ''properties'',
             JDict [(lit ''name'', JDict [(lit ''type'', JStr (lit ''string'')), (lit ''enum'', JList [JStr n])]),
                    (lit ''parameters'', JDict p)]),
            (lit ''required'', JList [JStr (lit ''name''), JStr (lit ''parameters'')])]"

definition schema_from_name_and_params :: "pystr \<Rightarrow> (pystr \<times> jval) list option \<Rightarrow> jval" where
  "schema_from_name_and_params n params =
     (let p = (case params of None \<Rightarrow> [] | Some d \<Rightarrow> d)
      in named_schema n
           (if p = [] then [(lit ''type'', JStr (lit ''object'')), (lit ''properties'', JDict [])] else p))"

text \<open>Merging the definitions of the tools; a definition with two schemas is an error.\<close>

fun merge_defs :: "(pystr \<times> jval) list \<Rightarrow> (pystr, jval) dict \<Rightarrow> (pystr, jval) dict option" where
  "merge_defs [] all = Some all"
| "merge_defs ((n, d) # ds) all =
     (if map_of all n \<noteq> None \<and> map_of all n \<noteq> Some d then None else merge_defs ds (dput n d all))"

fun tool_schema_defs :: "(pystr \<times> jval) list option list \<Rightarrow> (pystr, jval) dict \<Rightarrow> (pystr, jval) dict option" where
  "tool_schema_defs [] all = Some all"
| "tool_schema_defs (None # ps) all = tool_schema_defs ps all"
| "tool_schema_defs (Some params # ps) all =
     (case map_of params (lit ''$defs'') of
        None \<Rightarrow> tool_schema_defs ps all
      | Some (JDict defs) \<Rightarrow> Option.bind (merge_defs defs all) (tool_schema_defs ps)
      | Some _ \<Rightarrow> None)"

lemma merge_defs_keeps:
  "merge_defs ds all = Some all' \<Longrightarrow> map_of all n = Some d \<Longrightarrow> map_of all' n = Some d"
proof (induction ds all rule: merge_defs.induct)
  case (2 n' d' ds all)
  have ok: "map_of all n' = None \<or> map_of all n' = Some d'" and m: "merge_defs ds (dput n' d' all) = Some all'"
    using 2(2) by (simp_all split: if_splits)
  have "map_of (dput n' d' all) n = Some d" using ok 2(3) by auto
  with 2(1) [OF _ m] ok show ?case by simp
qed simp

text \<open>Every definition that was given is in the result, with its only schema.\<close>

lemma merge_defs_all:
  "merge_defs ds all = Some all' \<Longrightarrow> (n, d) \<in> set ds \<Longrightarrow> map_of all' n = Some d"
proof (induction ds all rule: merge_defs.induct)
  case (2 n' d' ds all)
  then show ?case
    by (auto split: if_splits intro: merge_defs_keeps)
qed simp

text \<open>
  \<open>get_json_schema_from_tools\<close>.  The result of a forced choice is the parameters of that tool; a
  required choice gives one schema over all tools, whose \<open>$defs\<close> collect those of the function
  tools.  Two tools are taken not to share one parameter dictionary.
\<close>

datatype tool_choice = ChoiceNone | ChoiceAuto | ChoiceRequired | ResponsesForced pystr | ChatForced pystr

datatype schema_answer = NoSchema | Parameters "(pystr \<times> jval) list option" | ArraySchema jval

fun function_params :: "tool \<Rightarrow> (pystr \<times> jval) list option list" where
  "function_params (FunctionTool t) = [info_params t]"
| "function_params (ChatTool t) = [info_params t]"
| "function_params t = []"

text \<open>Popping the definitions shows in the schemas built before, which hold the same dictionaries.\<close>

definition without_defs :: "(pystr \<times> jval) list option \<Rightarrow> (pystr \<times> jval) list" where
  "without_defs params = filter (\<lambda>(k, v). k \<noteq> lit ''$defs'') (case params of None \<Rightarrow> [] | Some d \<Rightarrow> d)"

definition tool_schema_from_tool :: "pystr \<Rightarrow> (pystr \<times> jval) list option \<Rightarrow> jval" where
  "tool_schema_from_tool n params =
     (if params = None \<or> params = Some [] then schema_from_name_and_params n params
      else named_schema n (without_defs params))"

fun tool_schemas :: "tool \<Rightarrow> jval list" where
  "tool_schemas (NamespaceTool ns ts) =
     map (\<lambda>(n, p). schema_from_name_and_params n p) (iter_response_function_tool_info (NamespaceTool ns ts))"
| "tool_schemas t = map (\<lambda>(n, p). tool_schema_from_tool n p) (tool_entries t)"

definition json_schema_from_tools :: "tool list \<Rightarrow> jval schema_result" where
  "json_schema_from_tools ts =
     (let base = [(lit ''type'', JStr (lit ''array'')), (lit ''minItems'', JInt 1),
                  (lit ''items'', JDict [(lit ''type'', JStr (lit ''object'')),
                                         (lit ''anyOf'', JList (concat (map tool_schemas ts)))])]
      in case tool_schema_defs (concat (map function_params ts)) [] of
           None \<Rightarrow> Schema_error
         | Some [] \<Rightarrow> Schema (JDict base)
         | Some defs \<Rightarrow> Schema (JDict (base @ [(lit ''$defs'', JDict defs)])))"

text \<open>\<open>name.rsplit('__', 1)[1]\<close> when the separator occurs.\<close>

fun after_last_sep :: "pystr \<Rightarrow> pystr option" where
  "after_last_sep [] = None"
| "after_last_sep (c # s) =
     (case after_last_sep s of Some r \<Rightarrow> Some r
      | None \<Rightarrow> (case s of d # s' \<Rightarrow> if c = 95 \<and> d = 95 then Some s' else None | [] \<Rightarrow> None))"

fun responses_tool_map ::
  "(pystr \<times> (pystr \<times> jval) list option) list \<Rightarrow> (pystr, (pystr \<times> jval) list option) dict
     \<Rightarrow> (pystr, (pystr \<times> jval) list option) dict" where
  "responses_tool_map [] m = m"
| "responses_tool_map ((n, p) # es) m =
     (let m1 = dput n p m;
          m2 = (case after_last_sep n of None \<Rightarrow> m1
                | Some short \<Rightarrow> if map_of m1 short = None then dput short p m1 else m1)
      in responses_tool_map es m2)"

fun chat_entries :: "tool \<Rightarrow> (pystr \<times> (pystr \<times> jval) list option) list" where
  "chat_entries (ChatTool t) = [(info_name t, info_params t)]"
| "chat_entries t = []"

definition get_json_schema_from_tools :: "tool_choice option \<Rightarrow> tool list option \<Rightarrow> schema_answer schema_result" where
  "get_json_schema_from_tools choice tools =
     (case (choice, tools) of
        (None, _) \<Rightarrow> Schema NoSchema
      | (Some ChoiceNone, _) \<Rightarrow> Schema NoSchema
      | (_, None) \<Rightarrow> Schema NoSchema
      | (Some (ResponsesForced n), Some ts) \<Rightarrow>
          (case map_of (responses_tool_map (concat (map iter_response_function_tool_info ts)) []) n of
             None \<Rightarrow> Schema_error | Some p \<Rightarrow> Schema (Parameters p))
      | (Some (ChatForced n), Some ts) \<Rightarrow>
          (case map_of (fold (\<lambda>(k, p) m. dput k p m) (concat (map chat_entries ts)) []) n of
             None \<Rightarrow> Schema_error | Some p \<Rightarrow> Schema (Parameters p))
      | (Some ChoiceRequired, Some ts) \<Rightarrow>
          (case json_schema_from_tools ts of Schema_error \<Rightarrow> Schema_error | Schema v \<Rightarrow> Schema (ArraySchema v))
      | (Some ChoiceAuto, Some ts) \<Rightarrow> Schema NoSchema)"

section \<open>The types of a schema\<close>

fun enum_type :: "jval \<Rightarrow> pystr" where
  "enum_type JNull = lit ''null''"
| "enum_type (JBool b) = lit ''boolean''"
| "enum_type (JInt i) = lit ''integer''"
| "enum_type (JFloat f) = lit ''number''"
| "enum_type (JStr s) = lit ''string''"
| "enum_type (JList l) = lit ''array''"
| "enum_type (JDict d) = lit ''object''"

definition declared_types :: "(pystr \<times> jval) list \<Rightarrow> pystr set" where
  "declared_types d =
     (case map_of d (lit ''type'') of
        Some (JStr s) \<Rightarrow> {s}
      | Some (JList l) \<Rightarrow> set (concat (map (\<lambda>v. case v of JStr s \<Rightarrow> [s] | _ \<Rightarrow> []) l))
      | _ \<Rightarrow> {})"

definition enum_types :: "(pystr \<times> jval) list \<Rightarrow> pystr set" where
  "enum_types d = (case map_of d (lit ''enum'') of Some (JList l) \<Rightarrow> enum_type ` set l | _ \<Rightarrow> {})"

definition choice_list :: "(pystr \<times> jval) list \<Rightarrow> pystr \<Rightarrow> jval list" where
  "choice_list d k = (case map_of d k of Some (JList l) \<Rightarrow> l | _ \<Rightarrow> [])"

definition choices :: "(pystr \<times> jval) list \<Rightarrow> jval list" where
  "choices d = choice_list d (lit ''anyOf'') @ choice_list d (lit ''oneOf'') @ choice_list d (lit ''allOf'')"

lemma jval_entry_size: "(k, v) \<in> set d \<Longrightarrow> size v < size (JDict d)"
  by (induction d) auto

lemma jval_elem_size: "v \<in> set l \<Longrightarrow> size v < size (JList l)"
  by (induction l) auto

lemma choice_list_cases:
  "choice_list d k = [] \<or> (\<exists>l. map_of d k = Some (JList l) \<and> choice_list d k = l)"
  by (simp add: choice_list_def split: option.split jval.split)

lemma choice_size: "c \<in> set (choice_list d k) \<Longrightarrow> size c < size (JDict d)"
  using choice_list_cases [of d k]
  by (metis empty_iff jval_elem_size jval_entry_size less_trans list.set(1) map_of_SomeD)

lemma choices_size: "c \<in> set (choices d) \<Longrightarrow> size c < size (JDict d)"
  by (auto simp: choices_def simp del: jval.size dest: choice_size)

text \<open>The set of types; the code returns its elements as a list in no particular order.\<close>

function (sequential) extract_types_from_schema :: "jval \<Rightarrow> pystr set" where
  "extract_types_from_schema (JDict d) =
     (let ts = declared_types d \<union> enum_types d \<union> \<Union>(set (map extract_types_from_schema (choices d)))
      in if ts = {} then {lit ''string''} else ts)"
| "extract_types_from_schema v = {lit ''string''}"
  by pat_completeness auto
termination
  by (relation "measure size") (auto simp del: jval.size dest: choices_size)

lemma extract_types_nonempty: "extract_types_from_schema v \<noteq> {}"
  by (cases v) (simp_all add: Let_def)

section \<open>Coercion\<close>

definition type_aliases :: "(pystr \<times> pystr) list" where
  "type_aliases = map (\<lambda>(a, b). (lit a, lit b))
     [(''str'', ''string''), (''text'', ''string''), (''varchar'', ''string''), (''char'', ''string''),
      (''enum'', ''string''), (''int'', ''integer''), (''int32'', ''integer''), (''int64'', ''integer''),
      (''uint'', ''integer''), (''uint32'', ''integer''), (''uint64'', ''integer''), (''long'', ''integer''),
      (''short'', ''integer''), (''unsigned'', ''integer''), (''float'', ''number''), (''float32'', ''number''),
      (''float64'', ''number''), (''double'', ''number''), (''bool'', ''boolean''), (''dict'', ''object''),
      (''arr'', ''array''), (''list'', ''array''), (''sequence'', ''array'')]"

definition normalized_type :: "pystd \<Rightarrow> pystr \<Rightarrow> pystr" where
  "normalized_type std t = (let key = py_lower std (ustrip t) in dget type_aliases key key)"

text \<open>Whether a value can be written without infinities; dictionary keys are strings.\<close>

fun json_finite :: "jval \<Rightarrow> bool" where
  "json_finite (JFloat f) = (f \<noteq> NonFinite)"
| "json_finite (JList l) = list_all json_finite l"
| "json_finite (JDict d) = list_all (\<lambda>(k, v). json_finite v) d"
| "json_finite v = True"

datatype json_type = TNull | TInteger | TNumber | TBoolean | TObject | TArray | TString

fun type_name :: "json_type \<Rightarrow> pystr" where
  "type_name TNull = lit ''null''"
| "type_name TInteger = lit ''integer''"
| "type_name TNumber = lit ''number''"
| "type_name TBoolean = lit ''boolean''"
| "type_name TObject = lit ''object''"
| "type_name TArray = lit ''array''"
| "type_name TString = lit ''string''"

definition type_priority :: "json_type list" where
  "type_priority = [TNull, TInteger, TNumber, TBoolean, TObject, TArray, TString]"

definition loads_finite :: "pystd \<Rightarrow> pystr \<Rightarrow> jval option" where
  "loads_finite std s = (case py_loads std s of None \<Rightarrow> None | Some v \<Rightarrow> if json_finite v then Some v else None)"

text \<open>One candidate type; \<^term>\<open>None\<close> goes on to the next one.\<close>

fun coerce_candidate :: "pystd \<Rightarrow> pystr \<Rightarrow> json_type \<Rightarrow> jval option" where
  "coerce_candidate std s TNull = (if py_lower std s = lit ''null'' then Some JNull else None)"
| "coerce_candidate std s TString = Some (JStr s)"
| "coerce_candidate std s TInteger = map_option JInt (py_int std s)"
| "coerce_candidate std s TNumber =
     (case py_float std s of
        Some (Finite x) \<Rightarrow> Some (if x = of_int \<lfloor>x\<rfloor> then JInt \<lfloor>x\<rfloor> else JFloat (Finite x))
      | _ \<Rightarrow> None)"
| "coerce_candidate std s TBoolean =
     (let l = ustrip (py_lower std s)
      in if l = lit ''true'' \<or> l = lit ''1'' then Some (JBool True)
         else if l = lit ''false'' \<or> l = lit ''0'' then Some (JBool False) else None)"
| "coerce_candidate std s TObject = loads_finite std s"
| "coerce_candidate std s TArray = loads_finite std s"

fun first_coercion :: "pystd \<Rightarrow> pystr \<Rightarrow> pystr set \<Rightarrow> json_type list \<Rightarrow> jval option" where
  "first_coercion std s types [] = None"
| "first_coercion std s types (t # ts) =
     (if type_name t \<in> types
      then (case coerce_candidate std s t of Some v \<Rightarrow> Some v | None \<Rightarrow> first_coercion std s types ts)
      else first_coercion std s types ts)"

definition coerce_to_schema_type :: "pystd \<Rightarrow> pystr \<Rightarrow> pystr set \<Rightarrow> jval" where
  "coerce_to_schema_type std s types =
     (case first_coercion std s (normalized_type std ` types) type_priority of
        Some v \<Rightarrow> v
      | None \<Rightarrow> (case loads_finite std s of Some v \<Rightarrow> v | None \<Rightarrow> JStr s))"

text \<open>Whatever the schema says, the result can be written as JSON.\<close>

lemma loads_finite_ok: "loads_finite std s = Some v \<Longrightarrow> json_finite v"
  by (auto simp: loads_finite_def split: option.splits if_splits)

lemma coerce_candidate_finite: "coerce_candidate std s t = Some v \<Longrightarrow> json_finite v"
  by (cases t) (auto split: option.splits pyfloat.splits if_splits simp: Let_def dest: loads_finite_ok)

lemma first_coercion_finite: "first_coercion std s types ts = Some v \<Longrightarrow> json_finite v"
  by (induction ts) (auto split: if_splits option.splits dest: coerce_candidate_finite)

lemma coerce_finite: "json_finite (coerce_to_schema_type std s types)"
  by (auto simp: coerce_to_schema_type_def split: option.splits dest: first_coercion_finite loads_finite_ok)

text \<open>A schema that only allows strings leaves the value as it is.\<close>

lemma coerce_string_only:
  assumes "normalized_type std (lit ''string'') = lit ''string''"
  shows "coerce_to_schema_type std s {lit ''string''} = JStr s"
  using assms by (simp add: coerce_to_schema_type_def type_priority_def lit_def)

section \<open>Closing partial Python\<close>

abbreviation (input) sq_open :: nat where "sq_open \<equiv> 91"
abbreviation (input) sq_close :: nat where "sq_close \<equiv> 93"
abbreviation (input) par_open :: nat where "par_open \<equiv> 40"
abbreviation (input) par_close :: nat where "par_close \<equiv> 41"
abbreviation (input) cur_open :: nat where "cur_open \<equiv> 123"
abbreviation (input) cur_close :: nat where "cur_close \<equiv> 125"
abbreviation (input) backslash :: nat where "backslash \<equiv> 92"

definition is_quote :: "nat \<Rightarrow> bool" where
  "is_quote c \<longleftrightarrow> c = 39 \<or> c = 34"

definition pop_matching :: "nat \<Rightarrow> nat list \<Rightarrow> nat list option" where
  "pop_matching c st = (case st of [] \<Rightarrow> None | d # st' \<Rightarrow> if d = c then Some st' else None)"

text \<open>The stack has its top first; \<^term>\<open>prev\<close> is the character before; \<^term>\<open>None\<close> is an error.\<close>

definition bracket_char :: "nat option \<Rightarrow> nat \<Rightarrow> nat list \<Rightarrow> nat list option" where
  "bracket_char prev c st =
     (if c = sq_open \<or> c = par_open \<or> c = cur_open then Some (c # st)
      else if c = sq_close then pop_matching sq_open st
      else if c = par_close then pop_matching par_open st
      else if c = cur_close then pop_matching cur_open st
      else if is_quote c then
        (case st of
           [] \<Rightarrow> Some [c]
         | d # st' \<Rightarrow>
             if d = c then (if prev = Some backslash then Some st else Some st')
             else if is_quote d then Some st
             else Some (c # st))
      else Some st)"

fun bracket_scan :: "nat option \<Rightarrow> pystr \<Rightarrow> nat list \<Rightarrow> nat list option" where
  "bracket_scan prev [] st = Some st"
| "bracket_scan prev (c # s) st =
     (case bracket_char prev c st of None \<Rightarrow> None | Some st' \<Rightarrow> bracket_scan (Some c) s st')"

definition closing :: "nat \<Rightarrow> nat" where
  "closing c = (if c = sq_open then sq_close else if c = par_open then par_close
                else if c = cur_open then cur_close else c)"

text \<open>\<open>text[: text.rfind(c)]\<close>; without the character, Python's slice drops the last one.\<close>

definition before_last :: "nat \<Rightarrow> pystr \<Rightarrow> pystr" where
  "before_last c s = (if c \<in> set s then rev (tl (dropWhile (\<lambda>d. d \<noteq> c) (rev s))) else butlast s)"

definition ends_with_char :: "pystr \<Rightarrow> nat \<Rightarrow> bool" where
  "ends_with_char s c \<longleftrightarrow> s \<noteq> [] \<and> last s = c"

definition uncompleted :: "nat \<Rightarrow> nat \<Rightarrow> nat list \<Rightarrow> pystr \<Rightarrow> bool" where
  "uncompleted opener name_end st s \<longleftrightarrow>
     st \<noteq> [] \<and> hd st = opener \<and>
     count_list (before_last opener s) name_end \<le> count_list (before_last opener s) 44"

datatype completion = Mismatch | Too_partial | Completed pystr pystr

definition make_valid_python :: "pystd \<Rightarrow> pystr \<Rightarrow> completion" where
  "make_valid_python std text =
     (case bracket_scan None text [] of
        None \<Rightarrow> Mismatch
      | Some st \<Rightarrow>
          (let t = urstrip text in
           if ends_with_char t 61 \<or> ends_with_char t 58 then Too_partial
           else if uncompleted cur_open 58 st t then Too_partial
           else if uncompleted par_open 61 st t then Too_partial
           else
             (let t' = (if ends_with_char t 44 then butlast t else t) in
              if st \<noteq> [] \<and> hd st = sq_open \<and> \<not> ends_with_char t' sq_open \<and> \<not> ends_with_char t' par_close
              then Too_partial
              else
                (let added = map closing st
                 in if py_ast_ok std (t' @ added) then Completed (t' @ added) added else Too_partial))))"

text \<open>
  The suffix closes everything that is open, innermost first: after the stripped text, which the
  scan reads as the whole one, the brackets balance.
\<close>

definition closable :: "nat list \<Rightarrow> bool" where
  "closable st \<longleftrightarrow> list_all (\<lambda>c. c \<in> {sq_open, par_open, cur_open} \<or> is_quote c) st"

lemma bracket_char_closable: "bracket_char prev c st = Some st' \<Longrightarrow> closable st \<Longrightarrow> closable st'"
  by (auto simp: bracket_char_def pop_matching_def closable_def is_quote_def split: if_splits list.splits)

lemma bracket_scan_closable: "bracket_scan prev s st = Some st' \<Longrightarrow> closable st \<Longrightarrow> closable st'"
  by (induction s arbitrary: prev st) (auto split: option.splits dest: bracket_char_closable)

lemma closing_char: "closable (c # st) \<Longrightarrow> prev \<noteq> Some backslash \<Longrightarrow> bracket_char prev (closing c) (c # st) = Some st"
  by (auto simp: closable_def bracket_char_def pop_matching_def closing_def is_quote_def)

lemma closing_no_backslash: "closable (c # st) \<Longrightarrow> closing c \<noteq> backslash"
  by (auto simp: closable_def closing_def is_quote_def)

lemma closing_scan:
  "closable st \<Longrightarrow> prev \<noteq> Some backslash \<Longrightarrow> bracket_scan prev (map closing st) st = Some []"
proof (induction st arbitrary: prev)
  case (Cons c st)
  then have "closable st" "Some (closing c) \<noteq> Some backslash"
    using closing_no_backslash [OF Cons.prems(1)] by (simp_all add: closable_def)
  with Cons show ?case by (simp add: closing_char)
qed simp

definition last_char :: "nat option \<Rightarrow> pystr \<Rightarrow> nat option" where
  "last_char prev s = (if s = [] then prev else Some (last s))"

lemma bracket_scan_append:
  "bracket_scan prev (s @ t) st =
     (case bracket_scan prev s st of None \<Rightarrow> None | Some st' \<Rightarrow> bracket_scan (last_char prev s) t st')"
  by (induction s arbitrary: prev st) (auto simp: last_char_def split: option.split)

definition inert :: "nat \<Rightarrow> bool" where
  "inert c \<longleftrightarrow> uis_space c \<or> c = 44"

lemma inert_step: "inert c \<Longrightarrow> bracket_char prev c st = Some st"
  by (auto simp: inert_def bracket_char_def is_quote_def uis_space_def)

lemma inert_scan: "list_all inert s \<Longrightarrow> bracket_scan prev s st = Some st"
  by (induction s arbitrary: prev) (auto simp: inert_step)

lemma scan_without_inert_tail:
  "list_all inert t \<Longrightarrow> bracket_scan prev (s @ t) st = bracket_scan prev s st"
  by (auto simp: bracket_scan_append inert_scan split: option.split)

lemma urstrip_tail: "\<exists>t. s = urstrip s @ t \<and> list_all uis_space t"
  by (rule exI [of _ "rev (takeWhile uis_space (rev s))"])
    (auto simp: urstrip_def list_all_iff dest: set_takeWhileD simp flip: rev_append)

lemma completed_scan:
  assumes "bracket_scan None s [] = Some st" "t = urstrip s" "t' = (if ends_with_char t 44 then butlast t else t)"
  shows "bracket_scan None t' [] = Some st"
proof -
  obtain w where w: "s = t @ w" "list_all uis_space w" using urstrip_tail [of s] assms(2) by auto
  obtain w' where w': "t = t' @ w'" "list_all inert w'"
  proof (cases "ends_with_char t 44")
    case True
    then have "t = t' @ [44]" using assms(3) by (metis append_butlast_last_id ends_with_char_def)
    then show ?thesis by (rule that) (simp add: inert_def)
  next
    case False
    then show ?thesis using assms(3) by (intro that [of "[]"]) simp_all
  qed
  have "list_all inert (w' @ w)" using w(2) w'(2) by (auto simp: list_all_iff inert_def)
  with assms(1) w(1) w'(1) show ?thesis by (metis append.assoc scan_without_inert_tail)
qed

lemma completed_balances:
  assumes "make_valid_python std s = Completed cand added"
    and "last_char None (take (length cand - length added) cand) \<noteq> Some backslash"
  shows "bracket_scan None cand [] = Some []"
proof -
  obtain st where st: "bracket_scan None s [] = Some st"
    using assms(1) by (auto simp: make_valid_python_def split: option.splits)
  define t' where "t' = (if ends_with_char (urstrip s) 44 then butlast (urstrip s) else urstrip s)"
  have c: "cand = t' @ map closing st" "added = map closing st"
    using assms(1) unfolding make_valid_python_def st
    by (auto simp: Let_def t'_def [symmetric] split: if_splits)
  have "bracket_scan None t' [] = Some st" by (rule completed_scan [OF st refl t'_def])
  moreover have "closable st" using bracket_scan_closable [OF st] by (simp add: closable_def)
  ultimately show ?thesis using assms(2) c by (simp add: bracket_scan_append closing_scan)
qed

text \<open>Remark: a bracket inside a string literal counts, so this complete call is refused.\<close>

lemma bracket_in_string_refused:
  "make_valid_python std (lit ''f(a='' @ [39] @ lit ''('' @ [39] @ lit '')'') = Mismatch"
  by (simp add: make_valid_python_def lit_def bracket_char_def pop_matching_def is_quote_def)

end
