(* ===== verification/ArgDelta.thy ===== *)
theory ArgDelta
  imports ToolUtils
begin

text \<open>
  The arguments of streamed tool calls (\<open>parser-engine.dsml-orphan.py\<close>): the slot of a call,
  the correction of argument types by the schema, the prefix of a JSON text that is safe to send,
  the deltas computed from the converted arguments, and the merging of deltas of one call.
  \<open>make_tool_call_id\<close> is not part of the repository: it is the argument \<open>mk_id\<close>.
\<close>

section \<open>Slots\<close>

record slot =
  slot_id :: pystr
  slot_name :: pystr
  slot_args :: pystr
  name_sent :: bool
  string_keys :: "pystr set option"
  streamed_json :: pystr

definition new_slot :: slot where
  "new_slot = \<lparr> slot_id = [], slot_name = [], slot_args = [], name_sent = False, string_keys = None,
     streamed_json = [] \<rparr>"

definition append_args :: "pystr \<Rightarrow> slot \<Rightarrow> slot" where
  "append_args v s = s\<lparr> slot_args := slot_args s @ v \<rparr>"

text \<open>What does not change while a request is parsed; the converter may look at the slots.\<close>

record arg_setup =
  as_std :: pystd
  as_tools :: "tool list option"
  as_validate :: bool
  as_converter :: "(slot list \<Rightarrow> pystr \<Rightarrow> bool \<Rightarrow> pystr option) option"
  as_stream :: bool
  as_structural :: "nat set option"
  as_mk_id :: "pystr \<Rightarrow> nat \<Rightarrow> pystr"

definition tool_list :: "arg_setup \<Rightarrow> tool list" where
  "tool_list a = (case as_tools a of None \<Rightarrow> [] | Some ts \<Rightarrow> ts)"

definition is_valid_tool_name :: "arg_setup \<Rightarrow> pystr \<Rightarrow> bool" where
  "is_valid_tool_name a n \<longleftrightarrow> \<not> as_validate a \<or> tool_list a = [] \<or> find_tool_name (tool_list a) n"

definition accept_tool_name :: "arg_setup \<Rightarrow> pystr \<Rightarrow> bool" where
  "accept_tool_name a n \<longleftrightarrow> n \<noteq> [] \<and> is_valid_tool_name a n"

section \<open>Types by the schema\<close>

text \<open>The second component says whether anything changed; the values of a dictionary keep their order.\<close>

function coerce_value :: "pystd \<Rightarrow> jval \<Rightarrow> (pystr \<times> jval) list \<Rightarrow> jval \<times> bool" where
  "coerce_value std v schema =
     (case v of
        JStr s \<Rightarrow> (let c = coerce_to_schema_type std s (extract_types_from_schema (JDict schema)) in (c, c \<noteq> JStr s))
      | JDict d \<Rightarrow>
          (case map_of schema (lit ''properties'') of
             Some (JDict props) \<Rightarrow>
               (let rs = map (\<lambda>(k, x). case map_of props k of
                                Some (JDict p) \<Rightarrow> (let r = coerce_value std x p in ((k, if snd r then fst r else x), snd r))
                              | _ \<Rightarrow> ((k, x), False)) d
                in (JDict (map fst rs), list_ex snd rs))
           | _ \<Rightarrow> (v, False))
      | JList l \<Rightarrow>
          (case map_of schema (lit ''items'') of
             Some (JDict items) \<Rightarrow>
               (let rs = map (\<lambda>x. let r = coerce_value std x items in (if snd r then fst r else x, snd r)) l
                in (JList (map fst rs), list_ex snd rs))
           | _ \<Rightarrow> (v, False))
      | _ \<Rightarrow> (let c = coerce_to_schema_type std (py_dumps std v) (extract_types_from_schema (JDict schema)) in
               (if c \<noteq> v then (c, True) else (v, False))))"
  by pat_completeness auto
termination
  by (relation "measure (\<lambda>(std, v, schema). size v)")
    (auto simp del: jval.size dest: jval_entry_size jval_elem_size)

declare coerce_value.simps [simp del]

definition coerce_dict :: "pystd \<Rightarrow> (pystr \<times> jval) list \<Rightarrow> (pystr \<times> jval) list \<Rightarrow> (pystr \<times> jval) list \<times> bool" where
  "coerce_dict std d props =
     (let rs = map (\<lambda>(k, x). case map_of props k of
                      Some (JDict p) \<Rightarrow> (let r = coerce_value std x p in ((k, if snd r then fst r else x), snd r))
                    | _ \<Rightarrow> ((k, x), False)) d
      in (map fst rs, list_ex snd rs))"

text \<open>The declared properties are a dictionary, as in every JSON schema.\<close>

definition properties_dict :: "arg_setup \<Rightarrow> pystr \<Rightarrow> (pystr \<times> jval) list" where
  "properties_dict a n = (case find_tool_properties (tool_list a) n of JDict d \<Rightarrow> d | _ \<Rightarrow> [])"

definition fix_arg_types :: "arg_setup \<Rightarrow> pystr \<Rightarrow> pystr \<Rightarrow> pystr" where
  "fix_arg_types a args_json func_name =
     (if tool_list a = [] \<or> func_name = [] then args_json
      else case py_loads (as_std a) args_json of
             Some (JDict args) \<Rightarrow>
               (let props = properties_dict a func_name in
                if props = [] then args_json
                else (let (args', changed) = coerce_dict (as_std a) args props
                      in if changed then py_dumps (as_std a) (JDict args') else args_json))
           | _ \<Rightarrow> args_json)"

definition streamable_string_keys :: "(pystr \<times> jval) list \<Rightarrow> pystr set option" where
  "streamable_string_keys props =
     (if props = [] then None
      else Some (fst ` set (filter (\<lambda>(k, schema). extract_types_from_schema schema = {lit ''string''}) props)))"

section \<open>The prefix that is safe to send\<close>

record json_scan =
  last_colon :: "nat option"
  last_key :: "pystr option"
  pending_key :: "pystr option"
  ps_in_string :: bool
  ps_escape :: bool
  string_start :: "nat option"
  ps_depth :: int

definition json_scan0 :: json_scan where
  "json_scan0 = \<lparr> last_colon = None, last_key = None, pending_key = None, ps_in_string = False,
     ps_escape = False, string_start = None, ps_depth = 0 \<rparr>"

definition json_scan_char :: "pystr \<Rightarrow> nat \<times> nat \<Rightarrow> json_scan \<Rightarrow> json_scan" where
  "json_scan_char json ic p = (case ic of (i, c) \<Rightarrow>
     if ps_escape p then p\<lparr> ps_escape := False \<rparr>
     else if ps_in_string p then
       (if c = backslash then p\<lparr> ps_escape := True \<rparr>
        else if c = 34 then
          (case string_start p of
             Some st \<Rightarrow> if ps_depth p = 1 then p\<lparr> ps_in_string := False,
                            pending_key := Some (drop (Suc st) (take i json)) \<rparr>
                        else p\<lparr> ps_in_string := False \<rparr>
           | None \<Rightarrow> p\<lparr> ps_in_string := False \<rparr>)
        else p)
     else if c = 34 then p\<lparr> ps_in_string := True, string_start := Some i \<rparr>
     else if c = cur_open \<or> c = sq_open then p\<lparr> ps_depth := ps_depth p + 1 \<rparr>
     else if c = cur_close \<or> c = sq_close then p\<lparr> ps_depth := ps_depth p - 1 \<rparr>
     else if c = 58 \<and> ps_depth p = 1 then
       p\<lparr> last_colon := Some i, last_key := pending_key p, pending_key := None \<rparr>
     else p)"

definition json_space :: "nat \<Rightarrow> bool" where
  "json_space c \<longleftrightarrow> c = 32 \<or> c = 9 \<or> c = 10 \<or> c = 13"

text \<open>The length of a string's text up to its closing quote, or to the end.\<close>

fun unclosed_length :: "bool \<Rightarrow> pystr \<Rightarrow> nat" where
  "unclosed_length esc [] = 0"
| "unclosed_length esc (c # s) =
     (if esc then Suc (unclosed_length False s)
      else if c = backslash then Suc (unclosed_length True s)
      else if c = 34 then 0 else Suc (unclosed_length False s))"

definition safe_arg_prefix :: "pystr \<Rightarrow> pystr set option \<Rightarrow> pystr" where
  "safe_arg_prefix json keys =
     (let p = fold (json_scan_char json) (enumerate 0 json) json_scan0 in
      case last_colon p of
        None \<Rightarrow> []
      | Some colon \<Rightarrow>
          (let e = Suc colon + length (takeWhile json_space (drop (Suc colon) json)) in
           if e \<ge> length json \<or> json ! e \<noteq> 34 then take e json
           else if (case keys of None \<Rightarrow> False | Some ks \<Rightarrow> last_key p \<notin> Some ` ks) then take e json
           else take (Suc e + unclosed_length False (drop (Suc e) json)) json))"

lemma safe_arg_prefix_prefix: "prefix (safe_arg_prefix json keys) json"
  by (simp add: safe_arg_prefix_def Let_def take_is_prefix split: option.split)

section \<open>Deltas\<close>

record delta_function =
  fn_name :: "pystr option"
  fn_args :: "pystr option"

record tool_delta =
  td_index :: int
  td_id :: "pystr option"
  td_type :: "pystr option"
  td_function :: "delta_function option"

definition name_delta :: "int \<Rightarrow> pystr \<Rightarrow> pystr \<Rightarrow> pystr option \<Rightarrow> tool_delta" where
  "name_delta i tid n args = \<lparr> td_index = i, td_id = Some tid, td_type = Some (lit ''function''),
     td_function = Some \<lparr> fn_name = Some n, fn_args = args \<rparr> \<rparr>"

definition args_delta :: "int \<Rightarrow> pystr \<Rightarrow> tool_delta" where
  "args_delta i args = \<lparr> td_index = i, td_id = None, td_type = None,
     td_function = Some \<lparr> fn_name = None, fn_args = Some args \<rparr> \<rparr>"

text \<open>\<open>_compute_arg_delta\<close>: the text to send, and what has been sent then.\<close>

definition compute_arg_delta :: "arg_setup \<Rightarrow> slot list \<Rightarrow> slot \<Rightarrow> pystr \<Rightarrow> (pystr \<times> slot) option" where
  "compute_arg_delta a slots s raw =
     (case as_converter a of
        None \<Rightarrow> Some (raw, s)
      | Some converter \<Rightarrow>
          if \<not> as_stream a then None
          else if (case as_structural a of None \<Rightarrow> False | Some cs \<Rightarrow> set raw \<inter> cs = {}) then None
          else case converter slots (slot_args s) True of
                 None \<Rightarrow> None
               | Some current \<Rightarrow>
                   if current = [] then None
                   else (let json = (if slot_name s \<noteq> [] then fix_arg_types a current (slot_name s) else current);
                             safe = safe_arg_prefix json (string_keys s);
                             sent = streamed_json s
                         in if safe = [] \<or> safe = sent then None
                            else if sent \<noteq> [] \<and> \<not> prefix sent safe then None
                            else (let diff = drop (length sent) safe
                                  in if diff \<noteq> [] then Some (diff, s\<lparr> streamed_json := safe \<rparr>) else None)))"

definition flush_arg_converter :: "arg_setup \<Rightarrow> slot list \<Rightarrow> slot \<Rightarrow> (pystr \<times> slot) option" where
  "flush_arg_converter a slots s =
     (case as_converter a of
        None \<Rightarrow> None
      | Some converter \<Rightarrow>
          (case converter slots (slot_args s) False of
             None \<Rightarrow> None
           | Some raw \<Rightarrow>
               (let final = (if raw \<noteq> [] then fix_arg_types a raw (slot_name s) else raw);
                    sent = streamed_json s
                in if final \<noteq> [] \<and> length sent < length final
                   then (if sent \<noteq> [] \<and> \<not> prefix sent final then None
                         else Some (drop (length sent) final, s\<lparr> streamed_json := final \<rparr>))
                   else None)))"

text \<open>What is sent extends what has been sent.\<close>

lemma compute_arg_delta_extends:
  "compute_arg_delta a slots s raw = Some (diff, s') \<Longrightarrow> as_converter a \<noteq> None \<Longrightarrow>
   streamed_json s' = streamed_json s @ diff \<and> s' = s\<lparr> streamed_json := streamed_json s' \<rparr>"
  by (auto simp: compute_arg_delta_def Let_def split: option.splits if_splits elim!: prefixE)

lemma flush_arg_converter_extends:
  "flush_arg_converter a slots s = Some (diff, s') \<Longrightarrow>
   streamed_json s' = streamed_json s @ diff \<and> s' = s\<lparr> streamed_json := streamed_json s' \<rparr>"
  by (auto simp: flush_arg_converter_def Let_def split: option.splits if_splits elim!: prefixE)

end
