(* ===== verification/ToolDeltas.thy ===== *)
theory ToolDeltas
  imports ArgDelta StreamEngine
begin

text \<open>
  From semantic events to the deltas of tool calls (\<open>ParserEngine\<close> in
  \<open>parser-engine.dsml-orphan.py\<close>): the handlers of the four tool events and the merging of the
  deltas of one call.  A handler gives the calls and the deltas it appends; \<^term>\<open>None\<close> is an
  index outside the list of slots.
\<close>

section \<open>The calls of a stream\<close>

record calls =
  c_slots :: "slot list"
  c_count :: nat

text \<open>Python's indexing: a negative index counts from the end.\<close>

definition py_index :: "'a list \<Rightarrow> int \<Rightarrow> nat option" where
  "py_index xs i =
     (if 0 \<le> i then (if nat i < length xs then Some (nat i) else None)
      else if nat (- i) \<le> length xs then Some (length xs - nat (- i)) else None)"

lemma py_index_nat [simp]: "py_index xs (int k) = (if k < length xs then Some k else None)"
  by (simp add: py_index_def)

definition ensure_slot :: "int \<Rightarrow> calls \<Rightarrow> calls" where
  "ensure_slot i c = c\<lparr> c_slots := c_slots c @ replicate (nat (i + 1) - length (c_slots c)) new_slot \<rparr>"

definition set_slot :: "nat \<Rightarrow> slot \<Rightarrow> calls \<Rightarrow> calls" where
  "set_slot k s c = c\<lparr> c_slots := (c_slots c)[k := s] \<rparr>"

definition ensure_tool_id :: "arg_setup \<Rightarrow> nat \<Rightarrow> pystr \<Rightarrow> calls \<Rightarrow> calls" where
  "ensure_tool_id a k n c =
     (let s = c_slots c ! k in
      if slot_id s = []
      then (set_slot k (s\<lparr> slot_id := as_mk_id a n (c_count c) \<rparr>) c)\<lparr> c_count := Suc (c_count c) \<rparr>
      else c)"

text \<open>\<open>"name"\s*:\s*"([^"]*)"\<close>, the first match.\<close>

definition quote :: nat where
  "quote = 34"

fun name_at :: "pystd \<Rightarrow> pystr \<Rightarrow> pystr option" where
  "name_at std s =
     (let key = [quote] @ lit ''name'' @ [quote] in
      if prefix key s then
        (case dropWhile (py_re_space std) (drop (length key) s) of
           [] \<Rightarrow> None
         | c # s1 \<Rightarrow>
             if c = 58 then
               (case dropWhile (py_re_space std) s1 of
                  [] \<Rightarrow> None
                | d # s2 \<Rightarrow>
                    if d = quote \<and> quote \<in> set s2 then Some (takeWhile (\<lambda>x. x \<noteq> quote) s2) else None)
             else None)
      else None)"

fun name_search :: "pystd \<Rightarrow> pystr \<Rightarrow> pystr option" where
  "name_search std [] = None"
| "name_search std (c # s) =
     (case name_at std (c # s) of Some n \<Rightarrow> Some n | None \<Rightarrow> name_search std s)"

definition try_extract_name :: "arg_setup \<Rightarrow> slot \<Rightarrow> pystr option" where
  "try_extract_name a s =
     (case name_search (as_std a) (slot_args s) of
        Some n \<Rightarrow> if n \<noteq> [] then Some n else None
      | None \<Rightarrow> None)"

section \<open>The handlers\<close>

text \<open>The name goes out: it is fixed, the string keys are looked up, and the call gets its identifier.\<close>

definition send_name :: "arg_setup \<Rightarrow> int \<Rightarrow> nat \<Rightarrow> pystr \<Rightarrow> pystr option \<Rightarrow> calls \<Rightarrow> calls \<times> tool_delta list" where
  "send_name a i k n args c =
     (let s = (c_slots c ! k)\<lparr> slot_name := n, name_sent := True,
                string_keys := streamable_string_keys (properties_dict a n) \<rparr>;
          c' = ensure_tool_id a k n (set_slot k s c)
      in (c', [name_delta i (slot_id (c_slots c' ! k)) n args]))"

definition emit_name_delta :: "arg_setup \<Rightarrow> int \<Rightarrow> nat \<Rightarrow> pystr option \<Rightarrow> calls \<Rightarrow> calls \<times> tool_delta list" where
  "emit_name_delta a i k n c =
     (case n of
        None \<Rightarrow> (c, [])
      | Some n \<Rightarrow> if accept_tool_name a n then send_name a i k n None c else (c, []))"

definition handle_tool_name :: "int \<Rightarrow> pystr \<Rightarrow> calls \<Rightarrow> calls option" where
  "handle_tool_name i v c =
     map_option (\<lambda>k. let s = c_slots c ! k in set_slot k (s\<lparr> slot_name := slot_name s @ v \<rparr>) c)
       (py_index (c_slots c) i)"

text \<open>\<open>_handle_arg_chunk\<close>: the chunk is appended first, then the deltas are made.\<close>

definition add_chunk :: "nat \<Rightarrow> pystr \<Rightarrow> calls \<Rightarrow> calls" where
  "add_chunk k v c = (if v \<noteq> [] then set_slot k (append_args v (c_slots c ! k)) c else c)"

definition chunk_deltas :: "arg_setup \<Rightarrow> int \<Rightarrow> nat \<Rightarrow> pystr \<Rightarrow> calls \<Rightarrow> calls \<times> tool_delta list" where
  "chunk_deltas a i k v c =
     (let s = c_slots c ! k in
      if \<not> name_sent s then
        (if slot_name s \<noteq> [] then emit_name_delta a i k (Some (slot_name s)) c
         else if v \<noteq> [] then emit_name_delta a i k (try_extract_name a s) c
         else (c, []))
      else if v \<noteq> [] then
        (case compute_arg_delta a (c_slots c) s v of
           None \<Rightarrow> (c, [])
         | Some (diff, s') \<Rightarrow> (set_slot k s' c, if diff \<noteq> [] then [args_delta i diff] else []))
      else (c, []))"

definition handle_arg_chunk :: "arg_setup \<Rightarrow> int \<Rightarrow> pystr \<Rightarrow> calls \<Rightarrow> (calls \<times> tool_delta list) option" where
  "handle_arg_chunk a i v c =
     map_option (\<lambda>k. chunk_deltas a i k v (add_chunk k v c)) (py_index (c_slots c) i)"

definition end_name :: "arg_setup \<Rightarrow> slot \<Rightarrow> pystr" where
  "end_name a s = (if slot_name s \<noteq> [] then slot_name s
                   else case try_extract_name a s of Some n \<Rightarrow> n | None \<Rightarrow> [])"

text \<open>\<open>_handle_tool_end\<close>: the converter is flushed first; its rest goes out with the name or alone.\<close>

definition flush_slot :: "arg_setup \<Rightarrow> nat \<Rightarrow> calls \<Rightarrow> pystr \<times> calls" where
  "flush_slot a k c =
     (case flush_arg_converter a (c_slots c) (c_slots c ! k) of
        None \<Rightarrow> ([], c)
      | Some (diff, s') \<Rightarrow> (diff, set_slot k s' c))"

definition end_deltas :: "arg_setup \<Rightarrow> int \<Rightarrow> nat \<Rightarrow> pystr \<Rightarrow> calls \<Rightarrow> calls \<times> tool_delta list" where
  "end_deltas a i k remaining c =
     (let s = c_slots c ! k in
      if \<not> name_sent s \<and> accept_tool_name a (end_name a s)
      then send_name a i k (end_name a s) (Some remaining) c
      else if remaining \<noteq> [] \<and> name_sent s then (c, [args_delta i remaining])
      else (c, []))"

definition handle_tool_end :: "arg_setup \<Rightarrow> int \<Rightarrow> calls \<Rightarrow> (calls \<times> tool_delta list) option" where
  "handle_tool_end a i c =
     (if int (length (c_slots c)) \<le> i then Some (c, [])
      else map_option (\<lambda>k. case flush_slot a k c of (remaining, c') \<Rightarrow> end_deltas a i k remaining c')
             (py_index (c_slots c) i))"

text \<open>One event of an unsuppressed stream; an event without a value carries the empty text.\<close>

definition value_of :: "semantic_event \<Rightarrow> pystr" where
  "value_of ev = (case ev_value ev of None \<Rightarrow> [] | Some v \<Rightarrow> v)"

definition tool_event :: "arg_setup \<Rightarrow> semantic_event \<Rightarrow> calls \<Rightarrow> (calls \<times> tool_delta list) option" where
  "tool_event a ev c =
     (case ev_type ev of
        TOOL_CALL_START \<Rightarrow> Some (ensure_slot (ev_index ev) c, [])
      | event_type.TOOL_NAME \<Rightarrow> map_option (\<lambda>c'. (c', [])) (handle_tool_name (ev_index ev) (value_of ev) c)
      | ARG_VALUE_CHUNK \<Rightarrow> handle_arg_chunk a (ev_index ev) (value_of ev) c
      | TOOL_CALL_END \<Rightarrow> handle_tool_end a (ev_index ev) c
      | _ \<Rightarrow> Some (c, []))"

section \<open>Merging\<close>

definition merge_function :: "delta_function option \<Rightarrow> delta_function option \<Rightarrow> delta_function option" where
  "merge_function old new =
     (case new of
        None \<Rightarrow> old
      | Some f \<Rightarrow>
          (case old of
             None \<Rightarrow> Some f
           | Some g \<Rightarrow> Some \<lparr>
               fn_name = (if fn_name f \<noteq> None \<and> fn_name g = None then fn_name f else fn_name g),
               fn_args = (case fn_args f of
                            None \<Rightarrow> fn_args g
                          | Some y \<Rightarrow> (case fn_args g of None \<Rightarrow> Some y | Some x \<Rightarrow> Some (x @ y))) \<rparr>))"

definition merge_delta :: "tool_delta \<Rightarrow> tool_delta \<Rightarrow> tool_delta" where
  "merge_delta old new = old\<lparr>
     td_id := (if td_id new \<noteq> None \<and> td_id old = None then td_id new else td_id old),
     td_type := (if td_type new \<noteq> None \<and> td_type old = None then td_type new else td_type old),
     td_function := merge_function (td_function old) (td_function new) \<rparr>"

definition coalesce_one :: "tool_delta \<Rightarrow> (int, tool_delta) dict \<Rightarrow> (int, tool_delta) dict" where
  "coalesce_one d m =
     dput (td_index d) (case map_of m (td_index d) of None \<Rightarrow> d | Some old \<Rightarrow> merge_delta old d) m"

definition coalesce_tool_call_deltas :: "tool_delta list \<Rightarrow> tool_delta list" where
  "coalesce_tool_call_deltas ds =
     (let m = fold coalesce_one ds [] in if length m = length ds then ds else map snd m)"

section \<open>What a client reads from the deltas\<close>

definition td_args :: "tool_delta \<Rightarrow> pystr" where
  "td_args d = (case td_function d of None \<Rightarrow> [] | Some f \<Rightarrow> (case fn_args f of None \<Rightarrow> [] | Some v \<Rightarrow> v))"

definition td_names :: "tool_delta \<Rightarrow> pystr list" where
  "td_names d = (case td_function d of None \<Rightarrow> [] | Some f \<Rightarrow> (case fn_name f of None \<Rightarrow> [] | Some n \<Rightarrow> [n]))"

definition of_call :: "int \<Rightarrow> tool_delta list \<Rightarrow> tool_delta list" where
  "of_call i ds = filter (\<lambda>d. td_index d = i) ds"

definition client_args :: "int \<Rightarrow> tool_delta list \<Rightarrow> pystr" where
  "client_args i ds = concat (map td_args (of_call i ds))"

definition client_names :: "int \<Rightarrow> tool_delta list \<Rightarrow> pystr list" where
  "client_names i ds = concat (map td_names (of_call i ds))"

lemma client_simps [simp]:
  "client_args i [] = []" "client_names i [] = []"
  "client_args i (xs @ ys) = client_args i xs @ client_args i ys"
  "client_names i (xs @ ys) = client_names i xs @ client_names i ys"
  "client_args i (d # ds) = (if td_index d = i then td_args d else []) @ client_args i ds"
  "client_names i (d # ds) = (if td_index d = i then td_names d else []) @ client_names i ds"
  by (simp_all add: client_args_def client_names_def of_call_def)

lemma delta_simps [simp]:
  "td_index (name_delta i t n w) = i" "td_index (args_delta i v') = i"
  "td_names (name_delta i t n w) = [n]" "td_names (args_delta i v') = []"
  "td_args (args_delta i v') = v'" "td_args (name_delta i t n None) = []"
  "td_args (name_delta i t n (Some v')) = v'"
  by (simp_all add: name_delta_def args_delta_def td_names_def td_args_def)

text \<open>Merging keeps the arguments of every call, and of its names the first.\<close>

lemma merge_delta_args: "td_args (merge_delta x y) = td_args x @ td_args y"
  by (simp add: merge_delta_def merge_function_def td_args_def split: option.split)

lemma merge_delta_names: "td_names (merge_delta x y) = take 1 (td_names x @ td_names y)"
  by (simp add: merge_delta_def merge_function_def td_names_def split: option.split)

lemma merge_delta_index [simp]: "td_index (merge_delta x y) = td_index x"
  by (simp add: merge_delta_def)

definition keyed :: "(int, tool_delta) dict \<Rightarrow> bool" where
  "keyed m \<longleftrightarrow> dict_ok m \<and> (\<forall>i d. map_of m i = Some d \<longrightarrow> td_index d = i)"

definition at_call :: "(int, tool_delta) dict \<Rightarrow> int \<Rightarrow> tool_delta list" where
  "at_call m i = (case map_of m i of None \<Rightarrow> [] | Some d \<Rightarrow> [d])"

lemma coalesce_one_args:
  "concat (map td_args (at_call (coalesce_one d m) i)) = concat (map td_args (at_call m i)) @ client_args i [d]"
  by (simp add: at_call_def coalesce_one_def merge_delta_args split: option.split)

lemma fold_coalesce_args:
  "concat (map td_args (at_call (fold coalesce_one ds m) i)) = concat (map td_args (at_call m i)) @ client_args i ds"
proof (induction ds arbitrary: m)
  case (Cons d ds)
  show ?case by (simp only: fold_simps Cons.IH coalesce_one_args) simp
qed simp

lemma coalesce_one_names:
  "concat (map td_names (at_call (coalesce_one d m) i))
   = (if td_index d = i \<and> map_of m i \<noteq> None then take 1 (concat (map td_names (at_call m i)) @ client_names i [d])
      else concat (map td_names (at_call m i)) @ client_names i [d])"
  by (simp add: at_call_def coalesce_one_def merge_delta_names split: option.split)

lemma td_names_length: "length (td_names d) \<le> 1"
  by (simp add: td_names_def split: option.split)

lemma take_one_absorb: "take 1 ((if P then take 1 (x @ y) else x @ y) @ z) = take 1 (x @ y @ z)"
  by (cases x; cases y) simp_all

lemma fold_coalesce_names:
  "take 1 (concat (map td_names (at_call (fold coalesce_one ds m) i)))
   = take 1 (concat (map td_names (at_call m i)) @ client_names i ds)"
proof (induction ds arbitrary: m)
  case (Cons d ds)
  let ?x = "concat (map td_names (at_call m i))"
  have "take 1 (concat (map td_names (at_call (coalesce_one d m) i)) @ client_names i ds)
        = take 1 (?x @ client_names i [d] @ client_names i ds)"
    unfolding coalesce_one_names take_one_absorb by (rule refl)
  with Cons.IH [of "coalesce_one d m"] show ?case by (simp add: fold_simps)
qed simp

lemma coalesce_one_keyed: "keyed m \<Longrightarrow> keyed (coalesce_one d m)"
  by (auto simp: keyed_def coalesce_one_def split: option.split if_splits)

lemma fold_coalesce_keyed: "keyed m \<Longrightarrow> keyed (fold coalesce_one ds m)"
  by (induction ds arbitrary: m) (simp_all add: coalesce_one_keyed)

lemma keyed_of_call:
  assumes "keyed m"
  shows "of_call i (map snd m) = at_call m i"
proof -
  have ix: "\<And>j d. (j, d) \<in> set m \<Longrightarrow> td_index d = j"
    using assms by (auto simp: keyed_def)
  have "of_call i (map snd m) = map snd (filter (\<lambda>p. td_index (snd p) = i) m)"
    by (simp add: of_call_def filter_map comp_def)
  also have "filter (\<lambda>p. td_index (snd p) = i) m = filter (\<lambda>p. fst p = i) m"
    using ix by (intro filter_cong) auto
  also have "map snd (filter (\<lambda>p. fst p = i) m) = at_call m i"
    using assms [unfolded keyed_def, THEN conjunct1]
  proof (induction m)
    case (Cons p m)
    show ?case
    proof (cases "fst p = i")
      case True
      with Cons.prems have "filter (\<lambda>p. fst p = i) m = []" by (auto simp: filter_empty_conv rev_image_eqI)
      with True show ?thesis by (cases p) (simp add: at_call_def)
    next
      case False
      with Cons show ?thesis by (cases p) (simp add: at_call_def)
    qed
  qed (simp add: at_call_def)
  finally show ?thesis .
qed

lemma coalesce_args: "client_args i (coalesce_tool_call_deltas ds) = client_args i ds"
proof -
  have k: "keyed (fold coalesce_one ds [])" by (rule fold_coalesce_keyed) (simp add: keyed_def)
  from fold_coalesce_args [of ds "[]" i] show ?thesis
    by (simp add: coalesce_tool_call_deltas_def Let_def client_args_def keyed_of_call [OF k] at_call_def)
qed

lemma coalesce_names:
  "take 1 (client_names i (coalesce_tool_call_deltas ds)) = take 1 (client_names i ds)"
proof -
  have k: "keyed (fold coalesce_one ds [])" by (rule fold_coalesce_keyed) (simp add: keyed_def)
  from fold_coalesce_names [of ds "[]" i] show ?thesis
    by (simp add: coalesce_tool_call_deltas_def Let_def client_names_def keyed_of_call [OF k] at_call_def)
qed

section \<open>Deltas of a parser that parses again and again\<close>

text \<open>
  \<open>compute_tool_delta\<close> of the tool parser utilities: the new arguments less the suffix that is held
  back and less what was sent; \<^term>\<open>Inl\<close> is the error of a suffix that is not there.  The
  call is its identifier, its name and its arguments.
\<close>

definition compute_tool_delta ::
  "pystr \<Rightarrow> pystr \<times> pystr \<times> pystr \<Rightarrow> int \<Rightarrow> pystr \<Rightarrow> unit + tool_delta option" where
  "compute_tool_delta sent call i withheld =
     (case call of (cid, n, args) \<Rightarrow>
        if withheld \<noteq> [] \<and> \<not> suffix withheld args then Inl ()
        else (let kept = take (length args - length withheld) args in
              if sent = [] then Inr (Some (name_delta i cid n (Some kept)))
              else (let diff = drop (length sent) kept
                    in Inr (if diff \<noteq> [] then Some (args_delta i diff) else None))))"

text \<open>While the arguments only grow, what a client has is what was meant to be sent.\<close>

lemma compute_tool_delta_continues:
  assumes "compute_tool_delta sent (cid, n, kept @ withheld) i withheld = Inr d" "prefix sent kept"
  shows "sent @ (case d of None \<Rightarrow> [] | Some x \<Rightarrow> td_args x) = kept"
  using assms by (auto simp: compute_tool_delta_def Let_def suffix_def split: if_splits elim!: prefixE)

end
