(* ===== verification/ToolSync.thy ===== *)
theory ToolSync
  imports ToolDeltas StreamProtocol
begin

text \<open>
  The slots of the calls and what the client has received agree: the invariant \<open>calls_sync\<close>, kept
  by every event that the protocol of the streaming engine allows.
\<close>

section \<open>Slots and deltas\<close>

definition slot_synced :: "arg_setup \<Rightarrow> int \<Rightarrow> slot \<Rightarrow> tool_delta list \<Rightarrow> bool" where
  "slot_synced a i s em \<longleftrightarrow>
     (if name_sent s
      then client_names i em = [slot_name s] \<and> client_args i em = streamed_json s
           \<and> of_call i em \<noteq> [] \<and> td_names (hd (of_call i em)) = [slot_name s]
           \<and> td_id (hd (of_call i em)) = Some (slot_id s)
      else of_call i em = [])"

definition settled :: "arg_setup \<Rightarrow> slot \<Rightarrow> bool" where
  "settled a s \<longleftrightarrow> name_sent s \<or> \<not> accept_tool_name a (end_name a s)"

fun open_slot :: "phase \<Rightarrow> arg_setup \<Rightarrow> slot \<Rightarrow> bool" where
  "open_slot Idle a s = settled a s"
| "open_slot Naming a s = (\<not> name_sent s \<and> streamed_json s = [])"
| "open_slot Arguing a s = (name_sent s \<or> streamed_json s = [])"

definition calls_sync :: "arg_setup \<Rightarrow> phase \<times> int \<Rightarrow> calls \<Rightarrow> tool_delta list \<Rightarrow> bool" where
  "calls_sync a m c em \<longleftrightarrow>
     -1 \<le> snd m \<and> length (c_slots c) = nat (snd m + 1) \<and> (fst m \<noteq> Idle \<longrightarrow> 0 \<le> snd m)
     \<and> (\<forall>k < length (c_slots c). slot_synced a (int k) (c_slots c ! k) em)
     \<and> (\<forall>k < length (c_slots c). if k = nat (snd m) then open_slot (fst m) a (c_slots c ! k) else settled a (c_slots c ! k))
     \<and> (\<forall>d \<in> set em. 0 \<le> td_index d \<and> td_index d \<le> snd m)"

lemma calls_syncI:
  "-1 \<le> n \<Longrightarrow> length (c_slots c) = nat (n + 1) \<Longrightarrow> (p \<noteq> Idle \<Longrightarrow> 0 \<le> n) \<Longrightarrow>
   (\<And>k. k < length (c_slots c) \<Longrightarrow> slot_synced a (int k) (c_slots c ! k) em) \<Longrightarrow>
   (\<And>k. k < length (c_slots c) \<Longrightarrow> k \<noteq> nat n \<Longrightarrow> settled a (c_slots c ! k)) \<Longrightarrow>
   (0 \<le> n \<Longrightarrow> open_slot p a (c_slots c ! nat n)) \<Longrightarrow>
   (\<And>d. d \<in> set em \<Longrightarrow> 0 \<le> td_index d \<and> td_index d \<le> n) \<Longrightarrow> calls_sync a (p, n) c em"
  by (auto simp: calls_sync_def)

lemma calls_syncD:
  assumes "calls_sync a (p, n) c em"
  shows "-1 \<le> n" "length (c_slots c) = nat (n + 1)" "p \<noteq> Idle \<Longrightarrow> 0 \<le> n"
    "k < length (c_slots c) \<Longrightarrow> slot_synced a (int k) (c_slots c ! k) em"
    "k < length (c_slots c) \<Longrightarrow> k \<noteq> nat n \<Longrightarrow> settled a (c_slots c ! k)"
    "0 \<le> n \<Longrightarrow> open_slot p a (c_slots c ! nat n)"
    "d \<in> set em \<Longrightarrow> 0 \<le> td_index d" "d \<in> set em \<Longrightarrow> td_index d \<le> n"
proof -
  have all: "\<forall>k < length (c_slots c). if k = nat n then open_slot p a (c_slots c ! k) else settled a (c_slots c ! k)"
    and len: "length (c_slots c) = nat (n + 1)"
    using assms unfolding calls_sync_def fst_conv snd_conv by blast+
  show "open_slot p a (c_slots c ! nat n)" if "0 \<le> n"
    using all [rule_format, of "nat n"] len that by simp
  show "settled a (c_slots c ! k)" if "k < length (c_slots c)" "k \<noteq> nat n"
    using all [rule_format, of k] that by simp
qed (use assms in \<open>auto simp: calls_sync_def\<close>)

lemma of_call_append [simp]: "of_call i (xs @ ys) = of_call i xs @ of_call i ys"
  by (simp add: of_call_def)

lemma of_call_Nil [simp]: "of_call i [] = []"
  by (simp add: of_call_def)

lemma of_call_other: "(\<And>d. d \<in> set ds \<Longrightarrow> td_index d = j) \<Longrightarrow> i \<noteq> j \<Longrightarrow> of_call i ds = []"
  by (auto simp: of_call_def filter_empty_conv)

lemma client_of_call: "client_names i em = concat (map td_names (of_call i em))"
  "client_args i em = concat (map td_args (of_call i em))"
  by (simp_all add: client_names_def client_args_def)

lemma slot_synced_other: "of_call i ds = [] \<Longrightarrow> slot_synced a i s (em @ ds) = slot_synced a i s em"
  by (simp add: slot_synced_def client_of_call)

text \<open>
  A handler that changes one slot and appends deltas of its call keeps the agreement when the
  slot does.
\<close>

definition updates_call :: "int \<Rightarrow> nat \<Rightarrow> calls \<Rightarrow> calls \<Rightarrow> tool_delta list \<Rightarrow> bool" where
  "updates_call i k c c' ds \<longleftrightarrow>
     length (c_slots c') = length (c_slots c)
     \<and> (\<forall>j < length (c_slots c). j \<noteq> k \<longrightarrow> c_slots c' ! j = c_slots c ! j)
     \<and> (\<forall>d \<in> set ds. td_index d = i)"

lemma updates_call_sync:
  assumes "calls_sync a (p, n) c em" "updates_call (int k) k c c' ds" "k < length (c_slots c)"
    and "slot_synced a (int k) (c_slots c' ! k) (em @ ds)"
    and "k = nat n \<Longrightarrow> open_slot q a (c_slots c' ! k)"
    and "k \<noteq> nat n \<Longrightarrow> settled a (c_slots c' ! k) \<and> q = p"
    and "q \<noteq> Idle \<Longrightarrow> 0 \<le> n"
  shows "calls_sync a (q, n) c' (em @ ds)"
proof (rule calls_syncI)
  note u = assms(2) [unfolded updates_call_def]
  note s = calls_syncD [OF assms(1)]
  show "-1 \<le> n" "length (c_slots c') = nat (n + 1)" using s u by simp_all
  show "0 \<le> n" if "q \<noteq> Idle" using assms(7) that by simp
  show "slot_synced a (int j) (c_slots c' ! j) (em @ ds)" if j: "j < length (c_slots c')" for j
  proof (cases "j = k")
    case False
    with u have "of_call (int j) ds = []" by (intro of_call_other [of _ "int k"]) auto
    with s(4) [of j] u j False show ?thesis by (simp add: slot_synced_other)
  qed (use assms(4) in simp)
  show "settled a (c_slots c' ! j)" if "j < length (c_slots c')" "j \<noteq> nat n" for j
    using that s(5) [of j] u assms(6) by (cases "j = k") auto
  show "open_slot q a (c_slots c' ! nat n)" if "0 \<le> n"
    using that s(2) s(6) u assms(5,6) by (cases "nat n = k") auto
  show "0 \<le> td_index d \<and> td_index d \<le> n" if "d \<in> set (em @ ds)" for d
    using that s(2) s(7,8) u assms(3) by auto
qed

section \<open>The handlers\<close>

lemma set_slot_sel [simp]:
  "c_slots (set_slot k s c) = (c_slots c)[k := s]" "c_count (set_slot k s c) = c_count c"
  by (simp_all add: set_slot_def)

lemma send_name_spec:
  assumes "k < length (c_slots c)"
  obtains c' tid where "send_name a i k n args c = (c', [name_delta i tid n args])"
    "c_slots c' = (c_slots c)[k := (c_slots c ! k)\<lparr> slot_name := n, name_sent := True,
        string_keys := streamable_string_keys (properties_dict a n), slot_id := tid \<rparr>]"
proof -
  have "\<exists>c' tid. send_name a i k n args c = (c', [name_delta i tid n args]) \<and>
    c_slots c' = (c_slots c)[k := (c_slots c ! k)\<lparr> slot_name := n, name_sent := True,
        string_keys := streamable_string_keys (properties_dict a n), slot_id := tid \<rparr>]"
  proof (cases "slot_id (c_slots c ! k) = []")
    case False
    have "\<And>s x. s = slot_id x \<Longrightarrow> slot_id_update (\<lambda>_. s) x = (x :: slot)" by simp
    with False assms show ?thesis
      by (intro exI [of _ "set_slot k ((c_slots c ! k)\<lparr> slot_name := n, name_sent := True,
          string_keys := streamable_string_keys (properties_dict a n) \<rparr>) c"] exI [of _ "slot_id (c_slots c ! k)"])
        (simp add: send_name_def ensure_tool_id_def Let_def)
  qed (use assms in \<open>auto simp: send_name_def ensure_tool_id_def Let_def\<close>)
  then show ?thesis using that by blast
qed

lemma slot_synced_send:
  assumes "slot_synced a i s em" "\<not> name_sent s" "(case args of None \<Rightarrow> [] | Some v \<Rightarrow> v) = streamed_json s'"
    "name_sent s'" "slot_name s' = n" "slot_id s' = tid"
  shows "slot_synced a i s' (em @ [name_delta i tid n args])"
  using assms
  by (cases args) (auto simp: slot_synced_def client_of_call of_call_def name_delta_def td_names_def td_args_def)

lemma of_call_single [simp]: "of_call i [d] = (if td_index d = i then [d] else [])"
  by (simp add: of_call_def)

lemma slot_synced_args:
  assumes "slot_synced a i s em" "name_sent s" "diff = [] \<and> ds = [] \<or> ds = [args_delta i diff]"
  shows "slot_synced a i (s\<lparr> streamed_json := streamed_json s @ diff \<rparr>) (em @ ds)"
proof -
  have e: "client_names i em = [slot_name s]" "client_args i em = streamed_json s" "of_call i em \<noteq> []"
    "td_names (hd (of_call i em)) = [slot_name s]" "td_id (hd (of_call i em)) = Some (slot_id s)"
    using assms(1,2) by (simp_all add: slot_synced_def)
  from assms(3) have "client_names i ds = []" "client_args i ds = diff" by auto
  with e assms(2) show ?thesis by (simp add: slot_synced_def)
qed

lemma slot_synced_append [simp]: "slot_synced a i (append_args v s) em = slot_synced a i s em"
  by (simp add: slot_synced_def append_args_def)

lemma updates_callI:
  "c_slots c' = (c_slots c)[k := s] \<Longrightarrow> list_all (\<lambda>d. td_index d = i) ds \<Longrightarrow> updates_call i k c c' ds"
  by (simp add: updates_call_def list_all_iff)

text \<open>Sending the name settles the slot.\<close>

lemma send_name_sync:
  assumes "calls_sync a (p, n) c0 em" "c_slots c = (c_slots c0)[k := s]" "k = nat n" "0 \<le> n"
    and "slot_synced a (int k) s em" "\<not> name_sent s"
    and "(case args of None \<Rightarrow> [] | Some v \<Rightarrow> v) = streamed_json s"
    and "send_name a (int k) k m args c = (c', ds)" "q \<noteq> Naming"
  shows "calls_sync a (q, n) c' (em @ ds)"
proof -
  have len: "k < length (c_slots c)" "c_slots c ! k = s"
    using assms(2-4) calls_syncD(2) [OF assms(1)] by simp_all
  obtain c1 tid where send: "send_name a (int k) k m args c = (c1, [name_delta (int k) tid m args])"
    "c_slots c1 = (c_slots c)[k := (c_slots c ! k)\<lparr> slot_name := m, name_sent := True,
        string_keys := streamable_string_keys (properties_dict a m), slot_id := tid \<rparr>]"
    using send_name_spec [OF len(1)] by metis
  then have c': "c' = c1" "ds = [name_delta (int k) tid m args]" using assms(8) by auto
  let ?s = "s\<lparr> slot_name := m, name_sent := True,
        string_keys := streamable_string_keys (properties_dict a m), slot_id := tid \<rparr>"
  have slots: "c_slots c' = (c_slots c0)[k := ?s]" using send(2) c' assms(2) len(2) by simp
  have kl: "k < length (c_slots c0)" using assms(2) len(1) by simp
  show ?thesis
  proof (rule updates_call_sync [OF assms(1) _ kl])
    show "updates_call (int k) k c0 c' ds" using slots c' by (intro updates_callI) simp_all
    show "slot_synced a (int k) (c_slots c' ! k) (em @ ds)"
      using slot_synced_send [OF assms(5,6)] assms(7) slots kl c' by simp
    show "open_slot q a (c_slots c' ! k)"
      using slots kl assms(9) by (cases q) (simp_all add: settled_def)
  qed (use assms(3,4) in auto)
qed

text \<open>The arguments grow; nothing is sent.\<close>

lemma add_chunk_slots:
  "k < length (c_slots c) \<Longrightarrow>
   c_slots (add_chunk k v c) = (c_slots c)[k := (c_slots c ! k)\<lparr> slot_args := slot_args (c_slots c ! k) @ v \<rparr>]"
  by (auto simp: add_chunk_def append_args_def)

lemma slot_synced_more_args [simp]: "slot_synced a i (s\<lparr> slot_args := v \<rparr>) em = slot_synced a i s em"
  by (simp add: slot_synced_def)

lemma add_chunk_sync:
  assumes "calls_sync a (p, n) c em" "p \<noteq> Idle"
  shows "calls_sync a (Arguing, n) (add_chunk (nat n) v c) em"
proof -
  have n: "0 \<le> n" using calls_syncD(3) [OF assms] .
  have kl: "nat n < length (c_slots c)" using calls_syncD(2) [OF assms(1)] n by simp
  have op: "open_slot p a (c_slots c ! nat n)" by (rule calls_syncD(6) [OF assms(1) n])
  note sl = add_chunk_slots [OF kl, of v]
  have "calls_sync a (Arguing, n) (add_chunk (nat n) v c) (em @ [])"
  proof (rule updates_call_sync [OF assms(1) _ kl])
    show "updates_call (int (nat n)) (nat n) c (add_chunk (nat n) v c) []" by (rule updates_callI [OF sl]) simp
    show "slot_synced a (int (nat n)) (c_slots (add_chunk (nat n) v c) ! nat n) (em @ [])"
      using calls_syncD(4) [OF assms(1) kl] kl by (simp add: sl)
    show "open_slot Arguing a (c_slots (add_chunk (nat n) v c) ! nat n)"
      using op assms(2) kl by (cases p) (simp_all add: sl)
  qed (use n in auto)
  then show ?thesis by simp
qed

lemma emit_name_sync:
  assumes sync: "calls_sync a (Arguing, n) c em" and ns: "\<not> name_sent (c_slots c ! nat n)"
    and r: "emit_name_delta a n (nat n) x c = (c', ds)"
  shows "calls_sync a (Arguing, n) c' (em @ ds)"
proof (cases "\<exists>m. x = Some m \<and> accept_tool_name a m")
  case True
  have n: "0 \<le> n" using calls_syncD(3) [OF sync] by simp
  have kl: "nat n < length (c_slots c)" using calls_syncD(2) [OF sync] n by simp
  from True obtain m where "send_name a (int (nat n)) (nat n) m None c = (c', ds)"
    using r n by (auto simp: emit_name_delta_def)
  moreover have "streamed_json (c_slots c ! nat n) = []" using calls_syncD(6) [OF sync n] ns by simp
  ultimately show ?thesis
    by (intro send_name_sync [OF sync _ refl n calls_syncD(4) [OF sync kl] ns, of c None m c' ds Arguing]) simp_all
next
  case False
  then have "c' = c \<and> ds = []" using r by (auto simp: emit_name_delta_def split: option.splits)
  with sync show ?thesis by simp
qed

text \<open>More arguments of a call whose name is out.\<close>

lemma more_args_sync:
  assumes sync: "calls_sync a (p, n) c em" and kl: "k < length (c_slots c)"
    and ns: "name_sent (c_slots c ! k)" and p: "p \<noteq> Naming"
    and diff: "s' = (c_slots c ! k)\<lparr> streamed_json := streamed_json (c_slots c ! k) @ diff \<rparr>"
    and ds: "diff = [] \<and> ds = [] \<or> ds = [args_delta (int k) diff]"
  shows "calls_sync a (p, n) (set_slot k s' c) (em @ ds)"
proof (rule updates_call_sync [OF sync _ kl])
  show "updates_call (int k) k c (set_slot k s' c) ds"
    using ds by (intro updates_callI [of _ _ _ s']) auto
  show "slot_synced a (int k) (c_slots (set_slot k s' c) ! k) (em @ ds)"
    using slot_synced_args [OF calls_syncD(4) [OF sync kl] ns ds] kl by (simp add: diff)
  show "open_slot p a (c_slots (set_slot k s' c) ! k)"
    using ns p kl by (cases p) (simp_all add: diff settled_def)
  show "settled a (c_slots (set_slot k s' c) ! k) \<and> p = p"
    using ns kl by (simp add: diff settled_def)
qed (rule calls_syncD(3) [OF sync])

lemma chunk_deltas_sync:
  assumes sync: "calls_sync a (Arguing, n) c em" and conv: "as_converter a \<noteq> None"
    and r: "chunk_deltas a n (nat n) v c = (c', ds)"
  shows "calls_sync a (Arguing, n) c' (em @ ds)"
proof -
  have n: "0 \<le> n" using calls_syncD(3) [OF sync] by simp
  have kl: "nat n < length (c_slots c)" using calls_syncD(2) [OF sync] n by simp
  let ?s = "c_slots c ! nat n"
  have quiet: "calls_sync a (Arguing, n) c (em @ [])" using sync by simp
  show ?thesis
  proof (cases "name_sent ?s")
    case False
    then have r: "(if slot_name ?s \<noteq> [] then emit_name_delta a n (nat n) (Some (slot_name ?s)) c
        else if v \<noteq> [] then emit_name_delta a n (nat n) (try_extract_name a ?s) c else (c, [])) = (c', ds)"
      using r by (simp add: chunk_deltas_def Let_def)
    show ?thesis
    proof (cases "slot_name ?s = [] \<and> v = []")
      case idle: True
      with r quiet show ?thesis by simp
    next
      case talk: False
      with r obtain x where "emit_name_delta a n (nat n) x c = (c', ds)" by (metis (full_types))
      then show ?thesis by (rule emit_name_sync [OF sync False])
    qed
  next
    case True
    show ?thesis
    proof (cases "v \<noteq> [] \<and> compute_arg_delta a (c_slots c) ?s v \<noteq> None")
      case False
      with True r have "(c, []) = (c', ds)" by (auto simp: chunk_deltas_def Let_def split: if_splits option.splits)
      with quiet show ?thesis by simp
    next
      case arg: True
      then obtain diff s' where d: "compute_arg_delta a (c_slots c) ?s v = Some (diff, s')" by fastforce
      have s': "s' = ?s\<lparr> streamed_json := streamed_json ?s @ diff \<rparr>"
        using compute_arg_delta_extends [OF d conv] by metis
      have c': "c' = set_slot (nat n) s' c" "ds = (if diff \<noteq> [] then [args_delta n diff] else [])"
        using r True arg d by (simp_all add: chunk_deltas_def Let_def)
      show ?thesis unfolding c'(1)
        by (rule more_args_sync [OF sync kl True _ s']) (use c'(2) n in auto)
    qed
  qed
qed

text \<open>The end of a call settles it; a second end changes nothing that matters.\<close>

lemma end_name_streamed [simp]: "end_name a (s\<lparr> streamed_json := v \<rparr>) = end_name a s"
  by (simp add: end_name_def try_extract_name_def)

lemma flush_slot_spec:
  assumes "k < length (c_slots c)"
  obtains diff c' where "flush_slot a k c = (diff, c')"
    "c_slots c' = (c_slots c)[k := (c_slots c ! k)\<lparr> streamed_json := streamed_json (c_slots c ! k) @ diff \<rparr>]"
proof (cases "flush_arg_converter a (c_slots c) (c_slots c ! k)")
  case None
  show ?thesis by (rule that [of "[]" c]) (simp_all add: flush_slot_def None)
next
  case (Some r)
  obtain diff s' where r: "r = (diff, s')" by fastforce
  note x = flush_arg_converter_extends [OF Some [unfolded r]]
  then have s': "s' = (c_slots c ! k)\<lparr> streamed_json := streamed_json (c_slots c ! k) @ diff \<rparr>" by metis
  show ?thesis by (rule that [of diff "set_slot k s' c"]) (simp_all add: flush_slot_def Some r s')
qed

lemma tool_end_sync:
  assumes sync: "calls_sync a (p, n) c em" and n: "0 \<le> n" and p: "p = Naming \<Longrightarrow> True"
  shows "\<exists>c' ds. handle_tool_end a n c = Some (c', ds) \<and> calls_sync a (Idle, n) c' (em @ ds)"
proof -
  let ?k = "nat n"
  have kl: "?k < length (c_slots c)" using calls_syncD(2) [OF sync] n by simp
  let ?s = "c_slots c ! ?k"
  obtain diff c1 where fl: "flush_slot a ?k c = (diff, c1)"
    "c_slots c1 = (c_slots c)[?k := ?s\<lparr> streamed_json := streamed_json ?s @ diff \<rparr>]"
    by (rule flush_slot_spec [OF kl, of a])
  obtain c2 ds where e: "end_deltas a n ?k diff c1 = (c2, ds)" by fastforce
  have sl: "c_slots c1 ! ?k = ?s\<lparr> streamed_json := streamed_json ?s @ diff \<rparr>" using fl(2) kl by simp
  have h: "handle_tool_end a n c = Some (c2, ds)"
    using kl n fl(1) e by (simp add: handle_tool_end_def py_index_def nat_less_iff)
  have synced: "slot_synced a (int ?k) ?s em" by (rule calls_syncD(4) [OF sync kl])
  have op: "open_slot p a ?s" by (rule calls_syncD(6) [OF sync n])
  have "calls_sync a (Idle, n) c2 (em @ ds)"
  proof (cases "\<not> name_sent ?s \<and> accept_tool_name a (end_name a ?s)")
    case True
    then have old: "streamed_json ?s = []" using op by (cases p) (simp_all add: settled_def)
    from True e have "send_name a (int ?k) ?k (end_name a ?s) (Some diff) c1 = (c2, ds)"
      using sl n by (simp add: end_deltas_def Let_def)
    then show ?thesis
      by (intro send_name_sync [OF sync fl(2) refl n _ _ _ _, of "Some diff" "end_name a ?s" c2 ds Idle])
        (use True old synced in \<open>simp_all add: slot_synced_def\<close>)
  next
    case no_name: False
    then have c2: "c2 = c1" "ds = (if diff \<noteq> [] \<and> name_sent ?s then [args_delta n diff] else [])"
      using e sl by (simp_all add: end_deltas_def Let_def split: if_splits)
    have set: "settled a (?s\<lparr> streamed_json := streamed_json ?s @ diff \<rparr>)"
      using no_name by (simp add: settled_def)
    show ?thesis
    proof (rule updates_call_sync [OF sync _ kl])
      show "updates_call (int ?k) ?k c c2 ds"
        using fl(2) c2 n by (intro updates_callI [of _ _ _ "?s\<lparr> streamed_json := streamed_json ?s @ diff \<rparr>"]) simp_all
      show "slot_synced a (int ?k) (c_slots c2 ! ?k) (em @ ds)"
      proof (cases "name_sent ?s")
        case True
        show ?thesis unfolding c2(1) sl
          by (rule slot_synced_args [OF synced True]) (use c2(2) True n in auto)
      next
        case False
        with synced c2 sl show ?thesis by (simp add: slot_synced_def)
      qed
      show "open_slot Idle a (c_slots c2 ! ?k)" using set c2(1) sl by simp
    qed auto
  qed
  with h show ?thesis by blast
qed

text \<open>Another end of an earlier call, as \<open>finish\<close> may emit it.\<close>

lemma repeated_end_sync:
  assumes sync: "calls_sync a (Idle, n) c em" and n: "0 \<le> n"
  shows "\<exists>c' ds. handle_tool_end a n c = Some (c', ds) \<and> calls_sync a (Idle, n) c' (em @ ds)"
  by (rule tool_end_sync [OF sync n]) simp

section \<open>Every event of the protocol\<close>

lemma new_slot_sync:
  assumes "calls_sync a (Idle, n) c em"
  shows "calls_sync a (Naming, n + 1) (ensure_slot (n + 1) c) em"
proof (rule calls_syncI)
  note s = calls_syncD [OF assms]
  have len: "length (c_slots c) = nat (n + 1)" by (rule s(2))
  moreover have "nat (n + 1 + 1) - nat (n + 1) = Suc 0" using s(1) by arith
  ultimately have sl: "c_slots (ensure_slot (n + 1) c) = c_slots c @ [new_slot]"
    by (simp add: ensure_slot_def)
  have old: "settled a (c_slots c ! k)" if "k < length (c_slots c)" for k
  proof (cases "k = nat n")
    case True
    with s(6) that len show ?thesis by (cases "0 \<le> n") simp_all
  qed (use s(5) that in simp)
  have none: "of_call (n + 1) em = []"
    using s(8) by (force simp: of_call_def filter_empty_conv)
  show "-1 \<le> n + 1" using s(1) by simp
  show "length (c_slots (ensure_slot (n + 1) c)) = nat (n + 1 + 1)" using s(1) len by (simp add: sl)
  show "0 \<le> n + 1" using s(1) by simp
  show "slot_synced a (int k) (c_slots (ensure_slot (n + 1) c) ! k) em"
    if "k < length (c_slots (ensure_slot (n + 1) c))" for k
  proof (cases "k < length (c_slots c)")
    case True
    then show ?thesis using s(4) by (simp add: sl nth_append)
  next
    case False
    with that have "k = nat (n + 1)" by (simp add: sl len)
    then have "int k = n + 1" using s(1) by simp
    with none False that show ?thesis by (simp add: sl nth_append slot_synced_def new_slot_def)
  qed
  show "settled a (c_slots (ensure_slot (n + 1) c) ! k)"
    if "k < length (c_slots (ensure_slot (n + 1) c))" "k \<noteq> nat (n + 1)" for k
    using that old len by (simp add: sl nth_append)
  show "open_slot Naming a (c_slots (ensure_slot (n + 1) c) ! nat (n + 1))"
    using len by (simp add: sl nth_append new_slot_def)
  show "0 \<le> td_index d \<and> td_index d \<le> n + 1" if "d \<in> set em" for d
    using s(7,8) that by force
qed

lemma tool_name_sync:
  assumes sync: "calls_sync a (Naming, n) c em"
  shows "\<exists>c'. handle_tool_name n v c = Some c' \<and> calls_sync a (Naming, n) c' em"
proof -
  have n: "0 \<le> n" using calls_syncD(3) [OF sync] by simp
  have kl: "nat n < length (c_slots c)" using calls_syncD(2) [OF sync] n by simp
  let ?s = "c_slots c ! nat n"
  let ?c = "set_slot (nat n) (?s\<lparr> slot_name := slot_name ?s @ v \<rparr>) c"
  have op: "open_slot Naming a ?s" by (rule calls_syncD(6) [OF sync n])
  have "calls_sync a (Naming, n) ?c (em @ [])"
  proof (rule updates_call_sync [OF sync _ kl])
    show "updates_call (int (nat n)) (nat n) c ?c []" by (rule updates_callI [OF set_slot_sel(1)]) simp
    show "slot_synced a (int (nat n)) (c_slots ?c ! nat n) (em @ [])"
      using calls_syncD(4) [OF sync kl] op kl by (simp add: slot_synced_def)
    show "open_slot Naming a (c_slots ?c ! nat n)" using op kl by simp
  qed (use n in auto)
  moreover have "handle_tool_name n v c = Some ?c"
    using kl n by (simp add: handle_tool_name_def py_index_def Let_def)
  ultimately show ?thesis by simp
qed

lemma arg_chunk_sync:
  assumes sync: "calls_sync a (p, n) c em" and p: "p \<noteq> Idle" and conv: "as_converter a \<noteq> None"
  shows "\<exists>c' ds. handle_arg_chunk a n v c = Some (c', ds) \<and> calls_sync a (Arguing, n) c' (em @ ds)"
proof -
  have n: "0 \<le> n" by (rule calls_syncD(3) [OF sync p])
  have kl: "nat n < length (c_slots c)" using calls_syncD(2) [OF sync] n by simp
  obtain c' ds where r: "chunk_deltas a n (nat n) v (add_chunk (nat n) v c) = (c', ds)" by fastforce
  have "handle_arg_chunk a n v c = Some (c', ds)"
    using kl n r by (simp add: handle_arg_chunk_def py_index_def)
  with chunk_deltas_sync [OF add_chunk_sync [OF sync p] conv r] show ?thesis by blast
qed

lemma phase_stepE:
  assumes "phase_step k p = Some q"
  obtains "k = TOOL_CALL_START" "p = Idle" "q = Naming"
    | "k = NAME_EVENT" "p = Naming" "q = Naming"
    | "k = ARG_VALUE_CHUNK" "p \<noteq> Idle" "q = Arguing"
    | "k = TOOL_CALL_END" "p \<noteq> Idle" "q = Idle"
    | "\<not> call_event k" "p = Idle" "q = Idle"
  using assms by (cases "(k, p)" rule: phase_step.cases) (auto simp: call_event_def)

text \<open>The step lemma: the slots stay in agreement with what the client has received.\<close>

lemma tool_event_sync:
  assumes sync: "calls_sync a (p, n) c em" and step: "proto_step ev (p, n) = Some m"
    and conv: "as_converter a \<noteq> None"
  shows "\<exists>c' ds. tool_event a ev c = Some (c', ds) \<and> calls_sync a m c' (em @ ds)"
proof -
  obtain k v i where ev: "ev = SemanticEvent k v i" by (cases ev)
  define n' where "n' = (if k = TOOL_CALL_START then n + 1 else n)"
  have ix: "call_event k \<Longrightarrow> i = n'" and q: "\<exists>q. phase_step k p = Some q \<and> m = (q, n')"
    using step unfolding ev n'_def by (auto simp: Let_def split: if_splits option.splits)
  from q obtain q where q: "phase_step k p = Some q" "m = (q, n')" by blast
  from q(1) show ?thesis
  proof (cases rule: phase_stepE)
    case 1
    with new_slot_sync [of a n c em] sync ix show ?thesis
      by (simp add: tool_event_def ev q(2) n'_def call_event_def)
  next
    case 2
    with tool_name_sync [of a n c em] sync ix show ?thesis
      by (fastforce simp: tool_event_def ev q(2) n'_def call_event_def)
  next
    case 3
    with arg_chunk_sync [OF sync _ conv] ix show ?thesis
      by (simp add: tool_event_def ev q(2) n'_def call_event_def)
  next
    case 4
    with tool_end_sync [OF sync] calls_syncD(3) [OF sync] ix show ?thesis
      by (simp add: tool_event_def ev q(2) n'_def call_event_def)
  next
    case 5
    with sync show ?thesis
      by (cases k) (simp_all add: tool_event_def ev q(2) n'_def call_event_def)
  qed
qed

fun tool_events :: "arg_setup \<Rightarrow> semantic_event list \<Rightarrow> calls \<Rightarrow> (calls \<times> tool_delta list) option" where
  "tool_events a [] c = Some (c, [])"
| "tool_events a (ev # evs) c =
     (case tool_event a ev c of
        None \<Rightarrow> None
      | Some (c1, ds) \<Rightarrow> map_option (\<lambda>(c2, ds'). (c2, ds @ ds')) (tool_events a evs c1))"

lemma tool_events_sync:
  assumes "calls_sync a m c em" "proto_run evs m = Some m'" "as_converter a \<noteq> None"
  shows "\<exists>c' ds. tool_events a evs c = Some (c', ds) \<and> calls_sync a m' c' (em @ ds)"
  using assms(1,2)
proof (induction evs arbitrary: m c em)
  case (Cons ev evs)
  obtain m1 where m1: "proto_step ev m = Some m1" "proto_run evs m1 = Some m'"
    using Cons.prems(2) by (auto split: option.splits)
  obtain c1 ds where c1: "tool_event a ev c = Some (c1, ds)" "calls_sync a m1 c1 (em @ ds)"
    using tool_event_sync [of a "fst m" "snd m" c em ev m1] Cons.prems(1) m1(1) assms(3) by auto
  from Cons.IH [OF c1(2) m1(2)] obtain c' ds' where
    "tool_events a evs c1 = Some (c', ds')" "calls_sync a m' c' ((em @ ds) @ ds')" by blast
  with c1(1) show ?case by simp
qed simp

lemma tool_events_append:
  "tool_events a (xs @ ys) c =
     (case tool_events a xs c of
        None \<Rightarrow> None
      | Some (c1, ds) \<Rightarrow> map_option (\<lambda>(c2, ds'). (c2, ds @ ds')) (tool_events a ys c1))"
proof (induction xs arbitrary: c)
  case Nil
  show ?case by (cases "tool_events a ys c") auto
next
  case (Cons x xs)
  show ?case
  proof (cases "tool_event a x c")
    case (Some r)
    obtain c1 ds where r: "r = (c1, ds)" by fastforce
    show ?thesis
    proof (cases "tool_events a xs c1")
      case xs: (Some r1)
      then show ?thesis
        by (cases r1; cases "tool_events a ys (fst r1)") (auto simp: Some r Cons.IH)
    qed (simp add: Some r Cons.IH)
  qed simp
qed

lemma calls_sync_start: "calls_sync a (Idle, -1) \<lparr> c_slots = [], c_count = m \<rparr> []"
  by (simp add: calls_sync_def)

end
