(* ===== verification/ParserEngine.thy ===== *)
theory ParserEngine
  imports ToolSync
begin

text \<open>
  \<open>ParserEngine\<close> (\<open>parser-engine.dsml-orphan.py\<close>): events become the messages of a stream,
  and the results of the calls that parse a whole output.  The base class \<open>Parser\<close>, the request
  and the message types are not part of the repository; the request is a record of what the code
  reads of it, and the history of tool calls is a function of the setup.
\<close>

section \<open>State\<close>

record delta_message =
  msg_content :: "pystr option"
  msg_reasoning :: "pystr option"
  msg_tools :: "tool_delta list"

record request =
  req_tools :: "tool list option"
  req_choice_none :: bool
  req_include_reasoning :: bool

text \<open>What a parser never assigns after its construction.\<close>

record ('lx, 'sc) parser_setup =
  px_frontend :: "('lx, 'sc) frontend"
  px_std :: pystd
  px_converter :: "(tool list option \<Rightarrow> slot list \<Rightarrow> pystr \<Rightarrow> bool \<Rightarrow> pystr option) option"
  px_mk_id :: "pystr \<Rightarrow> nat \<Rightarrow> pystr"
  px_history :: "request \<Rightarrow> nat \<Rightarrow> nat"
  px_start_id :: "int option"
  px_end_id :: "int option"

record ('lx, 'sc) parser =
  pa_engine :: "('lx, 'sc) engine"
  pa_setup :: engine_setup
  pa_tools :: "tool list option"
  pa_calls :: calls
  reasoning_ended :: bool
  streaming_initialized :: bool
  prompt_prepared :: bool
  deferred_content :: pystr
  deferred_reasoning :: pystr
  content_has_nonws :: bool
  pa_suppress :: bool

abbreviation pa_config :: "('lx, 'sc) parser \<Rightarrow> parser_config" where
  "pa_config p \<equiv> config (pa_setup p)"

definition args_of :: "('lx, 'sc) parser_setup \<Rightarrow> ('lx, 'sc) parser \<Rightarrow> arg_setup" where
  "args_of x p = \<lparr> as_std = px_std x, as_tools = pa_tools p,
     as_validate = validate_tool_names (pa_config p),
     as_converter = map_option (\<lambda>f. f (pa_tools p)) (px_converter x),
     as_stream = stream_arg_deltas (pa_config p),
     as_structural = arg_structural_chars (pa_config p),
     as_mk_id = px_mk_id x \<rparr>"

definition has_reasoning :: "parser_config \<Rightarrow> bool" where
  "has_reasoning cfg \<longleftrightarrow> map_of (token_id_terminals cfg) ''THINK_END'' \<noteq> None
     \<or> map_of (terminals cfg) ''THINK_START'' \<noteq> None \<or> map_of (terminals cfg) ''THINK_END'' \<noteq> None
     \<or> initial_state cfg = REASONING"

definition declared_tool_names :: "tool list option \<Rightarrow> pystr set option" where
  "declared_tool_names tools =
     (case tools of
        None \<Rightarrow> None
      | Some ts \<Rightarrow> if collect_tool_names ts = {} then None else Some (collect_tool_names ts))"

definition reset_parser ::
  "('lx, 'sc) parser_setup \<Rightarrow> parser_state option \<Rightarrow> ('lx, 'sc) parser \<Rightarrow> ('lx, 'sc) parser" where
  "reset_parser x init p = p\<lparr>
     pa_engine := reset_engine (px_frontend x) (pa_setup p) init (lexer (pa_engine p)) (scanner (pa_engine p)),
     reasoning_ended := \<not> has_reasoning (pa_config p),
     pa_calls := (pa_calls p)\<lparr> c_slots := [] \<rparr>, deferred_content := [], deferred_reasoning := [],
     content_has_nonws := False, prompt_prepared := False \<rparr>"

definition initialize_streaming ::
  "('lx, 'sc) parser_setup \<Rightarrow> ('lx, 'sc) parser \<Rightarrow> ('lx, 'sc) parser" where
  "initialize_streaming x p =
     (if streaming_initialized p then p else reset_parser x None (p\<lparr> streaming_initialized := True \<rparr>))"

definition check_skip_tool_parsing :: "request \<Rightarrow> ('lx, 'sc) parser \<Rightarrow> ('lx, 'sc) parser" where
  "check_skip_tool_parsing r p =
     (let tools = (case req_tools r of Some (t # ts) \<Rightarrow> Some (t # ts) | _ \<Rightarrow> None);
          p1 = (case tools of
                  Some ts \<Rightarrow> p\<lparr> pa_tools := Some ts,
                    pa_setup := (pa_setup p)\<lparr> allowed_tool_names := declared_tool_names (Some ts) \<rparr> \<rparr>
                | None \<Rightarrow> p\<lparr> pa_setup := (pa_setup p)\<lparr> allowed_tool_names := None \<rparr> \<rparr>);
          suppress = (pa_suppress p \<or> \<not> skip_tool_parsing (pa_setup p) \<and> req_choice_none r \<and> tools \<noteq> None)
      in p1\<lparr> pa_suppress := suppress,
             pa_setup := (pa_setup p1)\<lparr> suppress_tool_calls := suppress \<rparr> \<rparr>)"

section \<open>Events to a message\<close>

text \<open>The loop over the events; parts are kept as the text they are joined to.\<close>

record batch =
  b_calls :: calls
  b_deltas :: "tool_delta list"
  b_content :: pystr
  b_reasoning :: pystr
  b_deferred :: pystr
  b_ended :: bool
  b_seen :: bool

definition batch_event :: "arg_setup \<Rightarrow> bool \<Rightarrow> semantic_event \<Rightarrow> batch \<Rightarrow> batch option" where
  "batch_event a suppress ev b =
     (case ev_type ev of
        TEXT_CHUNK \<Rightarrow> Some (if b_seen b then b\<lparr> b_deferred := b_deferred b @ value_of ev \<rparr>
                            else b\<lparr> b_content := b_content b @ value_of ev \<rparr>)
      | REASONING_CHUNK \<Rightarrow> Some (b\<lparr> b_reasoning := b_reasoning b @ value_of ev \<rparr>)
      | REASONING_END \<Rightarrow> Some (b\<lparr> b_ended := True \<rparr>)
      | REASONING_START \<Rightarrow> Some b
      | _ \<Rightarrow> if suppress then Some b
             else map_option (\<lambda>(c, ds). b\<lparr> b_seen := True, b_calls := c, b_deltas := b_deltas b @ ds \<rparr>)
                    (tool_event a ev (b_calls b)))"

fun batch_events :: "arg_setup \<Rightarrow> bool \<Rightarrow> semantic_event list \<Rightarrow> batch \<Rightarrow> batch option" where
  "batch_events a suppress [] b = Some b"
| "batch_events a suppress (ev # evs) b =
     (case batch_event a suppress ev b of None \<Rightarrow> None | Some b' \<Rightarrow> batch_events a suppress evs b')"

definition start_batch :: "('lx, 'sc) parser \<Rightarrow> batch" where
  "start_batch p = \<lparr> b_calls = pa_calls p, b_deltas = [], b_content = [], b_reasoning = [],
     b_deferred = deferred_content p, b_ended = reasoning_ended p, b_seen = False \<rparr>"

text \<open>
  The text that goes out: what was deferred goes first unless the batch has tool deltas, and
  whitespace before any other text is dropped or deferred.  The result is the text that goes
  out, the text that stays deferred, and whether text other than whitespace has been seen.
\<close>

definition ready_text :: "batch \<Rightarrow> pystr \<times> pystr" where
  "ready_text b =
     (if b_deferred b \<noteq> [] \<and> (\<not> b_seen b \<or> b_deltas b = []) then (b_deferred b @ b_content b, [])
      else (b_content b, b_deferred b))"

definition hold_blank :: "bool \<Rightarrow> bool \<Rightarrow> bool \<Rightarrow> bool \<Rightarrow> pystr \<Rightarrow> pystr \<Rightarrow> pystr \<times> pystr \<times> bool" where
  "hold_blank drop_ws nonws finished has_slots t kept =
     (if nonws then (t, kept, True)
      else if t = [] then (t, kept, False)
      else if ustrip t \<noteq> [] then (t, kept, True)
      else if has_slots then (if drop_ws then [] else t, kept, False)
      else if \<not> finished then ([], t, False)
      else (t, kept, False))"

definition flush_content :: "bool \<Rightarrow> bool \<Rightarrow> bool \<Rightarrow> batch \<Rightarrow> pystr \<times> pystr \<times> bool" where
  "flush_content drop_ws nonws finished b =
     (case ready_text b of (t, kept) \<Rightarrow> hold_blank drop_ws nonws finished (c_slots (b_calls b) \<noteq> []) t kept)"

definition nonempty :: "pystr \<Rightarrow> pystr option" where
  "nonempty s = (if s = [] then None else Some s)"

definition make_message :: "pystr \<Rightarrow> pystr \<Rightarrow> tool_delta list \<Rightarrow> delta_message option" where
  "make_message content reasoning ds =
     (if content \<noteq> [] \<or> ds \<noteq> [] \<or> reasoning \<noteq> []
      then Some \<lparr> msg_content = nonempty content, msg_reasoning = nonempty reasoning, msg_tools = ds \<rparr>
      else None)"

definition events_to_delta ::
  "('lx, 'sc) parser_setup \<Rightarrow> semantic_event list \<Rightarrow> bool \<Rightarrow> ('lx, 'sc) parser
     \<Rightarrow> (delta_message option \<times> ('lx, 'sc) parser) option" where
  "events_to_delta x evs finished p =
     (if evs = [] \<and> deferred_content p = [] then Some (None, p)
      else case batch_events (args_of x p) (pa_suppress p) evs (start_batch p) of
             None \<Rightarrow> None
           | Some b \<Rightarrow>
               (let ds = (if length (b_deltas b) > 1 then coalesce_tool_call_deltas (b_deltas b) else b_deltas b);
                    (content, kept, nonws) =
                      flush_content (drop_whitespace_only_content_before_tools (pa_config p))
                        (content_has_nonws p) finished b
                in Some (make_message content (b_reasoning b) ds,
                     p\<lparr> pa_calls := b_calls b, reasoning_ended := b_ended b, deferred_content := kept,
                        content_has_nonws := nonws \<rparr>)))"

definition finish_streaming ::
  "('lx, 'sc) parser_setup \<Rightarrow> ('lx, 'sc) parser \<Rightarrow> (delta_message option \<times> ('lx, 'sc) parser) option" where
  "finish_streaming x p =
     (let (evs, e) = finish (px_frontend x) (pa_setup p) (pa_engine p); p1 = p\<lparr> pa_engine := e \<rparr>
      in if evs \<noteq> [] \<or> deferred_content p1 \<noteq> [] then events_to_delta x evs True p1 else Some (None, p1))"

text \<open>Trailing whitespace of the reasoning waits until more reasoning follows.\<close>

definition strip_trailing_reasoning ::
  "delta_message option \<Rightarrow> ('lx, 'sc) parser \<Rightarrow> delta_message option \<times> ('lx, 'sc) parser" where
  "strip_trailing_reasoning d p =
     (if \<not> strip_trailing_reasoning_whitespace (pa_config p) then (d, p)
      else case d of
             Some m \<Rightarrow>
               (case msg_reasoning m of
                  Some r \<Rightarrow>
                    (let combined = deferred_reasoning p @ r;
                         trimmed = urstrip combined;
                         m' = m\<lparr> msg_reasoning := nonempty trimmed \<rparr>;
                         p' = p\<lparr> deferred_reasoning := drop (length trimmed) combined \<rparr>
                     in (if msg_reasoning m' = None \<and> msg_content m' = None \<and> msg_tools m' = []
                         then None else Some m', p'))
                | None \<Rightarrow> (d, if deferred_reasoning p \<noteq> [] \<and> reasoning_ended p then p\<lparr> deferred_reasoning := [] \<rparr> else p))
           | None \<Rightarrow> (d, if deferred_reasoning p \<noteq> [] \<and> reasoning_ended p then p\<lparr> deferred_reasoning := [] \<rparr> else p))"

text \<open>\<open>parse_delta\<close>; the base class's \<open>adjust_initial_state_from_prompt\<close> does nothing.\<close>

definition hide_reasoning :: "request \<Rightarrow> delta_message option \<Rightarrow> delta_message option" where
  "hide_reasoning r d =
     (case d of
        Some m \<Rightarrow> if req_include_reasoning r then d
                  else if (msg_content m = None \<or> msg_content m = Some []) \<and> msg_tools m = [] then None
                  else Some (m\<lparr> msg_reasoning := None \<rparr>)
      | None \<Rightarrow> None)"

definition parse_delta ::
  "('lx, 'sc) parser_setup \<Rightarrow> request \<Rightarrow> pystr \<Rightarrow> int list \<Rightarrow> bool \<Rightarrow> bool \<Rightarrow> ('lx, 'sc) parser
     \<Rightarrow> (delta_message option \<times> ('lx, 'sc) parser) option" where
  "parse_delta x r text ids has_prompt finished p0 =
     (let p1 = p0\<lparr> pa_calls := (pa_calls p0)\<lparr> c_count := px_history x r (c_count (pa_calls p0)) \<rparr>,
                    prompt_prepared := (prompt_prepared p0 \<or> has_prompt) \<rparr>;
          p2 = check_skip_tool_parsing r p1;
          (evs, e) = feed (px_frontend x) (pa_setup p2) text ids (pa_engine p2);
          (evs', e') = (if finished then finish (px_frontend x) (pa_setup p2) e else ([], e));
          p3 = p2\<lparr> pa_engine := e' \<rparr>
      in case events_to_delta x (evs @ evs') finished p3 of
           None \<Rightarrow> None
         | Some (d, p4) \<Rightarrow>
             (let (d', p5) = strip_trailing_reasoning d p4 in Some (hide_reasoning r d', p5)))"

end
