(* ===== verification/ParserExtract.thy ===== *)
theory ParserExtract
  imports ParserEngine
begin

text \<open>
  The parts of \<open>ParserEngine\<close> that parse a whole output: the calls read off the slots, the single
  pass, the extraction of reasoning, and the questions about token ids.
\<close>

section \<open>The result of a pass\<close>

record tool_call =
  tc_id :: pystr
  tc_name :: pystr
  tc_args :: pystr

record extracted =
  ex_called :: bool
  ex_calls :: "tool_call list"
  ex_content :: "pystr option"

definition strip_content_whitespace :: "parser_config \<Rightarrow> pystr \<Rightarrow> bool \<Rightarrow> pystr option" where
  "strip_content_whitespace cfg content called =
     nonempty (if \<not> called then content
               else if strip_content_whitespace_with_tools cfg then ustrip content
               else if drop_whitespace_only_content_before_tools cfg \<and> ustrip content = [] then []
               else content)"

definition dumps_value :: "pystd \<Rightarrow> jval \<Rightarrow> pystr" where
  "dumps_value std v = (case v of JStr s \<Rightarrow> s | _ \<Rightarrow> py_dumps std v)"

definition extract_args_value :: "pystd \<Rightarrow> (pystr \<times> jval) list \<Rightarrow> pystr option" where
  "extract_args_value std d =
     (case map_of d (lit ''arguments'') of
        Some v \<Rightarrow> Some (dumps_value std v)
      | None \<Rightarrow> map_option (dumps_value std) (map_of d (lit ''parameters'')))"

definition extract_name_and_args :: "pystd \<Rightarrow> pystr \<Rightarrow> jval \<times> pystr" where
  "extract_name_and_args std raw =
     (let body = ustrip raw in
      case py_loads std body of
        Some (JDict d) \<Rightarrow>
          (dget d (lit ''name'') (JStr []),
           case extract_args_value std d of
             Some v \<Rightarrow> v
           | None \<Rightarrow> py_dumps std (JDict (filter (\<lambda>(k, v). k \<noteq> lit ''name'') d)))
      | _ \<Rightarrow> (JStr [], body))"

definition extract_args_json :: "pystd \<Rightarrow> pystr \<Rightarrow> pystr" where
  "extract_args_json std raw =
     (if ustrip raw = [] then lit ''{}'' else snd (extract_name_and_args std raw))"

text \<open>
  A name read from JSON need not be a string: one that is false is refused, another one is
  refused by the validation or, without it, by the message type, which raises (\<^term>\<open>None\<close>).
\<close>

fun falsy :: "jval \<Rightarrow> bool" where
  "falsy JNull = True"
| "falsy (JBool b) = (\<not> b)"
| "falsy (JInt i) = (i = 0)"
| "falsy (JFloat f) = (f = Finite 0)"
| "falsy (JStr s) = (s = [])"
| "falsy (JList l) = (l = [])"
| "falsy (JDict d) = (d = [])"

definition accepted_name :: "arg_setup \<Rightarrow> jval \<Rightarrow> pystr option option" where
  "accepted_name a v =
     (case v of
        JStr s \<Rightarrow> Some (if accept_tool_name a s then Some s else None)
      | _ \<Rightarrow> if falsy v \<or> (as_validate a \<and> tool_list a \<noteq> []) then Some None else None)"

definition slot_result :: "arg_setup \<Rightarrow> slot list \<Rightarrow> slot \<Rightarrow> jval \<times> pystr" where
  "slot_result a slots s =
     (let n = ustrip (slot_name s); raw = slot_args s in
      if n = [] \<and> ustrip raw \<noteq> [] then extract_name_and_args (as_std a) raw
      else if ustrip raw \<noteq> [] then
        (JStr n, case as_converter a of
                   Some f \<Rightarrow> (case f slots raw False of Some j \<Rightarrow> j | None \<Rightarrow> extract_args_json (as_std a) raw)
                 | None \<Rightarrow> extract_args_json (as_std a) raw)
      else (JStr n, lit ''{}''))"

text \<open>The loop over the slots, from slot \<open>k\<close> on.\<close>

fun build_calls :: "arg_setup \<Rightarrow> nat \<Rightarrow> nat \<Rightarrow> calls \<Rightarrow> (tool_call list \<times> calls) option" where
  "build_calls a 0 k c = Some ([], c)"
| "build_calls a (Suc m) k c =
     (let s = c_slots c ! k in
      if slot_name s = [] \<and> slot_args s = [] then build_calls a m (Suc k) c
      else (let (n, args) = slot_result a (c_slots c) s in
            case accepted_name a n of
              None \<Rightarrow> None
            | Some None \<Rightarrow> build_calls a m (Suc k) c
            | Some (Some n) \<Rightarrow>
                (let c1 = ensure_tool_id a k n c in
                 map_option (\<lambda>(calls, c2). (\<lparr> tc_id = slot_id (c_slots c1 ! k), tc_name = n,
                     tc_args = fix_arg_types a args n \<rparr> # calls, c2))
                   (build_calls a m (Suc k) c1))))"

definition message_content :: "delta_message option \<Rightarrow> pystr" where
  "message_content d = (case d of None \<Rightarrow> [] | Some m \<Rightarrow> (case msg_content m of None \<Rightarrow> [] | Some t \<Rightarrow> t))"

definition build_extracted_result ::
  "('lx, 'sc) parser_setup \<Rightarrow> delta_message option list \<Rightarrow> ('lx, 'sc) parser
     \<Rightarrow> (extracted \<times> ('lx, 'sc) parser) option" where
  "build_extracted_result x ds p =
     map_option (\<lambda>(calls, c).
         (\<lparr> ex_called = (calls \<noteq> []), ex_calls = calls,
            ex_content = strip_content_whitespace (pa_config p) (concat (map message_content ds)) (calls \<noteq> []) \<rparr>,
          p\<lparr> pa_calls := c \<rparr>))
       (build_calls (args_of x p) (length (c_slots (pa_calls p))) 0 (pa_calls p))"

section \<open>Single passes\<close>

definition single_pass_parse ::
  "('lx, 'sc) parser_setup \<Rightarrow> pystr \<Rightarrow> int list \<Rightarrow> parser_state option \<Rightarrow> ('lx, 'sc) parser
     \<Rightarrow> (pystr option \<times> pystr option \<times> extracted \<times> ('lx, 'sc) parser) option" where
  "single_pass_parse x text ids init p =
     (let p0 = reset_parser x init p;
          (evs, e) = feed (px_frontend x) (pa_setup p0) text ids (pa_engine p0);
          (evs', e') = finish (px_frontend x) (pa_setup p0) e
      in case events_to_delta x (evs @ evs') True (p0\<lparr> pa_engine := e' \<rparr>) of
           None \<Rightarrow> None
         | Some (d, p1) \<Rightarrow>
             map_option (\<lambda>(info, p2).
                 (let reasoning = Option.bind d msg_reasoning;
                      reasoning' = (case reasoning of
                        Some r \<Rightarrow> if strip_trailing_reasoning_whitespace (pa_config p) then nonempty (urstrip r) else Some r
                      | None \<Rightarrow> None);
                      content = Option.bind d msg_content;
                      content' = (case content of
                        Some t \<Rightarrow> if t \<noteq> [] then strip_content_whitespace (pa_config p) t (ex_called info) else Some t
                      | None \<Rightarrow> None)
                  in (reasoning', content', info, p2)))
               (build_extracted_result x [] p1))"

definition parse_output ::
  "('lx, 'sc) parser_setup \<Rightarrow> request \<Rightarrow> pystr \<Rightarrow> int list \<Rightarrow> ('lx, 'sc) parser
     \<Rightarrow> (pystr option \<times> pystr option \<times> tool_call list option \<times> ('lx, 'sc) parser) option" where
  "parse_output x r text ids p =
     (let p1 = check_skip_tool_parsing r
                 (p\<lparr> pa_calls := (pa_calls p)\<lparr> c_count := px_history x r (c_count (pa_calls p)) \<rparr> \<rparr>)
      in map_option (\<lambda>(reasoning, content, info, p2).
             (reasoning, content, if ex_called info then Some (ex_calls info) else None, p2))
           (single_pass_parse x text ids None p1))"

definition extract_reasoning ::
  "('lx, 'sc) parser_setup \<Rightarrow> pystr \<Rightarrow> ('lx, 'sc) parser
     \<Rightarrow> (pystr option \<times> pystr option) \<times> ('lx, 'sc) parser" where
  "extract_reasoning x text p =
     (let p0 = reset_parser x None p;
          (evs, e) = feed (px_frontend x) (pa_setup p0) text [] (pa_engine p0);
          (evs', e') = finish (px_frontend x) (pa_setup p0) e;
          all = evs @ evs';
          of_type = (\<lambda>k. concat (map value_of (filter (\<lambda>ev. ev_type ev = k) all)));
          raw = of_type REASONING_CHUNK;
          reasoning = (if strip_trailing_reasoning_whitespace (pa_config p) then urstrip raw else raw)
      in ((nonempty reasoning, nonempty (of_type TEXT_CHUNK)),
          p0\<lparr> pa_engine := e',
              reasoning_ended := (reasoning_ended p0 \<or> (\<exists>ev \<in> set all. ev_type ev = REASONING_END)) \<rparr>))"

text \<open>One step of the older streaming interface.\<close>

definition stream_delta ::
  "('lx, 'sc) parser_setup \<Rightarrow> pystr \<Rightarrow> int list \<Rightarrow> ('lx, 'sc) parser
     \<Rightarrow> (delta_message option \<times> ('lx, 'sc) parser) option" where
  "stream_delta x text ids p =
     (let (evs, e) = feed (px_frontend x) (pa_setup p) text ids (pa_engine p)
      in map_option (\<lambda>(d, p1). strip_trailing_reasoning d p1)
           (events_to_delta x evs False (p\<lparr> pa_engine := e \<rparr>)))"

definition extract_reasoning_streaming ::
  "('lx, 'sc) parser_setup \<Rightarrow> pystr \<Rightarrow> int list \<Rightarrow> ('lx, 'sc) parser
     \<Rightarrow> (delta_message option \<times> ('lx, 'sc) parser) option" where
  "extract_reasoning_streaming x text ids p = stream_delta x text ids (initialize_streaming x p)"

definition extract_tool_calls_streaming ::
  "('lx, 'sc) parser_setup \<Rightarrow> request \<Rightarrow> pystr \<Rightarrow> int list \<Rightarrow> ('lx, 'sc) parser
     \<Rightarrow> (delta_message option \<times> ('lx, 'sc) parser) option" where
  "extract_tool_calls_streaming x r text ids p =
     stream_delta x text ids (check_skip_tool_parsing r (initialize_streaming x p))"

definition extract_tool_calls ::
  "('lx, 'sc) parser_setup \<Rightarrow> request \<Rightarrow> pystr \<Rightarrow> ('lx, 'sc) parser \<Rightarrow> (extracted \<times> ('lx, 'sc) parser) option" where
  "extract_tool_calls x r text p =
     (case extract_tool_calls_streaming x r text []
             ((reset_parser x None p)\<lparr> streaming_initialized := True \<rparr>) of
        None \<Rightarrow> None
      | Some (d, p1) \<Rightarrow>
          (case finish_streaming x p1 of
             None \<Rightarrow> None
           | Some (d', p2) \<Rightarrow> build_extracted_result x [d, d'] p2))"

definition extract_tool_calls_from_content ::
  "('lx, 'sc) parser_setup \<Rightarrow> request \<Rightarrow> pystr \<Rightarrow> ('lx, 'sc) parser \<Rightarrow> (extracted \<times> ('lx, 'sc) parser) option" where
  "extract_tool_calls_from_content x r text p =
     map_option (\<lambda>(reasoning, content, info, p').
         (if content \<noteq> None \<and> ex_content info = None then info\<lparr> ex_content := content \<rparr> else info, p'))
       (single_pass_parse x text [] (Some CONTENT) (check_skip_tool_parsing r p))"

section \<open>Questions about token ids\<close>

text \<open>The loop runs from the last token to the first.\<close>

fun reasoning_end_back :: "int \<Rightarrow> int option \<Rightarrow> int list \<Rightarrow> bool" where
  "reasoning_end_back e st [] = False"
| "reasoning_end_back e st (t # ts) =
     (if t = e then True else if st = Some t then False else reasoning_end_back e st ts)"

definition is_reasoning_end :: "('lx, 'sc) parser_setup \<Rightarrow> int list \<Rightarrow> ('lx, 'sc) parser \<Rightarrow> bool" where
  "is_reasoning_end x ids p =
     (case px_end_id x of
        Some e \<Rightarrow> if ids = [] then initial_state (pa_config p) \<noteq> REASONING
                  else reasoning_end_back e (px_start_id x) (rev ids)
      | None \<Rightarrow> reasoning_ended p)"

definition extract_content_ids :: "('lx, 'sc) parser_setup \<Rightarrow> int list \<Rightarrow> int list" where
  "extract_content_ids x ids =
     (case px_end_id x of
        Some e \<Rightarrow> if e \<in> set ids then rev (takeWhile (\<lambda>t. t \<noteq> e) (rev ids)) else ids
      | None \<Rightarrow> ids)"

fun count_inside :: "int \<Rightarrow> int \<Rightarrow> nat \<Rightarrow> int list \<Rightarrow> nat" where
  "count_inside st e d [] = 0"
| "count_inside st e d (t # ts) =
     (if t = st then count_inside st e (Suc d) ts
      else if t = e then count_inside st e (d - 1) ts
      else (if d > 0 then 1 else 0) + count_inside st e d ts)"

definition count_reasoning_tokens :: "('lx, 'sc) parser_setup \<Rightarrow> int list \<Rightarrow> nat" where
  "count_reasoning_tokens x ids =
     (case (px_start_id x, px_end_id x) of
        (Some st, Some e) \<Rightarrow> count_inside st e (if st \<notin> set ids \<and> e \<in> set ids then 1 else 0) ids
      | _ \<Rightarrow> 0)"

text \<open>Without a start token, what is counted is everything before the first end token.\<close>

lemma count_inside_prefix:
  "st \<notin> set ids \<Longrightarrow> count_inside st e 0 ids = 0"
  by (induction ids) auto

lemma count_open_reasoning:
  assumes "st \<notin> set ids"
  shows "count_inside st e (Suc 0) ids = length (takeWhile (\<lambda>t. t \<noteq> e) ids)"
  using assms by (induction ids) (auto simp: count_inside_prefix)

lemma count_implicit_start:
  assumes "px_start_id x = Some st" "px_end_id x = Some e" "st \<notin> set ids" "e \<in> set ids"
  shows "count_reasoning_tokens x ids = length (takeWhile (\<lambda>t. t \<noteq> e) ids)"
  using assms by (simp add: count_reasoning_tokens_def count_open_reasoning)

lemma count_bounded: "count_inside st e d ids \<le> length ids"
  by (induction ids arbitrary: d) (auto intro: le_SucI)

text \<open>Reasoning has ended when the last marker is an end marker.\<close>

lemma reasoning_end_back_find:
  "reasoning_end_back e st ts \<longleftrightarrow>
     (case find (\<lambda>t. t = e \<or> st = Some t) ts of None \<Rightarrow> False | Some t \<Rightarrow> t = e)"
  by (induction ts) auto

end
