(* ===== verification/DsmlArgs.thy ===== *)
theory DsmlArgs
  imports ArgDelta ParserConfig
begin

text \<open>
  The argument converter of the DSML formats (\<open>parser-deepseek-v4.dsml-orphan.py\<close>, shared with
  \<open>parser-deepseek-v32.dsml-orphan.py\<close>): the parameters of a call are found by a regular
  expression, complete or partial, and written as JSON.  The expressions are deterministic up to
  the value, so a match is a function; the value runs to the first closing tag.
\<close>

section \<open>Matching\<close>

definition param_open :: pystr where
  "param_open = lit ''<'' @ dsml @ lit ''parameter''"

definition param_close :: pystr where
  "param_close = dsml_close ''parameter''"

definition skip_text :: "pystr \<Rightarrow> pystr \<Rightarrow> pystr option" where
  "skip_text pat s = (if prefix pat s then Some (drop (length pat) s) else None)"

definition skip_spaces :: "pystd \<Rightarrow> pystr \<Rightarrow> pystr option" where
  "skip_spaces std s =
     (case s of [] \<Rightarrow> None | c # _ \<Rightarrow> if py_re_space std c then Some (dropWhile (py_re_space std) s) else None)"

text \<open>\<open>([^"]+)"\<close>\<close>

definition quoted :: "pystr \<Rightarrow> (pystr \<times> pystr) option" where
  "quoted s =
     (let n = takeWhile (\<lambda>c. c \<noteq> 34) s in
      if n \<noteq> [] \<and> 34 \<in> set s then Some (n, drop (Suc (length n)) s) else None)"

text \<open>The opening tag: the name, whether the value is a string, and the text after the tag.\<close>

definition string_flag :: "pystr \<Rightarrow> (bool \<times> pystr) option" where
  "string_flag s =
     (case skip_text (lit ''true'' @ [34] @ lit ''>'') s of
        Some t \<Rightarrow> Some (True, t)
      | None \<Rightarrow> map_option (Pair False) (skip_text (lit ''false'' @ [34] @ lit ''>'') s))"

definition param_attributes :: "pystd \<Rightarrow> pystr \<Rightarrow> (pystr \<times> bool \<times> pystr) option" where
  "param_attributes std s =
     Option.bind (skip_spaces std s) (\<lambda>s1.
     Option.bind (skip_text (lit ''name='' @ [34]) s1) (\<lambda>s2.
     Option.bind (quoted s2) (\<lambda>(n, s3).
     Option.bind (skip_spaces std s3) (\<lambda>s4.
     Option.bind (skip_text (lit ''string='' @ [34]) s4) (\<lambda>s5.
     map_option (Pair n) (string_flag s5))))))"

definition param_head :: "pystd \<Rightarrow> pystr \<Rightarrow> (pystr \<times> bool \<times> pystr) option" where
  "param_head std s = Option.bind (skip_text param_open s) (param_attributes std)"

fun split_at :: "pystr \<Rightarrow> pystr \<Rightarrow> (pystr \<times> pystr) option" where
  "split_at pat [] = (if pat = [] then Some ([], []) else None)"
| "split_at pat (c # s) =
     (if prefix pat (c # s) then Some ([], drop (length pat) (c # s))
      else map_option (\<lambda>(v, r). (c # v, r)) (split_at pat s))"

definition param_at :: "pystd \<Rightarrow> pystr \<Rightarrow> ((pystr \<times> bool \<times> pystr) \<times> pystr) option" where
  "param_at std s =
     Option.bind (param_head std s) (\<lambda>(n, b, t).
       map_option (\<lambda>(v, r). ((n, b, v), r)) (split_at param_close t))"

lemma skip_text_length: "skip_text pat s = Some t \<Longrightarrow> length t \<le> length s"
  by (auto simp: skip_text_def split: if_splits)

lemma skip_text_less: "skip_text pat s = Some t \<Longrightarrow> pat \<noteq> [] \<Longrightarrow> length t < length s"
  by (cases s; cases pat) (auto simp: skip_text_def less_Suc_eq_le split: if_splits)

lemma skip_spaces_length: "skip_spaces std s = Some t \<Longrightarrow> length t \<le> length s"
  by (auto simp: skip_spaces_def split: if_splits list.splits intro: order.trans [OF length_dropWhile_le])

lemma quoted_length: "quoted s = Some (n, t) \<Longrightarrow> length t \<le> length s"
  by (auto simp: quoted_def Let_def split: if_splits)

lemma split_at_length: "split_at pat s = Some (v, r) \<Longrightarrow> length r \<le> length s"
  by (induction s arbitrary: v) (auto split: if_splits)

lemma string_flag_length: "string_flag s = Some (b, t) \<Longrightarrow> length t \<le> length s"
  by (auto simp: string_flag_def split: option.splits dest: skip_text_length)

lemma param_attributes_length: "param_attributes std s = Some (n, b, t) \<Longrightarrow> length t \<le> length s"
  unfolding param_attributes_def
  by (fastforce simp: bind_eq_Some_conv
      dest!: skip_text_length skip_spaces_length quoted_length string_flag_length)

lemma param_head_less: "param_head std s = Some (n, b, t) \<Longrightarrow> length t < length s"
  unfolding param_head_def bind_eq_Some_conv
  by (auto dest!: skip_text_less param_attributes_length simp: param_open_def)

lemma param_at_less: "param_at std s = Some (x, r) \<Longrightarrow> length r < length s"
  by (auto simp: param_at_def bind_eq_Some_conv dest!: param_head_less split_at_length)

section \<open>The converter\<close>

text \<open>All matches from the left, and the text after the last one.\<close>

function params_from :: "pystd \<Rightarrow> pystr \<Rightarrow> pystr \<Rightarrow> (pystr \<times> bool \<times> pystr) list \<times> pystr" where
  "params_from std tail [] = ([], tail)"
| "params_from std tail (c # s) =
     (case param_at std (c # s) of
        None \<Rightarrow> params_from std tail s
      | Some (x, r) \<Rightarrow> (let (xs, t) = params_from std r r in (x # xs, t)))"
  by pat_completeness auto
termination
  by (relation "measure (\<lambda>(std, t, s). length s)") (auto dest: param_at_less)

fun head_search :: "pystd \<Rightarrow> pystr \<Rightarrow> (pystr \<times> bool \<times> pystr) option" where
  "head_search std [] = None"
| "head_search std (c # s) =
     (case param_head std (c # s) of Some x \<Rightarrow> Some x | None \<Rightarrow> head_search std s)"

definition param_value :: "pystd \<Rightarrow> bool \<Rightarrow> pystr \<Rightarrow> jval" where
  "param_value std is_str v =
     (if is_str then JStr v else case py_loads std v of Some j \<Rightarrow> j | None \<Rightarrow> JStr v)"

definition add_params :: "pystd \<Rightarrow> (pystr \<times> bool \<times> pystr) list \<Rightarrow> (pystr, jval) dict" where
  "add_params std xs = fold (\<lambda>(n, b, v). dput n (param_value std b v)) xs []"

definition dsml_params :: "pystd \<Rightarrow> pystr \<Rightarrow> bool \<Rightarrow> (pystr, jval) dict" where
  "dsml_params std raw partial =
     (let (xs, tail) = params_from std raw raw; d = add_params std xs in
      if \<not> partial then d
      else case head_search std tail of
             None \<Rightarrow> d
           | Some (n, b, v) \<Rightarrow>
               if b then dput n (JStr v) d
               else (case py_loads std v of Some j \<Rightarrow> dput n j d | None \<Rightarrow> d))"

definition dsml_arg_converter :: "pystd \<Rightarrow> pystr \<Rightarrow> bool \<Rightarrow> pystr" where
  "dsml_arg_converter std raw partial = py_dumps std (JDict (dsml_params std raw partial))"

text \<open>Arguments that were wrapped once more are taken out of the wrapper.\<close>

fun unwrap_with :: "pystd \<Rightarrow> pystr \<Rightarrow> (pystr \<times> jval) list \<Rightarrow> pystr set \<Rightarrow> pystr list \<Rightarrow> pystr" where
  "unwrap_with std args_json args allowed [] = args_json"
| "unwrap_with std args_json args allowed (w # ws) =
     (if fst ` set args \<noteq> {w} \<or> w \<in> allowed then unwrap_with std args_json args allowed ws
      else case (case map_of args w of Some (JStr s) \<Rightarrow> py_loads std s | v \<Rightarrow> v) of
             None \<Rightarrow> args_json
           | Some (JDict d) \<Rightarrow>
               if fst ` set d \<subseteq> allowed then py_dumps std (JDict d)
               else unwrap_with std args_json args allowed ws
           | Some _ \<Rightarrow> unwrap_with std args_json args allowed ws)"

definition unwrap_wrapper_args :: "arg_setup \<Rightarrow> pystr \<Rightarrow> pystr option \<Rightarrow> pystr" where
  "unwrap_wrapper_args a args_json func_name =
     (case func_name of
        None \<Rightarrow> args_json
      | Some n \<Rightarrow>
          if tool_list a = [] \<or> n = [] then args_json
          else case py_loads (as_std a) args_json of
                 Some (JDict args) \<Rightarrow>
                   if properties_dict a n = [] then args_json
                   else unwrap_with (as_std a) args_json args (fst ` set (properties_dict a n))
                          [lit ''arguments'', lit ''input'']
               | _ \<Rightarrow> args_json)"

text \<open>The converter of both parsers: the tool is that of the first call with these arguments.\<close>

definition convert_args :: "arg_setup \<Rightarrow> slot list \<Rightarrow> pystr \<Rightarrow> bool \<Rightarrow> pystr option" where
  "convert_args a slots raw partial =
     (let result = dsml_arg_converter (as_std a) raw partial in
      Some (if tool_list a = [] then result
            else unwrap_wrapper_args a result
                   (map_option slot_name (find (\<lambda>s. slot_args s = raw) slots))))"

section \<open>Reading back what a model writes\<close>

text \<open>The parameters as the prompt asks the model to write them, each after some plain text.\<close>

definition render_flag :: "bool \<Rightarrow> pystr" where
  "render_flag b = lit (if b then ''true'' else ''false'')"

definition render_param :: "pystr \<times> bool \<times> pystr \<Rightarrow> pystr" where
  "render_param x = (case x of (n, b, v) \<Rightarrow>
     param_open @ lit '' name='' @ [34] @ n @ [34] @ lit '' string='' @ [34] @ render_flag b @ [34] @ lit ''>''
       @ v @ param_close)"

definition render_params :: "pystr \<Rightarrow> (pystr \<times> bool \<times> pystr) list \<Rightarrow> pystr" where
  "render_params sep xs = concat (map (\<lambda>x. sep @ render_param x) xs)"

definition well_written :: "pystr \<times> bool \<times> pystr \<Rightarrow> bool" where
  "well_written x \<longleftrightarrow> (case x of (n, b, v) \<Rightarrow> n \<noteq> [] \<and> 34 \<notin> set n \<and> \<not> sublist param_close v)"

text \<open>In a closing tag the first character does not occur again, so tags do not overlap.\<close>

lemma split_at_first:
  "\<not> sublist (p # ps) v \<Longrightarrow> p \<notin> set ps \<Longrightarrow> split_at (p # ps) (v @ (p # ps) @ r) = Some (v, r)"
proof (induction v)
  case (Cons c v)
  have no: "\<not> prefix (p # ps) (c # v @ (p # ps) @ r)"
  proof
    assume pre: "prefix (p # ps) (c # v @ (p # ps) @ r)"
    then have c: "c = p" and ps: "prefix ps (v @ p # ps @ r)" by auto
    show False
    proof (cases "length ps \<le> length v")
      case True
      with ps have "prefix ps v" by (metis prefix_length_prefix prefixI)
      with c Cons.prems(1) show False by (simp add: sublist_Cons_right)
    next
      case False
      from ps obtain zs where "v @ p # ps @ r = ps @ zs" by (auto simp: prefix_def)
      then have "(ps @ zs) ! length v = p" by (metis nth_append_length)
      with False have "p \<in> set ps" by (auto simp: nth_append split: if_splits)
      with Cons.prems(2) show False by simp
    qed
  qed
  have "\<not> sublist (p # ps) v" using Cons.prems(1) by (simp add: sublist_Cons_right)
  from Cons.IH [OF this Cons.prems(2)] no show ?case by simp
qed simp

lemma param_close_chars: "hd param_close = 60" "60 \<notin> set (tl param_close)" "param_close \<noteq> []"
  by (simp_all add: param_close_def dsml_close_def dsml_def lit_def)

lemma param_close_split:
  "\<not> sublist param_close v \<Longrightarrow> split_at param_close (v @ param_close @ r) = Some (v, r)"
  using split_at_first [of 60 "tl param_close" v r] param_close_chars
  by (metis list.collapse)

lemma skip_text_append [simp]: "skip_text pat (pat @ s) = Some s"
  by (simp add: skip_text_def)

lemma quoted_append:
  assumes "n \<noteq> []" "34 \<notin> set n"
  shows "quoted (n @ 34 # s) = Some (n, s)"
proof -
  have "takeWhile (\<lambda>c. c \<noteq> 34) (n @ 34 # s) = n" using assms(2) by (induction n) auto
  with assms(1) show ?thesis by (simp add: quoted_def)
qed

text \<open>What the regular expression takes for whitespace.\<close>

definition re_space_ok :: "pystd \<Rightarrow> bool" where
  "re_space_ok std \<longleftrightarrow> py_re_space std 32 \<and> \<not> py_re_space std 110 \<and> \<not> py_re_space std 115"

lemma skip_one_space:
  "re_space_ok std \<Longrightarrow> c = 110 \<or> c = 115 \<Longrightarrow> skip_spaces std (32 # c # s) = Some (c # s)"
  by (auto simp: skip_spaces_def re_space_ok_def)

lemma string_flag_render: "string_flag (render_flag b @ [34] @ lit ''>'' @ s) = Some (b, s)"
  by (cases b) (simp_all add: string_flag_def render_flag_def skip_text_def lit_def)

lemma param_at_render:
  assumes "re_space_ok std" "well_written x"
  shows "param_at std (render_param x @ r) = Some (x, r)"
proof -
  obtain n b v where x: "x = (n, b, v)" by (cases x)
  have n: "n \<noteq> []" "34 \<notin> set n" and v: "\<not> sublist param_close v" using assms(2) by (simp_all add: well_written_def x)
  have "param_attributes std (lit '' name='' @ [34] @ n @ [34] @ lit '' string='' @ [34] @ render_flag b
      @ [34] @ lit ''>'' @ s) = Some (n, b, s)" for s
  proof -
    have 1: "skip_spaces std (lit '' name='' @ t) = Some (lit ''name='' @ t)" for t
      using skip_one_space [OF assms(1)] by (simp add: lit_def)
    have 2: "skip_spaces std (lit '' string='' @ t) = Some (lit ''string='' @ t)" for t
      using skip_one_space [OF assms(1)] by (simp add: lit_def)
    have 3: "skip_text (pat @ [34]) (pat @ 34 # t) = Some t" for pat t
      using skip_text_append [of "pat @ [34]" t] by simp
    show ?thesis
      using string_flag_render [of b s]
      by (simp add: param_attributes_def 1 2 3 quoted_append [OF n])
  qed
  then have "param_head std (render_param x @ r) = Some (n, b, v @ param_close @ r)"
    by (simp add: param_head_def render_param_def x)
  then show ?thesis by (simp add: param_at_def param_close_split [OF v] x)
qed

lemma param_at_tag: "c \<noteq> 60 \<Longrightarrow> param_at std (c # s) = None"
  by (simp add: param_at_def param_head_def skip_text_def param_open_def lit_def)

lemma params_from_skip: "60 \<notin> set sep \<Longrightarrow> params_from std tail (sep @ s) = params_from std tail s"
  by (induction sep) (auto simp: param_at_tag)

lemma render_param_Cons: "\<exists>t. render_param x = 60 # t"
  by (cases x) (simp add: render_param_def param_open_def lit_def)

lemma params_from_render:
  assumes "re_space_ok std" "list_all well_written xs" "60 \<notin> set sep"
  shows "fst (params_from std tail (render_params sep xs @ sep)) = xs"
  using assms(2)
proof (induction xs arbitrary: tail)
  case Nil
  show ?case using params_from_skip [OF assms(3), of std tail "[]"] by (simp add: render_params_def)
next
  case (Cons x xs)
  obtain t where t: "render_param x = 60 # t" using render_param_Cons by blast
  let ?r = "render_params sep xs @ sep"
  have "param_at std (60 # t @ ?r) = Some (x, ?r)"
    using param_at_render [OF assms(1), of x ?r] Cons.prems by (simp add: t)
  then have "params_from std tail (render_param x @ ?r) = (x # fst (params_from std ?r ?r), snd (params_from std ?r ?r))"
    by (simp add: t split_beta)
  moreover have "fst (params_from std ?r ?r) = xs" using Cons by simp
  ultimately show ?case
    using params_from_skip [OF assms(3), of std tail "render_param x @ ?r"] by (simp add: render_params_def)
qed

lemma fold_dput_fresh:
  "distinct (map fst xs) \<Longrightarrow> fst ` set xs \<inter> fst ` set d = {} \<Longrightarrow>
   fold (\<lambda>(n, b, v). dput n (f b v)) xs d = d @ map (\<lambda>(n, b, v). (n, f b v)) xs"
proof (induction xs arbitrary: d)
  case (Cons x xs)
  obtain n b v where x: "x = (n, b, v)" by (cases x)
  have "dput n (f b v) d = d @ [(n, f b v)]"
    using Cons.prems(2) by (intro dput_absent) (auto simp: x)
  moreover have "fold (\<lambda>(n, b, v). dput n (f b v)) xs (d @ [(n, f b v)])
      = (d @ [(n, f b v)]) @ map (\<lambda>(n, b, v). (n, f b v)) xs"
    using Cons.prems by (intro Cons.IH) (auto simp: x)
  ultimately show ?case by (simp add: x)
qed simp

text \<open>C32: The parameters of a call are read back as they were written: for any number of
  parameters with distinct names, in the tags the format prescribes and with any text without an
  opening bracket between them, the converter gives the JSON object of these names, a string value
  as it stands and another one as the JSON it is.  The hypotheses are that a name has no quotation
  mark, that a value does not contain the closing tag, and what the expression takes for space.\<close>

theorem dsml_args_roundtrip:
  assumes "re_space_ok std" "list_all well_written xs" "60 \<notin> set sep" "distinct (map fst xs)"
  shows "dsml_arg_converter std (render_params sep xs @ sep) False
    = py_dumps std (JDict (map (\<lambda>(n, b, v). (n, param_value std b v)) xs))"
  using params_from_render [OF assms(1-3), of "render_params sep xs @ sep"]
    fold_dput_fresh [OF assms(4), of "[]" "param_value std"]
  by (simp add: dsml_arg_converter_def dsml_params_def add_params_def split_beta)

text \<open>Remark: of two calls with the same argument text, the second is unwrapped by the schema of the first.\<close>

lemma same_arguments_first_tool:
  "slot_args s1 = slot_args s2 \<Longrightarrow> tool_list a \<noteq> [] \<Longrightarrow>
   convert_args a (s1 # ss) (slot_args s2) partial
     = Some (unwrap_wrapper_args a (dsml_arg_converter (as_std a) (slot_args s2) partial) (Some (slot_name s1)))"
  by (simp add: convert_args_def Let_def)

end
