(* ===== verification/ParserProps.thy ===== *)
theory ParserProps
  imports ParserExtract DsmlArgs StreamProps "HOL-Library.Multiset"
begin

text \<open>
  What a client of \<open>ParserEngine\<close> can rely on: the tool deltas of all messages of a stream, merged
  as they are, give each call one name and the arguments its slot holds; text is not lost; the end of a call
  completes its arguments; reasoning keeps its text but for trailing whitespace.
\<close>

section \<open>Merging keeps the agreement\<close>

lemma keyed_fold: "keyed (fold coalesce_one ds [])"
  by (rule fold_coalesce_keyed) (simp add: keyed_def)

lemma of_call_coalesced:
  "of_call i (coalesce_tool_call_deltas ds) = of_call i ds
   \<or> of_call i (coalesce_tool_call_deltas ds) = at_call (fold coalesce_one ds []) i"
  by (simp add: coalesce_tool_call_deltas_def Let_def keyed_of_call [OF keyed_fold])

lemma coalesce_names_eq:
  assumes "length (client_names i ds) \<le> 1"
  shows "client_names i (coalesce_tool_call_deltas ds) = client_names i ds"
  using of_call_coalesced [of i ds]
proof
  assume c: "of_call i (coalesce_tool_call_deltas ds) = at_call (fold coalesce_one ds []) i"
  have "length (client_names i (coalesce_tool_call_deltas ds)) \<le> 1"
    using td_names_length by (simp add: client_of_call c at_call_def split: option.split)
  with assms coalesce_names [of i ds] show ?thesis by simp
qed (simp add: client_of_call)

lemma coalesce_one_at_call: "at_call (coalesce_one d m) i = [] \<longleftrightarrow> at_call m i = [] \<and> td_index d \<noteq> i"
  by (simp add: at_call_def coalesce_one_def split: option.split)

lemma fold_coalesce_at_call: "at_call (fold coalesce_one ds m) i = [] \<longleftrightarrow> at_call m i = [] \<and> of_call i ds = []"
  by (induction ds arbitrary: m) (auto simp: coalesce_one_at_call of_call_def)

lemma of_call_coalesce_Nil: "of_call i (coalesce_tool_call_deltas ds) = [] \<longleftrightarrow> of_call i ds = []"
  using of_call_coalesced [of i ds] fold_coalesce_at_call [of ds "[]" i] by (auto simp: at_call_def)

text \<open>The first delta of a call keeps its name and its identifier.\<close>

definition starts_named :: "pystr \<Rightarrow> pystr \<Rightarrow> tool_delta list \<Rightarrow> bool" where
  "starts_named n t ds \<longleftrightarrow> ds \<noteq> [] \<and> td_names (hd ds) = [n] \<and> td_id (hd ds) = Some t"

lemma merge_starts_named: "starts_named n t [d] \<Longrightarrow> starts_named n t [merge_delta d e]"
  by (simp add: starts_named_def merge_delta_names) (simp add: merge_delta_def)

lemma coalesce_one_starts:
  "starts_named n t (at_call m i @ of_call i [d]) \<Longrightarrow> starts_named n t (at_call (coalesce_one d m) i)"
  using merge_starts_named
  by (auto simp: at_call_def coalesce_one_def starts_named_def split: option.splits if_splits)

lemma starts_named_append: "xs \<noteq> [] \<Longrightarrow> starts_named n t (xs @ ys) = starts_named n t xs"
  by (simp add: starts_named_def)

lemma of_call_Cons: "of_call i (d # ds) = of_call i [d] @ of_call i ds"
  by (simp add: of_call_def)

lemma fold_coalesce_starts:
  "starts_named n t (at_call m i @ of_call i ds) \<Longrightarrow> starts_named n t (at_call (fold coalesce_one ds m) i)"
proof (induction ds arbitrary: m)
  case (Cons d ds)
  have "starts_named n t (at_call (coalesce_one d m) i @ of_call i ds)"
  proof (cases "at_call m i @ of_call i [d] = []")
    case True
    then have "at_call (coalesce_one d m) i = []" by (simp add: coalesce_one_at_call split: if_splits)
    with True Cons.prems show ?thesis by (simp add: of_call_def split: if_splits)
  next
    case False
    have "starts_named n t ((at_call m i @ of_call i [d]) @ of_call i ds)"
      using Cons.prems unfolding of_call_Cons [of i d ds] append.assoc .
    then have "starts_named n t (at_call m i @ of_call i [d])"
      unfolding starts_named_append [OF False] .
    from coalesce_one_starts [OF this] show ?thesis by (simp add: starts_named_def)
  qed
  with Cons.IH show ?case by simp
qed simp

lemma coalesce_starts:
  assumes "starts_named n t (of_call i ds)"
  shows "starts_named n t (of_call i (coalesce_tool_call_deltas ds))"
  using of_call_coalesced [of i ds]
proof
  assume "of_call i (coalesce_tool_call_deltas ds) = at_call (fold coalesce_one ds []) i"
  with fold_coalesce_starts [of n t "[]" i ds] assms show ?thesis by (simp add: at_call_def)
qed (use assms in simp)

lemma slot_synced_iff:
  "slot_synced a i s em \<longleftrightarrow>
     (if name_sent s
      then client_names i em = [slot_name s] \<and> client_args i em = streamed_json s
           \<and> starts_named (slot_name s) (slot_id s) (of_call i em)
      else of_call i em = [])"
  by (auto simp: slot_synced_def starts_named_def)

lemma slot_synced_coalesce:
  assumes "slot_synced a i s (em @ ds)"
  shows "slot_synced a i s (em @ coalesce_tool_call_deltas ds)"
proof (cases "name_sent s")
  case True
  have names: "client_names i em @ client_names i ds = [slot_name s]" and args: "client_args i (em @ ds) = streamed_json s"
    and st: "starts_named (slot_name s) (slot_id s) (of_call i em @ of_call i ds)"
    using assms True by (simp_all add: slot_synced_iff)
  have "length (client_names i ds) \<le> 1"
    using arg_cong [OF names, of length] by simp
  note eq = coalesce_names_eq [OF this]
  have "starts_named (slot_name s) (slot_id s) (of_call i em @ of_call i (coalesce_tool_call_deltas ds))"
  proof (cases "of_call i em")
    case Nil
    with st show ?thesis by (simp add: coalesce_starts)
  next
    case (Cons d x)
    with st show ?thesis by (simp add: starts_named_def)
  qed
  with True names args show ?thesis by (simp add: slot_synced_iff eq coalesce_args)
next
  case False
  with assms show ?thesis by (simp add: slot_synced_iff of_call_coalesce_Nil)
qed

lemma coalesce_indices: "d \<in> set (coalesce_tool_call_deltas ds) \<Longrightarrow> \<exists>e \<in> set ds. td_index e = td_index d"
  using of_call_coalesce_Nil [of "td_index d" ds] by (auto simp: of_call_def filter_empty_conv)

lemma calls_sync_coalesce:
  assumes "calls_sync a m c (em @ ds)"
  shows "calls_sync a m c (em @ coalesce_tool_call_deltas ds)"
proof -
  obtain p n where m: "m = (p, n)" by (cases m)
  note s = calls_syncD [OF assms [unfolded m]]
  have "0 \<le> td_index d \<and> td_index d \<le> n" if "d \<in> set (em @ coalesce_tool_call_deltas ds)" for d
    using that s(7,8) coalesce_indices [of d ds] by fastforce
  then show ?thesis unfolding m
    by (intro calls_syncI) (use s in \<open>auto intro: slot_synced_coalesce\<close>)
qed

section \<open>One message\<close>

definition msg_deltas :: "delta_message option \<Rightarrow> tool_delta list" where
  "msg_deltas d = (case d of None \<Rightarrow> [] | Some m \<Rightarrow> msg_tools m)"

lemma msg_deltas_make [simp]: "msg_deltas (make_message t r ds) = ds"
  by (simp add: make_message_def msg_deltas_def)

lemma msg_deltas_strip [simp]: "msg_deltas (fst (strip_trailing_reasoning d p)) = msg_deltas d"
  by (auto simp: strip_trailing_reasoning_def msg_deltas_def Let_def split: option.split)

lemma msg_deltas_hide [simp]: "msg_deltas (hide_reasoning r d) = msg_deltas d"
  by (auto simp: hide_reasoning_def msg_deltas_def split: option.split)

lemma strip_keeps [simp]:
  "pa_calls (snd (strip_trailing_reasoning d p)) = pa_calls p" "pa_engine (snd (strip_trailing_reasoning d p)) = pa_engine p"
  "pa_setup (snd (strip_trailing_reasoning d p)) = pa_setup p" "pa_tools (snd (strip_trailing_reasoning d p)) = pa_tools p"
  "pa_suppress (snd (strip_trailing_reasoning d p)) = pa_suppress p"
  by (auto simp: strip_trailing_reasoning_def Let_def split: option.split)

lemma batch_events_tools:
  assumes "tool_events a evs (b_calls b) = Some (c, ds)"
  shows "\<exists>b'. batch_events a False evs b = Some b' \<and> b_calls b' = c \<and> b_deltas b' = b_deltas b @ ds"
  using assms
proof (induction evs arbitrary: b c ds)
  case (Cons ev evs)
  obtain c1 ds1 ds2 where t: "tool_event a ev (b_calls b) = Some (c1, ds1)" "tool_events a evs c1 = Some (c, ds2)"
    "ds = ds1 @ ds2"
    using Cons.prems by (auto split: option.splits)
  obtain b1 where b1: "batch_event a False ev b = Some b1" "b_calls b1 = c1" "b_deltas b1 = b_deltas b @ ds1"
    using t(1) by (cases "ev_type ev") (auto simp: batch_event_def tool_event_def)
  from Cons.IH [of b1] t(2) b1 show ?case by (auto simp: t(3))
qed simp

definition parser_frame :: "('lx, 'sc) parser \<Rightarrow> ('lx, 'sc) parser \<Rightarrow> bool" where
  "parser_frame p p' \<longleftrightarrow> pa_engine p' = pa_engine p \<and> pa_setup p' = pa_setup p \<and> pa_tools p' = pa_tools p
     \<and> pa_suppress p' = pa_suppress p"

lemma events_to_delta_sync:
  assumes "tool_events (args_of x p) evs (pa_calls p) = Some (c, ds)"
    and "calls_sync (args_of x p) m c (em @ ds)" "\<not> pa_suppress p"
  shows "\<exists>d p'. events_to_delta x evs fin p = Some (d, p') \<and> pa_calls p' = c
    \<and> calls_sync (args_of x p) m c (em @ msg_deltas d) \<and> parser_frame p p'"
proof (cases "evs = [] \<and> deferred_content p = []")
  case True
  with assms show ?thesis by (auto simp: events_to_delta_def msg_deltas_def parser_frame_def)
next
  case False
  obtain b where b: "batch_events (args_of x p) False evs (start_batch p) = Some b" "b_calls b = c" "b_deltas b = ds"
    using batch_events_tools [of "args_of x p" evs "start_batch p" c ds] assms(1) by (auto simp: start_batch_def)
  let ?ds = "if length ds > 1 then coalesce_tool_call_deltas ds else ds"
  have "calls_sync (args_of x p) m c (em @ ?ds)"
    using calls_sync_coalesce [OF assms(2)] assms(2) by simp
  with b assms(3) show ?thesis
    unfolding events_to_delta_def if_not_P [OF False]
    by (cases "length ds > 1") (simp_all add: Let_def split_beta parser_frame_def)
qed

section \<open>A whole stream\<close>

text \<open>The messages of a stream; the last piece is parsed with \<open>finished\<close> set.\<close>

fun parse_stream ::
  "('lx, 'sc) parser_setup \<Rightarrow> request \<Rightarrow> (pystr \<times> int list) list \<Rightarrow> ('lx, 'sc) parser
     \<Rightarrow> (delta_message option list \<times> ('lx, 'sc) parser) option" where
  "parse_stream x r [] p = Some ([], p)"
| "parse_stream x r ((text, ids) # ds) p =
     (case parse_delta x r text ids True (ds = []) p of
        None \<Rightarrow> None
      | Some (d, p1) \<Rightarrow> map_option (\<lambda>(msgs, p2). (d # msgs, p2)) (parse_stream x r ds p1))"

definition stream_deltas :: "delta_message option list \<Rightarrow> tool_delta list" where
  "stream_deltas msgs = concat (map msg_deltas msgs)"

text \<open>The request decides about tools before each piece, always in the same way.\<close>

lemma check_skip_sel [simp]:
  "pa_engine (check_skip_tool_parsing r p) = pa_engine p" "pa_calls (check_skip_tool_parsing r p) = pa_calls p"
  "config (pa_setup (check_skip_tool_parsing r p)) = config (pa_setup p)"
  "tool_terminals (pa_setup (check_skip_tool_parsing r p)) = tool_terminals (pa_setup p)"
  "skip_tool_parsing (pa_setup (check_skip_tool_parsing r p)) = skip_tool_parsing (pa_setup p)"
  by (auto simp: check_skip_tool_parsing_def Let_def split: option.split list.split)

lemma check_skip_tools: "pa_tools (check_skip_tool_parsing r p) =
    (case req_tools r of Some (t # ts) \<Rightarrow> Some (t # ts) | _ \<Rightarrow> pa_tools p)"
  by (auto simp: check_skip_tool_parsing_def Let_def split: option.split list.split)

lemma check_skip_suppress: "pa_suppress (check_skip_tool_parsing r p) \<longleftrightarrow>
    pa_suppress p \<or> \<not> skip_tool_parsing (pa_setup p) \<and> req_choice_none r \<and> (\<exists>t ts. req_tools r = Some (t # ts))"
  by (auto simp: check_skip_tool_parsing_def Let_def split: option.split list.split)

text \<open>Once a request has suppressed tool calls, no later request brings them back.\<close>

lemma suppression_sticks:
  "pa_suppress p \<Longrightarrow> pa_suppress (check_skip_tool_parsing r (reset_parser x init p))"
  by (simp add: check_skip_suppress reset_parser_def)

definition effective :: "request \<Rightarrow> ('lx, 'sc) parser_setup \<Rightarrow> ('lx, 'sc) parser \<Rightarrow> arg_setup" where
  "effective r x p = args_of x (check_skip_tool_parsing r p)"

lemma effective_cong:
  "config (pa_setup p') = config (pa_setup p) \<Longrightarrow>
   pa_tools p' = pa_tools p \<or> pa_tools p' = pa_tools (check_skip_tool_parsing r p) \<Longrightarrow> effective r x p' = effective r x p"
  by (auto simp: effective_def args_of_def check_skip_tools split: option.splits list.splits)

definition stream_ok ::
  "request \<Rightarrow> ('lx, 'sc) parser_setup \<Rightarrow> arg_setup \<Rightarrow> phase \<times> int \<Rightarrow> tool_delta list \<Rightarrow> ('lx, 'sc) parser \<Rightarrow> bool" where
  "stream_ok r x a m em p \<longleftrightarrow> effective r x p = a \<and> \<not> pa_suppress (check_skip_tool_parsing r p)
     \<and> tracks (pa_setup p) m (pa_engine p) \<and> calls_sync a m (pa_calls p) em"

lemma tracks_cong:
  "config s' = config s \<Longrightarrow> tool_terminals s' = tool_terminals s \<Longrightarrow> skip_tool_parsing s' = skip_tool_parsing s \<Longrightarrow>
   tracks s' m e = tracks s m e"
  by (simp add: tracks_def setup_ok_def hold_ok_def)

text \<open>What \<open>finish\<close> appends leaves the calls settled.\<close>

lemma finish_tools:
  assumes "tracks s m e" "finish fe s e = (evs, e')" "calls_sync a m c em" "as_converter a \<noteq> None"
  shows "\<exists>c' ds n. tool_events a evs c = Some (c', ds) \<and> calls_sync a (Idle, n) c' (em @ ds)"
proof -
  obtain body e1 where body: "finish_pending fe s e = (body, e1)" by fastforce
  from protocol.finish_pending_keeps [OF assms(1), of fe] body obtain q n where
    q: "proto_run body m = Some (q, n)" "tracks s (q, n) e1" by (auto elim!: keepsE)
  have start: "-1 \<le> snd m \<and> (fst m \<noteq> Idle \<longrightarrow> 0 \<le> snd m)"
    using assms(3) by (simp add: calls_sync_def)
  have ix: "-1 \<le> snd (q, n) \<and> (fst (q, n) \<noteq> Idle \<longrightarrow> 0 \<le> snd (q, n))"
    by (rule proto_run_index [OF q(1) start])
  have inact: "\<not> hold_active e1" using finish_pending_inactive [of fe s e] body by simp
  have evs: "evs = body @ fst (close_state e1)" using assms(2) body by (auto simp: finish_def split_beta)
  obtain c1 ds1 where c1: "tool_events a body c = Some (c1, ds1)" "calls_sync a (q, n) c1 (em @ ds1)"
    using tool_events_sync [OF assms(3) q(1) assms(4)] by blast
  note close = close_state_events [OF q(2) inact ix, unfolded fst_conv snd_conv]
  have "\<exists>c' ds. tool_events a (fst (close_state e1)) c1 = Some (c', ds) \<and> calls_sync a (Idle, n) c' ((em @ ds1) @ ds)"
  proof (cases "\<exists>v. fst (close_state e1) = [SemanticEvent TOOL_CALL_END v n] \<and> 0 \<le> n")
    case True
    then obtain v where v: "fst (close_state e1) = [SemanticEvent TOOL_CALL_END v n]" "0 \<le> n" by blast
    from tool_end_sync [OF c1(2) v(2)] v(1) show ?thesis by (auto simp: tool_event_def)
  next
    case False
    with close(1,2) ix have idle: "q = Idle" by fastforce
    from False close(2) have "fst (close_state e1) = [] \<or>
        (\<exists>k v. fst (close_state e1) = [SemanticEvent k v n] \<and> (k = REASONING_END \<or> k = TEXT_CHUNK))" by blast
    with c1(2) idle show ?thesis by (auto simp: tool_event_def)
  qed
  then obtain c' ds where "tool_events a (fst (close_state e1)) c1 = Some (c', ds)"
    "calls_sync a (Idle, n) c' (em @ ds1 @ ds)" by auto
  with c1(1) show ?thesis unfolding evs tool_events_append by auto
qed

lemma stream_deltas_Cons [simp]: "stream_deltas (d # msgs) = msg_deltas d @ stream_deltas msgs"
  and stream_deltas_Nil [simp]: "stream_deltas [] = []"
  by (simp_all add: stream_deltas_def)

lemma parse_delta_sync:
  assumes ok: "stream_ok r x a m em p" and conv: "as_converter a \<noteq> None"
  shows "\<exists>d p' m'. parse_delta x r tx ids b fin p = Some (d, p')
    \<and> calls_sync a m' (pa_calls p') (em @ msg_deltas d) \<and> (fin \<longrightarrow> fst m' = Idle)
    \<and> (\<not> fin \<longrightarrow> stream_ok r x a m' (em @ msg_deltas d) p')"
proof -
  define p1 where "p1 = p\<lparr> pa_calls := (pa_calls p)\<lparr> c_count := px_history x r (c_count (pa_calls p)) \<rparr>,
      prompt_prepared := (prompt_prepared p \<or> b) \<rparr>"
  define p2 where "p2 = check_skip_tool_parsing r p1"
  have eff: "effective r x p1 = a" using ok by (auto simp: stream_ok_def p1_def intro!: effective_cong)
  have a: "args_of x p2 = a" using eff by (simp add: effective_def p2_def)
  have sup: "\<not> pa_suppress p2" using ok by (simp add: stream_ok_def p2_def p1_def check_skip_suppress)
  have track: "tracks (pa_setup p2) m (pa_engine p2)"
    using ok tracks_cong [of "pa_setup p2" "pa_setup p" m "pa_engine p"]
    by (simp add: p2_def p1_def stream_ok_def)
  have calls: "calls_sync a m (pa_calls p2) em"
    using ok by (simp add: stream_ok_def p2_def p1_def calls_sync_def)
  obtain evs e where feed: "feed (px_frontend x) (pa_setup p2) tx ids (pa_engine p2) = (evs, e)" by fastforce
  from protocol.feed_keeps [OF track, of "px_frontend x" tx ids] feed obtain m1 where
    m1: "proto_run evs m = Some m1" "tracks (pa_setup p2) m1 e" by (auto elim!: keepsE)
  obtain c1 ds1 where c1: "tool_events a evs (pa_calls p2) = Some (c1, ds1)" "calls_sync a m1 c1 (em @ ds1)"
    using tool_events_sync [OF calls m1(1) conv] by blast
  obtain evs' e' where fin: "(if fin then finish (px_frontend x) (pa_setup p2) e else ([], e)) = (evs', e')" by fastforce
  have "\<exists>c' ds m'. tool_events a (evs @ evs') (pa_calls p2) = Some (c', ds) \<and> calls_sync a m' c' (em @ ds)
      \<and> (fin \<longrightarrow> fst m' = Idle) \<and> (\<not> fin \<longrightarrow> m' = m1 \<and> e' = e)"
  proof (cases fin)
    case True
    with fin have "finish (px_frontend x) (pa_setup p2) e = (evs', e')" by simp
    from finish_tools [OF m1(2) this c1(2) conv] obtain c' ds n where
      "tool_events a evs' c1 = Some (c', ds)" "calls_sync a (Idle, n) c' ((em @ ds1) @ ds)" by blast
    with c1(1) True show ?thesis unfolding tool_events_append by fastforce
  next
    case False
    with fin c1 show ?thesis by (cases m1) auto
  qed
  then obtain c' ds m' where t: "tool_events a (evs @ evs') (pa_calls p2) = Some (c', ds)"
    "calls_sync a m' c' (em @ ds)" "fin \<longrightarrow> fst m' = Idle" "\<not> fin \<longrightarrow> m' = m1 \<and> e' = e" by blast
  let ?p3 = "p2\<lparr> pa_engine := e' \<rparr>"
  have a3: "args_of x ?p3 = a" using a by (simp add: args_of_def)
  obtain d p4 where d: "events_to_delta x (evs @ evs') fin ?p3 = Some (d, p4)" "pa_calls p4 = c'"
    "calls_sync a m' c' (em @ msg_deltas d)" "parser_frame ?p3 p4"
    using events_to_delta_sync [of x ?p3 "evs @ evs'" c' ds m' em fin] t a3 sup by auto
  obtain d' p5 where s: "strip_trailing_reasoning d p4 = (d', p5)" by fastforce
  have s': "msg_deltas d' = msg_deltas d" "pa_calls p5 = pa_calls p4" "pa_engine p5 = pa_engine p4"
    "pa_setup p5 = pa_setup p4" "pa_tools p5 = pa_tools p4" "pa_suppress p5 = pa_suppress p4"
    using msg_deltas_strip [of d p4] strip_keeps [of d p4] by (simp_all add: s)
  have run: "parse_delta x r tx ids b fin p = Some (hide_reasoning r d', p5)"
    unfolding parse_delta_def Let_def p1_def [symmetric] p2_def [symmetric] feed prod.case fin d(1) option.case s
    by (rule refl)
  have "stream_ok r x a m' (em @ msg_deltas d) p5" if nf: "\<not> fin"
  proof -
    have fr: "pa_setup p5 = pa_setup p2" "pa_tools p5 = pa_tools p2" "pa_suppress p5 = pa_suppress p2" "pa_engine p5 = e"
      using d(4) s' t(4) nf by (simp_all add: parser_frame_def)
    have "effective r x p5 = effective r x p1"
      by (rule effective_cong) (simp_all add: fr p2_def)
    moreover have "\<not> pa_suppress (check_skip_tool_parsing r p5)"
      using sup fr ok by (simp add: check_skip_suppress p2_def p1_def)
    ultimately show ?thesis using eff m1(2) t(4) nf fr d s' by (simp add: stream_ok_def)
  qed
  with run d s' t(3) show ?thesis by (intro exI [of _ "hide_reasoning r d'"] exI [of _ p5] exI [of _ m']) simp
qed

lemma parse_stream_sync:
  assumes "stream_ok r x a m em p" "as_converter a \<noteq> None" "ds \<noteq> []"
  shows "\<exists>msgs p' n. parse_stream x r ds p = Some (msgs, p') \<and> calls_sync a (Idle, n) (pa_calls p') (em @ stream_deltas msgs)"
  using assms(1,3)
proof (induction ds arbitrary: m em p)
  case (Cons d ds)
  obtain tx ids where d: "d = (tx, ids)" by (cases d)
  from parse_delta_sync [OF Cons.prems(1) assms(2), of tx ids True "ds = []"] obtain msg p1 m1 where
    r1: "parse_delta x r tx ids True (ds = []) p = Some (msg, p1)"
    "calls_sync a m1 (pa_calls p1) (em @ msg_deltas msg)" "ds = [] \<longrightarrow> fst m1 = Idle"
    "ds \<noteq> [] \<longrightarrow> stream_ok r x a m1 (em @ msg_deltas msg) p1" by blast
  show ?case
  proof (cases "ds = []")
    case True
    with r1 show ?thesis by (cases m1) (auto simp: d)
  next
    case False
    from Cons.IH [OF r1(4) [rule_format, OF False] False] r1(1) show ?thesis by (fastforce simp: d)
  qed
qed simp

text \<open>C30: Streamed tool calls are consistent: for both DSML formats, any cut of the output into
  pieces with any token ids, any scanner and lexer, and any converter that the parser has, parsing
  the stream never fails, and reading all messages together each call that was announced has
  exactly one name, the name and the identifier of its slot in its first delta, and as arguments
  exactly the text its slot recorded as sent; no other call has any delta.\<close>

theorem stream_delivers_calls:
  assumes "pa_config p = deepseek_v4_config conv thinking \<or> pa_config p = deepseek_v32_config conv"
    and "tool_terminals (pa_setup p) = tool_terminals_of (pa_config p)"
    and "px_converter x \<noteq> None" "\<not> pa_suppress p" "\<not> req_choice_none r" "ds \<noteq> []"
  shows "\<exists>msgs p'. parse_stream x r ds (reset_parser x None p) = Some (msgs, p')
    \<and> (\<forall>k < length (c_slots (pa_calls p')).
        let s = c_slots (pa_calls p') ! k; mine = of_call (int k) (stream_deltas msgs)
        in if name_sent s
           then client_names (int k) (stream_deltas msgs) = [slot_name s]
              \<and> client_args (int k) (stream_deltas msgs) = streamed_json s
              \<and> mine \<noteq> [] \<and> td_names (hd mine) = [slot_name s] \<and> td_id (hd mine) = Some (slot_id s)
           else mine = [])
    \<and> (\<forall>d \<in> set (stream_deltas msgs). 0 \<le> td_index d \<and> td_index d < int (length (c_slots (pa_calls p'))))"
proof -
  let ?p = "reset_parser x None p"
  have cfg: "config_ok (pa_config p)" "fits Idle (initial_state (pa_config p))"
    using assms(1) deepseek_v4_config_ok deepseek_v32_config_ok
    by (auto simp: deepseek_v4_config_def deepseek_v32_config_def)
  then have "tracks (pa_setup p) (Idle, -1) (pa_engine ?p)"
    unfolding reset_parser_def using assms(2) by (simp add: reset_tracks setup_ok_def)
  then have ok: "stream_ok r x (effective r x ?p) (Idle, -1) [] ?p"
    using assms(4,5) by (simp add: stream_ok_def check_skip_suppress reset_parser_def calls_sync_def)
  have "as_converter (effective r x ?p) \<noteq> None" using assms(3) by (simp add: effective_def args_of_def)
  from parse_stream_sync [OF ok this assms(6)] obtain msgs p' n where
    run: "parse_stream x r ds ?p = Some (msgs, p')" and
    sync: "calls_sync (effective r x ?p) (Idle, n) (pa_calls p') (stream_deltas msgs)" by auto
  note s = calls_syncD [OF sync]
  show ?thesis
  proof (intro exI conjI)
    show "parse_stream x r ds ?p = Some (msgs, p')" by (rule run)
    show "\<forall>k < length (c_slots (pa_calls p')).
        let s = c_slots (pa_calls p') ! k; mine = of_call (int k) (stream_deltas msgs)
        in if name_sent s
           then client_names (int k) (stream_deltas msgs) = [slot_name s]
              \<and> client_args (int k) (stream_deltas msgs) = streamed_json s
              \<and> mine \<noteq> [] \<and> td_names (hd mine) = [slot_name s] \<and> td_id (hd mine) = Some (slot_id s)
           else mine = []"
      using s(4) by (simp add: slot_synced_def Let_def)
    show "\<forall>d \<in> set (stream_deltas msgs). 0 \<le> td_index d \<and> td_index d < int (length (c_slots (pa_calls p')))"
      using s(1,2,7,8) by fastforce
  qed
qed

section \<open>The end of a call\<close>

lemma compute_final:
  assumes "as_converter a = Some f" "f slots (slot_args s) False = Some j" "j \<noteq> []"
    and "prefix (streamed_json s) (fix_arg_types a j (slot_name s))"
  shows "case flush_arg_converter a slots s of
      None \<Rightarrow> streamed_json s = fix_arg_types a j (slot_name s)
    | Some (d, s') \<Rightarrow> streamed_json s @ d = fix_arg_types a j (slot_name s)"
  using assms by (auto simp: flush_arg_converter_def Let_def prefix_def)


section \<open>Text\<close>

definition text_of :: "semantic_event list \<Rightarrow> pystr" where
  "text_of evs = concat (map value_of (filter (\<lambda>ev. ev_type ev = TEXT_CHUNK) evs))"

definition solid :: "pystr \<Rightarrow> pystr" where
  "solid s = filter (\<lambda>c. \<not> uis_space c) s"

lemma solid_append [simp]: "solid (s @ t) = solid s @ solid t"
  and solid_Nil [simp]: "solid [] = []"
  by (simp_all add: solid_def)

lemma solid_blank: "ustrip s = [] \<Longrightarrow> solid s = []"
  by (simp add: ustrip_Nil_iff solid_def list_all_iff)

text \<open>Deltas come from slots, and slots stay.\<close>

lemma set_slot_length [simp]: "length (c_slots (set_slot k s c)) = length (c_slots c)"
  by simp

lemma ensure_tool_id_length [simp]: "length (c_slots (ensure_tool_id a k n c)) = length (c_slots c)"
  by (simp add: ensure_tool_id_def Let_def)

lemma send_name_length [simp]: "length (c_slots (fst (send_name a i k n v c))) = length (c_slots c)"
  by (simp add: send_name_def Let_def)

lemma emit_name_length [simp]: "length (c_slots (fst (emit_name_delta a i k n c))) = length (c_slots c)"
  by (simp add: emit_name_delta_def split: option.split)

lemma add_chunk_length [simp]: "length (c_slots (add_chunk k v c)) = length (c_slots c)"
  by (simp add: add_chunk_def)

lemma chunk_deltas_length: "length (c_slots (fst (chunk_deltas a i k v c))) = length (c_slots c)"
  by (simp add: chunk_deltas_def Let_def split: option.split prod.split)

lemma end_deltas_length: "length (c_slots (fst (end_deltas a i k v c))) = length (c_slots c)"
  by (simp add: end_deltas_def Let_def)

lemma py_index_slot: "py_index xs i = Some k \<Longrightarrow> xs \<noteq> []"
  by (auto simp: py_index_def split: if_splits)

lemma flush_slot_length: "length (c_slots (snd (flush_slot a k c))) = length (c_slots c)"
  by (simp add: flush_slot_def split: option.split prod.split)

lemma tool_event_slots:
  assumes "tool_event a ev c = Some (c', ds)"
  shows "length (c_slots c) \<le> length (c_slots c') \<and> (ds \<noteq> [] \<longrightarrow> c_slots c' \<noteq> [])"
proof (cases "ev_type ev")
  case ARG_VALUE_CHUNK
  with assms obtain k where "py_index (c_slots c) (ev_index ev) = Some k"
    "(c', ds) = chunk_deltas a (ev_index ev) k (value_of ev) (add_chunk k (value_of ev) c)"
    by (auto simp: tool_event_def handle_arg_chunk_def)
  with chunk_deltas_length [of a "ev_index ev" k "value_of ev" "add_chunk k (value_of ev) c"] py_index_slot
  show ?thesis by (metis add_chunk_length fst_conv le_refl length_0_conv)
next
  case TOOL_CALL_END
  show ?thesis
  proof (cases "int (length (c_slots c)) \<le> ev_index ev")
    case False
    with TOOL_CALL_END assms obtain k where "py_index (c_slots c) (ev_index ev) = Some k"
      "(c', ds) = end_deltas a (ev_index ev) k (fst (flush_slot a k c)) (snd (flush_slot a k c))"
      by (auto simp: tool_event_def handle_tool_end_def split_beta)
    with end_deltas_length [of a "ev_index ev" k "fst (flush_slot a k c)" "snd (flush_slot a k c)"]
      flush_slot_length [of a k c] py_index_slot
    show ?thesis by (metis fst_conv le_refl length_0_conv)
  qed (use TOOL_CALL_END assms in \<open>simp add: tool_event_def handle_tool_end_def\<close>)
qed (use assms in \<open>auto simp: tool_event_def ensure_slot_def handle_tool_name_def Let_def\<close>)

definition batch_ok :: "batch \<Rightarrow> bool" where
  "batch_ok b \<longleftrightarrow> (b_deltas b \<noteq> [] \<longrightarrow> c_slots (b_calls b) \<noteq> [])"

lemma batch_event_kept:
  assumes "batch_event a muted ev b = Some b'" "batch_ok b"
  shows "batch_ok b' \<and> mset (b_content b' @ b_deferred b') = mset (b_content b @ b_deferred b @ text_of [ev])"
proof (cases "\<exists>c ds. tool_event a ev (b_calls b) = Some (c, ds)
    \<and> b' = b\<lparr> b_seen := True, b_calls := c, b_deltas := b_deltas b @ ds \<rparr> \<and> call_event (ev_type ev)")
  case True
  with tool_event_slots assms(2) show ?thesis
    by (fastforce simp: batch_ok_def text_of_def call_event_def)
next
  case False
  with assms show ?thesis
    by (cases "ev_type ev")
      (auto simp: batch_event_def text_of_def call_event_def batch_ok_def split: if_splits)
qed

lemma text_of_Cons: "text_of (ev # evs) = text_of [ev] @ text_of evs"
  by (simp add: text_of_def)

lemma batch_events_kept:
  "batch_events a muted evs b = Some b' \<Longrightarrow> batch_ok b \<Longrightarrow>
   batch_ok b' \<and> mset (b_content b' @ b_deferred b') = mset (b_content b @ b_deferred b @ text_of evs)"
proof (induction evs arbitrary: b)
  case Nil
  then show ?case by (simp add: text_of_def)
next
  case (Cons ev evs)
  then obtain b1 where b1: "batch_event a muted ev b = Some b1" "batch_events a muted evs b1 = Some b'"
    by (auto split: option.splits)
  from batch_event_kept [OF b1(1) Cons.prems(2)] Cons.IH [OF b1(2)] show ?case
    by (subst text_of_Cons) (simp add: ac_simps)
qed

lemma batch_plain:
  assumes "batch_events a muted evs b = Some b'" "list_all (\<lambda>ev. \<not> call_event (ev_type ev)) evs" "\<not> b_seen b"
  shows "b_content b' = b_content b @ text_of evs \<and> b_deferred b' = b_deferred b \<and> \<not> b_seen b' \<and> b_deltas b' = b_deltas b"
  using assms
proof (induction evs arbitrary: b)
  case (Cons ev evs)
  then obtain b1 where b1: "batch_event a muted ev b = Some b1" "batch_events a muted evs b1 = Some b'"
    by (auto split: option.splits)
  have "b_content b1 = b_content b @ text_of [ev] \<and> b_deferred b1 = b_deferred b \<and> \<not> b_seen b1 \<and> b_deltas b1 = b_deltas b"
    using b1(1) Cons.prems(2,3)
    by (cases "ev_type ev") (auto simp: batch_event_def text_of_def call_event_def)
  with Cons.IH [OF b1(2)] Cons.prems(2) show ?case by (subst text_of_Cons) simp
qed (simp add: text_of_def)

lemma hold_blank_kept:
  "hold_blank dw nonws fin sl t kept = (t', kept', nw) \<Longrightarrow> kept = [] \<or> sl \<Longrightarrow>
   solid t' @ solid kept' = solid t @ solid kept"
  by (auto simp: hold_blank_def solid_blank split: if_splits)

lemma flush_content_kept:
  assumes "flush_content dw nonws fin b = (t, kept, nw)" "batch_ok b"
  shows "mset (solid (t @ kept)) = mset (solid (b_deferred b @ b_content b))"
    and "\<not> b_seen b \<Longrightarrow> solid (t @ kept) = solid (b_deferred b @ b_content b)"
proof -
  obtain tx kp where r: "ready_text b = (tx, kp)" by fastforce
  then have kp: "kp = [] \<or> c_slots (b_calls b) \<noteq> []"
    using assms(2) by (auto simp: ready_text_def batch_ok_def split: if_splits)
  have all: "solid t @ solid kept = solid tx @ solid kp"
    using assms(1) r by (intro hold_blank_kept [OF _ kp]) (simp add: flush_content_def)
  show "mset (solid (t @ kept)) = mset (solid (b_deferred b @ b_content b))"
    unfolding solid_append all using r by (auto simp: ready_text_def split: if_splits)
  show "solid (t @ kept) = solid (b_deferred b @ b_content b)" if "\<not> b_seen b"
    unfolding solid_append all using r that by (auto simp: ready_text_def split: if_splits)
qed

lemma message_content_make [simp]: "message_content (make_message t r ds) = t"
  by (simp add: make_message_def message_content_def nonempty_def)

text \<open>Remark: No text of the model gets lost in a message: whatever the events are, the text of the
  message together with what stays deferred has exactly the characters, whitespace apart, that
  were deferred before or come with the events, and they are in order when no tool call
  is among the events.\<close>

theorem text_is_kept:
  assumes "events_to_delta x evs fin p = Some (d, p')"
  shows "mset (solid (message_content d @ deferred_content p')) = mset (solid (deferred_content p @ text_of evs))
    \<and> (list_all (\<lambda>ev. \<not> call_event (ev_type ev)) evs \<longrightarrow>
        solid (message_content d @ deferred_content p') = solid (deferred_content p @ text_of evs))"
proof (cases "evs = [] \<and> deferred_content p = []")
  case True
  with assms show ?thesis by (simp add: events_to_delta_def message_content_def text_of_def)
next
  case False
  then obtain b where b: "batch_events (args_of x p) (pa_suppress p) evs (start_batch p) = Some b"
    using assms by (auto simp: events_to_delta_def split: option.splits)
  obtain t kept nw where f: "flush_content (drop_whitespace_only_content_before_tools (pa_config p))
      (content_has_nonws p) fin b = (t, kept, nw)" by (metis prod_cases3)
  have d: "message_content d = t" "deferred_content p' = kept"
    using assms b f False by (auto simp: events_to_delta_def Let_def)
  note k = batch_events_kept [OF b]
  have k: "batch_ok b" "mset (b_content b @ b_deferred b) = mset (deferred_content p @ text_of evs)"
    using k by (simp_all add: batch_ok_def start_batch_def)
  have "mset (solid (b_deferred b @ b_content b)) = mset (solid (deferred_content p @ text_of evs))"
    using arg_cong [OF k(2), of "filter_mset (\<lambda>c. \<not> uis_space c)"] by (simp add: solid_def ac_simps)
  moreover have "solid (t @ kept) = solid (deferred_content p @ text_of evs)"
    if "list_all (\<lambda>ev. \<not> call_event (ev_type ev)) evs"
    using batch_plain [OF b that] flush_content_kept(2) [OF f k(1)] by (simp add: start_batch_def)
  ultimately show ?thesis using flush_content_kept(1) [OF f k(1)] d by simp
qed

text \<open>Remark: text after a call is not in the message of its deltas, not even when that message is the last one.\<close>

lemma text_after_call_waits:
  assumes "b_seen b" "b_deltas b \<noteq> []" "c_slots (b_calls b) \<noteq> []"
  shows "fst (snd (flush_content dw nonws True b)) = b_deferred b"
  using assms by (simp add: flush_content_def ready_text_def hold_blank_def)

section \<open>Reasoning\<close>

lemma strip_reasoning_keeps:
  assumes "strip_trailing_reasoning_whitespace (pa_config p)" "msg_reasoning m = Some r"
    and "strip_trailing_reasoning (Some m) p = (d, p')"
  shows "(case d of Some m' \<Rightarrow> (case msg_reasoning m' of Some t \<Rightarrow> t | None \<Rightarrow> []) | None \<Rightarrow> [])
      @ deferred_reasoning p' = deferred_reasoning p @ r"
    and "list_all uis_space (deferred_reasoning p')"
  using assms urstrip_decompose [of "deferred_reasoning p @ r"] urstrip_tail_space [of "deferred_reasoning p @ r"]
  by (auto simp: strip_trailing_reasoning_def Let_def nonempty_def split: if_splits)

end
