(* ===== verification/ParserDemo.thy ===== *)
theory ParserDemo
  imports ParserProps
begin

text \<open>
  A concrete stream for \<open>ParserProps\<close> and \<open>DsmlArgs\<close>: the front end of \<open>StreamProps\<close>, a standard
  library that reads no JSON and writes a fixed text, and a call of one tool; the witnesses
  evaluate on it.
\<close>

section \<open>A concrete stream\<close>

definition demo_std :: pystd where
  "demo_std = \<lparr> py_int = (\<lambda>s. None), py_float = (\<lambda>s. None), py_loads = (\<lambda>s. None), py_dumps = (\<lambda>v. lit ''{}''),
     py_lower = (\<lambda>s. s), py_alnum = (\<lambda>c. 48 \<le> c \<and> c \<le> 57), py_re_space = (\<lambda>c. c = 32 \<or> c = 10),
     py_ast_ok = (\<lambda>s. True) \<rparr>"

definition demo_parser_setup :: "(unit, unit) parser_setup" where
  "demo_parser_setup = \<lparr> px_frontend = id_frontend, px_std = demo_std,
     px_converter = Some (\<lambda>tools slots raw partial. Some (dsml_arg_converter demo_std raw partial)),
     px_mk_id = (\<lambda>n c. lit ''call-'' @ n), px_history = (\<lambda>r c. c), px_start_id = None, px_end_id = None \<rparr>"

definition demo_request :: request where
  "demo_request = \<lparr> req_tools = None, req_choice_none = False, req_include_reasoning = True \<rparr>"

definition demo_parser :: "(unit, unit) parser" where
  "demo_parser = \<lparr> pa_engine = demo_engine, pa_setup = demo_setup None, pa_tools = None,
     pa_calls = \<lparr> c_slots = [], c_count = 0 \<rparr>, reasoning_ended = False, streaming_initialized = False,
     prompt_prepared = False, deferred_content = [], deferred_reasoning = [], content_has_nonws = False,
     pa_suppress = False \<rparr>"

lemma demo_setup_same: "(demo_setup None)\<lparr> allowed_tool_names := None, suppress_tool_calls := False \<rparr> = demo_setup None"
  by (simp add: demo_setup_def)

lemma demo_check:
  "pa_setup p = demo_setup None \<Longrightarrow> \<not> pa_suppress p \<Longrightarrow> check_skip_tool_parsing demo_request p = p"
  using demo_setup_same by (simp add: check_skip_tool_parsing_def demo_request_def Let_def)

lemma demo_reset: "reset_parser demo_parser_setup None demo_parser = demo_parser"
  by (simp add: reset_parser_def demo_parser_def demo_parser_setup_def demo_engine_def reset_engine_def
      has_reasoning_def id_frontend_def deepseek_v4_config_def Let_def default_config_def)

definition demo_engine1 :: "(unit, unit) engine" where
  "demo_engine1 = demo_engine\<lparr> ever_had_token_ids := True, state := NAME_STATE, tool_index := 0 \<rparr>"

lemma demo_feed1:
  "feed id_frontend (demo_setup None) [] [1, 2] demo_engine
     = ([SemanticEvent TOOL_CALL_START (Some (lit ''<>'')) 0], demo_engine1)"
  by (simp add: demo_engine1_def demo_eval engine_eval)

lemma demo_feed2:
  "fst (feed id_frontend (demo_setup None) (lit ''f'') [] demo_engine1) = [SemanticEvent NAME_EVENT (Some (lit ''f'')) 0]"
  "fst (finish id_frontend (demo_setup None) (snd (feed id_frontend (demo_setup None) (lit ''f'') [] demo_engine1)))
     = [SemanticEvent TOOL_CALL_END None 0]"
  by (simp_all add: demo_engine1_def demo_eval engine_eval)

definition demo_parser1 :: "(unit, unit) parser" where
  "demo_parser1 = demo_parser\<lparr> prompt_prepared := True, pa_engine := demo_engine1,
     pa_calls := \<lparr> c_slots = [new_slot], c_count = 0 \<rparr> \<rparr>"

lemmas parser_eval = parse_delta_def events_to_delta_def start_batch_def batch_event_def tool_event_def value_of_def
  handle_tool_name_def handle_tool_end_def flush_slot_def flush_arg_converter_def end_deltas_def send_name_def
  ensure_tool_id_def end_name_def accept_tool_name_def is_valid_tool_name_def tool_list_def ensure_slot_def py_index_def
  set_slot_def args_of_def flush_content_def ready_text_def hold_blank_def make_message_def
  strip_trailing_reasoning_def hide_reasoning_def Let_def

lemma demo_px [simp]:
  "px_frontend demo_parser_setup = id_frontend" "px_history demo_parser_setup r c = c"
  "px_std demo_parser_setup = demo_std"
  "px_converter demo_parser_setup = Some (\<lambda>tools slots raw partial. Some (dsml_arg_converter demo_std raw partial))"
  by (simp_all add: demo_parser_setup_def)

lemma demo_pa [simp]:
  "pa_setup demo_parser = demo_setup None" "\<not> pa_suppress demo_parser" "pa_engine demo_parser = demo_engine"
  "pa_calls demo_parser = \<lparr> c_slots = [], c_count = 0 \<rparr>" "pa_tools demo_parser = None"
  "deferred_content demo_parser = []" "\<not> content_has_nonws demo_parser"
  by (simp_all add: demo_parser_def)

lemma demo_delta1:
  "parse_delta demo_parser_setup demo_request [] [1, 2] True False demo_parser = Some (None, demo_parser1)"
  by (simp add: parser_eval demo_check demo_feed1 demo_parser1_def demo_parser_def)

lemma demo_pa1 [simp]:
  "pa_setup demo_parser1 = demo_setup None" "\<not> pa_suppress demo_parser1" "pa_engine demo_parser1 = demo_engine1"
  "pa_calls demo_parser1 = \<lparr> c_slots = [new_slot], c_count = 0 \<rparr>" "pa_tools demo_parser1 = None"
  "deferred_content demo_parser1 = []" "\<not> content_has_nonws demo_parser1"
  by (simp_all add: demo_parser1_def)

lemma demo_dumps: "dsml_arg_converter demo_std raw b = lit ''{}''"
  by (simp add: dsml_arg_converter_def demo_std_def)

definition demo_args :: arg_setup where
  "demo_args = args_of demo_parser_setup demo_parser1"

lemma demo_args_sel [simp]:
  "tool_list demo_args = []" "accept_tool_name demo_args n \<longleftrightarrow> n \<noteq> []"
  "as_converter demo_args = Some (\<lambda>slots raw partial. Some (dsml_arg_converter demo_std raw partial))"
  "fix_arg_types demo_args j n = j"
  by (simp_all add: demo_args_def args_of_def tool_list_def accept_tool_name_def is_valid_tool_name_def fix_arg_types_def)

definition demo_named :: calls where
  "demo_named = \<lparr> c_slots = [new_slot\<lparr> slot_name := lit ''f'' \<rparr>], c_count = 0 \<rparr>"

lemma demo_name: "handle_tool_name 0 (lit ''f'') \<lparr> c_slots = [new_slot], c_count = 0 \<rparr> = Some demo_named"
  by (simp add: handle_tool_name_def py_index_def demo_named_def set_slot_def new_slot_def)

lemma demo_flush: "flush_slot demo_args 0 demo_named
    = (lit ''{}'', \<lparr> c_slots = [new_slot\<lparr> slot_name := lit ''f'', streamed_json := lit ''{}'' \<rparr>], c_count = 0 \<rparr>)"
  by (simp add: flush_slot_def flush_arg_converter_def demo_named_def demo_dumps set_slot_def new_slot_def lit_def Let_def)

lemma demo_end:
  "\<exists>c ds. handle_tool_end demo_args 0 demo_named = Some (c, ds)
     \<and> map (\<lambda>s. (name_sent s, slot_name s, streamed_json s)) (c_slots c) = [(True, lit ''f'', lit ''{}'')]"
proof -
  have "py_index (c_slots demo_named) 0 = Some 0" "\<not> int (length (c_slots demo_named)) \<le> 0"
    by (simp_all add: py_index_def demo_named_def)
  then show ?thesis
    by (simp add: handle_tool_end_def demo_flush)
      (simp add: end_deltas_def end_name_def new_slot_def send_name_def ensure_tool_id_def set_slot_def Let_def)
qed

lemma demo_delta2:
  "\<exists>d p. parse_delta demo_parser_setup demo_request (lit ''f'') [] True True demo_parser1 = Some (d, p)
     \<and> map (\<lambda>s. (name_sent s, slot_name s, streamed_json s)) (c_slots (pa_calls p)) = [(True, lit ''f'', lit ''{}'')]"
proof -
  let ?evs = "[SemanticEvent NAME_EVENT (Some (lit ''f'')) 0, SemanticEvent TOOL_CALL_END None 0]"
  obtain e where 1: "feed id_frontend (demo_setup None) (lit ''f'') [] demo_engine1
      = ([SemanticEvent NAME_EVENT (Some (lit ''f'')) 0], e)"
    using demo_feed2(1) by (metis prod.collapse)
  obtain e2 where 2: "finish id_frontend (demo_setup None) e = ([SemanticEvent TOOL_CALL_END None 0], e2)"
    using demo_feed2(2) unfolding 1 by (metis prod.collapse snd_conv)
  let ?p = "demo_parser1\<lparr> pa_engine := e2 \<rparr>"
  obtain c ds where c: "handle_tool_end demo_args 0 demo_named = Some (c, ds)"
    "map (\<lambda>s. (name_sent s, slot_name s, streamed_json s)) (c_slots c) = [(True, lit ''f'', lit ''{}'')]"
    using demo_end by (elim exE conjE) (rule that)
  have a: "args_of demo_parser_setup ?p = demo_args" by (simp add: demo_args_def args_of_def)
  have "tool_events demo_args ?evs (pa_calls ?p) = Some (c, ds)"
    by (simp add: tool_event_def value_of_def demo_name c(1))
  from batch_events_tools [of demo_args ?evs "start_batch ?p" c ds] this obtain b where
    b: "batch_events demo_args False ?evs (start_batch ?p) = Some b" "b_calls b = c" "b_deltas b = ds"
    by (auto simp: start_batch_def)
  have "\<exists>d p'. events_to_delta demo_parser_setup ?evs True ?p = Some (d, p') \<and> pa_calls p' = c"
    unfolding events_to_delta_def a using b by (simp add: Let_def split_beta)
  then obtain d p' where d: "events_to_delta demo_parser_setup ?evs True ?p = Some (d, p')" "pa_calls p' = c" by blast
  have check: "check_skip_tool_parsing demo_request demo_parser1 = demo_parser1" by (rule demo_check) simp_all
  have same: "demo_parser1\<lparr> pa_calls := \<lparr> c_slots = [new_slot], c_count = 0 \<rparr>, prompt_prepared := True \<rparr> = demo_parser1"
    by (simp add: demo_parser1_def)
  obtain d' p5 where s: "strip_trailing_reasoning d p' = (d', p5)" by fastforce
  have "parse_delta demo_parser_setup demo_request (lit ''f'') [] True True demo_parser1
      = Some (hide_reasoning demo_request d', p5)"
    using d(1) by (simp add: parse_delta_def same check 1 2 s)
  moreover have "pa_calls p5 = c" using strip_keeps(1) [of d p'] s d(2) by simp
  ultimately show ?thesis using c(2) by (intro exI conjI) (assumption, simp only:)
qed

text \<open>One call of \<open>f\<close> without parameters: its name and its arguments arrive once.\<close>

theorem stream_delivers_calls_witness:
  "\<exists>msgs p'. parse_stream demo_parser_setup demo_request [([], [1, 2]), (lit ''f'', [])] demo_parser = Some (msgs, p')
     \<and> client_names 0 (stream_deltas msgs) = [lit ''f''] \<and> client_args 0 (stream_deltas msgs) = lit ''{}''"
proof -
  have cfg: "pa_config demo_parser = deepseek_v4_config (\<lambda>raw partial. None) False \<or>
      pa_config demo_parser = deepseek_v32_config (\<lambda>raw partial. None)" by simp
  have tt: "tool_terminals (pa_setup demo_parser) = tool_terminals_of (pa_config demo_parser)"
    by (simp add: demo_setup_def new_setup_def Let_def)
  obtain msgs p' where run: "parse_stream demo_parser_setup demo_request [([], [1, 2]), (lit ''f'', [])] demo_parser = Some (msgs, p')"
    and all: "\<forall>k < length (c_slots (pa_calls p')).
        let s = c_slots (pa_calls p') ! k; mine = of_call (int k) (stream_deltas msgs)
        in if name_sent s
           then client_names (int k) (stream_deltas msgs) = [slot_name s]
              \<and> client_args (int k) (stream_deltas msgs) = streamed_json s
              \<and> mine \<noteq> [] \<and> td_names (hd mine) = [slot_name s] \<and> td_id (hd mine) = Some (slot_id s)
           else mine = []"
    using stream_delivers_calls [OF cfg tt, of demo_parser_setup demo_request "[([], [1, 2]), (lit ''f'', [])]"]
    unfolding demo_reset by (auto simp: demo_request_def)
  from demo_delta2 obtain d p where d: "parse_delta demo_parser_setup demo_request (lit ''f'') [] True True demo_parser1 = Some (d, p)"
    "map (\<lambda>s. (name_sent s, slot_name s, streamed_json s)) (c_slots (pa_calls p)) = [(True, lit ''f'', lit ''{}'')]"
    by (elim exE conjE) (rule that)
  then have "p' = p" using run by (simp add: demo_delta1)
  with d(2) all run show ?thesis by (cases "c_slots (pa_calls p)") (auto simp: Let_def)
qed

text \<open>The parameter \<open>x\<close> with the value \<open>1\<close> is read back.\<close>

theorem dsml_args_roundtrip_witness:
  "dsml_arg_converter (demo_std\<lparr> py_dumps := (\<lambda>v. case v of JDict d \<Rightarrow> concat (map fst d) | _ \<Rightarrow> []) \<rparr>)
     (render_params [10] [(lit ''x'', True, lit ''1''), (lit ''y'', False, lit ''2'')] @ [10]) False = lit ''xy''"
proof -
  let ?std = "demo_std\<lparr> py_dumps := (\<lambda>v. case v of JDict d \<Rightarrow> concat (map fst d) | _ \<Rightarrow> []) \<rparr>"
  let ?xs = "[(lit ''x'', True, lit ''1''), (lit ''y'', False, lit ''2'')]"
  have short: "\<not> sublist param_close [c]" for c
  proof
    assume "sublist param_close [c]"
    from sublist_length_le [OF this] show False by (simp add: param_close_def dsml_close_def dsml_def lit_def)
  qed
  have "re_space_ok ?std" by (simp add: re_space_ok_def demo_std_def)
  moreover have "list_all well_written ?xs" using short by (simp add: well_written_def lit_def)
  ultimately show ?thesis
    using dsml_args_roundtrip [of ?std ?xs "[10]"] by (simp add: lit_def)
qed

text \<open>The end of the call gives the arguments of the whole output.\<close>

definition demo_arguing :: calls where
  "demo_arguing = \<lparr> c_slots = [new_slot\<lparr> slot_name := lit ''f'', slot_args := lit ''x'' \<rparr>], c_count = 0 \<rparr>"


theorem text_is_kept_witness:
  "\<exists>d p'. events_to_delta demo_parser_setup [SemanticEvent TEXT_CHUNK (Some (lit ''hi'')) 0] False demo_parser = Some (d, p')
     \<and> solid (message_content d @ deferred_content p') = lit ''hi''"
proof -
  let ?evs = "[SemanticEvent TEXT_CHUNK (Some (lit ''hi'')) 0]"
  obtain d p' where d: "events_to_delta demo_parser_setup ?evs False demo_parser = Some (d, p')"
    by (simp add: events_to_delta_def batch_event_def split_beta Let_def)
  have "text_of ?evs = lit ''hi''" "solid (lit ''hi'') = lit ''hi''"
    by (simp_all add: text_of_def value_of_def solid_def lit_def uis_space_def)
  then have "solid (message_content d @ deferred_content p') = lit ''hi''"
    using text_is_kept [OF d] by (simp add: call_event_def)
  with d show ?thesis by (intro exI conjI)
qed

text \<open>Remark: around a call that is not accepted, the text after it comes out before the text in front of it.\<close>

lemma refused_call_swaps_text:
  "map_option (\<lambda>(d, p). message_content d) (events_to_delta demo_parser_setup
     [SemanticEvent TEXT_CHUNK (Some (lit ''A'')) 0, SemanticEvent TOOL_CALL_START None 0,
      SemanticEvent TOOL_CALL_END None 0, SemanticEvent TEXT_CHUNK (Some (lit ''B'')) 0] False demo_parser)
   = Some (lit ''BA'')"
  by (simp add: parser_eval new_slot_def try_extract_name_def demo_dumps fix_arg_types_def lit_def
      hold_blank_def ustrip_def ulstrip_def urstrip_def uis_space_def message_content_def nonempty_def)

end
