(* ===== verification/OptFlags.thy ===== *)
theory OptFlags
  imports Prelude
begin

text \<open>
  The choice of matmul kernel options (\<open>triton-kernels-matmul-ogs-opt-flags.dsv4-mi300x.py\<close>): the
  AMD defaults with the branch for this model on MI300X, the NVIDIA defaults, and the module state
  of constraints and flags.  The heuristics of the two vendors, the device and the arithmetic
  helpers of Triton are not in the repository: they are functions of the record \<open>target\<close>.
  \<^term>\<open>None\<close> is a failed assertion or another exception; sizes are Python integers, and
  \<open>True\<close> and \<open>False\<close> count as 1 and 0, as in Python.  A routing has at least one expert and a
  device at least one processor.  Of the keyword arguments of the kernel only \<open>waves_per_eu\<close>
  varies; the two constant ones are left out, and so is \<open>arch\<close>, which is always \<open>None\<close>.
\<close>

section \<open>Data\<close>

record opt_flags =
  block_m :: int
  block_n :: int
  block_k :: int
  num_warps :: int
  num_stages :: int
  group_m :: int
  xcd_swizzle :: int
  w_cache_modifier :: "string option"
  split_k :: int
  is_persistent :: int
  idle_sms :: "int option"
  epilogue_subtile :: int
  waves_per_eu :: "int option"

text \<open>
  The constraints are a dictionary from names to integers, with \<open>True\<close> as 1 and \<open>False\<close> as 0; a
  value may be \<open>None\<close>, which \<open>get\<close> does not tell from an absent one.
\<close>

type_synonym constraints = "(string, int option) dict"

definition cget :: "constraints \<Rightarrow> string \<Rightarrow> int option" where
  "cget c k = (case map_of c k of None \<Rightarrow> None | Some v \<Rightarrow> v)"

definition truthy :: "int option \<Rightarrow> bool" where
  "truthy v \<longleftrightarrow> v \<noteq> None \<and> v \<noteq> Some 0"

record routing =
  n_expts_tot :: int
  n_expts_act :: int
  expected_tokens :: "int option"
  has_hist :: bool
  n_blocks :: "int \<Rightarrow> int \<Rightarrow> int"

record matmul =
  mm_batch :: int
  mm_m :: int
  mm_n :: int
  mm_k :: int
  lhs_bits :: int
  lhs_itemsize :: int
  rhs_bits :: int
  lhs_bf16 :: bool
  rhs_fp4 :: bool
  out_itemsize :: int
  has_weight_scale :: bool
  imprecise_acc_free :: bool
  mm_routing :: "routing option"
  can_use_tma :: bool
  can_use_split_k :: bool
  enforce_invariance :: bool

record target =
  cdna_version :: int
  rdna_version :: int
  multi_processors :: int
  device_capability :: int
  next_power_of_2 :: "int \<Rightarrow> int"
  cdiv :: "int \<Rightarrow> int \<Rightarrow> int"
  amd_block_nk :: "matmul \<Rightarrow> int \<Rightarrow> int \<Rightarrow> int \<times> int"
  nv_block_n :: "matmul \<Rightarrow> int \<times> int"
  nv_grid_size :: "routing option \<Rightarrow> matmul \<Rightarrow> int \<Rightarrow> int \<Rightarrow> int"
  nv_block_k :: "matmul \<Rightarrow> bool \<Rightarrow> int"
  nv_split_k :: "int \<Rightarrow> int \<Rightarrow> int \<Rightarrow> int"
  nv_num_stages :: "matmul \<Rightarrow> bool \<Rightarrow> int \<Rightarrow> int \<Rightarrow> int \<Rightarrow> int \<Rightarrow> int \<Rightarrow> int"
  nv_num_warps :: "matmul \<Rightarrow> int \<Rightarrow> int \<Rightarrow> bool \<Rightarrow> int"

section \<open>Shared parts\<close>

definition max_allowable_mn :: "int \<Rightarrow> int \<Rightarrow> int \<Rightarrow> int \<Rightarrow> int" where
  "max_allowable_mn max_mn m n k = (if m * n \<ge> max_mn then 1 else k)"

text \<open>The attribute that a constraint names; \<^term>\<open>None\<close> where there is none.\<close>

definition flag_value :: "opt_flags \<Rightarrow> string \<Rightarrow> int option" where
  "flag_value f k =
     (if k = ''idle_sms'' then idle_sms f else
      map_of [(''block_m'', block_m f), (''block_n'', block_n f), (''block_k'', block_k f),
       (''is_persistent'', is_persistent f), (''epilogue_subtile'', epilogue_subtile f),
       (''num_warps'', num_warps f), (''num_stages'', num_stages f), (''group_m'', group_m f),
       (''xcd_swizzle'', xcd_swizzle f), (''split_k'', split_k f)] k)"

definition all_constraints_satisfied :: "opt_flags \<Rightarrow> constraints \<Rightarrow> bool" where
  "all_constraints_satisfied f c \<longleftrightarrow>
     list_all (\<lambda>(k, v). v = None \<or> k \<in> {''split_k'', ''max_allowable_mn''} \<or> flag_value f k = v) c
     \<and> (truthy (cget c ''split_k'') \<and> \<not> truthy (cget c ''max_allowable_mn'') \<longrightarrow>
          cget c ''split_k'' = Some (split_k f))"

definition tokens_per_expert :: "matmul \<Rightarrow> bool \<Rightarrow> int" where
  "tokens_per_expert p dense =
     (case mm_routing p of
        None \<Rightarrow> mm_m p
      | Some r \<Rightarrow> if dense then mm_m p
                  else case expected_tokens r of None \<Rightarrow> max 1 (mm_m p div n_expts_tot r) | Some t \<Rightarrow> t)"

text \<open>
  The split along \<open>k\<close>: a constraint first, then what the backend computes.  Comparing a
  \<open>max_allowable_mn\<close> that is \<open>None\<close> raises, and so does a division by an empty grid: \<^term>\<open>None\<close>.
\<close>

definition choose_split_k :: "matmul \<Rightarrow> constraints \<Rightarrow> int option \<Rightarrow> int option" where
  "choose_split_k p c computed =
     (if map_of c ''max_allowable_mn'' = Some None then None
      else (let mx = (case cget c ''max_allowable_mn'' of None \<Rightarrow> 0 | Some v \<Rightarrow> v) in
            case cget c ''split_k'' of
              Some k \<Rightarrow> Some (if mx > 0 then max_allowable_mn mx (mm_m p) (mm_n p) k else k)
            | None \<Rightarrow> if can_use_split_k p \<and> \<not> enforce_invariance p then computed else Some 1))"

definition constrained :: "int option \<Rightarrow> int \<Rightarrow> int" where
  "constrained c v = (case c of Some x \<Rightarrow> x | None \<Rightarrow> v)"

section \<open>AMD\<close>

definition amd_block_m :: "target \<Rightarrow> matmul \<Rightarrow> constraints \<Rightarrow> int" where
  "amd_block_m t p c =
     (let tokens = tokens_per_expert p False; cdna4 = cdna_version t = 4 in
      if truthy (cget c ''block_m'') then the (cget c ''block_m'')
      else if enforce_invariance p then (if cdna4 then 256 else 128)
      else if tokens \<ge> 512 \<and> mm_n p \<ge> 2048 then (if cdna4 then 256 else 128)
      else if cdna4 \<and> mm_m p \<ge> 512 then 128
      else if rdna_version t \<in> {3, 4} \<and> mm_m p \<ge> 512 then 64
      else max 32 (min (next_power_of_2 t tokens) 64))"

definition amd_grid_m :: "target \<Rightarrow> matmul \<Rightarrow> int \<Rightarrow> int" where
  "amd_grid_m t p bm = (case mm_routing p of Some r \<Rightarrow> n_blocks r (mm_m p) bm | None \<Rightarrow> cdiv t (mm_m p) bm)"

definition amd_grid :: "int \<Rightarrow> int \<Rightarrow> int \<Rightarrow> int" where
  "amd_grid grid_m n bn = grid_m * ((n + bn - 1) div bn)"

definition amd_split_k :: "target \<Rightarrow> int \<Rightarrow> int \<Rightarrow> int \<Rightarrow> int option" where
  "amd_split_k t grid_m n bn =
     (if bn = 0 \<or> amd_grid grid_m n bn = 0 then None
      else Some (max 1 (multi_processors t div amd_grid grid_m n bn)))"

definition amd_base :: "target \<Rightarrow> matmul \<Rightarrow> constraints \<Rightarrow> opt_flags option" where
  "amd_base t p c =
     (let bm = amd_block_m t p c; grid_m = amd_grid_m t p bm; (bn, bk) = amd_block_nk t p bm grid_m
      in map_option (\<lambda>sk. \<lparr> block_m = bm, block_n = bn, block_k = bk,
           num_warps = (if mm_m p \<le> 16 then 2 else 8), num_stages = 2, group_m = 4, xcd_swizzle = 8,
           w_cache_modifier = (if bm \<le> 32 then Some ''.cg'' else None), split_k = sk,
           is_persistent = constrained (cget c ''is_persistent'') 0, idle_sms = Some 0,
           epilogue_subtile = constrained (cget c ''epilogue_subtile'') 1, waves_per_eu = Some 0 \<rparr>)
         (choose_split_k p c (amd_split_k t grid_m (mm_n p) bn)))"

definition cdna4_mxfp4 :: "target \<Rightarrow> matmul \<Rightarrow> bool" where
  "cdna4_mxfp4 t p \<longleftrightarrow> cdna_version t = 4 \<and> lhs_bits p = 16 \<and> rhs_bits p = 4 \<and> has_weight_scale p"

definition amd_cdna4 :: "target \<Rightarrow> matmul \<Rightarrow> opt_flags \<Rightarrow> opt_flags" where
  "amd_cdna4 t p f =
     (if \<not> cdna4_mxfp4 t p then f
      else if mm_m p \<le> 1024
      then f\<lparr> split_k := 1, waves_per_eu := Some 3, block_n := 128, block_k := 256, num_warps := 4 \<rparr>
      else f\<lparr> split_k := 1, waves_per_eu := Some 0, block_m := 64, block_n := 512, block_k := 256, num_warps := 8 \<rparr>)"

definition amd_constrain :: "constraints \<Rightarrow> opt_flags \<Rightarrow> opt_flags" where
  "amd_constrain c f = f\<lparr> block_m := constrained (cget c ''block_m'') (block_m f),
     block_n := constrained (cget c ''block_n'') (block_n f), block_k := constrained (cget c ''block_k'') (block_k f) \<rparr>"

text \<open>The branch for this model on MI300X: 256 experts, 6 active, 16-bit activations and FP4 weights.\<close>

definition mi300x_model :: "target \<Rightarrow> matmul \<Rightarrow> bool" where
  "mi300x_model t p \<longleftrightarrow> cdna_version t = 3 \<and> lhs_bits p = 16 \<and> rhs_fp4 p \<and> has_weight_scale p
     \<and> (case mm_routing p of None \<Rightarrow> False | Some r \<Rightarrow> n_expts_tot r = 256 \<and> n_expts_act r = 6)"

definition amd_mi300x :: "target \<Rightarrow> matmul \<Rightarrow> opt_flags \<Rightarrow> opt_flags" where
  "amd_mi300x t p f =
     (if mm_m p \<le> 1536 then
        (let g = f\<lparr> block_m := 16, block_n := (if mm_m p \<le> 12 then 32 else 128), block_k := 256 \<rparr> in
         if mm_m p \<le> 6 then g\<lparr> num_warps := 2, waves_per_eu := Some 2 \<rparr>
         else if mm_m p \<le> 12 then g\<lparr> num_warps := 2 \<rparr>
         else if mm_m p \<le> 24 then g\<lparr> num_warps := 8 \<rparr>
         else g\<lparr> num_warps := 4, waves_per_eu := Some 2 \<rparr>)
      else f\<lparr> block_n := 128, block_k := (if block_m f = 32 then 256 else block_k f) \<rparr>)"

definition supported :: "string list \<Rightarrow> constraints \<Rightarrow> bool" where
  "supported ks c \<longleftrightarrow> list_all (\<lambda>(k, v). k \<in> set ks) c"

definition make_default_opt_flags_amd :: "target \<Rightarrow> matmul \<Rightarrow> constraints \<Rightarrow> opt_flags option" where
  "make_default_opt_flags_amd t p c =
     (if \<not> supported [''block_m'', ''block_n'', ''block_k'', ''split_k'', ''is_persistent'', ''epilogue_subtile'',
            ''max_allowable_mn''] c then None
      else case amd_base t p c of
             None \<Rightarrow> None
           | Some b \<Rightarrow>
               (let f = amd_constrain c (amd_cdna4 t p b);
                    g = (if c = [] \<and> mi300x_model t p then amd_mi300x t p f else f)
                in if all_constraints_satisfied g c then Some g else None))"

section \<open>NVIDIA\<close>

definition nv_block_m :: "target \<Rightarrow> matmul \<Rightarrow> constraints \<Rightarrow> int" where
  "nv_block_m t p c =
     (let tokens = tokens_per_expert p (mm_batch p > 1) in
      if truthy (cget c ''block_m'') then the (cget c ''block_m'')
      else if enforce_invariance p then 128
      else if tokens \<le> 64 \<and> (case mm_routing p of None \<Rightarrow> False | Some r \<Rightarrow> has_hist r) then
        (if lhs_bf16 p \<and> rhs_fp4 p \<and> tokens \<ge> 16 \<and> device_capability t \<ge> 10
         then max 16 (min (next_power_of_2 t (8 * tokens)) 128)
         else max 16 (min (next_power_of_2 t (2 * tokens)) 64))
      else max 16 (min (next_power_of_2 t tokens) 128))"

text \<open>At least two tiles per processor: the quotient of the code compared with 2.\<close>

definition nv_persistent :: "target \<Rightarrow> matmul \<Rightarrow> constraints \<Rightarrow> int \<Rightarrow> int" where
  "nv_persistent t p c grid_tma =
     (case cget c ''is_persistent'' of
        Some v \<Rightarrow> v
      | None \<Rightarrow> if can_use_tma p \<and> imprecise_acc_free p
               \<and> (grid_tma \<ge> 2 * multi_processors t \<or> lhs_itemsize p \<le> 1) \<and> out_itemsize p < 4
               \<and> \<not> mm_m p * mm_n p * mm_k p < 131072 then 1 else 0)"

fun best_subtile :: "(int \<Rightarrow> int) \<Rightarrow> int list \<Rightarrow> (int \<times> int) option \<Rightarrow> int \<Rightarrow> int option \<times> int" where
  "best_subtile stages [] best ns = (map_option fst best, ns)"
| "best_subtile stages (e # es) best ns =
     (if stages e > ns then best_subtile stages es (Some (e, stages e)) (stages e) else best_subtile stages es best ns)"

definition nv_block_nk :: "target \<Rightarrow> matmul \<Rightarrow> constraints \<Rightarrow> int \<Rightarrow> bool \<Rightarrow> int \<times> int" where
  "nv_block_nk t p c bm persistent =
     (let tokens = tokens_per_expert p (mm_batch p > 1);
          bn = (if persistent then snd (nv_block_n t p) else fst (nv_block_n t p));
          bk = nv_block_k t p persistent;
          (bn, bk) = (if bn = 256 \<and> bk = 128 \<and> bm \<le> 64 \<and> persistent \<and> rhs_fp4 p \<and> mm_k p \<ge> 4096 \<and> tokens > 1
                        \<and> \<not> lhs_bf16 p then (bk, bn) else (bn, bk))
      in (bn, constrained (cget c ''block_k'') bk))"

definition make_default_opt_flags_nvidia :: "target \<Rightarrow> matmul \<Rightarrow> constraints \<Rightarrow> opt_flags option" where
  "make_default_opt_flags_nvidia t p c =
     (if \<not> supported [''block_m'', ''block_k'', ''split_k'', ''is_persistent'', ''epilogue_subtile'', ''num_stages'',
            ''idle_sms'', ''max_allowable_mn''] c then None
      else
        (let bm = nv_block_m t p c;
             persistent = nv_persistent t p c (nv_grid_size t (mm_routing p) p bm (snd (nv_block_n t p)));
             (bn, bk) = nv_block_nk t p c bm (persistent \<noteq> 0)
         in case choose_split_k p c (Some (nv_split_k t bk (mm_k p) (nv_grid_size t None p bm bn))) of
              None \<Rightarrow> None
            | Some sk \<Rightarrow>
                (let subtiles = (case cget c ''epilogue_subtile'' of Some e \<Rightarrow> [e] | None \<Rightarrow> [1, 2, 4]);
                     (subtile, ns) = best_subtile (nv_num_stages t p (persistent \<noteq> 0) bm bn bk sk) subtiles None (-1);
                     stages = (if truthy (cget c ''num_stages'') then the (cget c ''num_stages'') else ns)
                 in if stages < 1 then None
                    else case subtile of
                      None \<Rightarrow> None
                    | Some e \<Rightarrow>
                        (let f = \<lparr> block_m = bm, block_n = bn, block_k = bk,
                               num_warps = nv_num_warps t p bm bn (persistent \<noteq> 0), num_stages = stages, group_m = 8,
                               xcd_swizzle = 1, w_cache_modifier = None, split_k = sk, is_persistent = persistent,
                               idle_sms = (case map_of c ''idle_sms'' of None \<Rightarrow> Some 0 | Some v \<Rightarrow> v),
                               epilogue_subtile = e, waves_per_eu = None \<rparr>
                         in if all_constraints_satisfied f c then Some f else None))))"

section \<open>The module state\<close>

record opt_state =
  os_constraints :: constraints
  os_flags :: "opt_flags option"

datatype opt_error = Inapplicable_constraint | Call_raised

definition update_opt_flags_constraints :: "constraints \<Rightarrow> opt_state \<Rightarrow> opt_state" where
  "update_opt_flags_constraints c s = s\<lparr> os_constraints := fold (\<lambda>(k, v). dput k v) c (os_constraints s) \<rparr>"

definition reset_opt_flags_constraints :: "opt_state \<Rightarrow> opt_state" where
  "reset_opt_flags_constraints s = s\<lparr> os_constraints := [] \<rparr>"

definition reset_opt_flags :: "opt_state \<Rightarrow> opt_state" where
  "reset_opt_flags s = s\<lparr> os_flags := None \<rparr>"

definition set_opt_flags :: "opt_flags \<Rightarrow> opt_state \<Rightarrow> opt_error + opt_state" where
  "set_opt_flags f s =
     (if os_constraints s \<noteq> [] \<or> os_flags s \<noteq> None then Inl Call_raised else Inr (s\<lparr> os_flags := Some f \<rparr>))"

datatype backend = Hip | Cuda | Other_backend

definition make_opt_flags :: "target \<Rightarrow> backend \<Rightarrow> matmul \<Rightarrow> int option \<Rightarrow> opt_state \<Rightarrow> opt_error + opt_flags" where
  "make_opt_flags t b p bk s =
     (let c = os_constraints s in
      if truthy (cget c ''is_persistent'') \<and> \<not> can_use_tma p then Inl Inapplicable_constraint
      else if (case cget c ''split_k'' of Some k \<Rightarrow> k > 1 | None \<Rightarrow> False) \<and> \<not> can_use_split_k p
      then Inl Inapplicable_constraint
      else if truthy (cget c ''max_allowable_mn'') \<and> \<not> truthy (cget c ''split_k'') then Inl Inapplicable_constraint
      else case os_flags s of
             Some f \<Rightarrow> if c \<noteq> [] \<or> bk \<noteq> None then Inl Call_raised else Inr f
           | None \<Rightarrow>
               (let c' = (case bk of Some x \<Rightarrow> dput ''split_k'' (Some 1) (dput ''block_k'' (Some x) c) | None \<Rightarrow> c);
                    r = (case b of Hip \<Rightarrow> make_default_opt_flags_amd t p c'
                         | Cuda \<Rightarrow> make_default_opt_flags_nvidia t p c' | Other_backend \<Rightarrow> None)
                in case r of None \<Rightarrow> Inl Call_raised | Some f \<Rightarrow> Inr f))"

section \<open>Properties\<close>

text \<open>
  Constraints that the AMD defaults can satisfy: supported names, each once, a bound
  that can be compared, and no split that the configuration for
  16-bit activations with FP4 weights on CDNA4 overrides.
\<close>

definition satisfiable :: "target \<Rightarrow> matmul \<Rightarrow> constraints \<Rightarrow> bool" where
  "satisfiable t p c \<longleftrightarrow> dict_ok c
     \<and> supported [''block_m'', ''block_n'', ''block_k'', ''split_k'', ''is_persistent'', ''epilogue_subtile'',
          ''max_allowable_mn''] c
     \<and> map_of c ''max_allowable_mn'' \<noteq> Some None
     \<and> (cdna4_mxfp4 t p \<and> truthy (cget c ''split_k'') \<and> \<not> truthy (cget c ''max_allowable_mn'') \<longrightarrow>
          cget c ''split_k'' = Some 1)"

definition amd_grid_ok :: "target \<Rightarrow> matmul \<Rightarrow> constraints \<Rightarrow> bool" where
  "amd_grid_ok t p c \<longleftrightarrow>
     (let bm = amd_block_m t p c; grid_m = amd_grid_m t p bm; bn = fst (amd_block_nk t p bm grid_m)
      in bn > 0 \<and> amd_grid grid_m (mm_n p) bn > 0)"

lemma cget_member: "dict_ok c \<Longrightarrow> (k, Some v) \<in> set c \<Longrightarrow> cget c k = Some v"
  by (simp add: cget_def)

lemma choose_split_constraint:
  "choose_split_k p c computed = Some sk \<Longrightarrow> truthy (cget c ''split_k'') \<Longrightarrow> \<not> truthy (cget c ''max_allowable_mn'') \<Longrightarrow>
   cget c ''split_k'' = Some sk"
  by (auto simp: choose_split_k_def truthy_def Let_def split: option.splits if_splits)

lemma flag_value_simps:
  "flag_value (amd_constrain c f) ''block_m'' = Some (constrained (cget c ''block_m'') (block_m f))"
  "flag_value (amd_constrain c f) ''block_n'' = Some (constrained (cget c ''block_n'') (block_n f))"
  "flag_value (amd_constrain c f) ''block_k'' = Some (constrained (cget c ''block_k'') (block_k f))"
  "flag_value (amd_constrain c (amd_cdna4 t p f)) ''is_persistent'' = Some (is_persistent f)"
  "flag_value (amd_constrain c (amd_cdna4 t p f)) ''epilogue_subtile'' = Some (epilogue_subtile f)"
  by (simp_all add: flag_value_def amd_constrain_def amd_cdna4_def)

lemma amd_split_k_kept: "split_k (amd_constrain c (amd_cdna4 t p f)) = (if cdna4_mxfp4 t p then 1 else split_k f)"
  by (simp add: amd_constrain_def amd_cdna4_def)

lemma amd_constraints_hold:
  assumes "satisfiable t p c" "amd_base t p c = Some b"
  shows "all_constraints_satisfied (amd_constrain c (amd_cdna4 t p b)) c"
proof -
  let ?f = "amd_constrain c (amd_cdna4 t p b)"
  obtain sk where sk: "choose_split_k p c (amd_split_k t (amd_grid_m t p (amd_block_m t p c)) (mm_n p)
      (fst (amd_block_nk t p (amd_block_m t p c) (amd_grid_m t p (amd_block_m t p c))))) = Some sk"
    and b: "split_k b = sk" "is_persistent b = constrained (cget c ''is_persistent'') 0"
      "epilogue_subtile b = constrained (cget c ''epilogue_subtile'') 1"
    using assms(2) by (auto simp: amd_base_def Let_def split_beta)
  have ok: "dict_ok c" using assms(1) by (simp add: satisfiable_def)
  have "v = None \<or> k \<in> {''split_k'', ''max_allowable_mn''} \<or> flag_value ?f k = v" if kv: "(k, v) \<in> set c" for k v
  proof (cases v)
    case (Some x)
    then have get: "cget c k = Some x" using cget_member [OF ok] kv by simp
    have "k \<in> set [''block_m'', ''block_n'', ''block_k'', ''split_k'', ''is_persistent'', ''epilogue_subtile'',
        ''max_allowable_mn'']"
      using assms(1) kv unfolding satisfiable_def supported_def list_all_iff by blast
    then have "k = ''block_m'' \<or> k = ''block_n'' \<or> k = ''block_k'' \<or> k = ''split_k'' \<or> k = ''is_persistent''
        \<or> k = ''epilogue_subtile'' \<or> k = ''max_allowable_mn''"
      unfolding list.set insert_iff empty_iff by (simp only: HOL.simp_thms)
    then show ?thesis
      using get Some b(2,3) by (elim disjE) (simp_all add: flag_value_simps constrained_def)
  qed simp
  moreover have "cget c ''split_k'' = Some (split_k ?f)"
    if "truthy (cget c ''split_k'')" "\<not> truthy (cget c ''max_allowable_mn'')"
    unfolding amd_split_k_kept using choose_split_constraint [OF sk that] that assms(1) b(1)
    by (simp add: satisfiable_def)
  ultimately show ?thesis by (auto simp: all_constraints_satisfied_def list_all_iff)
qed

lemma no_constraints_hold: "all_constraints_satisfied f []"
  by (simp add: all_constraints_satisfied_def cget_def truthy_def)

lemma max_div_bound: "0 < g \<Longrightarrow> max 1 (n div g) = 1 \<or> max 1 (n div g) * g \<le> (n :: int)"
proof -
  assume "0 < g"
  then have "n div g * g \<le> n" using pos_mod_sign [of g n] div_mult_mod_eq [of n g] by linarith
  then show ?thesis by (cases "n div g \<le> 1") (simp_all add: max_def)
qed


text \<open>
  Remark: the branch for MI300X asks for fixed tiles whatever \<open>enforce_bitwise_invariance\<close> says, so
  adding one token to a batch changes them.
\<close>

lemma mi300x_ignores_invariance:
  assumes "mi300x_model t p" "mi300x_model t q" "mm_m p = 12" "mm_m q = 13"
    and "make_default_opt_flags_amd t p [] = Some f" "make_default_opt_flags_amd t q [] = Some g"
  shows "block_n f = 32 \<and> block_n g = 128"
  using assms by (auto simp: make_default_opt_flags_amd_def amd_mi300x_def Let_def split: option.splits if_splits)

text \<open>Remark: a split of two, asked for on CDNA4 with FP4 weights, always ends in the assertion.\<close>

lemma cdna4_split_fails:
  assumes "cdna4_mxfp4 t p" "\<not> mi300x_model t p" "cget c ''split_k'' = Some 2" "\<not> truthy (cget c ''max_allowable_mn'')"
  shows "make_default_opt_flags_amd t p c = None"
  using assms
  by (auto simp: make_default_opt_flags_amd_def all_constraints_satisfied_def amd_split_k_kept truthy_def Let_def
      split: option.split)

text \<open>Remark: constraints set after the flags make every later call fail.\<close>

lemma late_constraints_fail:
  assumes "set_opt_flags f s = Inr s1" "\<not> truthy (cget [(''block_m'', Some 64)] ''split_k'')"
  shows "make_opt_flags t b p None (update_opt_flags_constraints [(''block_m'', Some 64)] s1) = Inl Call_raised"
  using assms by (auto simp: set_opt_flags_def update_opt_flags_constraints_def make_opt_flags_def cget_def truthy_def
      split: if_splits)

section \<open>A concrete device\<close>

definition demo_target :: target where
  "demo_target = \<lparr> cdna_version = 3, rdna_version = 0, multi_processors = 304, device_capability = 9,
     next_power_of_2 = (\<lambda>n. if n \<le> 32 then 32 else 64), cdiv = (\<lambda>a b. (a + b - 1) div b),
     amd_block_nk = (\<lambda>p bm gm. (128, 64)), nv_block_n = (\<lambda>p. (128, 256)), nv_grid_size = (\<lambda>r p bm bn. 1),
     nv_block_k = (\<lambda>p b. 64), nv_split_k = (\<lambda>a b c. 1), nv_num_stages = (\<lambda>p b m n k s e. 2),
     nv_num_warps = (\<lambda>p m n b. 4) \<rparr>"

definition demo_matmul :: matmul where
  "demo_matmul = \<lparr> mm_batch = 1, mm_m = 64, mm_n = 256, mm_k = 512, lhs_bits = 16, lhs_itemsize = 2, rhs_bits = 4,
     lhs_bf16 = True, rhs_fp4 = True, out_itemsize = 2, has_weight_scale = True, imprecise_acc_free = True,
     mm_routing = None, can_use_tma = False, can_use_split_k = True, enforce_invariance = False \<rparr>"


end
