(* ===== verification/StructuralTags.thy ===== *)
theory StructuralTags
  imports ToolUtils
begin

text \<open>
  The structural tags that constrain a model's output to well-formed tool calls
  (\<open>src/patches/structural-tag-registry.deepseek-v4-auto.py\<close>): the choice of a builder, the dumps of
  tools and choices for xgrammar, and the builders for Hermes, MiniMax and Kimi K3.  The formats of
  xgrammar are a datatype of their constructor calls; what xgrammar does with them, its
  normalisation of a choice and its own builders are arguments.
\<close>

section \<open>Formats\<close>

datatype fmt =
    AnyText "pystr list"
  | ConstString pystr
  | JSONSchema jval "pystr option"
  | OptionalFmt fmt
  | OrFmt "fmt list"
  | PlusFmt fmt
  | RegexFmt pystr
  | SequenceFmt "fmt list"
  | StarFmt fmt
  | TagFmt (tag_begin: pystr) (tag_content: fmt) (tag_end: pystr)
  | TagsWithSeparator (sep_tags: "fmt list") (sep_text: pystr) (sep_at_least_one: bool) (sep_stop_first: bool)
  | TriggeredTags "pystr list" "fmt list" "pystr list"

text \<open>A function tool as xgrammar parses it; its parameters are a schema, \<open>True\<close> or \<open>False\<close>.\<close>

record function_param =
  fp_name :: pystr
  fp_parameters :: "jval option"
  fp_strict :: "bool option"

datatype simple_choice = Auto | Required | Forced

text \<open>
  The tools of the two interfaces.  \<open>model_dump\<close> belongs to the classes of the libraries, so its
  result is part of the tool.
\<close>

datatype tag_tool =
    ResponsesFunction pystr "pystr option" "(pystr \<times> jval) list option" "bool option"
  | ChatFunction "bool option" jval
  | OtherResponses jval

datatype tag_choice =
    NoChoice
  | ChoiceText pystr
  | NamedChat jval
  | NamedFunction pystr
  | AllowedTools pystr "(pystr, jval) dict list"
  | OtherChoice jval

section \<open>Dumps for xgrammar\<close>

definition any_tool_strict :: "tag_tool list \<Rightarrow> bool" where
  "any_tool_strict ts =
     list_ex (\<lambda>t. case t of ResponsesFunction n d p s \<Rightarrow> s = Some True | ChatFunction s dump \<Rightarrow> s = Some True
                   | OtherResponses dump \<Rightarrow> False) ts"

definition function_ref :: "jval \<Rightarrow> jval" where
  "function_ref f = JDict [(lit ''type'', JStr (lit ''function'')), (lit ''function'', f)]"

definition when_given :: "pystr \<Rightarrow> ('a \<Rightarrow> jval) \<Rightarrow> 'a option \<Rightarrow> (pystr \<times> jval) list" where
  "when_given k f v = (case v of None \<Rightarrow> [] | Some x \<Rightarrow> [(k, f x)])"

fun dump_tool_for_xgrammar :: "tag_tool \<Rightarrow> jval" where
  "dump_tool_for_xgrammar (ResponsesFunction n d p s) =
     function_ref (JDict ((lit ''name'', JStr n) # when_given (lit ''description'') JStr d
       @ when_given (lit ''parameters'') JDict p @ when_given (lit ''strict'') JBool s))"
| "dump_tool_for_xgrammar (ChatFunction s dump) = dump"
| "dump_tool_for_xgrammar (OtherResponses dump) = dump"

definition dump_allowed_tool_ref :: "(pystr, jval) dict \<Rightarrow> jval" where
  "dump_allowed_tool_ref r =
     (case (map_of r (lit ''type'') = Some (JStr (lit ''function'')), map_of r (lit ''function''),
            map_of r (lit ''name'')) of
        (True, None, Some n) \<Rightarrow> function_ref (JDict [(lit ''name'', n)])
      | _ \<Rightarrow> JDict r)"

fun dump_tool_choice_for_xgrammar :: "tag_choice \<Rightarrow> jval" where
  "dump_tool_choice_for_xgrammar NoChoice = JNull"
| "dump_tool_choice_for_xgrammar (ChoiceText s) = JStr s"
| "dump_tool_choice_for_xgrammar (NamedChat dump) = dump"
| "dump_tool_choice_for_xgrammar (NamedFunction n) = function_ref (JDict [(lit ''name'', JStr n)])"
| "dump_tool_choice_for_xgrammar (AllowedTools mode refs) =
     JDict [(lit ''type'', JStr (lit ''allowed_tools'')),
            (lit ''allowed_tools'', JDict [(lit ''mode'', JStr mode), (lit ''tools'', JList (map dump_allowed_tool_ref refs))])]"
| "dump_tool_choice_for_xgrammar (OtherChoice dump) = dump"

section \<open>Hermes and MiniMax\<close>

definition get_function_parameters :: "function_param \<Rightarrow> jval" where
  "get_function_parameters f =
     (if fp_strict f = Some False then JBool True else case fp_parameters f of None \<Rightarrow> JBool True | Some p \<Rightarrow> p)"

definition nl :: pystr where "nl = [10]"

definition quote :: pystr where "quote = [34]"

definition hermes_formats :: "(pystr \<times> pystr) list" where
  "hermes_formats =
     [(lit ''<tool_call>'' @ nl @ lit ''{'' @ quote @ lit ''name'' @ quote @ lit '': '' @ quote, lit ''}'' @ nl @ lit ''</tool_call>''),
      (lit ''<tool_call>{'' @ quote @ lit ''name'' @ quote @ lit '': '' @ quote, lit ''}</tool_call>'')]"

definition arguments_field_prefix :: pystr where
  "arguments_field_prefix = quote @ lit '', '' @ quote @ lit ''arguments'' @ quote @ lit '': ''"

definition hermes_tool_tags :: "function_param list \<Rightarrow> fmt list" where
  "hermes_tool_tags ts =
     concat (map (\<lambda>t. map (\<lambda>(b, e). TagFmt (b @ fp_name t @ arguments_field_prefix)
                                      (JSONSchema (get_function_parameters t) None) e) hermes_formats) ts)"

definition get_hermes_structural_tag :: "function_param list \<Rightarrow> simple_choice \<Rightarrow> fmt" where
  "get_hermes_structural_tag ts choice =
     (let tags = hermes_tool_tags ts in
      case choice of
        Auto \<Rightarrow> if tags \<noteq> [] then TriggeredTags [lit ''<tool_call>''] tags [] else AnyText []
      | Forced \<Rightarrow> TagsWithSeparator tags [] True True
      | Required \<Rightarrow> TagsWithSeparator tags [] True False)"

definition minimax_tool_tags :: "function_param list \<Rightarrow> fmt list" where
  "minimax_tool_tags ts =
     map (\<lambda>t. TagFmt (lit ''<invoke name='' @ quote @ fp_name t @ quote @ lit ''>'' @ nl)
            (JSONSchema (get_function_parameters t) (Some (lit ''minimax_xml''))) (lit ''</invoke>'' @ nl)) ts"

definition get_minimax_structural_tag :: "function_param list \<Rightarrow> simple_choice \<Rightarrow> fmt" where
  "get_minimax_structural_tag ts choice =
     (let tags = minimax_tool_tags ts;
          tool_begin = lit ''<minimax:tool_call>'' @ nl;
          tool_end = lit ''</minimax:tool_call>'';
          excl = [lit ''<think>'', lit ''</think>'']
      in case choice of
           Auto \<Rightarrow> if tags \<noteq> []
                    then TriggeredTags [lit ''<minimax:tool_call>'']
                           [TagFmt tool_begin (TagsWithSeparator tags [] True False) tool_end] excl
                    else AnyText excl
         | Forced \<Rightarrow> SequenceFmt [ConstString (nl @ tool_begin), TagsWithSeparator tags [] True True, ConstString tool_end]
         | Required \<Rightarrow> SequenceFmt [ConstString (nl @ tool_begin), TagsWithSeparator tags [] True False, ConstString tool_end])"

section \<open>Kimi K3\<close>

definition k3_open :: pystr where "k3_open = lit ''<|open|>''"
definition k3_close :: pystr where "k3_close = lit ''<|close|>''"
definition k3_sep :: pystr where "k3_sep = lit ''<|sep|>''"
definition k3_response_open :: pystr where "k3_response_open = k3_open @ lit ''response'' @ k3_sep"
definition k3_response_close :: pystr where "k3_response_close = k3_close @ lit ''response'' @ k3_sep"
definition k3_tools_open :: pystr where "k3_tools_open = k3_open @ lit ''tools'' @ k3_sep"
definition k3_tools_close :: pystr where "k3_tools_close = k3_close @ lit ''tools'' @ k3_sep"
definition k3_call_close :: pystr where "k3_call_close = k3_close @ lit ''call'' @ k3_sep"
definition k3_arg_close :: pystr where "k3_arg_close = k3_close @ lit ''argument'' @ k3_sep"
definition k3_message_close :: pystr where "k3_message_close = k3_close @ lit ''message'' @ k3_sep"

definition k3_json_to_xtml_type :: "(pystr, pystr) dict" where
  "k3_json_to_xtml_type =
     [(lit ''string'', lit ''string''), (lit ''integer'', lit ''number''), (lit ''number'', lit ''number''),
      (lit ''boolean'', lit ''boolean''), (lit ''null'', lit ''null''), (lit ''object'', lit ''object''),
      (lit ''array'', lit ''array'')]"

text \<open>\<open>str.replace\<close> of one character.\<close>

definition replace_char :: "nat \<Rightarrow> pystr \<Rightarrow> pystr \<Rightarrow> pystr" where
  "replace_char c r s = concat (map (\<lambda>x. if x = c then r else [x]) s)"

definition k3_escape_attr :: "pystr \<Rightarrow> pystr" where
  "k3_escape_attr s = replace_char 34 (lit ''&quot;'') (replace_char 38 (lit ''&amp;'') s)"

definition k3_string_atom :: pystr where "k3_string_atom = lit ''(?:[^<]|<[^|])''"

fun decimal :: "nat \<Rightarrow> pystr" where
  "decimal n = (if n < 10 then [48 + n] else decimal (n div 10) @ [48 + n mod 10])"

declare decimal.simps [simp del]

text \<open>An \<open>int\<close> of Python and how an f-string shows it: a bool is one, shown by its name.\<close>

definition as_int :: "jval option \<Rightarrow> (int \<times> pystr) option" where
  "as_int v =
     (case v of
        Some (JInt i) \<Rightarrow> Some (i, if i < 0 then lit ''-'' @ decimal (nat (- i)) else decimal (nat i))
      | Some (JBool b) \<Rightarrow> Some (if b then (1, lit ''True'') else (0, lit ''False''))
      | _ \<Rightarrow> None)"

definition repeat_range :: "pystr \<Rightarrow> pystr \<Rightarrow> pystr" where
  "repeat_range lo hi = k3_string_atom @ lit ''{'' @ lo @ lit '','' @ hi @ lit ''}''"

text \<open>A lower bound that is not an integer between 0 and the upper one counts as 0.\<close>

definition min_length :: "(pystr, jval) dict \<Rightarrow> int \<Rightarrow> int \<times> pystr" where
  "min_length p hi =
     (case as_int (map_of p (lit ''minLength'')) of
        None \<Rightarrow> (0, lit ''0'')
      | Some (lo, t) \<Rightarrow> if lo < 0 \<or> lo > hi then (0, lit ''0'') else (lo, t))"

definition k3_bounded_string_regex :: "(pystr, jval) dict \<Rightarrow> pystr option" where
  "k3_bounded_string_regex p =
     (case as_int (map_of p (lit ''maxLength'')) of
        None \<Rightarrow> None
      | Some (hi, t) \<Rightarrow> if hi < 0 \<or> hi > 4096 then None else Some (repeat_range (snd (min_length p hi)) t))"

fun strings_of :: "jval list \<Rightarrow> pystr list option" where
  "strings_of [] = Some []"
| "strings_of (JStr s # vs) = map_option ((#) s) (strings_of vs)"
| "strings_of (v # vs) = None"

definition enum_values_of :: "(pystr, jval) dict \<Rightarrow> jval option" where
  "enum_values_of p =
     (case map_of p (lit ''enum'') of
        Some v \<Rightarrow> if v \<noteq> JNull then Some v
                  else (case map_of p (lit ''const'') of Some (JStr s) \<Rightarrow> Some (JList [JStr s]) | _ \<Rightarrow> None)
      | None \<Rightarrow> (case map_of p (lit ''const'') of Some (JStr s) \<Rightarrow> Some (JList [JStr s]) | _ \<Rightarrow> None))"

text \<open>The strings of an enumeration that is written out as alternatives.\<close>

definition enum_branches :: "(pystr, jval) dict \<Rightarrow> pystr list option" where
  "enum_branches p =
     (case enum_values_of p of
        Some (JList vs) \<Rightarrow>
          (case strings_of vs of
             None \<Rightarrow> None
           | Some ss \<Rightarrow> if ss \<noteq> [] \<and> length ss \<le> 256 \<and> \<not> list_ex (sublist (lit ''<|'')) ss then Some ss else None)
      | _ \<Rightarrow> None)"

definition or_single :: "fmt list \<Rightarrow> fmt" where
  "or_single fs = (case fs of [f] \<Rightarrow> f | _ \<Rightarrow> OrFmt fs)"

definition string_content :: "(pystr, jval) dict \<Rightarrow> fmt" where
  "string_content p =
     (case enum_branches p of
        Some ss \<Rightarrow> or_single (map ConstString ss)
      | None \<Rightarrow> (case k3_bounded_string_regex p of Some r \<Rightarrow> RegexFmt r | None \<Rightarrow> AnyText [k3_close]))"

definition dict_of :: "jval \<Rightarrow> (pystr, jval) dict" where
  "dict_of v = (case v of JDict d \<Rightarrow> d | _ \<Rightarrow> [])"

text \<open>The definitions of the root that the property does not have itself.\<close>

definition embed_defs :: "(pystr, jval) dict \<Rightarrow> (pystr, jval) dict \<Rightarrow> (pystr, jval) dict" where
  "embed_defs p defs = fold (\<lambda>(k, v) d. if map_of d k = None then d @ [(k, v)] else d) defs p"

definition xtml_type_of :: "(pystr, jval) dict \<Rightarrow> pystr option" where
  "xtml_type_of p = (case map_of p (lit ''type'') of Some (JStr t) \<Rightarrow> map_of k3_json_to_xtml_type t | _ \<Rightarrow> None)"

definition attributes :: "pystr \<Rightarrow> pystr \<Rightarrow> pystr" where
  "attributes k ty = lit ''key='' @ quote @ k3_escape_attr k @ quote @ lit '' type='' @ quote @ ty @ quote"

definition k3_argument_tag :: "pystr \<Rightarrow> jval \<Rightarrow> (pystr, jval) dict \<Rightarrow> fmt option" where
  "k3_argument_tag k schema defs =
     (let p = dict_of schema in
      map_option (\<lambda>ty. TagFmt (k3_open @ lit ''argument '' @ attributes k ty @ k3_sep)
          (if ty = lit ''string'' then string_content p else JSONSchema (JDict (embed_defs p defs)) None) k3_arg_close)
        (xtml_type_of p))"

definition permissive_regex :: pystr where
  "permissive_regex = lit ''[^<]*'' @ replace_char (of_char (CHR ''|'')) [92, 124] k3_sep"

definition k3_permissive_argument_tag :: fmt where
  "k3_permissive_argument_tag =
     TagFmt (k3_open @ lit ''argument '') (SequenceFmt [RegexFmt permissive_regex, AnyText [k3_close]]) k3_arg_close"

definition root_defs_of :: "(pystr, jval) dict \<Rightarrow> (pystr, jval) dict" where
  "root_defs_of params =
     concat (map (\<lambda>k. case map_of params k of Some (JDict d) \<Rightarrow> [(k, JDict d)] | _ \<Rightarrow> [])
       [lit ''$defs'', lit ''definitions''])"

definition argument_tag_or_permissive :: "(pystr, jval) dict \<Rightarrow> pystr \<times> jval \<Rightarrow> fmt" where
  "argument_tag_or_permissive defs kp =
     (case k3_argument_tag (fst kp) (snd kp) defs of Some t \<Rightarrow> t | None \<Rightarrow> k3_permissive_argument_tag)"

text \<open>The declared properties, where there are any.\<close>

definition declared_properties :: "jval \<Rightarrow> ((pystr, jval) dict \<times> (pystr, jval) dict) option" where
  "declared_properties parameters =
     (case parameters of
        JDict params \<Rightarrow>
          (case map_of params (lit ''properties'') of
             Some (JDict props) \<Rightarrow> if props = [] then None else Some (params, props)
           | _ \<Rightarrow> None)
      | _ \<Rightarrow> None)"

definition needs_argument :: "(pystr, jval) dict \<Rightarrow> bool" where
  "needs_argument params = (case map_of params (lit ''required'') of Some (JList (r # rs)) \<Rightarrow> True | _ \<Rightarrow> False)"

definition k3_arguments_block :: "jval \<Rightarrow> fmt" where
  "k3_arguments_block parameters =
     (case declared_properties parameters of
        None \<Rightarrow> StarFmt k3_permissive_argument_tag
      | Some (params, props) \<Rightarrow>
          (let inner = or_single (map (argument_tag_or_permissive (root_defs_of params)) props)
           in if needs_argument params then PlusFmt inner else StarFmt inner))"

definition call_begin :: "pystr \<Rightarrow> pystr" where
  "call_begin n = k3_open @ lit ''call tool='' @ quote @ k3_escape_attr n @ quote @ lit '' index='' @ quote"

definition k3_call_tag :: "function_param \<Rightarrow> fmt" where
  "k3_call_tag t =
     TagFmt (call_begin (fp_name t))
       (SequenceFmt [RegexFmt (lit ''[0-9]+''), ConstString (quote @ k3_sep), k3_arguments_block (get_function_parameters t)])
       k3_call_close"

definition k3_response_prefix :: "fmt list" where
  "k3_response_prefix = [OptionalFmt (ConstString k3_response_open), TagFmt [] (AnyText []) k3_response_close]"

definition k3_tools_channel :: "function_param list \<Rightarrow> fmt" where
  "k3_tools_channel ts = TagFmt k3_tools_open (TagsWithSeparator (map k3_call_tag ts) [] True False) k3_tools_close"

definition get_kimi_k3_structural_tag :: "function_param list \<Rightarrow> simple_choice \<Rightarrow> fmt" where
  "get_kimi_k3_structural_tag ts choice =
     (let trailer = OptionalFmt (ConstString k3_message_close) in
      if ts = [] then SequenceFmt (k3_response_prefix @ [trailer])
      else (let part = (case choice of
                 Auto \<Rightarrow> OptionalFmt (k3_tools_channel ts)
               | Forced \<Rightarrow> k3_tools_channel (take 1 ts)
               | Required \<Rightarrow> k3_tools_channel ts)
            in SequenceFmt (k3_response_prefix @ [part, trailer])))"

section \<open>The choice of a builder\<close>

datatype builder = Hermes | Minimax | Kimi_k3

text \<open>The registry after the three decorators have run.\<close>

definition vllm_registry :: "(pystr, builder) dict" where
  "vllm_registry =
     dput (lit ''kimi_k3'') Kimi_k3 (dput (lit ''minimax'') Minimax (dput (lit ''hermes'') Hermes []))"

definition build :: "builder \<Rightarrow> function_param list \<Rightarrow> simple_choice \<Rightarrow> fmt" where
  "build b = (case b of Hermes \<Rightarrow> get_hermes_structural_tag | Minimax \<Rightarrow> get_minimax_structural_tag
     | Kimi_k3 \<Rightarrow> get_kimi_k3_structural_tag)"

definition xgrammar_models :: "pystr list" where
  "xgrammar_models = map lit [''llama'', ''kimi'', ''deepseek_r1'', ''deepseek_v3_1'', ''qwen_3_5'', ''qwen_3_coder'',
     ''qwen_3'', ''harmony'', ''deepseek_v3_2'', ''glm_4_7'', ''deepseek_v4'']"

definition vllm_models :: "pystr list" where
  "vllm_models = map lit [''hermes'', ''kimi_k3'']"

datatype 'a tag_result = No_tag | Unknown_model | Xgrammar_raised | Tag_of 'a

text \<open>xgrammar's part: the normalisation of a choice and its own builders; both may raise.\<close>

record 'a xgrammar =
  normalize_tool_choice :: "jval list \<Rightarrow> jval \<Rightarrow> (function_param list \<times> jval list \<times> simple_choice) option"
  xgrammar_tag :: "pystr \<Rightarrow> jval list \<Rightarrow> jval \<Rightarrow> bool \<Rightarrow> 'a option"
  structural_tag :: "fmt \<Rightarrow> 'a"

definition get_model_structural_tag ::
  "'a xgrammar \<Rightarrow> pystr \<Rightarrow> tag_tool list option \<Rightarrow> tag_choice \<Rightarrow> bool \<Rightarrow> 'a tag_result" where
  "get_model_structural_tag x model tools choice reasoning =
     (case tools of
        None \<Rightarrow> No_tag
      | Some ts \<Rightarrow>
          if ts = [] \<or> choice = ChoiceText (lit ''none'') then No_tag
          else if model \<noteq> lit ''deepseek_v4'' \<and> choice = ChoiceText (lit ''auto'') \<and> \<not> any_tool_strict ts then No_tag
          else
            (let dumped = map dump_tool_for_xgrammar ts; dumped_choice = dump_tool_choice_for_xgrammar choice in
             case map_of vllm_registry model of
               Some b \<Rightarrow> (case normalize_tool_choice x dumped dumped_choice of
                            None \<Rightarrow> Xgrammar_raised
                          | Some (fs, bs, c) \<Rightarrow> Tag_of (structural_tag x (build b fs c)))
             | None \<Rightarrow> if model \<notin> set xgrammar_models then Unknown_model
                       else (case xgrammar_tag x model dumped dumped_choice reasoning of
                               None \<Rightarrow> Xgrammar_raised | Some t \<Rightarrow> Tag_of t)))"

end
