(* ===== verification/StructuralTagProps.thy ===== *)
theory StructuralTagProps
  imports StructuralTags
begin

text \<open>
  What the Kimi K3 tag lets through: every response whose calls fit the schemas of the declared
  tools.  The language of a format belongs to xgrammar; the laws that are used state what its
  documentation says each format matches.
\<close>

section \<open>The language of formats\<close>

text \<open>Characters of the bounded string pattern: \<open>[^<]\<close> or \<open><[^|]\<close>.\<close>

fun atom_count :: "pystr \<Rightarrow> nat option" where
  "atom_count [] = Some 0"
| "atom_count (c # s) =
     (if c \<noteq> 60 then map_option Suc (atom_count s)
      else case s of [] \<Rightarrow> None | d # t \<Rightarrow> if d = 124 then None else map_option Suc (atom_count t))"

lemma atom_count_plain: "60 \<notin> set s \<Longrightarrow> atom_count s = Some (length s)"
  by (induction s rule: atom_count.induct) auto

locale format_language =
  fixes L :: "fmt \<Rightarrow> pystr set"
  assumes sem_const: "v \<in> L (ConstString v)"
    and sem_any: "(\<And>e. e \<in> set ex \<Longrightarrow> \<not> sublist e v) \<Longrightarrow> v \<in> L (AnyText ex)"
    and sem_or: "f \<in> set fs \<Longrightarrow> v \<in> L f \<Longrightarrow> v \<in> L (OrFmt fs)"
    and sem_seq: "list_all2 (\<lambda>v f. v \<in> L f) vs fs \<Longrightarrow> concat vs \<in> L (SequenceFmt fs)"
    and sem_star: "(\<And>v. v \<in> set vs \<Longrightarrow> v \<in> L f) \<Longrightarrow> concat vs \<in> L (StarFmt f)"
    and sem_plus: "vs \<noteq> [] \<Longrightarrow> (\<And>v. v \<in> set vs \<Longrightarrow> v \<in> L f) \<Longrightarrow> concat vs \<in> L (PlusFmt f)"
    and sem_none: "[] \<in> L (OptionalFmt f)"
    and sem_opt: "v \<in> L f \<Longrightarrow> v \<in> L (OptionalFmt f)"
    and sem_tag: "v \<in> L f \<Longrightarrow> (\<And>ex. f = AnyText ex \<Longrightarrow> \<not> sublist e v) \<Longrightarrow> b @ v @ e \<in> L (TagFmt b f e)"
    and sem_tags: "vs \<noteq> [] \<Longrightarrow> (\<And>v. v \<in> set vs \<Longrightarrow> \<exists>f \<in> set fs. v \<in> L f) \<Longrightarrow>
      concat vs \<in> L (TagsWithSeparator fs [] True False)"
    and sem_digits: "v \<noteq> [] \<Longrightarrow> (\<And>c. c \<in> set v \<Longrightarrow> 48 \<le> c \<and> c \<le> 57) \<Longrightarrow> v \<in> L (RegexFmt (lit ''[0-9]+''))"
    and sem_permissive: "60 \<notin> set v \<Longrightarrow> v @ k3_sep \<in> L (RegexFmt permissive_regex)"
    and sem_range: "atom_count v = Some n \<Longrightarrow> lo \<le> n \<Longrightarrow> n \<le> hi \<Longrightarrow>
      v \<in> L (RegexFmt (repeat_range (decimal lo) (decimal hi)))"

section \<open>Responses that fit the tools\<close>

text \<open>A raw string that is valid for a property of type string: JSON Schema's enum, const and lengths.\<close>

definition string_valid :: "(pystr, jval) dict \<Rightarrow> pystr \<Rightarrow> bool" where
  "string_valid p v \<longleftrightarrow>
     (\<forall>vs. map_of p (lit ''enum'') = Some (JList vs) \<longrightarrow> JStr v \<in> set vs)
     \<and> (\<forall>s. map_of p (lit ''const'') = Some (JStr s) \<longrightarrow> v = s)
     \<and> (\<forall>i. map_of p (lit ''maxLength'') = Some (JInt i) \<longrightarrow> int (length v) \<le> i)
     \<and> (\<forall>i. map_of p (lit ''minLength'') = Some (JInt i) \<longrightarrow> i \<le> int (length v))
     \<and> (\<forall>b. map_of p (lit ''maxLength'') \<noteq> Some (JBool b) \<and> map_of p (lit ''minLength'') \<noteq> Some (JBool b))"

text \<open>An argument: its key, the type it is written with and its raw text.\<close>

type_synonym arg = "pystr \<times> pystr \<times> pystr"

definition loose_arg :: "arg \<Rightarrow> bool" where
  "loose_arg a \<longleftrightarrow> (case a of (k, ty, v) \<Rightarrow> 60 \<notin> set k \<and> 60 \<notin> set ty \<and> \<not> sublist k3_close v)"

definition declared_arg :: "(fmt \<Rightarrow> pystr set) \<Rightarrow> (pystr, jval) dict \<Rightarrow> jval \<Rightarrow> arg \<Rightarrow> bool" where
  "declared_arg L defs schema a \<longleftrightarrow>
     (case a of (k, ty, v) \<Rightarrow>
       (case xtml_type_of (dict_of schema) of
          None \<Rightarrow> loose_arg a
        | Some t \<Rightarrow> ty = t
            \<and> (if t = lit ''string'' then string_valid (dict_of schema) v \<and> 60 \<notin> set v
               else v \<in> L (JSONSchema (JDict (embed_defs (dict_of schema) defs)) None))))"

definition args_fit :: "(fmt \<Rightarrow> pystr set) \<Rightarrow> jval \<Rightarrow> arg list \<Rightarrow> bool" where
  "args_fit L parameters as \<longleftrightarrow>
     (case declared_properties parameters of
        None \<Rightarrow> list_all loose_arg as
      | Some (params, props) \<Rightarrow>
          list_all (\<lambda>a. list_ex (\<lambda>(k, schema). k = fst a \<and> declared_arg L (root_defs_of params) schema a) props) as
          \<and> (needs_argument params \<longrightarrow> as \<noteq> []))"

text \<open>A call: its tool, the digits of its index and its arguments.\<close>

type_synonym call = "function_param \<times> pystr \<times> arg list"

definition call_fits :: "(fmt \<Rightarrow> pystr set) \<Rightarrow> function_param list \<Rightarrow> call \<Rightarrow> bool" where
  "call_fits L ts c \<longleftrightarrow>
     (case c of (t, idx, as) \<Rightarrow> t \<in> set ts \<and> idx \<noteq> [] \<and> list_all (\<lambda>d. 48 \<le> d \<and> d \<le> 57) idx
        \<and> args_fit L (get_function_parameters t) as)"

definition arg_text :: "arg \<Rightarrow> pystr" where
  "arg_text a = (case a of (k, ty, v) \<Rightarrow> k3_open @ lit ''argument '' @ attributes k ty @ k3_sep @ v @ k3_arg_close)"

definition call_text :: "call \<Rightarrow> pystr" where
  "call_text c = (case c of (t, idx, as) \<Rightarrow>
     k3_open @ lit ''call tool='' @ quote @ k3_escape_attr (fp_name t) @ quote @ lit '' index='' @ quote @ idx @ quote @ k3_sep
       @ concat (map arg_text as) @ k3_call_close)"

record response =
  opens :: bool
  body :: pystr
  tool_calls :: "call list"
  ends_message :: bool

definition response_text :: "response \<Rightarrow> pystr" where
  "response_text r =
     (if opens r then k3_response_open else []) @ body r @ k3_response_close
     @ (if tool_calls r = [] then [] else k3_tools_open @ concat (map call_text (tool_calls r)) @ k3_tools_close)
     @ (if ends_message r then k3_message_close else [])"

text \<open>The calls that the choice allows: any number, at least one, or at least one of the first tool.\<close>

definition response_fits :: "(fmt \<Rightarrow> pystr set) \<Rightarrow> function_param list \<Rightarrow> simple_choice \<Rightarrow> response \<Rightarrow> bool" where
  "response_fits L ts choice r \<longleftrightarrow>
     \<not> sublist k3_response_close (body r)
     \<and> (case choice of
          Auto \<Rightarrow> list_all (call_fits L ts) (tool_calls r)
        | Required \<Rightarrow> list_all (call_fits L ts) (tool_calls r) \<and> (ts \<noteq> [] \<longrightarrow> tool_calls r \<noteq> [])
        | Forced \<Rightarrow> list_all (call_fits L (take 1 ts)) (tool_calls r) \<and> (ts \<noteq> [] \<longrightarrow> tool_calls r \<noteq> []))"

section \<open>Arguments\<close>

lemma strings_of_Some: "strings_of vs = Some ss \<longleftrightarrow> vs = map JStr ss"
proof (induction vs arbitrary: ss rule: strings_of.induct)
  case (2 s vs)
  then show ?case by (cases ss) auto
qed auto

lemma as_int_JInt: "0 \<le> i \<Longrightarrow> as_int (Some (JInt i)) = Some (i, decimal (nat i))"
  by (simp add: as_int_def)

lemma decimal_zero: "decimal 0 = lit ''0''"
  by (simp add: decimal.simps lit_def)

text \<open>The bounds of the pattern are numbers that the length of a valid string lies between.\<close>

lemma bounded_regex_range:
  assumes "string_valid p v" "k3_bounded_string_regex p = Some r"
  shows "\<exists>lo hi. r = repeat_range (decimal lo) (decimal hi) \<and> lo \<le> length v \<and> length v \<le> hi"
proof -
  obtain hi t where mx: "as_int (map_of p (lit ''maxLength'')) = Some (hi, t)" and hi: "0 \<le> hi"
    and r: "r = repeat_range (snd (min_length p hi)) t"
    using assms(2) by (auto simp: k3_bounded_string_regex_def split: option.splits if_splits)
  have mxi: "map_of p (lit ''maxLength'') = Some (JInt hi)" "t = decimal (nat hi)"
    using mx hi assms(1) by (auto simp: as_int_def string_valid_def split: option.splits jval.splits if_splits)
  have le: "length v \<le> nat hi" using assms(1) mxi(1) by (auto simp: string_valid_def)
  have "\<exists>lo. snd (min_length p hi) = decimal lo \<and> lo \<le> length v"
  proof (cases "\<exists>i. map_of p (lit ''minLength'') = Some (JInt i) \<and> 0 \<le> i \<and> i \<le> hi")
    case True
    then obtain i where i: "map_of p (lit ''minLength'') = Some (JInt i)" "0 \<le> i" "i \<le> hi" by blast
    then have "i \<le> int (length v)" using assms(1) by (simp add: string_valid_def)
    with i show ?thesis by (intro exI [of _ "nat i"]) (simp add: min_length_def as_int_def)
  next
    case False
    have "map_of p (lit ''minLength'') \<noteq> Some (JBool b)" for b using assms(1) by (simp add: string_valid_def)
    with False have "min_length p hi = (0, lit ''0'')"
      by (auto simp: min_length_def as_int_def not_less split: option.splits jval.splits)
    then show ?thesis by (intro exI [of _ 0]) (simp add: decimal_zero)
  qed
  then obtain lo where "snd (min_length p hi) = decimal lo" "lo \<le> length v" by (elim exE conjE)
  with r mxi(2) le show ?thesis by (intro exI [of _ lo] exI [of _ "nat hi"]) simp
qed

text \<open>An enumeration that is written out holds every valid string.\<close>

lemma enum_branches_valid:
  assumes "enum_branches p = Some ss" "string_valid p v"
  shows "v \<in> set ss"
proof -
  obtain vs where vs: "enum_values_of p = Some (JList vs)" "strings_of vs = Some ss"
    using assms(1) unfolding enum_branches_def by (auto split: option.splits jval.splits if_splits)
  have "JStr v \<in> set vs"
    using vs(1) assms(2) unfolding enum_values_of_def string_valid_def by (auto split: option.splits jval.splits if_splits)
  then show ?thesis using vs(2) by (auto simp: strings_of_Some)
qed

lemma no_marker:
  assumes "60 \<notin> set v"
  shows "\<not> sublist k3_close v" "\<not> sublist k3_arg_close v"
  using assms by (auto simp: k3_arg_close_def k3_close_def lit_def dest!: set_mono_sublist)

lemma escape_no_marker: "60 \<notin> set k \<Longrightarrow> 60 \<notin> set (k3_escape_attr k)"
  by (auto simp: k3_escape_attr_def replace_char_def lit_def split: if_splits)

context format_language
begin

lemma or_single_accepts: "f \<in> set fs \<Longrightarrow> v \<in> L f \<Longrightarrow> v \<in> L (or_single fs)"
  unfolding or_single_def by (auto split: list.split intro: sem_or)

lemma string_content_accepts:
  assumes v: "string_valid p v" "60 \<notin> set v"
  shows "v \<in> L (string_content p)"
proof (cases "enum_branches p")
  case (Some ss)
  from enum_branches_valid [OF Some v(1)] have "v \<in> L (or_single (map ConstString ss))"
    by (intro or_single_accepts [OF _ sem_const]) simp
  with Some show ?thesis by (simp add: string_content_def)
next
  case None
  show ?thesis
  proof (cases "k3_bounded_string_regex p")
    case (Some r)
    from bounded_regex_range [OF v(1) this] sem_range [OF atom_count_plain [OF v(2)]] None Some show ?thesis
      by (auto simp: string_content_def)
  next
    case no: None
    have "v \<in> L (AnyText [k3_close])" by (rule sem_any) (simp add: no_marker(1) v(2))
    with None no show ?thesis by (simp add: string_content_def)
  qed
qed

lemma tag_accepts: "v \<in> L f \<Longrightarrow> \<not> sublist e v \<Longrightarrow> w = b @ v @ e \<Longrightarrow> w \<in> L (TagFmt b f e)"
  using sem_tag by blast

lemma permissive_accepts:
  assumes "loose_arg a"
  shows "arg_text a \<in> L k3_permissive_argument_tag"
proof -
  obtain k ty v where a: "a = (k, ty, v)" by (cases a)
  have at: "60 \<notin> set (attributes k ty)"
    using assms escape_no_marker [of k] by (auto simp: a loose_arg_def attributes_def lit_def quote_def)
  have "v \<in> L (AnyText [k3_close])" using assms by (auto simp: a loose_arg_def intro: sem_any)
  then have "concat [attributes k ty @ k3_sep, v] \<in> L (SequenceFmt [RegexFmt permissive_regex, AnyText [k3_close]])"
    using sem_permissive [OF at] by (intro sem_seq) simp
  from sem_tag [OF this, where b = "k3_open @ lit ''argument ''" and e = k3_arg_close]
  show ?thesis by (simp add: k3_permissive_argument_tag_def arg_text_def a)
qed

lemma declared_accepts:
  assumes "declared_arg L defs schema a" "fst a = k"
  shows "arg_text a \<in> L (argument_tag_or_permissive defs (k, schema))"
proof -
  obtain ty v where a: "a = (k, ty, v)" using assms(2) by (cases a) auto
  show ?thesis
  proof (cases "xtml_type_of (dict_of schema)")
    case None
    with assms have "loose_arg a" by (simp add: declared_arg_def a)
    from permissive_accepts [OF this] None show ?thesis
      by (simp add: argument_tag_or_permissive_def k3_argument_tag_def)
  next
    case (Some t)
    define f where "f = (if t = lit ''string'' then string_content (dict_of schema)
        else JSONSchema (JDict (embed_defs (dict_of schema) defs)) None)"
    have "v \<in> L f" "60 \<notin> set v \<or> (\<forall>ex. f \<noteq> AnyText ex)" and ty: "ty = t"
      using assms(1) Some string_content_accepts by (auto simp: declared_arg_def a f_def split: if_splits)
    then have "arg_text a \<in> L (TagFmt (k3_open @ lit ''argument '' @ attributes k t @ k3_sep) f k3_arg_close)"
      using sem_tag [of v f k3_arg_close "k3_open @ lit ''argument '' @ attributes k t @ k3_sep"] no_marker(2) [of v]
      by (auto simp: arg_text_def a)
    with Some show ?thesis by (simp add: argument_tag_or_permissive_def k3_argument_tag_def Let_def f_def)
  qed
qed

lemma inner_accepts:
  assumes fit: "\<And>a. a \<in> set as \<Longrightarrow> list_ex (\<lambda>(k, schema). k = fst a \<and> declared_arg L defs schema a) props"
    and v: "v \<in> set (map arg_text as)"
  shows "v \<in> L (or_single (map (argument_tag_or_permissive defs) props))"
proof -
  obtain a where a: "a \<in> set as" "v = arg_text a" using v by auto
  then obtain k schema where m: "(k, schema) \<in> set props" "k = fst a" "declared_arg L defs schema a"
    using fit [OF a(1)] by (auto simp: list_ex_iff)
  have "argument_tag_or_permissive defs (k, schema) \<in> set (map (argument_tag_or_permissive defs) props)"
    using m(1) by (simp add: rev_image_eqI)
  from or_single_accepts [OF this declared_accepts [OF m(3) m(2) [symmetric]]] show ?thesis by (simp add: a(2))
qed

lemma arguments_accepted:
  assumes "args_fit L parameters as"
  shows "concat (map arg_text as) \<in> L (k3_arguments_block parameters)"
proof (cases "declared_properties parameters")
  case None
  with assms have "\<forall>a \<in> set as. loose_arg a" by (simp add: args_fit_def list_all_iff)
  then have "concat (map arg_text as) \<in> L (StarFmt k3_permissive_argument_tag)"
    by (intro sem_star) (auto intro: permissive_accepts)
  with None show ?thesis by (simp add: k3_arguments_block_def)
next
  case (Some pp)
  obtain params props where pp: "pp = (params, props)" by (cases pp)
  let ?inner = "or_single (map (argument_tag_or_permissive (root_defs_of params)) props)"
  have fit: "list_ex (\<lambda>(k, schema). k = fst a \<and> declared_arg L (root_defs_of params) schema a) props" if "a \<in> set as" for a
    using assms Some that by (auto simp: args_fit_def pp list_all_iff)
  have each: "v \<in> L ?inner" if "v \<in> set (map arg_text as)" for v using fit that by (rule inner_accepts)
  have "needs_argument params \<Longrightarrow> map arg_text as \<noteq> []" using assms Some by (auto simp: args_fit_def pp)
  with sem_star [of "map arg_text as" ?inner] sem_plus [of "map arg_text as" ?inner] each Some show ?thesis
    by (auto simp: k3_arguments_block_def pp Let_def)
qed

lemma call_accepted:
  assumes "call_fits L ts c"
  shows "\<exists>f \<in> set (map k3_call_tag ts). call_text c \<in> L f"
proof -
  obtain t idx as where c: "c = (t, idx, as)" by (cases c)
  have t: "t \<in> set ts" and idx: "idx \<noteq> []" "\<And>d. d \<in> set idx \<Longrightarrow> 48 \<le> d \<and> d \<le> 57"
    and as: "args_fit L (get_function_parameters t) as"
    using assms by (auto simp: call_fits_def c list_all_iff)
  let ?seq = "SequenceFmt [RegexFmt (lit ''[0-9]+''), ConstString (quote @ k3_sep), k3_arguments_block (get_function_parameters t)]"
  have "concat [idx, quote @ k3_sep, concat (map arg_text as)] \<in> L ?seq"
    using sem_digits [OF idx] sem_const arguments_accepted [OF as] by (intro sem_seq) simp
  from sem_tag [OF this, where b = "call_begin (fp_name t)" and e = k3_call_close]
  have "call_text c \<in> L (k3_call_tag t)" by (simp add: call_text_def c k3_call_tag_def call_begin_def)
  with t show ?thesis by (auto intro: bexI [of _ "k3_call_tag t"])
qed

lemma tools_channel_accepts:
  assumes "list_all (call_fits L ts) cs" "cs \<noteq> []"
  shows "k3_tools_open @ concat (map call_text cs) @ k3_tools_close \<in> L (k3_tools_channel ts)"
proof -
  have "concat (map call_text cs) \<in> L (TagsWithSeparator (map k3_call_tag ts) [] True False)"
  proof (rule sem_tags)
    show "map call_text cs \<noteq> []" using assms(2) by simp
  next
    fix v assume "v \<in> set (map call_text cs)"
    then obtain c where "c \<in> set cs" "v = call_text c" by auto
    with assms(1) show "\<exists>f \<in> set (map k3_call_tag ts). v \<in> L f" using call_accepted by (simp only: list_all_iff)
  qed
  then show ?thesis unfolding k3_tools_channel_def by (rule sem_tag) simp
qed

lemma prefix_accepts:
  assumes "\<not> sublist k3_response_close b"
  shows "list_all2 (\<lambda>v f. v \<in> L f) [if op then k3_response_open else [], b @ k3_response_close] k3_response_prefix"
proof -
  have "b \<in> L (AnyText [])" by (rule sem_any) simp
  from sem_tag [OF this, where b = "[]" and e = k3_response_close] assms
  show ?thesis by (simp add: k3_response_prefix_def sem_none sem_opt sem_const)
qed

lemma trailer_accepts: "(if e then k3_message_close else []) \<in> L (OptionalFmt (ConstString k3_message_close))"
  by (simp add: sem_none sem_opt sem_const)

lemma no_tools_no_calls: "list_all (call_fits L []) cs \<Longrightarrow> cs = []"
  by (cases cs) (auto simp: call_fits_def)

lemma response_accepted:
  assumes "response_fits L ts choice r"
  shows "response_text r \<in> L (get_kimi_k3_structural_tag ts choice)"
proof -
  let ?trailer = "if ends_message r then k3_message_close else []"
  let ?pre = "[if opens r then k3_response_open else [], body r @ k3_response_close]"
  have pre: "list_all2 (\<lambda>v f. v \<in> L f) ?pre k3_response_prefix"
    using assms prefix_accepts by (simp add: response_fits_def)
  show ?thesis
  proof (cases "ts = []")
    case True
    then have "tool_calls r = []" using assms no_tools_no_calls by (auto simp: response_fits_def split: simple_choice.splits)
    moreover have "concat (?pre @ [?trailer]) \<in> L (SequenceFmt (k3_response_prefix @ [OptionalFmt (ConstString k3_message_close)]))"
      using pre trailer_accepts by (intro sem_seq list_all2_appendI) simp_all
    ultimately show ?thesis using True by (simp add: response_text_def get_kimi_k3_structural_tag_def)
  next
    case False
    define part where "part = (case choice of Auto \<Rightarrow> OptionalFmt (k3_tools_channel ts)
        | Forced \<Rightarrow> k3_tools_channel (take 1 ts) | Required \<Rightarrow> k3_tools_channel ts)"
    let ?calls = "if tool_calls r = [] then [] else k3_tools_open @ concat (map call_text (tool_calls r)) @ k3_tools_close"
    have "?calls \<in> L part"
      using assms False tools_channel_accepts sem_none sem_opt
      by (auto simp: part_def response_fits_def split: simple_choice.splits)
    then have "concat (?pre @ [?calls, ?trailer]) \<in> L (SequenceFmt (k3_response_prefix @ [part, OptionalFmt (ConstString k3_message_close)]))"
      using pre trailer_accepts by (intro sem_seq list_all2_appendI) simp_all
    then show ?thesis using False by (simp add: response_text_def get_kimi_k3_structural_tag_def Let_def part_def)
  qed
qed

end

section \<open>The language that the documentation describes\<close>

fun joined :: "pystr \<Rightarrow> pystr list \<Rightarrow> pystr" where
  "joined sp [] = []"
| "joined sp [v] = v"
| "joined sp (v # w # vs) = v @ sp @ joined sp (w # vs)"

definition regex_matches :: "pystr \<Rightarrow> pystr set" where
  "regex_matches p =
     {v. p = lit ''[0-9]+'' \<and> v \<noteq> [] \<and> list_all (\<lambda>c. 48 \<le> c \<and> c \<le> 57) v
       \<or> p = permissive_regex \<and> (\<exists>w. v = w @ k3_sep \<and> 60 \<notin> set w)
       \<or> (\<exists>lo hi n. p = repeat_range (decimal lo) (decimal hi) \<and> atom_count v = Some n \<and> lo \<le> n \<and> n \<le> hi)}"

text \<open>What \<open>JSONSchema\<close> matches stays an argument.\<close>

primrec matches :: "(jval \<Rightarrow> pystr option \<Rightarrow> pystr set) \<Rightarrow> fmt \<Rightarrow> pystr set" where
  "matches js (AnyText ex) = {v. list_all (\<lambda>e. \<not> sublist e v) ex}"
| "matches js (ConstString s) = {s}"
| "matches js (JSONSchema v style) = js v style"
| "matches js (OptionalFmt f) = insert [] (matches js f)"
| "matches js (OrFmt fs) = \<Union> (set (map (matches js) fs))"
| "matches js (PlusFmt f) = {concat vs | vs. vs \<noteq> [] \<and> set vs \<subseteq> matches js f}"
| "matches js (RegexFmt p) = regex_matches p"
| "matches js (SequenceFmt fs) = {concat vs | vs. list_all2 (\<lambda>v S. v \<in> S) vs (map (matches js) fs)}"
| "matches js (StarFmt f) = {concat vs | vs. set vs \<subseteq> matches js f}"
| "matches js (TagFmt b f e) = {b @ v @ e | v. v \<in> matches js f \<and> ((\<exists>ex. f = AnyText ex) \<longrightarrow> \<not> sublist e v)}"
| "matches js (TagsWithSeparator fs sp one first) =
     {joined sp vs | vs. set vs \<subseteq> \<Union> (set (map (matches js) fs)) \<and> (one \<longrightarrow> vs \<noteq> []) \<and> (first \<longrightarrow> length vs \<le> 1)}"
| "matches js (TriggeredTags ts fs ex) =
     {concat vs | vs. list_all (\<lambda>v. v \<in> \<Union> (set (map (matches js) fs)) \<or> list_all (\<lambda>t. \<not> sublist t v) (ts @ ex)) vs}"

lemma joined_Nil: "joined [] vs = concat vs"
  by (induction "[] :: pystr" vs rule: joined.induct) simp_all

interpretation fl: format_language "matches js" for js
proof unfold_locales
  fix v f e b
  assume "v \<in> matches js f" and any: "\<And>ex. f = AnyText ex \<Longrightarrow> \<not> sublist e v"
  moreover have "(\<exists>ex. f = AnyText ex) \<longrightarrow> \<not> sublist e v" using any by (cases f) simp_all
  ultimately show "b @ v @ e \<in> matches js (TagFmt b f e)" by auto
next
  fix vs fs
  assume "list_all2 (\<lambda>v f. v \<in> matches js f) vs fs"
  then have "list_all2 (\<lambda>v S. v \<in> S) vs (map (matches js) fs)" by (simp add: list_all2_map2)
  then show "concat vs \<in> matches js (SequenceFmt fs)" unfolding matches.simps by blast
next
  fix vs fs
  assume "vs \<noteq> []" "\<And>v. v \<in> set vs \<Longrightarrow> \<exists>f \<in> set fs. v \<in> matches js f"
  then have "set vs \<subseteq> \<Union> (set (map (matches js) fs)) \<and> (True \<longrightarrow> vs \<noteq> []) \<and> (False \<longrightarrow> length vs \<le> 1)" by auto
  then show "concat vs \<in> matches js (TagsWithSeparator fs [] True False)"
    unfolding matches.simps joined_Nil by blast
qed (auto simp: list_all_iff regex_matches_def)

section \<open>Properties\<close>


definition demo_tool :: function_param where
  "demo_tool = \<lparr> fp_name = lit ''find'', fp_parameters = Some (JDict
     [(lit ''properties'', JDict [(lit ''q'', JDict [(lit ''type'', JStr (lit ''string'')), (lit ''maxLength'', JInt 8)])]),
      (lit ''required'', JList [JStr (lit ''q'')])]), fp_strict = None \<rparr>"

definition demo_response :: response where
  "demo_response = \<lparr> opens = True, body = lit ''ok'',
     tool_calls = [(demo_tool, lit ''1'', [(lit ''q'', lit ''string'', lit ''cats'')])], ends_message = True \<rparr>"


text \<open>
  Remark: a string with \<open><\<close> may be valid and still be refused, because two characters count as
  one: no bounded pattern with a lower bound of 2 matches \<open><a\<close>.
\<close>

lemma short_count_refuses: "string_valid [(lit ''minLength'', JInt 2), (lit ''maxLength'', JInt 2)] (lit ''<a'')"
    "k3_bounded_string_regex [(lit ''minLength'', JInt 2), (lit ''maxLength'', JInt 2)]
       = Some (repeat_range (decimal 2) (decimal 2))"
    "atom_count (lit ''<a'') = Some 1"
  by (simp_all add: string_valid_def k3_bounded_string_regex_def min_length_def as_int_def lit_def)

text \<open>Remark: the same count lets strings through that are twice as long as the upper bound.\<close>

lemma long_count_passes: "atom_count (concat (replicate n (lit ''<a''))) = Some n"
  by (induction n) (simp_all add: lit_def)

text \<open>Remark: MiniMax is registered, but neither list of supported models names it.\<close>

lemma minimax_not_listed:
  "map_of vllm_registry (lit ''minimax'') = Some Minimax" "lit ''minimax'' \<notin> set (xgrammar_models @ vllm_models)"
  by (simp_all add: vllm_registry_def xgrammar_models_def vllm_models_def lit_def)

text \<open>Remark: an unknown model is refused only where a tag would be built.\<close>

lemma unknown_model_refused:
  assumes "ts \<noteq> []" "choice \<noteq> ChoiceText (lit ''none'')" "choice = ChoiceText (lit ''auto'') \<longrightarrow> any_tool_strict ts"
    and "map_of vllm_registry model = None" "model \<notin> set xgrammar_models"
  shows "get_model_structural_tag x model (Some ts) choice reasoning = Unknown_model"
  using assms by (auto simp: get_model_structural_tag_def Let_def)

text \<open>Remark: tools of DeepSeek V4 are constrained for every choice but \<open>none\<close>, strict or not.\<close>

lemma deepseek_v4_always_constrained:
  assumes "ts \<noteq> []" "choice \<noteq> ChoiceText (lit ''none'')"
    and "xgrammar_tag x (lit ''deepseek_v4'') (map dump_tool_for_xgrammar ts) (dump_tool_choice_for_xgrammar choice) b = Some t"
  shows "get_model_structural_tag x (lit ''deepseek_v4'') (Some ts) choice b = Tag_of t"
proof -
  have "map_of vllm_registry (lit ''deepseek_v4'') = None" "lit ''deepseek_v4'' \<in> set xgrammar_models"
    by (simp_all add: vllm_registry_def xgrammar_models_def lit_def)
  with assms show ?thesis by (simp add: get_model_structural_tag_def Let_def)
qed

end
