(* ===== verification/Mxfp4Select.thy ===== *)
theory Mxfp4Select
  imports Prelude
begin

text \<open>
  The choice of a backend for the mixture of experts with MXFP4 weights
  (\<open>src/patches/mxfp4.fused-silu.py\<close>): the backends and their kernel classes, the requested activation,
  the two selections and the sizes a backend needs.  What a kernel class supports, the platform and
  the rounding of a size are the record \<open>deployment\<close>; log messages are left out.
\<close>

section \<open>Backends\<close>

datatype mxfp4_backend =
    NONE | DEEPGEMM_MXFP4
  | FLASHINFER_TRTLLM_MXFP4_MXFP8 | FLASHINFER_TRTLLM_MXFP4_BF16
  | FLASHINFER_CUTLASS_MXFP4_MXFP8 | FLASHINFER_CUTLASS_MXFP4_BF16
  | BATCHED_MARLIN | MARLIN
  | AITER_MXFP4_BF16 | AITER_MXFP4_FP8 | AITER_MXFP4_MXFP4
  | TRITON | TRITON_UNFUSED | XPU | CPU | EMULATION | HUMMING

definition trtllm_backends :: "mxfp4_backend list" where
  "trtllm_backends = [FLASHINFER_TRTLLM_MXFP4_BF16, FLASHINFER_TRTLLM_MXFP4_MXFP8]"

definition triton_backends :: "mxfp4_backend list" where
  "triton_backends = [TRITON, TRITON_UNFUSED]"

datatype kernel_cls =
    DeepGemmFP4Experts | TrtLlmMxfp4ExpertsMonolithic | TrtLlmMxfp4ExpertsModular | FlashInferExperts
  | OAITritonMxfp4ExpertsMonolithic | OAITritonExperts | UnfusedOAITritonExperts
  | BatchedHummingGroupedExperts | HummingGroupedExperts | HummingIndexedExperts
  | MarlinExperts | BatchedMarlinExperts | AiterExperts | AiterW4A16ExpertsMonolithic | AiterW4A8ExpertsMonolithic
  | XPUExpertsMxFp4 | CPUExpertsMxfp4 | OCP_MXQuantizationEmulationTritonExperts

text \<open>The keys the module names, and any other that a user or a checkpoint may give.\<close>

datatype quant_key = KFp8Dynamic128Sym | KMxfp8Dynamic | KFp8StaticTensorSym | KMxfp4Dynamic | KMxfp4Static
  | Other_key string

text \<open>\<open>ValueError\<close>s, by what they say, and the final \<open>NotImplementedError\<close>.\<close>

datatype select_error =
    Unknown_backend
  | Unknown_name string
  | Activation_conflict
  | Unsupported mxfp4_backend "string option"
  | No_variant
  | Nothing_supported

record deployment =
  moe_backend :: string
  batched :: bool
  deepseek_v4_routing :: bool
  user_activation :: "quant_key option"
  is_rocm :: bool
  is_xpu :: bool
  is_cpu :: bool
  supported_config :: "kernel_cls \<Rightarrow> quant_key \<Rightarrow> quant_key option \<Rightarrow> bool \<Rightarrow> bool \<times> string option"
  round_up :: "int \<Rightarrow> int \<Rightarrow> int"
  mx_block :: int

fun backend_to_kernel_cls :: "mxfp4_backend \<Rightarrow> select_error + kernel_cls list" where
  "backend_to_kernel_cls DEEPGEMM_MXFP4 = Inr [DeepGemmFP4Experts]"
| "backend_to_kernel_cls FLASHINFER_TRTLLM_MXFP4_BF16 = Inr [TrtLlmMxfp4ExpertsMonolithic, TrtLlmMxfp4ExpertsModular]"
| "backend_to_kernel_cls FLASHINFER_TRTLLM_MXFP4_MXFP8 = Inr [TrtLlmMxfp4ExpertsMonolithic, TrtLlmMxfp4ExpertsModular]"
| "backend_to_kernel_cls FLASHINFER_CUTLASS_MXFP4_BF16 = Inr [FlashInferExperts]"
| "backend_to_kernel_cls FLASHINFER_CUTLASS_MXFP4_MXFP8 = Inr [FlashInferExperts]"
| "backend_to_kernel_cls TRITON = Inr [OAITritonMxfp4ExpertsMonolithic, OAITritonExperts]"
| "backend_to_kernel_cls TRITON_UNFUSED = Inr [UnfusedOAITritonExperts]"
| "backend_to_kernel_cls HUMMING = Inr [BatchedHummingGroupedExperts, HummingGroupedExperts, HummingIndexedExperts]"
| "backend_to_kernel_cls MARLIN = Inr [MarlinExperts]"
| "backend_to_kernel_cls BATCHED_MARLIN = Inr [BatchedMarlinExperts]"
| "backend_to_kernel_cls AITER_MXFP4_BF16 = Inr [AiterExperts, AiterW4A16ExpertsMonolithic]"
| "backend_to_kernel_cls AITER_MXFP4_FP8 = Inr [AiterW4A8ExpertsMonolithic]"
| "backend_to_kernel_cls AITER_MXFP4_MXFP4 = Inr [AiterExperts]"
| "backend_to_kernel_cls XPU = Inr [XPUExpertsMxFp4]"
| "backend_to_kernel_cls CPU = Inr [CPUExpertsMxfp4]"
| "backend_to_kernel_cls EMULATION = Inr [OCP_MXQuantizationEmulationTritonExperts]"
| "backend_to_kernel_cls NONE = Inl Unknown_backend"

definition backend_names :: "(string, mxfp4_backend list) dict" where
  "backend_names =
     [(''deep_gemm'', [DEEPGEMM_MXFP4]),
      (''flashinfer_trtllm'', [FLASHINFER_TRTLLM_MXFP4_BF16, FLASHINFER_TRTLLM_MXFP4_MXFP8]),
      (''flashinfer_trtllm_afp8'', [FLASHINFER_TRTLLM_MXFP4_MXFP8]),
      (''flashinfer_cutlass'', [FLASHINFER_CUTLASS_MXFP4_BF16, FLASHINFER_CUTLASS_MXFP4_MXFP8]),
      (''flashinfer_cutlass_afp8'', [FLASHINFER_CUTLASS_MXFP4_MXFP8]),
      (''triton'', [TRITON]),
      (''triton_unfused'', [TRITON_UNFUSED]),
      (''humming'', [HUMMING]),
      (''marlin'', [MARLIN]),
      (''aiter'', [AITER_MXFP4_BF16, AITER_MXFP4_FP8, AITER_MXFP4_MXFP4]),
      (''aiter_mxfp4_fp8'', [AITER_MXFP4_FP8]),
      (''aiter_mxfp4_mxfp4'', [AITER_MXFP4_MXFP4]),
      (''xpu'', [XPU]),
      (''cpu'', [CPU]),
      (''emulation'', [EMULATION])]"

definition map_mxfp4_backend :: "string \<Rightarrow> select_error + mxfp4_backend list" where
  "map_mxfp4_backend name = (case map_of backend_names name of Some bs \<Rightarrow> Inr bs | None \<Rightarrow> Inl (Unknown_name name))"

definition get_priority_backends_for_gpt_oss :: "mxfp4_backend list" where
  "get_priority_backends_for_gpt_oss =
     [FLASHINFER_TRTLLM_MXFP4_BF16, FLASHINFER_TRTLLM_MXFP4_MXFP8, AITER_MXFP4_BF16, AITER_MXFP4_FP8,
      AITER_MXFP4_MXFP4, TRITON, FLASHINFER_CUTLASS_MXFP4_BF16, FLASHINFER_CUTLASS_MXFP4_MXFP8, MARLIN,
      BATCHED_MARLIN, XPU, EMULATION]"

definition get_priority_backends :: "deployment \<Rightarrow> mxfp4_backend list" where
  "get_priority_backends d =
     (if is_rocm d then [AITER_MXFP4_BF16, EMULATION]
      else if is_xpu d then [XPU]
      else [FLASHINFER_TRTLLM_MXFP4_MXFP8, DEEPGEMM_MXFP4, MARLIN, BATCHED_MARLIN])"

fun backend_activation_key :: "mxfp4_backend \<Rightarrow> quant_key option" where
  "backend_activation_key DEEPGEMM_MXFP4 = Some KFp8Dynamic128Sym"
| "backend_activation_key FLASHINFER_TRTLLM_MXFP4_MXFP8 = Some KMxfp8Dynamic"
| "backend_activation_key FLASHINFER_CUTLASS_MXFP4_MXFP8 = Some KMxfp8Dynamic"
| "backend_activation_key AITER_MXFP4_FP8 = Some KFp8StaticTensorSym"
| "backend_activation_key AITER_MXFP4_MXFP4 = Some KMxfp4Dynamic"
| "backend_activation_key b = None"

section \<open>The requested activation\<close>

definition resolve_activation_key :: "deployment \<Rightarrow> quant_key option \<Rightarrow> select_error + quant_key option" where
  "resolve_activation_key d key =
     (case user_activation d of
        None \<Rightarrow> Inr key
      | Some u \<Rightarrow> if key = None \<or> key = Some u then Inr (Some u) else Inl Activation_conflict)"

definition filter_by_activation :: "mxfp4_backend list \<Rightarrow> quant_key option \<Rightarrow> mxfp4_backend list" where
  "filter_by_activation bs req =
     (case req of
        Some a \<Rightarrow> filter (\<lambda>b. backend_activation_key b = Some a \<or> b = EMULATION) bs
      | None \<Rightarrow> (let bf16 = filter (\<lambda>b. backend_activation_key b = None) bs in if bf16 \<noteq> [] then bf16 else bs))"

definition act_key :: "quant_key option \<Rightarrow> mxfp4_backend \<Rightarrow> quant_key option" where
  "act_key req b = (case req of Some a \<Rightarrow> Some a | None \<Rightarrow> backend_activation_key b)"

section \<open>Trying backends\<close>

definition supports :: "deployment \<Rightarrow> quant_key option \<Rightarrow> kernel_cls \<Rightarrow> bool" where
  "supports d key k = fst (supported_config d k KMxfp4Static key (batched d))"

text \<open>The first supported class, or the reason of the last one.\<close>

fun first_class :: "deployment \<Rightarrow> quant_key option \<Rightarrow> kernel_cls list \<Rightarrow> string option \<Rightarrow> string option + kernel_cls" where
  "first_class d key [] reason = Inl reason"
| "first_class d key (k # ks) reason =
     (if supports d key k then Inr k else first_class d key ks (snd (supported_config d k KMxfp4Static key (batched d))))"

definition return_or_raise :: "deployment \<Rightarrow> mxfp4_backend \<Rightarrow> quant_key option \<Rightarrow> select_error + mxfp4_backend \<times> kernel_cls" where
  "return_or_raise d b key =
     (case backend_to_kernel_cls b of
        Inl e \<Rightarrow> Inl e
      | Inr ks \<Rightarrow> (case first_class d key ks None of Inr k \<Rightarrow> Inr (b, k) | Inl reason \<Rightarrow> Inl (Unsupported b reason)))"

text \<open>A requested family: the last error is raised where no variant is supported.\<close>

fun try_requested ::
  "deployment \<Rightarrow> (mxfp4_backend \<Rightarrow> quant_key option) \<Rightarrow> mxfp4_backend list \<Rightarrow> select_error \<Rightarrow> select_error + mxfp4_backend \<times> kernel_cls" where
  "try_requested d key [] err = Inl err"
| "try_requested d key (b # bs) err =
     (case return_or_raise d b (key b) of Inr r \<Rightarrow> Inr r | Inl e \<Rightarrow> try_requested d key bs e)"

text \<open>The list by priority: \<^term>\<open>None\<close> where nothing is supported.\<close>

fun try_priority ::
  "deployment \<Rightarrow> (mxfp4_backend \<Rightarrow> quant_key option) \<Rightarrow> mxfp4_backend list \<Rightarrow> select_error + (mxfp4_backend \<times> kernel_cls) option" where
  "try_priority d key [] = Inr None"
| "try_priority d key (b # bs) =
     (case backend_to_kernel_cls b of
        Inl e \<Rightarrow> Inl e
      | Inr ks \<Rightarrow> (case first_class d (key b) ks None of Inr k \<Rightarrow> Inr (Some (b, k)) | Inl _ \<Rightarrow> try_priority d key bs))"

definition batched_variant :: "deployment \<Rightarrow> mxfp4_backend list \<Rightarrow> mxfp4_backend list" where
  "batched_variant d bs = (if batched d then map (\<lambda>b. if b = MARLIN then BATCHED_MARLIN else b) bs else bs)"

text \<open>The assertion that there was an error cannot fail, because no family is empty.\<close>

definition select_mxfp4_moe_backend :: "deployment \<Rightarrow> quant_key option \<Rightarrow> select_error + mxfp4_backend \<times> kernel_cls" where
  "select_mxfp4_moe_backend d key =
     (case resolve_activation_key d key of
        Inl e \<Rightarrow> Inl e
      | Inr req \<Rightarrow>
          if moe_backend d \<noteq> ''auto'' then
            (case map_mxfp4_backend (moe_backend d) of
               Inl e \<Rightarrow> Inl e
             | Inr bs \<Rightarrow>
                 (let cs = filter_by_activation (batched_variant d bs) req
                  in if cs = [] then Inl No_variant else try_requested d (act_key req) cs Nothing_supported))
          else
            (case try_priority d (act_key req) (filter_by_activation get_priority_backends_for_gpt_oss req) of
               Inl e \<Rightarrow> Inl e
             | Inr (Some r) \<Rightarrow> Inr r
             | Inr None \<Rightarrow>
                 if is_xpu d then return_or_raise d XPU None
                 else if is_cpu d then return_or_raise d CPU None
                 else Inl Nothing_supported))"

definition deepseek_priority :: "deployment \<Rightarrow> mxfp4_backend list" where
  "deepseek_priority d =
     (if is_rocm d \<and> deepseek_v4_routing d then [AITER_MXFP4_BF16, TRITON_UNFUSED] else get_priority_backends d)"

definition select_deepseek_v4_mxfp4_moe_backend :: "deployment \<Rightarrow> select_error + mxfp4_backend \<times> kernel_cls" where
  "select_deepseek_v4_mxfp4_moe_backend d =
     (if moe_backend d \<noteq> ''auto'' then
        (case map_mxfp4_backend (moe_backend d) of
           Inl e \<Rightarrow> Inl e
         | Inr bs \<Rightarrow> try_requested d backend_activation_key (batched_variant d bs) Nothing_supported)
      else
        (case try_priority d backend_activation_key (deepseek_priority d) of
           Inl e \<Rightarrow> Inl e
         | Inr (Some r) \<Rightarrow> Inr r
         | Inr None \<Rightarrow> Inl Nothing_supported))"

section \<open>Sizes\<close>

definition mxfp4_round_up :: "deployment \<Rightarrow> mxfp4_backend \<Rightarrow> int \<Rightarrow> int \<Rightarrow> int \<times> int" where
  "mxfp4_round_up d b hidden intermediate =
     (let r = round_up d in
      if b = EMULATION then (r hidden (mx_block d), r intermediate (mx_block d))
      else if b = DEEPGEMM_MXFP4 then (r hidden 128, r intermediate 128)
      else if b \<in> {MARLIN, BATCHED_MARLIN} then (r hidden (if is_xpu d then 128 else 256), r intermediate 128)
      else if b \<in> set trtllm_backends then (r hidden 256, r intermediate 128)
      else if b \<in> {FLASHINFER_CUTLASS_MXFP4_BF16, FLASHINFER_CUTLASS_MXFP4_MXFP8} then (r hidden 128, r intermediate 128)
      else if is_rocm d then (r hidden 256, r intermediate 256)
      else if b = CPU then (r hidden 32, r intermediate 32)
      else (hidden, r intermediate 64))"

section \<open>The quantisation of the activations\<close>

text \<open>The configuration object of each branch, by the function that makes it and what differs.\<close>

datatype quant_config =
    Fp8_block128
  | Mxfp4_mxfp8 (mx_alignment: "int option") (scale_swizzled: bool)
  | W4a8
  | Ocp_mx_mxfp4
  | W4a16
  | Humming_config

definition make_mxfp4_moe_quant_config :: "mxfp4_backend \<Rightarrow> bool \<Rightarrow> quant_config option" where
  "make_mxfp4_moe_quant_config b has_layer =
     (if b = DEEPGEMM_MXFP4 then Some Fp8_block128
      else if b = FLASHINFER_TRTLLM_MXFP4_MXFP8 then Some (Mxfp4_mxfp8 (Some 256) False)
      else if b = FLASHINFER_CUTLASS_MXFP4_MXFP8 then Some (Mxfp4_mxfp8 None True)
      else if b = AITER_MXFP4_FP8 then Some W4a8
      else if b = AITER_MXFP4_MXFP4 then Some Ocp_mx_mxfp4
      else if b \<in> {MARLIN, BATCHED_MARLIN, TRITON, TRITON_UNFUSED, FLASHINFER_TRTLLM_MXFP4_BF16,
                   FLASHINFER_CUTLASS_MXFP4_BF16, AITER_MXFP4_BF16, CPU} then Some W4a16
      else if b = HUMMING then (if has_layer then Some Humming_config else None)
      else Some Ocp_mx_mxfp4)"

section \<open>The first supported class of a list of candidates\<close>

definition kernels :: "mxfp4_backend \<Rightarrow> kernel_cls list" where
  "kernels b = (case backend_to_kernel_cls b of Inl _ \<Rightarrow> [] | Inr ks \<Rightarrow> ks)"

definition choices_of :: "mxfp4_backend list \<Rightarrow> (mxfp4_backend \<times> kernel_cls) list" where
  "choices_of bs = concat (map (\<lambda>b. map (Pair b) (kernels b)) bs)"

definition first_supported ::
  "deployment \<Rightarrow> (mxfp4_backend \<Rightarrow> quant_key option) \<Rightarrow> mxfp4_backend list \<Rightarrow> (mxfp4_backend \<times> kernel_cls) option" where
  "first_supported d key bs = find (\<lambda>(b, k). supports d (key b) k) (choices_of bs)"

lemma first_class_find: "(case first_class d key ks reason of Inr k \<Rightarrow> Some k | Inl _ \<Rightarrow> None) = find (supports d key) ks"
  by (induction ks arbitrary: reason) auto

lemma find_append: "find P (xs @ ys) = (case find P xs of Some x \<Rightarrow> Some x | None \<Rightarrow> find P ys)"
  by (induction xs) auto

lemma find_pairs: "find (\<lambda>(b, k). P b k) (map (Pair b) ks) = map_option (Pair b) (find (P b) ks)"
  by (induction ks) auto

lemma first_supported_Nil [simp]: "first_supported d key [] = None"
  by (simp add: first_supported_def choices_of_def)

lemma first_supported_Cons:
  "first_supported d key (b # bs) =
     (case find (supports d (key b)) (kernels b) of Some k \<Rightarrow> Some (b, k) | None \<Rightarrow> first_supported d key bs)"
  by (auto simp: first_supported_def choices_of_def find_append find_pairs split: option.split)

lemma return_or_raise_first: "return_or_raise d b key = Inr r \<longleftrightarrow>
   (\<exists>k. find (supports d key) (kernels b) = Some k \<and> r = (b, k))"
  using first_class_find [of d key "kernels b" None]
  by (auto simp: return_or_raise_def kernels_def split: sum.splits)

lemma return_or_raise_None: "find (supports d key) (kernels b) = None \<longleftrightarrow> (\<exists>e. return_or_raise d b key = Inl e)"
proof (cases "find (supports d key) (kernels b)")
  case (Some k)
  then have "return_or_raise d b key = Inr (b, k)" using return_or_raise_first by blast
  with Some show ?thesis by simp
next
  case None
  then have "return_or_raise d b key \<noteq> Inr r" for r using return_or_raise_first by simp
  with None show ?thesis by (cases "return_or_raise d b key") auto
qed

lemma try_requested_first:
  "try_requested d key bs err = Inr r \<longleftrightarrow> first_supported d key bs = Some r"
proof (induction bs arbitrary: err)
  case (Cons b bs)
  then show ?case
    using return_or_raise_first [of d b "key b"] return_or_raise_None [of d "key b" b]
    by (auto simp: first_supported_Cons split: sum.split option.split)
qed simp

lemma try_priority_first: "NONE \<notin> set bs \<Longrightarrow> try_priority d key bs = Inr (first_supported d key bs)"
proof (induction bs)
  case (Cons b bs)
  then have "b \<noteq> NONE" by auto
  then obtain ks where ks: "backend_to_kernel_cls b = Inr ks" by (cases b) auto
  then show ?case using Cons first_class_find [of d "key b" ks None]
    by (auto simp: first_supported_Cons kernels_def split: sum.splits option.splits)
qed simp

lemma filter_subset: "set (filter_by_activation bs req) \<subseteq> set bs"
  by (auto simp: filter_by_activation_def Let_def split: option.splits)

lemma gpt_oss_named: "NONE \<notin> set (filter_by_activation get_priority_backends_for_gpt_oss req)"
  using filter_subset [of get_priority_backends_for_gpt_oss req] by (auto simp: get_priority_backends_for_gpt_oss_def)

lemma find_SomeD: "find P xs = Some x \<Longrightarrow> x \<in> set xs \<and> P x"
  by (induction xs) (auto split: if_splits)

lemma first_supportedD: "first_supported d key bs = Some (b, k) \<Longrightarrow> b \<in> set bs \<and> k \<in> set (kernels b) \<and> supports d (key b) k"
  unfolding first_supported_def choices_of_def by (auto dest!: find_SomeD)

section \<open>Properties\<close>

text \<open>The candidates of a selection after the request is resolved.\<close>

definition candidates :: "deployment \<Rightarrow> quant_key option \<Rightarrow> mxfp4_backend list option" where
  "candidates d req =
     (if moe_backend d = ''auto'' then Some (filter_by_activation get_priority_backends_for_gpt_oss req)
      else map_option (\<lambda>bs. filter_by_activation (batched_variant d bs) req) (map_of backend_names (moe_backend d)))"

text \<open>Remark: Outside XPU and CPU, the selection returns exactly the first kernel class that supports the
  deployment, in the order of its candidates and of their classes: it fails only where no class
  of any candidate does.\<close>

theorem selection_is_first_supported:
  assumes "resolve_activation_key d key = Inr req" "\<not> is_xpu d" "\<not> is_cpu d"
  shows "select_mxfp4_moe_backend d key = Inr r \<longleftrightarrow>
    (case candidates d req of None \<Rightarrow> False | Some bs \<Rightarrow> first_supported d (act_key req) bs = Some r)"
proof (cases "moe_backend d = ''auto''")
  case True
  then show ?thesis using assms try_priority_first [OF gpt_oss_named]
    by (simp add: select_mxfp4_moe_backend_def candidates_def split: option.split)
next
  case False
  then show ?thesis using assms try_requested_first
    by (auto simp: select_mxfp4_moe_backend_def candidates_def map_mxfp4_backend_def Let_def split: option.split)
qed

definition demo_deployment :: deployment where
  "demo_deployment = \<lparr> moe_backend = ''auto'', batched = False, deepseek_v4_routing = True, user_activation = None,
     is_rocm = True, is_xpu = False, is_cpu = False,
     supported_config = (\<lambda>k w a f. (k \<in> {OAITritonExperts, UnfusedOAITritonExperts}, None)),
     round_up = (\<lambda>x y. (x + y - 1) div y * y), mx_block = 32 \<rparr>"

theorem selection_is_first_supported_witness:
  "select_mxfp4_moe_backend demo_deployment None = Inr (TRITON, OAITritonExperts)"
proof -
  have req: "resolve_activation_key demo_deployment None = Inr None"
    by (simp add: resolve_activation_key_def demo_deployment_def)
  have "first_supported demo_deployment (act_key None) (filter_by_activation get_priority_backends_for_gpt_oss None)
      = Some (TRITON, OAITritonExperts)"
    by (simp add: filter_by_activation_def get_priority_backends_for_gpt_oss_def first_supported_Cons kernels_def
      supports_def demo_deployment_def Let_def)
  then show ?thesis
    using selection_is_first_supported [OF req, of "(TRITON, OAITritonExperts)"]
    by (simp add: candidates_def demo_deployment_def)
qed

text \<open>Remark: The selection for this model honours an explicit backend and otherwise its priority list: it returns
  exactly the first supported class, each candidate asked with the activation of its own variant.\<close>

theorem deepseek_selection_is_first_supported:
  "select_deepseek_v4_mxfp4_moe_backend d = Inr r \<longleftrightarrow>
     first_supported d backend_activation_key
       (if moe_backend d = ''auto'' then deepseek_priority d
        else batched_variant d (dget backend_names (moe_backend d) [])) = Some r"
proof (cases "moe_backend d = ''auto''")
  case True
  have "NONE \<notin> set (deepseek_priority d)" by (simp add: deepseek_priority_def get_priority_backends_def)
  with True show ?thesis using try_priority_first
    by (simp add: select_deepseek_v4_mxfp4_moe_backend_def split: option.split)
next
  case False
  show ?thesis
  proof (cases "map_of backend_names (moe_backend d)")
    case None
    with False show ?thesis
      by (simp add: select_deepseek_v4_mxfp4_moe_backend_def map_mxfp4_backend_def dget_def batched_variant_def)
  next
    case (Some bs)
    with False show ?thesis using try_requested_first
      by (simp add: select_deepseek_v4_mxfp4_moe_backend_def map_mxfp4_backend_def dget_def)
  qed
qed

text \<open>
  Remark: what the first selection returns for a requested activation runs with it, or is the
  emulation, or is the fallback of XPU and CPU, which asks for 16-bit activations all the same.
\<close>

lemma requested_activation_used:
  assumes "resolve_activation_key d key = Inr (Some a)" "select_mxfp4_moe_backend d key = Inr (b, k)" "\<not> is_xpu d" "\<not> is_cpu d"
  shows "supports d (Some a) k \<and> (backend_activation_key b = Some a \<or> b = EMULATION)"
proof -
  have get: "supports d (Some a) k \<and> (backend_activation_key b = Some a \<or> b = EMULATION)"
    if "first_supported d (act_key (Some a)) (filter_by_activation bs (Some a)) = Some (b, k)" for bs
    using first_supportedD [OF that] by (auto simp: act_key_def filter_by_activation_def)
  show ?thesis
  proof (cases "moe_backend d = ''auto''")
    case True
    with assms get show ?thesis using try_priority_first [OF gpt_oss_named]
      by (auto simp: select_mxfp4_moe_backend_def split: option.splits)
  next
    case False
    with assms get show ?thesis using try_requested_first
      by (auto simp: select_mxfp4_moe_backend_def Let_def split: sum.splits if_splits)
  qed
qed

lemma xpu_ignores_request:
  assumes "moe_backend d = ''auto''" "user_activation d = None" "is_xpu d" "\<not> is_rocm d"
    and "\<And>k. supports d (Some KMxfp8Dynamic) k \<Longrightarrow> False" "supports d None XPUExpertsMxFp4"
  shows "select_mxfp4_moe_backend d (Some KMxfp8Dynamic) = Inr (XPU, XPUExpertsMxFp4)"
proof -
  have "first_supported d (act_key (Some KMxfp8Dynamic)) bs = None" for bs
    by (induction bs) (use assms(5) in \<open>auto simp: first_supported_Cons act_key_def find_None_iff split: option.split\<close>)
  then have "try_priority d (act_key (Some KMxfp8Dynamic))
      (filter_by_activation get_priority_backends_for_gpt_oss (Some KMxfp8Dynamic)) = Inr None"
    using try_priority_first [OF gpt_oss_named] by simp
  with assms show ?thesis
    by (simp add: select_mxfp4_moe_backend_def resolve_activation_key_def return_or_raise_def)
qed

text \<open>
  Remark: the selection for this model never looks at the activation that the user asks for.
\<close>

lemma deepseek_ignores_request:
  "select_deepseek_v4_mxfp4_moe_backend (d\<lparr> user_activation := u \<rparr>) = select_deepseek_v4_mxfp4_moe_backend d"
proof -
  have sup: "supports (d\<lparr> user_activation := u \<rparr>) = supports d" by (intro ext) (simp add: supports_def)
  have cls: "first_class (d\<lparr> user_activation := u \<rparr>) key ks r = first_class d key ks r" for key ks r
    by (induction ks arbitrary: r) (simp_all add: sup)
  have req: "try_requested (d\<lparr> user_activation := u \<rparr>) key bs e = try_requested d key bs e" for key bs e
    by (induction bs arbitrary: e) (simp_all add: return_or_raise_def cls split: sum.split)
  have pri: "try_priority (d\<lparr> user_activation := u \<rparr>) key bs = try_priority d key bs" for key bs
    by (induction bs) (simp_all add: cls split: sum.split)
  show ?thesis
    by (simp add: select_deepseek_v4_mxfp4_moe_backend_def req pri batched_variant_def deepseek_priority_def
      get_priority_backends_def split: sum.split)
qed

text \<open>Rounding up as its documentation says: the least multiple that is not smaller.\<close>

definition rounds_up :: "(int \<Rightarrow> int \<Rightarrow> int) \<Rightarrow> bool" where
  "rounds_up r \<longleftrightarrow> (\<forall>x y. 0 < y \<longrightarrow> y dvd r x y \<and> x \<le> r x y \<and> r x y < x + y)"

lemma rounds_upD:
  assumes "rounds_up r" "0 < y"
  shows "y dvd r x y" "x \<le> r x y" "r x y < x + y"
  using assms by (simp_all add: rounds_up_def)

text \<open>Remark: For every backend the rounded sizes hold the weights, waste less than 256, and the intermediate
  size is a multiple of the 32 elements that share a scale.\<close>

theorem rounded_sizes_fit:
  assumes "rounds_up (round_up d)" "mx_block d = 32" "mxfp4_round_up d b h n = (h', n')"
  shows "h \<le> h' \<and> h' < h + 256 \<and> n \<le> n' \<and> n' < n + 256 \<and> 32 dvd n'"
proof -
  have up: "x \<le> round_up d x y" "round_up d x y < x + y" "32 dvd round_up d x y" if "32 dvd y" "0 < y" for x y
    using rounds_upD [OF assms(1) that(2), of x] dvd_trans [OF that(1)] by simp_all
  have "h' = h \<or> (\<exists>y \<in> {32, 128, 256}. h' = round_up d h y)" "\<exists>y \<in> {32, 64, 128, 256}. n' = round_up d n y"
    using assms(2,3) by (auto simp: mxfp4_round_up_def Let_def split: if_splits)
  with up [of 32 h] up [of 128 h] up [of 256 h] up [of 32 n] up [of 64 n] up [of 128 n] up [of 256 n]
  show ?thesis by auto
qed

theorem rounded_sizes_fit_witness:
  "mxfp4_round_up demo_deployment TRITON_UNFUSED 4096 720 = (4096, 768) \<and> (32 :: int) dvd 768 \<and> (768 :: int) < 720 + 256"
proof -
  have r: "rounds_up (round_up demo_deployment)"
  proof -
    have "y dvd (x + y - 1) div y * y \<and> x \<le> (x + y - 1) div y * y \<and> (x + y - 1) div y * y < x + y" if "0 < y" for x y :: int
    proof (intro conjI)
      have "(x + y - 1) div y * y = x + y - 1 - (x + y - 1) mod y" using div_mult_mod_eq [of "x + y - 1" y] by linarith
      with that pos_mod_bound [of y "x + y - 1"] pos_mod_sign [of y "x + y - 1"]
      show "x \<le> (x + y - 1) div y * y" "(x + y - 1) div y * y < x + y" by linarith+
    qed simp
    then show ?thesis by (simp add: rounds_up_def demo_deployment_def)
  qed
  have e: "mxfp4_round_up demo_deployment TRITON_UNFUSED 4096 720 = (4096, 768)"
    by (simp add: mxfp4_round_up_def demo_deployment_def trtllm_backends_def Let_def)
  from rounded_sizes_fit [OF r _ e] e show ?thesis by (simp add: demo_deployment_def)
qed

end
