(* ===== verification/Mxfp4Layout.thy ===== *)
theory Mxfp4Layout
  imports Mxfp4Select "HOL-Library.Monad_Syntax"
begin

text \<open>
  The conversion of loaded expert weights into the layout of a backend's kernels
  (\<open>src/patches/mxfp4.fused-silu.py\<close>), for checkpoints that interleave the gate and up rows and for
  checkpoints that keep them in two blocks.  A tensor is a list of experts, each a list of rows;
  rows are opaque, as views reinterpret their bytes.  Vendor functions are the record \<open>vendor\<close>.
  \<^term>\<open>None\<close> is an exception: a failed assertion, a shape that does not fit, a refused backend.
\<close>

section \<open>Tensors and vendor functions\<close>

record ('w, 's, 'b) weights =
  w13 :: "'w list list"
  w2 :: "'w list list"
  s13 :: "'s list list"
  s2 :: "'s list list"
  b13 :: "'b list list option"
  b2 :: "'b list list option"
  w13_cols :: nat
  w2_cols :: nat
  in13 :: "real list option"
  in2 :: "real list option"
  layer_in13 :: "real list option"
  layer_in2 :: "real list option"

datatype ('w, 's, 'p) tensor = W "'w list list" | S "'s list list" | P 'p

record ('w, 's, 'b, 'p) converted =
  weight13 :: "('w, 's, 'p) tensor"
  weight2 :: "('w, 's, 'p) tensor"
  scale13 :: "('w, 's, 'p) tensor"
  scale2 :: "('w, 's, 'p) tensor"
  bias13 :: "'b list list option"
  bias2 :: "'b list list option"
  dropped :: "string list"
  new_in13 :: "real option"
  new_in2 :: "real option"
  env_set :: "(string \<times> string) list"

record ('w, 's, 'b, 'p) vendor =
  to_f32 :: "'b \<Rightarrow> 'b"
  to_bf16 :: "'b \<Rightarrow> 'b"
  permute_w :: "'w list \<Rightarrow> nat list"
  permute_s :: "'s list \<Rightarrow> nat list"
  permute_b :: "'b list \<Rightarrow> nat list"
  nvfp4_interleave :: "'s list \<Rightarrow> 's list"
  block_interleave :: "'s list list \<Rightarrow> 's list list"
  sm90_weights :: "'w list list \<Rightarrow> 'p"
  sm90_scales :: "'s list list \<Rightarrow> 'p"
  deepgemm_scale :: "'s list list \<Rightarrow> nat \<Rightarrow> nat \<Rightarrow> nat \<times> nat \<Rightarrow> nat \<Rightarrow> 'p"
  marlin_layer :: "('w, 's, 'b) weights \<Rightarrow> ('w, 's, 'b, 'p) converted option"
  humming_layer :: "string \<Rightarrow> ('w, 's, 'b, 'p) converted option"
  e8m0_shuffle :: "'s list \<Rightarrow> 's list"
  shuffle_weights :: "'w list list \<Rightarrow> 'w list list \<Rightarrow> 'p \<times> 'p"
  shuffle_weight_a16w4 :: "'w list list \<Rightarrow> nat \<Rightarrow> bool \<Rightarrow> 'p"
  shuffle_scale_a16w4 :: "'s list \<Rightarrow> nat \<Rightarrow> bool \<Rightarrow> 'p"
  aiter_shuffle_weight :: "'w list list \<Rightarrow> bool \<Rightarrow> bool \<Rightarrow> 'p"
  aiter_shuffle_scale :: "'s list \<Rightarrow> nat \<Rightarrow> bool \<Rightarrow> bool \<Rightarrow> 'p"
  swizzle_mxfp4 :: "'w list list \<Rightarrow> 's list list \<Rightarrow> 'p \<times> 'p \<times> 'p"
  precision_config :: "'p \<Rightarrow> 'p \<Rightarrow> real option \<Rightarrow> 'p"
  pack_for_cpu :: "'w list list \<Rightarrow> 'w list list \<Rightarrow> 's list list \<Rightarrow> 's list list \<Rightarrow> 'p \<times> 'p \<times> 'p \<times> 'p"
  gfx1250 :: bool
  index_cache :: bool

text \<open>Half of the gate and up rows of an expert.\<close>

definition intermediate_of :: "('w, 's, 'b) weights \<Rightarrow> nat" where
  "intermediate_of x = (case w13 x of [] \<Rightarrow> 0 | m # _ \<Rightarrow> length m div 2)"

definition plain_result ::
  "('w, 's, 'p) tensor \<Rightarrow> ('w, 's, 'p) tensor \<Rightarrow> ('w, 's, 'p) tensor \<Rightarrow> ('w, 's, 'p) tensor
     \<Rightarrow> 'b list list option \<Rightarrow> 'b list list option \<Rightarrow> ('w, 's, 'b, 'p) converted" where
  "plain_result w13' w2' s13' s2' b13' b2' =
     \<lparr> weight13 = w13', weight2 = w2', scale13 = s13', scale2 = s2', bias13 = b13', bias2 = b2',
       dropped = [], new_in13 = None, new_in2 = None, env_set = [] \<rparr>"

definition bias_f32 :: "('w, 's, 'b, 'p) vendor \<Rightarrow> 'b list list option \<Rightarrow> 'b list list option" where
  "bias_f32 v b = map_option (map (map (to_f32 v))) b"

section \<open>Orders of rows\<close>

text \<open>\<open>xs[::2]\<close>, \<open>xs[1::2]\<close>, the swap of each pair, and the two-by-two merge of two blocks.\<close>

fun every2 :: "'a list \<Rightarrow> 'a list" where
  "every2 [] = []"
| "every2 [x] = [x]"
| "every2 (x # y # xs) = x # every2 xs"

definition deinterleave :: "'a list \<Rightarrow> 'a list" where
  "deinterleave xs = every2 xs @ every2 (drop 1 xs)"

fun swap_every_two_rows :: "'a list \<Rightarrow> 'a list" where
  "swap_every_two_rows (x # y # xs) = y # x # swap_every_two_rows xs"
| "swap_every_two_rows xs = xs"

fun merge_rows :: "'a list \<Rightarrow> 'a list \<Rightarrow> 'a list" where
  "merge_rows (x # xs) (y # ys) = x # y # merge_rows xs ys"
| "merge_rows xs ys = []"

text \<open>\<open>torch.chunk(xs, 2)\<close> and the halves exchanged.\<close>

definition swap_halves :: "'a list \<Rightarrow> 'a list" where
  "swap_halves xs = (let h = (length xs + 1) div 2 in drop h xs @ take h xs)"

definition deinterleave_and_swap :: "'a list \<Rightarrow> 'a list" where
  "deinterleave_and_swap xs = swap_halves (deinterleave xs)"

definition interleave_gate_up :: "'a list \<Rightarrow> 'a list" where
  "interleave_gate_up xs = merge_rows (take (length xs div 2) xs) (drop (length xs div 2) xs)"

text \<open>\<open>[w3, w1]\<close> merged, for halves cut at \<open>n\<close>.\<close>

definition interleave_up_gate :: "nat \<Rightarrow> 'a list \<Rightarrow> 'a list" where
  "interleave_up_gate n xs = merge_rows (drop n xs) (take n xs)"

definition pairs_fit :: "'a list list \<Rightarrow> bool" where
  "pairs_fit = list_all (\<lambda>m. even (length m))"

section \<open>Permutations of rows\<close>

definition gather :: "'a list \<Rightarrow> nat list \<Rightarrow> 'a list option" where
  "gather xs idx = (if list_all (\<lambda>i. i < length xs) idx then Some (map (\<lambda>i. xs ! i) idx) else None)"

text \<open>The loop over experts asks for the indices of each; an empty stack raises.\<close>

definition permute_each :: "('a list \<Rightarrow> nat list) \<Rightarrow> 'a list list \<Rightarrow> 'a list list option" where
  "permute_each perm ms = (if ms = [] then None else those (map (\<lambda>m. gather m (perm m)) ms))"

text \<open>The batched conversion asks once, for the first expert.\<close>

definition permute_all :: "('a list \<Rightarrow> nat list) \<Rightarrow> 'a list list \<Rightarrow> 'a list list option" where
  "permute_all perm ms = (case ms of [] \<Rightarrow> None | m0 # _ \<Rightarrow> those (map (\<lambda>m. gather m (perm m0)) ms))"

fun cut_rows :: "nat \<Rightarrow> nat \<Rightarrow> 'a list \<Rightarrow> 'a list list" where
  "cut_rows 0 n xs = []"
| "cut_rows (Suc e) n xs = take n xs # cut_rows e n (drop n xs)"

text \<open>\<open>reshape\<close> to \<open>e\<close> experts of \<open>n\<close> rows.\<close>

definition reshape_rows :: "nat \<Rightarrow> nat \<Rightarrow> 'a list \<Rightarrow> 'a list list option" where
  "reshape_rows e n xs = (if length xs = e * n then Some (cut_rows e n xs) else None)"

section \<open>Branches that both conversions share\<close>

definition pack_deepgemm_scales :: "('w, 's, 'b, 'p) vendor \<Rightarrow> ('w, 's, 'b) weights \<Rightarrow> 'p \<times> 'p" where
  "pack_deepgemm_scales v x =
     (let experts = length (w13 x);
          intermediate2 = (case w13 x of [] \<Rightarrow> 0 | m # _ \<Rightarrow> length m);
          hidden = w13_cols x * 2;
          intermediate = w2_cols x * 2
      in (deepgemm_scale v (s13 x) intermediate2 hidden (1, 32) experts,
          deepgemm_scale v (s2 x) hidden intermediate (1, 32) experts))"

definition convert_deepgemm :: "('w, 's, 'b, 'p) vendor \<Rightarrow> ('w, 's, 'b) weights \<Rightarrow> ('w, 's, 'b, 'p) converted" where
  "convert_deepgemm v x =
     (case pack_deepgemm_scales v x of (p13, p2) \<Rightarrow> plain_result (W (w13 x)) (W (w2 x)) (P p13) (P p2) (b13 x) (b2 x))"

text \<open>The swizzled weights with their scales in the precision configurations.\<close>

definition swizzled ::
  "('w, 's, 'b, 'p) vendor \<Rightarrow> 'w list list \<Rightarrow> 's list list \<Rightarrow> real option \<Rightarrow> 'p \<times> 'p" where
  "swizzled v w s lhs = (case swizzle_mxfp4 v w s of (w', flex, s') \<Rightarrow> (w', precision_config v s' flex lhs))"

definition swizzled_result ::
  "('w, 's, 'b, 'p) vendor \<Rightarrow> ('w, 's, 'b) weights \<Rightarrow> 'b list list option \<Rightarrow> real option \<Rightarrow> real option
     \<Rightarrow> string list \<Rightarrow> ('w, 's, 'b, 'p) converted" where
  "swizzled_result v x b1 l13 l2 del =
     (case (swizzled v (w13 x) (s13 x) l13, swizzled v (w2 x) (s2 x) l2) of ((w1, p1), (w2', p2)) \<Rightarrow>
       (plain_result (P w1) (P w2') (P p1) (P p2) b1 (bias_f32 v (b2 x)))\<lparr> dropped := del \<rparr>)"

section \<open>Checkpoints with interleaved gate and up rows\<close>

definition gpt_oss_trtllm :: "('w, 's, 'b, 'p) vendor \<Rightarrow> ('w, 's, 'b) weights \<Rightarrow> ('w, 's, 'b, 'p) converted option" where
  "gpt_oss_trtllm v x =
     (case (bias_f32 v (b13 x), bias_f32 v (b2 x)) of
        (Some b1, Some b2') \<Rightarrow>
          if \<not> index_cache v \<or> \<not> pairs_fit (s13 x) \<or> \<not> pairs_fit (w13 x) \<or> \<not> pairs_fit b1 then None
          else do {
            w1 \<leftarrow> permute_each (permute_w v) (map swap_every_two_rows (w13 x));
            s1 \<leftarrow> permute_each (permute_s v) (map swap_every_two_rows (s13 x));
            b1' \<leftarrow> permute_each (permute_b v) (map swap_every_two_rows b1);
            w2' \<leftarrow> permute_each (permute_w v) (w2 x);
            s2' \<leftarrow> permute_each (permute_s v) (s2 x);
            b2'' \<leftarrow> permute_each (permute_b v) b2';
            s1' \<leftarrow> reshape_rows (length (w13 x)) (2 * intermediate_of x) (concat (map (nvfp4_interleave v) s1));
            s2'' \<leftarrow> reshape_rows (length (w13 x)) (2 * w13_cols x) (concat (map (nvfp4_interleave v) s2'));
            Some (plain_result (W w1) (W w2') (S s1') (S s2'') (Some b1') (Some b2'')) }
      | _ \<Rightarrow> None)"

definition gpt_oss_cutlass ::
  "('w, 's, 'b, 'p) vendor \<Rightarrow> bool \<Rightarrow> ('w, 's, 'b) weights \<Rightarrow> ('w, 's, 'b, 'p) converted option" where
  "gpt_oss_cutlass v mxfp8 x =
     (case (b13 x, b2 x) of
        (Some b1, Some b2') \<Rightarrow>
          (let w = map deinterleave_and_swap (w13 x); s = map deinterleave_and_swap (s13 x);
               b = map (map (to_bf16 v) \<circ> deinterleave_and_swap \<circ> map (to_f32 v)) b1
           in Some (if mxfp8
                then plain_result (W w) (W (w2 x)) (S (block_interleave v s)) (S (block_interleave v (s2 x))) (Some b) (Some b2')
                else plain_result (P (sm90_weights v w)) (P (sm90_weights v (w2 x))) (P (sm90_scales v s))
                       (P (sm90_scales v (s2 x))) (Some b) (Some b2')))
      | _ \<Rightarrow> None)"

definition gpt_oss_aiter_mxfp4 :: "('w, 's, 'b, 'p) vendor \<Rightarrow> ('w, 's, 'b) weights \<Rightarrow> ('w, 's, 'b, 'p) converted option" where
  "gpt_oss_aiter_mxfp4 v x =
     do {
       s1 \<leftarrow> reshape_rows (length (s13 x)) (length (concat (take 1 (s13 x)))) (e8m0_shuffle v (concat (s13 x)));
       s2' \<leftarrow> reshape_rows (length (s2 x)) (length (concat (take 1 (s2 x)))) (e8m0_shuffle v (concat (s2 x)));
       let (p1, p2) = shuffle_weights v (w13 x) (w2 x);
       Some (plain_result (P p1) (P p2) (S s1) (S s2') (bias_f32 v (b13 x)) (bias_f32 v (b2 x))) }"

definition gpt_oss_aiter_bf16 :: "('w, 's, 'b, 'p) vendor \<Rightarrow> ('w, 's, 'b) weights \<Rightarrow> ('w, 's, 'b, 'p) converted option" where
  "gpt_oss_aiter_bf16 v x =
     (if \<not> pairs_fit (w13 x) \<or> \<not> pairs_fit (s13 x) \<or> (\<exists>b. b13 x = Some b \<and> \<not> pairs_fit b) then None
      else (let e = length (w13 x); w = map deinterleave (w13 x); s = map deinterleave (s13 x) in
            Some (plain_result (P (shuffle_weight_a16w4 v w 16 True)) (P (shuffle_weight_a16w4 v (w2 x) 16 False))
              (P (shuffle_scale_a16w4 v (concat s) e True)) (P (shuffle_scale_a16w4 v (concat (s2 x)) e False))
              (map_option (map deinterleave) (bias_f32 v (b13 x))) (bias_f32 v (b2 x)))))"

definition largest :: "real list \<Rightarrow> real option" where
  "largest xs = (if xs = [] then None else Some (fold max xs (hd xs)))"

definition gpt_oss_aiter_fp8 :: "('w, 's, 'b, 'p) vendor \<Rightarrow> ('w, 's, 'b) weights \<Rightarrow> ('w, 's, 'b, 'p) converted option" where
  "gpt_oss_aiter_fp8 v x =
     do {
       i13 \<leftarrow> layer_in13 x;
       i2 \<leftarrow> layer_in2 x;
       m13 \<leftarrow> largest i13;
       m2 \<leftarrow> largest i2;
       Some (swizzled_result v x (bias_f32 v (b13 x)) (Some m13) (Some m2) [''w13_weight'', ''w2_weight'']) }"

definition gpt_oss_emulation :: "('w, 's, 'b) weights \<Rightarrow> ('w, 's, 'b, 'p) converted option" where
  "gpt_oss_emulation x =
     do {
       m13 \<leftarrow> (case in13 x of None \<Rightarrow> Some None | Some i \<Rightarrow> map_option Some (largest i));
       m2 \<leftarrow> (case in2 x of None \<Rightarrow> Some None | Some i \<Rightarrow> map_option Some (largest i));
       Some ((plain_result (W (w13 x)) (W (w2 x)) (S (s13 x)) (S (s2 x)) (b13 x) (b2 x))\<lparr> new_in13 := m13, new_in2 := m2 \<rparr>) }"

definition gpt_oss_cpu :: "('w, 's, 'b, 'p) vendor \<Rightarrow> ('w, 's, 'b) weights \<Rightarrow> ('w, 's, 'b, 'p) converted" where
  "gpt_oss_cpu v x =
     (case pack_for_cpu v (w13 x) (w2 x) (s13 x) (s2 x) of (p1, p2, p3, p4) \<Rightarrow>
       plain_result (P p1) (P p2) (P p3) (P p4) (bias_f32 v (b13 x)) (bias_f32 v (b2 x)))"

definition all_layer_weights :: "string list" where
  "all_layer_weights = [''w13_weight'', ''w2_weight'', ''w13_weight_scale'', ''w2_weight_scale'']"

definition convert_gpt_oss_weight ::
  "('w, 's, 'b, 'p) vendor \<Rightarrow> mxfp4_backend \<Rightarrow> ('w, 's, 'b) weights \<Rightarrow> ('w, 's, 'b, 'p) converted option" where
  "convert_gpt_oss_weight v k x =
     (if k = DEEPGEMM_MXFP4 then Some (convert_deepgemm v x)
      else if k = HUMMING then humming_layer v ''gpt_oss_mxfp4''
      else if k \<in> {MARLIN, BATCHED_MARLIN} then marlin_layer v x
      else if k \<in> set trtllm_backends then gpt_oss_trtllm v x
      else if k \<in> {FLASHINFER_CUTLASS_MXFP4_BF16, FLASHINFER_CUTLASS_MXFP4_MXFP8}
      then gpt_oss_cutlass v (k = FLASHINFER_CUTLASS_MXFP4_MXFP8) x
      else if k = AITER_MXFP4_MXFP4 then gpt_oss_aiter_mxfp4 v x
      else if k = AITER_MXFP4_BF16 then gpt_oss_aiter_bf16 v x
      else if k = AITER_MXFP4_FP8 then gpt_oss_aiter_fp8 v x
      else if k \<in> set triton_backends
      then Some (swizzled_result v x (bias_f32 v (b13 x)) None None all_layer_weights)
      else if k = XPU then Some (plain_result (W (w13 x)) (W (w2 x)) (S (s13 x)) (S (s2 x)) (b13 x) (b2 x))
      else if k = CPU then Some (gpt_oss_cpu v x)
      else if k = EMULATION then gpt_oss_emulation x
      else None)"

section \<open>Checkpoints with the gate rows before the up rows\<close>

definition halves_fit :: "nat \<Rightarrow> 'a list list \<Rightarrow> bool" where
  "halves_fit n = list_all (\<lambda>m. length m = 2 * n)"

definition convert_bias :: "('b list \<Rightarrow> nat list) \<Rightarrow> 'b list list option \<Rightarrow> 'b list list option option" where
  "convert_bias perm b = (case b of None \<Rightarrow> Some None | Some ms \<Rightarrow> map_option Some (permute_all perm ms))"

definition trtllm_weights :: "('w, 's, 'b, 'p) vendor \<Rightarrow> ('w, 's, 'b) weights \<Rightarrow> ('w, 's, 'b, 'p) converted option" where
  "trtllm_weights v x =
     (let n = intermediate_of x; b1 = bias_f32 v (b13 x) in
      if \<not> index_cache v \<or> \<not> halves_fit n (w13 x) \<or> \<not> halves_fit n (s13 x) \<or> (\<exists>b. b1 = Some b \<and> \<not> halves_fit n b)
      then None
      else do {
        w1 \<leftarrow> permute_all (permute_w v) (map (interleave_up_gate n) (w13 x));
        s1 \<leftarrow> permute_all (permute_s v) (map (interleave_up_gate n) (s13 x));
        s1' \<leftarrow> reshape_rows (length (w13 x)) (2 * n) (nvfp4_interleave v (concat s1));
        w2' \<leftarrow> permute_all (permute_w v) (w2 x);
        s2' \<leftarrow> permute_all (permute_s v) (s2 x);
        s2'' \<leftarrow> reshape_rows (length (w13 x)) (2 * w13_cols x) (nvfp4_interleave v (concat s2'));
        b1' \<leftarrow> convert_bias (permute_b v) (map_option (map (interleave_up_gate n)) b1);
        b2' \<leftarrow> convert_bias (permute_b v) (bias_f32 v (b2 x));
        Some (plain_result (W w1) (W w2') (S s1') (S s2'') b1' b2') })"

definition aiter_bf16_weights :: "('w, 's, 'b, 'p) vendor \<Rightarrow> ('w, 's, 'b) weights \<Rightarrow> ('w, 's, 'b, 'p) converted" where
  "aiter_bf16_weights v x =
     (let e = length (w13 x) in
      (plain_result (P (aiter_shuffle_weight v (w13 x) True True)) (P (aiter_shuffle_weight v (w2 x) True False))
        (P (aiter_shuffle_scale v (concat (s13 x)) e True True)) (P (aiter_shuffle_scale v (concat (s2 x)) e True False))
        (bias_f32 v (b13 x)) (bias_f32 v (b2 x)))\<lparr> env_set := [(''AITER_BF16_FP8_MOE_BOUND'', ''0'')] \<rparr>)"

definition triton_weights :: "('w, 's, 'b, 'p) vendor \<Rightarrow> bool \<Rightarrow> ('w, 's, 'b) weights \<Rightarrow> ('w, 's, 'b, 'p) converted option" where
  "triton_weights v fused x =
     (let b1 = bias_f32 v (b13 x) in
      if \<not> fused then Some (swizzled_result v x b1 None None all_layer_weights)
      else if \<not> pairs_fit (w13 x) \<or> \<not> pairs_fit (s13 x) \<or> (\<exists>b. b1 = Some b \<and> \<not> pairs_fit b) then None
      else Some (swizzled_result v (x\<lparr> w13 := map interleave_gate_up (w13 x), s13 := map interleave_gate_up (s13 x) \<rparr>)
             (map_option (map interleave_gate_up) b1) None None all_layer_weights))"

definition convert_weight ::
  "('w, 's, 'b, 'p) vendor \<Rightarrow> mxfp4_backend \<Rightarrow> ('w, 's, 'b) weights \<Rightarrow> ('w, 's, 'b, 'p) converted option" where
  "convert_weight v k x =
     (if k = DEEPGEMM_MXFP4 then Some (convert_deepgemm v x)
      else if k = HUMMING then humming_layer v ''mxfp4''
      else if k \<in> {MARLIN, BATCHED_MARLIN} then marlin_layer v x
      else if k \<in> set trtllm_backends then trtllm_weights v x
      else if k = AITER_MXFP4_BF16 \<and> \<not> gfx1250 v then Some (aiter_bf16_weights v x)
      else if k \<in> set triton_backends \<or> k = AITER_MXFP4_BF16 then triton_weights v (k = TRITON) x
      else if k \<in> {XPU, EMULATION} then Some (plain_result (W (w13 x)) (W (w2 x)) (S (s13 x)) (S (s2 x)) (b13 x) (b2 x))
      else None)"

end
