(* ===== verification/Mxfp4Props.thy ===== *)
theory Mxfp4Props
  imports Mxfp4Layout
begin

text \<open>
  The two conversions agree: a checkpoint that interleaves the gate and up rows and one that keeps
  them in two blocks end in the same layout for the backends whose kernels serve both.
\<close>

section \<open>Orders of rows\<close>

lemma merge_append: "length xs = length ys \<Longrightarrow> length (merge_rows xs ys) = 2 * length xs"
  by (induction xs ys rule: merge_rows.induct) auto

lemma swap_merge: "length xs = length ys \<Longrightarrow> swap_every_two_rows (merge_rows xs ys) = merge_rows ys xs"
  by (induction xs ys rule: merge_rows.induct) auto

lemma every2_Cons: "every2 (y # zs) = y # every2 (tl zs)"
  by (cases zs) simp_all

lemma merge_every2: "length xs = length ys \<Longrightarrow> every2 (merge_rows xs ys) = xs \<and> every2 (tl (merge_rows xs ys)) = ys"
  by (induction xs ys rule: merge_rows.induct) (auto simp: every2_Cons)

lemma map_merge: "map f (merge_rows xs ys) = merge_rows (map f xs) (map f ys)"
  by (induction xs ys rule: merge_rows.induct) auto

lemma deinterleave_merge: "length xs = length ys \<Longrightarrow> deinterleave (merge_rows xs ys) = xs @ ys"
  by (simp add: deinterleave_def drop_Suc merge_every2)

lemma swap_halves_append: "length xs = length ys \<Longrightarrow> swap_halves (xs @ ys) = ys @ xs"
proof -
  assume "length xs = length ys"
  then have "(length (xs @ ys) + 1) div 2 = length xs" by simp
  then show ?thesis unfolding swap_halves_def Let_def by simp
qed

lemma interleave_gate_up_append: "length xs = length ys \<Longrightarrow> interleave_gate_up (xs @ ys) = merge_rows xs ys"
  by (simp add: interleave_gate_up_def)

lemma interleave_up_gate_append: "length xs = n \<Longrightarrow> interleave_up_gate n (xs @ ys) = merge_rows ys xs"
  by (simp add: interleave_up_gate_def)

section \<open>Permutations\<close>

lemma permute_all_each:
  assumes "\<And>m m'. length m = length m' \<Longrightarrow> perm m = perm m'" "list_all (\<lambda>m. length m = n) ms"
  shows "permute_all perm ms = permute_each perm ms"
proof (cases ms)
  case (Cons m0 rest)
  have "perm m0 = perm m" if "m \<in> set ms" for m
    using assms(2) Cons that by (intro assms(1)) (auto simp: list_all_iff)
  then have "those (map (\<lambda>m. gather m (perm m0)) ms) = those (map (\<lambda>m. gather m (perm m)) ms)"
    by (intro arg_cong [of _ _ those]) simp
  moreover have "permute_all perm ms = those (map (\<lambda>m. gather m (perm m0)) ms)" unfolding permute_all_def Cons by simp
  moreover have "permute_each perm ms = those (map (\<lambda>m. gather m (perm m)) ms)" unfolding permute_each_def Cons by simp
  ultimately show ?thesis by simp
qed (simp add: permute_all_def permute_each_def)

lemma permute_each_length: "permute_each perm ms = Some ms' \<Longrightarrow>
  list_all2 (\<lambda>m m'. gather m (perm m) = Some m') ms ms'"
proof (induction ms arbitrary: ms')
  case (Cons m ms)
  then show ?case by (cases "ms = []") (auto simp: permute_each_def split: option.splits)
qed (simp add: permute_each_def)

text \<open>Scales are interleaved in blocks of 128 rows.\<close>

definition blockwise :: "('s list \<Rightarrow> 's list) \<Rightarrow> bool" where
  "blockwise f \<longleftrightarrow> f [] = [] \<and> (\<forall>xs ys. 128 dvd length xs \<longrightarrow> f (xs @ ys) = f xs @ f ys)"

lemma blockwise_concat: "blockwise f \<Longrightarrow> list_all (\<lambda>m. 128 dvd length m) ms \<Longrightarrow> f (concat ms) = concat (map f ms)"
  by (induction ms) (simp_all add: blockwise_def)

lemma permute_each_rows:
  assumes "permute_each perm ms = Some ms'" "\<And>m. length (perm m) = length m" "list_all (\<lambda>m. length m = n) ms"
  shows "list_all (\<lambda>m. length m = n) ms'"
proof -
  have "list_all2 (\<lambda>m m'. length m' = length m) ms ms'"
    using permute_each_length [OF assms(1)]
    by (rule list_all2_mono) (auto simp: gather_def assms(2) split: if_splits)
  then show ?thesis using assms(3) by (induction rule: list_all2_induct) simp_all
qed

section \<open>Two checkpoints of the same weights\<close>

definition same_shape :: "nat \<Rightarrow> 'a list list \<Rightarrow> 'a list list \<Rightarrow> bool" where
  "same_shape n g u \<longleftrightarrow> length g = length u \<and> list_all (\<lambda>m. length m = n) g \<and> list_all (\<lambda>m. length m = n) u"

lemma same_shape_map: "same_shape n g u \<Longrightarrow> same_shape n (map (map f) g) (map (map f) u)"
  by (simp add: same_shape_def list_all_iff)

lemma swap_interleaved:
  assumes "same_shape n g u"
  shows "map swap_every_two_rows (map2 merge_rows g u) = map2 merge_rows u g"
proof -
  have "length g = length u" using assms by (simp add: same_shape_def)
  then show ?thesis using assms unfolding same_shape_def
    by (induction g u rule: list_induct2) (auto simp: swap_merge)
qed

lemma up_gate_blocks:
  assumes "same_shape n g u"
  shows "map (interleave_up_gate n) (map2 (@) g u) = map2 merge_rows u g"
proof -
  have "length g = length u" using assms by (simp add: same_shape_def)
  then show ?thesis using assms unfolding same_shape_def
    by (induction g u rule: list_induct2) (auto simp: interleave_up_gate_append)
qed

lemma gate_up_blocks:
  assumes "same_shape n g u"
  shows "map interleave_gate_up (map2 (@) g u) = map2 merge_rows g u"
proof -
  have "length g = length u" using assms by (simp add: same_shape_def)
  then show ?thesis using assms unfolding same_shape_def
    by (induction g u rule: list_induct2) (auto simp: interleave_gate_up_append)
qed

lemma merged_rows:
  assumes "same_shape n g u"
  shows "list_all (\<lambda>m. length m = 2 * n) (map2 merge_rows g u)" "list_all (\<lambda>m. length m = 2 * n) (map2 merge_rows u g)"
    and "list_all (\<lambda>m. length m = 2 * n) (map2 (@) g u)"
proof -
  have "length g = length u" using assms by (simp add: same_shape_def)
  then show "list_all (\<lambda>m. length m = 2 * n) (map2 merge_rows g u)" "list_all (\<lambda>m. length m = 2 * n) (map2 merge_rows u g)"
      "list_all (\<lambda>m. length m = 2 * n) (map2 (@) g u)"
    using assms unfolding same_shape_def
    by (induction g u rule: list_induct2) (auto simp: merge_append)
qed

lemma map_interleaved: "map (map f) (map2 merge_rows g u) = map2 merge_rows (map (map f) g) (map (map f) u)"
  by (simp add: map_merge zip_map_map comp_def split_beta)

lemma map_blocks: "map (map f) (map2 (@) g u) = map2 (@) (map (map f) g) (map (map f) u)"
  by (simp add: zip_map_map comp_def split_beta)

lemma even_rows: "list_all (\<lambda>m. length m = 2 * n) ms \<Longrightarrow> pairs_fit ms \<and> halves_fit n ms"
  by (auto simp: pairs_fit_def halves_fit_def list_all_iff)

text \<open>The vendor's indices depend on the shape only, and scales are interleaved block by block.\<close>

definition vendor_laws :: "('w, 's, 'b, 'p) vendor \<Rightarrow> bool" where
  "vendor_laws v \<longleftrightarrow>
     (\<forall>m m'. length m = length m' \<longrightarrow> permute_w v m = permute_w v m')
     \<and> (\<forall>m m'. length m = length m' \<longrightarrow> permute_s v m = permute_s v m')
     \<and> (\<forall>m m'. length m = length m' \<longrightarrow> permute_b v m = permute_b v m')
     \<and> (\<forall>m. length (permute_s v m) = length m) \<and> blockwise (nvfp4_interleave v)"

lemma vendor_lawsD:
  assumes "vendor_laws v"
  shows "length m = length m' \<Longrightarrow> permute_w v m = permute_w v m'"
    and "length n = length n' \<Longrightarrow> permute_s v n = permute_s v n'"
    and "length k = length k' \<Longrightarrow> permute_b v k = permute_b v k'"
    and "length (permute_s v n) = length n" and "blockwise (nvfp4_interleave v)"
  using assms unfolding vendor_laws_def by blast+

lemma interleave_scales:
  assumes "vendor_laws v" "permute_each (permute_s v) ms = Some ms'" "list_all (\<lambda>m. length m = n) ms" "128 dvd n"
  shows "nvfp4_interleave v (concat ms') = concat (map (nvfp4_interleave v) ms')"
proof -
  have "list_all (\<lambda>m. length m = n) ms'"
    by (rule permute_each_rows [OF assms(2) vendor_lawsD(4) [OF assms(1)] assms(3)])
  with assms(4) have "list_all (\<lambda>m. 128 dvd length m) ms'" by (simp add: list_all_iff)
  then show ?thesis by (rule blockwise_concat [OF vendor_lawsD(5) [OF assms(1)]])
qed

text \<open>The rest of the weights: equal rows in every expert, and 64 gate rows at least.\<close>

definition rest_fits :: "nat \<Rightarrow> ('w, 's, 'b) weights \<Rightarrow> bool" where
  "rest_fits n x \<longleftrightarrow>
     128 dvd 2 * n \<and> 128 dvd 2 * w13_cols x \<and> b2 x \<noteq> None
     \<and> list_all (\<lambda>m. length m = 2 * w13_cols x) (w2 x) \<and> list_all (\<lambda>m. length m = 2 * w13_cols x) (s2 x)
     \<and> list_all (\<lambda>m. length m = 2 * w13_cols x) (the (b2 x))"

definition interleaved_checkpoint :: "('w, 's, 'b) weights \<Rightarrow> 'w list list \<times> 'w list list \<Rightarrow> 's list list \<times> 's list list
    \<Rightarrow> 'b list list \<times> 'b list list \<Rightarrow> ('w, 's, 'b) weights" where
  "interleaved_checkpoint x w s b =
     x\<lparr> w13 := map2 merge_rows (fst w) (snd w), s13 := map2 merge_rows (fst s) (snd s),
        b13 := Some (map2 merge_rows (fst b) (snd b)) \<rparr>"

definition blocks_checkpoint :: "('w, 's, 'b) weights \<Rightarrow> 'w list list \<times> 'w list list \<Rightarrow> 's list list \<times> 's list list
    \<Rightarrow> 'b list list \<times> 'b list list \<Rightarrow> ('w, 's, 'b) weights" where
  "blocks_checkpoint x w s b =
     x\<lparr> w13 := map2 (@) (fst w) (snd w), s13 := map2 (@) (fst s) (snd s), b13 := Some (map2 (@) (fst b) (snd b)) \<rparr>"

lemma checkpoint_simps [simp]:
  "w13 (interleaved_checkpoint x w s b) = map2 merge_rows (fst w) (snd w)"
  "s13 (interleaved_checkpoint x w s b) = map2 merge_rows (fst s) (snd s)"
  "b13 (interleaved_checkpoint x w s b) = Some (map2 merge_rows (fst b) (snd b))"
  "w2 (interleaved_checkpoint x w s b) = w2 x" "s2 (interleaved_checkpoint x w s b) = s2 x"
  "b2 (interleaved_checkpoint x w s b) = b2 x" "w13_cols (interleaved_checkpoint x w s b) = w13_cols x"
  "w13 (blocks_checkpoint x w s b) = map2 (@) (fst w) (snd w)"
  "s13 (blocks_checkpoint x w s b) = map2 (@) (fst s) (snd s)"
  "b13 (blocks_checkpoint x w s b) = Some (map2 (@) (fst b) (snd b))"
  "w2 (blocks_checkpoint x w s b) = w2 x" "s2 (blocks_checkpoint x w s b) = s2 x"
  "b2 (blocks_checkpoint x w s b) = b2 x" "w13_cols (blocks_checkpoint x w s b) = w13_cols x"
  by (simp_all add: interleaved_checkpoint_def blocks_checkpoint_def)

lemma triton_agree:
  assumes "same_shape n (fst w) (snd w)" "same_shape n (fst s) (snd s)" "same_shape n (fst b) (snd b)"
  shows "convert_gpt_oss_weight v TRITON (interleaved_checkpoint x w s b) = convert_weight v TRITON (blocks_checkpoint x w s b)"
proof -
  have fit: "pairs_fit (map2 (@) (fst w) (snd w))" "pairs_fit (map2 (@) (fst s) (snd s))"
      "pairs_fit (map (map (to_f32 v)) (map2 (@) (fst b) (snd b)))"
    unfolding map_blocks
    by (rule conjunct1 [OF even_rows [OF merged_rows(3) [OF assms(1)]]]
      conjunct1 [OF even_rows [OF merged_rows(3) [OF assms(2)]]]
      conjunct1 [OF even_rows [OF merged_rows(3) [OF same_shape_map [OF assms(3)]]]])+
  have bias: "map interleave_gate_up (map (map (to_f32 v)) (map2 (@) (fst b) (snd b)))
      = map (map (to_f32 v)) (map2 merge_rows (fst b) (snd b))"
    unfolding map_blocks map_interleaved by (rule gate_up_blocks [OF same_shape_map [OF assms(3)]])
  show ?thesis
    using fit by (simp add: convert_gpt_oss_weight_def convert_weight_def triton_weights_def trtllm_backends_def
      triton_backends_def Let_def bias_f32_def swizzled_result_def
      gate_up_blocks [OF assms(1)] gate_up_blocks [OF assms(2)] bias del: map_map)
qed

lemma permute_all_law:
  assumes "vendor_laws v"
  shows "list_all (\<lambda>m. length m = n) w \<Longrightarrow> permute_all (permute_w v) w = permute_each (permute_w v) w"
    and "list_all (\<lambda>m. length m = n) s \<Longrightarrow> permute_all (permute_s v) s = permute_each (permute_s v) s"
    and "list_all (\<lambda>m. length m = n) b \<Longrightarrow> permute_all (permute_b v) b = permute_each (permute_b v) b"
  by (intro permute_all_each; use vendor_lawsD [OF assms] in blast)+

lemma intermediate_blocks:
  assumes "same_shape n (fst w) (snd w)" "fst w \<noteq> []"
  shows "intermediate_of (blocks_checkpoint x w s b) = n" "intermediate_of (interleaved_checkpoint x w s b) = n"
proof -
  obtain g gs u us where w: "fst w = g # gs" "snd w = u # us" "length g = n" "length u = n"
    using assms by (cases "fst w"; cases "snd w") (auto simp: same_shape_def)
  then show "intermediate_of (blocks_checkpoint x w s b) = n" "intermediate_of (interleaved_checkpoint x w s b) = n"
    by (simp_all add: intermediate_of_def blocks_checkpoint_def interleaved_checkpoint_def merge_append)
qed

lemma trtllm_agree:
  assumes v: "vendor_laws v" and fit: "rest_fits n x" and ne: "fst w \<noteq> []"
    and w: "same_shape n (fst w) (snd w)" and s: "same_shape n (fst s) (snd s)" and b: "same_shape n (fst b) (snd b)"
  shows "gpt_oss_trtllm v (interleaved_checkpoint x w s b) = trtllm_weights v (blocks_checkpoint x w s b)"
proof -
  let ?f = "map (map (to_f32 v))"
  obtain c where c: "b2 x = Some c" using fit by (auto simp: rest_fits_def)
  have bf: "same_shape n (?f (fst b)) (?f (snd b))" by (rule same_shape_map [OF b])
  have rest: "list_all (\<lambda>m. length m = 2 * w13_cols x) (w2 x)" "list_all (\<lambda>m. length m = 2 * w13_cols x) (s2 x)"
      "list_all (\<lambda>m. length m = 2 * w13_cols x) (?f c)" "128 dvd 2 * n" "128 dvd 2 * w13_cols x"
    using fit by (auto simp: rest_fits_def c list_all_iff)
  note all = permute_all_law [OF v]
  note fits = even_rows [OF merged_rows(1) [OF w]] even_rows [OF merged_rows(1) [OF s]] even_rows [OF merged_rows(1) [OF bf]]
    even_rows [OF merged_rows(3) [OF w]] even_rows [OF merged_rows(3) [OF s]] even_rows [OF merged_rows(3) [OF bf]]
  define w1 where "w1 = permute_each (permute_w v) (map2 merge_rows (snd w) (fst w))"
  define s1 where "s1 = permute_each (permute_s v) (map2 merge_rows (snd s) (fst s))"
  define b1 where "b1 = permute_each (permute_b v) (map2 merge_rows (?f (snd b)) (?f (fst b)))"
  define w2' where "w2' = permute_each (permute_w v) (w2 x)"
  define s2' where "s2' = permute_each (permute_s v) (s2 x)"
  define b2' where "b2' = permute_each (permute_b v) (?f c)"
  have i1: "nvfp4_interleave v (concat ms) = concat (map (nvfp4_interleave v) ms)" if "s1 = Some ms" for ms
    using interleave_scales [OF v _ merged_rows(2) [OF s] rest(4)] that by (simp add: s1_def)
  have i2: "nvfp4_interleave v (concat ms) = concat (map (nvfp4_interleave v) ms)" if "s2' = Some ms" for ms
    using interleave_scales [OF v _ rest(2,5)] that by (simp add: s2'_def)
  let ?e = "min (length (fst w)) (length (snd w))"
  define result where "result = do {
      w \<leftarrow> w1; s \<leftarrow> s1; b \<leftarrow> b1; w2 \<leftarrow> w2'; s2 \<leftarrow> s2'; b2 \<leftarrow> b2';
      s' \<leftarrow> reshape_rows ?e (2 * n) (concat (map (nvfp4_interleave v) s));
      s2'' \<leftarrow> reshape_rows ?e (2 * w13_cols x) (concat (map (nvfp4_interleave v) s2));
      Some (plain_result (W w) (W w2) (S s') (S s2'') (Some b) (Some b2)) :: ('a, 'b, 'c, 'd) converted option }"
  have "gpt_oss_trtllm v (interleaved_checkpoint x w s b) = (if index_cache v then result else None)"
    using fits c
    by (simp add: gpt_oss_trtllm_def intermediate_blocks [OF w ne] bias_f32_def result_def
      map_interleaved swap_interleaved [OF w] swap_interleaved [OF s] swap_interleaved [OF bf]
      w1_def s1_def b1_def w2'_def s2'_def b2'_def del: map_map)
  moreover have "trtllm_weights v (blocks_checkpoint x w s b) = (if index_cache v then result else None)"
    using fits c i1 i2
    by (simp add: trtllm_weights_def intermediate_blocks [OF w ne] Let_def bias_f32_def result_def convert_bias_def map_blocks
      up_gate_blocks [OF w] up_gate_blocks [OF s] up_gate_blocks [OF bf] all(1) [OF merged_rows(2) [OF w]]
      all(2) [OF merged_rows(2) [OF s]] all(3) [OF merged_rows(2) [OF bf]] all(1) [OF rest(1)] all(2) [OF rest(2)] all(3) [OF rest(3)]
      w1_def [symmetric] s1_def [symmetric] b1_def [symmetric] w2'_def [symmetric] s2'_def [symmetric] b2'_def [symmetric]
      del: map_map split: Option.bind_split)
  ultimately show ?thesis by simp
qed

section \<open>Properties\<close>


definition demo_vendor :: "(nat, nat, nat, unit) vendor" where
  "demo_vendor = \<lparr> to_f32 = id, to_bf16 = id, permute_w = (\<lambda>m. rev [0..<length m]), permute_s = (\<lambda>m. rev [0..<length m]),
     permute_b = (\<lambda>m. rev [0..<length m]), nvfp4_interleave = id, block_interleave = id, sm90_weights = (\<lambda>w. ()),
     sm90_scales = (\<lambda>s. ()), deepgemm_scale = (\<lambda>s a b c d. ()), marlin_layer = (\<lambda>x. None),
     humming_layer = (\<lambda>n. None), e8m0_shuffle = id, shuffle_weights = (\<lambda>a b. ((), ())),
     shuffle_weight_a16w4 = (\<lambda>w n b. ()), shuffle_scale_a16w4 = (\<lambda>s n b. ()), aiter_shuffle_weight = (\<lambda>w a b. ()),
     aiter_shuffle_scale = (\<lambda>s n a b. ()), swizzle_mxfp4 = (\<lambda>w s. ((), (), ())), precision_config = (\<lambda>s f l. ()),
     pack_for_cpu = (\<lambda>a b c d. ((), (), (), ())), gfx1250 = False, index_cache = True \<rparr>"

definition demo_weights :: "(nat, nat, nat) weights" where
  "demo_weights = \<lparr> w13 = [], w2 = [replicate 128 1], s13 = [], s2 = [replicate 128 2], b13 = None,
     b2 = Some [replicate 128 3], w13_cols = 64, w2_cols = 32, in13 = None, in2 = None, layer_in13 = None,
     layer_in2 = None \<rparr>"


text \<open>
  Remark: the CUTLASS conversion leaves the up rows before the gate rows, for the weights, the
  scales and the biases alike, so a row keeps its scale and its bias.
\<close>

lemma cutlass_order:
  assumes "same_shape n g u"
  shows "map deinterleave_and_swap (map2 merge_rows g u) = map2 (@) u g"
proof -
  have "length g = length u" using assms by (simp add: same_shape_def)
  then show ?thesis using assms unfolding same_shape_def
    by (induction g u rule: list_induct2) (auto simp: deinterleave_and_swap_def deinterleave_merge swap_halves_append)
qed

text \<open>
  Remark: the conversion for two-block checkpoints refuses backends that the selection can return for
  an explicit request, CPU among them.
\<close>

lemma convert_weight_refuses:
  "k \<in> {CPU, AITER_MXFP4_FP8, AITER_MXFP4_MXFP4, FLASHINFER_CUTLASS_MXFP4_BF16, FLASHINFER_CUTLASS_MXFP4_MXFP8} \<Longrightarrow>
   convert_weight v k x = None"
  by (auto simp: convert_weight_def trtllm_backends_def triton_backends_def)

lemma explicit_cpu_selected:
  assumes "moe_backend d = ''cpu''" "supports d None CPUExpertsMxfp4"
  shows "select_deepseek_v4_mxfp4_moe_backend d = Inr (CPU, CPUExpertsMxfp4)"
  using assms
  by (simp add: select_deepseek_v4_mxfp4_moe_backend_def map_mxfp4_backend_def backend_names_def batched_variant_def
    return_or_raise_def)

end
