(* ===== verification/TensorOps.thy ===== *)
theory TensorOps
  imports Prelude
begin

text \<open>
  Operations on integer tensors as lists, for the host code and the kernels around attention:
  cumulative sums and their differences, repetition, and the positions that a masked loop visits.
\<close>

section \<open>Integer tensors\<close>

fun cumsum_from :: "nat \<Rightarrow> nat list \<Rightarrow> nat list" where
  "cumsum_from a [] = []"
| "cumsum_from a (x # xs) = (a + x) # cumsum_from (a + x) xs"

text \<open>\<open>cat([0, xs.cumsum(0)])\<close>, and the differences of neighbours.\<close>

definition indptr_of :: "nat list \<Rightarrow> nat list" where
  "indptr_of xs = 0 # cumsum_from 0 xs"

fun diffs :: "nat list \<Rightarrow> nat list" where
  "diffs (a # b # xs) = (b - a) # diffs (b # xs)"
| "diffs xs = []"

definition repeat_interleave :: "'a list \<Rightarrow> nat list \<Rightarrow> 'a list" where
  "repeat_interleave xs ns = concat (map2 (\<lambda>x n. replicate n x) xs ns)"

text \<open>\<open>arange(0, k * step, step)\<close>.\<close>

definition arange_steps :: "nat \<Rightarrow> nat \<Rightarrow> nat list" where
  "arange_steps k step = map (\<lambda>i. i * step) [0..<k]"

section \<open>Cumulative sums\<close>

lemma length_cumsum [simp]: "length (cumsum_from a xs) = length xs"
  by (induction xs arbitrary: a) simp_all

lemma nth_cumsum: "i < length xs \<Longrightarrow> cumsum_from a xs ! i = a + sum_list (take (Suc i) xs)"
  by (induction xs arbitrary: a i) (auto simp: nth_Cons split: nat.split)

lemma indptr_nth: "i \<le> length xs \<Longrightarrow> indptr_of xs ! i = sum_list (take i xs)"
  by (cases i) (simp_all add: indptr_of_def nth_cumsum)

lemma length_indptr [simp]: "length (indptr_of xs) = Suc (length xs)"
  by (simp add: indptr_of_def)

lemma diffs_cumsum: "diffs (a # cumsum_from a xs) = xs"
  by (induction xs arbitrary: a) simp_all

lemma diffs_indptr [simp]: "diffs (indptr_of xs) = xs"
  by (simp add: indptr_of_def diffs_cumsum)

lemma last_indptr: "last (indptr_of xs) = sum_list xs"
proof -
  have "indptr_of xs \<noteq> []" by (simp add: indptr_of_def)
  then have "last (indptr_of xs) = indptr_of xs ! (length (indptr_of xs) - 1)" by (rule last_conv_nth)
  then show ?thesis by (simp add: indptr_nth)
qed

lemma indptr_step: "r < length ls \<Longrightarrow> indptr_of ls ! Suc r = indptr_of ls ! r + ls ! r"
  by (simp add: indptr_nth take_Suc_conv_app_nth)

lemma indptr_mono:
  assumes "r < r'" "r' \<le> length ls"
  shows "indptr_of ls ! r + ls ! r \<le> indptr_of ls ! r'"
proof -
  have "take (Suc r) ls @ take (r' - Suc r) (drop (Suc r) ls) = take r' ls"
    using assms by (simp add: take_add [symmetric])
  then have "sum_list (take (Suc r) ls) \<le> sum_list (take r' ls)"
    by (metis le_add1 sum_list_append)
  then show ?thesis using assms by (simp add: indptr_nth take_Suc_conv_app_nth)
qed

text \<open>Two places of two rows are never the same address.\<close>

lemma places_differ:
  assumes "r < length ls" "r' < length ls" "k < ls ! r" "k' < ls ! r'" "indptr_of ls ! r' + k' = indptr_of ls ! r + k"
  shows "r' = r \<and> k' = k"
proof (cases r r' rule: linorder_cases)
  case less
  then show ?thesis using indptr_mono [OF less, of ls] assms by linarith
next
  case greater
  then show ?thesis using indptr_mono [OF greater, of ls] assms by linarith
qed (use assms in simp)

text \<open>Every place of the concatenation is one place of one part.\<close>

lemma concat_place:
  assumes "i < length xss" "j < length (xss ! i)"
  shows "sum_list (take i (map length xss)) + j < length (concat xss)"
    and "concat xss ! (sum_list (take i (map length xss)) + j) = xss ! i ! j"
  using assms
proof (induction xss arbitrary: i)
  case (Cons xs xss)
  {
    case 1
    then show ?case using Cons(1) [of "i - 1"] by (cases i) auto
  next
    case 2
    then show ?case using Cons(2) [of "i - 1"] by (cases i) (auto simp: nth_append add.assoc)
  }
qed simp_all

lemma sum_place:
  fixes ns :: "nat list"
  assumes "t < sum_list ns"
  obtains i j where "i < length ns" "j < ns ! i" "t = sum_list (take i ns) + j"
proof -
  have "\<exists>i j. i < length ns \<and> j < ns ! i \<and> t = sum_list (take i ns) + j"
    using assms
  proof (induction ns arbitrary: t)
    case (Cons n ns)
    show ?case
    proof (cases "t < n")
      case True
      then show ?thesis by (intro exI [of _ 0] exI [of _ t]) simp
    next
      case False
      then have "t - n < sum_list ns" using Cons.prems by simp
      then obtain i j where "i < length ns" "j < ns ! i" "t - n = sum_list (take i ns) + j" using Cons.IH by blast
      then show ?thesis using False by (intro exI [of _ "Suc i"] exI [of _ j]) simp
    qed
  qed simp
  then show thesis using that by blast
qed

section \<open>Loops with masked lanes\<close>

lemma fold_masked: "fold (\<lambda>tok p. if tok < n then g tok p else p) toks pages = fold g (filter (\<lambda>tok. tok < n) toks) pages"
  by (induction toks arbitrary: pages) simp_all

lemma upt_split: "a \<le> m \<Longrightarrow> m \<le> b \<Longrightarrow> [a..<b] = [a..<m] @ [m..<b]"
  using upt_add_eq_append [of a m "b - m"] by simp

text \<open>The positions that a loop with step \<open>B\<close> and masked lanes visits.\<close>

lemma chunks_cover_from:
  assumes "0 < B"
  shows "concat (map (\<lambda>j. filter (\<lambda>x. x < n) [lo + j * B..<lo + j * B + B]) [0..<k]) = [lo..<min n (lo + k * B)]"
proof (induction k)
  case (Suc k)
  let ?a = "lo + k * B"
  have "filter (\<lambda>x. x < n) [?a..<?a + B] = [?a..<min n (?a + B)]"
  proof (cases "?a \<le> n")
    case True
    define m where "m = min n (?a + B)"
    have "[?a..<?a + B] = [?a..<m] @ [m..<?a + B]"
      using True by (intro upt_split) (auto simp: m_def)
    moreover have "filter (\<lambda>x. x < n) [?a..<m] = [?a..<m]" by (simp add: m_def filter_id_conv)
    moreover have "filter (\<lambda>x. x < n) [m..<?a + B] = []" by (auto simp: m_def filter_empty_conv)
    ultimately show ?thesis by (simp add: m_def)
  qed (auto simp: filter_empty_conv)
  moreover have "[lo..<min n ?a] @ [?a..<min n (?a + B)] = [lo..<min n (?a + B)]"
    using upt_split [of lo ?a "min n (?a + B)"] by (cases "?a \<le> n") (auto simp: min_def)
  ultimately show ?case using Suc by (simp add: algebra_simps)
qed simp

lemma chunks_cover:
  "0 < B \<Longrightarrow> concat (map (\<lambda>j. filter (\<lambda>x. x < n) [j * B..<j * B + B]) [0..<k]) = [0..<min n (k * B)]"
  using chunks_cover_from [of B n 0 k] by simp

text \<open>Enough steps to reach the end.\<close>

lemma chunk_count: "0 < B \<Longrightarrow> n \<le> (n + B - 1) div B * (B :: nat)"
  using div_mult_mod_eq [of "n + B - 1" B] mod_less_divisor [of B "n + B - 1"] by linarith

lemma fold_concat: "fold (\<lambda>j. fold g (xs j)) js s = fold g (concat (map xs js)) s"
  by (induction js arbitrary: s) simp_all

end
