(* ===== verification/MlaDecode.thy ===== *)
theory MlaDecode
  imports TensorOps
begin

text \<open>
  The decode metadata of the latent attention backend and the expansion of a verification step into
  causal rows (\<open>src/patches/rocm_aiter_mla.dspark-causal.py\<close>).  Integer tensors are lists, and the
  kernel that expands page indices is a loop over its programs, as their stores do not overlap.
  Lengths are below \<open>2 ^ 31\<close>, so 32-bit tensors hold them.  The attention kernels, the persistent
  scheduling data and the projections are not modelled.
\<close>

section \<open>Padded verification steps\<close>

text \<open>
  The query length to pad every request to, or 0.  The steps of the code in order: no requests or
  tokens; nothing to pad; no common length; a length of one; no request without tokens; a request
  of another length; a request with tokens after one without.
\<close>

definition uniform_padded_mtp_qo_len :: "nat list \<Rightarrow> nat \<Rightarrow> nat \<Rightarrow> nat" where
  "uniform_padded_mtp_qo_len qo max_qo tokens =
     (let n = length qo; u = tokens div n; pos = filter (\<lambda>q. q > 0) qo in
      if n = 0 \<or> tokens = 0 then 0
      else if tokens \<le> sum_list qo then 0
      else if tokens mod n \<noteq> 0 then 0
      else if u \<le> 1 then 0
      else if length pos = n then 0
      else if pos \<noteq> [] \<and> (max_qo \<noteq> u \<or> \<not> list_all (\<lambda>q. q = u) pos) then 0
      else if list_ex (\<lambda>q. q > 0) (dropWhile (\<lambda>q. q > 0) qo) then 0
      else u)"

section \<open>The page index kernel\<close>

definition kernel_block :: nat where "kernel_block = 1024"

definition flat_index :: "nat \<Rightarrow> int list \<Rightarrow> nat \<Rightarrow> int" where
  "flat_index K row tok = row ! (tok div K) * int K + int (tok mod K)"

text \<open>One step of the loop of a program: the lanes below \<open>n\<close> store.\<close>

definition expand_chunk :: "nat \<Rightarrow> int list \<Rightarrow> nat \<Rightarrow> nat \<Rightarrow> nat \<Rightarrow> int list \<Rightarrow> int list" where
  "expand_chunk K row start n i pages =
     fold (\<lambda>tok p. if tok < n then p[start + tok := flat_index K row tok] else p) [i..<i + kernel_block] pages"

definition expand_request :: "nat \<Rightarrow> int list \<Rightarrow> nat \<Rightarrow> nat \<Rightarrow> int list \<Rightarrow> int list" where
  "expand_request K row start n pages =
     fold (\<lambda>j. expand_chunk K row start n (j * kernel_block)) [0..<(n + kernel_block - 1) div kernel_block] pages"

definition expand_page_indices :: "nat \<Rightarrow> int list list \<Rightarrow> nat list \<Rightarrow> nat list \<Rightarrow> int list \<Rightarrow> int list" where
  "expand_page_indices K table indptr lens pages =
     fold (\<lambda>r. expand_request K (table ! r) (indptr ! r) (lens ! r)) [0..<length lens] pages"

section \<open>The builder\<close>

record mla_builder =
  num_heads :: nat
  kernel_block_size :: nat
  full_graphs :: bool
  mtp_decode_qlen :: nat
  page_buffer :: "int list"
  indptr_buffer :: "nat list"
  qo_buffer :: "nat list"

record decode_metadata =
  dm_seq_lens :: "nat list"
  dm_indptr :: "nat list"
  dm_pages :: "int list"
  dm_qo_indptr :: "nat list"
  dm_max_qo_len :: nat
  dm_gluon :: bool
  dm_persistent :: bool

definition min_mla_heads :: nat where "min_mla_heads = 16"

definition is_valid_num_heads :: "nat \<Rightarrow> bool" where
  "is_valid_num_heads h \<longleftrightarrow> h > 0 \<and> (h < min_mla_heads \<or> h mod min_mla_heads = 0)"

definition use_gluon_decode :: "nat \<Rightarrow> nat \<Rightarrow> bool" where
  "use_gluon_decode h max_qo \<longleftrightarrow> h < min_mla_heads \<and> max_qo = 1"

definition get_actual_mla_num_heads :: "nat \<Rightarrow> nat" where
  "get_actual_mla_num_heads h = max h min_mla_heads"

text \<open>Heads of one row, repeated to fill the kernel and taken back by their stride.\<close>

definition get_mla_padded_q :: "nat \<Rightarrow> 'a list \<Rightarrow> 'a list" where
  "get_mla_padded_q h q =
     (if h \<ge> min_mla_heads then q else concat (map (replicate (min_mla_heads div h)) q))"

fun every_nth :: "nat \<Rightarrow> 'a list \<Rightarrow> 'a list" where
  "every_nth k [] = []"
| "every_nth k (x # xs) = x # every_nth k (drop (k - 1) xs)"

definition get_mla_unpadded_o :: "nat \<Rightarrow> 'a list \<Rightarrow> 'a list" where
  "get_mla_unpadded_o h q = (if h \<ge> min_mla_heads then q else every_nth (min_mla_heads div h) q)"

text \<open>What a copy into the front of a persistent buffer leaves, the rest filled with the last entry.\<close>

definition buffer_copy :: "nat list \<Rightarrow> nat list \<Rightarrow> nat list" where
  "buffer_copy buf xs = xs @ replicate (length buf - length xs) (last xs)"

definition seq_lens_for_kernel :: "nat list \<Rightarrow> nat list \<Rightarrow> nat \<Rightarrow> nat list" where
  "seq_lens_for_kernel qo lens max_qo = map2 (\<lambda>q n. if q > 0 then n else max_qo) qo lens"

definition qo_indptr_src :: "bool \<Rightarrow> nat list \<Rightarrow> nat \<Rightarrow> nat \<Rightarrow> nat list" where
  "qo_indptr_src pad starts n max_qo = (if pad then arange_steps (n + 1) max_qo else take (n + 1) starts)"

text \<open>\<^term>\<open>None\<close>: the maximum over no requests raises.\<close>

definition build_decode ::
  "mla_builder \<Rightarrow> int list list \<Rightarrow> nat list \<Rightarrow> nat list \<Rightarrow> nat \<Rightarrow> (decode_metadata \<times> mla_builder) option" where
  "build_decode b table lens starts tokens =
     (let qo = diffs starts; n = length lens in
      if qo = [] then None
      else
        (let padded = uniform_padded_mtp_qo_len qo (Max (set qo)) tokens;
             pad = padded > 0;
             max_qo = (if pad then padded else Max (set qo));
             lens' = (if pad then seq_lens_for_kernel qo lens max_qo else lens);
             indptr = indptr_of lens';
             pages0 = (if full_graphs b then map (\<lambda>_. -1) (page_buffer b) else page_buffer b);
             pages = expand_page_indices (kernel_block_size b) table indptr lens' pages0;
             b1 = b\<lparr> page_buffer := pages \<rparr>;
             src = (if \<not> full_graphs b \<and> max_qo = 1 then [0..<n + 1] else qo_indptr_src pad starts n max_qo);
             b2 = (if full_graphs b
                   then b1\<lparr> indptr_buffer := buffer_copy (indptr_buffer b) indptr,
                            qo_buffer := buffer_copy (qo_buffer b) src \<rparr> else b1)
         in Some (\<lparr> dm_seq_lens = lens', dm_indptr = indptr, dm_pages = pages, dm_qo_indptr = src,
                dm_max_qo_len = max_qo, dm_gluon = use_gluon_decode (num_heads b) max_qo,
                dm_persistent = (num_heads b \<ge> min_mla_heads \<and> max_qo \<ge> 1 \<and> max_qo \<le> mtp_decode_qlen b) \<rparr>, b2)))"

section \<open>Rows of a verification step\<close>

text \<open>The lengths of all rows: token \<open>t\<close> of a request sees all but the last \<open>qlen - 1 - t\<close> entries.\<close>

definition causal_row_lengths :: "nat \<Rightarrow> nat list \<Rightarrow> nat list" where
  "causal_row_lengths qlen lens =
     concat (map (\<lambda>n. map (\<lambda>t. nat (int n - (int qlen - 1) + int t)) [0..<qlen]) lens)"

definition gather_pages :: "int list \<Rightarrow> nat list \<Rightarrow> int list option" where
  "gather_pages pages src = (if list_all (\<lambda>i. i < length pages) src then Some (map (\<lambda>i. pages ! i) src) else None)"

text \<open>The page table and the row starts that the kernel is given.\<close>

definition flatten_verify_rows :: "nat \<Rightarrow> decode_metadata \<Rightarrow> (nat list \<times> int list) option" where
  "flatten_verify_rows qlen d =
     (let old = dm_indptr d; per_req = diffs old;
          row_req = repeat_interleave [0..<length per_req] (replicate (length per_req) qlen);
          row_len = causal_row_lengths qlen per_req;
          new = indptr_of row_len;
          total = last new;
          inside = map2 (-) [0..<total] (repeat_interleave (butlast new) row_len);
          src = map2 (+) (repeat_interleave (map (\<lambda>r. old ! r) row_req) row_len) inside
      in map_option (Pair new) (gather_pages (dm_pages d) src))"

datatype decode_path = Gluon_rows | Flattened_rows | Padded_kernel bool

text \<open>The path a step takes; the padded kernel clears its output where it has no persistent data.\<close>

definition forward_path :: "nat \<Rightarrow> decode_metadata \<Rightarrow> decode_path" where
  "forward_path h d =
     (if dm_gluon d then Gluon_rows
      else if h < min_mla_heads \<and> dm_max_qo_len d > 1 then Flattened_rows
      else Padded_kernel (dm_max_qo_len d > 1 \<and> \<not> dm_persistent d))"

section \<open>What the page index kernel writes\<close>

lemma fold_write:
  "start + n \<le> length pages \<Longrightarrow>
   fold (\<lambda>tok p. p[start + tok := f tok]) [0..<n] pages = take start pages @ map f [0..<n] @ drop (start + n) pages"
proof (induction n)
  case (Suc n)
  then have "start + n < length pages" by simp
  with Suc show ?case by (simp add: list_update_append Cons_nth_drop_Suc [symmetric])
qed simp

lemma expand_request_writes:
  assumes "start + n \<le> length pages"
  shows "expand_request K row start n pages =
    take start pages @ map (flat_index K row) [0..<n] @ drop (start + n) pages"
proof -
  let ?B = kernel_block
  let ?g = "\<lambda>tok p. p[start + tok := flat_index K row tok]"
  have B: "0 < ?B" by (simp add: kernel_block_def)
  have "n \<le> (n + ?B - 1) div ?B * ?B"
    using div_mult_mod_eq [of "n + ?B - 1" ?B] mod_less_divisor [OF B, of "n + ?B - 1"] B by linarith
  then have toks: "concat (map (\<lambda>j. filter (\<lambda>x. x < n) [j * ?B..<j * ?B + ?B]) [0..<(n + ?B - 1) div ?B]) = [0..<n]"
    unfolding chunks_cover [OF B] by (simp add: min_absorb1)
  have "expand_request K row start n pages = fold ?g [0..<n] pages"
    unfolding expand_request_def expand_chunk_def fold_masked fold_concat toks ..
  also have "\<dots> = take start pages @ map (flat_index K row) [0..<n] @ drop (start + n) pages"
    by (rule fold_write [OF assms])
  finally show ?thesis .
qed

text \<open>The pages of all requests, one after the other.\<close>

definition all_pages :: "nat \<Rightarrow> int list list \<Rightarrow> nat list \<Rightarrow> int list list" where
  "all_pages K table lens = map (\<lambda>r. map (flat_index K (table ! r)) [0..<lens ! r]) [0..<length lens]"

lemma length_concat_pages: "length (concat (all_pages K table lens)) = sum_list lens"
proof -
  have "map length (all_pages K table lens) = lens"
    by (simp add: all_pages_def comp_def map_nth)
  then show ?thesis by (simp add: length_concat)
qed

lemma expand_page_indices_writes:
  assumes "sum_list lens \<le> length pages"
  shows "expand_page_indices K table (indptr_of lens) lens pages =
    concat (all_pages K table lens) @ drop (sum_list lens) pages"
proof -
  have "fold (\<lambda>r. expand_request K (table ! r) (indptr_of lens ! r) (lens ! r)) [0..<k] pages =
      concat (map (\<lambda>r. map (flat_index K (table ! r)) [0..<lens ! r]) [0..<k]) @ drop (sum_list (take k lens)) pages"
    if "k \<le> length lens" for k
    using that
  proof (induction k)
    case (Suc k)
    let ?done = "concat (map (\<lambda>r. map (flat_index K (table ! r)) [0..<lens ! r]) [0..<k])"
    let ?rest = "drop (sum_list (take k lens)) pages"
    have k: "k < length lens" using Suc.prems by simp
    have sum: "sum_list (take (Suc k) lens) = sum_list (take k lens) + lens ! k" using k by (simp add: take_Suc_conv_app_nth)
    have "sum_list (take (Suc k) lens) \<le> sum_list lens"
      by (metis append_take_drop_id le_add1 sum_list_append)
    then have fits: "sum_list (take k lens) + lens ! k \<le> length pages" using assms sum by simp
    have "map length (map (\<lambda>r. map (flat_index K (table ! r)) [0..<lens ! r]) [0..<k]) = take k lens"
      using k by (intro nth_equalityI) simp_all
    then have len: "length ?done = sum_list (take k lens)" by (simp add: length_concat)
    have ptr: "indptr_of lens ! k = length ?done" using k len by (simp add: indptr_nth)
    have "expand_request K (table ! k) (length ?done) (lens ! k) (?done @ ?rest) =
        take (length ?done) (?done @ ?rest) @ map (flat_index K (table ! k)) [0..<lens ! k]
          @ drop (length ?done + lens ! k) (?done @ ?rest)"
      using fits len by (intro expand_request_writes) simp
    also have "\<dots> = ?done @ map (flat_index K (table ! k)) [0..<lens ! k] @ drop (sum_list (take (Suc k) lens)) pages"
      using len sum by (simp add: add.commute)
    finally show ?case using Suc ptr by simp
  qed simp
  from this [of "length lens"] show ?thesis by (simp add: expand_page_indices_def all_pages_def)
qed

end
