(* ===== verification/MlaCausal.thy ===== *)
theory MlaCausal
  imports MlaDecode
begin

text \<open>
  The rows of a verification step are causal: each of them is given exactly the pages of the
  positions that its token may see.  Padding a step keeps the query starts of the real requests.
\<close>

section \<open>Gathering rows\<close>

lemma inside_rows:
  "map2 (-) [a..<a + sum_list ls] (repeat_interleave (butlast (a # cumsum_from a ls)) ls) = concat (map (\<lambda>l. [0..<l]) ls)"
proof (induction ls arbitrary: a)
  case (Cons l ls)
  have split: "[a..<a + sum_list (l # ls)] = [a..<a + l] @ [a + l..<a + l + sum_list ls]"
    using upt_split [of a "a + l" "a + l + sum_list ls"] by (simp add: add.assoc)
  have head: "map2 (-) [a..<a + l] (replicate l a) = [0..<l]"
    by (intro nth_equalityI) simp_all
  have "butlast (a # cumsum_from a (l # ls)) = a # butlast ((a + l) # cumsum_from (a + l) ls)" by simp
  then have "repeat_interleave (butlast (a # cumsum_from a (l # ls))) (l # ls) =
      replicate l a @ repeat_interleave (butlast ((a + l) # cumsum_from (a + l) ls)) ls"
    by (simp add: repeat_interleave_def)
  then show ?case unfolding split using head Cons [of "a + l"] by simp
qed (simp add: repeat_interleave_def)

lemma source_rows:
  "length xs = length ls \<Longrightarrow>
   map2 (+) (repeat_interleave xs ls) (concat (map (\<lambda>l. [0..<l]) ls)) = concat (map2 (\<lambda>x l. [x..<x + l]) xs ls)"
proof (induction xs ls rule: list_induct2)
  case (Cons x xs l ls)
  have "map2 (+) (replicate l x) [0..<l] = [x..<x + l]" by (intro nth_equalityI) simp_all
  with Cons show ?case by (simp add: repeat_interleave_def)
qed (simp add: repeat_interleave_def)

lemma slice_concat:
  "j < length xss \<Longrightarrow> take (length (xss ! j)) (drop (sum_list (map length (take j xss))) (concat xss)) = xss ! j"
proof (induction xss arbitrary: j)
  case (Cons xs xss)
  then show ?case by (cases j) simp_all
qed simp

text \<open>What a row table lists for row \<open>j\<close>.\<close>

definition row_pages :: "nat list \<times> int list \<Rightarrow> nat \<Rightarrow> int list" where
  "row_pages t j = take (fst t ! Suc j - fst t ! j) (drop (fst t ! j) (snd t))"

lemma row_of_concat:
  assumes "map length xss = ls" "j < length xss"
  shows "row_pages (indptr_of ls, concat xss) j = xss ! j"
proof -
  have j: "j < length ls" using assms by auto
  have "indptr_of ls ! j = sum_list (map length (take j xss))" using assms(1) j by (simp add: indptr_nth take_map [symmetric])
  moreover have "indptr_of ls ! Suc j - indptr_of ls ! j = length (xss ! j)"
    using assms j by (auto simp: indptr_nth take_Suc_conv_app_nth)
  ultimately show ?thesis using slice_concat [OF assms(2)] by (simp add: row_pages_def)
qed

section \<open>The rows of the requests\<close>

text \<open>Where the row of token \<open>t\<close> of request \<open>r\<close> starts and how many entries it has.\<close>

definition rows_of :: "nat \<Rightarrow> nat list \<Rightarrow> (nat \<times> nat) list" where
  "rows_of qlen lens =
     concat (map (\<lambda>r. map (\<lambda>t. (indptr_of lens ! r, nat (int (lens ! r) - (int qlen - 1) + int t))) [0..<qlen])
       [0..<length lens])"

lemma concat_map_nth: "concat (map f xs) = concat (map (\<lambda>r. f (xs ! r)) [0..<length xs])"
proof -
  have "map f xs = map (\<lambda>r. f (xs ! r)) [0..<length xs]" by (intro nth_equalityI) simp_all
  then show ?thesis by simp
qed

lemma rows_lengths: "map snd (rows_of qlen lens) = causal_row_lengths qlen lens"
  unfolding causal_row_lengths_def concat_map_nth [of _ lens] rows_of_def map_concat by (simp add: comp_def)

lemma repeat_constant: "repeat_interleave xs (replicate (length xs) q) = concat (map (replicate q) xs)"
  by (induction xs) (simp_all add: repeat_interleave_def)

lemma map_const_replicate: "map (\<lambda>t. c) [0..<q] = replicate q c"
  by (simp add: map_replicate_const)

lemma rows_starts: "map fst (rows_of qlen lens) =
  map (\<lambda>r. indptr_of lens ! r) (repeat_interleave [0..<length lens] (replicate (length lens) qlen))"
proof -
  have "repeat_interleave [0..<length lens] (replicate (length lens) qlen) = concat (map (replicate qlen) [0..<length lens])"
    using repeat_constant [of "[0..<length lens]" qlen] by simp
  then show ?thesis by (simp add: rows_of_def map_concat comp_def map_const_replicate)
qed

lemma rows_nth:
  assumes "r < length lens" "t < qlen"
  shows "r * qlen + t < length (rows_of qlen lens)"
    and "rows_of qlen lens ! (r * qlen + t) = (indptr_of lens ! r, nat (int (lens ! r) - (int qlen - 1) + int t))"
proof -
  let ?row = "\<lambda>r. map (\<lambda>t. (indptr_of lens ! r, nat (int (lens ! r) - (int qlen - 1) + int t))) [0..<qlen]"
  have split: "[0..<length lens] = [0..<r] @ r # [Suc r..<length lens]"
    using assms(1) upt_split [of 0 r "length lens"] by (simp add: upt_conv_Cons)
  have pre: "length (concat (map ?row [0..<r])) = r * qlen" by (induction r) simp_all
  have rows: "rows_of qlen lens = concat (map ?row [0..<r]) @ ?row r @ concat (map ?row [Suc r..<length lens])"
    unfolding rows_of_def split by simp
  show "r * qlen + t < length (rows_of qlen lens)" unfolding rows length_append pre using assms(2) by simp
  show "rows_of qlen lens ! (r * qlen + t) = (indptr_of lens ! r, nat (int (lens ! r) - (int qlen - 1) + int t))"
    unfolding rows nth_append pre using assms(2) by simp
qed

lemma rows_ofD: "p \<in> set (rows_of qlen lens) \<Longrightarrow>
  \<exists>r \<in> {0..<length lens}. \<exists>t \<in> {0..<qlen}. p = (indptr_of lens ! r, nat (int (lens ! r) - (int qlen - 1) + int t))"
  by (auto simp: rows_of_def)

lemma map_rows: "map f (concat (map (\<lambda>(x, l). [x..<x + l]) rows)) = concat (map (\<lambda>(x, l). map f [x..<x + l]) rows)"
  by (induction rows) auto

text \<open>The table of the flattened rows, where every request has its page range in the buffer.\<close>

lemma flatten_rows:
  assumes "dm_indptr d = indptr_of lens" "sum_list lens \<le> length (dm_pages d)" "0 < qlen"
  shows "flatten_verify_rows qlen d =
    Some (indptr_of (causal_row_lengths qlen lens),
      concat (map (\<lambda>(x, l). map (\<lambda>i. dm_pages d ! i) [x..<x + l]) (rows_of qlen lens)))"
proof -
  let ?rows = "rows_of qlen lens" and ?ls = "causal_row_lengths qlen lens"
  have ls: "length (map fst ?rows) = length ?ls" by (simp add: rows_lengths [symmetric])
  have inside: "map2 (-) [0..<last (indptr_of ?ls)] (repeat_interleave (butlast (indptr_of ?ls)) ?ls) = concat (map (\<lambda>l. [0..<l]) ?ls)"
    using inside_rows [of 0 ?ls] unfolding last_indptr by (simp add: indptr_of_def)
  have src: "map2 (+) (repeat_interleave (map fst ?rows) ?ls) (concat (map (\<lambda>l. [0..<l]) ?ls)) =
      concat (map (\<lambda>(x, l). [x..<x + l]) ?rows)"
    unfolding source_rows [OF ls] unfolding rows_lengths [symmetric] by (simp add: zip_map_fst_snd split_beta)
  have "x + l \<le> sum_list lens" if "(x, l) \<in> set ?rows" for x l
  proof -
    from that obtain r t where "r < length lens" "t < qlen" "x = indptr_of lens ! r" "l = nat (int (lens ! r) - (int qlen - 1) + int t)"
      by (auto dest: rows_ofD)
    then have "x + l \<le> sum_list (take (Suc r) lens)" by (simp add: indptr_nth take_Suc_conv_app_nth)
    also have "\<dots> \<le> sum_list lens" by (metis append_take_drop_id le_add1 sum_list_append)
    finally show ?thesis .
  qed
  then have "list_all (\<lambda>i. i < length (dm_pages d)) (concat (map (\<lambda>(x, l). [x..<x + l]) ?rows))"
    using assms(2) by (fastforce simp: list_all_iff)
  then show ?thesis
    unfolding flatten_verify_rows_def Let_def assms(1) diffs_indptr inside rows_starts [symmetric] src gather_pages_def map_rows
    by simp
qed

text \<open>The pages of one request in the buffer after the kernel.\<close>

lemma page_of_request:
  assumes "r < length lens" "i < lens ! r"
  shows "(concat (all_pages K table lens) @ rest) ! (indptr_of lens ! r + i) = flat_index K (table ! r) i"
proof -
  let ?pages = "all_pages K table lens"
  have len: "map length ?pages = lens" by (simp add: all_pages_def comp_def map_nth)
  have r: "r < length ?pages" and row: "?pages ! r = map (flat_index K (table ! r)) [0..<lens ! r]"
    using assms(1) by (simp_all add: all_pages_def)
  have "take r lens = map length (take r ?pages)" unfolding take_map [symmetric] len ..
  then have start: "indptr_of lens ! r = length (concat (take r ?pages))"
    using assms(1) by (simp add: indptr_nth length_concat)
  have "concat ?pages = concat (take r ?pages) @ ?pages ! r @ concat (drop (Suc r) ?pages)"
    using id_take_nth_drop [OF r] by (metis concat.simps(2) concat_append)
  then show ?thesis using assms(2) by (simp add: start row nth_append)
qed

lemma build_decodeD:
  assumes "build_decode b table lens starts tokens = Some (d, b')"
  shows "dm_indptr d = indptr_of (dm_seq_lens d)"
    and "\<exists>pages0. length pages0 = length (page_buffer b)
      \<and> dm_pages d = expand_page_indices (kernel_block_size b) table (indptr_of (dm_seq_lens d)) (dm_seq_lens d) pages0"
proof -
  show "dm_indptr d = indptr_of (dm_seq_lens d)"
    using assms by (auto simp: build_decode_def Let_def split: if_splits)
  show "\<exists>pages0. length pages0 = length (page_buffer b)
      \<and> dm_pages d = expand_page_indices (kernel_block_size b) table (indptr_of (dm_seq_lens d)) (dm_seq_lens d) pages0"
    using assms
    by (intro exI [of _ "if full_graphs b then map (\<lambda>_. -1) (page_buffer b) else page_buffer b"])
      (auto simp: build_decode_def Let_def split: if_splits)
qed

section \<open>Properties\<close>

text \<open>C36: In a verification step of \<open>qlen\<close> tokens per request, the row of token \<open>t\<close> is given exactly the flat
  pages of the positions up to its own, in order: the context before the step and the first
  \<open>t + 1\<close> tokens of the step, none of the later ones.\<close>

theorem verify_rows_causal:
  assumes "build_decode b table lens starts tokens = Some (d, b')"
    and "sum_list (dm_seq_lens d) \<le> length (page_buffer b)"
    and "r < length (dm_seq_lens d)" "t < dm_max_qo_len d" "dm_seq_lens d ! r = context + dm_max_qo_len d"
  shows "\<exists>rows. flatten_verify_rows (dm_max_qo_len d) d = Some rows
    \<and> row_pages rows (r * dm_max_qo_len d + t) = map (flat_index (kernel_block_size b) (table ! r)) [0..<context + t + 1]"
proof -
  let ?lens = "dm_seq_lens d" and ?q = "dm_max_qo_len d" and ?K = "kernel_block_size b"
  let ?xss = "map (\<lambda>(x, l). map (\<lambda>i. dm_pages d ! i) [x..<x + l]) (rows_of ?q ?lens)"
  obtain pages0 where p0: "length pages0 = length (page_buffer b)"
    and "dm_pages d = expand_page_indices ?K table (indptr_of ?lens) ?lens pages0"
    using build_decodeD(2) [OF assms(1)] by blast
  then have pages: "dm_pages d = concat (all_pages ?K table ?lens) @ drop (sum_list ?lens) pages0"
    using expand_page_indices_writes assms(2) by simp
  have fits: "sum_list ?lens \<le> length (dm_pages d)" unfolding pages by (simp add: length_concat_pages)
  have flat: "flatten_verify_rows ?q d = Some (indptr_of (causal_row_lengths ?q ?lens), concat ?xss)"
    using assms(4) by (intro flatten_rows [OF build_decodeD(1) [OF assms(1)] fits]) simp
  have "nat (int (?lens ! r) - (int ?q - 1) + int t) = context + t + 1" using assms(4,5) by simp
  with rows_nth [OF assms(3,4)] have nth: "r * ?q + t < length (rows_of ?q ?lens)"
    "rows_of ?q ?lens ! (r * ?q + t) = (indptr_of ?lens ! r, context + t + 1)" by simp_all
  have "map length ?xss = causal_row_lengths ?q ?lens"
    unfolding rows_lengths [symmetric] by (simp add: comp_def split_beta)
  from row_of_concat [OF this, of "r * ?q + t"] nth
  have row: "row_pages (indptr_of (causal_row_lengths ?q ?lens), concat ?xss) (r * ?q + t)
      = map (\<lambda>i. dm_pages d ! i) [indptr_of ?lens ! r..<indptr_of ?lens ! r + (context + t + 1)]"
    by (simp del: upt_Suc)
  have "dm_pages d ! (indptr_of ?lens ! r + i) = flat_index ?K (table ! r) i" if "i < context + t + 1" for i
    unfolding pages using assms(3,4,5) that by (intro page_of_request) simp_all
  then have "map (\<lambda>i. dm_pages d ! i) [indptr_of ?lens ! r..<indptr_of ?lens ! r + (context + t + 1)]
      = map (flat_index ?K (table ! r)) [0..<context + t + 1]"
    by (intro nth_equalityI) (simp_all del: upt_Suc)
  with flat row show ?thesis by auto
qed

definition demo_builder :: mla_builder where
  "demo_builder = \<lparr> num_heads = 12, kernel_block_size = 2, full_graphs = False, mtp_decode_qlen = 1,
     page_buffer = replicate 16 0, indptr_buffer = [], qo_buffer = [] \<rparr>"

theorem verify_rows_causal_witness:
  "\<exists>d b'. build_decode demo_builder [[7, 9, 4], [3, 5, 8]] [5, 4] [0, 3, 6] 6 = Some (d, b')
    \<and> (\<exists>rows. flatten_verify_rows 3 d = Some rows \<and> row_pages rows 4 = [6, 7, 10])"
proof -
  define r where "r = build_decode demo_builder [[7, 9, 4], [3, 5, 8]] [5, 4] [0, 3, 6] 6"
  obtain d b' where d: "r = Some (d, b')" "dm_seq_lens d = [5, 4]" "dm_max_qo_len d = 3"
    by (simp add: r_def build_decode_def uniform_padded_mtp_qo_len_def Let_def)
  have "\<exists>rows. flatten_verify_rows (dm_max_qo_len d) d = Some rows
      \<and> row_pages rows (1 * dm_max_qo_len d + 1) =
        map (flat_index (kernel_block_size demo_builder) ([[7, 9, 4], [3, 5, 8]] ! 1)) [0..<1 + 1 + 1]"
    by (rule verify_rows_causal [OF d(1) [unfolded r_def]]) (simp_all add: d demo_builder_def)
  moreover have "map (flat_index (kernel_block_size demo_builder) ([[7, 9, 4], [3, 5, 8]] ! 1)) [0..<1 + 1 + 1] = [6, 7, 10]"
    by (simp add: flat_index_def demo_builder_def upt_rec)
  ultimately show ?thesis using d(1,3) unfolding r_def by auto
qed

section \<open>Padding\<close>

lemma constant_prefix: "list_all (\<lambda>q. q = u) xs \<Longrightarrow> xs = replicate (length xs) u"
  by (induction xs) simp_all

text \<open>
  Remark: a step is padded only where its requests are some of the common length followed by some
  without tokens, and the padded tokens are exactly those of the step.  So the query starts of the
  real requests are the multiples of the common length that the padded step uses.
\<close>

lemma padded_shape:
  assumes "uniform_padded_mtp_qo_len qo m tokens = u" "0 < u"
  shows "\<exists>k<length qo. qo = replicate k u @ replicate (length qo - k) 0 \<and> length qo * u = tokens"
proof -
  let ?P = "\<lambda>q :: nat. q > 0"
  define xs where "xs = takeWhile ?P qo"
  define ys where "ys = dropWhile ?P qo"
  have qo: "qo = xs @ ys" by (simp add: xs_def ys_def)
  have facts: "tokens mod length qo = 0" "u = tokens div length qo" "length (filter ?P qo) \<noteq> length qo"
      "filter ?P qo = [] \<or> list_all (\<lambda>q. q = u) (filter ?P qo)" "\<not> list_ex ?P ys"
    using assms by (auto simp: uniform_padded_mtp_qo_len_def Let_def ys_def split: if_splits)
  have "filter ?P xs = xs" by (simp add: xs_def filter_id_conv) (metis set_takeWhileD)
  moreover have "filter ?P ys = []" using facts(5) by (simp add: filter_empty_conv list_ex_iff)
  ultimately have pos: "filter ?P qo = xs" by (simp add: qo)
  have "list_all (\<lambda>q. q = u) xs" using facts(4) unfolding pos by auto
  then have x: "xs = replicate (length xs) u" by (rule constant_prefix)
  have "list_all (\<lambda>q. q = 0) ys" using facts(5) by (simp add: list_all_iff list_ex_iff)
  then have y: "ys = replicate (length ys) 0" by (rule constant_prefix)
  have "length xs < length qo" using facts(3) unfolding pos by (simp add: qo)
  moreover have "qo = replicate (length xs) u @ replicate (length qo - length xs) 0" using x y qo by (metis add_diff_cancel_left' length_append)
  moreover have "length qo * u = tokens" using facts(1,2) by (metis add.right_neutral mult_div_mod_eq)
  ultimately show ?thesis by blast
qed

lemma padded_starts:
  assumes "qo = replicate k u @ replicate j 0" "i \<le> k"
  shows "arange_steps (length qo + 1) u ! i = indptr_of qo ! i"
proof -
  have "indptr_of qo ! i = i * u" using assms by (simp add: indptr_nth sum_list_replicate min_absorb1)
  then show ?thesis using assms by (simp add: arange_steps_def del: upt_Suc)
qed

text \<open>Remark: a request without tokens in a padded step has the length of the step, not 0.\<close>

lemma padded_request_length:
  "r < length qo \<Longrightarrow> length qo = length lens \<Longrightarrow> qo ! r = 0 \<Longrightarrow> seq_lens_for_kernel qo lens m ! r = m"
  by (simp add: seq_lens_for_kernel_def)

section \<open>Heads\<close>

lemma every_nth_replicate: "0 < k \<Longrightarrow> every_nth k (concat (map (replicate k) q)) = q"
proof (induction q)
  case (Cons x q)
  then obtain m where "k = Suc m" by (cases k) auto
  with Cons show ?case by simp
qed simp

text \<open>Remark: taking the output back undoes the padding of the heads, for every number of heads.\<close>

lemma heads_roundtrip: "0 < h \<Longrightarrow> get_mla_unpadded_o h (get_mla_padded_q h q) = q"
  by (simp add: get_mla_unpadded_o_def get_mla_padded_q_def min_mla_heads_def every_nth_replicate div_greater_zero_iff)

text \<open>
  Remark: fewer than 16 heads never reach the padded kernel with tokens to decode, and where they
  did, a number of heads that does not divide 16 would not fill it.
\<close>

lemma small_heads_flattened:
  assumes "h < min_mla_heads" "dm_gluon d = use_gluon_decode h (dm_max_qo_len d)" "dm_max_qo_len d \<ge> 1"
  shows "forward_path h d \<in> {Gluon_rows, Flattened_rows}"
  using assms by (auto simp: forward_path_def use_gluon_decode_def)

lemma five_heads_do_not_fill: "is_valid_num_heads 5" "length (get_mla_padded_q 5 [a, b, c, d, e]) \<noteq> get_actual_mla_num_heads 5"
  by (simp_all add: is_valid_num_heads_def get_mla_padded_q_def get_actual_mla_num_heads_def min_mla_heads_def)

end
