(* ===== verification/SparseAttention.thy ===== *)
theory SparseAttention
  imports TensorOps
begin

text \<open>
  The sparse attention kernels (\<open>src/patches/rocm_aiter_mla_sparse.prefill-bh64.py\<close>): the online
  softmax over the cache rows that a query lists, in one pass, and split over work groups with a
  reduction.  One head of one query is modelled, as heads and queries are independent, with exact
  reals for floating point.  Reading a row of a cache (its bytes, their scales, and zero for what
  is not a number) is a function of the cache; a row is a function from dimensions.
\<close>

section \<open>Caches, queries and segments\<close>

type_synonym row = "nat \<Rightarrow> real"

record kv_cache =
  num_rows :: int
  block_size :: int
  row_at :: "int \<Rightarrow> int \<Rightarrow> row"

record head_query =
  q_row :: row
  nope_dim :: nat
  rope_dim :: nat
  q_scale :: real

text \<open>A flat list of slots with the start of every query's part.\<close>

record segment =
  seg_cache :: kv_cache
  seg_indices :: "int list"
  seg_indptr :: "nat list"

definition neg_large :: real where "neg_large = - (34028234663852886 * 10 ^ 22)"

definition dot :: "row \<Rightarrow> row \<Rightarrow> nat \<Rightarrow> nat \<Rightarrow> real" where
  "dot q k lo hi = sum_list (map (\<lambda>d. q d * k d) [lo..<hi])"

text \<open>The decode kernels add the products of the two parts of a row, the prefill kernel has one.\<close>

definition decode_score :: "head_query \<Rightarrow> row \<Rightarrow> real" where
  "decode_score h k =
     (dot (q_row h) k 0 (nope_dim h) + dot (q_row h) k (nope_dim h) (nope_dim h + rope_dim h)) * q_scale h"

definition prefill_score :: "head_query \<Rightarrow> row \<Rightarrow> real" where
  "prefill_score h k = dot (q_row h) k 0 (nope_dim h + rope_dim h) * q_scale h"

text \<open>The row of a valid slot, by its block and its place in the block.\<close>

definition slot_row :: "kv_cache \<Rightarrow> int \<Rightarrow> row option" where
  "slot_row c slot =
     (if 0 \<le> slot \<and> slot < num_rows c then Some (row_at c (slot div block_size c) (slot mod block_size c)) else None)"

definition lane :: "segment \<Rightarrow> nat \<Rightarrow> nat \<Rightarrow> nat \<Rightarrow> row option" where
  "lane g start hi pos = (if pos < hi then slot_row (seg_cache g) (seg_indices g ! (start + pos)) else None)"

section \<open>The online softmax\<close>

record soft =
  soft_m :: real
  soft_l :: real
  soft_acc :: row

definition soft_init :: soft where
  "soft_init = \<lparr> soft_m = neg_large, soft_l = 0, soft_acc = (\<lambda>_. 0) \<rparr>"

definition tl_max :: "real list \<Rightarrow> real" where
  "tl_max xs = fold max (tl xs) (hd xs)"

text \<open>One block of lanes: a lane without a row has the score \<open>neg_large\<close> and the weight 0.\<close>

definition block_step :: "(row \<Rightarrow> real) \<Rightarrow> row option list \<Rightarrow> soft \<Rightarrow> soft" where
  "block_step score lanes s =
     (let m_block = tl_max (map (\<lambda>k. case k of None \<Rightarrow> neg_large | Some r \<Rightarrow> score r) lanes);
          m_new = max (soft_m s) m_block;
          alpha = exp (soft_m s - m_new);
          p = map (\<lambda>k. case k of None \<Rightarrow> 0 | Some r \<Rightarrow> exp (score r - m_new)) lanes
      in \<lparr> soft_m = m_new, soft_l = soft_l s * alpha + sum_list p,
           soft_acc = (\<lambda>d. soft_acc s d * alpha
             + sum_list (map2 (\<lambda>w k. case k of None \<Rightarrow> 0 | Some r \<Rightarrow> w * r d) p lanes)) \<rparr>)"

text \<open>The loop over the positions from \<open>lo\<close> to \<open>hi\<close> of one query, a block at a time.\<close>

definition segment_loop :: "(row \<Rightarrow> real) \<Rightarrow> nat \<Rightarrow> segment \<Rightarrow> nat \<Rightarrow> nat \<Rightarrow> nat \<Rightarrow> soft \<Rightarrow> soft" where
  "segment_loop score B g query lo hi s =
     fold (\<lambda>j. block_step score (map (lane g (seg_indptr g ! query) hi) [lo + j * B..<lo + j * B + B]))
       [0..<(hi - lo + B - 1) div B] s"

definition segment_length :: "segment \<Rightarrow> nat \<Rightarrow> nat" where
  "segment_length g query = seg_indptr g ! Suc query - seg_indptr g ! query"

text \<open>The sink and the normalisation at the end of one pass.\<close>

definition finish_row :: "real option \<Rightarrow> soft \<Rightarrow> row" where
  "finish_row sink s =
     (case sink of
        Some k \<Rightarrow>
          (let m = max (soft_m s) k; alpha = exp (soft_m s - m); l = soft_l s * alpha + exp (k - m)
           in (\<lambda>d. if l > 0 then soft_acc s d * alpha / max l (1 / 10 ^ 30) else 0))
      | None \<Rightarrow> (\<lambda>d. if soft_l s > 0 then soft_acc s d / max (soft_l s) (1 / 10 ^ 30) else 0))"

section \<open>The kernels\<close>

definition prefill_ragged_kernel :: "nat \<Rightarrow> head_query \<Rightarrow> segment \<Rightarrow> nat \<Rightarrow> real option \<Rightarrow> row" where
  "prefill_ragged_kernel B h g query sink =
     finish_row sink (segment_loop (prefill_score h) B g query 0 (segment_length g query) soft_init)"

definition decode_ragged_kernel :: "nat \<Rightarrow> head_query \<Rightarrow> segment \<Rightarrow> segment option \<Rightarrow> nat \<Rightarrow> real option \<Rightarrow> row" where
  "decode_ragged_kernel B h main extra query sink =
     (let s = segment_loop (decode_score h) B main query 0 (segment_length main query) soft_init
      in finish_row sink (case extra of None \<Rightarrow> s
           | Some g \<Rightarrow> segment_loop (decode_score h) B g query 0 (segment_length g query) s))"

text \<open>The part of a segment that split \<open>i\<close> of \<open>n\<close> walks.\<close>

definition split_part :: "(row \<Rightarrow> real) \<Rightarrow> nat \<Rightarrow> nat \<Rightarrow> nat \<Rightarrow> segment \<Rightarrow> nat \<Rightarrow> soft \<Rightarrow> soft" where
  "split_part score B n i g query s =
     (let len = segment_length g query; chunk = (len + n - 1) div n; lo = i * chunk; hi = min (lo + chunk) len
      in segment_loop score B g query lo hi s)"

definition decode_partial_kernel :: "nat \<Rightarrow> nat \<Rightarrow> head_query \<Rightarrow> segment \<Rightarrow> segment option \<Rightarrow> nat \<Rightarrow> nat \<Rightarrow> soft" where
  "decode_partial_kernel B n h main extra query i =
     (let s = split_part (decode_score h) B n i main query soft_init
      in case extra of None \<Rightarrow> s | Some g \<Rightarrow> split_part (decode_score h) B n i g query s)"

text \<open>The reduction: the lanes beyond the number of splits are masked, so they are left out.\<close>

definition decode_reduce_kernel :: "soft list \<Rightarrow> real option \<Rightarrow> row" where
  "decode_reduce_kernel parts sink =
     (let m_comb = tl_max (map soft_m parts);
          m_final = (case sink of Some k \<Rightarrow> max m_comb k | None \<Rightarrow> m_comb);
          l0 = sum_list (map (\<lambda>s. exp (soft_m s - m_final) * soft_l s) parts);
          l = (case sink of Some k \<Rightarrow> l0 + exp (k - m_final) | None \<Rightarrow> l0)
      in (\<lambda>d. if l > 0
             then sum_list (map (\<lambda>s. exp (soft_m s - m_final) * soft_acc s d) parts) / max l (1 / 10 ^ 30) else 0))"

definition split_decode :: "nat \<Rightarrow> nat \<Rightarrow> head_query \<Rightarrow> segment \<Rightarrow> segment option \<Rightarrow> nat \<Rightarrow> real option \<Rightarrow> row" where
  "split_decode B n h main extra query sink =
     decode_reduce_kernel (map (decode_partial_kernel B n h main extra query) [0..<n]) sink"

section \<open>The state after some rows\<close>

text \<open>What one pass holds after the rows \<open>rs\<close>: the greatest score and the sums relative to it.\<close>

definition soft_of :: "(row \<Rightarrow> real) \<Rightarrow> row list \<Rightarrow> soft" where
  "soft_of score rs =
     (let m = fold max (map score rs) neg_large
      in \<lparr> soft_m = m, soft_l = sum_list (map (\<lambda>r. exp (score r - m)) rs),
           soft_acc = (\<lambda>d. sum_list (map (\<lambda>r. exp (score r - m) * r d) rs)) \<rparr>)"

lemma fold_max_start: "fold max xs (max a b) = max a (fold max xs (b :: real))"
proof (induction xs arbitrary: b)
  case (Cons x xs)
  have "fold max (x # xs) (max a b) = fold max xs (max a (max x b))" by (simp add: max.left_commute)
  also have "\<dots> = max a (fold max xs (max x b))" by (rule Cons)
  finally show ?case by simp
qed simp

lemma fold_max_ge: "a \<le> fold max xs (a :: real)"
proof (induction xs arbitrary: a)
  case (Cons x xs)
  from Cons [of "max x a"] show ?case by simp
qed simp

lemma tl_max_start: "xs \<noteq> [] \<Longrightarrow> max a (tl_max xs) = fold max xs a"
  by (cases xs) (simp_all add: tl_max_def fold_max_start [symmetric] max.commute)

text \<open>The rows of the valid lanes.\<close>

definition valid_rows :: "row option list \<Rightarrow> row list" where
  "valid_rows lanes = concat (map (\<lambda>k. case k of None \<Rightarrow> [] | Some r \<Rightarrow> [r]) lanes)"

lemma valid_rows_simps [simp]:
  "valid_rows [] = []" "valid_rows (None # ks) = valid_rows ks" "valid_rows (Some r # ks) = r # valid_rows ks"
  "valid_rows (xs @ ys) = valid_rows xs @ valid_rows ys"
  by (simp_all add: valid_rows_def)

lemma masked_max:
  "neg_large \<le> a \<Longrightarrow>
   fold max (map (\<lambda>k. case k of None \<Rightarrow> neg_large | Some r \<Rightarrow> score r) lanes) a = fold max (map score (valid_rows lanes)) a"
proof (induction lanes arbitrary: a)
  case (Cons k lanes)
  then show ?case by (cases k) (simp_all add: max_def)
qed simp

lemma masked_sum:
  "sum_list (map (\<lambda>k. case k of None \<Rightarrow> 0 | Some r \<Rightarrow> f r) lanes) = sum_list (map f (valid_rows lanes :: row list))"
  for f :: "row \<Rightarrow> real"
proof (induction lanes)
  case (Cons k lanes)
  then show ?case by (cases k) simp_all
qed simp

lemma masked_product:
  "sum_list (map2 (\<lambda>w k. case k of None \<Rightarrow> 0 | Some r \<Rightarrow> w * r d) (map (\<lambda>k. case k of None \<Rightarrow> 0 | Some r \<Rightarrow> f r) lanes) lanes)
     = sum_list (map (\<lambda>r. f r * r d) (valid_rows lanes))"
  for f :: "row \<Rightarrow> real"
proof (induction lanes)
  case (Cons k lanes)
  then show ?case by (cases k) simp_all
qed simp

lemma rescale: "sum_list (map (\<lambda>r. exp (score r - m) * f r) rs) * exp (m - m') = sum_list (map (\<lambda>r. exp (score r - m') * f r) rs)"
  for m :: real
proof (induction rs)
  case (Cons r rs)
  have "exp (score r - m) * exp (m - m') = exp (score r - m')" by (simp add: exp_add [symmetric])
  then show ?case using Cons by (simp add: algebra_simps)
qed simp

lemma rescale1: "sum_list (map (\<lambda>r. exp (score r - m)) rs) * exp (m - m') = sum_list (map (\<lambda>r. exp (score r - m')) rs)"
  for m :: real
  using rescale [of score m "\<lambda>_. 1"] by simp

text \<open>A block adds its valid rows.\<close>

lemma block_step_rows:
  assumes "lanes \<noteq> []"
  shows "block_step score lanes (soft_of score rs) = soft_of score (rs @ valid_rows lanes)"
proof -
  let ?m = "fold max (map score rs) neg_large"
  have new: "max ?m (tl_max (map (\<lambda>k. case k of None \<Rightarrow> neg_large | Some r \<Rightarrow> score r) lanes))
      = fold max (map score (rs @ valid_rows lanes)) neg_large"
    using assms by (simp add: tl_max_start masked_max fold_max_ge)
  show ?thesis
    unfolding block_step_def soft_of_def Let_def soft.simps new masked_sum masked_product rescale rescale1 by simp
qed

lemma soft_init_of: "soft_init = soft_of score []"
  by (simp add: soft_init_def soft_of_def)

section \<open>The rows of a segment\<close>

definition part_rows :: "segment \<Rightarrow> nat \<Rightarrow> nat \<Rightarrow> nat \<Rightarrow> row list" where
  "part_rows g query lo hi =
     valid_rows (map (\<lambda>pos. slot_row (seg_cache g) (seg_indices g ! (seg_indptr g ! query + pos))) [lo..<hi])"

definition segment_rows :: "segment \<Rightarrow> nat \<Rightarrow> row list" where
  "segment_rows g query = part_rows g query 0 (segment_length g query)"

lemma filter_upt: "filter (\<lambda>x. x < n) [a..<b] = [a..<min b n]"
proof (cases "a \<le> n")
  case True
  show ?thesis
  proof (cases "b \<le> n")
    case False
    then have "[a..<b] = [a..<n] @ [n..<b]" using True by (intro upt_split) simp_all
    moreover have "filter (\<lambda>x. x < n) [n..<b] = []" by (auto simp: filter_empty_conv)
    ultimately show ?thesis using False by (simp add: filter_id_conv min_absorb2)
  qed (simp add: filter_id_conv min_absorb1)
qed (auto simp: filter_empty_conv)

lemma valid_rows_lanes:
  "valid_rows (map (lane g start hi) xs) =
   valid_rows (map (\<lambda>pos. slot_row (seg_cache g) (seg_indices g ! (start + pos))) (filter (\<lambda>x. x < hi) xs))"
  by (induction xs) (simp_all add: lane_def valid_rows_def)

lemma valid_rows_concat: "valid_rows (concat xss) = concat (map valid_rows xss)"
  by (induction xss) simp_all

lemma fold_blocks:
  assumes "0 < B"
  shows "fold (\<lambda>j. block_step score (map f [lo + j * B..<lo + j * B + B])) js (soft_of score rs)
    = soft_of score (rs @ concat (map (\<lambda>j. valid_rows (map f [lo + j * B..<lo + j * B + B])) js))"
proof (induction js arbitrary: rs)
  case (Cons j js)
  have "block_step score (map f [lo + j * B..<lo + j * B + B]) (soft_of score rs)
      = soft_of score (rs @ valid_rows (map f [lo + j * B..<lo + j * B + B]))"
    using assms by (intro block_step_rows) simp
  with Cons show ?case by simp
qed simp

lemma segment_loop_rows:
  assumes "0 < B"
  shows "segment_loop score B g query lo hi (soft_of score rs) = soft_of score (rs @ part_rows g query lo hi)"
proof -
  let ?k = "(hi - lo + B - 1) div B" and ?f = "\<lambda>pos. slot_row (seg_cache g) (seg_indices g ! (seg_indptr g ! query + pos))"
  have cover: "concat (map (\<lambda>j. filter (\<lambda>x. x < hi) [lo + j * B..<lo + j * B + B]) [0..<?k]) = [lo..<hi]"
  proof (cases "lo \<le> hi")
    case True
    have "hi - lo \<le> ?k * B" by (rule chunk_count [OF assms])
    with True show ?thesis unfolding chunks_cover_from [OF assms] by (simp add: min_absorb1)
  qed (simp add: chunks_cover_from [OF assms])
  have "concat (map (\<lambda>j. valid_rows (map (lane g (seg_indptr g ! query) hi) [lo + j * B..<lo + j * B + B])) [0..<?k])
      = valid_rows (map ?f (concat (map (\<lambda>j. filter (\<lambda>x. x < hi) [lo + j * B..<lo + j * B + B]) [0..<?k])))"
    unfolding valid_rows_lanes by (simp add: map_concat valid_rows_concat comp_def)
  then show ?thesis
    unfolding segment_loop_def fold_blocks [OF assms] cover part_rows_def by simp
qed

text \<open>The parts of all splits are the segment.\<close>

lemma split_parts:
  assumes "0 < n"
  shows "concat (map (\<lambda>i. let len = segment_length g query; chunk = (len + n - 1) div n
      in part_rows g query (i * chunk) (min (i * chunk + chunk) len)) [0..<n]) = segment_rows g query"
proof -
  let ?len = "segment_length g query"
  let ?c = "(?len + n - 1) div n" and ?f = "\<lambda>pos. slot_row (seg_cache g) (seg_indices g ! (seg_indptr g ! query + pos))"
  have "concat (map (\<lambda>i. [i * ?c..<min (i * ?c + ?c) ?len]) [0..<n]) = [0..<?len]"
  proof (cases "?c = 0")
    case True
    have "?len = 0" using chunk_count [OF assms, of ?len] True by simp
    then show ?thesis by (simp add: map_replicate_const)
  next
    case False
    have "?len \<le> n * ?c" using chunk_count [OF assms, of ?len] by (simp add: mult.commute)
    then show ?thesis
      using chunks_cover [of ?c ?len n] False by (simp add: filter_upt min_absorb1)
  qed
  then have "segment_rows g query = valid_rows (map ?f (concat (map (\<lambda>i. [i * ?c..<min (i * ?c + ?c) ?len]) [0..<n])))"
    by (simp add: segment_rows_def part_rows_def)
  then show ?thesis by (simp add: part_rows_def Let_def map_concat valid_rows_concat comp_def)
qed

section \<open>Reference\<close>

definition sink_weight :: "real \<Rightarrow> real option \<Rightarrow> real" where
  "sink_weight m sink = (case sink of None \<Rightarrow> 0 | Some k \<Rightarrow> exp (k - m))"

text \<open>The weighted mean of the rows, with the sink as a row of zeros.\<close>

definition attention :: "(row \<Rightarrow> real) \<Rightarrow> row list \<Rightarrow> real option \<Rightarrow> row" where
  "attention score rs sink d =
     sum_list (map (\<lambda>r. exp (score r) * r d) rs) / (sum_list (map (\<lambda>r. exp (score r)) rs) + sink_weight 0 sink)"

definition normalised :: "real \<Rightarrow> (row \<Rightarrow> real) \<Rightarrow> row list \<Rightarrow> real option \<Rightarrow> row" where
  "normalised m score rs sink d =
     (let l = sum_list (map (\<lambda>r. exp (score r - m)) rs) + sink_weight m sink
      in if l > 0 then sum_list (map (\<lambda>r. exp (score r - m) * r d) rs) / max l (1 / 10 ^ 30) else 0)"

definition final_max :: "(row \<Rightarrow> real) \<Rightarrow> row list \<Rightarrow> real option \<Rightarrow> real" where
  "final_max score rs sink =
     (let m = fold max (map score rs) neg_large in case sink of None \<Rightarrow> m | Some k \<Rightarrow> max m k)"

lemma finish_row_normalised: "finish_row sink (soft_of score rs) = normalised (final_max score rs sink) score rs sink"
proof (cases sink)
  case None
  then show ?thesis by (intro ext) (simp add: finish_row_def soft_of_def normalised_def final_max_def sink_weight_def Let_def)
next
  case (Some k)
  then show ?thesis
    by (intro ext) (simp add: finish_row_def soft_of_def normalised_def final_max_def sink_weight_def Let_def rescale rescale1)
qed

end
