(* ===== verification/SparseSplit.thy ===== *)
theory SparseSplit
  imports SparseAttention
begin

text \<open>
  Split decoding computes exactly the attention that one pass computes, for any number of splits
  and block sizes.
\<close>

section \<open>The reduction\<close>

lemma sum_list_member: "x \<in> set xs \<Longrightarrow> (\<And>y. y \<in> set xs \<Longrightarrow> 0 \<le> y) \<Longrightarrow> x \<le> sum_list (xs :: real list)"
proof (induction xs)
  case (Cons y ys)
  have "0 \<le> sum_list ys" using Cons.prems(2) by (intro sum_list_nonneg) simp
  moreover have "0 \<le> y" using Cons.prems(2) by simp
  moreover have "x \<le> sum_list ys" if "x \<in> set ys" using Cons that by simp
  ultimately show ?case using Cons.prems(1) by auto
qed simp

lemma fold_max_member: "fold max xs a \<in> insert a (set xs)" for a :: real
proof (induction xs arbitrary: a)
  case (Cons x xs)
  from Cons [of "max x a"] show ?case by (auto simp: max_def split: if_splits)
qed simp

lemma fold_max_upper: "x \<in> set xs \<Longrightarrow> x \<le> fold max xs (a :: real)"
proof (induction xs arbitrary: a)
  case (Cons y ys)
  have "y \<le> fold max ys (max y a)" using fold_max_ge [of "max y a" ys] by simp
  then show ?case using Cons by auto
qed simp

text \<open>Scores that a 32-bit float can hold.\<close>

definition finite_scores :: "(row \<Rightarrow> real) \<Rightarrow> row list \<Rightarrow> real option \<Rightarrow> bool" where
  "finite_scores score rs sink \<longleftrightarrow>
     list_all (\<lambda>r. neg_large \<le> score r) rs \<and> (case sink of None \<Rightarrow> True | Some k \<Rightarrow> neg_large \<le> k)"

lemma final_max_weight:
  assumes "finite_scores score rs sink" "rs \<noteq> [] \<or> sink \<noteq> None"
  defines "m \<equiv> final_max score rs sink"
  shows "1 \<le> sum_list (map (\<lambda>r. exp (score r - m)) rs) + sink_weight m sink"
proof -
  have "0 \<le> sum_list (map (\<lambda>r. exp (score r - m)) qs)" for qs :: "row list" by (induction qs) simp_all
  then have pos: "0 \<le> sum_list (map (\<lambda>r. exp (score r - m)) rs)" "0 \<le> sink_weight m sink"
    by (simp_all add: sink_weight_def split: option.split)
  have row: "1 \<le> sum_list (map (\<lambda>r. exp (score r - m)) rs)" if "r \<in> set rs" "score r = m" for r
  proof -
    have "(1 :: real) \<in> set (map (\<lambda>r. exp (score r - m)) rs)" using that by (auto intro!: image_eqI [of _ _ r])
    then show ?thesis by (rule sum_list_member) auto
  qed
  define f where "f = fold max (map score rs) neg_large"
  have f: "f \<in> insert neg_large (score ` set rs)" using fold_max_member [of "map score rs" neg_large] by (simp add: f_def)
  have reach: "\<exists>r \<in> set rs. score r = f" if "rs \<noteq> []"
  proof (cases "f \<in> score ` set rs")
    case False
    with f have "f = neg_large" by simp
    moreover obtain r where "r \<in> set rs" using \<open>rs \<noteq> []\<close> by (cases rs) auto
    moreover have "score r \<le> f" if "r \<in> set rs" for r unfolding f_def using that by (intro fold_max_upper) simp
    ultimately show ?thesis using assms(1) by (force simp: finite_scores_def list_all_iff)
  qed auto
  show ?thesis
  proof (cases sink)
    case None
    then have "m = f" by (simp add: m_def final_max_def f_def)
    with None assms(2) reach row pos(2) show ?thesis by force
  next
    case (Some k)
    then have m: "m = max f k" by (simp add: m_def final_max_def f_def Let_def)
    show ?thesis
    proof (cases "k < f")
      case True
      then have "f \<noteq> neg_large" using assms(1) Some by (auto simp: finite_scores_def)
      then have "rs \<noteq> []" by (auto simp: f_def)
      with reach row True m pos(2) show ?thesis by force
    next
      case False
      then have "sink_weight m sink = 1" using Some m by (simp add: sink_weight_def max_def)
      with pos(1) show ?thesis by simp
    qed
  qed
qed

lemma normalised_attention:
  assumes "finite_scores score rs sink"
  shows "normalised (final_max score rs sink) score rs sink = attention score rs sink"
proof
  fix d
  define m where "m = final_max score rs sink"
  let ?S = "sum_list (map (\<lambda>r. exp (score r)) rs)" and ?N = "sum_list (map (\<lambda>r. exp (score r) * r d) rs)"
  have S: "sum_list (map (\<lambda>r. exp (score r - m)) rs) = ?S * exp (- m)" using rescale1 [of score 0 rs m] by simp
  have N: "sum_list (map (\<lambda>r. exp (score r - m) * r d) rs) = ?N * exp (- m)" using rescale [of score 0 "\<lambda>r. r d" rs m] by simp
  have W: "sink_weight m sink = sink_weight 0 sink * exp (- m)"
    by (simp add: sink_weight_def exp_diff exp_minus divide_inverse split: option.split)
  have l: "sum_list (map (\<lambda>r. exp (score r - m)) rs) + sink_weight m sink = (?S + sink_weight 0 sink) * exp (- m)"
    by (simp add: S W distrib_right)
  show "normalised (final_max score rs sink) score rs sink d = attention score rs sink d"
  proof (cases "rs = [] \<and> sink = None")
    case True
    then show ?thesis by (simp add: normalised_def attention_def sink_weight_def)
  next
    case False
    then have one: "1 \<le> (?S + sink_weight 0 sink) * exp (- m)"
      using final_max_weight [OF assms] l by (auto simp: m_def)
    then have "max ((?S + sink_weight 0 sink) * exp (- m)) (1 / 10 ^ 30) = (?S + sink_weight 0 sink) * exp (- m)"
      by (simp add: max_def)
    with one show ?thesis unfolding normalised_def m_def [symmetric] l N Let_def attention_def by simp
  qed
qed

lemma tl_max_parts:
  assumes "rss \<noteq> []"
  shows "tl_max (map soft_m (map (soft_of score) rss)) = fold max (map score (concat rss)) neg_large"
proof -
  have "fold max (map soft_m (map (soft_of score) rss)) a = fold max (map score (concat rss)) a" if "neg_large \<le> a" for a
    using that
  proof (induction rss arbitrary: a)
    case (Cons rs rss)
    have "max (fold max (map score rs) neg_large) a = fold max (map score rs) a"
      using fold_max_start [of "map score rs" a neg_large] Cons.prems by (simp add: max.commute max_absorb1)
    moreover have "neg_large \<le> fold max (map score rs) a" using fold_max_ge [of a "map score rs"] Cons.prems by linarith
    ultimately show ?case using Cons.IH by (simp add: soft_of_def Let_def)
  qed simp
  then have eq: "fold max (map soft_m (map (soft_of score) rss)) neg_large = fold max (map score (concat rss)) neg_large" by simp
  have ge: "neg_large \<le> tl_max (map soft_m (map (soft_of score) rss))"
  proof -
    obtain rs rest where "rss = rs # rest" using assms by (cases rss) auto
    then have "tl_max (map soft_m (map (soft_of score) rss)) \<ge> soft_m (soft_of score rs)"
      by (simp add: tl_max_def fold_max_ge)
    moreover have "neg_large \<le> soft_m (soft_of score rs)" by (simp add: soft_of_def Let_def fold_max_ge)
    ultimately show ?thesis by linarith
  qed
  have "max neg_large (tl_max (map soft_m (map (soft_of score) rss))) = fold max (map soft_m (map (soft_of score) rss)) neg_large"
    using assms by (intro tl_max_start) simp
  with ge eq show ?thesis by (simp add: max_absorb2)
qed

lemma parts_sum:
  "sum_list (map (\<lambda>s. exp (soft_m s - m) * soft_l s) (map (soft_of score) rss)) = sum_list (map (\<lambda>r. exp (score r - m)) (concat rss))"
  "sum_list (map (\<lambda>s. exp (soft_m s - m) * soft_acc s d) (map (soft_of score) rss)) = sum_list (map (\<lambda>r. exp (score r - m) * r d) (concat rss))"
proof (induction rss)
  case (Cons rs rss)
  {
    case 1
    show ?case using Cons(1) rescale1 [of score "soft_m (soft_of score rs)" rs m]
      by (simp add: soft_of_def Let_def mult.commute)
  next
    case 2
    show ?case using Cons(2) rescale [of score "soft_m (soft_of score rs)" "\<lambda>r. r d" rs m]
      by (simp add: soft_of_def Let_def mult.commute)
  }
qed simp_all

lemma reduce_normalised:
  assumes "rss \<noteq> []"
  shows "decode_reduce_kernel (map (soft_of score) rss) sink
    = normalised (final_max score (concat rss) sink) score (concat rss) sink"
proof (cases sink)
  case None
  then show ?thesis unfolding decode_reduce_kernel_def tl_max_parts [OF assms] Let_def parts_sum
    by (intro ext) (simp add: normalised_def final_max_def sink_weight_def Let_def)
next
  case (Some k)
  then show ?thesis unfolding decode_reduce_kernel_def tl_max_parts [OF assms] Let_def parts_sum
    by (intro ext) (simp add: normalised_def final_max_def sink_weight_def Let_def)
qed

section \<open>Split decoding\<close>

definition rows_of_query :: "segment \<Rightarrow> segment option \<Rightarrow> nat \<Rightarrow> row list" where
  "rows_of_query main extra query =
     segment_rows main query @ (case extra of None \<Rightarrow> [] | Some g \<Rightarrow> segment_rows g query)"

definition split_rows :: "nat \<Rightarrow> segment \<Rightarrow> nat \<Rightarrow> nat \<Rightarrow> row list" where
  "split_rows n g query i =
     (let len = segment_length g query; chunk = (len + n - 1) div n
      in part_rows g query (i * chunk) (min (i * chunk + chunk) len))"

lemma split_part_rows:
  "0 < B \<Longrightarrow> split_part score B n i g query (soft_of score rs) = soft_of score (rs @ split_rows n g query i)"
  by (simp add: split_part_def split_rows_def Let_def segment_loop_rows)

lemma partial_rows:
  assumes "0 < B"
  shows "decode_partial_kernel B n h main extra query i = soft_of (decode_score h)
    (split_rows n main query i @ (case extra of None \<Rightarrow> [] | Some g \<Rightarrow> split_rows n g query i))"
  using split_part_rows [OF assms, of "decode_score h" n i main query "[]"]
  by (simp add: decode_partial_kernel_def Let_def soft_init_of [of "decode_score h"] split_part_rows [OF assms] split: option.split)

lemma sum_interleaved:
  "sum_list (map f (concat (map (\<lambda>i. A i @ B i) js))) = sum_list (map f (concat (map A js))) + sum_list (map f (concat (map B js)))"
  for f :: "'a \<Rightarrow> real"
  by (induction js) simp_all

lemma concat_split_rows: "0 < n \<Longrightarrow> concat (map (split_rows n g query) [0..<n]) = segment_rows g query"
  unfolding split_rows_def by (rule split_parts)

lemma split_sum:
  fixes f :: "row \<Rightarrow> real"
  assumes "0 < n"
  shows "sum_list (map f (concat (map (\<lambda>i. split_rows n main query i @ (case extra of None \<Rightarrow> [] | Some g \<Rightarrow> split_rows n g query i)) [0..<n])))
    = sum_list (map f (rows_of_query main extra query))"
  unfolding sum_interleaved concat_split_rows [OF assms] rows_of_query_def
  by (cases extra) (simp_all add: concat_split_rows [OF assms] map_replicate_const)

lemma split_set:
  assumes "0 < n"
  shows "set (concat (map (\<lambda>i. split_rows n main query i @ (case extra of None \<Rightarrow> [] | Some g \<Rightarrow> split_rows n g query i)) [0..<n]))
    = set (rows_of_query main extra query)"
proof -
  have "set (segment_rows g query) = (\<Union>i<n. set (split_rows n g query i))" for g
    unfolding concat_split_rows [OF assms, of g query, symmetric] by (simp add: atLeast0LessThan)
  then show ?thesis by (cases extra) (auto simp: rows_of_query_def atLeast0LessThan)
qed

section \<open>The kernels\<close>

text \<open>The split kernels with their reduction, and the one-pass kernel, compute the attention.\<close>

lemma split_decode_exact:
  assumes "0 < B" "0 < n" "0 < B'" "finite_scores (decode_score h) (rows_of_query main extra query) sink"
  shows "split_decode B n h main extra query sink = attention (decode_score h) (rows_of_query main extra query) sink
    \<and> decode_ragged_kernel B' h main extra query sink = attention (decode_score h) (rows_of_query main extra query) sink"
proof
  let ?score = "decode_score h"
  let ?parts = "\<lambda>i. split_rows n main query i @ (case extra of None \<Rightarrow> [] | Some g \<Rightarrow> split_rows n g query i)"
  let ?rs = "concat (map ?parts [0..<n])"
  have fin: "finite_scores ?score ?rs sink"
    using assms(4) unfolding finite_scores_def list_all_iff split_set [OF assms(2)] .
  have "split_decode B n h main extra query sink = decode_reduce_kernel (map (soft_of ?score) (map ?parts [0..<n])) sink"
    unfolding split_decode_def map_map comp_def partial_rows [OF assms(1)] ..
  also have "\<dots> = attention ?score ?rs sink"
    using assms(2) normalised_attention [OF fin] by (subst reduce_normalised) simp_all
  also have "\<dots> = attention ?score (rows_of_query main extra query) sink"
    by (intro ext) (simp only: attention_def split_sum [OF assms(2)])
  finally show "split_decode B n h main extra query sink = attention ?score (rows_of_query main extra query) sink" .
  have "decode_ragged_kernel B' h main extra query sink = finish_row sink (soft_of ?score (rows_of_query main extra query))"
    using segment_loop_rows [OF assms(3), of ?score main query 0 "segment_length main query" "[]"]
    by (simp add: decode_ragged_kernel_def Let_def soft_init_of [of ?score] segment_loop_rows [OF assms(3)] rows_of_query_def
      segment_rows_def split: option.split)
  then show "decode_ragged_kernel B' h main extra query sink = attention ?score (rows_of_query main extra query) sink"
    by (simp add: finish_row_normalised normalised_attention [OF assms(4)])
qed

text \<open>The prefill kernel computes the same, with one product over the whole row.\<close>

lemma prefill_exact:
  assumes "0 < B" "finite_scores (prefill_score h) (segment_rows g query) sink"
  shows "prefill_ragged_kernel B h g query sink = attention (prefill_score h) (segment_rows g query) sink"
  using segment_loop_rows [OF assms(1), of "prefill_score h" g query 0 "segment_length g query" "[]"]
  by (simp add: prefill_ragged_kernel_def soft_init_of [of "prefill_score h"] segment_rows_def [symmetric] finish_row_normalised
    normalised_attention [OF assms(2)])

lemma scores_agree: "prefill_score h r = decode_score h r"
proof -
  have "[0..<nope_dim h + rope_dim h] = [0..<nope_dim h] @ [nope_dim h..<nope_dim h + rope_dim h]"
    by (rule upt_add_eq_append) simp
  then show ?thesis by (simp add: prefill_score_def decode_score_def dot_def)
qed

end
