(* ===== verification/SparsePack.thy ===== *)
theory SparsePack
  imports SparseAttention
begin

text \<open>
  Dense rows of indices packed into one flat list (\<open>build_ragged_indices_from_dense\<close> and its kernel
  in \<open>src/patches/rocm_aiter_mla_sparse.prefill-bh64.py\<close>).  A program of the kernel stores one block
  of one row; the flat memory holds what it held before where nothing is stored.  Indices are
  taken to fit 32 bits.
\<close>

section \<open>The kernel\<close>

definition pack_value :: "int \<Rightarrow> nat \<Rightarrow> int list \<Rightarrow> nat \<Rightarrow> int" where
  "pack_value limit width vals k =
     (let v = if k < width then vals ! k else -1
      in if limit \<ge> 0 then (if 0 \<le> v \<and> v < limit then v else -1) else v)"

definition pack_program :: "nat \<Rightarrow> int \<Rightarrow> nat \<Rightarrow> int list list \<Rightarrow> nat list \<Rightarrow> nat list \<Rightarrow> nat \<times> nat \<Rightarrow> int list \<Rightarrow> int list" where
  "pack_program B limit width rows lengths indptr prog out =
     (case prog of (r, b) \<Rightarrow>
        if b * B \<ge> lengths ! r then out
        else fold (\<lambda>k out. if k < lengths ! r then out[indptr ! r + k := pack_value limit width (rows ! r) k] else out)
               [b * B..<b * B + B] out)"

text \<open>The host: the lengths are clamped, a row without a length is refused.\<close>

definition clamp_lengths :: "nat \<Rightarrow> int list \<Rightarrow> nat list" where
  "clamp_lengths width lengths = map (\<lambda>l. nat (min (max l 0) (int width))) lengths"

definition build_ragged_indices_from_dense ::
  "(nat \<Rightarrow> int) \<Rightarrow> nat \<Rightarrow> int list list \<Rightarrow> int list \<Rightarrow> int \<Rightarrow> (int list \<times> nat list) option" where
  "build_ragged_indices_from_dense memory width rows lengths limit =
     (if length lengths \<noteq> length rows then None
      else let ls = clamp_lengths width lengths; indptr = indptr_of ls;
               flat = if length rows * width = 0 then []
                 else fold (pack_program 128 limit width rows ls indptr)
                   (List.product [0..<length rows] [0..<(width + 127) div 128]) (map memory [0..<length rows * width])
           in Some (flat, indptr))"

section \<open>What a program stores\<close>

text \<open>Stores in sequence of which exactly one, which is made, goes to the address.\<close>

lemma fold_store:
  assumes "\<And>p out. length (f p out) = length out"
    and "\<And>p out. p \<in> set ps \<Longrightarrow> a < length out \<Longrightarrow> f p out ! a = (if p = p0 then v else out ! a)"
    and "a < length out"
  shows "fold f ps out ! a = (if p0 \<in> set ps then v else out ! a)"
  using assms(2,3)
proof (induction ps arbitrary: out)
  case (Cons p ps)
  have "fold f ps (f p out) ! a = (if p0 \<in> set ps then v else f p out ! a)"
    using Cons.prems by (intro Cons.IH) (simp_all add: assms(1))
  then show ?case using Cons.prems by simp
qed simp

lemma length_fold_store: "(\<And>p out. length (f p out) = length out) \<Longrightarrow> length (fold f ps out) = length out"
  by (induction ps arbitrary: out) simp_all

lemma length_pack_program [simp]: "length (pack_program B limit width rows lengths indptr prog out) = length out"
  by (cases prog) (simp add: pack_program_def length_fold_store)

lemma pack_program_at:
  assumes "0 < B" "k < lengths ! r" "indptr ! r + k < length out"
    and other: "\<And>k'. k' < lengths ! r' \<Longrightarrow> indptr ! r' + k' = indptr ! r + k \<Longrightarrow> r' = r \<and> k' = k"
  shows "pack_program B limit width rows lengths indptr (r', b) out ! (indptr ! r + k)
    = (if (r', b) = (r, k div B) then pack_value limit width (rows ! r) k else out ! (indptr ! r + k))"
proof -
  let ?f = "\<lambda>k' out. if k' < lengths ! r' then out[indptr ! r' + k' := pack_value limit width (rows ! r') k'] else out"
  have inside: "k \<in> set [b * B..<b * B + B] \<longleftrightarrow> b = k div B"
  proof -
    have "b * B \<le> k \<and> k < b * B + B \<longleftrightarrow> b = k div B"
      using assms(1) dividend_less_times_div [of B k] times_div_less_eq_dividend [of B k]
      by (auto simp: ac_simps intro: div_nat_eqI [symmetric])
    then show ?thesis by simp
  qed
  have stored: "fold ?f [b * B..<b * B + B] out ! (indptr ! r + k)
      = (if r' = r \<and> b = k div B then pack_value limit width (rows ! r) k else out ! (indptr ! r + k))"
  proof (cases "r' = r")
    case True
    have "fold ?f [b * B..<b * B + B] out ! (indptr ! r + k)
        = (if k \<in> set [b * B..<b * B + B] then pack_value limit width (rows ! r) k else out ! (indptr ! r + k))"
      using assms(2,3) True by (intro fold_store) (auto simp: nth_list_update)
    with True show ?thesis unfolding inside by simp
  next
    case False
    have "fold ?f ks out ! (indptr ! r + k) = out ! (indptr ! r + k)" for ks
    proof (induction ks arbitrary: out)
      case (Cons k' ks)
      have "indptr ! r' + k' \<noteq> indptr ! r + k" if "k' < lengths ! r'" using other [OF that] False by blast
      with Cons show ?case by simp
    qed simp
    with False show ?thesis by simp
  qed
  have "k < b * B" if "lengths ! r \<le> b * B" using assms(2) that by simp
  then have "lengths ! r \<le> b * B \<Longrightarrow> b \<noteq> k div B" using inside by auto
  then show ?thesis using stored by (auto simp: pack_program_def)
qed

section \<open>The packed rows\<close>

lemma clamp_lengths_le: "r < length lengths \<Longrightarrow> clamp_lengths width lengths ! r \<le> width"
  by (simp add: clamp_lengths_def)

lemma length_clamp_lengths [simp]: "length (clamp_lengths width lengths) = length lengths"
  by (simp add: clamp_lengths_def)

lemma packed_at:
  assumes "build_ragged_indices_from_dense memory width rows lengths limit = Some (flat, indptr)"
    and "r < length rows" "k < clamp_lengths width lengths ! r"
  shows "indptr = indptr_of (clamp_lengths width lengths)"
    and "flat ! (indptr ! r + k) = pack_value limit width (rows ! r) k"
proof -
  let ?ls = "clamp_lengths width lengths"
  have len: "length lengths = length rows" using assms(1) by (simp add: build_ragged_indices_from_dense_def split: if_splits)
  have k: "k < width" using clamp_lengths_le [of r lengths width] assms(2,3) len by simp
  then have nonempty: "length rows * width \<noteq> 0" using assms(2) by auto
  show indptr: "indptr = indptr_of ?ls"
    using assms(1) len by (simp add: build_ragged_indices_from_dense_def Let_def split: if_splits)
  have flat: "flat = fold (pack_program 128 limit width rows ?ls (indptr_of ?ls))
      (List.product [0..<length rows] [0..<(width + 127) div 128]) (map memory [0..<length rows * width])"
    using assms(1) len nonempty unfolding indptr [symmetric]
    by (auto simp: build_ragged_indices_from_dense_def Let_def indptr split: if_splits)
  have "sum_list (take r' ?ls) \<le> r' * width" if "r' \<le> length rows" for r'
    using that
  proof (induction r')
    case (Suc r')
    then show ?case using clamp_lengths_le [of r' lengths width] len by (simp add: take_Suc_conv_app_nth)
  qed simp
  from this [of r] have "indptr_of ?ls ! r + k < Suc r * width" using assms(2) k len by (simp add: indptr_nth)
  moreover have "Suc r * width \<le> length rows * width" using assms(2) by (intro mult_le_mono1) simp
  ultimately have a: "indptr_of ?ls ! r + k < length (map memory [0..<length rows * width])" by simp
  have "k div 128 < (width + 127) div 128"
    using k by (simp add: less_eq_Suc_le [symmetric] div_less_iff_less_mult)
  then have in_grid: "(r, k div 128) \<in> set (List.product [0..<length rows] [0..<(width + 127) div 128])"
    using assms(2) by simp
  have "flat ! (indptr_of ?ls ! r + k)
      = (if (r, k div 128) \<in> set (List.product [0..<length rows] [0..<(width + 127) div 128])
         then pack_value limit width (rows ! r) k else map memory [0..<length rows * width] ! (indptr_of ?ls ! r + k))"
    unfolding flat
  proof (rule fold_store [OF _ _ a])
    fix prog out
    assume prog: "prog \<in> set (List.product [0..<length rows] [0..<(width + 127) div 128])"
      and out: "indptr_of ?ls ! r + k < length (out :: int list)"
    obtain r' b where p: "prog = (r', b)" by (cases prog)
    have "r' < length rows" using prog p by simp
    then show "pack_program 128 limit width rows ?ls (indptr_of ?ls) prog out ! (indptr_of ?ls ! r + k)
        = (if prog = (r, k div 128) then pack_value limit width (rows ! r) k else out ! (indptr_of ?ls ! r + k))"
      unfolding p using assms(2,3) len out places_differ [of r ?ls r' k] by (intro pack_program_at) simp_all
  qed simp
  then show "flat ! (indptr ! r + k) = pack_value limit width (rows ! r) k" using in_grid indptr by simp
qed

text \<open>The rows of a packed query are those of the valid indices in the prefix of its dense row.\<close>

lemma packed_rows:
  assumes "build_ragged_indices_from_dense memory width rows lengths (num_rows c) = Some (flat, indptr)"
    and "r < length rows" "length (rows ! r) = width"
  shows "segment_rows \<lparr> seg_cache = c, seg_indices = flat, seg_indptr = indptr \<rparr> r
    = valid_rows (map (slot_row c) (take (nat (lengths ! r)) (rows ! r)))"
proof -
  let ?ls = "clamp_lengths width lengths"
  have len: "length lengths = length rows" using assms(1) by (simp add: build_ragged_indices_from_dense_def split: if_splits)
  have indptr: "indptr = indptr_of ?ls"
    using assms(1) len by (simp add: build_ragged_indices_from_dense_def Let_def split: if_splits)
  have "?ls ! r = min (nat (lengths ! r)) width"
    using assms(2) len by (simp add: clamp_lengths_def min_def max_def nat_le_iff)
  then have prefix: "take (nat (lengths ! r)) (rows ! r) = map (\<lambda>k. rows ! r ! k) [0..<?ls ! r]"
    using assms(3) by (intro nth_equalityI) auto
  have "slot_row c (flat ! (indptr ! r + k)) = slot_row c (rows ! r ! k)" if "k < ?ls ! r" for k
    using packed_at(2) [OF assms(1,2) that] clamp_lengths_le [of r lengths width] assms(2) len that
    by (auto simp: pack_value_def slot_row_def Let_def)
  then have slots: "map (\<lambda>k. slot_row c (flat ! (indptr ! r + k))) [0..<?ls ! r] = map (\<lambda>k. slot_row c (rows ! r ! k)) [0..<?ls ! r]"
    by (intro map_cong) simp_all
  have "segment_rows \<lparr> seg_cache = c, seg_indices = flat, seg_indptr = indptr \<rparr> r
      = valid_rows (map (\<lambda>k. slot_row c (flat ! (indptr ! r + k))) [0..<?ls ! r])"
    using assms(2) len by (simp add: segment_rows_def part_rows_def segment_length_def indptr indptr_step)
  then show ?thesis unfolding slots prefix by (simp add: comp_def)
qed

end
