(* ===== verification/SparseChoice.thy ===== *)
theory SparseChoice
  imports TensorOps
begin

text \<open>
  The number of splits of the decode kernels (\<open>_decode_num_splits\<close> and \<open>_decode_partial_iters\<close> in
  \<open>src/patches/rocm_aiter_mla_sparse.prefill-bh64.py\<close>), with exact fractions for floating point.
\<close>

definition ceil_div :: "nat \<Rightarrow> nat \<Rightarrow> nat" where
  "ceil_div a b = (a + b - 1) div b"

definition decode_partial_iters :: "rat \<Rightarrow> rat \<Rightarrow> nat \<Rightarrow> nat \<Rightarrow> int" where
  "decode_partial_iters avg_main avg_extra splits block_k =
     (let main_iters = (if avg_main > 0 then \<lceil>of_int \<lceil>avg_main / of_nat splits\<rceil> / (of_nat block_k :: rat)\<rceil> else 0);
          extra_iters = (if avg_extra > 0 then \<lceil>of_int \<lceil>avg_extra / of_nat splits\<rceil> / (of_nat block_k :: rat)\<rceil> else 0)
      in main_iters + extra_iters)"

definition split_cost :: "nat \<Rightarrow> nat \<Rightarrow> nat \<Rightarrow> rat" where
  "split_cost base cu splits = of_nat (ceil_div (base * splits) cu) * (1 / of_nat splits + 4 / 100)"

definition cheaper_split :: "nat \<Rightarrow> nat \<Rightarrow> nat \<Rightarrow> nat \<times> rat option \<Rightarrow> nat \<times> rat option" where
  "cheaper_split base cu splits best =
     (let cost = split_cost base cu splits
      in case snd best of
           None \<Rightarrow> (splits, Some cost)
         | Some c \<Rightarrow> if cost < c - 1 / 10 ^ 9 then (splits, Some cost) else best)"

definition best_splits :: "nat \<Rightarrow> nat \<Rightarrow> nat" where
  "best_splits base cu = fst (fold (cheaper_split base cu) [1..<17] (1, None))"

text \<open>The chosen count is lowered while the waves and the iterations stay the same.\<close>

definition decode_num_splits :: "nat \<Rightarrow> nat \<Rightarrow> nat \<Rightarrow> rat \<Rightarrow> rat \<Rightarrow> nat \<Rightarrow> nat" where
  "decode_num_splits cu_count num_queries heads_blocks avg_main avg_extra block_k =
     (let base = max 1 (num_queries * heads_blocks); cu = max 1 cu_count; best = best_splits base cu
      in if best > 1 \<and> (avg_main > 0 \<or> avg_extra > 0)
         then (let target_waves = ceil_div (base * best) cu; target_iters = decode_partial_iters avg_main avg_extra best block_k
               in case find (\<lambda>s. ceil_div (base * s) cu = target_waves
                           \<and> decode_partial_iters avg_main avg_extra s block_k = target_iters) [1..<best] of
                    Some s \<Rightarrow> s | None \<Rightarrow> best)
         else best)"

section \<open>The search\<close>

text \<open>After some counts the kept cost is that of the kept count, and at most the tolerance above any other.\<close>

definition kept :: "nat \<Rightarrow> nat \<Rightarrow> nat set \<Rightarrow> nat \<times> rat option \<Rightarrow> bool" where
  "kept base cu seen best \<longleftrightarrow>
     (case snd best of None \<Rightarrow> seen = {}
      | Some c \<Rightarrow> fst best \<in> seen \<and> c = split_cost base cu (fst best) \<and> (\<forall>s \<in> seen. c \<le> split_cost base cu s + 1 / 10 ^ 9))"

lemma kept_step:
  assumes "kept base cu seen best"
  shows "kept base cu (insert s seen) (cheaper_split base cu s best)"
proof (cases "snd best")
  case None
  with assms show ?thesis by (simp add: kept_def cheaper_split_def)
next
  case (Some c)
  show ?thesis
  proof (cases "split_cost base cu s < c - 1 / 10 ^ 9")
    case True
    have "split_cost base cu s \<le> split_cost base cu s' + 1 / 10 ^ 9" if "s' \<in> seen" for s'
      using assms Some that True by (fastforce simp: kept_def)
    with assms Some True show ?thesis by (auto simp: kept_def cheaper_split_def)
  next
    case False
    with assms Some show ?thesis by (auto simp: kept_def cheaper_split_def)
  qed
qed

lemma kept_fold: "kept base cu seen best \<Longrightarrow> kept base cu (seen \<union> set ss) (fold (cheaper_split base cu) ss best)"
proof (induction ss arbitrary: seen best)
  case (Cons s ss)
  from Cons.IH [OF kept_step [OF Cons.prems, of s]] show ?case by simp
qed simp

lemma best_splits_kept:
  "best_splits base cu \<in> {1..16}"
  "s \<in> {1..16} \<Longrightarrow> split_cost base cu (best_splits base cu) \<le> split_cost base cu s + 1 / 10 ^ 9"
proof -
  let ?r = "fold (cheaper_split base cu) [1..<17] (1, None)"
  have "kept base cu ({} \<union> set [1..<17]) ?r" by (rule kept_fold) (simp add: kept_def)
  then have k: "kept base cu {1..16} ?r" by (simp add: atLeastLessThanSuc_atLeastAtMost [symmetric] numeral_eq_Suc del: upt_Suc)
  obtain c where c: "snd ?r = Some c" using k by (cases "snd ?r") (auto simp: kept_def)
  then show "best_splits base cu \<in> {1..16}"
    "s \<in> {1..16} \<Longrightarrow> split_cost base cu (best_splits base cu) \<le> split_cost base cu s + 1 / 10 ^ 9"
    using k by (auto simp: kept_def best_splits_def)
qed

section \<open>Full devices\<close>

lemma full_cost:
  assumes "0 < cu" "cu dvd base" "0 < s"
  shows "split_cost base cu 1 \<le> split_cost base cu s"
proof -
  obtain w where w: "base = cu * w" using assms(2) by (rule dvdE)
  have waves: "ceil_div (base * k) cu = w * k" for k
  proof -
    have "(base * k + cu - 1) div cu = (cu - 1 + (w * k) * cu) div cu" using assms(1) w by (cases cu) (simp_all add: ac_simps)
    also have "\<dots> = w * k + (cu - 1) div cu" using assms(1) by (intro div_mult_self1) simp
    finally show ?thesis using assms(1) by (simp add: ceil_div_def)
  qed
  have "split_cost base cu s = of_nat w + of_nat w * of_nat s * (4 / 100)"
    unfolding split_cost_def waves using assms(3) by (simp add: field_simps)
  moreover have "split_cost base cu 1 = of_nat w + of_nat w * (4 / 100)"
    unfolding split_cost_def waves by (simp add: field_simps)
  moreover have "(of_nat w :: rat) \<le> of_nat w * of_nat s" using assms(3) by (simp flip: of_nat_mult)
  ultimately show ?thesis by simp
qed

lemma fold_keeps_first:
  assumes "\<And>s. s \<in> set ss \<Longrightarrow> c \<le> split_cost base cu s"
  shows "fold (cheaper_split base cu) ss (k, Some c) = (k, Some c)"
  using assms
proof (induction ss)
  case (Cons s ss)
  have "cheaper_split base cu s (k, Some c) = (k, Some c)" using Cons.prems [of s] by (simp add: cheaper_split_def Let_def)
  with Cons show ?case by simp
qed simp

lemma full_device_not_split:
  assumes "0 < cu" "cu dvd base"
  shows "best_splits base cu = 1"
proof -
  have counts: "[1..<17] = 1 # [2..<17 :: nat]" by (simp add: upt_conv_Cons)
  have first: "cheaper_split base cu 1 (1, None) = (1, Some (split_cost base cu 1))"
    by (simp add: cheaper_split_def Let_def)
  have "fold (cheaper_split base cu) [2..<17] (1, Some (split_cost base cu 1)) = (1, Some (split_cost base cu 1))"
  proof (rule fold_keeps_first)
    fix s :: nat
    assume "s \<in> set [2..<17]"
    then have "0 < s" by auto
    then show "split_cost base cu 1 \<le> split_cost base cu s" by (rule full_cost [OF assms])
  qed
  then show ?thesis by (simp only: best_splits_def counts fold_simps first fst_conv)
qed

section \<open>Lowering\<close>

lemma lowered_splits:
  fixes cu q hb bk :: nat and am ae :: rat
  defines "base \<equiv> max 1 (q * hb)" and "c \<equiv> max 1 cu" and "n \<equiv> decode_num_splits cu q hb am ae bk"
  shows "1 \<le> n \<and> n \<le> best_splits base c
    \<and> ceil_div (base * n) c = ceil_div (base * best_splits base c) c
    \<and> decode_partial_iters am ae n bk = decode_partial_iters am ae (best_splits base c) bk"
proof -
  let ?b = "best_splits base c"
  let ?P = "\<lambda>s. ceil_div (base * s) c = ceil_div (base * ?b) c
    \<and> decode_partial_iters am ae s bk = decode_partial_iters am ae ?b bk"
  have n: "n = (if ?b > 1 \<and> (am > 0 \<or> ae > 0) then case find ?P [1..<?b] of Some s \<Rightarrow> s | None \<Rightarrow> ?b else ?b)"
    unfolding n_def decode_num_splits_def Let_def base_def [symmetric] c_def [symmetric] by simp
  have range: "1 \<le> ?b" using best_splits_kept(1) [of base c] by simp
  show ?thesis
  proof (cases "find ?P [1..<?b]")
    case None
    then show ?thesis using n range by simp
  next
    case (Some s)
    then have "s \<in> set [1..<?b]" "?P s" by (auto simp: find_Some_iff)
    then show ?thesis using n Some range by auto
  qed
qed

section \<open>Properties\<close>



text \<open>Remark: a batch of one on 256 compute units.\<close>

lemma single_query_splits: "best_splits 1 256 = 16"
  by (code_simp)

end
