(* ===== verification/SparseDecode.thy ===== *)
theory SparseDecode
  imports SparseSplit SparsePack SparseChoice
begin

text \<open>
  The host side of sparse attention (\<open>_rocm_sparse_attn_decode_ragged_triton\<close>,
  \<open>_rocm_sparse_attn_decode_triton\<close>, \<open>rocm_sparse_attn_decode\<close> and the two prefill functions in
  \<open>src/patches/rocm_aiter_mla_sparse.prefill-bh64.py\<close>): the packing of dense indices, the checks, and the
  choice between the one-pass and the split kernels.  An index list comes dense, with the
  width of its rows and optional lengths, or already packed.
\<close>

record index_source =
  src_cache :: kv_cache
  src_dense :: "int list list option"
  src_width :: nat
  src_lengths :: "int list option"
  src_ragged_indices :: "int list option"
  src_ragged_indptr :: "nat list option"

record decode_launch =
  tuned :: bool
  cu_count :: nat
  num_queries :: nat
  num_heads :: nat

definition validate_dsv4_sparse_dims :: "nat \<Rightarrow> nat \<Rightarrow> nat \<Rightarrow> bool" where
  "validate_dsv4_sparse_dims head_dim nope rope \<longleftrightarrow> head_dim = nope + rope \<and> nope = 448 \<and> rope = 64"

text \<open>Without lengths, the number of the indices that are not negative stands for the length of the prefix.\<close>

definition dense_lengths :: "int list list \<Rightarrow> int list option \<Rightarrow> int list" where
  "dense_lengths rows lengths =
     (case lengths of Some ls \<Rightarrow> ls | None \<Rightarrow> map (\<lambda>vals. int (length (filter (\<lambda>v. v \<ge> 0) vals))) rows)"

definition has_indices :: "index_source \<Rightarrow> bool" where
  "has_indices s \<longleftrightarrow> src_dense s \<noteq> None \<or> (src_ragged_indices s \<noteq> None \<and> src_ragged_indptr s \<noteq> None)"

definition as_segment :: "(nat \<Rightarrow> int) \<Rightarrow> index_source \<Rightarrow> segment option" where
  "as_segment memory s =
     (case (src_ragged_indices s, src_ragged_indptr s) of
        (Some ix, Some ip) \<Rightarrow> Some \<lparr> seg_cache = src_cache s, seg_indices = ix, seg_indptr = ip \<rparr>
      | _ \<Rightarrow> (case src_dense s of
            None \<Rightarrow> None
          | Some rows \<Rightarrow> map_option (\<lambda>(ix, ip). \<lparr> seg_cache = src_cache s, seg_indices = ix, seg_indptr = ip \<rparr>)
              (build_ragged_indices_from_dense memory (src_width s) rows (dense_lengths rows (src_lengths s))
                (num_rows (src_cache s)))))"

section \<open>Decoding\<close>

text \<open>The averages are the sizes of the flat lists over the number of queries.\<close>

definition average_length :: "decode_launch \<Rightarrow> segment \<Rightarrow> rat" where
  "average_length e g = of_nat (length (seg_indices g)) / of_nat (max 1 (num_queries e))"

definition launch_splits :: "decode_launch \<Rightarrow> segment \<Rightarrow> segment option \<Rightarrow> nat" where
  "launch_splits e main extra =
     decode_num_splits (cu_count e) (num_queries e) ((num_heads e + 15) div 16) (average_length e main)
       (case extra of None \<Rightarrow> 0 | Some g \<Rightarrow> average_length e g) 32"

definition sparse_attn_decode_ragged :: "decode_launch \<Rightarrow> head_query \<Rightarrow> segment \<Rightarrow> segment option \<Rightarrow> nat \<Rightarrow> real option \<Rightarrow> row option" where
  "sparse_attn_decode_ragged e h main extra query sink =
     (let head_dim = nope_dim h + rope_dim h
      in if length (seg_indptr main) \<noteq> num_queries e + 1 then None
         else if \<not> validate_dsv4_sparse_dims head_dim (nope_dim h) (rope_dim h) then None
         else if (case extra of None \<Rightarrow> False | Some g \<Rightarrow> length (seg_indptr g) \<noteq> num_queries e + 1) then None
         else if \<not> tuned e
         then Some (decode_ragged_kernel (if head_dim \<ge> 256 then 16 else 32) h main extra query sink)
         else Some (split_decode 32 (launch_splits e main extra) h main extra query sink))"

definition sparse_attn_decode_triton ::
  "(nat \<Rightarrow> int) \<Rightarrow> decode_launch \<Rightarrow> head_query \<Rightarrow> index_source \<Rightarrow> index_source option \<Rightarrow> nat \<Rightarrow> real option \<Rightarrow> row option" where
  "sparse_attn_decode_triton memory e h main extra query sink =
     (case as_segment memory main of
        None \<Rightarrow> None
      | Some m \<Rightarrow> (case extra of
            None \<Rightarrow> sparse_attn_decode_ragged e h m None query sink
          | Some x \<Rightarrow>
              if \<not> has_indices x then sparse_attn_decode_ragged e h m None query sink
              else (case as_segment memory x of
                  None \<Rightarrow> None
                | Some g \<Rightarrow> sparse_attn_decode_ragged e h m (Some g) query sink)))"

text \<open>The entry point: the compressed cache takes part unless the layer has sliding windows only, and then
  it needs indices in one of the two forms.\<close>

definition rocm_sparse_attn_decode ::
  "(nat \<Rightarrow> int) \<Rightarrow> decode_launch \<Rightarrow> head_query \<Rightarrow> bool \<Rightarrow> index_source \<Rightarrow> index_source option \<Rightarrow> nat \<Rightarrow> real option \<Rightarrow> row option" where
  "rocm_sparse_attn_decode memory e h swa_only swa topk query sink =
     (if \<not> validate_dsv4_sparse_dims (nope_dim h + rope_dim h) (nope_dim h) (rope_dim h) then None
      else if swa_only then sparse_attn_decode_triton memory e h swa None query sink
      else case topk of
             None \<Rightarrow> None
           | Some x \<Rightarrow>
               if \<not> has_indices x then None
               else sparse_attn_decode_triton memory e h swa (Some x) query sink)"

section \<open>Prefill\<close>

definition sparse_attn_prefill_ragged :: "decode_launch \<Rightarrow> head_query \<Rightarrow> segment \<Rightarrow> nat \<Rightarrow> real option \<Rightarrow> row option" where
  "sparse_attn_prefill_ragged e h g query sink =
     (let head_dim = nope_dim h + rope_dim h
      in if length (seg_indptr g) \<noteq> num_queries e + 1 then None
         else if \<not> validate_dsv4_sparse_dims head_dim (nope_dim h) (rope_dim h) then None
         else Some (prefill_ragged_kernel (if head_dim \<ge> 256 then 16 else 32) h g query sink))"

definition rocm_sparse_attn_prefill :: "(nat \<Rightarrow> int) \<Rightarrow> decode_launch \<Rightarrow> head_query \<Rightarrow> index_source \<Rightarrow> nat \<Rightarrow> real option \<Rightarrow> row option" where
  "rocm_sparse_attn_prefill memory e h s query sink =
     (if \<not> validate_dsv4_sparse_dims (nope_dim h + rope_dim h) (nope_dim h) (rope_dim h) then None
      else case as_segment memory s of None \<Rightarrow> None | Some g \<Rightarrow> sparse_attn_prefill_ragged e h g query sink)"

section \<open>Dense sources\<close>

text \<open>A dense source of a launch: a row of the given width and a length for every query.\<close>

definition dense_source :: "decode_launch \<Rightarrow> index_source \<Rightarrow> bool" where
  "dense_source e s \<longleftrightarrow>
     (src_ragged_indices s = None \<or> src_ragged_indptr s = None)
     \<and> (case src_dense s of
          None \<Rightarrow> False
        | Some rows \<Rightarrow> length rows = num_queries e \<and> list_all (\<lambda>vals. length vals = src_width s) rows
            \<and> length (dense_lengths rows (src_lengths s)) = length rows)"

text \<open>The cache rows that a query lists: those of the valid indices in the prefix of its row.\<close>

definition source_rows :: "index_source \<Rightarrow> nat \<Rightarrow> row list" where
  "source_rows s query =
     (case src_dense s of
        None \<Rightarrow> []
      | Some rows \<Rightarrow> valid_rows (map (slot_row (src_cache s))
          (take (nat (dense_lengths rows (src_lengths s) ! query)) (rows ! query))))"

lemma dense_segment:
  assumes "dense_source e s" "query < num_queries e"
  obtains g where "as_segment memory s = Some g" "length (seg_indptr g) = num_queries e + 1"
    "segment_rows g query = source_rows s query"
proof -
  obtain rows where rows: "src_dense s = Some rows" "length rows = num_queries e"
      "list_all (\<lambda>vals. length vals = src_width s) rows" "length (dense_lengths rows (src_lengths s)) = length rows"
    using assms(1) by (auto simp: dense_source_def split: option.splits)
  let ?b = "build_ragged_indices_from_dense memory (src_width s) rows (dense_lengths rows (src_lengths s)) (num_rows (src_cache s))"
  obtain ix ip where b: "?b = Some (ix, ip)"
    using rows(4) by (simp add: build_ragged_indices_from_dense_def Let_def)
  have ip: "length ip = num_queries e + 1"
    using b rows by (simp add: build_ragged_indices_from_dense_def Let_def split: if_splits) auto
  have "as_segment memory s = Some \<lparr> seg_cache = src_cache s, seg_indices = ix, seg_indptr = ip \<rparr>"
    using assms(1) b rows(1) by (auto simp: as_segment_def dense_source_def split: option.splits)
  moreover have "segment_rows \<lparr> seg_cache = src_cache s, seg_indices = ix, seg_indptr = ip \<rparr> query = source_rows s query"
    using packed_rows [OF b] rows assms(2) by (simp add: source_rows_def list_all_length)
  ultimately show thesis using that ip by simp
qed

lemma dense_has_indices: "dense_source e s \<Longrightarrow> has_indices s"
  by (auto simp: dense_source_def has_indices_def split: option.splits)

lemma launch_splits_pos: "0 < launch_splits e main extra"
  unfolding launch_splits_def
  by (rule order.strict_trans2 [OF zero_less_one]) (simp only: lowered_splits)

section \<open>Properties\<close>

text \<open>C35: Decoding from dense indices computes exactly the attention over the cache rows of the valid indices in
  each row's prefix, of both caches where the layer has two, whatever was in the flat memory, on
  tuned and untuned devices, and for the number of splits that the launch chooses.\<close>

theorem sparse_decode_exact:
  assumes "nope_dim h = 448" "rope_dim h = 64" "query < num_queries e"
    and "dense_source e swa" "\<not> swa_only \<Longrightarrow> topk \<noteq> None \<and> dense_source e (the topk)"
    and "finite_scores (decode_score h) (source_rows swa query @ (if swa_only then [] else source_rows (the topk) query)) sink"
  shows "rocm_sparse_attn_decode memory e h swa_only swa topk query sink
    = Some (attention (decode_score h) (source_rows swa query @ (if swa_only then [] else source_rows (the topk) query)) sink)"
proof -
  obtain m where m: "as_segment memory swa = Some m" "length (seg_indptr m) = num_queries e + 1"
      "segment_rows m query = source_rows swa query"
    using dense_segment [OF assms(4,3)] by blast
  have ragged: "sparse_attn_decode_ragged e h m extra query sink = Some (attention (decode_score h) (rows_of_query m extra query) sink)"
    if "case extra of None \<Rightarrow> True | Some g \<Rightarrow> length (seg_indptr g) = num_queries e + 1"
      and "finite_scores (decode_score h) (rows_of_query m extra query) sink" for extra
    using that m(2) assms(1,2) split_decode_exact [OF _ launch_splits_pos _ that(2), of 32 16 e m extra]
    by (simp add: sparse_attn_decode_ragged_def validate_dsv4_sparse_dims_def Let_def split: option.splits)
  show ?thesis
  proof (cases swa_only)
    case True
    then show ?thesis
      using ragged [of None] m assms(1,2,6)
      by (simp add: rocm_sparse_attn_decode_def sparse_attn_decode_triton_def validate_dsv4_sparse_dims_def rows_of_query_def)
  next
    case False
    then obtain x where x: "topk = Some x" "dense_source e x" using assms(5) by auto
    obtain g where g: "as_segment memory x = Some g" "length (seg_indptr g) = num_queries e + 1"
        "segment_rows g query = source_rows x query"
      using dense_segment [OF x(2) assms(3)] by blast
    show ?thesis
      using ragged [of "Some g"] m g x False dense_has_indices [OF x(2)] assms(1,2,6)
      by (simp add: rocm_sparse_attn_decode_def sparse_attn_decode_triton_def validate_dsv4_sparse_dims_def rows_of_query_def)
  qed
qed

definition demo_cache :: kv_cache where
  "demo_cache = \<lparr> num_rows = 8, block_size = 4, row_at = (\<lambda>b p d. if d = 0 then of_int b else of_int p) \<rparr>"

definition demo_head :: head_query where
  "demo_head = \<lparr> q_row = (\<lambda>_. 0), nope_dim = 448, rope_dim = 64, q_scale = 1 \<rparr>"

definition demo_source :: "int list \<Rightarrow> int \<Rightarrow> index_source" where
  "demo_source vals len = \<lparr> src_cache = demo_cache, src_dense = Some [vals], src_width = length vals,
     src_lengths = Some [len], src_ragged_indices = None, src_ragged_indptr = None \<rparr>"

definition demo_launch :: decode_launch where
  "demo_launch = \<lparr> tuned = True, cu_count = 256, num_queries = 1, num_heads = 16 \<rparr>"

theorem sparse_decode_exact_witness:
  "map_option (\<lambda>r. r 1) (rocm_sparse_attn_decode (\<lambda>_. 7) demo_launch demo_head False
      (demo_source [5, -1, 2, 6] 3) (Some (demo_source [7, 9] 2)) 0 None) = Some 2"
proof -
  let ?swa = "demo_source [5, -1, 2, 6] 3" and ?topk = "demo_source [7, 9] 2"
  have rows: "source_rows ?swa 0 = [row_at demo_cache 1 1, row_at demo_cache 0 2]" "source_rows ?topk 0 = [row_at demo_cache 1 3]"
    by (simp_all add: source_rows_def demo_source_def dense_lengths_def slot_row_def demo_cache_def)
  have score: "decode_score demo_head r = 0" for r by (simp add: decode_score_def demo_head_def dot_def)
  have fin: "finite_scores (decode_score demo_head) (source_rows ?swa 0 @ (if False then [] else source_rows (the (Some ?topk)) 0)) None"
    by (simp add: finite_scores_def rows score neg_large_def)
  have dense: "dense_source demo_launch ?swa" "dense_source demo_launch ?topk"
    by (simp_all add: dense_source_def demo_source_def demo_launch_def dense_lengths_def)
  have "rocm_sparse_attn_decode (\<lambda>_. 7) demo_launch demo_head False ?swa (Some ?topk) 0 None
      = Some (attention (decode_score demo_head) (source_rows ?swa 0 @ (if False then [] else source_rows (the (Some ?topk)) 0)) None)"
    by (rule sparse_decode_exact) (simp_all add: dense fin [simplified], simp_all add: demo_head_def demo_launch_def)
  then show ?thesis by (simp add: attention_def rows score sink_weight_def demo_cache_def)
qed

text \<open>Prefill computes the same attention from its source.\<close>

lemma sparse_prefill_exact:
  assumes "nope_dim h = 448" "rope_dim h = 64" "query < num_queries e" "dense_source e s"
    and "finite_scores (prefill_score h) (source_rows s query) sink"
  shows "rocm_sparse_attn_prefill memory e h s query sink = Some (attention (prefill_score h) (source_rows s query) sink)"
proof -
  obtain g where g: "as_segment memory s = Some g" "length (seg_indptr g) = num_queries e + 1"
      "segment_rows g query = source_rows s query"
    using dense_segment [OF assms(4,3)] by blast
  then show ?thesis
    using prefill_exact [of 16 h g query sink] assms
    by (simp add: rocm_sparse_attn_prefill_def sparse_attn_prefill_ragged_def validate_dsv4_sparse_dims_def)
qed

text \<open>Remark: the average that the launch computes from packed dense rows is the width of the rows.\<close>

lemma average_is_width:
  assumes "dense_source e s" "0 < num_queries e" "as_segment memory s = Some g"
  shows "average_length e g = of_nat (src_width s)"
proof -
  have "length (fold (pack_program B limit w rows ls ip) ps out) = length out" for B limit w rows ls ip ps out
    by (rule length_fold_store) simp
  then have "length (seg_indices g) = num_queries e * src_width s"
    using assms by (auto simp: as_segment_def dense_source_def build_ragged_indices_from_dense_def Let_def split: option.splits if_splits)
  then show ?thesis using assms(2) by (simp add: average_length_def)
qed

text \<open>Remark: without lengths, a masked index in front of a valid one takes its place in the prefix.\<close>

lemma counted_prefix_drops:
  "source_rows (demo_source [-1, 5] 2) 0 = [row_at demo_cache 1 1]"
  "source_rows ((demo_source [-1, 5] 2) \<lparr> src_lengths := None \<rparr>) 0 = []"
  by (simp_all add: source_rows_def demo_source_def dense_lengths_def slot_row_def demo_cache_def)

end
