(* ===== verification/MoeSort.thy ===== *)
theory MoeSort
  imports TensorOps "HOL-Library.Multiset"
begin

text \<open>
  Assignments of rows to experts in the order of the experts, and the stores of kernels: the
  ground on which both routing algorithms are compared.
\<close>

section \<open>Stores\<close>

definition store_all :: "(nat \<times> 'a) list \<Rightarrow> 'a list \<Rightarrow> 'a list" where
  "store_all ws xs = fold (\<lambda>(i, v) xs. xs[i := v]) ws xs"

lemma store_all_simps [simp]:
  "store_all [] xs = xs" "store_all ((i, v) # ws) xs = store_all ws (xs[i := v])"
  by (simp_all add: store_all_def)

lemma length_store_all [simp]: "length (store_all ws xs) = length xs"
  by (induction ws arbitrary: xs) auto

text \<open>Stores that agree on the address.\<close>

lemma store_all_other: "i \<notin> fst ` set ws \<Longrightarrow> store_all ws xs ! i = xs ! i"
  by (induction ws arbitrary: xs) auto

lemma store_all_hit:
  assumes "(i, v) \<in> set ws" "\<And>v'. (i, v') \<in> set ws \<Longrightarrow> v' = v" "i < length xs"
  shows "store_all ws xs ! i = v"
  using assms
proof (induction ws arbitrary: xs)
  case (Cons w ws)
  obtain j u where w: "w = (j, u)" by (cases w)
  show ?case
  proof (cases "(i, v) \<in> set ws")
    case True
    then show ?thesis using Cons.IH [OF True] Cons.prems w by simp
  next
    case False
    then have "j = i" "u = v" using Cons.prems(1) w by auto
    moreover have "i \<notin> fst ` set ws" using False Cons.prems(2) by force
    ultimately show ?thesis using w Cons.prems(3) by (simp add: store_all_other)
  qed
qed simp

section \<open>Assignments by expert\<close>

definition of_expert :: "int list \<Rightarrow> nat \<Rightarrow> nat list" where
  "of_expert ids e = filter (\<lambda>g. ids ! g = int e) [0..<length ids]"

definition by_expert :: "nat \<Rightarrow> int list \<Rightarrow> nat list" where
  "by_expert E ids = concat (map (of_expert ids) [0..<E])"

definition earlier :: "int list \<Rightarrow> nat \<Rightarrow> nat" where
  "earlier ids g = length (filter (\<lambda>k. ids ! k = ids ! g) [0..<g])"

text \<open>The place of an assignment.\<close>

definition place :: "int list \<Rightarrow> nat \<Rightarrow> nat" where
  "place ids g = length (by_expert (nat (ids ! g)) ids) + earlier ids g"

lemma by_expert_Suc: "by_expert (Suc E) ids = by_expert E ids @ of_expert ids E"
  by (simp add: by_expert_def)

lemma by_expert_split: "e < E \<Longrightarrow> by_expert E ids = by_expert e ids @ of_expert ids e @ concat (map (of_expert ids) [Suc e..<E])"
  using upt_split [of 0 e E] upt_conv_Cons [of e E] by (simp add: by_expert_def)

lemma set_by_expert: "set (by_expert E ids) = {g. g < length ids \<and> 0 \<le> ids ! g \<and> ids ! g < int E}"
proof
  show "{g. g < length ids \<and> 0 \<le> ids ! g \<and> ids ! g < int E} \<subseteq> set (by_expert E ids)"
  proof
    fix g
    assume "g \<in> {g. g < length ids \<and> 0 \<le> ids ! g \<and> ids ! g < int E}"
    then have "nat (ids ! g) < E" "g \<in> set (of_expert ids (nat (ids ! g)))" by (auto simp: of_expert_def)
    then show "g \<in> set (by_expert E ids)" by (auto simp: by_expert_def)
  qed
qed (auto simp: by_expert_def of_expert_def)

lemma of_expert_place:
  assumes "g < length ids" "ids ! g = int e"
  shows "earlier ids g < length (of_expert ids e)" "of_expert ids e ! earlier ids g = g"
proof -
  have "[0..<length ids] = [0..<g] @ g # [Suc g..<length ids]"
    using assms(1) upt_split [of 0 g "length ids"] by (simp add: upt_conv_Cons)
  then have "of_expert ids e = filter (\<lambda>k. ids ! k = int e) [0..<g] @ g # filter (\<lambda>k. ids ! k = int e) [Suc g..<length ids]"
    using assms(2) by (simp add: of_expert_def)
  then show "earlier ids g < length (of_expert ids e)" "of_expert ids e ! earlier ids g = g"
    using assms(2) by (simp_all add: earlier_def)
qed

lemma by_expert_place:
  assumes "g < length ids" "0 \<le> ids ! g" "ids ! g < int E"
  shows "place ids g < length (by_expert E ids)" "by_expert E ids ! place ids g = g"
proof -
  let ?e = "nat (ids ! g)"
  have e: "?e < E" "ids ! g = int ?e" using assms by simp_all
  show "place ids g < length (by_expert E ids)" "by_expert E ids ! place ids g = g"
    unfolding by_expert_split [OF e(1)] place_def using of_expert_place [OF assms(1) e(2)] by (simp_all add: nth_append)
qed

lemma distinct_by_expert: "distinct (by_expert E ids)"
proof (induction E)
  case (Suc E)
  have "set (by_expert E ids) \<inter> set (of_expert ids E) = {}" by (auto simp: set_by_expert of_expert_def)
  with Suc show ?case by (simp add: by_expert_Suc) (simp add: of_expert_def)
qed (simp add: by_expert_def)

lemma place_inj:
  assumes "r < length (by_expert E ids)"
  shows "place ids (by_expert E ids ! r) = r"
proof -
  let ?g = "by_expert E ids ! r"
  have "?g \<in> set (by_expert E ids)" using assms by simp
  then have "place ids ?g < length (by_expert E ids)" "by_expert E ids ! place ids ?g = ?g"
    using by_expert_place [of ?g ids E] by (simp_all add: set_by_expert)
  then show ?thesis using assms distinct_by_expert nth_eq_iff_index_eq by blast
qed

section \<open>Sorting by keys\<close>

text \<open>
  Keys that order the assignments by expert and then by position, with greater keys for what has
  no expert: sorting them gives the order by expert.
\<close>

lemma sorted_by_expert:
  fixes key :: "nat \<Rightarrow> 'k :: linorder"
  assumes "\<And>g h. g < length ids \<Longrightarrow> h < length ids \<Longrightarrow> 0 \<le> ids ! g \<Longrightarrow> ids ! h < int E \<Longrightarrow>
      ids ! g < ids ! h \<or> ids ! g = ids ! h \<and> g < h \<Longrightarrow> key g \<le> key h"
  shows "sorted (map key (by_expert E ids))"
  using assms
proof (induction E)
  case (Suc E)
  have "sorted_wrt (<) (of_expert ids E)"
    unfolding of_expert_def by (rule sorted_wrt_filter) (simp add: sorted_wrt_upt)
  then have "sorted_wrt (\<lambda>g h. key g \<le> key h) (of_expert ids E)"
  proof (rule sorted_wrt_mono_rel [rotated])
    fix g h
    assume "g \<in> set (of_expert ids E)" "h \<in> set (of_expert ids E)" "g < h"
    then show "key g \<le> key h" by (intro Suc.prems) (auto simp: of_expert_def)
  qed
  moreover have "key g \<le> key h" if "g \<in> set (by_expert E ids)" "h \<in> set (of_expert ids E)" for g h
    using that by (intro Suc.prems) (auto simp: set_by_expert of_expert_def)
  moreover have "sorted (map key (by_expert E ids))" using Suc by simp
  ultimately show ?case by (simp add: by_expert_Suc sorted_append sorted_map)
qed (simp add: by_expert_def)

lemma sort_keys:
  fixes key :: "nat \<Rightarrow> 'k :: linorder"
  assumes "length ids \<le> S"
    and order: "\<And>g h. g < length ids \<Longrightarrow> h < length ids \<Longrightarrow> 0 \<le> ids ! g \<Longrightarrow> ids ! h < int E \<Longrightarrow>
      ids ! g < ids ! h \<or> ids ! g = ids ! h \<and> g < h \<Longrightarrow> key g \<le> key h"
    and greater: "\<And>g h. g \<in> set (by_expert E ids) \<Longrightarrow> h < S \<Longrightarrow> h \<notin> set (by_expert E ids) \<Longrightarrow> key g \<le> key h"
  shows "sort (map key [0..<S])
    = map key (by_expert E ids) @ sort (map key (filter (\<lambda>g. g \<notin> set (by_expert E ids)) [0..<S]))"
proof (rule properties_for_sort)
  have "mset (by_expert E ids) = mset (filter (\<lambda>g. g \<in> set (by_expert E ids)) [0..<S])"
  proof -
    have "set (by_expert E ids) = set (filter (\<lambda>g. g \<in> set (by_expert E ids)) [0..<S])"
      using assms(1) by (auto simp: set_by_expert)
    then show ?thesis by (intro iffD1 [OF set_eq_iff_mset_eq_distinct]) (simp_all add: distinct_by_expert)
  qed
  then have "image_mset key (mset (by_expert E ids)) + image_mset key (mset (filter (\<lambda>g. g \<notin> set (by_expert E ids)) [0..<S]))
      = image_mset key (mset [0..<S])"
    by (simp only: image_mset_union [symmetric] mset_filter multiset_partition [symmetric])
  then show "mset (map key (by_expert E ids) @ sort (map key (filter (\<lambda>g. g \<notin> set (by_expert E ids)) [0..<S]))) = mset (map key [0..<S])"
    by simp
  show "sorted (map key (by_expert E ids) @ sort (map key (filter (\<lambda>g. g \<notin> set (by_expert E ids)) [0..<S])))"
    using sorted_by_expert [of ids E key, OF order] greater by (auto simp: sorted_append)
qed

end
