(* ===== verification/MoeStage.thy ===== *)
theory MoeStage
  imports MoeSort "HOL-Library.Word"
begin

text \<open>
  The block sort of the bit matrix routing for counts of experts that are not a power of two
  (\<open>_stage2_pow2\<close> and \<open>_routing_compute_indx_pow2\<close> in
  \<open>src/patches/gpt_oss_triton_kernels_moe.pack128-fused-silu-fast-routing.py\<close>): pairs of an expert and a position
  in 32-bit words are sorted, and a scan counts the run of every expert.  The library's operator
  of the scan is a parameter.
\<close>

unbundle bit_operations_syntax

section \<open>The kernel\<close>

text \<open>A load of \<open>-1\<close> converted to an unsigned word keeps ones in its upper half.\<close>

definition pack_kv :: "int \<Rightarrow> nat \<Rightarrow> 32 word" where
  "pack_kv col off = push_bit 16 (word_of_int col) OR word_of_nat off"

definition kv_col :: "32 word \<Rightarrow> nat" where "kv_col w = unat (drop_bit 16 w)"

definition kv_off :: "32 word \<Rightarrow> nat" where "kv_off w = unat (w AND 0xFFFF)"

fun scan_from :: "('a \<Rightarrow> 'a \<Rightarrow> 'a) \<Rightarrow> 'a \<Rightarrow> 'a list \<Rightarrow> 'a list" where
  "scan_from f a [] = []"
| "scan_from f a (x # xs) = f a x # scan_from f (f a x) xs"

fun associative_scan :: "('a \<Rightarrow> 'a \<Rightarrow> 'a) \<Rightarrow> 'a list \<Rightarrow> 'a list" where
  "associative_scan f [] = []"
| "associative_scan f (x # xs) = x # scan_from f x xs"

text \<open>The columns that a block loads, with the padded lanes.\<close>

definition block_columns :: "nat \<Rightarrow> nat \<Rightarrow> int list \<Rightarrow> nat \<Rightarrow> int list" where
  "block_columns block_size padded ids b =
     map (\<lambda>k. if k < block_size \<and> b * block_size + k < length ids then ids ! (b * block_size + k) else - 1) [0..<padded]"

text \<open>The sorted words of a block with their runs; the places of its assignments.\<close>

definition block_runs :: "(32 word \<Rightarrow> 32 word \<Rightarrow> 32 word) \<Rightarrow> int list \<Rightarrow> (32 word \<times> nat) list" where
  "block_runs keyed_add cols =
     (let kv = sort (map2 pack_kv cols [0..<length cols]);
          runs = associative_scan keyed_add (map (\<lambda>w. (w AND 0xFFFF0000) OR 1) kv)
      in zip kv (map (\<lambda>r. unat ((r - 1) AND 0xFFFF)) runs))"

definition block_places ::
  "(32 word \<Rightarrow> 32 word \<Rightarrow> 32 word) \<Rightarrow> nat \<Rightarrow> nat \<Rightarrow> (nat \<Rightarrow> nat \<Rightarrow> nat) \<Rightarrow> (nat \<Rightarrow> nat) \<Rightarrow> int list \<Rightarrow> nat \<Rightarrow> (nat \<times> nat) list" where
  "block_places keyed_add block_size padded partial col_offs ids b =
     map (\<lambda>(w, run). (b * block_size + kv_off w, partial b (kv_col w) + col_offs (kv_col w) + run))
       (filter (\<lambda>(w, run). kv_col w \<noteq> 0xFFFF) (block_runs keyed_add (block_columns block_size padded ids b)))"

text \<open>All blocks store into the two index columns, which hold \<open>-1\<close> at the start.\<close>

definition stage2 ::
  "(32 word \<Rightarrow> 32 word \<Rightarrow> 32 word) \<Rightarrow> nat \<Rightarrow> nat \<Rightarrow> nat \<Rightarrow> (nat \<Rightarrow> nat \<Rightarrow> nat) \<Rightarrow> (nat \<Rightarrow> nat) \<Rightarrow> int list \<Rightarrow> int list \<times> int list" where
  "stage2 keyed_add block_size padded blocks partial col_offs ids =
     (let ws = concat (map (block_places keyed_add block_size padded partial col_offs ids) [0..<blocks])
      in (store_all (map (\<lambda>(g, v). (v, int g)) ws) (replicate (length ids) (- 1)),
          store_all (map (\<lambda>(g, v). (g, int v)) ws) (replicate (length ids) (- 1))))"

section \<open>Words\<close>

lemma low_half: "w AND 0xFFFF = take_bit 16 w" for w :: "32 word"
  by (simp add: take_bit_eq_mask mask_eq_exp_minus_1)

lemma kv_off_mod: "kv_off w = unat w mod 65536"
  unfolding kv_off_def low_half by (simp add: take_bit_eq_mod unat_mod_distrib)

lemma kv_col_div: "kv_col w = unat w div 65536"
  unfolding kv_col_def by (simp add: drop_bit_eq_div unat_div_distrib)

lemma word_parts: "unat w = kv_col w * 65536 + kv_off w"
  by (simp add: kv_col_div kv_off_mod)

lemma unat_pack_kv:
  assumes "0 \<le> col" "col < 65536" "off < 65536"
  shows "unat (pack_kv col off) = nat col * 65536 + off"
proof -
  have "bit (push_bit 16 (word_of_int col :: 32 word)) n \<Longrightarrow> \<not> bit (word_of_nat off :: 32 word) n" for n
  proof
    assume a: "bit (push_bit 16 (word_of_int col :: 32 word)) n" "bit (word_of_nat off :: 32 word) n"
    then have "16 \<le> n" by (simp add: bit_push_bit_iff)
    moreover have "bit (take_bit 16 off) n"
      using a(2) assms(3) by (simp add: bit_of_nat_iff take_bit_nat_eq_self)
    ultimately show False by (simp add: bit_take_bit_iff)
  qed
  then have "pack_kv col off = push_bit 16 (word_of_int col) + word_of_nat off"
    unfolding pack_kv_def by (subst disjunctive_add) auto
  then have eq: "pack_kv col off = word_of_nat (nat col * 65536 + off)"
    using assms by (simp add: push_bit_eq_mult)
  have "nat col \<le> 65535" using assms by simp
  then have "nat col * 65536 + off < 2 ^ LENGTH(32)" using assms(3) by simp
  then show ?thesis unfolding eq by (simp only: unat_of_nat mod_less)
qed

lemma pack_kv_parts:
  assumes "0 \<le> col" "col < 65536" "off < 65536"
  shows "kv_col (pack_kv col off) = nat col" "kv_off (pack_kv col off) = off"
  using assms by (simp_all add: kv_col_div kv_off_mod unat_pack_kv)

text \<open>An invalid column is all ones.\<close>

lemma pack_kv_invalid:
  assumes "off < 65536"
  shows "pack_kv (- 1) off = pack_kv 65535 off"
proof -
  have "push_bit 16 (word_of_int (- 1) :: 32 word) = push_bit 16 (word_of_int 65535)"
    by (simp add: push_bit_eq_mult)
  then show ?thesis by (simp add: pack_kv_def)
qed

text \<open>The word of a run: the column with a count of one.\<close>

definition run_word :: "32 word \<Rightarrow> 32 word" where
  "run_word w = (w AND 0xFFFF0000) OR 1"

lemma run_word_parts: "kv_col (run_word w) = kv_col w" "kv_off (run_word w) = 1"
proof -
  have mask: "(0xFFFF0000 :: 32 word) = push_bit 16 (mask 16)" by (simp add: mask_eq_exp_minus_1 push_bit_eq_mult)
  have "drop_bit 16 (run_word w) = drop_bit 16 w"
    unfolding run_word_def mask by (rule bit_word_eqI) (auto simp: bit_simps dest: bit_imp_le_length)
  then show "kv_col (run_word w) = kv_col w" by (simp add: kv_col_def)
  have "run_word w AND 0xFFFF = 1"
    unfolding run_word_def low_half mask by (rule bit_word_eqI) (auto simp: bit_simps)
  then show "kv_off (run_word w) = 1" by (simp add: kv_off_def)
qed

lemma exclusive_run:
  assumes "0 < kv_off r"
  shows "unat ((r - 1) AND 0xFFFF) = kv_off r - 1"
proof -
  have pos: "0 < unat r" using assms word_parts [of r] by simp
  then have "unat (r - 1) = unat r - 1" by (simp add: unat_minus_one unat_gt_0)
  then have "unat ((r - 1) AND 0xFFFF) = (unat r - 1) mod 65536"
    by (simp add: low_half take_bit_eq_mod unat_mod_distrib)
  also have "unat r - 1 = kv_off r - 1 + kv_col r * 65536" using assms word_parts [of r] by linarith
  also have "(kv_off r - 1 + kv_col r * 65536) mod 65536 = kv_off r - 1" using kv_off_mod [of r] by (simp add: less_imp_diff_less)
  finally show ?thesis .
qed

section \<open>Runs\<close>

text \<open>
  What the library documents of the scan's operator: words of the same column add their counts,
  and a word of another column starts anew.
\<close>

definition keyed_adds :: "(32 word \<Rightarrow> 32 word \<Rightarrow> 32 word) \<Rightarrow> bool" where
  "keyed_adds f \<longleftrightarrow>
     (\<forall>x y. kv_off x + kv_off y < 65536 \<longrightarrow>
        (if kv_col x = kv_col y then kv_col (f x y) = kv_col x \<and> kv_off (f x y) = kv_off x + kv_off y else f x y = y))"

lemma keyed_addsD:
  assumes "keyed_adds f" "kv_off x + kv_off y < 65536"
  shows "kv_col x = kv_col y \<Longrightarrow> kv_col (f x y) = kv_col x \<and> kv_off (f x y) = kv_off x + kv_off y"
    and "kv_col x \<noteq> kv_col y \<Longrightarrow> f x y = y"
  using assms by (simp_all add: keyed_adds_def split: if_splits)

lemma length_scan_from [simp]: "length (scan_from f a xs) = length xs"
  by (induction xs arbitrary: a) simp_all

lemma length_associative_scan [simp]: "length (associative_scan f xs) = length xs"
  by (cases xs) simp_all

lemma scan_from_nth: "i < length xs \<Longrightarrow> scan_from f a xs ! i = f ((a # scan_from f a xs) ! i) (xs ! i)"
proof (induction xs arbitrary: a i)
  case (Cons x xs)
  then show ?case by (cases i) simp_all
qed simp

lemma scan_nth: "Suc i < length xs \<Longrightarrow> associative_scan f xs ! Suc i = f (associative_scan f xs ! i) (xs ! Suc i)"
  by (cases xs) (simp_all add: scan_from_nth)

text \<open>Consecutive assignments by expert: the count goes on within an expert and starts anew with the next.\<close>

lemma earlier_next:
  assumes "Suc i < length (by_expert E ids)"
  defines "g \<equiv> by_expert E ids ! i" and "h \<equiv> by_expert E ids ! Suc i"
  shows "ids ! h = ids ! g \<Longrightarrow> earlier ids h = Suc (earlier ids g)" and "ids ! h \<noteq> ids ! g \<Longrightarrow> earlier ids h = 0"
proof -
  have places: "place ids g = i" "place ids h = Suc i" using assms by (simp_all add: place_inj)
  then show "ids ! h = ids ! g \<Longrightarrow> earlier ids h = Suc (earlier ids g)" by (simp add: place_def)
  have "h \<in> set (by_expert E ids)" using assms by simp
  then have h: "h < length ids" "0 \<le> ids ! h" "nat (ids ! h) < E" by (auto simp: set_by_expert)
  show "earlier ids h = 0" if "ids ! h \<noteq> ids ! g"
  proof (rule ccontr)
    assume "earlier ids h \<noteq> 0"
    then obtain j where j: "earlier ids h = Suc j" by (cases "earlier ids h") auto
    let ?e = "nat (ids ! h)"
    have "Suc j < length (of_expert ids ?e)" using of_expert_place(1) [of h ids ?e] h j by simp
    moreover have "i = length (by_expert ?e ids) + j" using places(2) j by (simp add: place_def)
    ultimately have "g = of_expert ids ?e ! j"
      unfolding g_def by_expert_split [OF h(3)] by (simp add: nth_append)
    then have "g \<in> set (of_expert ids ?e)" using \<open>Suc j < length (of_expert ids ?e)\<close> by simp
    then show False using that h(2) by (simp add: of_expert_def)
  qed
qed

lemma earlier_first: "by_expert E ids \<noteq> [] \<Longrightarrow> earlier ids (by_expert E ids ! 0) = 0"
  using place_inj [of 0 E ids] by (simp add: place_def)

text \<open>The scan over the words of the assignments.\<close>

lemma scan_runs:
  assumes "keyed_adds f" "length ids < 65535" "E \<le> 65535" "i < length (by_expert E ids)"
    and xs: "\<And>k. k < length (by_expert E ids) \<Longrightarrow> kv_col (xs ! k) = nat (ids ! (by_expert E ids ! k)) \<and> kv_off (xs ! k) = 1"
    and "length (by_expert E ids) \<le> length xs"
  shows "kv_col (associative_scan f xs ! i) = nat (ids ! (by_expert E ids ! i))
    \<and> kv_off (associative_scan f xs ! i) = Suc (earlier ids (by_expert E ids ! i))"
  using assms(4)
proof (induction i)
  case 0
  then have "associative_scan f xs ! 0 = xs ! 0" using assms(6) by (cases xs) auto
  then show ?case using xs [OF 0] earlier_first [of E ids] 0 by auto
next
  case (Suc i)
  let ?g = "by_expert E ids ! i" and ?h = "by_expert E ids ! Suc i" and ?s = "associative_scan f xs ! i"
  have IH: "kv_col ?s = nat (ids ! ?g)" "kv_off ?s = Suc (earlier ids ?g)" using Suc by simp_all
  have step: "associative_scan f xs ! Suc i = f ?s (xs ! Suc i)" using Suc.prems assms(6) by (intro scan_nth) simp
  have nonneg: "0 \<le> ids ! ?g" "0 \<le> ids ! ?h" "?g < length ids"
    using Suc.prems nth_mem [of i "by_expert E ids"] nth_mem [of "Suc i" "by_expert E ids"] by (auto simp: set_by_expert)
  have "earlier ids ?g \<le> ?g" using length_filter_le [of _ "[0..<?g]"] by (simp add: earlier_def)
  then have room: "kv_off ?s + kv_off (xs ! Suc i) < 65536" using IH(2) xs [OF Suc.prems] nonneg(3) assms(2) by simp
  show ?case
  proof (cases "ids ! ?h = ids ! ?g")
    case True
    then show ?thesis
      using keyed_addsD(1) [OF assms(1) room] IH xs [OF Suc.prems] earlier_next(1) [OF Suc.prems True] by (simp add: step)
  next
    case False
    then have "kv_col ?s \<noteq> kv_col (xs ! Suc i)" using IH(1) xs [OF Suc.prems] nonneg by simp
    then show ?thesis
      using keyed_addsD(2) [OF assms(1) room] xs [OF Suc.prems] earlier_next(2) [OF Suc.prems False] by (simp add: step)
  qed
qed

end
