(* ===== verification/MoeRouting.thy ===== *)
theory MoeRouting
  imports MoeSort
begin

text \<open>
  The single-kernel routing of small batches (\<open>_fast_deepseek_routing\<close> and
  \<open>_fast_make_routing_data\<close> in
  \<open>src/patches/gpt_oss_triton_kernels_moe.pack128-fused-silu-fast-routing.py\<close>): assignments are
  sorted by expert, and the tiles of every expert are scheduled for five block sizes.  The
  barriers of the kernel are the order of its phases; memory from \<open>torch.empty\<close> is a function.
  Weights are exact reals.  The library's \<open>max_n_tiles\<close> and \<open>triton.next_power_of_2\<close> are parameters.
\<close>

section \<open>The kernel\<close>

record fast_routing =
  combine :: "int list"
  dispatch :: "int list"
  gate :: "real list"
  hist :: "nat list"
  slice_offs :: "nat list"
  block_offs :: "nat list list"
  block_schedule :: "int list"

definition sentinel :: int where "sentinel = 2147483647"

definition active :: "nat \<Rightarrow> int list \<Rightarrow> nat \<Rightarrow> bool" where
  "active E ids k \<longleftrightarrow> k < length ids \<and> 0 \<le> ids ! k \<and> ids ! k < int E"

definition sorted_keys :: "nat \<Rightarrow> nat \<Rightarrow> int list \<Rightarrow> int list" where
  "sorted_keys E S ids = sort (map (\<lambda>k. if active E ids k then ids ! k * int S + int k else sentinel) [0..<S])"

text \<open>\<open>tl.atomic_add\<close> of one for every active assignment.\<close>

definition count_experts :: "nat \<Rightarrow> nat \<Rightarrow> int list \<Rightarrow> nat list" where
  "count_experts E S ids =
     fold (\<lambda>k h. if active E ids k then h[nat (ids ! k) := h ! nat (ids ! k) + 1] else h) [0..<S] (replicate E 0)"

text \<open>An exclusive cumulative sum and, behind it, the sum.\<close>

definition offsets :: "nat list \<Rightarrow> nat list" where
  "offsets xs = map2 (-) (cumsum_from 0 xs) xs @ [sum_list xs]"

definition tiles :: "nat \<Rightarrow> nat list \<Rightarrow> nat list" where
  "tiles size_id hs = map (\<lambda>h. drop_bit (4 + size_id) (h + 2 ^ (4 + size_id) - 1)) hs"

definition clear_schedule :: "nat \<Rightarrow> nat \<Rightarrow> int list \<Rightarrow> int list" where
  "clear_schedule max_tiles sched =
     store_all (concat (map (\<lambda>size_id. map (\<lambda>k. (size_id * max_tiles + k, - 1)) (filter (\<lambda>k. k < max_tiles) [0..<sched])) [0..<5]))"

definition tile_stores :: "nat \<Rightarrow> nat \<Rightarrow> nat list \<Rightarrow> nat \<Rightarrow> (nat \<times> int) list" where
  "tile_stores max_tiles max_blocks hs size_id =
     (let ns = tiles size_id hs; starts = offsets ns
      in concat (map (\<lambda>b. map (\<lambda>e. (size_id * max_tiles + starts ! e + b, int b * 65536 + int e))
           (filter (\<lambda>e. b < ns ! e) [0..<length hs])) [0..<max_blocks]))"

definition fast_deepseek_routing :: "nat \<Rightarrow> nat \<Rightarrow> nat \<Rightarrow> nat \<Rightarrow> nat \<Rightarrow> (nat \<Rightarrow> int) \<Rightarrow> int list \<Rightarrow> real list \<Rightarrow> fast_routing" where
  "fast_deepseek_routing E S max_tiles sched max_blocks memory ids weights =
     (let n = length ids; keys = sorted_keys E S ids; hs = count_experts E S ids
      in \<lparr> combine = map (\<lambda>k. if keys ! k \<noteq> sentinel then keys ! k mod int S else - 1) [0..<n],
           dispatch = store_all (map (\<lambda>k. (nat (keys ! k mod int S), int k)) (filter (\<lambda>k. keys ! k \<noteq> sentinel) [0..<S]))
             (replicate n (- 1)),
           gate = map (\<lambda>k. if keys ! k \<noteq> sentinel then weights ! nat (keys ! k mod int S) else - 1) [0..<n],
           hist = hs,
           slice_offs = offsets hs,
           block_offs = map (\<lambda>size_id. offsets (tiles size_id hs)) [0..<5],
           block_schedule = store_all (concat (map (tile_stores max_tiles max_blocks hs) [0..<5]))
             (clear_schedule max_tiles sched (map memory [0..<5 * max_tiles])) \<rparr>)"

definition fast_make_routing_data :: "(nat \<Rightarrow> nat) \<Rightarrow> (nat \<Rightarrow> nat \<Rightarrow> nat) \<Rightarrow> (nat \<Rightarrow> int) \<Rightarrow> nat \<Rightarrow> int list list \<Rightarrow> real list list \<Rightarrow> fast_routing" where
  "fast_make_routing_data pow2 max_n_tiles memory E rows weights =
     (let n = length (concat rows); max_tiles = max_n_tiles E n
      in fast_deepseek_routing E (pow2 n) max_tiles (pow2 max_tiles) ((length rows + 15) div 16)
           memory (concat rows) (concat weights))"

section \<open>The sorted keys\<close>

lemma active_set: "set (by_expert E ids) = {k. active E ids k}"
  by (auto simp: set_by_expert active_def)

lemma sorted_keys_order:
  assumes "length ids \<le> S" "int E * int S \<le> sentinel"
  shows "sorted_keys E S ids
    = map (\<lambda>k. ids ! k * int S + int k) (by_expert E ids) @ replicate (S - length (by_expert E ids)) sentinel"
proof -
  let ?key = "\<lambda>k. if active E ids k then ids ! k * int S + int k else sentinel"
  have bound: "ids ! k * int S + int k \<le> sentinel" if "active E ids k" for k
  proof -
    have "ids ! k * int S + int k \<le> (int E - 1) * int S + int S"
      using that assms(1) by (intro add_mono mult_right_mono) (auto simp: active_def)
    then show ?thesis using assms(2) by (simp add: algebra_simps)
  qed
  have order: "?key g \<le> ?key h" if "g < length ids" "h < length ids" "0 \<le> ids ! g" "ids ! h < int E"
      "ids ! g < ids ! h \<or> ids ! g = ids ! h \<and> g < h" for g h
  proof -
    have "ids ! g * int S + int g \<le> ids ! h * int S + int h" if "ids ! g < ids ! h"
    proof -
      have "(ids ! g + 1) * int S \<le> ids ! h * int S" using that by (intro mult_right_mono) simp_all
      then show ?thesis using \<open>g < length ids\<close> assms(1) by (simp add: algebra_simps)
    qed
    then show ?thesis using that by (auto simp: active_def)
  qed
  have "sorted_keys E S ids = map ?key (by_expert E ids) @ sort (map ?key (filter (\<lambda>k. k \<notin> set (by_expert E ids)) [0..<S]))"
    unfolding sorted_keys_def
    by (rule sort_keys [OF assms(1) order]) (simp_all add: active_set bound)
  moreover have "map ?key (by_expert E ids) = map (\<lambda>k. ids ! k * int S + int k) (by_expert E ids)"
    using active_set [of E ids] by (intro map_cong) auto
  moreover have "map ?key (filter (\<lambda>k. k \<notin> set (by_expert E ids)) [0..<S])
      = replicate (length (filter (\<lambda>k. k \<notin> set (by_expert E ids)) [0..<S])) sentinel"
    unfolding active_set map_replicate_const [symmetric] by (intro map_cong) auto
  moreover have "length (filter (\<lambda>k. k \<notin> set (by_expert E ids)) [0..<S]) = S - length (by_expert E ids)"
  proof -
    have "length (filter (\<lambda>k. k \<in> set (by_expert E ids)) [0..<S]) = length (by_expert E ids)"
    proof -
      have "set (filter (\<lambda>k. k \<in> set (by_expert E ids)) [0..<S]) = set (by_expert E ids)"
        using assms(1) by (auto simp: set_by_expert)
      then show ?thesis using distinct_by_expert [of E ids] by (metis distinct_card distinct_filter distinct_upt)
    qed
    then show ?thesis using sum_length_filter_compl [of "\<lambda>k. k \<in> set (by_expert E ids)" "[0..<S]"] by simp
  qed
  moreover have "sort (replicate m sentinel) = replicate m sentinel" for m by (simp add: sorted_sort_id sorted_replicate)
  ultimately show ?thesis by simp
qed

text \<open>A key is a sentinel exactly behind the assignments, and otherwise names its assignment.\<close>

lemma sorted_keys_nth:
  assumes "length ids \<le> S" "int E * int S < sentinel" "k < S"
  shows "sorted_keys E S ids ! k \<noteq> sentinel \<longleftrightarrow> k < length (by_expert E ids)"
    and "k < length (by_expert E ids) \<Longrightarrow> sorted_keys E S ids ! k mod int S = int (by_expert E ids ! k)"
proof -
  let ?g = "by_expert E ids ! k"
  have order: "sorted_keys E S ids = map (\<lambda>k. ids ! k * int S + int k) (by_expert E ids) @ replicate (S - length (by_expert E ids)) sentinel"
    using assms by (intro sorted_keys_order) simp_all
  have g: "active E ids ?g" if "k < length (by_expert E ids)" using active_set nth_mem [OF that] by blast
  have "ids ! ?g * int S + int ?g < sentinel" if "k < length (by_expert E ids)"
  proof -
    have "ids ! ?g * int S + int ?g \<le> (int E - 1) * int S + int S"
      using g [OF that] assms(1) by (intro add_mono mult_right_mono) (auto simp: active_def)
    then show ?thesis using assms(2) by (simp add: algebra_simps)
  qed
  then show "sorted_keys E S ids ! k \<noteq> sentinel \<longleftrightarrow> k < length (by_expert E ids)"
    unfolding order using assms(3) by (auto simp: nth_append)
  show "sorted_keys E S ids ! k mod int S = int ?g" if "k < length (by_expert E ids)"
    using g [OF that] that assms(1) unfolding order by (simp add: nth_append active_def)
qed

section \<open>What the kernel computes\<close>

definition order_column :: "nat \<Rightarrow> nat list \<Rightarrow> int list" where
  "order_column n ks = map int ks @ replicate (n - length ks) (- 1)"

definition place_column :: "nat \<Rightarrow> int list \<Rightarrow> int list" where
  "place_column E ids = map (\<lambda>g. if active E ids g then int (place ids g) else - 1) [0..<length ids]"

lemma length_by_expert_le: "length (by_expert E ids) \<le> length ids"
proof -
  have "set (by_expert E ids) \<subseteq> {0..<length ids}" by (auto simp: set_by_expert)
  then have "card (set (by_expert E ids)) \<le> length ids" using card_mono [of "{0..<length ids}"] by simp
  then show ?thesis using distinct_card [OF distinct_by_expert] by metis
qed

lemma length_order_column: "length (order_column (length ids) (by_expert E ids)) = length ids"
  using length_by_expert_le [of E ids] by (simp add: order_column_def)

lemma fast_combine:
  assumes "length ids \<le> S" "int E * int S < sentinel"
  shows "map (\<lambda>k. if sorted_keys E S ids ! k \<noteq> sentinel then sorted_keys E S ids ! k mod int S else - 1) [0..<length ids]
    = order_column (length ids) (by_expert E ids)" (is "?l = ?r")
proof (rule nth_equalityI)
  show "length ?l = length ?r" by (simp add: length_order_column)
  fix k
  assume "k < length ?l"
  then show "?l ! k = ?r ! k"
    using sorted_keys_nth [OF assms, of k] assms(1) length_by_expert_le [of E ids] by (auto simp: order_column_def nth_append)
qed

lemma fast_dispatch:
  assumes "length ids \<le> S" "int E * int S < sentinel"
  shows "store_all (map (\<lambda>k. (nat (sorted_keys E S ids ! k mod int S), int k)) (filter (\<lambda>k. sorted_keys E S ids ! k \<noteq> sentinel) [0..<S]))
      (replicate (length ids) (- 1)) = place_column E ids"
proof -
  have "map (\<lambda>k. (nat (sorted_keys E S ids ! k mod int S), int k)) (filter (\<lambda>k. sorted_keys E S ids ! k \<noteq> sentinel) [0..<S])
      = map (\<lambda>k. (by_expert E ids ! k, int k)) [0..<length (by_expert E ids)]"
  proof -
    have "filter (\<lambda>k. sorted_keys E S ids ! k \<noteq> sentinel) [0..<S] = filter (\<lambda>k. k < length (by_expert E ids)) [0..<S]"
      using sorted_keys_nth(1) [OF assms] by (intro filter_cong) auto
    also have "\<dots> = [0..<length (by_expert E ids)]"
      using length_by_expert_le [of E ids] assms(1) upt_split [of 0 "length (by_expert E ids)" S] by simp
    finally show ?thesis
      using sorted_keys_nth(2) [OF assms] length_by_expert_le [of E ids] assms(1) by (auto intro!: map_cong)
  qed
  moreover have "store_all (map (\<lambda>k. (by_expert E ids ! k, int k)) [0..<length (by_expert E ids)]) (replicate (length ids) (- 1))
      = place_column E ids" (is "store_all ?ws ?xs = _")
  proof (rule nth_equalityI)
    fix g
    assume "g < length (store_all ?ws ?xs)"
    then have g: "g < length ids" by simp
    show "store_all ?ws ?xs ! g = place_column E ids ! g"
    proof (cases "active E ids g")
      case True
      then have p: "place ids g < length (by_expert E ids)" "by_expert E ids ! place ids g = g"
        using by_expert_place [of g ids E] by (auto simp: active_def)
      have "store_all ?ws ?xs ! g = int (place ids g)"
      proof (rule store_all_hit)
        show "(g, int (place ids g)) \<in> set ?ws" using p by force
        show "v' = int (place ids g)" if "(g, v') \<in> set ?ws" for v' using that place_inj by auto
      qed (use g in simp)
      then show ?thesis using True g by (simp add: place_column_def)
    next
      case False
      have "g \<notin> set (by_expert E ids)" using False by (simp add: active_set)
      then have "g \<notin> fst ` set ?ws" by force
      then show ?thesis using False g by (simp add: store_all_other place_column_def)
    qed
  qed (simp add: place_column_def)
  ultimately show ?thesis by simp
qed

text \<open>The histogram and the offsets.\<close>

definition expert_sizes :: "nat \<Rightarrow> int list \<Rightarrow> nat list" where
  "expert_sizes E ids = map (\<lambda>e. length (of_expert ids e)) [0..<E]"

lemma count_experts_sizes:
  assumes "length ids \<le> S"
  shows "count_experts E S ids = expert_sizes E ids"
proof -
  let ?f = "\<lambda>k h. if active E ids k then h[nat (ids ! k) := h ! nat (ids ! k) + (1 :: nat)] else h"
  have "fold ?f [0..<m] (replicate E 0) = map (\<lambda>e. length (filter (\<lambda>k. k < length ids \<and> ids ! k = int e) [0..<m])) [0..<E]" for m
  proof (induction m)
    case (Suc m)
    then show ?case by (intro nth_equalityI) (auto simp: active_def nth_list_update)
  qed (simp add: map_replicate_const)
  moreover have "filter (\<lambda>k. k < length ids \<and> ids ! k = int e) [0..<S] = of_expert ids e" for e
    using upt_split [of 0 "length ids" S] assms by (auto simp: of_expert_def filter_empty_conv intro!: filter_cong)
  ultimately show ?thesis by (simp add: count_experts_def expert_sizes_def)
qed

lemma offsets_nth: "i \<le> length xs \<Longrightarrow> offsets xs ! i = sum_list (take i xs)"
  by (auto simp: offsets_def nth_append nth_cumsum take_Suc_conv_app_nth)

lemma length_offsets [simp]: "length (offsets xs) = Suc (length xs)"
  by (simp add: offsets_def)

lemma offsets_sizes: "offsets (expert_sizes E ids) = map (\<lambda>e. length (by_expert e ids)) [0..<Suc E]" (is "?l = ?r")
proof (rule nth_equalityI)
  fix e
  assume "e < length ?l"
  then have e: "e \<le> E" by (simp add: expert_sizes_def)
  then have "take e (expert_sizes E ids) = map (\<lambda>e. length (of_expert ids e)) [0..<e]"
    by (simp add: expert_sizes_def take_map)
  then show "?l ! e = ?r ! e"
    using e by (simp add: offsets_nth expert_sizes_def by_expert_def length_concat comp_def del: upt_Suc)
qed (simp add: expert_sizes_def)

section \<open>The schedule of tiles\<close>

text \<open>The tiles of all experts in order, each as its number within the expert and the expert.\<close>

definition tiles_of :: "nat \<Rightarrow> nat list \<Rightarrow> int list" where
  "tiles_of size_id hs =
     concat (map (\<lambda>e. map (\<lambda>b. int b * 65536 + int e) [0..<tiles size_id hs ! e]) [0..<length hs])"

lemma length_tiles [simp]: "length (tiles size_id hs) = length hs"
  by (simp add: tiles_def)

lemma tiles_nth: "e < length hs \<Longrightarrow> tiles size_id hs ! e = (hs ! e + 2 ^ (4 + size_id) - 1) div 2 ^ (4 + size_id)"
  by (simp add: tiles_def drop_bit_eq_div)

lemma tiles_fewer: "e < length hs \<Longrightarrow> tiles size_id hs ! e \<le> tiles 0 hs ! e"
proof -
  assume e: "e < length hs"
  have "(h + 2 ^ (4 + size_id) - 1) div 2 ^ (4 + size_id) \<le> (h + 15) div (16 :: nat)" for h
  proof -
    let ?d = "2 ^ size_id :: nat"
    have "h \<le> (h + 15) div 16 * 16" by simp
    also have "\<dots> \<le> (h + 15) div 16 * (16 * ?d)" by simp
    finally have "h \<le> (h + 15) div 16 * (16 * ?d)" .
    moreover have "0 < ?d" by simp
    ultimately have "h + 16 * ?d - 1 < Suc ((h + 15) div 16) * (16 * ?d)" unfolding mult_Suc by linarith
    then have "(h + 16 * ?d - 1) div (16 * ?d) < Suc ((h + 15) div 16)"
      by (intro iffD2 [OF div_less_iff_less_mult]) simp_all
    then show ?thesis by (simp add: power_add)
  qed
  then show ?thesis using e by (simp add: tiles_nth add.commute [of _ 15])
qed

lemma sum_tiles_fewer: "sum_list (tiles size_id hs) \<le> sum_list (tiles 0 hs)"
proof -
  have "sum_list (map ((!) (tiles size_id hs)) [0..<length hs]) \<le> sum_list (map ((!) (tiles 0 hs)) [0..<length hs])"
    by (rule sum_list_mono) (simp add: tiles_fewer)
  then show ?thesis by (metis length_tiles map_nth)
qed

lemma length_tiles_of: "length (tiles_of size_id hs) = sum_list (tiles size_id hs)"
  by (simp add: tiles_of_def length_concat comp_def) (metis length_tiles map_nth)

lemma tiles_of_nth:
  assumes "e < length hs" "b < tiles size_id hs ! e"
  shows "tiles_of size_id hs ! (sum_list (take e (tiles size_id hs)) + b) = int b * 65536 + int e"
proof -
  let ?xss = "map (\<lambda>e. map (\<lambda>b. int b * 65536 + int e) [0..<tiles size_id hs ! e]) [0..<length hs]"
  have "map length ?xss = tiles size_id hs" by (simp add: comp_def) (metis length_tiles map_nth)
  then show ?thesis using concat_place(2) [of e ?xss b] assms by (simp add: tiles_of_def)
qed

lemma tile_stores_set:
  assumes "\<forall>e < length hs. tiles 0 hs ! e \<le> max_blocks"
  shows "set (tile_stores max_tiles max_blocks hs size_id)
    = {(size_id * max_tiles + sum_list (take e (tiles size_id hs)) + b, int b * 65536 + int e) | e b.
        e < length hs \<and> b < tiles size_id hs ! e}" (is "?l = ?r")
proof
  show "?l \<subseteq> ?r" by (auto simp: tile_stores_def Let_def offsets_nth)
  show "?r \<subseteq> ?l"
  proof
    fix w
    assume "w \<in> ?r"
    then obtain e b where w: "w = (size_id * max_tiles + sum_list (take e (tiles size_id hs)) + b, int b * 65536 + int e)"
        "e < length hs" "b < tiles size_id hs ! e" by auto
    then have "b < max_blocks" using assms tiles_fewer [of e hs size_id] by fastforce
    then show "w \<in> ?l" using w by (auto simp: tile_stores_def Let_def offsets_nth intro!: bexI [of _ b])
  qed
qed

text \<open>Every row of the schedule lists the tiles of its block size, and nothing behind them.\<close>

lemma schedule_row:
  assumes blocks: "\<forall>e < length hs. tiles 0 hs ! e \<le> max_blocks"
    and room: "sum_list (tiles 0 hs) \<le> max_tiles" "max_tiles \<le> sched" and size: "size_id < 5"
  shows "take max_tiles (drop (size_id * max_tiles)
      (store_all (concat (map (tile_stores max_tiles max_blocks hs) [0..<5])) (clear_schedule max_tiles sched (map memory [0..<5 * max_tiles]))))
    = tiles_of size_id hs @ replicate (max_tiles - sum_list (tiles size_id hs)) (- 1)" (is "take _ (drop _ (store_all ?ws ?xs)) = ?r")
proof (rule nth_equalityI)
  have len: "length ?xs = 5 * max_tiles" by (simp add: clear_schedule_def)
  have row: "size_id * max_tiles + max_tiles \<le> 5 * max_tiles"
    using mult_le_mono1 [of "Suc size_id" 5 max_tiles] size by simp
  have fits: "sum_list (tiles size_id hs) \<le> max_tiles" using sum_tiles_fewer [of size_id hs] room by simp
  show "length (take max_tiles (drop (size_id * max_tiles) (store_all ?ws ?xs))) = length ?r"
  proof -
    have "max_tiles \<le> 5 * max_tiles - size_id * max_tiles" using row by linarith
    then have "min (5 * max_tiles - size_id * max_tiles) max_tiles = max_tiles" by (rule min_absorb2)
    then show ?thesis using fits by (simp add: length_tiles_of len del: min.absorb2)
  qed
  fix t
  assume "t < length (take max_tiles (drop (size_id * max_tiles) (store_all ?ws ?xs)))"
  then have t: "t < max_tiles" by simp
  have inside: "size_id * max_tiles + t < 5 * max_tiles" using row t by linarith
  have at_row: "take max_tiles (drop (size_id * max_tiles) (store_all ?ws ?xs)) ! t = store_all ?ws ?xs ! (size_id * max_tiles + t)"
  proof -
    have "size_id * max_tiles \<le> length (store_all ?ws ?xs)" unfolding length_store_all len using inside by linarith
    then show ?thesis unfolding nth_take [OF t] by (rule nth_drop)
  qed
  have same_row: "s = size_id \<and> t' = t" if "t' < max_tiles" "s * max_tiles + t' = size_id * max_tiles + t" for s t'
  proof -
    have "s = (s * max_tiles + t') div max_tiles" "size_id = (size_id * max_tiles + t) div max_tiles" using that(1) t by simp_all
    then show ?thesis using that(2) by simp
  qed
  have stored: "\<exists>e b. e < length hs \<and> b < tiles size_id hs ! e \<and> t = sum_list (take e (tiles size_id hs)) + b \<and> v = int b * 65536 + int e"
    if "(size_id * max_tiles + t, v) \<in> set ?ws" for v
  proof -
    from that obtain s e b where s: "s < 5" "e < length hs" "b < tiles s hs ! e" "v = int b * 65536 + int e"
        "size_id * max_tiles + t = s * max_tiles + (sum_list (take e (tiles s hs)) + b)"
      using tile_stores_set [OF blocks, of max_tiles] by (auto simp: add.assoc)
    have "sum_list (take e (tiles s hs)) + b < sum_list (tiles s hs)"
      using concat_place(1) [of e "map (\<lambda>n. replicate n ()) (tiles s hs)" b] s(2,3) by (simp add: comp_def length_concat)
    then have "sum_list (take e (tiles s hs)) + b < max_tiles" using sum_tiles_fewer [of s hs] room by simp
    then have "s = size_id" "t = sum_list (take e (tiles s hs)) + b" using same_row s(5) by auto
    then show ?thesis using s by blast
  qed
  show "take max_tiles (drop (size_id * max_tiles) (store_all ?ws ?xs)) ! t = ?r ! t"
  proof (cases "t < sum_list (tiles size_id hs)")
    case True
    then obtain e b where e: "e < length hs" "b < tiles size_id hs ! e" "t = sum_list (take e (tiles size_id hs)) + b"
      using sum_place [of t "tiles size_id hs"] by auto
    have "store_all ?ws ?xs ! (size_id * max_tiles + t) = int b * 65536 + int e"
    proof (rule store_all_hit)
      show "(size_id * max_tiles + t, int b * 65536 + int e) \<in> set ?ws"
      proof -
        have "(size_id * max_tiles + t, int b * 65536 + int e) \<in> set (tile_stores max_tiles max_blocks hs size_id)"
          unfolding tile_stores_set [OF blocks] e(3) using e(1,2) by (auto simp: add.assoc)
        then show ?thesis using size by (auto intro!: bexI [of _ size_id])
      qed
      show "v' = int b * 65536 + int e" if "(size_id * max_tiles + t, v') \<in> set ?ws" for v'
      proof -
        from stored [OF that] obtain e' b' where e': "e' < length hs" "b' < tiles size_id hs ! e'"
            "t = sum_list (take e' (tiles size_id hs)) + b'" "v' = int b' * 65536 + int e'" by blast
        have starts: "indptr_of (tiles size_id hs) ! k = sum_list (take k (tiles size_id hs))" if "k < length hs" for k
          using that by (intro indptr_nth) simp
        have "e' = e \<and> b' = b"
        proof (rule places_differ)
          show "indptr_of (tiles size_id hs) ! e' + b' = indptr_of (tiles size_id hs) ! e + b"
            unfolding starts [OF e(1)] starts [OF e'(1)] by (rule trans [OF sym [OF e'(3)] e(3)])
        qed (simp_all only: length_tiles e e')
        with e'(4) show ?thesis by simp
      qed
    qed (use inside len in simp)
    moreover have "?r ! t = tiles_of size_id hs ! t" using True by (simp add: nth_append length_tiles_of)
    moreover have "tiles_of size_id hs ! t = int b * 65536 + int e" unfolding e(3) by (rule tiles_of_nth [OF e(1,2)])
    ultimately show ?thesis unfolding at_row by (simp only:)
  next
    case False
    have "size_id * max_tiles + t \<notin> fst ` set ?ws"
    proof
      assume "size_id * max_tiles + t \<in> fst ` set ?ws"
      then obtain v where "(size_id * max_tiles + t, v) \<in> set ?ws" by force
      then obtain e b where e: "e < length hs" "b < tiles size_id hs ! e" "t = sum_list (take e (tiles size_id hs)) + b"
        using stored by blast
      have "t < sum_list (tiles size_id hs)"
        using concat_place(1) [of e "map (\<lambda>n. replicate n ()) (tiles size_id hs)" b] e by (simp add: comp_def length_concat)
      with False show False by simp
    qed
    then have "store_all ?ws ?xs ! (size_id * max_tiles + t) = ?xs ! (size_id * max_tiles + t)" by (rule store_all_other)
    moreover have "?xs ! (size_id * max_tiles + t) = - 1"
      unfolding clear_schedule_def
    proof (rule store_all_hit)
      show "(size_id * max_tiles + t, - 1) \<in> set (concat (map (\<lambda>size_id. map (\<lambda>k. (size_id * max_tiles + k, - 1 :: int))
          (filter (\<lambda>k. k < max_tiles) [0..<sched])) [0..<5]))"
        using size t room(2) by (auto intro!: bexI [of _ size_id])
    qed (use inside in auto)
    moreover have "?r ! t = - 1" using t False by (simp add: nth_append length_tiles_of)
    ultimately show ?thesis unfolding at_row by (simp only:)
  qed
qed

end
