(* ===== verification/MoeBlocks.thy ===== *)
theory MoeBlocks
  imports MoeStage MoeRouting
begin

text \<open>
  The block sort stores the order by expert and its inverse, given the counts of the earlier
  blocks and of the smaller experts.
\<close>

section \<open>One block\<close>

definition valid_ids :: "nat \<Rightarrow> int list \<Rightarrow> bool" where
  "valid_ids E ids \<longleftrightarrow> list_all (\<lambda>c. c = - 1 \<or> 0 \<le> c \<and> c < int E) ids"

lemma valid_idsD: "valid_ids E ids \<Longrightarrow> k < length ids \<Longrightarrow> ids ! k = - 1 \<or> 0 \<le> ids ! k \<and> ids ! k < int E"
  by (simp add: valid_ids_def list_all_length)

lemma sorted_block:
  assumes "valid_ids E cols" "E \<le> 65535" "length cols \<le> 65535"
  shows "\<exists>rest. sort (map2 pack_kv cols [0..<length cols]) = map (\<lambda>k. pack_kv (cols ! k) k) (by_expert E cols) @ rest
    \<and> list_all (\<lambda>w. kv_col w = 65535) rest"
proof (intro exI conjI)
  let ?key = "\<lambda>k. pack_kv (cols ! k) k"
  let ?rest = "sort (map ?key (filter (\<lambda>g. g \<notin> set (by_expert E cols)) [0..<length cols]))"
  have keys: "map2 pack_kv cols [0..<length cols] = map ?key [0..<length cols]" by (rule nth_equalityI) simp_all
  have packed: "unat (?key g) = nat (cols ! g) * 65536 + g" if "g < length cols" "0 \<le> cols ! g" "cols ! g < int E" for g
    using that assms(2,3) by (intro unat_pack_kv) simp_all
  have none: "unat (?key h) = 65535 * 65536 + h" if "h < length cols" "h \<notin> set (by_expert E cols)" for h
  proof -
    have "cols ! h = - 1" using that valid_idsD [OF assms(1)] by (auto simp: set_by_expert)
    then show ?thesis using that(1) assms(3) by (simp add: pack_kv_invalid unat_pack_kv)
  qed
  show "sort (map2 pack_kv cols [0..<length cols]) = map ?key (by_expert E cols) @ ?rest"
    unfolding keys
  proof (rule sort_keys)
    fix g h
    assume g: "g < length cols" "h < length cols" "0 \<le> cols ! g" "cols ! h < int E"
      and less: "cols ! g < cols ! h \<or> cols ! g = cols ! h \<and> g < h"
    then have "cols ! g < int E" "0 \<le> cols ! h" by auto
    moreover have "nat (cols ! g) * 65536 + g \<le> nat (cols ! h) * 65536 + h"
    proof (cases "cols ! g = cols ! h")
      case False
      then have "Suc (nat (cols ! g)) * 65536 \<le> nat (cols ! h) * 65536" using less g(3) by (intro mult_le_mono1) simp
      then show ?thesis using g(1) assms(3) by simp
    qed (use less in simp)
    ultimately show "?key g \<le> ?key h" using g by (simp add: word_le_nat_alt packed)
  next
    fix g h
    assume g: "g \<in> set (by_expert E cols)" "h < length cols" "h \<notin> set (by_expert E cols)"
    then have c: "g < length cols" "0 \<le> cols ! g" "cols ! g < int E" by (simp_all add: set_by_expert)
    have "Suc (nat (cols ! g)) * 65536 \<le> 65535 * 65536" using c assms(2) by (intro mult_le_mono1) simp
    then show "?key g \<le> ?key h" using c(1) assms(3) by (simp add: word_le_nat_alt packed [OF c] none [OF g(2,3)])
  qed simp
  show "list_all (\<lambda>w. kv_col w = 65535) ?rest"
  proof -
    have "kv_col (?key h) = 65535" if "h < length cols" "h \<notin> set (by_expert E cols)" for h
      using none [OF that] that(1) assms(3) by (simp add: kv_col_div)
    then show ?thesis by (auto simp: list_all_iff)
  qed
qed

lemma block_runs_active:
  assumes "keyed_adds f" "valid_ids E cols" "E \<le> 65535" "length cols < 65535"
  shows "filter (\<lambda>(w, run). kv_col w \<noteq> 0xFFFF) (block_runs f cols)
    = map (\<lambda>k. (pack_kv (cols ! k) k, earlier cols k)) (by_expert E cols)"
proof -
  let ?os = "by_expert E cols" and ?key = "\<lambda>k. pack_kv (cols ! k) k"
  have "length cols \<le> 65535" using assms(4) by simp
  then obtain rest where kv: "sort (map2 pack_kv cols [0..<length cols]) = map ?key ?os @ rest"
      and rest: "list_all (\<lambda>w. kv_col w = 65535) rest"
    using sorted_block [OF assms(2,3)] by blast
  let ?xs = "map run_word (map ?key ?os @ rest)"
  define rs where "rs = map (\<lambda>r. unat ((r - 1) AND 0xFFFF)) (associative_scan f ?xs)"
  have len: "length rs = length ?os + length rest" by (simp add: rs_def)
  have os: "?os ! i < length cols \<and> 0 \<le> cols ! (?os ! i) \<and> cols ! (?os ! i) < int E" if "i < length ?os" for i
    using nth_mem [OF that] by (simp add: set_by_expert)
  have col: "kv_col (?key (?os ! i)) = nat (cols ! (?os ! i))" if "i < length ?os" for i
    using os [OF that] assms(3,4) by (intro pack_kv_parts) simp_all
  have run: "rs ! i = earlier cols (?os ! i)" if "i < length ?os" for i
  proof -
    have "kv_off (associative_scan f ?xs ! i) = Suc (earlier cols (?os ! i))"
      using scan_runs [OF assms(1,4,3) that, of ?xs] col by (simp add: nth_append run_word_parts)
    then show ?thesis using that exclusive_run [of "associative_scan f ?xs ! i"] by (simp add: rs_def)
  qed
  have "block_runs f cols = zip (map ?key ?os @ rest) (take (length ?os) rs @ drop (length ?os) rs)"
    unfolding block_runs_def Let_def kv append_take_drop_id rs_def by (simp add: run_word_def [abs_def])
  also have "\<dots> = zip (map ?key ?os) (take (length ?os) rs) @ zip rest (drop (length ?os) rs)" by (rule zip_append) (simp add: len)
  also have "zip (map ?key ?os) (take (length ?os) rs) = map (\<lambda>k. (?key k, earlier cols k)) ?os"
    by (rule nth_equalityI) (simp_all add: run len)
  finally have runs: "block_runs f cols = map (\<lambda>k. (?key k, earlier cols k)) ?os @ zip rest (drop (length ?os) rs)" .
  have "filter (\<lambda>(w, run). kv_col w \<noteq> 65535) (zip rest (drop (length ?os) rs)) = []"
    using rest by (auto simp: filter_empty_conv list_all_iff dest: set_zip_leftD)
  moreover have "filter (\<lambda>(w, run). kv_col w \<noteq> 65535) (map (\<lambda>k. (?key k, earlier cols k)) ?os) = map (\<lambda>k. (?key k, earlier cols k)) ?os"
  proof -
    have "kv_col (?key k) \<noteq> 65535" if "k \<in> set ?os" for k
      using that assms(3,4) pack_kv_parts(1) [of "cols ! k" k] by (auto simp: set_by_expert)
    then show ?thesis by (auto simp: filter_id_conv)
  qed
  ultimately show ?thesis unfolding runs by simp
qed

section \<open>All blocks\<close>

lemma length_block_columns [simp]: "length (block_columns block_size padded ids b) = padded"
  by (simp add: block_columns_def)

lemma block_columns_valid: "valid_ids E ids \<Longrightarrow> valid_ids E (block_columns block_size padded ids b)"
  by (auto simp: valid_ids_def block_columns_def list_all_length)

lemma block_columns_nth:
  "k < padded \<Longrightarrow> block_columns block_size padded ids b ! k
    = (if k < block_size \<and> b * block_size + k < length ids then ids ! (b * block_size + k) else - 1)"
  by (simp add: block_columns_def)

text \<open>The members of a block, and their places.\<close>

lemma block_members:
  assumes "block_size \<le> padded"
  shows "set (by_expert E (block_columns block_size padded ids b))
    = {k. k < block_size \<and> b * block_size + k \<in> set (by_expert E ids)}"
  using assms by (auto simp: set_by_expert block_columns_nth split: if_splits)

lemma filter_block:
  "length (filter P [0..<b * n + k]) = length (filter P [0..<b * n]) + length (filter (\<lambda>j. P (b * n + j)) [0..<k])"
proof -
  have "[0..<b * n + k] = [0..<b * n] @ map (\<lambda>j. b * n + j) [0..<k]"
    using upt_add_eq_append [of 0 "b * n" k] map_add_upt [of "b * n" k] by (simp add: add.commute)
  then show ?thesis by (simp add: filter_map comp_def)
qed

lemma block_earlier:
  assumes "block_size \<le> padded" "k \<in> set (by_expert E (block_columns block_size padded ids b))"
  shows "earlier ids (b * block_size + k)
    = length (filter (\<lambda>j. ids ! j = ids ! (b * block_size + k)) [0..<b * block_size])
      + earlier (block_columns block_size padded ids b) k"
proof -
  have k: "k < block_size" "b * block_size + k < length ids"
    using assms block_members [OF assms(1), of E ids b] by (auto simp: set_by_expert)
  have "filter (\<lambda>j. ids ! (b * block_size + j) = ids ! (b * block_size + k)) [0..<k]
      = filter (\<lambda>j. block_columns block_size padded ids b ! j = block_columns block_size padded ids b ! k) [0..<k]"
    using k assms(1) by (intro filter_cong) (auto simp: block_columns_nth)
  then show ?thesis by (simp add: earlier_def filter_block)
qed

lemma block_places_active:
  assumes "keyed_adds f" "valid_ids E ids" "E \<le> 65535" "block_size \<le> padded" "padded < 65535"
    and partial: "\<And>c. c < E \<Longrightarrow> partial b c = length (filter (\<lambda>k. ids ! k = int c) [0..<b * block_size])"
    and offs: "\<And>c. c < E \<Longrightarrow> col_offs c = length (by_expert c ids)"
  shows "block_places f block_size padded partial col_offs ids b
    = map (\<lambda>k. (b * block_size + k, place ids (b * block_size + k))) (by_expert E (block_columns block_size padded ids b))"
proof -
  let ?cols = "block_columns block_size padded ids b"
  have runs: "filter (\<lambda>(w, run). kv_col w \<noteq> 0xFFFF) (block_runs f ?cols)
      = map (\<lambda>k. (pack_kv (?cols ! k) k, earlier ?cols k)) (by_expert E ?cols)"
    using assms by (intro block_runs_active block_columns_valid) simp_all
  have "b * block_size + kv_off (pack_kv (?cols ! k) k) = b * block_size + k
      \<and> partial b (kv_col (pack_kv (?cols ! k) k)) + col_offs (kv_col (pack_kv (?cols ! k) k)) + earlier ?cols k
        = place ids (b * block_size + k)" if "k \<in> set (by_expert E ?cols)" for k
  proof -
    have c: "k < padded" "0 \<le> ?cols ! k" "?cols ! k < int E" using that by (simp_all add: set_by_expert)
    have "k < block_size" "b * block_size + k < length ids"
      using that unfolding block_members [OF assms(4)] by (simp_all add: set_by_expert)
    then have k: "?cols ! k = ids ! (b * block_size + k)" unfolding block_columns_nth [OF c(1)] by simp
    have parts: "kv_col (pack_kv (?cols ! k) k) = nat (?cols ! k)" "kv_off (pack_kv (?cols ! k) k) = k"
      using c assms(3,5) pack_kv_parts [of "?cols ! k" k] by simp_all
    have "nat (?cols ! k) < E" using c by simp
    then have p: "partial b (nat (?cols ! k)) = length (filter (\<lambda>j. ids ! j = ids ! (b * block_size + k)) [0..<b * block_size])"
        "col_offs (nat (?cols ! k)) = length (by_expert (nat (ids ! (b * block_size + k))) ids)"
      using c(2) unfolding k by (simp_all add: partial offs)
    show ?thesis unfolding parts place_def block_earlier [OF assms(4) that] p by simp
  qed
  then show ?thesis unfolding block_places_def runs by (simp add: map_map comp_def split_def)
qed

lemma all_places:
  assumes "keyed_adds f" "valid_ids E ids" "E \<le> 65535" "block_size \<le> padded" "padded < 65535" "0 < block_size"
    and "length ids \<le> blocks * block_size"
    and partial: "\<And>b c. b < blocks \<Longrightarrow> c < E \<Longrightarrow> partial b c = length (filter (\<lambda>k. ids ! k = int c) [0..<b * block_size])"
    and offs: "\<And>c. c < E \<Longrightarrow> col_offs c = length (by_expert c ids)"
  shows "set (concat (map (block_places f block_size padded partial col_offs ids) [0..<blocks]))
    = (\<lambda>g. (g, place ids g)) ` set (by_expert E ids)" (is "?l = ?r")
proof -
  have block: "set (block_places f block_size padded partial col_offs ids b)
      = (\<lambda>g. (g, place ids g)) ` {g. g div block_size = b \<and> g \<in> set (by_expert E ids)}" if "b < blocks" for b
  proof -
    have image: "(\<lambda>k. b * block_size + k) ` {k. k < block_size \<and> b * block_size + k \<in> set (by_expert E ids)}
        = {g. g div block_size = b \<and> g \<in> set (by_expert E ids)}" (is "?f ` ?A = ?B")
    proof
      show "?f ` ?A \<subseteq> ?B" using assms(6) by auto
      show "?B \<subseteq> ?f ` ?A"
      proof
        fix g
        assume g: "g \<in> ?B"
        then have "g = b * block_size + g mod block_size" by auto
        then show "g \<in> ?f ` ?A" using g assms(6) by (intro image_eqI [of _ _ "g mod block_size"]) auto
      qed
    qed
    have "block_places f block_size padded partial col_offs ids b
        = map (\<lambda>k. (b * block_size + k, place ids (b * block_size + k))) (by_expert E (block_columns block_size padded ids b))"
      by (rule block_places_active) (simp_all add: assms(1-5) partial [OF that] offs)
    then show ?thesis
      by (simp only: set_map block_members [OF assms(4)] image_image flip: image)
  qed
  have "g div block_size < blocks" if "g \<in> set (by_expert E ids)" for g
    using that assms(6,7) by (simp add: set_by_expert div_less_iff_less_mult)
  then have all: "(\<Union>b \<in> {0..<blocks}. {g. g div block_size = b \<and> g \<in> set (by_expert E ids)}) = set (by_expert E ids)"
    by auto
  have "?l = (\<Union>b \<in> {0..<blocks}. (\<lambda>g. (g, place ids g)) ` {g. g div block_size = b \<and> g \<in> set (by_expert E ids)})"
    by (simp add: block)
  then show ?thesis unfolding image_UN [symmetric] all .
qed

text \<open>The two columns.\<close>

lemma stage2_sorts:
  assumes "keyed_adds f" "valid_ids E ids" "E \<le> 65535" "block_size \<le> padded" "padded < 65535" "0 < block_size"
    and "length ids \<le> blocks * block_size"
    and "\<And>b c. b < blocks \<Longrightarrow> c < E \<Longrightarrow> partial b c = length (filter (\<lambda>k. ids ! k = int c) [0..<b * block_size])"
    and "\<And>c. c < E \<Longrightarrow> col_offs c = length (by_expert c ids)"
  shows "stage2 f block_size padded blocks partial col_offs ids
    = (order_column (length ids) (by_expert E ids), place_column E ids)"
proof -
  let ?ws = "concat (map (block_places f block_size padded partial col_offs ids) [0..<blocks])"
  have ws: "set ?ws = (\<lambda>g. (g, place ids g)) ` set (by_expert E ids)" using assms by (rule all_places)
  have len: "length (by_expert E ids) \<le> length ids" by (rule length_by_expert_le)
  define us where "us = map (\<lambda>(g, v). (g, int v)) ?ws"
  have us: "set us = (\<lambda>g. (g, int (place ids g))) ` set (by_expert E ids)" unfolding us_def set_map ws by (simp add: image_image)
  define vs where "vs = map (\<lambda>(g, v). (v, int g)) ?ws"
  have vs: "set vs = (\<lambda>g. (place ids g, int g)) ` set (by_expert E ids)" unfolding vs_def set_map ws by (simp add: image_image)
  have "store_all us (replicate (length ids) (- 1)) = place_column E ids" (is "store_all _ ?xs = _")
  proof (rule nth_equalityI)
    fix g
    assume "g < length (store_all us ?xs)"
    then have g: "g < length ids" by simp
    show "store_all us ?xs ! g = place_column E ids ! g"
    proof (cases "active E ids g")
      case True
      then have "g \<in> set (by_expert E ids)" by (simp add: active_set)
      then have "store_all us ?xs ! g = int (place ids g)" using g by (intro store_all_hit) (auto simp: us)
      then show ?thesis using True g by (simp add: place_column_def)
    next
      case False
      then have "g \<notin> fst ` set us" by (auto simp: us active_set)
      then have "store_all us ?xs ! g = ?xs ! g" by (rule store_all_other)
      then show ?thesis using False g by (simp add: place_column_def)
    qed
  qed (simp add: place_column_def)
  moreover have "store_all vs (replicate (length ids) (- 1)) = order_column (length ids) (by_expert E ids)" (is "store_all _ ?xs = _")
  proof (rule nth_equalityI)
    show "length (store_all vs ?xs) = length (order_column (length ids) (by_expert E ids))" by (simp add: length_order_column)
    fix r
    assume "r < length (store_all vs ?xs)"
    then have r: "r < length ids" by simp
    have there: "place ids g < length (by_expert E ids)" "by_expert E ids ! place ids g = g" if "g \<in> set (by_expert E ids)" for g
      using that by_expert_place [of g ids E] by (auto simp: set_by_expert)
    show "store_all vs ?xs ! r = order_column (length ids) (by_expert E ids) ! r"
    proof (cases "r < length (by_expert E ids)")
      case True
      have "store_all vs ?xs ! r = int (by_expert E ids ! r)"
      proof (rule store_all_hit)
        show "(r, int (by_expert E ids ! r)) \<in> set vs"
          unfolding vs using True place_inj [OF True] by (intro image_eqI [of _ _ "by_expert E ids ! r"]) simp_all
        show "v' = int (by_expert E ids ! r)" if "(r, v') \<in> set vs" for v' using that there unfolding vs by auto
      qed (use r in simp)
      then show ?thesis using True by (simp add: order_column_def nth_append)
    next
      case False
      have "r \<notin> fst ` set vs" unfolding vs using False there by auto
      then have "store_all vs ?xs ! r = ?xs ! r" by (rule store_all_other)
      then show ?thesis using False r len by (simp add: order_column_def nth_append)
    qed
  qed
  ultimately show ?thesis unfolding stage2_def Let_def us_def vs_def by simp
qed

end
