(* ===== verification/MoeBitmatrix.thy ===== *)
theory MoeBitmatrix
  imports MoeBlocks
begin

text \<open>
  The routing of \<open>make_routing_data\<close> in
  \<open>src/patches/gpt_oss_triton_kernels_moe.pack128-fused-silu-fast-routing.py\<close>: the packed bit matrix of the chosen
  experts, the metadata built from it, and the choice of the single-kernel path.  The sums of the
  library over the bit matrix are parameters; ids are taken to fit 16 bits.
\<close>

section \<open>Packing\<close>

text \<open>One word of a row: the bits of the lanes whose expert falls into the word.\<close>

definition lane_word :: "int list \<Rightarrow> nat \<Rightarrow> nat \<Rightarrow> 32 word" where
  "lane_word row i k =
     (let idx = (if k < length row then row ! k else - 1)
      in if idx \<ge> 0 \<and> idx div 32 = int i then push_bit (nat (idx mod 32)) 1 else 0)"

definition pack_row :: "nat \<Rightarrow> int list \<Rightarrow> 32 word list" where
  "pack_row bm_cols row = map (\<lambda>i. fold (OR) (map (lane_word row i) [0..<32]) 0) [0..<bm_cols]"

definition pack_bitmatrix :: "nat \<Rightarrow> nat \<Rightarrow> int list list \<Rightarrow> 32 word list list \<Rightarrow> 32 word list list" where
  "pack_bitmatrix block_m bm_cols rows memory =
     store_all (concat (map (\<lambda>pid. map (\<lambda>m. (m, pack_row bm_cols (rows ! m)))
         (filter (\<lambda>m. m < length rows) [pid * block_m..<pid * block_m + block_m])) [0..<(length rows + block_m - 1) div block_m]))
       memory"

definition has_expert :: "32 word list \<Rightarrow> nat \<Rightarrow> bool" where
  "has_expert ws c = bit (ws ! (c div 32)) (c mod 32)"

lemma bit_fold_or: "bit (fold (OR) ws a) n \<longleftrightarrow> bit a n \<or> (\<exists>w \<in> set ws. bit w n)" for a :: "32 word"
  by (induction ws arbitrary: a) (auto simp: bit_or_iff)

lemma bit_lane_word:
  assumes "n < 32"
  shows "bit (lane_word row i k) n \<longleftrightarrow> k < length row \<and> row ! k = int (32 * i + n)"
proof -
  have "bit (push_bit m 1 :: 32 word) n \<longleftrightarrow> m = n" for m using assms by (auto simp: bit_exp_iff)
  moreover have "idx \<ge> 0 \<and> idx div 32 = int i \<and> nat (idx mod 32) = n \<longleftrightarrow> idx = int (32 * i + n)" for idx :: int
    using assms by (auto simp: zdiv_int) presburger+
  ultimately show ?thesis by (auto simp: lane_word_def Let_def)
qed

text \<open>A bit of a packed row is set exactly if its expert is among the first 32 of the row.\<close>

lemma pack_row_bits:
  assumes "c < 32 * bm_cols"
  shows "has_expert (pack_row bm_cols row) c \<longleftrightarrow> int c \<in> set (take 32 row)"
proof -
  have word: "c div 32 < bm_cols" "c mod 32 < 32" "32 * (c div 32) + c mod 32 = c" using assms by simp_all
  have "has_expert (pack_row bm_cols row) c \<longleftrightarrow> (\<exists>k < 32. k < length row \<and> row ! k = int c)"
    using word by (auto simp: has_expert_def pack_row_def bit_fold_or bit_lane_word)
  also have "\<dots> \<longleftrightarrow> int c \<in> set (take 32 row)" by (auto simp: in_set_conv_nth)
  finally show ?thesis .
qed

lemma pack_bitmatrix_rows:
  assumes "0 < block_m" "length memory = length rows"
  shows "pack_bitmatrix block_m bm_cols rows memory = map (pack_row bm_cols) rows"
proof (rule nth_equalityI)
  let ?k = "(length rows + block_m - 1) div block_m"
  let ?ws = "concat (map (\<lambda>pid. map (\<lambda>m. (m, pack_row bm_cols (rows ! m)))
      (filter (\<lambda>m. m < length rows) [pid * block_m..<pid * block_m + block_m])) [0..<?k])"
  fix m
  assume "m < length (pack_bitmatrix block_m bm_cols rows memory)"
  then have m: "m < length rows" using assms(2) by (simp add: pack_bitmatrix_def)
  have "store_all ?ws memory ! m = pack_row bm_cols (rows ! m)"
  proof (rule store_all_hit)
    have "length rows \<le> ?k * block_m" by (rule chunk_count [OF assms(1)])
    then have "m div block_m < ?k" using m assms(1) by (simp add: div_less_iff_less_mult)
    moreover have "m \<in> set [m div block_m * block_m..<m div block_m * block_m + block_m]"
      using dividend_less_div_times [OF assms(1), of m] by simp
    ultimately show "(m, pack_row bm_cols (rows ! m)) \<in> set ?ws" using m by (auto intro!: bexI [of _ "m div block_m"])
  qed (use m assms(2) in auto)
  then show "pack_bitmatrix block_m bm_cols rows memory ! m = map (pack_row bm_cols) rows ! m"
    using m by (simp add: pack_bitmatrix_def)
qed (simp add: pack_bitmatrix_def assms(2))

section \<open>Routing data\<close>

text \<open>\<open>(max(block_size, 1) - 1).bit_length()\<close>.\<close>

fun bit_length :: "nat \<Rightarrow> nat" where
  "bit_length n = (if n = 0 then 0 else Suc (bit_length (n div 2)))"

declare bit_length.simps [simp del]

lemma below_power: "n < 2 ^ bit_length n"
proof (induction n rule: bit_length.induct)
  case (1 n)
  show ?case
  proof (cases "n = 0")
    case False
    then have "n div 2 < 2 ^ bit_length (n div 2)" using 1 by simp
    then have "n < 2 * 2 ^ bit_length (n div 2)" by linarith
    then show ?thesis using False by (simp add: bit_length.simps [of n])
  qed simp
qed

text \<open>The library: the operator of the scan, and of a bit matrix the column sums, the sums of the
  blocks of 32 rows before one, and the sums of the columns before one.\<close>

record routing_library =
  keyed_add :: "32 word \<Rightarrow> 32 word \<Rightarrow> 32 word"
  column_sum :: "32 word list list \<Rightarrow> nat \<Rightarrow> nat"
  partial_sum :: "32 word list list \<Rightarrow> nat \<Rightarrow> nat \<Rightarrow> nat"
  column_offset :: "32 word list list \<Rightarrow> nat \<Rightarrow> nat"

text \<open>\<^term>\<open>None\<close>: the assertion on the padded size of a block fails.\<close>

definition make_bitmatrix_metadata :: "routing_library \<Rightarrow> nat \<Rightarrow> int list list \<Rightarrow> 32 word list list \<Rightarrow> (int list \<times> int list) option" where
  "make_bitmatrix_metadata lib topk rows bitmatrix =
     (let block_size = 32 * topk; padded = 2 ^ bit_length (max block_size 1 - 1)
      in if padded > 32768 then None
         else Some (stage2 (keyed_add lib) block_size padded ((length rows + 31) div 32) (partial_sum lib bitmatrix)
                (column_offset lib bitmatrix) (concat rows)))"

record routing_indices =
  combine_indx :: "int list"
  dispatch_indx :: "int list"
  gate_scal :: "real list"
  column_counts :: "nat list"

text \<open>A negative index takes from the end.\<close>

definition take_index :: "real list \<Rightarrow> int \<Rightarrow> real" where
  "take_index xs i = (if i < 0 then xs ! nat (int (length xs) + i) else xs ! nat i)"

definition bitmatrix_routing :: "routing_library \<Rightarrow> 32 word list list \<Rightarrow> nat \<Rightarrow> nat \<Rightarrow> int list list \<Rightarrow> real list list \<Rightarrow> routing_indices option" where
  "bitmatrix_routing lib memory E topk rows weights =
     (let bitmatrix = pack_bitmatrix 128 ((E + 31) div 32) rows memory;
          vals = map2 (\<lambda>c w. if c = - 1 then - 1 else w) (concat rows) (concat weights)
      in map_option (\<lambda>(combine, dispatch).
           \<lparr> combine_indx = combine, dispatch_indx = dispatch, gate_scal = map (take_index vals) combine,
             column_counts = map (column_sum lib bitmatrix) [0..<E] \<rparr>)
           (make_bitmatrix_metadata lib topk rows bitmatrix))"

definition fast_applies :: "nat \<Rightarrow> nat \<Rightarrow> int list list \<Rightarrow> bool" where
  "fast_applies E topk rows \<longleftrightarrow> E = 256 \<and> topk = 6 \<and> 0 < length rows \<and> length rows \<le> 128"

definition indices_of :: "fast_routing \<Rightarrow> routing_indices" where
  "indices_of r = \<lparr> combine_indx = combine r, dispatch_indx = dispatch r, gate_scal = gate r, column_counts = hist r \<rparr>"

text \<open>The current interface of the library, for contiguous ids and weights.\<close>

definition make_routing_data ::
  "routing_library \<Rightarrow> (nat \<Rightarrow> nat) \<Rightarrow> (nat \<Rightarrow> nat \<Rightarrow> nat) \<Rightarrow> (nat \<Rightarrow> int) \<Rightarrow> 32 word list list \<Rightarrow> nat \<Rightarrow> nat \<Rightarrow> int list list \<Rightarrow> real list list \<Rightarrow> routing_indices option" where
  "make_routing_data lib pow2 max_n_tiles memory bits E topk rows weights =
     (if fast_applies E topk rows then Some (indices_of (fast_make_routing_data pow2 max_n_tiles memory E rows weights))
      else bitmatrix_routing lib bits E topk rows weights)"

section \<open>Counting\<close>

text \<open>A row lists an expert at most once.\<close>

definition topk_rows :: "nat \<Rightarrow> nat \<Rightarrow> int list list \<Rightarrow> bool" where
  "topk_rows E topk rows \<longleftrightarrow>
     list_all (\<lambda>row. length row = topk \<and> valid_ids E row \<and> distinct (filter (\<lambda>c. c \<noteq> - 1) row)) rows"

lemma topk_rowsD:
  assumes "topk_rows E topk rows" "r < length rows"
  shows "length (rows ! r) = topk" "valid_ids E (rows ! r)" "distinct (filter (\<lambda>c. c \<noteq> - 1) (rows ! r))"
  using assms by (simp_all add: topk_rows_def list_all_length)

lemma topk_concat:
  assumes "topk_rows E topk rows"
  shows "length (concat rows) = length rows * topk" "valid_ids E (concat rows)"
proof -
  have "map length rows = replicate (length rows) topk"
    using topk_rowsD(1) [OF assms] by (intro nth_equalityI) simp_all
  then show "length (concat rows) = length rows * topk" by (simp add: length_concat sum_list_replicate)
  show "valid_ids E (concat rows)" using assms by (auto simp: topk_rows_def valid_ids_def list_all_iff)
qed

lemma concat_rows_nth:
  assumes "topk_rows E topk rows" "r < length rows" "j < topk"
  shows "concat rows ! (r * topk + j) = rows ! r ! j"
proof -
  have "map length rows = replicate (length rows) topk"
    using topk_rowsD(1) [OF assms(1)] by (intro nth_equalityI) simp_all
  then have "sum_list (take r (map length rows)) = r * topk" using assms(2) by (simp add: sum_list_replicate)
  then show ?thesis using concat_place(2) [OF assms(2), of j] topk_rowsD(1) [OF assms(1,2)] assms(3) by simp
qed

lemma distinct_count: "distinct xs \<Longrightarrow> length (filter (\<lambda>x. x = a) xs) = (if a \<in> set xs then 1 else 0)"
  by (induction xs) (auto simp: filter_empty_conv)

lemma count_in_row:
  assumes "distinct (filter (\<lambda>c. c \<noteq> - 1) row)"
  shows "length (filter (\<lambda>j. row ! j = int c) [0..<length row]) = (if int c \<in> set row then 1 else 0)"
proof -
  have "length (filter (\<lambda>j. row ! j = int c) [0..<length row]) = length (filter (\<lambda>x. x = int c) row)"
  proof -
    have "filter (\<lambda>x. x = int c) (map ((!) row) [0..<length row]) = map ((!) row) (filter (\<lambda>j. row ! j = int c) [0..<length row])"
      by (simp add: filter_map comp_def)
    then show ?thesis by (simp add: map_nth)
  qed
  also have "filter (\<lambda>x. x = int c) row = filter (\<lambda>x. x = int c) (filter (\<lambda>c. c \<noteq> - 1) row)"
    by (simp add: conj_commute cong: conj_cong)
  also have "length \<dots> = (if int c \<in> set (filter (\<lambda>c. c \<noteq> - 1) row) then 1 else 0)"
    by (rule distinct_count [OF assms])
  finally show ?thesis by simp
qed

text \<open>The assignments of an expert in the first rows are the rows that list it.\<close>

lemma count_rows:
  assumes "topk_rows E topk rows" "m \<le> length rows"
  shows "length (filter (\<lambda>k. concat rows ! k = int c) [0..<m * topk]) = length (filter (\<lambda>r. int c \<in> set (rows ! r)) [0..<m])"
  using assms(2)
proof (induction m)
  case (Suc m)
  have m: "m < length rows" using Suc.prems by simp
  have "filter (\<lambda>j. concat rows ! (m * topk + j) = int c) [0..<topk] = filter (\<lambda>j. rows ! m ! j = int c) [0..<topk]"
    using concat_rows_nth [OF assms(1) m] by (intro filter_cong) auto
  moreover have "length (filter (\<lambda>j. rows ! m ! j = int c) [0..<topk]) = (if int c \<in> set (rows ! m) then 1 else 0)"
    using count_in_row [OF topk_rowsD(3) [OF assms(1) m]] topk_rowsD(1) [OF assms(1) m] by simp
  moreover have "[0..<Suc m * topk] = [0..<m * topk + topk]" by (simp add: add.commute)
  ultimately show ?case using Suc by (simp add: filter_block)
qed simp

lemma expert_rows:
  assumes "topk_rows E topk rows"
  shows "length (of_expert (concat rows) c) = length (filter (\<lambda>r. int c \<in> set (rows ! r)) [0..<length rows])"
  using count_rows [OF assms order.refl, of c] topk_concat(1) [OF assms] by (simp add: of_expert_def)

lemma expert_rows_le: "topk_rows E topk rows \<Longrightarrow> length (of_expert (concat rows) c) \<le> length rows"
  using length_filter_le [of _ "[0..<length rows]"] by (simp add: expert_rows)

lemma sum_expert_sizes: "sum_list (expert_sizes E ids) = length (by_expert E ids)"
  by (simp add: expert_sizes_def by_expert_def length_concat comp_def)

section \<open>Both paths\<close>

text \<open>What the library documents of its sums.\<close>

definition sums_documented :: "routing_library \<Rightarrow> bool" where
  "sums_documented lib \<longleftrightarrow>
     (\<forall>bm b c. column_sum lib bm c = length (filter (\<lambda>r. has_expert (bm ! r) c) [0..<length bm])
       \<and> partial_sum lib bm b c = length (filter (\<lambda>r. has_expert (bm ! r) c) [0..<min (32 * b) (length bm)])
       \<and> column_offset lib bm c = sum_list (map (column_sum lib bm) [0..<c]))"

text \<open>What the kernels use of the routing: the gates behind the assignments are never read.\<close>

definition assigned :: "routing_indices \<Rightarrow> int list \<times> int list \<times> nat list \<times> real list" where
  "assigned g = (combine_indx g, dispatch_indx g, column_counts g, take (sum_list (column_counts g)) (gate_scal g))"

definition reference_routing :: "nat \<Rightarrow> int list \<Rightarrow> real list \<Rightarrow> int list \<times> int list \<times> nat list \<times> real list" where
  "reference_routing E ids weights =
     (order_column (length ids) (by_expert E ids), place_column E ids, expert_sizes E ids, map ((!) weights) (by_expert E ids))"

lemma packed_experts:
  assumes "topk_rows E topk rows" "topk \<le> 32" "r < length rows" "c < E"
  shows "has_expert (map (pack_row ((E + 31) div 32)) rows ! r) c \<longleftrightarrow> int c \<in> set (rows ! r)"
proof -
  have "c < 32 * ((E + 31) div 32)" using assms(4) by presburger
  then show ?thesis using pack_row_bits topk_rowsD(1) [OF assms(1,3)] assms(2,3) by simp
qed

lemma packed_counts:
  assumes "topk_rows E topk rows" "topk \<le> 32" "c < E" "m \<le> length rows"
  shows "length (filter (\<lambda>r. has_expert (map (pack_row ((E + 31) div 32)) rows ! r) c) [0..<m])
    = length (filter (\<lambda>k. concat rows ! k = int c) [0..<m * topk])"
proof -
  have "filter (\<lambda>r. has_expert (map (pack_row ((E + 31) div 32)) rows ! r) c) [0..<m] = filter (\<lambda>r. int c \<in> set (rows ! r)) [0..<m]"
    using assms packed_experts by (intro filter_cong) auto
  then show ?thesis using count_rows [OF assms(1,4)] by simp
qed

lemma bitmatrix_routing_reference:
  assumes rows: "topk_rows E topk rows" "0 < topk" "topk \<le> 32" "E \<le> 32768" "length (concat weights) = length (concat rows)"
    and lib: "keyed_adds (keyed_add lib)" "sums_documented lib" and "length memory = length rows"
  shows "map_option assigned (bitmatrix_routing lib memory E topk rows weights)
    = Some (reference_routing E (concat rows) (concat weights))"
proof -
  let ?ids = "concat rows" and ?bm = "map (pack_row ((E + 31) div 32)) rows"
  let ?padded = "2 ^ bit_length (max (32 * topk) 1 - 1) :: nat"
  have sums: "column_sum lib ?bm c = length (of_expert ?ids c)" if "c < E" for c
  proof -
    have "column_sum lib ?bm c = length (filter (\<lambda>r. has_expert (?bm ! r) c) [0..<length ?bm])"
      using lib(2) unfolding sums_documented_def by blast
    then show ?thesis
      using packed_counts [OF rows(1,3) that order.refl] topk_concat(1) [OF rows(1)] by (simp add: of_expert_def)
  qed
  have offs: "column_offset lib ?bm c = length (by_expert c ?ids)" if "c < E" for c
  proof -
    have cols: "map (column_sum lib ?bm) [0..<c] = map (\<lambda>e. length (of_expert ?ids e)) [0..<c]"
      using that by (intro map_cong) (simp_all add: sums)
    have "column_offset lib ?bm c = sum_list (map (column_sum lib ?bm) [0..<c])"
      using lib(2) unfolding sums_documented_def by blast
    then show ?thesis unfolding cols by (simp add: by_expert_def length_concat comp_def)
  qed
  have partial: "partial_sum lib ?bm b c = length (filter (\<lambda>k. ?ids ! k = int c) [0..<b * (32 * topk)])"
    if "b < (length rows + 31) div 32" "c < E" for b c
  proof -
    have "Suc b * 32 \<le> (length rows + 31) div 32 * 32" using that(1) by (intro mult_le_mono1) simp
    also have "\<dots> \<le> length rows + 31" by simp
    finally have b: "32 * b \<le> length rows" by simp
    have whole: "partial_sum lib ?bm b c = length (filter (\<lambda>r. has_expert (?bm ! r) c) [0..<min (32 * b) (length ?bm)])"
      using lib(2) unfolding sums_documented_def by blast
    have "partial_sum lib ?bm b c = length (filter (\<lambda>r. has_expert (?bm ! r) c) [0..<32 * b])"
      unfolding whole length_map min_absorb1 [OF b] ..
    also have "\<dots> = length (filter (\<lambda>k. ?ids ! k = int c) [0..<32 * b * topk])"
      by (rule packed_counts [OF rows(1,3) that(2) b])
    also have "32 * b * topk = b * (32 * topk)" by simp
    finally show ?thesis .
  qed
  have size: "32 * topk \<le> ?padded" "?padded \<le> 2048"
  proof -
    show "32 * topk \<le> ?padded" using below_power [of "max (32 * topk) 1 - 1"] rows(2) by simp
    have "bit_length m \<le> 11" if "m < 2048" for m
    proof -
      have "bit_length m \<le> k" if "m < 2 ^ k" for k :: nat
        using that by (induction m arbitrary: k rule: bit_length.induct)
          (case_tac k; simp add: bit_length.simps)
      from this [of 11] show ?thesis using that by simp
    qed
    from this [of "max (32 * topk) 1 - 1"] have "bit_length (max (32 * topk) 1 - 1) \<le> 11" using rows(3) by simp
    then have "?padded \<le> 2 ^ 11" by (intro power_increasing) simp_all
    then show "?padded \<le> 2048" by simp
  qed
  have blocks: "length ?ids \<le> (length rows + 31) div 32 * (32 * topk)"
  proof -
    have "length rows \<le> (length rows + 31) div 32 * 32" by presburger
    then have "length rows * topk \<le> (length rows + 31) div 32 * 32 * topk" by (rule mult_le_mono1)
    then show ?thesis using topk_concat(1) [OF rows(1)] by (simp add: mult.assoc)
  qed
  have sorted: "stage2 (keyed_add lib) (32 * topk) ?padded ((length rows + 31) div 32) (partial_sum lib ?bm) (column_offset lib ?bm) ?ids
      = (order_column (length ?ids) (by_expert E ?ids), place_column E ?ids)"
    by (rule stage2_sorts [where E = E])
      (use lib(1) topk_concat(2) [OF rows(1)] rows(2,4) size blocks partial offs in simp_all)
  let ?vals = "map2 (\<lambda>c w. if c = - 1 then - 1 else w) ?ids (concat weights)"
  have gates: "take (length (by_expert E ?ids)) (map (take_index ?vals) (order_column (length ?ids) (by_expert E ?ids)))
      = map ((!) (concat weights)) (by_expert E ?ids)"
    using rows(5) by (auto simp: order_column_def take_map take_index_def set_by_expert)
  have counts: "map (column_sum lib ?bm) [0..<E] = expert_sizes E ?ids"
    by (simp add: expert_sizes_def sums)
  have "\<not> 32768 < ?padded" using size(2) by simp
  then show ?thesis
    unfolding bitmatrix_routing_def make_bitmatrix_metadata_def Let_def pack_bitmatrix_rows [OF zero_less_numeral assms(8)] sorted
    by (simp add: assigned_def reference_routing_def counts sum_expert_sizes gates del: take_map)
qed

end
