(* ===== verification/MoeProps.thy ===== *)
theory MoeProps
  imports MoeBitmatrix
begin

text \<open>
  The two paths of \<open>make_routing_data\<close> agree, and the single kernel schedules every tile.
\<close>

section \<open>The single kernel\<close>

lemma fast_reference:
  assumes rows: "topk_rows 256 6 rows" "0 < length rows" "length rows \<le> 128" "length (concat weights) = length (concat rows)"
    and pow2: "\<And>n. 0 < n \<Longrightarrow> n \<le> pow2 n \<and> pow2 n < 2 * n"
  shows "assigned (indices_of (fast_make_routing_data pow2 max_n_tiles memory 256 rows weights))
    = reference_routing 256 (concat rows) (concat weights)"
proof -
  let ?ids = "concat rows" and ?S = "pow2 (length (concat rows))"
  have n: "length ?ids = 6 * length rows" using topk_concat(1) [OF rows(1)] by simp
  then have S: "length ?ids \<le> ?S" "?S < 1536" using pow2 [of "length ?ids"] rows(2,3) by simp_all
  have keys: "int 256 * int ?S < sentinel" using S(2) by (simp add: sentinel_def)
  have gates: "take (length (by_expert 256 ?ids))
      (map (\<lambda>k. if sorted_keys 256 ?S ?ids ! k \<noteq> sentinel then concat weights ! nat (sorted_keys 256 ?S ?ids ! k mod int ?S) else - 1)
        [0..<length ?ids])
      = map ((!) (concat weights)) (by_expert 256 ?ids)"
    using sorted_keys_nth [OF S(1) keys] length_by_expert_le [of 256 ?ids] S(1)
    by (intro nth_equalityI) auto
  show ?thesis
    unfolding fast_make_routing_data_def fast_deepseek_routing_def Let_def indices_of_def assigned_def
    by (simp only: fast_routing.simps routing_indices.simps fast_combine [OF S(1) keys] fast_dispatch [OF S(1) keys]
      count_experts_sizes [OF S(1)] sum_expert_sizes gates reference_routing_def)
qed

lemma fast_histogram:
  assumes "length (concat rows) \<le> pow2 (length (concat rows))"
  shows "hist (fast_make_routing_data pow2 max_n_tiles memory E rows weights) = expert_sizes E (concat rows)"
  unfolding fast_make_routing_data_def fast_deepseek_routing_def Let_def
  by (simp only: fast_routing.simps count_experts_sizes [OF assms])

section \<open>Properties\<close>

text \<open>C37: Where the single kernel applies, it returns the order of the assignments by expert, its inverse, the counts
  and the gates of the assignments that the bit matrix, the block sort and the gather return.\<close>

theorem routing_paths_agree:
  assumes "topk_rows 256 6 rows" "0 < length rows" "length rows \<le> 128" "length (concat weights) = length (concat rows)"
    and "length bits = length rows" "keyed_adds (keyed_add lib)" "sums_documented lib"
    and "\<And>n. 0 < n \<Longrightarrow> n \<le> pow2 n \<and> pow2 n < 2 * n"
  shows "map_option assigned (make_routing_data lib pow2 max_n_tiles memory bits 256 6 rows weights)
      = map_option assigned (bitmatrix_routing lib bits 256 6 rows weights)
    \<and> map_option assigned (bitmatrix_routing lib bits 256 6 rows weights)
      = Some (reference_routing 256 (concat rows) (concat weights))"
proof -
  have bits: "map_option assigned (bitmatrix_routing lib bits 256 6 rows weights)
      = Some (reference_routing 256 (concat rows) (concat weights))"
    using assms by (intro bitmatrix_routing_reference) simp_all
  have "fast_applies 256 6 rows" using assms by (simp add: fast_applies_def)
  then have "map_option assigned (make_routing_data lib pow2 max_n_tiles memory bits 256 6 rows weights)
      = Some (reference_routing 256 (concat rows) (concat weights))"
    using fast_reference [OF assms(1-4,8), where ?max_n_tiles = max_n_tiles and memory = memory]
    by (simp add: make_routing_data_def)
  with bits show ?thesis by (simp only:)
qed

definition demo_keyed_add :: "32 word \<Rightarrow> 32 word \<Rightarrow> 32 word" where
  "demo_keyed_add x y = (if kv_col x = kv_col y then x + word_of_nat (kv_off y) else y)"

definition demo_library :: routing_library where
  "demo_library =
     (let count = (\<lambda>bm c m. length (filter (\<lambda>r. has_expert (bm ! r) c) [0..<m]))
      in \<lparr> keyed_add = demo_keyed_add, column_sum = (\<lambda>bm c. count bm c (length bm)),
           partial_sum = (\<lambda>bm b c. count bm c (min (32 * b) (length bm))),
           column_offset = (\<lambda>bm c. sum_list (map (\<lambda>c. count bm c (length bm)) [0..<c])) \<rparr>)"

definition demo_pow2 :: "nat \<Rightarrow> nat" where "demo_pow2 n = 2 ^ bit_length (n - 1)"

lemma demo_keyed_adds: "keyed_adds demo_keyed_add"
  unfolding keyed_adds_def
proof (intro allI impI)
  fix x y :: "32 word"
  assume small: "kv_off x + kv_off y < 65536"
  have "kv_col x < 65536"
    using unsigned_less [of x] by (simp add: kv_col_div div_less_iff_less_mult)
  then have fits: "kv_col x * 65536 + kv_off x + kv_off y < 2 ^ LENGTH(32)" using small by simp
  have "(word_of_nat (kv_col x * 65536 + kv_off x) :: 32 word) = x"
    unfolding word_parts [symmetric] by simp
  then have "unat (x + word_of_nat (kv_off y)) = unat (word_of_nat (kv_col x * 65536 + kv_off x + kv_off y) :: 32 word)"
    by (metis of_nat_add)
  also have "\<dots> = kv_col x * 65536 + (kv_off x + kv_off y)" using fits by (simp only: unat_of_nat mod_less add.assoc)
  finally have "unat (x + word_of_nat (kv_off y)) = kv_col x * 65536 + (kv_off x + kv_off y)" .
  then show "if kv_col x = kv_col y
      then kv_col (demo_keyed_add x y) = kv_col x \<and> kv_off (demo_keyed_add x y) = kv_off x + kv_off y
      else demo_keyed_add x y = y"
    using small by (auto simp: demo_keyed_add_def kv_col_div [of "x + _"] kv_off_mod [of "x + _"])
qed

lemma demo_pow2_range: "0 < n \<Longrightarrow> n \<le> demo_pow2 n \<and> demo_pow2 n < 2 * n"
proof -
  have double: "0 < m \<Longrightarrow> 2 ^ bit_length m \<le> 2 * m" for m
  proof (induction m rule: bit_length.induct)
    case (1 m)
    show ?case
    proof (cases "m div 2 = 0")
      case True
      then show ?thesis using 1(2) by (simp add: bit_length.simps [of m] bit_length.simps [of 0])
    next
      case False
      then have "2 ^ bit_length (m div 2) \<le> 2 * (m div 2)" using 1 by simp
      then show ?thesis using 1(2) by (simp add: bit_length.simps [of m])
    qed
  qed
  assume n: "0 < n"
  have "2 ^ bit_length (n - 1) < 2 * n"
    using double [of "n - 1"] n by (cases "n = 1") (simp_all add: bit_length.simps [of 0])
  then show ?thesis using below_power [of "n - 1"] n by (simp add: demo_pow2_def)
qed

theorem routing_paths_agree_witness:
  "map_option (fst \<circ> assigned) (make_routing_data demo_library demo_pow2 (\<lambda>_ _. 64) (\<lambda>_. 7) [[]] 256 6
      [[3, 1, 7, 200, -1, 5]] [[1, 2, 3, 4, 5, 6]]) = Some [1, 0, 5, 2, 3, -1]"
proof -
  have "sums_documented demo_library"
    by (simp add: sums_documented_def demo_library_def Let_def)
  moreover have "keyed_adds (keyed_add demo_library)" by (simp add: demo_library_def Let_def demo_keyed_adds)
  moreover have "topk_rows 256 6 [[3, 1, 7, 200, -1, 5]]" by (simp add: topk_rows_def valid_ids_def)
  ultimately have "map_option assigned (make_routing_data demo_library demo_pow2 (\<lambda>_ _. 64) (\<lambda>_. 7) [[]] 256 6
      [[3, 1, 7, 200, -1, 5]] [[1, 2, 3, 4, 5, 6]]) = Some (reference_routing 256 [3, 1, 7, 200, -1, 5] [1, 2, 3, 4, 5, 6])"
    using routing_paths_agree [of "[[3, 1, 7, 200, -1, 5]]" "[[1, 2, 3, 4, 5, 6]]" "[[]]" demo_library demo_pow2] demo_pow2_range
    by simp
  then have "map_option (fst \<circ> assigned) (make_routing_data demo_library demo_pow2 (\<lambda>_ _. 64) (\<lambda>_. 7) [[]] 256 6
      [[3, 1, 7, 200, -1, 5]] [[1, 2, 3, 4, 5, 6]]) = Some (order_column 6 (by_expert 256 [3, 1, 7, 200, -1, 5]))"
    by (simp only: option.map_comp [symmetric] reference_routing_def option.map fst_conv) (simp add: eval_nat_numeral)
  moreover have "order_column 6 (by_expert 256 [3, 1, 7, 200, -1, 5]) = [1, 0, 5, 2, 3, -1]"
    by (simp add: order_column_def by_expert_def of_expert_def upt_rec)
  ultimately show ?thesis by simp
qed

text \<open>C38: The schedule of every block size lists each tile of each expert's assignments exactly once, in the order of
  the experts, and \<open>-1\<close> behind them, whatever was in the memory.\<close>

theorem tiles_scheduled:
  fixes weights :: "real list list" and memory :: "nat \<Rightarrow> int" and rows :: "int list list" and pow2 :: "nat \<Rightarrow> nat"
    and max_n_tiles :: "nat \<Rightarrow> nat \<Rightarrow> nat" and E :: nat
  assumes "topk_rows E topk rows" "0 < topk" "rows \<noteq> []" "size_id < 5"
    and "\<And>n. 0 < n \<Longrightarrow> n \<le> pow2 n"
    and "\<And>hs. length hs = E \<Longrightarrow> sum_list hs \<le> length (concat rows) \<Longrightarrow>
        sum_list (tiles 0 hs) \<le> max_n_tiles E (length (concat rows))"
    and "0 < max_n_tiles E (length (concat rows))"
  defines "r \<equiv> fast_make_routing_data pow2 max_n_tiles memory E rows weights"
    and "m \<equiv> max_n_tiles E (length (concat rows))"
  shows "take m (drop (size_id * m) (block_schedule r)) = tiles_of size_id (hist r) @ replicate (m - sum_list (tiles size_id (hist r))) (- 1)
    \<and> hist r = expert_sizes E (concat rows)"
proof -
  let ?ids = "concat rows"
  have "length ?ids = length rows * topk" by (rule topk_concat(1) [OF assms(1)])
  then have n: "0 < length ?ids" using assms(2,3) by simp
  then have S: "length ?ids \<le> pow2 (length ?ids)" by (rule assms(5))
  have hist: "hist r = expert_sizes E ?ids" unfolding r_def using S by (rule fast_histogram)
  have sched: "block_schedule r = store_all (concat (map (tile_stores m ((length rows + 15) div 16) (expert_sizes E ?ids)) [0..<5]))
      (clear_schedule m (pow2 m) (map memory [0..<5 * m]))"
    unfolding r_def m_def fast_make_routing_data_def fast_deepseek_routing_def Let_def
    by (simp only: fast_routing.simps count_experts_sizes [OF S])
  have "tiles 0 (expert_sizes E ?ids) ! e \<le> (length rows + 15) div 16" if "e < E" for e
  proof -
    have "expert_sizes E ?ids ! e + 15 \<le> length rows + 15"
      using that expert_rows_le [OF assms(1), of e] by (simp add: expert_sizes_def)
    then have "(expert_sizes E ?ids ! e + 15) div 16 \<le> (length rows + 15) div 16" by (rule div_le_mono)
    then show ?thesis using that by (simp add: tiles_nth expert_sizes_def add.commute [of _ 15])
  qed
  then have blocks: "\<forall>e < length (expert_sizes E ?ids). tiles 0 (expert_sizes E ?ids) ! e \<le> (length rows + 15) div 16"
    by (simp add: expert_sizes_def)
  have "sum_list (tiles 0 (expert_sizes E ?ids)) \<le> m"
    unfolding m_def using length_by_expert_le [of E ?ids] by (intro assms(6)) (simp_all add: sum_expert_sizes, simp add: expert_sizes_def)
  moreover have "m \<le> pow2 m" unfolding m_def using assms(7) by (rule assms(5))
  ultimately show ?thesis unfolding hist sched using schedule_row [OF blocks _ _ assms(4)] by simp
qed

theorem tiles_scheduled_witness:
  "take 4 (drop (0 * 4) (block_schedule (fast_make_routing_data demo_pow2 (\<lambda>_ n. n + 1) (\<lambda>_. 7) 2 [[1], [0], [1]] [[1], [2], [3]])))
    = [0, 1, -1, -1]"
proof -
  have "sum_list (tiles 0 hs) \<le> sum_list hs" for hs
  proof -
    have "sum_list (map (\<lambda>h. drop_bit 4 (h + 2 ^ 4 - 1)) hs) \<le> sum_list (map (\<lambda>h. h) hs)"
      by (rule sum_list_mono) (simp add: drop_bit_eq_div)
    then show ?thesis by (simp add: tiles_def)
  qed
  then have room: "sum_list (tiles 0 hs) \<le> n + 1" if "sum_list hs \<le> n" for hs n using that le_trans by fastforce
  have "topk_rows 2 1 [[1], [0], [1]]" by (simp add: topk_rows_def valid_ids_def)
  from tiles_scheduled [OF this, of 0 demo_pow2 "\<lambda>_ n. n + 1" "\<lambda>_. 7" "[[1], [2], [3]]"]
  have *: "take 4 (drop (0 * 4) (block_schedule (fast_make_routing_data demo_pow2 (\<lambda>_ n. n + 1) (\<lambda>_. 7) 2 [[1], [0], [1]] [[1], [2], [3]])))
      = tiles_of 0 (expert_sizes 2 [1, 0, 1]) @ replicate (4 - sum_list (tiles 0 (expert_sizes 2 [1, 0, 1]))) (- 1)"
    using demo_pow2_range room by (simp add: eval_nat_numeral)
  show ?thesis unfolding * by code_simp
qed

end
