(* ===== verification/Spec2Isabelle.thy ===== *)
theory Spec2Isabelle
  imports FailOpen EvictionGate ShardLeaseProps AsyncLookupProps FsManagerProps OrphanInvoke OffloadLayoutDemo CopyProps ParserDemo OptFlags StructuralTagProps Mxfp4Props MlaCausal SparseDecode MoeProps
begin

text \<open>
  Verification of the patches that make up the DeepSeek-V4-Flash port for MI300X
  (\<open>src/patches\<close>).  Every patch replaces one file of an inference engine; this development models
  their own logic as HOL functions and proves what makes them correct.  A name in the theories is
  the name in the code, unless a HOL constant has it already.

  \<^bold>\<open>1. The external cache on disk.\<close>  A scheduler asks an external cache for keys and must never wait
  for it for long; files of the cache live in hash shards which several processes share.
  \<^item> \<open>FailOpen\<close>: \<open>kv_lookup_fail_open.py\<close>.  The deadline and the circuit breaker; a request never
    waits past its deadline.
  \<^item> \<open>Flock\<close>, \<open>EvictionGate\<close>: advisory locks of the kernel, and \<open>SharedEvictionGate\<close> of
    \<open>tiering-fs-bounded-lru.py\<close> as a step relation over system calls of many processes; stores and
    evictions exclude each other.
  \<^item> \<open>ShardPaths\<close>, \<open>ShardLease\<close>, \<open>ShardLeaseInv\<close>, \<open>ShardLeaseRun\<close>, \<open>ShardLeaseProps\<close>: paths, and
    \<open>ShardLeaseIndex\<close> of the same file.  The invariant is that reference counts, recorded leases
    and kernel locks agree; one lemma per method, then runs, eviction and pins.
  \<^item> \<open>EvictionWorker\<close>: \<open>ShardEvictionWorker\<close>, its thread split at blocking points.
  \<^item> \<open>AsyncLookup\<close>, \<open>AsyncLookupInv\<close>, \<open>AsyncLookupProps\<close>: \<open>async_lookup.bounded.py\<close>, the scheduler's
    methods and the workers interleaved with them; no key is lost and \<open>flush\<close> is fair.
  \<^item> \<open>FsManager\<close>, \<open>FsManagerInv\<close>, \<open>FsManagerProps\<close>: \<open>tiering-fs-manager.disk-reserve.py\<close>, composed
    of the parts above as the code composes them; reservations, fences and refusals.

  \<^bold>\<open>2. Offloading of the KV cache.\<close>
  \<^item> \<open>OffloadConfig\<close>, \<open>OffloadSched\<close>, \<open>OffloadLookup\<close>, \<open>OffloadStore\<close>, \<open>OffloadJobs\<close>:
    \<open>offloading-scheduler.dspark-prefix.py\<close>.  \<open>None\<close> is a failed assertion or a missing key.
    \<open>OffloadLedger\<close>, \<open>OffloadMatch\<close>, \<open>OffloadStep\<close>, \<open>OffloadRun\<close> keep the ledger of jobs under every
    operation; \<open>OffloadProps\<close> and \<open>OffloadLookupProps\<close> state what holds of reachable states;
    \<open>OffloadDemo\<close> is a run on which they are applied.
  \<^item> \<open>CopyPlan\<close>, \<open>CopyLayout\<close>, \<open>CopyMemory\<close>, \<open>CopyQueue\<close>, \<open>CopyQueueInv\<close>, \<open>CopySubmit\<close>, \<open>CopyProps\<close>:
    \<open>kv_offload_cpu_gpu_worker.load-war.py\<close>.  The plan of a transfer equals a reference layout, the
    staging buffer is transparent, and streams, events and buffers are never shared.
  \<^item> \<open>OffloadLayout\<close>, \<open>OffloadLayoutDemo\<close>: jobs of the scheduler planned by the worker reach the
    right blocks.

  \<^bold>\<open>3. Parsing of tool calls.\<close>  Text flows from the streaming engine through the parser engine to
  the messages of a stream.
  \<^item> \<open>PyText\<close>, \<open>ParserConfig\<close>: text as code points, the declarative formats and the two DSML tables
    (\<open>parser-engine-config.dsml-orphan.py\<close>, \<open>parser-deepseek-v4.dsml-orphan.py\<close>,
    \<open>parser-deepseek-v32.dsml-orphan.py\<close>).
  \<^item> \<open>StreamEngine\<close>, \<open>StreamMonitor\<close>, \<open>StreamProtocol\<close>, \<open>StreamProps\<close>, \<open>OrphanInvoke\<close>:
    \<open>streaming-parser-engine.dsml-orphan.py\<close>.  Monitors of the event stream are a locale; the event
    protocol and the recovery of blocks without a wrapper are its uses.
  \<^item> \<open>ToolUtils\<close>, \<open>ArgDelta\<close>, \<open>ToolDeltas\<close>, \<open>ToolSync\<close>, \<open>ParserEngine\<close>, \<open>ParserExtract\<close>, \<open>DsmlArgs\<close>,
    \<open>ParserProps\<close>, \<open>ParserDemo\<close>: \<open>tool-parser-utils.dsml-orphan.py\<close> and
    \<open>parser-engine.dsml-orphan.py\<close>.  The slots of the calls agree with what the client received, so
    that the deltas of a stream deliver each call once.
  \<^item> \<open>StructuralTags\<close>, \<open>StructuralTagProps\<close>: \<open>structural-tag-registry.deepseek-v4-auto.py\<close>.  The
    grammar for Kimi K3 accepts every response whose calls fit the tools.

  \<^bold>\<open>4. Kernels and their host code.\<close>
  \<^item> \<open>OptFlags\<close>: \<open>triton-kernels-matmul-ogs-opt-flags.dsv4-mi300x.py\<close>.
  \<^item> \<open>Mxfp4Select\<close>, \<open>Mxfp4Layout\<close>, \<open>Mxfp4Props\<close>: \<open>mxfp4.fused-silu.py\<close>, the choice of a backend and
    the layout of weights; both checkpoint formats end in the same layout.
  \<^item> \<open>TensorOps\<close>, \<open>MlaDecode\<close>, \<open>MlaCausal\<close>: \<open>rocm_aiter_mla.dspark-causal.py\<close>; the rows of a
    verification step see exactly what their tokens may see.
  \<^item> \<open>SparseAttention\<close>, \<open>SparseSplit\<close>, \<open>SparsePack\<close>, \<open>SparseChoice\<close>, \<open>SparseDecode\<close>:
    \<open>rocm_aiter_mla_sparse.prefill-bh64.py\<close>.  A block of a kernel adds its rows to an online softmax;
    any split of the work computes the same attention.
  \<^item> \<open>MoeSort\<close>, \<open>MoeRouting\<close>, \<open>MoeStage\<close>, \<open>MoeBlocks\<close>, \<open>MoeBitmatrix\<close>, \<open>MoeProps\<close>:
    \<open>gpt_oss_triton_kernels_moe.pack128-fused-silu-fast-routing.py\<close>.  The single-kernel routing and the
    block sort over 32-bit words give the same order by expert, and every tile is scheduled.

  \<^bold>\<open>Conventions.\<close>  \<open>Prelude\<close> holds dictionaries (association lists in the order of insertion), sums
  over them, and two locales, for invariants of step functions and for counted resources.  State
  is a record that an operation returns updated; threads and processes are interleaved by step
  functions or inductive relations, cut where they block.  Errors are values.  Code outside the
  repository (the engine's classes, the GPU runtime, the libraries) is an argument, with what is
  relied on as named hypotheses; their witnesses instantiate it.  Loops are structural or over a
  list computed beforehand, or carry a measure; where the code counts rounds (the passes of the
  external lookup, the items of a flush) the recursion decreases a measure of the state and no
  fuel is needed.  Floating point is exact reals or fractions, as said in each theory: the
  statements about attention, costs and gates are about the algorithm, not about rounding.

  \<^bold>\<open>Not modelled.\<close>  The indexer and cache-writing kernels (\<open>aiter_pa_mqa_logits.i64.py\<close>,
  \<open>fused_compress_quant_cache.fnuz-shuffle.py\<close>), the reading of encoded cache bytes, the prefill
  of latent attention and the expert matrix products: they are arithmetic of low-precision
  formats or calls of vendor kernels whose semantics is not in the repository.  The routing path
  for the older library repeats the block sort.  The speculative decoding helpers draw random
  numbers on the device.  The build-time patchers replace text in installed files.  Logging,
  metrics, thread start and join, the conversion of Python syntax trees, tests and deployment
  files are left out.
\<close>

end
